(* ===== verification/Mek_Prelude.thy ===== *)
theory Mek_Prelude
  imports Main "HOL-Library.AList" "HOL-Library.Char_ord" "HOL-Library.List_Lexorder"
    "HOL-Library.Multiset"
begin

text \<open>
  What the components share: Go maps as association lists with distinct keys, the reading of
  \<open>sort.Strings\<close> as \<open>sort\<close> under the bytewise lexicographic order (\<open>Char_ord\<close> and
  \<open>List_Lexorder\<close>), in-place updates of the elements of a slice, and the collections of rules that
  the component proofs give to the simplifier.

  A Go map \<open>map[K]V\<close> is a list of pairs without repeated keys. Reading is \<open>gm_get\<close>, writing is
  \<open>gm_put\<close>, and \<open>range\<close> visits the entries in an order Go leaves open: the model visits
  them in list order, and where an outcome could depend on the order a theorem shows that it does
  not. A map that is only ever read by key, so that an absent key and a key with the zero value
  cannot be told apart, is a total function with the zero value as default.
\<close>

named_theorems gomap_simps \<open>rewriting of Go map operations into \<^const>\<open>map_of\<close>\<close>

type_synonym ('k, 'v) gomap = "('k \<times> 'v) list"

subsection \<open>Go maps\<close>

definition gm_get :: "('k, 'v) gomap \<Rightarrow> 'k \<Rightarrow> 'v option" where
  "gm_get m k = map_of m k"

definition gm_put :: "'k \<Rightarrow> 'v \<Rightarrow> ('k, 'v) gomap \<Rightarrow> ('k, 'v) gomap" where
  "gm_put k v m = AList.update k v m"

definition gm_keys :: "('k, 'v) gomap \<Rightarrow> 'k list" where
  "gm_keys m = map fst m"

definition gm_wf :: "('k, 'v) gomap \<Rightarrow> bool" where
  "gm_wf m \<longleftrightarrow> distinct (gm_keys m)"

lemma gm_get_Nil [simp]: "gm_get [] k = None"
  by (simp add: gm_get_def)

lemma gm_get_put [simp]: "gm_get (gm_put k v m) = (gm_get m)(k \<mapsto> v)"
  by (rule ext) (simp add: gm_get_def gm_put_def update_conv')

lemma gm_keys_put [simp]: "gm_keys (gm_put k v m) = (if k \<in> set (gm_keys m) then gm_keys m else gm_keys m @ [k])"
  by (simp add: gm_keys_def gm_put_def update_keys)

lemma gm_wf_Nil [simp]: "gm_wf []"
  by (simp add: gm_wf_def gm_keys_def)

lemma gm_wf_put [simp]: "gm_wf m \<Longrightarrow> gm_wf (gm_put k v m)"
  by (simp add: gm_wf_def)

lemma gm_get_None_iff: "gm_get m k = None \<longleftrightarrow> k \<notin> set (gm_keys m)"
  by (simp add: gm_get_def gm_keys_def map_of_eq_None_iff)

lemma gm_get_Some_key: "gm_get m k = Some v \<Longrightarrow> k \<in> set (gm_keys m)"
  by (metis gm_get_None_iff option.distinct(1))

lemma set_gm_keys: "set (gm_keys m) = {k. \<exists>v. gm_get m k = Some v}"
proof -
  have "set (gm_keys m) = {k. gm_get m k \<noteq> None}"
    by (auto simp: gm_get_None_iff)
  then show ?thesis by auto
qed

lemma gm_wf_mem_get: "gm_wf m \<Longrightarrow> (k, v) \<in> set m \<longleftrightarrow> gm_get m k = Some v"
  by (simp add: gm_wf_def gm_keys_def gm_get_def)

lemma length_gm_keys [simp]: "length (gm_keys m) = length m"
  by (simp add: gm_keys_def)

text \<open>The interface of a Go map, which the status map, the journal's terminal map and the adapter
  registries share: what a read returns after a write, and which keys there are.\<close>

locale go_map =
  fixes get :: "'m \<Rightarrow> 'k \<Rightarrow> 'v option"
    and put :: "'k \<Rightarrow> 'v \<Rightarrow> 'm \<Rightarrow> 'm"
    and empty :: "'m"
    and keys :: "'m \<Rightarrow> 'k list"
    and invar :: "'m \<Rightarrow> bool"
  assumes get_empty: "get empty k = None"
    and get_put: "get (put k v m) k' = (if k' = k then Some v else get m k')"
    and keys_get: "set (keys m) = {k. get m k \<noteq> None}"
    and keys_distinct: "invar m \<Longrightarrow> distinct (keys m)"
    and invar_empty: "invar empty"
    and invar_put: "invar m \<Longrightarrow> invar (put k v m)"
begin

lemma get_put_same: "get (put k v m) k = Some v"
  by (simp add: get_put)

lemma get_put_other: "k' \<noteq> k \<Longrightarrow> get (put k v m) k' = get m k'"
  by (simp add: get_put)

lemma put_put_same: "get (put k v (put k w m)) k' = get (put k v m) k'"
  by (simp add: get_put)

lemma put_swap: "k \<noteq> l \<Longrightarrow> get (put k v (put l w m)) k' = get (put l w (put k v m)) k'"
  by (simp add: get_put)

text \<open>A fold of writes: the last write to a key is what it holds.\<close>

lemma get_fold_put:
  "get (fold (\<lambda>(k, v). put k v) kvs m) k =
     (case map_of (rev kvs) k of None \<Rightarrow> get m k | Some v \<Rightarrow> Some v)"
  by (induction kvs arbitrary: m)
     (auto simp: get_put map_add_def split: option.splits prod.splits)

lemma invar_fold_put: "invar m \<Longrightarrow> invar (fold (\<lambda>(k, v). put k v) kvs m)"
  by (induction kvs arbitrary: m) (auto simp: invar_put split: prod.splits)

lemma keys_put: "set (keys (put k v m)) = insert k (set (keys m))"
  by (auto simp: keys_get get_put)

lemma finite_dom: "finite {k. get m k \<noteq> None}"
  by (metis keys_get finite_set)

end

interpretation gm: go_map gm_get gm_put "[]" gm_keys gm_wf
proof
  show "set (gm_keys m) = {k. gm_get m k \<noteq> None}" for m :: "('k, 'v) gomap"
    by (auto simp: set_gm_keys)
  show "distinct (gm_keys m)" if "gm_wf m" for m :: "('k, 'v) gomap"
    using that by (simp add: gm_wf_def)
qed simp_all

declare gm_get_put [gomap_simps] gm.keys_put [gomap_simps]

subsection \<open>Sorting strings\<close>

text \<open>Go's \<open>sort.Strings\<close> sorts bytewise; the result depends only on the elements.\<close>

lemma sort_perm_eq:
  fixes xs ys :: "'a::linorder list"
  shows "mset xs = mset ys \<Longrightarrow> sort xs = sort ys"
  by (simp add: properties_for_sort)

lemma sort_sorted_eq: "sorted xs \<Longrightarrow> sort xs = xs"
  by (simp add: sorted_sort_id)

lemma mset_filter_perm: "mset xs = mset ys \<Longrightarrow> mset (filter P xs) = mset (filter P ys)"
  by (simp add: mset_filter)

lemma distinct_perm: "mset xs = mset ys \<Longrightarrow> distinct xs = distinct ys"
  by (metis mset_eq_imp_distinct_iff)

lemma set_perm: "mset xs = mset ys \<Longrightarrow> set xs = set ys"
  by (rule mset_eq_setD)

lemma distinct_set_mset_eq: "distinct xs \<Longrightarrow> distinct ys \<Longrightarrow> set xs = set ys \<Longrightarrow> mset xs = mset ys"
  by (simp add: set_eq_iff_mset_eq_distinct)

subsection \<open>Lists and options\<close>

lemma card_Suc_remove: "finite A \<Longrightarrow> x \<in> A \<Longrightarrow> Suc (card (A - {x})) = card A"
  by (metis card_Suc_Diff1)

lemma map_option_SomeD: "map_option f x = Some y \<Longrightarrow> \<exists>z. x = Some z \<and> y = f z"
  by (cases x) auto

lemma fold_invariant:
  assumes "P s" and "\<And>x s. x \<in> set xs \<Longrightarrow> P s \<Longrightarrow> P (f x s)"
  shows "P (fold f xs s)"
  using assms by (induction xs arbitrary: s) auto

text \<open>An error to be ignored: the caller of the code drops the \<open>error\<close> value and goes on with the
  state it had.\<close>

definition ignore_err :: "'s \<Rightarrow> 'e + 's \<Rightarrow> 's" where
  "ignore_err s r = (case r of Inl _ \<Rightarrow> s | Inr s' \<Rightarrow> s')"

lemma ignore_err_simps [simp]: "ignore_err s (Inl e) = s" "ignore_err s (Inr t) = t"
  by (simp_all add: ignore_err_def)

end
