(* ===== verification/Mek_Types.thy ===== *)
theory Mek_Types
  imports Mek_Prelude
begin

text \<open>
  The data model of the execution kernel, \<open>mek/pkg/types/types.go\<close>: the runtime intermediate
  representation (RIR), the canonical execution graph (CEG), node states and the status map.

  The Go string types with named constants (\<open>NodeStatus\<close>, \<open>UnitType\<close>) are datatypes with one
  constructor per constant and one for any other string. A nil slice or map that the code tests for
  nil is \<open>None\<close>; a slice it only ranges over is a list.
\<close>

subsection \<open>Values\<close>

text \<open>Go's \<open>interface{}\<close> as the kernel uses it: the values a JSON document can hold.\<close>

datatype gval = VNil | VStr string | VInt int | VBool bool
  | VList "gval list" | VMap "(string \<times> gval) list"

subsection \<open>RIR: units\<close>

datatype UnitType = UnitAgent | UnitCapability | UnitTask | UnitGate | UnitCheckpoint
  | UnitOther string

record RIRMeta =
  meta_SchemaVersion :: string
  meta_SpecHash :: string
  meta_CompilationID :: string
  meta_CompiledAt :: string
  meta_SourceSpec :: string
  meta_CompilerVersion :: string

record ExecutionPlan =
  plan_SchedulingModel :: string
  plan_ExecutionStrategy :: string
  plan_MaxParallelism :: int
  plan_FailStrategy :: string
  plan_ExecutionMode :: string

record Activation =
  act_Condition :: string
  act_Requires :: "string list"
  act_Optional :: "string list"

record GateBranch =
  br_Condition :: string
  br_Target :: string

record GateConfig =
  gate_Branches :: "GateBranch list"
  gate_Default :: string

record Binding =
  bind_Contract :: string
  bind_Isolation :: string

record DataFlowSource =
  src_Unit :: string
  src_Output :: string

record DataFlowInput =
  dfi_Key :: string
  dfi_From :: DataFlowSource
  dfi_Contract :: string

record DataFlow =
  df_Inputs :: "DataFlowInput list"
  df_Outputs :: "string list"

record RetryConfig =
  retry_MaxAttempts :: int
  retry_Backoff :: string

record Scheduling =
  sched_Priority :: int
  sched_Deadline :: string
  sched_Retry :: "RetryConfig option"

record Validation =
  val_Preconditions :: "string list"
  val_Postconditions :: "string list"
  val_Invariants :: "string list"
  val_FailureModes :: "string list"

record UnitContext =
  uctx_Mode :: string
  uctx_MaxTokens :: int
  uctx_Tools :: "string list"

record Governance =
  gov_RequiredApprovals :: "string list"
  gov_ChangeScope :: string

record Unit =
  unit_ID :: string
  unit_Type :: UnitType
  unit_AgentRef :: string
  unit_Binding :: Binding
  unit_Dependencies :: "string list"
  unit_DataFlow :: DataFlow
  unit_Validation :: Validation
  unit_Scheduling :: Scheduling
  unit_Context :: UnitContext
  unit_Governance :: Governance
  unit_Activation :: Activation
  unit_Gate :: "GateConfig option"

subsection \<open>RIR: graph and document\<close>

record Edge =
  edge_From :: string
  edge_To :: string
  edge_Type :: string

record DAG =
  dag_Nodes :: "string list"
  dag_Edges :: "Edge list"

record IsolatedRegion =
  ireg_Units :: "string list"
  ireg_Reason :: string

record Graph =
  graph_DAG :: DAG
  graph_Cycles :: "string list list"
  graph_IsolatedRegions :: "IsolatedRegion list"

record Assertion =
  asrt_ID :: string
  asrt_Type :: string
  asrt_Predicate :: string
  asrt_OnFailure :: string

record FailureMode =
  fm_ID :: string
  fm_Condition :: string
  fm_Action :: string
  fm_MaxRetries :: int

record IsolationBoundary =
  iso_ID :: string
  iso_Units :: "string list"
  iso_Constraints :: "string list"
  iso_Reason :: string

record Checkpoint =
  cp_AfterUnit :: string
  cp_Save :: "string list"
  cp_Label :: string

record Handoff =
  ho_OutputArtifacts :: "string list"
  ho_Evidence :: "string list"
  ho_NextSpec :: string

record RIR =
  rir_Meta :: RIRMeta
  rir_ExecutionPlan :: ExecutionPlan
  rir_Units :: "Unit list"
  rir_Graph :: Graph
  rir_Assertions :: "Assertion list"
  rir_FailureModes :: "FailureMode list"
  rir_IsolationRegions :: "IsolationBoundary list"
  rir_Checkpoints :: "Checkpoint list"
  rir_Handoff :: Handoff

subsection \<open>CEG\<close>

text \<open>
  \<open>CEG.Nodes\<close> and \<open>CEG.NodeMap\<close> hold pointers to the same nodes. A pointer is the node's
  position in \<open>Nodes\<close>: \<open>ceg_NodeMap\<close> gives positions, and an update through the map is an
  update of the list at that position. \<open>InDegree\<close> is only read and incremented by key, so it is a
  total function with the zero default.
\<close>

record CEGNode =
  node_ID :: string
  node_Type :: UnitType
  node_Activation :: Activation
  node_Gate :: "GateConfig option"
  node_Binding :: Binding
  node_Scheduling :: Scheduling
  node_RegionID :: string
  node_Predecessors :: "string list"
  node_Successors :: "string list"
  node_Layer :: nat

record CEGEdge =
  cedge_From :: string
  cedge_To :: string
  cedge_Type :: string

record CEG =
  ceg_Nodes :: "CEGNode list"
  ceg_Edges :: "CEGEdge list"
  ceg_NodeMap :: "(string, nat) gomap"
  ceg_InDegree :: "string \<Rightarrow> int"
  ceg_Layers :: "string list list"
  ceg_MaxDepth :: nat

text \<open>\<open>ceg.NodeMap[id]\<close>: the node, or nil.\<close>

definition ceg_node :: "CEG \<Rightarrow> string \<Rightarrow> CEGNode option" where
  "ceg_node c i =
     (case gm_get (ceg_NodeMap c) i of
        None \<Rightarrow> None
      | Some k \<Rightarrow> if k < length (ceg_Nodes c) then Some (ceg_Nodes c ! k) else None)"

subsection \<open>Node status\<close>

datatype NodeStatus = StatusBlocked | StatusReady | StatusRunning | StatusSuccess
  | StatusFailure | StatusSkipped | StatusTerminated | StatusOther string

fun IsTerminal :: "NodeStatus \<Rightarrow> bool" where
  "IsTerminal s =
     (s = StatusSuccess \<or> s = StatusFailure \<or> s = StatusSkipped \<or> s = StatusTerminated)"

record NodeState =
  ns_Status :: NodeStatus
  ns_Outputs :: "(string, gval) gomap option"
  ns_Artifacts :: "string list option"

subsection \<open>The status map\<close>

type_synonym StatusMap = "(string, NodeState) gomap"

definition sm_GetState :: "StatusMap \<Rightarrow> string \<Rightarrow> NodeState option" where
  "sm_GetState sm i = gm_get sm i"

definition sm_Get :: "StatusMap \<Rightarrow> string \<Rightarrow> NodeStatus option" where
  "sm_Get sm i = map_option ns_Status (gm_get sm i)"

definition sm_Set :: "StatusMap \<Rightarrow> string \<Rightarrow> NodeStatus \<Rightarrow> StatusMap" where
  "sm_Set sm i s =
     (case gm_get sm i of
        Some st \<Rightarrow> gm_put i (st\<lparr>ns_Status := s\<rparr>) sm
      | None \<Rightarrow> sm)"

definition sm_SetState :: "StatusMap \<Rightarrow> string \<Rightarrow> NodeState \<Rightarrow> StatusMap" where
  "sm_SetState sm i st = gm_put i st sm"

definition sm_Init :: "StatusMap \<Rightarrow> string \<Rightarrow> NodeStatus \<Rightarrow> StatusMap" where
  "sm_Init sm i s = gm_put i \<lparr>ns_Status = s, ns_Outputs = Some [], ns_Artifacts = None\<rparr> sm"

definition sm_All :: "StatusMap \<Rightarrow> StatusMap" where
  "sm_All sm = fold (\<lambda>(k, v) out. gm_put k v out) sm []"

fun sm_AllTerminal :: "StatusMap \<Rightarrow> string list \<Rightarrow> bool" where
  "sm_AllTerminal sm [] = True"
| "sm_AllTerminal sm (i # is) =
     (case sm_Get sm i of
        None \<Rightarrow> False
      | Some s \<Rightarrow> if \<not> IsTerminal s then False else sm_AllTerminal sm is)"

subsection \<open>Results and output\<close>

record ExecutionMetrics =
  em_DurationMs :: int
  em_TokensUsed :: "int option"

record ExecutionResult =
  er_Status :: NodeStatus
  er_Outputs :: "(string, gval) gomap option"
  er_Artifacts :: "string list option"
  er_Escalation :: bool
  er_SelectedBranch :: string
  er_Metrics :: ExecutionMetrics

record ExecutionContext =
  ec_ExecutionID :: string
  ec_NodeID :: string
  ec_RegionID :: string
  ec_TimeoutMs :: int
  ec_FilesystemScope :: string
  ec_NetworkScope :: string

record MEKMetrics =
  mm_TotalDurationMs :: int
  mm_NodesExecuted :: nat
  mm_NodesFailed :: nat
  mm_WavesCompleted :: nat
  mm_EscalationRequested :: bool

record MEKOutput =
  out_StatusMap :: StatusMap
  out_Metrics :: MEKMetrics

subsection \<open>Isolation ordering and helpers\<close>

definition IsolationOrder :: "(string, nat) gomap" where
  "IsolationOrder = [(''inline'', 0), (''process'', 1), (''container'', 2)]"

definition RegionToAdapterIsolation :: "(string, string) gomap" where
  "RegionToAdapterIsolation =
     [(''no_shared_state'', ''process''), (''no_network'', ''process''),
      (''no_filesystem'', ''process''), (''full_sandbox'', ''container'')]"

fun Contains :: "'a list \<Rightarrow> 'a \<Rightarrow> bool" where
  "Contains [] v = False"
| "Contains (e # s) v = (if e = v then True else Contains s v)"

definition MapKeys :: "('k, 'v) gomap \<Rightarrow> 'k list" where
  "MapKeys m = fold (\<lambda>(k, _) keys. keys @ [k]) m []"

text \<open>
  \<open>DeadlineDuration\<close>: an empty deadline is no deadline; a deadline that does not parse is an error
  (with duration 0); one in the past is 0. \<open>parse\<close> is \<open>time.Parse(time.RFC3339, _)\<close> as an instant in
  nanoseconds, \<open>now\<close> the reading of the clock.
\<close>

definition DeadlineDuration :: "(string \<Rightarrow> int option) \<Rightarrow> int \<Rightarrow> string \<Rightarrow> string + int" where
  "DeadlineDuration parse now deadline =
     (if deadline = '''' then Inr 0
      else case parse deadline of
             None \<Rightarrow> Inl ''parse''
           | Some t \<Rightarrow> (let d = t - now in if d < 0 then Inr 0 else Inr d))"

subsection \<open>Lemmas\<close>

lemma sm_Get_GetState: "sm_Get sm i = map_option ns_Status (sm_GetState sm i)"
  by (simp add: sm_Get_def sm_GetState_def)

lemma sm_GetState_Init:
  "sm_GetState (sm_Init sm i s) j =
     (if j = i then Some \<lparr>ns_Status = s, ns_Outputs = Some [], ns_Artifacts = None\<rparr>
      else sm_GetState sm j)"
  by (simp add: sm_GetState_def sm_Init_def)

lemma sm_Get_Init: "sm_Get (sm_Init sm i s) j = (if j = i then Some s else sm_Get sm j)"
  by (simp add: sm_Get_def sm_Init_def)

lemma sm_Get_Set:
  "sm_Get (sm_Set sm i s) j = (if j = i \<and> sm_Get sm i \<noteq> None then Some s else sm_Get sm j)"
  by (auto simp: sm_Get_def sm_Set_def split: option.splits)

lemma sm_GetState_SetState:
  "sm_GetState (sm_SetState sm i st) j = (if j = i then Some st else sm_GetState sm j)"
  by (simp add: sm_GetState_def sm_SetState_def)

lemma sm_AllTerminal_iff:
  "sm_AllTerminal sm is \<longleftrightarrow> (\<forall>i \<in> set is. \<exists>s. sm_Get sm i = Some s \<and> IsTerminal s)"
  by (induction "is") (auto split: option.splits simp del: IsTerminal.simps)

lemma gm_get_fold_put_rebuild:
  "gm_wf sm \<Longrightarrow> gm_get (fold (\<lambda>(k, v) out. gm_put k v out) sm []) k = gm_get sm k"
proof -
  assume "gm_wf sm"
  then have "map_of (rev sm) = map_of sm"
    by (subst map_of_inject_set) (simp_all add: gm_wf_def gm_keys_def rev_map [symmetric])
  then show ?thesis
    using gm.get_fold_put [of sm "[]" k]
    by (simp add: gm_get_def split: option.splits)
qed

lemma sm_All_get: "gm_wf sm \<Longrightarrow> gm_get (sm_All sm) k = gm_get sm k"
  unfolding sm_All_def by (rule gm_get_fold_put_rebuild)

lemma sm_All_Get: "gm_wf sm \<Longrightarrow> sm_Get (sm_All sm) k = sm_Get sm k"
  by (simp add: sm_Get_def sm_All_get)

lemma Contains_iff: "Contains s v \<longleftrightarrow> v \<in> set s"
  by (induction s) auto

lemma MapKeys_eq: "MapKeys m = gm_keys m"
proof -
  have "fold (\<lambda>(k, _) keys. keys @ [k]) m ks = ks @ map fst m" for ks
    by (induction m arbitrary: ks) auto
  then show ?thesis by (simp add: MapKeys_def gm_keys_def)
qed

lemma DeadlineDuration_nonneg: "DeadlineDuration parse now d = Inr r \<Longrightarrow> 0 \<le> r"
  by (auto simp: DeadlineDuration_def Let_def split: if_splits option.splits)

lemma IsTerminal_cases:
  assumes "IsTerminal s"
  obtains "s = StatusSuccess" | "s = StatusFailure" | "s = StatusSkipped" | "s = StatusTerminated"
  using assms by auto

subsection \<open>A sample document\<close>

text \<open>Small documents on which the properties are instantiated.\<close>

definition sample_unit :: "string \<Rightarrow> string \<Rightarrow> string list \<Rightarrow> Unit" where
  "sample_unit i cond reqs =
     \<lparr>unit_ID = i, unit_Type = UnitTask, unit_AgentRef = '''',
      unit_Binding = \<lparr>bind_Contract = ''file'', bind_Isolation = ''inline''\<rparr>,
      unit_Dependencies = reqs, unit_DataFlow = \<lparr>df_Inputs = [], df_Outputs = []\<rparr>,
      unit_Validation = \<lparr>val_Preconditions = [], val_Postconditions = [], val_Invariants = [],
                         val_FailureModes = []\<rparr>,
      unit_Scheduling = \<lparr>sched_Priority = 1, sched_Deadline = '''', sched_Retry = None\<rparr>,
      unit_Context = \<lparr>uctx_Mode = ''static'', uctx_MaxTokens = 0, uctx_Tools = []\<rparr>,
      unit_Governance = \<lparr>gov_RequiredApprovals = [], gov_ChangeScope = ''demo''\<rparr>,
      unit_Activation = \<lparr>act_Condition = cond, act_Requires = reqs, act_Optional = []\<rparr>,
      unit_Gate = None\<rparr>"

definition sample_rir :: "Unit list \<Rightarrow> (string \<times> string) list \<Rightarrow> IsolationBoundary list \<Rightarrow> RIR" where
  "sample_rir us es regions =
     \<lparr>rir_Meta = \<lparr>meta_SchemaVersion = ''1.0'', meta_SpecHash = ''h'', meta_CompilationID = ''c'',
                  meta_CompiledAt = '''', meta_SourceSpec = '''', meta_CompilerVersion = ''v''\<rparr>,
      rir_ExecutionPlan = \<lparr>plan_SchedulingModel = ''wave'', plan_ExecutionStrategy = ''deterministic'',
                           plan_MaxParallelism = 1, plan_FailStrategy = ''abort'', plan_ExecutionMode = ''2''\<rparr>,
      rir_Units = us,
      rir_Graph = \<lparr>graph_DAG = \<lparr>dag_Nodes = map unit_ID us,
                     dag_Edges = map (\<lambda>(f, t). \<lparr>edge_From = f, edge_To = t, edge_Type = ''dep''\<rparr>) es\<rparr>,
                   graph_Cycles = [], graph_IsolatedRegions = []\<rparr>,
      rir_Assertions = [], rir_FailureModes = [], rir_IsolationRegions = regions, rir_Checkpoints = [],
      rir_Handoff = \<lparr>ho_OutputArtifacts = [], ho_Evidence = [], ho_NextSpec = ''''\<rparr>\<rparr>"

text \<open>A diamond: \<open>b\<close> and \<open>c\<close> after \<open>a\<close>, \<open>d\<close> after both.\<close>

definition diamond :: RIR where
  "diamond = sample_rir
     [sample_unit ''a'' ''all_success'' [], sample_unit ''b'' ''all_success'' [''a''],
      sample_unit ''c'' ''all_success'' [''a''], sample_unit ''d'' ''any_success'' [''b'', ''c'']]
     [(''a'', ''b''), (''a'', ''c''), (''b'', ''d''), (''c'', ''d'')]
     [\<lparr>iso_ID = ''r'', iso_Units = [''b'', ''c''], iso_Constraints = [''no_network''], iso_Reason = ''''\<rparr>]"

end
