(* ===== verification/Mek_Graph.thy ===== *)
theory Mek_Graph
  imports Mek_Types
begin

text \<open>
  The graph builder, \<open>mek/internal/ceg/builder.go\<close>: building the CEG from the RIR, its
  validation (cycles, in-degree, depth, reachability), the topological layering by Kahn's algorithm,
  and the activation rules of a blocked node.

  The loops over the graph terminate because the node map is finite: the depth-first searches shrink
  the set of unvisited keys of the node map, and Kahn's loop shrinks the number of successors that
  still have a positive in-degree plus the length of the queue.
\<close>

subsection \<open>Errors\<close>

datatype build_error = CyclesDetected | IndegreeExceeded string nat | MaxDepthExceeded nat
  | UnreachableNodes int

subsection \<open>Building nodes and edges\<close>

definition add_unit :: "Unit \<Rightarrow> CEG \<Rightarrow> CEG" where
  "add_unit u c =
     (let node = \<lparr>node_ID = unit_ID u, node_Type = unit_Type u,
                  node_Activation = unit_Activation u, node_Gate = unit_Gate u,
                  node_Binding = unit_Binding u, node_Scheduling = unit_Scheduling u,
                  node_RegionID = '''', node_Predecessors = [], node_Successors = [],
                  node_Layer = 0\<rparr>
      in c\<lparr>ceg_Nodes := ceg_Nodes c @ [node],
           ceg_NodeMap := gm_put (unit_ID u) (length (ceg_Nodes c)) (ceg_NodeMap c),
           ceg_InDegree := (ceg_InDegree c)(unit_ID u := 0)\<rparr>)"

definition upd_node :: "nat \<Rightarrow> (CEGNode \<Rightarrow> CEGNode) \<Rightarrow> CEG \<Rightarrow> CEG" where
  "upd_node k f c = c\<lparr>ceg_Nodes := (ceg_Nodes c)[k := f (ceg_Nodes c ! k)]\<rparr>"

definition add_successor :: "Edge \<Rightarrow> CEG \<Rightarrow> CEG" where
  "add_successor edge c =
     (case gm_get (ceg_NodeMap c) (edge_From edge) of
        None \<Rightarrow> c
      | Some k \<Rightarrow> upd_node k (\<lambda>n. n\<lparr>node_Successors := node_Successors n @ [edge_To edge]\<rparr>) c)"

definition add_predecessor :: "Edge \<Rightarrow> CEG \<Rightarrow> CEG" where
  "add_predecessor edge c =
     (case gm_get (ceg_NodeMap c) (edge_To edge) of
        None \<Rightarrow> c
      | Some k \<Rightarrow>
          (upd_node k (\<lambda>n. n\<lparr>node_Predecessors := node_Predecessors n @ [edge_From edge]\<rparr>) c)
            \<lparr>ceg_InDegree := (ceg_InDegree c)(edge_To edge := ceg_InDegree c (edge_To edge) + 1)\<rparr>)"

definition add_edge :: "Edge \<Rightarrow> CEG \<Rightarrow> CEG" where
  "add_edge edge c =
     add_predecessor edge (add_successor edge
       (c\<lparr>ceg_Edges := ceg_Edges c @
            [\<lparr>cedge_From = edge_From edge, cedge_To = edge_To edge, cedge_Type = edge_Type edge\<rparr>]\<rparr>))"

definition empty_ceg :: CEG where
  "empty_ceg = \<lparr>ceg_Nodes = [], ceg_Edges = [], ceg_NodeMap = [], ceg_InDegree = (\<lambda>_. 0),
                ceg_Layers = [], ceg_MaxDepth = 0\<rparr>"

definition build_graph :: "RIR \<Rightarrow> CEG" where
  "build_graph rir =
     fold add_edge (dag_Edges (graph_DAG (rir_Graph rir))) (fold add_unit (rir_Units rir) empty_ceg)"

subsection \<open>Successors\<close>

definition succs :: "CEG \<Rightarrow> string \<Rightarrow> string list" where
  "succs c i = (case ceg_node c i of None \<Rightarrow> [] | Some n \<Rightarrow> node_Successors n)"

lemma succs_no_key: "x \<notin> set (gm_keys (ceg_NodeMap c)) \<Longrightarrow> succs c x = []"
  using gm_get_None_iff [of "ceg_NodeMap c" x] by (simp add: succs_def ceg_node_def)

definition graph_rel :: "CEG \<Rightarrow> (string \<times> string) set" where
  "graph_rel c = {(u, v). v \<in> set (succs c u)}"

lemma graph_rel_iff [simp]: "(u, v) \<in> graph_rel c \<longleftrightarrow> v \<in> set (succs c u)"
  by (simp add: graph_rel_def)

lemma finite_graph_rel: "finite (graph_rel c)"
proof -
  have "graph_rel c \<subseteq> (\<Union>u \<in> set (gm_keys (ceg_NodeMap c)). {u} \<times> set (succs c u))"
    using succs_no_key by fastforce
  then show ?thesis by (rule finite_subset) simp
qed

subsection \<open>Cycle detection\<close>

text \<open>The three values of the map \<open>visited\<close>: 0, 1 and 2.\<close>

datatype visit = Unvisited | Visiting | Done

definition unvisited_keys :: "CEG \<Rightarrow> (string \<Rightarrow> visit) \<Rightarrow> string set" where
  "unvisited_keys c vis = {x \<in> set (gm_keys (ceg_NodeMap c)). vis x = Unvisited}"

lemma finite_unvisited_keys [simp]: "finite (unvisited_keys c vis)"
  by (simp add: unvisited_keys_def)

text \<open>
  \<open>dfs_succs c ids vis\<close> is the loop of \<open>dfs\<close> over a list of successors: the closure \<open>dfs\<close> of
  \<open>hasCycle\<close> is inlined into the loop that calls it.
\<close>

function dfs_succs :: "CEG \<Rightarrow> string list \<Rightarrow> (string \<Rightarrow> visit) \<Rightarrow> bool \<times> (string \<Rightarrow> visit)" where
  "dfs_succs c [] vis = (False, vis)"
| "dfs_succs c (x # xs) vis =
     (case vis x of
        Visiting \<Rightarrow> (True, vis)
      | Done \<Rightarrow> dfs_succs c xs vis
      | Unvisited \<Rightarrow>
          (case dfs_succs c (succs c x) (vis(x := Visiting)) of
             (cyc, v) \<Rightarrow> if cyc then (True, v) else dfs_succs c xs (v(x := Done))))"
  by pat_completeness auto

lemma dfs_succs_visited_mono:
  "dfs_succs_dom (c, xs, vis) \<Longrightarrow> dfs_succs c xs vis = (b, v) \<Longrightarrow> vis y \<noteq> Unvisited \<Longrightarrow> v y \<noteq> Unvisited"
proof (induction c xs vis arbitrary: b v rule: dfs_succs.pinduct)
  case (1 c vis)
  then show ?case by (simp add: dfs_succs.psimps)
next
  case (2 c x xs vis)
  obtain b1 v1 where eq: "dfs_succs c (succs c x) (vis(x := Visiting)) = (b1, v1)"
    by fastforce
  show ?case
  proof (cases "vis x")
    case Unvisited
    have v1: "v1 y \<noteq> Unvisited"
      using "2.IH"(1) [OF Unvisited eq] "2.prems"(2) by simp
    show ?thesis
    proof (cases b1)
      case True
      with "2.hyps" "2.prems"(1) Unvisited eq v1 show ?thesis
        by (simp add: dfs_succs.psimps)
    next
      case False
      have "dfs_succs c xs (v1(x := Done)) = (b, v)"
        using "2.hyps" "2.prems"(1) Unvisited eq False by (simp add: dfs_succs.psimps)
      from "2.IH"(2) [OF Unvisited eq [symmetric] False this] v1 show ?thesis
        by simp
    qed
  next
    case Visiting
    with "2.hyps" "2.prems" show ?thesis by (simp add: dfs_succs.psimps)
  next
    case Done
    with "2.hyps" "2.prems" "2.IH"(3) [OF Done] show ?thesis by (simp add: dfs_succs.psimps)
  qed
qed

lemma unvisited_keys_mono:
  "(\<And>y. vis y \<noteq> Unvisited \<Longrightarrow> v y \<noteq> Unvisited) \<Longrightarrow> unvisited_keys c v \<subseteq> unvisited_keys c vis"
  by (auto simp: unvisited_keys_def)

termination dfs_succs
proof (relation "inv_image (less_than <*lex*> less_than)
         (\<lambda>(c, xs, vis). (card (unvisited_keys c vis), length xs))")
  show "wf (inv_image (less_than <*lex*> less_than)
         (\<lambda>(c, xs, vis). (card (unvisited_keys c vis), length xs)))"
    by auto
next
  fix c x xs and vis :: "string \<Rightarrow> visit"
  assume u: "vis x = Unvisited"
  show "((c, succs c x, vis(x := Visiting)), c, x # xs, vis)
    \<in> inv_image (less_than <*lex*> less_than) (\<lambda>(c, xs, vis). (card (unvisited_keys c vis), length xs))"
  proof (cases "x \<in> set (gm_keys (ceg_NodeMap c))")
    case True
    have "unvisited_keys c (vis(x := Visiting)) \<subset> unvisited_keys c vis"
      using u True by (auto simp: unvisited_keys_def)
    then have "card (unvisited_keys c (vis(x := Visiting))) < card (unvisited_keys c vis)"
      by (intro psubset_card_mono) simp_all
    then show ?thesis by simp
  next
    case False
    then have "unvisited_keys c (vis(x := Visiting)) = unvisited_keys c vis"
      by (auto simp: unvisited_keys_def)
    with succs_no_key [OF False] show ?thesis by simp
  qed
next
  fix c x xs vis b v
  assume u: "vis x = Unvisited" and eq: "(b, v) = dfs_succs c (succs c x) (vis(x := Visiting))"
    and dom: "dfs_succs_dom (c, succs c x, vis(x := Visiting))"
  have "(v(x := Done)) y \<noteq> Unvisited" if "vis y \<noteq> Unvisited" for y
    using dfs_succs_visited_mono [OF dom eq [symmetric], of y] that by auto
  then have "card (unvisited_keys c (v(x := Done))) \<le> card (unvisited_keys c vis)"
    by (intro card_mono unvisited_keys_mono) simp_all
  then show "((c, xs, v(x := Done)), c, x # xs, vis)
    \<in> inv_image (less_than <*lex*> less_than) (\<lambda>(c, xs, vis). (card (unvisited_keys c vis), length xs))"
    by auto
next
  fix c x xs and vis :: "string \<Rightarrow> visit"
  show "((c, xs, vis), c, x # xs, vis)
    \<in> inv_image (less_than <*lex*> less_than) (\<lambda>(c, xs, vis). (card (unvisited_keys c vis), length xs))"
    by simp
qed

fun dfs_roots :: "CEG \<Rightarrow> string list \<Rightarrow> (string \<Rightarrow> visit) \<Rightarrow> bool" where
  "dfs_roots c [] vis = False"
| "dfs_roots c (i # ids) vis =
     (if vis i = Unvisited
      then (case dfs_succs c [i] vis of
              (cyc, v) \<Rightarrow> if cyc then True else dfs_roots c ids v)
      else dfs_roots c ids vis)"

definition hasCycle :: "CEG \<Rightarrow> bool" where
  "hasCycle c = dfs_roots c (map node_ID (ceg_Nodes c)) (\<lambda>_. Unvisited)"

text \<open>
  The search keeps three facts: the nodes done are closed under successors and lie on no cycle, and
  every node being visited reaches every node of the list the search is at.
\<close>

definition done_ok :: "CEG \<Rightarrow> (string \<Rightarrow> visit) \<Rightarrow> bool" where
  "done_ok c vis \<longleftrightarrow>
     (\<forall>u v. vis u = Done \<longrightarrow> (u, v) \<in> graph_rel c \<longrightarrow> vis v = Done) \<and>
     (\<forall>u. vis u = Done \<longrightarrow> (u, u) \<notin> (graph_rel c)\<^sup>+)"

lemma done_ok_closed:
  assumes "done_ok c vis" and "(u, v) \<in> (graph_rel c)\<^sup>*" and "vis u = Done"
  shows "vis v = Done"
  using assms(2,1,3) unfolding done_ok_def by (induction rule: rtrancl_induct) blast+

lemma done_ok_finish:
  assumes "done_ok c v" and "v x = Visiting" and "\<forall>s \<in> set (succs c x). v s = Done"
  shows "done_ok c (v(x := Done))"
proof -
  have nocyc: "(x, x) \<notin> (graph_rel c)\<^sup>+"
  proof
    assume "(x, x) \<in> (graph_rel c)\<^sup>+"
    then obtain s where "(x, s) \<in> graph_rel c" and "(s, x) \<in> (graph_rel c)\<^sup>*"
      by (meson tranclD)
    with assms(3) have "v x = Done" by (meson assms(1) done_ok_closed graph_rel_iff)
    with assms(2) show False by simp
  qed
  show ?thesis
    using assms nocyc unfolding done_ok_def by (auto simp del: graph_rel_iff simp: graph_rel_def)
qed

lemma dfs_succs_no_cycle:
  assumes "dfs_succs c xs vis = (False, v)" and "done_ok c vis"
  shows "done_ok c v \<and> (\<forall>x \<in> set xs. v x = Done) \<and> (\<forall>y. v y = Visiting \<longleftrightarrow> vis y = Visiting)
    \<and> (\<forall>y. vis y = Done \<longrightarrow> v y = Done)"
  using assms
proof (induction c xs vis arbitrary: v rule: dfs_succs.induct)
  case (1 c vis)
  then show ?case by simp
next
  case (2 c x xs vis)
  show ?case
  proof (cases "vis x")
    case Unvisited
    obtain b1 v1 where eq: "dfs_succs c (succs c x) (vis(x := Visiting)) = (b1, v1)"
      by fastforce
    with "2.prems" Unvisited have b1: "\<not> b1" by (auto split: if_splits)
    have rest: "dfs_succs c xs (v1(x := Done)) = (False, v)"
      using "2.prems" Unvisited eq b1 by simp
    have ok0: "done_ok c (vis(x := Visiting))"
      using "2.prems"(2) Unvisited unfolding done_ok_def by (metis fun_upd_other fun_upd_same visit.distinct(3) visit.distinct(5))
    have eqF: "dfs_succs c (succs c x) (vis(x := Visiting)) = (False, v1)"
      using eq b1 by simp
    note ih1 = "2.IH"(1) [OF Unvisited eqF ok0]
    then have x1: "v1 x = Visiting" by simp
    from ih1 x1 have ok1: "done_ok c (v1(x := Done))"
      by (intro done_ok_finish) auto
    note ih2 = "2.IH"(2) [OF Unvisited eq [symmetric] b1 rest ok1]
    show ?thesis
    proof (intro conjI allI ballI impI)
      show "done_ok c v" using ih2 by blast
      show "v y = Done" if "y \<in> set (x # xs)" for y
        using that ih2 by auto
      show "v y = Visiting \<longleftrightarrow> vis y = Visiting" for y
        using ih1 ih2 Unvisited x1 by (metis fun_upd_apply visit.distinct(1,5))
      show "v y = Done" if "vis y = Done" for y
        using ih1 ih2 Unvisited that by (metis fun_upd_apply)
    qed
  next
    case Visiting
    with "2.prems" show ?thesis by simp
  next
    case Done
    with "2.prems" have "dfs_succs c xs vis = (False, v)" by simp
    from "2.IH"(3) [OF Done this "2.prems"(2)] Done show ?thesis by auto
  qed
qed

lemma dfs_succs_cycle:
  assumes "dfs_succs c xs vis = (True, v)" and "done_ok c vis"
    and "\<forall>g. vis g = Visiting \<longrightarrow> (\<forall>x \<in> set xs. (g, x) \<in> (graph_rel c)\<^sup>+)"
  shows "\<exists>u. (u, u) \<in> (graph_rel c)\<^sup>+"
  using assms
proof (induction c xs vis arbitrary: v rule: dfs_succs.induct)
  case (1 c vis)
  then show ?case by simp
next
  case (2 c x xs vis)
  show ?case
  proof (cases "vis x")
    case Unvisited
    obtain b1 v1 where eq: "dfs_succs c (succs c x) (vis(x := Visiting)) = (b1, v1)"
      by fastforce
    have ok0: "done_ok c (vis(x := Visiting))"
      using "2.prems"(2) Unvisited unfolding done_ok_def by (metis fun_upd_other fun_upd_same visit.distinct(3) visit.distinct(5))
    show ?thesis
    proof (cases b1)
      case True
      have gray: "\<forall>g. (vis(x := Visiting)) g = Visiting \<longrightarrow> (\<forall>s \<in> set (succs c x). (g, s) \<in> (graph_rel c)\<^sup>+)"
        using "2.prems"(3) by (auto intro: trancl_into_trancl)
      from eq True have "dfs_succs c (succs c x) (vis(x := Visiting)) = (True, v1)" by simp
      from "2.IH"(1) [OF Unvisited this ok0 gray] show ?thesis .
    next
      case False
      then have eqF: "dfs_succs c (succs c x) (vis(x := Visiting)) = (False, v1)" using eq by simp
      note nc = dfs_succs_no_cycle [OF eqF ok0]
      then have ok1: "done_ok c (v1(x := Done))"
        by (intro done_ok_finish) auto
      have gray: "\<forall>g. (v1(x := Done)) g = Visiting \<longrightarrow> (\<forall>y \<in> set xs. (g, y) \<in> (graph_rel c)\<^sup>+)"
        using "2.prems"(3) nc by auto
      have "dfs_succs c xs (v1(x := Done)) = (True, v)"
        using "2.prems"(1) Unvisited eq False by simp
      from "2.IH"(2) [OF Unvisited eq [symmetric] False this ok1 gray] show ?thesis .
    qed
  next
    case Visiting
    with "2.prems"(3) have "(x, x) \<in> (graph_rel c)\<^sup>+" by simp
    then show ?thesis ..
  next
    case Done
    with "2.prems" "2.IH"(3) [OF Done, of v] show ?thesis by simp
  qed
qed

lemma dfs_roots_iff:
  assumes "done_ok c vis" and "\<forall>y. vis y \<noteq> Visiting"
  shows "(dfs_roots c ids vis \<longrightarrow> \<not> acyclic (graph_rel c)) \<and>
    (\<not> dfs_roots c ids vis \<longrightarrow> (\<forall>i \<in> set ids. (i, i) \<notin> (graph_rel c)\<^sup>+) \<and>
       (\<forall>i. vis i = Done \<longrightarrow> (i, i) \<notin> (graph_rel c)\<^sup>+))"
  using assms
proof (induction ids arbitrary: vis)
  case Nil
  then show ?case by (simp add: done_ok_def)
next
  case (Cons i ids)
  show ?case
  proof (cases "vis i = Unvisited")
    case True
    obtain b v where eq: "dfs_succs c [i] vis = (b, v)" by fastforce
    show ?thesis
    proof (cases b)
      case True
      then have "\<exists>u. (u, u) \<in> (graph_rel c)\<^sup>+"
        using dfs_succs_cycle [of c "[i]" vis v] eq Cons.prems by simp
      with True eq \<open>vis i = Unvisited\<close> show ?thesis
        by (auto simp: acyclic_def simp del: dfs_succs.simps)
    next
      case False
      with eq have eqF: "dfs_succs c [i] vis = (False, v)" by simp
      note nc = dfs_succs_no_cycle [OF eqF Cons.prems(1)]
      with Cons.prems have "\<forall>y. v y \<noteq> Visiting" by simp
      note ih = Cons.IH [OF conjunct1 [OF nc] this]
      from nc have "v i = Done" by simp
      with ih nc eqF \<open>vis i = Unvisited\<close> show ?thesis by (simp del: dfs_succs.simps)
    qed
  next
    case False
    then have "vis i = Done" using Cons.prems(2) by (cases "vis i") auto
    with Cons.IH [OF Cons.prems] False show ?thesis by simp
  qed
qed

text \<open>A node on a cycle has a successor, so it is a key of the node map.\<close>

lemma cycle_in_keys: "(u, u) \<in> (graph_rel c)\<^sup>+ \<Longrightarrow> u \<in> set (gm_keys (ceg_NodeMap c))"
proof -
  assume "(u, u) \<in> (graph_rel c)\<^sup>+"
  then obtain v where "(u, v) \<in> graph_rel c" by (meson tranclD)
  then show ?thesis using succs_no_key [of u c] by fastforce
qed

lemma hasCycle_iff:
  assumes "set (gm_keys (ceg_NodeMap c)) \<subseteq> node_ID ` set (ceg_Nodes c)"
  shows "hasCycle c \<longleftrightarrow> \<not> acyclic (graph_rel c)"
proof -
  have "done_ok c (\<lambda>_. Unvisited)" by (simp add: done_ok_def)
  from dfs_roots_iff [OF this, of "map node_ID (ceg_Nodes c)"] show ?thesis
    using cycle_in_keys [of _ c] assms unfolding hasCycle_def acyclic_def by auto
qed

subsection \<open>Reachability from the roots\<close>

text \<open>\<open>reach_dfs\<close> is the inner \<open>dfs\<close> of \<open>reachableSet\<close>, again with the closure inlined
  into the loop; the map \<open>reachable\<close> is the list of its keys.\<close>

function reach_dfs :: "CEG \<Rightarrow> string list \<Rightarrow> string list \<Rightarrow> string list" where
  "reach_dfs c [] r = r"
| "reach_dfs c (x # xs) r =
     (if x \<in> set r then reach_dfs c xs r
      else reach_dfs c xs (reach_dfs c (succs c x) (x # r)))"
  by pat_completeness auto

lemma reach_dfs_mono: "reach_dfs_dom (c, xs, r) \<Longrightarrow> set r \<subseteq> set (reach_dfs c xs r)"
  by (induction c xs r rule: reach_dfs.pinduct) (force simp: reach_dfs.psimps)+

termination reach_dfs
proof (relation "inv_image (less_than <*lex*> less_than)
         (\<lambda>(c, xs, r). (card (set (gm_keys (ceg_NodeMap c)) - set r), length xs))")
  show "wf (inv_image (less_than <*lex*> less_than)
         (\<lambda>(c, xs, r). (card (set (gm_keys (ceg_NodeMap c)) - set r), length xs)))"
    by auto
next
  fix c x xs and r :: "string list"
  assume new: "x \<notin> set r"
  show "((c, succs c x, x # r), c, x # xs, r) \<in> inv_image (less_than <*lex*> less_than)
         (\<lambda>(c, xs, r). (card (set (gm_keys (ceg_NodeMap c)) - set r), length xs))"
  proof (cases "x \<in> set (gm_keys (ceg_NodeMap c))")
    case True
    with new have "card (set (gm_keys (ceg_NodeMap c)) - set (x # r)) < card (set (gm_keys (ceg_NodeMap c)) - set r)"
      by (intro psubset_card_mono) auto
    then show ?thesis by simp
  next
    case False
    then have "set (gm_keys (ceg_NodeMap c)) - set (x # r) = set (gm_keys (ceg_NodeMap c)) - set r"
      by auto
    with succs_no_key [OF False] show ?thesis by simp
  qed
next
  fix c x xs and r :: "string list"
  assume "reach_dfs_dom (c, succs c x, x # r)"
  then have "set r \<subseteq> set (reach_dfs c (succs c x) (x # r))"
    using reach_dfs_mono by fastforce
  then have "card (set (gm_keys (ceg_NodeMap c)) - set (reach_dfs c (succs c x) (x # r)))
      \<le> card (set (gm_keys (ceg_NodeMap c)) - set r)"
    by (intro card_mono) auto
  then show "((c, xs, reach_dfs c (succs c x) (x # r)), c, x # xs, r) \<in> inv_image (less_than <*lex*> less_than)
         (\<lambda>(c, xs, r). (card (set (gm_keys (ceg_NodeMap c)) - set r), length xs))"
    by auto
next
  fix c x xs and r :: "string list"
  show "((c, xs, r), c, x # xs, r) \<in> inv_image (less_than <*lex*> less_than)
         (\<lambda>(c, xs, r). (card (set (gm_keys (ceg_NodeMap c)) - set r), length xs))"
    by simp
qed

fun reach_roots :: "CEG \<Rightarrow> string list \<Rightarrow> string list \<Rightarrow> string list" where
  "reach_roots c [] r = r"
| "reach_roots c (i # ids) r =
     (if ceg_InDegree c i = 0 then reach_roots c ids (reach_dfs c [i] r) else reach_roots c ids r)"

definition reachableSet :: "CEG \<Rightarrow> string list" where
  "reachableSet c = reach_roots c (map node_ID (ceg_Nodes c)) []"

lemma reach_dfs_distinct: "distinct r \<Longrightarrow> distinct (reach_dfs c xs r)"
  by (induction c xs r rule: reach_dfs.induct) auto

text \<open>
  Soundness: only nodes reachable from the list are added. Completeness: the result holds the list,
  and a node of the result that was not there before has all its successors there.
\<close>

lemma reach_dfs_sound: "set (reach_dfs c xs r) \<subseteq> set r \<union> (graph_rel c)\<^sup>* `` set xs"
proof (induction c xs r rule: reach_dfs.induct)
  case (1 c r)
  then show ?case by simp
next
  case (2 c x xs r)
  show ?case
  proof (cases "x \<in> set r")
    case True
    with "2.IH"(1) show ?thesis by auto
  next
    case False
    have sub: "(graph_rel c)\<^sup>* `` set (succs c x) \<subseteq> (graph_rel c)\<^sup>* `` {x}"
      by (auto intro: converse_rtrancl_into_rtrancl)
    from "2.IH"(2,3) [OF False] False sub show ?thesis by fastforce
  qed
qed

lemma reach_dfs_complete:
  "set r \<subseteq> set (reach_dfs c xs r) \<and> set xs \<subseteq> set (reach_dfs c xs r) \<and>
     (\<forall>u \<in> set (reach_dfs c xs r). u \<in> set r \<or> set (succs c u) \<subseteq> set (reach_dfs c xs r))"
proof (induction c xs r rule: reach_dfs.induct)
  case (1 c r)
  then show ?case by simp
next
  case (2 c x xs r)
  show ?case
  proof (cases "x \<in> set r")
    case True
    with "2.IH"(1) show ?thesis by auto
  next
    case False
    let ?r1 = "reach_dfs c (succs c x) (x # r)"
    let ?r2 = "reach_dfs c xs ?r1"
    from "2.IH"(2) [OF False]
    have i: "set (x # r) \<subseteq> set ?r1" "set (succs c x) \<subseteq> set ?r1"
      "\<forall>u \<in> set ?r1. u \<in> set (x # r) \<or> set (succs c u) \<subseteq> set ?r1"
      by blast+
    from "2.IH"(3) [OF False]
    have j: "set ?r1 \<subseteq> set ?r2" "set xs \<subseteq> set ?r2"
      "\<forall>u \<in> set ?r2. u \<in> set ?r1 \<or> set (succs c u) \<subseteq> set ?r2"
      by blast+
    have "u \<in> set r \<or> set (succs c u) \<subseteq> set ?r2" if "u \<in> set ?r2" for u
      using that i j by (metis set_ConsD subset_trans)
    with False i j show ?thesis by auto
  qed
qed

definition closed_under :: "CEG \<Rightarrow> string set \<Rightarrow> bool" where
  "closed_under c A \<longleftrightarrow> (\<forall>u \<in> A. set (succs c u) \<subseteq> A)"

lemma closed_under_rtrancl: "closed_under c A \<Longrightarrow> (u, v) \<in> (graph_rel c)\<^sup>* \<Longrightarrow> u \<in> A \<Longrightarrow> v \<in> A"
  by (rotate_tac, induction rule: rtrancl_induct) (auto simp: closed_under_def)

lemma reach_dfs_closed: "closed_under c (set r) \<Longrightarrow> closed_under c (set (reach_dfs c xs r))"
  using reach_dfs_complete [of r c xs] unfolding closed_under_def by blast

lemma reach_roots_spec:
  assumes "closed_under c (set r)"
  shows "set (reach_roots c ids r) = set r \<union> (graph_rel c)\<^sup>* `` {i \<in> set ids. ceg_InDegree c i = 0}"
  using assms
proof (induction ids arbitrary: r)
  case Nil
  then show ?case by simp
next
  case (Cons i ids)
  show ?case
  proof (cases "ceg_InDegree c i = 0")
    case True
    let ?r1 = "reach_dfs c [i] r"
    have cl: "closed_under c (set ?r1)" using Cons.prems by (rule reach_dfs_closed)
    have "i \<in> set ?r1" "set r \<subseteq> set ?r1" using reach_dfs_complete [of r c "[i]"] by auto
    then have "set r \<union> (graph_rel c)\<^sup>* `` {i} \<subseteq> set ?r1"
      using closed_under_rtrancl [OF cl] by auto
    with reach_dfs_sound [of c "[i]" r] have r1: "set ?r1 = set r \<union> (graph_rel c)\<^sup>* `` {i}"
      by (simp only: list.set Un_empty_right)
    define A where "A = {j \<in> set ids. ceg_InDegree c j = 0}"
    have ins: "{j \<in> set (i # ids). ceg_InDegree c j = 0} = insert i A"
      using True by (auto simp: A_def)
    have "set (reach_roots c (i # ids) r) = set (reach_roots c ids ?r1)"
      using True by (simp del: reach_dfs.simps)
    also have "\<dots> = set ?r1 \<union> (graph_rel c)\<^sup>* `` A"
      using Cons.IH [OF cl] unfolding A_def .
    also have "\<dots> = set r \<union> (graph_rel c)\<^sup>* `` insert i A"
      unfolding r1 by blast
    finally show ?thesis unfolding ins .
  next
    case False
    then have "{j \<in> set (i # ids). ceg_InDegree c j = 0} = {j \<in> set ids. ceg_InDegree c j = 0}"
      by auto
    with False Cons show ?thesis by (simp only: reach_roots.simps if_False)
  qed
qed

definition roots :: "CEG \<Rightarrow> string set" where
  "roots c = {i \<in> node_ID ` set (ceg_Nodes c). ceg_InDegree c i = 0}"

lemma set_reachableSet: "set (reachableSet c) = (graph_rel c)\<^sup>* `` roots c"
  using reach_roots_spec [of c "[]" "map node_ID (ceg_Nodes c)"]
  by (simp add: reachableSet_def closed_under_def roots_def)

lemma distinct_reachableSet: "distinct (reachableSet c)"
proof -
  have "distinct r \<Longrightarrow> distinct (reach_roots c ids r)" for ids r
    by (induction ids arbitrary: r) (simp_all add: reach_dfs_distinct del: reach_dfs.simps)
  then show ?thesis by (simp add: reachableSet_def)
qed

end
