(* ===== verification/Mek_Kahn.thy ===== *)
theory Mek_Kahn
  imports Mek_Graph
begin

text \<open>
  Topological layering, \<open>topoSort\<close> of \<open>mek/internal/ceg/builder.go\<close>. The outer loop takes one
  layer of the queue at a time; the inner loop pops the layer's nodes in order and appends what they
  release, so after it the queue holds exactly the nodes released. The queue is sorted between layers
  and every node's successor list is sorted in place when the node is popped.

  The lemmas show that the layers are a topological order: the in-degree map is the RIR's in-degree
  minus the edges from the nodes already layered, the queue is the set of nodes that this brings to
  zero, and on an acyclic graph every node is layered.
\<close>

subsection \<open>The loop\<close>

fun relax :: "string list \<Rightarrow> (string \<Rightarrow> int) \<Rightarrow> string list \<Rightarrow> (string \<Rightarrow> int) \<times> string list" where
  "relax [] d q = (d, q)"
| "relax (s # ss) d q =
     (let d' = d(s := d s - 1)
      in relax ss d' (if d' s = 0 then q @ [s] else q))"

definition sort_succs :: "string \<Rightarrow> CEG \<Rightarrow> CEG" where
  "sort_succs i c =
     (case gm_get (ceg_NodeMap c) i of
        None \<Rightarrow> c
      | Some k \<Rightarrow> upd_node k (\<lambda>n. n\<lparr>node_Successors := sort (node_Successors n)\<rparr>) c)"

record kahn =
  k_ceg :: CEG
  k_deg :: "string \<Rightarrow> int"
  k_queue :: "string list"
  k_layer :: "string \<Rightarrow> nat"

definition pop_node :: "nat \<Rightarrow> string \<Rightarrow> kahn \<Rightarrow> kahn" where
  "pop_node layer i st =
     (let st1 = st\<lparr>k_layer := (k_layer st)(i := layer)\<rparr>
      in case ceg_node (k_ceg st) i of
           None \<Rightarrow> st1
         | Some node \<Rightarrow>
             (case relax (sort (node_Successors node)) (k_deg st) (k_queue st) of
                (d, q) \<Rightarrow> st1\<lparr>k_ceg := sort_succs i (k_ceg st), k_deg := d, k_queue := q\<rparr>))"

definition pop_layer :: "nat \<Rightarrow> kahn \<Rightarrow> kahn" where
  "pop_layer layer st = fold (pop_node layer) (k_queue st) (st\<lparr>k_queue := []\<rparr>)"

subsection \<open>What a node releases\<close>

definition deg_sub :: "string list \<Rightarrow> (string \<Rightarrow> int) \<Rightarrow> string \<Rightarrow> int" where
  "deg_sub ss d v = d v - int (count (mset ss) v)"

lemma relax_spec:
  assumes "relax ss d q = (d', q')" and "distinct q" and "\<forall>v \<in> set q. d v \<le> 0"
  shows "(\<forall>v. d' v = deg_sub ss d v) \<and>
    set q' = set q \<union> {v. 0 < d v \<and> d v \<le> int (count (mset ss) v)} \<and> distinct q'"
  using assms
proof (induction ss arbitrary: d q)
  case Nil
  then show ?case by (auto simp: deg_sub_def)
next
  case (Cons s ss)
  let ?d = "d(s := d s - 1)" and ?q = "if d s - 1 = 0 then q @ [s] else q"
  have r: "relax ss ?d ?q = (d', q')" using Cons.prems(1) by (simp add: Let_def)
  have "distinct ?q" using Cons.prems(2,3) by auto
  moreover have "?d v \<le> 0" if "v \<in> set ?q" for v
    using that Cons.prems(3) by (cases "v \<in> set q") (auto split: if_splits)
  ultimately have ih: "(\<forall>v. d' v = deg_sub ss ?d v) \<and>
      set q' = set ?q \<union> {v. 0 < ?d v \<and> ?d v \<le> int (count (mset ss) v)} \<and> distinct q'"
    using Cons.IH [OF r] by blast
  have "set ?q \<union> {v. 0 < ?d v \<and> ?d v \<le> int (count (mset ss) v)}
      = set q \<union> {v. 0 < d v \<and> d v \<le> int (count (mset (s # ss)) v)}"
    by (auto split: if_splits)
  with ih show ?case by (auto simp: deg_sub_def)
qed

text \<open>Sorting the successors in place keeps the graph, as multisets of successors.\<close>

definition same_graph :: "CEG \<Rightarrow> CEG \<Rightarrow> bool" where
  "same_graph c c' \<longleftrightarrow>
     (\<forall>i. mset (succs c' i) = mset (succs c i)) \<and>
     (\<forall>i. (ceg_node c' i = None) = (ceg_node c i = None)) \<and>
     map node_ID (ceg_Nodes c') = map node_ID (ceg_Nodes c) \<and>
     map node_Activation (ceg_Nodes c') = map node_Activation (ceg_Nodes c) \<and>
     ceg_NodeMap c' = ceg_NodeMap c \<and> ceg_InDegree c' = ceg_InDegree c \<and>
     map (mset \<circ> node_Successors) (ceg_Nodes c') = map (mset \<circ> node_Successors) (ceg_Nodes c) \<and>
     map node_Predecessors (ceg_Nodes c') = map node_Predecessors (ceg_Nodes c) \<and>
     ceg_Edges c' = ceg_Edges c \<and> ceg_Layers c' = ceg_Layers c \<and> ceg_MaxDepth c' = ceg_MaxDepth c"

lemma same_graph_refl [simp]: "same_graph c c"
  by (simp add: same_graph_def)

lemma same_graph_trans: "same_graph a b \<Longrightarrow> same_graph b c \<Longrightarrow> same_graph a c"
  by (simp add: same_graph_def)

lemma length_same_graph: "same_graph c c' \<Longrightarrow> length (ceg_Nodes c') = length (ceg_Nodes c)"
  unfolding same_graph_def by (metis length_map)

lemma map_upd_same: "f (g (xs ! k)) = f (xs ! k) \<Longrightarrow> map f (xs[k := g (xs ! k)]) = map f xs"
  by (metis list_update_id map_update)

lemma same_graph_sort_succs: "same_graph c (sort_succs i c)"
proof (cases "gm_get (ceg_NodeMap c) i")
  case None
  then show ?thesis by (simp add: sort_succs_def)
next
  case (Some k)
  let ?g = "\<lambda>n. n\<lparr>node_Successors := sort (node_Successors n)\<rparr>"
  let ?ns = "(ceg_Nodes c)[k := ?g (ceg_Nodes c ! k)]"
  have m: "map f ?ns = map f (ceg_Nodes c)" if "f (?g (ceg_Nodes c ! k)) = f (ceg_Nodes c ! k)" for f :: "CEGNode \<Rightarrow> 'b"
    using that by (rule map_upd_same)
  have "mset (node_Successors (?ns ! j)) = mset (node_Successors (ceg_Nodes c ! j))"
    if "j < length (ceg_Nodes c)" for j
    using that by (cases "j = k") auto
  then have "mset (succs (c\<lparr>ceg_Nodes := ?ns\<rparr>) j) = mset (succs c j)" for j
    by (auto simp: succs_def ceg_node_def split: option.splits)
  moreover have "(ceg_node (c\<lparr>ceg_Nodes := ?ns\<rparr>) j = None) = (ceg_node c j = None)" for j
    by (auto simp: ceg_node_def split: option.splits)
  ultimately show ?thesis
    using Some by (simp add: sort_succs_def upd_node_def same_graph_def m)
qed

lemma same_graph_rel: "same_graph c c' \<Longrightarrow> graph_rel c' = graph_rel c"
  unfolding same_graph_def graph_rel_def by (metis (no_types, lifting) mset_eq_setD)

text \<open>How many edges the nodes of a list have into a node.\<close>

definition edges_from :: "CEG \<Rightarrow> string list \<Rightarrow> string \<Rightarrow> nat" where
  "edges_from c ids v = (\<Sum>i \<leftarrow> ids. count (mset (succs c i)) v)"

lemma edges_from_simps [simp]:
  "edges_from c [] v = 0"
  "edges_from c (i # ids) v = count (mset (succs c i)) v + edges_from c ids v"
  "edges_from c (ids @ jds) v = edges_from c ids v + edges_from c jds v"
  by (simp_all add: edges_from_def)

lemma edges_from_same_graph: "same_graph c c' \<Longrightarrow> edges_from c' ids v = edges_from c ids v"
  by (simp add: edges_from_def same_graph_def)

lemma edges_from_perm: "mset ids = mset jds \<Longrightarrow> edges_from c ids v = edges_from c jds v"
  unfolding edges_from_def by (metis mset_map sum_mset_sum_list)

lemma edges_from_sort [simp]: "edges_from c (sort ids) v = edges_from c ids v"
  by (rule edges_from_perm) simp

lemma edges_from_zero_iff: "edges_from c ids v = 0 \<longleftrightarrow> (\<forall>i \<in> set ids. (i, v) \<notin> graph_rel c)"
  by (induction ids) auto

lemma edges_from_mono:
  "distinct ids \<Longrightarrow> set ids \<subseteq> set jds \<Longrightarrow> distinct jds \<Longrightarrow> edges_from c ids v \<le> edges_from c jds v"
proof -
  assume a: "distinct ids" "set ids \<subseteq> set jds" "distinct jds"
  then have "edges_from c ids v = (\<Sum>i \<in> set ids. count (mset (succs c i)) v)"
    "edges_from c jds v = (\<Sum>i \<in> set jds. count (mset (succs c i)) v)"
    by (simp_all add: edges_from_def sum_list_distinct_conv_sum_set)
  with a show ?thesis by (simp add: sum_mono2)
qed

lemma pop_node_spec:
  assumes "distinct (k_queue st)" and "\<forall>v \<in> set (k_queue st). k_deg st v \<le> 0"
  shows "(\<forall>v. k_deg (pop_node l i st) v = k_deg st v - int (count (mset (succs (k_ceg st) i)) v)) \<and>
    set (k_queue (pop_node l i st)) =
      set (k_queue st) \<union> {v. 0 < k_deg st v \<and> k_deg st v \<le> int (count (mset (succs (k_ceg st) i)) v)} \<and>
    distinct (k_queue (pop_node l i st)) \<and>
    same_graph (k_ceg st) (k_ceg (pop_node l i st)) \<and>
    k_layer (pop_node l i st) = (k_layer st)(i := l)"
proof (cases "ceg_node (k_ceg st) i")
  case None
  with assms show ?thesis by (auto simp: pop_node_def succs_def Let_def)
next
  case (Some n)
  obtain d q where r: "relax (sort (node_Successors n)) (k_deg st) (k_queue st) = (d, q)" by fastforce
  from relax_spec [OF r assms] Some r show ?thesis
    by (simp add: pop_node_def succs_def Let_def deg_sub_def same_graph_sort_succs)
qed

lemma fold_pop_spec:
  assumes "distinct (k_queue st)" and "\<forall>v \<in> set (k_queue st). k_deg st v \<le> 0"
  shows "(\<forall>v. k_deg (fold (pop_node l) ids st) v = k_deg st v - int (edges_from (k_ceg st) ids v)) \<and>
    set (k_queue (fold (pop_node l) ids st)) =
      set (k_queue st) \<union> {v. 0 < k_deg st v \<and> k_deg st v \<le> int (edges_from (k_ceg st) ids v)} \<and>
    distinct (k_queue (fold (pop_node l) ids st)) \<and>
    same_graph (k_ceg st) (k_ceg (fold (pop_node l) ids st)) \<and>
    k_layer (fold (pop_node l) ids st) = (\<lambda>v. if v \<in> set ids then l else k_layer st v)"
  using assms
proof (induction ids arbitrary: st)
  case Nil
  then show ?case by auto
next
  case (Cons i ids)
  let ?s = "pop_node l i st"
  note p = pop_node_spec [OF Cons.prems, of l i]
  have "\<forall>v \<in> set (k_queue ?s). k_deg ?s v \<le> 0"
    using p Cons.prems(2) by fastforce
  with p have ih: "(\<forall>v. k_deg (fold (pop_node l) ids ?s) v = k_deg ?s v - int (edges_from (k_ceg ?s) ids v)) \<and>
    set (k_queue (fold (pop_node l) ids ?s)) =
      set (k_queue ?s) \<union> {v. 0 < k_deg ?s v \<and> k_deg ?s v \<le> int (edges_from (k_ceg ?s) ids v)} \<and>
    distinct (k_queue (fold (pop_node l) ids ?s)) \<and>
    same_graph (k_ceg ?s) (k_ceg (fold (pop_node l) ids ?s)) \<and>
    k_layer (fold (pop_node l) ids ?s) = (\<lambda>v. if v \<in> set ids then l else k_layer ?s v)"
    using Cons.IH by blast
  have e: "edges_from (k_ceg ?s) ids v = edges_from (k_ceg st) ids v" for v
    using p by (simp add: edges_from_same_graph)
  have sg: "same_graph (k_ceg st) (k_ceg (fold (pop_node l) ids ?s))"
    using p ih same_graph_trans by blast
  have "set (k_queue (fold (pop_node l) ids ?s)) =
      set (k_queue st) \<union> {v. 0 < k_deg st v \<and> k_deg st v \<le> int (edges_from (k_ceg st) (i # ids) v)}"
    using ih p e by auto
  moreover have "k_layer (fold (pop_node l) ids ?s) = (\<lambda>v. if v \<in> set (i # ids) then l else k_layer st v)"
    using ih p by auto
  moreover have "k_deg (fold (pop_node l) ids ?s) v = k_deg st v - int (edges_from (k_ceg st) (i # ids) v)" for v
    using ih p e by simp
  ultimately show ?case using ih sg by simp
qed

lemma pop_layer_spec:
  "(\<forall>v. k_deg (pop_layer l st) v = k_deg st v - int (edges_from (k_ceg st) (k_queue st) v)) \<and>
   set (k_queue (pop_layer l st)) =
     {v. 0 < k_deg st v \<and> k_deg st v \<le> int (edges_from (k_ceg st) (k_queue st) v)} \<and>
   distinct (k_queue (pop_layer l st)) \<and>
   same_graph (k_ceg st) (k_ceg (pop_layer l st)) \<and>
   k_layer (pop_layer l st) = (\<lambda>v. if v \<in> set (k_queue st) then l else k_layer st v)"
  using fold_pop_spec [of "st\<lparr>k_queue := []\<rparr>" l "k_queue st"] by (simp add: pop_layer_def cong: if_cong)

subsection \<open>The layers\<close>

text \<open>The successors that still have a positive in-degree: every push removes one.\<close>

definition pending :: "CEG \<Rightarrow> (string \<Rightarrow> int) \<Rightarrow> string set" where
  "pending c d = {v. 0 < d v \<and> (\<exists>u. (u, v) \<in> graph_rel c)}"

lemma finite_pending [simp]: "finite (pending c d)"
proof -
  have "pending c d \<subseteq> snd ` graph_rel c"
  proof
    fix v assume "v \<in> pending c d"
    then obtain u where "(u, v) \<in> graph_rel c" unfolding pending_def by blast
    then show "v \<in> snd ` graph_rel c" by (metis imageI snd_conv)
  qed
  then show ?thesis using finite_graph_rel finite_surj by blast
qed

lemma pop_layer_pending:
  "card (pending (k_ceg (pop_layer l st)) (k_deg (pop_layer l st))) + length (k_queue (pop_layer l st))
     \<le> card (pending (k_ceg st) (k_deg st))"
proof -
  note p = pop_layer_spec [of l st]
  let ?st = "pop_layer l st"
  have g: "graph_rel (k_ceg ?st) = graph_rel (k_ceg st)" using p by (simp add: same_graph_rel)
  have "edges_from (k_ceg st) (k_queue st) v \<noteq> 0 \<Longrightarrow> \<exists>u. (u, v) \<in> graph_rel (k_ceg st)" for v
    by (auto simp: edges_from_zero_iff)
  then have sub: "set (k_queue ?st) \<subseteq> pending (k_ceg st) (k_deg st)"
    using p by (auto simp: pending_def simp del: graph_rel_iff)
  have disj: "pending (k_ceg ?st) (k_deg ?st) \<inter> set (k_queue ?st) = {}"
    using p by (auto simp: pending_def)
  have sub2: "pending (k_ceg ?st) (k_deg ?st) \<subseteq> pending (k_ceg st) (k_deg st)"
    using p g by (auto simp: pending_def simp del: graph_rel_iff)
  have "card (pending (k_ceg ?st) (k_deg ?st)) + card (set (k_queue ?st))
      = card (pending (k_ceg ?st) (k_deg ?st) \<union> set (k_queue ?st))"
    using disj by (simp add: card_Un_disjoint)
  also have "\<dots> \<le> card (pending (k_ceg st) (k_deg st))"
    using sub sub2 by (intro card_mono) auto
  finally show ?thesis using p distinct_card [of "k_queue ?st"] by metis
qed

text \<open>\<open>kahn_loop layer st layers\<close>: the outer loop, with the layers collected so far; the maximal
  depth is the number of layers.\<close>

function kahn_loop :: "nat \<Rightarrow> kahn \<Rightarrow> string list list \<Rightarrow> kahn \<times> string list list" where
  "kahn_loop layer st layers =
     (if k_queue st = [] then (st, layers)
      else let st1 = pop_layer layer st
           in kahn_loop (layer + 1) (st1\<lparr>k_queue := sort (k_queue st1)\<rparr>) (layers @ [k_queue st]))"
  by pat_completeness auto
termination
proof (relation "measure (\<lambda>(layer, st, layers). card (pending (k_ceg st) (k_deg st)) + length (k_queue st))")
  show "wf (measure (\<lambda>(layer, st, layers). card (pending (k_ceg st) (k_deg st)) + length (k_queue st)))"
    by (rule wf_measure)
next
  fix layer st layers st1
  assume "k_queue st \<noteq> []" and "st1 = pop_layer layer st"
  with pop_layer_pending [of layer st]
  show "((layer + 1, st1\<lparr>k_queue := sort (k_queue st1)\<rparr>, layers @ [k_queue st]), layer, st, layers)
      \<in> measure (\<lambda>(layer, st, layers). card (pending (k_ceg st) (k_deg st)) + length (k_queue st))"
    by (cases "k_queue st") auto
qed

declare kahn_loop.simps [simp del]

definition topoSort :: "CEG \<Rightarrow> CEG" where
  "topoSort c =
     (let q0 = sort (filter (\<lambda>i. ceg_InDegree c i = 0) (map node_ID (ceg_Nodes c)))
      in case kahn_loop 0 \<lparr>k_ceg = c, k_deg = ceg_InDegree c, k_queue = q0, k_layer = (\<lambda>_. 0)\<rparr> [] of
           (st, layers) \<Rightarrow>
             (k_ceg st)\<lparr>ceg_Layers := ceg_Layers (k_ceg st) @ layers,
                       ceg_MaxDepth := (if layers = [] then ceg_MaxDepth (k_ceg st) else length layers),
                       ceg_Nodes := map (\<lambda>n. n\<lparr>node_Layer := k_layer st (node_ID n)\<rparr>) (ceg_Nodes (k_ceg st))\<rparr>)"

subsection \<open>The layers are a topological order\<close>

text \<open>
  The graphs \<open>topoSort\<close> is given: distinct node identifiers, a node map that finds exactly them, and
  an in-degree that is at least the number of edges of the successor lists, positive only on nodes.
\<close>

definition node_ids :: "CEG \<Rightarrow> string list" where
  "node_ids c = map node_ID (ceg_Nodes c)"

definition kahn_ready :: "CEG \<Rightarrow> bool" where
  "kahn_ready c \<longleftrightarrow> distinct (node_ids c) \<and> set (gm_keys (ceg_NodeMap c)) = set (node_ids c) \<and>
     (\<forall>v \<in> set (node_ids c). int (edges_from c (node_ids c) v) \<le> ceg_InDegree c v) \<and>
     (\<forall>v. v \<notin> set (node_ids c) \<longrightarrow> ceg_InDegree c v = 0)"

definition kahn_inv :: "CEG \<Rightarrow> kahn \<Rightarrow> string list list \<Rightarrow> bool" where
  "kahn_inv c st layers \<longleftrightarrow>
     same_graph c (k_ceg st) \<and>
     distinct (concat layers @ k_queue st) \<and>
     set (concat layers) \<union> set (k_queue st) = {v \<in> set (node_ids c). k_deg st v = 0} \<and>
     (\<forall>v. k_deg st v = ceg_InDegree c v - int (edges_from c (concat layers) v)) \<and>
     (\<forall>l < length layers. \<forall>v \<in> set (layers ! l). k_layer st v = l) \<and>
     (\<forall>l < length layers. sorted (layers ! l) \<and> layers ! l \<noteq> []) \<and> sorted (k_queue st) \<and>
     (\<forall>l < length layers. \<forall>v \<in> set (layers ! l). \<forall>u. (u, v) \<in> graph_rel c \<longrightarrow> u \<in> set (concat (take l layers)))"

lemma kahn_ready_edges_le:
  assumes "kahn_ready c" and "distinct ids" and "set ids \<subseteq> set (node_ids c)" and "v \<in> set (node_ids c)"
  shows "int (edges_from c ids v) \<le> ceg_InDegree c v"
proof -
  have "edges_from c ids v \<le> edges_from c (node_ids c) v"
    using assms by (intro edges_from_mono) (auto simp: kahn_ready_def)
  then show ?thesis using assms by (fastforce simp: kahn_ready_def)
qed

text \<open>The layers so far are closed under predecessors.\<close>

lemma kahn_inv_preds:
  assumes "kahn_ready c" and "kahn_inv c st layers"
    and "v \<in> set (concat layers) \<union> set (k_queue st)" and "(u, v) \<in> graph_rel c"
  shows "u \<in> set (concat layers)"
proof (rule ccontr)
  assume u: "u \<notin> set (concat layers)"
  have un: "u \<in> set (node_ids c)"
    using assms(1,4) succs_no_key [of u c] by (force simp: kahn_ready_def)
  have d: "distinct (concat layers)" and s: "set (concat layers) \<subseteq> set (node_ids c)"
    and v: "v \<in> set (node_ids c)" "k_deg st v = 0"
    using assms(2,3) unfolding kahn_inv_def by auto
  have "int (edges_from c (u # concat layers) v) \<le> ceg_InDegree c v"
    using kahn_ready_edges_le [OF assms(1), of "u # concat layers" v] d s un u v by simp
  moreover have "0 < count (mset (succs c u)) v" using assms(4) by simp
  moreover have "ceg_InDegree c v = int (edges_from c (concat layers) v)"
    using assms(2) v(2) unfolding kahn_inv_def by (metis eq_iff_diff_eq_0)
  ultimately show False by simp
qed

lemma kahn_inv_step:
  assumes r: "kahn_ready c" and i: "kahn_inv c st layers" and ne: "k_queue st \<noteq> []"
  defines "st1 \<equiv> pop_layer (length layers) st"
  shows "kahn_inv c (st1\<lparr>k_queue := sort (k_queue st1)\<rparr>) (layers @ [k_queue st])"
proof -
  note p = pop_layer_spec [of "length layers" st, folded st1_def]
  have sg: "same_graph c (k_ceg st)" and dist: "distinct (concat layers @ k_queue st)"
    and zero: "set (concat layers) \<union> set (k_queue st) = {v \<in> set (node_ids c). k_deg st v = 0}"
    and deg: "\<And>v. k_deg st v = ceg_InDegree c v - int (edges_from c (concat layers) v)"
    using i unfolding kahn_inv_def by blast+
  have e: "edges_from (k_ceg st) (k_queue st) v = edges_from c (k_queue st) v" for v
    using sg by (rule edges_from_same_graph)
  have deg1: "k_deg st1 v = ceg_InDegree c v - int (edges_from c (concat (layers @ [k_queue st])) v)" for v
    using p deg e by simp
  have nonneg: "0 \<le> k_deg st1 v" if "v \<in> set (node_ids c)" for v
    using kahn_ready_edges_le [OF r dist, of v] that zero deg1 [of v] by auto
  have le: "k_deg st1 v \<le> k_deg st v" for v using p by simp
  have q1: "set (k_queue st1) = {v \<in> set (node_ids c). 0 < k_deg st v \<and> k_deg st1 v = 0}"
  proof (intro set_eqI iffI)
    fix v assume v: "v \<in> set (k_queue st1)"
    then have pos: "0 < k_deg st v" "k_deg st1 v \<le> 0" using p by auto
    have "v \<in> set (node_ids c)"
      using pos(1) deg [of v] r unfolding kahn_ready_def by fastforce
    with pos nonneg show "v \<in> {v \<in> set (node_ids c). 0 < k_deg st v \<and> k_deg st1 v = 0}" by force
  next
    fix v assume "v \<in> {v \<in> set (node_ids c). 0 < k_deg st v \<and> k_deg st1 v = 0}"
    then show "v \<in> set (k_queue st1)" using p by auto
  qed
  have all1: "set (concat (layers @ [k_queue st])) \<union> set (k_queue st1) = {v \<in> set (node_ids c). k_deg st1 v = 0}"
  proof (intro set_eqI iffI)
    fix v assume "v \<in> set (concat (layers @ [k_queue st])) \<union> set (k_queue st1)"
    then consider "v \<in> set (node_ids c)" "k_deg st v = 0" | "v \<in> set (k_queue st1)"
      using zero by auto
    then show "v \<in> {v \<in> set (node_ids c). k_deg st1 v = 0}"
    proof cases
      case 1
      with le [of v] nonneg [of v] show ?thesis by simp
    next
      case 2
      with q1 show ?thesis by simp
    qed
  next
    fix v assume v: "v \<in> {v \<in> set (node_ids c). k_deg st1 v = 0}"
    then have "0 \<le> k_deg st v" using le [of v] by simp
    with v q1 zero show "v \<in> set (concat (layers @ [k_queue st])) \<union> set (k_queue st1)"
      by (cases "k_deg st v = 0") auto
  qed
  have "(set (concat layers) \<union> set (k_queue st)) \<inter> set (k_queue st1) = {}"
    unfolding zero q1 by auto
  moreover have "distinct (k_queue st1)" using p by blast
  ultimately have dist1: "distinct (concat (layers @ [k_queue st]) @ k_queue st1)"
    using dist by (simp add: Int_Un_distrib2 Int_Un_distrib)
  have lay: "k_layer st1 v = l" if "l < length (layers @ [k_queue st])" "v \<in> set ((layers @ [k_queue st]) ! l)" for l v
  proof (cases "l < length layers")
    case True
    with that have "v \<in> set (layers ! l)" by (simp add: nth_append)
    moreover from this True dist have "v \<notin> set (k_queue st)" by (auto dest: nth_mem)
    ultimately show ?thesis using p i True unfolding kahn_inv_def by simp
  next
    case False
    with that have "l = length layers" by simp
    with that p show ?thesis by simp
  qed
  have srt: "sorted ((layers @ [k_queue st]) ! l) \<and> (layers @ [k_queue st]) ! l \<noteq> []"
    if "l < length (layers @ [k_queue st])" for l
    using that i ne unfolding kahn_inv_def by (cases "l < length layers") (auto simp: nth_append less_Suc_eq)
  have pre: "u \<in> set (concat (take l (layers @ [k_queue st])))"
    if "l < length (layers @ [k_queue st])" "v \<in> set ((layers @ [k_queue st]) ! l)" "(u, v) \<in> graph_rel c" for l u v
  proof (cases "l < length layers")
    case True
    with that i show ?thesis unfolding kahn_inv_def by (simp add: nth_append)
  next
    case False
    with that have "l = length layers" "v \<in> set (k_queue st)" by (simp_all add: nth_append split: if_splits)
    with kahn_inv_preds [OF r i, of v u] that(3) show ?thesis by simp
  qed
  show ?thesis
    unfolding kahn_inv_def
  proof (intro conjI allI impI ballI)
    fix l u v
    assume "l < length (layers @ [k_queue st])" "v \<in> set ((layers @ [k_queue st]) ! l)" "(u, v) \<in> graph_rel c"
    then show "u \<in> set (concat (take l (layers @ [k_queue st])))" by (rule pre)
  qed (use same_graph_trans [OF sg] p deg1 all1 dist1 lay srt in simp_all)
qed

lemma kahn_loop_inv:
  assumes "kahn_ready c" and "kahn_inv c st layers" and "kahn_loop (length layers) st layers = (st', layers')"
  shows "kahn_inv c st' layers' \<and> k_queue st' = []"
  using assms(2,3)
proof (induction "length layers" st layers arbitrary: st' layers' rule: kahn_loop.induct)
  case (1 st layers)
  show ?case
  proof (cases "k_queue st = []")
    case True
    with "1.prems" show ?thesis by (simp add: kahn_loop.simps)
  next
    case False
    let ?st1 = "pop_layer (length layers) st"
    have eq: "kahn_loop (length (layers @ [k_queue st])) (?st1\<lparr>k_queue := sort (k_queue ?st1)\<rparr>) (layers @ [k_queue st])
        = (st', layers')"
      using "1.prems"(2) False by (subst (asm) kahn_loop.simps) (simp add: Let_def)
    have l: "length layers + 1 = length (layers @ [k_queue st])" by simp
    show ?thesis
      by (rule "1.hyps" [OF False refl l kahn_inv_step [OF assms(1) "1.prems"(1) False] eq])
  qed
qed

lemma kahn_inv_init:
  assumes "kahn_ready c"
  shows "kahn_inv c \<lparr>k_ceg = c, k_deg = ceg_InDegree c,
      k_queue = sort (filter (\<lambda>i. ceg_InDegree c i = 0) (node_ids c)), k_layer = (\<lambda>_. 0)\<rparr> []"
  using assms by (auto simp: kahn_inv_def kahn_ready_def)

text \<open>What the loop leaves: \<open>topoSort\<close> seen through its final state.\<close>

definition fresh :: "CEG \<Rightarrow> bool" where
  "fresh c \<longleftrightarrow> ceg_Layers c = [] \<and> ceg_MaxDepth c = 0"

lemma topoSort_inv:
  assumes r: "kahn_ready c" and l: "fresh c"
  obtains st where "kahn_inv c st (ceg_Layers (topoSort c))" and "k_queue st = []"
    and "ceg_MaxDepth (topoSort c) = length (ceg_Layers (topoSort c))"
    and "ceg_Nodes (topoSort c) = map (\<lambda>n. n\<lparr>node_Layer := k_layer st (node_ID n)\<rparr>) (ceg_Nodes (k_ceg st))"
    and "ceg_NodeMap (topoSort c) = ceg_NodeMap c" and "ceg_InDegree (topoSort c) = ceg_InDegree c"
    and "ceg_Edges (topoSort c) = ceg_Edges c"
proof -
  let ?st0 = "\<lparr>k_ceg = c, k_deg = ceg_InDegree c,
      k_queue = sort (filter (\<lambda>i. ceg_InDegree c i = 0) (node_ids c)), k_layer = (\<lambda>_. 0)\<rparr>"
  obtain st layers where k: "kahn_loop (length ([] :: string list list)) ?st0 [] = (st, layers)" by fastforce
  have i: "kahn_inv c st layers \<and> k_queue st = []"
    by (rule kahn_loop_inv [OF r kahn_inv_init [OF r] k])
  then have "same_graph c (k_ceg st)" unfolding kahn_inv_def by blast
  then have "ceg_NodeMap (k_ceg st) = ceg_NodeMap c" "ceg_InDegree (k_ceg st) = ceg_InDegree c"
    "ceg_Edges (k_ceg st) = ceg_Edges c" "ceg_Layers (k_ceg st) = []" "ceg_MaxDepth (k_ceg st) = 0"
    using l by (simp_all add: same_graph_def fresh_def)
  with i k that [of st] show ?thesis by (simp add: topoSort_def node_ids_def)
qed

text \<open>The nodes of \<open>topoSort c\<close> are those of \<open>c\<close> with their successors sorted and their layer set.\<close>

lemma topoSort_same:
  assumes "kahn_ready c" and "fresh c"
  shows "node_ids (topoSort c) = node_ids c"
    and "mset (succs (topoSort c) i) = mset (succs c i)"
    and "map node_Activation (ceg_Nodes (topoSort c)) = map node_Activation (ceg_Nodes c)"
    and "map node_Predecessors (ceg_Nodes (topoSort c)) = map node_Predecessors (ceg_Nodes c)"
    and "graph_rel (topoSort c) = graph_rel c"
proof -
  obtain st where st: "kahn_inv c st (ceg_Layers (topoSort c))"
      "ceg_Nodes (topoSort c) = map (\<lambda>n. n\<lparr>node_Layer := k_layer st (node_ID n)\<rparr>) (ceg_Nodes (k_ceg st))"
      "ceg_NodeMap (topoSort c) = ceg_NodeMap c"
    using topoSort_inv [OF assms] by blast
  have sg: "same_graph c (k_ceg st)" using st(1) unfolding kahn_inv_def by blast
  have m: "map f (ceg_Nodes (topoSort c)) = map f (ceg_Nodes (k_ceg st))"
    if "\<And>n l. f (n\<lparr>node_Layer := l\<rparr>) = f n" for f :: "CEGNode \<Rightarrow> 'b"
    using that st(2) by simp
  show "node_ids (topoSort c) = node_ids c"
    "map node_Activation (ceg_Nodes (topoSort c)) = map node_Activation (ceg_Nodes c)"
    "map node_Predecessors (ceg_Nodes (topoSort c)) = map node_Predecessors (ceg_Nodes c)"
    using sg by (simp_all add: m same_graph_def node_ids_def)
  have len: "length (ceg_Nodes (topoSort c)) = length (ceg_Nodes (k_ceg st))"
    using st(2) by simp
  have nm: "ceg_NodeMap (topoSort c) = ceg_NodeMap (k_ceg st)"
    using st(3) sg by (simp add: same_graph_def)
  have s: "succs (topoSort c) j = succs (k_ceg st) j" for j
    unfolding succs_def ceg_node_def nm len by (simp add: st(2) split: option.splits)
  then show ms: "mset (succs (topoSort c) i) = mset (succs c i)" for i
    using sg by (simp add: same_graph_def)
  show "graph_rel (topoSort c) = graph_rel c"
    unfolding graph_rel_def using ms mset_eq_setD by blast
qed

lemma topoSort_layers:
  assumes "kahn_ready c" and "fresh c"
  shows "distinct (concat (ceg_Layers (topoSort c)))"
    and "set (concat (ceg_Layers (topoSort c))) \<subseteq> set (node_ids c)"
    and "ceg_MaxDepth (topoSort c) = length (ceg_Layers (topoSort c))"
    and "\<forall>l < length (ceg_Layers (topoSort c)). sorted (ceg_Layers (topoSort c) ! l) \<and> ceg_Layers (topoSort c) ! l \<noteq> []"
    and "\<forall>n \<in> set (ceg_Nodes (topoSort c)). \<forall>l < length (ceg_Layers (topoSort c)).
           node_ID n \<in> set (ceg_Layers (topoSort c) ! l) \<longrightarrow> node_Layer n = l"
proof -
  obtain st where i: "kahn_inv c st (ceg_Layers (topoSort c))"
    and q: "k_queue st = []"
    and d: "ceg_MaxDepth (topoSort c) = length (ceg_Layers (topoSort c))"
    and n: "ceg_Nodes (topoSort c) = map (\<lambda>n. n\<lparr>node_Layer := k_layer st (node_ID n)\<rparr>) (ceg_Nodes (k_ceg st))"
    using topoSort_inv [OF assms] by blast
  show "distinct (concat (ceg_Layers (topoSort c)))"
    "ceg_MaxDepth (topoSort c) = length (ceg_Layers (topoSort c))"
    "\<forall>l < length (ceg_Layers (topoSort c)). sorted (ceg_Layers (topoSort c) ! l) \<and> ceg_Layers (topoSort c) ! l \<noteq> []"
    using i d unfolding kahn_inv_def distinct_append by blast+
  show "set (concat (ceg_Layers (topoSort c))) \<subseteq> set (node_ids c)"
    using i unfolding kahn_inv_def by blast
  have "\<forall>l < length (ceg_Layers (topoSort c)). \<forall>v \<in> set (ceg_Layers (topoSort c) ! l). k_layer st v = l"
    using i unfolding kahn_inv_def by blast
  then show "\<forall>n \<in> set (ceg_Nodes (topoSort c)). \<forall>l < length (ceg_Layers (topoSort c)).
           node_ID n \<in> set (ceg_Layers (topoSort c) ! l) \<longrightarrow> node_Layer n = l"
    unfolding n by auto
qed

lemma topoSort_edge:
  assumes "kahn_ready c" and "fresh c" and "(u, v) \<in> graph_rel c"
    and "l < length (ceg_Layers (topoSort c))" and "v \<in> set (ceg_Layers (topoSort c) ! l)"
  shows "\<exists>k < l. u \<in> set (ceg_Layers (topoSort c) ! k)"
proof -
  obtain st where "kahn_inv c st (ceg_Layers (topoSort c))"
    using topoSort_inv [OF assms(1,2)] by blast
  then have "u \<in> set (concat (take l (ceg_Layers (topoSort c))))"
    using assms(3-5) unfolding kahn_inv_def by blast
  then obtain ys where "ys \<in> set (take l (ceg_Layers (topoSort c)))" "u \<in> set ys" by auto
  then show ?thesis using assms(4) by (metis in_set_conv_nth length_take min_less_iff_conj nth_take)
qed

text \<open>With no edge from outside the node map, an acyclic graph is layered completely.\<close>

definition kahn_exact :: "CEG \<Rightarrow> bool" where
  "kahn_exact c \<longleftrightarrow> (\<forall>v \<in> set (node_ids c). int (edges_from c (node_ids c) v) = ceg_InDegree c v)"

lemma topoSort_complete:
  assumes r: "kahn_ready c" and l: "fresh c" and ex: "kahn_exact c" and ac: "acyclic (graph_rel c)"
  shows "set (concat (ceg_Layers (topoSort c))) = set (node_ids c)"
proof (rule ccontr)
  let ?P = "set (concat (ceg_Layers (topoSort c)))"
  obtain st where st: "kahn_inv c st (ceg_Layers (topoSort c))" "k_queue st = []"
    using topoSort_inv [OF r l] by blast
  assume "?P \<noteq> set (node_ids c)"
  then have "set (node_ids c) - ?P \<noteq> {}" using topoSort_layers(2) [OF r l] by blast
  moreover have "wf (graph_rel c)" using ac finite_graph_rel finite_acyclic_wf by blast
  ultimately obtain v where v: "v \<in> set (node_ids c)" "v \<notin> ?P"
    and min: "\<And>u. (u, v) \<in> graph_rel c \<Longrightarrow> u \<notin> set (node_ids c) - ?P"
    by (metis (no_types, lifting) Diff_iff wfE_min')
  have rest: "edges_from c (filter (\<lambda>i. i \<notin> ?P) (node_ids c)) v = 0"
    unfolding edges_from_zero_iff using min by auto
  have "mset (node_ids c) = mset (filter (\<lambda>i. i \<notin> ?P) (node_ids c) @ concat (ceg_Layers (topoSort c)))"
    using r topoSort_layers(1,2) [OF r l] unfolding kahn_ready_def
    by (intro distinct_set_mset_eq) auto
  then have "edges_from c (node_ids c) v = edges_from c (concat (ceg_Layers (topoSort c))) v"
    using rest edges_from_perm by (metis add_0 edges_from_simps(3))
  moreover have "k_deg st v = ceg_InDegree c v - int (edges_from c (concat (ceg_Layers (topoSort c))) v)"
    using st(1) unfolding kahn_inv_def by blast
  moreover have "int (edges_from c (node_ids c) v) = ceg_InDegree c v"
    using ex v(1) unfolding kahn_exact_def by blast
  ultimately have "k_deg st v = 0" by simp
  moreover have "?P \<union> set (k_queue st) = {v \<in> set (node_ids c). k_deg st v = 0}"
    using st(1) unfolding kahn_inv_def by blast
  ultimately have "v \<in> ?P \<union> set (k_queue st)" using v(1) by blast
  then have "v \<in> ?P" by (simp only: st(2) list.set Un_empty_right)
  with v(2) show False ..
qed

text \<open>A node of a layer after the first has a predecessor in the layer before it: a node enters the
  queue only when an edge from the layer being popped brings its in-degree to zero.\<close>

definition kahn_tight :: "CEG \<Rightarrow> kahn \<Rightarrow> string list list \<Rightarrow> bool" where
  "kahn_tight c st layers \<longleftrightarrow>
     (\<forall>l. Suc l < length layers \<longrightarrow> (\<forall>v \<in> set (layers ! Suc l). \<exists>u \<in> set (layers ! l). (u, v) \<in> graph_rel c)) \<and>
     (layers \<noteq> [] \<longrightarrow> (\<forall>v \<in> set (k_queue st). \<exists>u \<in> set (last layers). (u, v) \<in> graph_rel c))"

lemma kahn_tight_step:
  assumes i: "kahn_inv c st layers" and t: "kahn_tight c st layers"
  defines "st1 \<equiv> pop_layer (length layers) st"
  shows "kahn_tight c (st1\<lparr>k_queue := sort (k_queue st1)\<rparr>) (layers @ [k_queue st])"
proof -
  have sg: "same_graph c (k_ceg st)" using i unfolding kahn_inv_def by blast
  have "\<exists>u \<in> set (k_queue st). (u, v) \<in> graph_rel c" if "v \<in> set (k_queue st1)" for v
  proof -
    have "edges_from c (k_queue st) v \<noteq> 0"
      using that pop_layer_spec [of "length layers" st, folded st1_def] edges_from_same_graph [OF sg] by auto
    then show ?thesis unfolding edges_from_zero_iff by blast
  qed
  moreover have "\<exists>u \<in> set ((layers @ [k_queue st]) ! l). (u, v) \<in> graph_rel c"
    if l: "Suc l < length (layers @ [k_queue st])" and v: "v \<in> set ((layers @ [k_queue st]) ! Suc l)" for l v
  proof (cases "Suc l < length layers")
    case True
    with v t show ?thesis by (simp add: kahn_tight_def nth_append)
  next
    case False
    with l have "Suc l = length layers" by simp
    then have "(layers @ [k_queue st]) ! Suc l = k_queue st" and ne: "layers \<noteq> []"
      and ll: "(layers @ [k_queue st]) ! l = last layers"
      by (cases layers rule: rev_cases; simp add: nth_append)+
    with v have "v \<in> set (k_queue st)" by simp
    with t ne show ?thesis unfolding kahn_tight_def ll by blast
  qed
  ultimately show ?thesis by (simp add: kahn_tight_def)
qed

lemma kahn_loop_tight:
  assumes "kahn_ready c" and "kahn_inv c st layers" and "kahn_tight c st layers"
    and "kahn_loop (length layers) st layers = (st', layers')"
  shows "kahn_tight c st' layers'"
  using assms(2-4)
proof (induction "length layers" st layers arbitrary: st' layers' rule: kahn_loop.induct)
  case (1 st layers)
  show ?case
  proof (cases "k_queue st = []")
    case True
    with "1.prems" show ?thesis by (simp add: kahn_loop.simps)
  next
    case False
    let ?st1 = "pop_layer (length layers) st"
    have eq: "kahn_loop (length (layers @ [k_queue st])) (?st1\<lparr>k_queue := sort (k_queue ?st1)\<rparr>) (layers @ [k_queue st])
        = (st', layers')"
      using "1.prems"(3) False by (subst (asm) kahn_loop.simps) (simp add: Let_def)
    have l: "length layers + 1 = length (layers @ [k_queue st])" by simp
    show ?thesis
      by (rule "1.hyps" [OF False refl l kahn_inv_step [OF assms(1) "1.prems"(1) False]
            kahn_tight_step [OF "1.prems"(1,2)] eq])
  qed
qed

lemma topoSort_tight:
  assumes r: "kahn_ready c" and l: "fresh c"
    and "Suc l < length (ceg_Layers (topoSort c))" and "v \<in> set (ceg_Layers (topoSort c) ! Suc l)"
  shows "\<exists>u \<in> set (ceg_Layers (topoSort c) ! l). (u, v) \<in> graph_rel c"
proof -
  let ?st0 = "\<lparr>k_ceg = c, k_deg = ceg_InDegree c,
      k_queue = sort (filter (\<lambda>i. ceg_InDegree c i = 0) (node_ids c)), k_layer = (\<lambda>_. 0)\<rparr>"
  obtain st layers where k: "kahn_loop (length ([] :: string list list)) ?st0 [] = (st, layers)" by fastforce
  have "kahn_tight c ?st0 []" by (simp add: kahn_tight_def)
  then have t: "kahn_tight c st layers" using kahn_loop_tight [OF r kahn_inv_init [OF r] _ k] by blast
  have "kahn_inv c st layers" using kahn_loop_inv [OF r kahn_inv_init [OF r] k] by blast
  then have "ceg_Layers (k_ceg st) = []" using l by (simp add: kahn_inv_def same_graph_def fresh_def)
  with k have "ceg_Layers (topoSort c) = layers" by (simp add: topoSort_def node_ids_def)
  with assms(3,4) t show ?thesis unfolding kahn_tight_def by metis
qed

end
