(* ===== verification/Mek_Ceg.thy ===== *)
theory Mek_Ceg
  imports Mek_Kahn
begin

text \<open>
  The rest of \<open>mek/internal/ceg/builder.go\<close>: the validation of a graph, \<open>Build\<close>, and the activation
  rules of a blocked node. The lemmas relate the graph that \<open>Build\<close> makes to the edges of the RIR and
  say what a successful build guarantees.
\<close>

subsection \<open>Validation\<close>

fun check_indegrees :: "CEGNode list \<Rightarrow> build_error option" where
  "check_indegrees [] = None"
| "check_indegrees (n # ns) =
     (if length (node_Predecessors n) > 1024
      then Some (IndegreeExceeded (node_ID n) (length (node_Predecessors n)))
      else check_indegrees ns)"

definition validate :: "CEG \<Rightarrow> build_error option" where
  "validate c =
     (if hasCycle c then Some CyclesDetected
      else case check_indegrees (ceg_Nodes c) of
             Some e \<Rightarrow> Some e
           | None \<Rightarrow>
               if ceg_MaxDepth c > 128 then Some (MaxDepthExceeded (ceg_MaxDepth c))
               else let reachable = reachableSet c
                    in if length reachable \<noteq> length (ceg_Nodes c)
                       then Some (UnreachableNodes (int (length (ceg_Nodes c)) - int (length reachable)))
                       else None)"

definition Build :: "RIR \<Rightarrow> build_error + CEG" where
  "Build rir =
     (let c = topoSort (build_graph rir)
      in case validate c of Some e \<Rightarrow> Inl e | None \<Rightarrow> Inr c)"

subsection \<open>Activation\<close>

fun all_requires_success :: "string list \<Rightarrow> StatusMap \<Rightarrow> bool" where
  "all_requires_success [] sm = True"
| "all_requires_success (req # reqs) sm =
     (case sm_Get sm req of
        None \<Rightarrow> False
      | Some status \<Rightarrow> if status \<noteq> StatusSuccess then False else all_requires_success reqs sm)"

fun some_candidate_success :: "string list \<Rightarrow> StatusMap \<Rightarrow> bool" where
  "some_candidate_success [] sm = False"
| "some_candidate_success (c # cs) sm =
     (if sm_Get sm c = Some StatusSuccess then True else some_candidate_success cs sm)"

definition EvaluateActivation :: "CEGNode \<Rightarrow> StatusMap \<Rightarrow> bool" where
  "EvaluateActivation node sm =
     (let a = node_Activation node
      in if act_Condition a = ''all_success'' then all_requires_success (act_Requires a) sm
         else if act_Condition a = ''any_success''
         then some_candidate_success (act_Requires a @ act_Optional a) sm
         else False)"

fun some_require_dead :: "string list \<Rightarrow> StatusMap \<Rightarrow> bool" where
  "some_require_dead [] sm = False"
| "some_require_dead (req # reqs) sm =
     (case sm_Get sm req of
        None \<Rightarrow> some_require_dead reqs sm
      | Some status \<Rightarrow>
          if IsTerminal status \<and> status \<noteq> StatusSuccess then True else some_require_dead reqs sm)"

fun all_candidates_dead :: "string list \<Rightarrow> StatusMap \<Rightarrow> bool" where
  "all_candidates_dead [] sm = True"
| "all_candidates_dead (c # cs) sm =
     (case sm_Get sm c of
        None \<Rightarrow> False
      | Some status \<Rightarrow>
          if \<not> IsTerminal status then False
          else if status = StatusSuccess then False
          else all_candidates_dead cs sm)"

definition ShouldSkip :: "CEGNode \<Rightarrow> StatusMap \<Rightarrow> bool" where
  "ShouldSkip node sm =
     (let a = node_Activation node
      in if act_Condition a = ''all_success'' then some_require_dead (act_Requires a) sm
         else if act_Condition a = ''any_success''
         then (let candidates = act_Requires a @ act_Optional a
               in if candidates = [] then False else all_candidates_dead candidates sm)
         else False)"

subsection \<open>Activation: specification\<close>

definition succeeded :: "StatusMap \<Rightarrow> string set" where
  "succeeded sm = {i. sm_Get sm i = Some StatusSuccess}"

definition settled :: "StatusMap \<Rightarrow> string set" where
  "settled sm = {i. \<exists>s. sm_Get sm i = Some s \<and> IsTerminal s}"

definition candidates :: "CEGNode \<Rightarrow> string list" where
  "candidates node =
     (if act_Condition (node_Activation node) = ''any_success''
      then act_Requires (node_Activation node) @ act_Optional (node_Activation node)
      else act_Requires (node_Activation node))"

lemma all_requires_success_iff: "all_requires_success rs sm \<longleftrightarrow> set rs \<subseteq> succeeded sm"
  by (induction rs) (auto simp: succeeded_def split: option.splits)

lemma some_candidate_success_iff: "some_candidate_success cs sm \<longleftrightarrow> set cs \<inter> succeeded sm \<noteq> {}"
  by (induction cs) (auto simp: succeeded_def)

lemma some_require_dead_iff: "some_require_dead rs sm \<longleftrightarrow> set rs \<inter> (settled sm - succeeded sm) \<noteq> {}"
  by (induction rs) (auto simp: succeeded_def settled_def split: option.splits simp del: IsTerminal.simps)

lemma all_candidates_dead_iff: "all_candidates_dead cs sm \<longleftrightarrow> set cs \<subseteq> settled sm - succeeded sm"
  by (induction cs) (auto simp: succeeded_def settled_def split: option.splits simp del: IsTerminal.simps)

lemma succeeded_settled: "succeeded sm \<subseteq> settled sm"
  by (auto simp: succeeded_def settled_def)

lemma EvaluateActivation_iff:
  "EvaluateActivation n sm \<longleftrightarrow>
     (act_Condition (node_Activation n) = ''all_success'' \<and> set (candidates n) \<subseteq> succeeded sm) \<or>
     (act_Condition (node_Activation n) = ''any_success'' \<and> set (candidates n) \<inter> succeeded sm \<noteq> {})"
  by (auto simp: EvaluateActivation_def Let_def candidates_def all_requires_success_iff some_candidate_success_iff)

lemma ShouldSkip_iff:
  "ShouldSkip n sm \<longleftrightarrow>
     (act_Condition (node_Activation n) = ''all_success'' \<and>
        set (candidates n) \<inter> (settled sm - succeeded sm) \<noteq> {}) \<or>
     (act_Condition (node_Activation n) = ''any_success'' \<and> candidates n \<noteq> [] \<and>
        set (candidates n) \<subseteq> settled sm - succeeded sm)"
  by (auto simp: ShouldSkip_def Let_def candidates_def some_require_dead_iff all_candidates_dead_iff)

lemma EvaluateActivation_mono:
  "EvaluateActivation n sm \<Longrightarrow> succeeded sm \<subseteq> succeeded sm' \<Longrightarrow> EvaluateActivation n sm'"
  by (auto simp: EvaluateActivation_iff)

text \<open>A node decided by its settled candidates is activated or skipped, never both.\<close>

definition decidable_node :: "CEGNode \<Rightarrow> bool" where
  "decidable_node n \<longleftrightarrow>
     act_Condition (node_Activation n) = ''all_success'' \<or>
     (act_Condition (node_Activation n) = ''any_success'' \<and> candidates n \<noteq> [])"

lemma activation_exclusive: "EvaluateActivation n sm \<Longrightarrow> \<not> ShouldSkip n sm"
  by (auto simp: EvaluateActivation_iff ShouldSkip_iff)

lemma activation_decided:
  "decidable_node n \<Longrightarrow> set (candidates n) \<subseteq> settled sm \<Longrightarrow> EvaluateActivation n sm \<or> ShouldSkip n sm"
  by (auto simp: EvaluateActivation_iff ShouldSkip_iff decidable_node_def)

subsection \<open>The graph of the RIR\<close>

abbreviation rir_edges :: "RIR \<Rightarrow> Edge list" where
  "rir_edges r \<equiv> dag_Edges (graph_DAG (rir_Graph r))"

abbreviation unit_ids :: "RIR \<Rightarrow> string list" where
  "unit_ids r \<equiv> map unit_ID (rir_Units r)"

definition map_ok :: "CEG \<Rightarrow> bool" where
  "map_ok c \<longleftrightarrow> distinct (node_ids c) \<and> set (gm_keys (ceg_NodeMap c)) = set (node_ids c) \<and>
     (\<forall>k < length (ceg_Nodes c). gm_get (ceg_NodeMap c) (node_ID (ceg_Nodes c ! k)) = Some k)"

lemma map_ok_get:
  assumes "map_ok c" and "gm_get (ceg_NodeMap c) i = Some k"
  shows "k < length (ceg_Nodes c) \<and> node_ID (ceg_Nodes c ! k) = i"
proof -
  have "i \<in> set (node_ids c)" using assms gm_get_Some_key unfolding map_ok_def by fastforce
  then obtain j where "j < length (ceg_Nodes c)" "node_ID (ceg_Nodes c ! j) = i"
    by (auto simp: node_ids_def in_set_conv_nth)
  with assms show ?thesis unfolding map_ok_def by force
qed

lemma map_ok_node:
  assumes "map_ok c"
  shows "ceg_node c i = Some n \<longleftrightarrow> n \<in> set (ceg_Nodes c) \<and> node_ID n = i"
proof
  assume "ceg_node c i = Some n"
  then obtain k where "gm_get (ceg_NodeMap c) i = Some k" "k < length (ceg_Nodes c)" "n = ceg_Nodes c ! k"
    by (auto simp: ceg_node_def split: option.splits if_splits)
  with map_ok_get [OF assms] show "n \<in> set (ceg_Nodes c) \<and> node_ID n = i" by auto
next
  assume "n \<in> set (ceg_Nodes c) \<and> node_ID n = i"
  then obtain k where "k < length (ceg_Nodes c)" "ceg_Nodes c ! k = n" "node_ID n = i"
    by (auto simp: in_set_conv_nth)
  with assms show "ceg_node c i = Some n" unfolding map_ok_def ceg_node_def by force
qed

lemma map_ok_None: "map_ok c \<Longrightarrow> ceg_node c i = None \<longleftrightarrow> i \<notin> set (node_ids c)"
  using map_ok_node [of c i] by (cases "ceg_node c i") (force simp: node_ids_def)+

lemma map_ok_get_None: "map_ok c \<Longrightarrow> gm_get (ceg_NodeMap c) i = None \<longleftrightarrow> i \<notin> set (node_ids c)"
  using gm_get_None_iff [of "ceg_NodeMap c" i] by (simp add: map_ok_def)

lemma map_ok_add_unit:
  assumes "map_ok c" and "unit_ID u \<notin> set (node_ids c)"
  shows "map_ok (add_unit u c)" and "node_ids (add_unit u c) = node_ids c @ [unit_ID u]"
proof -
  show ids: "node_ids (add_unit u c) = node_ids c @ [unit_ID u]"
    by (simp add: add_unit_def Let_def node_ids_def)
  have "node_ID (ceg_Nodes c ! k) \<noteq> unit_ID u" if "k < length (ceg_Nodes c)" for k
    using that assms(2) by (metis imageI list.set_map node_ids_def nth_mem)
  with assms ids show "map_ok (add_unit u c)"
    unfolding map_ok_def
    by (auto simp: add_unit_def Let_def node_ids_def nth_append less_Suc_eq)
qed

lemma upd_node_frame [simp]:
  "ceg_NodeMap (upd_node k f c) = ceg_NodeMap c" "ceg_InDegree (upd_node k f c) = ceg_InDegree c"
  "ceg_Layers (upd_node k f c) = ceg_Layers c" "ceg_MaxDepth (upd_node k f c) = ceg_MaxDepth c"
  "ceg_Edges (upd_node k f c) = ceg_Edges c" "length (ceg_Nodes (upd_node k f c)) = length (ceg_Nodes c)"
  by (simp_all add: upd_node_def)

lemma map_upd_node: "(\<And>n. g (f n) = g n) \<Longrightarrow> map g (ceg_Nodes (upd_node k f c)) = map g (ceg_Nodes c)"
  by (simp add: upd_node_def map_upd_same)

lemma map_ok_upd_node:
  assumes "\<And>n. node_ID (f n) = node_ID n"
  shows "map_ok (upd_node k f c) = map_ok c" and "node_ids (upd_node k f c) = node_ids c"
proof -
  have m: "map node_ID (ceg_Nodes (upd_node k f c)) = map node_ID (ceg_Nodes c)"
    using assms by (rule map_upd_node)
  then show ids: "node_ids (upd_node k f c) = node_ids c" by (simp add: node_ids_def)
  have "node_ID (ceg_Nodes (upd_node k f c) ! j) = node_ID (ceg_Nodes c ! j)" if "j < length (ceg_Nodes c)" for j
    using that m by (metis length_map nth_map upd_node_frame(6))
  then show "map_ok (upd_node k f c) = map_ok c"
    unfolding map_ok_def ids by simp
qed

lemma ceg_node_upd_node:
  assumes "map_ok c" and "gm_get (ceg_NodeMap c) i = Some k"
  shows "ceg_node (upd_node k f c) j = (if j = i then map_option f (ceg_node c j) else ceg_node c j)"
proof (cases "j = i")
  case True
  with map_ok_get [OF assms] assms(2) show ?thesis by (simp add: ceg_node_def upd_node_def)
next
  case False
  have "m \<noteq> k" if "gm_get (ceg_NodeMap c) j = Some m" for m
    using map_ok_get [OF assms(1) that] map_ok_get [OF assms] False by auto
  with False show ?thesis
    by (auto simp: ceg_node_def upd_node_def split: option.splits)
qed

lemma ceg_frame [simp]:
  "node_ids (c\<lparr>ceg_InDegree := d\<rparr>) = node_ids c" "node_ids (c\<lparr>ceg_Edges := es\<rparr>) = node_ids c"
  "ceg_node (c\<lparr>ceg_InDegree := d\<rparr>) i = ceg_node c i" "ceg_node (c\<lparr>ceg_Edges := es\<rparr>) i = ceg_node c i"
  "map_ok (c\<lparr>ceg_InDegree := d\<rparr>) = map_ok c" "map_ok (c\<lparr>ceg_Edges := es\<rparr>) = map_ok c"
  by (simp_all add: node_ids_def ceg_node_def map_ok_def cong: option.case_cong if_cong)

definition preds :: "CEG \<Rightarrow> string \<Rightarrow> string list" where
  "preds c i = (case ceg_node c i of None \<Rightarrow> [] | Some n \<Rightarrow> node_Predecessors n)"

lemma add_successor_spec:
  assumes ok: "map_ok c"
  shows "map_ok (add_successor e c)" and "node_ids (add_successor e c) = node_ids c"
    and "succs (add_successor e c) i =
           (if i = edge_From e \<and> i \<in> set (node_ids c) then succs c i @ [edge_To e] else succs c i)"
    and "preds (add_successor e c) i = preds c i"
    and "ceg_InDegree (add_successor e c) = ceg_InDegree c"
    and "map node_Activation (ceg_Nodes (add_successor e c)) = map node_Activation (ceg_Nodes c)"
    and "fresh (add_successor e c) = fresh c"
proof -
  let ?f = "\<lambda>n. n\<lparr>node_Successors := node_Successors n @ [edge_To e]\<rparr>"
  consider "edge_From e \<notin> set (node_ids c)" "add_successor e c = c"
    | k where "edge_From e \<in> set (node_ids c)" "gm_get (ceg_NodeMap c) (edge_From e) = Some k"
        "add_successor e c = upd_node k ?f c"
    using map_ok_get_None [OF ok, of "edge_From e"]
    by (cases "gm_get (ceg_NodeMap c) (edge_From e)") (simp_all add: add_successor_def)
  then have "map_ok (add_successor e c) \<and> node_ids (add_successor e c) = node_ids c \<and>
    (\<forall>i. succs (add_successor e c) i =
      (if i = edge_From e \<and> i \<in> set (node_ids c) then succs c i @ [edge_To e] else succs c i)) \<and>
    (\<forall>i. preds (add_successor e c) i = preds c i) \<and> ceg_InDegree (add_successor e c) = ceg_InDegree c \<and>
    map node_Activation (ceg_Nodes (add_successor e c)) = map node_Activation (ceg_Nodes c) \<and>
    fresh (add_successor e c) = fresh c"
  proof cases
    case 1
    with ok show ?thesis by simp
  next
    case 2
    with ok show ?thesis
      using map_ok_None [OF ok, of "edge_From e"]
      by (auto simp: map_ok_upd_node map_upd_node fresh_def succs_def preds_def
          ceg_node_upd_node [OF ok 2(2)] split: option.splits)
  qed
  then show "map_ok (add_successor e c)" "node_ids (add_successor e c) = node_ids c"
    "succs (add_successor e c) i =
           (if i = edge_From e \<and> i \<in> set (node_ids c) then succs c i @ [edge_To e] else succs c i)"
    "preds (add_successor e c) i = preds c i" "ceg_InDegree (add_successor e c) = ceg_InDegree c"
    "map node_Activation (ceg_Nodes (add_successor e c)) = map node_Activation (ceg_Nodes c)"
    "fresh (add_successor e c) = fresh c" by blast+
qed

lemma add_predecessor_spec:
  assumes ok: "map_ok c"
  shows "map_ok (add_predecessor e c)" and "node_ids (add_predecessor e c) = node_ids c"
    and "succs (add_predecessor e c) i = succs c i"
    and "preds (add_predecessor e c) i =
           (if i = edge_To e \<and> i \<in> set (node_ids c) then preds c i @ [edge_From e] else preds c i)"
    and "ceg_InDegree (add_predecessor e c) i =
           (if i = edge_To e \<and> i \<in> set (node_ids c) then ceg_InDegree c i + 1 else ceg_InDegree c i)"
    and "map node_Activation (ceg_Nodes (add_predecessor e c)) = map node_Activation (ceg_Nodes c)"
    and "fresh (add_predecessor e c) = fresh c"
proof -
  let ?f = "\<lambda>n. n\<lparr>node_Predecessors := node_Predecessors n @ [edge_From e]\<rparr>"
  consider "edge_To e \<notin> set (node_ids c)" "add_predecessor e c = c"
    | k where "edge_To e \<in> set (node_ids c)" "gm_get (ceg_NodeMap c) (edge_To e) = Some k"
        "add_predecessor e c = (upd_node k ?f c)
           \<lparr>ceg_InDegree := (ceg_InDegree c)(edge_To e := ceg_InDegree c (edge_To e) + 1)\<rparr>"
    using map_ok_get_None [OF ok, of "edge_To e"]
    by (cases "gm_get (ceg_NodeMap c) (edge_To e)") (simp_all add: add_predecessor_def)
  then have "map_ok (add_predecessor e c) \<and> node_ids (add_predecessor e c) = node_ids c \<and>
    (\<forall>i. succs (add_predecessor e c) i = succs c i) \<and>
    (\<forall>i. preds (add_predecessor e c) i =
      (if i = edge_To e \<and> i \<in> set (node_ids c) then preds c i @ [edge_From e] else preds c i)) \<and>
    (\<forall>i. ceg_InDegree (add_predecessor e c) i =
      (if i = edge_To e \<and> i \<in> set (node_ids c) then ceg_InDegree c i + 1 else ceg_InDegree c i)) \<and>
    map node_Activation (ceg_Nodes (add_predecessor e c)) = map node_Activation (ceg_Nodes c) \<and>
    fresh (add_predecessor e c) = fresh c"
  proof cases
    case 1
    with ok show ?thesis by simp
  next
    case 2
    with ok show ?thesis
      using map_ok_None [OF ok, of "edge_To e"]
      by (auto simp: map_ok_upd_node map_upd_node fresh_def succs_def preds_def
          ceg_node_upd_node [OF ok 2(2)] split: option.splits)
  qed
  then show "map_ok (add_predecessor e c)" "node_ids (add_predecessor e c) = node_ids c"
    "succs (add_predecessor e c) i = succs c i"
    "preds (add_predecessor e c) i =
       (if i = edge_To e \<and> i \<in> set (node_ids c) then preds c i @ [edge_From e] else preds c i)"
    "ceg_InDegree (add_predecessor e c) i =
       (if i = edge_To e \<and> i \<in> set (node_ids c) then ceg_InDegree c i + 1 else ceg_InDegree c i)"
    "map node_Activation (ceg_Nodes (add_predecessor e c)) = map node_Activation (ceg_Nodes c)"
    "fresh (add_predecessor e c) = fresh c" by blast+
qed

lemma add_edge_spec:
  assumes ok: "map_ok c"
  shows "map_ok (add_edge e c)" and "node_ids (add_edge e c) = node_ids c"
    and "succs (add_edge e c) i =
           (if i = edge_From e \<and> i \<in> set (node_ids c) then succs c i @ [edge_To e] else succs c i)"
    and "ceg_InDegree (add_edge e c) i =
           (if i = edge_To e \<and> i \<in> set (node_ids c) then ceg_InDegree c i + 1 else ceg_InDegree c i)"
    and "map node_Activation (ceg_Nodes (add_edge e c)) = map node_Activation (ceg_Nodes c)"
    and "fresh (add_edge e c) = fresh c"
    and "preds (add_edge e c) i =
           (if i = edge_To e \<and> i \<in> set (node_ids c) then preds c i @ [edge_From e] else preds c i)"
proof -
  let ?c1 = "c\<lparr>ceg_Edges := ceg_Edges c @
            [\<lparr>cedge_From = edge_From e, cedge_To = edge_To e, cedge_Type = edge_Type e\<rparr>]\<rparr>"
  have ok1: "map_ok ?c1" using ok by simp
  have f: "succs ?c1 j = succs c j" "preds ?c1 j = preds c j" "fresh ?c1 = fresh c" for j
    by (simp_all add: succs_def preds_def fresh_def)
  note s = add_successor_spec [OF ok1, of e]
  note p = add_predecessor_spec [OF s(1), of e]
  show "map_ok (add_edge e c)" "node_ids (add_edge e c) = node_ids c"
    "succs (add_edge e c) i =
           (if i = edge_From e \<and> i \<in> set (node_ids c) then succs c i @ [edge_To e] else succs c i)"
    "ceg_InDegree (add_edge e c) i =
           (if i = edge_To e \<and> i \<in> set (node_ids c) then ceg_InDegree c i + 1 else ceg_InDegree c i)"
    "map node_Activation (ceg_Nodes (add_edge e c)) = map node_Activation (ceg_Nodes c)"
    "fresh (add_edge e c) = fresh c"
    "preds (add_edge e c) i =
           (if i = edge_To e \<and> i \<in> set (node_ids c) then preds c i @ [edge_From e] else preds c i)"
    by (auto simp: add_edge_def p s f)
qed

text \<open>The node part of the graph: distinct identifiers give one node each, with nothing attached.\<close>

definition bare :: "CEG \<Rightarrow> bool" where
  "bare c \<longleftrightarrow> map_ok c \<and> fresh c \<and> (\<forall>i. succs c i = []) \<and> (\<forall>i. preds c i = []) \<and> (\<forall>i. ceg_InDegree c i = 0)"

lemma bare_empty: "bare empty_ceg"
  by (simp add: bare_def empty_ceg_def map_ok_def node_ids_def fresh_def succs_def preds_def ceg_node_def
        gm_keys_def)

lemma ceg_node_add_unit:
  assumes "map_ok c"
  shows "ceg_node (add_unit u c) i =
    (if i = unit_ID u then Some (last (ceg_Nodes (add_unit u c))) else ceg_node c i)"
  using map_ok_get [OF assms, of i]
  by (auto simp: ceg_node_def add_unit_def Let_def nth_append split: option.splits)

lemma bare_add_unit:
  assumes "bare c" and "unit_ID u \<notin> set (node_ids c)"
  shows "bare (add_unit u c)"
proof -
  have ok: "map_ok c" using assms(1) by (simp add: bare_def)
  have "succs (add_unit u c) i = []" "preds (add_unit u c) i = []" for i
    using assms(1) unfolding succs_def preds_def ceg_node_add_unit [OF ok] bare_def
    by (auto simp: add_unit_def Let_def split: option.splits)
  moreover have "ceg_InDegree (add_unit u c) i = 0" "fresh (add_unit u c)" for i
    using assms(1) by (auto simp: add_unit_def Let_def bare_def fresh_def)
  ultimately show ?thesis using map_ok_add_unit [OF ok assms(2)] by (simp add: bare_def)
qed

lemma fold_add_unit:
  assumes "bare c" and "distinct (node_ids c @ map unit_ID us)"
  shows "bare (fold add_unit us c) \<and> node_ids (fold add_unit us c) = node_ids c @ map unit_ID us \<and>
    map node_Activation (ceg_Nodes (fold add_unit us c)) =
      map node_Activation (ceg_Nodes c) @ map unit_Activation us"
  using assms
proof (induction us arbitrary: c)
  case Nil
  then show ?case by simp
next
  case (Cons u us)
  have new: "unit_ID u \<notin> set (node_ids c)" and ok: "map_ok c"
    using Cons.prems by (auto simp: bare_def)
  note b = bare_add_unit [OF Cons.prems(1) new]
  note i = map_ok_add_unit(2) [OF ok new]
  have "distinct (node_ids (add_unit u c) @ map unit_ID us)" using Cons.prems(2) i by simp
  with Cons.IH [OF b] i show ?case by (simp add: add_unit_def Let_def)
qed

text \<open>The graph that \<open>Build\<close> starts from: exactly the edges of the RIR, as successor lists, predecessor
  lists and in-degrees, on the nodes that exist.\<close>

definition graph_of :: "string list \<Rightarrow> Edge list \<Rightarrow> CEG \<Rightarrow> bool" where
  "graph_of ids es c \<longleftrightarrow> map_ok c \<and> fresh c \<and> node_ids c = ids \<and>
     (\<forall>i. succs c i = (if i \<in> set ids then map edge_To (filter (\<lambda>e. edge_From e = i) es) else [])) \<and>
     (\<forall>i. preds c i = (if i \<in> set ids then map edge_From (filter (\<lambda>e. edge_To e = i) es) else [])) \<and>
     (\<forall>i. ceg_InDegree c i = (if i \<in> set ids then int (length (filter (\<lambda>e. edge_To e = i) es)) else 0))"

lemma fold_add_edge:
  assumes "graph_of ids es c"
  shows "graph_of ids (es @ es') (fold add_edge es' c) \<and>
    map node_Activation (ceg_Nodes (fold add_edge es' c)) = map node_Activation (ceg_Nodes c)"
  using assms
proof (induction es' arbitrary: es c)
  case Nil
  then show ?case by simp
next
  case (Cons e es')
  have ok: "map_ok c" using Cons.prems by (simp add: graph_of_def)
  have "graph_of ids (es @ [e]) (add_edge e c)"
    using Cons.prems add_edge_spec [OF ok] unfolding graph_of_def by auto
  from Cons.IH [OF this] add_edge_spec(5) [OF ok] show ?case by simp
qed

lemma build_graph_spec:
  assumes "distinct (unit_ids r)"
  shows "graph_of (unit_ids r) (rir_edges r) (build_graph r)"
    and "map node_Activation (ceg_Nodes (build_graph r)) = map unit_Activation (rir_Units r)"
proof -
  have e: "node_ids empty_ceg = []" "ceg_Nodes empty_ceg = []" by (simp_all add: node_ids_def empty_ceg_def)
  note u = fold_add_unit [OF bare_empty, of "rir_Units r", unfolded e, simplified, OF assms]
  then have "graph_of (unit_ids r) [] (fold add_unit (rir_Units r) empty_ceg)"
    by (auto simp: graph_of_def bare_def)
  from fold_add_edge [OF this, of "rir_edges r"] u
  show "graph_of (unit_ids r) (rir_edges r) (build_graph r)"
    "map node_Activation (ceg_Nodes (build_graph r)) = map unit_Activation (rir_Units r)"
    by (simp_all add: build_graph_def)
qed

subsection \<open>What a build guarantees\<close>

definition rir_rel :: "RIR \<Rightarrow> (string \<times> string) set" where
  "rir_rel r = {(edge_From e, edge_To e) | e. e \<in> set (rir_edges r) \<and> edge_From e \<in> set (unit_ids r)}"

definition edges_resolved :: "RIR \<Rightarrow> bool" where
  "edges_resolved r \<longleftrightarrow>
     (\<forall>e \<in> set (rir_edges r). edge_From e \<in> set (unit_ids r) \<and> edge_To e \<in> set (unit_ids r))"

definition indegree_of :: "RIR \<Rightarrow> string \<Rightarrow> nat" where
  "indegree_of r i = length (filter (\<lambda>e. edge_To e = i) (rir_edges r))"

lemma graph_of_rel:
  assumes "graph_of (unit_ids r) (rir_edges r) c"
  shows "graph_rel c = rir_rel r"
proof -
  have s: "succs c u = (if u \<in> set (unit_ids r) then map edge_To (filter (\<lambda>e. edge_From e = u) (rir_edges r)) else [])" for u
    using assms unfolding graph_of_def by blast
  have "(u, v) \<in> graph_rel c \<longleftrightarrow>
      (\<exists>e. e \<in> set (rir_edges r) \<and> edge_From e = u \<and> edge_To e = v \<and> u \<in> set (unit_ids r))" for u v
    unfolding graph_rel_iff s by (cases "u \<in> set (unit_ids r)") auto
  then have "(u, v) \<in> graph_rel c \<longleftrightarrow> (u, v) \<in> rir_rel r" for u v
    unfolding rir_rel_def mem_Collect_eq prod.inject by metis
  then show ?thesis by (metis (no_types) subset_antisym subrelI)
qed

lemma graph_of_edges_from:
  assumes "graph_of ids es c" and "distinct js" and "set js \<subseteq> set ids"
  shows "edges_from c js v = length (filter (\<lambda>e. edge_From e \<in> set js \<and> edge_To e = v) es)"
  using assms(2,3)
proof (induction js)
  case Nil
  then show ?case by simp
next
  case (Cons j js)
  have "count (mset (succs c j)) v = length (filter (\<lambda>e. edge_From e = j \<and> edge_To e = v) es)"
  proof -
    have "succs c j = map edge_To (filter (\<lambda>e. edge_From e = j) es)"
      using assms(1) Cons.prems(2) by (simp add: graph_of_def)
    moreover have "count (mset (map edge_To (filter (\<lambda>e. edge_From e = j) es))) v
        = length (filter (\<lambda>e. edge_From e = j \<and> edge_To e = v) es)"
      by (induction es) auto
    ultimately show ?thesis by simp
  qed
  moreover have "length (filter (\<lambda>e. edge_From e \<in> set (j # js) \<and> edge_To e = v) es)
      = length (filter (\<lambda>e. edge_From e = j \<and> edge_To e = v) es)
        + length (filter (\<lambda>e. edge_From e \<in> set js \<and> edge_To e = v) es)"
    using Cons.prems(1) by (induction es) auto
  ultimately show ?case using Cons by simp
qed

lemma length_filter_le_imp: "(\<And>x. P x \<Longrightarrow> Q x) \<Longrightarrow> length (filter P xs) \<le> length (filter Q xs)"
  by (induction xs) auto

lemma kahn_ready_build_graph:
  assumes "distinct (unit_ids r)"
  shows "kahn_ready (build_graph r)" and "fresh (build_graph r)"
proof -
  note g = build_graph_spec(1) [OF assms]
  let ?c = "build_graph r"
  have ids: "node_ids ?c = unit_ids r" using g by (simp add: graph_of_def)
  have "edges_from ?c (unit_ids r) v \<le> length (filter (\<lambda>e. edge_To e = v) (rir_edges r))" for v
    by (subst graph_of_edges_from [OF g assms subset_refl]) (rule length_filter_le_imp, simp)
  with g ids show "kahn_ready ?c"
    by (auto simp: kahn_ready_def graph_of_def map_ok_def)
  show "fresh ?c" using g by (simp add: graph_of_def)
qed

lemma kahn_exact_build_graph:
  assumes "distinct (unit_ids r)" and "edges_resolved r"
  shows "kahn_exact (build_graph r)"
proof -
  note g = build_graph_spec(1) [OF assms(1)]
  have "filter (\<lambda>e. edge_From e \<in> set (unit_ids r) \<and> edge_To e = v) (rir_edges r)
      = filter (\<lambda>e. edge_To e = v) (rir_edges r)" for v
    using assms(2) by (intro filter_cong) (auto simp: edges_resolved_def)
  with g show ?thesis
    using graph_of_edges_from [OF g assms(1) subset_refl] by (simp add: kahn_exact_def graph_of_def)
qed

lemma check_indegrees_None: "check_indegrees ns = None \<longleftrightarrow> (\<forall>n \<in> set ns. length (node_Predecessors n) \<le> 1024)"
  by (induction ns) auto

lemma validate_None:
  "validate c = None \<longleftrightarrow> \<not> hasCycle c \<and> (\<forall>n \<in> set (ceg_Nodes c). length (node_Predecessors n) \<le> 1024) \<and>
     ceg_MaxDepth c \<le> 128 \<and> length (reachableSet c) = length (ceg_Nodes c)"
  by (auto simp: validate_def Let_def check_indegrees_None split: option.splits if_splits)
     (metis check_indegrees_None not_None_eq)+

text \<open>The built graph, before validation.\<close>

abbreviation sorted_graph :: "RIR \<Rightarrow> CEG" where
  "sorted_graph r \<equiv> topoSort (build_graph r)"

lemma sorted_graph_spec:
  assumes d: "distinct (unit_ids r)"
  shows "node_ids (sorted_graph r) = unit_ids r"
    and "graph_rel (sorted_graph r) = rir_rel r"
    and "map node_Activation (ceg_Nodes (sorted_graph r)) = map unit_Activation (rir_Units r)"
    and "map_ok (sorted_graph r)"
    and "i \<in> set (unit_ids r) \<Longrightarrow> ceg_InDegree (sorted_graph r) i = int (indegree_of r i)"
    and "n \<in> set (ceg_Nodes (sorted_graph r)) \<Longrightarrow>
           node_Predecessors n = map edge_From (filter (\<lambda>e. edge_To e = node_ID n) (rir_edges r))"
proof -
  note k = kahn_ready_build_graph [OF d]
  note g = build_graph_spec(1) [OF d]
  let ?b = "build_graph r"
  have ids: "node_ids ?b = unit_ids r" and ok: "map_ok ?b" using g by (simp_all add: graph_of_def)
  have nm: "ceg_NodeMap (sorted_graph r) = ceg_NodeMap ?b" "ceg_InDegree (sorted_graph r) = ceg_InDegree ?b"
    using topoSort_inv [OF k] by metis+
  show ids': "node_ids (sorted_graph r) = unit_ids r" using topoSort_same(1) [OF k] ids by simp
  show "graph_rel (sorted_graph r) = rir_rel r"
    using topoSort_same(5) [OF k] graph_of_rel [OF g] by simp
  show "map node_Activation (ceg_Nodes (sorted_graph r)) = map unit_Activation (rir_Units r)"
    using topoSort_same(3) [OF k] build_graph_spec(2) [OF d] by simp
  have idm: "map node_ID (ceg_Nodes (sorted_graph r)) = map node_ID (ceg_Nodes ?b)"
    using ids' ids by (simp add: node_ids_def)
  then have len: "length (ceg_Nodes (sorted_graph r)) = length (ceg_Nodes ?b)" by (metis length_map)
  have idk: "node_ID (ceg_Nodes (sorted_graph r) ! j) = node_ID (ceg_Nodes ?b ! j)"
    if "j < length (ceg_Nodes ?b)" for j
    using that idm len by (metis nth_map)
  show "map_ok (sorted_graph r)"
    using ok idk len ids ids' nm unfolding map_ok_def by simp
  show "ceg_InDegree (sorted_graph r) i = int (indegree_of r i)" if "i \<in> set (unit_ids r)"
    using g nm that by (simp add: graph_of_def indegree_of_def)
  show "node_Predecessors n = map edge_From (filter (\<lambda>e. edge_To e = node_ID n) (rir_edges r))"
    if n: "n \<in> set (ceg_Nodes (sorted_graph r))"
  proof -
    obtain j where j: "j < length (ceg_Nodes ?b)" "n = ceg_Nodes (sorted_graph r) ! j"
      using n len by (auto simp: in_set_conv_nth)
    have "node_Predecessors n = node_Predecessors (ceg_Nodes ?b ! j)"
      using topoSort_same(4) [OF k] j len by (metis nth_map)
    moreover have "ceg_node ?b (node_ID n) = Some (ceg_Nodes ?b ! j)"
      using map_ok_node [OF ok] j idk by simp
    moreover have "node_ID n \<in> set (unit_ids r)" 
      using n ids' by (metis imageI list.set_map node_ids_def)
    ultimately show ?thesis
      using g unfolding graph_of_def preds_def by (metis option.simps(5))
  qed
qed

lemma sorted_graph_hasCycle:
  "distinct (unit_ids r) \<Longrightarrow> hasCycle (sorted_graph r) \<longleftrightarrow> \<not> acyclic (rir_rel r)"
  using hasCycle_iff [of "sorted_graph r"] sorted_graph_spec(2,4) [of r]
  by (simp add: map_ok_def node_ids_def)

text \<open>On an acyclic graph with resolved edges every node is reachable from a root.\<close>

lemma sorted_graph_reachable:
  assumes d: "distinct (unit_ids r)" and e: "edges_resolved r" and ac: "acyclic (rir_rel r)"
  shows "set (reachableSet (sorted_graph r)) = set (unit_ids r)"
proof
  let ?c = "sorted_graph r"
  have rel: "graph_rel ?c = rir_rel r" using sorted_graph_spec(2) [OF d] .
  have into: "v \<in> set (unit_ids r)" if "(u, v) \<in> (rir_rel r)\<^sup>*" "u \<in> set (unit_ids r)" for u v
    using that e by (induction rule: rtrancl_induct) (auto simp: rir_rel_def edges_resolved_def)
  have roots: "roots ?c = {i \<in> set (unit_ids r). indegree_of r i = 0}"
  proof -
    have "node_ID ` set (ceg_Nodes ?c) = set (unit_ids r)"
      using sorted_graph_spec(1) [OF d] by (metis list.set_map node_ids_def)
    then show ?thesis using sorted_graph_spec(5) [OF d] unfolding roots_def by auto
  qed
  show "set (reachableSet ?c) \<subseteq> set (unit_ids r)"
    unfolding set_reachableSet rel roots using into by blast
  have "finite (rir_rel r)" using finite_graph_rel [of ?c] rel by simp
  then have "wf (rir_rel r)" using ac finite_acyclic_wf by blast
  then have "v \<in> set (unit_ids r) \<Longrightarrow> v \<in> (rir_rel r)\<^sup>* `` roots ?c" for v
  proof (induction v rule: wf_induct_rule)
    case (less v)
    show ?case
    proof (cases "indegree_of r v = 0")
      case True
      with less.prems roots show ?thesis by blast
    next
      case False
      then obtain ed where "ed \<in> set (rir_edges r)" "edge_To ed = v"
        by (auto simp: indegree_of_def filter_empty_conv)
      with e have "(edge_From ed, v) \<in> rir_rel r" "edge_From ed \<in> set (unit_ids r)"
        by (auto simp: rir_rel_def edges_resolved_def)
      with less.IH show ?thesis by (meson Image_iff rtrancl.rtrancl_into_rtrancl)
    qed
  qed
  then show "set (unit_ids r) \<subseteq> set (reachableSet ?c)"
    unfolding set_reachableSet rel by blast
qed

lemma sorted_graph_layers:
  assumes d: "distinct (unit_ids r)"
  shows "distinct (concat (ceg_Layers (sorted_graph r)))"
    and "set (concat (ceg_Layers (sorted_graph r))) \<subseteq> set (unit_ids r)"
    and "ceg_MaxDepth (sorted_graph r) = length (ceg_Layers (sorted_graph r))"
    and "(u, v) \<in> rir_rel r \<Longrightarrow> l < length (ceg_Layers (sorted_graph r)) \<Longrightarrow>
           v \<in> set (ceg_Layers (sorted_graph r) ! l) \<Longrightarrow> \<exists>k < l. u \<in> set (ceg_Layers (sorted_graph r) ! k)"
    and "edges_resolved r \<Longrightarrow> acyclic (rir_rel r) \<Longrightarrow>
           set (concat (ceg_Layers (sorted_graph r))) = set (unit_ids r)"
    and "\<forall>l < length (ceg_Layers (sorted_graph r)).
           sorted (ceg_Layers (sorted_graph r) ! l) \<and> ceg_Layers (sorted_graph r) ! l \<noteq> []"
proof -
  note k = kahn_ready_build_graph [OF d]
  note g = build_graph_spec(1) [OF d]
  have ids: "node_ids (build_graph r) = unit_ids r" and rel: "graph_rel (build_graph r) = rir_rel r"
    using g graph_of_rel [OF g] by (simp_all add: graph_of_def)
  note t = topoSort_layers [OF k]
  show "distinct (concat (ceg_Layers (sorted_graph r)))"
    "set (concat (ceg_Layers (sorted_graph r))) \<subseteq> set (unit_ids r)"
    "ceg_MaxDepth (sorted_graph r) = length (ceg_Layers (sorted_graph r))"
    "\<forall>l < length (ceg_Layers (sorted_graph r)).
           sorted (ceg_Layers (sorted_graph r) ! l) \<and> ceg_Layers (sorted_graph r) ! l \<noteq> []"
    using t(1-4) unfolding ids by blast+
  show "\<exists>k < l. u \<in> set (ceg_Layers (sorted_graph r) ! k)"
    if "(u, v) \<in> rir_rel r" "l < length (ceg_Layers (sorted_graph r))" "v \<in> set (ceg_Layers (sorted_graph r) ! l)"
    using topoSort_edge [OF k, of u v l] that rel by simp
  show "set (concat (ceg_Layers (sorted_graph r))) = set (unit_ids r)"
    if "edges_resolved r" "acyclic (rir_rel r)"
    using topoSort_complete [OF k kahn_exact_build_graph [OF d that(1)]] that(2) unfolding rel ids .
qed

lemma Build_Inr_iff: "Build r = Inr c \<longleftrightarrow> c = sorted_graph r \<and> validate c = None"
  by (auto simp: Build_def Let_def split: option.splits)

text \<open>The depth of the graph is the length of its longest chain of edges.\<close>

fun chain :: "RIR \<Rightarrow> string list \<Rightarrow> bool" where
  "chain r [] = True"
| "chain r [v] = (v \<in> set (unit_ids r))"
| "chain r (u # v # vs) = ((u, v) \<in> rir_rel r \<and> chain r (v # vs))"

lemma chain_Cons: "chain r (v # vs) \<Longrightarrow> (u, v) \<in> rir_rel r \<Longrightarrow> chain r (u # v # vs)"
  by simp

lemma chain_layers:
  assumes d: "distinct (unit_ids r)"
    and full: "set (unit_ids r) \<subseteq> set (concat (ceg_Layers (sorted_graph r)))"
    and c: "chain r (v # vs)"
  shows "\<exists>l. l + length vs < length (ceg_Layers (sorted_graph r)) \<and> v \<in> set (ceg_Layers (sorted_graph r) ! l)"
  using c
proof (induction vs arbitrary: v)
  case Nil
  then have "v \<in> set (concat (ceg_Layers (sorted_graph r)))" using full by auto
  then obtain ys where "ys \<in> set (ceg_Layers (sorted_graph r))" "v \<in> set ys" by auto
  then show ?case by (metis add.right_neutral in_set_conv_nth list.size(3))
next
  case (Cons w ws)
  then obtain l where l: "l + length ws < length (ceg_Layers (sorted_graph r))"
      "w \<in> set (ceg_Layers (sorted_graph r) ! l)" by auto
  from Cons.prems have "(v, w) \<in> rir_rel r" by simp
  from sorted_graph_layers(4) [OF d this _ l(2)] l(1)
  obtain k where "k < l" "v \<in> set (ceg_Layers (sorted_graph r) ! k)" by auto
  with l(1) show ?case by (intro exI [of _ k]) simp
qed

lemma layer_chain:
  assumes d: "distinct (unit_ids r)"
    and "l < length (ceg_Layers (sorted_graph r))" and "v \<in> set (ceg_Layers (sorted_graph r) ! l)"
    and "chain r (v # vs)"
  shows "\<exists>ws. chain r ws \<and> length ws = l + Suc (length vs)"
  using assms(2-4)
proof (induction l arbitrary: v vs)
  case 0
  then show ?case by (intro exI [of _ "v # vs"]) simp
next
  case (Suc l)
  have "graph_rel (build_graph r) = rir_rel r" using graph_of_rel [OF build_graph_spec(1) [OF d]] .
  with topoSort_tight [OF kahn_ready_build_graph [OF d] Suc.prems(1,2)]
  obtain u where u: "u \<in> set (ceg_Layers (sorted_graph r) ! l)" "(u, v) \<in> rir_rel r" by blast
  from Suc.IH [OF _ u(1) chain_Cons [OF Suc.prems(3) u(2)]] Suc.prems(1) show ?case by simp
qed

lemma depth_chain:
  assumes d: "distinct (unit_ids r)"
    and full: "set (concat (ceg_Layers (sorted_graph r))) = set (unit_ids r)"
  shows "length (ceg_Layers (sorted_graph r)) \<le> m \<longleftrightarrow> (\<forall>vs. chain r vs \<longrightarrow> length vs \<le> m)"
proof
  assume m: "length (ceg_Layers (sorted_graph r)) \<le> m"
  show "\<forall>vs. chain r vs \<longrightarrow> length vs \<le> m"
  proof (intro allI impI)
    fix vs assume "chain r vs"
    then show "length vs \<le> m"
    proof (cases vs)
      case (Cons w ws)
      with chain_layers [OF d equalityD2 [OF full]] \<open>chain r vs\<close> obtain l
        where "l + length ws < length (ceg_Layers (sorted_graph r))" by metis
      with m Cons show ?thesis by simp
    qed simp
  qed
next
  assume all: "\<forall>vs. chain r vs \<longrightarrow> length vs \<le> m"
  show "length (ceg_Layers (sorted_graph r)) \<le> m"
  proof (cases "length (ceg_Layers (sorted_graph r))")
    case (Suc l)
    then have l: "l < length (ceg_Layers (sorted_graph r))" by simp
    with sorted_graph_layers(6) [OF d] obtain v where v: "v \<in> set (ceg_Layers (sorted_graph r) ! l)"
      by (meson last_in_set)
    have "v \<in> set (concat (ceg_Layers (sorted_graph r)))" using v l nth_mem by fastforce
    then have "chain r [v]" using full by auto
    from layer_chain [OF d l v this] all Suc show ?thesis by auto
  qed simp
qed

lemma indegree_bound:
  assumes d: "distinct (unit_ids r)"
  shows "(\<forall>n \<in> set (ceg_Nodes (sorted_graph r)). length (node_Predecessors n) \<le> 1024) \<longleftrightarrow>
    (\<forall>i \<in> set (unit_ids r). indegree_of r i \<le> 1024)"
proof -
  have "length (node_Predecessors n) = indegree_of r (node_ID n)" if "n \<in> set (ceg_Nodes (sorted_graph r))" for n
    using sorted_graph_spec(6) [OF d that] by (simp add: indegree_of_def)
  moreover have "set (unit_ids r) = node_ID ` set (ceg_Nodes (sorted_graph r))"
    using sorted_graph_spec(1) [OF d] by (metis list.set_map node_ids_def)
  ultimately show ?thesis by auto
qed

lemma reachable_all:
  assumes "distinct (unit_ids r)" and "edges_resolved r" and "acyclic (rir_rel r)"
  shows "length (reachableSet (sorted_graph r)) = length (ceg_Nodes (sorted_graph r))"
proof -
  have "node_ids (sorted_graph r) = unit_ids r" using sorted_graph_spec(1) [OF assms(1)] .
  then have "length (ceg_Nodes (sorted_graph r)) = length (unit_ids r)" by (metis length_map node_ids_def)
  moreover have "length (reachableSet (sorted_graph r)) = length (unit_ids r)"
    using distinct_reachableSet sorted_graph_reachable [OF assms] assms(1) by (metis distinct_card)
  ultimately show ?thesis by simp
qed

lemma Build_complete_iff:
  assumes "distinct (unit_ids r)" and "edges_resolved r"
  shows "Build r = Inr (sorted_graph r) \<longleftrightarrow>
    acyclic (rir_rel r) \<and> (\<forall>i \<in> set (unit_ids r). indegree_of r i \<le> 1024) \<and>
    (\<forall>vs. chain r vs \<longrightarrow> length vs \<le> 128)"
proof -
  have "Build r = Inr (sorted_graph r) \<longleftrightarrow> validate (sorted_graph r) = None"
    by (simp add: Build_Inr_iff)
  also have "\<dots> \<longleftrightarrow> acyclic (rir_rel r) \<and> (\<forall>i \<in> set (unit_ids r). indegree_of r i \<le> 1024) \<and>
      ceg_MaxDepth (sorted_graph r) \<le> 128"
    using reachable_all [OF assms]
    unfolding validate_None sorted_graph_hasCycle [OF assms(1)] indegree_bound [OF assms(1)] by auto
  also have "\<dots> \<longleftrightarrow> acyclic (rir_rel r) \<and> (\<forall>i \<in> set (unit_ids r). indegree_of r i \<le> 1024) \<and>
      (\<forall>vs. chain r vs \<longrightarrow> length vs \<le> 128)"
    using depth_chain [OF assms(1) sorted_graph_layers(5) [OF assms]]
      sorted_graph_layers(3) [OF assms(1)] by metis
  finally show ?thesis .
qed

subsection \<open>Properties\<close>

text \<open>C3: a graph that \<open>Build\<close> returns for a document with distinct identifiers is acyclic, has one node per
  unit, and its layers are a topological order of distinct nodes: every predecessor of a node of a layer is in
  an earlier one. It has at most 128 layers and no node has more than 1024 incoming edges, the limits of the code
  (the documents bound the in-degree by 64).\<close>

theorem Build_sound:
  assumes "distinct (unit_ids r)" and "Build r = Inr c"
  shows "acyclic (rir_rel r) \<and> node_ids c = unit_ids r \<and>
    length (ceg_Layers c) \<le> 128 \<and> (\<forall>i \<in> set (unit_ids r). indegree_of r i \<le> 1024) \<and>
    distinct (concat (ceg_Layers c)) \<and> set (concat (ceg_Layers c)) \<subseteq> set (unit_ids r) \<and>
    (\<forall>u v. (u, v) \<in> rir_rel r \<longrightarrow> (\<forall>l < length (ceg_Layers c). v \<in> set (ceg_Layers c ! l) \<longrightarrow>
       (\<exists>k < l. u \<in> set (ceg_Layers c ! k))))"
  using assms(2) sorted_graph_layers(1-4) [OF assms(1)] sorted_graph_hasCycle [OF assms(1)]
    sorted_graph_spec(1) [OF assms(1)] indegree_bound [OF assms(1)]
  by (auto simp: Build_Inr_iff validate_None)

text \<open>C4: on a document whose identifiers are distinct and whose edges resolve, \<open>Build\<close> succeeds exactly
  when the edges are acyclic, no node has more than 1024 incoming edges (the limit of the code, where the
  documents say 64) and no chain of dependent nodes is longer than 128.\<close>

theorem Build_complete:
  assumes "distinct (unit_ids r)" and "edges_resolved r"
  shows "Build r = Inr (sorted_graph r) \<longleftrightarrow>
    acyclic (rir_rel r) \<and> (\<forall>i \<in> set (unit_ids r). indegree_of r i \<le> 1024) \<and>
    (\<forall>vs. chain r vs \<longrightarrow> length vs \<le> 128)"
  using assms by (rule Build_complete_iff)

subsection \<open>Witnesses\<close>

lemma diamond_distinct: "distinct (unit_ids diamond)" by code_simp
lemma diamond_resolved: "edges_resolved diamond" by code_simp
lemma diamond_valid: "validate (sorted_graph diamond) = None" by code_simp
lemma diamond_layers: "ceg_Layers (sorted_graph diamond) = [[''a''], [''b'', ''c''], [''d'']]" by code_simp

lemma diamond_builds: "Build diamond = Inr (sorted_graph diamond)"
  using diamond_valid by (simp add: Build_Inr_iff)

theorem Build_sound_witness:
  "acyclic (rir_rel diamond) \<and> node_ids (sorted_graph diamond) = [''a'', ''b'', ''c'', ''d'']"
proof -
  have "unit_ids diamond = [''a'', ''b'', ''c'', ''d'']" by code_simp
  with Build_sound [OF diamond_distinct diamond_builds] show ?thesis by simp
qed

theorem Build_complete_witness:
  "acyclic (rir_rel diamond) \<and> \<not> chain diamond (replicate 129 ''a'')"
proof -
  have "\<not> length (replicate 129 ''a'') \<le> (128 :: nat)" unfolding length_replicate by simp
  with Build_complete [OF diamond_distinct diamond_resolved] diamond_builds show ?thesis by blast
qed

end
