(* ===== verification/Go_Strings.thy ===== *)
theory Go_Strings
  imports Mek_Prelude
begin

text \<open>
  The functions of Go's \<open>strings\<close> and \<open>filepath\<close> packages that the program uses, on ASCII text and Unix
  paths.
\<close>

fun has_prefix :: "string \<Rightarrow> string \<Rightarrow> bool" where
  "has_prefix s [] = True"
| "has_prefix [] (p # ps) = False"
| "has_prefix (c # s) (p # ps) = (c = p \<and> has_prefix s ps)"

fun str_contains :: "string \<Rightarrow> string \<Rightarrow> bool" where
  "str_contains [] sub = (sub = [])"
| "str_contains (c # s) sub = (has_prefix (c # s) sub \<or> str_contains s sub)"

fun split_on :: "char \<Rightarrow> string \<Rightarrow> string list" where
  "split_on d [] = [[]]"
| "split_on d (c # s) =
     (if c = d then [] # split_on d s
      else (case split_on d s of [] \<Rightarrow> [[c]] | l # ls \<Rightarrow> (c # l) # ls))"

definition is_space :: "char \<Rightarrow> bool" where
  "is_space c \<longleftrightarrow> c \<in> {CHR '' '', CHR 0x09, CHR 0x0A, CHR 0x0B, CHR 0x0C, CHR 0x0D}"

definition trim_space :: "string \<Rightarrow> string" where
  "trim_space s = rev (dropWhile is_space (rev (dropWhile is_space s)))"

text \<open>\<open>filepath.Base\<close>, \<open>filepath.Ext\<close> and \<open>strings.ToLower\<close> on ASCII.\<close>

definition path_base :: "string \<Rightarrow> string" where
  "path_base p =
     (if p = '''' then ''.''
      else let q = rev (dropWhile (\<lambda>c. c = CHR ''/'') (rev p))
           in if q = '''' then ''/'' else last (split_on (CHR ''/'') q))"

definition path_ext :: "string \<Rightarrow> string" where
  "path_ext p =
     (let name = last (split_on (CHR ''/'') p); parts = split_on (CHR ''.'') name
      in if length parts \<le> 1 then '''' else CHR ''.'' # last parts)"

definition lower_char :: "char \<Rightarrow> char" where
  "lower_char c = (if 65 \<le> (of_char c :: nat) \<and> (of_char c :: nat) \<le> 90 then char_of (of_char c + 32 :: nat) else c)"

definition to_lower :: "string \<Rightarrow> string" where
  "to_lower s = map lower_char s"

text \<open>\<open>strings.TrimPrefix\<close>, \<open>strings.Join\<close>, \<open>strings.Fields\<close>, and \<open>strings.SplitN\<close> with two parts.\<close>

definition trim_prefix :: "string \<Rightarrow> string \<Rightarrow> string" where
  "trim_prefix s p = (if has_prefix s p then drop (length p) s else s)"

fun join_with :: "string \<Rightarrow> string list \<Rightarrow> string" where
  "join_with sep [] = []"
| "join_with sep [x] = x"
| "join_with sep (x # y # xs) = x @ sep @ join_with sep (y # xs)"

fun fields_from :: "string \<Rightarrow> string \<Rightarrow> string list" where
  "fields_from [] w = (if w = [] then [] else [w])"
| "fields_from (c # s) w = (if is_space c then (if w = [] then fields_from s [] else w # fields_from s []) else fields_from s (w @ [c]))"

definition str_fields :: "string \<Rightarrow> string list" where
  "str_fields s = fields_from s []"

definition split2 :: "char \<Rightarrow> string \<Rightarrow> string list" where
  "split2 d s = (let h = takeWhile (\<lambda>c. c \<noteq> d) s in if length h = length s then [s] else [h, drop (length h + 1) s])"

lemma has_prefix_append: "has_prefix (p @ s) p"
  by (induction p) auto

lemma has_prefix_iff: "has_prefix s p \<longleftrightarrow> (\<exists>t. s = p @ t)"
  by (induction s p rule: has_prefix.induct) auto

lemma split2_append: "d \<notin> set h \<Longrightarrow> split2 d (h @ d # t) = [h, t]"
  by (simp add: split2_def takeWhile_append)

lemma split2_single: "d \<notin> set h \<Longrightarrow> split2 d h = [h]"
proof -
  assume "d \<notin> set h"
  then have e: "takeWhile (\<lambda>c. c \<noteq> d) h = h" by (metis (mono_tags, lifting) takeWhile_eq_all_conv)
  show ?thesis by (simp only: split2_def Let_def e) simp
qed

end
