(* ===== verification/Mek_Rir.thy ===== *)
theory Mek_Rir
  imports Mek_Ceg Go_Strings
begin

text \<open>
  The RIR package, \<open>mek/internal/rir\<close>: the validation of a document when it is loaded
  (\<open>loader.go\<close>), the scan of a project for source files and their imports (\<open>scanner.go\<close>), the
  compiler from the scan to an RIR (\<open>compiler.go\<close>) and the older generator (\<open>generator.go\<close>).

  The environment is a parameter: reading a file and parsing JSON are functions given to \<open>Load\<close>, the
  directory that \<open>WalkDir\<close> visits is a tree with the contents of its files, and the absolute path of the
  project is an argument of \<open>Compile\<close>. Paths are those of a Unix system. White space is the ASCII
  white space of \<open>strings.TrimSpace\<close>.
\<close>

subsection \<open>Validation\<close>

datatype rir_error = SchemaVersionMismatch string | UnsupportedMode string | InvalidMaxParallelism
  | DuplicateUnitId string | MissingSpecHash | CheckpointForbidden string
  | UnresolvedDependency string string | GateMissingBranches string | GateMissingDefault string
  | MultipleEscalateBranches string nat

fun error_code :: "rir_error \<Rightarrow> string" where
  "error_code (SchemaVersionMismatch v) = ''SCHEMA_VERSION_MISMATCH''"
| "error_code (UnsupportedMode m) = ''UNSUPPORTED_MODE''"
| "error_code InvalidMaxParallelism = ''INVALID_MAX_PARALLELISM''"
| "error_code (DuplicateUnitId i) = ''DUPLICATE_UNIT_ID''"
| "error_code MissingSpecHash = ''MISSING_SPEC_HASH''"
| "error_code (CheckpointForbidden i) = ''CHECKPOINT_FORBIDDEN_IN_MEK''"
| "error_code (UnresolvedDependency i d) = ''UNRESOLVED_DEPENDENCY''"
| "error_code (GateMissingBranches i) = ''GATE_MISSING_BRANCHES''"
| "error_code (GateMissingDefault i) = ''GATE_MISSING_DEFAULT''"
| "error_code (MultipleEscalateBranches i n) = ''MULTIPLE_ESCALATE_BRANCHES''"

definition or_else :: "'e option \<Rightarrow> 'e option \<Rightarrow> 'e option" where
  "or_else a b = (case a of Some e \<Rightarrow> Some e | None \<Rightarrow> b)"

fun check_duplicates :: "Unit list \<Rightarrow> string list \<Rightarrow> rir_error option" where
  "check_duplicates [] ids = None"
| "check_duplicates (u # us) ids =
     (if unit_ID u \<in> set ids then Some (DuplicateUnitId (unit_ID u))
      else check_duplicates us (unit_ID u # ids))"

fun check_checkpoints :: "Unit list \<Rightarrow> rir_error option" where
  "check_checkpoints [] = None"
| "check_checkpoints (u # us) =
     (if unit_Type u = UnitCheckpoint then Some (CheckpointForbidden (unit_ID u)) else check_checkpoints us)"

fun check_unit_deps :: "string list \<Rightarrow> string \<Rightarrow> string list \<Rightarrow> rir_error option" where
  "check_unit_deps ids i [] = None"
| "check_unit_deps ids i (d # ds) =
     (if d \<notin> set ids then Some (UnresolvedDependency i d) else check_unit_deps ids i ds)"

fun check_dependencies :: "string list \<Rightarrow> Unit list \<Rightarrow> rir_error option" where
  "check_dependencies ids [] = None"
| "check_dependencies ids (u # us) =
     or_else (check_unit_deps ids (unit_ID u) (unit_Dependencies u)) (check_dependencies ids us)"

definition escalate_count :: "GateConfig \<Rightarrow> nat" where
  "escalate_count g = fold (\<lambda>b n. if br_Target b = ''ESCALATE'' then n + 1 else n) (gate_Branches g) 0"

definition check_gate :: "Unit \<Rightarrow> rir_error option" where
  "check_gate u =
     (if unit_Type u \<noteq> UnitGate then None
      else case unit_Gate u of
             None \<Rightarrow> Some (GateMissingBranches (unit_ID u))
           | Some g \<Rightarrow>
               if gate_Branches g = [] then Some (GateMissingBranches (unit_ID u))
               else if gate_Default g = '''' then Some (GateMissingDefault (unit_ID u))
               else if escalate_count g > 1 then Some (MultipleEscalateBranches (unit_ID u) (escalate_count g))
               else None)"

fun check_gates :: "Unit list \<Rightarrow> rir_error option" where
  "check_gates [] = None"
| "check_gates (u # us) = or_else (check_gate u) (check_gates us)"

definition Validate :: "RIR \<Rightarrow> rir_error option" where
  "Validate rir =
     (if meta_SchemaVersion (rir_Meta rir) \<noteq> ''1.0''
      then Some (SchemaVersionMismatch (meta_SchemaVersion (rir_Meta rir)))
      else if plan_ExecutionMode (rir_ExecutionPlan rir) \<noteq> ''2''
      then Some (UnsupportedMode (plan_ExecutionMode (rir_ExecutionPlan rir)))
      else if plan_MaxParallelism (rir_ExecutionPlan rir) \<le> 0 then Some InvalidMaxParallelism
      else or_else (check_duplicates (rir_Units rir) [])
            (if meta_SpecHash (rir_Meta rir) = '''' then Some MissingSpecHash
             else or_else (check_checkpoints (rir_Units rir))
                   (or_else (check_dependencies (map unit_ID (rir_Units rir)) (rir_Units rir))
                     (check_gates (rir_Units rir)))))"

datatype load_error = ReadFailed | ParseFailed | Invalid rir_error

definition Load :: "(string \<Rightarrow> string option) \<Rightarrow> (string \<Rightarrow> RIR option) \<Rightarrow> string \<Rightarrow> load_error + RIR" where
  "Load read_file parse path =
     (case read_file path of
        None \<Rightarrow> Inl ReadFailed
      | Some data \<Rightarrow>
          (case parse data of
             None \<Rightarrow> Inl ParseFailed
           | Some rir \<Rightarrow> (case Validate rir of Some e \<Rightarrow> Inl (Invalid e) | None \<Rightarrow> Inr rir)))"

subsection \<open>Scanner\<close>

record FileNode =
  fn_Path :: string
  fn_IsDir :: bool
  fn_Imports :: "string list"

definition skipDirs :: "string list" where
  "skipDirs = [''vendor'', ''build'', ''node_modules'', ''coverage'', ''.dart_tool'', ''.pub-cache'',
               ''.git'', ''.idea'', ''.vscode'', ''__pycache__'']"

definition codeExtensions :: "string list" where
  "codeExtensions = [''.dart'', ''.go'', ''.yaml'', ''.yml'', ''.json'', ''.md'', ''.toml'', ''.proto'',
                     ''.sh'', ''.ps1'']"

fun extract_lines :: "string list \<Rightarrow> string list \<Rightarrow> string list" where
  "extract_lines [] imports = imports"
| "extract_lines (l # ls) imports =
     (let line = trim_space l;
          imports1 = (if has_prefix line ''import '' then imports @ [line] else imports);
          imports2 = (if has_prefix line (''import '' @ [CHR 0x27]) then imports1 @ [line] else imports1)
      in extract_lines ls imports2)"

definition extractImports :: "string \<Rightarrow> string list" where
  "extractImports content = extract_lines (split_on (CHR 0x0A) content) []"

text \<open>
  The file system below the root as \<open>WalkDir\<close> meets it: a directory that cannot be read has no list of
  children, a file that cannot be read no content. \<open>WalkDir\<close> visits the children by name. An error
  stops the walk and the nodes found so far are returned with it.
\<close>

datatype fstree = FDir string "fstree list option" | FFile string "string option"

fun entry_name :: "fstree \<Rightarrow> string" where
  "entry_name (FDir n cs) = n"
| "entry_name (FFile n c) = n"

definition scan_file :: "string \<Rightarrow> string option \<Rightarrow> FileNode list \<Rightarrow> FileNode list" where
  "scan_file path content nodes =
     (if map lower_char (path_ext path) \<notin> set codeExtensions then nodes
      else case content of
             None \<Rightarrow> nodes
           | Some c \<Rightarrow> nodes @ [\<lparr>fn_Path = path, fn_IsDir = False, fn_Imports = extractImports c\<rparr>])"

fun walk :: "string \<Rightarrow> fstree \<Rightarrow> FileNode list \<Rightarrow> bool \<times> FileNode list"
  and walk_list :: "string \<Rightarrow> fstree list \<Rightarrow> FileNode list \<Rightarrow> bool \<times> FileNode list" where
  "walk path (FFile name content) nodes = (True, scan_file path content nodes)"
| "walk path (FDir name children) nodes =
     (if name \<in> set skipDirs \<or> has_prefix name ''.'' then (True, nodes)
      else let nodes1 = nodes @ [\<lparr>fn_Path = path, fn_IsDir = True, fn_Imports = []\<rparr>]
           in case children of
                None \<Rightarrow> (False, nodes1)
              | Some cs \<Rightarrow> walk_list path cs nodes1)"
| "walk_list path [] nodes = (True, nodes)"
| "walk_list path (t # ts) nodes =
     (case walk (path @ ''/'' @ entry_name t) t nodes of
        (ok, nodes1) \<Rightarrow> if ok then walk_list path ts nodes1 else (False, nodes1))"

definition ScanProject :: "string \<Rightarrow> fstree option \<Rightarrow> bool \<times> FileNode list" where
  "ScanProject absRoot tree =
     (case tree of None \<Rightarrow> (False, []) | Some t \<Rightarrow> walk absRoot t [])"

subsection \<open>Compiler\<close>

definition isProjectImport :: "string \<Rightarrow> string \<Rightarrow> bool" where
  "isProjectImport imp projectPath \<longleftrightarrow>
     str_contains imp ''easyfit_app'' \<or> str_contains imp ''easyfit_shared'' \<or>
     str_contains imp ''easyfit_ui'' \<or> str_contains imp projectPath"

record cstate =
  cs_units :: "Unit list"
  cs_nodes :: "string list"
  cs_edges :: "Edge list"
  cs_ids :: "string list"

definition file_unit :: "string \<Rightarrow> string \<Rightarrow> Unit" where
  "file_unit project fid =
     \<lparr>unit_ID = fid, unit_Type = UnitTask, unit_AgentRef = '''',
      unit_Binding = \<lparr>bind_Contract = ''file'', bind_Isolation = ''inline''\<rparr>,
      unit_Dependencies = [],
      unit_DataFlow = \<lparr>df_Inputs = [], df_Outputs = [''content'']\<rparr>,
      unit_Validation = \<lparr>val_Preconditions = [''file_exists''], val_Postconditions = [],
                         val_Invariants = [], val_FailureModes = []\<rparr>,
      unit_Scheduling = \<lparr>sched_Priority = 1, sched_Deadline = '''', sched_Retry = None\<rparr>,
      unit_Context = \<lparr>uctx_Mode = ''static'', uctx_MaxTokens = 0, uctx_Tools = []\<rparr>,
      unit_Governance = \<lparr>gov_RequiredApprovals = [], gov_ChangeScope = project\<rparr>,
      unit_Activation = \<lparr>act_Condition = ''true'', act_Requires = [], act_Optional = []\<rparr>,
      unit_Gate = None\<rparr>"

definition import_unit :: "string \<Rightarrow> string \<Rightarrow> Unit" where
  "import_unit project depID =
     \<lparr>unit_ID = depID, unit_Type = UnitTask, unit_AgentRef = '''',
      unit_Binding = \<lparr>bind_Contract = ''import'', bind_Isolation = ''inline''\<rparr>,
      unit_Dependencies = [],
      unit_DataFlow = \<lparr>df_Inputs = [], df_Outputs = [''resolution'']\<rparr>,
      unit_Validation = \<lparr>val_Preconditions = [], val_Postconditions = [], val_Invariants = [],
                         val_FailureModes = []\<rparr>,
      unit_Scheduling = \<lparr>sched_Priority = 0, sched_Deadline = '''', sched_Retry = None\<rparr>,
      unit_Context = \<lparr>uctx_Mode = ''static'', uctx_MaxTokens = 0, uctx_Tools = []\<rparr>,
      unit_Governance = \<lparr>gov_RequiredApprovals = [], gov_ChangeScope = project\<rparr>,
      unit_Activation = \<lparr>act_Condition = ''true'', act_Requires = [], act_Optional = []\<rparr>,
      unit_Gate = None\<rparr>"

definition import_id :: "string \<Rightarrow> string" where
  "import_id imp = ''import:'' @ imp"

definition import_edge :: "string \<Rightarrow> string \<Rightarrow> Edge" where
  "import_edge fid depID = \<lparr>edge_From = fid, edge_To = depID, edge_Type = ''import''\<rparr>"

fun compile_imports :: "string \<Rightarrow> string \<Rightarrow> string \<Rightarrow> string list \<Rightarrow> Unit \<Rightarrow> cstate \<Rightarrow> Unit \<times> cstate" where
  "compile_imports project absProject fid [] unit st = (unit, st)"
| "compile_imports project absProject fid (imp # imps) unit st =
     (if \<not> isProjectImport imp absProject then compile_imports project absProject fid imps unit st
      else
        (let depID = import_id imp;
             st1 = (if depID \<notin> set (cs_ids st)
                    then st\<lparr>cs_ids := depID # cs_ids st,
                            cs_units := cs_units st @ [import_unit project depID],
                            cs_nodes := cs_nodes st @ [depID],
                            cs_edges := cs_edges st @ [import_edge fid depID]\<rparr>
                    else st\<lparr>cs_edges := cs_edges st @ [import_edge fid depID]\<rparr>)
         in compile_imports project absProject fid imps
              (unit\<lparr>unit_Dependencies := unit_Dependencies unit @ [depID]\<rparr>) st1))"

definition compile_file :: "string \<Rightarrow> string \<Rightarrow> FileNode \<Rightarrow> cstate \<Rightarrow> cstate" where
  "compile_file project absProject f st =
     (if fn_IsDir f then st
      else let fid = fn_Path f
           in if fid \<in> set (cs_ids st) then st
              else (case compile_imports project absProject fid (fn_Imports f) (file_unit project fid)
                           (st\<lparr>cs_ids := fid # cs_ids st\<rparr>) of
                      (unit, st1) \<Rightarrow>
                        st1\<lparr>cs_units := cs_units st1 @ [unit], cs_nodes := cs_nodes st1 @ [fid]\<rparr>))"

definition cstate_empty :: cstate where
  "cstate_empty = \<lparr>cs_units = [], cs_nodes = [], cs_edges = [], cs_ids = []\<rparr>"

definition Compile :: "FileNode list \<Rightarrow> string \<Rightarrow> string \<Rightarrow> RIR" where
  "Compile files projectPath absProject =
     (let project = path_base projectPath;
          st = fold (compile_file project absProject) files cstate_empty
      in \<lparr>rir_Meta = \<lparr>meta_SchemaVersion = ''1.0'', meta_SpecHash = ''mek-rir-'' @ project,
                     meta_CompilationID = ''gen-'' @ project, meta_CompiledAt = '''',
                     meta_SourceSpec = project, meta_CompilerVersion = ''mek-rir-generator-v1''\<rparr>,
          rir_ExecutionPlan = \<lparr>plan_SchedulingModel = ''wave'', plan_ExecutionStrategy = ''deterministic'',
                               plan_MaxParallelism = 1, plan_FailStrategy = ''abort'',
                               plan_ExecutionMode = ''2''\<rparr>,
          rir_Units = cs_units st,
          rir_Graph = \<lparr>graph_DAG = \<lparr>dag_Nodes = sort (cs_nodes st), dag_Edges = cs_edges st\<rparr>,
                       graph_Cycles = [], graph_IsolatedRegions = []\<rparr>,
          rir_Assertions = [\<lparr>asrt_ID = ''structural-integrity'', asrt_Type = ''graph'',
                             asrt_Predicate = ''acyclic'', asrt_OnFailure = ''fail''\<rparr>],
          rir_FailureModes = [], rir_IsolationRegions = [], rir_Checkpoints = [],
          rir_Handoff = \<lparr>ho_OutputArtifacts = [''rir.generated.json''], ho_Evidence = [],
                         ho_NextSpec = ''''\<rparr>\<rparr>)"

subsection \<open>Generator\<close>

record GenUnit =
  gu_ID :: string
  gu_Type :: string
  gu_Deterministic :: bool

record GenRIR =
  gr_SchemaVersion :: string
  gr_Project :: string
  gr_GeneratedBy :: string
  gr_Units :: "GenUnit list"
  gr_Nodes :: "string list"
  gr_Edges :: "(string \<times> string) list"

definition gen_file ::
  "FileNode \<Rightarrow> GenUnit list \<times> string list \<times> (string \<times> string) list
     \<Rightarrow> GenUnit list \<times> string list \<times> (string \<times> string) list" where
  "gen_file f = (\<lambda>(units, nodes, edges).
     if fn_IsDir f then (units, nodes, edges)
     else let fid = fn_Path f
          in (units @ [\<lparr>gu_ID = fid, gu_Type = ''file'', gu_Deterministic = True\<rparr>], nodes @ [fid],
              fold (\<lambda>imp es. if imp \<noteq> '''' then es @ [(fid, imp)] else es) (fn_Imports f) edges))"

definition GenerateRIR :: "string \<Rightarrow> FileNode list \<Rightarrow> GenRIR" where
  "GenerateRIR projectPath files =
     (case fold gen_file files ([], [], []) of
        (units, nodes, edges) \<Rightarrow>
          \<lparr>gr_SchemaVersion = ''1.0'', gr_Project = path_base projectPath,
           gr_GeneratedBy = ''mek-rir-generator'', gr_Units = units, gr_Nodes = sort nodes,
           gr_Edges = edges\<rparr>)"

subsection \<open>Validation: specification\<close>

lemma or_else_None: "or_else a b = None \<longleftrightarrow> a = None \<and> b = None"
  by (auto simp: or_else_def split: option.splits)

lemma check_duplicates_None: "check_duplicates us ids = None \<longleftrightarrow> distinct (map unit_ID us) \<and> set (map unit_ID us) \<inter> set ids = {}"
  by (induction us ids rule: check_duplicates.induct) auto

lemma check_checkpoints_None: "check_checkpoints us = None \<longleftrightarrow> (\<forall>u \<in> set us. unit_Type u \<noteq> UnitCheckpoint)"
  by (induction us) auto

lemma check_unit_deps_None: "check_unit_deps ids i ds = None \<longleftrightarrow> set ds \<subseteq> set ids"
  by (induction ds) auto

lemma check_dependencies_None:
  "check_dependencies ids us = None \<longleftrightarrow> (\<forall>u \<in> set us. set (unit_Dependencies u) \<subseteq> set ids)"
  by (induction us) (auto simp: or_else_None check_unit_deps_None)

lemma escalate_count_eq: "escalate_count g = length (filter (\<lambda>b. br_Target b = ''ESCALATE'') (gate_Branches g))"
proof -
  have f: "fold (\<lambda>b n. if br_Target b = t then n + 1 else n) bs k = k + length (filter (\<lambda>b. br_Target b = t) bs)"
    for bs t and k :: nat
    by (induction bs arbitrary: k) auto
  show ?thesis by (simp only: escalate_count_def f add_0)
qed

definition gate_ok :: "GateConfig \<Rightarrow> bool" where
  "gate_ok g \<longleftrightarrow> gate_Branches g \<noteq> [] \<and> gate_Default g \<noteq> '''' \<and>
     length (filter (\<lambda>b. br_Target b = ''ESCALATE'') (gate_Branches g)) \<le> 1"

lemma check_gate_None:
  "check_gate u = None \<longleftrightarrow> (unit_Type u = UnitGate \<longrightarrow> (\<exists>g. unit_Gate u = Some g \<and> gate_ok g))"
  by (auto simp: check_gate_def gate_ok_def escalate_count_eq split: option.splits)

lemma check_gates_None: "check_gates us = None \<longleftrightarrow> (\<forall>u \<in> set us. check_gate u = None)"
  by (induction us) (auto simp: or_else_None)

lemma Validate_None:
  "Validate r = None \<longleftrightarrow>
     meta_SchemaVersion (rir_Meta r) = ''1.0'' \<and> plan_ExecutionMode (rir_ExecutionPlan r) = ''2'' \<and>
     0 < plan_MaxParallelism (rir_ExecutionPlan r) \<and> distinct (unit_ids r) \<and>
     meta_SpecHash (rir_Meta r) \<noteq> '''' \<and>
     (\<forall>u \<in> set (rir_Units r). unit_Type u \<noteq> UnitCheckpoint \<and>
        set (unit_Dependencies u) \<subseteq> set (unit_ids r) \<and>
        (unit_Type u = UnitGate \<longrightarrow> (\<exists>g. unit_Gate u = Some g \<and> gate_ok g)))"
  unfolding Validate_def
  by (simp add: or_else_None check_duplicates_None check_checkpoints_None check_dependencies_None
      check_gates_None check_gate_None not_le) blast

lemma Load_Inr: "Load rd ps p = Inr r \<Longrightarrow> Validate r = None"
  by (auto simp: Load_def split: option.splits)

lemma Validate_distinct: "Validate r = None \<Longrightarrow> distinct (unit_ids r)"
  by (simp add: Validate_None)

subsection \<open>What the compiler produces\<close>

text \<open>
  \<open>plain_unit\<close> is what every compiled unit satisfies. \<open>cs_inv\<close> relates the set of identifiers to the
  units made so far; \<open>open_ids\<close> are the identifiers taken whose unit is not appended yet (the file
  being compiled).
\<close>

definition plain_unit :: "string set \<Rightarrow> Unit \<Rightarrow> bool" where
  "plain_unit ids u \<longleftrightarrow> unit_Type u = UnitTask \<and> set (unit_Dependencies u) \<subseteq> ids \<and>
     unit_Activation u = \<lparr>act_Condition = ''true'', act_Requires = [], act_Optional = []\<rparr>"

definition cs_inv :: "string set \<Rightarrow> cstate \<Rightarrow> bool" where
  "cs_inv open_ids st \<longleftrightarrow>
     distinct (map unit_ID (cs_units st)) \<and>
     set (cs_ids st) = open_ids \<union> unit_ID ` set (cs_units st) \<and>
     open_ids \<inter> unit_ID ` set (cs_units st) = {} \<and>
     (\<forall>u \<in> set (cs_units st). plain_unit (set (cs_ids st)) u) \<and>
     (\<forall>e \<in> set (cs_edges st). edge_From e \<in> set (cs_ids st) \<and> edge_To e \<in> set (cs_ids st))"

lemma plain_unit_mono: "plain_unit A u \<Longrightarrow> A \<subseteq> B \<Longrightarrow> plain_unit B u"
  by (auto simp: plain_unit_def)

lemma cs_inv_new_import:
  assumes i: "cs_inv A st" and f: "fid \<in> A" and new: "d \<notin> set (cs_ids st)"
  shows "cs_inv A (st\<lparr>cs_ids := d # cs_ids st, cs_units := cs_units st @ [import_unit project d],
    cs_nodes := cs_nodes st @ [d], cs_edges := cs_edges st @ [import_edge fid d]\<rparr>)"
proof -
  have "plain_unit (insert d (set (cs_ids st))) u" if "u \<in> set (cs_units st)" for u
    using i that plain_unit_mono unfolding cs_inv_def by blast
  moreover have "plain_unit B (import_unit project d)" for B
    by (simp add: plain_unit_def import_unit_def)
  moreover have "unit_ID (import_unit project d) = d" by (simp add: import_unit_def)
  ultimately show ?thesis
    using i f new unfolding cs_inv_def import_edge_def by auto
qed

lemma compile_imports_inv:
  assumes "cs_inv A st" and "fid \<in> A" and "plain_unit (set (cs_ids st)) u" and "unit_ID u = fid"
    and "compile_imports project root fid imps u st = (u', st')"
  shows "cs_inv A st' \<and> plain_unit (set (cs_ids st')) u' \<and> unit_ID u' = fid"
  using assms
proof (induction project root fid imps u st rule: compile_imports.induct)
  case (1 project root fid u st)
  then show ?case by simp
next
  case (2 project root fid imp imps u st)
  show ?case
  proof (cases "isProjectImport imp root")
    case False
    with 2 show ?thesis by simp
  next
    case True
    define d where "d = import_id imp"
    define u1 where "u1 = u\<lparr>unit_Dependencies := unit_Dependencies u @ [d]\<rparr>"
    define st1 where "st1 = (if d \<notin> set (cs_ids st)
      then st\<lparr>cs_ids := d # cs_ids st, cs_units := cs_units st @ [import_unit project d],
              cs_nodes := cs_nodes st @ [d], cs_edges := cs_edges st @ [import_edge fid d]\<rparr>
      else st\<lparr>cs_edges := cs_edges st @ [import_edge fid d]\<rparr>)"
    have ids: "set (cs_ids st1) = insert d (set (cs_ids st))" by (auto simp: st1_def)
    have inv: "cs_inv A st1"
    proof (cases "d \<in> set (cs_ids st)")
      case True
      with "2.prems"(1,2) show ?thesis by (auto simp: st1_def cs_inv_def import_edge_def)
    next
      case False
      with cs_inv_new_import [OF "2.prems"(1,2) False] show ?thesis by (simp add: st1_def)
    qed
    have pu: "plain_unit (set (cs_ids st1)) u1" and uid: "unit_ID u1 = fid"
      using "2.prems"(3,4) ids by (auto simp: plain_unit_def u1_def)
    have "compile_imports project root fid (imp # imps) u st = compile_imports project root fid imps u1 st1"
      by (simp only: compile_imports.simps Let_def d_def u1_def st1_def True not_True_eq_False if_False)
    with "2.prems"(5) have eq: "compile_imports project root fid imps u1 st1 = (u', st')" by simp
    show ?thesis
      by (rule "2.IH"(2) [OF _ d_def st1_def inv "2.prems"(2) pu [unfolded u1_def] uid [unfolded u1_def]
            eq [unfolded u1_def]]) (simp add: True)
  qed
qed

lemma compile_file_inv:
  assumes i: "cs_inv {} st"
  shows "cs_inv {} (compile_file project root f st)"
proof (cases "fn_IsDir f \<or> fn_Path f \<in> set (cs_ids st)")
  case True
  with i show ?thesis by (auto simp: compile_file_def Let_def)
next
  case False
  let ?i = "fn_Path f"
  let ?st = "st\<lparr>cs_ids := ?i # cs_ids st\<rparr>"
  obtain u st1 where c: "compile_imports project root ?i (fn_Imports f) (file_unit project ?i) ?st = (u, st1)"
    by fastforce
  have st0: "cs_inv {?i} ?st"
  proof -
    have "plain_unit (insert ?i (set (cs_ids st))) u" if "u \<in> set (cs_units st)" for u
      using i that plain_unit_mono unfolding cs_inv_def by blast
    with i False show ?thesis unfolding cs_inv_def by auto
  qed
  have "plain_unit (set (cs_ids ?st)) (file_unit project ?i)" "unit_ID (file_unit project ?i) = ?i"
    by (simp_all add: plain_unit_def file_unit_def)
  from compile_imports_inv [OF st0 _ this c] have r: "cs_inv {?i} st1"
    "plain_unit (set (cs_ids st1)) u" "unit_ID u = ?i" by auto
  have "compile_file project root f st = st1\<lparr>cs_units := cs_units st1 @ [u], cs_nodes := cs_nodes st1 @ [?i]\<rparr>"
    using False c by (simp add: compile_file_def)
  with r show ?thesis unfolding cs_inv_def by auto
qed

lemma cs_inv_Compile:
  "cs_inv {} (fold (compile_file project root) files cstate_empty)"
proof (rule fold_invariant)
  show "cs_inv {} cstate_empty" by (simp add: cs_inv_def cstate_empty_def)
qed (rule compile_file_inv)

lemma Compile_fields:
  "rir_Units (Compile files p root) = cs_units (fold (compile_file (path_base p) root) files cstate_empty)"
  "rir_edges (Compile files p root) = cs_edges (fold (compile_file (path_base p) root) files cstate_empty)"
  by (simp_all add: Compile_def Let_def)

lemma Compile_units:
  assumes "u \<in> set (rir_Units (Compile files p root))"
  shows "plain_unit (set (unit_ids (Compile files p root))) u"
  using assms cs_inv_Compile [of "path_base p" root files] unfolding Compile_fields cs_inv_def by auto

lemma Compile_distinct: "distinct (unit_ids (Compile files p root))"
  using cs_inv_Compile [of "path_base p" root files] unfolding Compile_fields cs_inv_def by auto

lemma Compile_resolved: "edges_resolved (Compile files p root)"
  using cs_inv_Compile [of "path_base p" root files] unfolding edges_resolved_def Compile_fields cs_inv_def by auto

text \<open>The edges: one from a file to each of its project imports, in order.\<close>

definition file_edges :: "string \<Rightarrow> FileNode \<Rightarrow> Edge list" where
  "file_edges root f =
     map (\<lambda>imp. import_edge (fn_Path f) (import_id imp)) (filter (\<lambda>imp. isProjectImport imp root) (fn_Imports f))"

lemma compile_imports_edges:
  "cs_edges (snd (compile_imports project root fid imps u st)) =
     cs_edges st @ map (\<lambda>imp. import_edge fid (import_id imp)) (filter (\<lambda>imp. isProjectImport imp root) imps)"
  by (induction project root fid imps u st rule: compile_imports.induct) (simp_all add: Let_def)

lemma compile_file_edges:
  "cs_edges (compile_file project root f st) = cs_edges st \<or>
   (\<not> fn_IsDir f \<and> cs_edges (compile_file project root f st) = cs_edges st @ file_edges root f)"
  using compile_imports_edges [of project root "fn_Path f" "fn_Imports f" "file_unit project (fn_Path f)"
      "st\<lparr>cs_ids := fn_Path f # cs_ids st\<rparr>"]
  by (auto simp: compile_file_def Let_def file_edges_def split: prod.splits)

lemma Compile_edges:
  assumes "e \<in> set (rir_edges (Compile files p root))"
  shows "\<exists>f \<in> set files. \<not> fn_IsDir f \<and> e \<in> set (file_edges root f)"
proof -
  have "\<forall>e \<in> set (cs_edges (fold (compile_file project root) fs st)).
      e \<in> set (cs_edges st) \<or> (\<exists>f \<in> set fs. \<not> fn_IsDir f \<and> e \<in> set (file_edges root f))" for project fs st
  proof (induction fs arbitrary: st)
    case (Cons f fs)
    from Cons.IH [of "compile_file project root f st"] compile_file_edges [of project root f st]
    show ?case by auto
  qed simp
  with assms show ?thesis by (fastforce simp: Compile_fields cstate_empty_def)
qed

lemma Compile_edge_To:
  assumes "e \<in> set (rir_edges (Compile files p root))"
  shows "\<exists>imp. edge_To e = import_id imp"
proof -
  from Compile_edges [OF assms] obtain f where "e \<in> set (file_edges root f)" by blast
  then show ?thesis by (auto simp: file_edges_def import_edge_def)
qed

text \<open>How often an import line occurs in the scan bounds the in-degree of its unit.\<close>

definition import_uses :: "FileNode list \<Rightarrow> string \<Rightarrow> nat" where
  "import_uses files imp = (\<Sum>f \<leftarrow> files. count_list (fn_Imports f) imp)"

lemma file_edges_count: "length (filter (\<lambda>e. edge_To e = import_id imp) (file_edges root f)) \<le> count_list (fn_Imports f) imp"
proof -
  have "length (filter (\<lambda>e. edge_To e = import_id imp) (map (\<lambda>imp. import_edge x (import_id imp)) (filter P imps)))
      \<le> count_list imps imp" for x P imps
    by (induction imps) (auto simp: import_edge_def import_id_def)
  then show ?thesis by (simp add: file_edges_def)
qed

lemma Compile_indegree: "indegree_of (Compile files p root) (import_id imp) \<le> import_uses files imp"
proof -
  have "length (filter (\<lambda>e. edge_To e = import_id imp) (cs_edges (fold (compile_file project root) fs st)))
      \<le> length (filter (\<lambda>e. edge_To e = import_id imp) (cs_edges st)) + import_uses fs imp" for project fs st
  proof (induction fs arbitrary: st)
    case (Cons f fs)
    have "length (filter (\<lambda>e. edge_To e = import_id imp) (cs_edges (compile_file project root f st)))
        \<le> length (filter (\<lambda>e. edge_To e = import_id imp) (cs_edges st)) + count_list (fn_Imports f) imp"
      using compile_file_edges [of project root f st] file_edges_count [of imp root f] by auto
    with Cons.IH [of "compile_file project root f st"] show ?case by (simp add: import_uses_def)
  qed (simp add: import_uses_def)
  from this [of "path_base p" files cstate_empty] show ?thesis
    by (simp add: indegree_of_def Compile_fields cstate_empty_def)
qed

definition absolute_paths :: "FileNode list \<Rightarrow> bool" where
  "absolute_paths files \<longleftrightarrow> (\<forall>f \<in> set files. \<exists>cs. fn_Path f = CHR ''/'' # cs)"

lemma Compile_rel:
  assumes "absolute_paths files" and "(u, v) \<in> rir_rel (Compile files p root)"
  shows "(\<exists>cs. u = CHR ''/'' # cs) \<and> (\<exists>imp. v = import_id imp)"
proof -
  obtain e where "e \<in> set (rir_edges (Compile files p root))" "u = edge_From e" "v = edge_To e"
    using assms(2) unfolding rir_rel_def by blast
  with Compile_edges assms(1) show ?thesis
    by (fastforce simp: file_edges_def import_edge_def absolute_paths_def)
qed

lemma Compile_two_levels:
  assumes "absolute_paths files" and "(u, v) \<in> rir_rel (Compile files p root)"
  shows "(v, w) \<notin> rir_rel (Compile files p root)"
  using Compile_rel [OF assms] Compile_rel [OF assms(1), of v w p root] by (auto simp: import_id_def)

lemma Compile_acyclic:
  assumes a: "absolute_paths files"
  shows "acyclic (rir_rel (Compile files p root))"
proof (rule acyclicI, intro allI notI)
  fix x assume "(x, x) \<in> (rir_rel (Compile files p root))\<^sup>+"
  then obtain y z where "(x, y) \<in> rir_rel (Compile files p root)" "(z, x) \<in> rir_rel (Compile files p root)"
    by (meson tranclD tranclD2)
  with Compile_two_levels [OF a] show False by blast
qed

lemma Compile_chain:
  assumes a: "absolute_paths files" and "chain (Compile files p root) vs"
  shows "length vs \<le> 2"
proof (rule ccontr)
  assume "\<not> length vs \<le> 2"
  then have "Suc (Suc (Suc 0)) \<le> length vs" by simp
  then obtain x y z zs where "vs = x # y # z # zs" by (auto simp: Suc_le_length_iff)
  with assms(2) Compile_two_levels [OF a, of x y p root z] show False by simp
qed

subsection \<open>Properties\<close>

text \<open>The documented invariants I-001 (no cycles listed) and I-003 (preconditions are assertions) are not looked at,
  and what the compiler writes does not satisfy I-003.\<close>

lemma Validate_ignores_I001_I003:
  "Validate (r\<lparr>rir_Graph := (rir_Graph r)\<lparr>graph_Cycles := cycles\<rparr>, rir_Assertions := assertions\<rparr>) = Validate r"
  by (simp add: Validate_def)

lemma compiled_precondition_undeclared:
  "val_Preconditions (unit_Validation (file_unit project fid)) = [''file_exists''] \<and>
   ''file_exists'' \<notin> asrt_ID ` set (rir_Assertions (Compile files projectPath absProject))"
  by (simp add: file_unit_def Compile_def Let_def)

text \<open>C9: \<open>Load\<close> returns exactly the documents that can be read and parsed and satisfy the conditions \<open>Validate\<close>
  checks: the schema version, execution mode 2, a positive parallelism, distinct unit identifiers, a hash of the
  specification, no checkpoints, dependencies that name units, and gates with branches, a default and at most one
  escalation. Of the documented invariants I-001 to I-006 these are I-002, I-004, I-005 and I-006.\<close>

theorem Load_spec:
  "Load rd ps path = Inr r \<longleftrightarrow> (\<exists>data. rd path = Some data \<and> ps data = Some r) \<and>
     meta_SchemaVersion (rir_Meta r) = ''1.0'' \<and> plan_ExecutionMode (rir_ExecutionPlan r) = ''2'' \<and>
     0 < plan_MaxParallelism (rir_ExecutionPlan r) \<and> distinct (unit_ids r) \<and>
     meta_SpecHash (rir_Meta r) \<noteq> '''' \<and>
     (\<forall>u \<in> set (rir_Units r). unit_Type u \<noteq> UnitCheckpoint \<and>
        set (unit_Dependencies u) \<subseteq> set (unit_ids r) \<and>
        (unit_Type u = UnitGate \<longrightarrow> (\<exists>g. unit_Gate u = Some g \<and> gate_ok g)))"
  unfolding Validate_None [symmetric] by (auto simp: Load_def split: option.splits)

theorem Load_spec_witness:
  "Load (\<lambda>_. Some ''doc'') (\<lambda>_. Some diamond) ''f'' = Inr diamond"
proof -
  have "Validate diamond = None" by code_simp
  then show ?thesis
    using Load_spec [of "\<lambda>_. Some ''doc''" "\<lambda>_. Some diamond" "''f''" diamond] by (simp add: Validate_None)
qed

text \<open>C10: what the compiler writes for a scan whose paths are absolute passes \<open>Validate\<close>, and the graph builder builds
  it when no import line occurs more than 1024 times, the limit of the code (the documents say 64).\<close>

theorem Compile_loads_and_builds:
  assumes "absolute_paths files" and "\<forall>imp. import_uses files imp \<le> 1024"
  shows "Validate (Compile files p root) = None \<and>
    Build (Compile files p root) = Inr (sorted_graph (Compile files p root))"
proof
  let ?r = "Compile files p root"
  have "plain_unit (set (unit_ids ?r)) u" if "u \<in> set (rir_Units ?r)" for u
    using Compile_units [OF that] .
  then show "Validate ?r = None"
    using Compile_distinct [of files p root] unfolding Validate_None plain_unit_def
    by (auto simp: Compile_def Let_def)
  have "indegree_of ?r i \<le> 1024" for i
  proof (cases "\<exists>imp. i = import_id imp")
    case True
    then show ?thesis using Compile_indegree assms(2) le_trans by blast
  next
    case False
    have "filter (\<lambda>e. edge_To e = i) (rir_edges ?r) = []"
      using False Compile_edge_To [of _ files p root] by (auto simp: filter_empty_conv)
    then show ?thesis by (simp add: indegree_of_def)
  qed
  then show "Build ?r = Inr (sorted_graph ?r)"
    unfolding Build_complete_iff [OF Compile_distinct Compile_resolved]
    using Compile_acyclic [OF assms(1)] Compile_chain [OF assms(1)] by fastforce
qed

definition sample_scan :: "FileNode list" where
  "sample_scan =
     [\<lparr>fn_Path = ''/app'', fn_IsDir = True, fn_Imports = []\<rparr>,
      \<lparr>fn_Path = ''/app/main.dart'', fn_IsDir = False,
       fn_Imports = extractImports ''import easyfit_ui/a''\<rparr>]"

theorem Compile_loads_and_builds_witness:
  "Validate (Compile sample_scan ''/app'' ''/app'') = None \<and>
   unit_ids (Compile sample_scan ''/app'' ''/app'') = [''import:import easyfit_ui/a'', ''/app/main.dart'']"
proof
  have imp1: "extractImports ''import easyfit_ui/a'' = [''import easyfit_ui/a'']" by code_simp
  have "absolute_paths sample_scan" by (simp add: absolute_paths_def sample_scan_def)
  moreover have "\<forall>imp. import_uses sample_scan imp \<le> 1024"
    by (simp add: import_uses_def sample_scan_def imp1)
  ultimately show "Validate (Compile sample_scan ''/app'' ''/app'') = None"
    using Compile_loads_and_builds by blast
  show "unit_ids (Compile sample_scan ''/app'' ''/app'') = [''import:import easyfit_ui/a'', ''/app/main.dart'']"
    by code_simp
qed

text \<open>How often the scanner reports a line: a line starting with \<open>import '\<close> passes both tests and is
  reported twice.\<close>

definition quoted_import :: string where
  "quoted_import = ''import '' @ [CHR 0x27]"

lemma extract_lines_count:
  "count_list (extract_lines ls acc) l = count_list acc l +
     (if has_prefix l ''import '' then if has_prefix l quoted_import then 2 else 1 else 0)
       * count_list (map trim_space ls) l"
proof (induction ls arbitrary: acc)
  case (Cons x ls)
  have "has_prefix y ''import ''" if "has_prefix y quoted_import" for y
    using that unfolding has_prefix_iff quoted_import_def by auto
  moreover have "has_prefix y [CHR ''i'', CHR ''m'', CHR ''p'', CHR ''o'', CHR ''r'', CHR ''t'', CHR '' '', CHR 0x27]
      = has_prefix y quoted_import" for y
    by (simp add: quoted_import_def del: has_prefix.simps)
  ultimately show ?case by (auto simp: Cons.IH Let_def simp del: has_prefix.simps)
qed simp

text \<open>The scanner's list of imports of a file holds every trimmed line that starts with
  \<open>import\<close> and a space as often as the file has it, except that a quoted import is counted twice.\<close>

theorem extractImports_count:
  "count_list (extractImports content) l =
     (if has_prefix l ''import '' then if has_prefix l quoted_import then 2 else 1 else 0)
       * count_list (map trim_space (split_on (CHR 0x0A) content)) l"
  by (simp add: extractImports_def extract_lines_count del: has_prefix.simps)

text \<open>A document with two edges to unknown units: \<open>A\<close> has an outgoing and \<open>B\<close> an incoming one.\<close>

definition dangling :: RIR where
  "dangling = sample_rir [sample_unit ''A'' ''all_success'' [], sample_unit ''B'' ''all_success'' [''A'']]
     [(''X'', ''B''), (''A'', ''Y'')] []"

text \<open>An unresolved edge can hide an unreachable node: the reachability check compares counts, and the
  unknown target \<open>Y\<close> makes up for the unreachable unit \<open>B\<close>. The document is valid and builds, and \<open>B\<close> is
  in no layer.\<close>

theorem Build_accepts_unreachable:
  "Validate dangling = None \<and> Build dangling = Inr (sorted_graph dangling) \<and>
   ''B'' \<in> set (unit_ids dangling) \<and> ''B'' \<notin> set (concat (ceg_Layers (sorted_graph dangling)))"
proof -
  have "Validate dangling = None" "validate (sorted_graph dangling) = None"
    "unit_ids dangling = [''A'', ''B'']" "ceg_Layers (sorted_graph dangling) = [[''A'']]"
    by code_simp+
  then show ?thesis by (simp add: Build_Inr_iff)
qed

end
