(* ===== verification/Mek_Waves.thy ===== *)
theory Mek_Waves
  imports Mek_Rir
begin

text \<open>
  The wave partition of the scheduler, \<open>mek/internal/scheduler/scheduler.go\<close>: the conflict graph of a
  topological layer and its greedy colouring. The colours of a layer are its waves. The lemmas show
  that the waves of a layer are its nodes, that no two nodes of a wave conflict, that no wave is empty
  and that the partition does not depend on the order in which the layer lists its nodes.

  The map \<open>conflicts\<close> is a Go map from a node to the list of its neighbours, the inner map being only a
  set; \<open>colors\<close> is a Go map from a node to its colour.
\<close>

subsection \<open>Conflicts\<close>

definition collectSurfaces :: "Unit \<Rightarrow> RIR \<Rightarrow> string list" where
  "collectSurfaces u rir =
     fold (\<lambda>iso surfaces. if Contains (iso_Units iso) (unit_ID u) then surfaces @ iso_Units iso else surfaces)
       (rir_IsolationRegions rir) []"

fun overlaps_one :: "string \<Rightarrow> string list \<Rightarrow> bool" where
  "overlaps_one sa [] = False"
| "overlaps_one sa (sb # b) = (if sa = sb then True else overlaps_one sa b)"

fun hasOverlap :: "string list \<Rightarrow> string list \<Rightarrow> bool" where
  "hasOverlap [] b = False"
| "hasOverlap (sa # a) b = (if overlaps_one sa b then True else hasOverlap a b)"

definition input_contracts :: "string \<Rightarrow> RIR \<Rightarrow> string list" where
  "input_contracts i rir =
     fold (\<lambda>u cs. fold (\<lambda>dfi cs. if unit_ID u = i then List.insert (dfi_Contract dfi) cs else cs)
                   (df_Inputs (unit_DataFlow u)) cs)
       (rir_Units rir) []"

definition hasDataFlowConflict :: "string \<Rightarrow> string \<Rightarrow> RIR \<Rightarrow> bool" where
  "hasDataFlowConflict a b rir =
     (let contractsA = input_contracts a rir; contractsB = input_contracts b rir
      in list_ex (\<lambda>k. k \<in> set contractsB) contractsA)"

definition surfaces_of :: "RIR \<Rightarrow> (string, string list) gomap" where
  "surfaces_of rir = fold (\<lambda>u m. gm_put (unit_ID u) (collectSurfaces u rir) m) (rir_Units rir) []"

definition slice_at :: "(string, 'a list) gomap \<Rightarrow> string \<Rightarrow> 'a list" where
  "slice_at m i = (case gm_get m i of None \<Rightarrow> [] | Some xs \<Rightarrow> xs)"

type_synonym conflicts = "(string, string list) gomap"

definition add_conflict :: "string \<Rightarrow> string \<Rightarrow> conflicts \<Rightarrow> conflicts" where
  "add_conflict a b c =
     (let c1 = gm_put a (List.insert b (slice_at c a)) c
      in gm_put b (List.insert a (slice_at c1 b)) c1)"

definition conflict_pair ::
  "RIR \<Rightarrow> (string, string list) gomap \<Rightarrow> string \<Rightarrow> string \<Rightarrow> conflicts \<Rightarrow> conflicts" where
  "conflict_pair rir surfaces a b c =
     (let c1 = (if hasOverlap (slice_at surfaces a) (slice_at surfaces b) then add_conflict a b c else c)
      in if hasDataFlowConflict a b rir then add_conflict a b c1 else c1)"

fun conflict_rows ::
  "RIR \<Rightarrow> (string, string list) gomap \<Rightarrow> string list \<Rightarrow> conflicts \<Rightarrow> conflicts" where
  "conflict_rows rir surfaces [] c = c"
| "conflict_rows rir surfaces (a # bs) c =
     conflict_rows rir surfaces bs (fold (conflict_pair rir surfaces a) bs c)"

definition buildConflictGraph :: "string list \<Rightarrow> RIR \<Rightarrow> conflicts" where
  "buildConflictGraph layer rir =
     conflict_rows rir (surfaces_of rir) layer (fold (\<lambda>i c. gm_put i [] c) layer [])"

subsection \<open>Colouring\<close>

text \<open>The loop that looks for the first colour not used by a neighbour.\<close>

function first_free :: "nat list \<Rightarrow> nat \<Rightarrow> nat" where
  "first_free used c = (if c \<in> set used then first_free used (c + 1) else c)"
  by pat_completeness auto
termination
proof (relation "measure (\<lambda>(used, c). card {x \<in> set used. c \<le> x})")
  fix used and c :: nat
  define A B where "A = {x \<in> set used. c + 1 \<le> x}" and "B = {x \<in> set used. c \<le> x}"
  assume "c \<in> set used"
  then have "c \<in> B - A" and "A \<subseteq> B" by (simp_all add: A_def B_def) auto
  then have "A \<subset> B" by blast
  moreover have "finite B" by (simp add: B_def)
  ultimately have "card {x \<in> set used. c + 1 \<le> x} < card {x \<in> set used. c \<le> x}"
    unfolding A_def [symmetric] B_def [symmetric] by (simp add: psubset_card_mono)
  then show "((used, c + 1), used, c) \<in> measure (\<lambda>(used, c). card {x \<in> set used. c \<le> x})"
    unfolding in_measure prod.case .
qed (rule wf_measure)

declare first_free.simps [simp del]

type_synonym colors = "(string, nat) gomap"

definition used_colors :: "conflicts \<Rightarrow> colors \<Rightarrow> string \<Rightarrow> nat list" where
  "used_colors conf cols n =
     fold (\<lambda>neighbor used. case gm_get cols neighbor of None \<Rightarrow> used | Some c \<Rightarrow> List.insert c used)
       (slice_at conf n) []"

definition color_node :: "conflicts \<Rightarrow> string \<Rightarrow> colors \<Rightarrow> colors" where
  "color_node conf n cols = gm_put n (first_free (used_colors conf cols n) 0) cols"

definition color_of :: "colors \<Rightarrow> string \<Rightarrow> nat" where
  "color_of cols n = (case gm_get cols n of None \<Rightarrow> 0 | Some c \<Rightarrow> c)"

definition max_color :: "colors \<Rightarrow> nat" where
  "max_color cols = fold (\<lambda>(_, c) m. if c > m then c else m) cols 0"

definition put_in_wave :: "colors \<Rightarrow> string \<Rightarrow> string list list \<Rightarrow> string list list" where
  "put_in_wave cols n waves = waves[color_of cols n := waves ! color_of cols n @ [n]]"

definition colorGraph :: "string list \<Rightarrow> conflicts \<Rightarrow> string list list" where
  "colorGraph nodes conf =
     (let ns = sort nodes;
          cols = fold (color_node conf) ns [];
          waves = fold (put_in_wave cols) ns (replicate (max_color cols + 1) [])
      in map sort waves)"

definition layer_waves :: "RIR \<Rightarrow> string list \<Rightarrow> string list list" where
  "layer_waves rir layer =
     (if layer = [] then [] else colorGraph layer (buildConflictGraph layer rir))"

definition ComputeWaves :: "CEG \<Rightarrow> RIR \<Rightarrow> string list list list" where
  "ComputeWaves c rir = map (layer_waves rir) (ceg_Layers c)"

subsection \<open>Conflicts: specification\<close>

lemma collectSurfaces_set:
  "x \<in> set (collectSurfaces u rir) \<longleftrightarrow>
     (\<exists>iso \<in> set (rir_IsolationRegions rir). unit_ID u \<in> set (iso_Units iso) \<and> x \<in> set (iso_Units iso))"
proof -
  have f: "set (fold (\<lambda>iso surfaces. if Contains (iso_Units iso) i then surfaces @ iso_Units iso else surfaces) isos acc)
      = set acc \<union> {x. \<exists>iso \<in> set isos. i \<in> set (iso_Units iso) \<and> x \<in> set (iso_Units iso)}" for i isos acc
    by (induction isos arbitrary: acc) (auto simp: Contains_iff)
  show ?thesis by (simp add: collectSurfaces_def f)
qed

lemma overlaps_one_iff: "overlaps_one a bs \<longleftrightarrow> a \<in> set bs"
  by (induction bs) auto

lemma hasOverlap_iff: "hasOverlap as bs \<longleftrightarrow> set as \<inter> set bs \<noteq> {}"
  by (induction as) (auto simp: overlaps_one_iff)

lemma input_contracts_set:
  "k \<in> set (input_contracts i rir) \<longleftrightarrow>
     (\<exists>u \<in> set (rir_Units rir). unit_ID u = i \<and> k \<in> dfi_Contract ` set (df_Inputs (unit_DataFlow u)))"
proof -
  have inner: "set (fold (\<lambda>dfi cs. if b then List.insert (dfi_Contract dfi) cs else cs) ds acc)
      = set acc \<union> (if b then dfi_Contract ` set ds else {})" for b ds acc
    by (induction ds arbitrary: acc) auto
  have f: "set (fold (\<lambda>u cs. fold (\<lambda>dfi cs. if unit_ID u = i then List.insert (dfi_Contract dfi) cs else cs)
                   (df_Inputs (unit_DataFlow u)) cs) us acc)
      = set acc \<union> {k. \<exists>u \<in> set us. unit_ID u = i \<and> k \<in> dfi_Contract ` set (df_Inputs (unit_DataFlow u))}" for us acc
    by (induction us arbitrary: acc) (auto simp: inner)
  show ?thesis by (simp only: input_contracts_def f) simp
qed

lemma hasDataFlowConflict_iff:
  "hasDataFlowConflict a b rir \<longleftrightarrow> set (input_contracts a rir) \<inter> set (input_contracts b rir) \<noteq> {}"
  by (auto simp: hasDataFlowConflict_def list_ex_iff)

definition same_region :: "RIR \<Rightarrow> string \<Rightarrow> string \<Rightarrow> bool" where
  "same_region rir a b \<longleftrightarrow> (\<exists>iso \<in> set (rir_IsolationRegions rir). a \<in> set (iso_Units iso) \<and> b \<in> set (iso_Units iso))"

lemma surfaces_of_slice:
  assumes "i \<in> set (unit_ids rir)"
  shows "set (slice_at (surfaces_of rir) i) = {x. same_region rir i x}"
proof -
  have "gm_get (fold (\<lambda>u m. gm_put (unit_ID u) (collectSurfaces u rir) m) us m) i = Some ys \<Longrightarrow>
      gm_get m i \<noteq> Some ys \<Longrightarrow> \<exists>u. unit_ID u = i \<and> ys = collectSurfaces u rir" for us m ys
  proof (induction us arbitrary: m)
    case (Cons u us)
    show ?case
      by (cases "gm_get (gm_put (unit_ID u) (collectSurfaces u rir) m) i = Some ys")
         (use Cons in \<open>auto split: if_splits\<close>)
  qed simp
  moreover have "i \<in> set (gm_keys (surfaces_of rir))"
  proof -
    have "set (gm_keys (fold (\<lambda>u m. gm_put (unit_ID u) (collectSurfaces u rir) m) us m))
        = set (gm_keys m) \<union> unit_ID ` set us" for us m
      by (induction us arbitrary: m) auto
    with assms show ?thesis by (simp add: surfaces_of_def gm_keys_def)
  qed
  then obtain ys where ys: "gm_get (surfaces_of rir) i = Some ys" by (auto simp: set_gm_keys)
  ultimately obtain u where "unit_ID u = i" "ys = collectSurfaces u rir"
    unfolding surfaces_of_def by fastforce
  then have "set ys = {x. same_region rir i x}"
    using collectSurfaces_set [of _ u rir] by (auto simp: same_region_def)
  with ys show ?thesis by (simp add: slice_at_def)
qed

text \<open>Two nodes conflict when regions of both share a unit, or when they read a common contract.\<close>

definition conflicting :: "RIR \<Rightarrow> string \<Rightarrow> string \<Rightarrow> bool" where
  "conflicting rir a b \<longleftrightarrow>
     hasOverlap (slice_at (surfaces_of rir) a) (slice_at (surfaces_of rir) b) \<or> hasDataFlowConflict a b rir"

lemma conflicting_sym: "conflicting rir a b = conflicting rir b a"
  by (auto simp: conflicting_def hasOverlap_iff hasDataFlowConflict_iff)

subsection \<open>The conflict graph\<close>

abbreviation nbr :: "conflicts \<Rightarrow> string \<Rightarrow> string set" where
  "nbr c a \<equiv> set (slice_at c a)"

lemma slice_at_put [simp]: "slice_at (gm_put k v m) x = (if x = k then v else slice_at m x)"
  by (simp add: slice_at_def)

lemma nbr_add_conflict:
  "a \<noteq> b \<Longrightarrow> nbr (add_conflict a b c) x = nbr c x \<union> {y. (x = a \<and> y = b) \<or> (x = b \<and> y = a)}"
  by (auto simp: add_conflict_def Let_def)

lemma nbr_conflict_pair:
  "a \<noteq> b \<Longrightarrow> nbr (conflict_pair rir (surfaces_of rir) a b c) x =
     nbr c x \<union> {y. ((x = a \<and> y = b) \<or> (x = b \<and> y = a)) \<and> conflicting rir a b}"
  unfolding conflict_pair_def Let_def conflicting_def
  by (cases "hasOverlap (slice_at (surfaces_of rir) a) (slice_at (surfaces_of rir) b)";
      cases "hasDataFlowConflict a b rir") (auto simp: nbr_add_conflict)

lemma nbr_conflict_row:
  "a \<notin> set bs \<Longrightarrow> nbr (fold (conflict_pair rir (surfaces_of rir) a) bs c) x =
     nbr c x \<union> {y. ((x = a \<and> y \<in> set bs) \<or> (x \<in> set bs \<and> y = a)) \<and> conflicting rir x y}"
proof (induction bs arbitrary: c)
  case (Cons b bs)
  then have "a \<noteq> b" "a \<notin> set bs" by auto
  then show ?case
    using Cons.IH [of "conflict_pair rir (surfaces_of rir) a b c"] nbr_conflict_pair [of a b rir c x]
      conflicting_sym [of rir a b] by auto
qed simp

lemma nbr_conflict_rows:
  "distinct layer \<Longrightarrow> nbr (conflict_rows rir (surfaces_of rir) layer c) x =
     nbr c x \<union> {y. x \<in> set layer \<and> y \<in> set layer \<and> x \<noteq> y \<and> conflicting rir x y}"
proof (induction layer arbitrary: c)
  case (Cons a bs)
  then have a: "a \<notin> set bs" and d: "distinct bs" by auto
  show ?case
    using Cons.IH [OF d, of "fold (conflict_pair rir (surfaces_of rir) a) bs c"]
      nbr_conflict_row [OF a, of rir c x] a by auto
qed simp

lemma nbr_buildConflictGraph:
  assumes "distinct layer"
  shows "nbr (buildConflictGraph layer rir) x =
    {y. x \<in> set layer \<and> y \<in> set layer \<and> x \<noteq> y \<and> conflicting rir x y}"
proof -
  have f: "slice_at c x = [] \<Longrightarrow> slice_at (fold (\<lambda>i c. gm_put i [] c) xs c) x = []"
    for xs and c :: conflicts
    by (induction xs arbitrary: c) simp_all
  have "slice_at (fold (\<lambda>i c. gm_put i [] c) layer ([] :: conflicts)) x = []"
    by (rule f) (simp add: slice_at_def)
  then show ?thesis
    unfolding buildConflictGraph_def nbr_conflict_rows [OF assms] by simp
qed

subsection \<open>The colouring\<close>

lemma first_free_spec:
  "first_free used c \<notin> set used \<and> c \<le> first_free used c \<and> (\<forall>k. c \<le> k \<and> k < first_free used c \<longrightarrow> k \<in> set used)"
proof (induction used c rule: first_free.induct)
  case (1 used c)
  show ?case
  proof (cases "c \<in> set used")
    case True
    with 1 [OF True] show ?thesis
      by (simp add: first_free.simps [of used c]) (metis Suc_leI le_less)
  next
    case False
    then show ?thesis by (auto simp: first_free.simps [of used c])
  qed
qed

lemma first_free_cong: "set us = set vs \<Longrightarrow> first_free us 0 = first_free vs 0"
proof -
  assume "set us = set vs"
  with first_free_spec [of us 0] first_free_spec [of vs 0] show ?thesis
    by (metis le0 linorder_neqE_nat)
qed

lemma set_used_colors: "set (used_colors conf cols n) = {c. \<exists>m \<in> nbr conf n. gm_get cols m = Some c}"
proof -
  have f: "set (fold (\<lambda>neighbor used. case gm_get cols neighbor of None \<Rightarrow> used | Some c \<Rightarrow> List.insert c used) ms acc)
      = set acc \<union> {c. \<exists>m \<in> set ms. gm_get cols m = Some c}" for ms acc
    by (induction ms arbitrary: acc) (auto split: option.splits)
  show ?thesis by (simp only: used_colors_def f) simp
qed

lemma gm_get_color_node:
  "gm_get (color_node conf n cols) m = (if m = n then Some (first_free (used_colors conf cols n) 0) else gm_get cols m)"
  by (simp add: color_node_def)

definition colored :: "conflicts \<Rightarrow> string list \<Rightarrow> colors \<Rightarrow> bool" where
  "colored conf xs cols \<longleftrightarrow> (\<forall>n. gm_get cols n \<noteq> None \<longleftrightarrow> n \<in> set xs) \<and>
     (\<forall>n \<in> set xs. \<forall>m \<in> set xs. m \<noteq> n \<longrightarrow> m \<in> nbr conf n \<longrightarrow> n \<in> nbr conf m \<longrightarrow> color_of cols m \<noteq> color_of cols n) \<and>
     (\<forall>n \<in> set xs. \<forall>c < color_of cols n. \<exists>m \<in> set xs. color_of cols m = c \<and> m \<in> nbr conf n)"

lemma colored_reason:
  "colored conf xs cols \<Longrightarrow> n \<in> set xs \<Longrightarrow> c < color_of cols n \<Longrightarrow> \<exists>m \<in> set xs. color_of cols m = c \<and> m \<in> nbr conf n"
  unfolding colored_def by blast

lemma colored_snoc:
  assumes c: "colored conf xs cols" and new: "n \<notin> set xs"
  shows "colored conf (xs @ [n]) (color_node conf n cols)"
proof -
  let ?f = "first_free (used_colors conf cols n) 0"
  have dom: "\<And>m. gm_get cols m \<noteq> None \<longleftrightarrow> m \<in> set xs" using c unfolding colored_def by blast
  have col: "color_of (color_node conf n cols) m = (if m = n then ?f else color_of cols m)" for m
    by (simp add: color_of_def gm_get_color_node)
  have get: "gm_get cols m = Some (color_of cols m)" if "m \<in> set xs" for m
    using dom that by (auto simp: color_of_def split: option.splits)
  have "color_of cols m \<noteq> ?f" if "m \<in> set xs" "m \<in> nbr conf n" for m
    using get [OF that(1)] that(2) first_free_spec [of "used_colors conf cols n" 0]
    by (auto simp: set_used_colors)
  moreover have "\<exists>m \<in> set xs. color_of cols m = k \<and> m \<in> nbr conf n" if "k < ?f" for k
  proof -
    have "k \<in> set (used_colors conf cols n)" using that first_free_spec [of "used_colors conf cols n" 0] by simp
    then obtain m where "gm_get cols m = Some k" "m \<in> nbr conf n" by (auto simp: set_used_colors)
    with dom get show ?thesis by (metis option.discI option.inject)
  qed
  ultimately show ?thesis
    using c new unfolding colored_def col by (auto simp: gm_get_color_node) (metis)+
qed

lemma colored_fold: "distinct ns \<Longrightarrow> colored conf ns (fold (color_node conf) ns [])"
proof (induction ns rule: rev_induct)
  case Nil
  then show ?case by (simp add: colored_def)
next
  case (snoc n ns)
  then show ?case using colored_snoc [of conf ns "fold (color_node conf) ns []" n] by simp
qed

lemma max_color_spec:
  "(\<forall>(k, c) \<in> set cols. c \<le> max_color cols) \<and> (max_color cols = 0 \<or> max_color cols \<in> snd ` set cols)"
proof -
  have "(\<forall>(k, c) \<in> set cols. c \<le> fold (\<lambda>(_, c) m. if c > m then c else m) cols a) \<and>
      a \<le> fold (\<lambda>(_, c) m. if c > m then c else m) cols a \<and>
      (fold (\<lambda>(_, c) m. if c > m then c else m) cols a = a \<or>
       fold (\<lambda>(_, c) m. if c > m then c else m) cols a \<in> snd ` set cols)" for a and cols :: colors
  proof (induction cols arbitrary: a)
    case (Cons p ps)
    obtain k c where p: "p = (k, c)" by fastforce
    from Cons.IH [of "if c > a then c else a"] p show ?case by (auto split: if_splits)
  qed simp
  from this [of cols 0] show ?thesis by (simp add: max_color_def)
qed

subsection \<open>The waves of a layer\<close>

lemma fold_put_in_wave:
  assumes "\<forall>n \<in> set ns. color_of cols n < length ws" and "k < length ws"
  shows "fold (put_in_wave cols) ns ws ! k = ws ! k @ filter (\<lambda>n. color_of cols n = k) ns
    \<and> length (fold (put_in_wave cols) ns ws) = length ws"
  using assms
proof (induction ns arbitrary: ws)
  case (Cons n ns)
  have len: "length (put_in_wave cols n ws) = length ws" by (simp add: put_in_wave_def)
  from Cons.IH [of "put_in_wave cols n ws"] Cons.prems len show ?case
    by (simp add: put_in_wave_def nth_list_update)
qed simp

lemma sorted_sort_filter: "sorted (filter P (sort xs))" for xs :: "string list"
  using sorted_filter [of "\<lambda>x. x" "sort xs" P] by simp

lemma colorGraph_nth:
  fixes ns :: "string list" and conf :: conflicts
  assumes d: "distinct ns"
  defines "cols \<equiv> fold (color_node conf) (sort ns) []"
  shows "length (colorGraph ns conf) = Suc (max_color cols)"
    and "\<And>k. k \<le> max_color cols \<Longrightarrow> colorGraph ns conf ! k = filter (\<lambda>n. color_of cols n = k) (sort ns)"
    and "\<And>n. n \<in> set ns \<Longrightarrow> color_of cols n \<le> max_color cols"
    and "colored conf (sort ns) cols"
proof -
  have c: "colored conf (sort ns) cols" unfolding cols_def using d by (intro colored_fold) simp
  then show "colored conf (sort ns) cols" .
  show le: "color_of cols n \<le> max_color cols" if "n \<in> set ns" for n
  proof -
    have "gm_get cols n \<noteq> None" using c that unfolding colored_def by simp
    then obtain k where k: "gm_get cols n = Some k" by blast
    then have "(n, k) \<in> set cols" unfolding gm_get_def by (rule map_of_SomeD)
    with max_color_spec [of cols] k show ?thesis by (auto simp: color_of_def)
  qed
  have lt: "\<forall>n \<in> set (sort ns). color_of cols n < length (replicate (max_color cols + 1) ([] :: string list))"
    using le by (simp add: le_imp_less_Suc)
  have all: "colorGraph ns conf = map sort (fold (put_in_wave cols) (sort ns) (replicate (max_color cols + 1) []))"
    by (simp add: colorGraph_def cols_def Let_def)
  show len: "length (colorGraph ns conf) = Suc (max_color cols)"
    using fold_put_in_wave [OF lt, of 0] by (simp add: all)
  show "colorGraph ns conf ! k = filter (\<lambda>n. color_of cols n = k) (sort ns)" if "k \<le> max_color cols" for k
  proof -
    have "replicate (max_color cols + 1) ([] :: string list) ! k = []" using that by (intro nth_replicate) simp
    with fold_put_in_wave [OF lt, of k] that show ?thesis
      by (simp add: all sort_sorted_eq sorted_sort_filter le_imp_less_Suc del: replicate.simps)
  qed
qed

lemma wave_members:
  assumes "distinct ns" and "k < length (colorGraph ns conf)"
  shows "set (colorGraph ns conf ! k) = {n \<in> set ns. color_of (fold (color_node conf) (sort ns) []) n = k}"
    and "sorted (colorGraph ns conf ! k)" and "distinct (colorGraph ns conf ! k)"
  using colorGraph_nth [OF assms(1), where conf = conf] assms by (auto simp: sorted_sort_filter)

lemma distinct_concat_nth:
  "\<forall>i < length xs. \<forall>j < length xs. i \<noteq> j \<longrightarrow> set (xs ! i) \<inter> set (xs ! j) = {} \<Longrightarrow>
     \<forall>i < length xs. distinct (xs ! i) \<Longrightarrow> distinct (concat xs)"
proof (induction xs)
  case (Cons a xs)
  have "set a \<inter> set x = {}" if "x \<in> set xs" for x
    using that Cons.prems(1) by (fastforce simp: in_set_conv_nth)
  moreover have "distinct (concat xs)"
    using Cons.prems by (intro Cons.IH) (metis Suc_less_eq length_Cons nth_Cons_Suc old.nat.inject)+
  moreover have "distinct a" using Cons.prems(2) by (metis length_greater_0_conv list.discI nth_Cons_0)
  ultimately show ?case by auto
qed simp

lemma colorGraph_covers:
  assumes d: "distinct ns"
  shows "distinct (concat (colorGraph ns conf))" and "set (concat (colorGraph ns conf)) = set ns"
proof -
  let ?col = "color_of (fold (color_node conf) (sort ns) [])"
  let ?W = "colorGraph ns conf"
  note w = wave_members [OF d, where conf = conf]
  show "set (concat ?W) = set ns"
  proof
    show "set (concat ?W) \<subseteq> set ns" using w(1) by (fastforce simp: in_set_conv_nth [of _ ?W])
    show "set ns \<subseteq> set (concat ?W)"
    proof
      fix n assume n: "n \<in> set ns"
      then have k: "?col n < length ?W"
        using colorGraph_nth(1,3) [OF d, where conf = conf] by (simp add: le_imp_less_Suc)
      with w(1) n have "n \<in> set (?W ! ?col n)" by blast
      with k show "n \<in> set (concat ?W)" by (metis UN_I nth_mem set_concat)
    qed
  qed
  have "\<forall>i < length ?W. \<forall>j < length ?W. i \<noteq> j \<longrightarrow> set (?W ! i) \<inter> set (?W ! j) = {}"
    using w(1) by auto
  moreover have "\<forall>i < length ?W. distinct (?W ! i)" using w(3) by blast
  ultimately show "distinct (concat ?W)" by (rule distinct_concat_nth)
qed

text \<open>Greedy colouring leaves no colour out, so no wave of a non-empty layer is empty.\<close>

lemma colorGraph_nonempty:
  assumes d: "distinct ns" and ne: "ns \<noteq> []" and w: "w \<in> set (colorGraph ns conf)"
  shows "w \<noteq> []"
proof -
  let ?cols = "fold (color_node conf) (sort ns) []"
  obtain k where k: "k < length (colorGraph ns conf)" "w = colorGraph ns conf ! k"
    using w by (auto simp: in_set_conv_nth)
  note g = colorGraph_nth [OF d, where conf = conf]
  have dom: "\<And>n. gm_get ?cols n \<noteq> None \<longleftrightarrow> n \<in> set ns" using g(4) by (simp add: colored_def)
  obtain n where n: "n \<in> set ns" "max_color ?cols = 0 \<or> color_of ?cols n = max_color ?cols"
  proof (cases "max_color ?cols = 0")
    case True
    with ne that show thesis by (metis last_in_set)
  next
    case False
    with max_color_spec [of ?cols] obtain m where "(m, max_color ?cols) \<in> set ?cols" by auto
    moreover have "gm_wf ?cols"
      by (rule fold_invariant) (simp_all add: color_node_def)
    ultimately have "gm_get ?cols m = Some (max_color ?cols)" using gm_wf_mem_get by metis
    with dom [of m] that show thesis by (simp add: color_of_def)
  qed
  have "\<exists>m \<in> set ns. color_of ?cols m = k"
  proof (cases "color_of ?cols n = k")
    case True
    with n show ?thesis by blast
  next
    case False
    with n k g(1) g(3) [OF n(1)] have "k < color_of ?cols n" by auto
    with colored_reason [OF g(4)] n(1) show ?thesis by auto
  qed
  then show ?thesis using wave_members(1) [OF d k(1)] k(2) by auto
qed

lemma wave_no_conflict:
  assumes d: "distinct layer" and "w \<in> set (colorGraph layer (buildConflictGraph layer rir))"
    and "a \<in> set w" "b \<in> set w" "a \<noteq> b"
  shows "\<not> conflicting rir a b"
proof
  assume c: "conflicting rir a b"
  let ?conf = "buildConflictGraph layer rir"
  obtain k where "k < length (colorGraph layer ?conf)" "w = colorGraph layer ?conf ! k"
    using assms(2) by (auto simp: in_set_conv_nth)
  with wave_members(1) [OF d] assms(3,4)
  have ab: "a \<in> set layer" "b \<in> set layer"
    "color_of (fold (color_node ?conf) (sort layer) []) a = color_of (fold (color_node ?conf) (sort layer) []) b"
    by auto
  have "b \<in> nbr ?conf a" "a \<in> nbr ?conf b"
    using nbr_buildConflictGraph [OF d, of rir] ab assms(5) c conflicting_sym [of rir a b] by auto
  with colorGraph_nth(4) [OF d, where conf = ?conf] ab assms(5) show False
    unfolding colored_def by auto
qed

lemma wave_reason:
  assumes d: "distinct layer" and k: "k < length (colorGraph layer (buildConflictGraph layer rir))" and l: "l < k"
    and i: "i \<in> set (colorGraph layer (buildConflictGraph layer rir) ! k)"
  shows "\<exists>j \<in> set (colorGraph layer (buildConflictGraph layer rir) ! l). conflicting rir i j"
proof -
  let ?conf = "buildConflictGraph layer rir"
  let ?cols = "fold (color_node ?conf) (sort layer) []"
  have i': "i \<in> set layer" "color_of ?cols i = k" using wave_members(1) [OF d k] i by auto
  obtain m where m: "m \<in> set layer" "color_of ?cols m = l" "m \<in> nbr ?conf i"
    using colored_reason [OF colorGraph_nth(4) [OF d, where conf = ?conf], of i l] i' l by auto
  have "m \<in> set (colorGraph layer ?conf ! l)" using wave_members(1) [OF d, of l ?conf] k l m by auto
  moreover have "conflicting rir i m" using m(3) nbr_buildConflictGraph [OF d, of rir i] by simp
  ultimately show ?thesis by blast
qed

lemma layer_waves_reason:
  "distinct layer \<Longrightarrow> k < length (layer_waves rir layer) \<Longrightarrow> l < k \<Longrightarrow> i \<in> set (layer_waves rir layer ! k) \<Longrightarrow>
    \<exists>j \<in> set (layer_waves rir layer ! l). conflicting rir i j"
  using wave_reason [of layer k rir l i] by (auto simp: layer_waves_def split: if_splits)

text \<open>The colouring depends on the set of nodes and on the neighbourhoods only.\<close>

lemma colorGraph_cong:
  assumes "mset ns = mset ms" and "\<And>n. nbr conf n = nbr conf' n"
  shows "colorGraph ns conf = colorGraph ms conf'"
proof -
  have "color_node conf n cols = color_node conf' n cols" for n cols
    using first_free_cong [of "used_colors conf cols n" "used_colors conf' cols n"] assms(2)
    by (simp add: color_node_def set_used_colors)
  then have "color_node conf = color_node conf'" by blast
  with sort_perm_eq [OF assms(1)] show ?thesis by (simp add: colorGraph_def)
qed

lemma layer_waves_cong:
  assumes "distinct ns" and "mset ns = mset ms"
    and "\<And>a b. a \<in> set ns \<Longrightarrow> b \<in> set ns \<Longrightarrow> conflicting r a b = conflicting r' a b"
  shows "layer_waves r ns = layer_waves r' ms"
proof -
  have "distinct ms" "set ns = set ms" using assms(1,2) distinct_perm set_perm by blast+
  then have "nbr (buildConflictGraph ns r) n = nbr (buildConflictGraph ms r') n" for n
    using nbr_buildConflictGraph [OF assms(1)] nbr_buildConflictGraph [of ms] assms(3) by auto
  with colorGraph_cong [OF assms(2)] assms(2) show ?thesis by (auto simp: layer_waves_def)
qed

lemma layer_waves_concat:
  assumes "distinct layer"
  shows "distinct (concat (layer_waves rir layer))" and "set (concat (layer_waves rir layer)) = set layer"
  using colorGraph_covers [OF assms] by (simp_all add: layer_waves_def)

lemma layer_wave_distinct: "distinct layer \<Longrightarrow> w \<in> set (layer_waves rir layer) \<Longrightarrow> distinct w"
  using wave_members(3) [where ns = layer and conf = "buildConflictGraph layer rir"]
  by (auto simp: layer_waves_def in_set_conv_nth split: if_splits)

subsection \<open>Conflicts in terms of the document\<close>

definition reads_contract :: "RIR \<Rightarrow> string \<Rightarrow> string \<Rightarrow> bool" where
  "reads_contract rir i k \<longleftrightarrow>
     (\<exists>u \<in> set (rir_Units rir). unit_ID u = i \<and> k \<in> dfi_Contract ` set (df_Inputs (unit_DataFlow u)))"

lemma conflicting_iff:
  assumes "a \<in> set (unit_ids r)" and "b \<in> set (unit_ids r)"
  shows "conflicting r a b \<longleftrightarrow>
    (\<exists>x. same_region r a x \<and> same_region r b x) \<or> (\<exists>k. reads_contract r a k \<and> reads_contract r b k)"
proof -
  have "set (input_contracts i r) = {k. reads_contract r i k}" for i
    unfolding reads_contract_def by (rule set_eqI) (simp only: input_contracts_set mem_Collect_eq)
  then have "hasDataFlowConflict a b r \<longleftrightarrow> (\<exists>k. reads_contract r a k \<and> reads_contract r b k)"
    unfolding hasDataFlowConflict_iff by auto
  then show ?thesis
    unfolding conflicting_def hasOverlap_iff surfaces_of_slice [OF assms(1)] surfaces_of_slice [OF assms(2)]
    by blast
qed

lemma built_layer:
  assumes "distinct (unit_ids r)" and "Build r = Inr c" and "layer \<in> set (ceg_Layers c)"
  shows "distinct layer" and "set layer \<subseteq> set (unit_ids r)" and "layer \<noteq> []"
proof -
  have c: "c = sorted_graph r" using assms(2) by (simp add: Build_Inr_iff)
  show "distinct layer" using sorted_graph_layers(1) [OF assms(1)] assms(3) c by (simp add: distinct_concat_iff)
  show "set layer \<subseteq> set (unit_ids r)"
  proof
    fix x assume "x \<in> set layer"
    with assms(3) c have "x \<in> set (concat (ceg_Layers (sorted_graph r)))" by auto
    with sorted_graph_layers(2) [OF assms(1)] show "x \<in> set (unit_ids r)" by (rule subsetD)
  qed
  obtain l where l: "l < length (ceg_Layers c)" "ceg_Layers c ! l = layer"
    using assms(3) unfolding in_set_conv_nth by metis
  with sorted_graph_layers(6) [OF assms(1), rule_format, of l] c show "layer \<noteq> []" by simp
qed

lemma layer_waves_layer_nonempty:
  "distinct layer \<Longrightarrow> w \<in> set (layer_waves rir layer) \<Longrightarrow> w \<noteq> []"
  using colorGraph_nonempty [of layer w] by (auto simp: layer_waves_def split: if_splits)

lemma layer_waves_no_conflict:
  "distinct layer \<Longrightarrow> w \<in> set (layer_waves rir layer) \<Longrightarrow> a \<in> set w \<Longrightarrow> b \<in> set w \<Longrightarrow> a \<noteq> b \<Longrightarrow>
     \<not> conflicting rir a b"
  using wave_no_conflict [of layer w rir a b] by (auto simp: layer_waves_def split: if_splits)

subsection \<open>Properties\<close>

text \<open>C5: the waves of a layer of a built graph are non-empty, disjoint and hold exactly the layer; no isolation
  region of one node of a wave shares a unit with a region of another, and no two nodes of a wave read a
  common data contract. Only the first wave of a layer needs no reason: a node of a later wave conflicts, in one
  of these two ways, with a node of every earlier wave. (The surfaces are the isolation regions: the
  documented \<open>side_effect_surface\<close> of a tool is not part of a document.)\<close>

theorem ComputeWaves_partition:
  assumes d: "distinct (unit_ids r)" and b: "Build r = Inr c" and k: "k < length (ceg_Layers c)"
  shows "distinct (concat (ComputeWaves c r ! k)) \<and>
    set (concat (ComputeWaves c r ! k)) = set (ceg_Layers c ! k) \<and>
    (\<forall>w \<in> set (ComputeWaves c r ! k). w \<noteq> [] \<and>
       (\<forall>i \<in> set w. \<forall>j \<in> set w. i \<noteq> j \<longrightarrow>
          (\<forall>p \<in> set (rir_IsolationRegions r). \<forall>q \<in> set (rir_IsolationRegions r).
             i \<in> set (iso_Units p) \<and> j \<in> set (iso_Units q) \<longrightarrow> set (iso_Units p) \<inter> set (iso_Units q) = {}) \<and>
          \<not> (\<exists>q. reads_contract r i q \<and> reads_contract r j q))) \<and>
    (\<forall>m < length (ComputeWaves c r ! k). \<forall>l < m. \<forall>i \<in> set (ComputeWaves c r ! k ! m). \<exists>j \<in> set (ComputeWaves c r ! k ! l).
       (\<exists>p \<in> set (rir_IsolationRegions r). \<exists>q \<in> set (rir_IsolationRegions r).
          i \<in> set (iso_Units p) \<and> j \<in> set (iso_Units q) \<and> set (iso_Units p) \<inter> set (iso_Units q) \<noteq> {}) \<or>
       (\<exists>q. reads_contract r i q \<and> reads_contract r j q))"
proof -
  let ?L = "ceg_Layers c ! k"
  have L: "distinct ?L" "set ?L \<subseteq> set (unit_ids r)" using built_layer [OF d b] k by simp_all
  have w: "ComputeWaves c r ! k = layer_waves r ?L" using k by (simp add: ComputeWaves_def)
  have ids: "i \<in> set (unit_ids r)" if "x \<in> set (layer_waves r ?L)" "i \<in> set x" for x i
    using that layer_waves_concat(2) [OF L(1), of r] L(2) by auto
  have regions: "(\<exists>x. same_region r i x \<and> same_region r j x) \<longleftrightarrow>
      (\<exists>p \<in> set (rir_IsolationRegions r). \<exists>q \<in> set (rir_IsolationRegions r).
        i \<in> set (iso_Units p) \<and> j \<in> set (iso_Units q) \<and> set (iso_Units p) \<inter> set (iso_Units q) \<noteq> {})" for i j
    unfolding same_region_def by blast
  note cf = conflicting_iff [of _ r, unfolded regions]
  show ?thesis
  proof (intro conjI ballI allI impI)
    fix x i j p q assume "x \<in> set (ComputeWaves c r ! k)" and ij: "i \<in> set x" "j \<in> set x" "i \<noteq> j"
    then have x: "x \<in> set (layer_waves r ?L)" unfolding w by blast
    note free = layer_waves_no_conflict [OF L(1) x ij, unfolded cf [OF ids [OF x ij(1)] ids [OF x ij(2)]]]
    show "\<not> (\<exists>q. reads_contract r i q \<and> reads_contract r j q)" using free by blast
    show "set (iso_Units p) \<inter> set (iso_Units q) = {}" if "p \<in> set (rir_IsolationRegions r)" "q \<in> set (rir_IsolationRegions r)"
      "i \<in> set (iso_Units p) \<and> j \<in> set (iso_Units q)" using free that by blast
  next
    fix m l i assume m: "m < length (ComputeWaves c r ! k)" "l < m" "i \<in> set (ComputeWaves c r ! k ! m)"
    then obtain j where j: "j \<in> set (layer_waves r ?L ! l)" "conflicting r i j"
      using layer_waves_reason [OF L(1), of m r l i] unfolding w by blast
    have "layer_waves r ?L ! m \<in> set (layer_waves r ?L)" "layer_waves r ?L ! l \<in> set (layer_waves r ?L)" using m unfolding w by simp_all
    note ij = ids [OF this(1) m(3) [unfolded w]] ids [OF this(2) j(1)]
    show "\<exists>j \<in> set (ComputeWaves c r ! k ! l).
       (\<exists>p \<in> set (rir_IsolationRegions r). \<exists>q \<in> set (rir_IsolationRegions r).
          i \<in> set (iso_Units p) \<and> j \<in> set (iso_Units q) \<and> set (iso_Units p) \<inter> set (iso_Units q) \<noteq> {}) \<or>
       (\<exists>q. reads_contract r i q \<and> reads_contract r j q)"
      using j(1) j(2) [unfolded cf [OF ij]] unfolding w by blast
  qed (use layer_waves_concat [OF L(1)] layer_waves_layer_nonempty [OF L(1)] w in simp_all)
qed

theorem ComputeWaves_partition_witness:
  "distinct (concat (ComputeWaves (sorted_graph diamond) diamond ! 1)) \<and>
   ComputeWaves (sorted_graph diamond) diamond ! 1 = [[''b''], [''c'']]"
proof
  show "distinct (concat (ComputeWaves (sorted_graph diamond) diamond ! 1))"
    using ComputeWaves_partition [OF diamond_distinct diamond_builds, of 1] diamond_layers by simp
  show "ComputeWaves (sorted_graph diamond) diamond ! 1 = [[''b''], [''c'']]" by code_simp
qed

text \<open>C6: the waves of a layer depend neither on the order in which the layer lists its nodes nor on the
  order of the units and isolation regions in the document.\<close>

theorem layer_waves_deterministic:
  assumes "distinct (unit_ids r)" and "mset (rir_Units r) = mset (rir_Units r')"
    and "mset (rir_IsolationRegions r) = mset (rir_IsolationRegions r')"
    and "distinct ns" and "mset ns = mset ms" and "set ns \<subseteq> set (unit_ids r)"
  shows "layer_waves r ns = layer_waves r' ms"
proof (rule layer_waves_cong [OF assms(4,5)])
  fix a b assume ab: "a \<in> set ns" "b \<in> set ns"
  have s: "set (rir_Units r) = set (rir_Units r')" "set (rir_IsolationRegions r) = set (rir_IsolationRegions r')"
    using assms(2,3) set_perm by blast+
  then have ids: "set (unit_ids r) = set (unit_ids r')" by simp
  have a: "a \<in> set (unit_ids r)" "b \<in> set (unit_ids r)" using ab assms(6) by blast+
  show "conflicting r a b = conflicting r' a b"
    unfolding conflicting_iff [OF a] conflicting_iff [OF a [unfolded ids]] same_region_def reads_contract_def s ..
qed

theorem layer_waves_deterministic_witness:
  "layer_waves diamond [''b'', ''c''] = layer_waves diamond [''c'', ''b'']"
proof (rule layer_waves_deterministic [OF diamond_distinct refl refl])
  show "set [''b'', ''c''] \<subseteq> set (unit_ids diamond)"
    by (simp add: diamond_def sample_rir_def sample_unit_def)
qed auto

end
