(* ===== verification/Mek_Commit.thy ===== *)
theory Mek_Commit
  imports Mek_Types
begin

text \<open>
  The commit engine, \<open>mek/internal/commit/engine.go\<close>: the sole writer of node state. Every
  operation of the engine runs under its mutex, so a run of the engine is a sequence of \<open>Commit\<close>
  calls. The event channel has capacity 1024 and is written without blocking: an event that finds
  it full is dropped.
\<close>

subsection \<open>State\<close>

record CommitEvent =
  ev_NodeID :: string
  ev_NewStatus :: NodeStatus
  ev_Outputs :: "(string, gval) gomap option"
  ev_Artifacts :: "string list option"

record Engine =
  eng_sm :: StatusMap
  eng_events :: "CommitEvent list"

datatype commit_error = DoubleCommit string NodeStatus NodeStatus
  | InvalidTransition string NodeStatus NodeStatus

definition events_capacity :: nat where
  "events_capacity = 1024"

definition commit_New :: "StatusMap \<Rightarrow> Engine" where
  "commit_New sm = \<lparr>eng_sm = sm, eng_events = []\<rparr>"

subsection \<open>Operations\<close>

definition valid_targets :: "NodeStatus \<Rightarrow> NodeStatus list" where
  "valid_targets from =
     (case from of
        StatusBlocked \<Rightarrow> [StatusReady, StatusSkipped, StatusTerminated]
      | StatusReady \<Rightarrow> [StatusRunning, StatusTerminated]
      | StatusRunning \<Rightarrow> [StatusSuccess, StatusFailure, StatusTerminated]
      | StatusSuccess \<Rightarrow> []
      | StatusFailure \<Rightarrow> []
      | StatusSkipped \<Rightarrow> []
      | StatusTerminated \<Rightarrow> []
      | StatusOther _ \<Rightarrow> [])"

definition isValidTransition :: "NodeStatus \<Rightarrow> NodeStatus \<Rightarrow> bool" where
  "isValidTransition from to = Contains (valid_targets from) to"

definition publish :: "Engine \<Rightarrow> string \<Rightarrow> NodeStatus \<Rightarrow> ExecutionResult option \<Rightarrow> Engine" where
  "publish e nodeID status result =
     (let event = (case result of
                     None \<Rightarrow> \<lparr>ev_NodeID = nodeID, ev_NewStatus = status,
                              ev_Outputs = None, ev_Artifacts = None\<rparr>
                   | Some r \<Rightarrow> \<lparr>ev_NodeID = nodeID, ev_NewStatus = status,
                                ev_Outputs = er_Outputs r, ev_Artifacts = er_Artifacts r\<rparr>)
      in if length (eng_events e) < events_capacity
         then e\<lparr>eng_events := eng_events e @ [event]\<rparr>
         else e)"

definition keep_unless_nil :: "'a option \<Rightarrow> 'a option \<Rightarrow> 'a option" where
  "keep_unless_nil new old = (case new of None \<Rightarrow> old | Some _ \<Rightarrow> new)"

definition Commit ::
  "Engine \<Rightarrow> string \<Rightarrow> NodeStatus \<Rightarrow> ExecutionResult option \<Rightarrow> commit_error + Engine" where
  "Commit e nodeID newStatus result =
     (case sm_GetState (eng_sm e) nodeID of
        None \<Rightarrow>
          (let sm1 = sm_Init (eng_sm e) nodeID newStatus;
               sm2 = (case result of
                        None \<Rightarrow> sm1
                      | Some r \<Rightarrow>
                          (case sm_GetState sm1 nodeID of
                             None \<Rightarrow> sm1
                           | Some s \<Rightarrow> sm_SetState sm1 nodeID
                               (s\<lparr>ns_Outputs := er_Outputs r, ns_Artifacts := er_Artifacts r\<rparr>)))
           in Inr (publish (e\<lparr>eng_sm := sm2\<rparr>) nodeID newStatus result))
      | Some existing \<Rightarrow>
          if IsTerminal (ns_Status existing)
          then (if ns_Status existing = newStatus then Inr e
                else Inl (DoubleCommit nodeID (ns_Status existing) newStatus))
          else if \<not> isValidTransition (ns_Status existing) newStatus
          then Inl (InvalidTransition nodeID (ns_Status existing) newStatus)
          else
            (let s1 = existing\<lparr>ns_Status := newStatus\<rparr>;
                 s2 = (case result of
                         None \<Rightarrow> s1
                       | Some r \<Rightarrow>
                           s1\<lparr>ns_Outputs := keep_unless_nil (er_Outputs r) (ns_Outputs s1),
                              ns_Artifacts := keep_unless_nil (er_Artifacts r) (ns_Artifacts s1)\<rparr>)
             in Inr (publish (e\<lparr>eng_sm := sm_SetState (eng_sm e) nodeID s2\<rparr>) nodeID newStatus result)))"

text \<open>Most callers drop the error of \<open>Commit\<close>.\<close>

definition commit_drop ::
  "string \<Rightarrow> NodeStatus \<Rightarrow> ExecutionResult option \<Rightarrow> Engine \<Rightarrow> Engine" where
  "commit_drop nodeID newStatus result e = ignore_err e (Commit e nodeID newStatus result)"

subsection \<open>The status of a node under commits\<close>

text \<open>
  What a commit does to the status of its node, as functions of the status before, for the proofs about callers
  of the engine. The specification of the engine is the log below.
\<close>

definition next_status :: "NodeStatus option \<Rightarrow> NodeStatus \<Rightarrow> NodeStatus" where
  "next_status old new =
     (case old of None \<Rightarrow> new
      | Some s \<Rightarrow> if \<not> IsTerminal s \<and> isValidTransition s new then new else s)"

definition accepts :: "NodeStatus option \<Rightarrow> NodeStatus \<Rightarrow> bool" where
  "accepts old new =
     (case old of None \<Rightarrow> True
      | Some s \<Rightarrow> if IsTerminal s then s = new else isValidTransition s new)"

abbreviation eng_get :: "Engine \<Rightarrow> string \<Rightarrow> NodeStatus option" where
  "eng_get e i \<equiv> sm_Get (eng_sm e) i"

lemma eng_sm_publish [simp]: "eng_sm (publish e i s r) = eng_sm e"
  by (simp add: publish_def Let_def)

lemma publish_events_le:
  "length (eng_events e) \<le> events_capacity \<Longrightarrow> length (eng_events (publish e i s r)) \<le> events_capacity"
  by (simp add: publish_def Let_def)

lemma isValidTransition_iff:
  "isValidTransition s t \<longleftrightarrow>
     (s = StatusBlocked \<and> t \<in> {StatusReady, StatusSkipped, StatusTerminated}) \<or>
     (s = StatusReady \<and> t \<in> {StatusRunning, StatusTerminated}) \<or>
     (s = StatusRunning \<and> t \<in> {StatusSuccess, StatusFailure, StatusTerminated})"
  by (cases s) (auto simp: isValidTransition_def valid_targets_def Contains_iff)

lemma isValidTransition_simps [simp]:
  "isValidTransition StatusBlocked t = (t \<in> {StatusReady, StatusSkipped, StatusTerminated})"
  "isValidTransition StatusReady t = (t \<in> {StatusRunning, StatusTerminated})"
  "isValidTransition StatusRunning t = (t \<in> {StatusSuccess, StatusFailure, StatusTerminated})"
  by (auto simp: isValidTransition_iff)

lemma isValidTransition_terminal: "IsTerminal s \<Longrightarrow> \<not> isValidTransition s t"
  by (auto simp: isValidTransition_iff)

lemma Commit_Inr_get:
  "Commit e i new r = Inr e' \<Longrightarrow>
     eng_get e' j = (if j = i then Some (next_status (eng_get e i) new) else eng_get e j)"
  by (auto simp: Commit_def Let_def sm_Get_GetState sm_GetState_Init sm_GetState_SetState
        next_status_def split: option.splits if_splits simp del: IsTerminal.simps)

lemma Commit_Inl_accepts: "(\<exists>err. Commit e i new r = Inl err) \<longleftrightarrow> \<not> accepts (eng_get e i) new"
  by (auto simp: Commit_def Let_def sm_Get_GetState accepts_def
        split: option.splits if_splits simp del: IsTerminal.simps)

lemma Commit_accepts_Inr: "accepts (eng_get e i) new \<Longrightarrow> \<exists>e'. Commit e i new r = Inr e'"
  by (metis Commit_Inl_accepts sum.exhaust)

lemma not_accepts_next: "\<not> accepts (Some s) new \<Longrightarrow> next_status (Some s) new = s"
  by (auto simp: accepts_def next_status_def simp del: IsTerminal.simps split: if_splits)

text \<open>The engine's commit, seen through \<open>eng_get\<close>, is \<open>next_status\<close> at one key.\<close>

lemma commit_drop_get:
  "eng_get (commit_drop i new r e) j = (if j = i then Some (next_status (eng_get e i) new) else eng_get e j)"
proof (cases "Commit e i new r")
  case (Inr e')
  then show ?thesis by (simp add: commit_drop_def Commit_Inr_get)
next
  case (Inl err)
  then have na: "\<not> accepts (eng_get e i) new" by (metis Commit_Inl_accepts)
  then obtain s where "eng_get e i = Some s"
    by (cases "eng_get e i") (simp_all add: accepts_def)
  with na Inl show ?thesis by (simp add: commit_drop_def not_accepts_next)
qed

lemma commit_drop_get_same [simp]: "eng_get (commit_drop i new r e) i = Some (next_status (eng_get e i) new)"
  by (simp add: commit_drop_get)

lemma commit_drop_get_other [simp]: "j \<noteq> i \<Longrightarrow> eng_get (commit_drop i new r e) j = eng_get e j"
  by (simp add: commit_drop_get)

lemma gm_keys_Commit:
  "Commit e i new r = Inr e' \<Longrightarrow>
     gm_keys (eng_sm e') = (if i \<in> set (gm_keys (eng_sm e)) then gm_keys (eng_sm e) else gm_keys (eng_sm e) @ [i])"
  using gm_get_None_iff [of "eng_sm e" i]
  by (auto simp: Commit_def Let_def sm_Init_def sm_SetState_def sm_GetState_def
        split: option.splits if_splits simp del: IsTerminal.simps)

lemma gm_wf_Commit: "Commit e i new r = Inr e' \<Longrightarrow> gm_wf (eng_sm e) \<Longrightarrow> gm_wf (eng_sm e')"
  by (auto simp: gm_wf_def gm_keys_Commit)

lemma gm_wf_commit_drop [simp]: "gm_wf (eng_sm e) \<Longrightarrow> gm_wf (eng_sm (commit_drop i new r e))"
  by (cases "Commit e i new r") (auto simp: commit_drop_def intro: gm_wf_Commit)

lemma next_status_simps [simp]:
  "next_status None new = new"
  "next_status (Some StatusBlocked) new =
     (if new \<in> {StatusReady, StatusSkipped, StatusTerminated} then new else StatusBlocked)"
  "next_status (Some StatusReady) new =
     (if new \<in> {StatusRunning, StatusTerminated} then new else StatusReady)"
  "next_status (Some StatusRunning) new =
     (if new \<in> {StatusSuccess, StatusFailure, StatusTerminated} then new else StatusRunning)"
  by (simp_all add: next_status_def)

lemma next_status_terminal [simp]: "IsTerminal s \<Longrightarrow> next_status (Some s) new = s"
  by (simp add: next_status_def)

lemma next_status_cases:
  "next_status (Some s) new = s \<or> (next_status (Some s) new = new \<and> isValidTransition s new)"
  by (simp add: next_status_def)

subsection \<open>Runs of the engine\<close>

text \<open>
  One step of a node's life cycle: the states a node goes through, from the specification of the
  state machine. \<open>reach_status\<close> is its reflexive and transitive closure as an inductive relation.
\<close>

inductive status_step :: "NodeStatus \<Rightarrow> NodeStatus \<Rightarrow> bool" where
  become_ready: "status_step StatusBlocked StatusReady"
| skip: "status_step StatusBlocked StatusSkipped"
| terminate_blocked: "status_step StatusBlocked StatusTerminated"
| claim: "status_step StatusReady StatusRunning"
| terminate_ready: "status_step StatusReady StatusTerminated"
| succeed: "status_step StatusRunning StatusSuccess"
| fail: "status_step StatusRunning StatusFailure"
| terminate_running: "status_step StatusRunning StatusTerminated"

inductive_cases status_stepE: "status_step s t"
inductive_simps status_step_from_blocked: "status_step StatusBlocked t"
inductive_simps status_step_from_ready: "status_step StatusReady t"
inductive_simps status_step_from_running: "status_step StatusRunning t"

lemmas status_step_from = status_step_from_blocked status_step_from_ready status_step_from_running

lemma status_step_iff: "status_step s t \<longleftrightarrow> isValidTransition s t"
proof
  assume "status_step s t"
  then show "isValidTransition s t" by cases simp_all
next
  assume "isValidTransition s t"
  then show "status_step s t"
    by (auto simp: isValidTransition_iff intro: status_step.intros)
qed

definition status_rank :: "NodeStatus \<Rightarrow> nat" where
  "status_rank s = (case s of StatusBlocked \<Rightarrow> 0 | StatusReady \<Rightarrow> 1 | StatusRunning \<Rightarrow> 2 | _ \<Rightarrow> 3)"

lemma status_step_rank: "status_step s t \<Longrightarrow> status_rank s < status_rank t"
  by (erule status_step.cases) (simp_all add: status_rank_def)

type_synonym request = "string \<times> NodeStatus \<times> ExecutionResult option"

fun run_commits :: "Engine \<Rightarrow> request list \<Rightarrow> Engine" where
  "run_commits e [] = e"
| "run_commits e ((i, s, r) # rs) = run_commits (commit_drop i s r e) rs"

lemma commit_drop_reaches:
  assumes "eng_get e i = Some s"
  shows "\<exists>t. eng_get (commit_drop j new r e) i = Some t \<and> status_step\<^sup>*\<^sup>* s t"
  using assms next_status_cases [of s new]
  by (cases "i = j") (auto simp: status_step_iff intro: r_into_rtranclp)

lemma run_commits_reaches:
  "eng_get e i = Some s \<Longrightarrow> \<exists>t. eng_get (run_commits e rs) i = Some t \<and> status_step\<^sup>*\<^sup>* s t"
proof (induction e rs arbitrary: s rule: run_commits.induct)
  case (1 e)
  then show ?case by auto
next
  case (2 e j n r rs)
  from commit_drop_reaches [OF "2.prems"] obtain u
    where u: "eng_get (commit_drop j n r e) i = Some u" "status_step\<^sup>*\<^sup>* s u"
    by blast
  from "2.IH" [OF u(1)] u(2) show ?case
    by (auto intro: rtranclp_trans)
qed

lemma status_reach_terminal: "status_step\<^sup>*\<^sup>* s t \<Longrightarrow> IsTerminal s \<Longrightarrow> t = s"
  by (induction rule: rtranclp_induct) (auto simp: status_step_iff isValidTransition_terminal)

lemma status_reach_rank: "status_step\<^sup>*\<^sup>* s t \<Longrightarrow> s = t \<or> status_rank s < status_rank t"
  by (induction rule: rtranclp_induct) (auto dest: status_step_rank)

lemma gm_wf_run_commits: "gm_wf (eng_sm e) \<Longrightarrow> gm_wf (eng_sm (run_commits e rs))"
  by (induction e rs rule: run_commits.induct) simp_all

lemma publish_events_Commit:
  "Commit e i new r = Inr e' \<Longrightarrow> length (eng_events e) \<le> events_capacity \<Longrightarrow>
     length (eng_events e') \<le> events_capacity"
  by (auto simp: Commit_def Let_def intro!: publish_events_le
        split: option.splits if_splits simp del: IsTerminal.simps)

lemma commit_drop_events:
  "length (eng_events e) \<le> events_capacity \<Longrightarrow> length (eng_events (commit_drop i s r e)) \<le> events_capacity"
  by (cases "Commit e i s r") (auto simp: commit_drop_def intro: publish_events_Commit)

text \<open>Two commits on different nodes commute, up to the order of keys and events.\<close>

lemma commit_drop_swap:
  "i \<noteq> j \<Longrightarrow> eng_get (commit_drop i s r (commit_drop j t q e)) k = eng_get (commit_drop j t q (commit_drop i s r e)) k"
  by (simp add: commit_drop_get)

text \<open>A commit on a terminal node leaves the whole engine as it was, and a commit on another node leaves
  the state of this one.\<close>

lemma Commit_terminal:
  "sm_GetState (eng_sm e) i = Some st \<Longrightarrow> IsTerminal (ns_Status st) \<Longrightarrow> commit_drop i new r e = e"
  by (simp add: commit_drop_def Commit_def del: IsTerminal.simps)

lemma commit_drop_state_other:
  "j \<noteq> i \<Longrightarrow> sm_GetState (eng_sm (commit_drop i new r e)) j = sm_GetState (eng_sm e) j"
  by (auto simp: commit_drop_def Commit_def Let_def sm_GetState_Init sm_GetState_SetState ignore_err_def
        split: option.splits if_splits sum.splits simp del: IsTerminal.simps)

subsection \<open>Properties\<close>

text \<open>
  The specification is the log of the commits that took effect, from which everything else is computed: the
  state of a node from the commits on it (the last status, the last outputs and artifacts that were given),
  the events from the log, and the answer to a request from the status the log gives the node and the life
  cycle \<open>status_step\<close>.
\<close>

fun last_given :: "'a option \<Rightarrow> 'a option list \<Rightarrow> 'a option" where
  "last_given x [] = x"
| "last_given x (y # ys) = last_given (if y = None then x else y) ys"

definition own :: "request list \<Rightarrow> string \<Rightarrow> (NodeStatus \<times> ExecutionResult option) list" where
  "own log i = map snd (filter (\<lambda>q. fst q = i) log)"

definition logged_state :: "request list \<Rightarrow> string \<Rightarrow> NodeState option" where
  "logged_state log i =
     (case own log i of
        [] \<Rightarrow> None
      | (s, r) # later \<Rightarrow> Some
          \<lparr>ns_Status = fst (last (own log i)),
           ns_Outputs = last_given (case r of None \<Rightarrow> Some [] | Some x \<Rightarrow> er_Outputs x)
             (map (\<lambda>(_, q). Option.bind q er_Outputs) later),
           ns_Artifacts = last_given None (map (\<lambda>(_, q). Option.bind q er_Artifacts) (own log i))\<rparr>)"

definition logged_event :: "request \<Rightarrow> CommitEvent" where
  "logged_event = (\<lambda>(i, s, r). \<lparr>ev_NodeID = i, ev_NewStatus = s,
     ev_Outputs = Option.bind r er_Outputs, ev_Artifacts = Option.bind r er_Artifacts\<rparr>)"

abbreviation ended_status :: "NodeStatus \<Rightarrow> bool" where
  "ended_status s \<equiv> s \<in> {StatusSuccess, StatusFailure, StatusSkipped, StatusTerminated}"

inductive log_step :: "request list \<Rightarrow> request \<Rightarrow> commit_error option \<Rightarrow> request list \<Rightarrow> bool" where
  first: "own log i = [] \<Longrightarrow> log_step log (i, s, r) None (log @ [(i, s, r)])"
| move: "own log i = qs @ [(t, q)] \<Longrightarrow> status_step t s \<Longrightarrow> log_step log (i, s, r) None (log @ [(i, s, r)])"
| repeat: "own log i = qs @ [(s, q)] \<Longrightarrow> ended_status s \<Longrightarrow> log_step log (i, s, r) None log"
| double: "own log i = qs @ [(t, q)] \<Longrightarrow> ended_status t \<Longrightarrow> t \<noteq> s \<Longrightarrow> log_step log (i, s, r) (Some (DoubleCommit i t s)) log"
| invalid: "own log i = qs @ [(t, q)] \<Longrightarrow> \<not> ended_status t \<Longrightarrow> \<not> status_step t s \<Longrightarrow>
    log_step log (i, s, r) (Some (InvalidTransition i t s)) log"

inductive log_steps :: "request list \<Rightarrow> request list \<Rightarrow> commit_error option list \<Rightarrow> request list \<Rightarrow> bool" where
  stop: "log_steps log [] [] log"
| more: "log_step log q a log' \<Longrightarrow> log_steps log' qs ans log'' \<Longrightarrow> log_steps log (q # qs) (a # ans) log''"

fun commit_answers :: "Engine \<Rightarrow> request list \<Rightarrow> commit_error option list" where
  "commit_answers e [] = []"
| "commit_answers e ((i, s, r) # qs) =
     (case Commit e i s r of Inl err \<Rightarrow> Some err | Inr _ \<Rightarrow> None) # commit_answers (commit_drop i s r e) qs"

definition logs :: "Engine \<Rightarrow> request list \<Rightarrow> bool" where
  "logs e log \<longleftrightarrow> (\<forall>i. sm_GetState (eng_sm e) i = logged_state log i) \<and>
     eng_events e = take events_capacity (map logged_event log)"

lemma own_snoc: "own (log @ [(j, s, r)]) i = own log i @ (if j = i then [(s, r)] else [])"
  by (simp add: own_def)

lemma last_given_snoc: "last_given x (ys @ [y]) = keep_unless_nil y (last_given x ys)"
  by (induction x ys rule: last_given.induct) (auto simp: keep_unless_nil_def split: option.splits)

lemma logged_state_other: "i \<noteq> j \<Longrightarrow> logged_state (log @ [(j, s, r)]) i = logged_state log i"
  by (cases "own log i") (simp_all add: logged_state_def own_snoc split: prod.split)

lemma logged_state_first:
  "own log i = [] \<Longrightarrow> logged_state (log @ [(i, s, r)]) i = Some
     \<lparr>ns_Status = s, ns_Outputs = (case r of None \<Rightarrow> Some [] | Some x \<Rightarrow> er_Outputs x), ns_Artifacts = Option.bind r er_Artifacts\<rparr>"
  by (simp add: logged_state_def own_snoc)

lemma logged_state_move:
  assumes "logged_state log i = Some st"
  shows "logged_state (log @ [(i, s, r)]) i = Some
     \<lparr>ns_Status = s, ns_Outputs = keep_unless_nil (Option.bind r er_Outputs) (ns_Outputs st),
      ns_Artifacts = keep_unless_nil (Option.bind r er_Artifacts) (ns_Artifacts st)\<rparr>"
proof -
  obtain t q qs where o: "own log i = (t, q) # qs" using assms by (cases "own log i") (auto simp: logged_state_def)
  show ?thesis
    using assms last_given_snoc [of _ "map (\<lambda>(_, q). Option.bind q er_Artifacts) (own log i)"]
    by (auto simp: logged_state_def own_snoc o last_given_snoc)
qed

lemma publish_logged:
  assumes "eng_events e = take events_capacity (map logged_event log)"
  shows "eng_events (publish (e\<lparr>eng_sm := sm\<rparr>) i s r) = take events_capacity (map logged_event (log @ [(i, s, r)]))"
proof -
  have "logged_event (i, s, r) = (case r of None \<Rightarrow> \<lparr>ev_NodeID = i, ev_NewStatus = s, ev_Outputs = None, ev_Artifacts = None\<rparr>
      | Some x \<Rightarrow> \<lparr>ev_NodeID = i, ev_NewStatus = s, ev_Outputs = er_Outputs x, ev_Artifacts = er_Artifacts x\<rparr>)"
    by (simp add: logged_event_def split: option.split)
  then show ?thesis using assms by (simp add: publish_def Let_def min_def)
qed

lemma logged_status:
  assumes "logged_state log i = Some st"
  obtains qs q where "own log i = qs @ [(ns_Status st, q)]"
proof -
  have "own log i \<noteq> []" and "ns_Status st = fst (last (own log i))"
    using assms by (auto simp: logged_state_def split: list.splits)
  then have "own log i = butlast (own log i) @ [(ns_Status st, snd (last (own log i)))]"
    by (metis append_butlast_last_id prod.collapse)
  then show ?thesis by (rule that)
qed

lemma IsTerminal_ended: "IsTerminal s \<longleftrightarrow> ended_status s"
  by (cases s) simp_all

lemma Commit_log_step:
  assumes "logs e log"
  shows "\<exists>log'. log_step log (i, s, r) (case Commit e i s r of Inl err \<Rightarrow> Some err | Inr _ \<Rightarrow> None) log' \<and>
    logs (commit_drop i s r e) log'"
proof -
  have st: "sm_GetState (eng_sm e) j = logged_state log j" for j using assms by (simp add: logs_def)
  have ev: "eng_events e = take events_capacity (map logged_event log)" using assms by (simp add: logs_def)
  show ?thesis
  proof (cases "logged_state log i")
    case None
    then have o: "own log i = []" by (auto simp: logged_state_def split: list.splits)
    have "\<exists>e'. Commit e i s r = Inr e' \<and> logs e' (log @ [(i, s, r)])"
      using None st publish_logged [OF ev] logged_state_first [OF o] logged_state_other [of _ i log s r]
      by (cases r) (auto simp: logs_def Commit_def Let_def sm_GetState_Init sm_GetState_SetState)
    then obtain e' where "Commit e i s r = Inr e'" "logs e' (log @ [(i, s, r)])" by blast
    then show ?thesis using log_step.first [OF o, of s r] by (auto simp: commit_drop_def)
  next
    case (Some old)
    obtain qs q where o: "own log i = qs @ [(ns_Status old, q)]" using logged_status [OF Some] .
    show ?thesis
    proof (cases "ended_status (ns_Status old) \<or> \<not> status_step (ns_Status old) s")
      case True
      then have "(case Commit e i s r of Inl err \<Rightarrow> Some err | Inr _ \<Rightarrow> None) =
          (if ended_status (ns_Status old) then if ns_Status old = s then None else Some (DoubleCommit i (ns_Status old) s)
           else Some (InvalidTransition i (ns_Status old) s))" and "commit_drop i s r e = e"
        using True Some st unfolding IsTerminal_ended [symmetric] status_step_iff
        by (cases "IsTerminal (ns_Status old)"; cases "ns_Status old = s"; simp add: Commit_def commit_drop_def del: IsTerminal.simps)+
      note ans = this
      show ?thesis
      proof (cases "ended_status (ns_Status old)")
        case ended: True
        show ?thesis
        proof (cases "ns_Status old = s")
          case True
          then show ?thesis using log_step.repeat [of log i qs s q r] o ended assms unfolding ans by auto
        next
          case False
          then show ?thesis using log_step.double [OF o ended, of s r] ended assms unfolding ans by auto
        qed
      next
        case False
        then show ?thesis using log_step.invalid [OF o False, of s r] True assms unfolding ans by auto
      qed
    next
      case False
      have "\<exists>e'. Commit e i s r = Inr e' \<and> logs e' (log @ [(i, s, r)])"
        using False Some st publish_logged [OF ev] logged_state_move [OF Some, of s r] logged_state_other [of _ i log s r]
        by (cases r; cases old) (auto simp: logs_def Commit_def Let_def sm_GetState_SetState IsTerminal_ended status_step_iff
            keep_unless_nil_def simp del: IsTerminal.simps split: option.splits)
      then obtain e' where "Commit e i s r = Inr e'" "logs e' (log @ [(i, s, r)])" by blast
      then show ?thesis using log_step.move [OF o, of s r] False by (auto simp: commit_drop_def)
    qed
  qed
qed

lemma log_steps_refine: "logs e log \<Longrightarrow> \<exists>log'. log_steps log qs (commit_answers e qs) log' \<and> logs (run_commits e qs) log'"
proof (induction qs arbitrary: e log)
  case (Cons p qs)
  obtain i s r where p: "p = (i, s, r)" by (cases p)
  obtain log1 where "log_step log p (case Commit e i s r of Inl err \<Rightarrow> Some err | Inr _ \<Rightarrow> None) log1" "logs (commit_drop i s r e) log1"
    using Commit_log_step [OF Cons.prems] p by blast
  moreover obtain log2 where "log_steps log1 qs (commit_answers (commit_drop i s r e) qs) log2" "logs (run_commits (commit_drop i s r e) qs) log2"
    using Cons.IH calculation(2) by blast
  ultimately show ?case using p by (auto intro: log_steps.more)
qed (auto intro: log_steps.stop)

lemma log_step_path:
  "log_step log q a log' \<Longrightarrow> successively status_step (map fst (own log i)) \<Longrightarrow> successively status_step (map fst (own log' i))"
  by (induction rule: log_step.induct) (auto simp: own_snoc successively_append_iff)

lemma log_steps_path:
  "log_steps log qs ans log' \<Longrightarrow> successively status_step (map fst (own log i)) \<Longrightarrow> successively status_step (map fst (own log' i))"
  by (induction rule: log_steps.induct) (auto dest: log_step_path)

text \<open>C8: the engine refines the log. Whatever is requested of a new engine, there is a log of requests such
  that every answer (success, double commit or invalid transition, with the statuses it names) is the one
  the log and the life cycle give; the state of every node, outputs and artifacts included, is the one
  computed from the log; the events are the log, up to the capacity of the channel; and the commits of
  a node in the log are a path of the life cycle.\<close>

theorem Commit_refines:
  "\<exists>log. log_steps [] qs (commit_answers (commit_New []) qs) log \<and>
    (\<forall>i. sm_GetState (eng_sm (run_commits (commit_New []) qs)) i = logged_state log i) \<and>
    eng_events (run_commits (commit_New []) qs) = take events_capacity (map logged_event log) \<and>
    (\<forall>i. successively status_step (map fst (own log i)))"
proof -
  have "logs (commit_New []) []"
    by (simp add: logs_def commit_New_def logged_state_def own_def sm_GetState_def)
  then obtain log where "log_steps [] qs (commit_answers (commit_New []) qs) log" "logs (run_commits (commit_New []) qs) log"
    using log_steps_refine by blast
  then show ?thesis using log_steps_path [of "[]" qs _ log] by (auto simp: logs_def own_def)
qed

text \<open>C7: under any sequence of commits a node only moves along the life cycle, and once its status is
  terminal its whole state (status, outputs, artifacts) is final.\<close>

theorem run_commits_lifecycle:
  assumes "sm_GetState (eng_sm e) i = Some st"
  shows "(\<exists>t. eng_get (run_commits e rs) i = Some t \<and> status_step\<^sup>*\<^sup>* (ns_Status st) t) \<and>
    (IsTerminal (ns_Status st) \<longrightarrow> sm_GetState (eng_sm (run_commits e rs)) i = Some st)"
proof
  show "\<exists>t. eng_get (run_commits e rs) i = Some t \<and> status_step\<^sup>*\<^sup>* (ns_Status st) t"
    using run_commits_reaches [of e i "ns_Status st" rs] assms by (simp add: sm_Get_GetState)
  show "IsTerminal (ns_Status st) \<longrightarrow> sm_GetState (eng_sm (run_commits e rs)) i = Some st"
  proof
    assume t: "IsTerminal (ns_Status st)"
    from assms show "sm_GetState (eng_sm (run_commits e rs)) i = Some st"
    proof (induction e rs rule: run_commits.induct)
      case (2 e j s r rs)
      have "sm_GetState (eng_sm (commit_drop j s r e)) i = Some st"
        using 2(2) Commit_terminal [OF 2(2) t] commit_drop_state_other [of i j s r e] by (cases "j = i") auto
      with "2.IH" show ?case by simp
    qed simp
  qed
qed

theorem run_commits_lifecycle_witness:
  "eng_get (run_commits (commit_New (sm_Init [] ''n'' StatusSuccess)) [(''n'', StatusFailure, None)]) ''n''
     = Some StatusSuccess"
proof -
  have "sm_GetState (eng_sm (commit_New (sm_Init [] ''n'' StatusSuccess))) ''n''
      = Some \<lparr>ns_Status = StatusSuccess, ns_Outputs = Some [], ns_Artifacts = None\<rparr>"
    by code_simp
  from run_commits_lifecycle [OF this, of "[(''n'', StatusFailure, None)]"]
  show ?thesis by (simp add: sm_Get_GetState)
qed

end
