(* ===== verification/Mek_Scheduler.thy ===== *)
theory Mek_Scheduler
  imports Mek_Waves Mek_Commit
begin

text \<open>
  The execution loop of the scheduler, \<open>mek/internal/scheduler/scheduler.go\<close>: the initial states, the
  recomputation of blocked nodes, the claim of a wave, the collection of its results and the wait for
  its end.

  The scheduler changes node states only through \<open>Commit\<close> and drops its errors, so its state is the
  commit engine (which holds the status map they share). The goroutines of a wave only call
  \<open>dispatch\<close>; the loop itself receives their results one at a time. What the environment decides is a
  \<open>wave_env\<close> per wave: the order in which the results of the claimed nodes arrive, the readings of the
  clock, whether the context is cancelled and which of two ready channels the \<open>select\<close> takes.

  The polling loop of \<open>WaitWave\<close> reads states that nobody changes while it waits: all results of the wave
  are in when it starts. So it returns at once, or it waits for its deadline or the context; without
  either it never returns, which is \<open>None\<close>.
\<close>

subsection \<open>Environment\<close>

record wave_env =
  we_arrival :: "string list \<Rightarrow> string list"
  we_clock :: "string \<Rightarrow> int"
  we_cancelled :: bool
  we_deadline_first :: bool

record run_env =
  re_wave :: "nat \<Rightarrow> nat \<Rightarrow> wave_env"
  re_parse :: "string \<Rightarrow> int option"
  re_dispatch :: "string \<Rightarrow> string + ExecutionResult"

subsection \<open>Initial states and recomputation\<close>

definition init_node :: "CEG \<Rightarrow> CEGNode \<Rightarrow> Engine \<Rightarrow> Engine" where
  "init_node c node e =
     (if ceg_InDegree c (node_ID node) = 0
      then if \<not> EvaluateActivation node (eng_sm e)
           then commit_drop (node_ID node) StatusSkipped None e
           else commit_drop (node_ID node) StatusReady None e
      else commit_drop (node_ID node) StatusBlocked None e)"

definition InitStatusMap :: "CEG \<Rightarrow> Engine \<Rightarrow> Engine" where
  "InitStatusMap c e = fold (init_node c) (ceg_Nodes c) e"

definition collectBlocked :: "StatusMap \<Rightarrow> string list" where
  "collectBlocked sm =
     fold (\<lambda>(i, state) blocked. if ns_Status state = StatusBlocked then blocked @ [i] else blocked)
       (sm_All sm) []"

definition recompute_node :: "CEG \<Rightarrow> string \<Rightarrow> Engine \<Rightarrow> Engine" where
  "recompute_node c nodeID e =
     (case ceg_node c nodeID of
        None \<Rightarrow> e
      | Some node \<Rightarrow>
          if EvaluateActivation node (eng_sm e) then commit_drop nodeID StatusReady None e
          else if ShouldSkip node (eng_sm e) then commit_drop nodeID StatusSkipped None e
          else e)"

definition Recompute :: "CEG \<Rightarrow> Engine \<Rightarrow> Engine" where
  "Recompute c e = fold (recompute_node c) (sort (collectBlocked (eng_sm e))) e"

subsection \<open>Claim\<close>

fun claim_nodes :: "string list \<Rightarrow> string list \<Rightarrow> Engine \<Rightarrow> (string \<times> commit_error + string list) \<times> Engine" where
  "claim_nodes [] ready e = (Inr ready, e)"
| "claim_nodes (nodeID # wave) ready e =
     (if sm_Get (eng_sm e) nodeID = Some StatusReady
      then (case Commit e nodeID StatusRunning None of
              Inl err \<Rightarrow> (Inl (nodeID, err), e)
            | Inr e' \<Rightarrow> claim_nodes wave (ready @ [nodeID]) e')
      else claim_nodes wave ready e)"

definition Claim :: "string list \<Rightarrow> Engine \<Rightarrow> (string \<times> commit_error + string list) \<times> Engine" where
  "Claim wave e = claim_nodes wave [] e"

subsection \<open>Termination and waiting\<close>

definition terminate_node :: "string \<Rightarrow> Engine \<Rightarrow> Engine" where
  "terminate_node i e =
     (case sm_Get (eng_sm e) i of
        None \<Rightarrow> e
      | Some status \<Rightarrow> if \<not> IsTerminal status then commit_drop i StatusTerminated None e else e)"

definition terminateAll :: "CEG \<Rightarrow> Engine \<Rightarrow> Engine" where
  "terminateAll c e = fold (\<lambda>node. terminate_node (node_ID node)) (ceg_Nodes c) e"

datatype wait_error = WaveDeadlineExpired | ContextDone

definition WaitWave :: "wave_env \<Rightarrow> string list \<Rightarrow> int \<Rightarrow> Engine \<Rightarrow> (wait_error option \<times> Engine) option" where
  "WaitWave env wave deadline e =
     (if deadline \<le> 0
      then if sm_AllTerminal (eng_sm e) wave then Some (None, e)
           else if we_cancelled env then Some (Some ContextDone, e)
           else None
      else if sm_AllTerminal (eng_sm e) wave then Some (None, e)
      else if we_cancelled env \<and> \<not> we_deadline_first env then Some (Some ContextDone, e)
      else Some (Some WaveDeadlineExpired, fold terminate_node wave e))"

subsection \<open>The main loop\<close>

definition wave_deadline :: "CEG \<Rightarrow> run_env \<Rightarrow> wave_env \<Rightarrow> string list \<Rightarrow> int" where
  "wave_deadline c env wenv wave =
     fold (\<lambda>nodeID waveDeadline.
       case ceg_node c nodeID of
         None \<Rightarrow> waveDeadline
       | Some node \<Rightarrow>
           if sched_Deadline (node_Scheduling node) = '''' then waveDeadline
           else let d = (case DeadlineDuration (re_parse env) (we_clock wenv nodeID)
                                (sched_Deadline (node_Scheduling node)) of Inl _ \<Rightarrow> 0 | Inr d \<Rightarrow> d)
                in if d > waveDeadline then d else waveDeadline) wave 0"

definition failure_result :: "string \<Rightarrow> ExecutionResult" where
  "failure_result err =
     \<lparr>er_Status = StatusFailure, er_Outputs = Some [(''error'', VStr err)], er_Artifacts = None,
      er_Escalation = False, er_SelectedBranch = '''', er_Metrics = \<lparr>em_DurationMs = 0, em_TokensUsed = None\<rparr>\<rparr>"

definition result_status :: "ExecutionResult \<Rightarrow> NodeStatus" where
  "result_status r = (if er_Escalation r then StatusTerminated else er_Status r)"

definition count_result :: "NodeStatus \<Rightarrow> MEKMetrics \<Rightarrow> MEKMetrics" where
  "count_result status m =
     (let m1 = m\<lparr>mm_NodesExecuted := mm_NodesExecuted m + 1\<rparr>
      in if status = StatusFailure then m1\<lparr>mm_NodesFailed := mm_NodesFailed m1 + 1\<rparr> else m1)"

text \<open>The loop over the results channel. The boolean says that a node escalated, which ends the run.\<close>

fun collect_results ::
  "CEG \<Rightarrow> run_env \<Rightarrow> string list \<Rightarrow> Engine \<Rightarrow> MEKMetrics \<Rightarrow> bool \<times> Engine \<times> MEKMetrics" where
  "collect_results c env [] e m = (False, e, m)"
| "collect_results c env (i # is) e m =
     (case re_dispatch env i of
        Inl err \<Rightarrow>
          collect_results c env is (commit_drop i StatusFailure (Some (failure_result err)) e)
            (m\<lparr>mm_NodesFailed := mm_NodesFailed m + 1\<rparr>)
      | Inr result \<Rightarrow>
          (let status = result_status result;
               e1 = commit_drop i status (Some result) e;
               m1 = count_result status m
           in if er_Escalation result
              then (True, terminateAll c e1, m1\<lparr>mm_EscalationRequested := True\<rparr>)
              else collect_results c env is e1 m1))"

datatype run_state = Running Engine MEKMetrics | Escalated Engine MEKMetrics
  | ClaimFailed string commit_error | Hanging

definition run_wave ::
  "CEG \<Rightarrow> run_env \<Rightarrow> wave_env \<Rightarrow> string list \<Rightarrow> Engine \<Rightarrow> MEKMetrics \<Rightarrow> run_state" where
  "run_wave c env wenv wave e m =
     (case Claim wave e of
        (Inl (i, err), _) \<Rightarrow> ClaimFailed i err
      | (Inr ready, e1) \<Rightarrow>
          if ready = [] then Running (Recompute c e1) m
          else
            (case collect_results c env (we_arrival wenv ready) e1 m of
               (True, e2, m2) \<Rightarrow> Escalated e2 m2
             | (False, e2, m2) \<Rightarrow>
                 (let m3 = m2\<lparr>mm_WavesCompleted := mm_WavesCompleted m2 + 1\<rparr>
                  in case WaitWave wenv wave (wave_deadline c env wenv wave) e2 of
                       None \<Rightarrow> Hanging
                     | Some (None, e3) \<Rightarrow> Running e3 m3
                     | Some (Some _, e3) \<Rightarrow> Running (fold terminate_node wave e3) m3)))"

fun run_waves ::
  "CEG \<Rightarrow> run_env \<Rightarrow> nat \<Rightarrow> nat \<Rightarrow> string list list \<Rightarrow> Engine \<Rightarrow> MEKMetrics \<Rightarrow> run_state" where
  "run_waves c env layerIdx waveIdx [] e m = Running e m"
| "run_waves c env layerIdx waveIdx (wave # waves) e m =
     (case run_wave c env (re_wave env layerIdx waveIdx) wave e m of
        Running e1 m1 \<Rightarrow> run_waves c env layerIdx (waveIdx + 1) waves e1 m1
      | other \<Rightarrow> other)"

fun run_layers ::
  "CEG \<Rightarrow> run_env \<Rightarrow> nat \<Rightarrow> string list list list \<Rightarrow> Engine \<Rightarrow> MEKMetrics \<Rightarrow> run_state" where
  "run_layers c env layerIdx [] e m = Running (Recompute c e) m"
| "run_layers c env layerIdx (waves # layers) e m =
     (if waves = [] then run_layers c env (layerIdx + 1) layers (Recompute c e) m
      else (case run_waves c env layerIdx 0 waves e m of
              Running e1 m1 \<Rightarrow> run_layers c env (layerIdx + 1) layers (Recompute c e1) m1
            | other \<Rightarrow> other))"

definition zero_metrics :: MEKMetrics where
  "zero_metrics = \<lparr>mm_TotalDurationMs = 0, mm_NodesExecuted = 0, mm_NodesFailed = 0,
                   mm_WavesCompleted = 0, mm_EscalationRequested = False\<rparr>"

text \<open>\<open>RunLoop\<close>: \<open>None\<close> when the loop never returns, else its error or its output, with the engine it
  leaves.\<close>

definition RunLoop ::
  "CEG \<Rightarrow> run_env \<Rightarrow> string list list list \<Rightarrow> Engine \<Rightarrow> ((string \<times> commit_error) + MEKOutput \<times> Engine) option" where
  "RunLoop c env waves e =
     (case run_layers c env 0 waves e zero_metrics of
        Running e1 m1 \<Rightarrow> Some (Inr (\<lparr>out_StatusMap = sm_All (eng_sm e1), out_Metrics = m1\<rparr>, e1))
      | Escalated e1 m1 \<Rightarrow> Some (Inr (\<lparr>out_StatusMap = sm_All (eng_sm e1), out_Metrics = m1\<rparr>, e1))
      | ClaimFailed i err \<Rightarrow> Some (Inl (i, err))
      | Hanging \<Rightarrow> None)"

end
