(* ===== verification/Mek_Run.thy ===== *)
theory Mek_Run
  imports Mek_Scheduler
begin

text \<open>
  What the execution loop guarantees. The lemmas look at the engine through the status of a node, so
  they first state the contract of an engine whose states only move along the life cycle (a locale,
  interpreted on the commit engine), then show of each operation of the scheduler which statuses it can
  change, and finally that a run only executes activated nodes and ends with every node terminal.
\<close>

subsection \<open>The contract of the commit engine\<close>

locale status_engine =
  fixes get :: "'e \<Rightarrow> string \<Rightarrow> NodeStatus option"
    and put :: "string \<Rightarrow> NodeStatus \<Rightarrow> ExecutionResult option \<Rightarrow> 'e \<Rightarrow> 'e"
  assumes get_put: "get (put i s r e) j = (if j = i then Some (next_status (get e i) s) else get e j)"
begin

definition evolves :: "'e \<Rightarrow> 'e \<Rightarrow> bool" where
  "evolves e e' \<longleftrightarrow> (\<forall>i s. get e i = Some s \<longrightarrow> (\<exists>t. get e' i = Some t \<and> (IsTerminal s \<longrightarrow> t = s)))"

lemma evolves_refl: "evolves e e"
  by (simp add: evolves_def)

lemma evolves_trans: "evolves a b \<Longrightarrow> evolves b c \<Longrightarrow> evolves a c"
  unfolding evolves_def by metis

lemma evolves_put: "evolves e (put i s r e)"
  unfolding evolves_def
proof (intro allI impI)
  fix j t assume j: "get e j = Some t"
  show "\<exists>u. get (put i s r e) j = Some u \<and> (IsTerminal t \<longrightarrow> u = t)"
    using j by (cases "j = i") (simp_all add: get_put del: IsTerminal.simps)
qed

lemma evolves_fold:
  assumes "\<And>x e. evolves e (f x e)"
  shows "evolves e (fold f xs e)"
  by (induction xs arbitrary: e) (auto intro: evolves_refl evolves_trans assms)

lemma evolves_terminal: "evolves e e' \<Longrightarrow> get e i = Some s \<Longrightarrow> IsTerminal s \<Longrightarrow> get e' i = Some s"
  unfolding evolves_def by metis

lemma evolves_present: "evolves e e' \<Longrightarrow> get e i \<noteq> None \<Longrightarrow> get e' i \<noteq> None"
  unfolding evolves_def by force

lemma get_put_other: "j \<noteq> i \<Longrightarrow> get (put i s r e) j = get e j"
  by (simp add: get_put)

lemma get_put_same: "get (put i s r e) i = Some (next_status (get e i) s)"
  by (simp add: get_put)

text \<open>Writes to distinct nodes commute.\<close>

lemma put_swap: "i \<noteq> j \<Longrightarrow> get (put i s r (put j t q e)) k = get (put j t q (put i s r e)) k"
  by (simp add: get_put)

end

interpretation ce: status_engine eng_get commit_drop
  by unfold_locales (rule commit_drop_get)

lemma settled_evolves: "ce.evolves e e' \<Longrightarrow> settled (eng_sm e) \<subseteq> settled (eng_sm e')"
  unfolding settled_def ce.evolves_def by fastforce

lemma succeeded_evolves: "ce.evolves e e' \<Longrightarrow> succeeded (eng_sm e) \<subseteq> succeeded (eng_sm e')"
  using ce.evolves_terminal [of e e' _ StatusSuccess] by (auto simp: succeeded_def)

lemma activation_evolves:
  "ce.evolves e e' \<Longrightarrow> EvaluateActivation n (eng_sm e) \<Longrightarrow> EvaluateActivation n (eng_sm e')"
  using EvaluateActivation_mono succeeded_evolves by blast

lemma settled_iff: "i \<in> settled (eng_sm e) \<longleftrightarrow> (\<exists>s. eng_get e i = Some s \<and> IsTerminal s)"
  by (simp add: settled_def del: IsTerminal.simps)

subsection \<open>The operations of the scheduler\<close>

lemma set_collectBlocked:
  assumes "gm_wf sm"
  shows "set (collectBlocked sm) = {i. sm_Get sm i = Some StatusBlocked}" and "distinct (collectBlocked sm)"
proof -
  have f: "fold (\<lambda>(i, state) blocked. if ns_Status state = StatusBlocked then blocked @ [i] else blocked) kvs acc
      = acc @ map fst (filter (\<lambda>(i, state). ns_Status state = StatusBlocked) kvs)" for kvs :: StatusMap and acc
    by (induction kvs arbitrary: acc) auto
  have c: "collectBlocked sm = map fst (filter (\<lambda>(i, state). ns_Status state = StatusBlocked) (sm_All sm))"
    by (simp add: collectBlocked_def f)
  have wf: "gm_wf (sm_All sm)"
    unfolding sm_All_def by (rule fold_invariant) (simp_all split: prod.splits)
  then show "distinct (collectBlocked sm)"
    unfolding c gm_wf_def gm_keys_def by (rule distinct_map_filter)
  show "set (collectBlocked sm) = {i. sm_Get sm i = Some StatusBlocked}"
  proof (rule set_eqI)
    fix i
    have "i \<in> set (collectBlocked sm) \<longleftrightarrow> (\<exists>st. (i, st) \<in> set (sm_All sm) \<and> ns_Status st = StatusBlocked)"
      unfolding c by force
    also have "\<dots> \<longleftrightarrow> (\<exists>st. gm_get sm i = Some st \<and> ns_Status st = StatusBlocked)"
      using gm_wf_mem_get [OF wf] sm_All_get [OF assms] by metis
    finally show "i \<in> set (collectBlocked sm) \<longleftrightarrow> i \<in> {i. sm_Get sm i = Some StatusBlocked}"
      by (auto simp: sm_Get_def)
  qed
qed

lemma evolves_recompute_node: "ce.evolves e (recompute_node c i e)"
  by (simp add: recompute_node_def ce.evolves_put ce.evolves_refl split: option.splits)

lemma evolves_Recompute: "ce.evolves e (Recompute c e)"
  unfolding Recompute_def by (rule ce.evolves_fold) (rule evolves_recompute_node)

lemma evolves_terminate_node: "ce.evolves e (terminate_node i e)"
  by (simp add: terminate_node_def ce.evolves_put ce.evolves_refl split: option.splits)

lemma evolves_terminateAll: "ce.evolves e (terminateAll c e)"
  unfolding terminateAll_def by (rule ce.evolves_fold) (rule evolves_terminate_node)

lemma evolves_init_node: "ce.evolves e (init_node c n e)"
  by (simp add: init_node_def ce.evolves_put)

lemma wf_ops [simp]:
  "gm_wf (eng_sm e) \<Longrightarrow> gm_wf (eng_sm (recompute_node c i e))"
  "gm_wf (eng_sm e) \<Longrightarrow> gm_wf (eng_sm (terminate_node i e))"
  "gm_wf (eng_sm e) \<Longrightarrow> gm_wf (eng_sm (init_node c n e))"
  by (simp_all add: recompute_node_def terminate_node_def init_node_def split: option.splits)

lemma wf_Recompute [simp]: "gm_wf (eng_sm e) \<Longrightarrow> gm_wf (eng_sm (Recompute c e))"
  unfolding Recompute_def by (rule fold_invariant [where P = "\<lambda>e. gm_wf (eng_sm e)"]) simp_all

lemma wf_terminateAll [simp]: "gm_wf (eng_sm e) \<Longrightarrow> gm_wf (eng_sm (terminateAll c e))"
  unfolding terminateAll_def by (rule fold_invariant [where P = "\<lambda>e. gm_wf (eng_sm e)"]) simp_all

lemma wf_InitStatusMap [simp]: "gm_wf (eng_sm e) \<Longrightarrow> gm_wf (eng_sm (InitStatusMap c e))"
  unfolding InitStatusMap_def by (rule fold_invariant [where P = "\<lambda>e. gm_wf (eng_sm e)"]) simp_all

text \<open>A recomputation moves blocked nodes only, to ready or skipped.\<close>

lemma recompute_node_other: "j \<noteq> i \<Longrightarrow> eng_get (recompute_node c i e) j = eng_get e j"
  by (simp add: recompute_node_def split: option.splits)

lemma recompute_node_blocked:
  "eng_get e i = Some StatusBlocked \<Longrightarrow>
     eng_get (recompute_node c i e) i =
       (case ceg_node c i of
          None \<Rightarrow> Some StatusBlocked
        | Some n \<Rightarrow> if EvaluateActivation n (eng_sm e) then Some StatusReady
                   else if ShouldSkip n (eng_sm e) then Some StatusSkipped else Some StatusBlocked)"
  by (simp add: recompute_node_def split: option.splits)

lemma fold_recompute_other:
  "j \<notin> set xs \<Longrightarrow> eng_get (fold (recompute_node c) xs e) j = eng_get e j"
  by (induction xs arbitrary: e) (simp_all add: recompute_node_other)

text \<open>At the moment a blocked node is visited, nothing settled before has changed.\<close>

lemma fold_recompute_visit:
  assumes "i \<in> set xs" and "distinct xs" and "eng_get e i = Some StatusBlocked"
  obtains e1 where "ce.evolves e e1" and "eng_get e1 i = Some StatusBlocked"
    and "eng_get (fold (recompute_node c) xs e) i = eng_get (recompute_node c i e1) i"
    and "ce.evolves (recompute_node c i e1) (fold (recompute_node c) xs e)"
proof -
  obtain ys zs where xs: "xs = ys @ i # zs" "i \<notin> set ys" "i \<notin> set zs"
    using assms(1,2) by (metis distinct.simps(2) distinct_append in_set_conv_decomp_first)
  let ?e1 = "fold (recompute_node c) ys e"
  have "fold (recompute_node c) xs e = fold (recompute_node c) zs (recompute_node c i ?e1)"
    by (simp add: xs(1))
  moreover have "ce.evolves (recompute_node c i ?e1) (fold (recompute_node c) zs (recompute_node c i ?e1))"
    by (rule ce.evolves_fold) (rule evolves_recompute_node)
  moreover have "ce.evolves e ?e1" by (rule ce.evolves_fold) (rule evolves_recompute_node)
  moreover have "eng_get ?e1 i = Some StatusBlocked" using assms(3) xs(2) by (simp add: fold_recompute_other)
  ultimately show ?thesis using that [of ?e1] xs(3) by (simp add: fold_recompute_other)
qed

lemma Recompute_other:
  assumes "gm_wf (eng_sm e)" and "eng_get e i \<noteq> Some StatusBlocked"
  shows "eng_get (Recompute c e) i = eng_get e i"
  unfolding Recompute_def using assms by (intro fold_recompute_other) (simp add: set_collectBlocked)

lemma Recompute_blocked:
  assumes "gm_wf (eng_sm e)" and "eng_get e i = Some StatusBlocked"
  shows "eng_get (Recompute c e) i \<in> {Some StatusBlocked, Some StatusReady, Some StatusSkipped}"
    and "eng_get (Recompute c e) i = Some StatusReady \<Longrightarrow>
           \<exists>n. ceg_node c i = Some n \<and> EvaluateActivation n (eng_sm (Recompute c e))"
    and "ceg_node c i = Some n \<Longrightarrow> decidable_node n \<Longrightarrow> set (candidates n) \<subseteq> settled (eng_sm e) \<Longrightarrow>
           eng_get (Recompute c e) i \<in> {Some StatusReady, Some StatusSkipped}"
proof -
  have "i \<in> set (sort (collectBlocked (eng_sm e)))" "distinct (sort (collectBlocked (eng_sm e)))"
    using assms by (simp_all add: set_collectBlocked)
  from fold_recompute_visit [OF this assms(2), of c] obtain e1 where e1: "ce.evolves e e1"
    "eng_get e1 i = Some StatusBlocked" "eng_get (Recompute c e) i = eng_get (recompute_node c i e1) i"
    "ce.evolves (recompute_node c i e1) (Recompute c e)"
    unfolding Recompute_def by metis
  note r = recompute_node_blocked [OF e1(2), of c, folded e1(3)]
  then show "eng_get (Recompute c e) i \<in> {Some StatusBlocked, Some StatusReady, Some StatusSkipped}"
    by (auto split: option.splits if_splits)
  have ev: "ce.evolves e1 (Recompute c e)"
    by (rule ce.evolves_trans [OF evolves_recompute_node e1(4)])
  show "\<exists>n. ceg_node c i = Some n \<and> EvaluateActivation n (eng_sm (Recompute c e))"
    if "eng_get (Recompute c e) i = Some StatusReady"
    using r that activation_evolves [OF ev] by (auto split: option.splits if_splits)
  show "eng_get (Recompute c e) i \<in> {Some StatusReady, Some StatusSkipped}"
    if "ceg_node c i = Some n" "decidable_node n" "set (candidates n) \<subseteq> settled (eng_sm e)"
  proof -
    have "set (candidates n) \<subseteq> settled (eng_sm e1)" using that(3) settled_evolves [OF e1(1)] by blast
    from activation_decided [OF that(2) this] r that(1) show ?thesis by auto
  qed
qed

subsection \<open>Claiming and collecting\<close>

lemma commit_ready_running:
  assumes "eng_get e i = Some StatusReady"
  shows "Commit e i StatusRunning None = Inr (commit_drop i StatusRunning None e)"
proof -
  have "accepts (eng_get e i) StatusRunning" using assms by (simp add: accepts_def)
  from Commit_accepts_Inr [OF this, of None] show ?thesis by (auto simp: commit_drop_def)
qed

text \<open>A claim never fails: it takes the ready nodes of the wave, in order, and sets them running.\<close>

lemma claim_nodes_spec:
  assumes "distinct wave"
  shows "\<exists>e'. claim_nodes wave ready e = (Inr (ready @ filter (\<lambda>i. eng_get e i = Some StatusReady) wave), e') \<and>
    (\<forall>j. eng_get e' j = (if j \<in> set wave \<and> eng_get e j = Some StatusReady then Some StatusRunning else eng_get e j)) \<and>
    (gm_wf (eng_sm e) \<longrightarrow> gm_wf (eng_sm e'))"
  using assms
proof (induction wave arbitrary: ready e)
  case (Cons i wave)
  show ?case
  proof (cases "eng_get e i = Some StatusReady")
    case False
    with Cons.IH [of ready e] Cons.prems show ?thesis by auto
  next
    case True
    let ?e1 = "commit_drop i StatusRunning None e"
    have f: "filter (\<lambda>i. eng_get ?e1 i = Some StatusReady) wave = filter (\<lambda>i. eng_get e i = Some StatusReady) wave"
      using Cons.prems by (intro filter_cong) (auto simp: commit_drop_get)
    from Cons.IH [of "ready @ [i]" ?e1] Cons.prems True f commit_ready_running [OF True]
    show ?thesis by (auto simp: commit_drop_get)
  qed
qed simp

lemma Claim_spec:
  assumes "distinct wave"
  obtains e' where "Claim wave e = (Inr (filter (\<lambda>i. eng_get e i = Some StatusReady) wave), e')"
    and "\<And>j. eng_get e' j = (if j \<in> set wave \<and> eng_get e j = Some StatusReady then Some StatusRunning else eng_get e j)"
    and "gm_wf (eng_sm e) \<Longrightarrow> gm_wf (eng_sm e')"
  using claim_nodes_spec [OF assms, of "[]" e] by (auto simp: Claim_def)

lemma Claim_evolves:
  assumes "distinct wave" and "Claim wave e = (r, e')"
  shows "ce.evolves e e'"
  by (rule Claim_spec [OF assms(1), of e]) (use assms(2) in \<open>auto simp: ce.evolves_def\<close>)

definition dispatch_status :: "run_env \<Rightarrow> string \<Rightarrow> NodeStatus" where
  "dispatch_status env i = (case re_dispatch env i of Inl _ \<Rightarrow> StatusFailure | Inr r \<Rightarrow> result_status r)"

definition escalates :: "run_env \<Rightarrow> string \<Rightarrow> bool" where
  "escalates env i = (case re_dispatch env i of Inl _ \<Rightarrow> False | Inr r \<Rightarrow> er_Escalation r)"

lemma collect_evolves:
  "collect_results c env is e m = (b, e', m') \<Longrightarrow> ce.evolves e e' \<and> (gm_wf (eng_sm e) \<longrightarrow> gm_wf (eng_sm e'))"
proof (induction c env "is" e m arbitrary: b e' m' rule: collect_results.induct)
  case (1 c env e m)
  then show ?case by (simp add: ce.evolves_refl)
next
  case (2 c env i "is" e m)
  show ?case
  proof (cases "re_dispatch env i")
    case (Inl err)
    with "2.IH"(1) [OF Inl, of b e' m'] "2.prems"
    have "ce.evolves (commit_drop i StatusFailure (Some (failure_result err)) e) e' \<and>
        (gm_wf (eng_sm e) \<longrightarrow> gm_wf (eng_sm e'))" by simp
    then show ?thesis using ce.evolves_trans [OF ce.evolves_put] by blast
  next
    case (Inr result)
    let ?e1 = "commit_drop i (result_status result) (Some result) e"
    show ?thesis
    proof (cases "er_Escalation result")
      case True
      with Inr "2.prems" have "e' = terminateAll c ?e1" by (simp add: Let_def)
      then show ?thesis using ce.evolves_trans [OF ce.evolves_put evolves_terminateAll] by simp
    next
      case False
      from "2.IH"(2) [OF Inr refl refl refl False, of b e' m'] "2.prems" Inr False
      have "ce.evolves ?e1 e' \<and> (gm_wf (eng_sm e) \<longrightarrow> gm_wf (eng_sm e'))" by (simp add: Let_def)
      then show ?thesis using ce.evolves_trans [OF ce.evolves_put] by blast
    qed
  qed
qed

lemma collect_get:
  assumes "distinct is" and "collect_results c env is e m = (False, e', m')"
  shows "eng_get e' j = (if j \<in> set is then Some (next_status (eng_get e j) (dispatch_status env j)) else eng_get e j)
    \<and> (\<forall>i \<in> set is. \<not> escalates env i)"
  using assms
proof (induction c env "is" e m rule: collect_results.induct)
  case (1 c env e m)
  then show ?case by simp
next
  case (2 c env i "is" e m)
  show ?case
  proof (cases "re_dispatch env i")
    case (Inl err)
    with 2 show ?thesis by (auto simp: dispatch_status_def escalates_def commit_drop_get)
  next
    case (Inr result)
    show ?thesis
    proof (cases "er_Escalation result")
      case True
      with Inr 2 show ?thesis by (simp add: Let_def)
    next
      case False
      with Inr 2 show ?thesis by (auto simp: Let_def dispatch_status_def escalates_def commit_drop_get)
    qed
  qed
qed

subsection \<open>Termination\<close>

definition life :: "Engine \<Rightarrow> bool" where
  "life e \<longleftrightarrow> (\<forall>i x. eng_get e i \<noteq> Some (StatusOther x))"

lemma next_status_other [simp]: "next_status (Some (StatusOther x)) t = StatusOther x"
  by (simp add: next_status_def isValidTransition_def valid_targets_def)

lemma next_status_known: "(\<And>x. s \<noteq> StatusOther x) \<Longrightarrow> next_status (Some s) t \<noteq> StatusOther y"
  by (cases s) simp_all

lemma life_put: "life e \<Longrightarrow> eng_get e i \<noteq> None \<Longrightarrow> life (commit_drop i s r e)"
  unfolding life_def
proof (intro allI)
  fix j x assume a: "\<forall>i x. eng_get e i \<noteq> Some (StatusOther x)" "eng_get e i \<noteq> None"
  then obtain t where "eng_get e i = Some t" "\<And>x. t \<noteq> StatusOther x" by force
  with a next_status_known [of t s x] show "eng_get (commit_drop i s r e) j \<noteq> Some (StatusOther x)"
    by (cases "j = i") simp_all
qed

lemma terminate_node_get:
  "eng_get (terminate_node i e) j =
     (if j = i then map_option (\<lambda>s. next_status (Some s) StatusTerminated) (eng_get e i) else eng_get e j)"
  by (cases "eng_get e i") (auto simp: terminate_node_def commit_drop_get simp del: IsTerminal.simps)

lemma known_terminated: "(\<And>x. s \<noteq> StatusOther x) \<Longrightarrow> IsTerminal (next_status (Some s) StatusTerminated)"
  by (cases s) (simp_all, blast)

lemma life_terminate_node: "life e \<Longrightarrow> life (terminate_node i e)"
  by (auto simp: terminate_node_def life_put split: option.splits)

lemma terminate_fold:
  assumes "life e" and "i \<in> set xs" and "eng_get e i \<noteq> None"
  shows "i \<in> settled (eng_sm (fold terminate_node xs e))"
  using assms
proof (induction xs arbitrary: e)
  case (Cons x xs)
  show ?case
  proof (cases "i \<in> set xs")
    case True
    moreover have "eng_get (terminate_node x e) i \<noteq> None"
      using Cons.prems(3) by (auto simp: terminate_node_get)
    ultimately show ?thesis
      using Cons.IH [OF life_terminate_node [OF Cons.prems(1)]] by simp
  next
    case False
    with Cons.prems(2) have x: "x = i" by simp
    obtain s where s: "eng_get e i = Some s" "\<And>x. s \<noteq> StatusOther x"
      using Cons.prems(1,3) by (auto simp: life_def)
    have "i \<in> settled (eng_sm (terminate_node i e))"
      using s known_terminated [of s] by (simp add: settled_iff terminate_node_get del: IsTerminal.simps)
    moreover have "ce.evolves (terminate_node i e) (fold terminate_node xs (terminate_node i e))"
      by (rule ce.evolves_fold) (rule evolves_terminate_node)
    ultimately show ?thesis using settled_evolves x by auto
  qed
qed simp

lemma fold_map_arg: "fold (\<lambda>x. f (g x)) xs e = fold f (map g xs) e"
  by (induction xs arbitrary: e) simp_all

lemma terminateAll_settles:
  assumes "life e" and "i \<in> set (node_ids c)" and "eng_get e i \<noteq> None"
  shows "i \<in> settled (eng_sm (terminateAll c e))"
  using terminate_fold [OF assms(1), of i "node_ids c"] assms(2,3)
  by (simp add: terminateAll_def fold_map_arg node_ids_def)

subsection \<open>Safety\<close>

text \<open>Nodes that are ready or past it are nodes whose activation holds.\<close>

definition active :: "NodeStatus \<Rightarrow> bool" where
  "active s \<longleftrightarrow> s \<in> {StatusReady, StatusRunning, StatusSuccess, StatusFailure}"

definition safe :: "CEG \<Rightarrow> Engine \<Rightarrow> bool" where
  "safe c e \<longleftrightarrow> (\<forall>i n s. ceg_node c i = Some n \<longrightarrow> eng_get e i = Some s \<longrightarrow> active s \<longrightarrow>
     EvaluateActivation n (eng_sm e))"

lemma safe_evolve:
  assumes "safe c e" and "ce.evolves e e'"
    and "\<And>i n s. ceg_node c i = Some n \<Longrightarrow> eng_get e' i = Some s \<Longrightarrow> active s \<Longrightarrow>
      (\<exists>t. eng_get e i = Some t \<and> active t) \<or> EvaluateActivation n (eng_sm e')"
  shows "safe c e'"
  unfolding safe_def using assms activation_evolves [OF assms(2)] unfolding safe_def by metis

lemma safe_Recompute:
  assumes "gm_wf (eng_sm e)" and "safe c e"
  shows "safe c (Recompute c e)"
proof (rule safe_evolve [OF assms(2) evolves_Recompute])
  fix i n s assume n: "ceg_node c i = Some n" and s: "eng_get (Recompute c e) i = Some s" and a: "active s"
  show "(\<exists>t. eng_get e i = Some t \<and> active t) \<or> EvaluateActivation n (eng_sm (Recompute c e))"
  proof (cases "eng_get e i = Some StatusBlocked")
    case True
    with Recompute_blocked(1) [OF assms(1) True, of c] s a have "s = StatusReady"
      by (auto simp: active_def)
    with Recompute_blocked(2) [OF assms(1) True, of c] s n show ?thesis by auto
  next
    case False
    with Recompute_other [OF assms(1) False] s a show ?thesis by auto
  qed
qed

lemma next_active: "active (next_status (Some s) t) \<Longrightarrow> t \<noteq> StatusReady \<Longrightarrow> active s"
  by (cases s) (auto simp: active_def split: if_splits)

lemma safe_terminate_node: "safe c e \<Longrightarrow> safe c (terminate_node i e)"
  by (erule safe_evolve [OF _ evolves_terminate_node])
     (auto simp: terminate_node_get split: if_splits dest!: next_active)

lemma safe_put_active:
  assumes "safe c e" and "eng_get e i = Some s" and "active s"
  shows "safe c (commit_drop i t r e)"
  by (rule safe_evolve [OF assms(1) ce.evolves_put])
     (use assms(2,3) in \<open>auto simp: commit_drop_get split: if_splits\<close>)

lemma safe_fold_terminate: "safe c e \<Longrightarrow> safe c (fold terminate_node xs e)"
  by (rule fold_invariant) (simp_all add: safe_terminate_node)

lemma safe_terminateAll: "safe c e \<Longrightarrow> safe c (terminateAll c e)"
  by (simp add: terminateAll_def fold_map_arg safe_fold_terminate)

lemma safe_collect:
  assumes "collect_results c env is e m = (b, e', m')" and "safe c e" and "distinct is"
    and "\<forall>i \<in> set is. \<exists>s. eng_get e i = Some s \<and> active s"
  shows "safe c e'"
  using assms
proof (induction c env "is" e m arbitrary: b e' m' rule: collect_results.induct)
  case (1 c env e m)
  then show ?case by simp
next
  case (2 c env i "is" e m)
  obtain s where s: "eng_get e i = Some s" "active s" using "2.prems"(4) by auto
  have rest: "\<forall>j \<in> set is. \<exists>s. eng_get (commit_drop i t r e) j = Some s \<and> active s" for t r
    using "2.prems"(3,4) by (auto simp: commit_drop_get)
  note put = safe_put_active [OF "2.prems"(2) s]
  show ?case
  proof (cases "re_dispatch env i")
    case (Inl err)
    show ?thesis
      using "2.IH"(1) [OF Inl _ put _ rest] "2.prems"(1,3) Inl by simp
  next
    case (Inr result)
    show ?thesis
    proof (cases "er_Escalation result")
      case True
      with Inr "2.prems"(1) have "e' = terminateAll c (commit_drop i (result_status result) (Some result) e)"
        by (simp add: Let_def)
      with put show ?thesis by (simp add: safe_terminateAll)
    next
      case False
      show ?thesis
        using "2.IH"(2) [OF Inr refl refl refl False _ put _ rest] "2.prems"(1,3) Inr False
        by (simp add: Let_def)
    qed
  qed
qed

subsection \<open>A run of the loop\<close>

definition run_ok :: "bool \<Rightarrow> (Engine \<Rightarrow> bool) \<Rightarrow> (Engine \<Rightarrow> bool) \<Rightarrow> run_state \<Rightarrow> bool" where
  "run_ok hang P Q rs =
     (case rs of Running e m \<Rightarrow> P e | Escalated e m \<Rightarrow> Q e | ClaimFailed i err \<Rightarrow> False | Hanging \<Rightarrow> hang)"

lemma run_ok_simps [simp]:
  "run_ok h P Q (Running e m) = P e" "run_ok h P Q (Escalated e m) = Q e"
  "\<not> run_ok h P Q (ClaimFailed i err)" "run_ok h P Q Hanging = h"
  by (simp_all add: run_ok_def)

text \<open>The results of a wave arrive in some order, each once.\<close>

definition arrivals :: "wave_env \<Rightarrow> bool" where
  "arrivals wenv \<longleftrightarrow> (\<forall>xs. mset (we_arrival wenv xs) = mset xs)"

definition all_arrivals :: "run_env \<Rightarrow> bool" where
  "all_arrivals env \<longleftrightarrow> (\<forall>l w. arrivals (re_wave env l w))"

text \<open>The rule for the loops: what each wave preserves, and what the recomputation after a layer gives.\<close>

lemma run_waves_rule:
  assumes "\<And>w wenv e m. w \<in> set waves \<Longrightarrow> arrivals wenv \<Longrightarrow> P e \<Longrightarrow> run_ok h P Q (run_wave c env wenv w e m)"
    and "all_arrivals env" and "P e"
  shows "run_ok h P Q (run_waves c env l k waves e m)"
  using assms(1,3)
proof (induction waves arbitrary: k e m)
  case (Cons w waves)
  have "run_ok h P Q (run_wave c env (re_wave env l k) w e m)"
    using Cons.prems assms(2) by (simp add: all_arrivals_def)
  then show ?case
    using Cons.IH [OF Cons.prems(1)] by (cases "run_wave c env (re_wave env l k) w e m") auto
qed simp

definition secure :: "CEG \<Rightarrow> Engine \<Rightarrow> bool" where
  "secure c e \<longleftrightarrow> gm_wf (eng_sm e) \<and> safe c e"

lemma wf_fold_terminate [simp]: "gm_wf (eng_sm e) \<Longrightarrow> gm_wf (eng_sm (fold terminate_node xs e))"
  by (rule fold_invariant [where P = "\<lambda>e. gm_wf (eng_sm e)"]) simp_all

lemma secure_Recompute: "secure c e \<Longrightarrow> secure c (Recompute c e)"
  by (simp add: secure_def safe_Recompute)

lemma secure_WaitWave: "WaitWave wenv w d e = Some (r, e') \<Longrightarrow> secure c e \<Longrightarrow> secure c e'"
  by (auto simp: WaitWave_def secure_def safe_fold_terminate split: if_splits)

lemma secure_run_wave:
  assumes "secure c e" and d: "distinct wave" and a: "arrivals wenv"
  shows "run_ok True (secure c) (secure c) (run_wave c env wenv wave e m)"
proof -
  let ?ready = "filter (\<lambda>i. eng_get e i = Some StatusReady) wave"
  obtain e1 where cl: "Claim wave e = (Inr ?ready, e1)"
    and get: "\<And>j. eng_get e1 j = (if j \<in> set wave \<and> eng_get e j = Some StatusReady then Some StatusRunning else eng_get e j)"
    and wf: "gm_wf (eng_sm e1)"
    by (rule Claim_spec [OF d, of e]) (use assms(1) in \<open>auto simp: secure_def\<close>)
  have s1: "safe c e1"
    using assms(1) by (intro safe_evolve [OF _ Claim_evolves [OF d cl]])
      (auto simp: secure_def get active_def split: if_splits)
  show ?thesis
  proof (cases "?ready = []")
    case True
    with cl wf s1 show ?thesis by (simp add: run_wave_def secure_def safe_Recompute)
  next
    case False
    let ?is = "we_arrival wenv ?ready"
    have m: "mset ?is = mset ?ready" using a by (simp add: arrivals_def)
    have dis: "distinct ?is" using distinct_perm [OF m] d by simp
    have act: "\<forall>i \<in> set ?is. \<exists>s. eng_get e1 i = Some s \<and> active s"
      using set_perm [OF m] get by (auto simp: active_def)
    obtain b e2 m2 where co: "collect_results c env ?is e1 m = (b, e2, m2)" by (metis prod_cases3)
    have s2: "secure c e2"
      using safe_collect [OF co s1 dis act] collect_evolves [OF co] wf by (simp add: secure_def)
    have w: "run_ok True (secure c) (secure c)
       (case WaitWave wenv wave d e2 of None \<Rightarrow> Hanging | Some (None, e3) \<Rightarrow> Running e3 m3
        | Some (Some _, e3) \<Rightarrow> Running (fold terminate_node wave e3) m3)" for d m3
    proof (cases "WaitWave wenv wave d e2")
      case (Some p)
      obtain r e3 where p: "p = (r, e3)" by fastforce
      have "secure c e3" using secure_WaitWave Some p s2 by blast
      with Some p show ?thesis by (cases r) (simp_all add: secure_def safe_fold_terminate)
    qed simp
    show ?thesis
      using cl False co s2 w by (cases b) (simp_all add: run_wave_def Let_def)
  qed
qed

lemma secure_run_layers:
  assumes "all_arrivals env" and "\<forall>ws \<in> set layers. \<forall>w \<in> set ws. distinct w" and "secure c e"
  shows "run_ok True (secure c) (secure c) (run_layers c env l layers e m)"
  using assms(2,3)
proof (induction layers arbitrary: l e m)
  case Nil
  then show ?case by (simp add: secure_Recompute)
next
  case (Cons ws layers)
  have r: "run_ok True (secure c) (secure c) (run_waves c env l 0 ws e m)"
    using Cons.prems assms(1) by (intro run_waves_rule) (auto intro: secure_run_wave)
  show ?case
  proof (cases "ws = []")
    case True
    with Cons show ?thesis by (simp add: secure_Recompute)
  next
    case False
    with r Cons show ?thesis
      by (cases "run_waves c env l 0 ws e m") (simp_all add: secure_Recompute)
  qed
qed

lemma secure_init:
  assumes "map_ok c"
  shows "secure c (InitStatusMap c (commit_New []))"
proof -
  have "safe c (fold (init_node c) ns e) \<and> (\<forall>i. eng_get (fold (init_node c) ns e) i \<noteq> None \<longrightarrow> i \<in> node_ID ` set ns \<or> eng_get e i \<noteq> None)"
    if "set ns \<subseteq> set (ceg_Nodes c)" "distinct (map node_ID ns)" "safe c e" "\<forall>n \<in> set ns. eng_get e (node_ID n) = None" for ns e
    using that
  proof (induction ns arbitrary: e)
    case (Cons n ns)
    have n: "ceg_node c (node_ID n) = Some n" using map_ok_node [OF assms] Cons.prems(1) by simp
    have none: "eng_get e (node_ID n) = None" using Cons.prems(4) by simp
    have g: "eng_get (init_node c n e) j =
        (if j = node_ID n then
           Some (if ceg_InDegree c (node_ID n) = 0
                 then if EvaluateActivation n (eng_sm e) then StatusReady else StatusSkipped else StatusBlocked)
         else eng_get e j)" for j
      using none by (simp add: init_node_def commit_drop_get)
    have s: "safe c (init_node c n e)"
      using activation_evolves [OF evolves_init_node] n
      by (intro safe_evolve [OF Cons.prems(3) evolves_init_node]) (auto simp: g active_def split: if_splits)
    have "\<forall>k \<in> set ns. eng_get (init_node c n e) (node_ID k) = None"
      using Cons.prems(2,4) by (simp add: g) (metis imageI)
    from Cons.IH [OF _ _ s this] Cons.prems(1,2) g show ?case by (auto split: if_splits)
  qed simp
  from this [of "ceg_Nodes c" "commit_New []"] assms show ?thesis
    by (simp add: secure_def InitStatusMap_def [symmetric] map_ok_def node_ids_def safe_def commit_New_def sm_Get_def)
qed

subsection \<open>Termination of a run\<close>

text \<open>
  The state of a run in terms of layers: the nodes of \<open>P\<close> (earlier layers and waves) are settled, those of
  \<open>Q\<close> (the current layer) are ready or settled, those of \<open>R\<close> (later layers) may also be blocked.
\<close>

definition phase :: "string set \<Rightarrow> string set \<Rightarrow> string set \<Rightarrow> Engine \<Rightarrow> bool" where
  "phase P Q R e \<longleftrightarrow> gm_wf (eng_sm e) \<and> life e \<and> P \<subseteq> settled (eng_sm e) \<and>
     (\<forall>i \<in> Q. eng_get e i = Some StatusReady \<or> i \<in> settled (eng_sm e)) \<and>
     (\<forall>i \<in> R. eng_get e i \<in> {Some StatusBlocked, Some StatusReady} \<or> i \<in> settled (eng_sm e))"

definition ended :: "string set \<Rightarrow> Engine \<Rightarrow> bool" where
  "ended A e \<longleftrightarrow> A \<subseteq> settled (eng_sm e)"

text \<open>What the code that executes a node must return: a terminal status of a running node.\<close>

definition dispatch_ok :: "run_env \<Rightarrow> bool" where
  "dispatch_ok env \<longleftrightarrow>
     (\<forall>i. dispatch_status env i \<in> {StatusSuccess, StatusFailure, StatusTerminated})"

lemma settled_get: "i \<in> settled (eng_sm e) \<Longrightarrow> eng_get e' i = eng_get e i \<Longrightarrow> i \<in> settled (eng_sm e')"
  by (simp add: settled_iff)

lemma life_Recompute:
  assumes "gm_wf (eng_sm e)" and "life e"
  shows "life (Recompute c e)"
  unfolding life_def
proof (intro allI)
  fix i x
  show "eng_get (Recompute c e) i \<noteq> Some (StatusOther x)"
    using Recompute_blocked(1) [OF assms(1), of i c] Recompute_other [OF assms(1), of i c] assms(2)
    by (cases "eng_get e i = Some StatusBlocked") (auto simp: life_def)
qed

lemma Recompute_ready:
  assumes "gm_wf (eng_sm e)" and "eng_get e i = Some StatusReady"
  shows "eng_get (Recompute c e) i = Some StatusReady"
  using Recompute_other [OF assms(1), of i c] assms(2) by simp

lemma phase_Recompute:
  assumes "phase P Q R e"
  shows "phase P Q R (Recompute c e)"
proof -
  have wf: "gm_wf (eng_sm e)" using assms by (simp add: phase_def)
  have mono: "settled (eng_sm e) \<subseteq> settled (eng_sm (Recompute c e))"
    by (rule settled_evolves [OF evolves_Recompute])
  have R: "eng_get (Recompute c e) i \<in> {Some StatusBlocked, Some StatusReady} \<or> i \<in> settled (eng_sm (Recompute c e))"
    if "i \<in> R" for i
  proof (cases "eng_get e i = Some StatusBlocked")
    case True
    from Recompute_blocked(1) [OF wf True, of c] show ?thesis by (auto simp: settled_iff)
  next
    case False
    with assms that mono Recompute_ready [OF wf] show ?thesis unfolding phase_def by blast
  qed
  from assms mono R life_Recompute [OF wf] Recompute_ready [OF wf] wf show ?thesis
    unfolding phase_def by (metis (no_types, lifting) subset_iff wf_Recompute)
qed

text \<open>A recomputation readies the next layer: the candidates of its blocked nodes are settled.\<close>

lemma phase_next_layer:
  assumes ph: "phase P {} (Q \<union> R) e" and ok: "map_ok c" and Q: "Q \<subseteq> set (node_ids c)"
    and dec: "\<And>n. n \<in> set (ceg_Nodes c) \<Longrightarrow> node_ID n \<in> Q \<Longrightarrow> decidable_node n \<and> set (candidates n) \<subseteq> P"
  shows "phase P Q R (Recompute c e)"
proof -
  have wf: "gm_wf (eng_sm e)" and P: "P \<subseteq> settled (eng_sm e)" using ph by (simp_all add: phase_def)
  note r = phase_Recompute [OF ph, of c]
  have "eng_get (Recompute c e) i = Some StatusReady \<or> i \<in> settled (eng_sm (Recompute c e))" if i: "i \<in> Q" for i
  proof (cases "eng_get e i = Some StatusBlocked")
    case True
    obtain n where n: "n \<in> set (ceg_Nodes c)" "node_ID n = i"
      using i Q by (auto simp: node_ids_def)
    then have "ceg_node c i = Some n" using map_ok_node [OF ok] by blast
    moreover have "set (candidates n) \<subseteq> settled (eng_sm e)" using dec n i P by blast
    ultimately have "eng_get (Recompute c e) i \<in> {Some StatusReady, Some StatusSkipped}"
      using Recompute_blocked(3) [OF wf True, of c n] dec n i by blast
    then show ?thesis by (auto simp: settled_iff)
  next
    case False
    with ph i have "eng_get e i = Some StatusReady \<or> i \<in> settled (eng_sm e)"
      unfolding phase_def by blast
    with Recompute_ready [OF wf] settled_evolves [OF evolves_Recompute, of e c] show ?thesis by blast
  qed
  with r show ?thesis unfolding phase_def by blast
qed

lemma phase_mono: "phase P Q R e \<Longrightarrow> P' \<subseteq> P \<Longrightarrow> Q' \<subseteq> Q \<Longrightarrow> R' \<subseteq> Q \<union> R \<union> P \<Longrightarrow> phase P' Q' R' e"
  unfolding phase_def by blast

lemma phase_present:
  assumes "phase P Q R e" and "i \<in> P \<union> Q \<union> R"
  shows "eng_get e i \<noteq> None"
proof -
  have "i \<in> settled (eng_sm e) \<or> eng_get e i \<in> {Some StatusBlocked, Some StatusReady}"
    using assms unfolding phase_def by blast
  then show ?thesis by (auto simp: settled_iff)
qed

lemma life_commit_present: "life e \<Longrightarrow> eng_get e i \<noteq> None \<Longrightarrow> life (commit_drop i s r e)"
  by (rule life_put)

text \<open>A wave all of whose nodes are ready or settled runs to its end without waiting.\<close>

lemma collect_escalated:
  assumes "collect_results c env is e m = (True, e', m')" and "life e"
    and "\<forall>i \<in> set is. eng_get e i \<noteq> None"
  obtains e1 where "e' = terminateAll c e1" and "ce.evolves e e1" and "life e1"
  using assms
proof (induction c env "is" e m arbitrary: e' m' thesis rule: collect_results.induct)
  case (1 c env e m)
  then show ?case by simp
next
  case (2 c env i "is" e m)
  have pres: "\<forall>j \<in> set is. eng_get (commit_drop i t r e) j \<noteq> None" for t r
    using "2.prems"(4) by (auto simp: commit_drop_get)
  have i: "eng_get e i \<noteq> None" using "2.prems"(4) by simp
  show ?case
  proof (cases "re_dispatch env i")
    case (Inl err)
    show ?thesis
      by (rule "2.IH"(1) [OF Inl _ _ life_put [OF "2.prems"(3) i] pres])
         (use "2.prems"(1,2) Inl ce.evolves_trans [OF ce.evolves_put] in auto)
  next
    case (Inr result)
    show ?thesis
    proof (cases "er_Escalation result")
      case True
      with Inr "2.prems"(2) have "e' = terminateAll c (commit_drop i (result_status result) (Some result) e)"
        by (simp add: Let_def)
      then show ?thesis using "2.prems"(1) ce.evolves_put life_put [OF "2.prems"(3) i] by blast
    next
      case False
      show ?thesis
        by (rule "2.IH"(2) [OF Inr refl refl refl False _ _ life_put [OF "2.prems"(3) i] pres])
           (use "2.prems"(1,2) Inr False ce.evolves_trans [OF ce.evolves_put] in \<open>auto simp: Let_def\<close>)
    qed
  qed
qed

lemma life_Claim:
  assumes "distinct wave" and "Claim wave e = (r, e')" and "life e"
  shows "life e'"
  by (rule Claim_spec [OF assms(1), of e]) (use assms(2,3) in \<open>auto simp: life_def split: if_splits\<close>)

lemma running_settles:
  assumes "dispatch_ok env"
  shows "IsTerminal (next_status (Some StatusRunning) (dispatch_status env i))"
  using assms by (auto simp: dispatch_ok_def)

lemma collected_wave:
  assumes ph: "phase P Q R e" and w: "set wave \<subseteq> Q" and d: "distinct wave" and ok: "dispatch_ok env"
    and cl: "Claim wave e = (Inr ready, e1)" and mp: "mset is = mset ready"
    and co: "collect_results c env is e1 m = (False, e2, m2)"
  shows "phase (P \<union> set wave) Q R e2" and "sm_AllTerminal (eng_sm e2) wave"
proof -
  let ?ready = "filter (\<lambda>i. eng_get e i = Some StatusReady) wave"
  have wf: "gm_wf (eng_sm e)" and lf: "life e" using ph by (simp_all add: phase_def)
  obtain e0 where cl0: "Claim wave e = (Inr ?ready, e0)"
    and get0: "\<And>j. eng_get e0 j = (if j \<in> set wave \<and> eng_get e j = Some StatusReady then Some StatusRunning else eng_get e j)"
    and wf0: "gm_wf (eng_sm e0)"
    by (rule Claim_spec [OF d, of e]) (use wf in auto)
  have rd: "ready = ?ready" and e1: "e1 = e0" using cl cl0 by simp_all
  note get = get0 [folded e1] and wf1 = wf0 [folded e1]
  have dis: "distinct is" using distinct_perm [OF mp] d rd by simp
  have sis: "set is = set ?ready" using set_perm [OF mp] rd by simp
  have get2: "eng_get e2 j = (if j \<in> set ?ready then Some (next_status (Some StatusRunning) (dispatch_status env j))
      else eng_get e j)" for j
    using collect_get [OF dis co, THEN conjunct1, of j] sis get [of j] by auto
  have setl: "j \<in> set ?ready \<Longrightarrow> j \<in> settled (eng_sm e2)" for j
    using running_settles [OF ok] by (simp add: settled_iff get2 del: IsTerminal.simps)
  have keep: "j \<notin> set ?ready \<Longrightarrow> j \<in> settled (eng_sm e) \<Longrightarrow> j \<in> settled (eng_sm e2)" for j
    by (rule settled_get) (simp_all only: get2 if_False)
  have wave: "set wave \<subseteq> settled (eng_sm e2)"
  proof
    fix j assume j: "j \<in> set wave"
    show "j \<in> settled (eng_sm e2)"
    proof (cases "j \<in> set ?ready")
      case False
      with j w ph have "j \<in> settled (eng_sm e)" unfolding phase_def by auto
      with False show ?thesis by (rule keep)
    qed (rule setl)
  qed
  have mono: "settled (eng_sm e) \<subseteq> settled (eng_sm e2)" using setl keep by blast
  have wf2: "gm_wf (eng_sm e2)" using collect_evolves [OF co] wf1 by blast
  have lf2: "life e2"
    using lf running_settles [OF ok] unfolding life_def get2 by (auto split: if_splits)
  have stay: "eng_get e2 j = eng_get e j \<or> j \<in> settled (eng_sm e2)" for j
    using setl get2 by (cases "j \<in> set ?ready") auto
  show ph2: "phase (P \<union> set wave) Q R e2"
    unfolding phase_def
  proof (intro conjI ballI)
    show "P \<union> set wave \<subseteq> settled (eng_sm e2)" using ph mono wave unfolding phase_def by blast
    show "eng_get e2 i = Some StatusReady \<or> i \<in> settled (eng_sm e2)" if "i \<in> Q" for i
      using ph that stay [of i] mono unfolding phase_def by auto
    show "eng_get e2 i \<in> {Some StatusBlocked, Some StatusReady} \<or> i \<in> settled (eng_sm e2)" if "i \<in> R" for i
      using ph that stay [of i] mono unfolding phase_def by auto
  qed (rule wf2 lf2)+
  show "sm_AllTerminal (eng_sm e2) wave"
    using wave by (auto simp: sm_AllTerminal_iff settled_def simp del: IsTerminal.simps)
qed

lemma phase_run_wave:
  assumes ph: "phase P Q R e" and w: "set wave \<subseteq> Q" and d: "distinct wave" and a: "arrivals wenv"
    and ok: "dispatch_ok env" and ids: "P \<union> Q \<union> R = set (node_ids c)"
  shows "run_ok False (phase (P \<union> set wave) Q R) (ended (set (node_ids c))) (run_wave c env wenv wave e m)"
proof -
  let ?ready = "filter (\<lambda>i. eng_get e i = Some StatusReady) wave"
  have wf: "gm_wf (eng_sm e)" and lf: "life e" using ph by (simp_all add: phase_def)
  obtain e1 where cl: "Claim wave e = (Inr ?ready, e1)"
    and get: "\<And>j. eng_get e1 j = (if j \<in> set wave \<and> eng_get e j = Some StatusReady then Some StatusRunning else eng_get e j)"
    and wf1: "gm_wf (eng_sm e1)"
    by (rule Claim_spec [OF d, of e]) (use wf in auto)
  have lf1: "life e1" by (rule life_Claim [OF d cl lf])
  show ?thesis
  proof (cases "?ready = []")
    case True
    then have no: "\<forall>i \<in> set wave. eng_get e i \<noteq> Some StatusReady" by (simp add: filter_empty_conv)
    then have same: "eng_get e1 j = eng_get e j" for j using get by auto
    have "set wave \<subseteq> settled (eng_sm e)" using no w ph unfolding phase_def by blast
    with ph wf1 lf1 have "phase (P \<union> set wave) Q R e1"
      unfolding phase_def same by (auto simp: settled_iff same simp del: IsTerminal.simps)
    from phase_Recompute [OF this, of c] cl True show ?thesis by (simp add: run_wave_def)
  next
    case False
    let ?is = "we_arrival wenv ?ready"
    have mp: "mset ?is = mset ?ready" using a by (simp add: arrivals_def)
    have dis: "distinct ?is" using distinct_perm [OF mp] d by simp
    have sis: "set ?is = set ?ready" using set_perm [OF mp] .
    obtain b e2 m2 where co: "collect_results c env ?is e1 m = (b, e2, m2)" by (metis prod_cases3)
    show ?thesis
    proof (cases b)
      case True
      have "\<forall>i \<in> set ?is. eng_get e1 i \<noteq> None" using sis get by auto
      moreover have "collect_results c env ?is e1 m = (True, e2, m2)" using co True by simp
      ultimately obtain e3
        where e3: "e2 = terminateAll c e3" "ce.evolves e1 e3" "life e3"
        using collect_escalated [OF _ lf1] by blast
      have "eng_get e3 i \<noteq> None" if "i \<in> set (node_ids c)" for i
      proof -
        have "eng_get e i \<noteq> None" using phase_present [OF ph] that ids by blast
        then have "eng_get e1 i \<noteq> None" using get by simp
        then show ?thesis by (rule ce.evolves_present [OF e3(2)])
      qed
      then have "ended (set (node_ids c)) e2"
        using terminateAll_settles [OF e3(3)] unfolding ended_def e3(1) by blast
      with cl co False True show ?thesis by (simp add: run_wave_def)
    next
      case b: False
      have co': "collect_results c env ?is e1 m = (False, e2, m2)" using co b by simp
      from collected_wave [OF ph w d ok cl mp this] show ?thesis
        using cl co False b by (simp add: run_wave_def WaitWave_def Let_def)
    qed
  qed
qed

lemma phase_run_waves:
  assumes ph: "phase P Q R e" and w: "\<forall>w \<in> set waves. set w \<subseteq> Q \<and> distinct w" and a: "all_arrivals env"
    and ok: "dispatch_ok env" and ids: "P \<union> Q \<union> R = set (node_ids c)"
  shows "run_ok False (phase (P \<union> set (concat waves)) Q R) (ended (set (node_ids c)))
    (run_waves c env l k waves e m)"
  using ph w ids
proof (induction waves arbitrary: P k e m)
  case (Cons w waves)
  have "run_ok False (phase (P \<union> set w) Q R) (ended (set (node_ids c))) (run_wave c env (re_wave env l k) w e m)"
    using Cons.prems a ok by (intro phase_run_wave) (auto simp: all_arrivals_def)
  moreover have "P \<union> set w \<union> Q \<union> R = set (node_ids c)" using Cons.prems(2,3) by auto
  ultimately show ?case
    using Cons.IH [of "P \<union> set w"] Cons.prems(2)
    by (cases "run_wave c env (re_wave env l k) w e m") (simp_all add: Un_assoc)
qed simp

text \<open>The waves of a run: one list of waves per layer, together holding its nodes.\<close>

definition waves_for :: "CEG \<Rightarrow> string list list list \<Rightarrow> string list list \<Rightarrow> bool" where
  "waves_for c wss layers \<longleftrightarrow>
     list_all2 (\<lambda>ws layer. ws \<noteq> [] \<and> set (concat ws) = set layer \<and> (\<forall>w \<in> set ws. distinct w)) wss layers"

definition decided_by :: "CEG \<Rightarrow> string set \<Rightarrow> string set \<Rightarrow> bool" where
  "decided_by c P Q \<longleftrightarrow>
     (\<forall>n \<in> set (ceg_Nodes c). node_ID n \<in> Q \<longrightarrow> decidable_node n \<and> set (candidates n) \<subseteq> P)"

fun layers_decided :: "CEG \<Rightarrow> string set \<Rightarrow> string list list \<Rightarrow> bool" where
  "layers_decided c P [] = True"
| "layers_decided c P (layer # layers) =
     (decided_by c P (set layer) \<and> layers_decided c (P \<union> set layer) layers)"

lemma phase_run_layers:
  assumes "waves_for c wss (layer # layers)" and "layers_decided c (P \<union> set layer) layers"
    and "phase P (set layer) (set (concat layers)) e" and "map_ok c"
    and "P \<union> set layer \<union> set (concat layers) = set (node_ids c)"
    and a: "all_arrivals env" and ok: "dispatch_ok env"
  shows "run_ok False (ended (set (node_ids c))) (ended (set (node_ids c))) (run_layers c env l wss e m)"
  using assms(1-5)
proof (induction layers arbitrary: wss layer P l e m)
  case Nil
  then obtain ws where wss: "wss = [ws]" "ws \<noteq> []" "set (concat ws) = set layer" "\<forall>w \<in> set ws. distinct w"
    by (auto simp: waves_for_def list_all2_Cons2)
  have "run_ok False (phase (P \<union> set (concat ws)) (set layer) {}) (ended (set (node_ids c)))
      (run_waves c env l 0 ws e m)"
    using Nil.prems a ok wss by (intro phase_run_waves) auto
  moreover have "ended (set (node_ids c)) (Recompute c e1)" if "phase (P \<union> set (concat ws)) (set layer) {} e1" for e1
    using phase_Recompute [OF that, of c] Nil.prems(5) wss(3) unfolding phase_def ended_def by auto
  ultimately show ?case
    using wss(1,2) phase_Recompute by (cases "run_waves c env l 0 ws e m") auto
next
  case (Cons layer2 layers)
  then obtain ws wss' where wss: "wss = ws # wss'" "ws \<noteq> []" "set (concat ws) = set layer"
      "\<forall>w \<in> set ws. distinct w" "waves_for c wss' (layer2 # layers)"
    by (auto simp: waves_for_def list_all2_Cons2)
  let ?R = "set (concat (layer2 # layers))"
  have r: "run_ok False (phase (P \<union> set (concat ws)) (set layer) ?R) (ended (set (node_ids c)))
      (run_waves c env l 0 ws e m)"
    using Cons.prems a ok wss by (intro phase_run_waves) auto
  have next_layer: "run_ok False (ended (set (node_ids c))) (ended (set (node_ids c)))
      (run_layers c env (l + 1) wss' (Recompute c e1) m1)"
    if "phase (P \<union> set (concat ws)) (set layer) ?R e1" for e1 m1
  proof (rule Cons.IH [OF wss(5)])
    let ?P = "P \<union> set layer"
    have "phase ?P {} (set layer2 \<union> set (concat layers)) e1"
      using that unfolding wss(3) by (rule phase_mono) auto
    then show "phase ?P (set layer2) (set (concat layers)) (Recompute c e1)"
      using Cons.prems(2,4,5) by (intro phase_next_layer) (auto simp: decided_by_def)
    show "layers_decided c (?P \<union> set layer2) layers" using Cons.prems(2) by simp
    show "?P \<union> set layer2 \<union> set (concat layers) = set (node_ids c)" using Cons.prems(5) by auto
  qed (rule Cons.prems(4))
  show ?case
    using r next_layer wss(1,2) by (cases "run_waves c env l 0 ws e m") auto
qed

text \<open>The initial states: the first layer is ready or skipped, the rest is blocked, ready or skipped.\<close>

lemma init_get:
  assumes "map_ok c"
  shows "life (InitStatusMap c (commit_New []))"
    and "i \<in> set (node_ids c) \<Longrightarrow>
      eng_get (InitStatusMap c (commit_New [])) i \<in> {Some StatusBlocked, Some StatusReady, Some StatusSkipped}"
    and "i \<in> set (node_ids c) \<Longrightarrow> ceg_InDegree c i = 0 \<Longrightarrow>
      eng_get (InitStatusMap c (commit_New [])) i \<in> {Some StatusReady, Some StatusSkipped}"
proof -
  let ?ok = "\<lambda>i s. s \<in> {Some StatusBlocked, Some StatusReady, Some StatusSkipped} \<and>
    (ceg_InDegree c i = 0 \<longrightarrow> s \<in> {Some StatusReady, Some StatusSkipped})"
  have f: "(\<forall>i. eng_get (fold (init_node c) ns e) i \<noteq> eng_get e i \<longrightarrow> ?ok i (eng_get (fold (init_node c) ns e) i)) \<and>
      (\<forall>i \<in> set (map node_ID ns). ?ok i (eng_get (fold (init_node c) ns e) i))"
    if "distinct (map node_ID ns)" "\<forall>i \<in> set (map node_ID ns). eng_get e i = None" for ns e
    using that
  proof (induction ns arbitrary: e)
    case (Cons n ns)
    have other: "j \<noteq> node_ID n \<Longrightarrow> eng_get (init_node c n e) j = eng_get e j" for j
      by (simp add: init_node_def commit_drop_get)
    have this_ok: "?ok (node_ID n) (eng_get (init_node c n e) (node_ID n))"
      using Cons.prems(2) by (simp add: init_node_def commit_drop_get)
    have "\<forall>i \<in> set (map node_ID ns). eng_get (init_node c n e) i = None"
    proof
      fix i assume i: "i \<in> set (map node_ID ns)"
      with Cons.prems(1) have "i \<noteq> node_ID n" by (metis distinct.simps(2) list.simps(9))
      with other Cons.prems(2) i show "eng_get (init_node c n e) i = None" by fastforce
    qed
    with Cons.IH [of "init_node c n e"] Cons.prems(1) have ih:
      "\<And>i. eng_get (fold (init_node c) ns (init_node c n e)) i \<noteq> eng_get (init_node c n e) i \<Longrightarrow>
         ?ok i (eng_get (fold (init_node c) ns (init_node c n e)) i)"
      "\<And>i. i \<in> set (map node_ID ns) \<Longrightarrow> ?ok i (eng_get (fold (init_node c) ns (init_node c n e)) i)"
      by auto
    have n: "?ok (node_ID n) (eng_get (fold (init_node c) ns (init_node c n e)) (node_ID n))"
      using ih(1) [of "node_ID n"] this_ok by metis
    moreover have "?ok i (eng_get (fold (init_node c) ns (init_node c n e)) i)"
      if "eng_get (fold (init_node c) ns (init_node c n e)) i \<noteq> eng_get e i" for i
      using that ih(1) [of i] n other [of i] by metis
    ultimately show ?case using ih(2) by (simp only: fold_simps comp_apply list.map set_simps ball_simps) blast
  qed simp
  have none: "eng_get (commit_New []) i = None" for i by (simp add: commit_New_def sm_Get_def)
  have "distinct (map node_ID (ceg_Nodes c))" using assms by (simp add: map_ok_def node_ids_def)
  note all = f [OF this, of "commit_New []", folded InitStatusMap_def node_ids_def, unfolded none]
  have r: "\<And>i. eng_get (InitStatusMap c (commit_New [])) i \<noteq> None \<Longrightarrow> ?ok i (eng_get (InitStatusMap c (commit_New [])) i)"
    "\<And>i. i \<in> set (node_ids c) \<Longrightarrow> ?ok i (eng_get (InitStatusMap c (commit_New [])) i)"
    using conjunct1 [OF all] conjunct2 [OF all] by blast+
  show "eng_get (InitStatusMap c (commit_New [])) i \<in> {Some StatusBlocked, Some StatusReady, Some StatusSkipped}"
    if "i \<in> set (node_ids c)"
    using r(2) [OF that] by blast
  show "eng_get (InitStatusMap c (commit_New [])) i \<in> {Some StatusReady, Some StatusSkipped}"
    if "i \<in> set (node_ids c)" "ceg_InDegree c i = 0"
    using r(2) [OF that(1)] that(2) by blast
  show "life (InitStatusMap c (commit_New []))"
    unfolding life_def using r(1) by fastforce
qed

subsection \<open>Runs of a built document\<close>

definition unit_candidates :: "Unit \<Rightarrow> string list" where
  "unit_candidates u =
     (if act_Condition (unit_Activation u) = ''any_success''
      then act_Requires (unit_Activation u) @ act_Optional (unit_Activation u)
      else act_Requires (unit_Activation u))"

text \<open>A document declares its activations when every condition is one the kernel evaluates and every unit a
  condition names is the source of an edge to the unit.\<close>

definition activations_ok :: "RIR \<Rightarrow> bool" where
  "activations_ok r \<longleftrightarrow>
     (\<forall>u \<in> set (rir_Units r).
        (act_Condition (unit_Activation u) = ''all_success'' \<or>
         act_Condition (unit_Activation u) = ''any_success'' \<and> unit_candidates u \<noteq> []) \<and>
        (\<forall>x \<in> set (unit_candidates u). (x, unit_ID u) \<in> rir_rel r))"

lemma sorted_graph_unit:
  assumes "distinct (unit_ids r)" and "n \<in> set (ceg_Nodes (sorted_graph r))"
  obtains u where "u \<in> set (rir_Units r)" and "unit_ID u = node_ID n" and "unit_Activation u = node_Activation n"
proof -
  let ?ns = "ceg_Nodes (sorted_graph r)"
  have ids: "map node_ID ?ns = unit_ids r" using sorted_graph_spec(1) [OF assms(1)] by (simp add: node_ids_def)
  have act: "map node_Activation ?ns = map unit_Activation (rir_Units r)" using sorted_graph_spec(3) [OF assms(1)] .
  have len: "length ?ns = length (rir_Units r)" using ids by (metis length_map)
  obtain k where k: "k < length ?ns" "?ns ! k = n" using assms(2) by (auto simp: in_set_conv_nth)
  have "unit_ID (rir_Units r ! k) = node_ID n" using ids k len by (metis nth_map)
  moreover have "unit_Activation (rir_Units r ! k) = node_Activation n" using act k len by (metis nth_map)
  moreover have "rir_Units r ! k \<in> set (rir_Units r)" using k len by simp
  ultimately show ?thesis using that by blast
qed

lemma sorted_graph_node:
  assumes "distinct (unit_ids r)" and "u \<in> set (rir_Units r)"
  obtains n where "ceg_node (sorted_graph r) (unit_ID u) = Some n" and "node_Activation n = unit_Activation u"
proof -
  have "unit_ID u \<in> set (node_ids (sorted_graph r))"
    using assms sorted_graph_spec(1) [OF assms(1)] by simp
  then obtain n where n: "n \<in> set (ceg_Nodes (sorted_graph r))" "node_ID n = unit_ID u"
    by (auto simp: node_ids_def)
  obtain v where v: "v \<in> set (rir_Units r)" "unit_ID v = node_ID n" "unit_Activation v = node_Activation n"
    by (rule sorted_graph_unit [OF assms(1) n(1)])
  have "v = u" using v(1,2) n(2) assms by (metis distinct_map inj_onD)
  then have act: "node_Activation n = unit_Activation u" using v(3) by simp
  have "ceg_node (sorted_graph r) (unit_ID u) = Some n"
    using map_ok_node [OF sorted_graph_spec(4) [OF assms(1)], of "unit_ID u" n] n by simp
  from that [OF this act] show ?thesis .
qed

lemma layers_decidedI:
  assumes "\<And>l. l < length layers \<Longrightarrow> decided_by c (P \<union> set (concat (take l layers))) (set (layers ! l))"
  shows "layers_decided c P layers"
  using assms
proof (induction layers arbitrary: P)
  case (Cons layer layers)
  have "decided_by c P (set layer)" using Cons.prems [of 0] by simp
  moreover have "layers_decided c (P \<union> set layer) layers"
  proof (rule Cons.IH)
    fix l assume "l < length layers"
    with Cons.prems [of "Suc l"] show "decided_by c (P \<union> set layer \<union> set (concat (take l layers))) (set (layers ! l))"
      by (simp add: Un_assoc)
  qed
  ultimately show ?case by simp
qed simp

lemma decided_by_layers:
  assumes d: "distinct (unit_ids r)" and a: "activations_ok r"
    and l: "l < length (ceg_Layers (sorted_graph r))"
  shows "decided_by (sorted_graph r) (set (concat (take l (ceg_Layers (sorted_graph r))))) (set (ceg_Layers (sorted_graph r) ! l))"
  unfolding decided_by_def
proof (intro ballI impI)
  let ?L = "ceg_Layers (sorted_graph r)"
  fix n assume n: "n \<in> set (ceg_Nodes (sorted_graph r))" and nl: "node_ID n \<in> set (?L ! l)"
  obtain u where u: "u \<in> set (rir_Units r)" "unit_ID u = node_ID n" "unit_Activation u = node_Activation n"
    by (rule sorted_graph_unit [OF d n])
  have c: "candidates n = unit_candidates u" using u(3) by (simp add: candidates_def unit_candidates_def)
  have "x \<in> set (concat (take l ?L))" if "x \<in> set (candidates n)" for x
  proof -
    have "(x, node_ID n) \<in> rir_rel r" using a u that c by (auto simp: activations_ok_def)
    from sorted_graph_layers(4) [OF d this l nl] obtain k where "k < l" "x \<in> set (?L ! k)" by blast
    moreover from \<open>k < l\<close> l have "?L ! k \<in> set (take l ?L)"
      by (simp add: in_set_conv_nth) (metis \<open>k < l\<close> less_trans nth_take)
    ultimately show ?thesis by auto
  qed
  moreover have "decidable_node n"
    using a u c by (auto simp: activations_ok_def decidable_node_def)
  ultimately show "decidable_node n \<and> set (candidates n) \<subseteq> set (concat (take l ?L))" by blast
qed

lemma ComputeWaves_for:
  assumes d: "distinct (unit_ids r)" and b: "Build r = Inr c"
  shows "waves_for c (ComputeWaves c r) (ceg_Layers c)"
proof -
  have "layer_waves r layer \<noteq> [] \<and> set (concat (layer_waves r layer)) = set layer \<and>
      (\<forall>w \<in> set (layer_waves r layer). distinct w)" if "layer \<in> set (ceg_Layers c)" for layer
  proof (intro conjI ballI)
    note L = built_layer [OF d b that]
    show s: "set (concat (layer_waves r layer)) = set layer" by (rule layer_waves_concat(2) [OF L(1)])
    then show "layer_waves r layer \<noteq> []" using L(3) by auto
    show "distinct w" if "w \<in> set (layer_waves r layer)" for w by (rule layer_wave_distinct [OF L(1) that])
  qed
  then show ?thesis by (simp add: waves_for_def ComputeWaves_def list_all2_map1 list_all2_same)
qed

text \<open>The initial engine of a run, and the run.\<close>

abbreviation start :: "CEG \<Rightarrow> Engine" where
  "start c \<equiv> InitStatusMap c (commit_New [])"

lemma phase_start:
  assumes d: "distinct (unit_ids r)" and e: "edges_resolved r" and b: "Build r = Inr c"
    and L: "ceg_Layers c = layer # layers"
  shows "phase {} (set layer) (set (concat layers)) (start c)"
    and "set layer \<union> set (concat layers) = set (node_ids c)"
proof -
  have c: "c = sorted_graph r" and v: "validate (sorted_graph r) = None"
    using b by (auto simp: Build_Inr_iff)
  have ok: "map_ok c" and ids: "node_ids c = unit_ids r" using sorted_graph_spec(1,4) [OF d] c by simp_all
  have ac: "acyclic (rir_rel r)" using v sorted_graph_hasCycle [OF d] by (simp add: validate_None)
  show all: "set layer \<union> set (concat layers) = set (node_ids c)"
    using sorted_graph_layers(5) [OF d e ac] c L ids by simp
  have root: "ceg_InDegree c i = 0" if i: "i \<in> set layer" for i
  proof -
    have il: "i \<in> set (ceg_Layers (sorted_graph r) ! 0)" "0 < length (ceg_Layers (sorted_graph r))"
      using i L c by simp_all
    have no: "(u, i) \<notin> rir_rel r" for u
      using sorted_graph_layers(4) [OF d _ il(2,1)] by blast
    have "filter (\<lambda>e. edge_To e = i) (rir_edges r) = []"
      using no e unfolding filter_empty_conv rir_rel_def edges_resolved_def by blast
    then have "indegree_of r i = 0" by (simp add: indegree_of_def)
    moreover have "i \<in> set (unit_ids r)" using i all ids by auto
    ultimately show ?thesis using sorted_graph_spec(5) [OF d] c by simp
  qed
  have "gm_wf (eng_sm (start c))" by (simp add: commit_New_def)
  moreover have "eng_get (start c) i = Some StatusReady \<or> i \<in> settled (eng_sm (start c))" if "i \<in> set layer" for i
    using init_get(3) [OF ok, of i] root [OF that] that all by (auto simp: settled_iff)
  moreover have "eng_get (start c) i \<in> {Some StatusBlocked, Some StatusReady} \<or> i \<in> settled (eng_sm (start c))"
    if "i \<in> set (concat layers)" for i
    using init_get(2) [OF ok, of i] that all by (auto simp: settled_iff)
  ultimately show "phase {} (set layer) (set (concat layers)) (start c)"
    using init_get(1) [OF ok] unfolding phase_def by blast
qed

lemma secure_run:
  assumes "distinct (unit_ids r)" and "Build r = Inr c" and "all_arrivals env"
  shows "run_ok True (secure c) (secure c) (run_layers c env 0 (ComputeWaves c r) (start c) m)"
proof (rule secure_run_layers [OF assms(3)])
  have "\<forall>w \<in> set ws. distinct w" if "ws \<in> set (ComputeWaves c r)" for ws
    using ComputeWaves_for [OF assms(1,2)] that
    by (auto simp: waves_for_def list_all2_conv_all_nth in_set_conv_nth)
  then show "\<forall>ws \<in> set (ComputeWaves c r). \<forall>w \<in> set ws. distinct w" by blast
  have "map_ok c" using sorted_graph_spec(4) [OF assms(1)] assms(2) by (simp add: Build_Inr_iff)
  then show "secure c (start c)" by (rule secure_init)
qed

lemma ended_run:
  assumes d: "distinct (unit_ids r)" and e: "edges_resolved r" and b: "Build r = Inr c"
    and a: "activations_ok r" and ok: "dispatch_ok env" and arr: "all_arrivals env"
  shows "run_ok False (ended (set (node_ids c))) (ended (set (node_ids c)))
    (run_layers c env 0 (ComputeWaves c r) (start c) m)"
proof (cases "ceg_Layers c")
  case Nil
  have "acyclic (rir_rel r)" "c = sorted_graph r"
    using b sorted_graph_hasCycle [OF d] by (auto simp: Build_Inr_iff validate_None)
  then have "set (node_ids c) = {}"
    using sorted_graph_layers(5) [OF d e] sorted_graph_spec(1) [OF d] Nil by simp
  with Nil show ?thesis by (simp add: ComputeWaves_def ended_def)
next
  case (Cons layer layers)
  have c: "c = sorted_graph r" using b by (simp add: Build_Inr_iff)
  have "layers_decided c {} (ceg_Layers c)"
    unfolding c by (rule layers_decidedI, unfold Un_empty_left, rule decided_by_layers [OF d a])
  then have dec: "layers_decided c ({} \<union> set layer) layers" using Cons by simp
  have "waves_for c (ComputeWaves c r) (layer # layers)" using ComputeWaves_for [OF d b] Cons by simp
  from phase_run_layers [OF this dec phase_start(1) [OF d e b Cons] _ _ arr ok] show ?thesis
    using phase_start(2) [OF d e b Cons] sorted_graph_spec(4) [OF d] c by simp
qed

lemma RunLoop_cases:
  assumes "run_ok h P P (run_layers c env 0 wss e zero_metrics)"
  shows "case RunLoop c env wss e of None \<Rightarrow> h | Some (Inl _) \<Rightarrow> False
    | Some (Inr (out, e')) \<Rightarrow> P e' \<and> out_StatusMap out = sm_All (eng_sm e')"
  using assms by (cases "run_layers c env 0 wss e zero_metrics") (simp_all add: RunLoop_def)

lemma Get_sm_All: "gm_wf (eng_sm e) \<Longrightarrow> sm_Get (sm_All (eng_sm e)) i = eng_get e i"
  by (rule sm_All_Get)

lemma succeeded_sm_All: "gm_wf sm \<Longrightarrow> succeeded (sm_All sm) = succeeded sm"
  by (simp add: succeeded_def sm_All_Get)

subsection \<open>Properties\<close>

text \<open>The claim of a wave never fails and takes exactly its ready nodes: they become running, and every
  other node keeps its status (no node executes from another state).\<close>

theorem Claim_takes_ready:
  assumes "distinct wave"
  shows "\<exists>e'. Claim wave e = (Inr (filter (\<lambda>i. eng_get e i = Some StatusReady) wave), e') \<and>
    (\<forall>j. eng_get e' j =
      (if j \<in> set wave \<and> eng_get e j = Some StatusReady then Some StatusRunning else eng_get e j))"
  by (rule Claim_spec [OF assms, of e]) blast

theorem Claim_takes_ready_witness:
  "\<exists>e'. Claim [''a'', ''b''] (commit_New (sm_Init [] ''b'' StatusReady)) = (Inr [''b''], e')"
proof -
  have "filter (\<lambda>i. eng_get (commit_New (sm_Init [] ''b'' StatusReady)) i = Some StatusReady) [''a'', ''b''] = [''b'']"
    by code_simp
  moreover have "distinct [''a'', ''b'']" by simp
  ultimately show ?thesis
    using Claim_takes_ready [of "[''a'', ''b'']" "commit_New (sm_Init [] ''b'' StatusReady)"] by metis
qed

text \<open>C1: whatever the adapters return and in whatever order, a run of a built document that returns has
  executed activated nodes only: a unit that ended running, successful or failed had its activation
  condition satisfied by the final states. The loop never returns an error.\<close>

theorem RunLoop_safe:
  assumes "distinct (unit_ids r)" and "Build r = Inr c" and "all_arrivals env"
    and "RunLoop c env (ComputeWaves c r) (start c) = Some res"
  shows "\<exists>out e'. res = Inr (out, e') \<and>
    (\<forall>u \<in> set (rir_Units r). \<forall>s \<in> {StatusRunning, StatusSuccess, StatusFailure}.
       sm_Get (out_StatusMap out) (unit_ID u) = Some s \<longrightarrow>
         (act_Condition (unit_Activation u) = ''all_success'' \<and>
            set (unit_candidates u) \<subseteq> succeeded (out_StatusMap out)) \<or>
         (act_Condition (unit_Activation u) = ''any_success'' \<and>
            set (unit_candidates u) \<inter> succeeded (out_StatusMap out) \<noteq> {}))"
proof -
  from RunLoop_cases [OF secure_run [OF assms(1-3)]] assms(4) obtain out e'
    where res: "res = Inr (out, e')" and sec: "secure c e'" and out: "out_StatusMap out = sm_All (eng_sm e')"
    by (cases res) auto
  have wf: "gm_wf (eng_sm e')" and sf: "safe c e'" using sec by (simp_all add: secure_def)
  have "(act_Condition (unit_Activation u) = ''all_success'' \<and> set (unit_candidates u) \<subseteq> succeeded (eng_sm e')) \<or>
      (act_Condition (unit_Activation u) = ''any_success'' \<and> set (unit_candidates u) \<inter> succeeded (eng_sm e') \<noteq> {})"
    if u: "u \<in> set (rir_Units r)" and s: "s \<in> {StatusRunning, StatusSuccess, StatusFailure}"
      "eng_get e' (unit_ID u) = Some s" for u s
  proof -
    have c: "c = sorted_graph r" using assms(2) by (simp add: Build_Inr_iff)
    obtain n where n: "ceg_node c (unit_ID u) = Some n" "node_Activation n = unit_Activation u"
      unfolding c by (rule sorted_graph_node [OF assms(1) u])
    have "active s" using s(1) by (auto simp: active_def)
    with sf n(1) s(2) have "EvaluateActivation n (eng_sm e')" unfolding safe_def by blast
    moreover have "candidates n = unit_candidates u" unfolding candidates_def unit_candidates_def n(2) ..
    ultimately show ?thesis unfolding EvaluateActivation_iff n(2) by simp
  qed
  note units = this [folded succeeded_sm_All [OF wf] Get_sm_All [OF wf] out]
  show ?thesis
    by (intro exI conjI ballI impI, rule res, erule (2) units)
qed

text \<open>C2: a run terminates with every unit in a terminal state, without waiting for a deadline, when the
  identifiers of the document are distinct, its edges name units, its activations are ones the kernel evaluates, on
  units with an edge to the node, and every execution returns success, failure or terminated (a running unit cannot
  become skipped). This holds for any order in which all results arrive, any clock and any cancellation.\<close>

theorem RunLoop_terminates:
  assumes "distinct (unit_ids r)" and "edges_resolved r" and "Build r = Inr c"
    and "activations_ok r" and "dispatch_ok env" and "all_arrivals env"
  shows "\<exists>out e'. RunLoop c env (ComputeWaves c r) (start c) = Some (Inr (out, e')) \<and>
    (\<forall>i \<in> set (unit_ids r). \<exists>s. sm_Get (out_StatusMap out) i = Some s \<and> IsTerminal s)"
proof -
  have c: "c = sorted_graph r" using assms(3) by (simp add: Build_Inr_iff)
  note en = RunLoop_cases [OF ended_run [OF assms]]
  obtain out e' where run: "RunLoop c env (ComputeWaves c r) (start c) = Some (Inr (out, e'))"
    and e: "ended (set (node_ids c)) e'" and out: "out_StatusMap out = sm_All (eng_sm e')"
    using en by (auto split: option.splits sum.splits)
  have "gm_wf (eng_sm e')"
    using RunLoop_cases [OF secure_run [OF assms(1,3,6)]] run by (simp add: secure_def)
  moreover have "node_ids c = unit_ids r" using sorted_graph_spec(1) [OF assms(1)] c by simp
  ultimately show ?thesis
    using run e by (auto simp: ended_def settled_iff out Get_sm_All subset_iff simp del: IsTerminal.simps)
qed

subsection \<open>Witnesses\<close>

text \<open>A run of the diamond in which \<open>c\<close> fails and the results of a wave arrive in reverse order.\<close>

definition sample_result :: "NodeStatus \<Rightarrow> bool \<Rightarrow> ExecutionResult" where
  "sample_result s esc =
     \<lparr>er_Status = s, er_Outputs = None, er_Artifacts = None, er_Escalation = esc, er_SelectedBranch = '''',
      er_Metrics = \<lparr>em_DurationMs = 0, em_TokensUsed = None\<rparr>\<rparr>"

definition sample_env :: "(string list \<Rightarrow> string list) \<Rightarrow> (string \<Rightarrow> string + ExecutionResult) \<Rightarrow> run_env" where
  "sample_env arrival disp =
     \<lparr>re_wave = (\<lambda>l w. \<lparr>we_arrival = arrival, we_clock = (\<lambda>_. 0), we_cancelled = False,
                        we_deadline_first = False\<rparr>),
      re_parse = (\<lambda>_. None), re_dispatch = disp\<rparr>"

definition one_fails :: run_env where
  "one_fails = sample_env rev
     (\<lambda>i. if i = ''c'' then Inl ''no adapter'' else Inr (sample_result StatusSuccess False))"

definition final_statuses :: "((string \<times> commit_error) + MEKOutput \<times> Engine) option \<Rightarrow> string list \<Rightarrow> NodeStatus option list" where
  "final_statuses res ids =
     (case res of Some (Inr (out, _)) \<Rightarrow> map (sm_Get (out_StatusMap out)) ids | _ \<Rightarrow> [])"

lemma one_fails_arrivals: "all_arrivals one_fails"
  by (simp add: one_fails_def sample_env_def all_arrivals_def arrivals_def)

lemma one_fails_dispatch: "dispatch_ok one_fails"
  by (simp add: one_fails_def sample_env_def dispatch_ok_def dispatch_status_def result_status_def sample_result_def)

lemma diamond_activations: "activations_ok diamond"
proof -
  have "\<forall>u \<in> set (rir_Units diamond). \<forall>x \<in> set (unit_candidates u).
      \<exists>e \<in> set (rir_edges diamond). edge_From e = x \<and> edge_To e = unit_ID u \<and> x \<in> set (unit_ids diamond)"
    by code_simp
  then have "(x, unit_ID u) \<in> rir_rel diamond"
    if "u \<in> set (rir_Units diamond)" "x \<in> set (unit_candidates u)" for u x
    using that unfolding rir_rel_def mem_Collect_eq prod.inject by metis
  moreover have "\<forall>u \<in> set (rir_Units diamond). act_Condition (unit_Activation u) = ''all_success'' \<or>
         act_Condition (unit_Activation u) = ''any_success'' \<and> unit_candidates u \<noteq> []"
    by code_simp
  ultimately show ?thesis unfolding activations_ok_def by blast
qed

lemma one_fails_run:
  "final_statuses (RunLoop (sorted_graph diamond) one_fails (ComputeWaves (sorted_graph diamond) diamond)
     (start (sorted_graph diamond))) [''a'', ''b'', ''c'', ''d'']
   = [Some StatusSuccess, Some StatusSuccess, Some StatusFailure, Some StatusSuccess]"
  by code_simp

theorem RunLoop_terminates_witness:
  "\<exists>out e'. RunLoop (sorted_graph diamond) one_fails (ComputeWaves (sorted_graph diamond) diamond)
     (start (sorted_graph diamond)) = Some (Inr (out, e')) \<and>
     (\<exists>s. sm_Get (out_StatusMap out) ''d'' = Some s \<and> IsTerminal s)"
proof -
  have "''d'' \<in> set (unit_ids diamond)" by code_simp
  with RunLoop_terminates [OF diamond_distinct diamond_resolved diamond_builds diamond_activations
        one_fails_dispatch one_fails_arrivals] show ?thesis by blast
qed

theorem RunLoop_safe_witness:
  "\<exists>out e'. RunLoop (sorted_graph diamond) one_fails (ComputeWaves (sorted_graph diamond) diamond)
     (start (sorted_graph diamond)) = Some (Inr (out, e')) \<and>
     sm_Get (out_StatusMap out) ''d'' = Some StatusSuccess \<and>
     {''b'', ''c''} \<inter> succeeded (out_StatusMap out) \<noteq> {}"
proof -
  obtain res where run: "RunLoop (sorted_graph diamond) one_fails (ComputeWaves (sorted_graph diamond) diamond)
     (start (sorted_graph diamond)) = Some res"
    using one_fails_run by (auto simp: final_statuses_def split: option.splits)
  obtain out e' where res: "res = Inr (out, e')"
    and u: "\<And>u s. u \<in> set (rir_Units diamond) \<Longrightarrow> s \<in> {StatusRunning, StatusSuccess, StatusFailure} \<Longrightarrow>
       sm_Get (out_StatusMap out) (unit_ID u) = Some s \<Longrightarrow>
         (act_Condition (unit_Activation u) = ''all_success'' \<and>
            set (unit_candidates u) \<subseteq> succeeded (out_StatusMap out)) \<or>
         (act_Condition (unit_Activation u) = ''any_success'' \<and>
            set (unit_candidates u) \<inter> succeeded (out_StatusMap out) \<noteq> {})"
    using RunLoop_safe [OF diamond_distinct diamond_builds one_fails_arrivals run] by blast
  have d: "sm_Get (out_StatusMap out) ''d'' = Some StatusSuccess"
    using one_fails_run run res by (simp add: final_statuses_def)
  have "sample_unit ''d'' ''any_success'' [''b'', ''c''] \<in> set (rir_Units diamond)"
    by (simp add: diamond_def sample_rir_def)
  from u [OF this, of StatusSuccess] d have "{''b'', ''c''} \<inter> succeeded (out_StatusMap out) \<noteq> {}"
    by (simp add: sample_unit_def unit_candidates_def)
  with run res d show ?thesis by blast
qed

end
