(* ===== verification/Mek_Determinism.thy ===== *)
theory Mek_Determinism
  imports Mek_Run
begin

text \<open>
  Determinism of the execution loop: two runs of a document whose results arrive in different orders,
  with different clocks and cancellations, end in the same node states and the same counters, as long as
  no node escalates. An escalation ends the run at once, so what the other results of its wave become
  depends on the order of arrival.
\<close>

subsection \<open>Commits as functions of a node state\<close>

definition next_state :: "NodeState option \<Rightarrow> NodeStatus \<Rightarrow> ExecutionResult option \<Rightarrow> NodeState" where
  "next_state old s r =
     (case old of
        None \<Rightarrow>
          (case r of
             None \<Rightarrow> \<lparr>ns_Status = s, ns_Outputs = Some [], ns_Artifacts = None\<rparr>
           | Some x \<Rightarrow> \<lparr>ns_Status = s, ns_Outputs = er_Outputs x, ns_Artifacts = er_Artifacts x\<rparr>)
      | Some st \<Rightarrow>
          if IsTerminal (ns_Status st) \<or> \<not> isValidTransition (ns_Status st) s then st
          else (case r of
                  None \<Rightarrow> st\<lparr>ns_Status := s\<rparr>
                | Some x \<Rightarrow> \<lparr>ns_Status = s, ns_Outputs = keep_unless_nil (er_Outputs x) (ns_Outputs st),
                              ns_Artifacts = keep_unless_nil (er_Artifacts x) (ns_Artifacts st)\<rparr>))"

abbreviation state_of :: "Engine \<Rightarrow> string \<Rightarrow> NodeState option" where
  "state_of e i \<equiv> sm_GetState (eng_sm e) i"

lemma commit_drop_state:
  "state_of (commit_drop i s r e) j = (if j = i then Some (next_state (state_of e i) s r) else state_of e j)"
proof (cases "state_of e i")
  case None
  then show ?thesis
    by (auto simp: commit_drop_def Commit_def Let_def next_state_def sm_GetState_Init sm_GetState_SetState
        split: option.splits)
next
  case (Some st)
  then show ?thesis
    by (auto simp: commit_drop_def Commit_def Let_def next_state_def sm_GetState_SetState
        split: option.splits simp del: IsTerminal.simps)
qed

lemma eng_get_state: "eng_get e i = map_option ns_Status (state_of e i)"
  by (rule sm_Get_GetState)

definition same :: "Engine \<Rightarrow> Engine \<Rightarrow> bool" where
  "same e e' \<longleftrightarrow> (\<forall>i. state_of e i = state_of e' i)"

lemma same_get: "same e e' \<Longrightarrow> eng_get e i = eng_get e' i"
  by (simp add: same_def eng_get_state)

lemma same_commit: "same e e' \<Longrightarrow> same (commit_drop i s r e) (commit_drop i s r e')"
  by (simp add: same_def commit_drop_state)

lemma same_activation:
  assumes "same e e'"
  shows "EvaluateActivation n (eng_sm e) = EvaluateActivation n (eng_sm e')"
    and "ShouldSkip n (eng_sm e) = ShouldSkip n (eng_sm e')"
proof -
  have "succeeded (eng_sm e) = succeeded (eng_sm e')" "settled (eng_sm e) = settled (eng_sm e')"
    using same_get [OF assms] by (simp_all add: succeeded_def settled_def)
  then show "EvaluateActivation n (eng_sm e) = EvaluateActivation n (eng_sm e')"
    "ShouldSkip n (eng_sm e) = ShouldSkip n (eng_sm e')"
    by (simp_all add: EvaluateActivation_iff ShouldSkip_iff)
qed

lemma same_recompute_node: "same e e' \<Longrightarrow> same (recompute_node c i e) (recompute_node c i e')"
  using same_activation [of e e'] same_commit [of e e']
  by (auto simp: recompute_node_def split: option.splits)

lemma same_fold:
  assumes "\<And>x e e'. same e e' \<Longrightarrow> same (f x e) (f x e')"
  shows "same e e' \<Longrightarrow> same (fold f xs e) (fold f xs e')"
  by (induction xs arbitrary: e e') (simp_all add: assms)

lemma same_collectBlocked:
  assumes "same e e'" and "gm_wf (eng_sm e)" and "gm_wf (eng_sm e')"
  shows "sort (collectBlocked (eng_sm e)) = sort (collectBlocked (eng_sm e'))"
proof (rule sort_perm_eq, rule distinct_set_mset_eq)
  show "set (collectBlocked (eng_sm e)) = set (collectBlocked (eng_sm e'))"
    using set_collectBlocked(1) assms(2,3) same_get [OF assms(1)] by simp
qed (use assms set_collectBlocked(2) in blast)+

text \<open>The recomputation visits the blocked nodes in the order of their identifiers, so it does not depend
  on the order in which the status map is ranged over.\<close>

lemma same_Recompute:
  assumes "same e e'" and "gm_wf (eng_sm e)" and "gm_wf (eng_sm e')"
  shows "same (Recompute c e) (Recompute c e')"
  unfolding Recompute_def same_collectBlocked [OF assms]
  by (rule same_fold [OF same_recompute_node assms(1)])

lemma claim_nodes_state:
  "claim_nodes wave ready e = (Inr rs, e1) \<Longrightarrow> same e e' \<Longrightarrow>
     \<exists>e1'. claim_nodes wave ready e' = (Inr rs, e1') \<and> same e1 e1'"
proof (induction wave arbitrary: ready e e')
  case (Cons i wave)
  show ?case
  proof (cases "eng_get e i = Some StatusReady")
    case True
    then have t': "eng_get e' i = Some StatusReady" using same_get [OF Cons.prems(2)] by simp
    from True Cons.prems(1) have "claim_nodes wave (ready @ [i]) (commit_drop i StatusRunning None e) = (Inr rs, e1)"
      by (simp add: commit_ready_running)
    from Cons.IH [OF this same_commit [OF Cons.prems(2)]] t' show ?thesis by (simp add: commit_ready_running)
  next
    case False
    with Cons.prems Cons.IH [of ready e e'] same_get [OF Cons.prems(2), of i] show ?thesis by simp
  qed
qed auto

lemma same_Claim:
  "Claim wave e = (Inr rs, e1) \<Longrightarrow> same e e' \<Longrightarrow> \<exists>e1'. Claim wave e' = (Inr rs, e1') \<and> same e1 e1'"
  unfolding Claim_def by (rule claim_nodes_state)

subsection \<open>Results without escalation\<close>

definition commit_result :: "run_env \<Rightarrow> string \<Rightarrow> Engine \<Rightarrow> Engine" where
  "commit_result env i e =
     (case re_dispatch env i of
        Inl err \<Rightarrow> commit_drop i StatusFailure (Some (failure_result err)) e
      | Inr r \<Rightarrow> commit_drop i (result_status r) (Some r) e)"

definition measure_result :: "run_env \<Rightarrow> string \<Rightarrow> MEKMetrics \<Rightarrow> MEKMetrics" where
  "measure_result env i m =
     (case re_dispatch env i of
        Inl err \<Rightarrow> m\<lparr>mm_NodesFailed := mm_NodesFailed m + 1\<rparr>
      | Inr r \<Rightarrow> count_result (result_status r) m)"

lemma collect_no_escalation:
  "\<forall>i. \<not> escalates env i \<Longrightarrow>
     collect_results c env is e m = (False, fold (commit_result env) is e, fold (measure_result env) is m)"
proof (induction "is" arbitrary: e m)
  case (Cons i "is")
  have "\<not> escalates env i" using Cons.prems by blast
  then show ?case
    using Cons.IH [OF Cons.prems]
    by (auto simp: commit_result_def measure_result_def escalates_def Let_def split: sum.splits)
qed simp

lemma commit_result_other: "j \<noteq> i \<Longrightarrow> state_of (commit_result env i e) j = state_of e j"
  by (simp add: commit_result_def commit_drop_state split: sum.splits)

lemma same_commit_result: "same e e' \<Longrightarrow> same (commit_result env i e) (commit_result env i e')"
  by (simp add: commit_result_def same_commit split: sum.splits)

lemma commit_result_local:
  "state_of e i = state_of e' i \<Longrightarrow> state_of (commit_result env i e) i = state_of (commit_result env i e') i"
  by (simp add: commit_result_def commit_drop_state split: sum.splits)

lemma fold_commit_result:
  "distinct is \<Longrightarrow> state_of (fold (commit_result env) is e) j =
     (if j \<in> set is then state_of (commit_result env j e) j else state_of e j)"
proof (induction "is" arbitrary: e)
  case (Cons i "is")
  show ?case
  proof (cases "j = i")
    case True
    with Cons show ?thesis by simp
  next
    case False
    with Cons.IH [of "commit_result env i e"] Cons.prems commit_result_other [of j i env e]
      commit_result_local [of "commit_result env i e" j e env]
    show ?thesis by simp
  qed
qed simp

lemma measure_result_commute:
  "measure_result env i \<circ> measure_result env j = measure_result env j \<circ> measure_result env i"
  by (rule ext) (auto simp: measure_result_def count_result_def Let_def split: sum.splits)

lemma fold_measure_perm:
  "mset is = mset js \<Longrightarrow> fold (measure_result env) is = fold (measure_result env) js"
  using fold_multiset_equiv [of "is" "measure_result env" js] measure_result_commute by blast

lemma same_collect:
  assumes ne: "\<forall>i. \<not> escalates env i" and p: "mset is = mset js" and d: "distinct is" and s: "same e e'"
    and "collect_results c env is e m = (b, e1, m1)" and "collect_results c env js e' m = (b', e1', m1')"
  shows "\<not> b \<and> \<not> b' \<and> same e1 e1' \<and> m1 = m1'"
proof -
  have d': "distinct js" "set is = set js" using p d distinct_perm set_perm by blast+
  have "same (fold (commit_result env) is e) (fold (commit_result env) js e')"
    using s d' fold_commit_result [OF d, of env e] fold_commit_result [OF d'(1), of env e']
      commit_result_local [of e _ e' env] by (simp add: same_def)
  with assms(5,6) fold_measure_perm [OF p, of env] show ?thesis
    by (simp add: collect_no_escalation [OF ne])
qed

subsection \<open>Two runs side by side\<close>

text \<open>The second environment's adapters return the same results, up to the measured times and tokens;
  everything else of the environments may differ.\<close>

definition same_result :: "string + ExecutionResult \<Rightarrow> string + ExecutionResult \<Rightarrow> bool" where
  "same_result x y =
     (case (x, y) of
        (Inl e, Inl e') \<Rightarrow> e = e'
      | (Inr r, Inr r') \<Rightarrow> er_Status r = er_Status r' \<and> er_Outputs r = er_Outputs r' \<and>
          er_Artifacts r = er_Artifacts r' \<and> er_Escalation r = er_Escalation r'
      | _ \<Rightarrow> False)"

definition same_adapters :: "run_env \<Rightarrow> run_env \<Rightarrow> bool" where
  "same_adapters env env' \<longleftrightarrow> (\<forall>i. same_result (re_dispatch env i) (re_dispatch env' i))"

lemma same_result_cases:
  assumes "same_result x y"
  obtains e where "x = Inl e" and "y = Inl e"
    | r r' where "x = Inr r" and "y = Inr r'" and "er_Status r = er_Status r'" and "er_Outputs r = er_Outputs r'"
      and "er_Artifacts r = er_Artifacts r'" and "er_Escalation r = er_Escalation r'"
  using assms by (auto simp: same_result_def split: sum.splits)

lemma same_result_refl [simp]: "same_result x x"
  by (simp add: same_result_def split: sum.splits)

lemma commit_drop_data:
  assumes "er_Outputs r = er_Outputs r'" and "er_Artifacts r = er_Artifacts r'"
  shows "commit_drop i s (Some r) e = commit_drop i s (Some r') e"
  using assms by (simp add: commit_drop_def Commit_def publish_def Let_def split: option.splits)

lemma same_adapters_facts:
  assumes "same_adapters env env'"
  shows "dispatch_ok env = dispatch_ok env'" and "(\<forall>i. \<not> escalates env i) = (\<forall>i. \<not> escalates env' i)"
    and "collect_results c env is e m = collect_results c env' is e m"
proof -
  have r: "same_result (re_dispatch env i) (re_dispatch env' i)" for i using assms by (simp add: same_adapters_def)
  have "dispatch_status env i = dispatch_status env' i" "escalates env i = escalates env' i" for i
    using r [of i] by (auto elim!: same_result_cases simp: dispatch_status_def escalates_def result_status_def)
  then show "dispatch_ok env = dispatch_ok env'" "(\<forall>i. \<not> escalates env i) = (\<forall>i. \<not> escalates env' i)"
    by (simp_all add: dispatch_ok_def)
  show "collect_results c env is e m = collect_results c env' is e m"
  proof (induction "is" arbitrary: e m)
    case (Cons i "is")
    show ?case
    proof (rule same_result_cases [OF r [of i]])
      fix x x' assume x: "re_dispatch env i = Inr x" "re_dispatch env' i = Inr x'" "er_Status x = er_Status x'"
        "er_Outputs x = er_Outputs x'" "er_Artifacts x = er_Artifacts x'" "er_Escalation x = er_Escalation x'"
      then show ?thesis
        using Cons.IH commit_drop_data [of x x'] by (simp add: result_status_def Let_def)
    qed (simp add: Cons.IH)
  qed simp
qed

text \<open>The pair of states two runs are in.\<close>

definition twins :: "string set \<Rightarrow> string set \<Rightarrow> string set \<Rightarrow> Engine \<Rightarrow> Engine \<Rightarrow> bool" where
  "twins P Q R e e' \<longleftrightarrow> phase P Q R e \<and> phase P Q R e' \<and> same e e'"

lemma twins_Recompute:
  assumes "twins P Q R e e'"
  shows "twins P Q R (Recompute c e) (Recompute c e')"
  using assms phase_Recompute [of P Q R _ c] same_Recompute [of e e' c] by (simp add: twins_def phase_def)

lemma wave_value:
  assumes ph: "phase P Q R e" and w: "set wave \<subseteq> Q" and d: "distinct wave" and a: "arrivals wenv"
    and ok: "dispatch_ok env" and ne: "\<forall>i. \<not> escalates env i" and cl: "Claim wave e = (Inr ready, e1)"
    and r: "ready \<noteq> []" and co: "collect_results c env (we_arrival wenv ready) e1 m = (b, e2, m2)"
  shows "run_wave c env wenv wave e m = Running e2 (m2\<lparr>mm_WavesCompleted := mm_WavesCompleted m2 + 1\<rparr>)"
    and "phase (P \<union> set wave) Q R e2"
proof -
  have mp: "mset (we_arrival wenv ready) = mset ready" using a by (simp add: arrivals_def)
  have co': "collect_results c env (we_arrival wenv ready) e1 m = (False, e2, m2)"
    using co collect_no_escalation [OF ne] by simp
  note c = collected_wave [OF ph w d ok cl mp co']
  then show "phase (P \<union> set wave) Q R e2" by blast
  show "run_wave c env wenv wave e m = Running e2 (m2\<lparr>mm_WavesCompleted := mm_WavesCompleted m2 + 1\<rparr>)"
    using cl r co' c(2) by (simp add: run_wave_def WaitWave_def Let_def)
qed

lemma empty_wave_phase:
  assumes ph: "phase P Q R e" and w: "set wave \<subseteq> Q" and d: "distinct wave" and cl: "Claim wave e = (Inr [], e1)"
  shows "phase (P \<union> set wave) Q R e1"
proof -
  obtain e0 where cl0: "Claim wave e = (Inr (filter (\<lambda>i. eng_get e i = Some StatusReady) wave), e0)"
    and get: "\<And>j. eng_get e0 j = (if j \<in> set wave \<and> eng_get e j = Some StatusReady then Some StatusRunning else eng_get e j)"
    and wf: "gm_wf (eng_sm e0)"
    by (rule Claim_spec [OF d, of e]) (use ph in \<open>auto simp: phase_def\<close>)
  from cl cl0 have no: "\<forall>i \<in> set wave. eng_get e i \<noteq> Some StatusReady" and e1: "e1 = e0"
    by (auto simp: filter_empty_conv)
  have eq: "eng_get e1 j = eng_get e j" for j using get no e1 by auto
  have "set wave \<subseteq> settled (eng_sm e)" using no w ph unfolding phase_def by blast
  moreover have "settled (eng_sm e1) = settled (eng_sm e)" by (simp add: settled_def eq)
  moreover have "life e1 = life e" by (simp add: life_def eq)
  ultimately show ?thesis using ph wf e1 unfolding phase_def eq by auto
qed

lemma twins_wave:
  assumes tw: "twins P Q R e e'" and w: "set wave \<subseteq> Q" and d: "distinct wave"
    and a: "arrivals wenv" "arrivals wenv'" and sa: "same_adapters env env'"
    and ok: "dispatch_ok env" and ne: "\<forall>i. \<not> escalates env i"
  obtains e1 e1' m1 where "run_wave c env wenv wave e m = Running e1 m1"
    and "run_wave c env' wenv' wave e' m = Running e1' m1" and "twins (P \<union> set wave) Q R e1 e1'"
proof -
  have ph: "phase P Q R e" "phase P Q R e'" and s: "same e e'" using tw by (simp_all add: twins_def)
  have ok': "dispatch_ok env'" and ne': "\<forall>i. \<not> escalates env' i" using same_adapters_facts [OF sa] ok ne by simp_all
  obtain e1 where cl: "Claim wave e = (Inr (filter (\<lambda>i. eng_get e i = Some StatusReady) wave), e1)"
    by (rule Claim_spec [OF d, of e])
  define ready where "ready = filter (\<lambda>i. eng_get e i = Some StatusReady) wave"
  have cl: "Claim wave e = (Inr ready, e1)" using cl by (simp add: ready_def)
  from same_Claim [OF cl s] obtain e1' where cl': "Claim wave e' = (Inr ready, e1')" and s1: "same e1 e1'" by blast
  show ?thesis
  proof (cases "ready = []")
    case True
    have "twins (P \<union> set wave) Q R e1 e1'"
      using empty_wave_phase [OF _ w d] ph cl cl' s1 True by (simp add: twins_def)
    from that [OF _ _ twins_Recompute [OF this, of c], of m] cl cl' True show ?thesis by (simp add: run_wave_def)
  next
    case False
    obtain b e2 m2 where co: "collect_results c env (we_arrival wenv ready) e1 m = (b, e2, m2)" by (metis prod_cases3)
    obtain b' e2' m2' where co': "collect_results c env (we_arrival wenv' ready) e1' m = (b', e2', m2')"
      by (metis prod_cases3)
    note co'' = co' [unfolded same_adapters_facts(3) [OF sa]]
    have p: "mset (we_arrival wenv ready) = mset (we_arrival wenv' ready)" "distinct (we_arrival wenv ready)"
      using a d distinct_perm [of "we_arrival wenv ready" ready] by (simp_all add: arrivals_def ready_def)
    from same_collect [OF ne p s1 co co'] have sc: "same e2 e2'" "m2 = m2'" by simp_all
    note v = wave_value [OF ph(1) w d a(1) ok ne cl False co]
    note v' = wave_value [OF ph(2) w d a(2) ok' ne' cl' False co'']
    have "twins (P \<union> set wave) Q R e2 e2'" using v(2) v'(2) sc(1) by (simp add: twins_def)
    from that [OF v(1) _ this] v'(1) sc(2) show ?thesis by simp
  qed
qed

lemma twins_waves:
  assumes "twins P Q R e e'" and "\<forall>w \<in> set waves. set w \<subseteq> Q \<and> distinct w"
    and a: "all_arrivals env" "all_arrivals env'" and sa: "same_adapters env env'"
    and ok: "dispatch_ok env" and ne: "\<forall>i. \<not> escalates env i"
  shows "\<exists>e1 e1' m1. run_waves c env l k waves e m = Running e1 m1 \<and>
    run_waves c env' l k waves e' m = Running e1' m1 \<and> twins (P \<union> set (concat waves)) Q R e1 e1'"
  using assms(1,2)
proof (induction waves arbitrary: P k e e' m)
  case (Cons w waves)
  have ar: "arrivals (re_wave env l k)" "arrivals (re_wave env' l k)" using a by (simp_all add: all_arrivals_def)
  have w: "set w \<subseteq> Q" "distinct w" using Cons.prems(2) by simp_all
  from twins_wave [OF Cons.prems(1) w ar sa ok ne] obtain e1 e1' m1
    where r: "run_wave c env (re_wave env l k) w e m = Running e1 m1"
      "run_wave c env' (re_wave env' l k) w e' m = Running e1' m1" "twins (P \<union> set w) Q R e1 e1'"
    by metis
  from Cons.IH [OF r(3), of "k + 1" m1] Cons.prems(2) r(1,2) show ?case by (simp add: Un_assoc)
qed auto

lemma twins_next_layer:
  assumes tw: "twins P {} (Q \<union> R) e e'" and ok: "map_ok c" and Q: "Q \<subseteq> set (node_ids c)"
    and dec: "decided_by c P Q"
  shows "twins P Q R (Recompute c e) (Recompute c e')"
proof -
  have "phase P Q R (Recompute c e)" "phase P Q R (Recompute c e')"
    using tw dec by (auto intro!: phase_next_layer [OF _ ok Q] simp: twins_def decided_by_def)
  moreover have "same (Recompute c e) (Recompute c e')"
    using twins_Recompute [OF tw, of c] by (simp add: twins_def)
  ultimately show ?thesis by (simp add: twins_def)
qed

lemma twins_layers:
  assumes "waves_for c wss (layer # layers)" and "layers_decided c (P \<union> set layer) layers"
    and "twins P (set layer) (set (concat layers)) e e'" and ok: "map_ok c"
    and "P \<union> set layer \<union> set (concat layers) = set (node_ids c)"
    and a: "all_arrivals env" "all_arrivals env'" and sa: "same_adapters env env'"
    and dis: "dispatch_ok env" and ne: "\<forall>i. \<not> escalates env i"
  shows "\<exists>e1 e1' m1. run_layers c env l wss e m = Running e1 m1 \<and>
    run_layers c env' l wss e' m = Running e1' m1 \<and> same e1 e1' \<and>
    gm_wf (eng_sm e1) \<and> gm_wf (eng_sm e1')"
  using assms(1,2,3,5)
proof (induction layers arbitrary: wss layer P l e e' m)
  case Nil
  then obtain ws where wss: "wss = [ws]" "ws \<noteq> []" "set (concat ws) = set layer" "\<forall>w \<in> set ws. distinct w"
    by (auto simp: waves_for_def list_all2_Cons2)
  have "\<forall>w \<in> set ws. set w \<subseteq> set layer \<and> distinct w" using wss by auto
  from twins_waves [OF Nil.prems(3) this a sa dis ne, of c l 0 m] obtain e1 e1' m1
    where r: "run_waves c env l 0 ws e m = Running e1 m1" "run_waves c env' l 0 ws e' m = Running e1' m1"
      "twins (P \<union> set (concat ws)) (set layer) (set (concat [])) e1 e1'" by blast
  from twins_Recompute [OF twins_Recompute [OF r(3), of c], of c] r(1,2) wss(1,2) show ?case
    by (simp add: twins_def phase_def)
next
  case (Cons layer2 layers)
  then obtain ws wss' where wss: "wss = ws # wss'" "ws \<noteq> []" "set (concat ws) = set layer"
      "\<forall>w \<in> set ws. distinct w" "waves_for c wss' (layer2 # layers)"
    by (auto simp: waves_for_def list_all2_Cons2)
  let ?P = "P \<union> set layer"
  have "\<forall>w \<in> set ws. set w \<subseteq> set layer \<and> distinct w" using wss by auto
  from twins_waves [OF Cons.prems(3) this a sa dis ne, of c l 0 m] obtain e1 e1' m1
    where r: "run_waves c env l 0 ws e m = Running e1 m1" "run_waves c env' l 0 ws e' m = Running e1' m1"
      "twins (P \<union> set (concat ws)) (set layer) (set (concat (layer2 # layers))) e1 e1'" by blast
  have "twins ?P {} (set layer2 \<union> set (concat layers)) e1 e1'"
    using r(3) wss(3) unfolding twins_def by (auto intro: phase_mono)
  then have tw: "twins ?P (set layer2) (set (concat layers)) (Recompute c e1) (Recompute c e1')"
    using Cons.prems(2,4) by (intro twins_next_layer [OF _ ok]) auto
  have "layers_decided c (?P \<union> set layer2) layers" using Cons.prems(2) by simp
  moreover have "?P \<union> set layer2 \<union> set (concat layers) = set (node_ids c)" using Cons.prems(4) by auto
  ultimately show ?case
    using Cons.IH [OF wss(5) _ tw, of "l + 1" m1] r(1,2) wss(1,2) by simp
qed

subsection \<open>Properties\<close>

text \<open>Two runs of one document with the same adapters end in the same states.\<close>

lemma runs_agree:
  assumes d: "distinct (unit_ids r)" and e: "edges_resolved r" and b: "Build r = Inr c"
    and act: "activations_ok r" and ok: "dispatch_ok env" and ne: "\<forall>i. \<not> escalates env i"
    and sa: "same_adapters env env'" and a: "all_arrivals env" "all_arrivals env'"
  shows "\<exists>out e1 out' e1'. RunLoop c env (ComputeWaves c r) (start c) = Some (Inr (out, e1)) \<and>
    RunLoop c env' (ComputeWaves c r) (start c) = Some (Inr (out', e1')) \<and>
    (\<forall>i. sm_GetState (out_StatusMap out) i = sm_GetState (out_StatusMap out') i) \<and>
    out_Metrics out = out_Metrics out'"
proof -
  have c: "c = sorted_graph r" using b by (simp add: Build_Inr_iff)
  have "\<exists>e1 e1' m1. run_layers c env 0 (ComputeWaves c r) (start c) zero_metrics = Running e1 m1 \<and>
    run_layers c env' 0 (ComputeWaves c r) (start c) zero_metrics = Running e1' m1 \<and> same e1 e1' \<and>
    gm_wf (eng_sm e1) \<and> gm_wf (eng_sm e1')"
  proof (cases "ceg_Layers c")
    case Nil
    then show ?thesis by (simp add: ComputeWaves_def same_def commit_New_def)
  next
    case (Cons layer layers)
    have "layers_decided c {} (ceg_Layers c)"
      unfolding c by (rule layers_decidedI, unfold Un_empty_left, rule decided_by_layers [OF d act])
    then have dec: "layers_decided c ({} \<union> set layer) layers" using Cons by simp
    have w: "waves_for c (ComputeWaves c r) (layer # layers)" using ComputeWaves_for [OF d b] Cons by simp
    have "twins {} (set layer) (set (concat layers)) (start c) (start c)"
      using phase_start(1) [OF d e b Cons] by (simp add: twins_def same_def)
    from twins_layers [OF w dec this _ _ a sa ok ne] show ?thesis
      using phase_start(2) [OF d e b Cons] sorted_graph_spec(4) [OF d] c by simp
  qed
  then show ?thesis
    by (auto simp: RunLoop_def same_def sm_GetState_def sm_All_get)
qed

text \<open>C11: when no node escalates, the final states of all nodes (status, outputs and artifacts) and the
  counters of a run do not depend on the order in which results arrive, on the times the adapters took, on
  the clock or on cancellation. The document has distinct identifiers, edges that name units and activations on
  units with an edge to the node, and every adapter returns success, failure or terminated, the same in both runs but
  for the times.\<close>

theorem RunLoop_deterministic:
  assumes d: "distinct (unit_ids r)" and e: "edges_resolved r" and b: "Build r = Inr c"
    and act: "activations_ok r" and ok: "dispatch_ok env" and ne: "\<forall>i. \<not> escalates env i"
    and sa: "same_adapters env env'" and a: "all_arrivals env" "all_arrivals env'"
  shows "\<exists>out e1 out' e1'. RunLoop c env (ComputeWaves c r) (start c) = Some (Inr (out, e1)) \<and>
    RunLoop c env' (ComputeWaves c r) (start c) = Some (Inr (out', e1')) \<and>
    (\<forall>i. sm_GetState (out_StatusMap out) i = sm_GetState (out_StatusMap out') i) \<and>
    out_Metrics out = out_Metrics out'"
  by (rule runs_agree [OF assms])

theorem RunLoop_deterministic_witness:
  "\<exists>out e1 out' e1'. RunLoop (sorted_graph diamond) one_fails (ComputeWaves (sorted_graph diamond) diamond)
       (start (sorted_graph diamond)) = Some (Inr (out, e1)) \<and>
     RunLoop (sorted_graph diamond) (sample_env (\<lambda>xs. xs) (re_dispatch one_fails))
       (ComputeWaves (sorted_graph diamond) diamond) (start (sorted_graph diamond)) = Some (Inr (out', e1')) \<and>
     sm_GetState (out_StatusMap out) ''c'' = sm_GetState (out_StatusMap out') ''c''"
proof -
  let ?env = "sample_env (\<lambda>xs. xs) (re_dispatch one_fails)"
  have "\<forall>i. \<not> escalates one_fails i"
    by (simp add: escalates_def one_fails_def sample_env_def sample_result_def)
  moreover have "same_adapters one_fails ?env" by (simp add: same_adapters_def sample_env_def)
  moreover have "all_arrivals ?env" by (simp add: all_arrivals_def arrivals_def sample_env_def)
  ultimately show ?thesis
    using RunLoop_deterministic [OF diamond_distinct diamond_resolved diamond_builds diamond_activations
        one_fails_dispatch _ _ one_fails_arrivals] by blast
qed

text \<open>Two independent units in one wave, of which \<open>a\<close> escalates.\<close>

definition two_units :: RIR where
  "two_units = sample_rir [sample_unit ''a'' ''all_success'' [], sample_unit ''b'' ''all_success'' []] [] []"

definition a_escalates :: "(string list \<Rightarrow> string list) \<Rightarrow> run_env" where
  "a_escalates arrival = sample_env arrival
     (\<lambda>i. Inr (sample_result (if i = ''a'' then StatusTerminated else StatusSuccess) (i = ''a'')))"

text \<open>With an escalation the final states do depend on the order of arrival: the unit that runs beside
  the escalating one is terminated or successful, as its result arrives second or first.\<close>

theorem escalation_order_matters:
  "final_statuses (RunLoop (sorted_graph two_units) (a_escalates (\<lambda>xs. xs))
     (ComputeWaves (sorted_graph two_units) two_units) (start (sorted_graph two_units))) [''a'', ''b'']
     = [Some StatusTerminated, Some StatusTerminated] \<and>
   final_statuses (RunLoop (sorted_graph two_units) (a_escalates rev)
     (ComputeWaves (sorted_graph two_units) two_units) (start (sorted_graph two_units))) [''a'', ''b'']
     = [Some StatusTerminated, Some StatusSuccess]"
proof
  show "final_statuses (RunLoop (sorted_graph two_units) (a_escalates (\<lambda>xs. xs))
     (ComputeWaves (sorted_graph two_units) two_units) (start (sorted_graph two_units))) [''a'', ''b'']
     = [Some StatusTerminated, Some StatusTerminated]" by code_simp
  show "final_statuses (RunLoop (sorted_graph two_units) (a_escalates rev)
     (ComputeWaves (sorted_graph two_units) two_units) (start (sorted_graph two_units))) [''a'', ''b'']
     = [Some StatusTerminated, Some StatusSuccess]" by code_simp
qed

end
