(* ===== verification/Mek_Dispatcher.thy ===== *)
theory Mek_Dispatcher
  imports Mek_Determinism
begin

text \<open>
  The dispatcher, \<open>mek/internal/dispatcher/dispatcher.go\<close>, and the assembly of the kernel,
  \<open>mek/internal/runtime/runtime.go\<close>. An adapter is a function of its execution context (the code
  passes it no inputs); errors are the texts the code formats, since the scheduler stores them as
  outputs. The time a dispatch takes is an argument.
\<close>

subsection \<open>Configuration\<close>

record AgentAdapterConfig =
  aac_Type :: string
  aac_Provider :: string
  aac_Allowlist :: "string list"
  aac_MaxToolInvocations :: int
  aac_MaxDurationMs :: int
  aac_Isolation :: string
  aac_FilesystemAccess :: string
  aac_NetworkAccess :: string

record ToolAdapterConfig =
  tac_Provider :: string
  tac_Idempotent :: bool
  tac_TimeoutMs :: int
  tac_Isolation :: string
  tac_FilesystemAccess :: string
  tac_NetworkAccess :: string

record ProviderConfig =
  prov_Type :: string
  prov_Config :: "(string, gval) gomap"

record AdapterConfig =
  cfg_AgentAdapters :: "(string, AgentAdapterConfig) gomap"
  cfg_ToolAdapters :: "(string, ToolAdapterConfig) gomap"
  cfg_Providers :: "(string, ProviderConfig) gomap"

type_synonym Adapter = "ExecutionContext \<Rightarrow> string + ExecutionResult"

record Dispatcher =
  disp_ceg :: CEG
  disp_cfg :: AdapterConfig
  disp_adapters :: "(string, Adapter) gomap"

definition dispatcher_New :: "CEG \<Rightarrow> AdapterConfig \<Rightarrow> Dispatcher" where
  "dispatcher_New c cfg = \<lparr>disp_ceg = c, disp_cfg = cfg, disp_adapters = []\<rparr>"

definition Register :: "string \<Rightarrow> Adapter \<Rightarrow> Dispatcher \<Rightarrow> Dispatcher" where
  "Register name adapter d = d\<lparr>disp_adapters := gm_put name adapter (disp_adapters d)\<rparr>"

subsection \<open>Gates\<close>

fun first_branch :: "GateBranch list \<Rightarrow> GateBranch option" where
  "first_branch [] = None"
| "first_branch (b # bs) =
     (if br_Condition b \<noteq> '''' \<and> length (br_Condition b) > length ''conditional:'' \<and>
         take 12 (br_Condition b) \<noteq> ''conditional:''
      then Some b else first_branch bs)"

definition evaluatePredicate :: "GateConfig \<Rightarrow> GateBranch" where
  "evaluatePredicate g =
     (case first_branch (gate_Branches g) of
        Some b \<Rightarrow> b
      | None \<Rightarrow> \<lparr>br_Condition = ''default'', br_Target = gate_Default g\<rparr>)"

definition blank_result :: "NodeStatus \<Rightarrow> int \<Rightarrow> ExecutionResult" where
  "blank_result s ms =
     \<lparr>er_Status = s, er_Outputs = None, er_Artifacts = None, er_Escalation = False, er_SelectedBranch = '''',
      er_Metrics = \<lparr>em_DurationMs = ms, em_TokensUsed = None\<rparr>\<rparr>"

definition dispatchGate :: "CEGNode \<Rightarrow> string + ExecutionResult" where
  "dispatchGate node =
     (case node_Gate node of
        None \<Rightarrow> Inl (''gate node '' @ node_ID node @ '' has no gate configuration'')
      | Some g \<Rightarrow>
          (let branch = evaluatePredicate g
           in if br_Target branch = ''ESCALATE''
              then Inr ((blank_result StatusTerminated 0)\<lparr>er_Escalation := True\<rparr>)
              else Inr ((blank_result StatusSuccess 0)\<lparr>er_SelectedBranch := br_Target branch\<rparr>)))"

subsection \<open>Adapters\<close>

definition buildContext :: "Dispatcher \<Rightarrow> CEGNode \<Rightarrow> ExecutionContext" where
  "buildContext d node =
     (let ctx0 = \<lparr>ec_ExecutionID = '''', ec_NodeID = node_ID node, ec_RegionID = '''', ec_TimeoutMs = 0,
                  ec_FilesystemScope = '''', ec_NetworkScope = ''''\<rparr>;
          ctx1 = (case gm_get (cfg_ToolAdapters (disp_cfg d)) (bind_Contract (node_Binding node)) of
                    None \<Rightarrow> ctx0
                  | Some cfg \<Rightarrow> ctx0\<lparr>ec_FilesystemScope := tac_FilesystemAccess cfg,
                                     ec_NetworkScope := tac_NetworkAccess cfg,
                                     ec_TimeoutMs := tac_TimeoutMs cfg\<rparr>)
      in case gm_get (cfg_AgentAdapters (disp_cfg d)) (bind_Contract (node_Binding node)) of
           None \<Rightarrow> ctx1
         | Some cfg \<Rightarrow> ctx1\<lparr>ec_FilesystemScope := aac_FilesystemAccess cfg,
                            ec_NetworkScope := aac_NetworkAccess cfg,
                            ec_TimeoutMs := aac_MaxDurationMs cfg\<rparr>)"

definition executeWithTimeout :: "CEGNode \<Rightarrow> int \<Rightarrow> string + ExecutionResult" where
  "executeWithTimeout node elapsed =
     Inr ((blank_result StatusSuccess elapsed)
       \<lparr>er_Outputs := Some [(''message'', VStr (''node '' @ node_ID node @ '' executed successfully''))]\<rparr>)"

fun unit_type_name :: "UnitType \<Rightarrow> string" where
  "unit_type_name UnitAgent = ''agent''"
| "unit_type_name UnitCapability = ''capability''"
| "unit_type_name UnitTask = ''task''"
| "unit_type_name UnitGate = ''gate''"
| "unit_type_name UnitCheckpoint = ''checkpoint''"
| "unit_type_name (UnitOther s) = s"

definition dispatchAdapter :: "Dispatcher \<Rightarrow> CEGNode \<Rightarrow> int \<Rightarrow> string + ExecutionResult" where
  "dispatchAdapter d node elapsed =
     (let contract = bind_Contract (node_Binding node)
      in if node_Type node = UnitAgent \<and> gm_get (cfg_AgentAdapters (disp_cfg d)) contract \<noteq> None
         then executeWithTimeout node elapsed
         else if gm_get (cfg_ToolAdapters (disp_cfg d)) contract \<noteq> None
         then executeWithTimeout node elapsed
         else case gm_get (disp_adapters d) contract of
                Some adapter \<Rightarrow>
                  (case adapter (buildContext d node) of
                     Inl err \<Rightarrow> Inr ((blank_result StatusFailure elapsed)\<lparr>er_Outputs := Some [(''error'', VStr err)]\<rparr>)
                   | Inr result \<Rightarrow> Inr (result\<lparr>er_Metrics := (er_Metrics result)\<lparr>em_DurationMs := elapsed\<rparr>\<rparr>))
              | None \<Rightarrow>
                  if contract = ''internal/noop'' then Inr (blank_result StatusSuccess elapsed)
                  else if contract = ''internal/echo''
                  then Inr ((blank_result StatusSuccess elapsed)\<lparr>er_Outputs := Some [(''echo'', VStr (node_ID node))]\<rparr>)
                  else Inl (''no adapter found for contract '' @ contract @ '' (node '' @ node_ID node
                            @ '' type '' @ unit_type_name (node_Type node) @ '')''))"

definition Dispatch :: "Dispatcher \<Rightarrow> (string \<Rightarrow> int) \<Rightarrow> string \<Rightarrow> string + ExecutionResult" where
  "Dispatch d elapsed nodeID =
     (case ceg_node (disp_ceg d) nodeID of
        None \<Rightarrow> Inl (''node '' @ nodeID @ '' not found in CEG'')
      | Some node \<Rightarrow>
          if node_Type node = UnitGate then dispatchGate node
          else dispatchAdapter d node (elapsed nodeID))"

subsection \<open>What the scheduler relies on\<close>

text \<open>The contract of an executor: what it returns is a terminal status of a running node. The scheduler's
  termination lemma is restated under it.\<close>

locale executor =
  fixes exec :: "string \<Rightarrow> string + ExecutionResult"
  assumes terminal: "exec i = Inr r \<Longrightarrow> result_status r \<in> {StatusSuccess, StatusFailure, StatusTerminated}"
begin

lemma dispatch_ok: "re_dispatch env = exec \<Longrightarrow> dispatch_ok env"
  using terminal by (auto simp: dispatch_ok_def dispatch_status_def split: sum.splits)

lemma run_ends:
  assumes "distinct (unit_ids r)" and "edges_resolved r" and "Build r = Inr c"
    and "activations_ok r" and "re_dispatch env = exec" and "all_arrivals env"
  shows "run_ok False (ended (set (node_ids c))) (ended (set (node_ids c)))
    (run_layers c env 0 (ComputeWaves c r) (start c) m)"
  using assms dispatch_ok [OF assms(5)] by (intro ended_run) simp_all

end

definition adapters_ok :: "Dispatcher \<Rightarrow> bool" where
  "adapters_ok d \<longleftrightarrow> (\<forall>name a. gm_get (disp_adapters d) name = Some a \<longrightarrow>
     (\<forall>ctx r. a ctx = Inr r \<longrightarrow> result_status r \<in> {StatusSuccess, StatusFailure, StatusTerminated}))"

lemma blank_status [simp]: "result_status (blank_result s ms) = s"
  by (simp add: blank_result_def result_status_def)

lemma result_status_outputs [simp]:
  "result_status (r\<lparr>er_Outputs := x\<rparr>) = result_status r" "result_status (r\<lparr>er_SelectedBranch := b\<rparr>) = result_status r"
  "result_status (r\<lparr>er_Metrics := m\<rparr>) = result_status r" "result_status (r\<lparr>er_Escalation := True\<rparr>) = StatusTerminated"
  by (simp_all add: result_status_def)

lemma dispatchGate_status:
  "dispatchGate n = Inr r \<Longrightarrow> result_status r \<in> {StatusSuccess, StatusTerminated}"
  by (auto simp: dispatchGate_def Let_def split: option.splits if_splits)

lemma dispatchAdapter_status:
  assumes "adapters_ok d" and "dispatchAdapter d n ms = Inr r"
  shows "result_status r \<in> {StatusSuccess, StatusFailure, StatusTerminated}"
proof (cases "gm_get (disp_adapters d) (bind_Contract (node_Binding n))")
  case None
  with assms(2) show ?thesis
    by (auto simp: dispatchAdapter_def executeWithTimeout_def Let_def split: if_splits)
next
  case (Some a)
  show ?thesis
  proof (cases "a (buildContext d n)")
    case (Inl err)
    with assms(2) Some show ?thesis
      by (auto simp: dispatchAdapter_def executeWithTimeout_def Let_def split: if_splits)
  next
    case (Inr x)
    have "result_status x \<in> {StatusSuccess, StatusFailure, StatusTerminated}"
      using assms(1) Some Inr unfolding adapters_ok_def by blast
    with assms(2) Some Inr show ?thesis
      by (auto simp: dispatchAdapter_def executeWithTimeout_def Let_def split: if_splits)
  qed
qed

lemma Dispatch_status:
  "adapters_ok d \<Longrightarrow> Dispatch d el i = Inr r \<Longrightarrow> result_status r \<in> {StatusSuccess, StatusFailure, StatusTerminated}"
  using dispatchGate_status dispatchAdapter_status
  by (fastforce simp: Dispatch_def split: option.splits if_splits)

text \<open>The kernel's own dispatcher has no registered adapter, so it is an executor.\<close>

definition kernel_dispatch :: "CEG \<Rightarrow> AdapterConfig \<Rightarrow> (string \<Rightarrow> int) \<Rightarrow> string \<Rightarrow> string + ExecutionResult" where
  "kernel_dispatch c cfg elapsed = Dispatch (dispatcher_New c cfg) elapsed"

interpretation kd: executor "kernel_dispatch c cfg elapsed" for c cfg elapsed
proof
  fix i r assume "kernel_dispatch c cfg elapsed i = Inr r"
  moreover have "adapters_ok (dispatcher_New c cfg)" by (simp add: adapters_ok_def dispatcher_New_def)
  ultimately show "result_status r \<in> {StatusSuccess, StatusFailure, StatusTerminated}"
    using Dispatch_status unfolding kernel_dispatch_def by blast
qed

subsection \<open>The kernel\<close>

datatype new_error = LoadFailed load_error | BuildFailed build_error

record MEK =
  mek_rir :: RIR
  mek_ceg :: CEG
  mek_engine :: Engine
  mek_waves :: "string list list list"
  mek_cfg :: AdapterConfig

definition default_config :: AdapterConfig where
  "default_config = \<lparr>cfg_AgentAdapters = [], cfg_ToolAdapters = [], cfg_Providers = []\<rparr>"

definition mek_New ::
  "(string \<Rightarrow> string option) \<Rightarrow> (string \<Rightarrow> RIR option) \<Rightarrow> string \<Rightarrow> AdapterConfig option \<Rightarrow> new_error + MEK" where
  "mek_New read_file parse rirPath cfg0 =
     (let cfg = (case cfg0 of None \<Rightarrow> default_config | Some c \<Rightarrow> c)
      in case Load read_file parse rirPath of
           Inl e \<Rightarrow> Inl (LoadFailed e)
         | Inr r \<Rightarrow>
             (case Build r of
                Inl e \<Rightarrow> Inl (BuildFailed e)
              | Inr c \<Rightarrow>
                  Inr \<lparr>mek_rir = r, mek_ceg = c, mek_engine = InitStatusMap c (commit_New []),
                       mek_waves = ComputeWaves c r, mek_cfg = cfg\<rparr>))"

text \<open>\<open>Run\<close> passes the dispatcher of the kernel to the loop. The environment's own adapters are replaced.\<close>

definition kernel_env :: "MEK \<Rightarrow> (string \<Rightarrow> int) \<Rightarrow> run_env \<Rightarrow> run_env" where
  "kernel_env m elapsed env = env\<lparr>re_dispatch := kernel_dispatch (mek_ceg m) (mek_cfg m) elapsed\<rparr>"

definition mek_Run ::
  "MEK \<Rightarrow> (string \<Rightarrow> int) \<Rightarrow> int \<Rightarrow> run_env \<Rightarrow> ((string \<times> commit_error) + MEKOutput \<times> MEK) option" where
  "mek_Run m elapsed total_ms env =
     (case RunLoop (mek_ceg m) (kernel_env m elapsed env) (mek_waves m) (mek_engine m) of
        None \<Rightarrow> None
      | Some (Inl e) \<Rightarrow> Some (Inl e)
      | Some (Inr (out, e)) \<Rightarrow>
          Some (Inr (out\<lparr>out_Metrics := (out_Metrics out)\<lparr>mm_TotalDurationMs := total_ms\<rparr>\<rparr>, m\<lparr>mek_engine := e\<rparr>)))"

lemma mek_New_Inr:
  assumes "mek_New rd ps path cfg = Inr m"
  shows "distinct (unit_ids (mek_rir m))" and "Build (mek_rir m) = Inr (mek_ceg m)"
    and "mek_engine m = start (mek_ceg m)" and "mek_waves m = ComputeWaves (mek_ceg m) (mek_rir m)"
    and "Validate (mek_rir m) = None"
proof -
  obtain r c where rc: "Load rd ps path = Inr r" "Build r = Inr c"
    and m: "mek_rir m = r" "mek_ceg m = c" "mek_engine m = start c" "mek_waves m = ComputeWaves c r"
    using assms by (auto simp: mek_New_def Let_def split: sum.splits)
  show "Validate (mek_rir m) = None" using Load_Inr [OF rc(1)] m(1) by simp
  then show "distinct (unit_ids (mek_rir m))" by (rule Validate_distinct)
  show "Build (mek_rir m) = Inr (mek_ceg m)" "mek_engine m = start (mek_ceg m)"
    "mek_waves m = ComputeWaves (mek_ceg m) (mek_rir m)" using rc m by simp_all
qed

lemma kernel_env_arrivals: "all_arrivals (kernel_env m el env) = all_arrivals env"
  by (simp add: kernel_env_def all_arrivals_def)

subsection \<open>Documents that the kernel does not execute\<close>

text \<open>A node whose condition is neither of the two the kernel evaluates is never ready.\<close>

definition inert :: "CEGNode \<Rightarrow> bool" where
  "inert n \<longleftrightarrow> act_Condition (node_Activation n) \<notin> {''all_success'', ''any_success''}"

lemma inert_activation: "inert n \<Longrightarrow> \<not> EvaluateActivation n sm \<and> \<not> ShouldSkip n sm"
  by (auto simp: inert_def EvaluateActivation_iff ShouldSkip_iff)

definition quiet :: "Engine \<Rightarrow> bool" where
  "quiet e \<longleftrightarrow> (\<forall>i. eng_get e i \<in> {None, Some StatusBlocked, Some StatusSkipped})"

lemma quiet_get: "quiet e \<Longrightarrow> eng_get e i \<in> {None, Some StatusBlocked, Some StatusSkipped}"
  unfolding quiet_def by blast

lemma quiet_put: "quiet e \<Longrightarrow> s \<in> {StatusBlocked, StatusSkipped} \<Longrightarrow> quiet (commit_drop i s r e)"
  unfolding quiet_def
proof (intro allI)
  fix j assume q: "\<forall>i. eng_get e i \<in> {None, Some StatusBlocked, Some StatusSkipped}"
    and s: "s \<in> {StatusBlocked, StatusSkipped}"
  have "eng_get e i \<in> {None, Some StatusBlocked, Some StatusSkipped}" using q by blast
  with s have "Some (next_status (eng_get e i) s) \<in> {None, Some StatusBlocked, Some StatusSkipped}" by auto
  with q show "eng_get (commit_drop i s r e) j \<in> {None, Some StatusBlocked, Some StatusSkipped}"
    unfolding commit_drop_get by (cases "j = i") simp_all
qed

lemma inert_recompute:
  assumes "\<And>i n. ceg_node c i = Some n \<Longrightarrow> inert n"
  shows "Recompute c e = e"
proof -
  have "recompute_node c i e = e" for i e
    using assms inert_activation by (auto simp: recompute_node_def split: option.splits)
  then have "fold (recompute_node c) xs e = e" for xs
    by (induction xs) simp_all
  then show ?thesis by (simp add: Recompute_def)
qed

lemma quiet_claim: "quiet e \<Longrightarrow> Claim wave e = (Inr [], e)"
proof -
  assume q: "quiet e"
  have "eng_get e i \<noteq> Some StatusReady" for i using quiet_get [OF q, of i] by auto
  then have "claim_nodes wave ready e = (Inr ready, e)" for ready
    by (induction wave) simp_all
  then show ?thesis by (simp add: Claim_def)
qed

lemma inert_run_layers:
  assumes i: "\<And>i n. ceg_node c i = Some n \<Longrightarrow> inert n" and q: "quiet e"
  shows "run_layers c env l wss e m = Running e m"
proof -
  have w: "run_wave c env wenv w e m = Running e m" for wenv w
    by (simp add: run_wave_def quiet_claim [OF q] inert_recompute [OF i])
  have "run_waves c env l k ws e m = Running e m" for l k ws
    by (induction ws arbitrary: k) (simp_all add: w)
  then show ?thesis by (induction wss arbitrary: l) (simp_all add: inert_recompute [OF i])
qed

lemma inert_start:
  assumes ok: "map_ok c" and i: "\<And>n. n \<in> set (ceg_Nodes c) \<Longrightarrow> inert n"
  shows "quiet (start c)"
proof -
  have "quiet (init_node c n e)" if "n \<in> set (ceg_Nodes c)" "quiet e" for n e
    using that i inert_activation [of n "eng_sm e"] by (simp add: init_node_def quiet_put)
  then show ?thesis
    unfolding InitStatusMap_def
    by (rule fold_invariant [where P = quiet, rotated]) (simp_all add: quiet_def commit_New_def sm_Get_def)
qed

subsection \<open>Properties\<close>

text \<open>C14: from loading to the end: a kernel made from a document that declares its activations on edges runs
  to completion with its own dispatcher, every unit terminal, whatever the order of arrival.\<close>

theorem kernel_terminates:
  assumes n: "mek_New rd ps path cfg = Inr m" and "edges_resolved (mek_rir m)" and "activations_ok (mek_rir m)"
    and "all_arrivals env"
  shows "\<exists>out m'. mek_Run m elapsed total_ms env = Some (Inr (out, m')) \<and>
    (\<forall>i \<in> set (unit_ids (mek_rir m)). \<exists>s. sm_Get (out_StatusMap out) i = Some s \<and> IsTerminal s)"
proof -
  note k = mek_New_Inr [OF n]
  let ?env = "kernel_env m elapsed env"
  have a: "all_arrivals ?env" using assms(4) by (simp add: kernel_env_arrivals)
  have d: "re_dispatch ?env = kernel_dispatch (mek_ceg m) (mek_cfg m) elapsed" by (simp add: kernel_env_def)
  note en = RunLoop_cases [OF kd.run_ends [OF k(1) assms(2) k(2) assms(3) d a]]
  then obtain out e' where run: "RunLoop (mek_ceg m) ?env (mek_waves m) (mek_engine m) = Some (Inr (out, e'))"
    and e: "ended (set (node_ids (mek_ceg m))) e'" and out: "out_StatusMap out = sm_All (eng_sm e')"
    unfolding k(3,4) by (auto split: option.splits sum.splits)
  have "gm_wf (eng_sm e')"
    using RunLoop_cases [OF secure_run [OF k(1,2) a]] run unfolding k(3,4) by (simp add: secure_def)
  moreover have "node_ids (mek_ceg m) = unit_ids (mek_rir m)"
    using sorted_graph_spec(1) [OF k(1)] k(2) by (simp add: Build_Inr_iff)
  ultimately have "\<forall>i \<in> set (unit_ids (mek_rir m)). \<exists>s. sm_Get (out_StatusMap out) i = Some s \<and> IsTerminal s"
    using e by (auto simp: ended_def settled_iff out Get_sm_All subset_iff simp del: IsTerminal.simps)
  with run show ?thesis by (simp add: mek_Run_def)
qed

text \<open>A document the compiler wrote is never executed: its units carry the condition \<open>true\<close>, which the
  kernel does not evaluate, so the run ends with no node executed and every unit skipped or blocked.\<close>

theorem compiled_document_not_executed:
  assumes n: "mek_New rd ps path cfg = Inr m" and r: "mek_rir m = Compile files p root"
  shows "\<exists>out m'. mek_Run m elapsed total_ms env = Some (Inr (out, m')) \<and>
    mm_NodesExecuted (out_Metrics out) = 0 \<and>
    (\<forall>u \<in> set (rir_Units (mek_rir m)).
       sm_Get (out_StatusMap out) (unit_ID u) \<in> {Some StatusBlocked, Some StatusSkipped})"
proof -
  note k = mek_New_Inr [OF n]
  have c: "mek_ceg m = sorted_graph (mek_rir m)" using k(2) by (simp add: Build_Inr_iff)
  have ok: "map_ok (mek_ceg m)" using sorted_graph_spec(4) [OF k(1)] c by simp
  have i: "inert x" if xn: "x \<in> set (ceg_Nodes (mek_ceg m))" for x
  proof -
    obtain u where "u \<in> set (rir_Units (mek_rir m))" "unit_Activation u = node_Activation x"
      by (rule sorted_graph_unit [OF k(1) xn [unfolded c]])
    with Compile_units [of u files p root] r show ?thesis by (auto simp: inert_def plain_unit_def)
  qed
  have i': "inert x" if "ceg_node (mek_ceg m) j = Some x" for j x using that map_ok_node [OF ok] i by blast
  note q = inert_start [OF ok i]
  have run: "RunLoop (mek_ceg m) (kernel_env m elapsed env) (mek_waves m) (mek_engine m) =
      Some (Inr (\<lparr>out_StatusMap = sm_All (eng_sm (mek_engine m)), out_Metrics = zero_metrics\<rparr>, mek_engine m))"
    unfolding RunLoop_def k(3) using inert_run_layers [OF i' q] by simp
  have "gm_wf (eng_sm (mek_engine m))" unfolding k(3) by (simp add: commit_New_def)
  moreover have "eng_get (mek_engine m) (unit_ID u) \<noteq> None" if "u \<in> set (rir_Units (mek_rir m))" for u
  proof -
    have "unit_ID u \<in> set (node_ids (mek_ceg m))" using sorted_graph_spec(1) [OF k(1)] c that by simp
    from init_get(2) [OF ok this] show ?thesis unfolding k(3) by auto
  qed
  ultimately have "\<forall>u \<in> set (rir_Units (mek_rir m)).
      sm_Get (sm_All (eng_sm (mek_engine m))) (unit_ID u) \<in> {Some StatusBlocked, Some StatusSkipped}"
    using q unfolding quiet_def k(3) Get_sm_All [OF \<open>gm_wf (eng_sm (mek_engine m))\<close>, unfolded k(3)] by blast
  with run show ?thesis by (simp add: mek_Run_def zero_metrics_def)
qed

text \<open>A gate never takes a branch whose condition has at most twelve characters: the length test that
  guards the comparison with \<open>conditional:\<close> also rejects every short condition.\<close>

theorem short_conditions_default:
  assumes "\<forall>b \<in> set (gate_Branches g). length (br_Condition b) \<le> 12"
  shows "evaluatePredicate g = \<lparr>br_Condition = ''default'', br_Target = gate_Default g\<rparr>"
proof -
  have "first_branch bs = None" if "\<forall>b \<in> set bs. length (br_Condition b) \<le> 12" for bs
    using that by (induction bs) auto
  with assms show ?thesis by (simp add: evaluatePredicate_def)
qed

text \<open>A dispatch of a gate never fails the node: it succeeds with the target of the first eligible branch
  (or the default), and escalates exactly when that target is \<open>ESCALATE\<close>.\<close>

theorem Dispatch_gate:
  assumes "ceg_node (disp_ceg d) i = Some n" and "node_Type n = UnitGate" and "node_Gate n = Some g"
  shows "\<exists>r. Dispatch d elapsed i = Inr r \<and>
    (if br_Target (evaluatePredicate g) = ''ESCALATE''
     then er_Escalation r \<and> result_status r = StatusTerminated
     else \<not> er_Escalation r \<and> result_status r = StatusSuccess \<and>
          er_SelectedBranch r = br_Target (evaluatePredicate g))"
  using assms by (simp add: Dispatch_def dispatchGate_def Let_def blank_result_def result_status_def)

subsection \<open>Witnesses\<close>

lemma diamond_New:
  "mek_New (\<lambda>_. Some ''doc'') (\<lambda>_. Some diamond) ''f'' None =
     Inr \<lparr>mek_rir = diamond, mek_ceg = sorted_graph diamond, mek_engine = start (sorted_graph diamond),
          mek_waves = ComputeWaves (sorted_graph diamond) diamond, mek_cfg = default_config\<rparr>"
proof -
  have "Validate diamond = None" by code_simp
  then show ?thesis by (simp add: mek_New_def Load_def diamond_builds)
qed

theorem kernel_terminates_witness:
  "\<exists>m out m'. mek_New (\<lambda>_. Some ''doc'') (\<lambda>_. Some diamond) ''f'' None = Inr m \<and>
     mek_Run m (\<lambda>_. 1) 5 one_fails = Some (Inr (out, m'))"
proof -
  have "edges_resolved diamond" "activations_ok diamond"
    by (rule diamond_resolved, rule diamond_activations)
  then show ?thesis
    using kernel_terminates [OF diamond_New _ _ one_fails_arrivals, of "\<lambda>_. 1" 5] diamond_New by auto
qed

definition sample_compiled :: RIR where
  "sample_compiled = Compile sample_scan ''/app'' ''/app''"

theorem compiled_document_not_executed_witness:
  "\<exists>m out m'. mek_New (\<lambda>_. Some ''doc'') (\<lambda>_. Some sample_compiled) ''f'' None = Inr m \<and>
     mek_Run m (\<lambda>_. 1) 5 one_fails = Some (Inr (out, m')) \<and> mm_NodesExecuted (out_Metrics out) = 0"
proof -
  have "Validate sample_compiled = None" "validate (sorted_graph sample_compiled) = None" by code_simp+
  then obtain m where m: "mek_New (\<lambda>_. Some ''doc'') (\<lambda>_. Some sample_compiled) ''f'' None = Inr m"
    and r: "mek_rir m = Compile sample_scan ''/app'' ''/app''"
    by (simp add: mek_New_def Load_def Build_Inr_iff [THEN iffD2] sample_compiled_def)
  from compiled_document_not_executed [OF m r, of "\<lambda>_. 1" 5 one_fails] m show ?thesis by blast
qed

definition sample_gate :: GateConfig where
  "sample_gate = \<lparr>gate_Branches = [\<lparr>br_Condition = ''approved'', br_Target = ''deploy''\<rparr>], gate_Default = ''stop''\<rparr>"

theorem short_conditions_default_witness: "br_Target (evaluatePredicate sample_gate) = ''stop''"
  using short_conditions_default [of sample_gate] by (simp add: sample_gate_def)

definition gate_ceg :: CEG where
  "gate_ceg = add_unit ((sample_unit ''g'' ''all_success'' [])\<lparr>unit_Type := UnitGate, unit_Gate := Some sample_gate\<rparr>)
     empty_ceg"

theorem Dispatch_gate_witness:
  "\<exists>r. Dispatch (dispatcher_New gate_ceg default_config) (\<lambda>_. 0) ''g'' = Inr r \<and> result_status r = StatusSuccess"
proof -
  have n: "ceg_node gate_ceg ''g'' = Some (hd (ceg_Nodes gate_ceg))" by code_simp
  have t: "node_Type (hd (ceg_Nodes gate_ceg)) = UnitGate" "node_Gate (hd (ceg_Nodes gate_ceg)) = Some sample_gate"
    by code_simp+
  have "br_Target (evaluatePredicate sample_gate) \<noteq> ''ESCALATE''" by code_simp
  with Dispatch_gate [of "dispatcher_New gate_ceg default_config" "''g''" _ sample_gate "\<lambda>_. 0"] n t
  show ?thesis by (auto simp: dispatcher_New_def)
qed

end
