(* ===== verification/Mek_Observe.thy ===== *)
theory Mek_Observe
  imports Mek_Commit
begin

text \<open>
  The passive observers of the commit engine: the journal (\<open>mek/internal/journal/journal.go\<close>) and the
  trace collector (\<open>mek/internal/trace/collector.go\<close>), and the per-execution store of variables
  (\<open>mek/internal/contextstore/store.go\<close>). An observer is a goroutine that receives events one at a
  time, so its run is a fold over the events; each event comes with the reading of the clock.

  The journal file is the list of its lines. \<open>encode\<close> stands for the JSON encoder, which writes one line or,
  on a value it cannot encode, nothing; the code drops its error.
\<close>

subsection \<open>Journal\<close>

record Entry =
  je_Sequence :: nat
  je_Timestamp :: string
  je_NodeID :: string
  je_FromStatus :: NodeStatus
  je_ToStatus :: NodeStatus
  je_Outputs :: "(string, gval) gomap option"
  je_Artifacts :: "string list option"

record Journal =
  j_file :: "string list"
  j_entries :: "Entry list"
  j_sequence :: nat

definition journal_New :: Journal where
  "journal_New = \<lparr>j_file = [], j_entries = [], j_sequence = 0\<rparr>"

text \<open>The backward search over the entries, as a search over the reversed list.\<close>

fun find_entry :: "string \<Rightarrow> Entry list \<Rightarrow> Entry option" where
  "find_entry i [] = None"
| "find_entry i (e # es) = (if je_NodeID e = i then Some e else find_entry i es)"

definition record_event :: "(Entry \<Rightarrow> string option) \<Rightarrow> CommitEvent \<times> string \<Rightarrow> Journal \<Rightarrow> Journal" where
  "record_event encode = (\<lambda>(evt, now) j.
     let entry = \<lparr>je_Sequence = j_sequence j, je_Timestamp = now, je_NodeID = ev_NodeID evt,
                  je_FromStatus = (case find_entry (ev_NodeID evt) (rev (j_entries j)) of
                                     None \<Rightarrow> StatusOther '''' | Some e \<Rightarrow> je_ToStatus e),
                  je_ToStatus = ev_NewStatus evt, je_Outputs = ev_Outputs evt, je_Artifacts = ev_Artifacts evt\<rparr>
     in \<lparr>j_file = j_file j @ (case encode entry of None \<Rightarrow> [] | Some l \<Rightarrow> [l]), j_entries = j_entries j @ [entry],
         j_sequence = j_sequence j + 1\<rparr>)"

definition journal_Subscribe :: "(Entry \<Rightarrow> string option) \<Rightarrow> (CommitEvent \<times> string) list \<Rightarrow> Journal \<Rightarrow> Journal" where
  "journal_Subscribe encode events j = fold (record_event encode) events j"

definition Entries :: "Journal \<Rightarrow> Entry list" where
  "Entries j = j_entries j"

definition NodeHistory :: "Journal \<Rightarrow> string \<Rightarrow> Entry list" where
  "NodeHistory j i = fold (\<lambda>e result. if je_NodeID e = i then result @ [e] else result) (j_entries j) []"

definition TerminalStatus :: "Journal \<Rightarrow> string \<Rightarrow> NodeStatus option" where
  "TerminalStatus j i = map_option je_ToStatus (find_entry i (rev (j_entries j)))"

subsection \<open>Trace collector\<close>

record Span =
  sp_ScheduledAt :: string
  sp_DispatchedAt :: string
  sp_StartedAt :: string
  sp_CompletedAt :: string
  sp_CommittedAt :: string
  sp_DurationMs :: int

record NodeTrace =
  tr_TraceID :: string
  tr_NodeID :: string
  tr_NodeType :: UnitType
  tr_Span :: Span
  tr_Inputs :: "(string, gval) gomap option"
  tr_Outputs :: "(string, gval) gomap option"
  tr_Artifacts :: "string list option"
  tr_TerminalStatus :: NodeStatus
  tr_Sequence :: nat

record TraceEvent =
  te_Sequence :: nat
  te_Type :: string
  te_NodeID :: string
  te_Status :: NodeStatus
  te_Trace :: NodeTrace

record Collector =
  col_traces :: "(string, NodeTrace) gomap"
  col_seq :: nat
  col_out :: "TraceEvent list"

definition NewCollector :: Collector where
  "NewCollector = \<lparr>col_traces = [], col_seq = 0, col_out = []\<rparr>"

definition inferType :: "string \<Rightarrow> UnitType" where
  "inferType nodeID = UnitCapability"

definition emit :: "string \<Rightarrow> string \<Rightarrow> NodeStatus \<Rightarrow> NodeTrace \<Rightarrow> Collector \<Rightarrow> Collector" where
  "emit evtType nodeID status trace c =
     (let n = col_seq c + 1;
          event = \<lparr>te_Sequence = n, te_Type = evtType, te_NodeID = nodeID, te_Status = status, te_Trace = trace\<rparr>
      in c\<lparr>col_seq := n, col_out := (if length (col_out c) < 1024 then col_out c @ [event] else col_out c)\<rparr>)"

definition new_trace :: "string \<Rightarrow> string \<Rightarrow> NodeTrace" where
  "new_trace nodeID now =
     \<lparr>tr_TraceID = nodeID @ ''-'' @ now, tr_NodeID = nodeID, tr_NodeType = inferType nodeID,
      tr_Span = \<lparr>sp_ScheduledAt = '''', sp_DispatchedAt = '''', sp_StartedAt = '''', sp_CompletedAt = '''',
                 sp_CommittedAt = '''', sp_DurationMs = 0\<rparr>,
      tr_Inputs = None, tr_Outputs = None, tr_Artifacts = None, tr_TerminalStatus = StatusOther '''',
      tr_Sequence = 0\<rparr>"

text \<open>The switch over the new status: the changed trace and the type of the event to emit, if any.\<close>

definition track :: "CommitEvent \<Rightarrow> string \<Rightarrow> NodeTrace \<Rightarrow> NodeTrace \<times> string option" where
  "track evt now t =
     (case ev_NewStatus evt of
        StatusRunning \<Rightarrow> (t\<lparr>tr_Span := (tr_Span t)\<lparr>sp_StartedAt := now\<rparr>\<rparr>, Some ''started'')
      | StatusSuccess \<Rightarrow>
          (t\<lparr>tr_Span := (tr_Span t)\<lparr>sp_CompletedAt := now, sp_CommittedAt := now\<rparr>,
             tr_Outputs := ev_Outputs evt, tr_Artifacts := ev_Artifacts evt,
             tr_TerminalStatus := StatusSuccess\<rparr>, Some ''committed'')
      | StatusFailure \<Rightarrow>
          (t\<lparr>tr_Span := (tr_Span t)\<lparr>sp_CompletedAt := now, sp_CommittedAt := now\<rparr>,
             tr_Outputs := ev_Outputs evt, tr_Artifacts := ev_Artifacts evt,
             tr_TerminalStatus := StatusFailure\<rparr>, Some ''failed'')
      | StatusSkipped \<Rightarrow>
          (t\<lparr>tr_Span := (tr_Span t)\<lparr>sp_CommittedAt := now\<rparr>, tr_TerminalStatus := StatusSkipped\<rparr>, Some ''skipped'')
      | StatusTerminated \<Rightarrow>
          (t\<lparr>tr_Span := (tr_Span t)\<lparr>sp_CommittedAt := now\<rparr>, tr_TerminalStatus := StatusTerminated\<rparr>,
           Some ''terminated'')
      | StatusReady \<Rightarrow> (t\<lparr>tr_Span := (tr_Span t)\<lparr>sp_ScheduledAt := now\<rparr>\<rparr>, Some ''scheduled'')
      | StatusBlocked \<Rightarrow> (t, None)
      | StatusOther _ \<Rightarrow> (t, None))"

definition process_event :: "CommitEvent \<times> string \<Rightarrow> Collector \<Rightarrow> Collector" where
  "process_event = (\<lambda>(evt, now) c.
     let trace = (case gm_get (col_traces c) (ev_NodeID evt) of
                    None \<Rightarrow> new_trace (ev_NodeID evt) now | Some t \<Rightarrow> t)
     in case track evt now trace of
          (trace', kind) \<Rightarrow>
            (let c1 = c\<lparr>col_traces := gm_put (ev_NodeID evt) trace' (col_traces c)\<rparr>
             in case kind of
                  None \<Rightarrow> c1
                | Some k \<Rightarrow> emit k (ev_NodeID evt) (ev_NewStatus evt) trace' c1))"

definition trace_Subscribe :: "(CommitEvent \<times> string) list \<Rightarrow> Collector \<Rightarrow> Collector" where
  "trace_Subscribe events c = fold process_event events c"

definition Trace :: "Collector \<Rightarrow> string \<Rightarrow> NodeTrace option" where
  "Trace c i = gm_get (col_traces c) i"

definition AllTraces :: "Collector \<Rightarrow> (string, NodeTrace) gomap" where
  "AllTraces c = fold (\<lambda>(k, v) out. gm_put k v out) (col_traces c) []"

definition TerminalStatuses :: "Collector \<Rightarrow> (string, NodeStatus) gomap" where
  "TerminalStatuses c = fold (\<lambda>(k, v) out. gm_put k (tr_TerminalStatus v) out) (col_traces c) []"

subsection \<open>Context store\<close>

record Store =
  st_variables :: "(string, gval) gomap"
  st_artifacts :: "string list"

definition store_New :: Store where
  "store_New = \<lparr>st_variables = [], st_artifacts = []\<rparr>"

definition SetVar :: "string \<Rightarrow> gval \<Rightarrow> Store \<Rightarrow> Store" where
  "SetVar key value s = s\<lparr>st_variables := gm_put key value (st_variables s)\<rparr>"

definition GetVar :: "Store \<Rightarrow> string \<Rightarrow> gval option" where
  "GetVar s key = gm_get (st_variables s) key"

definition AddArtifact :: "string \<Rightarrow> Store \<Rightarrow> Store" where
  "AddArtifact ref s = s\<lparr>st_artifacts := st_artifacts s @ [ref]\<rparr>"

definition Artifacts :: "Store \<Rightarrow> string list" where
  "Artifacts s = st_artifacts s"

subsection \<open>Journal: lemmas\<close>

text \<open>The specification: the last event of a node.\<close>

fun last_status :: "string \<Rightarrow> (CommitEvent \<times> string) list \<Rightarrow> NodeStatus option" where
  "last_status i [] = None"
| "last_status i ((evt, now) # evs) =
     (case last_status i evs of
        Some s \<Rightarrow> Some s
      | None \<Rightarrow> if ev_NodeID evt = i then Some (ev_NewStatus evt) else None)"

lemma last_status_snoc:
  "last_status i (evs @ [(evt, now)]) = (if ev_NodeID evt = i then Some (ev_NewStatus evt) else last_status i evs)"
  by (induction evs rule: last_status.induct) (auto split: option.splits)

lemma journal_Subscribe_snoc:
  "journal_Subscribe enc (evs @ [p]) j = record_event enc p (journal_Subscribe enc evs j)"
  by (simp add: journal_Subscribe_def)

lemma record_event_entries:
  "\<exists>entry. j_entries (record_event enc (evt, now) j) = j_entries j @ [entry] \<and>
     j_file (record_event enc (evt, now) j) = j_file j @ List.map_filter enc [entry] \<and>
     j_sequence (record_event enc (evt, now) j) = Suc (j_sequence j) \<and>
     je_NodeID entry = ev_NodeID evt \<and> je_ToStatus entry = ev_NewStatus evt \<and>
     je_Sequence entry = j_sequence j \<and>
     je_FromStatus entry = (case TerminalStatus j (ev_NodeID evt) of None \<Rightarrow> StatusOther '''' | Some s \<Rightarrow> s)"
  by (auto simp: record_event_def Let_def TerminalStatus_def map_filter_simps split: option.splits)

lemma TerminalStatus_record:
  "TerminalStatus (record_event enc (evt, now) j) i =
     (if ev_NodeID evt = i then Some (ev_NewStatus evt) else TerminalStatus j i)"
  using record_event_entries [of enc evt now j] by (auto simp: TerminalStatus_def)

lemma TerminalStatus_Subscribe: "TerminalStatus (journal_Subscribe enc evs journal_New) i = last_status i evs"
proof (induction evs rule: rev_induct)
  case Nil
  then show ?case by (simp add: journal_Subscribe_def journal_New_def TerminalStatus_def)
next
  case (snoc p evs)
  obtain evt now where "p = (evt, now)" by fastforce
  with snoc show ?case by (simp add: journal_Subscribe_snoc TerminalStatus_record last_status_snoc)
qed

lemma map_eq_nth:
  assumes "map f xs = map g ys" and "n < length ys"
  shows "f (xs ! n) = g (ys ! n)"
  using assms by (metis length_map nth_map)

lemma journal_shape:
  fixes enc :: "Entry \<Rightarrow> string option"
  defines "J evs \<equiv> journal_Subscribe enc evs journal_New"
  shows "j_file (J evs) = List.map_filter enc (j_entries (J evs)) \<and> j_sequence (J evs) = length evs \<and>
    map je_Sequence (j_entries (J evs)) = [0..<length evs] \<and>
    map je_NodeID (j_entries (J evs)) = map (ev_NodeID \<circ> fst) evs \<and>
    map je_ToStatus (j_entries (J evs)) = map (ev_NewStatus \<circ> fst) evs"
proof (induction evs rule: rev_induct)
  case Nil
  then show ?case by (simp add: J_def journal_Subscribe_def journal_New_def map_filter_simps)
next
  case (snoc p evs)
  obtain evt now where p: "p = (evt, now)" by fastforce
  have "J (evs @ [p]) = record_event enc (evt, now) (J evs)" by (simp add: J_def journal_Subscribe_snoc p)
  with record_event_entries [of enc evt now "J evs"] snoc p show ?case by (auto simp: map_filter_def)
qed

lemma NodeHistory_filter: "NodeHistory j i = filter (\<lambda>e. je_NodeID e = i) (j_entries j)"
proof -
  have f: "fold (\<lambda>e result. if je_NodeID e = i then result @ [e] else result) es acc = acc @ filter (\<lambda>e. je_NodeID e = i) es"
    for es acc
    by (induction es arbitrary: acc) auto
  show ?thesis by (simp add: NodeHistory_def f)
qed

lemma find_entry_last:
  "find_entry i (rev es) = (let h = filter (\<lambda>e. je_NodeID e = i) es in if h = [] then None else Some (last h))"
  by (induction es rule: rev_induct) (auto simp: Let_def)

text \<open>The history of a node is a chain: each entry starts from the status the one before ended with.\<close>

fun linked :: "NodeStatus \<Rightarrow> Entry list \<Rightarrow> bool" where
  "linked s [] = True"
| "linked s (e # es) = (je_FromStatus e = s \<and> linked (je_ToStatus e) es)"

lemma linked_snoc:
  "linked s (es @ [e]) \<longleftrightarrow> linked s es \<and> je_FromStatus e = (if es = [] then s else je_ToStatus (last es))"
  by (induction s es rule: linked.induct) auto

lemma history_linked: "linked (StatusOther '''') (NodeHistory (journal_Subscribe enc evs journal_New) i)"
proof (induction evs rule: rev_induct)
  case Nil
  then show ?case by (simp add: journal_Subscribe_def journal_New_def NodeHistory_def)
next
  case (snoc p evs)
  obtain evt now where p: "p = (evt, now)" by fastforce
  let ?j = "journal_Subscribe enc evs journal_New"
  obtain entry where e: "j_entries (record_event enc (evt, now) ?j) = j_entries ?j @ [entry]"
    "je_NodeID entry = ev_NodeID evt"
    "je_FromStatus entry = (case TerminalStatus ?j (ev_NodeID evt) of None \<Rightarrow> StatusOther '''' | Some s \<Rightarrow> s)"
    using record_event_entries [of enc evt now ?j] by blast
  show ?case
  proof (cases "ev_NodeID evt = i")
    case True
    have "je_FromStatus entry = (if NodeHistory ?j i = [] then StatusOther '''' else je_ToStatus (last (NodeHistory ?j i)))"
      using e(3) True find_entry_last [of i "j_entries ?j"]
      by (simp add: TerminalStatus_def NodeHistory_filter Let_def)
    with snoc e True show ?thesis
      unfolding journal_Subscribe_snoc p NodeHistory_filter by (simp add: linked_snoc)
  next
    case False
    with snoc e show ?thesis unfolding journal_Subscribe_snoc p NodeHistory_filter by simp
  qed
qed

subsection \<open>Traces: lemmas\<close>

lemma emit_traces [simp]: "col_traces (emit k i s t c) = col_traces c"
  by (simp add: emit_def Let_def)

lemma emit_out: "length (col_out c) \<le> 1024 \<Longrightarrow> length (col_out (emit k i s t c)) \<le> 1024"
  by (simp add: emit_def Let_def)

lemma process_traces:
  "gm_get (col_traces (process_event (evt, now) c)) i =
     (if i = ev_NodeID evt
      then Some (fst (track evt now (case gm_get (col_traces c) i of None \<Rightarrow> new_trace i now | Some t \<Rightarrow> t)))
      else gm_get (col_traces c) i)"
  by (auto simp: process_event_def Let_def split: prod.splits option.splits)

lemma process_wf: "gm_wf (col_traces c) \<Longrightarrow> gm_wf (col_traces (process_event p c))"
  by (auto simp: process_event_def Let_def split: prod.splits option.splits)

lemma trace_wf: "gm_wf (col_traces (trace_Subscribe evs NewCollector))"
  unfolding trace_Subscribe_def
  by (rule fold_invariant [where P = "\<lambda>c. gm_wf (col_traces c)"]) (simp_all add: process_wf NewCollector_def)

lemma track_status:
  "tr_TerminalStatus (fst (track evt now t)) =
     (if IsTerminal (ev_NewStatus evt) then ev_NewStatus evt else tr_TerminalStatus t)"
  by (simp add: track_def split: NodeStatus.splits)

lemma trace_Subscribe_snoc: "trace_Subscribe (evs @ [p]) c = process_event p (trace_Subscribe evs c)"
  by (simp add: trace_Subscribe_def)

lemma trace_terminal:
  assumes "last_status i evs = Some s" and "IsTerminal s"
  shows "\<exists>t. gm_get (col_traces (trace_Subscribe evs NewCollector)) i = Some t \<and> tr_TerminalStatus t = s"
  using assms
proof (induction evs rule: rev_induct)
  case (snoc p evs)
  obtain evt now where p: "p = (evt, now)" by fastforce
  show ?case
  proof (cases "ev_NodeID evt = i")
    case True
    with snoc.prems p show ?thesis
      by (auto simp: trace_Subscribe_snoc process_traces track_status last_status_snoc simp del: IsTerminal.simps)
  next
    case False
    with snoc p show ?thesis by (auto simp: trace_Subscribe_snoc process_traces last_status_snoc)
  qed
qed simp

lemma TerminalStatuses_get:
  assumes "gm_wf (col_traces c)"
  shows "gm_get (TerminalStatuses c) i = map_option tr_TerminalStatus (gm_get (col_traces c) i)"
proof -
  have f: "fold (\<lambda>(k, v) out. gm_put k (tr_TerminalStatus v) out) kvs m =
      fold (\<lambda>(k, v). gm_put k v) (map (\<lambda>(k, v). (k, tr_TerminalStatus v)) kvs) m" for kvs m
    by (induction kvs arbitrary: m) auto
  have "distinct (map fst (rev (map (\<lambda>(k, v). (k, tr_TerminalStatus v)) (col_traces c))))"
    using assms by (simp add: gm_wf_def gm_keys_def rev_map [symmetric] comp_def case_prod_unfold)
  then have "map_of (rev (map (\<lambda>(k, v). (k, tr_TerminalStatus v)) (col_traces c))) =
      map_of (map (\<lambda>(k, v). (k, tr_TerminalStatus v)) (col_traces c))"
    by (subst map_of_inject_set) (simp_all add: rev_map [symmetric])
  then have "gm_get (TerminalStatuses c) i = map_of (map (\<lambda>(k, v). (k, tr_TerminalStatus v)) (col_traces c)) i"
    using gm.get_fold_put [of "map (\<lambda>(k, v). (k, tr_TerminalStatus v)) (col_traces c)" "[]" i]
    by (simp add: TerminalStatuses_def f split: option.splits)
  then show ?thesis by (simp add: gm_get_def map_of_map)
qed

lemma process_bounds:
  assumes "length (col_out c) \<le> 1024 \<and> length (col_out c) \<le> col_seq c"
  shows "length (col_out (process_event p c)) \<le> 1024 \<and> length (col_out (process_event p c)) \<le> col_seq (process_event p c)"
  using assms by (auto simp: process_event_def emit_def Let_def split: prod.splits option.splits)

subsection \<open>Properties\<close>

lemma last_status_unique:
  assumes "distinct (map (ev_NodeID \<circ> fst) evs)" and "(evt, now) \<in> set evs"
  shows "last_status (ev_NodeID evt) evs = Some (ev_NewStatus evt)"
proof -
  have none: "last_status i es = None" if "i \<notin> set (map (ev_NodeID \<circ> fst) es)" for i es
    using that by (induction i es rule: last_status.induct) auto
  from assms show ?thesis
  proof (induction "ev_NodeID evt" evs rule: last_status.induct)
    case (2 e n es)
    then show ?case using none [of "ev_NodeID evt" es] by (auto split: option.splits)
  qed simp
qed

text \<open>The accumulated file lines never exceed the entries, and a journal whose encoder fails on nothing has them all.\<close>

lemma journal_file_encoded:
  "j_file (journal_Subscribe enc evs journal_New) = List.map_filter enc (j_entries (journal_Subscribe enc evs journal_New))"
  using journal_shape [of enc evs] by blast

text \<open>The journal is the append-only record of the events it received. Its entries number them
  0, 1, 2, ... in the order of arrival, with their node and new status; \<open>TerminalStatus\<close> of a node is
  the status of its last event; and the entries of a node (\<open>NodeHistory\<close>) form a chain: the first starts
  from the empty status, every other from the status the one before it ended with.\<close>

theorem journal_records:
  fixes encode :: "Entry \<Rightarrow> string option"
  defines "J \<equiv> \<lambda>evs. journal_Subscribe encode evs journal_New"
  shows "map (\<lambda>e. (je_Sequence e, je_NodeID e, je_ToStatus e)) (Entries (J evs)) =
           map (\<lambda>(n, evt, now). (n, ev_NodeID evt, ev_NewStatus evt)) (enumerate 0 evs) \<and>
         TerminalStatus (J evs) i = last_status i evs \<and>
         linked (StatusOther '''') (NodeHistory (J evs) i) \<and>
         set (NodeHistory (J evs) i) = {e \<in> set (Entries (J evs)). je_NodeID e = i}"
proof -
  have shape: "map je_Sequence (Entries (J evs)) = [0..<length evs]"
    "map je_NodeID (Entries (J evs)) = map (ev_NodeID \<circ> fst) evs"
    "map je_ToStatus (Entries (J evs)) = map (ev_NewStatus \<circ> fst) evs"
    using journal_shape [of encode evs] by (simp_all add: J_def Entries_def)
  have len: "length (Entries (J evs)) = length evs" using arg_cong [OF shape(1), of length] by simp
  have "map (\<lambda>e. (je_Sequence e, je_NodeID e, je_ToStatus e)) (Entries (J evs)) =
      map (\<lambda>(n, evt, now). (n, ev_NodeID evt, ev_NewStatus evt)) (enumerate 0 evs)"
    using len map_eq_nth [OF shape(2)] map_eq_nth [OF shape(3)] map_eq_nth [of je_Sequence _ "\<lambda>n. n" "[0..<length evs]"] shape(1)
    by (intro nth_equalityI) (auto simp: nth_enumerate_eq case_prod_unfold)
  then show ?thesis
    using TerminalStatus_Subscribe [of encode evs i] history_linked [of encode evs i]
    by (auto simp: J_def NodeHistory_filter Entries_def)
qed

text \<open>The trace of a node that the journal says ended in a terminal status carries that status: the
  trace collector and the journal, fed the same events, agree on the terminal statuses.\<close>

theorem trace_agrees_with_journal:
  assumes "TerminalStatus (journal_Subscribe encode evs journal_New) i = Some s" and "IsTerminal s"
  shows "gm_get (TerminalStatuses (trace_Subscribe evs NewCollector)) i = Some s"
  using trace_terminal [of i evs s] assms TerminalStatuses_get [OF trace_wf, of evs i]
  by (auto simp: TerminalStatus_Subscribe)

definition sample_event :: "string \<Rightarrow> NodeStatus \<Rightarrow> CommitEvent \<times> string" where
  "sample_event i s = (\<lparr>ev_NodeID = i, ev_NewStatus = s, ev_Outputs = None, ev_Artifacts = None\<rparr>, ''T'')"

theorem trace_agrees_with_journal_witness:
  "gm_get (TerminalStatuses (trace_Subscribe
     [sample_event ''A'' StatusReady, sample_event ''B'' StatusReady, sample_event ''A'' StatusRunning,
      sample_event ''A'' StatusFailure, sample_event ''B'' StatusSkipped] NewCollector)) ''A'' = Some StatusFailure"
  by (rule trace_agrees_with_journal [where encode = "\<lambda>e. None"])
    (simp_all add: TerminalStatus_Subscribe sample_event_def)

text \<open>The channel of trace events never holds more than its capacity of 1024, however many events
  arrive and nobody reads it, and the collector numbers every event it tried to send, kept or dropped: the
  events in the channel are a prefix of that numbering, from 1.\<close>

theorem trace_channel_bounded:
  "length (col_out (trace_Subscribe evs NewCollector)) \<le> 1024 \<and>
   map te_Sequence (col_out (trace_Subscribe evs NewCollector)) =
     [1..<Suc (min 1024 (col_seq (trace_Subscribe evs NewCollector)))]"
proof -
  let ?ok = "\<lambda>c. map te_Sequence (col_out c) = [1..<Suc (min 1024 (col_seq c))]"
  have emit: "?ok (emit k i s t c)" if "?ok c" for k i s t c
  proof -
    from that have "length (col_out c) = min 1024 (col_seq c)"
      by (metis length_map length_upt diff_Suc_1)
    with that show ?thesis
      by (cases "col_seq c < 1024") (simp_all add: emit_def Let_def min.absorb1 min.absorb2 del: upt_Suc, simp)
  qed
  have step: "?ok (process_event p c)" if "?ok c" for p c
    using that emit by (auto simp: process_event_def Let_def split: prod.splits option.splits simp del: upt_Suc)
  have "?ok (trace_Subscribe evs NewCollector)"
    unfolding trace_Subscribe_def
    by (rule fold_invariant [where P = ?ok]) (simp_all add: step NewCollector_def del: upt_Suc)
  then show ?thesis by (metis length_map length_upt diff_Suc_1 min.cobounded1)
qed

end
