(* ===== verification/Mek_Verify.thy ===== *)
theory Mek_Verify
  imports Mek_Dispatcher Mek_Observe
begin

text \<open>
  Replay (\<open>mek/internal/replay/replay.go\<close>) and verification (\<open>mek/internal/verify/verify.go\<close>) of
  recorded runs. A journal file is the list of its lines, or \<open>None\<close> when it cannot be opened;
  \<open>decode\<close> stands for the JSON decoder. The lines are read with a \<open>bufio.Scanner\<close>, whose
  default buffer of 64 KiB must hold a line with its newline. An execution of the kernel comes with its
  environment: the times of the dispatches, the total time and the order of events.
\<close>

subsection \<open>Reading the journal\<close>

datatype journal_error = OpenFailed | TokenTooLong

definition max_token :: nat where
  "max_token = 64 * 1024"

definition drop_cr :: "string \<Rightarrow> string" where
  "drop_cr l = (if l \<noteq> [] \<and> last l = CHR 13 then butlast l else l)"

fun scan_entries ::
  "(string \<Rightarrow> Entry option) \<Rightarrow> string list \<Rightarrow> (string, NodeStatus) gomap \<Rightarrow> journal_error + (string, NodeStatus) gomap"
  where
  "scan_entries decode [] terminals = Inr terminals"
| "scan_entries decode (l # ls) terminals =
     (if length l \<ge> max_token then Inl TokenTooLong
      else case decode (drop_cr l) of
             None \<Rightarrow> scan_entries decode ls terminals
           | Some entry \<Rightarrow> scan_entries decode ls (gm_put (je_NodeID entry) (je_ToStatus entry) terminals))"

definition loadJournalTerminals ::
  "(string \<Rightarrow> Entry option) \<Rightarrow> string list option \<Rightarrow> journal_error + (string, NodeStatus) gomap" where
  "loadJournalTerminals decode file =
     (case file of None \<Rightarrow> Inl OpenFailed | Some ls \<Rightarrow> scan_entries decode ls [])"

definition loadTerminals ::
  "(string \<Rightarrow> Entry option) \<Rightarrow> string list option \<Rightarrow> journal_error + (string, NodeStatus) gomap" where
  "loadTerminals decode file =
     (case file of None \<Rightarrow> Inl OpenFailed | Some ls \<Rightarrow> scan_entries decode ls [])"

subsection \<open>Replay\<close>

record Divergence =
  dv_NodeID :: string
  dv_JournalStatus :: NodeStatus
  dv_ReplayStatus :: NodeStatus

record ReplayReport =
  rp_RIRPath :: string
  rp_JournalPath :: string
  rp_Match :: bool
  rp_Divergences :: "Divergence list"
  rp_JournalEntries :: nat
  rp_ReplayNodes :: nat

datatype replay_error = ReplayJournal journal_error | ReplayNew new_error | ReplayRun string commit_error

type_synonym execution = "(string \<Rightarrow> int) \<times> int \<times> run_env"

definition diverge :: "string \<Rightarrow> NodeStatus \<Rightarrow> NodeStatus \<Rightarrow> ReplayReport \<Rightarrow> ReplayReport" where
  "diverge i js rs rep =
     rep\<lparr>rp_Divergences := rp_Divergences rep @ [\<lparr>dv_NodeID = i, dv_JournalStatus = js, dv_ReplayStatus = rs\<rparr>],
         rp_Match := False\<rparr>"

definition compare_journal :: "StatusMap \<Rightarrow> string \<times> NodeStatus \<Rightarrow> ReplayReport \<Rightarrow> ReplayReport" where
  "compare_journal out = (\<lambda>(nodeID, journalStatus) rep.
     case gm_get out nodeID of
       None \<Rightarrow> diverge nodeID journalStatus (StatusOther ''MISSING'') rep
     | Some replayState \<Rightarrow>
         if ns_Status replayState \<noteq> journalStatus then diverge nodeID journalStatus (ns_Status replayState) rep
         else rep)"

definition compare_replay :: "(string, NodeStatus) gomap \<Rightarrow> string \<times> NodeState \<Rightarrow> ReplayReport \<Rightarrow> ReplayReport" where
  "compare_replay terminals = (\<lambda>(nodeID, state) rep.
     if gm_get terminals nodeID = None then diverge nodeID (StatusOther ''MISSING'') (ns_Status state) rep
     else rep)"

definition replay_Verify ::
  "(string \<Rightarrow> Entry option) \<Rightarrow> (string \<Rightarrow> string option) \<Rightarrow> (string \<Rightarrow> RIR option) \<Rightarrow> string \<Rightarrow> string \<Rightarrow>
   string list option \<Rightarrow> execution \<Rightarrow> (replay_error + ReplayReport) option" where
  "replay_Verify decode read_file parse rirPath journalPath file = (\<lambda>(elapsed, total_ms, env).
     case loadJournalTerminals decode file of
       Inl e \<Rightarrow> Some (Inl (ReplayJournal e))
     | Inr journalTerminals \<Rightarrow>
         (case mek_New read_file parse rirPath None of
            Inl e \<Rightarrow> Some (Inl (ReplayNew e))
          | Inr m \<Rightarrow>
              (case mek_Run m elapsed total_ms env of
                 None \<Rightarrow> None
               | Some (Inl (i, e)) \<Rightarrow> Some (Inl (ReplayRun i e))
               | Some (Inr (output, _)) \<Rightarrow>
                   (let rep0 = \<lparr>rp_RIRPath = rirPath, rp_JournalPath = journalPath, rp_Match = True, rp_Divergences = [],
                                rp_JournalEntries = length journalTerminals,
                                rp_ReplayNodes = length (out_StatusMap output)\<rparr>;
                        rep1 = fold (compare_journal (out_StatusMap output)) journalTerminals rep0
                    in Some (Inr (fold (compare_replay journalTerminals) (out_StatusMap output) rep1))))))"

subsection \<open>Structural verification\<close>

record Violation =
  vi_Rule :: string
  vi_NodeID :: string
  vi_Message :: string

record Stats =
  stat_TotalNodes :: nat
  stat_TotalEdges :: nat
  stat_TerminalNodes :: nat
  stat_DependencyChecks :: nat

record VReport =
  vr_Pass :: bool
  vr_Violations :: "Violation list"
  vr_Stats :: Stats

datatype verify_error = VerifyLoad load_error | VerifyBuild build_error | VerifyJournal journal_error

fun status_text :: "NodeStatus \<Rightarrow> string" where
  "status_text StatusBlocked = ''BLOCKED''"
| "status_text StatusReady = ''READY''"
| "status_text StatusRunning = ''RUNNING''"
| "status_text StatusSuccess = ''SUCCESS''"
| "status_text StatusFailure = ''FAILURE''"
| "status_text StatusSkipped = ''SKIPPED''"
| "status_text StatusTerminated = ''TERMINATED''"
| "status_text (StatusOther s) = s"

definition violate :: "string \<Rightarrow> string \<Rightarrow> string \<Rightarrow> VReport \<Rightarrow> VReport" where
  "violate rule i msg rep =
     rep\<lparr>vr_Violations := vr_Violations rep @ [\<lparr>vi_Rule = rule, vi_NodeID = i, vi_Message = msg\<rparr>], vr_Pass := False\<rparr>"

definition check_terminal :: "(string, NodeStatus) gomap \<Rightarrow> CEGNode \<Rightarrow> VReport \<Rightarrow> VReport" where
  "check_terminal terminals node rep =
     (case gm_get terminals (node_ID node) of
        None \<Rightarrow> violate ''V-002'' (node_ID node) ''node missing from journal'' rep
      | Some status \<Rightarrow>
          if \<not> IsTerminal status then violate ''V-002'' (node_ID node) (''node not terminal: '' @ status_text status) rep
          else rep)"

definition check_edge :: "(string, NodeStatus) gomap \<Rightarrow> CEGEdge \<Rightarrow> VReport \<Rightarrow> VReport" where
  "check_edge terminals edge rep =
     (if cedge_Type edge \<noteq> ''dependency'' then rep
      else
        (let rep1 = rep\<lparr>vr_Stats := (vr_Stats rep)\<lparr>stat_DependencyChecks := stat_DependencyChecks (vr_Stats rep) + 1\<rparr>\<rparr>
         in case (gm_get terminals (cedge_To edge), gm_get terminals (cedge_From edge)) of
              (Some toStatus, Some fromStatus) \<Rightarrow>
                if toStatus = StatusSuccess \<and> fromStatus \<noteq> StatusSuccess
                then violate ''G6'' (cedge_To edge)
                       (''SUCCESS but dependency '' @ cedge_From edge @ '' is '' @ status_text fromStatus) rep1
                else rep1
            | _ \<Rightarrow> rep1))"

definition check_require :: "(string, NodeStatus) gomap \<Rightarrow> CEGNode \<Rightarrow> string \<Rightarrow> VReport \<Rightarrow> VReport" where
  "check_require terminals node req rep =
     (if gm_get terminals req \<noteq> Some StatusSuccess
      then violate ''ACTIVATION'' (node_ID node)
             (''SUCCESS but requires '' @ req @ '' is '' @
              (case gm_get terminals req of None \<Rightarrow> '''' | Some s \<Rightarrow> status_text s)) rep
      else rep)"

definition check_activation :: "(string, NodeStatus) gomap \<Rightarrow> CEGNode \<Rightarrow> VReport \<Rightarrow> VReport" where
  "check_activation terminals node rep =
     (if act_Condition (node_Activation node) \<noteq> ''all_success'' then rep
      else if gm_get terminals (node_ID node) \<noteq> Some StatusSuccess then rep
      else fold (check_require terminals node) (act_Requires (node_Activation node)) rep)"

definition loadRIR :: "(string \<Rightarrow> string option) \<Rightarrow> (string \<Rightarrow> RIR option) \<Rightarrow> string \<Rightarrow> verify_error + RIR \<times> CEG" where
  "loadRIR read_file parse path =
     (case Load read_file parse path of
        Inl e \<Rightarrow> Inl (VerifyLoad e)
      | Inr r \<Rightarrow> (case Build r of Inl e \<Rightarrow> Inl (VerifyBuild e) | Inr c \<Rightarrow> Inr (r, c)))"

definition check_all :: "CEG \<Rightarrow> (string, NodeStatus) gomap \<Rightarrow> VReport" where
  "check_all c terminals =
     (let rep0 = \<lparr>vr_Pass = True, vr_Violations = [],
                  vr_Stats = \<lparr>stat_TotalNodes = length (ceg_Nodes c), stat_TotalEdges = length (ceg_Edges c),
                              stat_TerminalNodes = length terminals, stat_DependencyChecks = 0\<rparr>\<rparr>;
          rep1 = fold (check_terminal terminals) (ceg_Nodes c) rep0;
          rep2 = fold (check_edge terminals) (ceg_Edges c) rep1
      in fold (check_activation terminals) (ceg_Nodes c) rep2)"

definition Structural ::
  "(string \<Rightarrow> Entry option) \<Rightarrow> (string \<Rightarrow> string option) \<Rightarrow> (string \<Rightarrow> RIR option) \<Rightarrow> string \<Rightarrow> string list option \<Rightarrow>
   verify_error + VReport" where
  "Structural decode read_file parse rirPath file =
     (case loadRIR read_file parse rirPath of
        Inl e \<Rightarrow> Inl e
      | Inr (_, c) \<Rightarrow>
          (case loadTerminals decode file of
             Inl e \<Rightarrow> Inl (VerifyJournal e)
           | Inr terminals \<Rightarrow> Inr (check_all c terminals)))"

subsection \<open>Executing and verifying\<close>

text \<open>The final states of a kernel, one event per node with a state, as both functions feed them to the
  journal (and to the trace collector). \<open>now\<close> is the reading of the clock when the observer gets the event.\<close>

definition state_events :: "MEK \<Rightarrow> (string \<Rightarrow> string) \<Rightarrow> (CommitEvent \<times> string) list" where
  "state_events m now =
     List.map_filter (\<lambda>node. case sm_GetState (eng_sm (mek_engine m)) (node_ID node) of
         None \<Rightarrow> None
       | Some state \<Rightarrow> Some (\<lparr>ev_NodeID = node_ID node, ev_NewStatus = ns_Status state,
                             ev_Outputs = ns_Outputs state, ev_Artifacts = ns_Artifacts state\<rparr>, now (node_ID node)))
       (ceg_Nodes (mek_ceg m))"

datatype exec_error = ExecNew new_error | ExecRun string commit_error | ExecJournal | ExecVerify verify_error

text \<open>\<open>create_ok\<close> says whether the journal file can be created. The verification reads the file back.\<close>

definition ExecuteAndVerify ::
  "(Entry \<Rightarrow> string option) \<Rightarrow> (string \<Rightarrow> Entry option) \<Rightarrow> (string \<Rightarrow> string option) \<Rightarrow> (string \<Rightarrow> RIR option) \<Rightarrow>
   string \<Rightarrow> bool \<Rightarrow> (string \<Rightarrow> string) \<Rightarrow> execution \<Rightarrow> (exec_error + VReport) option" where
  "ExecuteAndVerify encode decode read_file parse rirPath create_ok now = (\<lambda>(elapsed, total_ms, env).
     case mek_New read_file parse rirPath None of
       Inl e \<Rightarrow> Some (Inl (ExecNew e))
     | Inr mek \<Rightarrow>
         (case mek_Run mek elapsed total_ms env of
            None \<Rightarrow> None
          | Some (Inl (i, e)) \<Rightarrow> Some (Inl (ExecRun i e))
          | Some (Inr (_, mek1)) \<Rightarrow>
              if \<not> create_ok then Some (Inl ExecJournal)
              else let j = journal_Subscribe encode (state_events mek1 now) journal_New
                   in case Structural decode read_file parse rirPath (Some (j_file j)) of
                        Inl e \<Rightarrow> Some (Inl (ExecVerify e))
                      | Inr rep \<Rightarrow> Some (Inr rep)))"

definition jEntries :: "Journal \<Rightarrow> (string, NodeStatus) gomap" where
  "jEntries j = fold (\<lambda>e out. gm_put (je_NodeID e) (je_ToStatus e) out) (Entries j) []"

text \<open>The detail of a failed check, by its contents instead of its formatted text.\<close>

datatype check_detail = NoDetail
  | DetailKernel string NodeStatus "NodeState option"
  | DetailJournal string NodeState "NodeStatus option"
  | DetailTrace string NodeStatus "NodeStatus option"
  | DetailReplayError replay_error
  | DetailReplay "Divergence list"
  | DetailStructuralError verify_error
  | DetailStructural "Violation list"

record ConsistencyCheck =
  cc_Name :: string
  cc_Pass :: bool
  cc_Detail :: check_detail

record ConsistencyReport =
  cr_Pass :: bool
  cr_Checks :: "ConsistencyCheck list"

definition check_kernel :: "(string, NodeStatus) gomap \<Rightarrow> StatusMap \<Rightarrow> ConsistencyCheck" where
  "check_kernel journalTerminals kernelStates =
     (case List.find (\<lambda>(nodeID, js). case gm_get kernelStates nodeID of
                None \<Rightarrow> True | Some ks \<Rightarrow> ns_Status ks \<noteq> js) journalTerminals of
        Some (nodeID, js) \<Rightarrow>
          \<lparr>cc_Name = ''journal-kernel'', cc_Pass = False, cc_Detail = DetailKernel nodeID js (gm_get kernelStates nodeID)\<rparr>
      | None \<Rightarrow>
          (case List.find (\<lambda>(nodeID, ks). case gm_get journalTerminals nodeID of
                     None \<Rightarrow> True | Some js \<Rightarrow> js \<noteq> ns_Status ks) kernelStates of
             Some (nodeID, ks) \<Rightarrow>
               \<lparr>cc_Name = ''journal-kernel'', cc_Pass = False,
                cc_Detail = DetailJournal nodeID ks (gm_get journalTerminals nodeID)\<rparr>
           | None \<Rightarrow> \<lparr>cc_Name = ''journal-kernel'', cc_Pass = True, cc_Detail = NoDetail\<rparr>))"

definition check_trace :: "(string, NodeStatus) gomap \<Rightarrow> (string, NodeStatus) gomap \<Rightarrow> ConsistencyCheck" where
  "check_trace traceTerminals journalTerminals =
     (case List.find (\<lambda>(nodeID, ts). gm_get journalTerminals nodeID \<noteq> Some ts) traceTerminals of
        Some (nodeID, ts) \<Rightarrow>
          \<lparr>cc_Name = ''trace-journal'', cc_Pass = False, cc_Detail = DetailTrace nodeID ts (gm_get journalTerminals nodeID)\<rparr>
      | None \<Rightarrow> \<lparr>cc_Name = ''trace-journal'', cc_Pass = True, cc_Detail = NoDetail\<rparr>)"

definition check_replay :: "replay_error + ReplayReport \<Rightarrow> ConsistencyCheck" where
  "check_replay r =
     (case r of
        Inl e \<Rightarrow> \<lparr>cc_Name = ''replay-journal'', cc_Pass = False, cc_Detail = DetailReplayError e\<rparr>
      | Inr rp \<Rightarrow> \<lparr>cc_Name = ''replay-journal'', cc_Pass = rp_Match rp,
                  cc_Detail = (if \<not> rp_Match rp then DetailReplay (rp_Divergences rp) else NoDetail)\<rparr>)"

definition check_structural :: "verify_error + VReport \<Rightarrow> ConsistencyCheck" where
  "check_structural r =
     (case r of
        Inl e \<Rightarrow> \<lparr>cc_Name = ''structural'', cc_Pass = False, cc_Detail = DetailStructuralError e\<rparr>
      | Inr sr \<Rightarrow> \<lparr>cc_Name = ''structural'', cc_Pass = vr_Pass sr,
                  cc_Detail = (if \<not> vr_Pass sr then DetailStructural (vr_Violations sr) else NoDetail)\<rparr>)"

definition add_check :: "ConsistencyCheck \<Rightarrow> ConsistencyReport \<Rightarrow> ConsistencyReport" where
  "add_check check rep =
     rep\<lparr>cr_Checks := cr_Checks rep @ [check], cr_Pass := (if \<not> cc_Pass check then False else cr_Pass rep)\<rparr>"

text \<open>The second execution, of the replay, has an environment of its own.\<close>

definition FullConsistencyCheck ::
  "(Entry \<Rightarrow> string option) \<Rightarrow> (string \<Rightarrow> Entry option) \<Rightarrow> (string \<Rightarrow> string option) \<Rightarrow> (string \<Rightarrow> RIR option) \<Rightarrow>
   string \<Rightarrow> string \<Rightarrow> bool \<Rightarrow> (string \<Rightarrow> string) \<Rightarrow> (string \<Rightarrow> string) \<Rightarrow> execution \<Rightarrow> execution \<Rightarrow>
   (exec_error + ConsistencyReport) option" where
  "FullConsistencyCheck encode decode read_file parse rirPath journalPath create_ok jnow tnow =
     (\<lambda>(elapsed, total_ms, env) replay.
     case mek_New read_file parse rirPath None of
       Inl e \<Rightarrow> Some (Inl (ExecNew e))
     | Inr mek \<Rightarrow>
         if \<not> create_ok then Some (Inl ExecJournal)
         else
           (case mek_Run mek elapsed total_ms env of
              None \<Rightarrow> None
            | Some (Inl (i, e)) \<Rightarrow> Some (Inl (ExecRun i e))
            | Some (Inr (_, mek1)) \<Rightarrow>
                (let j = journal_Subscribe encode (state_events mek1 jnow) journal_New;
                     tc = trace_Subscribe (state_events mek1 tnow) NewCollector;
                     journalTerminals = jEntries j;
                     rep1 = add_check (check_kernel journalTerminals (sm_All (eng_sm (mek_engine mek1))))
                              \<lparr>cr_Pass = True, cr_Checks = []\<rparr>;
                     rep2 = add_check (check_trace (TerminalStatuses tc) journalTerminals) rep1
                 in case replay_Verify decode read_file parse rirPath journalPath (Some (j_file j)) replay of
                      None \<Rightarrow> None
                    | Some rp \<Rightarrow>
                        Some (Inr (add_check
                          (check_structural (Structural decode read_file parse rirPath (Some (j_file j))))
                          (add_check (check_replay rp) rep2))))))"

subsection \<open>The nodes of the status map\<close>

text \<open>A run adds no node to the status map, removes none, and gives no node a status outside the seven constants.\<close>

definition covers :: "string set \<Rightarrow> Engine \<Rightarrow> bool" where
  "covers A e \<longleftrightarrow> gm_wf (eng_sm e) \<and> life e \<and> (\<forall>i. eng_get e i \<noteq> None \<longleftrightarrow> i \<in> A)"

lemma covers_put: "covers A e \<Longrightarrow> i \<in> A \<Longrightarrow> covers A (commit_drop i s r e)"
  by (auto simp: covers_def commit_drop_get life_put)

lemma life_commit_known:
  assumes "life e" and "\<And>x. s \<noteq> StatusOther x"
  shows "life (commit_drop i s r e)"
  using assms by (cases "eng_get e i") (auto simp: life_def commit_drop_get next_status_def)

lemma covers_Recompute: "covers A e \<Longrightarrow> covers A (Recompute c e)"
  using Recompute_other [of e _ c] ce.evolves_present [OF evolves_Recompute]
  unfolding covers_def by (metis life_Recompute option.distinct(1) wf_Recompute)

lemma covers_terminate_node: "covers A e \<Longrightarrow> covers A (terminate_node i e)"
  by (auto simp: covers_def terminate_node_get life_terminate_node)

lemma covers_terminate: "covers A e \<Longrightarrow> covers A (fold terminate_node is e)"
  by (rule fold_invariant [where P = "covers A"]) (simp_all add: covers_terminate_node)

lemma covers_terminateAll: "covers A e \<Longrightarrow> covers A (terminateAll c e)"
  unfolding terminateAll_def fold_map_arg by (rule covers_terminate)

lemma covers_collect:
  "collect_results c env is e m = (b, e', m') \<Longrightarrow> covers A e \<Longrightarrow> set is \<subseteq> A \<Longrightarrow> covers A e'"
proof (induction c env "is" e m arbitrary: b e' m' rule: collect_results.induct)
  case (2 c env i "is" e m)
  show ?case
  proof (cases "re_dispatch env i")
    case (Inl err)
    with "2.IH"(1) [OF Inl, of b e' m'] "2.prems" show ?thesis by (simp add: covers_put)
  next
    case (Inr result)
    show ?thesis
    proof (cases "er_Escalation result")
      case True
      with Inr "2.prems" show ?thesis by (auto simp: Let_def intro!: covers_terminateAll covers_put)
    next
      case False
      from "2.IH"(2) [OF Inr refl refl refl False, of b e' m'] "2.prems" Inr False
      show ?thesis by (simp add: Let_def covers_put)
    qed
  qed
qed simp

lemma covers_WaitWave: "WaitWave wenv w d e = Some (r, e') \<Longrightarrow> covers A e \<Longrightarrow> covers A e'"
  by (auto simp: WaitWave_def covers_terminate split: if_splits)

lemma covers_run_wave:
  assumes "covers A e" and d: "distinct wave" and a: "arrivals wenv"
  shows "run_ok True (covers A) (covers A) (run_wave c env wenv wave e m)"
proof -
  let ?ready = "filter (\<lambda>i. eng_get e i = Some StatusReady) wave"
  obtain e1 where cl: "Claim wave e = (Inr ?ready, e1)" and wf: "gm_wf (eng_sm e) \<Longrightarrow> gm_wf (eng_sm e1)"
    and get: "\<And>j. eng_get e1 j = (if j \<in> set wave \<and> eng_get e j = Some StatusReady then Some StatusRunning else eng_get e j)"
    by (rule Claim_spec [OF d, of e]) blast
  have "eng_get e1 i \<noteq> None \<longleftrightarrow> eng_get e i \<noteq> None" for i by (simp add: get)
  with assms(1) wf life_Claim [OF d cl] have c1: "covers A e1" by (simp add: covers_def)
  show ?thesis
  proof (cases "?ready = []")
    case True
    with cl c1 show ?thesis by (simp add: run_wave_def covers_Recompute)
  next
    case False
    have "set (we_arrival wenv ?ready) \<subseteq> A"
      using assms(1) a set_perm [of "we_arrival wenv ?ready" ?ready] by (auto simp: arrivals_def covers_def)
    moreover obtain b e2 m2 where co: "collect_results c env (we_arrival wenv ?ready) e1 m = (b, e2, m2)"
      by (metis prod_cases3)
    ultimately have c2: "covers A e2" using covers_collect c1 by blast
    have "run_ok True (covers A) (covers A)
       (case WaitWave wenv wave d e2 of None \<Rightarrow> Hanging | Some (None, e3) \<Rightarrow> Running e3 m3
        | Some (Some _, e3) \<Rightarrow> Running (fold terminate_node wave e3) m3)" for d m3
      using covers_WaitWave [OF _ c2] by (auto simp: covers_terminate split: option.splits)
    then show ?thesis using cl False co c2 by (cases b) (simp_all add: run_wave_def Let_def)
  qed
qed

lemma covers_run_layers:
  assumes "all_arrivals env" and "\<forall>ws \<in> set layers. \<forall>w \<in> set ws. distinct w" and "covers A e"
  shows "run_ok True (covers A) (covers A) (run_layers c env l layers e m)"
  using assms(2,3)
proof (induction layers arbitrary: l e m)
  case Nil
  then show ?case by (simp add: covers_Recompute)
next
  case (Cons ws layers)
  have r: "run_ok True (covers A) (covers A) (run_waves c env l 0 ws e m)"
    using Cons.prems assms(1) by (intro run_waves_rule) (auto intro: covers_run_wave)
  show ?case
  proof (cases "ws = []")
    case True
    with Cons show ?thesis by (simp add: covers_Recompute)
  next
    case False
    with r Cons show ?thesis
      by (cases "run_waves c env l 0 ws e m") (simp_all add: covers_Recompute)
  qed
qed

lemma covers_start: "covers (set (node_ids c)) (start c)"
proof -
  have "covers (A \<union> node_ID ` set ns) (fold (init_node c) ns e)" if "covers A e" for A ns e
    using that
  proof (induction ns arbitrary: A e)
    case (Cons n ns)
    have "covers (insert (node_ID n) A) (init_node c n e)"
      using Cons.prems by (auto simp: init_node_def covers_def commit_drop_get life_commit_known)
    from Cons.IH [OF this] show ?case by simp
  qed simp
  from this [of "{}" "commit_New []" "ceg_Nodes c"] show ?thesis
    by (simp add: covers_def InitStatusMap_def node_ids_def commit_New_def sm_Get_def life_def)
qed

text \<open>What a kernel leaves behind: the output is the status map, over exactly the nodes of the graph.\<close>

lemma mek_Run_final:
  assumes n: "mek_New rd ps path cfg = Inr m" and a: "all_arrivals env"
    and r: "mek_Run m elapsed total_ms env = Some (Inr (out, m'))"
  shows "mek_ceg m' = mek_ceg m" and "out_StatusMap out = sm_All (eng_sm (mek_engine m'))"
    and "covers (set (node_ids (mek_ceg m))) (mek_engine m')" and "secure (mek_ceg m) (mek_engine m')"
    and "\<exists>out0. RunLoop (mek_ceg m) (kernel_env m elapsed env) (ComputeWaves (mek_ceg m) (mek_rir m))
      (start (mek_ceg m)) = Some (Inr (out0, mek_engine m')) \<and> out_StatusMap out0 = out_StatusMap out"
proof -
  note k = mek_New_Inr [OF n]
  have a': "all_arrivals (kernel_env m elapsed env)" using a by (simp add: kernel_env_arrivals)
  obtain out0 where run: "RunLoop (mek_ceg m) (kernel_env m elapsed env) (ComputeWaves (mek_ceg m) (mek_rir m))
      (start (mek_ceg m)) = Some (Inr (out0, mek_engine m'))"
    and eq: "out_StatusMap out0 = out_StatusMap out" "mek_ceg m' = mek_ceg m"
    using r unfolding mek_Run_def k(3,4) by (auto split: option.splits sum.splits)
  have "\<forall>w \<in> set ws. distinct w" if "ws \<in> set (ComputeWaves (mek_ceg m) (mek_rir m))" for ws
    using ComputeWaves_for [OF k(1,2)] that
    by (auto simp: waves_for_def list_all2_conv_all_nth in_set_conv_nth)
  then have dis: "\<forall>ws \<in> set (ComputeWaves (mek_ceg m) (mek_rir m)). \<forall>w \<in> set ws. distinct w" by blast
  note co = RunLoop_cases [OF covers_run_layers [OF a' dis covers_start [of "mek_ceg m"], where c = "mek_ceg m"]]
  note se = RunLoop_cases [OF secure_run [OF k(1,2) a']]
  show "mek_ceg m' = mek_ceg m" by (rule eq)
  show "out_StatusMap out = sm_All (eng_sm (mek_engine m'))" "covers (set (node_ids (mek_ceg m))) (mek_engine m')"
    using co run eq by simp_all
  show "secure (mek_ceg m) (mek_engine m')" using se run by simp
  show "\<exists>out0. RunLoop (mek_ceg m) (kernel_env m elapsed env) (ComputeWaves (mek_ceg m) (mek_rir m))
      (start (mek_ceg m)) = Some (Inr (out0, mek_engine m')) \<and> out_StatusMap out0 = out_StatusMap out"
    using run eq by blast
qed

subsection \<open>Journal files\<close>

text \<open>An entry survives the file when its line fits the scanner and decodes to the same node and status.\<close>

definition readable :: "(Entry \<Rightarrow> string option) \<Rightarrow> (string \<Rightarrow> Entry option) \<Rightarrow> Entry \<Rightarrow> bool" where
  "readable encode decode e \<longleftrightarrow>
     (\<exists>l e'. encode e = Some l \<and> length l < max_token \<and> decode (drop_cr l) = Some e' \<and>
        je_NodeID e' = je_NodeID e \<and> je_ToStatus e' = je_ToStatus e)"

definition replay_entries :: "Entry list \<Rightarrow> (string, NodeStatus) gomap \<Rightarrow> (string, NodeStatus) gomap" where
  "replay_entries es t = fold (\<lambda>e out. gm_put (je_NodeID e) (je_ToStatus e) out) es t"

lemma scan_readable:
  "\<forall>e \<in> set es. readable encode decode e \<Longrightarrow>
     scan_entries decode (List.map_filter encode es) t = Inr (replay_entries es t)"
  by (induction es arbitrary: t) (auto simp: map_filter_simps readable_def replay_entries_def)

lemma scan_too_long:
  "l \<in> set ls \<Longrightarrow> max_token \<le> length l \<Longrightarrow> scan_entries decode ls t = Inl TokenTooLong"
  by (induction ls arbitrary: t) (auto split: option.splits)

lemma replay_entries_wf: "gm_wf t \<Longrightarrow> gm_wf (replay_entries es t)"
  unfolding replay_entries_def by (rule fold_invariant [where P = gm_wf]) simp_all

lemma replay_entries_get:
  "gm_get (replay_entries es []) i = map_option je_ToStatus (find_entry i (rev es))"
  by (induction es rule: rev_induct) (simp_all add: replay_entries_def)

lemma jEntries_replay: "jEntries j = replay_entries (j_entries j) []"
  by (simp add: jEntries_def replay_entries_def Entries_def)

lemma jEntries_get: "gm_get (jEntries j) i = TerminalStatus j i"
  by (simp add: jEntries_replay replay_entries_get TerminalStatus_def)

lemma loaders_agree: "loadJournalTerminals = loadTerminals"
  by (simp add: loadJournalTerminals_def loadTerminals_def fun_eq_iff)

text \<open>Reading back the file of a journal whose entries survive it gives the map the journal itself computes.\<close>

lemma load_journal:
  assumes "\<forall>e \<in> set (Entries (journal_Subscribe encode evs journal_New)). readable encode decode e"
  shows "loadTerminals decode (Some (j_file (journal_Subscribe encode evs journal_New))) =
    Inr (jEntries (journal_Subscribe encode evs journal_New))"
  using assms by (simp add: loadTerminals_def journal_file_encoded scan_readable jEntries_replay Entries_def)

subsection \<open>Replay: lemmas\<close>

lemma diverge_simps [simp]:
  "\<not> rp_Match (diverge i js rs rep)" "rp_Divergences (diverge i js rs rep) \<noteq> []"
  by (simp_all add: diverge_def)

lemma compare_journal_fold:
  "rp_Match (fold (compare_journal out) ts rep) \<longleftrightarrow> rp_Match rep \<and> (\<forall>(i, js) \<in> set ts. sm_Get out i = Some js)"
proof (induction ts arbitrary: rep)
  case (Cons p ts)
  have "rp_Match (compare_journal out p rep) \<longleftrightarrow> rp_Match rep \<and> (case p of (i, js) \<Rightarrow> sm_Get out i = Some js)"
    by (simp add: compare_journal_def sm_Get_def split: prod.splits option.splits)
  with Cons show ?case by auto
qed simp

lemma compare_replay_fold:
  "rp_Match (fold (compare_replay ts) out rep) \<longleftrightarrow> rp_Match rep \<and> (\<forall>(i, st) \<in> set out. gm_get ts i \<noteq> None)"
proof (induction out arbitrary: rep)
  case (Cons p out)
  have "rp_Match (compare_replay ts p rep) \<longleftrightarrow> rp_Match rep \<and> (case p of (i, st) \<Rightarrow> gm_get ts i \<noteq> None)"
    by (simp add: compare_replay_def split: prod.splits)
  with Cons show ?case by auto
qed simp

definition tally :: "ReplayReport \<Rightarrow> bool" where
  "tally rep \<longleftrightarrow> (rp_Match rep \<longleftrightarrow> rp_Divergences rep = [])"

lemma tally_compare: "tally rep \<Longrightarrow> tally (compare_journal out p rep)" "tally rep \<Longrightarrow> tally (compare_replay ts q rep)"
  by (auto simp: tally_def compare_journal_def compare_replay_def split: prod.splits option.splits)

lemma tally_folds: "tally rep \<Longrightarrow> tally (fold (compare_replay ts) out (fold (compare_journal out') ts' rep))"
  by (rule fold_invariant [where P = tally], rule fold_invariant [where P = tally]) (simp_all add: tally_compare)

lemma replay_entries_scan: "scan_entries decode ls t = Inr ts \<Longrightarrow> gm_wf t \<Longrightarrow> gm_wf ts"
  by (induction ls arbitrary: t) (auto split: option.splits if_splits)

lemma loadTerminals_wf: "loadTerminals decode file = Inr ts \<Longrightarrow> gm_wf ts"
  by (auto simp: loadTerminals_def dest: replay_entries_scan split: option.splits)

lemma gm_wf_sm_All: "gm_wf (sm_All sm)"
  by (simp add: sm_All_def gm.invar_fold_put)

lemma maps_agree:
  assumes "gm_wf ts" and "gm_wf out"
  shows "((\<forall>(i, js) \<in> set ts. sm_Get out i = Some js) \<and> (\<forall>(i, st) \<in> set out. gm_get ts i \<noteq> None)) \<longleftrightarrow>
    (\<forall>i. gm_get ts i = sm_Get out i)"
proof -
  have "(\<forall>(i, js) \<in> set ts. sm_Get out i = Some js) \<longleftrightarrow> (\<forall>i js. gm_get ts i = Some js \<longrightarrow> sm_Get out i = Some js)"
    unfolding Ball_def split_paired_All prod.case gm_wf_mem_get [OF assms(1)] ..
  moreover have "(\<forall>(i, st) \<in> set out. gm_get ts i \<noteq> None) \<longleftrightarrow> (\<forall>i s. sm_Get out i = Some s \<longrightarrow> gm_get ts i \<noteq> None)"
    unfolding Ball_def split_paired_All prod.case gm_wf_mem_get [OF assms(2)] by (auto simp: sm_Get_def)
  moreover have "(\<forall>s. x = Some s \<longrightarrow> y = Some s) \<and> (\<forall>s. y = Some s \<longrightarrow> x \<noteq> None) \<longleftrightarrow> x = y" for x y :: "NodeStatus option"
    by (cases x; cases y) auto
  ultimately show ?thesis by (simp add: all_conj_distrib [symmetric])
qed

lemma replay_report:
  assumes "replay_Verify decode rd ps path jpath file (elapsed, total_ms, env) = Some (Inr rep)"
  obtains ts m out m' where "loadTerminals decode file = Inr ts" and "mek_New rd ps path None = Inr m"
    and "mek_Run m elapsed total_ms env = Some (Inr (out, m'))"
    and "rp_Match rep \<longleftrightarrow> (\<forall>i. gm_get ts i = sm_Get (out_StatusMap out) i)" and "tally rep"
proof -
  from assms obtain ts m out m' where *: "loadTerminals decode file = Inr ts" "mek_New rd ps path None = Inr m"
    "mek_Run m elapsed total_ms env = Some (Inr (out, m'))"
    "rep = fold (compare_replay ts) (out_StatusMap out) (fold (compare_journal (out_StatusMap out)) ts
       \<lparr>rp_RIRPath = path, rp_JournalPath = jpath, rp_Match = True, rp_Divergences = [],
        rp_JournalEntries = length ts, rp_ReplayNodes = length (out_StatusMap out)\<rparr>)"
    unfolding replay_Verify_def loaders_agree by (auto simp: Let_def split: sum.splits option.splits)
  have "gm_wf (out_StatusMap out)"
    using *(3) by (auto simp: mek_Run_def RunLoop_def gm_wf_sm_All split: option.splits sum.splits run_state.splits)
  then have "rp_Match rep \<longleftrightarrow> (\<forall>i. gm_get ts i = sm_Get (out_StatusMap out) i)"
    using maps_agree [OF loadTerminals_wf [OF *(1)]] *(4) by (simp add: compare_journal_fold compare_replay_fold)
  moreover have "tally rep" unfolding *(4) by (rule tally_folds) (simp add: tally_def)
  ultimately show ?thesis using that *(1-3) by blast
qed

subsection \<open>The recorded states of a run\<close>

lemma last_status_state_events:
  assumes "distinct (node_ids (mek_ceg m))" and "\<And>i. eng_get (mek_engine m) i \<noteq> None \<Longrightarrow> i \<in> set (node_ids (mek_ceg m))"
  shows "last_status i (state_events m now) = eng_get (mek_engine m) i"
proof -
  let ?f = "\<lambda>node. case sm_GetState (eng_sm (mek_engine m)) (node_ID node) of
         None \<Rightarrow> None
       | Some state \<Rightarrow> Some (\<lparr>ev_NodeID = node_ID node, ev_NewStatus = ns_Status state,
                             ev_Outputs = ns_Outputs state, ev_Artifacts = ns_Artifacts state\<rparr>, now (node_ID node))"
  have "last_status i (List.map_filter ?f ns) = (if i \<in> set (map node_ID ns) then eng_get (mek_engine m) i else None)"
    if "distinct (map node_ID ns)" for ns
    using that
    by (induction ns) (auto simp: map_filter_simps sm_Get_GetState split: option.splits)
  from this [of "ceg_Nodes (mek_ceg m)"] assms(1) have "last_status i (state_events m now) =
      (if i \<in> set (node_ids (mek_ceg m)) then eng_get (mek_engine m) i else None)"
    unfolding state_events_def node_ids_def by blast
  with assms(2) [of i] show ?thesis by (cases "eng_get (mek_engine m) i") auto
qed

text \<open>The map the journal of the final states holds is the status map of the kernel.\<close>

lemma recorded_states:
  assumes n: "mek_New rd ps path cfg = Inr m" and a: "all_arrivals env"
    and r: "mek_Run m elapsed total_ms env = Some (Inr (out, m1))"
  shows "last_status i (state_events m1 now) = eng_get (mek_engine m1) i"
    and "sm_Get (out_StatusMap out) i = eng_get (mek_engine m1) i"
proof -
  note f = mek_Run_final [OF assms] and k = mek_New_Inr [OF n]
  have "distinct (node_ids (mek_ceg m1))"
    using f(1) sorted_graph_spec(1) [OF k(1)] k(1,2) by (simp add: Build_Inr_iff)
  then show "last_status i (state_events m1 now) = eng_get (mek_engine m1) i"
    using f(1,3) by (intro last_status_state_events) (simp_all add: covers_def)
  show "sm_Get (out_StatusMap out) i = eng_get (mek_engine m1) i"
    using f(2,3) by (simp add: covers_def Get_sm_All)
qed

text \<open>No gate of the graph escalates.\<close>

definition no_escalation :: "CEG \<Rightarrow> bool" where
  "no_escalation c \<longleftrightarrow> (\<forall>n \<in> set (ceg_Nodes c). \<forall>g. node_Gate n = Some g \<longrightarrow> br_Target (evaluatePredicate g) \<noteq> ''ESCALATE'')"

lemma ceg_node_in: "ceg_node c i = Some n \<Longrightarrow> n \<in> set (ceg_Nodes c)"
  by (auto simp: ceg_node_def split: option.splits if_splits)

lemma blank_escalation [simp]: "er_Escalation (blank_result s ms) = False"
  by (simp add: blank_result_def)

lemma kernel_dispatch_calm:
  assumes "no_escalation c" and "kernel_dispatch c cfg elapsed i = Inr r"
  shows "\<not> er_Escalation r"
proof -
  obtain n where n: "ceg_node c i = Some n" using assms(2) by (auto simp: kernel_dispatch_def Dispatch_def dispatcher_New_def split: option.splits)
  show ?thesis
  proof (cases "node_Type n = UnitGate")
    case True
    with assms(2) n have "dispatchGate n = Inr r" by (simp add: kernel_dispatch_def Dispatch_def dispatcher_New_def)
    then show ?thesis using assms(1) ceg_node_in [OF n]
      by (auto simp: dispatchGate_def Let_def no_escalation_def split: option.splits if_splits)
  next
    case False
    with assms(2) n have "dispatchAdapter (dispatcher_New c cfg) n (elapsed i) = Inr r"
      by (simp add: kernel_dispatch_def Dispatch_def dispatcher_New_def)
    then show ?thesis
      by (auto simp: dispatchAdapter_def executeWithTimeout_def dispatcher_New_def Let_def split: if_splits)
  qed
qed

lemma kernel_calm: "no_escalation (mek_ceg m) \<Longrightarrow> \<not> escalates (kernel_env m elapsed env) i"
  using kernel_dispatch_calm by (auto simp: escalates_def kernel_env_def split: sum.splits)

lemma kernel_same_adapters: "same_adapters (kernel_env m elapsed env) (kernel_env m elapsed' env')"
proof -
  have "same_result (dispatchAdapter (dispatcher_New c cfg) n t) (dispatchAdapter (dispatcher_New c cfg) n t')" for c cfg n t t'
    by (simp add: dispatchAdapter_def executeWithTimeout_def dispatcher_New_def same_result_def blank_result_def Let_def)
  then have "same_result (kernel_dispatch c cfg elapsed i) (kernel_dispatch c cfg elapsed' i)" for c cfg i
    by (simp add: kernel_dispatch_def Dispatch_def split: option.split)
  then show ?thesis by (simp add: same_adapters_def kernel_env_def)
qed

subsection \<open>Properties: journals and replay\<close>

text \<open>Reading a file of encoded entries: one line that is too long fails the whole, and otherwise the encoded
  entries count.\<close>

lemma scan_file:
  assumes "\<forall>e \<in> set es. \<forall>l. encode e = Some l \<longrightarrow>
    (\<exists>e'. decode (drop_cr l) = Some e' \<and> je_NodeID e' = je_NodeID e \<and> je_ToStatus e' = je_ToStatus e)"
  shows "scan_entries decode (List.map_filter encode es) t =
    (if \<exists>l \<in> set (List.map_filter encode es). max_token \<le> length l then Inl TokenTooLong
     else Inr (replay_entries (filter (\<lambda>e. encode e \<noteq> None) es) t))"
  using assms
proof (induction es arbitrary: t)
  case (Cons e es)
  show ?case
  proof (cases "encode e")
    case (Some l)
    then obtain e' where "decode (drop_cr l) = Some e'" "je_NodeID e' = je_NodeID e" "je_ToStatus e' = je_ToStatus e"
      using Cons.prems by auto
    then show ?thesis using Some Cons.IH Cons.prems by (simp add: map_filter_simps replay_entries_def)
  qed (use Cons.IH Cons.prems in \<open>simp add: map_filter_simps replay_entries_def\<close>)
qed (simp add: map_filter_simps replay_entries_def)

lemma find_last: "find_entry i (rev es) = (case filter (\<lambda>e. je_NodeID e = i) es of [] \<Rightarrow> None | xs \<Rightarrow> Some (last xs))"
  by (induction es rule: rev_induct) (auto split: list.splits)

text \<open>C15: a journal file round-trips as far as its lines go. Given that the JSON codec decodes what it encodes to the
  same node and status, both readers (\<open>replay\<close> and \<open>verify\<close>) fail, with the error of the scanner, exactly on a file with
  a line of 64 KiB or more; from any other file both recover for every node the status of its last entry that could be
  encoded, and when every entry could be, that is the last status committed.\<close>

theorem journal_roundtrip:
  fixes encode :: "Entry \<Rightarrow> string option" and decode :: "string \<Rightarrow> Entry option"
  defines "J \<equiv> \<lambda>evs. journal_Subscribe encode evs journal_New"
  assumes "\<forall>e \<in> set (Entries (J evs)). \<forall>l. encode e = Some l \<longrightarrow>
    (\<exists>e'. decode (drop_cr l) = Some e' \<and> je_NodeID e' = je_NodeID e \<and> je_ToStatus e' = je_ToStatus e)"
  shows "loadJournalTerminals decode (Some (j_file (J evs))) = loadTerminals decode (Some (j_file (J evs))) \<and>
    (case loadTerminals decode (Some (j_file (J evs))) of
       Inl err \<Rightarrow> err = TokenTooLong \<and> (\<exists>l \<in> set (j_file (J evs)). 64 * 1024 \<le> length l)
     | Inr ts \<Rightarrow> (\<forall>l \<in> set (j_file (J evs)). length l < 64 * 1024) \<and>
         (\<forall>i. gm_get ts i = (case filter (\<lambda>e. encode e \<noteq> None) (NodeHistory (J evs) i) of
                [] \<Rightarrow> None | es \<Rightarrow> Some (je_ToStatus (last es)))) \<and>
         ((\<forall>e \<in> set (Entries (J evs)). encode e \<noteq> None) \<longrightarrow> (\<forall>i. gm_get ts i = last_status i evs)))"
proof -
  let ?es = "j_entries (J evs)"
  have lines: "j_file (J evs) = List.map_filter encode ?es" by (simp add: J_def journal_file_encoded)
  have scan: "loadTerminals decode (Some (j_file (J evs))) =
      (if \<exists>l \<in> set (j_file (J evs)). max_token \<le> length l then Inl TokenTooLong
       else Inr (replay_entries (filter (\<lambda>e. encode e \<noteq> None) ?es) []))"
    using scan_file [of ?es encode decode "[]", OF assms(2) [unfolded Entries_def]] by (simp add: loadTerminals_def lines)
  have get: "gm_get (replay_entries (filter P ?es) []) i =
      (case filter P (NodeHistory (J evs) i) of [] \<Rightarrow> None | es \<Rightarrow> Some (je_ToStatus (last es)))" for P i
    by (simp add: replay_entries_get find_last NodeHistory_filter conj_commute split: list.split)
  have all: "gm_get (replay_entries ?es []) i = last_status i evs" for i
    using TerminalStatus_Subscribe [of encode evs i] by (simp add: replay_entries_get TerminalStatus_def J_def)
  have "filter (\<lambda>e. encode e \<noteq> None) ?es = ?es" if "\<forall>e \<in> set (Entries (J evs)). encode e \<noteq> None"
    using that by (simp add: Entries_def filter_id_conv)
  with scan get all show ?thesis by (auto simp: loaders_agree max_token_def not_le)
qed

text \<open>One entry whose line reaches 64 KiB makes the whole journal unreadable, for the replay and for the
  structural verification, although the journal recorded the run completely.\<close>

theorem long_entry_unreadable:
  assumes "e \<in> set (Entries (journal_Subscribe encode evs journal_New))" and "encode e = Some l"
    and "64 * 1024 \<le> length l"
  shows "loadTerminals decode (Some (j_file (journal_Subscribe encode evs journal_New))) = Inl TokenTooLong \<and>
    replay_Verify decode rd ps path jpath (Some (j_file (journal_Subscribe encode evs journal_New))) run =
      Some (Inl (ReplayJournal TokenTooLong)) \<and>
    (\<forall>rep. Structural decode rd ps path (Some (j_file (journal_Subscribe encode evs journal_New))) \<noteq> Inr rep)"
proof -
  have "l \<in> set (j_file (journal_Subscribe encode evs journal_New))"
    using assms(1,2) unfolding journal_file_encoded Entries_def map_filter_def
    by simp (metis (mono_tags, lifting) image_eqI mem_Collect_eq option.distinct(1) option.sel)
  then have "loadTerminals decode (Some (j_file (journal_Subscribe encode evs journal_New))) = Inl TokenTooLong"
    using assms(3) by (simp add: loadTerminals_def scan_too_long max_token_def)
  then show ?thesis
    by (cases run) (simp add: replay_Verify_def loaders_agree Structural_def split: sum.splits)
qed

text \<open>A replay reports a match exactly when the journal and the second execution give every node the same
  status (or neither knows it), and it lists a divergence exactly when it reports none.\<close>

theorem replay_Match_iff:
  assumes "replay_Verify decode rd ps path jpath file (elapsed, total_ms, env) = Some (Inr rep)"
  shows "\<exists>ts m out m'. loadJournalTerminals decode file = Inr ts \<and> mek_New rd ps path None = Inr m \<and>
    mek_Run m elapsed total_ms env = Some (Inr (out, m')) \<and>
    (rp_Match rep \<longleftrightarrow> (\<forall>i. gm_get ts i = sm_Get (out_StatusMap out) i)) \<and>
    (rp_Match rep \<longleftrightarrow> rp_Divergences rep = [])"
  using replay_report [OF assms] unfolding tally_def loaders_agree by metis

text \<open>A replay finds the states of the journal.\<close>

lemma replay_matches:
  assumes n: "mek_New rd ps path None = Inr m" and e: "edges_resolved (mek_rir m)" and act: "activations_ok (mek_rir m)"
    and ne: "no_escalation (mek_ceg m)" and a: "all_arrivals env" "all_arrivals env'"
    and r: "mek_Run m elapsed total_ms env = Some (Inr (out, m1))"
    and rd: "\<forall>e \<in> set (Entries (journal_Subscribe encode (state_events m1 now) journal_New)). readable encode decode e"
  shows "\<exists>rep. replay_Verify decode rd ps path jpath
      (Some (j_file (journal_Subscribe encode (state_events m1 now) journal_New))) (elapsed', total_ms', env') = Some (Inr rep) \<and>
    rp_Match rep"
proof -
  note k = mek_New_Inr [OF n]
  let ?env = "kernel_env m elapsed env" and ?env' = "kernel_env m elapsed' env'"
  have a': "all_arrivals ?env" "all_arrivals ?env'" using a by (simp_all add: kernel_env_arrivals)
  have ok: "dispatch_ok ?env" by (rule kd.dispatch_ok) (simp add: kernel_env_def)
  have calm: "\<forall>i. \<not> escalates ?env i" using kernel_calm [OF ne] by blast
  obtain out0 where run: "RunLoop (mek_ceg m) ?env (ComputeWaves (mek_ceg m) (mek_rir m)) (start (mek_ceg m)) =
      Some (Inr (out0, mek_engine m1))" "out_StatusMap out0 = out_StatusMap out"
    using mek_Run_final(5) [OF n a(1) r] by blast
  obtain out' e1 where run': "RunLoop (mek_ceg m) ?env' (ComputeWaves (mek_ceg m) (mek_rir m)) (start (mek_ceg m)) =
      Some (Inr (out', e1))"
    and same: "\<forall>i. sm_GetState (out_StatusMap out0) i = sm_GetState (out_StatusMap out') i"
    using runs_agree [OF k(1) e k(2) act ok calm kernel_same_adapters a'] run by (auto 0 0)
  obtain out2 m2 where r2: "mek_Run m elapsed' total_ms' env' = Some (Inr (out2, m2))" "out_StatusMap out2 = out_StatusMap out'"
    using run' unfolding mek_Run_def k(3,4) by simp
  note ld = load_journal [OF rd]
  obtain rep where rep: "replay_Verify decode rd ps path jpath
      (Some (j_file (journal_Subscribe encode (state_events m1 now) journal_New))) (elapsed', total_ms', env') = Some (Inr rep)"
    using r2(1) ld n by (simp add: replay_Verify_def loaders_agree Let_def)
  obtain ts where ts: "loadTerminals decode (Some (j_file (journal_Subscribe encode (state_events m1 now) journal_New))) = Inr ts"
    "rp_Match rep \<longleftrightarrow> (\<forall>i. gm_get ts i = sm_Get (out_StatusMap out2) i)"
    using replay_report [OF rep] n r2(1) by (metis Inr_inject option.inject prod.inject)
  have "gm_get ts i = sm_Get (out_StatusMap out2) i" for i
  proof -
    have "gm_get ts i = last_status i (state_events m1 now)"
      using ts(1) ld by (simp add: jEntries_get [symmetric] TerminalStatus_Subscribe [where enc = encode, symmetric])
    also have "\<dots> = sm_Get (out_StatusMap out) i" using recorded_states [OF n a(1) r, of i] by metis
    also have "\<dots> = sm_Get (out_StatusMap out2) i" using same run(2) r2(2) by (simp add: sm_Get_GetState)
    finally show ?thesis .
  qed
  with ts(2) rep show ?thesis by blast
qed

text \<open>C12: replay confirms what happened: for a document that a kernel loads, whose edges name units, whose activations
  are declared on units with an edge to the node and whose gates do not escalate, the journal of the final states of one
  execution matches a second execution, whatever the order of arrival, the times and the clock in either. Every
  entry of the journal has to be a line below 64 KiB that decodes to its node and status.\<close>

theorem replay_confirms:
  assumes n: "mek_New rd ps path None = Inr m" and e: "edges_resolved (mek_rir m)" and act: "activations_ok (mek_rir m)"
    and ne: "no_escalation (mek_ceg m)" and a: "all_arrivals env" "all_arrivals env'"
    and r: "mek_Run m elapsed total_ms env = Some (Inr (out, m1))"
    and rd: "\<forall>e \<in> set (Entries (journal_Subscribe encode (state_events m1 now) journal_New)). readable encode decode e"
  shows "\<exists>rep. replay_Verify decode rd ps path jpath
      (Some (j_file (journal_Subscribe encode (state_events m1 now) journal_New))) (elapsed', total_ms', env') = Some (Inr rep) \<and>
    rp_Match rep"
  by (rule replay_matches [OF assms])

subsection \<open>Structural verification: lemmas\<close>

lemma violate_simps [simp]:
  "\<not> vr_Pass (violate rule i msg rep)" "vr_Violations (violate rule i msg rep) \<noteq> []"
  by (simp_all add: violate_def)

lemma fold_pass:
  assumes "\<And>x rep. vr_Pass (f x rep) \<longleftrightarrow> vr_Pass rep \<and> P x"
  shows "vr_Pass (fold f xs rep) \<longleftrightarrow> vr_Pass rep \<and> (\<forall>x \<in> set xs. P x)"
  using assms by (induction xs arbitrary: rep) auto

lemma check_terminal_pass:
  "vr_Pass (check_terminal ts n rep) \<longleftrightarrow> vr_Pass rep \<and> (\<exists>s. gm_get ts (node_ID n) = Some s \<and> IsTerminal s)"
  by (simp add: check_terminal_def split: option.split del: IsTerminal.simps)

lemma check_edge_pass:
  "vr_Pass (check_edge ts e rep) \<longleftrightarrow> vr_Pass rep \<and>
     (cedge_Type e = ''dependency'' \<longrightarrow> gm_get ts (cedge_To e) = Some StatusSuccess \<longrightarrow>
        gm_get ts (cedge_From e) = None \<or> gm_get ts (cedge_From e) = Some StatusSuccess)"
  by (simp add: check_edge_def Let_def split: option.split)

lemma check_require_pass:
  "vr_Pass (check_require ts n req rep) \<longleftrightarrow> vr_Pass rep \<and> gm_get ts req = Some StatusSuccess"
  by (simp add: check_require_def)

lemma check_activation_pass:
  "vr_Pass (check_activation ts n rep) \<longleftrightarrow> vr_Pass rep \<and>
     (act_Condition (node_Activation n) = ''all_success'' \<longrightarrow> gm_get ts (node_ID n) = Some StatusSuccess \<longrightarrow>
        (\<forall>req \<in> set (act_Requires (node_Activation n)). gm_get ts req = Some StatusSuccess))"
  by (simp add: check_activation_def fold_pass [OF check_require_pass])

text \<open>The conditions of a structurally sound record.\<close>

definition sound_record :: "CEG \<Rightarrow> (string \<Rightarrow> NodeStatus option) \<Rightarrow> bool" where
  "sound_record c st \<longleftrightarrow>
     (\<forall>n \<in> set (ceg_Nodes c). case st (node_ID n) of None \<Rightarrow> False | Some s \<Rightarrow> IsTerminal s) \<and>
     (\<forall>e \<in> set (ceg_Edges c). cedge_Type e = ''dependency'' \<longrightarrow> st (cedge_To e) = Some StatusSuccess \<longrightarrow>
        st (cedge_From e) = None \<or> st (cedge_From e) = Some StatusSuccess) \<and>
     (\<forall>n \<in> set (ceg_Nodes c). act_Condition (node_Activation n) = ''all_success'' \<longrightarrow>
        st (node_ID n) = Some StatusSuccess \<longrightarrow>
        (\<forall>req \<in> set (act_Requires (node_Activation n)). st req = Some StatusSuccess))"

lemma ended_iff: "(case x of None \<Rightarrow> False | Some s \<Rightarrow> IsTerminal s) \<longleftrightarrow> (\<exists>s. x = Some s \<and> IsTerminal s)"
  by (simp split: option.split)

lemma check_all_pass: "vr_Pass (check_all c ts) \<longleftrightarrow> sound_record c (gm_get ts)"
  unfolding check_all_def Let_def sound_record_def ended_iff
  by (simp only: fold_pass [OF check_activation_pass] fold_pass [OF check_edge_pass] fold_pass [OF check_terminal_pass]
      VReport.simps) simp

definition balanced :: "VReport \<Rightarrow> bool" where
  "balanced rep \<longleftrightarrow> (vr_Pass rep \<longleftrightarrow> vr_Violations rep = [])"

lemma balanced_fold: "(\<And>x rep. balanced rep \<Longrightarrow> balanced (f x rep)) \<Longrightarrow> balanced rep \<Longrightarrow> balanced (fold f xs rep)"
  by (rule fold_invariant [where P = balanced]) simp_all

lemma balanced_checks:
  "balanced rep \<Longrightarrow> balanced (check_terminal ts n rep)" "balanced rep \<Longrightarrow> balanced (check_edge ts e rep)"
  "balanced rep \<Longrightarrow> balanced (check_require ts n req rep)" "balanced rep \<Longrightarrow> balanced (check_activation ts n rep)"
proof -
  show r: "balanced rep \<Longrightarrow> balanced (check_require ts n req rep)" for rep req
    by (auto simp: balanced_def check_require_def)
  show "balanced rep \<Longrightarrow> balanced (check_activation ts n rep)"
    by (auto simp: check_activation_def intro: balanced_fold r)
qed (auto simp: balanced_def check_terminal_def check_edge_def Let_def simp del: IsTerminal.simps split: option.split)

lemma check_all_balanced: "balanced (check_all c ts)"
  unfolding check_all_def Let_def
  by (intro balanced_fold balanced_checks) (simp_all add: balanced_def)

lemma loadRIR_mek: "mek_New rd ps path cfg = Inr m \<Longrightarrow> loadRIR rd ps path = Inr (mek_rir m, mek_ceg m)"
  by (auto simp: mek_New_def loadRIR_def Let_def split: sum.splits)

text \<open>Every dependency edge is one its target requires.\<close>

definition edges_required :: "CEG \<Rightarrow> bool" where
  "edges_required c \<longleftrightarrow> (\<forall>e \<in> set (ceg_Edges c). cedge_Type e = ''dependency'' \<longrightarrow>
     (case ceg_node c (cedge_To e) of
        None \<Rightarrow> True
      | Some n \<Rightarrow> act_Condition (node_Activation n) = ''all_success'' \<and>
          cedge_From e \<in> set (act_Requires (node_Activation n))))"

text \<open>Safety of a run gives the last two conditions, its end the first.\<close>

lemma run_sound_record:
  assumes sec: "secure c e" and ok: "map_ok c" and cov: "covers (set (node_ids c)) e"
    and fin: "\<forall>i \<in> set (node_ids c). \<exists>s. eng_get e i = Some s \<and> IsTerminal s" and er: "edges_required c"
  shows "sound_record c (eng_get e)"
proof -
  have req: "eng_get e x = Some StatusSuccess"
    if "ceg_node c i = Some n" "eng_get e i = Some StatusSuccess" "act_Condition (node_Activation n) = ''all_success''"
      "x \<in> set (act_Requires (node_Activation n))" for i n x
  proof -
    have "EvaluateActivation n (eng_sm e)" using sec that(1,2) by (auto simp: secure_def safe_def active_def)
    then show ?thesis using that(3,4) by (auto simp: EvaluateActivation_iff candidates_def succeeded_def)
  qed
  have node: "ceg_node c (node_ID n) = Some n" if "n \<in> set (ceg_Nodes c)" for n
    using map_ok_node [OF ok, of "node_ID n" n] that by simp
  have "eng_get e (cedge_From d) = Some StatusSuccess"
    if d: "d \<in> set (ceg_Edges c)" "cedge_Type d = ''dependency''" "eng_get e (cedge_To d) = Some StatusSuccess" for d
  proof -
    have "cedge_To d \<in> set (node_ids c)" using cov d(3) unfolding covers_def by (metis option.distinct(1))
    then obtain n where n: "ceg_node c (cedge_To d) = Some n" using node by (auto simp: node_ids_def)
    with er d(1,2) have "act_Condition (node_Activation n) = ''all_success''"
      "cedge_From d \<in> set (act_Requires (node_Activation n))" by (force simp: edges_required_def)+
    with req n d(3) show ?thesis by blast
  qed
  moreover have "\<forall>n \<in> set (ceg_Nodes c). \<exists>s. eng_get e (node_ID n) = Some s \<and> IsTerminal s"
    using fin by (simp add: node_ids_def del: IsTerminal.simps)
  moreover have "\<forall>n \<in> set (ceg_Nodes c). act_Condition (node_Activation n) = ''all_success'' \<longrightarrow>
      eng_get e (node_ID n) = Some StatusSuccess \<longrightarrow>
      (\<forall>x \<in> set (act_Requires (node_Activation n)). eng_get e x = Some StatusSuccess)"
    using req node by blast
  ultimately show ?thesis unfolding sound_record_def ended_iff by simp
qed

subsection \<open>Traces of recorded states\<close>

lemma trace_known: "i \<in> set (map (ev_NodeID \<circ> fst) evs) \<longleftrightarrow> gm_get (col_traces (trace_Subscribe evs NewCollector)) i \<noteq> None"
proof (induction evs rule: rev_induct)
  case Nil
  then show ?case by (simp add: trace_Subscribe_def NewCollector_def)
next
  case (snoc p evs)
  then show ?case by (cases p) (auto simp: trace_Subscribe_snoc process_traces)
qed

lemma trace_not_ended:
  assumes "gm_get (col_traces (trace_Subscribe evs NewCollector)) i = Some t"
    and "\<And>evt now. (evt, now) \<in> set evs \<Longrightarrow> ev_NodeID evt = i \<Longrightarrow> \<not> IsTerminal (ev_NewStatus evt)"
  shows "tr_TerminalStatus t = StatusOther ''''"
  using assms
proof (induction evs arbitrary: t rule: rev_induct)
  case Nil
  then show ?case by (simp add: trace_Subscribe_def NewCollector_def)
next
  case (snoc p evs)
  obtain evt now where p: "p = (evt, now)" by fastforce
  have ih: "tr_TerminalStatus u = StatusOther ''''" if "gm_get (col_traces (trace_Subscribe evs NewCollector)) i = Some u" for u
    using that snoc.prems(2) by (intro snoc.IH) auto
  show ?case
  proof (cases "ev_NodeID evt = i")
    case True
    with snoc.prems(2) [of evt now] p have nt: "\<not> IsTerminal (ev_NewStatus evt)" by simp
    let ?old = "gm_get (col_traces (trace_Subscribe evs NewCollector)) i"
    have "t = fst (track evt now (case ?old of None \<Rightarrow> new_trace i now | Some t \<Rightarrow> t))"
      using snoc.prems(1) True p by (simp add: trace_Subscribe_snoc process_traces)
    with nt ih show ?thesis
      by (cases ?old) (simp_all add: track_status new_trace_def del: IsTerminal.simps)
  next
    case False
    with snoc.prems(1) ih p show ?thesis by (simp add: trace_Subscribe_snoc process_traces)
  qed
qed

lemma state_events_in:
  "(evt, t) \<in> set (state_events m now) \<Longrightarrow>
     ev_NodeID evt \<in> set (node_ids (mek_ceg m)) \<and> eng_get (mek_engine m) (ev_NodeID evt) = Some (ev_NewStatus evt)"
  by (auto simp: state_events_def map_filter_def sm_Get_GetState node_ids_def split: option.splits)

lemma state_events_nodes:
  assumes "i \<in> set (node_ids (mek_ceg m))" and "eng_get (mek_engine m) i \<noteq> None"
  shows "i \<in> set (map (ev_NodeID \<circ> fst) (state_events m now))"
  using assms by (force simp: state_events_def map_filter_def sm_Get_GetState node_ids_def)

lemma trace_of_states:
  assumes "distinct (node_ids (mek_ceg m))" and "covers (set (node_ids (mek_ceg m))) (mek_engine m)"
  shows "gm_get (TerminalStatuses (trace_Subscribe (state_events m now) NewCollector)) i =
    map_option (\<lambda>s. if IsTerminal s then s else StatusOther '''') (eng_get (mek_engine m) i)"
proof (cases "eng_get (mek_engine m) i")
  case None
  then have "i \<notin> set (map (ev_NodeID \<circ> fst) (state_events m now))" using state_events_in by fastforce
  with None show ?thesis using trace_known [of i "state_events m now"] by (simp add: TerminalStatuses_get [OF trace_wf])
next
  case (Some s)
  then have i: "i \<in> set (node_ids (mek_ceg m))" using assms(2) unfolding covers_def by (metis option.distinct(1))
  obtain t where t: "gm_get (col_traces (trace_Subscribe (state_events m now) NewCollector)) i = Some t"
    using state_events_nodes [OF i] Some trace_known [of i "state_events m now"] by fastforce
  have "tr_TerminalStatus t = (if IsTerminal s then s else StatusOther '''')"
  proof (cases "IsTerminal s")
    case True
    have "last_status i (state_events m now) = Some s"
      using last_status_state_events [of m i now] assms Some by (simp add: covers_def)
    from trace_terminal [OF this True] t True show ?thesis by simp
  next
    case False
    have "tr_TerminalStatus t = StatusOther ''''"
      using state_events_in Some False by (intro trace_not_ended [OF t]) fastforce
    with False show ?thesis by simp
  qed
  with t Some show ?thesis by (simp add: TerminalStatuses_get [OF trace_wf])
qed

lemma add_check_pass [simp]: "cr_Pass (add_check check rep) \<longleftrightarrow> cc_Pass check \<and> cr_Pass rep"
  by (simp add: add_check_def)

lemma find_none: "List.find P xs = None \<longleftrightarrow> (\<forall>x \<in> set xs. \<not> P x)"
  by (auto simp: find_None_iff)

lemma check_trace_pass:
  assumes "gm_wf tt"
  shows "cc_Pass (check_trace tt jt) \<longleftrightarrow> (\<forall>i s. gm_get tt i = Some s \<longrightarrow> gm_get jt i = Some s)"
proof -
  have "cc_Pass (check_trace tt jt) \<longleftrightarrow> (\<forall>(i, s) \<in> set tt. gm_get jt i = Some s)"
    using find_none [of "\<lambda>(nodeID, ts). gm_get jt nodeID \<noteq> Some ts" tt]
    by (cases "List.find (\<lambda>(nodeID, ts). gm_get jt nodeID \<noteq> Some ts) tt") (auto simp: check_trace_def)
  then show ?thesis unfolding Ball_def split_paired_All prod.case gm_wf_mem_get [OF assms] .
qed

lemma check_kernel_pass:
  assumes "\<And>i. gm_get jt i = sm_Get sm i" and "gm_wf jt" and "gm_wf sm"
  shows "cc_Pass (check_kernel jt sm)"
proof -
  have "List.find (\<lambda>(nodeID, js). case gm_get sm nodeID of None \<Rightarrow> True | Some ks \<Rightarrow> ns_Status ks \<noteq> js) jt = None"
    using assms(1) gm_wf_mem_get [OF assms(2)] by (fastforce simp: find_none sm_Get_def split: option.splits)
  moreover have "List.find (\<lambda>(nodeID, ks). case gm_get jt nodeID of None \<Rightarrow> True | Some js \<Rightarrow> js \<noteq> ns_Status ks) sm = None"
    using assms(1) gm_wf_mem_get [OF assms(3)] by (fastforce simp: find_none sm_Get_def split: option.splits)
  ultimately show ?thesis by (simp add: check_kernel_def)
qed

subsection \<open>Properties: verification\<close>

text \<open>Structural verification passes exactly on sound records: every node of the graph is recorded with a
  terminal status, no recorded failure lies behind a dependency edge of a successful node, and what a
  successful \<open>all_success\<close> node requires succeeded. It lists a violation exactly when it does not pass.\<close>

theorem Structural_spec:
  assumes "Structural decode rd ps path file = Inr rep"
  shows "\<exists>r c ts. Load rd ps path = Inr r \<and> Build r = Inr c \<and> loadTerminals decode file = Inr ts \<and>
    (vr_Pass rep \<longleftrightarrow> sound_record c (gm_get ts)) \<and> (vr_Pass rep \<longleftrightarrow> vr_Violations rep = [])"
  using assms check_all_pass check_all_balanced
  by (auto simp: Structural_def loadRIR_def balanced_def split: sum.splits)

lemma ExecuteAndVerify_run:
  assumes "mek_New rd ps path None = Inr m" and "mek_Run m elapsed total_ms env = Some (Inr (out, m1))"
    and "\<forall>e \<in> set (Entries (journal_Subscribe encode (state_events m1 now) journal_New)). readable encode decode e"
  shows "ExecuteAndVerify encode decode rd ps path True now (elapsed, total_ms, env) =
    Some (Inr (check_all (mek_ceg m) (jEntries (journal_Subscribe encode (state_events m1 now) journal_New))))"
  using assms load_journal [OF assms(3)] loadRIR_mek [OF assms(1)] by (simp add: ExecuteAndVerify_def Structural_def Let_def)

text \<open>A run whose graph requires its dependency edges is a sound record, and its journal shows it.\<close>

lemma run_structural:
  assumes n: "mek_New rd ps path None = Inr m" and e: "edges_resolved (mek_rir m)" and act: "activations_ok (mek_rir m)"
    and er: "edges_required (mek_ceg m)" and a: "all_arrivals env"
    and r: "mek_Run m elapsed total_ms env = Some (Inr (out, m1))"
    and rd: "\<forall>e \<in> set (Entries (journal_Subscribe encode (state_events m1 now) journal_New)). readable encode decode e"
  shows "Structural decode rd ps path (Some (j_file (journal_Subscribe encode (state_events m1 now) journal_New))) =
      Inr (check_all (mek_ceg m) (jEntries (journal_Subscribe encode (state_events m1 now) journal_New)))"
    and "vr_Pass (check_all (mek_ceg m) (jEntries (journal_Subscribe encode (state_events m1 now) journal_New)))"
    and "\<forall>i \<in> set (node_ids (mek_ceg m)). \<exists>s. eng_get (mek_engine m1) i = Some s \<and> IsTerminal s"
proof -
  note k = mek_New_Inr [OF n] and f = mek_Run_final [OF n a r]
  have ids: "node_ids (mek_ceg m) = unit_ids (mek_rir m)" and ok: "map_ok (mek_ceg m)"
    using sorted_graph_spec(1,4) [OF k(1)] k(2) by (simp_all add: Build_Inr_iff)
  have "dispatch_ok (kernel_env m elapsed env)" by (rule kd.dispatch_ok) (simp add: kernel_env_def)
  moreover have "all_arrivals (kernel_env m elapsed env)" using a by (simp add: kernel_env_arrivals)
  ultimately have en: "run_ok False (ended (set (node_ids (mek_ceg m)))) (ended (set (node_ids (mek_ceg m))))
      (run_layers (mek_ceg m) (kernel_env m elapsed env) 0 (ComputeWaves (mek_ceg m) (mek_rir m)) (start (mek_ceg m)) zero_metrics)"
    by (rule ended_run [OF k(1) e k(2) act])
  obtain out0 where "RunLoop (mek_ceg m) (kernel_env m elapsed env) (ComputeWaves (mek_ceg m) (mek_rir m))
      (start (mek_ceg m)) = Some (Inr (out0, mek_engine m1))"
    using f(5) by blast
  with RunLoop_cases [OF en] have "ended (set (node_ids (mek_ceg m))) (mek_engine m1)" by simp
  then show fin: "\<forall>i \<in> set (node_ids (mek_ceg m)). \<exists>s. eng_get (mek_engine m1) i = Some s \<and> IsTerminal s"
    by (auto simp: ended_def settled_iff subset_iff simp del: IsTerminal.simps)
  show "Structural decode rd ps path (Some (j_file (journal_Subscribe encode (state_events m1 now) journal_New))) =
      Inr (check_all (mek_ceg m) (jEntries (journal_Subscribe encode (state_events m1 now) journal_New)))"
    using load_journal [OF rd] loadRIR_mek [OF n] by (simp add: Structural_def)
  have "sound_record (mek_ceg m) (eng_get (mek_engine m1))" by (rule run_sound_record [OF f(4) ok f(3) fin er])
  moreover have "gm_get (jEntries (journal_Subscribe encode (state_events m1 now) journal_New)) = eng_get (mek_engine m1)"
    using recorded_states(1) [OF n a r] by (simp add: fun_eq_iff jEntries_get TerminalStatus_Subscribe)
  ultimately show "vr_Pass (check_all (mek_ceg m) (jEntries (journal_Subscribe encode (state_events m1 now) journal_New)))"
    by (simp add: check_all_pass)
qed

text \<open>The verifier accepts the kernel: a document whose activations are declared, and whose dependency
  edges are requirements of \<open>all_success\<close> units, is executed and passes verification, whatever its
  executions return.\<close>

theorem ExecuteAndVerify_passes:
  assumes "mek_New rd ps path None = Inr m" and "edges_resolved (mek_rir m)" and "activations_ok (mek_rir m)"
    and "edges_required (mek_ceg m)" and "all_arrivals env"
    and r: "mek_Run m elapsed total_ms env = Some (Inr (out, m1))"
    and "\<forall>e \<in> set (Entries (journal_Subscribe encode (state_events m1 now) journal_New)). readable encode decode e"
  shows "\<exists>rep. ExecuteAndVerify encode decode rd ps path True now (elapsed, total_ms, env) = Some (Inr rep) \<and> vr_Pass rep"
  using run_structural [OF assms] assms(1) r by (simp add: ExecuteAndVerify_def Let_def)

text \<open>C13: all truth domains agree on a run: for a document whose edges name units, whose activations are declared on
  units with an edge to the node and require the source of every dependency edge, whose gates do not escalate and whose
  journal entries are lines below 64 KiB that decode to their node and status, the full consistency check
  passes: journal, kernel, trace, replay and structure say the same.\<close>

theorem FullConsistencyCheck_passes:
  assumes n: "mek_New rd ps path None = Inr m" and e: "edges_resolved (mek_rir m)" and act: "activations_ok (mek_rir m)"
    and er: "edges_required (mek_ceg m)" and ne: "no_escalation (mek_ceg m)"
    and a: "all_arrivals env" "all_arrivals env'"
    and r: "mek_Run m elapsed total_ms env = Some (Inr (out, m1))"
    and rd: "\<forall>e \<in> set (Entries (journal_Subscribe encode (state_events m1 jnow) journal_New)). readable encode decode e"
  shows "\<exists>rep. FullConsistencyCheck encode decode rd ps path jpath True jnow tnow (elapsed, total_ms, env)
      (elapsed', total_ms', env') = Some (Inr rep) \<and> cr_Pass rep"
proof -
  note st = run_structural [OF n e act er a(1) r rd] and f = mek_Run_final [OF n a(1) r] and k = mek_New_Inr [OF n]
  let ?j = "journal_Subscribe encode (state_events m1 jnow) journal_New"
  let ?sm = "sm_All (eng_sm (mek_engine m1))"
  obtain rp where rp: "replay_Verify decode rd ps path jpath (Some (j_file ?j)) (elapsed', total_ms', env') = Some (Inr rp)" "rp_Match rp"
    using replay_matches [OF n e act ne a r rd] by blast
  have j: "gm_get (jEntries ?j) i = eng_get (mek_engine m1) i" for i
    using recorded_states(1) [OF n a(1) r] by (simp add: jEntries_get TerminalStatus_Subscribe)
  have wf: "gm_wf (jEntries ?j)" by (simp add: jEntries_replay replay_entries_wf)
  have "cc_Pass (check_kernel (jEntries ?j) ?sm)"
    using f(3) by (intro check_kernel_pass wf gm_wf_sm_All) (simp add: j covers_def Get_sm_All)
  moreover have "cc_Pass (check_trace (TerminalStatuses (trace_Subscribe (state_events m1 tnow) NewCollector)) (jEntries ?j))"
  proof (subst check_trace_pass)
    show "gm_wf (TerminalStatuses (trace_Subscribe (state_events m1 tnow) NewCollector))"
      unfolding TerminalStatuses_def by (rule fold_invariant [where P = gm_wf]) auto
    have d: "distinct (node_ids (mek_ceg m1))" "covers (set (node_ids (mek_ceg m1))) (mek_engine m1)"
      using f(1,3) sorted_graph_spec(1) [OF k(1)] k(1,2) by (simp_all add: Build_Inr_iff)
    have "IsTerminal s" if "eng_get (mek_engine m1) i = Some s" for i s
      using st(3) f(3) that unfolding covers_def by (metis option.distinct(1) option.inject)
    then show "\<forall>i s. gm_get (TerminalStatuses (trace_Subscribe (state_events m1 tnow) NewCollector)) i = Some s \<longrightarrow>
        gm_get (jEntries ?j) i = Some s"
      by (auto simp: trace_of_states [OF d] j simp del: IsTerminal.simps)
  qed
  ultimately show ?thesis
    using n r rp st(1,2) by (simp add: FullConsistencyCheck_def check_replay_def check_structural_def Let_def)
qed

text \<open>A run that leaves a node in a state that is not terminal (blocked, for instance) never passes the
  consistency check: the trace of the node has no terminal status, and the journal records the state it
  is in.\<close>

theorem unfinished_run_inconsistent:
  assumes n: "mek_New rd ps path None = Inr m" and a: "all_arrivals env"
    and r: "mek_Run m elapsed total_ms env = Some (Inr (out, m1))"
    and s: "sm_Get (out_StatusMap out) i = Some s" "\<not> IsTerminal s" "s \<noteq> StatusOther ''''"
    and rep: "FullConsistencyCheck encode decode rd ps path jpath create_ok jnow tnow (elapsed, total_ms, env) replay =
      Some (Inr rep)"
  shows "\<not> cr_Pass rep"
proof -
  note f = mek_Run_final [OF n a r] and k = mek_New_Inr [OF n]
  let ?jt = "jEntries (journal_Subscribe encode (state_events m1 jnow) journal_New)"
  let ?tt = "TerminalStatuses (trace_Subscribe (state_events m1 tnow) NewCollector)"
  have i: "eng_get (mek_engine m1) i = Some s" using recorded_states(2) [OF n a r] s(1) by metis
  have d: "distinct (node_ids (mek_ceg m1))" "covers (set (node_ids (mek_ceg m1))) (mek_engine m1)"
    using f(1,3) sorted_graph_spec(1) [OF k(1)] k(1,2) by (simp_all add: Build_Inr_iff)
  have "gm_get ?tt i = Some (StatusOther '''')"
    unfolding trace_of_states [OF d] i using s(2) by (simp del: IsTerminal.simps)
  moreover have "gm_get ?jt i = Some s"
    using recorded_states(1) [OF n a r] i by (simp add: jEntries_get TerminalStatus_Subscribe)
  moreover have "gm_wf ?tt" unfolding TerminalStatuses_def by (rule fold_invariant [where P = gm_wf]) auto
  ultimately have "\<not> cc_Pass (check_trace ?tt ?jt)" using s(3) check_trace_pass by fastforce
  with rep n r show ?thesis
    by (cases create_ok) (auto simp: FullConsistencyCheck_def Let_def split: option.splits)
qed

subsection \<open>Witnesses\<close>

lemma journal_entry_event:
  assumes "e \<in> set (Entries (journal_Subscribe enc evs journal_New))"
  shows "\<exists>evt t. (evt, t) \<in> set evs \<and> je_NodeID e = ev_NodeID evt \<and> je_ToStatus e = ev_NewStatus evt"
proof -
  let ?es = "Entries (journal_Subscribe enc evs journal_New)"
  have m: "map je_NodeID ?es = map (ev_NodeID \<circ> fst) evs" "map je_ToStatus ?es = map (ev_NewStatus \<circ> fst) evs"
    using journal_shape [of enc evs] by (simp_all add: Entries_def)
  obtain k where k: "k < length ?es" "?es ! k = e" using assms by (auto simp: in_set_conv_nth)
  have "k < length evs" using k(1) arg_cong [OF m(1), of length] by simp
  with k map_eq_nth [OF m(1)] map_eq_nth [OF m(2)] show ?thesis
    by (intro exI [of _ "fst (evs ! k)"] exI [of _ "snd (evs ! k)"]) auto
qed

text \<open>A line holds the status and the identifier.\<close>

definition sample_encode :: "Entry \<Rightarrow> string option" where
  "sample_encode e = Some (status_text (je_ToStatus e) @ '' '' @ je_NodeID e)"

definition sample_decode :: "string \<Rightarrow> Entry option" where
  "sample_decode l =
     (let w = takeWhile (\<lambda>c. c \<noteq> CHR '' '') l
      in map_option (\<lambda>s. \<lparr>je_Sequence = 0, je_Timestamp = '''', je_NodeID = drop (Suc (length w)) l,
                         je_FromStatus = StatusOther '''', je_ToStatus = s, je_Outputs = None, je_Artifacts = None\<rparr>)
           (List.find (\<lambda>s. status_text s = w) [StatusSuccess, StatusFailure, StatusSkipped, StatusTerminated]))"

lemma sample_readable:
  assumes "je_NodeID e \<in> {''a'', ''b'', ''c''}" and "IsTerminal (je_ToStatus e)"
  shows "readable sample_encode sample_decode e"
proof -
  define s i where "s = je_ToStatus e" and "i = je_NodeID e"
  have e: "sample_encode e = Some (status_text s @ '' '' @ i)" by (simp add: sample_encode_def s_def i_def)
  have "length (status_text s @ '' '' @ i) < max_token \<and>
      (\<exists>e'. sample_decode (drop_cr (status_text s @ '' '' @ i)) = Some e' \<and> je_NodeID e' = i \<and> je_ToStatus e' = s)"
    using assms unfolding s_def [symmetric] i_def [symmetric]
    by (auto elim!: IsTerminal_cases simp: max_token_def sample_decode_def drop_cr_def simp del: IsTerminal.simps)
  with e show ?thesis unfolding readable_def s_def i_def by blast
qed

lemma sample_journal_readable:
  assumes "\<And>evt t. (evt, t) \<in> set evs \<Longrightarrow> ev_NodeID evt \<in> {''a'', ''b'', ''c''} \<and> IsTerminal (ev_NewStatus evt)"
  shows "\<forall>e \<in> set (Entries (journal_Subscribe sample_encode evs journal_New)). readable sample_encode sample_decode e"
proof
  fix e assume "e \<in> set (Entries (journal_Subscribe sample_encode evs journal_New))"
  from journal_entry_event [OF this] assms show "readable sample_encode sample_decode e"
    by (metis sample_readable)
qed

theorem journal_roundtrip_witness:
  "\<exists>ts. loadTerminals sample_decode (Some (j_file (journal_Subscribe sample_encode
       [sample_event ''a'' StatusFailure, sample_event ''b'' StatusSkipped, sample_event ''a'' StatusSuccess] journal_New))) = Inr ts \<and>
     gm_get ts ''a'' = Some StatusSuccess"
proof -
  let ?evs = "[sample_event ''a'' StatusFailure, sample_event ''b'' StatusSkipped, sample_event ''a'' StatusSuccess]"
  let ?J = "journal_Subscribe sample_encode ?evs journal_New"
  have r: "\<forall>e \<in> set (Entries ?J). readable sample_encode sample_decode e"
    by (rule sample_journal_readable) (auto simp: sample_event_def)
  then have c: "\<forall>e \<in> set (Entries ?J). \<forall>l. sample_encode e = Some l \<longrightarrow>
    (\<exists>e'. sample_decode (drop_cr l) = Some e' \<and> je_NodeID e' = je_NodeID e \<and> je_ToStatus e' = je_ToStatus e)"
    by (fastforce simp: readable_def)
  have short: "\<not> (\<exists>l \<in> set (j_file ?J). 64 * 1024 \<le> length l)"
    using r by (auto simp: journal_file_encoded Entries_def List.map_filter_def readable_def max_token_def)
  have all: "\<forall>e \<in> set (Entries ?J). sample_encode e \<noteq> None" by (simp add: sample_encode_def)
  have last: "last_status ''a'' ?evs = Some StatusSuccess" by (simp add: sample_event_def)
  note J = journal_roundtrip [of sample_encode ?evs sample_decode, OF c]
  show ?thesis
  proof (cases "loadTerminals sample_decode (Some (j_file ?J))")
    case (Inl err)
    with J short show ?thesis unfolding Inl sum.case by blast
  next
    case (Inr ts)
    with J all have "gm_get ts ''a'' = last_status ''a'' ?evs" unfolding Inr sum.case by blast
    then show ?thesis using Inr last by simp
  qed
qed

theorem long_entry_unreadable_witness:
  "loadTerminals sample_decode (Some (j_file (journal_Subscribe (\<lambda>_. Some (replicate (64 * 1024) CHR ''x''))
     [sample_event ''a'' StatusSuccess] journal_New))) = Inl TokenTooLong"
proof -
  let ?enc = "\<lambda>_. Some (replicate (64 * 1024) CHR ''x'')"
  obtain e where "e \<in> set (Entries (journal_Subscribe ?enc [sample_event ''a'' StatusSuccess] journal_New))"
    using journal_shape [of ?enc "[sample_event ''a'' StatusSuccess]"] by (auto simp: Entries_def)
  from long_entry_unreadable [OF this, of "replicate (64 * 1024) CHR ''x''" sample_decode] show ?thesis
    by (simp only: length_replicate order_refl)
qed

text \<open>A document with a requirement: \<open>b\<close> after \<open>a\<close>, executed by the internal adapter.\<close>

definition noop_unit :: "string \<Rightarrow> string \<Rightarrow> string list \<Rightarrow> Unit" where
  "noop_unit i cond reqs =
     (sample_unit i cond reqs)\<lparr>unit_Binding := \<lparr>bind_Contract = ''internal/noop'', bind_Isolation = ''inline''\<rparr>\<rparr>"

definition depending :: "Unit list \<Rightarrow> (string \<times> string) list \<Rightarrow> RIR" where
  "depending us es =
     (sample_rir us [] [])\<lparr>rir_Graph := \<lparr>graph_DAG = \<lparr>dag_Nodes = map unit_ID us,
        dag_Edges = map (\<lambda>(f, t). \<lparr>edge_From = f, edge_To = t, edge_Type = ''dependency''\<rparr>) es\<rparr>,
        graph_Cycles = [], graph_IsolatedRegions = []\<rparr>\<rparr>"

definition pipeline :: RIR where
  "pipeline = depending [noop_unit ''a'' ''all_success'' [], noop_unit ''b'' ''all_success'' [''a'']] [(''a'', ''b'')]"

abbreviation pipeline_mek :: MEK where
  "pipeline_mek \<equiv> \<lparr>mek_rir = pipeline, mek_ceg = sorted_graph pipeline, mek_engine = start (sorted_graph pipeline),
     mek_waves = ComputeWaves (sorted_graph pipeline) pipeline, mek_cfg = default_config\<rparr>"

lemma pipeline_New: "mek_New (\<lambda>_. Some ''doc'') (\<lambda>_. Some pipeline) ''f'' None = Inr pipeline_mek"
proof -
  have "Validate pipeline = None" "validate (sorted_graph pipeline) = None" by code_simp+
  then show ?thesis by (simp add: mek_New_def Load_def Build_Inr_iff [THEN iffD2])
qed

lemma pipeline_facts: "edges_resolved pipeline" "edges_required (sorted_graph pipeline)" "no_escalation (sorted_graph pipeline)"
    "node_ids (sorted_graph pipeline) = [''a'', ''b'']"
proof -
  show "edges_resolved pipeline" "edges_required (sorted_graph pipeline)" "node_ids (sorted_graph pipeline) = [''a'', ''b'']"
    by code_simp+
  have "\<forall>n \<in> set (ceg_Nodes (sorted_graph pipeline)). node_Gate n = None" by code_simp
  then show "no_escalation (sorted_graph pipeline)" by (simp add: no_escalation_def)
qed

lemma pipeline_activations: "activations_ok pipeline"
proof -
  have "(''a'', ''b'') \<in> rir_rel pipeline"
    unfolding rir_rel_def mem_Collect_eq prod.inject by (rule exI [of _ "hd (rir_edges pipeline)"], code_simp)
  then show ?thesis
    by (simp add: activations_ok_def pipeline_def depending_def sample_rir_def noop_unit_def sample_unit_def unit_candidates_def)
qed

lemma pipeline_run:
  obtains out m1 where "mek_Run pipeline_mek (\<lambda>_. 1) 5 one_fails = Some (Inr (out, m1))"
    and "\<forall>e \<in> set (Entries (journal_Subscribe sample_encode (state_events m1 now) journal_New)).
      readable sample_encode sample_decode e"
proof -
  have p: "edges_resolved (mek_rir pipeline_mek)" "activations_ok (mek_rir pipeline_mek)"
    by (simp_all add: pipeline_facts pipeline_activations)
  note k = mek_New_Inr [OF pipeline_New]
  have "run_ok False (ended (set (node_ids (mek_ceg pipeline_mek)))) (ended (set (node_ids (mek_ceg pipeline_mek))))
      (run_layers (mek_ceg pipeline_mek) (kernel_env pipeline_mek (\<lambda>_. 1) one_fails) 0
        (ComputeWaves (mek_ceg pipeline_mek) (mek_rir pipeline_mek)) (start (mek_ceg pipeline_mek)) zero_metrics)"
    by (rule kd.run_ends [OF k(1) p(1) k(2) p(2)]) (simp_all add: kernel_env_def one_fails_arrivals [unfolded all_arrivals_def] all_arrivals_def)
  note en = RunLoop_cases [OF this]
  obtain out0 e1 where run: "RunLoop (mek_ceg pipeline_mek) (kernel_env pipeline_mek (\<lambda>_. 1) one_fails)
      (ComputeWaves (mek_ceg pipeline_mek) (mek_rir pipeline_mek)) (start (mek_ceg pipeline_mek)) = Some (Inr (out0, e1))"
    and fin: "ended {''a'', ''b''} e1"
    using en pipeline_facts(4) by (auto split: option.splits sum.splits)
  then obtain out m1 where r: "mek_Run pipeline_mek (\<lambda>_. 1) 5 one_fails = Some (Inr (out, m1))"
    and m1: "mek_engine m1 = e1" "mek_ceg m1 = sorted_graph pipeline"
    by (simp add: mek_Run_def)
  have "ev_NodeID evt \<in> {''a'', ''b'', ''c''} \<and> IsTerminal (ev_NewStatus evt)" if "(evt, t) \<in> set (state_events m1 now)" for evt t
    using state_events_in [OF that] m1 pipeline_facts(4) fin by (auto simp: ended_def settled_iff simp del: IsTerminal.simps)
  from that [OF r sample_journal_readable [OF this]] show ?thesis .
qed

theorem replay_Match_iff_witness:
  "\<exists>rep. replay_Verify sample_decode (\<lambda>_. Some ''doc'') (\<lambda>_. Some pipeline) ''f'' ''j'' (Some [''SUCCESS a''])
     (\<lambda>_. 1, 5, one_fails) = Some (Inr rep) \<and> (rp_Match rep \<longleftrightarrow> rp_Divergences rep = [])"
proof -
  obtain out m1 where r: "mek_Run pipeline_mek (\<lambda>_. 1) 5 one_fails = Some (Inr (out, m1))" by (rule pipeline_run)
  have "\<exists>ts. loadTerminals sample_decode (Some [''SUCCESS a'']) = Inr ts"
    by (simp add: loadTerminals_def max_token_def split: option.split)
  with r obtain rep where "replay_Verify sample_decode (\<lambda>_. Some ''doc'') (\<lambda>_. Some pipeline) ''f'' ''j'' (Some [''SUCCESS a''])
     (\<lambda>_. 1, 5, one_fails) = Some (Inr rep)"
    by (auto simp: replay_Verify_def loaders_agree pipeline_New Let_def)
  with replay_Match_iff [OF this] show ?thesis by blast
qed

theorem replay_confirms_witness:
  "\<exists>out m1 rep. mek_Run pipeline_mek (\<lambda>_. 1) 5 one_fails = Some (Inr (out, m1)) \<and>
     replay_Verify sample_decode (\<lambda>_. Some ''doc'') (\<lambda>_. Some pipeline) ''f'' ''j''
       (Some (j_file (journal_Subscribe sample_encode (state_events m1 (\<lambda>_. ''T'')) journal_New)))
       (\<lambda>_. 2, 7, one_fails) = Some (Inr rep) \<and> rp_Match rep"
proof -
  obtain out m1 where r: "mek_Run pipeline_mek (\<lambda>_. 1) 5 one_fails = Some (Inr (out, m1))"
    and rd: "\<forall>e \<in> set (Entries (journal_Subscribe sample_encode (state_events m1 (\<lambda>_. ''T'')) journal_New)).
      readable sample_encode sample_decode e"
    by (rule pipeline_run)
  show ?thesis
    using replay_confirms [OF pipeline_New _ _ _ one_fails_arrivals one_fails_arrivals r rd] r
      pipeline_facts pipeline_activations by simp
qed

theorem Structural_spec_witness:
  "\<exists>rep. Structural sample_decode (\<lambda>_. Some ''doc'') (\<lambda>_. Some pipeline) ''f'' (Some [''FAILURE a'', ''SUCCESS b'']) = Inr rep \<and>
     \<not> vr_Pass rep"
proof -
  have f: "loadTerminals sample_decode (Some [''FAILURE a'', ''SUCCESS b'']) = Inr [(''a'', StatusFailure), (''b'', StatusSuccess)]"
    by (simp add: loadTerminals_def max_token_def drop_cr_def sample_decode_def gm_put_def)
  obtain rep where s: "Structural sample_decode (\<lambda>_. Some ''doc'') (\<lambda>_. Some pipeline) ''f'' (Some [''FAILURE a'', ''SUCCESS b'']) = Inr rep"
    using f by (simp add: Structural_def loadRIR_mek [OF pipeline_New])
  have l: "Load (\<lambda>_. Some ''doc'') (\<lambda>_. Some pipeline) ''f'' = Inr pipeline" "Build pipeline = Inr (sorted_graph pipeline)"
    using loadRIR_mek [OF pipeline_New] by (auto simp: loadRIR_def split: sum.splits)
  have "vr_Pass rep \<longleftrightarrow> sound_record (sorted_graph pipeline) (gm_get [(''a'', StatusFailure), (''b'', StatusSuccess)])"
    using Structural_spec [OF s] l f by auto
  moreover have "\<not> sound_record (sorted_graph pipeline) (gm_get [(''a'', StatusFailure), (''b'', StatusSuccess)])"
    by code_simp
  ultimately show ?thesis using s by blast
qed

theorem ExecuteAndVerify_passes_witness:
  "\<exists>rep. ExecuteAndVerify sample_encode sample_decode (\<lambda>_. Some ''doc'') (\<lambda>_. Some pipeline) ''f'' True (\<lambda>_. ''T'')
     (\<lambda>_. 1, 5, one_fails) = Some (Inr rep) \<and> vr_Pass rep"
proof -
  obtain out m1 where r: "mek_Run pipeline_mek (\<lambda>_. 1) 5 one_fails = Some (Inr (out, m1))"
    and rd: "\<forall>e \<in> set (Entries (journal_Subscribe sample_encode (state_events m1 (\<lambda>_. ''T'')) journal_New)).
      readable sample_encode sample_decode e"
    by (rule pipeline_run)
  show ?thesis
    using ExecuteAndVerify_passes [OF pipeline_New _ _ _ one_fails_arrivals r rd] pipeline_facts pipeline_activations by simp
qed

theorem FullConsistencyCheck_passes_witness:
  "\<exists>rep. FullConsistencyCheck sample_encode sample_decode (\<lambda>_. Some ''doc'') (\<lambda>_. Some pipeline) ''f'' ''j'' True
     (\<lambda>_. ''T'') (\<lambda>_. ''U'') (\<lambda>_. 1, 5, one_fails) (\<lambda>_. 2, 7, one_fails) = Some (Inr rep) \<and> cr_Pass rep"
proof -
  obtain out m1 where r: "mek_Run pipeline_mek (\<lambda>_. 1) 5 one_fails = Some (Inr (out, m1))"
    and rd: "\<forall>e \<in> set (Entries (journal_Subscribe sample_encode (state_events m1 (\<lambda>_. ''T'')) journal_New)).
      readable sample_encode sample_decode e"
    by (rule pipeline_run)
  show ?thesis
    using FullConsistencyCheck_passes [OF pipeline_New _ _ _ _ one_fails_arrivals one_fails_arrivals r rd]
      pipeline_facts pipeline_activations by simp
qed

text \<open>A fallback: \<open>c\<close> runs when one of \<open>a\<close> and \<open>b\<close> succeeds; \<open>b\<close> has no adapter and fails.\<close>

definition fallback :: RIR where
  "fallback = depending [noop_unit ''a'' ''all_success'' [], sample_unit ''b'' ''all_success'' [],
     noop_unit ''c'' ''any_success'' [''a'', ''b'']] [(''a'', ''c''), (''b'', ''c'')]"

abbreviation fallback_mek :: MEK where
  "fallback_mek \<equiv> \<lparr>mek_rir = fallback, mek_ceg = sorted_graph fallback, mek_engine = start (sorted_graph fallback),
     mek_waves = ComputeWaves (sorted_graph fallback) fallback, mek_cfg = default_config\<rparr>"

lemma fallback_New: "mek_New (\<lambda>_. Some ''doc'') (\<lambda>_. Some fallback) ''f'' None = Inr fallback_mek"
proof -
  have "Validate fallback = None" "validate (sorted_graph fallback) = None" by code_simp+
  then show ?thesis by (simp add: mek_New_def Load_def Build_Inr_iff [THEN iffD2])
qed

lemma fallback_loop:
  "final_statuses (RunLoop (sorted_graph fallback)
       (one_fails\<lparr>re_dispatch := kernel_dispatch (sorted_graph fallback) default_config (\<lambda>_. 1)\<rparr>)
       (ComputeWaves (sorted_graph fallback) fallback) (start (sorted_graph fallback))) [''a'', ''b'', ''c''] =
     [Some StatusSuccess, Some StatusFailure, Some StatusSuccess]"
  by code_simp

lemma fallback_run:
  obtains out m1 where "mek_Run fallback_mek (\<lambda>_. 1) 5 one_fails = Some (Inr (out, m1))"
    and "map (\<lambda>(evt, t). (ev_NodeID evt, ev_NewStatus evt)) (state_events m1 now) =
      [(''a'', StatusSuccess), (''b'', StatusFailure), (''c'', StatusSuccess)]"
proof -
  let ?env = "kernel_env fallback_mek (\<lambda>_. 1) one_fails"
  have env: "?env = one_fails\<lparr>re_dispatch := kernel_dispatch (sorted_graph fallback) default_config (\<lambda>_. 1)\<rparr>"
    by (simp add: kernel_env_def)
  obtain out0 e1 where run: "RunLoop (sorted_graph fallback) ?env (ComputeWaves (sorted_graph fallback) fallback)
      (start (sorted_graph fallback)) = Some (Inr (out0, e1))"
    and st: "map (sm_Get (out_StatusMap out0)) [''a'', ''b'', ''c''] = [Some StatusSuccess, Some StatusFailure, Some StatusSuccess]"
    using fallback_loop unfolding env final_statuses_def by (auto split: option.splits sum.splits)
  obtain out m1 where r: "mek_Run fallback_mek (\<lambda>_. 1) 5 one_fails = Some (Inr (out, m1))"
    and m1: "mek_engine m1 = e1" "out_StatusMap out = out_StatusMap out0" "mek_ceg m1 = sorted_graph fallback"
    using run by (simp add: mek_Run_def)
  have "map (eng_get e1) [''a'', ''b'', ''c''] = [Some StatusSuccess, Some StatusFailure, Some StatusSuccess]"
    using st m1 recorded_states(2) [OF fallback_New one_fails_arrivals r] by simp
  moreover have "map node_ID (ceg_Nodes (sorted_graph fallback)) = [''a'', ''b'', ''c'']" by code_simp
  ultimately have "map (\<lambda>(evt, t). (ev_NodeID evt, ev_NewStatus evt)) (state_events m1 now) =
      [(''a'', StatusSuccess), (''b'', StatusFailure), (''c'', StatusSuccess)]"
    by (auto simp: state_events_def m1 map_filter_simps sm_Get_GetState map_eq_Cons_conv)
  with that r show ?thesis .
qed

lemma fallback_check:
  "map (\<lambda>v. (vi_Rule v, vi_NodeID v, vi_Message v))
     (vr_Violations (check_all (sorted_graph fallback) [(''a'', StatusSuccess), (''b'', StatusFailure), (''c'', StatusSuccess)])) =
   [(''G6'', ''c'', ''SUCCESS but dependency b is FAILURE'')]"
  by code_simp

lemma map_pair_eq:
  "map f xs = map f' ys \<Longrightarrow> map g xs = map g' ys \<Longrightarrow> map (\<lambda>x. (f x, g x)) xs = map (\<lambda>y. (f' y, g' y)) ys"
  by (induction xs arbitrary: ys) (auto simp: Cons_eq_map_conv)

lemma jEntries_events:
  "jEntries (journal_Subscribe enc evs journal_New) =
     fold (\<lambda>(i, s). gm_put i s) (map (\<lambda>(evt, t). (ev_NodeID evt, ev_NewStatus evt)) evs) []"
proof -
  let ?es = "j_entries (journal_Subscribe enc evs journal_New)"
  have "map (\<lambda>e. (je_NodeID e, je_ToStatus e)) ?es = map (\<lambda>(evt, t). (ev_NodeID evt, ev_NewStatus evt)) evs"
    using journal_shape [of enc evs] map_pair_eq [of je_NodeID ?es "ev_NodeID \<circ> fst" evs je_ToStatus "ev_NewStatus \<circ> fst"]
    by (simp add: case_prod_unfold)
  moreover have "replay_entries es t = fold (\<lambda>(i, s). gm_put i s) (map (\<lambda>e. (je_NodeID e, je_ToStatus e)) es) t" for es t
    by (induction es arbitrary: t) (simp_all add: replay_entries_def)
  ultimately show ?thesis by (simp add: jEntries_replay)
qed

text \<open>The verifier rejects a run that followed the document: a unit that ran because \<^bold>\<open>any\<close> of its
  dependencies succeeded is reported (rule G6) for the dependency that failed, which its activation allows.\<close>

theorem any_success_rejected:
  "\<exists>rep. ExecuteAndVerify sample_encode sample_decode (\<lambda>_. Some ''doc'') (\<lambda>_. Some fallback) ''f'' True (\<lambda>_. ''T'')
      (\<lambda>_. 1, 5, one_fails) = Some (Inr rep) \<and> \<not> vr_Pass rep \<and>
    map (\<lambda>v. (vi_Rule v, vi_NodeID v, vi_Message v)) (vr_Violations rep) =
      [(''G6'', ''c'', ''SUCCESS but dependency b is FAILURE'')]"
proof -
  obtain out m1 where r: "mek_Run fallback_mek (\<lambda>_. 1) 5 one_fails = Some (Inr (out, m1))"
    and st: "map (\<lambda>(evt, t). (ev_NodeID evt, ev_NewStatus evt)) (state_events m1 (\<lambda>_. ''T'')) =
      [(''a'', StatusSuccess), (''b'', StatusFailure), (''c'', StatusSuccess)]"
    by (rule fallback_run)
  have "ev_NodeID evt \<in> {''a'', ''b'', ''c''} \<and> IsTerminal (ev_NewStatus evt)"
    if "(evt, t) \<in> set (state_events m1 (\<lambda>_. ''T''))" for evt t
    using imageI [OF that, of "\<lambda>(evt, t). (ev_NodeID evt, ev_NewStatus evt)"] arg_cong [OF st, of set] by auto
  then have rd: "\<forall>e \<in> set (Entries (journal_Subscribe sample_encode (state_events m1 (\<lambda>_. ''T'')) journal_New)).
      readable sample_encode sample_decode e"
    by (rule sample_journal_readable)
  have j: "jEntries (journal_Subscribe sample_encode (state_events m1 (\<lambda>_. ''T'')) journal_New) =
      [(''a'', StatusSuccess), (''b'', StatusFailure), (''c'', StatusSuccess)]"
    unfolding jEntries_events st by (simp add: gm_put_def)
  from ExecuteAndVerify_run [OF fallback_New r rd, unfolded j] show ?thesis
    using fallback_check check_all_balanced [of "sorted_graph fallback"] by (auto simp: balanced_def)
qed

text \<open>A unit with a condition the kernel does not evaluate stays blocked behind \<open>a\<close>.\<close>

definition stuck :: RIR where
  "stuck = depending [noop_unit ''a'' ''all_success'' [], noop_unit ''b'' ''true'' [''a'']] [(''a'', ''b'')]"

abbreviation stuck_mek :: MEK where
  "stuck_mek \<equiv> \<lparr>mek_rir = stuck, mek_ceg = sorted_graph stuck, mek_engine = start (sorted_graph stuck),
     mek_waves = ComputeWaves (sorted_graph stuck) stuck, mek_cfg = default_config\<rparr>"

lemma stuck_New: "mek_New (\<lambda>_. Some ''doc'') (\<lambda>_. Some stuck) ''f'' None = Inr stuck_mek"
proof -
  have "Validate stuck = None" "validate (sorted_graph stuck) = None" by code_simp+
  then show ?thesis by (simp add: mek_New_def Load_def Build_Inr_iff [THEN iffD2])
qed

lemma stuck_loop:
  "final_statuses (RunLoop (sorted_graph stuck)
       (one_fails\<lparr>re_dispatch := kernel_dispatch (sorted_graph stuck) default_config (\<lambda>_. 1)\<rparr>)
       (ComputeWaves (sorted_graph stuck) stuck) (start (sorted_graph stuck))) [''a'', ''b''] =
     [Some StatusSuccess, Some StatusBlocked]"
  by code_simp

theorem unfinished_run_inconsistent_witness:
  "\<exists>rep. FullConsistencyCheck (\<lambda>_. None) sample_decode (\<lambda>_. Some ''doc'') (\<lambda>_. Some stuck) ''f'' ''j'' True
     (\<lambda>_. ''T'') (\<lambda>_. ''T'') (\<lambda>_. 1, 5, one_fails) (\<lambda>_. 1, 5, one_fails) = Some (Inr rep) \<and> \<not> cr_Pass rep"
proof -
  let ?env = "kernel_env stuck_mek (\<lambda>_. 1) one_fails"
  have env: "?env = one_fails\<lparr>re_dispatch := kernel_dispatch (sorted_graph stuck) default_config (\<lambda>_. 1)\<rparr>"
    by (simp add: kernel_env_def)
  obtain out0 e1 where run: "RunLoop (sorted_graph stuck) ?env (ComputeWaves (sorted_graph stuck) stuck)
      (start (sorted_graph stuck)) = Some (Inr (out0, e1))" and st: "sm_Get (out_StatusMap out0) ''b'' = Some StatusBlocked"
    using stuck_loop unfolding env final_statuses_def by (auto split: option.splits sum.splits)
  obtain out m1 where r: "mek_Run stuck_mek (\<lambda>_. 1) 5 one_fails = Some (Inr (out, m1))"
    and b: "sm_Get (out_StatusMap out) ''b'' = Some StatusBlocked"
    using run st by (simp add: mek_Run_def)
  have "j_file (journal_Subscribe (\<lambda>_. None) evs journal_New) = []" for evs
    unfolding journal_file_encoded by (simp add: map_filter_def)
  then obtain rep where rep: "FullConsistencyCheck (\<lambda>_. None) sample_decode (\<lambda>_. Some ''doc'') (\<lambda>_. Some stuck) ''f'' ''j'' True
     (\<lambda>_. ''T'') (\<lambda>_. ''T'') (\<lambda>_. 1, 5, one_fails) (\<lambda>_. 1, 5, one_fails) = Some (Inr rep)"
    using r by (simp add: FullConsistencyCheck_def stuck_New replay_Verify_def loadJournalTerminals_def Let_def)
  have "\<not> cr_Pass rep"
    by (rule unfinished_run_inconsistent [OF stuck_New one_fails_arrivals r b _ _ rep]) simp_all
  with rep show ?thesis by blast
qed

text \<open>C16: the status map is well typed: whatever its adapters, order and clock, a run that returns leaves a
  status map without repeated keys over exactly the units of the document, every one of them in one of the
  seven states of the life cycle.\<close>

theorem status_map_typed:
  assumes "mek_New rd ps path cfg = Inr m" and "all_arrivals env"
    and "mek_Run m elapsed total_ms env = Some (Inr (out, m1))"
  shows "gm_wf (out_StatusMap out) \<and> set (gm_keys (out_StatusMap out)) = set (unit_ids (mek_rir m)) \<and>
    (\<forall>(i, st) \<in> set (out_StatusMap out). ns_Status st \<in>
       {StatusBlocked, StatusReady, StatusRunning, StatusSuccess, StatusFailure, StatusSkipped, StatusTerminated})"
proof -
  note f = mek_Run_final [OF assms] and k = mek_New_Inr [OF assms(1)]
  have ids: "node_ids (mek_ceg m) = unit_ids (mek_rir m)" using sorted_graph_spec(1) [OF k(1)] k(2) by (simp add: Build_Inr_iff)
  have wf: "gm_wf (out_StatusMap out)" unfolding f(2) by (rule gm_wf_sm_All)
  have get: "sm_Get (out_StatusMap out) i = eng_get (mek_engine m1) i" for i by (rule recorded_states(2) [OF assms])
  then have "gm_get (out_StatusMap out) i \<noteq> None \<longleftrightarrow> i \<in> set (unit_ids (mek_rir m))" for i
    using f(3) ids unfolding covers_def by (metis option.map_disc_iff sm_Get_def)
  then have "set (gm_keys (out_StatusMap out)) = set (unit_ids (mek_rir m))" by (auto simp: gm.keys_get)
  moreover have "ns_Status st \<in> {StatusBlocked, StatusReady, StatusRunning, StatusSuccess, StatusFailure, StatusSkipped, StatusTerminated}"
    if "(i, st) \<in> set (out_StatusMap out)" for i st
  proof -
    have "eng_get (mek_engine m1) i = Some (ns_Status st)" using that gm_wf_mem_get [OF wf] get [of i] by (simp add: sm_Get_def)
    then have "ns_Status st \<noteq> StatusOther x" for x using f(3) by (auto simp: covers_def life_def)
    then show ?thesis by (cases "ns_Status st") auto
  qed
  ultimately show ?thesis using wf by blast
qed

theorem status_map_typed_witness:
  "\<exists>out m1. mek_Run pipeline_mek (\<lambda>_. 1) 5 one_fails = Some (Inr (out, m1)) \<and>
     set (gm_keys (out_StatusMap out)) = set (unit_ids pipeline)"
proof -
  obtain out m1 where r: "mek_Run pipeline_mek (\<lambda>_. 1) 5 one_fails = Some (Inr (out, m1))" by (rule pipeline_run)
  from status_map_typed [OF pipeline_New one_fails_arrivals r] r show ?thesis by auto
qed

end
