(* ===== verification/Adapt_Signal.thy ===== *)
theory Adapt_Signal
  imports Mek_Verify
begin

text \<open>
  Signals of the adaptive controller, \<open>mek/internal/adaptctl/signal\<close>: the canonical form of a
  verification result (\<open>types.go\<close>), its ingestion (\<open>ingestor.go\<close>) and its classification
  (\<open>classifier.go\<close>). An instant is the number of nanoseconds since the zero time of Go, a duration a
  number of nanoseconds. A verdict or state that is none of the constants is \<open>Other\<close> with its text; the
  zero value of the Go string type is \<open>Other\<close> of the empty text.
\<close>

subsection \<open>Types\<close>

datatype SigState = StateAllPass | StatePartialFail | StateReplayDivergence | StateStructuralFail
  | StateDriftDetected | StateConsistencyFail | StateUnknown string

datatype Verdict = VerdictPass | VerdictFail | VerdictDivergence | VerdictOther string

datatype DivergenceClass = DivergenceStructural | DivergenceTemporal | DivergenceSequence
  | DivergenceUnspecified | DivergenceOther string

datatype Severity = SeverityLow | SeverityMedium | SeverityCritical | SeverityOther string

record Source =
  src_ExecutionID :: string
  src_ProjectRef :: string
  src_RIRHash :: string

record VerificationResult =
  vf_Kernel :: Verdict
  vf_Journal :: Verdict
  vf_Trace :: Verdict
  vf_Replay :: Verdict
  vf_Structural :: Verdict
  vf_Consistency :: Verdict

record SigDivergence =
  sd_Domain :: string
  sd_NodeID :: string
  sd_Expected :: string
  sd_Actual :: string

record SigMetrics =
  sm_TotalDurationMs :: int
  sm_NodesExecuted :: nat
  sm_NodesFailed :: nat
  sm_WavesCompleted :: nat
  sm_EscalationRequested :: bool

record Drift =
  drift_Detected :: bool
  drift_Class :: DivergenceClass
  drift_Severity :: Severity

record Signal =
  sig_ID :: string
  sig_Timestamp :: int
  sig_Source :: Source
  sig_Verification :: VerificationResult
  sig_Divergences :: "SigDivergence list"
  sig_Metrics :: SigMetrics
  sig_Drift :: "Drift option"
  sig_State :: SigState

definition no_verdicts :: VerificationResult where
  "no_verdicts = \<lparr>vf_Kernel = VerdictOther '''', vf_Journal = VerdictOther '''', vf_Trace = VerdictOther '''',
     vf_Replay = VerdictOther '''', vf_Structural = VerdictOther '''', vf_Consistency = VerdictOther ''''\<rparr>"

text \<open>\<open>New\<close>: \<open>hms\<close> is the clock in the format \<open>150405\<close>, \<open>now\<close> its second reading.\<close>

definition signal_New :: "string \<times> int \<Rightarrow> string \<Rightarrow> string \<Rightarrow> string \<Rightarrow> Signal" where
  "signal_New = (\<lambda>(hms, now) executionID projectRef rirHash.
     \<lparr>sig_ID = executionID @ ''-'' @ hms, sig_Timestamp = now,
      sig_Source = \<lparr>src_ExecutionID = executionID, src_ProjectRef = projectRef, src_RIRHash = rirHash\<rparr>,
      sig_Verification = no_verdicts, sig_Divergences = [],
      sig_Metrics = \<lparr>sm_TotalDurationMs = 0, sm_NodesExecuted = 0, sm_NodesFailed = 0, sm_WavesCompleted = 0,
                     sm_EscalationRequested = False\<rparr>,
      sig_Drift = None, sig_State = StateUnknown ''''\<rparr>)"

definition signal_IsTerminal :: "Signal \<Rightarrow> bool" where
  "signal_IsTerminal s \<longleftrightarrow> sig_State s = StateStructuralFail \<or> sig_State s = StateConsistencyFail"

definition IsDegraded :: "Signal \<Rightarrow> bool" where
  "IsDegraded s \<longleftrightarrow> sig_State s = StatePartialFail \<or> sig_State s = StateReplayDivergence \<or> sig_State s = StateDriftDetected"

definition IsStable :: "Signal \<Rightarrow> bool" where
  "IsStable s \<longleftrightarrow> sig_State s = StateAllPass"

subsection \<open>Classifier\<close>

definition fail_count :: "VerificationResult \<Rightarrow> nat" where
  "fail_count v =
     fold (\<lambda>verdict failCount. if verdict = VerdictFail then failCount + 1 else failCount)
       [vf_Kernel v, vf_Journal v, vf_Trace v, vf_Replay v, vf_Structural v] 0"

definition Classify :: "VerificationResult \<Rightarrow> Drift option \<Rightarrow> SigDivergence list \<Rightarrow> SigState" where
  "Classify v drift divergences =
     (if vf_Consistency v = VerdictFail then StateConsistencyFail
      else if vf_Structural v = VerdictFail then StateStructuralFail
      else if vf_Replay v = VerdictDivergence then StateReplayDivergence
      else if (case drift of None \<Rightarrow> False | Some d \<Rightarrow> drift_Detected d \<and> drift_Severity d = SeverityCritical)
      then StateDriftDetected
      else if fail_count v > 0 then StatePartialFail
      else if (case drift of None \<Rightarrow> False | Some d \<Rightarrow> drift_Detected d \<and> divergences \<noteq> [])
      then StateDriftDetected
      else StateAllPass)"

fun SeverityFromDrift :: "DivergenceClass \<Rightarrow> Severity" where
  "SeverityFromDrift DivergenceStructural = SeverityCritical"
| "SeverityFromDrift DivergenceSequence = SeverityMedium"
| "SeverityFromDrift DivergenceTemporal = SeverityLow"
| "SeverityFromDrift _ = SeverityLow"

text \<open>The map of the function: a state that is not in it counts as 0.\<close>

fun state_order :: "SigState \<Rightarrow> nat" where
  "state_order StateAllPass = 0"
| "state_order StatePartialFail = 1"
| "state_order StateDriftDetected = 2"
| "state_order StateReplayDivergence = 3"
| "state_order StateStructuralFail = 4"
| "state_order StateConsistencyFail = 5"
| "state_order (StateUnknown _) = 0"

definition IsDegrading :: "SigState \<Rightarrow> SigState \<Rightarrow> bool" where
  "IsDegrading prev cur \<longleftrightarrow> state_order cur > state_order prev"

definition IsRecovering :: "SigState \<Rightarrow> SigState \<Rightarrow> bool" where
  "IsRecovering prev cur = IsDegrading cur prev"

text \<open>The states ordered by severity.\<close>

instantiation SigState :: preorder
begin

definition less_eq_SigState :: "SigState \<Rightarrow> SigState \<Rightarrow> bool" where
  "less_eq_SigState s t \<longleftrightarrow> state_order s \<le> state_order t"

definition less_SigState :: "SigState \<Rightarrow> SigState \<Rightarrow> bool" where
  "less_SigState s t \<longleftrightarrow> IsDegrading s t"

instance
  by standard (auto simp: less_eq_SigState_def less_SigState_def IsDegrading_def)

end

subsection \<open>Ingestion\<close>

definition classified :: "Signal \<Rightarrow> Signal" where
  "classified s = s\<lparr>sig_State := Classify (sig_Verification s) (sig_Drift s) (sig_Divergences s)\<rparr>"

definition critical_drift :: Drift where
  "critical_drift = \<lparr>drift_Detected = True, drift_Class = DivergenceStructural, drift_Severity = SeverityCritical\<rparr>"

text \<open>The loop over the status map.\<close>

definition count_node :: "string \<times> NodeState \<Rightarrow> bool \<times> SigMetrics \<Rightarrow> bool \<times> SigMetrics" where
  "count_node = (\<lambda>(_, state) (allSuccess, m).
     let m1 = m\<lparr>sm_NodesExecuted := sm_NodesExecuted m + 1\<rparr>
     in if ns_Status state \<noteq> StatusSuccess then (False, m1\<lparr>sm_NodesFailed := sm_NodesFailed m1 + 1\<rparr>)
        else (allSuccess, m1))"

definition FromStatusMap :: "string \<times> int \<Rightarrow> string \<Rightarrow> string \<Rightarrow> string \<Rightarrow> StatusMap \<Rightarrow> Signal" where
  "FromStatusMap clock executionID projectRef rirHash sm =
     (let s = signal_New clock executionID projectRef rirHash
      in case fold count_node sm (True, sig_Metrics s) of
           (allSuccess, m) \<Rightarrow>
             classified (s\<lparr>sig_Metrics := m,
               sig_Verification := no_verdicts\<lparr>vf_Kernel := (if allSuccess then VerdictPass else VerdictFail)\<rparr>\<rparr>))"

definition replay_divergences :: "ReplayReport \<Rightarrow> SigDivergence list" where
  "replay_divergences rp =
     map (\<lambda>d. \<lparr>sd_Domain = ''kernel-replay'', sd_NodeID = dv_NodeID d, sd_Expected = status_text (dv_JournalStatus d),
               sd_Actual = status_text (dv_ReplayStatus d)\<rparr>) (rp_Divergences rp)"

definition structural_divergences :: "VReport \<Rightarrow> SigDivergence list" where
  "structural_divergences sr =
     map (\<lambda>v. \<lparr>sd_Domain = ''structural'', sd_NodeID = vi_NodeID v, sd_Expected = ''valid'',
               sd_Actual = vi_Rule v @ '': '' @ vi_Message v\<rparr>) (vr_Violations sr)"

definition drift_if_divergent :: "SigDivergence list \<Rightarrow> Drift option" where
  "drift_if_divergent ds = (if length ds > 0 then Some critical_drift else None)"

definition FromReplayReport :: "string \<times> int \<Rightarrow> string \<Rightarrow> string \<Rightarrow> string \<Rightarrow> ReplayReport \<Rightarrow> Signal" where
  "FromReplayReport clock executionID projectRef rirHash rp =
     (let s = signal_New clock executionID projectRef rirHash;
          verdict = (if \<not> rp_Match rp then VerdictDivergence else VerdictPass);
          ds = (if \<not> rp_Match rp then replay_divergences rp else [])
      in classified (s\<lparr>sig_Divergences := ds, sig_Verification := no_verdicts\<lparr>vf_Replay := verdict\<rparr>,
           sig_Metrics := (sig_Metrics s)\<lparr>sm_NodesExecuted := rp_ReplayNodes rp\<rparr>, sig_Drift := drift_if_divergent ds\<rparr>))"

definition FromStructuralReport :: "string \<times> int \<Rightarrow> string \<Rightarrow> string \<Rightarrow> string \<Rightarrow> VReport \<Rightarrow> Signal" where
  "FromStructuralReport clock executionID projectRef rirHash sr =
     (let s = signal_New clock executionID projectRef rirHash;
          verdict = (if \<not> vr_Pass sr then VerdictFail else VerdictPass);
          ds = (if \<not> vr_Pass sr then structural_divergences sr else [])
      in classified (s\<lparr>sig_Divergences := ds, sig_Verification := no_verdicts\<lparr>vf_Structural := verdict\<rparr>,
           sig_Metrics := (sig_Metrics s)\<lparr>sm_NodesExecuted := stat_TerminalNodes (vr_Stats sr)\<rparr>,
           sig_Drift := drift_if_divergent ds\<rparr>))"

text \<open>The loop over the checks: the verdict per check name, the overall verdict and the divergences.
  \<open>text\<close> is the formatted detail of a check.\<close>

definition ingest_check ::
  "(check_detail \<Rightarrow> string) \<Rightarrow> ConsistencyCheck \<Rightarrow> Verdict \<times> (string, Verdict) gomap \<times> SigDivergence list \<Rightarrow>
   Verdict \<times> (string, Verdict) gomap \<times> SigDivergence list" where
  "ingest_check detail_text check = (\<lambda>(verdict, domains, ds).
     if cc_Pass check then (verdict, gm_put (cc_Name check) VerdictPass domains, ds)
     else (VerdictFail, gm_put (cc_Name check) VerdictFail domains,
           ds @ [\<lparr>sd_Domain = cc_Name check, sd_NodeID = '''', sd_Expected = '''', sd_Actual = detail_text (cc_Detail check)\<rparr>]))"

definition domain_verdict :: "(string, Verdict) gomap \<Rightarrow> string \<Rightarrow> Verdict" where
  "domain_verdict domains name = (case gm_get domains name of None \<Rightarrow> VerdictOther '''' | Some v \<Rightarrow> v)"

definition FromConsistencyReport ::
  "(check_detail \<Rightarrow> string) \<Rightarrow> string \<times> int \<Rightarrow> string \<Rightarrow> string \<Rightarrow> string \<Rightarrow> ConsistencyReport \<Rightarrow> Signal" where
  "FromConsistencyReport detail_text clock executionID projectRef rirHash cr =
     (let s = signal_New clock executionID projectRef rirHash
      in case fold (ingest_check detail_text) (cr_Checks cr) (VerdictPass, [], []) of
           (verdict, domains, ds) \<Rightarrow>
             classified (s\<lparr>sig_Divergences := ds,
               sig_Verification := no_verdicts\<lparr>vf_Consistency := verdict,
                 vf_Journal := domain_verdict domains ''journal-kernel'', vf_Trace := domain_verdict domains ''trace-journal'',
                 vf_Replay := domain_verdict domains ''replay-journal'', vf_Structural := domain_verdict domains ''structural''\<rparr>,
               sig_Drift := (if \<not> cr_Pass cr then Some critical_drift else None)\<rparr>))"

text \<open>The reports are pointers: a nil report is \<open>None\<close>, and reading its field panics (\<open>None\<close> as the
  result). The loop over the status map runs first and cannot fail.\<close>

definition FromFullVerification ::
  "string \<times> int \<Rightarrow> string \<Rightarrow> string \<Rightarrow> string \<Rightarrow> StatusMap \<Rightarrow> ReplayReport option \<Rightarrow> VReport option \<Rightarrow> Signal option" where
  "FromFullVerification clock executionID projectRef rirHash sm rp sr =
     (let s = signal_New clock executionID projectRef rirHash
      in case fold count_node sm (True, sig_Metrics s) of
           (allSuccess, m) \<Rightarrow>
             (case rp of
                None \<Rightarrow> None
              | Some rp' \<Rightarrow>
                  (case sr of
                     None \<Rightarrow> None
                   | Some sr' \<Rightarrow>
                       (let ds = (if \<not> rp_Match rp' then replay_divergences rp' else []) @
                                 (if \<not> vr_Pass sr' then structural_divergences sr' else [])
                        in Some (classified (s\<lparr>sig_Divergences := ds,
                             sig_Verification := no_verdicts\<lparr>
                               vf_Kernel := (if \<not> allSuccess then VerdictFail else VerdictPass),
                               vf_Replay := (if \<not> rp_Match rp' then VerdictDivergence else VerdictPass),
                               vf_Structural := (if \<not> vr_Pass sr' then VerdictFail else VerdictPass)\<rparr>,
                             sig_Metrics := m\<lparr>sm_NodesExecuted := rp_ReplayNodes rp'\<rparr>,
                             sig_Drift := drift_if_divergent ds\<rparr>))))))"

subsection \<open>Lemmas\<close>

lemma fail_count_pos:
  "fail_count v > 0 \<longleftrightarrow> VerdictFail \<in> {vf_Kernel v, vf_Journal v, vf_Trace v, vf_Replay v, vf_Structural v}"
  by (auto simp: fail_count_def)

lemma count_nodes:
  "fold count_node sm (a, m) = (a \<and> (\<forall>(i, st) \<in> set sm. ns_Status st = StatusSuccess),
     m\<lparr>sm_NodesExecuted := sm_NodesExecuted m + length sm,
       sm_NodesFailed := sm_NodesFailed m + length (filter (\<lambda>(i, st). ns_Status st \<noteq> StatusSuccess) sm)\<rparr>)"
  by (induction sm arbitrary: a m) (auto simp: count_node_def Let_def split: prod.splits)

lemma ingest_check_simp:
  "ingest_check tx c (v, d, ds) = (if cc_Pass c then (v, gm_put (cc_Name c) VerdictPass d, ds)
     else (VerdictFail, gm_put (cc_Name c) VerdictFail d,
           ds @ [\<lparr>sd_Domain = cc_Name c, sd_NodeID = '''', sd_Expected = '''', sd_Actual = tx (cc_Detail c)\<rparr>]))"
  by (simp add: ingest_check_def)

lemma ingest_checks:
  assumes "fold (ingest_check tx) cs (v0, dm0, ds0) = (v, dm, ds)"
  shows "v = (if \<forall>c \<in> set cs. cc_Pass c then v0 else VerdictFail) \<and>
    ds = ds0 @ map (\<lambda>c. \<lparr>sd_Domain = cc_Name c, sd_NodeID = '''', sd_Expected = '''', sd_Actual = tx (cc_Detail c)\<rparr>)
      (filter (\<lambda>c. \<not> cc_Pass c) cs) \<and>
    ((\<forall>c \<in> set cs. cc_Pass c) \<longrightarrow> (\<forall>i. gm_get dm i \<in> insert (Some VerdictPass) {gm_get dm0 i}))"
  using assms
proof (induction cs arbitrary: v0 dm0 ds0)
  case (Cons c cs)
  show ?case
  proof (cases "cc_Pass c")
    case True
    with Cons.prems have "fold (ingest_check tx) cs (v0, gm_put (cc_Name c) VerdictPass dm0, ds0) = (v, dm, ds)"
      by (simp add: ingest_check_simp)
    from Cons.IH [OF this] have ih:
      "v = (if \<forall>c \<in> set cs. cc_Pass c then v0 else VerdictFail)"
      "ds = ds0 @ map (\<lambda>c. \<lparr>sd_Domain = cc_Name c, sd_NodeID = '''', sd_Expected = '''', sd_Actual = tx (cc_Detail c)\<rparr>)
        (filter (\<lambda>c. \<not> cc_Pass c) cs)"
      "(\<forall>c \<in> set cs. cc_Pass c) \<longrightarrow> (\<forall>i. gm_get dm i \<in> insert (Some VerdictPass) {gm_get (gm_put (cc_Name c) VerdictPass dm0) i})"
      by blast+
    have "(\<forall>c \<in> set cs. cc_Pass c) \<longrightarrow> (\<forall>i. gm_get dm i \<in> insert (Some VerdictPass) {gm_get dm0 i})"
      using ih(3) by (auto simp: fun_upd_apply split: if_splits)
    with ih(1,2) True show ?thesis by simp
  next
    case False
    with Cons.prems have "fold (ingest_check tx) cs (VerdictFail, gm_put (cc_Name c) VerdictFail dm0,
        ds0 @ [\<lparr>sd_Domain = cc_Name c, sd_NodeID = '''', sd_Expected = '''', sd_Actual = tx (cc_Detail c)\<rparr>]) = (v, dm, ds)"
      by (simp add: ingest_check_simp)
    from Cons.IH [OF this] False show ?thesis by auto
  qed
qed simp

text \<open>A consistency report says what its checks say.\<close>

lemma consistency_report_checks:
  assumes "FullConsistencyCheck encode decode rd ps path jpath create_ok jnow tnow exec1 exec2 = Some (Inr rep)"
  shows "cr_Pass rep \<longleftrightarrow> (\<forall>c \<in> set (cr_Checks rep). cc_Pass c)"
proof -
  have "cr_Pass (add_check c r) \<longleftrightarrow> (\<forall>d \<in> set (cr_Checks (add_check c r)). cc_Pass d)"
    if "cr_Pass r \<longleftrightarrow> (\<forall>d \<in> set (cr_Checks r). cc_Pass d)" for c r
    using that by (auto simp: add_check_def)
  moreover have "\<exists>c1 c2 c3 c4. rep = add_check c4 (add_check c3 (add_check c2 (add_check c1 \<lparr>cr_Pass = True, cr_Checks = []\<rparr>)))"
    using assms by (cases exec1) (auto simp: FullConsistencyCheck_def Let_def split: sum.splits option.splits if_splits, blast)
  ultimately show ?thesis by (elim exE) (simp only: ConsistencyReport.simps list.set ball_simps simp_thms)
qed

subsection \<open>Properties\<close>

text \<open>The signal of a consistency check carries its result: it is stable exactly when the check passed,
  and otherwise it is the most severe state, lists one divergence per failed check and a critical drift.\<close>

theorem consistency_signal:
  assumes "FullConsistencyCheck encode decode rd ps path jpath create_ok jnow tnow exec1 exec2 = Some (Inr rep)"
    and s_def: "s = FromConsistencyReport detail_text clock eid pref hash rep"
  shows "(IsStable s \<longleftrightarrow> cr_Pass rep) \<and> (signal_IsTerminal s \<longleftrightarrow> \<not> cr_Pass rep) \<and>
    sig_State s = (if cr_Pass rep then StateAllPass else StateConsistencyFail) \<and>
    map sd_Domain (sig_Divergences s) = map cc_Name (filter (\<lambda>c. \<not> cc_Pass c) (cr_Checks rep))"
proof -
  obtain v dm ds where f: "fold (ingest_check detail_text) (cr_Checks rep) (VerdictPass, [], []) = (v, dm, ds)"
    by (metis prod_cases3)
  note i = ingest_checks [OF f] and p = consistency_report_checks [OF assms(1)]
  have ds: "map sd_Domain (sig_Divergences s) = map cc_Name (filter (\<lambda>c. \<not> cc_Pass c) (cr_Checks rep))"
    using i by (simp add: s_def FromConsistencyReport_def f classified_def comp_def)
  have "sig_State s = (if cr_Pass rep then StateAllPass else StateConsistencyFail)"
  proof (cases "cr_Pass rep")
    case True
    with i p have vd: "v = VerdictPass" "ds = []" and dm: "\<And>n. gm_get dm n \<in> {Some VerdictPass, None}" by auto
    have ok: "domain_verdict dm n \<in> {VerdictPass, VerdictOther ''''}" for n
      using dm [of n] by (auto simp: domain_verdict_def)
    have no: "domain_verdict dm n \<noteq> VerdictFail" "domain_verdict dm n \<noteq> VerdictDivergence" for n using ok [of n] by auto
    with True show ?thesis
      by (simp add: s_def FromConsistencyReport_def f classified_def Classify_def no_verdicts_def vd fail_count_def no)
  next
    case False
    with i p have "v = VerdictFail" by simp
    with False show ?thesis by (simp add: s_def FromConsistencyReport_def f classified_def Classify_def)
  qed
  then show ?thesis using ds by (simp add: IsStable_def signal_IsTerminal_def)
qed

text \<open>Classification is by severity: each state is given exactly when its own condition holds and no
  condition of a more severe kind does, so a signal is stable only without any failed or divergent domain.\<close>

theorem Classify_spec:
  "(Classify v drift ds = StateConsistencyFail \<longleftrightarrow> vf_Consistency v = VerdictFail) \<and>
   (Classify v drift ds = StateStructuralFail \<longleftrightarrow> vf_Consistency v \<noteq> VerdictFail \<and> vf_Structural v = VerdictFail) \<and>
   (Classify v drift ds = StateReplayDivergence \<longleftrightarrow>
     vf_Consistency v \<noteq> VerdictFail \<and> vf_Structural v \<noteq> VerdictFail \<and> vf_Replay v = VerdictDivergence) \<and>
   (Classify v drift ds = StateAllPass \<longleftrightarrow>
     VerdictFail \<notin> {vf_Kernel v, vf_Journal v, vf_Trace v, vf_Replay v, vf_Structural v, vf_Consistency v} \<and>
     vf_Replay v \<noteq> VerdictDivergence \<and>
     (drift = None \<or> \<not> drift_Detected (the drift) \<or> drift_Severity (the drift) \<noteq> SeverityCritical \<and> ds = []))"
  using fail_count_pos [of v] by (auto simp: Classify_def split: option.splits)

text \<open>The signal of a run alone is stable exactly when every node succeeded, counts every node, and counts as
  failed every node that did not succeed (also a skipped one).\<close>

theorem status_map_signal:
  "let s = FromStatusMap clock eid pref hash sm
   in sig_State s = (if \<forall>(i, st) \<in> set sm. ns_Status st = StatusSuccess then StateAllPass else StatePartialFail) \<and>
      sm_NodesExecuted (sig_Metrics s) = length sm \<and>
      sm_NodesFailed (sig_Metrics s) = length (filter (\<lambda>(i, st). ns_Status st \<noteq> StatusSuccess) sm)"
  by (cases clock)
     (auto simp: FromStatusMap_def Let_def count_nodes classified_def Classify_def fail_count_def no_verdicts_def signal_New_def)

text \<open>The combined ingestion reads the replay report before it tests it for nil: without a replay report
  (or without a structural one) it panics, and with both it returns a signal.\<close>

theorem full_verification_nil:
  "FromFullVerification clock eid pref hash sm rp sr = None \<longleftrightarrow> rp = None \<or> sr = None"
  by (auto simp: FromFullVerification_def Let_def split: prod.splits option.splits)

theorem consistency_signal_witness:
  "\<exists>rep. FullConsistencyCheck (\<lambda>_. None) sample_decode (\<lambda>_. Some ''doc'') (\<lambda>_. Some pipeline) ''f'' ''j'' True
     (\<lambda>_. ''T'') (\<lambda>_. ''T'') (\<lambda>_. 1, 5, one_fails) (\<lambda>_. 1, 5, one_fails) = Some (Inr rep) \<and>
     sig_State (FromConsistencyReport (\<lambda>_. ''detail'') (''120000'', 0) ''e'' ''p'' ''h'' rep) =
       (if cr_Pass rep then StateAllPass else StateConsistencyFail)"
proof -
  obtain out m1 where r: "mek_Run pipeline_mek (\<lambda>_. 1) 5 one_fails = Some (Inr (out, m1))" by (rule pipeline_run)
  have "j_file (journal_Subscribe (\<lambda>_. None) evs journal_New) = []" for evs
    unfolding journal_file_encoded by (simp add: map_filter_def)
  then obtain rep where rep: "FullConsistencyCheck (\<lambda>_. None) sample_decode (\<lambda>_. Some ''doc'') (\<lambda>_. Some pipeline) ''f'' ''j'' True
     (\<lambda>_. ''T'') (\<lambda>_. ''T'') (\<lambda>_. 1, 5, one_fails) (\<lambda>_. 1, 5, one_fails) = Some (Inr rep)"
    using r by (simp add: FullConsistencyCheck_def pipeline_New replay_Verify_def loadJournalTerminals_def Let_def)
  from consistency_signal [OF rep refl] rep show ?thesis by blast
qed

end
