(* ===== verification/Go_Base.thy ===== *)
theory Go_Base
  imports Go_Strings Complex_Main
begin

text \<open>
  The parts of Go that the services outside the kernel share: instants and durations in nanoseconds,
  decimal text, values of type \<open>interface{}\<close> as the JSON decoder makes them, and the deletion of a key
  from a map. A \<open>float64\<close> is a rational: the models compute exactly where the code rounds.
\<close>

subsection \<open>Time and text\<close>

definition second :: int where "second = 1000000000"
definition minute :: int where "minute = 60 * second"
definition hour :: int where "hour = 60 * minute"

text \<open>\<open>UnixMilli\<close> of an instant counted from the zero time, January 1 of year 1.\<close>

definition unix_epoch :: int where "unix_epoch = 62135596800 * second"

definition UnixMilli :: "int \<Rightarrow> int" where
  "UnixMilli t = (t - unix_epoch) div 1000000"

definition digit :: "int \<Rightarrow> char" where
  "digit i = ''0123456789'' ! nat (i mod 10)"

function digits :: "int \<Rightarrow> string" where
  "digits i = (if i < 10 then [digit i] else digits (i div 10) @ [digit i])"
  by pat_completeness auto

termination
  by (relation "measure nat") auto

definition int_digits :: "int \<Rightarrow> string" where
  "int_digits i = (if i < 0 then ''-'' @ digits (- i) else digits i)"

subsection \<open>Values and maps\<close>

text \<open>The dynamic types that \<open>encoding/json\<close> gives to an \<open>interface{}\<close>.\<close>

datatype any = AnyNil | AnyBool bool | AnyNumber rat | AnyString string | AnyList "any list" | AnyMap "(string \<times> any) list"

text \<open>The type assertion \<open>v, ok := x.(string)\<close> of the value at a key, where an absent key is nil.\<close>

definition any_string :: "any option \<Rightarrow> string option" where
  "any_string x = (case x of Some (AnyString s) \<Rightarrow> Some s | _ \<Rightarrow> None)"

definition gm_del :: "'k \<Rightarrow> ('k, 'v) gomap \<Rightarrow> ('k, 'v) gomap" where
  "gm_del k m = AList.delete k m"

text \<open>The value at a key, or the zero value of the type.\<close>

definition gm_at :: "'v \<Rightarrow> ('k, 'v) gomap \<Rightarrow> 'k \<Rightarrow> 'v" where
  "gm_at z m k = (case gm_get m k of None \<Rightarrow> z | Some v \<Rightarrow> v)"

lemma gm_get_del [simp]: "gm_get (gm_del k m) = (gm_get m)(k := None)"
  by (rule ext) (simp add: gm_get_def gm_del_def delete_conv')

lemma gm_keys_del [simp]: "gm_keys (gm_del k m) = removeAll k (gm_keys m)"
  by (simp add: gm_keys_def gm_del_def AList.delete_keys)

lemma gm_wf_del [simp]: "gm_wf m \<Longrightarrow> gm_wf (gm_del k m)"
  by (simp add: gm_wf_def distinct_removeAll)

lemma gm_at_Nil [simp]: "gm_at z [] k = z"
  by (simp add: gm_at_def)

lemma gm_at_put [simp]: "gm_at z (gm_put k v m) = (gm_at z m)(k := v)"
  by (rule ext) (simp add: gm_at_def)

lemma gm_at_del [simp]: "gm_at z (gm_del k m) = (gm_at z m)(k := z)"
  by (rule ext) (simp add: gm_at_def)

end
