(* ===== verification/Adapt_Feedback.thy ===== *)
theory Adapt_Feedback
  imports Adapt_Signal Go_Base
begin

text \<open>
  The feedback controller, \<open>mek/internal/adaptctl/feedback\<close>: actions and rules (\<open>types.go\<close>), the evaluation of
  rules on a history of signals (\<open>evaluator.go\<close>) and the built-in rules (\<open>builtin.go\<close>). Instants and durations
  are nanoseconds. The payload of an action holds the window and the trigger's instant as numbers, which
  the code formats. A rule that indexes an empty list of matches panics; a panic is \<open>None\<close>.
\<close>

subsection \<open>Types\<close>

datatype ActionType = Notify | Reexecute | Escalate | Halt

fun action_name :: "ActionType \<Rightarrow> string" where
  "action_name Notify = ''NOTIFY''"
| "action_name Reexecute = ''REEXECUTE''"
| "action_name Escalate = ''ESCALATE''"
| "action_name Halt = ''HALT''"

record Payload =
  pl_signal_state :: SigState
  pl_occurrences :: nat
  pl_window :: int
  pl_trigger_timestamp :: int

record Action =
  fa_ID :: string
  fa_Type :: ActionType
  fa_SignalID :: string
  fa_RuleID :: string
  fa_Target :: string
  fa_Payload :: Payload
  fa_IssuedAt :: int
  fa_TTL :: int

record Rule =
  rule_ID :: string
  rule_State :: SigState
  rule_MinOccurrences :: int
  rule_Window :: int
  rule_ActionType :: ActionType
  rule_Target :: string
  rule_Cooldown :: int

record FeedbackEngine =
  fe_Rules :: "Rule list"

definition feedback_New :: "Rule list \<Rightarrow> FeedbackEngine" where
  "feedback_New rules = \<lparr>fe_Rules = rules\<rparr>"

subsection \<open>Evaluation\<close>

text \<open>The backward loop over the matches before the last one: it stops at the first of another state.\<close>

fun consecutive_back :: "SigState \<Rightarrow> Signal list \<Rightarrow> Signal list \<Rightarrow> Signal list" where
  "consecutive_back state [] consecutive = consecutive"
| "consecutive_back state (m # before) consecutive =
     (if sig_State m = state then consecutive_back state before (m # consecutive) else consecutive)"

definition filterByState :: "Signal list \<Rightarrow> SigState \<Rightarrow> int \<Rightarrow> int \<Rightarrow> Signal list" where
  "filterByState history state window now =
     (let cutoff = now - window;
          matches = filter (\<lambda>s. sig_State s = state \<and> sig_Timestamp s > cutoff) history
      in if length matches > 1 then consecutive_back state (rev (butlast matches)) [last matches]
         else matches)"

fun in_cooldown_since :: "string \<Rightarrow> int \<Rightarrow> Action list \<Rightarrow> bool" where
  "in_cooldown_since i cutoff [] = False"
| "in_cooldown_since i cutoff (a # as) =
     (if fa_RuleID a = i \<and> fa_IssuedAt a > cutoff then True else in_cooldown_since i cutoff as)"

definition isInCooldown :: "Rule \<Rightarrow> Action list \<Rightarrow> int \<Rightarrow> bool" where
  "isInCooldown rule actions now =
     (if rule_Cooldown rule = 0 then False
      else in_cooldown_since (rule_ID rule) (now - rule_Cooldown rule) actions)"

definition evaluateRule :: "Rule \<Rightarrow> Signal list \<Rightarrow> Action list \<Rightarrow> int \<Rightarrow> Action option option" where
  "evaluateRule rule history priorActions now =
     (let matches = filterByState history (rule_State rule) (rule_Window rule) now
      in if int (length matches) < rule_MinOccurrences rule then Some None
         else if isInCooldown rule priorActions now then Some None
         else if matches = [] then None
         else
           (let trigger = last matches
            in Some (Some \<lparr>fa_ID = rule_ID rule @ ''-'' @ sig_ID trigger @ ''-'' @ int_digits (UnixMilli now),
                 fa_Type = rule_ActionType rule, fa_SignalID = sig_ID trigger, fa_RuleID = rule_ID rule,
                 fa_Target = rule_Target rule,
                 fa_Payload = \<lparr>pl_signal_state = sig_State trigger, pl_occurrences = length matches,
                   pl_window = rule_Window rule, pl_trigger_timestamp = sig_Timestamp trigger\<rparr>,
                 fa_IssuedAt = now, fa_TTL = rule_Cooldown rule\<rparr>)))"

fun evaluate_rules :: "Rule list \<Rightarrow> Signal list \<Rightarrow> Action list \<Rightarrow> int \<Rightarrow> Action list \<Rightarrow> Action list option" where
  "evaluate_rules [] history priorActions now actions = Some actions"
| "evaluate_rules (rule # rules) history priorActions now actions =
     (case evaluateRule rule history (priorActions @ actions) now of
        None \<Rightarrow> None
      | Some None \<Rightarrow> evaluate_rules rules history priorActions now actions
      | Some (Some action) \<Rightarrow> evaluate_rules rules history priorActions now (actions @ [action]))"

definition Evaluate :: "FeedbackEngine \<Rightarrow> Signal list \<Rightarrow> Action list \<Rightarrow> int \<Rightarrow> Action list option" where
  "Evaluate e history priorActions now = evaluate_rules (fe_Rules e) history priorActions now []"

fun HasActionType :: "Action list \<Rightarrow> ActionType \<Rightarrow> bool" where
  "HasActionType [] t = False"
| "HasActionType (a # as) t = (if fa_Type a = t then True else HasActionType as t)"

subsection \<open>The built-in rules\<close>

definition BuiltinRules :: "Rule list" where
  "BuiltinRules =
     [\<lparr>rule_ID = ''R01'', rule_State = StateAllPass, rule_MinOccurrences = 3, rule_Window = 5 * minute,
       rule_ActionType = Notify, rule_Target = ''app://status'', rule_Cooldown = 10 * minute\<rparr>,
      \<lparr>rule_ID = ''R02'', rule_State = StateReplayDivergence, rule_MinOccurrences = 1, rule_Window = minute,
       rule_ActionType = Reexecute, rule_Target = ''app://workflow'', rule_Cooldown = 30 * second\<rparr>,
      \<lparr>rule_ID = ''R03'', rule_State = StateStructuralFail, rule_MinOccurrences = 1, rule_Window = minute,
       rule_ActionType = Halt, rule_Target = ''app://dependent-ops'', rule_Cooldown = 0\<rparr>,
      \<lparr>rule_ID = ''R04'', rule_State = StateDriftDetected, rule_MinOccurrences = 1, rule_Window = minute,
       rule_ActionType = Escalate, rule_Target = ''app://incident'', rule_Cooldown = 5 * minute\<rparr>,
      \<lparr>rule_ID = ''R05'', rule_State = StateDriftDetected, rule_MinOccurrences = 5, rule_Window = hour,
       rule_ActionType = Notify, rule_Target = ''app://status'', rule_Cooldown = 30 * minute\<rparr>,
      \<lparr>rule_ID = ''R06'', rule_State = StateConsistencyFail, rule_MinOccurrences = 1, rule_Window = minute,
       rule_ActionType = Halt, rule_Target = ''app://all-workflows'', rule_Cooldown = 0\<rparr>]"

subsection \<open>Lemmas\<close>

definition in_window :: "Signal list \<Rightarrow> SigState \<Rightarrow> int \<Rightarrow> int \<Rightarrow> Signal list" where
  "in_window history state window now = filter (\<lambda>s. sig_State s = state \<and> sig_Timestamp s > now - window) history"

lemma consecutive_back_all:
  "\<forall>m \<in> set ms. sig_State m = state \<Longrightarrow> consecutive_back state ms acc = rev ms @ acc"
  by (induction ms arbitrary: acc) auto

lemma filterByState_in_window: "filterByState history state window now = in_window history state window now"
proof -
  let ?m = "in_window history state window now"
  have "consecutive_back state (rev (butlast ?m)) [last ?m] = ?m" if "?m \<noteq> []"
  proof -
    have "\<forall>m \<in> set (rev (butlast ?m)). sig_State m = state"
      by (auto simp: in_window_def dest: in_set_butlastD)
    from consecutive_back_all [OF this] that show ?thesis by simp
  qed
  moreover have "filterByState history state window now =
      (if length ?m > 1 then consecutive_back state (rev (butlast ?m)) [last ?m] else ?m)"
    by (simp add: filterByState_def in_window_def Let_def)
  ultimately show ?thesis by (cases "?m = []") simp_all
qed

lemma in_cooldown_since_iff:
  "in_cooldown_since i c as \<longleftrightarrow> (\<exists>a \<in> set as. fa_RuleID a = i \<and> fa_IssuedAt a > c)"
  by (induction as) auto

lemma isInCooldown_iff:
  "isInCooldown rule as now \<longleftrightarrow> rule_Cooldown rule \<noteq> 0 \<and>
     (\<exists>a \<in> set as. fa_RuleID a = rule_ID rule \<and> fa_IssuedAt a > now - rule_Cooldown rule)"
  by (simp add: isInCooldown_def in_cooldown_since_iff)

lemma isInCooldown_other:
  "(\<forall>a \<in> set bs. fa_RuleID a \<noteq> rule_ID rule) \<Longrightarrow> isInCooldown rule (as @ bs) now = isInCooldown rule as now"
  by (auto simp: isInCooldown_iff)

lemma evaluateRule_facts:
  assumes "evaluateRule rule history as now = Some (Some a)"
  shows "fa_RuleID a = rule_ID rule" and "fa_IssuedAt a = now" and "fa_Type a = rule_ActionType rule"
    and "fa_Target a = rule_Target rule" and "\<not> isInCooldown rule as now"
    and "in_window history (rule_State rule) (rule_Window rule) now \<noteq> []"
  using assms by (auto simp: evaluateRule_def Let_def filterByState_in_window split: if_splits)

lemma evaluateRule_cong:
  "isInCooldown rule as now = isInCooldown rule bs now \<Longrightarrow> evaluateRule rule history as now = evaluateRule rule history bs now"
  unfolding evaluateRule_def Let_def by simp

text \<open>With distinct identifiers each rule is judged on the prior actions alone.\<close>

lemma evaluate_rules_map:
  assumes "distinct (map rule_ID rules)" and "\<forall>a \<in> set actions. fa_RuleID a \<notin> rule_ID ` set rules"
    and "\<forall>rule \<in> set rules. evaluateRule rule history prior now \<noteq> None"
  shows "evaluate_rules rules history prior now actions =
    Some (actions @ List.map_filter (\<lambda>rule. case evaluateRule rule history prior now of Some x \<Rightarrow> x | None \<Rightarrow> None) rules)"
  using assms
proof (induction rules arbitrary: actions)
  case (Cons rule rules)
  have "isInCooldown rule (prior @ actions) now = isInCooldown rule prior now"
    using Cons.prems(2) by (intro isInCooldown_other) auto
  from evaluateRule_cong [OF this] have ev: "evaluateRule rule history (prior @ actions) now = evaluateRule rule history prior now" .
  obtain x where x: "evaluateRule rule history prior now = Some x" using Cons.prems(3) by auto
  show ?case
  proof (cases x)
    case None
    with Cons ev x show ?thesis by (simp add: map_filter_simps)
  next
    case (Some a)
    have "fa_RuleID a = rule_ID rule" using evaluateRule_facts(1) x Some by blast
    with Cons.prems have "\<forall>b \<in> set (actions @ [a]). fa_RuleID b \<notin> rule_ID ` set rules" by auto
    from Cons.IH [OF _ this] Cons.prems ev x Some show ?thesis by (simp add: map_filter_simps)
  qed
qed (simp add: map_filter_simps)

lemma builtin_ids: "distinct (map rule_ID BuiltinRules)" by code_simp

lemma builtin_positive: "\<forall>rule \<in> set BuiltinRules. rule_MinOccurrences rule \<ge> 1"
  by (simp add: BuiltinRules_def)

lemma evaluateRule_returns: "rule_MinOccurrences rule \<ge> 1 \<Longrightarrow> evaluateRule rule history as now \<noteq> None"
  by (auto simp: evaluateRule_def Let_def)

subsection \<open>Properties\<close>

text \<open>The count of occurrences ignores order: \<open>filterByState\<close> returns every signal of the state in the
  window, consecutive or not. Its second loop, which is to keep the last consecutive run, looks at
  signals of that state only and never stops.\<close>

theorem filterByState_keeps_all:
  "filterByState history state window now =
     filter (\<lambda>s. sig_State s = state \<and> sig_Timestamp s > now - window) history"
  by (simp add: filterByState_in_window in_window_def)

text \<open>Evaluation judges every rule alone: with distinct rule identifiers and positive minimum counts it
  never panics and returns, in the order of the rules, one action for each rule whose state occurs often
  enough in its window and which has no prior action within its cooldown.\<close>

theorem Evaluate_spec:
  assumes "distinct (map rule_ID (fe_Rules e))" and "\<forall>rule \<in> set (fe_Rules e). rule_MinOccurrences rule \<ge> 1"
  shows "\<exists>actions. Evaluate e history prior now = Some actions \<and>
    map fa_RuleID actions = map rule_ID (filter (\<lambda>rule.
      rule_MinOccurrences rule \<le> int (length (in_window history (rule_State rule) (rule_Window rule) now)) \<and>
      \<not> isInCooldown rule prior now) (fe_Rules e)) \<and>
    (\<forall>a \<in> set actions. fa_IssuedAt a = now)"
proof -
  let ?f = "\<lambda>rule. case evaluateRule rule history prior now of Some x \<Rightarrow> x | None \<Rightarrow> None"
  have ok: "\<forall>rule \<in> set (fe_Rules e). evaluateRule rule history prior now \<noteq> None"
    using assms(2) evaluateRule_returns by blast
  have ev: "Evaluate e history prior now = Some (List.map_filter ?f (fe_Rules e))"
    using evaluate_rules_map [OF assms(1) _ ok, of "[]"] by (simp add: Evaluate_def)
  have f: "map_option fa_RuleID (?f rule) = (if
      rule_MinOccurrences rule \<le> int (length (in_window history (rule_State rule) (rule_Window rule) now)) \<and>
      \<not> isInCooldown rule prior now then Some (rule_ID rule) else None)" if "rule \<in> set (fe_Rules e)" for rule
    using assms(2) that by (auto simp: evaluateRule_def Let_def filterByState_in_window)
  have "map fa_RuleID (List.map_filter ?f rules) = map rule_ID (filter (\<lambda>rule.
      rule_MinOccurrences rule \<le> int (length (in_window history (rule_State rule) (rule_Window rule) now)) \<and>
      \<not> isInCooldown rule prior now) rules)" if "set rules \<subseteq> set (fe_Rules e)" for rules
    using that
  proof (induction rules)
    case (Cons rule rules)
    then show ?case using f [of rule] by (cases "?f rule") (auto simp: map_filter_simps split: if_splits)
  qed (simp add: map_filter_simps)
  moreover have "\<forall>a \<in> set (List.map_filter ?f (fe_Rules e)). fa_IssuedAt a = now"
    using evaluateRule_facts(2) by (auto simp: map_filter_def split: option.splits)
  ultimately show ?thesis using ev by blast
qed

text \<open>A controller that is evaluated again and again, each time with all its actions so far.\<close>

fun evaluations :: "FeedbackEngine \<Rightarrow> (Signal list \<times> int) list \<Rightarrow> Action list \<Rightarrow> Action list option" where
  "evaluations e [] actions = Some actions"
| "evaluations e ((history, now) # rounds) actions =
     (case Evaluate e history actions now of
        None \<Rightarrow> None
      | Some new \<Rightarrow> evaluations e rounds (actions @ new))"

text \<open>Two actions of one rule keep the distance of its cooldown.\<close>

definition spaced :: "Rule list \<Rightarrow> Action list \<Rightarrow> bool" where
  "spaced rules as \<longleftrightarrow> (\<forall>i j rule. i < j \<longrightarrow> j < length as \<longrightarrow> rule \<in> set rules \<longrightarrow> rule_Cooldown rule \<noteq> 0 \<longrightarrow>
     fa_RuleID (as ! i) = rule_ID rule \<longrightarrow> fa_RuleID (as ! j) = rule_ID rule \<longrightarrow>
     fa_IssuedAt (as ! i) + rule_Cooldown rule \<le> fa_IssuedAt (as ! j))"

lemma spaced_snoc:
  assumes "spaced rules as"
    and "\<And>rule b. rule \<in> set rules \<Longrightarrow> rule_Cooldown rule \<noteq> 0 \<Longrightarrow> b \<in> set as \<Longrightarrow> fa_RuleID b = rule_ID rule \<Longrightarrow>
      fa_RuleID a = rule_ID rule \<Longrightarrow> fa_IssuedAt b + rule_Cooldown rule \<le> fa_IssuedAt a"
  shows "spaced rules (as @ [a])"
  unfolding spaced_def
proof (intro allI impI)
  fix i j rule
  assume h: "i < j" "j < length (as @ [a])" "rule \<in> set rules" "rule_Cooldown rule \<noteq> 0"
    "fa_RuleID ((as @ [a]) ! i) = rule_ID rule" "fa_RuleID ((as @ [a]) ! j) = rule_ID rule"
  show "fa_IssuedAt ((as @ [a]) ! i) + rule_Cooldown rule \<le> fa_IssuedAt ((as @ [a]) ! j)"
  proof (cases "j < length as")
    case True
    with h assms(1) show ?thesis by (simp add: spaced_def nth_append)
  next
    case False
    with h have "j = length as" "i < length as" by simp_all
    with h assms(2) [of rule "as ! i"] show ?thesis by (simp add: nth_append)
  qed
qed

lemma evaluate_rules_spaced:
  assumes "distinct (map rule_ID all)" and "set rules \<subseteq> set all" and "spaced all (prior @ actions)"
    and "evaluate_rules rules history prior now actions = Some res"
  shows "spaced all (prior @ res)"
  using assms(2-4)
proof (induction rules arbitrary: actions)
  case (Cons rule rules)
  show ?case
  proof (cases "evaluateRule rule history (prior @ actions) now")
    case None
    with Cons.prems show ?thesis by simp
  next
    case (Some x)
    show ?thesis
    proof (cases x)
      case None
      with Cons Some show ?thesis by simp
    next
      case (Some a)
      with \<open>_ = Some x\<close> have ev: "evaluateRule rule history (prior @ actions) now = Some (Some a)" by simp
      note a = evaluateRule_facts [OF ev]
      have "spaced all ((prior @ actions) @ [a])"
      proof (rule spaced_snoc [OF Cons.prems(2)])
        fix r b assume r: "r \<in> set all" "rule_Cooldown r \<noteq> 0" "b \<in> set (prior @ actions)" "fa_RuleID b = rule_ID r"
          "fa_RuleID a = rule_ID r"
        have "r = rule" using r a(1) Cons.prems(1) assms(1) by (metis distinct_map inj_onD list.set_intros(1) subsetD)
        with r a(2,5) show "fa_IssuedAt b + rule_Cooldown r \<le> fa_IssuedAt a" by (auto simp: isInCooldown_iff)
      qed
      with Cons.IH [of "actions @ [a]"] Cons.prems ev show ?thesis by simp
    qed
  qed
qed simp

text \<open>C18: cooldowns hold for good: however often a controller with distinct rule identifiers is evaluated, on
  any histories and at any instants, two actions of the same rule are issued at least its cooldown apart.\<close>

theorem cooldown_respected:
  assumes "distinct (map rule_ID (fe_Rules e))" and "evaluations e rounds [] = Some actions"
    and "i < j" and "j < length actions" and "rule \<in> set (fe_Rules e)" and "rule_Cooldown rule > 0"
    and "fa_RuleID (actions ! i) = rule_ID rule" and "fa_RuleID (actions ! j) = rule_ID rule"
  shows "fa_IssuedAt (actions ! i) + rule_Cooldown rule \<le> fa_IssuedAt (actions ! j)"
proof -
  have "spaced (fe_Rules e) res"
    if "evaluations e rs acts = Some res" "spaced (fe_Rules e) acts" "distinct (map rule_ID (fe_Rules e))" for e rs acts res
    using that
  proof (induction rs arbitrary: acts)
    case (Cons r rs)
    obtain history now where r: "r = (history, now)" by fastforce
    obtain new where new: "Evaluate e history acts now = Some new" and rest: "evaluations e rs (acts @ new) = Some res"
      using Cons.prems(1) r by (auto split: option.splits)
    have "spaced (fe_Rules e) (acts @ new)"
      using new by - (rule evaluate_rules_spaced [where rules = "fe_Rules e" and actions = "[]"],
        simp_all add: Evaluate_def Cons.prems)
    then show ?case by (rule Cons.IH [OF rest _ Cons.prems(3)])
  qed simp
  from this [OF assms(2) _ assms(1)] have "spaced (fe_Rules e) actions" by (simp add: spaced_def)
  from this [unfolded spaced_def, rule_format, OF assms(3,4,5) _ assms(7,8)] show ?thesis using assms(6) by simp
qed

text \<open>A consistency failure always halts: whatever happened before, evaluating the built-in rules on a
  history with a consistency failure of the last minute returns a halt of all workflows.\<close>

theorem consistency_failure_halts:
  assumes "s \<in> set history" and "sig_State s = StateConsistencyFail" and "sig_Timestamp s > now - minute"
  shows "\<exists>actions. Evaluate (feedback_New BuiltinRules) history prior now = Some actions \<and> HasActionType actions Halt \<and>
    (\<exists>a \<in> set actions. fa_Type a = Halt \<and> fa_Target a = ''app://all-workflows'' \<and> fa_IssuedAt a = now)"
proof -
  define r6 where "r6 = last BuiltinRules"
  have r6: "r6 \<in> set BuiltinRules" "rule_State r6 = StateConsistencyFail" "rule_MinOccurrences r6 = 1" "rule_Window r6 = minute"
    "rule_Cooldown r6 = 0" "rule_ActionType r6 = Halt" "rule_Target r6 = ''app://all-workflows''"
    by (simp_all add: r6_def BuiltinRules_def)
  let ?f = "\<lambda>rule. case evaluateRule rule history prior now of Some x \<Rightarrow> x | None \<Rightarrow> None"
  have ok: "\<forall>rule \<in> set BuiltinRules. evaluateRule rule history prior now \<noteq> None"
    using builtin_positive evaluateRule_returns by blast
  have ev: "Evaluate (feedback_New BuiltinRules) history prior now = Some (List.map_filter ?f BuiltinRules)"
    using evaluate_rules_map [OF builtin_ids _ ok, of "[]"] by (simp add: Evaluate_def feedback_New_def)
  have "in_window history StateConsistencyFail minute now \<noteq> []" using assms by (auto simp: in_window_def filter_empty_conv)
  then obtain a where a: "evaluateRule r6 history prior now = Some (Some a)"
    using r6 by (auto simp: evaluateRule_def Let_def filterByState_in_window isInCooldown_def Suc_le_eq not_less)
  note f = evaluateRule_facts [OF a]
  have "a \<in> set (List.map_filter ?f BuiltinRules)" using a r6(1) by (force simp: map_filter_def)
  moreover have "HasActionType as t \<longleftrightarrow> (\<exists>a \<in> set as. fa_Type a = t)" for as t by (induction as) auto
  ultimately show ?thesis using ev f r6 by auto
qed

subsection \<open>Witnesses\<close>

definition sample_signal :: "SigState \<Rightarrow> int \<Rightarrow> Signal" where
  "sample_signal state t = (signal_New (''120000'', t) ''e'' ''p'' ''h'')\<lparr>sig_State := state\<rparr>"

theorem Evaluate_spec_witness:
  "\<exists>actions. Evaluate (feedback_New BuiltinRules) [sample_signal StateDriftDetected 5] [] 10 = Some actions \<and>
     map fa_RuleID actions = [''R04'']"
proof -
  have "map rule_ID (filter (\<lambda>rule. rule_MinOccurrences rule \<le>
        int (length (in_window [sample_signal StateDriftDetected 5] (rule_State rule) (rule_Window rule) 10)) \<and>
      \<not> isInCooldown rule [] 10) (fe_Rules (feedback_New BuiltinRules))) = [''R04'']"
    by code_simp
  with Evaluate_spec [of "feedback_New BuiltinRules" "[sample_signal StateDriftDetected 5]" "[]" 10]
  show ?thesis using builtin_ids builtin_positive by (auto simp: feedback_New_def)
qed

theorem cooldown_respected_witness:
  "\<exists>actions. evaluations (feedback_New BuiltinRules)
       [([sample_signal StateReplayDivergence 5], 10), ([sample_signal StateReplayDivergence 5], 30 * second + 10)] [] = Some actions \<and>
     length actions = 2 \<and> fa_IssuedAt (actions ! 0) + 30 * second \<le> fa_IssuedAt (actions ! 1)"
proof -
  let ?rounds = "[([sample_signal StateReplayDivergence 5], 10), ([sample_signal StateReplayDivergence 5], 30 * second + 10)]"
  let ?e = "feedback_New BuiltinRules"
  have "map_option (map fa_RuleID) (evaluations ?e ?rounds []) = Some [''R02'', ''R02'']" by code_simp
  then obtain actions where ev: "evaluations ?e ?rounds [] = Some actions" and ids: "map fa_RuleID actions = [''R02'', ''R02'']"
    by auto
  have r: "BuiltinRules ! 1 \<in> set (fe_Rules ?e)" "rule_Cooldown (BuiltinRules ! 1) = 30 * second" "rule_ID (BuiltinRules ! 1) = ''R02''"
    by (simp_all add: feedback_New_def BuiltinRules_def)
  have "length actions = 2" "fa_RuleID (actions ! 0) = ''R02''" "fa_RuleID (actions ! 1) = ''R02''"
    using ids by (auto simp: map_eq_Cons_conv)
  with cooldown_respected [OF _ ev, of 0 1 "BuiltinRules ! 1"] r ev show ?thesis
    using builtin_ids by (simp add: feedback_New_def second_def)
qed

theorem consistency_failure_halts_witness:
  "\<exists>actions. Evaluate (feedback_New BuiltinRules) [sample_signal StateConsistencyFail 5] [] 10 = Some actions \<and>
     HasActionType actions Halt"
  using consistency_failure_halts [of "sample_signal StateConsistencyFail 5" "[sample_signal StateConsistencyFail 5]" 10 "[]"]
  by (auto simp: sample_signal_def signal_New_def minute_def second_def)

end
