(* ===== verification/Adapt_Bus.thy ===== *)
theory Adapt_Bus
  imports Adapt_Feedback
begin

text \<open>
  The action bus, \<open>mek/internal/adaptctl/actionbus/bus.go\<close>: delivery of actions to an endpoint with
  retries, expiry and an idempotency guard. An endpoint is a state with a function \<open>deliver\<close> that
  returns an error (or none) and the next state; a nil endpoint is \<open>None\<close>. The environment of a
  publication is the instant \<open>now\<close>, the instant of each delivery \<open>clock\<close>, whether the context is done
  when the delay before an attempt is waited for (\<open>ctx\<close>), and the order \<open>order\<close> in which \<open>sort.Slice\<close>
  leaves the actions: Go promises a sorted permutation, not a stable one.
\<close>

subsection \<open>State\<close>

record DeliveryConfig =
  dc_MaxAttempts :: int
  dc_RetryDelay :: int

definition DefaultConfig :: DeliveryConfig where
  "DefaultConfig = \<lparr>dc_MaxAttempts = 3, dc_RetryDelay = 100000000\<rparr>"

record Bus =
  bus_config :: DeliveryConfig
  bus_delivered :: "(string, int) gomap"

definition bus_New :: "DeliveryConfig \<Rightarrow> Bus" where
  "bus_New config = \<lparr>bus_config = config, bus_delivered = []\<rparr>"

datatype bus_error = NilEndpoint | ContextCancelled | Exhausted int "string option"

type_synonym 's deliver = "'s \<Rightarrow> Action \<Rightarrow> string option \<times> 's"

subsection \<open>Operations\<close>

definition isExpired :: "int \<Rightarrow> int \<Rightarrow> int \<Rightarrow> bool" where
  "isExpired issuedAt ttl now = (if ttl \<le> 0 then False else now > issuedAt + ttl)"

text \<open>The loop of \<open>filterValid\<close>: the identifiers seen so far and the actions kept.\<close>

definition filter_action :: "Bus \<Rightarrow> int \<Rightarrow> Action \<Rightarrow> string list \<times> Action list \<Rightarrow> string list \<times> Action list" where
  "filter_action b now a = (\<lambda>(seen, valid).
     if isExpired (fa_IssuedAt a) (fa_TTL a) now then (seen, valid)
     else if gm_get (bus_delivered b) (fa_ID a) \<noteq> None then (seen, valid)
     else if fa_ID a \<in> set seen then (seen, valid)
     else (fa_ID a # seen, valid @ [a]))"

definition filterValid :: "Bus \<Rightarrow> int \<Rightarrow> Action list \<Rightarrow> Action list" where
  "filterValid b now actions = snd (fold (filter_action b now) actions ([], []))"

definition markDelivered :: "string \<Rightarrow> int \<Rightarrow> Bus \<Rightarrow> Bus" where
  "markDelivered i t b = b\<lparr>bus_delivered := gm_put i t (bus_delivered b)\<rparr>"

text \<open>The attempts left, the number of the attempt, the last error.\<close>

fun attempts ::
  "'s deliver \<Rightarrow> (string \<Rightarrow> nat \<Rightarrow> bool) \<Rightarrow> (string \<Rightarrow> int) \<Rightarrow> Action \<Rightarrow> nat \<Rightarrow> nat \<Rightarrow> string option \<Rightarrow> Bus \<times> 's \<Rightarrow>
   bus_error option \<times> Bus \<times> 's" where
  "attempts deliver ctx clock action 0 attempt lastErr (b, s) =
     (Some (Exhausted (dc_MaxAttempts (bus_config b)) lastErr), b, s)"
| "attempts deliver ctx clock action (Suc n) attempt lastErr (b, s) =
     (if attempt > 0 \<and> ctx (fa_ID action) attempt then (Some ContextCancelled, b, s)
      else case deliver s action of
             (None, s') \<Rightarrow> (None, markDelivered (fa_ID action) (clock (fa_ID action)) b, s')
           | (Some err, s') \<Rightarrow> attempts deliver ctx clock action n (attempt + 1) (Some err) (b, s'))"

definition deliverWithRetry ::
  "'s deliver \<Rightarrow> (string \<Rightarrow> nat \<Rightarrow> bool) \<Rightarrow> (string \<Rightarrow> int) \<Rightarrow> Action \<Rightarrow> Bus \<times> 's \<Rightarrow> bus_error option \<times> Bus \<times> 's" where
  "deliverWithRetry deliver ctx clock action bs =
     attempts deliver ctx clock action (nat (dc_MaxAttempts (bus_config (fst bs)))) 0 None bs"

fun deliver_all ::
  "'s deliver \<Rightarrow> (string \<Rightarrow> nat \<Rightarrow> bool) \<Rightarrow> (string \<Rightarrow> int) \<Rightarrow> Action list \<Rightarrow> nat \<Rightarrow> bus_error option \<Rightarrow> Bus \<times> 's \<Rightarrow>
   nat \<times> bus_error option \<times> Bus \<times> 's" where
  "deliver_all deliver ctx clock [] delivered lastErr bs = (delivered, lastErr, bs)"
| "deliver_all deliver ctx clock (a # as) delivered lastErr bs =
     (case deliverWithRetry deliver ctx clock a bs of
        (Some err, bs') \<Rightarrow> deliver_all deliver ctx clock as delivered (Some err) bs'
      | (None, bs') \<Rightarrow> deliver_all deliver ctx clock as (delivered + 1) lastErr bs')"

definition Publish ::
  "'s deliver \<Rightarrow> (Action list \<Rightarrow> Action list) \<Rightarrow> (string \<Rightarrow> nat \<Rightarrow> bool) \<Rightarrow> (string \<Rightarrow> int) \<Rightarrow> int \<Rightarrow> Action list \<Rightarrow>
   Bus \<Rightarrow> 's option \<Rightarrow> (nat \<times> bus_error option) \<times> Bus \<times> 's option" where
  "Publish deliver order ctx clock now actions b endpoint =
     (case endpoint of
        None \<Rightarrow> ((0, Some NilEndpoint), b, None)
      | Some s \<Rightarrow>
          if length actions = 0 then ((0, None), b, Some s)
          else
            (case deliver_all deliver ctx clock (order (filterValid b now actions)) 0 None (b, s) of
               (delivered, lastErr, b', s') \<Rightarrow>
                 (if delivered = 0 \<and> lastErr \<noteq> None then ((0, lastErr), b', Some s')
                  else ((delivered, None), b', Some s'))))"

definition DeliveredCount :: "Bus \<Rightarrow> nat" where
  "DeliveredCount b = length (bus_delivered b)"

subsection \<open>The endpoints of the package\<close>

record NoopEndpoint =
  noop_Delivered :: "Action list"

definition noop_Deliver :: "NoopEndpoint deliver" where
  "noop_Deliver n action = (None, n\<lparr>noop_Delivered := noop_Delivered n @ [action]\<rparr>)"

record FailingEndpoint =
  fail_FailCount :: int
  fail_failed :: int
  fail_Delivered :: "Action list"

definition failing_Deliver :: "FailingEndpoint deliver" where
  "failing_Deliver f action =
     (let f1 = f\<lparr>fail_failed := fail_failed f + 1\<rparr>
      in if fail_failed f1 \<le> fail_FailCount f1
         then (Some (''simulated failure '' @ int_digits (fail_failed f1) @ ''/'' @ int_digits (fail_FailCount f1)), f1)
         else (None, f1\<lparr>fail_Delivered := fail_Delivered f1 @ [action]\<rparr>))"

subsection \<open>Filtering\<close>

definition eligible :: "Bus \<Rightarrow> int \<Rightarrow> Action \<Rightarrow> bool" where
  "eligible b now a \<longleftrightarrow> \<not> isExpired (fa_IssuedAt a) (fa_TTL a) now \<and> gm_get (bus_delivered b) (fa_ID a) = None"

lemma filter_fold:
  assumes "fold (filter_action b now) as (seen, valid) = (seen', valid')"
    and "set seen = fa_ID ` set valid" and "distinct (map fa_ID valid)" and "\<forall>a \<in> set valid. eligible b now a"
  shows "set seen' = fa_ID ` set valid' \<and> distinct (map fa_ID valid') \<and> (\<forall>a \<in> set valid'. eligible b now a) \<and>
    set valid' \<subseteq> set valid \<union> set as \<and> fa_ID ` set valid' = fa_ID ` (set valid \<union> {a \<in> set as. eligible b now a})"
  using assms
proof (induction as arbitrary: seen valid)
  case (Cons a as)
  show ?case
  proof (cases "eligible b now a \<and> fa_ID a \<notin> set seen")
    case True
    then have "filter_action b now a (seen, valid) = (fa_ID a # seen, valid @ [a])"
      by (simp add: filter_action_def eligible_def)
    then have f: "fold (filter_action b now) as (fa_ID a # seen, valid @ [a]) = (seen', valid')" using Cons.prems(1) by simp
    have "set (fa_ID a # seen) = fa_ID ` set (valid @ [a])" "distinct (map fa_ID (valid @ [a]))"
      "\<forall>x \<in> set (valid @ [a]). eligible b now x"
      using Cons.prems(2-4) True by auto
    note ih = Cons.IH [OF f this]
    have "set valid \<union> {x \<in> set (a # as). eligible b now x} = set (valid @ [a]) \<union> {x \<in> set as. eligible b now x}"
      using True by auto
    with ih show ?thesis by (simp del: image_Un)
  next
    case False
    then have "filter_action b now a (seen, valid) = (seen, valid)" by (auto simp: filter_action_def eligible_def)
    then have f: "fold (filter_action b now) as (seen, valid) = (seen', valid')" using Cons.prems(1) by simp
    note ih = Cons.IH [OF f Cons.prems(2-4)]
    have "fa_ID ` (set valid \<union> {x \<in> set (a # as). eligible b now x}) = fa_ID ` (set valid \<union> {x \<in> set as. eligible b now x})"
      using False Cons.prems(2) by auto
    with ih show ?thesis by auto
  qed
qed auto

lemma filterValid_facts:
  "distinct (map fa_ID (filterValid b now as))" "\<forall>a \<in> set (filterValid b now as). eligible b now a"
  "set (filterValid b now as) \<subseteq> set as" "fa_ID ` set (filterValid b now as) = fa_ID ` {a \<in> set as. eligible b now a}"
proof -
  obtain seen valid where f: "fold (filter_action b now) as ([], []) = (seen, valid)" by fastforce
  show "distinct (map fa_ID (filterValid b now as))" "\<forall>a \<in> set (filterValid b now as). eligible b now a"
    "set (filterValid b now as) \<subseteq> set as" "fa_ID ` set (filterValid b now as) = fa_ID ` {a \<in> set as. eligible b now a}"
    using filter_fold [OF f] by (simp_all add: filterValid_def f)
qed

subsection \<open>The contract of an endpoint\<close>

text \<open>What the bus relies on: a delivery without an error adds the action to what the endpoint has received,
  one with an error leaves it.\<close>

locale endpoint =
  fixes deliver :: "'s deliver" and received :: "'s \<Rightarrow> Action list"
  assumes success: "deliver s a = (None, s') \<Longrightarrow> received s' = received s @ [a]"
    and failure: "deliver s a = (Some e, s') \<Longrightarrow> received s' = received s"
begin

lemma attempts_received:
  assumes "attempts deliver ctx clock a n k le (b, s) = (r, b', s')"
  shows "bus_config b' = bus_config b \<and>
    (r = None \<longrightarrow> received s' = received s @ [a] \<and> bus_delivered b' = gm_put (fa_ID a) (clock (fa_ID a)) (bus_delivered b)) \<and>
    (r \<noteq> None \<longrightarrow> received s' = received s \<and> bus_delivered b' = bus_delivered b)"
  using assms
proof (induction n arbitrary: k le s)
  case (Suc n)
  show ?case
  proof (cases "k > 0 \<and> ctx (fa_ID a) k")
    case False
    obtain x s1 where d: "deliver s a = (x, s1)" by fastforce
    with Suc False success [of s a s1] failure [of s a _ s1] show ?thesis
      by (cases x) (auto simp: markDelivered_def split: if_splits)
  qed (use Suc.prems in auto)
qed auto

text \<open>The bus knows exactly the identifiers the endpoint has received, each once.\<close>

definition consistent :: "Bus \<Rightarrow> 's \<Rightarrow> bool" where
  "consistent b s \<longleftrightarrow> gm_wf (bus_delivered b) \<and> distinct (map fa_ID (received s)) \<and>
     set (gm_keys (bus_delivered b)) = fa_ID ` set (received s)"

lemma deliver_all_spec:
  assumes "deliver_all deliver ctx clock as d le (b, s) = (d', le', b', s')" and "consistent b s"
    and "distinct (map fa_ID as)" and "\<forall>a \<in> set as. gm_get (bus_delivered b) (fa_ID a) = None"
  shows "consistent b' s' \<and> (\<exists>xs. received s' = received s @ xs \<and> set xs \<subseteq> set as \<and> d' = d + length xs)"
  using assms
proof (induction as arbitrary: d le b s)
  case (Cons a as)
  obtain r b1 s1 where r: "deliverWithRetry deliver ctx clock a (b, s) = (r, b1, s1)" by (metis prod_cases3)
  note t = attempts_received [OF r [unfolded deliverWithRetry_def]]
  have new: "fa_ID a \<notin> fa_ID ` set (received s)"
    using Cons.prems(2,4) gm_get_None_iff by (fastforce simp: consistent_def)
  have rest: "\<forall>x \<in> set as. gm_get (bus_delivered b1) (fa_ID x) = None" "distinct (map fa_ID as)"
  proof -
    have "bus_delivered b1 = bus_delivered b \<or> bus_delivered b1 = gm_put (fa_ID a) (clock (fa_ID a)) (bus_delivered b)"
      using t by (cases r) simp_all
    moreover have "fa_ID x \<noteq> fa_ID a" if "x \<in> set as" for x
      using Cons.prems(3) imageI [OF that, of fa_ID] by auto
    ultimately show "\<forall>x \<in> set as. gm_get (bus_delivered b1) (fa_ID x) = None" using Cons.prems(4) by auto
    show "distinct (map fa_ID as)" using Cons.prems(3) by simp
  qed
  show ?case
  proof (cases r)
    case None
    then have "consistent b1 s1" using t new Cons.prems(2) by (auto simp: consistent_def gomap_simps)
    from Cons.IH [OF _ this rest(2,1), of "d + 1" le] Cons.prems(1) r None t
    obtain xs where "consistent b' s'" "received s' = received s @ [a] @ xs" "set xs \<subseteq> set as" "d' = d + 1 + length xs"
      by auto
    then show ?thesis by (intro conjI exI [of _ "a # xs"]) auto
  next
    case (Some e)
    then have "consistent b1 s1" using t Cons.prems(2) by (simp add: consistent_def)
    from Cons.IH [OF _ this rest(2,1), of d "Some e"] Cons.prems(1) r Some t show ?thesis by auto
  qed
qed auto

lemma Publish_spec:
  assumes "Publish deliver order ctx clock now as b (Some s) = ((n, err), b', ep)" and "consistent b s"
    and "\<And>xs. mset (order xs) = mset xs"
  shows "\<exists>s' xs. ep = Some s' \<and> consistent b' s' \<and> received s' = received s @ xs \<and> n = length xs \<and>
    (\<forall>a \<in> set xs. a \<in> set as \<and> eligible b now a)"
proof (cases "as = []")
  case True
  with assms show ?thesis by (auto simp: Publish_def)
next
  case False
  let ?v = "order (filterValid b now as)"
  note f = filterValid_facts [of b now as]
  have m: "set ?v = set (filterValid b now as)" "mset (map fa_ID ?v) = mset (map fa_ID (filterValid b now as))"
    using assms(3) by (auto dest: mset_eq_setD)
  have d: "distinct (map fa_ID ?v)" using f(1) m(2) distinct_perm by blast
  obtain d' le' b1 s1 where da: "deliver_all deliver ctx clock ?v 0 None (b, s) = (d', le', b1, s1)"
    by (metis prod_cases4)
  have "\<forall>a \<in> set ?v. gm_get (bus_delivered b) (fa_ID a) = None" using f(2) m(1) by (simp add: eligible_def)
  from deliver_all_spec [OF da assms(2) d this] obtain xs where "consistent b1 s1" "received s1 = received s @ xs"
    "set xs \<subseteq> set ?v" "d' = length xs" by auto
  moreover have "b' = b1" "ep = Some s1" "n = d'" using assms(1) False da by (auto simp: Publish_def split: if_splits)
  ultimately show ?thesis using f(2,3) m(1) by auto
qed

end

interpretation ne: endpoint noop_Deliver noop_Delivered
  by unfold_locales (auto simp: noop_Deliver_def)

interpretation fe: endpoint failing_Deliver fail_Delivered
  by unfold_locales (auto simp: failing_Deliver_def Let_def split: if_splits)

subsection \<open>Properties\<close>

text \<open>What \<open>sort.Slice\<close> promises.\<close>

definition time_order :: "(Action list \<Rightarrow> Action list) \<Rightarrow> bool" where
  "time_order order \<longleftrightarrow> (\<forall>xs. mset (order xs) = mset xs \<and> sorted (map fa_IssuedAt (order xs)))"

text \<open>A sequence of publications to one endpoint.\<close>

fun publications ::
  "'s deliver \<Rightarrow> (Action list \<Rightarrow> Action list) \<Rightarrow> (string \<Rightarrow> nat \<Rightarrow> bool) \<Rightarrow> (string \<Rightarrow> int) \<Rightarrow>
   (int \<times> Action list) list \<Rightarrow> Bus \<Rightarrow> 's option \<Rightarrow> Bus \<times> 's option" where
  "publications deliver order ctx clock [] b ep = (b, ep)"
| "publications deliver order ctx clock ((now, as) # rounds) b ep =
     (case Publish deliver order ctx clock now as b ep of
        (_, b', ep') \<Rightarrow> publications deliver order ctx clock rounds b' ep')"

lemma failing_publications:
  assumes "\<And>xs. mset (order xs) = mset xs" and "fe.consistent b f"
    and "publications failing_Deliver order ctx clock rounds b (Some f) = (b', ep)"
  shows "\<exists>f' xs. ep = Some f' \<and> fe.consistent b' f' \<and> fail_Delivered f' = fail_Delivered f @ xs \<and>
    (\<forall>a \<in> set xs. \<exists>(now, as) \<in> set rounds. a \<in> set as \<and> \<not> isExpired (fa_IssuedAt a) (fa_TTL a) now)"
  using assms(2,3)
proof (induction rounds arbitrary: b f)
  case (Cons r rounds)
  obtain now as where r: "r = (now, as)" by fastforce
  obtain n err b1 ep1 where p: "Publish failing_Deliver order ctx clock now as b (Some f) = ((n, err), b1, ep1)"
    by (metis prod.exhaust)
  from fe.Publish_spec [OF p Cons.prems(1) assms(1)] obtain f1 xs where 1: "ep1 = Some f1" "fe.consistent b1 f1"
    "fail_Delivered f1 = fail_Delivered f @ xs" "\<forall>a \<in> set xs. a \<in> set as \<and> eligible b now a"
    by blast
  from Cons.IH [OF 1(2)] Cons.prems(2) r p 1(1) obtain f' ys where 2: "ep = Some f'" "fe.consistent b' f'"
    "fail_Delivered f' = fail_Delivered f1 @ ys"
    "\<forall>a \<in> set ys. \<exists>(now, as) \<in> set rounds. a \<in> set as \<and> \<not> isExpired (fa_IssuedAt a) (fa_TTL a) now"
    by auto
  have "\<forall>a \<in> set (xs @ ys). \<exists>(now, as) \<in> set (r # rounds). a \<in> set as \<and> \<not> isExpired (fa_IssuedAt a) (fa_TTL a) now"
    using 1(4) 2(4) r by (auto simp: eligible_def)
  with 1 2 show ?case by (intro exI [of _ f'] exI [of _ "xs @ ys"]) simp
qed auto

text \<open>Publications one after the other: however deliveries fail or the context is cancelled, the endpoint receives every
  action identifier at most once, never receives an action that had expired when it was published, and the bus
  counts exactly what was received.\<close>

lemma sequential_at_most_once:
  assumes "time_order order"
    and "publications failing_Deliver order ctx clock rounds (bus_New config)
      (Some \<lparr>fail_FailCount = k, fail_failed = 0, fail_Delivered = []\<rparr>) = (b, ep)"
  shows "\<exists>f. ep = Some f \<and> distinct (map fa_ID (fail_Delivered f)) \<and> DeliveredCount b = length (fail_Delivered f) \<and>
    (\<forall>a \<in> set (fail_Delivered f). \<exists>(now, as) \<in> set rounds. a \<in> set as \<and> \<not> isExpired (fa_IssuedAt a) (fa_TTL a) now)"
proof -
  have "fe.consistent (bus_New config) \<lparr>fail_FailCount = k, fail_failed = 0, fail_Delivered = []\<rparr>"
    by (simp add: fe.consistent_def bus_New_def gm_keys_def)
  from failing_publications [OF _ this assms(2)] assms(1) obtain f where f: "ep = Some f" "fe.consistent b f"
    "\<forall>a \<in> set (fail_Delivered f). \<exists>(now, as) \<in> set rounds. a \<in> set as \<and> \<not> isExpired (fa_IssuedAt a) (fa_TTL a) now"
    by (auto simp: time_order_def)
  have "DeliveredCount b = card (set (gm_keys (bus_delivered b)))"
    using f(2) distinct_card [of "gm_keys (bus_delivered b)"] by (simp add: fe.consistent_def gm_wf_def DeliveredCount_def)
  also have "\<dots> = length (fail_Delivered f)"
    using f(2) distinct_card [of "map fa_ID (fail_Delivered f)"] by (simp add: fe.consistent_def)
  finally show ?thesis using f by (auto simp: fe.consistent_def)
qed

text \<open>Delivery in the end: an endpoint that fails fewer times than the bus retries gets everything.\<close>

lemma attempts_deliver:
  assumes "int k = fail_FailCount f - fail_failed f" and "k < n" and "\<And>i j. \<not> ctx i j"
  shows "attempts failing_Deliver ctx clock a n m le (b, f) =
    (None, markDelivered (fa_ID a) (clock (fa_ID a)) b,
     f\<lparr>fail_failed := fail_FailCount f + 1, fail_Delivered := fail_Delivered f @ [a]\<rparr>)"
  using assms(1,2)
proof (induction k arbitrary: n m le f)
  case 0
  then obtain n' where "n = Suc n'" by (cases n) auto
  with 0 assms(3) show ?case by (simp add: failing_Deliver_def Let_def)
next
  case (Suc k)
  then obtain n' where n: "n = Suc n'" by (cases n) auto
  with Suc.IH [of "f\<lparr>fail_failed := fail_failed f + 1\<rparr>" n'] Suc.prems assms(3) show ?case
    by (simp add: failing_Deliver_def Let_def)
qed

lemma attempts_after:
  assumes "fail_failed f \<ge> fail_FailCount f" and "n > 0"
  shows "attempts failing_Deliver ctx clock a n 0 le (b, f) =
    (None, markDelivered (fa_ID a) (clock (fa_ID a)) b,
     f\<lparr>fail_failed := fail_failed f + 1, fail_Delivered := fail_Delivered f @ [a]\<rparr>)"
  using assms by (cases n) (simp_all add: failing_Deliver_def Let_def)

lemma deliver_all_after:
  assumes "fail_failed f \<ge> fail_FailCount f" and "dc_MaxAttempts (bus_config b) > 0"
  shows "\<exists>b' f'. deliver_all failing_Deliver ctx clock as d None (b, f) = (d + length as, None, b', f') \<and>
    fail_Delivered f' = fail_Delivered f @ as"
  using assms
proof (induction as arbitrary: d b f)
  case (Cons a as)
  let ?b = "markDelivered (fa_ID a) (clock (fa_ID a)) b"
  let ?f = "f\<lparr>fail_failed := fail_failed f + 1, fail_Delivered := fail_Delivered f @ [a]\<rparr>"
  have "deliverWithRetry failing_Deliver ctx clock a (b, f) = (None, ?b, ?f)"
    using attempts_after [OF Cons.prems(1), of "nat (dc_MaxAttempts (bus_config b))"] Cons.prems(2)
    by (simp add: deliverWithRetry_def)
  with Cons.IH [of ?f ?b "d + 1"] Cons.prems show ?case by (auto simp: markDelivered_def)
qed simp

text \<open>Every action gets there: if the endpoint fails fewer times than the bus attempts and the context is
  not cancelled, one publication of fresh, unexpired actions with distinct identifiers delivers all of
  them, in the order of their instants, and reports no error.\<close>

theorem publish_delivers_all:
  assumes "time_order order" and "\<And>i j. \<not> ctx i j" and "0 \<le> k" and "k < dc_MaxAttempts config"
    and "distinct (map fa_ID actions)" and "\<forall>a \<in> set actions. \<not> isExpired (fa_IssuedAt a) (fa_TTL a) now"
  shows "\<exists>b f. Publish failing_Deliver order ctx clock now actions (bus_New config)
      (Some \<lparr>fail_FailCount = k, fail_failed = 0, fail_Delivered = []\<rparr>) = ((length actions, None), b, Some f) \<and>
    mset (fail_Delivered f) = mset actions \<and> sorted (map fa_IssuedAt (fail_Delivered f))"
proof (cases "actions = []")
  case True
  then show ?thesis by (simp add: Publish_def)
next
  case False
  let ?f = "\<lparr>fail_FailCount = k, fail_failed = 0, fail_Delivered = []\<rparr>" and ?b = "bus_New config"
  have fv: "snd (fold (filter_action ?b now) as (seen, valid)) = valid @ as"
    if "distinct (map fa_ID as)" "\<forall>a \<in> set as. \<not> isExpired (fa_IssuedAt a) (fa_TTL a) now" "set seen \<inter> fa_ID ` set as = {}"
    for as seen valid
    using that by (induction as arbitrary: seen valid) (auto simp: filter_action_def bus_New_def)
  have valid: "filterValid ?b now actions = actions" using fv [OF assms(5,6), of "[]" "[]"] by (simp add: filterValid_def)
  obtain a as where o: "order actions = a # as"
    using False assms(1) by (metis list.exhaust mset.simps(1) mset_zero_iff time_order_def)
  let ?b1 = "markDelivered (fa_ID a) (clock (fa_ID a)) ?b" and ?f1 = "?f\<lparr>fail_failed := k + 1, fail_Delivered := [a]\<rparr>"
  have "deliverWithRetry failing_Deliver ctx clock a (?b, ?f) = (None, ?b1, ?f1)"
    using attempts_deliver [of "nat k" ?f "nat (dc_MaxAttempts config)" ctx clock a 0 None ?b] assms(2-4)
    by (simp add: deliverWithRetry_def bus_New_def)
  moreover obtain b' f' where "deliver_all failing_Deliver ctx clock as 1 None (?b1, ?f1) = (1 + length as, None, b', f')"
    "fail_Delivered f' = [a] @ as"
    using deliver_all_after [of ?f1 ?b1 ctx clock as 1] assms(3,4) by (auto simp: markDelivered_def bus_New_def)
  moreover have "mset (a # as) = mset actions" "sorted (map fa_IssuedAt (a # as))"
    using assms(1) o unfolding time_order_def by metis+
  moreover have "length actions = 1 + length as" using \<open>mset (a # as) = mset actions\<close> by (metis length_Cons plus_1_eq_Suc size_mset)
  ultimately show ?thesis using False by (simp add: Publish_def valid o)
qed

subsection \<open>Publications at the same time\<close>

text \<open>
  \<open>Publish\<close> holds the mutex of the bus only in \<open>filterValid\<close> and \<open>markDelivered\<close>. Between them other calls
  go on, so a call is a position: before its filter; before attempt \<open>k\<close> for the first of the actions left; after a
  delivery that the endpoint has acknowledged and before its mark; returned. To speak about a run it also keeps the filters
  that ran (call, instant, batch) and the deliveries that were acknowledged. The endpoint is any.
\<close>

datatype pub = PubFilter "Action list" | PubSend "Action list" nat "string option" nat "bus_error option"
  | PubMark Action "Action list" nat "bus_error option" | PubDone nat "bus_error option"

record 's bus_run =
  br_Bus :: Bus
  br_Endpoint :: 's
  br_Calls :: "pub list"
  br_Filters :: "(nat \<times> int \<times> Action list) list"
  br_Acks :: "(nat \<times> Action) list"

abbreviation stands :: "'s bus_run \<Rightarrow> nat \<Rightarrow> pub \<Rightarrow> bool" where
  "stands st c p \<equiv> c < length (br_Calls st) \<and> br_Calls st ! c = p"

abbreviation go :: "nat \<Rightarrow> pub \<Rightarrow> 's bus_run \<Rightarrow> 's bus_run" where
  "go c p st \<equiv> st\<lparr>br_Calls := (br_Calls st)[c := p]\<rparr>"

abbreviation max_attempts :: "'s bus_run \<Rightarrow> int" where
  "max_attempts st \<equiv> dc_MaxAttempts (bus_config (br_Bus st))"

inductive bus_step :: "'s deliver \<Rightarrow> 's bus_run \<Rightarrow> 's bus_run \<Rightarrow> bool" for deliver where
  publish: "bus_step deliver st (st\<lparr>br_Calls := br_Calls st @ [PubFilter as]\<rparr>)"
| filtered: "stands st c (PubFilter as) \<Longrightarrow> mset vs = mset (filterValid (br_Bus st) now as) \<Longrightarrow> sorted (map fa_IssuedAt vs) \<Longrightarrow>
    bus_step deliver st (go c (PubSend vs 0 None 0 None) (st\<lparr>br_Filters := br_Filters st @ [(c, now, as)]\<rparr>))"
| acknowledged: "stands st c (PubSend (a # as) k le n err) \<Longrightarrow> int k < max_attempts st \<Longrightarrow> deliver (br_Endpoint st) a = (None, s) \<Longrightarrow>
    bus_step deliver st (go c (PubMark a as n err) (st\<lparr>br_Endpoint := s, br_Acks := br_Acks st @ [(c, a)]\<rparr>))"
| failed: "stands st c (PubSend (a # as) k le n err) \<Longrightarrow> int k < max_attempts st \<Longrightarrow> deliver (br_Endpoint st) a = (Some e, s) \<Longrightarrow>
    bus_step deliver st (go c (PubSend (a # as) (k + 1) (Some e) n err) (st\<lparr>br_Endpoint := s\<rparr>))"
| cancelled: "stands st c (PubSend (a # as) k le n err) \<Longrightarrow> 0 < k \<Longrightarrow> int k < max_attempts st \<Longrightarrow>
    bus_step deliver st (go c (PubSend as 0 None n (Some ContextCancelled)) st)"
| exhausted: "stands st c (PubSend (a # as) k le n err) \<Longrightarrow> \<not> int k < max_attempts st \<Longrightarrow>
    bus_step deliver st (go c (PubSend as 0 None n (Some (Exhausted (max_attempts st) le))) st)"
| mark: "stands st c (PubMark a as n err) \<Longrightarrow>
    bus_step deliver st (go c (PubSend as 0 None (n + 1) err) (st\<lparr>br_Bus := markDelivered (fa_ID a) t (br_Bus st)\<rparr>))"
| return: "stands st c (PubSend [] k le n err) \<Longrightarrow>
    bus_step deliver st (go c (if n = 0 \<and> err \<noteq> None then PubDone 0 err else PubDone n None) st)"

inductive_cases bus_stepE: "bus_step deliver st st'"

definition bus_start :: "DeliveryConfig \<Rightarrow> 's \<Rightarrow> 's bus_run" where
  "bus_start config s = \<lparr>br_Bus = bus_New config, br_Endpoint = s, br_Calls = [], br_Filters = [], br_Acks = []\<rparr>"

definition marked :: "'s bus_run \<Rightarrow> string set" where
  "marked st = set (gm_keys (bus_delivered (br_Bus st)))"

definition acked :: "'s bus_run \<Rightarrow> nat \<Rightarrow> string list" where
  "acked st c = map (fa_ID \<circ> snd) (filter (\<lambda>(d, _). d = c) (br_Acks st))"

text \<open>What a call can still deliver, by identifier.\<close>

fun to_send :: "pub \<Rightarrow> Action list" where
  "to_send (PubSend as k le n err) = as"
| "to_send (PubMark a as n err) = as"
| "to_send _ = []"

fun unmarked :: "pub \<Rightarrow> string set" where
  "unmarked (PubMark a as n err) = {fa_ID a}"
| "unmarked _ = {}"

fun before_filter :: "pub \<Rightarrow> bool" where
  "before_filter (PubFilter as) = True"
| "before_filter _ = False"

definition passed :: "'s bus_run \<Rightarrow> nat \<Rightarrow> Action \<Rightarrow> bool" where
  "passed st c a \<longleftrightarrow> (\<exists>now as. (c, now, as) \<in> set (br_Filters st) \<and> a \<in> set as \<and> \<not> isExpired (fa_IssuedAt a) (fa_TTL a) now)"

definition call_inv :: "'s bus_run \<Rightarrow> nat \<Rightarrow> pub \<Rightarrow> bool" where
  "call_inv st c p \<longleftrightarrow>
     distinct (acked st c @ map fa_ID (to_send p)) \<and> (before_filter p \<longrightarrow> acked st c = []) \<and>
     (\<forall>a \<in> set (to_send p). passed st c a) \<and> set (acked st c) \<subseteq> marked st \<union> unmarked p \<and> unmarked p \<subseteq> set (acked st c)"

definition bus_inv :: "'s bus_run \<Rightarrow> bool" where
  "bus_inv st \<longleftrightarrow> (\<forall>c < length (br_Calls st). call_inv st c (br_Calls st ! c)) \<and>
     (\<forall>(c, a) \<in> set (br_Acks st). c < length (br_Calls st) \<and> passed st c a) \<and> marked st \<subseteq> fa_ID ` snd ` set (br_Acks st)"

lemma bus_inv_go:
  assumes inv: "bus_inv st" and c: "c < length (br_Calls st)" and calls: "br_Calls st' = (br_Calls st)[c := p]"
    and acks: "br_Acks st' = br_Acks st @ new" "new = [] \<or> (\<exists>a. new = [(c, a)] \<and> passed st' c a)"
    and f: "set (br_Filters st) \<subseteq> set (br_Filters st')" and m: "marked st \<subseteq> marked st'"
    and p: "call_inv st' c p" and m': "marked st' \<subseteq> fa_ID ` snd ` set (br_Acks st')"
  shows "bus_inv st'"
proof -
  have mono: "passed st d a \<Longrightarrow> passed st' d a" for d a using f unfolding passed_def by blast
  have other: "acked st' d = acked st d" if "d \<noteq> c" for d using acks that by (auto simp: acked_def)
  have "call_inv st' d (br_Calls st' ! d)" if d: "d < length (br_Calls st')" for d
  proof (cases "d = c")
    case True
    then show ?thesis using p calls c by simp
  next
    case False
    then have "call_inv st d (br_Calls st ! d)" using inv d calls by (simp add: bus_inv_def)
    then show ?thesis using False m mono calls other [OF False] by (auto simp: call_inv_def)
  qed
  moreover have "\<forall>(d, a) \<in> set (br_Acks st'). d < length (br_Calls st') \<and> passed st' d a"
    using inv acks c calls mono by (auto simp: bus_inv_def)
  ultimately show ?thesis using m' by (simp add: bus_inv_def)
qed

lemma bus_inv_call: "bus_inv st \<Longrightarrow> stands st c p \<Longrightarrow> call_inv st c p"
  by (auto simp: bus_inv_def)

lemma bus_inv_marked: "bus_inv st \<Longrightarrow> marked st \<subseteq> fa_ID ` snd ` set (br_Acks st)"
  by (simp add: bus_inv_def)

lemma marked_mark: "marked (st\<lparr>br_Bus := markDelivered i t (br_Bus st), br_Calls := cs\<rparr>) = insert i (marked st)"
  by (auto simp: marked_def markDelivered_def)

lemma acked_mem: "i \<in> set (acked st c) \<longleftrightarrow> (\<exists>a. (c, a) \<in> set (br_Acks st) \<and> fa_ID a = i)"
  by (force simp: acked_def)

lemma bus_inv_step:
  assumes "bus_step deliver st st'" and inv: "bus_inv st"
  shows "bus_inv st'"
  using assms(1)
proof cases
  case (publish as)
  have "acked st (length (br_Calls st)) = []" using inv by (auto simp: bus_inv_def acked_def filter_empty_conv)
  then have "call_inv st' (length (br_Calls st)) (PubFilter as)" by (simp add: publish call_inv_def acked_def)
  moreover have "call_inv st' c (br_Calls st ! c)" if "c < length (br_Calls st)" for c
    using inv that by (auto simp: publish bus_inv_def call_inv_def acked_def passed_def marked_def)
  ultimately show ?thesis using inv
    by (auto simp: publish bus_inv_def nth_append less_Suc_eq passed_def marked_def)
next
  case (filtered c as vs now)
  note ci = bus_inv_call [OF inv filtered(2)]
  have v: "set vs = set (filterValid (br_Bus st) now as)" "distinct (map fa_ID vs)"
    using filtered(3) filterValid_facts(1) [of "br_Bus st" now as]
    by (auto dest: mset_eq_setD) (metis distinct_perm mset_map)
  have "\<forall>a \<in> set vs. a \<in> set as \<and> \<not> isExpired (fa_IssuedAt a) (fa_TTL a) now"
    using v(1) filterValid_facts(2,3) [of "br_Bus st" now as] by (auto simp: eligible_def)
  then have "call_inv st' c (PubSend vs 0 None 0 None)"
    using ci v(2) by (auto simp: filtered(1) call_inv_def acked_def passed_def marked_def)
  then show ?thesis
    by (intro bus_inv_go [OF inv, of c _ "PubSend vs 0 None 0 None" "[]"])
      (use filtered bus_inv_marked [OF inv] in \<open>auto simp: marked_def\<close>)
next
  case (acknowledged c a as k le n err s)
  note ci = bus_inv_call [OF inv acknowledged(2)]
  have "call_inv st' c (PubMark a as n err)" "passed st' c a"
    using ci by (auto simp: acknowledged(1) call_inv_def acked_def passed_def marked_def)
  then show ?thesis
    by (intro bus_inv_go [OF inv, of c _ "PubMark a as n err" "[(c, a)]"])
      (use acknowledged bus_inv_marked [OF inv] in \<open>auto simp: marked_def\<close>)
next
  case (failed c a as k le n err e s)
  have "call_inv st' c (PubSend (a # as) (k + 1) (Some e) n err)"
    using bus_inv_call [OF inv failed(2)] by (simp add: failed(1) call_inv_def acked_def passed_def marked_def)
  then show ?thesis
    by (intro bus_inv_go [OF inv, of c _ "PubSend (a # as) (k + 1) (Some e) n err" "[]"])
      (use failed bus_inv_marked [OF inv] in \<open>auto simp: marked_def\<close>)
next
  case (cancelled c a as k le n err)
  have "call_inv st' c (PubSend as 0 None n (Some ContextCancelled))"
    using bus_inv_call [OF inv cancelled(2)] by (auto simp: cancelled(1) call_inv_def acked_def passed_def marked_def)
  then show ?thesis
    by (intro bus_inv_go [OF inv, of c _ "PubSend as 0 None n (Some ContextCancelled)" "[]"])
      (use cancelled bus_inv_marked [OF inv] in \<open>auto simp: marked_def\<close>)
next
  case (exhausted c a as k le n err)
  have "call_inv st' c (PubSend as 0 None n (Some (Exhausted (max_attempts st) le)))"
    using bus_inv_call [OF inv exhausted(2)] by (auto simp: exhausted(1) call_inv_def acked_def passed_def marked_def)
  then show ?thesis
    by (intro bus_inv_go [OF inv, of c _ "PubSend as 0 None n (Some (Exhausted (max_attempts st) le))" "[]"])
      (use exhausted bus_inv_marked [OF inv] in \<open>auto simp: marked_def\<close>)
next
  case (mark c a as n err t)
  note ci = bus_inv_call [OF inv mark(2)]
  have m: "marked st' = insert (fa_ID a) (marked st)" by (simp add: mark(1) marked_mark)
  have "fa_ID a \<in> set (acked st c)" using ci by (simp add: call_inv_def)
  then have "fa_ID a \<in> fa_ID ` snd ` set (br_Acks st)" unfolding acked_mem by (metis imageI snd_conv)
  moreover have "call_inv st' c (PubSend as 0 None (n + 1) err)"
    using ci m by (auto simp: mark(1) call_inv_def acked_def passed_def)
  ultimately show ?thesis
    by (intro bus_inv_go [OF inv, of c _ "PubSend as 0 None (n + 1) err" "[]"])
      (use mark m bus_inv_marked [OF inv] in \<open>auto\<close>)
next
  case (return c k le n err)
  let ?p = "if n = 0 \<and> err \<noteq> None then PubDone 0 err else PubDone n None"
  have "call_inv st' c ?p"
    using bus_inv_call [OF inv return(2)] by (auto simp: return(1) call_inv_def acked_def passed_def marked_def)
  then show ?thesis
    by (intro bus_inv_go [OF inv, of c _ ?p "[]"]) (use return bus_inv_marked [OF inv] in \<open>auto simp: marked_def\<close>)
qed

lemma bus_inv_steps: "(bus_step deliver)\<^sup>*\<^sup>* st st' \<Longrightarrow> bus_inv st \<Longrightarrow> bus_inv st'"
  by (induction rule: rtranclp_induct) (simp_all add: bus_inv_step)

lemma bus_inv_start: "bus_inv (bus_start config s)"
  by (simp add: bus_inv_def bus_start_def marked_def bus_New_def gm_keys_def)

text \<open>What is marked is never delivered by a call that filters later.\<close>

definition late :: "'s bus_run \<Rightarrow> nat \<Rightarrow> bool" where
  "late st c \<longleftrightarrow> (\<forall>p. stands st c p \<longrightarrow> before_filter p)"

definition shut_out :: "string \<Rightarrow> nat \<Rightarrow> 's bus_run \<Rightarrow> bool" where
  "shut_out i c st \<longleftrightarrow> i \<in> marked st \<and> i \<notin> set (acked st c) \<and> (c < length (br_Calls st) \<longrightarrow> i \<notin> fa_ID ` set (to_send (br_Calls st ! c)))"

lemma shut_out_step: "bus_step deliver st st' \<Longrightarrow> shut_out i c st \<Longrightarrow> shut_out i c st'"
proof (induction rule: bus_step.induct)
  case (publish st as)
  then show ?case by (auto simp: shut_out_def marked_def acked_def nth_append less_Suc_eq)
next
  case (filtered st d as vs now)
  have "i \<notin> fa_ID ` set vs"
  proof
    assume "i \<in> fa_ID ` set vs"
    then obtain a where "a \<in> set (filterValid (br_Bus st) now as)" "fa_ID a = i" using filtered(2) mset_eq_setD by blast
    then have "gm_get (bus_delivered (br_Bus st)) i = None" using filterValid_facts(2) by (auto simp: eligible_def)
    then show False using filtered(4) gm_get_None_iff [of "bus_delivered (br_Bus st)" i] by (simp add: shut_out_def marked_def)
  qed
  then show ?case using filtered(4) by (cases "c = d") (auto simp: shut_out_def marked_def acked_def)
next
  case (mark st d a as n err t)
  then show ?case by (auto simp: shut_out_def marked_def markDelivered_def acked_def nth_list_update)
qed (auto simp: shut_out_def marked_def acked_def nth_list_update split: if_splits)

lemma shut_out_steps: "(bus_step deliver)\<^sup>*\<^sup>* st st' \<Longrightarrow> shut_out i c st \<Longrightarrow> shut_out i c st'"
  by (induction rule: rtranclp_induct) (simp_all add: shut_out_step)

lemma shut_out_late: "bus_inv st \<Longrightarrow> i \<in> marked st \<Longrightarrow> late st c \<Longrightarrow> shut_out i c st"
proof -
  assume inv: "bus_inv st" and i: "i \<in> marked st" and l: "late st c"
  show "shut_out i c st"
  proof (cases "c < length (br_Calls st)")
    case True
    then have "before_filter (br_Calls st ! c)" "call_inv st c (br_Calls st ! c)"
      using l bus_inv_call [OF inv] by (auto simp: late_def)
    then show ?thesis using i by (cases "br_Calls st ! c") (auto simp: shut_out_def call_inv_def)
  next
    case False
    then show ?thesis using inv i by (auto simp: shut_out_def acked_mem bus_inv_def)
  qed
qed

text \<open>C17: idempotency, with any number of publications going on at the same time and any endpoint. One call has every
  identifier acknowledged at most once, and only actions of its batch that had not expired when it filtered. The bus
  has recorded exactly the identifiers that were acknowledged, but for those whose call is between the
  acknowledgement and the record. What is recorded is never delivered again by a call that filters
  later: publications that do not overlap deliver every identifier at most once.\<close>

theorem publish_at_most_once:
  assumes "(bus_step deliver)\<^sup>*\<^sup>* (bus_start config s) st" and "(bus_step deliver)\<^sup>*\<^sup>* st st'"
  shows "distinct (acked st c) \<and>
    (\<forall>(d, a) \<in> set (br_Acks st). \<exists>now as. (d, now, as) \<in> set (br_Filters st) \<and> a \<in> set as \<and>
       \<not> isExpired (fa_IssuedAt a) (fa_TTL a) now) \<and>
    (\<forall>i. i \<in> set (gm_keys (bus_delivered (br_Bus st))) \<longrightarrow> i \<in> fa_ID ` snd ` set (br_Acks st)) \<and>
    (\<forall>(d, a) \<in> set (br_Acks st). fa_ID a \<in> set (gm_keys (bus_delivered (br_Bus st))) \<or>
       (\<exists>b as n err. fa_ID b = fa_ID a \<and> br_Calls st ! d = PubMark b as n err)) \<and>
    ((c < length (br_Calls st) \<longrightarrow> (\<exists>as. br_Calls st ! c = PubFilter as)) \<longrightarrow>
       (\<forall>i \<in> set (gm_keys (bus_delivered (br_Bus st))). i \<notin> set (acked st' c)))"
proof -
  have inv: "bus_inv st" by (rule bus_inv_steps [OF assms(1) bus_inv_start])
  have ci: "call_inv st d (br_Calls st ! d)" if "(d, a) \<in> set (br_Acks st)" for d a
    using inv that by (auto simp: bus_inv_def)
  have "distinct (acked st c)"
  proof (cases "acked st c")
    case (Cons i xs)
    then have "i \<in> set (acked st c)" by simp
    then show ?thesis using ci unfolding acked_mem by (auto simp: call_inv_def)
  qed simp
  moreover have "fa_ID a \<in> marked st \<or> (\<exists>b as n err. fa_ID b = fa_ID a \<and> br_Calls st ! d = PubMark b as n err)"
    if "(d, a) \<in> set (br_Acks st)" for d a
  proof -
    have "fa_ID a \<in> set (acked st d)" using that acked_mem by blast
    then have "fa_ID a \<in> marked st \<union> unmarked (br_Calls st ! d)" using ci [OF that] by (auto simp: call_inv_def)
    then show ?thesis by (cases "br_Calls st ! d") auto
  qed
  moreover have "i \<notin> set (acked st' c)" if "i \<in> marked st" "late st c" for i
    using shut_out_steps [OF assms(2) shut_out_late [OF inv that]] by (simp add: shut_out_def)
  moreover have "late st c" if "c < length (br_Calls st) \<longrightarrow> (\<exists>as. br_Calls st ! c = PubFilter as)"
    using that by (auto simp: late_def)
  moreover have "\<forall>(d, a) \<in> set (br_Acks st). passed st d a" "marked st \<subseteq> fa_ID ` snd ` set (br_Acks st)"
    using inv by (auto simp: bus_inv_def)
  ultimately show ?thesis unfolding marked_def passed_def by blast
qed

subsection \<open>Witnesses\<close>

lemma sort_key_order: "time_order (sort_key fa_IssuedAt)"
  by (simp add: time_order_def)

definition sample_action :: "string \<Rightarrow> int \<Rightarrow> Action" where
  "sample_action i t = \<lparr>fa_ID = i, fa_Type = Notify, fa_SignalID = ''s'', fa_RuleID = ''R01'', fa_Target = ''app://status'',
     fa_Payload = \<lparr>pl_signal_state = StateAllPass, pl_occurrences = 3, pl_window = minute, pl_trigger_timestamp = 0\<rparr>,
     fa_IssuedAt = t, fa_TTL = 0\<rparr>"

text \<open>Two calls that filter before either has marked the action deliver it twice: the guard against repetition holds for
  calls one after the other only.\<close>

lemma overlapping_deliver_twice:
  "\<exists>st. (bus_step noop_Deliver)\<^sup>*\<^sup>* (bus_start DefaultConfig \<lparr>noop_Delivered = []\<rparr>) st \<and>
     map fa_ID (noop_Delivered (br_Endpoint st)) = [''x'', ''x'']"
proof -
  let ?x = "sample_action ''x'' 5" and ?b = "bus_New DefaultConfig"
  define st where "st cs fs e as = \<lparr>br_Bus = ?b, br_Endpoint = \<lparr>noop_Delivered = e\<rparr>, br_Calls = cs, br_Filters = fs, br_Acks = as\<rparr>" for cs fs e as
  note [simp] = st_def and [simp] = DefaultConfig_def bus_New_def
  have v: "filterValid ?b 9 [?x] = [?x]" by (simp add: filterValid_def filter_action_def sample_action_def isExpired_def)
  have "bus_step noop_Deliver (st [] [] [] []) (st [PubFilter [?x]] [] [] [])" using bus_step.publish [of noop_Deliver "st [] [] [] []"] by simp
  moreover have "bus_step noop_Deliver (st [PubFilter [?x]] [] [] []) (st [PubFilter [?x], PubFilter [?x]] [] [] [])"
    using bus_step.publish [of noop_Deliver "st [PubFilter [?x]] [] [] []"] by simp
  moreover have "bus_step noop_Deliver (st [PubFilter [?x], PubFilter [?x]] [] [] []) (st [PubSend [?x] 0 None 0 None, PubFilter [?x]] [(0, 9, [?x])] [] [])"
    using bus_step.filtered [where st = "st [PubFilter [?x], PubFilter [?x]] [] [] []" and c = 0 and as = "[?x]" and vs = "[?x]" and now = 9] v by simp
  moreover have "bus_step noop_Deliver (st [PubSend [?x] 0 None 0 None, PubFilter [?x]] [(0, 9, [?x])] [] [])
      (st [PubSend [?x] 0 None 0 None, PubSend [?x] 0 None 0 None] [(0, 9, [?x]), (1, 9, [?x])] [] [])"
    using bus_step.filtered [where st = "st [PubSend [?x] 0 None 0 None, PubFilter [?x]] [(0, 9, [?x])] [] []" and c = 1 and as = "[?x]" and vs = "[?x]" and now = 9] v by simp
  moreover have "bus_step noop_Deliver (st [PubSend [?x] 0 None 0 None, PubSend [?x] 0 None 0 None] [(0, 9, [?x]), (1, 9, [?x])] [] [])
      (st [PubMark ?x [] 0 None, PubSend [?x] 0 None 0 None] [(0, 9, [?x]), (1, 9, [?x])] [?x] [(0, ?x)])"
    using bus_step.acknowledged [where st = "st [PubSend [?x] 0 None 0 None, PubSend [?x] 0 None 0 None] [(0, 9, [?x]), (1, 9, [?x])] [] []" and c = 0 and deliver = noop_Deliver]
    by (simp add: noop_Deliver_def)
  moreover have "bus_step noop_Deliver (st [PubMark ?x [] 0 None, PubSend [?x] 0 None 0 None] [(0, 9, [?x]), (1, 9, [?x])] [?x] [(0, ?x)])
      (st [PubMark ?x [] 0 None, PubMark ?x [] 0 None] [(0, 9, [?x]), (1, 9, [?x])] [?x, ?x] [(0, ?x), (1, ?x)])"
    using bus_step.acknowledged [where st = "st [PubMark ?x [] 0 None, PubSend [?x] 0 None 0 None] [(0, 9, [?x]), (1, 9, [?x])] [?x] [(0, ?x)]" and c = 1 and deliver = noop_Deliver]
    by (simp add: noop_Deliver_def)
  ultimately have "(bus_step noop_Deliver)\<^sup>*\<^sup>* (st [] [] [] [])
      (st [PubMark ?x [] 0 None, PubMark ?x [] 0 None] [(0, 9, [?x]), (1, 9, [?x])] [?x, ?x] [(0, ?x), (1, ?x)])"
    by (meson rtranclp.rtrancl_refl rtranclp.rtrancl_into_rtrancl)
  moreover have "st [] [] [] [] = bus_start DefaultConfig \<lparr>noop_Delivered = []\<rparr>" by (simp add: bus_start_def)
  ultimately have "(bus_step noop_Deliver)\<^sup>*\<^sup>* (bus_start DefaultConfig \<lparr>noop_Delivered = []\<rparr>)
      (st [PubMark ?x [] 0 None, PubMark ?x [] 0 None] [(0, 9, [?x]), (1, 9, [?x])] [?x, ?x] [(0, ?x), (1, ?x)])" by (simp only:)
  then show ?thesis by (rule exI [where x = "st _ _ _ _", OF conjI]) (simp add: sample_action_def)
qed

text \<open>One call on its own does what \<open>Publish\<close> does.\<close>

lemma attempts_steps:
  assumes "attempts deliver ctx clock a n k le (br_Bus st, br_Endpoint st) = (r, b, s)"
    and "stands st c (PubSend (a # as) k le m err)" and "nat (max_attempts st) = k + n"
  shows "\<exists>st'. (bus_step deliver)\<^sup>*\<^sup>* st st' \<and> br_Bus st' = b \<and> br_Endpoint st' = s \<and> br_Calls st' = (br_Calls st)[c :=
    (case r of None \<Rightarrow> PubSend as 0 None (m + 1) err | Some e \<Rightarrow> PubSend as 0 None m (Some e))]"
  using assms
proof (induction n arbitrary: k le st)
  case 0
  then have "bus_step deliver st (go c (PubSend as 0 None m (Some (Exhausted (max_attempts st) le))) st)"
    by (intro bus_step.exhausted [where st = st and c = c]) (auto split: if_splits)
  then show ?case using 0 by (intro exI [of _ "go c (PubSend as 0 None m (Some (Exhausted (max_attempts st) le))) st"]) auto
next
  case (Suc n)
  have less: "int k < max_attempts st" using Suc.prems(3) by linarith
  show ?case
  proof (cases "k > 0 \<and> ctx (fa_ID a) k")
    case True
    then have "bus_step deliver st (go c (PubSend as 0 None m (Some ContextCancelled)) st)"
      using Suc.prems(2) less by (intro bus_step.cancelled [where st = st and c = c]) auto
    then show ?thesis using Suc.prems True by (intro exI [of _ "go c (PubSend as 0 None m (Some ContextCancelled)) st"]) auto
  next
    case False
    obtain o1 s1 where d: "deliver (br_Endpoint st) a = (o1, s1)" by fastforce
    show ?thesis
    proof (cases o1)
      case None
      let ?st = "go c (PubMark a as m err) (st\<lparr>br_Endpoint := s1, br_Acks := br_Acks st @ [(c, a)]\<rparr>)"
      have "bus_step deliver st ?st" using bus_step.acknowledged [where st = st and c = c and deliver = deliver and s = s1] Suc.prems(2) less d None by simp
      let ?st' = "go c (PubSend as 0 None (m + 1) err) (?st\<lparr>br_Bus := markDelivered (fa_ID a) (clock (fa_ID a)) (br_Bus ?st)\<rparr>)"
      have "bus_step deliver ?st ?st'" using Suc.prems(2) by (intro bus_step.mark) simp
      with \<open>bus_step deliver st ?st\<close> have "(bus_step deliver)\<^sup>*\<^sup>* st ?st'" by (meson rtranclp.rtrancl_refl rtranclp.rtrancl_into_rtrancl)
      then show ?thesis using Suc.prems(1) False d None by (intro exI [of _ ?st']) auto
    next
      case (Some e)
      let ?st = "go c (PubSend (a # as) (k + 1) (Some e) m err) (st\<lparr>br_Endpoint := s1\<rparr>)"
      have "bus_step deliver st ?st" using bus_step.failed [where st = st and c = c and deliver = deliver and s = s1] Suc.prems(2) less d Some by simp
      moreover have "\<exists>st'. (bus_step deliver)\<^sup>*\<^sup>* ?st st' \<and> br_Bus st' = b \<and> br_Endpoint st' = s \<and> br_Calls st' = (br_Calls ?st)[c :=
          (case r of None \<Rightarrow> PubSend as 0 None (m + 1) err | Some e \<Rightarrow> PubSend as 0 None m (Some e))]"
        by (rule Suc.IH [of "k + 1" "Some e"]) (use Suc.prems False d Some in auto)
      ultimately show ?thesis by (auto intro: converse_rtranclp_into_rtranclp)
    qed
  qed
qed

lemma attempts_config: "attempts deliver ctx clock a n k le bs = (r, b, s) \<Longrightarrow> bus_config b = bus_config (fst bs)"
  by (induction deliver ctx clock a n k le bs rule: attempts.induct) (auto simp: markDelivered_def split: if_splits prod.splits option.splits)

lemma deliver_all_steps:
  assumes "deliver_all deliver ctx clock as m err (br_Bus st, br_Endpoint st) = (n, err', b, s)" and "stands st c (PubSend as 0 None m err)"
  shows "\<exists>st'. (bus_step deliver)\<^sup>*\<^sup>* st st' \<and> br_Bus st' = b \<and> br_Endpoint st' = s \<and>
    br_Calls st' = (br_Calls st)[c := PubSend [] 0 None n err']"
  using assms
proof (induction as arbitrary: m err st)
  case Nil
  then have "br_Calls st = (br_Calls st)[c := PubSend [] 0 None n err']" using list_update_id [of "br_Calls st" c] by simp
  then show ?case using Nil by (intro exI [of _ st]) simp
next
  case (Cons a as)
  obtain r b1 s1 where r: "deliverWithRetry deliver ctx clock a (br_Bus st, br_Endpoint st) = (r, b1, s1)" by (metis prod_cases3)
  obtain st1 where 1: "(bus_step deliver)\<^sup>*\<^sup>* st st1" "br_Bus st1 = b1" "br_Endpoint st1 = s1" "br_Calls st1 = (br_Calls st)[c :=
      (case r of None \<Rightarrow> PubSend as 0 None (m + 1) err | Some e \<Rightarrow> PubSend as 0 None m (Some e))]"
    using attempts_steps [OF r [unfolded deliverWithRetry_def fst_conv] Cons.prems(2)] by auto
  have "\<exists>st'. (bus_step deliver)\<^sup>*\<^sup>* st1 st' \<and> br_Bus st' = b \<and> br_Endpoint st' = s \<and> br_Calls st' = (br_Calls st1)[c := PubSend [] 0 None n err']"
    by (rule Cons.IH [of "case r of None \<Rightarrow> m + 1 | Some _ \<Rightarrow> m" "case r of None \<Rightarrow> err | Some e \<Rightarrow> Some e"])
      (use Cons.prems r 1 in \<open>cases r; simp\<close>)+
  then show ?case using 1 by (metis (no_types, lifting) list_update_overwrite rtranclp_trans)
qed

lemma Publish_steps:
  assumes "Publish deliver order ctx clock now as (br_Bus st) (Some (br_Endpoint st)) = ((n, err), b, ep)" and "time_order order"
    and "stands st c (PubFilter as)"
  shows "\<exists>st'. (bus_step deliver)\<^sup>*\<^sup>* st st' \<and> br_Bus st' = b \<and> ep = Some (br_Endpoint st') \<and> br_Calls st' = (br_Calls st)[c := PubDone n err]"
proof -
  let ?vs = "order (filterValid (br_Bus st) now as)"
  let ?st = "go c (PubSend ?vs 0 None 0 None) (st\<lparr>br_Filters := br_Filters st @ [(c, now, as)]\<rparr>)"
  have f: "bus_step deliver st ?st" by (rule bus_step.filtered [OF assms(3)]) (use assms(2) in \<open>simp_all add: time_order_def\<close>)
  obtain m le b1 s1 where d: "deliver_all deliver ctx clock ?vs 0 None (br_Bus st, br_Endpoint st) = (m, le, b1, s1)" by (metis prod_cases4)
  obtain st1 where 1: "(bus_step deliver)\<^sup>*\<^sup>* ?st st1" "br_Bus st1 = b1" "br_Endpoint st1 = s1" "br_Calls st1 = (br_Calls ?st)[c := PubSend [] 0 None m le]"
    using deliver_all_steps [of deliver ctx clock ?vs 0 None ?st m le b1 s1 c] d assms(3) by auto
  have r: "bus_step deliver st1 (go c (if m = 0 \<and> le \<noteq> None then PubDone 0 le else PubDone m None) st1)"
    using 1(4) assms(3) by (intro bus_step.return) auto
  have "order [] = []" using assms(2) by (metis mset_zero_iff time_order_def)
  then have "as = [] \<Longrightarrow> m = 0 \<and> le = None \<and> b1 = br_Bus st \<and> s1 = br_Endpoint st" using d by (auto simp: filterValid_def)
  moreover have "Publish deliver order ctx clock now as (br_Bus st) (Some (br_Endpoint st)) =
      (if as = [] then ((0, None), br_Bus st, Some (br_Endpoint st))
       else if m = 0 \<and> le \<noteq> None then ((0, le), b1, Some s1) else ((m, None), b1, Some s1))"
    using d by (simp add: Publish_def)
  ultimately have "PubDone n err = (if m = 0 \<and> le \<noteq> None then PubDone 0 le else PubDone m None)" "b = b1" "ep = Some s1"
    using assms(1) by (auto split: if_splits)
  moreover have "(bus_step deliver)\<^sup>*\<^sup>* st (go c (if m = 0 \<and> le \<noteq> None then PubDone 0 le else PubDone m None) st1)"
    using f 1(1) r by (meson converse_rtranclp_into_rtranclp rtranclp.rtrancl_into_rtrancl)
  ultimately show ?thesis using 1
    by (intro exI [of _ "go c (if m = 0 \<and> le \<noteq> None then PubDone 0 le else PubDone m None) st1"]) simp
qed

text \<open>The action of one call is delivered, and a second call that filters afterwards does not deliver it.\<close>

lemma publish_at_most_once_witness:
  "\<exists>st. (bus_step noop_Deliver)\<^sup>*\<^sup>* (bus_start DefaultConfig \<lparr>noop_Delivered = []\<rparr>) st \<and> br_Calls st = [PubDone 1 None, PubFilter [sample_action ''x'' 5]] \<and>
     (\<forall>st'. (bus_step noop_Deliver)\<^sup>*\<^sup>* st st' \<longrightarrow> ''x'' \<notin> set (acked st' 1))"
proof -
  let ?x = "sample_action ''x'' 5" and ?s0 = "bus_start DefaultConfig \<lparr>noop_Delivered = []\<rparr>"
  let ?s1 = "?s0\<lparr>br_Calls := [PubFilter [?x], PubFilter [?x]]\<rparr>"
  have "bus_step noop_Deliver ?s0 (?s0\<lparr>br_Calls := [PubFilter [?x]]\<rparr>)" using bus_step.publish [of noop_Deliver ?s0 "[?x]"] by (simp add: bus_start_def)
  moreover have "bus_step noop_Deliver (?s0\<lparr>br_Calls := [PubFilter [?x]]\<rparr>) ?s1"
    using bus_step.publish [of noop_Deliver "?s0\<lparr>br_Calls := [PubFilter [?x]]\<rparr>" "[?x]"] by simp
  moreover have p: "Publish noop_Deliver (sort_key fa_IssuedAt) (\<lambda>_ _. False) (\<lambda>_. 0) 9 [?x] (br_Bus ?s1) (Some (br_Endpoint ?s1)) =
      ((1, None), markDelivered ''x'' 0 (bus_New DefaultConfig), Some \<lparr>noop_Delivered = [?x]\<rparr>)"
    by (simp add: bus_start_def bus_New_def Publish_def filterValid_def filter_action_def sample_action_def isExpired_def
        deliverWithRetry_def DefaultConfig_def noop_Deliver_def numeral_3_eq_3)
  obtain st where st: "(bus_step noop_Deliver)\<^sup>*\<^sup>* ?s1 st" "br_Bus st = markDelivered ''x'' 0 (bus_New DefaultConfig)"
    "br_Calls st = [PubDone 1 None, PubFilter [?x]]"
    using Publish_steps [OF p sort_key_order, of 0] by auto
  ultimately have run: "(bus_step noop_Deliver)\<^sup>*\<^sup>* ?s0 st" by (meson converse_rtranclp_into_rtranclp)
  have "''x'' \<notin> set (acked st' 1)" if "(bus_step noop_Deliver)\<^sup>*\<^sup>* st st'" for st'
    using publish_at_most_once [OF run that, of 1] st by (simp add: markDelivered_def bus_New_def)
  then show ?thesis using run st(3) by blast
qed

theorem publish_delivers_all_witness:
  "\<exists>b f. Publish failing_Deliver (sort_key fa_IssuedAt) (\<lambda>_ _. False) (\<lambda>_. 0) 10
      [sample_action ''x'' 7, sample_action ''y'' 5] (bus_New DefaultConfig)
      (Some \<lparr>fail_FailCount = 2, fail_failed = 0, fail_Delivered = []\<rparr>) = ((2, None), b, Some f) \<and>
    mset (fail_Delivered f) = {#sample_action ''x'' 7, sample_action ''y'' 5#}"
  using publish_delivers_all [OF sort_key_order, of "\<lambda>_ _. False" 2 DefaultConfig "[sample_action ''x'' 7, sample_action ''y'' 5]" 10 "\<lambda>_. 0"]
  by (auto simp: DefaultConfig_def sample_action_def isExpired_def numeral_2_eq_2 ac_simps)

end
