(* ===== verification/Adapt_Predict.thy ===== *)
theory Adapt_Predict
  imports Adapt_Feedback Complex_Main
begin

text \<open>
  The drift predictor, \<open>mek/internal/adaptctl/predict/predictor.go\<close>: a forecast from a history of signals.
  The \<open>float64\<close> values of the code are rationals here: the arithmetic is exact, where the code rounds.
  The zero instant is 0, so \<open>IsZero\<close> is a comparison with 0.
\<close>

subsection \<open>Types\<close>

datatype Direction = Stable | Improving | Degrading

fun direction_name :: "Direction \<Rightarrow> string" where
  "direction_name Stable = ''STABLE''"
| "direction_name Improving = ''IMPROVING''"
| "direction_name Degrading = ''DEGRADING''"

record Factor =
  fac_Name :: string
  fac_Weight :: rat

record Prediction =
  pr_GeneratedAt :: int
  pr_Horizon :: int
  pr_Direction :: Direction
  pr_Confidence :: rat
  pr_State :: SigState
  pr_Probability :: rat
  pr_EarliestAt :: "int option"
  pr_SampleSize :: nat
  pr_Factors :: "Factor list"

subsection \<open>Rates\<close>

definition hours :: "int \<Rightarrow> rat" where
  "hours d = of_int d / of_int hour"

text \<open>The loop of \<open>computeRate\<close>: the count and the earliest instant.\<close>

definition rate_step :: "SigState \<Rightarrow> Signal \<Rightarrow> nat \<times> int \<Rightarrow> nat \<times> int" where
  "rate_step state s = (\<lambda>(cnt, earliest).
     if sig_State s = state
     then (cnt + 1, if earliest = 0 \<or> sig_Timestamp s < earliest then sig_Timestamp s else earliest)
     else (cnt, earliest))"

definition computeRate :: "Signal list \<Rightarrow> SigState \<Rightarrow> int \<Rightarrow> rat" where
  "computeRate history state now =
     (case fold (rate_step state) history (0, 0) of
        (cnt, earliest) \<Rightarrow>
          if cnt = 0 then 0
          else (let window = hours (now - earliest);
                    window' = (if window < 1 / 100 then 1 / 100 else window)
                in of_nat cnt / window'))"

definition directionFromRate :: "rat \<Rightarrow> Signal list \<Rightarrow> SigState \<Rightarrow> int \<Rightarrow> Direction" where
  "directionFromRate currentRate history state now =
     (if length history < 2 then Stable
      else
        (let mid = length history div 2;
             recentRate = computeRate (drop mid history) state now;
             oldRate = computeRate (take mid history) state now;
             delta = recentRate - oldRate
         in if delta > 5 / 100 then Degrading
            else if delta < - (5 / 100) then Improving
            else Stable))"

definition min_rat :: "rat \<Rightarrow> rat \<Rightarrow> rat" where
  "min_rat a b = (if a < b then a else b)"

fun max_from :: "rat \<Rightarrow> rat list \<Rightarrow> rat" where
  "max_from m [] = m"
| "max_from m (v # vals) = max_from (if v > m then v else m) vals"

fun max_rats :: "rat list \<Rightarrow> rat" where
  "max_rats [] = 0"
| "max_rats (v # vals) = max_from v vals"

definition confidenceFromSample :: "nat \<Rightarrow> rat" where
  "confidenceFromSample n =
     (if n \<le> 1 then 1 / 10 else if n \<ge> 100 then 1 else min_rat 1 (of_nat n / 100))"

subsection \<open>Prediction\<close>

definition blank_prediction :: "Signal list \<Rightarrow> int \<Rightarrow> int \<Rightarrow> Prediction" where
  "blank_prediction history horizon now =
     \<lparr>pr_GeneratedAt = now, pr_Horizon = horizon, pr_Direction = Stable, pr_Confidence = 0,
      pr_State = StateUnknown '''', pr_Probability = 0, pr_EarliestAt = None, pr_SampleSize = length history, pr_Factors = []\<rparr>"

definition certain :: "SigState \<Rightarrow> string \<Rightarrow> rat \<Rightarrow> Prediction \<Rightarrow> Prediction" where
  "certain state name rate p =
     p\<lparr>pr_State := state, pr_Probability := 1, pr_Direction := Degrading, pr_Confidence := 1,
       pr_Factors := pr_Factors p @ [\<lparr>fac_Name = name, fac_Weight = rate\<rparr>]\<rparr>"

definition predict_replay :: "Signal list \<Rightarrow> int \<Rightarrow> int \<Rightarrow> rat \<Rightarrow> Prediction \<Rightarrow> Prediction" where
  "predict_replay history horizon now replayRate p =
     (let horizonFactor = (if hours horizon < 1 / 100 then 1 / 100 else hours horizon);
          prob0 = replayRate * horizonFactor;
          prob = (if prob0 > 1 then 1 else prob0)
      in p\<lparr>pr_State := StateReplayDivergence, pr_Probability := prob,
           pr_Direction := directionFromRate replayRate history StateReplayDivergence now,
           pr_Confidence := confidenceFromSample (pr_SampleSize p),
           pr_Factors := pr_Factors p @ [\<lparr>fac_Name = ''replay_divergence_rate'', fac_Weight = replayRate\<rparr>],
           pr_EarliestAt := (if prob \<ge> 1 / 2 then Some (now + \<lfloor>1 / prob\<rfloor> * second) else pr_EarliestAt p)\<rparr>)"

definition predict_drift :: "Signal list \<Rightarrow> int \<Rightarrow> int \<Rightarrow> rat \<Rightarrow> Prediction \<Rightarrow> Prediction" where
  "predict_drift history horizon now driftRate p =
     (let driftDir = directionFromRate driftRate history StateDriftDetected now;
          factors = pr_Factors p @ [\<lparr>fac_Name = ''drift_rate'', fac_Weight = driftRate\<rparr>];
          lastIsAllPass = (length history > 0 \<and> sig_State (last history) = StateAllPass)
      in if driftDir = Improving \<and> lastIsAllPass
         then (let prob = 1 - driftRate * hours horizon * (1 / 10)
               in p\<lparr>pr_State := StateAllPass, pr_Direction := Improving,
                    pr_Confidence := confidenceFromSample (pr_SampleSize p),
                    pr_Probability := (if prob < 1 / 2 then 1 / 2 else prob), pr_Factors := factors\<rparr>)
         else p\<lparr>pr_State := StateDriftDetected, pr_Direction := driftDir,
                pr_Confidence := confidenceFromSample (pr_SampleSize p),
                pr_Probability := (if driftDir = Degrading then min_rat 1 (driftRate * hours horizon * 2)
                                   else driftRate * hours horizon),
                pr_Factors := factors\<rparr>)"

definition predict_partial :: "Signal list \<Rightarrow> int \<Rightarrow> int \<Rightarrow> rat \<Rightarrow> Prediction \<Rightarrow> Prediction" where
  "predict_partial history horizon now partialFailRate p =
     p\<lparr>pr_State := StatePartialFail,
       pr_Direction := directionFromRate partialFailRate history StatePartialFail now,
       pr_Confidence := confidenceFromSample (pr_SampleSize p),
       pr_Probability := partialFailRate * hours horizon,
       pr_Factors := pr_Factors p @ [\<lparr>fac_Name = ''partial_fail_rate'', fac_Weight = partialFailRate\<rparr>]\<rparr>"

definition Predict :: "Signal list \<Rightarrow> int \<Rightarrow> int \<Rightarrow> Prediction" where
  "Predict history horizon now =
     (let p = blank_prediction history horizon now
      in if length history = 0
         then p\<lparr>pr_Direction := Stable, pr_Confidence := 0, pr_State := StateAllPass, pr_Probability := 1 / 2\<rparr>
         else
           (let replayRate = computeRate history StateReplayDivergence now;
                structFailRate = computeRate history StateStructuralFail now;
                driftRate = computeRate history StateDriftDetected now;
                partialFailRate = computeRate history StatePartialFail now;
                consistencyFailRate = computeRate history StateConsistencyFail now
            in if structFailRate > 0 then certain StateStructuralFail ''structural_fail_rate'' structFailRate p
               else if consistencyFailRate > 0
               then certain StateConsistencyFail ''consistency_fail_rate'' consistencyFailRate p
               else if replayRate > 0 then predict_replay history horizon now replayRate p
               else if driftRate > 0 then predict_drift history horizon now driftRate p
               else if partialFailRate > 0 then predict_partial history horizon now partialFailRate p
               else p\<lparr>pr_State := StateAllPass,
                      pr_Probability := 1 - max_rats [replayRate, structFailRate, driftRate, partialFailRate, consistencyFailRate],
                      pr_Direction := Stable, pr_Confidence := confidenceFromSample (pr_SampleSize p)\<rparr>))"

subsection \<open>Lemmas\<close>

lemma rate_count: "fst (fold (rate_step state) history (n, e)) = n + length (filter (\<lambda>s. sig_State s = state) history)"
  by (induction history arbitrary: n e) (auto simp: rate_step_def split: prod.splits)

text \<open>A rate is never negative, and positive exactly when the state occurs.\<close>

lemma computeRate_pos:
  "computeRate history state now \<ge> 0"
  "computeRate history state now > 0 \<longleftrightarrow> (\<exists>s \<in> set history. sig_State s = state)"
proof -
  obtain n e where f: "fold (rate_step state) history (0, 0) = (n, e)" by fastforce
  have n: "n = length (filter (\<lambda>s. sig_State s = state) history)" using rate_count [of state history 0 0] f by simp
  have w: "0 < (if hours (now - e) < 1 / 100 then 1 / 100 else hours (now - e))"
    by (simp add: not_less)
  show "computeRate history state now \<ge> 0" using w by (simp add: computeRate_def f Let_def)
  show "computeRate history state now > 0 \<longleftrightarrow> (\<exists>s \<in> set history. sig_State s = state)"
    using w n by (auto simp: computeRate_def f Let_def filter_empty_conv)
qed

lemma Predict_cases:
  assumes "history \<noteq> []"
  defines "occurs \<equiv> \<lambda>state. \<exists>s \<in> set history. sig_State s = state"
  shows "pr_State (Predict history horizon now) =
    (if occurs StateStructuralFail then StateStructuralFail
     else if occurs StateConsistencyFail then StateConsistencyFail
     else if occurs StateReplayDivergence then StateReplayDivergence
     else if occurs StateDriftDetected
     then (if directionFromRate (computeRate history StateDriftDetected now) history StateDriftDetected now = Improving \<and>
              sig_State (last history) = StateAllPass then StateAllPass else StateDriftDetected)
     else if occurs StatePartialFail then StatePartialFail else StateAllPass)"
  using assms(1) computeRate_pos(2) [of history _ now]
  by (simp add: Predict_def Let_def occurs_def certain_def predict_replay_def predict_drift_def predict_partial_def)

lemma confidence_bounds: "0 \<le> confidenceFromSample n \<and> confidenceFromSample n \<le> 1"
  by (simp add: confidenceFromSample_def min_rat_def)

lemma computeRate_none: "(\<forall>s \<in> set history. sig_State s \<noteq> state) \<Longrightarrow> computeRate history state now = 0"
  using computeRate_pos [of history state now] by force

subsection \<open>Properties\<close>

text \<open>The forecast goes by the worst state the history has ever held: a structural failure is forecast for
  ever (with certainty), whatever came after it, then a consistency failure, a replay divergence, a drift
  (unless it improves and the last signal passed) and a partial failure.\<close>

theorem Predict_worst_state:
  assumes "s \<in> set history" and "sig_State s = StateStructuralFail \<or> sig_State s = StateConsistencyFail"
  shows "pr_Probability (Predict history horizon now) = 1 \<and> pr_Direction (Predict history horizon now) = Degrading \<and>
    pr_State (Predict history horizon now) =
      (if \<exists>s \<in> set history. sig_State s = StateStructuralFail then StateStructuralFail else StateConsistencyFail)"
proof -
  have "history \<noteq> []" using assms(1) by auto
  moreover have "computeRate history StateStructuralFail now > 0 \<or> computeRate history StateConsistencyFail now > 0"
    using assms computeRate_pos(2) by blast
  ultimately show ?thesis
    using computeRate_pos(2) [of history _ now] by (auto simp: Predict_def Let_def certain_def)
qed

text \<open>Bounds: with a horizon that is not negative the confidence is between 0 and 1, and so is the
  probability, except for a forecast of partial failures or of a drift that does not degrade.\<close>

theorem Predict_bounds:
  assumes "0 \<le> horizon"
    and "pr_State (Predict history horizon now) \<noteq> StatePartialFail"
    and "pr_State (Predict history horizon now) = StateDriftDetected \<longrightarrow> pr_Direction (Predict history horizon now) = Degrading"
  shows "0 \<le> pr_Probability (Predict history horizon now) \<and> pr_Probability (Predict history horizon now) \<le> 1 \<and>
    0 \<le> pr_Confidence (Predict history horizon now) \<and> pr_Confidence (Predict history horizon now) \<le> 1"
proof (cases "history = []")
  case True
  then show ?thesis by (simp add: Predict_def Let_def blank_prediction_def)
next
  case False
  have h: "0 \<le> hours horizon" using assms(1) by (simp add: hours_def hour_def minute_def second_def)
  note pos = computeRate_pos(1) [of history _ now]
  have re: "0 \<le> pr_Probability (predict_replay history horizon now r p) \<and> pr_Probability (predict_replay history horizon now r p) \<le> 1 \<and>
      0 \<le> pr_Confidence (predict_replay history horizon now r p) \<and> pr_Confidence (predict_replay history horizon now r p) \<le> 1"
    if "0 \<le> r" for r p
    using that h confidence_bounds by (simp add: predict_replay_def Let_def)
  have dr: "0 \<le> pr_Probability (predict_drift history horizon now r p) \<and> pr_Probability (predict_drift history horizon now r p) \<le> 1 \<and>
      0 \<le> pr_Confidence (predict_drift history horizon now r p) \<and> pr_Confidence (predict_drift history horizon now r p) \<le> 1"
    if "0 \<le> r" "pr_State (predict_drift history horizon now r p) = StateDriftDetected \<longrightarrow>
      pr_Direction (predict_drift history horizon now r p) = Degrading" for r p
    using that h confidence_bounds mult_nonneg_nonneg [OF that(1) h]
    by (auto simp: predict_drift_def Let_def min_rat_def split: if_splits)
  let ?r = "\<lambda>state. computeRate history state now" and ?p = "blank_prediction history horizon now"
  have z: "?r state = 0" if "\<not> ?r state > 0" for state using pos [of state] that by simp
  consider (struct) "?r StateStructuralFail > 0"
    | (cons) "\<not> ?r StateStructuralFail > 0" "?r StateConsistencyFail > 0"
    | (replay) "\<not> ?r StateStructuralFail > 0" "\<not> ?r StateConsistencyFail > 0" "?r StateReplayDivergence > 0"
    | (drift) "\<not> ?r StateStructuralFail > 0" "\<not> ?r StateConsistencyFail > 0" "\<not> ?r StateReplayDivergence > 0"
        "?r StateDriftDetected > 0"
    | (partial) "\<not> ?r StateStructuralFail > 0" "\<not> ?r StateConsistencyFail > 0" "\<not> ?r StateReplayDivergence > 0"
        "\<not> ?r StateDriftDetected > 0" "?r StatePartialFail > 0"
    | (none) "\<not> ?r StateStructuralFail > 0" "\<not> ?r StateConsistencyFail > 0" "\<not> ?r StateReplayDivergence > 0"
        "\<not> ?r StateDriftDetected > 0" "\<not> ?r StatePartialFail > 0"
    by blast
  then show ?thesis
  proof cases
    case struct
    with False show ?thesis by (simp add: Predict_def Let_def certain_def)
  next
    case cons
    with False show ?thesis by (simp add: Predict_def Let_def certain_def)
  next
    case replay
    with False have "Predict history horizon now = predict_replay history horizon now (?r StateReplayDivergence) ?p"
      by (simp add: Predict_def Let_def)
    with re [OF pos] show ?thesis by simp
  next
    case drift
    with False have "Predict history horizon now = predict_drift history horizon now (?r StateDriftDetected) ?p"
      by (simp add: Predict_def Let_def)
    with dr [OF pos] assms(3) show ?thesis by simp
  next
    case partial
    with False have "Predict history horizon now = predict_partial history horizon now (?r StatePartialFail) ?p"
      by (simp add: Predict_def Let_def)
    with assms(2) show ?thesis by (simp add: predict_partial_def)
  next
    case none
    with False z confidence_bounds show ?thesis by (simp add: Predict_def Let_def)
  qed
qed

text \<open>Outside those cases the probability has no bound: one partial failure a moment ago, with a horizon of
  one hour, is forecast with the probability 100.\<close>

theorem partial_probability_unbounded:
  "pr_Probability (Predict [(signal_New (''120000'', 5) ''e'' ''p'' ''h'')\<lparr>sig_State := StatePartialFail\<rparr>] hour 5) = 100"
  by (simp add: Predict_def Let_def computeRate_def rate_step_def signal_New_def predict_partial_def hours_def
      hour_def minute_def second_def)

text \<open>The rate of a steady stretch: its length over the time since its start.\<close>

lemma rate_steady:
  assumes "\<forall>s \<in> set xs. sig_State s = state \<and> sig_Timestamp s > 0" and "sorted (map sig_Timestamp xs)" and "xs \<noteq> []"
  shows "computeRate xs state now = of_nat (length xs) / max (1 / 100) (hours (now - sig_Timestamp (hd xs)))"
proof -
  have "fold (rate_step state) ys (k, e) = (k + length ys, e)"
    if "\<forall>s \<in> set ys. sig_State s = state \<and> e \<le> sig_Timestamp s" "e > 0" for ys k e
    using that by (induction ys arbitrary: k) (auto simp: rate_step_def)
  moreover obtain x ys where xs: "xs = x # ys" using assms(3) by (cases xs) auto
  ultimately have "fold (rate_step state) xs (0, 0) = (length xs, sig_Timestamp (hd xs))"
    using assms(1,2) by (auto simp: rate_step_def)
  then show ?thesis using assms(3) by (simp add: computeRate_def Let_def max_def)
qed

text \<open>A steady stream never improves: the older half of a history is measured over the whole time up to now,
  so a history in which one state occurs throughout, however rare its last occurrences, is never reported
  as improving.\<close>

theorem steady_never_improves:
  assumes "\<forall>s \<in> set history. sig_State s = state \<and> sig_Timestamp s > 0" and "sorted (map sig_Timestamp history)"
  shows "directionFromRate rate history state now \<noteq> Improving"
proof (cases "length history < 2")
  case True
  then show ?thesis by (simp add: directionFromRate_def)
next
  case False
  define k where "k = length history div 2"
  have k: "0 < k" "k < length history" "k \<le> length history - k" using False by (simp_all add: k_def)
  let ?old = "take k history" and ?new = "drop k history"
  have ne: "?old \<noteq> []" "?new \<noteq> []" using k by auto
  have all: "\<forall>s \<in> set ?old. sig_State s = state \<and> sig_Timestamp s > 0" "\<forall>s \<in> set ?new. sig_State s = state \<and> sig_Timestamp s > 0"
    using assms(1) by (auto dest: in_set_takeD in_set_dropD)
  have sorted: "sorted (map sig_Timestamp ?old)" "sorted (map sig_Timestamp ?new)"
    using assms(2) by (simp_all add: take_map [symmetric] drop_map [symmetric] sorted_wrt_take sorted_wrt_drop)
  have "sig_Timestamp (hd ?old) \<le> sig_Timestamp (hd ?new)"
    using assms(2) k ne by (simp add: hd_drop_conv_nth hd_conv_nth sorted_iff_nth_mono)
  then have w: "max (1 / 100) (hours (now - sig_Timestamp (hd ?new))) \<le> max (1 / 100) (hours (now - sig_Timestamp (hd ?old)))"
    by (intro max.mono) (simp_all add: hours_def hour_def minute_def second_def divide_right_mono)
  have "computeRate ?old state now \<le> computeRate ?new state now"
    unfolding rate_steady [OF all(1) sorted(1) ne(1)] rate_steady [OF all(2) sorted(2) ne(2)]
    using w k by (intro frac_le) (simp_all add: less_max_iff_disj)
  then show ?thesis by (simp add: directionFromRate_def Let_def k_def)
qed

subsection \<open>Witnesses\<close>

theorem Predict_worst_state_witness:
  "pr_State (Predict [sample_signal StateStructuralFail 5, sample_signal StateAllPass 6] hour 10) = StateStructuralFail"
  using Predict_worst_state [of "sample_signal StateStructuralFail 5"
      "[sample_signal StateStructuralFail 5, sample_signal StateAllPass 6]" hour 10]
  by (simp add: sample_signal_def)

theorem Predict_bounds_witness:
  "pr_Probability (Predict [sample_signal StateReplayDivergence 5] hour 10) \<le> 1"
proof -
  have "pr_State (Predict [sample_signal StateReplayDivergence 5] hour 10) = StateReplayDivergence"
    by (subst Predict_cases) (simp_all add: sample_signal_def)
  then show ?thesis
    using Predict_bounds [of hour "[sample_signal StateReplayDivergence 5]" 10] by (simp add: hour_def minute_def second_def)
qed

theorem steady_never_improves_witness:
  "directionFromRate 1 [sample_signal StateDriftDetected 5, sample_signal StateDriftDetected 6] StateDriftDetected 10 \<noteq> Improving"
  using steady_never_improves [of "[sample_signal StateDriftDetected 5, sample_signal StateDriftDetected 6]" StateDriftDetected 1 10]
  by (simp add: sample_signal_def signal_New_def)

end
