(* ===== verification/Run_Types.thy ===== *)
theory Run_Types
  imports Go_Base
begin

text \<open>
  The data of the MCP kernel, \<open>runtime/types\<close>: the request context with its trace (\<open>context.go\<close>), the raw
  requests, tools and results (\<open>request.go\<close>) and the kernel events (\<open>event.go\<close>). A pointer to a context is
  the context, returned updated. Instants are nanoseconds, \<open>float64\<close> is rational, and the JSON payload of an
  event is the value that is encoded.
\<close>

subsection \<open>Requests, tools, results\<close>

record RequestParams =
  rp_Tool :: string
  rp_Capability :: string
  rp_Arguments :: "(string, any) gomap"

record SessionData =
  sd_SessionID :: string
  sd_ProjectID :: string
  sd_UserID :: string

record RawRequest =
  raw_ID :: string
  raw_Method :: string
  raw_PipelineMode :: string
  raw_Params :: RequestParams
  raw_Session :: SessionData

record ToolGovernance =
  tg_RequireSession :: bool
  tg_AuditLevel :: string
  tg_TimeoutMs :: int

record ToolDef =
  td_ID :: string
  td_Name :: string
  td_Type :: string
  td_Version :: string
  td_Description :: string
  td_Capabilities :: "string list"
  td_Governance :: ToolGovernance
  td_Protocol :: string

record ExecResult =
  xr_Status :: string
  xr_Result :: any
  xr_Error :: string
  xr_ErrorCode :: string
  xr_ErrorTrace :: string
  xr_DurationMs :: rat

subsection \<open>The request context\<close>

datatype ContextStatus = CtxPending | CtxSuccess | CtxError | CtxDenied

datatype StageDecision = DecisionAllow | DecisionDeny | DecisionSkip

definition StrictMode :: string where "StrictMode = ''strict''"
definition OptimizedMode :: string where "OptimizedMode = ''optimized''"

record LatencyBreakdown =
  lb_TotalMs :: rat
  lb_QueueWaitMs :: rat
  lb_RoutingMs :: rat
  lb_ExecutionMs :: rat
  lb_AuditMs :: rat
  lb_ValidationMs :: rat

definition no_latency :: LatencyBreakdown where
  "no_latency = \<lparr>lb_TotalMs = 0, lb_QueueWaitMs = 0, lb_RoutingMs = 0, lb_ExecutionMs = 0, lb_AuditMs = 0,
     lb_ValidationMs = 0\<rparr>"

record StageResult =
  sr_Stage :: string
  sr_Decision :: StageDecision
  sr_DurationMs :: rat
  sr_Detail :: "(string, any) gomap"
  sr_Error :: string
  sr_Timestamp :: int

record PolicyDecision =
  pd_RuleID :: string
  pd_Decision :: string
  pd_Reason :: string
  pd_Stage :: string
  pd_Priority :: int

record PolicyVerdict =
  pv_Decision :: string
  pv_Reason :: string
  pv_RuleID :: string
  pv_RuleChain :: "PolicyDecision list"
  pv_Timestamp :: int

record RequestContext =
  rc_RequestID :: string
  rc_SessionID :: string
  rc_ProjectID :: string
  rc_ToolID :: string
  rc_Capability :: string
  rc_Arguments :: "(string, any) gomap"
  rc_Status :: ContextStatus
  rc_ExecutionTrace :: "StageResult list"
  rc_DecisionPath :: "string list"
  rc_StageTimings :: "(string, rat) gomap"
  rc_WorkerID :: string
  rc_QueueWaitTimeMs :: rat
  rc_PipelineMode :: string
  rc_LatencyBreakdown :: LatencyBreakdown
  rc_PolicyGraph :: "PolicyDecision list"
  rc_TimestampStart :: int
  rc_TimestampEnd :: int
  rc_Result :: any
  rc_Error :: string
  rc_ErrorCode :: string

definition NewRequestContext ::
  "int \<Rightarrow> string \<Rightarrow> string \<Rightarrow> string \<Rightarrow> string \<Rightarrow> (string, any) gomap \<Rightarrow> string \<Rightarrow> RequestContext" where
  "NewRequestContext now requestID sessionID projectID toolID args mode =
     \<lparr>rc_RequestID = requestID, rc_SessionID = sessionID, rc_ProjectID = projectID, rc_ToolID = toolID,
      rc_Capability = [], rc_Arguments = args, rc_Status = CtxPending, rc_ExecutionTrace = [], rc_DecisionPath = [],
      rc_StageTimings = [], rc_WorkerID = [], rc_QueueWaitTimeMs = 0,
      rc_PipelineMode = (if mode \<noteq> StrictMode \<and> mode \<noteq> OptimizedMode then StrictMode else mode),
      rc_LatencyBreakdown = no_latency, rc_PolicyGraph = [], rc_TimestampStart = now, rc_TimestampEnd = 0,
      rc_Result = AnyNil, rc_Error = [], rc_ErrorCode = []\<rparr>"

definition AppendTrace :: "StageResult \<Rightarrow> RequestContext \<Rightarrow> RequestContext" where
  "AppendTrace sr rc = rc
     \<lparr>rc_ExecutionTrace := rc_ExecutionTrace rc @ [sr], rc_DecisionPath := rc_DecisionPath rc @ [sr_Stage sr],
      rc_StageTimings := gm_put (sr_Stage sr) (sr_DurationMs sr) (rc_StageTimings rc)\<rparr>"

definition Finalize :: "int \<Rightarrow> ContextStatus \<Rightarrow> string \<Rightarrow> string \<Rightarrow> RequestContext \<Rightarrow> RequestContext" where
  "Finalize now status err errCode rc = rc
     \<lparr>rc_Status := status, rc_Error := err, rc_ErrorCode := errCode, rc_TimestampEnd := now\<rparr>"

definition WasDenied :: "RequestContext \<Rightarrow> bool" where
  "WasDenied rc \<longleftrightarrow> (\<exists>tr \<in> set (rc_ExecutionTrace rc). sr_Decision tr = DecisionDeny)"

text \<open>\<open>float64(d.Microseconds()) / 1000.0\<close> of a duration; \<open>Microseconds\<close> truncates towards zero.\<close>

definition micros_ms :: "int \<Rightarrow> rat" where
  "micros_ms d = of_int (if d < 0 then - ((- d) div 1000) else d div 1000) / 1000"

subsection \<open>Kernel events\<close>

datatype EventType = EventRequestIngress | EventQueueEnqueue | EventQueueDequeue | EventQueueReject
  | EventPolicyEval | EventPolicyDenial | EventToolExecution | EventToolTimeout | EventToolError
  | EventStateCommit | EventResponseEmit | EventWorkerPanic | EventKernelStart | EventKernelStop

record KernelEvent =
  ke_EventID :: string
  ke_Type :: EventType
  ke_Timestamp :: int
  ke_RequestID :: string
  ke_WorkerID :: string
  ke_Payload :: any
  ke_TraceID :: string

text \<open>\<open>time.Now().UnixNano()\<close> of an instant counted from the zero time.\<close>

definition NewKernelEvent :: "int \<Rightarrow> EventType \<Rightarrow> string \<Rightarrow> string \<Rightarrow> any \<Rightarrow> KernelEvent" where
  "NewKernelEvent now eventType requestID workerID payload =
     \<lparr>ke_EventID = ''evt_'' @ int_digits (now - unix_epoch), ke_Type = eventType, ke_Timestamp = now,
      ke_RequestID = requestID, ke_WorkerID = workerID, ke_Payload = payload, ke_TraceID = requestID\<rparr>"

definition BuildRejectionEvent :: "string \<Rightarrow> KernelEvent" where
  "BuildRejectionEvent requestID =
     \<lparr>ke_EventID = ''evt_reject_'' @ requestID, ke_Type = EventQueueReject, ke_Timestamp = 0,
      ke_RequestID = requestID, ke_WorkerID = [], ke_Payload = AnyMap [(''reason'', AnyString ''BACKPRESSURE_LIMIT'')],
      ke_TraceID = requestID\<rparr>"

lemma NewRequestContext_simps [simp]:
  "rc_RequestID (NewRequestContext now i s p t a m) = i" "rc_SessionID (NewRequestContext now i s p t a m) = s"
  "rc_ProjectID (NewRequestContext now i s p t a m) = p" "rc_ToolID (NewRequestContext now i s p t a m) = t"
  "rc_Arguments (NewRequestContext now i s p t a m) = a" "rc_Status (NewRequestContext now i s p t a m) = CtxPending"
  "rc_ExecutionTrace (NewRequestContext now i s p t a m) = []" "rc_DecisionPath (NewRequestContext now i s p t a m) = []"
  "rc_StageTimings (NewRequestContext now i s p t a m) = []" "rc_PolicyGraph (NewRequestContext now i s p t a m) = []"
  by (simp_all add: NewRequestContext_def)

lemma AppendTrace_simps [simp]:
  "rc_ExecutionTrace (AppendTrace sr rc) = rc_ExecutionTrace rc @ [sr]"
  "rc_DecisionPath (AppendTrace sr rc) = rc_DecisionPath rc @ [sr_Stage sr]"
  "rc_StageTimings (AppendTrace sr rc) = gm_put (sr_Stage sr) (sr_DurationMs sr) (rc_StageTimings rc)"
  "rc_RequestID (AppendTrace sr rc) = rc_RequestID rc" "rc_SessionID (AppendTrace sr rc) = rc_SessionID rc"
  "rc_ProjectID (AppendTrace sr rc) = rc_ProjectID rc" "rc_ToolID (AppendTrace sr rc) = rc_ToolID rc"
  "rc_Arguments (AppendTrace sr rc) = rc_Arguments rc" "rc_Status (AppendTrace sr rc) = rc_Status rc"
  "rc_PolicyGraph (AppendTrace sr rc) = rc_PolicyGraph rc" "rc_Error (AppendTrace sr rc) = rc_Error rc"
  "rc_ErrorCode (AppendTrace sr rc) = rc_ErrorCode rc" "rc_Result (AppendTrace sr rc) = rc_Result rc"
  by (simp_all add: AppendTrace_def)

lemma Finalize_simps [simp]:
  "rc_Status (Finalize now st e c rc) = st" "rc_Error (Finalize now st e c rc) = e"
  "rc_ErrorCode (Finalize now st e c rc) = c" "rc_ExecutionTrace (Finalize now st e c rc) = rc_ExecutionTrace rc"
  "rc_DecisionPath (Finalize now st e c rc) = rc_DecisionPath rc" "rc_Result (Finalize now st e c rc) = rc_Result rc"
  "rc_RequestID (Finalize now st e c rc) = rc_RequestID rc" "rc_SessionID (Finalize now st e c rc) = rc_SessionID rc"
  "rc_ProjectID (Finalize now st e c rc) = rc_ProjectID rc" "rc_ToolID (Finalize now st e c rc) = rc_ToolID rc"
  "rc_StageTimings (Finalize now st e c rc) = rc_StageTimings rc" "rc_PolicyGraph (Finalize now st e c rc) = rc_PolicyGraph rc"
  by (simp_all add: Finalize_def)

end
