(* ===== verification/Run_Contracts.thy ===== *)
theory Run_Contracts
  imports Run_Types
begin

text \<open>
  The contracts of the MCP tool adapters: requests and responses (\<open>runtime/mcp/types\<close>) and, of
  \<open>runtime/mcp/contracts\<close>, the circuit breaker, the retry budget, the retry, timeout and fallback adapters
  and the backpressure counters.

  An adapter is a function of the request and of a state that returns or panics. The context carries the
  retry budget, a pointer: it is part of the state. What the environment decides (clock readings,
  whether a deadline comes first, random numbers) is an argument. The mutex of the breaker is
  released while the inner adapter runs: \<open>cb_enter\<close> and \<open>cb_record\<close> are the two critical sections, and \<open>cb_step\<close>
  interleaves the calls of several clients.
\<close>

subsection \<open>Requests and responses\<close>

record MCPRequest =
  mr_ID :: string
  mr_SessionID :: string
  mr_ProjectID :: string
  mr_Tool :: string
  mr_Action :: string
  mr_Payload :: "(string, any) gomap"
  mr_Timestamp :: int

record MCPResponse =
  ms_ID :: string
  ms_Success :: bool
  ms_Data :: any
  ms_Error :: string
  ms_TraceID :: string
  ms_LatencyMS :: int
  ms_Timestamp :: int

definition NewRequest :: "int \<Rightarrow> string \<Rightarrow> string \<Rightarrow> string \<Rightarrow> string \<Rightarrow> string \<Rightarrow> (string, any) gomap \<Rightarrow> MCPRequest" where
  "NewRequest now i sessionID projectID tool action payload =
     \<lparr>mr_ID = i, mr_SessionID = sessionID, mr_ProjectID = projectID, mr_Tool = tool, mr_Action = action,
      mr_Payload = payload, mr_Timestamp = UnixMilli now\<rparr>"

definition NewResponse :: "int \<Rightarrow> string \<Rightarrow> string \<Rightarrow> bool \<Rightarrow> any \<Rightarrow> string \<Rightarrow> int \<Rightarrow> MCPResponse" where
  "NewResponse now i traceID success data err latencyMS =
     \<lparr>ms_ID = i, ms_Success = success, ms_Data = data, ms_Error = err, ms_TraceID = traceID,
      ms_LatencyMS = latencyMS, ms_Timestamp = UnixMilli now\<rparr>"

text \<open>The literal \<open>MCPResponse{ID: i, Success: false, Error: e}\<close> and its successful counterpart.\<close>

definition failure :: "string \<Rightarrow> string \<Rightarrow> MCPResponse" where
  "failure i e = \<lparr>ms_ID = i, ms_Success = False, ms_Data = AnyNil, ms_Error = e, ms_TraceID = [], ms_LatencyMS = 0,
     ms_Timestamp = 0\<rparr>"

definition success :: "string \<Rightarrow> any \<Rightarrow> MCPResponse" where
  "success i d = \<lparr>ms_ID = i, ms_Success = True, ms_Data = d, ms_Error = [], ms_TraceID = [], ms_LatencyMS = 0,
     ms_Timestamp = 0\<rparr>"

lemma response_simps [simp]:
  "ms_ID (failure i e) = i" "\<not> ms_Success (failure i e)" "ms_Error (failure i e) = e"
  "ms_ID (success i d) = i" "ms_Success (success i d)" "ms_Data (success i d) = d"
  "ms_ID (NewResponse now i t ok d e l) = i" "ms_Success (NewResponse now i t ok d e l) = ok"
  "ms_Error (NewResponse now i t ok d e l) = e" "ms_Data (NewResponse now i t ok d e l) = d"
  by (simp_all add: failure_def success_def NewResponse_def)

datatype outcome = Returns MCPResponse "string option" | Panics string

type_synonym 's adapter = "MCPRequest \<Rightarrow> 's \<Rightarrow> outcome \<times> 's"

definition ok :: "outcome \<Rightarrow> bool" where
  "ok r = (case r of Returns resp err \<Rightarrow> err = None \<and> ms_Success resp | Panics _ \<Rightarrow> False)"

text \<open>What every adapter promises: a response carries the identifier of its request.\<close>

locale answering =
  fixes exec :: "'s adapter"
  assumes exec_ID: "exec req s = (Returns resp err, s') \<Longrightarrow> ms_ID resp = mr_ID req"

subsection \<open>Circuit breaker\<close>

datatype CircuitState = StateClosed | StateHalfOpen | StateOpen

fun circuit_text :: "CircuitState \<Rightarrow> string" where
  "circuit_text StateClosed = ''CLOSED''"
| "circuit_text StateHalfOpen = ''HALF_OPEN''"
| "circuit_text StateOpen = ''OPEN''"

record CircuitBreakerConfig =
  cc_FailureThreshold :: int
  cc_LatencyThreshold :: int
  cc_RecoveryTimeout :: int
  cc_HalfOpenMaxRequests :: int

definition DefaultCircuitBreakerConfig :: CircuitBreakerConfig where
  "DefaultCircuitBreakerConfig =
     \<lparr>cc_FailureThreshold = 5, cc_LatencyThreshold = 5 * second, cc_RecoveryTimeout = 30 * second,
      cc_HalfOpenMaxRequests = 3\<rparr>"

record CircuitBreaker =
  cb_state :: CircuitState
  cb_consecutiveFail :: int
  cb_lastFailureTime :: int
  cb_halfOpenSent :: int
  cb_config :: CircuitBreakerConfig
  cb_inner :: string
  cb_latencyThreshold :: int

text \<open>\<open>inner\<close> is the name of the inner adapter.\<close>

definition NewCircuitBreaker :: "string \<Rightarrow> CircuitBreakerConfig \<Rightarrow> CircuitBreaker" where
  "NewCircuitBreaker inner conf =
     (let conf = conf
        \<lparr>cc_FailureThreshold := (if cc_FailureThreshold conf \<le> 0 then 5 else cc_FailureThreshold conf),
         cc_LatencyThreshold := (if cc_LatencyThreshold conf \<le> 0 then 5 * second else cc_LatencyThreshold conf),
         cc_RecoveryTimeout := (if cc_RecoveryTimeout conf \<le> 0 then 30 * second else cc_RecoveryTimeout conf),
         cc_HalfOpenMaxRequests := (if cc_HalfOpenMaxRequests conf \<le> 0 then 3 else cc_HalfOpenMaxRequests conf)\<rparr>
      in \<lparr>cb_state = StateClosed, cb_consecutiveFail = 0, cb_lastFailureTime = 0, cb_halfOpenSent = 0,
          cb_config = conf, cb_inner = inner, cb_latencyThreshold = cc_LatencyThreshold conf\<rparr>)"

definition cb_Name :: "CircuitBreaker \<Rightarrow> string" where
  "cb_Name cb = ''circuit_breaker:'' @ cb_inner cb"

text \<open>The first critical section of \<open>Execute\<close>, at the instant \<open>now\<close>: a rejection, or the go-ahead.\<close>

definition cb_enter :: "int \<Rightarrow> MCPRequest \<Rightarrow> CircuitBreaker \<Rightarrow> (MCPResponse \<times> string) option \<times> CircuitBreaker" where
  "cb_enter now req cb =
     (if cb_state cb = StateOpen \<and> \<not> now - cb_lastFailureTime cb > cc_RecoveryTimeout (cb_config cb)
      then (Some (failure (mr_ID req) (''CIRCUIT_OPEN: '' @ cb_inner cb @ '' is degraded, rejecting''),
                  ''circuit breaker open for '' @ cb_inner cb), cb)
      else
        let cb1 = (if cb_state cb = StateOpen then cb\<lparr>cb_state := StateHalfOpen, cb_halfOpenSent := 0\<rparr> else cb)
        in if cb_state cb1 = StateHalfOpen \<and> cb_halfOpenSent cb1 \<ge> cc_HalfOpenMaxRequests (cb_config cb1)
           then (Some (failure (mr_ID req) (''CIRCUIT_HALF_OPEN: '' @ cb_inner cb @ '' probe limit reached''),
                       ''circuit breaker half-open probe limit for '' @ cb_inner cb), cb1)
           else (None, if cb_state cb1 = StateHalfOpen then cb1\<lparr>cb_halfOpenSent := cb_halfOpenSent cb1 + 1\<rparr> else cb1))"

text \<open>The second one: whether the call succeeded, how long it took, and the instant.\<close>

definition cb_record :: "int \<Rightarrow> int \<Rightarrow> bool \<Rightarrow> CircuitBreaker \<Rightarrow> CircuitBreaker" where
  "cb_record now elapsed good cb =
     (if \<not> good then
        (let cb1 = cb\<lparr>cb_consecutiveFail := cb_consecutiveFail cb + 1, cb_lastFailureTime := now\<rparr>
         in if cb_state cb1 = StateHalfOpen then cb1\<lparr>cb_state := StateOpen, cb_halfOpenSent := 0\<rparr>
            else if cb_consecutiveFail cb1 \<ge> cc_FailureThreshold (cb_config cb1) then cb1\<lparr>cb_state := StateOpen\<rparr>
            else cb1)
      else if elapsed \<ge> cb_latencyThreshold cb then
        (let cb1 = cb\<lparr>cb_consecutiveFail := cb_consecutiveFail cb + 1, cb_lastFailureTime := now\<rparr>
         in if cb_consecutiveFail cb1 \<ge> cc_FailureThreshold (cb_config cb1) then cb1\<lparr>cb_state := StateOpen\<rparr> else cb1)
      else
        (let cb1 = (if cb_state cb = StateHalfOpen then cb\<lparr>cb_state := StateClosed\<rparr> else cb)
         in cb1\<lparr>cb_consecutiveFail := 0\<rparr>))"

text \<open>A call with nothing in between. A panic of the inner adapter leaves the second section out.\<close>

record cb_env =
  env_now :: int
  env_elapsed :: int
  env_end :: int

definition cb_Execute :: "cb_env \<Rightarrow> 's adapter \<Rightarrow> (CircuitBreaker \<times> 's) adapter" where
  "cb_Execute env inner req = (\<lambda>(cb, s).
     case cb_enter (env_now env) req cb of
       (Some (resp, err), cb1) \<Rightarrow> (Returns resp (Some err), cb1, s)
     | (None, cb1) \<Rightarrow>
         (case inner req s of
            (Panics p, s1) \<Rightarrow> (Panics p, cb1, s1)
          | (Returns resp err, s1) \<Rightarrow>
              (Returns resp err, cb_record (env_end env) (env_elapsed env) (err = None \<and> ms_Success resp) cb1, s1)))"

text \<open>The breaker shared by several callers, with the number of calls in flight.\<close>

inductive cb_step :: "CircuitBreaker \<times> nat \<Rightarrow> CircuitBreaker \<times> nat \<Rightarrow> bool" where
  reject: "cb_enter now req cb = (Some r, cb') \<Longrightarrow> cb_step (cb, n) (cb', n)"
| admit: "cb_enter now req cb = (None, cb') \<Longrightarrow> cb_step (cb, n) (cb', Suc n)"
| finish: "cb_step (cb, Suc n) (cb_record now elapsed good cb, n)"
| panic: "cb_step (cb, Suc n) (cb, n)"

inductive_cases cb_stepE: "cb_step s t"
inductive_simps cb_step_iff: "cb_step (cb, n) t"

subsection \<open>Calls one after the other\<close>

definition cb_wf :: "CircuitBreaker \<Rightarrow> bool" where
  "cb_wf cb \<longleftrightarrow> cc_FailureThreshold (cb_config cb) > 0 \<and> cc_RecoveryTimeout (cb_config cb) > 0 \<and>
     cc_HalfOpenMaxRequests (cb_config cb) > 0 \<and> cb_latencyThreshold cb = cc_LatencyThreshold (cb_config cb) \<and>
     0 \<le> cb_halfOpenSent cb \<and> cb_halfOpenSent cb \<le> cc_HalfOpenMaxRequests (cb_config cb)"

lemma cb_wf_New: "cb_wf (NewCircuitBreaker inner conf)"
  by (simp add: cb_wf_def NewCircuitBreaker_def Let_def second_def)

lemma cb_enter_wf: "cb_wf cb \<Longrightarrow> cb_wf (snd (cb_enter now req cb))"
  by (auto simp: cb_wf_def cb_enter_def Let_def)

lemma cb_record_wf: "cb_wf cb \<Longrightarrow> cb_wf (cb_record now elapsed good cb)"
  by (auto simp: cb_wf_def cb_record_def Let_def)

lemma cb_step_wf: "cb_step s t \<Longrightarrow> cb_wf (fst s) \<Longrightarrow> cb_wf (fst t) \<and> cb_config (fst t) = cb_config (fst s)"
  by (induction rule: cb_step.induct)
     (auto simp: cb_record_wf dest: cb_enter_wf [of _ _ _] split: if_splits,
      (auto simp: cb_enter_def cb_record_def cb_wf_def Let_def split: if_splits)+)

text \<open>A call of an inner adapter that returns, with its result.\<close>

definition answer :: "bool \<Rightarrow> 's adapter" where
  "answer good req s = (Returns (if good then success (mr_ID req) AnyNil else failure (mr_ID req) ''failed'') None, s)"

definition cb_call :: "MCPRequest \<Rightarrow> cb_env \<times> bool \<Rightarrow> CircuitBreaker \<Rightarrow> CircuitBreaker" where
  "cb_call req = (\<lambda>(env, good) cb. fst (snd (cb_Execute env (answer good) req (cb, ()))))"

text \<open>What a breaker is meant to be: closed, with a number of failures in a row, or open since an instant.\<close>

datatype breaker = Closed int | Opened int

definition breaker_call :: "CircuitBreakerConfig \<Rightarrow> cb_env \<times> bool \<Rightarrow> breaker \<Rightarrow> breaker" where
  "breaker_call conf = (\<lambda>(env, good) b.
     let bad = (\<not> good \<or> env_elapsed env \<ge> cc_LatencyThreshold conf)
     in case b of
          Closed k \<Rightarrow> if \<not> bad then Closed 0
                      else if k + 1 \<ge> cc_FailureThreshold conf then Opened (env_end env) else Closed (k + 1)
        | Opened t \<Rightarrow> if env_now env - t \<le> cc_RecoveryTimeout conf then Opened t
                      else if bad then Opened (env_end env) else Closed 0)"

definition breaker_of :: "CircuitBreaker \<Rightarrow> breaker" where
  "breaker_of cb = (if cb_state cb = StateClosed then Closed (cb_consecutiveFail cb) else Opened (cb_lastFailureTime cb))"

definition cb_settled :: "CircuitBreaker \<Rightarrow> bool" where
  "cb_settled cb \<longleftrightarrow> cb_wf cb \<and> cb_state cb \<noteq> StateHalfOpen \<and>
     (cb_state cb = StateOpen \<longleftrightarrow> cb_consecutiveFail cb \<ge> cc_FailureThreshold (cb_config cb))"

lemma cb_call_refines:
  assumes "cb_settled cb"
  shows "cb_settled (cb_call req c cb) \<and> cb_config (cb_call req c cb) = cb_config cb \<and>
    breaker_of (cb_call req c cb) = breaker_call (cb_config cb) c (breaker_of cb)"
proof -
  obtain env good where c: "c = (env, good)" by (cases c)
  have *: "cc_HalfOpenMaxRequests (cb_config cb) > 0" "cc_FailureThreshold (cb_config cb) > 0"
    "cb_latencyThreshold cb = cc_LatencyThreshold (cb_config cb)" "cb_wf cb"
    using assms by (auto simp: cb_settled_def cb_wf_def)
  note defs = cb_call_def cb_Execute_def answer_def cb_enter_def cb_record_def cb_settled_def cb_wf_def breaker_of_def
    breaker_call_def Let_def c
  show ?thesis
  proof (cases "cb_state cb")
    case StateClosed
    then show ?thesis using assms by (cases good) (auto simp: defs)
  next
    case StateHalfOpen
    then show ?thesis using assms by (simp add: cb_settled_def)
  next
    case StateOpen
    then show ?thesis using assms * by (cases good) (auto simp: defs)
  qed
qed

lemma cb_calls_refine:
  assumes "cb_settled cb"
  shows "cb_settled (fold (cb_call req) cs cb) \<and> cb_config (fold (cb_call req) cs cb) = cb_config cb \<and>
    breaker_of (fold (cb_call req) cs cb) = fold (breaker_call (cb_config cb)) cs (breaker_of cb)"
  using assms
proof (induction cs arbitrary: cb)
  case (Cons c cs)
  from cb_call_refines [OF Cons.prems, of req c] Cons.IH [of "cb_call req c cb"] show ?case by simp
qed simp

lemma cb_settled_New: "cb_settled (NewCircuitBreaker inner conf)"
  by (simp add: cb_settled_def cb_wf_New) (simp add: NewCircuitBreaker_def Let_def)

lemma cb_enter_settled:
  "cb_settled cb \<Longrightarrow> fst (cb_enter now req cb) = None \<longleftrightarrow>
     \<not> (cb_state cb = StateOpen \<and> now - cb_lastFailureTime cb \<le> cc_RecoveryTimeout (cb_config cb))"
  by (cases "cb_state cb") (auto simp: cb_enter_def cb_settled_def cb_wf_def Let_def)

text \<open>C20: called one after the other, the breaker is the two-state machine \<open>breaker_call\<close>: it opens at the threshold of
  failed or slow calls in a row, rejects exactly until the recovery time has passed since the last
  failure, and the first call after that closes or reopens it. It is never left half open.\<close>

theorem breaker_refines:
  "let cb0 = NewCircuitBreaker inner conf; cb = fold (cb_call req) cs cb0; b = fold (breaker_call (cb_config cb0)) cs (Closed 0)
   in breaker_of cb = b \<and> cb_state cb \<noteq> StateHalfOpen \<and>
      (fst (cb_enter now req cb) = None \<longleftrightarrow>
         (case b of Closed _ \<Rightarrow> True | Opened t \<Rightarrow> now - t > cc_RecoveryTimeout (cb_config cb0)))"
proof -
  define cb0 where "cb0 = NewCircuitBreaker inner conf"
  define cb where "cb = fold (cb_call req) cs cb0"
  have r: "cb_settled cb" "cb_config cb = cb_config cb0" "breaker_of cb = fold (breaker_call (cb_config cb0)) cs (Closed 0)"
    using cb_calls_refine [OF cb_settled_New [of inner conf], of req cs]
    unfolding cb_def cb0_def by (simp_all add: breaker_of_def NewCircuitBreaker_def Let_def)
  have "fst (cb_enter now req cb) = None \<longleftrightarrow>
      (case breaker_of cb of Closed _ \<Rightarrow> True | Opened t \<Rightarrow> now - t > cc_RecoveryTimeout (cb_config cb0))"
    using cb_enter_settled [OF r(1), of now req] r(1,2) by (cases "cb_state cb") (auto simp: breaker_of_def cb_settled_def)
  then have "breaker_of cb = fold (breaker_call (cb_config cb0)) cs (Closed 0) \<and> cb_state cb \<noteq> StateHalfOpen \<and>
      (fst (cb_enter now req cb) = None \<longleftrightarrow> (case fold (breaker_call (cb_config cb0)) cs (Closed 0) of
         Closed _ \<Rightarrow> True | Opened t \<Rightarrow> now - t > cc_RecoveryTimeout (cb_config cb0)))"
    using r(1) unfolding r(3) cb_settled_def by blast
  then show ?thesis unfolding cb_def cb0_def Let_def .
qed

subsection \<open>Calls in flight\<close>

lemma cb_steps_wf: "cb_step\<^sup>*\<^sup>* s t \<Longrightarrow> cb_wf (fst s) \<Longrightarrow> cb_wf (fst t) \<and> cb_config (fst t) = cb_config (fst s)"
  by (induction rule: rtranclp_induct) (auto dest: cb_step_wf)

text \<open>A failing call of a closed breaker.\<close>

lemma cb_fail:
  assumes "cb_state cb = StateClosed"
  shows "cb_step\<^sup>*\<^sup>* (cb, 0) (cb_record t el False cb, 0)"
proof -
  have "cb_step (cb, 0) (cb, Suc 0)"
    by (rule cb_step.admit [of t "NewRequest 0 [] [] [] [] [] []"]) (use assms in \<open>simp add: cb_enter_def Let_def\<close>)
  moreover have "cb_step (cb, Suc 0) (cb_record t el False cb, 0)" by (rule cb_step.finish)
  ultimately show ?thesis by (meson converse_rtranclp_into_rtranclp r_into_rtranclp)
qed

lemma cb_open:
  assumes "cb_state cb = StateClosed" and "cb_wf cb"
  shows "\<exists>cb'. cb_step\<^sup>*\<^sup>* (cb, 0) (cb', 0) \<and> cb_state cb' = StateOpen"
  using assms
proof (induction "nat (cc_FailureThreshold (cb_config cb) - cb_consecutiveFail cb)" arbitrary: cb rule: less_induct)
  case less
  let ?cb = "cb_record 0 0 False cb"
  have s: "cb_step\<^sup>*\<^sup>* (cb, 0) (?cb, 0)" by (rule cb_fail [OF less.prems(1)])
  show ?case
  proof (cases "cb_consecutiveFail cb + 1 \<ge> cc_FailureThreshold (cb_config cb)")
    case True
    then have "cb_state ?cb = StateOpen" using less.prems(1) by (simp add: cb_record_def Let_def)
    then show ?thesis using s by blast
  next
    case False
    then have c: "cb_state ?cb = StateClosed" "cb_config ?cb = cb_config cb" "cb_consecutiveFail ?cb = cb_consecutiveFail cb + 1"
      using less.prems(1) by (simp_all add: cb_record_def Let_def)
    from less.hyps [of ?cb, OF _ c(1) cb_record_wf [OF less.prems(2)]] c False
    obtain cb' where "cb_step\<^sup>*\<^sup>* (?cb, 0) (cb', 0)" "cb_state cb' = StateOpen" by auto
    then show ?thesis using s by (meson rtranclp_trans)
  qed
qed

text \<open>A probe that panics is never given back.\<close>

lemma cb_probe:
  assumes "cb_state cb = StateHalfOpen" and "cb_halfOpenSent cb < cc_HalfOpenMaxRequests (cb_config cb)"
  shows "cb_step\<^sup>*\<^sup>* (cb, 0) (cb\<lparr>cb_halfOpenSent := cb_halfOpenSent cb + 1\<rparr>, 0)"
proof -
  have "cb_step (cb, 0) (cb\<lparr>cb_halfOpenSent := cb_halfOpenSent cb + 1\<rparr>, Suc 0)"
    by (rule cb_step.admit [of 0 "NewRequest 0 [] [] [] [] [] []"]) (use assms in \<open>simp add: cb_enter_def Let_def\<close>)
  then show ?thesis using cb_step.panic by (meson converse_rtranclp_into_rtranclp r_into_rtranclp)
qed

lemma cb_probes:
  assumes "cb_state cb = StateHalfOpen" and "cb_wf cb"
  shows "\<exists>cb'. cb_step\<^sup>*\<^sup>* (cb, 0) (cb', 0) \<and> cb_state cb' = StateHalfOpen \<and> cb_config cb' = cb_config cb \<and>
    cb_halfOpenSent cb' = cc_HalfOpenMaxRequests (cb_config cb)"
  using assms
proof (induction "nat (cc_HalfOpenMaxRequests (cb_config cb) - cb_halfOpenSent cb)" arbitrary: cb rule: less_induct)
  case less
  show ?case
  proof (cases "cb_halfOpenSent cb < cc_HalfOpenMaxRequests (cb_config cb)")
    case True
    let ?cb = "cb\<lparr>cb_halfOpenSent := cb_halfOpenSent cb + 1\<rparr>"
    have s: "cb_step\<^sup>*\<^sup>* (cb, 0) (?cb, 0)" by (rule cb_probe [OF less.prems(1) True])
    have "cb_wf ?cb" using less.prems(2) True by (simp add: cb_wf_def)
    from less.hyps [of ?cb, OF _ _ this] less.prems(1) True
    obtain cb' where "cb_step\<^sup>*\<^sup>* (?cb, 0) (cb', 0)" "cb_state cb' = StateHalfOpen" "cb_config cb' = cb_config cb"
      "cb_halfOpenSent cb' = cc_HalfOpenMaxRequests (cb_config cb)" by auto
    then show ?thesis using s by (meson rtranclp_trans)
  next
    case False
    then have "cb_halfOpenSent cb = cc_HalfOpenMaxRequests (cb_config cb)" using less.prems(2) by (simp add: cb_wf_def)
    then show ?thesis using less.prems(1) by blast
  qed
qed

lemma cb_stuck_step:
  assumes "cb_state cb = StateHalfOpen" and "cb_halfOpenSent cb \<ge> cc_HalfOpenMaxRequests (cb_config cb)"
  shows "cb_step (cb, 0) t \<Longrightarrow> t = (cb, 0)"
  using assms by (auto simp: cb_step_iff cb_enter_def Let_def)

text \<open>C21: from any new breaker calls can lead to a state without calls in flight that rejects every later request, whatever
  the instant, and that is never left: probes whose inner adapter panics are counted and never given
  back.\<close>

theorem breaker_stuck:
  "\<exists>cb. cb_step\<^sup>*\<^sup>* (NewCircuitBreaker inner conf, 0) (cb, 0) \<and> {t. cb_step\<^sup>*\<^sup>* (cb, 0) t} = {(cb, 0)} \<and>
     (\<forall>now req. fst (cb_enter now req cb) \<noteq> None)"
proof -
  let ?cb0 = "NewCircuitBreaker inner conf"
  have w0: "cb_wf ?cb0" and c0: "cb_state ?cb0 = StateClosed"
    by (rule cb_wf_New) (simp add: NewCircuitBreaker_def Let_def)
  obtain cb1 where s1: "cb_step\<^sup>*\<^sup>* (?cb0, 0) (cb1, 0)" and o: "cb_state cb1 = StateOpen" using cb_open [OF c0 w0] by blast
  have w1: "cb_wf cb1" using cb_steps_wf [OF s1] w0 by simp
  let ?now = "cb_lastFailureTime cb1 + cc_RecoveryTimeout (cb_config cb1) + 1"
  let ?cb2 = "cb1\<lparr>cb_state := StateHalfOpen, cb_halfOpenSent := 1\<rparr>"
  have "cb_step (cb1, 0) (?cb2, Suc 0)"
    by (rule cb_step.admit [of ?now "NewRequest 0 [] [] [] [] [] []"]) (use o w1 in \<open>simp add: cb_enter_def cb_wf_def Let_def\<close>)
  moreover have "cb_step (?cb2, Suc 0) (?cb2, 0)" by (rule cb_step.panic)
  ultimately have s2: "cb_step\<^sup>*\<^sup>* (cb1, 0) (?cb2, 0)" by (meson converse_rtranclp_into_rtranclp r_into_rtranclp)
  have "cb_wf ?cb2" using w1 by (simp add: cb_wf_def)
  then obtain cb where s3: "cb_step\<^sup>*\<^sup>* (?cb2, 0) (cb, 0)" and h: "cb_state cb = StateHalfOpen"
    "cb_halfOpenSent cb \<ge> cc_HalfOpenMaxRequests (cb_config cb)"
    using cb_probes [of ?cb2] by auto
  have "t = (cb, 0)" if "cb_step\<^sup>*\<^sup>* (cb, 0) t" for t
    using that by (induction rule: rtranclp_induct) (auto dest: cb_stuck_step [OF h])
  then have "{t. cb_step\<^sup>*\<^sup>* (cb, 0) t} = {(cb, 0)}" by auto
  moreover have "fst (cb_enter now req cb) \<noteq> None" for now req using h by (simp add: cb_enter_def Let_def)
  ultimately show ?thesis using s1 s2 s3 by (meson rtranclp_trans)
qed

subsection \<open>Retry budget\<close>

record RetryBudgetConfig =
  rbc_TotalBudget :: int
  rbc_PerToolCap :: int

definition DefaultRetryBudgetConfig :: RetryBudgetConfig where
  "DefaultRetryBudgetConfig = \<lparr>rbc_TotalBudget = 3, rbc_PerToolCap = 2\<rparr>"

record RetryBudget =
  rb_totalCap :: int
  rb_totalUsed :: int
  rb_perToolCap :: int
  rb_toolUsed :: "(string, int) gomap"

definition NewRetryBudget :: "RetryBudgetConfig \<Rightarrow> RetryBudget" where
  "NewRetryBudget cfg =
     \<lparr>rb_totalCap = (if rbc_TotalBudget cfg \<le> 0 then 3 else rbc_TotalBudget cfg), rb_totalUsed = 0,
      rb_perToolCap = (if rbc_PerToolCap cfg \<le> 0 then 2 else rbc_PerToolCap cfg), rb_toolUsed = []\<rparr>"

definition TryConsume :: "string \<Rightarrow> RetryBudget \<Rightarrow> bool \<times> RetryBudget" where
  "TryConsume tool rb =
     (if rb_totalUsed rb \<ge> rb_totalCap rb then (False, rb)
      else if gm_at 0 (rb_toolUsed rb) tool \<ge> rb_perToolCap rb then (False, rb)
      else (True, rb\<lparr>rb_totalUsed := rb_totalUsed rb + 1,
                     rb_toolUsed := gm_put tool (gm_at 0 (rb_toolUsed rb) tool + 1) (rb_toolUsed rb)\<rparr>))"

definition Remaining :: "RetryBudget \<Rightarrow> int" where
  "Remaining rb = rb_totalCap rb - rb_totalUsed rb"

text \<open>The interface of a quota: what is granted is counted and never exceeds the cap.\<close>

locale quota =
  fixes used :: "'s \<Rightarrow> int" and cap :: "'s \<Rightarrow> int" and grant :: "'k \<Rightarrow> 's \<Rightarrow> bool \<times> 's"
  assumes granted: "grant k s = (True, s') \<Longrightarrow> used s' = used s + 1 \<and> cap s' = cap s \<and> used s < cap s"
    and denied: "grant k s = (False, s') \<Longrightarrow> used s' = used s \<and> cap s' = cap s"
begin

lemma grant_used: "grant k s = (g, s') \<Longrightarrow> used s' = used s + (if g then 1 else 0) \<and> cap s' = cap s"
  by (cases g) (auto dest: granted denied)

lemma grant_bounded: "used s \<le> cap s \<Longrightarrow> used (snd (grant k s)) \<le> cap (snd (grant k s))"
  using granted [of k s "snd (grant k s)"] denied [of k s "snd (grant k s)"]
  by (cases "grant k s"; cases "fst (grant k s)") auto

lemma grants_bounded: "used s \<le> cap s \<Longrightarrow> used (fold (\<lambda>k. snd \<circ> grant k) ks s) \<le> cap s"
proof (induction ks arbitrary: s)
  case (Cons k ks)
  have "cap (snd (grant k s)) = cap s" using grant_used [of k s] by (cases "grant k s") auto
  moreover have "used (fold (\<lambda>k. snd \<circ> grant k) ks (snd (grant k s))) \<le> cap (snd (grant k s))"
    by (rule Cons.IH [OF grant_bounded [OF Cons.prems, of k]])
  ultimately show ?case by (simp only: fold_Cons comp_def)
qed simp

end

interpretation rb: quota rb_totalUsed rb_totalCap TryConsume
  by unfold_locales (auto simp: TryConsume_def split: if_splits)

text \<open>The shares of the tools.\<close>

definition rb_inv :: "RetryBudget \<Rightarrow> bool" where
  "rb_inv rb \<longleftrightarrow> rb_perToolCap rb > 0 \<and> rb_totalCap rb > 0 \<and> 0 \<le> rb_totalUsed rb \<and> rb_totalUsed rb \<le> rb_totalCap rb \<and>
     (\<forall>t. 0 \<le> gm_at 0 (rb_toolUsed rb) t \<and> gm_at 0 (rb_toolUsed rb) t \<le> rb_perToolCap rb)"

lemma rb_inv_New: "rb_inv (NewRetryBudget cfg)"
  by (simp add: rb_inv_def NewRetryBudget_def)

lemma rb_inv_TryConsume: "rb_inv rb \<Longrightarrow> rb_inv (snd (TryConsume tool rb))"
  by (auto simp: rb_inv_def TryConsume_def)

subsection \<open>Retries\<close>

text \<open>Arithmetic of \<open>int64\<close>.\<close>

definition wrap64 :: "int \<Rightarrow> int" where
  "wrap64 x = signed_take_bit 63 x"

text \<open>\<open>rnd h\<close> is the value of \<open>rand.Int63n(h)\<close>, which panics (\<open>None\<close>) unless \<open>h\<close> is positive.\<close>

definition jitteredDelay :: "(int \<Rightarrow> int) \<Rightarrow> int \<Rightarrow> nat \<Rightarrow> int \<Rightarrow> int option" where
  "jitteredDelay rnd base attempt max_delay =
     (let d = wrap64 (base * wrap64 (2 ^ attempt));
          d = (if d > max_delay then max_delay else d)
      in if d div 2 \<le> 0 then None else Some (d + rnd (d div 2)))"

definition clampDelay :: "int \<Rightarrow> int \<Rightarrow> int \<Rightarrow> int" where
  "clampDelay d lo hi = (if d < lo then lo else if d > hi then hi else d)"

record RetryConfig =
  ret_MaxRetries :: int
  ret_BaseDelay :: int
  ret_MaxDelay :: int

definition DefaultRetryConfig :: RetryConfig where
  "DefaultRetryConfig = \<lparr>ret_MaxRetries = 2, ret_BaseDelay = 100000000, ret_MaxDelay = second\<rparr>"

definition NewRetryAdapter :: "RetryConfig \<Rightarrow> RetryConfig" where
  "NewRetryAdapter cfg = (if ret_MaxRetries cfg \<le> 0 then cfg\<lparr>ret_MaxRetries := 2\<rparr> else cfg)"

text \<open>Whether the budget of the context, if there is one, allows an attempt, and the budget after asking.\<close>

definition budget_allows :: "string \<Rightarrow> nat \<Rightarrow> RetryBudget option \<Rightarrow> bool \<times> RetryBudget option" where
  "budget_allows tool attempt budget =
     (case budget of
        None \<Rightarrow> (True, None)
      | Some rb \<Rightarrow> if attempt > 0 then (case TryConsume tool rb of (good, rb') \<Rightarrow> (good, Some rb')) else (True, Some rb))"

definition nil_error :: string where
  "nil_error = ''runtime error: invalid memory address or nil pointer dereference''"

text \<open>The loop of \<open>Execute\<close>: the attempts left, the number of the attempt, the last error.\<close>

fun ra_loop ::
  "(int \<Rightarrow> int) \<Rightarrow> 's adapter \<Rightarrow> RetryConfig \<Rightarrow> MCPRequest \<Rightarrow> nat \<Rightarrow> nat \<Rightarrow> string option \<Rightarrow> RetryBudget option \<times> 's \<Rightarrow>
   outcome \<times> RetryBudget option \<times> 's" where
  "ra_loop rnd inner cfg req 0 attempt lastErr bs =
     ((case lastErr of
         None \<Rightarrow> Panics nil_error
       | Some e \<Rightarrow> Returns (failure (mr_ID req) (''retry exhausted: '' @ e)) (Some e)), bs)"
| "ra_loop rnd inner cfg req (Suc n) attempt lastErr (budget, s) =
     (case budget_allows (mr_Tool req) attempt budget of
        (False, budget') \<Rightarrow>
          (Returns (failure (mr_ID req) (''retry budget exhausted for '' @ mr_Tool req)) lastErr, budget', s)
      | (True, budget') \<Rightarrow>
          (case inner req s of
             (Panics p, s') \<Rightarrow> (Panics p, budget', s')
           | (Returns resp err, s') \<Rightarrow>
               if err = None \<and> ms_Success resp then (Returns resp None, budget', s')
               else if int attempt < ret_MaxRetries cfg then
                 (case jitteredDelay rnd (ret_BaseDelay cfg) attempt (ret_MaxDelay cfg) of
                    None \<Rightarrow> (Panics ''invalid argument to Int63n'', budget', s')
                  | Some _ \<Rightarrow> ra_loop rnd inner cfg req n (attempt + 1) err (budget', s'))
               else ra_loop rnd inner cfg req n (attempt + 1) err (budget', s')))"

definition ra_Execute :: "(int \<Rightarrow> int) \<Rightarrow> 's adapter \<Rightarrow> RetryConfig \<Rightarrow> (RetryBudget option \<times> 's) adapter" where
  "ra_Execute rnd inner cfg req bs = ra_loop rnd inner cfg req (nat (ret_MaxRetries cfg + 1)) 0 None bs"

subsection \<open>Timeout, fallback and handler adapters\<close>

definition NewTimeoutAdapter :: "int \<Rightarrow> int" where
  "NewTimeoutAdapter timeout = (if timeout \<le> 0 then 30 * second else timeout)"

text \<open>\<open>late\<close> says that the deadline is taken before the result. The inner call goes on in its goroutine: its effect on the
  state is there in both cases. \<open>name\<close> is the name of the inner adapter and \<open>duration\<close> is \<open>Duration.String\<close>.\<close>

definition ta_Execute :: "bool \<Rightarrow> (int \<Rightarrow> string) \<Rightarrow> int \<Rightarrow> string \<Rightarrow> 's adapter \<Rightarrow> 's adapter" where
  "ta_Execute late duration timeout name inner req s =
     (case inner req s of
        (r, s') \<Rightarrow>
          (if late then Returns (failure (mr_ID req) (''TIMEOUT: '' @ duration timeout)) (Some ''context deadline exceeded'')
           else case r of
                  Panics p \<Rightarrow> (let msg = ''panic in '' @ name @ '': '' @ p in Returns (failure (mr_ID req) msg) (Some msg))
                | Returns resp err \<Rightarrow> Returns resp err, s'))"

definition fa_Execute :: "'s adapter \<Rightarrow> 's adapter \<Rightarrow> 's adapter" where
  "fa_Execute inner fallback req s =
     (case inner req s of
        (Panics p, s') \<Rightarrow> (Panics p, s')
      | (Returns resp err, s') \<Rightarrow> if err \<noteq> None \<or> \<not> ms_Success resp then fallback req s' else (Returns resp None, s'))"

definition sa_Execute :: "'s adapter \<Rightarrow> 's adapter" where
  "sa_Execute handler req s = handler req s"

text \<open>The wrappers keep the promise of the adapters they wrap.\<close>

context answering
begin

lemma cb_answering: "answering (cb_Execute env exec)"
proof
  fix req and s :: "CircuitBreaker \<times> 's" and resp err s'
  assume r: "cb_Execute env exec req s = (Returns resp err, s')"
  obtain cb t where s: "s = (cb, t)" by (cases s)
  show "ms_ID resp = mr_ID req"
  proof (cases "cb_enter (env_now env) req cb")
    case (Pair rej cb1)
    show ?thesis
    proof (cases rej)
      case None
      then show ?thesis
        using r s Pair exec_ID by (auto simp: cb_Execute_def split: prod.splits outcome.splits)
    next
      case (Some x)
      then have "ms_ID (fst x) = mr_ID req"
        using Pair by (cases x) (auto simp: cb_enter_def Let_def split: if_splits)
      then show ?thesis using r s Pair Some by (cases x) (simp add: cb_Execute_def)
    qed
  qed
qed

lemma ta_answering: "answering (ta_Execute late duration timeout name exec)"
  by unfold_locales
     (auto simp: ta_Execute_def Let_def dest: exec_ID split: prod.splits if_splits outcome.splits)

lemma fa_answering: "answering fallback \<Longrightarrow> answering (fa_Execute exec fallback)"
  by unfold_locales
     (auto simp: fa_Execute_def dest: exec_ID answering.exec_ID split: prod.splits if_splits outcome.splits)

lemma ra_loop_ID:
  "ra_loop rnd exec cfg req n attempt lastErr bs = (Returns resp err, bs') \<Longrightarrow> ms_ID resp = mr_ID req"
proof (induction n arbitrary: attempt lastErr bs)
  case 0
  then show ?case by (cases bs) (auto split: option.splits)
next
  case (Suc n)
  obtain budget s where bs: "bs = (budget, s)" by (cases bs)
  show ?case
    using Suc.prems bs exec_ID
    by (auto split: prod.splits bool.splits outcome.splits if_splits option.splits dest: Suc.IH)
qed

lemma ra_answering: "answering (ra_Execute rnd exec cfg)"
  by unfold_locales (auto simp: ra_Execute_def dest: ra_loop_ID)

end

subsection \<open>How often a retried call is made\<close>

text \<open>The inner adapter with a counter of its calls.\<close>

definition counted :: "'s adapter \<Rightarrow> (nat \<times> 's) adapter" where
  "counted inner req = (\<lambda>(n, s). case inner req s of (r, s') \<Rightarrow> (r, Suc n, s'))"

definition budget_left :: "RetryBudget option \<Rightarrow> int" where
  "budget_left budget = (case budget of None \<Rightarrow> 0 | Some rb \<Rightarrow> Remaining rb)"

definition budget_ok :: "RetryBudget option \<Rightarrow> bool" where
  "budget_ok budget = (case budget of None \<Rightarrow> True | Some rb \<Rightarrow> rb_inv rb)"

lemma budget_allows_left:
  "budget_allows tool attempt budget = (g, b1) \<Longrightarrow>
     (b1 = None \<longleftrightarrow> budget = None) \<and> (budget_ok budget \<longrightarrow> budget_ok b1) \<and>
     budget_left b1 = budget_left budget - (if g \<and> attempt > 0 \<and> budget \<noteq> None then 1 else 0)"
  using rb_inv_TryConsume [of "the budget" tool]
  by (cases budget)
     (auto simp: budget_allows_def budget_left_def budget_ok_def Remaining_def TryConsume_def split: if_splits)

lemma ra_loop_calls:
  assumes "ra_loop rnd (counted inner) cfg req n attempt lastErr (budget, k, s) = (r, budget', k', s')"
  shows "k \<le> k' \<and> k' \<le> k + n \<and> (budget' = None \<longleftrightarrow> budget = None) \<and> (budget_ok budget \<longrightarrow> budget_ok budget') \<and>
    (budget \<noteq> None \<longrightarrow> int k' - int k \<le> budget_left budget - budget_left budget' + (if attempt = 0 then 1 else 0))"
  using assms
proof (induction n arbitrary: attempt lastErr budget k s)
  case 0
  then show ?case by (auto split: option.splits)
next
  case (Suc n)
  obtain g b1 where g: "budget_allows (mr_Tool req) attempt budget = (g, b1)" by fastforce
  note left = budget_allows_left [OF g]
  show ?case
  proof (cases g)
    case False
    then have "b1 = budget' \<and> k' = k" using Suc.prems g by auto
    then show ?thesis using left False by auto
  next
    case True
    obtain r1 s1 where i: "inner req s = (r1, s1)" by fastforce
    have c: "counted inner req (k, s) = (r1, Suc k, s1)" by (simp add: counted_def i)
    show ?thesis
    proof (cases "budget' = b1 \<and> k' = Suc k")
      case True
      then show ?thesis using left \<open>g\<close> by (auto split: if_splits)
    next
      case False
      then obtain err where "ra_loop rnd (counted inner) cfg req n (attempt + 1) err (b1, Suc k, s1) = (r, budget', k', s')"
        using Suc.prems g \<open>g\<close> c by (auto split: outcome.splits if_splits option.splits)
      from Suc.IH [OF this] left \<open>g\<close> show ?thesis by (auto split: if_splits)
    qed
  qed
qed

text \<open>Whatever the inner adapter does, a retried call makes at most \<open>MaxRetries + 1\<close> inner calls and at most one more
  than the budget of the context pays for, and it leaves the budget within its caps.\<close>

theorem retry_bounded:
  "let (r, budget, calls, s') = ra_Execute rnd (counted inner) (NewRetryAdapter cfg) req (Some (NewRetryBudget bc), 0, s)
   in \<exists>rb. budget = Some rb \<and> int calls \<le> ret_MaxRetries (NewRetryAdapter cfg) + 1 \<and>
        int calls \<le> 1 + (Remaining (NewRetryBudget bc) - Remaining rb) \<and> 0 \<le> Remaining rb \<and>
        (\<forall>tool. gm_at 0 (rb_toolUsed rb) tool \<le> rb_perToolCap rb)"
proof -
  obtain r budget calls s' where e:
    "ra_Execute rnd (counted inner) (NewRetryAdapter cfg) req (Some (NewRetryBudget bc), 0, s) = (r, budget, calls, s')"
    by (metis prod_cases4)
  have ok: "budget_ok (Some (NewRetryBudget bc))" by (simp add: budget_ok_def rb_inv_New)
  have p: "ret_MaxRetries (NewRetryAdapter cfg) > 0" by (simp add: NewRetryAdapter_def)
  note c = ra_loop_calls [OF e [unfolded ra_Execute_def]]
  obtain rb where rb: "budget = Some rb" using c by (cases budget) auto
  have i: "rb_inv rb" using c ok rb by (simp add: budget_ok_def)
  have "calls \<le> nat (ret_MaxRetries (NewRetryAdapter cfg) + 1)" using c by simp
  then have "int calls \<le> ret_MaxRetries (NewRetryAdapter cfg) + 1" using p by linarith
  moreover have "int calls \<le> 1 + (Remaining (NewRetryBudget bc) - Remaining rb)"
    using c rb by (simp add: budget_left_def)
  moreover have "0 \<le> Remaining rb" "\<forall>tool. gm_at 0 (rb_toolUsed rb) tool \<le> rb_perToolCap rb"
    using i by (auto simp: rb_inv_def Remaining_def)
  ultimately show ?thesis by (simp only: e rb Let_def split_conv) blast
qed

text \<open>The delay before an attempt, when the arithmetic does not overflow, and what happens when it does.\<close>

lemma wrap64_id: "- (2 ^ 63) \<le> x \<Longrightarrow> x < 2 ^ 63 \<Longrightarrow> wrap64 x = x"
  by (simp add: wrap64_def signed_take_bit_int_eq_self)

lemma jitteredDelay_bounds:
  assumes "base * 2 ^ attempt < 2 ^ 63" and "2 ^ attempt < (2 ^ 63 :: int)" and "2 \<le> base" and "2 \<le> mx"
    and "\<And>h. 0 < h \<Longrightarrow> 0 \<le> rnd h \<and> rnd h < h"
  shows "\<exists>d. jitteredDelay rnd base attempt mx = Some d \<and> min (base * 2 ^ attempt) mx \<le> d \<and> 2 * d < 3 * mx"
proof -
  have p: "base \<le> base * 2 ^ attempt" using assms(3) by (simp add: mult_le_cancel_left1)
  have w: "wrap64 (base * wrap64 (2 ^ attempt)) = base * 2 ^ attempt"
    using wrap64_id [of "2 ^ attempt"] wrap64_id [of "base * 2 ^ attempt"] assms(1-3) p
    by (smt (verit, ccfv_threshold) zero_less_power)
  define d where "d = min (base * 2 ^ attempt) mx"
  have "2 \<le> base * 2 ^ attempt" using p assms(3) by linarith
  then have d: "2 \<le> d" "d \<le> mx" using assms(4) by (auto simp: d_def)
  then have h: "0 < d div 2" "2 * (d div 2) \<le> d" by linarith+
  have "jitteredDelay rnd base attempt mx = Some (d + rnd (d div 2))"
    using h(1) by (auto simp: jitteredDelay_def w d_def min_def Let_def)
  moreover have "0 \<le> rnd (d div 2)" "rnd (d div 2) < d div 2" using assms(5) [OF h(1)] by auto
  ultimately show ?thesis using h(2) d by (auto simp: d_def)
qed

lemma jitteredDelay_overflows: "jitteredDelay rnd 100000000 37 second = None"
  by (simp add: jitteredDelay_def second_def wrap64_def signed_take_bit_int_greater_eq_minus_exp signed_take_bit_eq_take_bit_shift
        take_bit_int_def Let_def)

lemma jitteredDelay_no_base: "jitteredDelay rnd 0 attempt mx = None"
proof -
  have "mx < 0 \<Longrightarrow> mx div 2 \<le> 0" by linarith
  then show ?thesis by (simp add: jitteredDelay_def wrap64_def Let_def)
qed

text \<open>A tool that fails without an error value brings the default retry loop down.\<close>

lemma ra_nil_panic:
  assumes "inner req s0 = (Returns r0 None, s1)" and "\<not> ms_Success r0"
    and "inner req s1 = (Returns r1 None, s2)" and "\<not> ms_Success r1"
    and "inner req s2 = (Returns r2 None, s3)" and "\<not> ms_Success r2"
  shows "\<exists>rb. ra_Execute rnd inner DefaultRetryConfig req (Some (NewRetryBudget DefaultRetryBudgetConfig), s0) =
    (Panics nil_error, Some rb, s3)"
proof -
  have j: "jitteredDelay rnd 100000000 0 second \<noteq> None" "jitteredDelay rnd 100000000 (Suc 0) second \<noteq> None"
    by (simp_all add: jitteredDelay_def second_def wrap64_def signed_take_bit_eq_take_bit_shift take_bit_int_def Let_def)
  show ?thesis
    using assms j
    by (auto simp: ra_Execute_def DefaultRetryConfig_def numeral_3_eq_3 budget_allows_def NewRetryBudget_def DefaultRetryBudgetConfig_def
          TryConsume_def)
qed

subsection \<open>Backpressure\<close>

record ToolThrottleConfig =
  tt_MaxConcurrent :: int

record BackpressureConfig =
  bc_MaxQueuePerSession :: int
  bc_MaxQueueTotal :: int
  bc_SoftRejectionPct :: rat
  bc_ToolThrottle :: "(string, ToolThrottleConfig) gomap"

definition DefaultBackpressureConfig :: BackpressureConfig where
  "DefaultBackpressureConfig =
     \<lparr>bc_MaxQueuePerSession = 5, bc_MaxQueueTotal = 1000, bc_SoftRejectionPct = 4 / 5, bc_ToolThrottle = []\<rparr>"

record BackpressureModel =
  bp_sessionCount :: "(string, int) gomap"
  bp_toolCount :: "(string, int) gomap"
  bp_totalActive :: int
  bp_config :: BackpressureConfig

definition NewBackpressureModel :: "BackpressureConfig \<Rightarrow> BackpressureModel" where
  "NewBackpressureModel cfg =
     \<lparr>bp_sessionCount = [], bp_toolCount = [], bp_totalActive = 0,
      bp_config = cfg
        \<lparr>bc_MaxQueuePerSession := (if bc_MaxQueuePerSession cfg \<le> 0 then 5 else bc_MaxQueuePerSession cfg),
         bc_MaxQueueTotal := (if bc_MaxQueueTotal cfg \<le> 0 then 1000 else bc_MaxQueueTotal cfg),
         bc_SoftRejectionPct := (if bc_SoftRejectionPct cfg \<le> 0 \<or> bc_SoftRejectionPct cfg > 1 then 4 / 5
                                 else bc_SoftRejectionPct cfg)\<rparr>\<rparr>"

datatype bp_error = SystemSaturated int int | SessionAtLimit string int int | ToolSaturated string int int

definition bp_session :: "BackpressureModel \<Rightarrow> string \<Rightarrow> int" where
  "bp_session b sid = gm_at 0 (bp_sessionCount b) sid"

definition bp_tool :: "BackpressureModel \<Rightarrow> string \<Rightarrow> int" where
  "bp_tool b tool = gm_at 0 (bp_toolCount b) tool"

definition Acquire :: "string \<Rightarrow> string \<Rightarrow> BackpressureModel \<Rightarrow> bp_error option \<times> BackpressureModel" where
  "Acquire sid tool b =
     (if bp_totalActive b \<ge> bc_MaxQueueTotal (bp_config b)
      then (Some (SystemSaturated (bp_totalActive b) (bc_MaxQueueTotal (bp_config b))), b)
      else if bp_session b sid \<ge> bc_MaxQueuePerSession (bp_config b)
      then (Some (SessionAtLimit sid (bp_session b sid) (bc_MaxQueuePerSession (bp_config b))), b)
      else case gm_get (bc_ToolThrottle (bp_config b)) tool of
             Some c \<Rightarrow>
               if bp_tool b tool \<ge> tt_MaxConcurrent c
               then (Some (ToolSaturated tool (bp_tool b tool) (tt_MaxConcurrent c)), b)
               else (None, b\<lparr>bp_sessionCount := gm_put sid (bp_session b sid + 1) (bp_sessionCount b),
                             bp_toolCount := gm_put tool (bp_tool b tool + 1) (bp_toolCount b),
                             bp_totalActive := bp_totalActive b + 1\<rparr>)
           | None \<Rightarrow> (None, b\<lparr>bp_sessionCount := gm_put sid (bp_session b sid + 1) (bp_sessionCount b),
                             bp_toolCount := gm_put tool (bp_tool b tool + 1) (bp_toolCount b),
                             bp_totalActive := bp_totalActive b + 1\<rparr>))"

definition Release :: "string \<Rightarrow> string \<Rightarrow> BackpressureModel \<Rightarrow> BackpressureModel" where
  "Release sid tool b = b
     \<lparr>bp_sessionCount := (if bp_session b sid > 0 then gm_put sid (bp_session b sid - 1) (bp_sessionCount b) else bp_sessionCount b),
      bp_toolCount := (if bp_tool b tool > 0 then gm_put tool (bp_tool b tool - 1) (bp_toolCount b) else bp_toolCount b),
      bp_totalActive := (if bp_totalActive b > 0 then bp_totalActive b - 1 else bp_totalActive b)\<rparr>"

text \<open>The conversion to \<open>int\<close> truncates; both factors are positive after \<open>NewBackpressureModel\<close>.\<close>

definition IsSaturated :: "BackpressureModel \<Rightarrow> bool" where
  "IsSaturated b \<longleftrightarrow>
     bp_totalActive b \<ge> \<lfloor>of_int (bc_MaxQueueTotal (bp_config b)) * bc_SoftRejectionPct (bp_config b)\<rfloor>"

definition IsSoftRejected :: "string \<Rightarrow> BackpressureModel \<Rightarrow> bool" where
  "IsSoftRejected sid b \<longleftrightarrow> bp_session b sid \<ge> bc_MaxQueuePerSession (bp_config b)"

definition ActiveCount :: "BackpressureModel \<Rightarrow> int" where "ActiveCount b = bp_totalActive b"

text \<open>The calls that hold a place: one per \<open>Acquire\<close> that succeeded and was not released.\<close>

definition bp_holds :: "(string \<times> string) multiset \<Rightarrow> BackpressureModel \<Rightarrow> bool" where
  "bp_holds A b \<longleftrightarrow> bp_totalActive b = int (size A) \<and>
     bp_session b = (\<lambda>sid. int (size {#p \<in># A. fst p = sid#})) \<and>
     bp_tool b = (\<lambda>tool. int (size {#p \<in># A. snd p = tool#}))"

definition bp_within :: "BackpressureModel \<Rightarrow> bool" where
  "bp_within b \<longleftrightarrow> bp_totalActive b \<le> bc_MaxQueueTotal (bp_config b) \<and>
     (\<forall>sid. bp_session b sid \<le> bc_MaxQueuePerSession (bp_config b)) \<and>
     (\<forall>tool. case gm_get (bc_ToolThrottle (bp_config b)) tool of
               None \<Rightarrow> True | Some c \<Rightarrow> bp_tool b tool \<le> max 0 (tt_MaxConcurrent c))"

lemma bp_holds_New: "bp_holds {#} (NewBackpressureModel cfg)"
  by (simp add: bp_holds_def NewBackpressureModel_def bp_session_def bp_tool_def fun_eq_iff)

lemma bp_within_New: "bp_within (NewBackpressureModel cfg)"
  by (simp add: bp_within_def NewBackpressureModel_def bp_session_def bp_tool_def split: option.split)

lemma Acquire_granted:
  assumes "Acquire sid tool b = (None, b')"
  shows "bp_totalActive b' = bp_totalActive b + 1 \<and> bp_session b' = (bp_session b)(sid := bp_session b sid + 1) \<and>
    bp_tool b' = (bp_tool b)(tool := bp_tool b tool + 1) \<and> bp_config b' = bp_config b \<and>
    bp_totalActive b < bc_MaxQueueTotal (bp_config b) \<and> bp_session b sid < bc_MaxQueuePerSession (bp_config b) \<and>
    (case gm_get (bc_ToolThrottle (bp_config b)) tool of None \<Rightarrow> True | Some c \<Rightarrow> bp_tool b tool < tt_MaxConcurrent c)"
  using assms by (auto simp: Acquire_def bp_session_def bp_tool_def fun_eq_iff split: if_splits option.splits)

lemma Acquire_denied: "Acquire sid tool b = (Some e, b') \<Longrightarrow> b' = b"
  by (auto simp: Acquire_def split: if_splits option.splits)

lemma Acquire_holds: "Acquire sid tool b = (None, b') \<Longrightarrow> bp_holds A b \<Longrightarrow> bp_holds (add_mset (sid, tool) A) b'"
  using Acquire_granted [of sid tool b b'] by (auto simp: bp_holds_def fun_eq_iff)

lemma Acquire_within: "Acquire sid tool b = (None, b') \<Longrightarrow> bp_within b \<Longrightarrow> bp_within b'"
  using Acquire_granted [of sid tool b b']
  by (auto simp: bp_within_def split: option.splits)

lemma Release_holds:
  assumes "bp_holds A b" and "(sid, tool) \<in># A"
  shows "bp_holds (A - {#(sid, tool)#}) (Release sid tool b)"
proof -
  obtain B where A: "A = add_mset (sid, tool) B" using assms(2) by (metis mset_add)
  then show ?thesis using assms(1)
    by (auto simp: bp_holds_def Release_def bp_session_def bp_tool_def fun_eq_iff)
qed

lemma Release_within:
  assumes "bp_holds A b" and "(sid, tool) \<in># A" and "bp_within b"
  shows "bp_within (Release sid tool b)"
proof -
  have c: "bp_config (Release sid tool b) = bp_config b" by (simp add: Release_def)
  have "bp_totalActive (Release sid tool b) \<le> bp_totalActive b" by (simp add: Release_def)
  moreover have "bp_session (Release sid tool b) s \<le> bp_session b s" for s by (simp add: Release_def bp_session_def)
  moreover have "bp_tool (Release sid tool b) t \<le> bp_tool b t" for t by (simp add: Release_def bp_tool_def)
  ultimately show ?thesis
    using assms(3) unfolding bp_within_def c by (smt (verit) option.case_eq_if)
qed

interpretation bp: quota bp_totalActive "\<lambda>b. bc_MaxQueueTotal (bp_config b)"
    "\<lambda>p b. case Acquire (fst p) (snd p) b of (e, b') \<Rightarrow> (e = None, b')"
  by unfold_locales (auto dest: Acquire_granted Acquire_denied split: prod.splits)

text \<open>Calls come and go: an acquisition, or the release of a place that is held (\<open>Process\<close> defers it).\<close>

datatype bp_op = Acq string string | Rel string string

definition bp_do :: "bp_op \<Rightarrow> BackpressureModel \<times> (string \<times> string) multiset \<Rightarrow> BackpressureModel \<times> (string \<times> string) multiset" where
  "bp_do op = (\<lambda>(b, A). case op of
     Acq sid tool \<Rightarrow> (case Acquire sid tool b of (None, b') \<Rightarrow> (b', add_mset (sid, tool) A) | (Some _, b') \<Rightarrow> (b', A))
   | Rel sid tool \<Rightarrow> if (sid, tool) \<in># A then (Release sid tool b, A - {#(sid, tool)#}) else (b, A))"

lemma bp_do_inv: "bp_holds (snd s) (fst s) \<and> bp_within (fst s) \<Longrightarrow>
    bp_holds (snd (bp_do op s)) (fst (bp_do op s)) \<and> bp_within (fst (bp_do op s))"
  using Acquire_holds Acquire_within Release_holds Release_within
  by (auto simp: bp_do_def dest: Acquire_denied split: prod.splits bp_op.splits option.splits)

text \<open>C22: whatever calls come and go, the counters are exactly the numbers of calls in progress, in total, per session and per
  tool, and none exceeds its limit.\<close>

theorem backpressure_bounds:
  "let (b, A) = fold bp_do ops (NewBackpressureModel cfg, {#}); c = bp_config (NewBackpressureModel cfg)
   in bp_totalActive b = int (size A) \<and> int (size A) \<le> bc_MaxQueueTotal c \<and>
      (\<forall>sid. bp_session b sid = int (size {#p \<in># A. fst p = sid#}) \<and> bp_session b sid \<le> bc_MaxQueuePerSession c) \<and>
      (\<forall>tool. bp_tool b tool = int (size {#p \<in># A. snd p = tool#}) \<and>
         (case gm_get (bc_ToolThrottle c) tool of None \<Rightarrow> True | Some t \<Rightarrow> bp_tool b tool \<le> max 0 (tt_MaxConcurrent t)))"
proof -
  obtain b A where e: "fold bp_do ops (NewBackpressureModel cfg, {#}) = (b, A)" by fastforce
  let ?P = "\<lambda>s. (bp_holds (snd s) (fst s) \<and> bp_within (fst s)) \<and> bp_config (fst s) = bp_config (NewBackpressureModel cfg)"
  have "?P (bp_do op s)" if "?P s" for op s
    using that bp_do_inv [of s op]
    by (auto simp: bp_do_def Release_def dest: Acquire_granted Acquire_denied split: prod.splits bp_op.splits option.splits)
  then have "?P (b, A)" using fold_invariant [of ?P "(NewBackpressureModel cfg, {#})" ops bp_do] e
    by (simp add: bp_holds_New bp_within_New)
  then have h: "bp_holds A b" "bp_within b" "bp_config b = bp_config (NewBackpressureModel cfg)" by simp_all
  then show ?thesis unfolding e Let_def split_conv h(3) [symmetric] by (simp add: bp_holds_def bp_within_def)
qed

end
