(* ===== verification/Run_Tools.thy ===== *)
theory Run_Tools
  imports Run_Contracts
begin

text \<open>
  The tool adapters, \<open>runtime/mcp/tools\<close>: files, git and GitHub. The file operations of the operating system,
  the git command and HTTP are the functions of a record \<open>system\<close> over a world \<open>'w\<close>; pattern matching is one
  of its functions as well. A nil slice and an empty one are both an empty \<open>AnyList\<close>.
\<close>

record http_answer =
  ha_StatusCode :: int
  ha_Raw :: string
  ha_JSON :: any

record 'w system =
  sys_ReadFile :: "string \<Rightarrow> 'w \<Rightarrow> (string + string) \<times> 'w"
  sys_MkdirAll :: "string \<Rightarrow> 'w \<Rightarrow> string option \<times> 'w"
  sys_WriteFile :: "string \<Rightarrow> string \<Rightarrow> 'w \<Rightarrow> string option \<times> 'w"
  sys_ReadDir :: "string \<Rightarrow> 'w \<Rightarrow> (string + (string \<times> bool) list) \<times> 'w"
  sys_Walk :: "string \<Rightarrow> 'w \<Rightarrow> string list"
  sys_Match :: "string \<Rightarrow> string \<Rightarrow> bool"
  sys_Command :: "string \<Rightarrow> string list \<Rightarrow> 'w \<Rightarrow> (string option \<times> string) \<times> 'w"
  sys_HTTP :: "string \<Rightarrow> string \<Rightarrow> string \<Rightarrow> string \<Rightarrow> 'w \<Rightarrow> (string + http_answer) \<times> 'w"
  sys_ValidURL :: "string \<Rightarrow> bool"
  sys_Show :: "any \<Rightarrow> string"

definition payload_string :: "MCPRequest \<Rightarrow> string \<Rightarrow> string" where
  "payload_string req k = (case any_string (gm_get (mr_Payload req) k) of None \<Rightarrow> [] | Some s \<Rightarrow> s)"

abbreviation tool_error :: "MCPRequest \<Rightarrow> string \<Rightarrow> 'w \<Rightarrow> outcome \<times> 'w" where
  "tool_error req e w \<equiv> (Returns (failure (mr_ID req) e) None, w)"

abbreviation tool_result :: "MCPRequest \<Rightarrow> (string \<times> any) list \<Rightarrow> 'w \<Rightarrow> outcome \<times> 'w" where
  "tool_result req d w \<equiv> (Returns (success (mr_ID req) (AnyMap d)) None, w)"

definition any_int :: "int \<Rightarrow> any" where "any_int i = AnyNumber (of_int i)"

definition any_strings :: "string list \<Rightarrow> any" where "any_strings xs = AnyList (map AnyString xs)"

subsection \<open>Files\<close>

definition path_dir :: "string \<Rightarrow> string" where
  "path_dir p = (let d = rev (dropWhile (\<lambda>c. c \<noteq> CHR ''/'') (rev p)); d = rev (dropWhile (\<lambda>c. c = CHR ''/'') (rev d))
     in if d = [] then (if has_prefix p ''/'' then ''/'' else ''.'') else d)"

definition fs_read :: "'w system \<Rightarrow> 'w adapter" where
  "fs_read os req w =
     (let path = payload_string req ''path''
      in if path = [] then tool_error req ''path is required'' w
         else case sys_ReadFile os path w of
                (Inl err, w') \<Rightarrow> tool_error req err w'
              | (Inr data, w') \<Rightarrow>
                  tool_result req
                    [(''content'', AnyString (if length data > 50000 then take 50000 data else data)), (''path'', AnyString path),
                     (''size'', any_int (int (length data)))] w')"

definition fs_write :: "'w system \<Rightarrow> 'w adapter" where
  "fs_write os req w =
     (let path = payload_string req ''path''; content = payload_string req ''content''
      in if path = [] \<or> content = [] then tool_error req ''path and content are required'' w
         else case sys_MkdirAll os (path_dir path) w of
                (Some err, w1) \<Rightarrow> tool_error req err w1
              | (None, w1) \<Rightarrow>
                  (case sys_WriteFile os path content w1 of
                     (Some err, w2) \<Rightarrow> tool_error req err w2
                   | (None, w2) \<Rightarrow>
                       tool_result req [(''written'', AnyBool True), (''path'', AnyString path), (''size'', any_int (int (length content)))] w2))"

definition fs_list :: "'w system \<Rightarrow> 'w adapter" where
  "fs_list os req w =
     (let dir = payload_string req ''path''; dir = (if dir = [] then ''.'' else dir)
      in case sys_ReadDir os dir w of
           (Inl err, w') \<Rightarrow> tool_error req err w'
         | (Inr entries, w') \<Rightarrow>
             tool_result req
               [(''path'', AnyString dir),
                (''entries'', AnyList (map (\<lambda>(n, d). AnyMap [(''name'', AnyString n), (''is_dir'', AnyBool d)]) entries)),
                (''count'', any_int (int (length entries)))] w')"

definition fs_search :: "'w system \<Rightarrow> 'w adapter" where
  "fs_search os req w =
     (let pattern = payload_string req ''pattern''; dir = payload_string req ''path''
      in if pattern = [] then tool_error req ''pattern is required'' w
         else
           let dir = (if dir = [] then ''.'' else dir);
               found = filter (\<lambda>p. sys_Match os pattern (path_base p)) (sys_Walk os dir w)
           in tool_result req
                [(''pattern'', AnyString pattern), (''matches'', any_strings found), (''count'', any_int (int (length found)))] w)"

definition fs_Execute :: "'w system \<Rightarrow> 'w adapter" where
  "fs_Execute os req w =
     (if mr_Action req = ''read'' then fs_read os req w
      else if mr_Action req = ''write'' then fs_write os req w
      else if mr_Action req = ''list'' then fs_list os req w
      else if mr_Action req = ''search'' then fs_search os req w
      else tool_error req (''unknown action: '' @ mr_Action req) w)"

subsection \<open>Git\<close>

text \<open>The error of a command is its exit error and its output.\<close>

definition git_run :: "'w system \<Rightarrow> string \<Rightarrow> string list \<Rightarrow> 'w \<Rightarrow> (string + string) \<times> 'w" where
  "git_run os workDir args w =
     (case sys_Command os workDir args w of
        ((Some err, out), w') \<Rightarrow> (Inl (err @ '': '' @ out), w')
      | ((None, out), w') \<Rightarrow> (Inr out, w'))"

definition output_lines :: "string \<Rightarrow> string list" where
  "output_lines out = split_on (CHR 0x0A) (trim_space out)"

definition git_status :: "'w system \<Rightarrow> string \<Rightarrow> 'w adapter" where
  "git_status os workDir req w =
     (case git_run os workDir [''status'', ''--porcelain''] w of
        (Inl err, w') \<Rightarrow> tool_error req err w'
      | (Inr out, w') \<Rightarrow>
          (let ls = output_lines out; ls = (if ls = [[]] then [] else ls)
           in tool_result req [(''changes'', any_strings ls), (''count'', any_int (int (length ls)))] w'))"

definition git_commit :: "'w system \<Rightarrow> string \<Rightarrow> 'w adapter" where
  "git_commit os workDir req w =
     (let msg = payload_string req ''message'';
          files = (case gm_get (mr_Payload req) ''files'' of Some (AnyList xs) \<Rightarrow> xs | _ \<Rightarrow> []);
          commit = (\<lambda>w. case git_run os workDir [''commit'', ''-m'', msg] w of
                           (Inl err, w') \<Rightarrow> tool_error req err w'
                         | (Inr out, w') \<Rightarrow> tool_result req [(''output'', AnyString (trim_space out))] w')
      in if msg = [] then tool_error req ''message is required'' w
         else if length files > 0 then
           (case git_run os workDir (''add'' # map (sys_Show os) files) w of
              (Inl err, w') \<Rightarrow> tool_error req err w'
            | (Inr _, w') \<Rightarrow> commit w')
         else commit w)"

definition git_diff :: "'w system \<Rightarrow> string \<Rightarrow> 'w adapter" where
  "git_diff os workDir req w =
     (case git_run os workDir [''diff''] w of
        (Inl err, w') \<Rightarrow> tool_error req err w'
      | (Inr out, w') \<Rightarrow> tool_result req [(''diff'', AnyString (if length out > 50000 then take 50000 out else out))] w')"

definition git_branch :: "'w system \<Rightarrow> string \<Rightarrow> 'w adapter" where
  "git_branch os workDir req w =
     (case git_run os workDir [''branch'', ''--list''] w of
        (Inl err, w') \<Rightarrow> tool_error req err w'
      | (Inr out, w') \<Rightarrow>
          (let branches = map (\<lambda>l. trim_prefix l ''* '') (output_lines out)
           in tool_result req [(''branches'', any_strings branches), (''count'', any_int (int (length branches)))] w'))"

text \<open>The conversion of the count to \<open>int\<close> truncates; it is positive.\<close>

definition git_log :: "'w system \<Rightarrow> string \<Rightarrow> 'w adapter" where
  "git_log os workDir req w =
     (let n = (case gm_get (mr_Payload req) ''count'' of Some (AnyNumber x) \<Rightarrow> x | _ \<Rightarrow> 0);
          n = (if n \<le> 0 then 10 else n)
      in case git_run os workDir [''log'', ''--oneline'', ''-n'' @ int_digits \<lfloor>n\<rfloor>] w of
           (Inl err, w') \<Rightarrow> tool_error req err w'
         | (Inr out, w') \<Rightarrow>
             (let ls = output_lines out
              in tool_result req [(''commits'', any_strings ls), (''count'', any_int (int (length ls)))] w'))"

definition git_Execute :: "'w system \<Rightarrow> string \<Rightarrow> 'w adapter" where
  "git_Execute os workDir req w =
     (if mr_Action req = ''status'' then git_status os workDir req w
      else if mr_Action req = ''commit'' then git_commit os workDir req w
      else if mr_Action req = ''diff'' then git_diff os workDir req w
      else if mr_Action req = ''branch'' then git_branch os workDir req w
      else if mr_Action req = ''log'' then git_log os workDir req w
      else tool_error req (''unknown action: '' @ mr_Action req) w)"

subsection \<open>GitHub\<close>

text \<open>\<open>http.NewRequest\<close> returns nil for a URL it cannot parse; its error is ignored and setting a header panics (\<open>None\<close>).\<close>

definition gh_do :: "'w system \<Rightarrow> string \<Rightarrow> string \<Rightarrow> string \<Rightarrow> string \<Rightarrow> 'w \<Rightarrow> (string + http_answer) option \<times> 'w" where
  "gh_do os token http_method url body w =
     (if \<not> sys_ValidURL os url then (None, w)
      else case sys_HTTP os token http_method url body w of (r, w') \<Rightarrow> (Some r, w'))"

definition json_quote :: "string \<Rightarrow> string \<Rightarrow> string" where
  "json_quote k v = [CHR 0x22] @ k @ [CHR 0x22] @ '':'' @ [CHR 0x22] @ v @ [CHR 0x22]"

definition json_object :: "(string \<times> string) list \<Rightarrow> string" where
  "json_object kvs = ''{'' @ join_with '','' (map (\<lambda>(k, v). json_quote k v) kvs) @ ''}''"

definition gh_post :: "'w system \<Rightarrow> string \<Rightarrow> string \<Rightarrow> string \<Rightarrow> string \<Rightarrow> 'w adapter" where
  "gh_post os token url data k req w =
     (case gh_do os token ''POST'' url data w of
        (None, w') \<Rightarrow> (Panics nil_error, w')
      | (Some (Inl err), w') \<Rightarrow> tool_error req err w'
      | (Some (Inr resp), w') \<Rightarrow>
          if ha_StatusCode resp \<ge> 400
          then tool_error req (''GitHub API error '' @ int_digits (ha_StatusCode resp) @ '': '' @ ha_Raw resp) w'
          else tool_result req [(k, case ha_JSON resp of AnyMap m \<Rightarrow> AnyMap m | _ \<Rightarrow> AnyMap [])] w')"

definition createPR :: "'w system \<Rightarrow> string \<Rightarrow> 'w adapter" where
  "createPR os token req w =
     (let owner = payload_string req ''owner''; repo = payload_string req ''repo''; title = payload_string req ''title'';
          hd_ref = payload_string req ''head''; base = payload_string req ''base''; body = payload_string req ''body''
      in if owner = [] \<or> repo = [] \<or> title = [] \<or> hd_ref = [] then tool_error req ''owner, repo, title, head are required'' w
         else
           gh_post os token (''https://api.github.com/repos/'' @ owner @ ''/'' @ repo @ ''/pulls'')
             (json_object [(''title'', title), (''head'', hd_ref), (''base'', if base = [] then ''main'' else base), (''body'', body)])
             ''pr'' req w)"

definition createIssue :: "'w system \<Rightarrow> string \<Rightarrow> 'w adapter" where
  "createIssue os token req w =
     (let owner = payload_string req ''owner''; repo = payload_string req ''repo''; title = payload_string req ''title'';
          body = payload_string req ''body''
      in if owner = [] \<or> repo = [] \<or> title = [] then tool_error req ''owner, repo, title are required'' w
         else
           gh_post os token (''https://api.github.com/repos/'' @ owner @ ''/'' @ repo @ ''/issues'')
             (json_object [(''title'', title), (''body'', body)]) ''issue'' req w)"

definition issue_field :: "(string \<times> any) list \<Rightarrow> string \<Rightarrow> any" where
  "issue_field issue k = gm_at AnyNil issue k"

definition issue_summary :: "any \<Rightarrow> any list" where
  "issue_summary x =
     (case x of
        AnyMap issue \<Rightarrow>
          if gm_get issue ''pull_request'' \<noteq> None then []
          else [AnyMap [(''number'', issue_field issue ''number''), (''title'', issue_field issue ''title''),
                        (''state'', issue_field issue ''state''), (''url'', issue_field issue ''html_url'')]]
      | _ \<Rightarrow> [AnyMap [(''number'', AnyNil), (''title'', AnyNil), (''state'', AnyNil), (''url'', AnyNil)]])"

text \<open>The status code of the answer is not looked at. An answer that is not an array decodes to no issues.\<close>

definition listIssues :: "'w system \<Rightarrow> string \<Rightarrow> 'w adapter" where
  "listIssues os token req w =
     (let owner = payload_string req ''owner''; repo = payload_string req ''repo''; state = payload_string req ''state'';
          state = (if state = [] then ''open'' else state)
      in case gh_do os token ''GET'' (''https://api.github.com/repos/'' @ owner @ ''/'' @ repo @ ''/issues?state='' @ state) [] w of
           (None, w') \<Rightarrow> (Panics nil_error, w')
         | (Some (Inl err), w') \<Rightarrow> tool_error req err w'
         | (Some (Inr resp), w') \<Rightarrow>
             (let issues = (case ha_JSON resp of AnyList xs \<Rightarrow> xs | _ \<Rightarrow> []);
                  summaries = concat (map issue_summary issues)
              in tool_result req [(''issues'', AnyList summaries), (''count'', any_int (int (length summaries)))] w'))"

definition gh_Execute :: "'w system \<Rightarrow> string \<Rightarrow> 'w adapter" where
  "gh_Execute os token req w =
     (if mr_Action req = ''create_pr'' \<or> mr_Action req = ''pr.create'' then createPR os token req w
      else if mr_Action req = ''list_issues'' \<or> mr_Action req = ''issues.list'' then listIssues os token req w
      else if mr_Action req = ''create_issue'' \<or> mr_Action req = ''issues.create'' then createIssue os token req w
      else tool_error req (''unknown action: '' @ mr_Action req) w)"

subsection \<open>What they promise\<close>

text \<open>
  The shape of the answers: always a response of the request without an error value; a GitHub call can also end in a
  nil panic. The rules follow the shape of the definitions.
\<close>

definition answered :: "bool \<Rightarrow> MCPRequest \<Rightarrow> outcome \<times> 'w \<Rightarrow> bool" where
  "answered nilp req r = ((\<exists>resp. fst r = Returns resp None \<and> ms_ID resp = mr_ID req) \<or> nilp \<and> fst r = Panics nil_error)"

lemma answered_leaf:
  "answered nilp req (tool_error req e w)" "answered nilp req (tool_result req d w)" "answered True req (Panics nil_error, w)"
  by (simp_all add: answered_def)

lemma answered_sum:
  "(\<And>e w. answered n req (f e w)) \<Longrightarrow> (\<And>x w. answered n req (g x w)) \<Longrightarrow>
     answered n req (case r of (Inl e, w) \<Rightarrow> f e w | (Inr x, w) \<Rightarrow> g x w)"
  by (auto split: prod.split sum.split)

lemma answered_option:
  "(\<And>e w. answered n req (f e w)) \<Longrightarrow> (\<And>w. answered n req (g w)) \<Longrightarrow>
     answered n req (case r of (Some e, w) \<Rightarrow> f e w | (None, w) \<Rightarrow> g w)"
  by (auto split: prod.split option.split)

lemma answered_http:
  "(\<And>w. answered n req (p w)) \<Longrightarrow> (\<And>e w. answered n req (f e w)) \<Longrightarrow> (\<And>x w. answered n req (g x w)) \<Longrightarrow>
     answered n req (case r of (None, w) \<Rightarrow> p w | (Some (Inl e), w) \<Rightarrow> f e w | (Some (Inr x), w) \<Rightarrow> g x w)"
  by (auto split: prod.split option.split sum.split)

lemma answered_if: "answered n req a \<Longrightarrow> answered n req b \<Longrightarrow> answered n req (if c then a else b)"
  by simp

lemmas answered_rules = answered_leaf answered_sum answered_option answered_http answered_if

lemma answered_ID: "answered n req r \<Longrightarrow> r = (Returns resp err, w') \<Longrightarrow> ms_ID resp = mr_ID req"
  by (auto simp: answered_def)

lemma answered_nil: "answered n req r \<Longrightarrow> r = (Returns resp err, w') \<Longrightarrow> err = None"
  by (auto simp: answered_def)

lemma fs_Execute_answered: "answered False req (fs_Execute os req w)"
  unfolding fs_Execute_def fs_read_def fs_write_def fs_list_def fs_search_def Let_def by (intro answered_rules)

lemma git_Execute_answered: "answered False req (git_Execute os workDir req w)"
  unfolding git_Execute_def git_status_def git_commit_def git_diff_def git_branch_def git_log_def Let_def
  by (intro answered_rules)

lemma gh_Execute_answered: "answered True req (gh_Execute os token req w)"
  unfolding gh_Execute_def createPR_def createIssue_def listIssues_def gh_post_def Let_def by (intro answered_rules)

interpretation fs: answering "fs_Execute os" for os :: "'w system"
  by unfold_locales (erule answered_ID [OF fs_Execute_answered])

interpretation git: answering "git_Execute os workDir" for os :: "'w system" and workDir
  by unfold_locales (erule answered_ID [OF git_Execute_answered])

interpretation gh: answering "gh_Execute os token" for os :: "'w system" and token
  by unfold_locales (erule answered_ID [OF gh_Execute_answered])

text \<open>A URL that does not parse panics; text with a quote changes the structure of the body.\<close>

lemma gh_bad_url:
  assumes "mr_Action req = ''list_issues''" and "\<And>url. \<not> sys_ValidURL os url"
  shows "gh_Execute os token req w = (Panics nil_error, w)"
  using assms by (simp add: gh_Execute_def listIssues_def gh_do_def Let_def)

lemma json_injection:
  "json_object [(''title'', x @ [CHR 0x22] @ '','' @ [CHR 0x22] @ k @ [CHR 0x22] @ '':'' @ [CHR 0x22] @ v)] =
   json_object [(''title'', x), (k, v)]"
  by (simp add: json_object_def json_quote_def)

end
