(* ===== verification/Run_Observability.thy ===== *)
theory Run_Observability
  imports Run_Contracts
begin

text \<open>
  The observation of MCP calls, \<open>runtime/mcp/observability\<close>: events and the trace graph of a request, the
  telemetry collector with its ring buffers, health scores, control signals, and the latency budget,
  session tracker and signal reader of \<open>efficiency.go\<close>; and the compressed trace of
  \<open>runtime/mcp/hardening\<close>. Counters are unbounded integers, \<open>float64\<close> is rational.
\<close>

subsection \<open>Events and the trace graph\<close>

datatype mcp_event = EventGatewayRequest | EventGatewayReject | EventRouterResolve | EventRouterError
  | EventAdapterExecute | EventAdapterComplete | EventAdapterRetry | EventAdapterFail
  | EventCircuitState | EventCircuitReject | EventToolStart | EventToolComplete | EventMcpToolError
  | EventBackpressureHit | EventRetryBudgetExhaust | EventReleaseStart | EventReleaseTagCreated
  | EventReleasePublished | EventReleaseFailure | EventReleasePendingExternal | EventReleaseQueued
  | EventReleaseRetryScheduled | EventReleaseExternalRecovered | EventReleaseFinalFailure

record McpTraceEvent =
  me_Type :: mcp_event
  me_Timestamp :: int
  me_TraceID :: string
  me_SessionID :: string
  me_Tool :: string
  me_Action :: string
  me_Status :: string
  me_LatencyMS :: int
  me_Error :: string
  me_Detail :: string

definition NewTraceEvent :: "int \<Rightarrow> mcp_event \<Rightarrow> string \<Rightarrow> string \<Rightarrow> McpTraceEvent" where
  "NewTraceEvent now typ traceID sessionID =
     \<lparr>me_Type = typ, me_Timestamp = UnixMilli now, me_TraceID = traceID, me_SessionID = sessionID, me_Tool = [],
      me_Action = [], me_Status = [], me_LatencyMS = 0, me_Error = [], me_Detail = []\<rparr>"

definition maxTraceEvents :: nat where "maxTraceEvents = 8"

text \<open>The trace graph is its list of events, of which the last eight are kept.\<close>

type_synonym TraceGraph = "McpTraceEvent list"

definition NewTraceGraph :: TraceGraph where "NewTraceGraph = []"

definition tg_Add :: "McpTraceEvent \<Rightarrow> TraceGraph \<Rightarrow> TraceGraph" where
  "tg_Add evt tg = (if length tg \<ge> maxTraceEvents then take (maxTraceEvents - 1) (tl tg) @ [evt] else tg @ [evt])"

text \<open>The difference of two instants in milliseconds, in nanoseconds.\<close>

definition tg_Duration :: "TraceGraph \<Rightarrow> int" where
  "tg_Duration tg = (if length tg < 2 then 0 else (me_Timestamp (last tg) - me_Timestamp (hd tg)) * 1000000)"

lemma tg_Add_fold:
  "fold tg_Add evts NewTraceGraph = drop (length evts - maxTraceEvents) evts"
proof (induction evts rule: rev_induct)
  case (snoc e es)
  show ?case
  proof (cases "length es < maxTraceEvents")
    case True
    then show ?thesis using snoc by (simp add: tg_Add_def)
  next
    case False
    define d where "d = drop (length es - maxTraceEvents) es"
    have d: "length d = maxTraceEvents" using False by (simp add: d_def)
    then have "tg_Add e d = tl d @ [e]" by (simp add: tg_Add_def maxTraceEvents_def)
    moreover have "tl d = drop (Suc (length es) - maxTraceEvents) es"
      using False by (simp add: d_def tl_drop Suc_diff_le flip: drop_Suc)
    ultimately show ?thesis using snoc False by (simp add: d_def) (simp add: maxTraceEvents_def)
  qed
qed (simp add: NewTraceGraph_def)

subsection \<open>Telemetry\<close>

record toolLatencyStats =
  tl_buffer :: "int list"
  tl_pos :: nat
  tl_count :: nat
  tl_capacity :: nat

definition newToolLatencyStats :: "nat \<Rightarrow> toolLatencyStats" where
  "newToolLatencyStats capacity = \<lparr>tl_buffer = replicate capacity 0, tl_pos = 0, tl_count = 0, tl_capacity = capacity\<rparr>"

definition tl_record :: "int \<Rightarrow> toolLatencyStats \<Rightarrow> toolLatencyStats" where
  "tl_record ms s = s
     \<lparr>tl_buffer := (tl_buffer s)[tl_pos s := ms], tl_pos := (tl_pos s + 1) mod tl_capacity s,
      tl_count := (if tl_count s < tl_capacity s then tl_count s + 1 else tl_count s)\<rparr>"

text \<open>Go's division truncates towards zero.\<close>

definition quot :: "int \<Rightarrow> int \<Rightarrow> int" where
  "quot a b = sgn a * sgn b * (\<bar>a\<bar> div \<bar>b\<bar>)"

definition tl_snapshot :: "toolLatencyStats \<Rightarrow> int \<times> nat" where
  "tl_snapshot s =
     (if tl_count s = 0 then (0, 0)
      else
        let n = tl_count s;
            sum = fold (\<lambda>i sum. sum + tl_buffer s ! ((tl_pos s + tl_capacity s + i - n) mod tl_capacity s)) [0..<n] 0
        in (quot sum (int n), n))"

record TelemetryCollector =
  tc_sampleRate :: int
  tc_sampleCount :: int
  tc_toolLatency :: "(string, toolLatencyStats) gomap"
  tc_queueDepth :: int
  tc_cbStateCount :: "(string, int) gomap"
  tc_retryConsumed :: int
  tc_saturationHits :: int
  tc_requestTotal :: int
  tc_rejectTotal :: int

definition NewTelemetryCollector :: "int \<Rightarrow> TelemetryCollector" where
  "NewTelemetryCollector sampleRate =
     \<lparr>tc_sampleRate = (if sampleRate \<le> 0 then 1 else sampleRate), tc_sampleCount = 0, tc_toolLatency = [],
      tc_queueDepth = 0, tc_cbStateCount = [], tc_retryConsumed = 0, tc_saturationHits = 0, tc_requestTotal = 0,
      tc_rejectTotal = 0\<rparr>"

definition ShouldSample :: "TelemetryCollector \<Rightarrow> bool \<times> TelemetryCollector" where
  "ShouldSample tc = (let prev = tc_sampleCount tc + 1 in (prev mod tc_sampleRate tc = 0, tc\<lparr>tc_sampleCount := prev\<rparr>))"

definition RecordToolLatency :: "string \<Rightarrow> int \<Rightarrow> TelemetryCollector \<Rightarrow> TelemetryCollector" where
  "RecordToolLatency tool ms tc = tc
     \<lparr>tc_toolLatency := gm_put tool (tl_record ms (gm_at (newToolLatencyStats 100) (tc_toolLatency tc) tool)) (tc_toolLatency tc)\<rparr>"

definition RecordQueueDepth :: "int \<Rightarrow> TelemetryCollector \<Rightarrow> TelemetryCollector" where
  "RecordQueueDepth depth tc = tc\<lparr>tc_queueDepth := depth\<rparr>"

definition RecordCBState :: "string \<Rightarrow> string \<Rightarrow> TelemetryCollector \<Rightarrow> TelemetryCollector" where
  "RecordCBState tool state tc =
     (let k = tool @ ''::'' @ state in tc\<lparr>tc_cbStateCount := gm_put k (gm_at 0 (tc_cbStateCount tc) k + 1) (tc_cbStateCount tc)\<rparr>)"

definition RecordRetryConsumed :: "TelemetryCollector \<Rightarrow> TelemetryCollector" where
  "RecordRetryConsumed tc = tc\<lparr>tc_retryConsumed := tc_retryConsumed tc + 1\<rparr>"

definition RecordSaturationHit :: "TelemetryCollector \<Rightarrow> TelemetryCollector" where
  "RecordSaturationHit tc = tc\<lparr>tc_saturationHits := tc_saturationHits tc + 1\<rparr>"

definition RecordRequest :: "TelemetryCollector \<Rightarrow> TelemetryCollector" where
  "RecordRequest tc = tc\<lparr>tc_requestTotal := tc_requestTotal tc + 1\<rparr>"

definition RecordReject :: "TelemetryCollector \<Rightarrow> TelemetryCollector" where
  "RecordReject tc = tc\<lparr>tc_rejectTotal := tc_rejectTotal tc + 1\<rparr>"

record TelemetrySnapshot =
  sn_RequestTotal :: int
  sn_RejectTotal :: int
  sn_SaturationHits :: int
  sn_RetryConsumed :: int
  sn_QueueDepth :: int
  sn_ToolLatency :: "(string, int) gomap"
  sn_CBStateDist :: "(string, int) gomap"
  sn_RejectRate :: rat

definition tc_Snapshot :: "TelemetryCollector \<Rightarrow> TelemetrySnapshot" where
  "tc_Snapshot tc =
     \<lparr>sn_RequestTotal = tc_requestTotal tc, sn_RejectTotal = tc_rejectTotal tc, sn_SaturationHits = tc_saturationHits tc,
      sn_RetryConsumed = tc_retryConsumed tc, sn_QueueDepth = tc_queueDepth tc,
      sn_ToolLatency = map (\<lambda>(tool, stats). (tool, fst (tl_snapshot stats))) (tc_toolLatency tc),
      sn_CBStateDist = tc_cbStateCount tc,
      sn_RejectRate = (if tc_requestTotal tc > 0 then of_int (tc_rejectTotal tc) / of_int (tc_requestTotal tc) else 0)\<rparr>"

subsection \<open>The ring buffer is the list of the last values\<close>

definition ring :: "int list \<Rightarrow> toolLatencyStats \<Rightarrow> bool" where
  "ring ms s \<longleftrightarrow> tl_capacity s > 0 \<and> length (tl_buffer s) = tl_capacity s \<and> tl_pos s = length ms mod tl_capacity s \<and>
     tl_count s = min (length ms) (tl_capacity s) \<and>
     (\<forall>i < length ms. length ms \<le> i + tl_capacity s \<longrightarrow> tl_buffer s ! (i mod tl_capacity s) = ms ! i)"

lemma ring_New: "c > 0 \<Longrightarrow> ring [] (newToolLatencyStats c)"
  by (simp add: ring_def newToolLatencyStats_def)

lemma mod_eq_close:
  fixes i n c :: nat
  assumes "i mod c = n mod c" and "i < n" and "n < i + c"
  shows False
proof -
  have "c dvd n - i" using assms(1,2) by (metis less_or_eq_imp_le mod_eq_dvd_iff_nat)
  then show False using assms(2,3) by (auto dest!: dvd_imp_le)
qed

lemma ring_record:
  assumes "ring ms s"
  shows "ring (ms @ [x]) (tl_record x s)"
proof -
  let ?c = "tl_capacity s" and ?n = "length ms"
  have c: "?c > 0" "length (tl_buffer s) = ?c" "tl_pos s = ?n mod ?c" "tl_count s = min ?n ?c"
    and b: "\<And>i. i < ?n \<Longrightarrow> ?n \<le> i + ?c \<Longrightarrow> tl_buffer s ! (i mod ?c) = ms ! i"
    using assms by (auto simp: ring_def)
  have "((tl_buffer s)[?n mod ?c := x]) ! (i mod ?c) = (ms @ [x]) ! i" if i: "i < Suc ?n" "Suc ?n \<le> i + ?c" for i
  proof (cases "i = ?n")
    case True
    then show ?thesis using c by simp
  next
    case False
    then have "i < ?n" using i by simp
    then have "i mod ?c \<noteq> ?n mod ?c" using mod_eq_close [of i ?c ?n] i by auto
    then show ?thesis using b [of i] i \<open>i < ?n\<close> by (simp add: nth_append)
  qed
  then show ?thesis using c by (auto simp: ring_def tl_record_def mod_Suc_eq)
qed

lemma ring_records: "ring ms s \<Longrightarrow> ring (ms @ xs) (fold tl_record xs s)"
proof (induction xs arbitrary: ms s)
  case (Cons x xs)
  from Cons.IH [OF ring_record [OF Cons.prems, of x]] show ?case by simp
qed simp

lemma fold_sum_upt: "fold (\<lambda>i sum. sum + f i) [0..<n] (a :: int) = a + sum_list (map f [0..<n])"
  by (induction n) simp_all

text \<open>The average of the last values.\<close>

definition last_average :: "nat \<Rightarrow> int list \<Rightarrow> int \<times> nat" where
  "last_average c ms = (let xs = drop (length ms - c) ms in (quot (sum_list xs) (int (length xs)), length xs))"

lemma ring_snapshot:
  assumes "ring ms s"
  shows "tl_snapshot s = last_average (tl_capacity s) ms"
proof (cases "ms = []")
  case True
  then show ?thesis using assms by (simp add: ring_def tl_snapshot_def last_average_def quot_def)
next
  case False
  let ?c = "tl_capacity s" and ?n = "length ms" and ?k = "min (length ms) (tl_capacity s)"
  have c: "?c > 0" "tl_pos s = ?n mod ?c" "tl_count s = ?k"
    and b: "\<And>i. i < ?n \<Longrightarrow> ?n \<le> i + ?c \<Longrightarrow> tl_buffer s ! (i mod ?c) = ms ! i"
    using assms by (auto simp: ring_def)
  have e: "tl_buffer s ! ((tl_pos s + ?c + i - ?k) mod ?c) = ms ! (?n - ?k + i)" if "i < ?k" for i
  proof -
    have "(?n mod ?c + ?c + i - ?k) mod ?c = (?n mod ?c + (?c + i - ?k)) mod ?c"
      by (rule arg_cong [of _ _ "\<lambda>x. x mod ?c"]) (auto simp: min_def)
    also have "\<dots> = (?n + (?c + i - ?k)) mod ?c" by (rule mod_add_left_eq)
    also have "\<dots> = ((?n - ?k + i) + ?c) mod ?c"
      by (rule arg_cong [of _ _ "\<lambda>x. x mod ?c"]) (auto simp: min_def)
    also have "\<dots> = (?n - ?k + i) mod ?c" by (rule mod_add_self2)
    finally show ?thesis using b [of "?n - ?k + i"] that c(2) by (simp add: min_def split: if_splits)
  qed
  have "map (\<lambda>i. tl_buffer s ! ((tl_pos s + ?c + i - ?k) mod ?c)) [0..<?k] = map (\<lambda>i. ms ! (?n - ?k + i)) [0..<?k]"
    by (rule map_cong) (auto simp: e)
  also have "\<dots> = drop (?n - ?c) ms"
    by (rule nth_equalityI) (auto simp: min_def)
  finally have "sum_list (map (\<lambda>i. tl_buffer s ! ((tl_pos s + ?c + i - ?k) mod ?c)) [0..<?k]) = sum_list (drop (?n - ?c) ms)"
    by (rule arg_cong)
  then show ?thesis
    using False c by (simp add: tl_snapshot_def last_average_def fold_sum_upt Let_def) (auto simp: min_def)
qed

lemma RecordToolLatency_get:
  "tc_toolLatency (RecordToolLatency tool ms tc) =
     gm_put tool (tl_record ms (gm_at (newToolLatencyStats 100) (tc_toolLatency tc) tool)) (tc_toolLatency tc)"
  by (simp add: RecordToolLatency_def)

text \<open>The latency of a tool in a snapshot is the average of its last hundred recorded values, wherever the ring buffer
  stands.\<close>

theorem tool_latency_average:
  "let tc' = fold (\<lambda>(tool, ms). RecordToolLatency tool ms) evts (NewTelemetryCollector r);
       of_tool = (\<lambda>tool. map snd (filter (\<lambda>e. fst e = tool) evts))
   in gm_get (sn_ToolLatency (tc_Snapshot tc')) =
      (\<lambda>tool. if of_tool tool = [] then None else Some (fst (last_average 100 (of_tool tool))))"
proof -
  define of_tool where "of_tool evts tool = map snd (filter (\<lambda>e. fst e = tool) evts)" for evts :: "(string \<times> int) list" and tool
  let ?run = "\<lambda>evts. fold (\<lambda>(tool, ms). RecordToolLatency tool ms) evts (NewTelemetryCollector r)"
  have inv: "(case gm_get (tc_toolLatency (?run evts)) tool of
        None \<Rightarrow> of_tool evts tool = []
      | Some s \<Rightarrow> of_tool evts tool \<noteq> [] \<and> ring (of_tool evts tool) s \<and> tl_capacity s = 100)" for evts tool
  proof (induction evts rule: rev_induct)
    case Nil
    then show ?case by (simp add: NewTelemetryCollector_def of_tool_def)
  next
    case (snoc e es)
    obtain t ms where e: "e = (t, ms)" by (cases e)
    have cap: "tl_capacity (tl_record x s) = tl_capacity s" for x s by (simp add: tl_record_def)
    show ?case
    proof (cases "t = tool")
      case True
      have "ring (of_tool es tool) (gm_at (newToolLatencyStats 100) (tc_toolLatency (?run es)) tool) \<and>
          tl_capacity (gm_at (newToolLatencyStats 100) (tc_toolLatency (?run es)) tool) = 100"
        using snoc ring_New [of 100]
        by (auto simp: gm_at_def newToolLatencyStats_def split: option.splits)
      then show ?thesis using True e cap ring_record by (auto simp: of_tool_def RecordToolLatency_get)
    next
      case False
      then have "of_tool (es @ [e]) tool = of_tool es tool" using e by (simp add: of_tool_def)
      then show ?thesis using False snoc e by (auto simp: RecordToolLatency_get split: option.splits)
    qed
  qed
  have "gm_get (sn_ToolLatency (tc_Snapshot (?run evts))) tool =
      (if of_tool evts tool = [] then None else Some (fst (last_average 100 (of_tool evts tool))))" for tool
  proof -
    have "gm_get (sn_ToolLatency (tc_Snapshot (?run evts))) tool =
        map_option (\<lambda>s. fst (tl_snapshot s)) (gm_get (tc_toolLatency (?run evts)) tool)"
      by (simp add: tc_Snapshot_def gm_get_def map_of_map)
    then show ?thesis using inv [of evts tool] ring_snapshot by (auto split: option.splits)
  qed
  then show ?thesis by (simp add: Let_def of_tool_def fun_eq_iff)
qed

subsection \<open>Health and control signals\<close>

record HealthScores =
  hs_ToolHealthScore :: rat
  hs_RouterStabilityScore :: rat
  hs_GatewayLoadScore :: rat
  hs_SystemSaturationIndex :: rat
  hs_OverallHealth :: rat

definition clamp :: "rat \<Rightarrow> rat" where
  "clamp v = (if v < 0 then 0 else if v > 1 then 1 else v)"

definition computeToolHealth :: "int \<Rightarrow> int \<Rightarrow> rat" where
  "computeToolHealth openCount totalCount =
     (if totalCount = 0 then 1 else clamp (1 - of_int openCount / of_int totalCount))"

definition computeRouterStability :: "rat \<Rightarrow> rat" where
  "computeRouterStability rejectRate =
     (if rejectRate \<ge> 1 / 2 then 1 / 5 else if rejectRate \<ge> 3 / 10 then 1 / 2 else if rejectRate \<ge> 1 / 10 then 4 / 5 else 1)"

definition computeGatewayLoad :: "rat \<Rightarrow> rat" where
  "computeGatewayLoad activePct = clamp (1 - activePct)"

definition computeSystemSaturation :: "rat \<Rightarrow> rat \<Rightarrow> int \<Rightarrow> int \<Rightarrow> rat" where
  "computeSystemSaturation activePct rejectRate openCount totalCount =
     (let rejectFactor = min (rejectRate * 2) 1;
          cbFactor = (if totalCount > 0 then min (of_int openCount / of_int totalCount) 1 else 0)
      in clamp ((activePct + rejectFactor + cbFactor) / 3))"

definition snapshot_reject_rate :: "TelemetrySnapshot \<Rightarrow> rat" where
  "snapshot_reject_rate snap =
     (if sn_RejectRate snap = 0 \<and> sn_RequestTotal snap > 0 then of_int (sn_RejectTotal snap) / of_int (sn_RequestTotal snap)
      else sn_RejectRate snap)"

definition ComputeHealthScores :: "TelemetrySnapshot \<Rightarrow> rat \<Rightarrow> int \<Rightarrow> int \<Rightarrow> HealthScores" where
  "ComputeHealthScores snap activePct cbOpenCount cbTotalCount =
     (let rejectRate = snapshot_reject_rate snap;
          toolHealth = computeToolHealth cbOpenCount cbTotalCount;
          routerStability = computeRouterStability rejectRate;
          gatewayLoad = computeGatewayLoad activePct;
          sysSat = computeSystemSaturation activePct rejectRate cbOpenCount cbTotalCount
      in \<lparr>hs_ToolHealthScore = toolHealth, hs_RouterStabilityScore = routerStability, hs_GatewayLoadScore = gatewayLoad,
          hs_SystemSaturationIndex = sysSat,
          hs_OverallHealth = clamp ((toolHealth + routerStability + gatewayLoad + (1 - sysSat)) / 4)\<rparr>)"

lemma clamp_range: "0 \<le> clamp v" "clamp v \<le> 1"
  by (simp_all add: clamp_def)

lemma health_range:
  "hs_OverallHealth (ComputeHealthScores snap a c1 c2) \<in> {0..1}" "hs_SystemSaturationIndex (ComputeHealthScores snap a c1 c2) \<in> {0..1}"
  by (simp_all add: ComputeHealthScores_def Let_def clamp_range computeSystemSaturation_def)

datatype SignalType = SignalSaturationWarning | SignalRoutingPressureHigh | SignalRetryBudgetDepletion
  | SignalToolHealthDegradation

record ControlSignal =
  cs_Type :: SignalType
  cs_Severity :: string
  cs_Component :: string
  cs_Message :: string
  cs_Value :: rat
  cs_Threshold :: rat

definition severityLevel :: "rat \<Rightarrow> string" where
  "severityLevel pct = (if pct \<ge> 95 / 100 then ''critical'' else if pct \<ge> 85 / 100 then ''warning'' else ''info'')"

definition ComputeControlSignals :: "TelemetrySnapshot \<Rightarrow> rat \<Rightarrow> int \<Rightarrow> rat \<Rightarrow> ControlSignal list" where
  "ComputeControlSignals snap activePct cbOpenTools retryUsedPct =
     (let rejectRate = snapshot_reject_rate snap
      in (if activePct \<ge> 8 / 10
          then [\<lparr>cs_Type = SignalSaturationWarning, cs_Severity = severityLevel activePct, cs_Component = ''gateway'',
                 cs_Message = ''backpressure near capacity'', cs_Value = activePct, cs_Threshold = 8 / 10\<rparr>] else []) @
         (if rejectRate \<ge> 3 / 10
          then [\<lparr>cs_Type = SignalRoutingPressureHigh, cs_Severity = severityLevel (sn_RejectRate snap), cs_Component = ''router'',
                 cs_Message = ''routing rejection rate elevated'', cs_Value = rejectRate, cs_Threshold = 3 / 10\<rparr>] else []) @
         (if retryUsedPct \<ge> 5 / 10
          then [\<lparr>cs_Type = SignalRetryBudgetDepletion, cs_Severity = severityLevel retryUsedPct, cs_Component = ''retry'',
                 cs_Message = ''retry budget consumption high'', cs_Value = retryUsedPct, cs_Threshold = 5 / 10\<rparr>] else []) @
         (if cbOpenTools > 0
          then [\<lparr>cs_Type = SignalToolHealthDegradation, cs_Severity = ''warning'', cs_Component = ''circuit_breaker'',
                 cs_Message = ''tools in degraded state'', cs_Value = of_int cbOpenTools, cs_Threshold = 0\<rparr>] else []))"

subsection \<open>Budget, sessions, signals\<close>

definition NewLatencyBudget :: "int \<Rightarrow> int" where
  "NewLatencyBudget mx = (if mx \<le> 0 then 30 * second else mx)"

text \<open>\<open>duration\<close> is \<open>Duration.String\<close>; the elapsed time since the start is an argument.\<close>

definition lb_Check :: "(int \<Rightarrow> string) \<Rightarrow> int \<Rightarrow> int \<Rightarrow> string option" where
  "lb_Check duration maxDuration elapsed =
     (if elapsed > maxDuration then Some (''LATENCY_BUDGET_EXCEEDED: '' @ duration maxDuration) else None)"

record FastPathConfig =
  fp_skipThreshold :: rat
  fp_traceEnabled :: bool

definition DefaultFastPathConfig :: FastPathConfig where
  "DefaultFastPathConfig = \<lparr>fp_skipThreshold = 3 / 10, fp_traceEnabled = True\<rparr>"

definition ShouldSkipTrace :: "FastPathConfig \<Rightarrow> rat \<Rightarrow> bool" where
  "ShouldSkipTrace fc loadPct \<longleftrightarrow> \<not> fp_traceEnabled fc \<or> loadPct < fp_skipThreshold fc"

record SessionTracker =
  st_sessions :: "(string, int) gomap"
  st_maxIdle :: int
  st_maxSessions :: int

definition NewSessionTracker :: "int \<Rightarrow> int \<Rightarrow> SessionTracker" where
  "NewSessionTracker maxSessions maxIdle =
     \<lparr>st_sessions = [], st_maxIdle = (if maxIdle \<le> 0 then 30 * minute else maxIdle),
      st_maxSessions = (if maxSessions \<le> 0 then 100 else maxSessions)\<rparr>"

definition Touch :: "int \<Rightarrow> string \<Rightarrow> SessionTracker \<Rightarrow> SessionTracker" where
  "Touch now sid st = st\<lparr>st_sessions := gm_put sid now (st_sessions st)\<rparr>"

definition IsStale :: "int \<Rightarrow> string \<Rightarrow> SessionTracker \<Rightarrow> bool" where
  "IsStale now sid st = (case gm_get (st_sessions st) sid of None \<Rightarrow> True | Some seen \<Rightarrow> now - seen > st_maxIdle st)"

definition EvictStale :: "int \<Rightarrow> SessionTracker \<Rightarrow> nat \<times> SessionTracker" where
  "EvictStale now st =
     (let stale = filter (\<lambda>(_, seen). now - seen > st_maxIdle st) (st_sessions st)
      in (length stale, st\<lparr>st_sessions := filter (\<lambda>(_, seen). \<not> now - seen > st_maxIdle st) (st_sessions st)\<rparr>))"

definition st_ActiveCount :: "SessionTracker \<Rightarrow> nat" where "st_ActiveCount st = length (st_sessions st)"

definition CanAccept :: "SessionTracker \<Rightarrow> bool" where
  "CanAccept st \<longleftrightarrow> int (length (st_sessions st)) < st_maxSessions st"

lemma key_in: "(k, v) \<in> set m \<Longrightarrow> k \<in> fst ` set m"
  by force

lemma gm_get_filter_snd:
  "gm_wf m \<Longrightarrow> gm_get (filter (\<lambda>(k, v). P v) m) k =
     (case gm_get m k of None \<Rightarrow> None | Some v \<Rightarrow> if P v then Some v else None)"
  by (induction m) (auto simp: gm_get_def gm_wf_def gm_keys_def split: option.splits dest: map_of_SomeD key_in)

text \<open>Eviction forgets exactly the stale sessions.\<close>

lemma EvictStale_spec:
  assumes "gm_wf (st_sessions st)"
  shows "gm_get (st_sessions (snd (EvictStale now st))) sid = (if IsStale now sid st then None else gm_get (st_sessions st) sid)"
  using gm_get_filter_snd [OF assms, of "\<lambda>seen. \<not> now - seen > st_maxIdle st" sid]
  by (simp add: EvictStale_def IsStale_def Let_def split: option.splits)

text \<open>A reader without a function is \<open>None\<close>.\<close>

definition SaturationPct :: "rat option \<Rightarrow> rat" where "SaturationPct f = (case f of None \<Rightarrow> 0 | Some v \<Rightarrow> v)"
definition HealthScore :: "rat option \<Rightarrow> rat" where "HealthScore f = (case f of None \<Rightarrow> 1 | Some v \<Rightarrow> v)"

subsection \<open>Compressed traces\<close>

record CompressedTrace =
  ct_RequestID :: string
  ct_Tool :: string
  ct_Action :: string
  ct_Success :: bool
  ct_LatencyMS :: int
  ct_Decision :: string
  ct_DeniedAt :: string
  ct_PolicyIDs :: "string list"
  ct_Error :: string
  ct_Timestamp :: int

definition CompressResponse :: "int \<Rightarrow> MCPResponse \<Rightarrow> string \<Rightarrow> string \<Rightarrow> string list \<Rightarrow> CompressedTrace" where
  "CompressResponse now resp decision deniedAt policyIDs =
     \<lparr>ct_RequestID = ms_ID resp, ct_Tool = [], ct_Action = [], ct_Success = ms_Success resp, ct_LatencyMS = ms_LatencyMS resp,
      ct_Decision = decision, ct_DeniedAt = deniedAt, ct_PolicyIDs = policyIDs, ct_Error = ms_Error resp,
      ct_Timestamp = UnixMilli now\<rparr>"

end
