(* ===== verification/Run_Release.thy ===== *)
theory Run_Release
  imports Run_Observability
begin

text \<open>
  The release orchestrator, \<open>runtime/mcp/release\<close>: retry states (\<open>retry.go\<close>), the release queue with its file
  (\<open>queue.go\<close>, \<open>persistence.go\<close>), the idempotency store, the GitHub bridge (\<open>github.go\<close>) and the orchestrator.

  What is outside the program is the record \<open>outside\<close> over a world \<open>'g\<close>: HTTP requests, the two git
  commands, the clock, SHA-256 as hexadecimal text and its first eight bytes as a number. A file holds
  the value that the JSON codec writes, is missing, or cannot be decoded; writes go through or fail as
  \<open>relq_writable\<close> says. The events a notification function is called with are collected in the state.
\<close>

subsection \<open>The outside\<close>

datatype gh_body = NoBody | TagBody string string string string | RefBody string string
  | ReleaseBody string string string string bool bool

record gh_response =
  hr_StatusCode :: int
  hr_Body :: string
  hr_SHA :: string
  hr_HTMLURL :: string

record 'g outside =
  out_http :: "string \<Rightarrow> string \<Rightarrow> string \<Rightarrow> gh_body \<Rightarrow> 'g \<Rightarrow> (string + gh_response) \<times> 'g"
  out_git_list :: "string \<Rightarrow> string \<Rightarrow> 'g \<Rightarrow> string \<times> 'g"
  out_git_tag :: "string \<Rightarrow> string \<Rightarrow> string \<Rightarrow> string \<Rightarrow> 'g \<Rightarrow> string option \<times> 'g"
  out_clock :: "'g \<Rightarrow> int"
  out_sha256 :: "string \<Rightarrow> string"
  out_seed :: "string \<Rightarrow> int"

datatype 'a stored = Missing | Corrupt | Holds 'a

subsection \<open>Retry states\<close>

record RetryState =
  rs_Attempts :: int
  rs_NextRetryAt :: int
  rs_Finalized :: bool

definition maxRetryAttempts :: int where "maxRetryAttempts = 5"

definition deterministicJitter :: "(string \<Rightarrow> int) \<Rightarrow> string \<Rightarrow> string \<Rightarrow> int \<Rightarrow> rat \<Rightarrow> rat" where
  "deterministicJitter seed commitSHA version attempt maxJitter =
     of_int (seed (commitSHA @ version @ [char_of (nat attempt)]) mod 1000000) / 1000000 * maxJitter"

definition ComputeNextRetry :: "(string \<Rightarrow> int) \<Rightarrow> int \<Rightarrow> string \<Rightarrow> string \<Rightarrow> int" where
  "ComputeNextRetry seed attempts commitSHA version =
     (if attempts \<le> 0 then 0
      else if attempts > maxRetryAttempts then 0
      else
        let backoff = 30 * 2 ^ nat (attempts - 1);
            backoff = (if backoff > 3600 then 3600 else backoff);
            jitter = deterministicJitter seed commitSHA version attempts (2 / 10);
            total = backoff * (1 + jitter)
        in \<lfloor>total * of_int second\<rfloor>)"

definition NewRetryState :: "(string \<Rightarrow> int) \<Rightarrow> int \<Rightarrow> string \<Rightarrow> string \<Rightarrow> RetryState" where
  "NewRetryState seed now commitSHA version =
     \<lparr>rs_Attempts = 0, rs_NextRetryAt = UnixMilli (now + ComputeNextRetry seed 1 commitSHA version), rs_Finalized = False\<rparr>"

definition AdvanceRetryState :: "(string \<Rightarrow> int) \<Rightarrow> int \<Rightarrow> RetryState \<Rightarrow> string \<Rightarrow> string \<Rightarrow> RetryState" where
  "AdvanceRetryState seed now rs commitSHA version =
     (let rs = rs\<lparr>rs_Attempts := rs_Attempts rs + 1\<rparr>
      in if rs_Attempts rs \<ge> maxRetryAttempts then rs\<lparr>rs_Finalized := True\<rparr>
         else rs\<lparr>rs_NextRetryAt := UnixMilli (now + ComputeNextRetry seed (rs_Attempts rs) commitSHA version)\<rparr>)"

definition IsRetryDue :: "int \<Rightarrow> RetryState \<Rightarrow> bool" where
  "IsRetryDue now rs \<longleftrightarrow> \<not> rs_Finalized rs \<and> UnixMilli now \<ge> rs_NextRetryAt rs"

subsection \<open>The release queue\<close>

record ReleaseInput =
  ri_Repo :: string
  ri_Version :: string
  ri_CommitSHA :: string
  ri_ReleaseNotes :: string
  ri_Artifacts :: "string list"

datatype ReleaseStatus = RelPendingExternal | RelQueued | RelPublishing | RelCompleted | RelFinalFailed

fun release_text :: "ReleaseStatus \<Rightarrow> string" where
  "release_text RelPendingExternal = ''PENDING_EXTERNAL''"
| "release_text RelQueued = ''QUEUED''"
| "release_text RelPublishing = ''PUBLISHING''"
| "release_text RelCompleted = ''COMPLETED''"
| "release_text RelFinalFailed = ''FINAL_FAILED''"

record ReleaseEntry =
  rel_ReleaseID :: string
  rel_CommitSHA :: string
  rel_Version :: string
  rel_RepoOwner :: string
  rel_RepoName :: string
  rel_ReleaseNotes :: string
  rel_Status :: ReleaseStatus
  rel_Retry :: RetryState
  rel_IdempotencyKey :: string
  rel_CreatedAt :: int
  rel_UpdatedAt :: int
  rel_LastError :: string

record ReleaseQueue =
  relq_entries :: "ReleaseEntry list"
  relq_events :: "McpTraceEvent list"
  relq_persistPath :: string
  relq_disk :: "ReleaseEntry list stored"
  relq_writable :: bool

definition recover_entry :: "ReleaseEntry \<Rightarrow> ReleaseEntry" where
  "recover_entry e = (if rel_Status e = RelPendingExternal \<or> rel_Status e = RelQueued
     then e\<lparr>rel_Status := RelPendingExternal\<rparr> else e)"

definition LoadQueue :: "ReleaseEntry list stored \<Rightarrow> ReleaseEntry list option" where
  "LoadQueue f = (case f of Missing \<Rightarrow> Some [] | Corrupt \<Rightarrow> None | Holds es \<Rightarrow> Some es)"

definition relq_recover :: "ReleaseQueue \<Rightarrow> ReleaseQueue" where
  "relq_recover q = (case LoadQueue (relq_disk q) of None \<Rightarrow> q | Some es \<Rightarrow> q\<lparr>relq_entries := map recover_entry es\<rparr>)"

definition NewReleaseQueue :: "bool \<Rightarrow> ReleaseEntry list stored \<Rightarrow> string \<Rightarrow> ReleaseQueue" where
  "NewReleaseQueue writable disk persistPath =
     (let q = \<lparr>relq_entries = [], relq_events = [], relq_persistPath = persistPath, relq_disk = disk, relq_writable = writable\<rparr>
      in if persistPath \<noteq> [] then relq_recover q else q)"

definition persist :: "ReleaseQueue \<Rightarrow> ReleaseQueue" where
  "persist q = (if relq_persistPath q = [] then q
     else if relq_writable q then q\<lparr>relq_disk := Holds (relq_entries q)\<rparr> else q)"

definition relq_notify :: "McpTraceEvent \<Rightarrow> ReleaseQueue \<Rightarrow> ReleaseQueue" where
  "relq_notify ev q = q\<lparr>relq_events := relq_events q @ [ev]\<rparr>"

definition truncateSHA :: "string \<Rightarrow> nat \<Rightarrow> string" where
  "truncateSHA sha n = (if length sha < n then sha else take n sha)"

definition IdempotencyKey :: "(string \<Rightarrow> string) \<Rightarrow> string \<Rightarrow> string \<Rightarrow> string" where
  "IdempotencyKey sha256 commitSHA versionTag = sha256 (commitSHA @ '':'' @ versionTag)"

definition relq_Enqueue :: "'g outside \<Rightarrow> int \<Rightarrow> ReleaseInput \<Rightarrow> string \<Rightarrow> string \<Rightarrow> ReleaseQueue \<Rightarrow> ReleaseEntry \<times> ReleaseQueue" where
  "relq_Enqueue out now input owner repo q =
     (let entry = \<lparr>rel_ReleaseID = ri_Version input @ ''@'' @ truncateSHA (ri_CommitSHA input) 8,
            rel_CommitSHA = ri_CommitSHA input, rel_Version = ri_Version input, rel_RepoOwner = owner, rel_RepoName = repo,
            rel_ReleaseNotes = ri_ReleaseNotes input, rel_Status = RelPendingExternal,
            rel_Retry = NewRetryState (out_seed out) now (ri_CommitSHA input) (ri_Version input),
            rel_IdempotencyKey = IdempotencyKey (out_sha256 out) (ri_CommitSHA input) (ri_Version input),
            rel_CreatedAt = UnixMilli now, rel_UpdatedAt = UnixMilli now, rel_LastError = []\<rparr>
      in (entry, relq_notify
           ((NewTraceEvent now EventReleaseQueued [] [])\<lparr>me_Detail := rel_ReleaseID entry, me_Status := release_text (rel_Status entry)\<rparr>)
           (persist (q\<lparr>relq_entries := relq_entries q @ [entry]\<rparr>))))"

definition eligible_entry :: "int \<Rightarrow> ReleaseEntry \<Rightarrow> bool" where
  "eligible_entry now e \<longleftrightarrow>
     rel_Status e = RelPendingExternal \<or> rel_Status e = RelQueued \<and> IsRetryDue now (rel_Retry e)"

text \<open>The loops of \<open>Dequeue\<close> and \<open>Complete\<close>: the first entry that satisfies a condition is updated.\<close>

fun update_first :: "('a \<Rightarrow> bool) \<Rightarrow> ('a \<Rightarrow> 'a) \<Rightarrow> 'a list \<Rightarrow> ('a \<times> 'a list) option" where
  "update_first P f [] = None"
| "update_first P f (x # xs) =
     (if P x then Some (f x, f x # xs)
      else case update_first P f xs of None \<Rightarrow> None | Some (y, ys) \<Rightarrow> Some (y, x # ys))"

definition relq_Dequeue :: "int \<Rightarrow> ReleaseQueue \<Rightarrow> ReleaseEntry option \<times> ReleaseQueue" where
  "relq_Dequeue now q =
     (case update_first (eligible_entry now) (\<lambda>e. e\<lparr>rel_Status := RelPublishing, rel_UpdatedAt := UnixMilli now\<rparr>) (relq_entries q) of
        None \<Rightarrow> (None, q)
      | Some (e, es) \<Rightarrow> (Some e, persist (q\<lparr>relq_entries := es\<rparr>)))"

definition complete_entry :: "(string \<Rightarrow> int) \<Rightarrow> int \<Rightarrow> bool \<Rightarrow> string \<Rightarrow> ReleaseEntry \<Rightarrow> ReleaseEntry" where
  "complete_entry seed now good errMsg e =
     (if good then e\<lparr>rel_Status := RelCompleted, rel_UpdatedAt := UnixMilli now\<rparr>
      else
        let rs = AdvanceRetryState seed now (rel_Retry e) (rel_CommitSHA e) (rel_Version e)
        in e\<lparr>rel_Retry := rs, rel_LastError := errMsg,
             rel_Status := (if rs_Finalized rs then RelFinalFailed else RelQueued), rel_UpdatedAt := UnixMilli now\<rparr>)"

definition relq_Complete :: "(string \<Rightarrow> int) \<Rightarrow> int \<Rightarrow> string \<Rightarrow> bool \<Rightarrow> string \<Rightarrow> ReleaseQueue \<Rightarrow> ReleaseQueue" where
  "relq_Complete seed now releaseID good errMsg q =
     (case update_first (\<lambda>e. rel_ReleaseID e = releaseID) (complete_entry seed now good errMsg) (relq_entries q) of
        None \<Rightarrow> q
      | Some (_, es) \<Rightarrow> persist (q\<lparr>relq_entries := es\<rparr>))"

definition PendingCount :: "ReleaseQueue \<Rightarrow> nat" where
  "PendingCount q = length (filter
     (\<lambda>e. rel_Status e = RelPendingExternal \<or> rel_Status e = RelQueued \<or> rel_Status e = RelPublishing) (relq_entries q))"

subsection \<open>The idempotency store\<close>

type_synonym IdempotencyStore = "(string, bool) gomap"

definition NewIdempotencyStore :: IdempotencyStore where "NewIdempotencyStore = []"

definition idem_Exists :: "string \<Rightarrow> IdempotencyStore \<Rightarrow> bool" where
  "idem_Exists key store = gm_at False store key"

definition idem_Mark :: "string \<Rightarrow> IdempotencyStore \<Rightarrow> IdempotencyStore" where
  "idem_Mark key store = gm_put key True store"

definition idem_Snapshot :: "IdempotencyStore \<Rightarrow> string list" where
  "idem_Snapshot store = gm_keys store"

definition LoadIdempotencyStore :: "IdempotencyStore stored \<Rightarrow> IdempotencyStore option" where
  "LoadIdempotencyStore f = (case f of Missing \<Rightarrow> Some [] | Corrupt \<Rightarrow> None | Holds m \<Rightarrow> Some m)"

definition PersistIdempotencyStore :: "bool \<Rightarrow> string list \<Rightarrow> IdempotencyStore stored \<Rightarrow> IdempotencyStore stored" where
  "PersistIdempotencyStore writable keys f =
     (if writable then Holds (fold (\<lambda>k store. gm_put k True store) keys []) else f)"

definition PersistCompletedEntry :: "bool \<Rightarrow> string \<Rightarrow> IdempotencyStore stored \<Rightarrow> IdempotencyStore stored" where
  "PersistCompletedEntry writable key f =
     (case LoadIdempotencyStore f of
        None \<Rightarrow> f
      | Some store \<Rightarrow> if writable then Holds (gm_put key True store) else f)"

subsection \<open>The GitHub bridge\<close>

record GitHubBridge =
  gb_token :: string
  gb_owner :: string
  gb_repo :: string

definition gb_do :: "'g outside \<Rightarrow> GitHubBridge \<Rightarrow> string \<Rightarrow> string \<Rightarrow> gh_body \<Rightarrow> 'g \<Rightarrow> (string + gh_response) \<times> 'g" where
  "gb_do out gb http_method path body g =
     out_http out (gb_token gb) http_method
       (''https://api.github.com/repos/'' @ gb_owner gb @ ''/'' @ gb_repo gb @ path) body g"

definition ValidateAccess :: "'g outside \<Rightarrow> GitHubBridge \<Rightarrow> 'g \<Rightarrow> string option \<times> 'g" where
  "ValidateAccess out gb g =
     (if gb_token gb = [] then (Some ''GITHUB_TOKEN not set'', g)
      else case gb_do out gb ''GET'' [] NoBody g of
             (Inl err, g') \<Rightarrow> (Some err, g')
           | (Inr resp, g') \<Rightarrow>
               (if hr_StatusCode resp = 401 then Some ''token authentication failed (401)''
                else if hr_StatusCode resp = 404 then Some ''repository not found (404)''
                else if hr_StatusCode resp \<ge> 400 then Some (''access check failed: HTTP '' @ int_digits (hr_StatusCode resp))
                else None, g'))"

definition TagExists :: "'g outside \<Rightarrow> GitHubBridge \<Rightarrow> string \<Rightarrow> 'g \<Rightarrow> bool \<times> 'g" where
  "TagExists out gb tagName g =
     (case gb_do out gb ''GET'' (''/git/refs/tags/'' @ tagName) NoBody g of
        (Inl _, g') \<Rightarrow> (False, g')
      | (Inr resp, g') \<Rightarrow> (hr_StatusCode resp = 200, g'))"

definition ReleaseExists :: "'g outside \<Rightarrow> GitHubBridge \<Rightarrow> string \<Rightarrow> 'g \<Rightarrow> (string \<times> bool) \<times> 'g" where
  "ReleaseExists out gb tagName g =
     (case gb_do out gb ''GET'' (''/releases/tags/'' @ tagName) NoBody g of
        (Inl _, g') \<Rightarrow> (([], False), g')
      | (Inr resp, g') \<Rightarrow> (if hr_StatusCode resp \<noteq> 200 then ([], False) else (hr_HTMLURL resp, True), g'))"

definition CreateTag :: "'g outside \<Rightarrow> GitHubBridge \<Rightarrow> string \<Rightarrow> string \<Rightarrow> 'g \<Rightarrow> (string + string) \<times> 'g" where
  "CreateTag out gb tagName commitSHA g =
     (case gb_do out gb ''POST'' ''/git/tags'' (TagBody tagName (''Release '' @ tagName) commitSHA ''commit'') g of
        (Inl err, g1) \<Rightarrow> (Inl err, g1)
      | (Inr resp, g1) \<Rightarrow>
          if hr_StatusCode resp \<ge> 400
          then (Inl (''create tag API error '' @ int_digits (hr_StatusCode resp) @ '': '' @ hr_Body resp), g1)
          else case gb_do out gb ''POST'' ''/git/refs'' (RefBody (''refs/tags/'' @ tagName) (hr_SHA resp)) g1 of
                 (Inl err, g2) \<Rightarrow> (Inl err, g2)
               | (Inr refResp, g2) \<Rightarrow>
                   (if hr_StatusCode refResp \<ge> 400
                    then Inl (''create tag ref API error '' @ int_digits (hr_StatusCode refResp) @ '': '' @ hr_Body refResp)
                    else Inr (hr_SHA resp), g2))"

definition DeleteTag :: "'g outside \<Rightarrow> GitHubBridge \<Rightarrow> string \<Rightarrow> string \<Rightarrow> 'g \<Rightarrow> string option \<times> 'g" where
  "DeleteTag out gb tagName tagSHA g =
     (case gb_do out gb ''DELETE'' (''/git/refs/tags/'' @ tagName) NoBody g of
        (Inl err, g') \<Rightarrow> (Some err, g') | (Inr _, g') \<Rightarrow> (None, g'))"

definition CreateRelease :: "'g outside \<Rightarrow> GitHubBridge \<Rightarrow> string \<Rightarrow> string \<Rightarrow> string \<Rightarrow> 'g \<Rightarrow> (string + string) \<times> 'g" where
  "CreateRelease out gb tagName commitSHA releaseNotes g =
     (case gb_do out gb ''POST'' ''/releases''
             (ReleaseBody tagName (''Release '' @ tagName) releaseNotes commitSHA False False) g of
        (Inl err, g') \<Rightarrow> (Inl err, g')
      | (Inr resp, g') \<Rightarrow>
          (if hr_StatusCode resp \<ge> 400
           then Inl (''create release API error '' @ int_digits (hr_StatusCode resp) @ '': '' @ hr_Body resp)
           else Inr (hr_HTMLURL resp), g'))"

subsection \<open>The orchestrator\<close>

record ReleaseOrchestrator =
  ro_github :: GitHubBridge
  ro_queue :: ReleaseQueue
  ro_idempotent :: IdempotencyStore
  ro_idemFile :: "IdempotencyStore stored"
  ro_owner :: string
  ro_repo :: string
  ro_gitDir :: string

definition NewReleaseOrchestrator ::
  "bool \<Rightarrow> ReleaseEntry list stored \<Rightarrow> IdempotencyStore stored \<Rightarrow> string \<Rightarrow> string \<Rightarrow> string \<Rightarrow> ReleaseOrchestrator" where
  "NewReleaseOrchestrator writable queueFile idemFile token repoOwner repoName =
     \<lparr>ro_github = \<lparr>gb_token = token, gb_owner = repoOwner, gb_repo = repoName\<rparr>,
      ro_queue = NewReleaseQueue writable queueFile ''.ai/state/release_queue.json'',
      ro_idempotent =
        (case LoadIdempotencyStore idemFile of
           None \<Rightarrow> NewIdempotencyStore
         | Some store \<Rightarrow> fold (\<lambda>(k, _) is. idem_Mark k is) store NewIdempotencyStore),
      ro_idemFile = idemFile, ro_owner = repoOwner, ro_repo = repoName, ro_gitDir = ''.''\<rparr>"

definition ro_emit :: "McpTraceEvent \<Rightarrow> ReleaseOrchestrator \<Rightarrow> ReleaseOrchestrator" where
  "ro_emit ev ro = ro\<lparr>ro_queue := relq_notify ev (ro_queue ro)\<rparr>"

text \<open>An event with a type, the trace and session of a request, a detail and an error.\<close>

definition rel_event :: "'g outside \<Rightarrow> 'g \<Rightarrow> mcp_event \<Rightarrow> string \<Rightarrow> string \<Rightarrow> string \<Rightarrow> string \<Rightarrow> McpTraceEvent" where
  "rel_event out g typ traceID sessionID detail err =
     (NewTraceEvent (out_clock out g) typ traceID sessionID)\<lparr>me_Detail := detail, me_Error := err\<rparr>"

definition stringOrMap :: "(string, any) gomap \<Rightarrow> string \<Rightarrow> string" where
  "stringOrMap payload key = (case any_string (gm_get payload key) of None \<Rightarrow> [] | Some v \<Rightarrow> v)"

definition parseInput :: "MCPRequest \<Rightarrow> ReleaseInput" where
  "parseInput req =
     \<lparr>ri_Repo = stringOrMap (mr_Payload req) ''repo'', ri_Version = stringOrMap (mr_Payload req) ''version'',
      ri_CommitSHA = stringOrMap (mr_Payload req) ''commit_sha'', ri_ReleaseNotes = stringOrMap (mr_Payload req) ''release_notes'',
      ri_Artifacts = []\<rparr>"

definition createLocalTag :: "'g outside \<Rightarrow> ReleaseOrchestrator \<Rightarrow> string \<Rightarrow> string \<Rightarrow> 'g \<Rightarrow> string option \<times> 'g" where
  "createLocalTag out ro tagName commitSHA g =
     (case out_git_list out (ro_gitDir ro) tagName g of
        (listed, g1) \<Rightarrow>
          if length listed > 0 then (None, g1)
          else out_git_tag out (ro_gitDir ro) tagName commitSHA (''Release '' @ tagName) g1)"

definition ro_fail ::
  "'g outside \<Rightarrow> string \<Rightarrow> string \<Rightarrow> int \<Rightarrow> ReleaseOrchestrator \<times> 'g \<Rightarrow> outcome \<times> ReleaseOrchestrator \<times> 'g" where
  "ro_fail out i errMsg start = (\<lambda>(ro, g).
     (Returns ((failure i errMsg)\<lparr>ms_LatencyMS := (out_clock out g - start) div 1000000\<rparr>) None,
      ro_emit (rel_event out g EventReleaseFailure i [] [] errMsg) ro, g))"

text \<open>\<open>Execute\<close>, phase by phase.\<close>

definition ro_response :: "'g outside \<Rightarrow> string \<Rightarrow> int \<Rightarrow> 'g \<Rightarrow> (string \<times> any) list \<Rightarrow> outcome" where
  "ro_response out i start g data =
     Returns ((success i (AnyMap data))\<lparr>ms_LatencyMS := (out_clock out g - start) div 1000000\<rparr>) None"

definition ro_publish ::
  "'g outside \<Rightarrow> MCPRequest \<Rightarrow> ReleaseInput \<Rightarrow> int \<Rightarrow> ReleaseOrchestrator \<times> 'g \<Rightarrow> outcome \<times> ReleaseOrchestrator \<times> 'g" where
  "ro_publish out req input start = (\<lambda>(ro, g).
     let tag = ri_Version input;
         done = (\<lambda>url (ro, g).
           (ro_response out (mr_ID req) start g
              [(''status'', AnyString ''COMPLETED''), (''tag'', AnyString tag), (''commit_sha'', AnyString (ri_CommitSHA input)),
               (''release_url'', AnyString url)],
            ro_emit (rel_event out g EventReleasePublished (mr_ID req) (mr_SessionID req) url []) ro, g));
         release = (\<lambda>(ro, g).
           case ReleaseExists out (ro_github ro) tag g of
             ((url, True), g1) \<Rightarrow> done url (ro, g1)
           | ((_, False), g1) \<Rightarrow>
               (case CreateRelease out (ro_github ro) tag (ri_CommitSHA input) (ri_ReleaseNotes input) g1 of
                  (Inl err, g2) \<Rightarrow> ro_fail out (mr_ID req) (''RELEASE_CREATION_FAILED: '' @ err) start (ro, g2)
                | (Inr url, g2) \<Rightarrow> done url (ro, g2)))
     in case TagExists out (ro_github ro) tag g of
          (True, g1) \<Rightarrow> release (ro, g1)
        | (False, g1) \<Rightarrow>
            (case CreateTag out (ro_github ro) tag (ri_CommitSHA input) g1 of
               (Inl err, g2) \<Rightarrow> ro_fail out (mr_ID req) (''TAG_PUBLISH_FAILED: '' @ err) start (ro, g2)
             | (Inr _, g2) \<Rightarrow> release (ro, g2)))"

text \<open>Setting the attempts of the entry that \<open>Enqueue\<close> returns changes a copy: the queue does not see it.\<close>

definition ro_Execute :: "'g outside \<Rightarrow> (ReleaseOrchestrator \<times> 'g) adapter" where
  "ro_Execute out req = (\<lambda>(ro, g).
     let start = out_clock out g;
         input = parseInput req;
         ro = ro_emit (rel_event out g EventReleaseStart (mr_ID req) (mr_SessionID req) [] []) ro;
         tag = ri_Version input
     in if ri_Version input = [] \<or> ri_CommitSHA input = []
        then ro_fail out (mr_ID req) ''RELEASE_INPUT_INVALID: version and commit_sha required'' start (ro, g)
        else case createLocalTag out ro tag (ri_CommitSHA input) g of
          (Some err, g1) \<Rightarrow> ro_fail out (mr_ID req) (''TAG_CREATION_FAILED: '' @ err) start (ro, g1)
        | (None, g1) \<Rightarrow>
            let ro = ro_emit (rel_event out g1 EventReleaseTagCreated (mr_ID req) (mr_SessionID req) tag []) ro
            in (case ValidateAccess out (ro_github ro) g1 of
                  (None, g2) \<Rightarrow> ro_publish out req input start (ro, g2)
                | (Some err, g2) \<Rightarrow>
                    let ro = ro_emit (rel_event out g2 EventReleasePendingExternal (mr_ID req) (mr_SessionID req) tag err) ro
                    in (case relq_Enqueue out (out_clock out g2) input (ro_owner ro) (ro_repo ro) (ro_queue ro) of
                          (entry, q) \<Rightarrow>
                            (ro_response out (mr_ID req) start g2
                               [(''status'', AnyString ''PENDING_EXTERNAL''), (''tag'', AnyString tag),
                                (''commit_sha'', AnyString (ri_CommitSHA input)), (''release_id'', AnyString (rel_ReleaseID entry)),
                                (''reason'', AnyString err)],
                             ro_emit (rel_event out g2 EventReleaseRetryScheduled (mr_ID req) [] (rel_ReleaseID entry) [])
                               (ro\<lparr>ro_queue := q\<rparr>), g2))))"

text \<open>The end of a round of \<open>ProcessQueue\<close>: a failure to be retried, or success.\<close>

definition pq_retry :: "'g outside \<Rightarrow> ReleaseEntry \<Rightarrow> string \<Rightarrow> ReleaseOrchestrator \<times> 'g \<Rightarrow> nat \<times> ReleaseOrchestrator \<times> 'g" where
  "pq_retry out entry err = (\<lambda>(ro, g).
     let ro1 = ro_emit (rel_event out g EventReleaseRetryScheduled [] [] (rel_ReleaseID entry) err) ro
     in (0, ro1\<lparr>ro_queue := relq_Complete (out_seed out) (out_clock out g) (rel_ReleaseID entry) False err (ro_queue ro1)\<rparr>, g))"

definition pq_success :: "'g outside \<Rightarrow> ReleaseEntry \<Rightarrow> string \<Rightarrow> ReleaseOrchestrator \<times> 'g \<Rightarrow> nat \<times> ReleaseOrchestrator \<times> 'g" where
  "pq_success out entry url = (\<lambda>(ro, g).
     let ro1 = ro_emit (rel_event out g EventReleaseExternalRecovered [] [] url []) ro
     in (1, ro1\<lparr>ro_queue := relq_Complete (out_seed out) (out_clock out g) (rel_ReleaseID entry) True [] (ro_queue ro1)\<rparr>, g))"

definition pq_release :: "'g outside \<Rightarrow> ReleaseEntry \<Rightarrow> ReleaseOrchestrator \<times> 'g \<Rightarrow> nat \<times> ReleaseOrchestrator \<times> 'g" where
  "pq_release out entry = (\<lambda>(ro, g).
     let finish = (\<lambda>url (ro, g). pq_success out entry url
           (ro\<lparr>ro_idempotent := idem_Mark (rel_IdempotencyKey entry) (ro_idempotent ro),
              ro_idemFile := PersistCompletedEntry (relq_writable (ro_queue ro)) (rel_IdempotencyKey entry) (ro_idemFile ro)\<rparr>, g))
     in case ReleaseExists out (ro_github ro) (rel_Version entry) g of
          ((url, True), g1) \<Rightarrow> finish url (ro, g1)
        | ((_, False), g1) \<Rightarrow>
            (case CreateRelease out (ro_github ro) (rel_Version entry) (rel_CommitSHA entry) (rel_ReleaseNotes entry) g1 of
               (Inl err, g2) \<Rightarrow> pq_retry out entry err (ro, g2)
             | (Inr url, g2) \<Rightarrow> finish url (ro, g2)))"

definition pq_publish :: "'g outside \<Rightarrow> ReleaseEntry \<Rightarrow> ReleaseOrchestrator \<times> 'g \<Rightarrow> nat \<times> ReleaseOrchestrator \<times> 'g" where
  "pq_publish out entry = (\<lambda>(ro, g).
     case ValidateAccess out (ro_github ro) g of
       (Some err, g1) \<Rightarrow> pq_retry out entry err (ro, g1)
     | (None, g1) \<Rightarrow>
         (case createLocalTag out ro (rel_Version entry) (rel_CommitSHA entry) g1 of
            (_, g2) \<Rightarrow>
              (case TagExists out (ro_github ro) (rel_Version entry) g2 of
                 (True, g3) \<Rightarrow> pq_release out entry (ro, g3)
               | (False, g3) \<Rightarrow>
                   (case CreateTag out (ro_github ro) (rel_Version entry) (rel_CommitSHA entry) g3 of
                      (Inl err, g4) \<Rightarrow> pq_retry out entry err (ro, g4)
                    | (Inr _, g4) \<Rightarrow>
                        pq_release out entry (ro_emit (rel_event out g4 EventReleaseTagCreated [] [] (rel_Version entry) []) ro, g4)))))"

definition pq_round :: "'g outside \<Rightarrow> ReleaseEntry \<Rightarrow> ReleaseOrchestrator \<times> 'g \<Rightarrow> nat \<times> ReleaseOrchestrator \<times> 'g" where
  "pq_round out entry = (\<lambda>(ro, g).
     if idem_Exists (rel_IdempotencyKey entry) (ro_idempotent ro) then
       (case ReleaseExists out (ro_github ro) (rel_Version entry) g of
          ((url, True), g1) \<Rightarrow> pq_success out entry url (ro, g1)
        | ((_, False), g1) \<Rightarrow> pq_publish out entry (ro, g1))
     else pq_publish out entry (ro, g))"

text \<open>The loop, with a bound on its rounds.\<close>

fun pq_loop :: "'g outside \<Rightarrow> nat \<Rightarrow> nat \<Rightarrow> ReleaseOrchestrator \<times> 'g \<Rightarrow> (nat \<times> ReleaseOrchestrator \<times> 'g) option" where
  "pq_loop out 0 processed s = None"
| "pq_loop out (Suc n) processed (ro, g) =
     (case relq_Dequeue (out_clock out g) (ro_queue ro) of
        (None, _) \<Rightarrow> Some (processed, ro, g)
      | (Some entry, q) \<Rightarrow>
          (case pq_round out entry (ro\<lparr>ro_queue := q\<rparr>, g) of (k, s) \<Rightarrow> pq_loop out n (processed + k) s))"

text \<open>Each round uses up work: two units per attempt left and one for waiting.\<close>

definition entry_work :: "ReleaseEntry \<Rightarrow> nat" where
  "entry_work e = 2 * nat (maxRetryAttempts - rs_Attempts (rel_Retry e)) +
     (if rel_Status e = RelPendingExternal \<or> rel_Status e = RelQueued then 1 else 0)"

definition queue_work :: "ReleaseQueue \<Rightarrow> nat" where
  "queue_work q = sum_list (map entry_work (relq_entries q))"

definition ProcessQueue :: "'g outside \<Rightarrow> ReleaseOrchestrator \<times> 'g \<Rightarrow> (nat \<times> ReleaseOrchestrator \<times> 'g) option" where
  "ProcessQueue out s = pq_loop out (queue_work (ro_queue (fst s)) + 1) 0 s"

subsection \<open>Termination of \<open>ProcessQueue\<close>\<close>

lemma update_first_None: "update_first P f xs = None \<longleftrightarrow> (\<forall>x \<in> set xs. \<not> P x)"
  by (induction xs) (auto split: option.splits)

lemma update_first_Some:
  "update_first P f xs = Some (y, ys) \<Longrightarrow>
     \<exists>i < length xs. P (xs ! i) \<and> (\<forall>j < i. \<not> P (xs ! j)) \<and> y = f (xs ! i) \<and> ys = xs[i := f (xs ! i)]"
proof (induction xs arbitrary: ys)
  case (Cons x xs)
  show ?case
  proof (cases "P x")
    case True
    then show ?thesis using Cons.prems by (intro exI [of _ 0]) auto
  next
    case False
    then obtain zs where z: "update_first P f xs = Some (y, zs)" "ys = x # zs"
      using Cons.prems by (auto split: option.splits)
    from Cons.IH [OF z(1)] obtain i where "i < length xs" "P (xs ! i)" "\<forall>j < i. \<not> P (xs ! j)" "y = f (xs ! i)"
      "zs = xs[i := f (xs ! i)]" by blast
    then show ?thesis using z(2) False by (intro exI [of _ "Suc i"]) (auto simp: nth_Cons split: nat.splits)
  qed
qed simp

lemma sum_list_upd:
  "i < length xs \<Longrightarrow> sum_list (map w (xs[i := z])) + w (xs ! i) = sum_list (map w xs) + (w z :: nat)"
  by (induction xs arbitrary: i) (auto split: nat.splits simp: nth_Cons)

lemma relq_simps [simp]:
  "relq_entries (persist q) = relq_entries q" "relq_entries (relq_notify ev q) = relq_entries q"
  "relq_persistPath (persist q) = relq_persistPath q" "relq_writable (persist q) = relq_writable q"
  "relq_persistPath (relq_notify ev q) = relq_persistPath q" "relq_writable (relq_notify ev q) = relq_writable q"
  "relq_disk (relq_notify ev q) = relq_disk q"
  by (auto simp: persist_def relq_notify_def)

lemma queue_work_cong: "relq_entries q = relq_entries q' \<Longrightarrow> queue_work q = queue_work q'"
  by (simp add: queue_work_def)

lemma relq_Dequeue_work:
  assumes "relq_Dequeue now q = (Some e, q')"
  shows "queue_work q = Suc (queue_work q')"
proof -
  obtain es where u: "update_first (eligible_entry now) (\<lambda>e. e\<lparr>rel_Status := RelPublishing, rel_UpdatedAt := UnixMilli now\<rparr>)
      (relq_entries q) = Some (e, es)" and q: "relq_entries q' = es"
    using assms by (auto simp: relq_Dequeue_def split: option.splits)
  from update_first_Some [OF u] obtain i where i: "i < length (relq_entries q)" "eligible_entry now (relq_entries q ! i)"
    "es = (relq_entries q)[i := (relq_entries q ! i)\<lparr>rel_Status := RelPublishing, rel_UpdatedAt := UnixMilli now\<rparr>]" by blast
  define z where "z = (relq_entries q ! i)\<lparr>rel_Status := RelPublishing, rel_UpdatedAt := UnixMilli now\<rparr>"
  have "entry_work (relq_entries q ! i) = Suc (entry_work z)"
    using i(2) by (auto simp: entry_work_def eligible_entry_def z_def)
  moreover have "queue_work q' = sum_list (map entry_work ((relq_entries q)[i := z]))"
    by (simp add: queue_work_def q i(3) z_def)
  ultimately show ?thesis using sum_list_upd [OF i(1), of entry_work z] unfolding queue_work_def by linarith
qed

lemma complete_entry_work: "entry_work (complete_entry seed now good err e) \<le> entry_work e"
proof (cases good)
  case True
  then show ?thesis by (simp add: complete_entry_def entry_work_def)
next
  case False
  show ?thesis
  proof (cases "rs_Attempts (rel_Retry e) + 1 \<ge> maxRetryAttempts")
    case True
    then show ?thesis using False by (simp add: complete_entry_def entry_work_def AdvanceRetryState_def Let_def)
  next
    case lt: False
    then have "nat (maxRetryAttempts - rs_Attempts (rel_Retry e)) = Suc (nat (maxRetryAttempts - (rs_Attempts (rel_Retry e) + 1)))"
      by linarith
    then show ?thesis using False lt by (simp add: complete_entry_def entry_work_def AdvanceRetryState_def Let_def)
  qed
qed

lemma relq_Complete_work: "queue_work (relq_Complete seed now i good err q) \<le> queue_work q"
proof (cases "update_first (\<lambda>e. rel_ReleaseID e = i) (complete_entry seed now good err) (relq_entries q)")
  case (Some p)
  obtain y ys where p: "p = (y, ys)" by (cases p)
  from update_first_Some [OF Some [unfolded p]] obtain k where k: "k < length (relq_entries q)"
    "ys = (relq_entries q)[k := complete_entry seed now good err (relq_entries q ! k)]" by blast
  have "queue_work (relq_Complete seed now i good err q) = sum_list (map entry_work ys)"
    using Some p by (simp add: relq_Complete_def queue_work_def)
  then show ?thesis using sum_list_upd [OF k(1), of entry_work] k(2) complete_entry_work
    by (metis (no_types, lifting) add_le_cancel_right add_mono_thms_linordered_semiring(2) queue_work_def)
qed (simp add: relq_Complete_def)

text \<open>A round changes the entries of the queue only by \<open>Complete\<close>: an invariant of it.\<close>

lemma pq_round_queue:
  assumes "\<And>good err now q. P (relq_entries q) \<Longrightarrow>
      P (relq_entries (relq_Complete (out_seed out) now (rel_ReleaseID entry) good err q))"
    and "P (relq_entries (ro_queue ro))"
  shows "P (relq_entries (ro_queue (fst (snd (pq_round out entry (ro, g))))))"
proof -
  have retry: "P (relq_entries (ro_queue (fst (snd (pq_retry out entry err (ro, g))))))"
    if "P (relq_entries (ro_queue ro))" for err ro g
    using that assms(1) by (simp add: pq_retry_def ro_emit_def Let_def)
  have succ: "P (relq_entries (ro_queue (fst (snd (pq_success out entry url (ro, g))))))"
    if "P (relq_entries (ro_queue ro))" for url ro g
    using that assms(1) by (simp add: pq_success_def ro_emit_def Let_def)
  have release: "P (relq_entries (ro_queue (fst (snd (pq_release out entry (ro, g))))))"
    if "P (relq_entries (ro_queue ro))" for ro g
    using that by (auto simp: pq_release_def Let_def intro!: retry succ split: prod.splits bool.splits sum.splits)
  have publish: "P (relq_entries (ro_queue (fst (snd (pq_publish out entry (ro, g))))))"
    if "P (relq_entries (ro_queue ro))" for ro g
    using that by (auto simp: pq_publish_def ro_emit_def intro!: retry release split: prod.splits bool.splits sum.splits option.splits)
  show ?thesis
    using assms(2) by (auto simp: pq_round_def intro!: succ publish split: prod.splits bool.splits)
qed

lemma pq_round_work: "queue_work (ro_queue (fst (snd (pq_round out entry (ro, g))))) \<le> queue_work (ro_queue ro)"
  using pq_round_queue [of "\<lambda>es. sum_list (map entry_work es) \<le> queue_work (ro_queue ro)" out entry ro g]
    relq_Complete_work by (fastforce simp: queue_work_def intro: order_trans)

lemma pq_loop_total:
  assumes "queue_work (ro_queue ro) < n"
  shows "\<exists>k ro' g'. pq_loop out n processed (ro, g) = Some (k, ro', g') \<and>
    (\<forall>e \<in> set (relq_entries (ro_queue ro')). \<not> eligible_entry (out_clock out g') e) \<and>
    (\<forall>m \<ge> n. pq_loop out m processed (ro, g) = pq_loop out n processed (ro, g))"
  using assms
proof (induction n arbitrary: processed ro g)
  case (Suc n)
  obtain d q where d: "relq_Dequeue (out_clock out g) (ro_queue ro) = (d, q)" by fastforce
  show ?case
  proof (cases d)
    case None
    then have "update_first (eligible_entry (out_clock out g))
        (\<lambda>e. e\<lparr>rel_Status := RelPublishing, rel_UpdatedAt := UnixMilli (out_clock out g)\<rparr>) (relq_entries (ro_queue ro)) = None"
      using d by (auto simp: relq_Dequeue_def split: option.splits)
    then have no: "\<forall>e \<in> set (relq_entries (ro_queue ro)). \<not> eligible_entry (out_clock out g) e"
      by (simp only: update_first_None)
    have l: "pq_loop out m processed (ro, g) = Some (processed, ro, g)" if "m \<ge> Suc n" for m
      using that d None by (cases m) auto
    show ?thesis
      by (intro exI conjI allI impI) (rule l [OF le_refl], rule no, simp only: l)
  next
    case (Some entry)
    obtain k ro1 g1 where r: "pq_round out entry (ro\<lparr>ro_queue := q\<rparr>, g) = (k, ro1, g1)" by (metis prod_cases3)
    have "queue_work (ro_queue ro1) \<le> queue_work q"
      using pq_round_work [of out entry "ro\<lparr>ro_queue := q\<rparr>" g] r by simp
    then have "queue_work (ro_queue ro1) < n" using relq_Dequeue_work [OF d [unfolded Some]] Suc.prems by simp
    from Suc.IH [OF this, of "processed + k" g1] obtain k' ro' g' where
      ih: "pq_loop out n (processed + k) (ro1, g1) = Some (k', ro', g')"
        "\<forall>e \<in> set (relq_entries (ro_queue ro')). \<not> eligible_entry (out_clock out g') e"
        "\<forall>m \<ge> n. pq_loop out m (processed + k) (ro1, g1) = pq_loop out n (processed + k) (ro1, g1)" by blast
    have step: "pq_loop out (Suc m) processed (ro, g) = pq_loop out m (processed + k) (ro1, g1)" for m
      using d Some r by simp
    have l: "pq_loop out m processed (ro, g) = Some (k', ro', g')" if m: "m \<ge> Suc n" for m
    proof -
      obtain j where j: "m = Suc j" "n \<le> j" using m by (cases m) auto
      show ?thesis using ih(3) [THEN spec, THEN mp, OF j(2)] unfolding j(1) step ih(1) .
    qed
    show ?thesis
      by (intro exI conjI allI impI) (rule l [OF le_refl], rule ih(2), simp only: l)
  qed
qed simp

lemma queue_work_bound:
  assumes "\<forall>e \<in> set (relq_entries q). 0 \<le> rs_Attempts (rel_Retry e)"
  shows "queue_work q \<le> 11 * length (relq_entries q)"
proof -
  have "entry_work e \<le> 11" if "0 \<le> rs_Attempts (rel_Retry e)" for e
    using that by (auto simp: entry_work_def maxRetryAttempts_def)
  then have "sum_list (map entry_work es) \<le> 11 * length es" if "\<forall>e \<in> set es. 0 \<le> rs_Attempts (rel_Retry e)" for es
    using that by (induction es) fastforce+
  then show ?thesis using assms by (simp add: queue_work_def)
qed

text \<open>C23:
  The loop of \<open>ProcessQueue\<close> ends when every call of GitHub and git returns, whatever it returns and whatever the clock says
  (the functions of \<open>outside\<close> always return; the code gives neither HTTP nor git a timeout, so one that does not would block
  it). For entries whose count of attempts is not negative, eleven rounds per entry and one for the empty queue are enough:
  with that bound on the rounds, or any larger one, the result is the one of \<open>ProcessQueue\<close>, and no entry is due in it.
\<close>
theorem ProcessQueue_terminates:
  assumes "\<forall>e \<in> set (relq_entries (ro_queue ro)). 0 \<le> rs_Attempts (rel_Retry e)"
  shows "\<exists>k ro' g'. ProcessQueue out (ro, g) = Some (k, ro', g') \<and>
     (\<forall>e. \<not> (e \<in> set (relq_entries (ro_queue ro')) \<and> eligible_entry (out_clock out g') e)) \<and>
     pq_loop out (11 * length (relq_entries (ro_queue ro)) + 1 + n) 0 (ro, g) = Some (k, ro', g')"
proof -
  obtain k ro' g' where l: "pq_loop out (queue_work (ro_queue ro) + 1) 0 (ro, g) = Some (k, ro', g')"
      "\<forall>e \<in> set (relq_entries (ro_queue ro')). \<not> eligible_entry (out_clock out g') e"
      "\<forall>m \<ge> queue_work (ro_queue ro) + 1. pq_loop out m 0 (ro, g) = pq_loop out (queue_work (ro_queue ro) + 1) 0 (ro, g)"
    using pq_loop_total [of ro "queue_work (ro_queue ro) + 1" out 0 g] by auto
  have "pq_loop out (11 * length (relq_entries (ro_queue ro)) + 1 + n) 0 (ro, g) = Some (k, ro', g')"
    using l(1) l(3) [THEN spec, of "11 * length (relq_entries (ro_queue ro)) + 1 + n"] queue_work_bound [OF assms] by simp
  moreover have "ProcessQueue out (ro, g) = Some (k, ro', g')" using l(1) by (simp add: ProcessQueue_def)
  ultimately show ?thesis using l(2) by blast
qed

subsection \<open>Backoff\<close>

text \<open>Before attempt \<open>a\<close> the wait is between \<open>30 * 2 ^ (a - 1)\<close> seconds and a fifth more, so it grows with the attempts; the cap of
  an hour is never reached.\<close>

lemma ComputeNextRetry_bounds:
  assumes "1 \<le> a" and "a \<le> maxRetryAttempts"
  shows "30 * 2 ^ nat (a - 1) * second \<le> ComputeNextRetry seed a commitSHA version \<and>
    ComputeNextRetry seed a commitSHA version < 36 * 2 ^ nat (a - 1) * second"
proof -
  define b :: int where "b = 30 * 2 ^ nat (a - 1)"
  have "a \<in> {1, 2, 3, 4, 5}" using assms by (auto simp: maxRetryAttempts_def)
  then have b: "b \<in> {30, 60, 120, 240, 480}" by (auto simp: b_def)
  have bo: "(30 * 2 ^ nat (a - 1) :: rat) = of_int b" by (simp add: b_def)
  define m where "m = seed (commitSHA @ version @ [char_of (nat a)]) mod 1000000"
  have m: "0 \<le> m" "m < 1000000" by (simp_all add: m_def)
  have "ComputeNextRetry seed a commitSHA version = \<lfloor>of_int b * (1 + of_int m / 1000000 * (2 / 10)) * (of_int second :: rat)\<rfloor>"
    using assms b by (auto simp: ComputeNextRetry_def deterministicJitter_def Let_def bo m_def)
  also have "of_int b * (1 + of_int m / 1000000 * (2 / 10)) * of_int second = (of_int (b * (second + 200 * m)) :: rat)"
    by (simp add: second_def field_simps)
  finally have "ComputeNextRetry seed a commitSHA version = b * (second + 200 * m)" by (simp only: floor_of_int)
  moreover have "5 * (36 * 2 ^ nat (a - 1) * second) = 6 * (b * second)" "30 * 2 ^ nat (a - 1) * second = b * second"
    by (simp_all add: b_def)
  moreover have "b * second \<le> b * (second + 200 * m)" "5 * (b * (second + 200 * m)) < 6 * (b * second)"
    using b m by (auto simp: second_def)
  ultimately show ?thesis by linarith
qed

subsection \<open>Restarts\<close>

datatype rel_op = RelEnqueue int ReleaseInput string string | RelDequeue int | RelComplete int string bool string

definition rel_do :: "'g outside \<Rightarrow> rel_op \<Rightarrow> ReleaseQueue \<Rightarrow> ReleaseQueue" where
  "rel_do out op q = (case op of
     RelEnqueue now input owner repo \<Rightarrow> snd (relq_Enqueue out now input owner repo q)
   | RelDequeue now \<Rightarrow> snd (relq_Dequeue now q)
   | RelComplete now i good err \<Rightarrow> relq_Complete (out_seed out) now i good err q)"

lemma rel_do_disk:
  assumes "LoadQueue (relq_disk q) = Some (relq_entries q)" and "relq_writable q" and "relq_persistPath q \<noteq> []"
  shows "LoadQueue (relq_disk (rel_do out op q)) = Some (relq_entries (rel_do out op q)) \<and> relq_writable (rel_do out op q) \<and>
    relq_persistPath (rel_do out op q) \<noteq> []"
  using assms
  by (auto simp: rel_do_def relq_Enqueue_def relq_Dequeue_def relq_Complete_def persist_def LoadQueue_def relq_notify_def Let_def
        split: rel_op.splits option.splits)

text \<open>As long as writes go through, a queue made from its file has the entries it had, and only those waiting for a retry
  have changed: they are pending again.\<close>

theorem release_queue_restart:
  "let q = fold (rel_do out) ops (NewReleaseQueue True Missing (c # path));
       q' = NewReleaseQueue True (relq_disk q) (c # path)
   in length (relq_entries q') = length (relq_entries q) \<and>
      relq_entries q' = map (\<lambda>e. if rel_Status e = RelQueued then e\<lparr>rel_Status := RelPendingExternal\<rparr> else e) (relq_entries q)"
proof -
  define q where "q = fold (rel_do out) ops (NewReleaseQueue True Missing (c # path))"
  have "LoadQueue (relq_disk q) = Some (relq_entries q) \<and> relq_writable q \<and> relq_persistPath q \<noteq> []"
    unfolding q_def
    by (rule fold_invariant [of "\<lambda>q. LoadQueue (relq_disk q) = Some (relq_entries q) \<and> relq_writable q \<and> relq_persistPath q \<noteq> []"])
       (simp add: NewReleaseQueue_def relq_recover_def LoadQueue_def, use rel_do_disk in blast)
  then have "relq_entries (NewReleaseQueue True (relq_disk q) (c # path)) = map recover_entry (relq_entries q)"
    by (simp add: NewReleaseQueue_def relq_recover_def Let_def)
  moreover have "recover_entry = (\<lambda>e. if rel_Status e = RelQueued then e\<lparr>rel_Status := RelPendingExternal\<rparr> else e)"
    by (rule ext) (auto simp: recover_entry_def)
  ultimately show ?thesis by (simp add: q_def [symmetric] Let_def)
qed

subsection \<open>Entries that are never finished\<close>

definition frozen :: "nat \<Rightarrow> ReleaseEntry list \<Rightarrow> ReleaseEntry list \<Rightarrow> bool" where
  "frozen i es es' \<longleftrightarrow> length es' = length es \<and> map rel_ReleaseID es' = map rel_ReleaseID es \<and> es' ! i = es ! i"

lemma frozen_Complete:
  assumes "frozen i es (relq_entries q)" and "i < length es" and "rel_ReleaseID (es ! i) \<noteq> rid"
  shows "frozen i es (relq_entries (relq_Complete seed now rid good err q))"
proof (cases "update_first (\<lambda>e. rel_ReleaseID e = rid) (complete_entry seed now good err) (relq_entries q)")
  case None
  then show ?thesis using assms by (simp add: relq_Complete_def)
next
  case (Some p)
  obtain y ys where p: "p = (y, ys)" by (cases p)
  from update_first_Some [OF Some [unfolded p]] obtain k where k: "k < length (relq_entries q)"
    "rel_ReleaseID (relq_entries q ! k) = rid" "ys = (relq_entries q)[k := complete_entry seed now good err (relq_entries q ! k)]"
    by blast
  have "relq_entries (relq_Complete seed now rid good err q) = ys" using Some p by (simp add: relq_Complete_def)
  moreover have "k \<noteq> i" using k(2) assms by (auto simp: frozen_def)
  moreover have "map rel_ReleaseID ys = map rel_ReleaseID (relq_entries q)"
    using k(1) by (simp add: k(3) map_update complete_entry_def Let_def) (metis list_update_id nth_map)
  ultimately show ?thesis using assms(1) k(3) by (simp add: frozen_def)
qed

lemma frozen_Dequeue:
  assumes "frozen i es (relq_entries q)" and "i < length es" and "rel_Status (es ! i) = RelPublishing"
    and "\<forall>j < length es. j \<noteq> i \<longrightarrow> rel_ReleaseID (es ! j) \<noteq> rel_ReleaseID (es ! i)"
    and "relq_Dequeue now q = (Some e, q')"
  shows "frozen i es (relq_entries q') \<and> rel_ReleaseID e \<noteq> rel_ReleaseID (es ! i)"
proof -
  obtain ys where u: "update_first (eligible_entry now) (\<lambda>e. e\<lparr>rel_Status := RelPublishing, rel_UpdatedAt := UnixMilli now\<rparr>)
      (relq_entries q) = Some (e, ys)" and q: "relq_entries q' = ys"
    using assms(5) by (auto simp: relq_Dequeue_def split: option.splits)
  from update_first_Some [OF u] obtain k where k: "k < length (relq_entries q)" "eligible_entry now (relq_entries q ! k)"
    "e = (relq_entries q ! k)\<lparr>rel_Status := RelPublishing, rel_UpdatedAt := UnixMilli now\<rparr>" "ys = (relq_entries q)[k := e]"
    by blast
  have i: "relq_entries q ! i = es ! i" "length (relq_entries q) = length es" "map rel_ReleaseID (relq_entries q) = map rel_ReleaseID es"
    using assms(1) by (simp_all add: frozen_def)
  have ki: "k \<noteq> i" using k(2) i(1) assms(3) by (auto simp: eligible_entry_def)
  have "rel_ReleaseID e = rel_ReleaseID (es ! k)" using k(1,3) i by (metis ReleaseEntry.select_convs(1) ReleaseEntry.surjective ReleaseEntry.update_convs(7) ReleaseEntry.update_convs(11) nth_map)
  moreover have "map rel_ReleaseID ys = map rel_ReleaseID (relq_entries q)"
    using k(1) by (simp add: k(3,4) map_update) (metis list_update_id nth_map)
  ultimately show ?thesis using ki k i assms(1,4) q by (auto simp: frozen_def)
qed

lemma frozen_loop:
  assumes "frozen i es (relq_entries (ro_queue ro))" and "i < length es" and "rel_Status (es ! i) = RelPublishing"
    and "\<forall>j < length es. j \<noteq> i \<longrightarrow> rel_ReleaseID (es ! j) \<noteq> rel_ReleaseID (es ! i)"
    and "pq_loop out n processed (ro, g) = Some (k, ro', g')"
  shows "frozen i es (relq_entries (ro_queue ro'))"
  using assms(1,5)
proof (induction n arbitrary: processed ro g)
  case (Suc n)
  obtain d q where d: "relq_Dequeue (out_clock out g) (ro_queue ro) = (d, q)" by fastforce
  show ?case
  proof (cases d)
    case None
    then show ?thesis using Suc.prems d by simp
  next
    case (Some entry)
    obtain m ro1 g1 where r: "pq_round out entry (ro\<lparr>ro_queue := q\<rparr>, g) = (m, ro1, g1)" by (metis prod_cases3)
    note f = frozen_Dequeue [OF Suc.prems(1) assms(2-4) d [unfolded Some]]
    have "frozen i es (relq_entries (ro_queue ro1))"
      using pq_round_queue [of "frozen i es" out entry "ro\<lparr>ro_queue := q\<rparr>" g] f frozen_Complete [OF _ assms(2)] r by fastforce
    then show ?thesis using Suc.IH Suc.prems(2) d Some r by simp
  qed
qed simp

text \<open>\<open>ProcessQueue\<close> again and again.\<close>

definition process_again :: "'g outside \<Rightarrow> ReleaseOrchestrator \<times> 'g \<Rightarrow> ReleaseOrchestrator \<times> 'g" where
  "process_again out s = (case ProcessQueue out s of None \<Rightarrow> s | Some (_, s') \<Rightarrow> s')"

text \<open>A release that was being published when the program stopped is never taken up again: after a restart its entry
  stays as it is, however often the queue is processed and whatever GitHub answers.\<close>

theorem interrupted_release_lost:
  assumes "i < length es" and "rel_Status (es ! i) = RelPublishing"
    and "\<forall>j < length es. j \<noteq> i \<longrightarrow> rel_ReleaseID (es ! j) \<noteq> rel_ReleaseID (es ! i)"
  shows "relq_entries (ro_queue (fst ((process_again out ^^ n)
    (NewReleaseOrchestrator True (Holds es) idemFile token owner repo, g)))) ! i = es ! i"
proof -
  let ?s = "\<lambda>n. (process_again out ^^ n) (NewReleaseOrchestrator True (Holds es) idemFile token owner repo, g)"
  define es0 where "es0 = map recover_entry es"
  have es0: "i < length es0" "es0 ! i = es ! i" "rel_Status (es0 ! i) = RelPublishing"
    "\<forall>j < length es0. j \<noteq> i \<longrightarrow> rel_ReleaseID (es0 ! j) \<noteq> rel_ReleaseID (es0 ! i)"
    using assms by (auto simp: es0_def recover_entry_def)
  have "frozen i es0 (relq_entries (ro_queue (fst (?s n))))"
  proof (induction n)
    case 0
    then show ?case
      by (simp add: frozen_def NewReleaseOrchestrator_def NewReleaseQueue_def relq_recover_def LoadQueue_def es0_def)
  next
    case (Suc n)
    obtain ro g' where s: "?s n = (ro, g')" by (cases "?s n")
    obtain k ro1 g1 where p: "ProcessQueue out (ro, g') = Some (k, ro1, g1)"
      using pq_loop_total [of ro "queue_work (ro_queue ro) + 1" out 0 g'] by (auto simp: ProcessQueue_def)
    have "frozen i es0 (relq_entries (ro_queue ro1))"
      by (rule frozen_loop [OF _ es0(1,3,4) p [unfolded ProcessQueue_def]]) (use Suc.IH s in simp)
    moreover have "process_again out (ro, g') = (ro1, g1)" by (simp add: process_again_def p)
    ultimately show ?case using s by simp
  qed
  then show ?thesis using es0(2) by (simp add: frozen_def)
qed

definition sample_release :: ReleaseEntry where
  "sample_release = \<lparr>rel_ReleaseID = ''v1@abc'', rel_CommitSHA = ''abc'', rel_Version = ''v1'', rel_RepoOwner = ''o'',
     rel_RepoName = ''r'', rel_ReleaseNotes = [], rel_Status = RelPublishing,
     rel_Retry = \<lparr>rs_Attempts = 0, rs_NextRetryAt = 0, rs_Finalized = False\<rparr>, rel_IdempotencyKey = ''k'', rel_CreatedAt = 0,
     rel_UpdatedAt = 0, rel_LastError = []\<rparr>"

definition sample_outside :: "unit outside" where
  "sample_outside = \<lparr>out_http = (\<lambda>_ _ _ _ g. (Inr \<lparr>hr_StatusCode = 200, hr_Body = [], hr_SHA = ''s'', hr_HTMLURL = ''u''\<rparr>, g)),
     out_git_list = (\<lambda>_ _ g. (''v1'', g)), out_git_tag = (\<lambda>_ _ _ _ g. (None, g)), out_clock = (\<lambda>_. 0),
     out_sha256 = (\<lambda>x. x), out_seed = (\<lambda>_. 0)\<rparr>"

lemma ProcessQueue_terminates_witness:
  "let ro = NewReleaseOrchestrator True (Holds [sample_release\<lparr>rel_Status := RelQueued\<rparr>]) Missing ''t'' ''o'' ''r''
   in \<exists>k ro' g'. pq_loop sample_outside 12 0 (ro, ()) = Some (k, ro', g') \<and> \<not> (\<exists>e \<in> set (relq_entries (ro_queue ro')). eligible_entry 0 e)"
proof -
  define ro where "ro = NewReleaseOrchestrator True (Holds [sample_release\<lparr>rel_Status := RelQueued\<rparr>]) Missing ''t'' ''o'' ''r''"
  have e: "relq_entries (ro_queue ro) = [recover_entry (sample_release\<lparr>rel_Status := RelQueued\<rparr>)]"
    by (simp add: ro_def NewReleaseOrchestrator_def NewReleaseQueue_def relq_recover_def LoadQueue_def Let_def)
  then have "\<forall>e \<in> set (relq_entries (ro_queue ro)). 0 \<le> rs_Attempts (rel_Retry e)" by (simp add: sample_release_def recover_entry_def)
  from ProcessQueue_terminates [OF this, of sample_outside "()" 0] show ?thesis
    unfolding ro_def [symmetric] Let_def by (simp add: e sample_outside_def) blast
qed

lemma interrupted_release_lost_witness:
  "relq_entries (ro_queue (fst ((process_again sample_outside ^^ 7)
    (NewReleaseOrchestrator True (Holds [sample_release]) Missing ''t'' ''o'' ''r'', ())))) ! 0 = sample_release"
  using interrupted_release_lost [where es = "[sample_release]" and i = 0 and n = 7 and out = sample_outside and
      idemFile = Missing and token = "''t''" and owner = "''o''" and repo = "''r''" and g = "()"]
  by (simp add: sample_release_def)

text \<open>Two entries for one release: the failure of the second is counted for the first, and the second is left in
  publication.\<close>

lemma duplicate_release_stuck:
  assumes "relq_entries q = [e1, e2]" and "rel_ReleaseID e1 = rel_ReleaseID e2"
    and "rel_Status e1 = RelQueued" and "\<not> IsRetryDue now (rel_Retry e1)" and "rel_Status e2 = RelPendingExternal"
  shows "\<exists>e q1. relq_Dequeue now q = (Some e, q1) \<and> rel_ReleaseID e = rel_ReleaseID e2 \<and>
    relq_entries (relq_Complete seed now (rel_ReleaseID e) False err q1) =
      [complete_entry seed now False err e1, e2\<lparr>rel_Status := RelPublishing, rel_UpdatedAt := UnixMilli now\<rparr>]"
  using assms by (simp add: relq_Dequeue_def eligible_entry_def relq_Complete_def)

text \<open>The attempt that \<open>Execute\<close> counts is not in the queue.\<close>

lemma Enqueue_attempts: "rs_Attempts (rel_Retry (last (relq_entries (snd (relq_Enqueue out now input owner repo q))))) = 0"
  by (simp add: relq_Enqueue_def NewRetryState_def Let_def)

end
