(* ===== verification/Run_Gateway.thy ===== *)
theory Run_Gateway
  imports Run_Tools Run_Observability Run_Release
begin

text \<open>
  The MCP gateway: \<open>runtime/mcp/router\<close>, the instrumented adapter of \<open>runtime/mcp/observability\<close> and
  \<open>runtime/mcp/gateway.go\<close>.

  The adapters of the router are values of \<open>handle\<close>: a tool behind its own circuit breaker (its position in the list of
  breakers), or the release orchestrator. \<open>run_handle\<close> gives their composition of contracts. What the
  environment decides is read from the world \<open>'w\<close>, which every reading may change.
\<close>

subsection \<open>The tool router\<close>

type_synonym 'a ToolRouter = "(string, (string, 'a) gomap) gomap"

definition NewToolRouter :: "'a ToolRouter" where "NewToolRouter = []"

definition router_Register :: "string \<Rightarrow> string \<Rightarrow> 'a \<Rightarrow> 'a ToolRouter \<Rightarrow> 'a ToolRouter" where
  "router_Register tool action adapter tr = gm_put tool (gm_put action adapter (gm_at [] tr tool)) tr"

text \<open>The adapter of a request, or the message and the error.\<close>

definition router_find :: "'a ToolRouter \<Rightarrow> string \<Rightarrow> string \<Rightarrow> (string \<times> string) + 'a" where
  "router_find tr tool action =
     (case gm_get tr tool of
        None \<Rightarrow> Inl (''no adapter registered for tool: '' @ tool, ''tool not found: '' @ tool)
      | Some actions \<Rightarrow>
          (case gm_get actions action of
             None \<Rightarrow> Inl (''no adapter for action: '' @ tool @ ''.'' @ action, ''action not found: '' @ action)
           | Some adapter \<Rightarrow> Inr adapter))"

text \<open>In the order of the map's keys; Go's order is arbitrary.\<close>

definition router_ListTools :: "'a ToolRouter \<Rightarrow> string list" where "router_ListTools tr = gm_keys tr"

definition router_ListActions :: "'a ToolRouter \<Rightarrow> string \<Rightarrow> string list" where
  "router_ListActions tr tool = (case gm_get tr tool of None \<Rightarrow> [] | Some actions \<Rightarrow> gm_keys actions)"

lemma router_find_Register:
  "router_find (router_Register t a x tr) t' a' =
     (if t' = t \<and> a' = a then Inr x
      else if t' = t \<and> gm_get tr t = None then
        Inl (''no adapter for action: '' @ t' @ ''.'' @ a', ''action not found: '' @ a')
      else router_find tr t' a')"
  by (auto simp: router_find_def router_Register_def gm_at_def split: option.split)

subsection \<open>The environment and the state\<close>

record 'w outer =
  ou_now :: "'w \<Rightarrow> int \<times> 'w"
  ou_late :: "'w \<Rightarrow> bool \<times> 'w"
  ou_breaker :: "'w \<Rightarrow> cb_env \<times> 'w"
  ou_rand :: "int \<Rightarrow> int"
  ou_duration :: "int \<Rightarrow> string"
  ou_sys :: "'w system"
  ou_release :: "'w outside"
  ou_ingest :: "string \<Rightarrow> 'w \<Rightarrow> 'w"

datatype tool_kind = FilesystemTool | GitTool string | GitHubTool string

datatype handle = Wrapped tool_kind nat | Publisher

record IntegrationGateway =
  ig_router :: "handle ToolRouter"
  ig_breakers :: "CircuitBreaker list"
  ig_backpressure :: BackpressureModel
  ig_telemetry :: TelemetryCollector
  ig_latencyBudget :: int
  ig_sessionTracker :: SessionTracker
  ig_mro :: ReleaseOrchestrator
  ig_routeCounter :: int

text \<open>The gateway, the world, and of the context of a request the trace graph.\<close>

record 'w gws =
  gs_ig :: IntegrationGateway
  gs_tg :: TraceGraph
  gs_world :: 'w

definition gs_clock :: "'w outer \<Rightarrow> 'w gws \<Rightarrow> int \<times> 'w gws" where
  "gs_clock ou s = (case ou_now ou (gs_world s) of (t, w) \<Rightarrow> (t, s\<lparr>gs_world := w\<rparr>))"

text \<open>\<open>time.Since(start).Milliseconds()\<close>.\<close>

definition gs_since :: "'w outer \<Rightarrow> int \<Rightarrow> 'w gws \<Rightarrow> int \<times> 'w gws" where
  "gs_since ou start s = (case gs_clock ou s of (t, s') \<Rightarrow> (quot (t - start) 1000000, s'))"

definition gs_trace :: "'w outer \<Rightarrow> (int \<Rightarrow> McpTraceEvent) \<Rightarrow> 'w gws \<Rightarrow> 'w gws" where
  "gs_trace ou ev s = (case gs_clock ou s of (t, s') \<Rightarrow> s'\<lparr>gs_tg := tg_Add (ev t) (gs_tg s')\<rparr>)"

abbreviation gs_upd :: "(IntegrationGateway \<Rightarrow> IntegrationGateway) \<Rightarrow> 'w gws \<Rightarrow> 'w gws" where
  "gs_upd f s \<equiv> s\<lparr>gs_ig := f (gs_ig s)\<rparr>"

definition gs_tel :: "(TelemetryCollector \<Rightarrow> TelemetryCollector) \<Rightarrow> 'w gws \<Rightarrow> 'w gws" where
  "gs_tel f s = gs_upd (\<lambda>ig. ig\<lparr>ig_telemetry := f (ig_telemetry ig)\<rparr>) s"

definition active_pct :: "IntegrationGateway \<Rightarrow> rat" where
  "active_pct ig =
     of_int (ActiveCount (ig_backpressure ig)) / of_int (bc_MaxQueueTotal (bp_config (ig_backpressure ig)))"

definition HealthSnapshot :: "IntegrationGateway \<Rightarrow> HealthScores" where
  "HealthSnapshot ig = ComputeHealthScores (tc_Snapshot (ig_telemetry ig)) (active_pct ig) 0 0"

definition ControlSignals :: "IntegrationGateway \<Rightarrow> ControlSignal list" where
  "ControlSignals ig = ComputeControlSignals (tc_Snapshot (ig_telemetry ig)) (active_pct ig) 0 0"

definition ListTools :: "IntegrationGateway \<Rightarrow> (string \<times> string list) list" where
  "ListTools ig = map (\<lambda>t. (t, router_ListActions (ig_router ig) t)) (router_ListTools (ig_router ig))"

definition SetBackpressureConfig :: "BackpressureConfig \<Rightarrow> IntegrationGateway \<Rightarrow> IntegrationGateway" where
  "SetBackpressureConfig cfg ig = ig\<lparr>ig_backpressure := NewBackpressureModel cfg\<rparr>"

subsection \<open>The adapters of the router\<close>

definition tool_Execute :: "'w outer \<Rightarrow> tool_kind \<Rightarrow> 'w adapter" where
  "tool_Execute ou kind =
     (case kind of
        FilesystemTool \<Rightarrow> fs_Execute (ou_sys ou)
      | GitTool workDir \<Rightarrow> git_Execute (ou_sys ou) workDir
      | GitHubTool token \<Rightarrow> gh_Execute (ou_sys ou) token)"

fun tool_Name :: "tool_kind \<Rightarrow> string" where
  "tool_Name FilesystemTool = ''filesystem-mcp''"
| "tool_Name (GitTool _) = ''git-mcp''"
| "tool_Name (GitHubTool _) = ''github-mcp''"

text \<open>The breaker of position \<open>i\<close> around the tool; its clock readings are drawn before the call.\<close>

definition breaker_Execute :: "'w outer \<Rightarrow> tool_kind \<Rightarrow> nat \<Rightarrow> (CircuitBreaker list \<times> 'w) adapter" where
  "breaker_Execute ou kind i req = (\<lambda>(bs, w).
     case ou_breaker ou w of (env, w1) \<Rightarrow>
     case cb_Execute env (tool_Execute ou kind) req (bs ! i, w1) of (r, cb, w2) \<Rightarrow> (r, bs[i := cb], w2))"

definition deadline_Execute :: "'w outer \<Rightarrow> int \<Rightarrow> string \<Rightarrow> ('a \<times> 'w) adapter \<Rightarrow> ('a \<times> 'w) adapter" where
  "deadline_Execute ou timeout name inner req = (\<lambda>(a, w).
     case ou_late ou w of (late, w1) \<Rightarrow> ta_Execute late (ou_duration ou) (NewTimeoutAdapter timeout) name inner req (a, w1))"

definition wrapped_Execute :: "'w outer \<Rightarrow> tool_kind \<Rightarrow> nat \<Rightarrow> (RetryBudget option \<times> CircuitBreaker list \<times> 'w) adapter" where
  "wrapped_Execute ou kind i =
     ra_Execute (ou_rand ou)
       (deadline_Execute ou (30 * second) (''circuit_breaker:'' @ tool_Name kind) (breaker_Execute ou kind i))
       (NewRetryAdapter DefaultRetryConfig)"

definition publisher_Execute :: "'w outer \<Rightarrow> (ReleaseOrchestrator \<times> 'w) adapter" where
  "publisher_Execute ou = deadline_Execute ou (60 * second) ''mcp-release-orchestrator'' (ro_Execute (ou_release ou))"

text \<open>The context carries the retry budget of the request.\<close>

definition run_handle :: "'w outer \<Rightarrow> RetryBudget \<Rightarrow> handle \<Rightarrow> 'w gws adapter" where
  "run_handle ou budget h req s =
     (case h of
        Wrapped kind i \<Rightarrow>
          (case wrapped_Execute ou kind i req (Some budget, ig_breakers (gs_ig s), gs_world s) of
             (r, _, bs, w) \<Rightarrow> (r, gs_upd (\<lambda>ig. ig\<lparr>ig_breakers := bs\<rparr>) (s\<lparr>gs_world := w\<rparr>)))
      | Publisher \<Rightarrow>
          (case publisher_Execute ou req (ig_mro (gs_ig s), gs_world s) of
             (r, ro, w) \<Rightarrow> (r, gs_upd (\<lambda>ig. ig\<lparr>ig_mro := ro\<rparr>) (s\<lparr>gs_world := w\<rparr>))))"

text \<open>The instrumented adapter. A nil function is \<open>None\<close>; the trace graph and the telemetry are never nil here.\<close>

definition fast_path :: "rat option \<Rightarrow> bool" where
  "fast_path f = (case f of None \<Rightarrow> False | Some pct \<Rightarrow> pct < 3 / 10)"

definition complete_event :: "MCPRequest \<Rightarrow> int \<Rightarrow> MCPResponse \<Rightarrow> string option \<Rightarrow> int \<Rightarrow> McpTraceEvent" where
  "complete_event req latencyMS resp err now =
     (let evt = (NewTraceEvent now EventAdapterComplete (mr_ID req) (mr_SessionID req))
            \<lparr>me_Tool := mr_Tool req, me_Action := mr_Action req, me_LatencyMS := latencyMS, me_Status := ''ok''\<rparr>
      in if err \<noteq> None \<or> \<not> ms_Success resp then evt\<lparr>me_Status := ''fail'', me_Error := ms_Error resp\<rparr> else evt)"

definition sample_latency :: "string \<Rightarrow> int \<Rightarrow> TelemetryCollector \<Rightarrow> TelemetryCollector" where
  "sample_latency tool ms tc = (case ShouldSample tc of (True, tc1) \<Rightarrow> RecordToolLatency tool ms tc1 | (False, tc1) \<Rightarrow> tc1)"

definition ia_Execute :: "'w outer \<Rightarrow> 'w gws adapter \<Rightarrow> 'w gws adapter" where
  "ia_Execute ou inner req s =
     (let (start, s) = gs_clock ou s;
          fast = fast_path (Some (SaturationPct (Some (active_pct (gs_ig s)))));
          s = (if fast then s else gs_trace ou (\<lambda>t. NewTraceEvent t EventAdapterExecute (mr_ID req) (mr_SessionID req)) s)
      in case inner req s of
           (Panics p, s) \<Rightarrow> (Panics p, s)
         | (Returns resp err, s) \<Rightarrow>
             (let (latencyMS, s) = gs_since ou start s;
                  s = (if fast then s else gs_trace ou (complete_event req latencyMS resp err) s)
              in (Returns resp err, gs_tel (sample_latency (mr_Tool req) latencyMS) s)))"

definition route_ID :: "MCPRequest \<Rightarrow> int \<Rightarrow> string" where
  "route_ID req n = ''tr_'' @ mr_Tool req @ ''_'' @ mr_Action req @ ''_'' @ mr_ID req @ ''_'' @ int_digits n"

definition Route :: "'w outer \<Rightarrow> RetryBudget \<Rightarrow> 'w gws adapter" where
  "Route ou budget req s =
     (case router_find (ig_router (gs_ig s)) (mr_Tool req) (mr_Action req) of
        Inl (msg, err) \<Rightarrow> (Returns (failure (mr_ID req) msg) (Some err), s)
      | Inr h \<Rightarrow>
          (let (start, s) = gs_clock ou s
           in case ia_Execute ou (run_handle ou budget h) req s of
                (Panics p, s) \<Rightarrow> (Panics p, s)
              | (Returns resp err, s) \<Rightarrow>
                  (let (latency, s) = gs_since ou start s; n = ig_routeCounter (gs_ig s)
                   in (Returns (resp\<lparr>ms_LatencyMS := latency, ms_TraceID := route_ID req n\<rparr>) err,
                       gs_upd (\<lambda>ig. ig\<lparr>ig_routeCounter := n + 1\<rparr>) s))))"

subsection \<open>The gateway\<close>

definition reg_wrapped :: "string \<Rightarrow> string \<Rightarrow> tool_kind \<Rightarrow> IntegrationGateway \<Rightarrow> IntegrationGateway" where
  "reg_wrapped tool action kind ig = ig
     \<lparr>ig_router := router_Register tool action (Wrapped kind (length (ig_breakers ig))) (ig_router ig),
      ig_breakers := ig_breakers ig @ [NewCircuitBreaker (tool_Name kind) DefaultCircuitBreakerConfig]\<rparr>"

definition registerMRO :: "ReleaseOrchestrator \<Rightarrow> IntegrationGateway \<Rightarrow> IntegrationGateway" where
  "registerMRO orch ig = ig
     \<lparr>ig_mro := orch, ig_router := router_Register ''release'' ''publish'' Publisher (ig_router ig)\<rparr>"

text \<open>The tools with their actions; \<open>ghToken\<close> is the token of the GitHub tool, \<open>orch\<close> the new orchestrator.\<close>

definition gateway_tools :: "string \<Rightarrow> (string \<times> string \<times> tool_kind) list" where
  "gateway_tools ghToken =
     [(''filesystem'', ''read'', FilesystemTool), (''filesystem'', ''write'', FilesystemTool),
      (''filesystem'', ''list'', FilesystemTool), (''filesystem'', ''search'', FilesystemTool),
      (''git'', ''status'', GitTool ''.''), (''git'', ''diff'', GitTool ''.''), (''git'', ''log'', GitTool ''.''),
      (''git'', ''branch'', GitTool ''.''), (''git'', ''commit'', GitTool ''.''),
      (''github'', ''create_pr'', GitHubTool ghToken), (''github'', ''list_issues'', GitHubTool ghToken),
      (''github'', ''create_issue'', GitHubTool ghToken)]"

definition bare_gateway :: "ReleaseOrchestrator \<Rightarrow> IntegrationGateway" where
  "bare_gateway orch =
     \<lparr>ig_router = NewToolRouter, ig_breakers = [],
      ig_backpressure = NewBackpressureModel DefaultBackpressureConfig, ig_telemetry = NewTelemetryCollector 1,
      ig_latencyBudget = NewLatencyBudget (30 * second), ig_sessionTracker = NewSessionTracker 100 (30 * minute),
      ig_mro = orch, ig_routeCounter = 0\<rparr>"

definition NewIntegrationGateway :: "string \<Rightarrow> ReleaseOrchestrator \<Rightarrow> IntegrationGateway" where
  "NewIntegrationGateway ghToken orch =
     registerMRO orch (fold (\<lambda>(tool, action, kind). reg_wrapped tool action kind) (gateway_tools ghToken) (bare_gateway orch))"

fun bp_error_text :: "bp_error \<Rightarrow> string" where
  "bp_error_text (SystemSaturated n m) = ''BACKPRESSURE_REJECTED: system saturated ('' @ int_digits n @ ''/'' @ int_digits m @ '')''"
| "bp_error_text (SessionAtLimit sid n m) =
     ''BACKPRESSURE_REJECTED: session '' @ sid @ '' at limit ('' @ int_digits n @ ''/'' @ int_digits m @ '')''"
| "bp_error_text (ToolSaturated tool n m) =
     ''BACKPRESSURE_REJECTED: tool '' @ tool @ '' saturated ('' @ int_digits n @ ''/'' @ int_digits m @ '')''"

text \<open>
  \<open>Process\<close> returns a response (\<open>Inr\<close>) or panics (\<open>Inl\<close>). \<open>gw_deny\<close> is a refusal before the backpressure counters are
  taken: the telemetry, the event if there is one, and the response.
\<close>

type_synonym 'w gw_result = "(string + MCPResponse) \<times> 'w gws"

definition gw_response :: "'w outer \<Rightarrow> int \<Rightarrow> string \<Rightarrow> string \<Rightarrow> string \<Rightarrow> 'w gws \<Rightarrow> 'w gw_result" where
  "gw_response ou start i traceID err s =
     (let (ms, s) = gs_since ou start s; (now, s) = gs_clock ou s
      in (Inr (NewResponse now i traceID False AnyNil err ms), s))"

definition gw_deny :: "'w outer \<Rightarrow> int \<Rightarrow> MCPRequest \<Rightarrow> mcp_event option \<Rightarrow> string \<Rightarrow> 'w gws \<Rightarrow> 'w gw_result" where
  "gw_deny ou start req ev err s =
     (let s = gs_tel RecordReject s;
          s = (case ev of None \<Rightarrow> s | Some e \<Rightarrow> gs_trace ou (\<lambda>t. NewTraceEvent t e (mr_ID req) (mr_SessionID req)) s)
      in gw_response ou start (mr_ID req) [] err s)"

definition gw_elapsed_over :: "'w outer \<Rightarrow> int \<Rightarrow> 'w gws \<Rightarrow> string option \<times> 'w gws" where
  "gw_elapsed_over ou start s =
     (case gs_clock ou s of (t, s) \<Rightarrow> (lb_Check (ou_duration ou) (ig_latencyBudget (gs_ig s)) (t - start), s))"

text \<open>The text given to the kernel; the identifiers are inserted as they are.\<close>

definition kernel_request :: "MCPRequest \<Rightarrow> string" where
  "kernel_request req =
     (let q = [CHR 0x22]
      in ''{'' @ q @ ''id'' @ q @ '':'' @ q @ mr_ID req @ q @ '','' @ q @ ''method'' @ q @ '':'' @ q @ ''tool.call'' @ q @ '','' @
         q @ ''params'' @ q @ '':{'' @ q @ ''tool'' @ q @ '':'' @ q @ ''echo'' @ q @ '','' @ q @ ''arguments'' @ q @ '':{}},'' @
         q @ ''session'' @ q @ '':{'' @ q @ ''session_id'' @ q @ '':'' @ q @ mr_SessionID req @ q @ '','' @
         q @ ''project_id'' @ q @ '':'' @ q @ mr_ProjectID req @ q @ ''}}'')"

text \<open>
  Steps 4 to 8, with the place held. The compressed trace and the health score are computed and discarded; they are left
  out. \<open>ProcessQueue\<close> ends, as its calls of GitHub and git return.
\<close>

definition gw_serve :: "'w outer \<Rightarrow> int \<Rightarrow> MCPRequest \<Rightarrow> 'w gws \<Rightarrow> 'w gw_result" where
  "gw_serve ou start req s =
     (let s = gs_tel (RecordQueueDepth (ActiveCount (ig_backpressure (gs_ig s)))) s;
          s = s\<lparr>gs_world := ou_ingest ou (kernel_request req) (gs_world s)\<rparr>;
          budget = NewRetryBudget DefaultRetryBudgetConfig
      in case gw_elapsed_over ou start s of
           (Some err, s) \<Rightarrow> gw_deny ou start req None err s
         | (None, s) \<Rightarrow>
             (case Route ou budget req s of
                (Panics p, s) \<Rightarrow> (Inl p, s)
              | (Returns resp (Some err), s) \<Rightarrow> gw_response ou start (mr_ID req) (ms_TraceID resp) err s
              | (Returns resp None, s) \<Rightarrow>
                  (let (ms, s) = gs_since ou start s;
                       (now, s) = gs_clock ou s;
                       s = gs_upd (\<lambda>ig. ig\<lparr>ig_sessionTracker := snd (EvictStale now (ig_sessionTracker ig))\<rparr>) s;
                       ro = ig_mro (gs_ig s);
                       s = (if PendingCount (ro_queue ro) > 0 then
                              (case ProcessQueue (ou_release ou) (ro, gs_world s) of
                                 None \<Rightarrow> s
                               | Some (_, ro, w) \<Rightarrow> gs_upd (\<lambda>ig. ig\<lparr>ig_mro := ro\<rparr>) (s\<lparr>gs_world := w\<rparr>))
                            else s)
                   in (Inr (resp\<lparr>ms_LatencyMS := ms\<rparr>), s))))"

text \<open>The deferred release: it is done when \<open>gw_serve\<close> returns and when it panics.\<close>

definition gw_acquired :: "'w outer \<Rightarrow> int \<Rightarrow> MCPRequest \<Rightarrow> 'w gws \<Rightarrow> 'w gw_result" where
  "gw_acquired ou start req s =
     (case Acquire (mr_SessionID req) (mr_Tool req) (ig_backpressure (gs_ig s)) of
        (Some err, _) \<Rightarrow> gw_deny ou start req (Some EventBackpressureHit) (bp_error_text err) s
      | (None, b) \<Rightarrow>
          (case gw_serve ou start req (gs_upd (\<lambda>ig. ig\<lparr>ig_backpressure := b\<rparr>) s) of
             (r, s) \<Rightarrow>
               (r, gs_upd (\<lambda>ig. ig\<lparr>ig_backpressure := Release (mr_SessionID req) (mr_Tool req) (ig_backpressure ig)\<rparr>) s)))"

definition gw_request :: "'w outer \<Rightarrow> int \<Rightarrow> MCPRequest \<Rightarrow> 'w gws \<Rightarrow> 'w gw_result" where
  "gw_request ou start req s =
     (let s = gs_tel RecordRequest (s\<lparr>gs_tg := NewTraceGraph\<rparr>);
          (now, s) = gs_clock ou s;
          s = gs_upd (\<lambda>ig. ig\<lparr>ig_sessionTracker := Touch now (mr_SessionID req) (ig_sessionTracker ig)\<rparr>) s;
          s = gs_trace ou (\<lambda>t. NewTraceEvent t EventGatewayRequest (mr_ID req) (mr_SessionID req)) s
      in if mr_SessionID req = [] \<or> mr_ProjectID req = []
         then gw_deny ou start req None ''SESSION_INVALID: session_id and project_id required'' s
         else case gw_elapsed_over ou start s of
                (Some err, s) \<Rightarrow> gw_deny ou start req None err s
              | (None, s) \<Rightarrow>
                  if IsSaturated (ig_backpressure (gs_ig s))
                  then gw_deny ou start req (Some EventBackpressureHit) ''BACKPRESSURE_SATURATED: system at capacity''
                         (gs_tel RecordSaturationHit s)
                  else if IsSoftRejected (mr_SessionID req) (ig_backpressure (gs_ig s))
                  then gw_deny ou start req (Some EventBackpressureHit) ''BACKPRESSURE_SESSION_LIMIT: session at capacity'' s
                  else gw_acquired ou start req s)"

text \<open>\<open>json.Unmarshal\<close> gives the error or the request.\<close>

definition Process :: "'w outer \<Rightarrow> string + MCPRequest \<Rightarrow> 'w gws \<Rightarrow> 'w gw_result" where
  "Process ou parsed s =
     (let (start, s) = gs_clock ou s
      in case parsed of
           Inl err \<Rightarrow>
             (let (now, s) = gs_clock ou s in (Inr (NewResponse now ''parse_error'' [] False AnyNil err 0), s))
         | Inr req \<Rightarrow>
             (if mr_Timestamp req = 0
              then (let (now, s) = gs_clock ou s in gw_request ou start (req\<lparr>mr_Timestamp := UnixMilli now\<rparr>) s)
              else gw_request ou start req s))"

subsection \<open>The adapters answer their requests\<close>

lemma ro_answered:
  "answered False req (ro_fail out (mr_ID req) e start rg)" "answered False req (ro_response out (mr_ID req) start g d, w)"
  by (simp_all add: answered_def ro_fail_def ro_response_def split: prod.split)

lemma answered_url:
  "(\<And>u w. answered n req (f u w)) \<Longrightarrow> (\<And>w. answered n req (g w)) \<Longrightarrow>
     answered n req (case r of ((u, True), w) \<Rightarrow> f u w | ((_, False), w) \<Rightarrow> g w)"
  by (auto split: prod.split bool.split)

lemma answered_bool:
  "(\<And>w. answered n req (f w)) \<Longrightarrow> (\<And>w. answered n req (g w)) \<Longrightarrow>
     answered n req (case r of (True, w) \<Rightarrow> f w | (False, w) \<Rightarrow> g w)"
  by (auto split: prod.split bool.split)

lemma ro_publish_answered: "answered False req (ro_publish out req input start rg)"
  by (cases rg) (simp only: ro_publish_def Let_def case_prod_conv; intro answered_bool answered_url answered_sum ro_answered)

lemma ro_Execute_answered: "answered False req (ro_Execute out req rg)"
  by (cases rg) (simp add: ro_Execute_def Let_def ro_answered ro_publish_answered split: prod.split option.split)

interpretation tool: answering "tool_Execute ou kind" for ou :: "'w outer" and kind
  by unfold_locales
     (cases kind; simp add: tool_Execute_def fs.exec_ID git.exec_ID gh.exec_ID)

interpretation release: answering "ro_Execute out" for out :: "'w outside"
  by unfold_locales (erule answered_ID [OF ro_Execute_answered])

lemma breaker_answering: "answering (breaker_Execute ou kind i)"
  by unfold_locales
     (auto simp: breaker_Execute_def dest: answering.exec_ID [OF tool.cb_answering] split: prod.splits)

lemma deadline_answering: "answering inner \<Longrightarrow> answering (deadline_Execute ou timeout name inner)"
  by (unfold_locales, clarsimp simp: deadline_Execute_def split: prod.splits)
     (erule (1) answering.exec_ID [OF answering.ta_answering])

lemma wrapped_answering: "answering (wrapped_Execute ou kind i)"
  unfolding wrapped_Execute_def by (intro answering.ra_answering deadline_answering breaker_answering)

lemma publisher_answering: "answering (publisher_Execute ou)"
  unfolding publisher_Execute_def by (intro deadline_answering release.answering_axioms)

interpretation handle: answering "run_handle ou budget h" for ou :: "'w outer" and budget h
  by unfold_locales
     (auto simp: run_handle_def split: prod.splits handle.splits
        dest: answering.exec_ID [OF wrapped_answering] answering.exec_ID [OF publisher_answering])

subsection \<open>What a request leaves of the gateway\<close>

lemma gs_simps:
  "gs_clock ou s = (t, s') \<Longrightarrow> gs_ig s' = gs_ig s" "gs_since ou start s = (t, s') \<Longrightarrow> gs_ig s' = gs_ig s"
  "gs_ig (gs_trace ou ev s) = gs_ig s" "ig_backpressure (gs_ig (gs_tel f s)) = ig_backpressure (gs_ig s)"
  by (auto simp: gs_clock_def gs_since_def gs_trace_def gs_tel_def split: prod.splits)

lemma run_handle_bp: "run_handle ou budget h req s = (r, s') \<Longrightarrow> ig_backpressure (gs_ig s') = ig_backpressure (gs_ig s)"
  by (auto simp: run_handle_def split: prod.splits handle.splits)

lemma ia_Execute_bp:
  assumes "ia_Execute ou inner req s = (r, s')"
    and "\<And>s r s'. inner req s = (r, s') \<Longrightarrow> ig_backpressure (gs_ig s') = ig_backpressure (gs_ig s)"
  shows "ig_backpressure (gs_ig s') = ig_backpressure (gs_ig s)"
  using assms(1) assms(2)
  by (auto simp: ia_Execute_def Let_def gs_simps split: prod.splits outcome.splits if_splits dest!: gs_simps(1,2) assms(2))

lemma Route_bp: "Route ou budget req s = (r, s') \<Longrightarrow> ig_backpressure (gs_ig s') = ig_backpressure (gs_ig s)"
  by (auto simp: Route_def Let_def split: prod.splits outcome.splits sum.splits
      dest!: gs_simps(1,2) ia_Execute_bp [OF _ run_handle_bp])

lemma gw_response_spec:
  "gw_response ou start i traceID err s = (r, s') \<Longrightarrow> (\<exists>resp. r = Inr resp \<and> ms_ID resp = i) \<and> gs_ig s' = gs_ig s"
  by (auto simp: gw_response_def Let_def split: prod.splits dest!: gs_simps(1,2))

lemma gw_deny_spec:
  assumes "gw_deny ou start req ev err s = (r, s')"
  shows "(\<exists>resp. r = Inr resp \<and> ms_ID resp = mr_ID req) \<and> ig_backpressure (gs_ig s') = ig_backpressure (gs_ig s)"
  using gw_response_spec [OF assms [unfolded gw_deny_def Let_def]] by (auto simp: gs_simps split: option.splits)

lemma ia_Execute_ID:
  assumes "answering inner" and "ia_Execute ou inner req s = (Returns resp err, s')"
  shows "ms_ID resp = mr_ID req"
  using assms(2)
  by (auto simp: ia_Execute_def Let_def split: prod.splits outcome.splits dest: answering.exec_ID [OF assms(1)])

interpretation route: answering "Route ou budget" for ou :: "'w outer" and budget
  by unfold_locales
     (auto simp: Route_def Let_def split: prod.splits sum.splits outcome.splits
        dest: ia_Execute_ID [OF handle.answering_axioms])

lemma gw_elapsed_over_ig: "gw_elapsed_over ou start s = (r, s') \<Longrightarrow> gs_ig s' = gs_ig s"
  by (auto simp: gw_elapsed_over_def split: prod.splits dest!: gs_simps(1))

lemma gw_serve_bp:
  assumes "gw_serve ou start req s = (r, s')"
  shows "ig_backpressure (gs_ig s') = ig_backpressure (gs_ig s)"
  using assms
  by (auto simp: gw_serve_def Let_def gs_simps split: prod.splits option.splits outcome.splits if_splits
      dest!: gs_simps(1,2) gw_deny_spec gw_response_spec Route_bp gw_elapsed_over_ig)

lemma gw_serve_ID:
  assumes "gw_serve ou start req s = (Inr resp, s')"
  shows "ms_ID resp = mr_ID req"
  using assms
  by (auto simp: gw_serve_def Let_def split: prod.splits option.splits outcome.splits if_splits
      dest!: gw_deny_spec gw_response_spec dest: route.exec_ID)

lemma gw_acquired_holds:
  assumes "gw_acquired ou start req s = (r, s')" and "bp_holds A (ig_backpressure (gs_ig s))"
  shows "bp_holds A (ig_backpressure (gs_ig s'))"
proof (cases "Acquire (mr_SessionID req) (mr_Tool req) (ig_backpressure (gs_ig s))")
  case (Pair e b)
  show ?thesis
  proof (cases e)
    case None
    then have "bp_holds (add_mset (mr_SessionID req, mr_Tool req) A) b" using Acquire_holds Pair assms(2) by blast
    then have "bp_holds A (Release (mr_SessionID req) (mr_Tool req) b)"
      using Release_holds [of "add_mset (mr_SessionID req, mr_Tool req) A" b "mr_SessionID req" "mr_Tool req"] by simp
    then show ?thesis
      using assms(1) Pair None by (auto simp: gw_acquired_def split: prod.splits dest!: gw_serve_bp)
  next
    case (Some x)
    then show ?thesis using assms Pair by (auto simp: gw_acquired_def dest!: gw_deny_spec)
  qed
qed

lemma gw_acquired_ID: "gw_acquired ou start req s = (Inr resp, s') \<Longrightarrow> ms_ID resp = mr_ID req"
  by (auto simp: gw_acquired_def split: prod.splits option.splits dest!: gw_deny_spec dest: gw_serve_ID)

lemma gw_request_holds:
  assumes "gw_request ou start req s = (r, s')" and "bp_holds A (ig_backpressure (gs_ig s))"
  shows "bp_holds A (ig_backpressure (gs_ig s'))"
  using assms
  by (auto simp: gw_request_def Let_def gs_simps split: prod.splits option.splits if_splits
      dest!: gs_simps(1,2) gw_deny_spec gw_elapsed_over_ig elim!: gw_acquired_holds)

lemma gw_request_ID: "gw_request ou start req s = (Inr resp, s') \<Longrightarrow> ms_ID resp = mr_ID req"
  by (auto simp: gw_request_def Let_def split: prod.splits option.splits if_splits
      dest!: gw_deny_spec dest: gw_acquired_ID)

text \<open>C24:
  A request takes and gives back its place: whatever places are held before \<open>Process\<close> (one count per session, one per
  tool and the total), the same ones are held when it has answered, refused the request or panicked.
\<close>
theorem gateway_places_returned:
  assumes "bp_holds A (ig_backpressure (gs_ig s))"
  shows "bp_holds A (ig_backpressure (gs_ig (snd (Process ou parsed s))))"
  using assms
  by (cases "Process ou parsed s")
     (auto simp: Process_def Let_def split: prod.splits sum.splits if_splits dest!: gs_simps(1) intro: gw_request_holds)

text \<open>C25:
  Every answer of the gateway carries the identifier of its request, through the router, the instrumentation, the
  retries, the timeout, the circuit breaker and the tool.
\<close>
theorem gateway_answers_request:
  assumes "Process ou (Inr req) s = (Inr resp, s')"
  shows "ms_ID resp = mr_ID req"
  using assms by (auto simp: Process_def Let_def split: prod.splits if_splits dest!: gw_request_ID)

subsection \<open>A tool that fails\<close>

text \<open>With a breaker that has just been made, no deadline taken first and a tool that answers without success, the three
  attempts of a call fail, the breaker stays closed, and the error of the last attempt is nil.\<close>

definition fails :: "'w adapter \<Rightarrow> MCPRequest \<Rightarrow> bool" where
  "fails exec req \<longleftrightarrow> (\<forall>w. \<exists>resp w'. exec req w = (Returns resp None, w') \<and> \<not> ms_Success resp)"

definition few_failures :: "int \<Rightarrow> CircuitBreaker \<Rightarrow> bool" where
  "few_failures n cb \<longleftrightarrow> cb_state cb = StateClosed \<and> cb_consecutiveFail cb \<le> n \<and> cc_FailureThreshold (cb_config cb) = 5"

lemma failing_attempt:
  assumes "fails (tool_Execute ou kind) req" and "few_failures n (bs ! i)" and "n < 4" and "i < length bs"
    and "\<And>w. \<exists>w'. ou_late ou w = (False, w')"
  shows "\<exists>resp bs' w'. deadline_Execute ou timeout name (breaker_Execute ou kind i) req (bs, w) =
      (Returns resp None, bs', w') \<and> \<not> ms_Success resp \<and> few_failures (n + 1) (bs' ! i) \<and> i < length bs'"
proof -
  obtain w1 where w1: "ou_late ou w = (False, w1)" using assms(5) by blast
  obtain env w2 where w2: "ou_breaker ou w1 = (env, w2)" by (cases "ou_breaker ou w1")
  obtain resp w3 where w3: "tool_Execute ou kind req w2 = (Returns resp None, w3)" "\<not> ms_Success resp"
    using assms(1) unfolding fails_def by blast
  have "cb_Execute env (tool_Execute ou kind) req (bs ! i, w2) =
      (Returns resp None, cb_record (env_end env) (env_elapsed env) False (bs ! i), w3)"
    using assms(2) w3 by (simp add: cb_Execute_def cb_enter_def few_failures_def Let_def)
  moreover have "few_failures (n + 1) (cb_record (env_end env) (env_elapsed env) False (bs ! i))"
    using assms(2,3) by (simp add: few_failures_def cb_record_def Let_def)
  ultimately show ?thesis
    using w1 w2 w3 assms(4) by (auto simp: deadline_Execute_def ta_Execute_def breaker_Execute_def)
qed

lemma failing_call:
  assumes "fails (tool_Execute ou kind) req" and "few_failures 0 (bs ! i)" and "i < length bs"
    and "\<And>w. \<exists>w'. ou_late ou w = (False, w')"
  shows "\<exists>b bs' w'. wrapped_Execute ou kind i req (Some (NewRetryBudget DefaultRetryBudgetConfig), bs, w) =
      (Panics nil_error, b, bs', w')"
proof -
  let ?e = "deadline_Execute ou (30 * second) (''circuit_breaker:'' @ tool_Name kind) (breaker_Execute ou kind i) req"
  have r: "NewRetryAdapter DefaultRetryConfig = DefaultRetryConfig" by (simp add: NewRetryAdapter_def DefaultRetryConfig_def)
  obtain r0 bs1 w1 where 1: "?e (bs, w) = (Returns r0 None, bs1, w1)" "\<not> ms_Success r0" "few_failures 1 (bs1 ! i)" "i < length bs1"
    using failing_attempt [OF assms(1,2) _ assms(3,4)] by force
  obtain r1 bs2 w2 where 2: "?e (bs1, w1) = (Returns r1 None, bs2, w2)" "\<not> ms_Success r1" "few_failures 2 (bs2 ! i)" "i < length bs2"
    using failing_attempt [OF assms(1) 1(3) _ 1(4) assms(4)] by force
  obtain r2 bs3 w3 where 3: "?e (bs2, w2) = (Returns r2 None, bs3, w3)" "\<not> ms_Success r2"
    using failing_attempt [OF assms(1) 2(3) _ 2(4) assms(4)] by force
  show ?thesis
    using ra_nil_panic [where rnd = "ou_rand ou" and inner = "deadline_Execute ou (30 * second)
      (''circuit_breaker:'' @ tool_Name kind) (breaker_Execute ou kind i)", OF 1(1,2) 2(1,2) 3]
    unfolding wrapped_Execute_def r by blast
qed

lemma reg_wrapped_simps [simp]:
  "ig_router (reg_wrapped t a k ig) = router_Register t a (Wrapped k (length (ig_breakers ig))) (ig_router ig)"
  "ig_breakers (reg_wrapped t a k ig) = ig_breakers ig @ [NewCircuitBreaker (tool_Name k) DefaultCircuitBreakerConfig]"
  "ig_backpressure (reg_wrapped t a k ig) = ig_backpressure ig" "ig_latencyBudget (reg_wrapped t a k ig) = ig_latencyBudget ig"
  by (simp_all add: reg_wrapped_def)

abbreviation reg_tools :: "(string \<times> string \<times> tool_kind) list \<Rightarrow> IntegrationGateway \<Rightarrow> IntegrationGateway" where
  "reg_tools \<equiv> fold (\<lambda>(tool, action, kind). reg_wrapped tool action kind)"

lemma reg_tools_simps:
  "ig_breakers (reg_tools ts ig) =
     ig_breakers ig @ map (\<lambda>(_, _, k). NewCircuitBreaker (tool_Name k) DefaultCircuitBreakerConfig) ts"
  "ig_backpressure (reg_tools ts ig) = ig_backpressure ig" "ig_latencyBudget (reg_tools ts ig) = ig_latencyBudget ig"
  by (induction ts arbitrary: ig) auto

lemma new_gateway_simps:
  "ig_backpressure (NewIntegrationGateway tok orch) = NewBackpressureModel DefaultBackpressureConfig"
  "ig_latencyBudget (NewIntegrationGateway tok orch) = 30 * second"
  "ig_breakers (NewIntegrationGateway tok orch) =
     map (\<lambda>(_, _, kind). NewCircuitBreaker (tool_Name kind) DefaultCircuitBreakerConfig) (gateway_tools tok)"
  by (simp_all add: NewIntegrationGateway_def registerMRO_def reg_tools_simps bare_gateway_def NewLatencyBudget_def second_def)

lemma router_find_other:
  "router_find tr t' a' = Inr h \<Longrightarrow> (t', a') \<noteq> (t, a) \<Longrightarrow> router_find (router_Register t a x tr) t' a' = Inr h"
  by (auto simp: router_find_Register) (auto simp: router_find_def split: option.splits)

lemma reg_wrapped_all:
  assumes "(tool, action, kind) \<in> set ts" and "distinct (map (\<lambda>(t, a, _). (t, a)) ts)"
  shows "\<exists>i < length (ig_breakers ig) + length ts. router_find (ig_router (reg_tools ts ig)) tool action = Inr (Wrapped kind i)"
  using assms
proof (induction ts rule: rev_induct)
  case (snoc x ts)
  obtain t a k where x: "x = (t, a, k)" by (cases x)
  show ?case
  proof (cases "(tool, action, kind) \<in> set ts")
    case True
    then obtain i where i: "i < length (ig_breakers ig) + length ts"
      "router_find (ig_router (reg_tools ts ig)) tool action = Inr (Wrapped kind i)"
      using snoc by auto
    have "(tool, action) \<noteq> (t, a)" using snoc.prems(2) True x by force
    from router_find_other [OF i(2) this] show ?thesis
      using i(1) x by (intro exI [of _ i]) simp
  next
    case False
    then show ?thesis
      using snoc.prems(1) x by (intro exI [of _ "length (ig_breakers ig) + length ts"])
        (auto simp: router_find_Register reg_tools_simps)
  qed
qed simp

lemma new_gateway_router:
  assumes "(tool, action, kind) \<in> set (gateway_tools tok)"
  shows "\<exists>i < 12. router_find (ig_router (NewIntegrationGateway tok orch)) tool action = Inr (Wrapped kind i)"
proof -
  have "distinct (map (\<lambda>(t, a, _). (t, a)) (gateway_tools tok))" "length (gateway_tools tok) = 12"
    by (simp_all add: gateway_tools_def)
  then obtain i where i: "i < 12" "router_find (ig_router (reg_tools (gateway_tools tok) (bare_gateway orch))) tool action =
      Inr (Wrapped kind i)"
    using reg_wrapped_all [OF assms, of "bare_gateway orch"] by (auto simp: bare_gateway_def)
  have "tool \<noteq> ''release''" using assms by (auto simp: gateway_tools_def)
  then show ?thesis
    using i router_find_other [OF i(2), of "''release''"] by (auto simp: NewIntegrationGateway_def registerMRO_def)
qed

lemma new_breaker_few: "few_failures 0 (NewCircuitBreaker inner DefaultCircuitBreakerConfig)"
  by (simp add: few_failures_def NewCircuitBreaker_def DefaultCircuitBreakerConfig_def Let_def)

lemma new_gateway_few:
  assumes "i < 12"
  shows "few_failures 0 (ig_breakers (NewIntegrationGateway tok orch) ! i) \<and> i < length (ig_breakers (NewIntegrationGateway tok orch))"
proof -
  have "length (gateway_tools tok) = 12" by (simp add: gateway_tools_def)
  then show ?thesis using assms by (simp add: new_gateway_simps new_breaker_few split: prod.split)
qed

lemma ia_Execute_panics:
  assumes "\<And>s'. gs_ig s' = gs_ig s \<Longrightarrow> fst (inner req s') = Panics p"
  shows "fst (ia_Execute ou inner req s) = Panics p"
proof -
  obtain start s1 where c: "gs_clock ou s = (start, s1)" by (cases "gs_clock ou s")
  let ?s2 = "if fast_path (Some (SaturationPct (Some (active_pct (gs_ig s1))))) then s1
    else gs_trace ou (\<lambda>t. NewTraceEvent t EventAdapterExecute (mr_ID req) (mr_SessionID req)) s1"
  have "fst (inner req ?s2) = Panics p" by (rule assms) (use gs_simps(1) [OF c] in \<open>simp add: gs_simps\<close>)
  then obtain s3 where "inner req ?s2 = (Panics p, s3)" by (cases "inner req ?s2") simp
  then show ?thesis using c by (simp add: ia_Execute_def Let_def del: if_split)
qed

lemma Route_panics:
  assumes "router_find (ig_router (gs_ig s)) (mr_Tool req) (mr_Action req) = Inr h"
    and "\<And>s'. gs_ig s' = gs_ig s \<Longrightarrow> fst (run_handle ou budget h req s') = Panics p"
  shows "fst (Route ou budget req s) = Panics p"
proof -
  obtain start s1 where c: "gs_clock ou s = (start, s1)" by (cases "gs_clock ou s")
  have "fst (ia_Execute ou (run_handle ou budget h) req s1) = Panics p"
    by (rule ia_Execute_panics) (use assms(2) gs_simps(1) [OF c] in simp)
  then show ?thesis
    using assms(1) c by (cases "ia_Execute ou (run_handle ou budget h) req s1") (simp add: Route_def Let_def)
qed

definition ready :: "'w outer \<Rightarrow> MCPRequest \<Rightarrow> tool_kind \<Rightarrow> IntegrationGateway \<Rightarrow> bool" where
  "ready ou req kind ig \<longleftrightarrow> (\<exists>i < length (ig_breakers ig).
     router_find (ig_router ig) (mr_Tool req) (mr_Action req) = Inr (Wrapped kind i) \<and> few_failures 0 (ig_breakers ig ! i)) \<and>
     fails (tool_Execute ou kind) req \<and> (\<forall>w. \<exists>w'. ou_late ou w = (False, w')) \<and>
     ig_latencyBudget ig = 30 * second \<and> (\<forall>w w'. fst (ou_now ou w) - fst (ou_now ou w') \<le> 30 * second)"

lemma ready_cong:
  "ig_router ig' = ig_router ig \<Longrightarrow> ig_breakers ig' = ig_breakers ig \<Longrightarrow> ig_latencyBudget ig' = ig_latencyBudget ig \<Longrightarrow>
     ready ou req kind ig' = ready ou req kind ig"
  by (simp add: ready_def)

lemma ready_Route:
  assumes "ready ou req kind (gs_ig s)"
  shows "fst (Route ou (NewRetryBudget DefaultRetryBudgetConfig) req s) = Panics nil_error"
proof -
  obtain i where i: "i < length (ig_breakers (gs_ig s))" "few_failures 0 (ig_breakers (gs_ig s) ! i)"
    "router_find (ig_router (gs_ig s)) (mr_Tool req) (mr_Action req) = Inr (Wrapped kind i)"
    using assms unfolding ready_def by blast
  show ?thesis
  proof (rule Route_panics [OF i(3)])
    fix s' :: "'a gws"
    assume "gs_ig s' = gs_ig s"
    then show "fst (run_handle ou (NewRetryBudget DefaultRetryBudgetConfig) (Wrapped kind i) req s') = Panics nil_error"
      using failing_call [of ou kind req "ig_breakers (gs_ig s)" i "gs_world s'"] i assms
      by (auto simp: run_handle_def ready_def)
  qed
qed

lemma ready_elapsed:
  assumes "ready ou req kind (gs_ig s)" and "start = fst (ou_now ou w)"
  shows "\<exists>s'. gw_elapsed_over ou start s = (None, s') \<and> gs_ig s' = gs_ig s"
proof -
  obtain t s1 where c: "gs_clock ou s = (t, s1)" by (cases "gs_clock ou s")
  have "t = fst (ou_now ou (gs_world s))" using c by (auto simp: gs_clock_def split: prod.splits)
  then have "t - start \<le> 30 * second" using assms by (simp add: ready_def)
  then show ?thesis
    using c gs_simps(1) [OF c] assms(1) by (simp add: gw_elapsed_over_def lb_Check_def ready_def)
qed

lemma ready_serve:
  assumes "ready ou req kind (gs_ig s)" and "start = fst (ou_now ou w)"
  shows "fst (gw_serve ou start req s) = Inl nil_error"
proof -
  define s1 where "s1 = (gs_tel (RecordQueueDepth (ActiveCount (ig_backpressure (gs_ig s)))) s)
    \<lparr>gs_world := ou_ingest ou (kernel_request req) (gs_world (gs_tel (RecordQueueDepth (ActiveCount (ig_backpressure (gs_ig s)))) s))\<rparr>"
  have "ready ou req kind (gs_ig s1)"
    using assms(1) by (simp add: s1_def gs_tel_def ready_def)
  from ready_elapsed [OF this assms(2)] obtain s2 where s2: "gw_elapsed_over ou start s1 = (None, s2)" "gs_ig s2 = gs_ig s1"
    by blast
  have "fst (Route ou (NewRetryBudget DefaultRetryBudgetConfig) req s2) = Panics nil_error"
    by (rule ready_Route) (use \<open>ready ou req kind (gs_ig s1)\<close> s2 in simp)
  then show ?thesis
    using s2 unfolding gw_serve_def Let_def s1_def [symmetric]
    by (cases "Route ou (NewRetryBudget DefaultRetryBudgetConfig) req s2") simp
qed

lemma new_bp_free:
  "\<not> IsSaturated (NewBackpressureModel DefaultBackpressureConfig)"
  "\<not> IsSoftRejected sid (NewBackpressureModel DefaultBackpressureConfig)"
  "fst (Acquire sid tool (NewBackpressureModel DefaultBackpressureConfig)) = None"
  by (simp_all add: IsSaturated_def IsSoftRejected_def Acquire_def NewBackpressureModel_def DefaultBackpressureConfig_def
        bp_session_def bp_tool_def)

lemma ready_request:
  assumes "ready ou req kind (gs_ig s)" and "start = fst (ou_now ou w)"
    and "mr_SessionID req \<noteq> []" and "mr_ProjectID req \<noteq> []"
    and "ig_backpressure (gs_ig s) = NewBackpressureModel DefaultBackpressureConfig"
  shows "fst (gw_request ou start req s) = Inl nil_error"
proof -
  define s0 where "s0 = gs_tel RecordRequest (s\<lparr>gs_tg := NewTraceGraph\<rparr>)"
  obtain now s1 where c: "gs_clock ou s0 = (now, s1)" by (cases "gs_clock ou s0")
  define s2 where "s2 = gs_trace ou (\<lambda>t. NewTraceEvent t EventGatewayRequest (mr_ID req) (mr_SessionID req))
    (gs_upd (\<lambda>ig. ig\<lparr>ig_sessionTracker := Touch now (mr_SessionID req) (ig_sessionTracker ig)\<rparr>) s1)"
  have s2: "ready ou req kind (gs_ig s2)" "ig_backpressure (gs_ig s2) = NewBackpressureModel DefaultBackpressureConfig"
    using assms(1,5) gs_simps(1) [OF c] by (simp_all add: s2_def s0_def gs_simps gs_tel_def ready_def)
  obtain s3 where s3: "gw_elapsed_over ou start s2 = (None, s3)" "gs_ig s3 = gs_ig s2"
    using ready_elapsed [OF s2(1) assms(2)] by blast
  obtain b where b: "Acquire (mr_SessionID req) (mr_Tool req) (NewBackpressureModel DefaultBackpressureConfig) = (None, b)"
    using new_bp_free(3) by (metis prod.collapse)
  have "fst (gw_serve ou start req (gs_upd (\<lambda>ig. ig\<lparr>ig_backpressure := b\<rparr>) s3)) = Inl nil_error"
    by (rule ready_serve [where kind = kind, OF _ assms(2)]) (use s2(1) s3 in \<open>simp add: ready_def\<close>)
  then have "fst (gw_acquired ou start req s3) = Inl nil_error"
    using b s2 s3
    by (cases "gw_serve ou start req (gs_upd (\<lambda>ig. ig\<lparr>ig_backpressure := b\<rparr>) s3)") (simp add: gw_acquired_def)
  then show ?thesis
    using c s3 s2 assms(3,4) new_bp_free unfolding gw_request_def Let_def s0_def [symmetric]
    by (simp add: s2_def [symmetric])
qed

text \<open>
  On a new gateway a call of a tool that answers without success (a file that cannot be read, a git command that
  exits with an error, a missing argument) does not return the error of the tool: the retries end with a nil error value, the
  text of which is asked for, and \<open>Process\<close> panics.
\<close>
theorem failing_tool_panics:
  assumes "(mr_Tool req, mr_Action req, kind) \<in> set (gateway_tools tok)"
    and "fails (tool_Execute ou kind) req"
    and "mr_SessionID req \<noteq> []" and "mr_ProjectID req \<noteq> []" and "mr_Timestamp req \<noteq> 0"
    and "\<And>w. \<exists>w'. ou_late ou w = (False, w')"
    and "\<And>w w'. fst (ou_now ou w) - fst (ou_now ou w') \<le> 30 * second"
  shows "fst (Process ou (Inr req) \<lparr>gs_ig = NewIntegrationGateway tok orch, gs_tg = [], gs_world = w\<rparr>) = Inl nil_error"
proof -
  let ?s = "\<lparr>gs_ig = NewIntegrationGateway tok orch, gs_tg = [], gs_world = w\<rparr>"
  obtain start s1 where c: "gs_clock ou ?s = (start, s1)" by (cases "gs_clock ou ?s")
  have start: "start = fst (ou_now ou w)" and s1: "gs_ig s1 = NewIntegrationGateway tok orch"
    using c by (auto simp: gs_clock_def split: prod.splits)
  obtain i where i: "i < 12"
    "router_find (ig_router (NewIntegrationGateway tok orch)) (mr_Tool req) (mr_Action req) = Inr (Wrapped kind i)"
    using new_gateway_router [OF assms(1)] by blast
  have "ready ou req kind (gs_ig s1)"
    unfolding ready_def s1 using i new_gateway_few [OF i(1), of tok orch] assms(2,6,7) new_gateway_simps(2) by blast
  then have "fst (gw_request ou start req s1) = Inl nil_error"
    by (rule ready_request [OF _ start assms(3,4)]) (simp add: s1 new_gateway_simps)
  then show ?thesis using c assms(5) by (simp add: Process_def)
qed

text \<open>A world in which nothing happens and no file can be read.\<close>

definition idle_system :: "unit system" where
  "idle_system =
     \<lparr>sys_ReadFile = (\<lambda>_ w. (Inl ''no such file'', w)), sys_MkdirAll = (\<lambda>_ w. (None, w)), sys_WriteFile = (\<lambda>_ _ w. (None, w)),
      sys_ReadDir = (\<lambda>_ w. (Inr [], w)), sys_Walk = (\<lambda>_ _. []), sys_Match = (\<lambda>_ _. False),
      sys_Command = (\<lambda>_ _ w. ((None, []), w)), sys_HTTP = (\<lambda>_ _ _ _ w. (Inl ''no network'', w)), sys_ValidURL = (\<lambda>_. True),
      sys_Show = (\<lambda>_. [])\<rparr>"

definition idle_outer :: "unit outer" where
  "idle_outer =
     \<lparr>ou_now = (\<lambda>w. (5, w)), ou_late = (\<lambda>w. (False, w)), ou_breaker = (\<lambda>w. (\<lparr>env_now = 5, env_elapsed = 0, env_end = 5\<rparr>, w)),
      ou_rand = (\<lambda>_. 0), ou_duration = (\<lambda>_. ''30s''), ou_sys = idle_system, ou_release = sample_outside, ou_ingest = (\<lambda>_ w. w)\<rparr>"

definition read_request :: MCPRequest where
  "read_request = \<lparr>mr_ID = ''r1'', mr_SessionID = ''s'', mr_ProjectID = ''p'', mr_Tool = ''filesystem'', mr_Action = ''read'',
     mr_Payload = [(''path'', AnyString ''missing.txt'')], mr_Timestamp = 1\<rparr>"

definition new_gateway :: IntegrationGateway where
  "new_gateway = NewIntegrationGateway ''t'' (NewReleaseOrchestrator True Missing Missing ''t'' ''o'' ''r'')"

lemma failing_tool_panics_witness:
  "fst (Process idle_outer (Inr read_request)
     \<lparr>gs_ig = new_gateway, gs_tg = [], gs_world = ()\<rparr>) = Inl nil_error"
  unfolding new_gateway_def
proof (rule failing_tool_panics [where kind = FilesystemTool])
  show "(mr_Tool read_request, mr_Action read_request, FilesystemTool) \<in> set (gateway_tools ''t'')"
    by (simp add: read_request_def gateway_tools_def)
  show "fails (tool_Execute idle_outer FilesystemTool) read_request"
    by (simp add: fails_def tool_Execute_def idle_outer_def idle_system_def read_request_def fs_Execute_def fs_read_def
          payload_string_def any_string_def gm_get_def Let_def)
qed (simp_all add: read_request_def idle_outer_def second_def)

lemma gateway_places_returned_witness:
  "bp_holds {#} (ig_backpressure (gs_ig (snd (Process idle_outer (Inr read_request)
     \<lparr>gs_ig = new_gateway, gs_tg = [], gs_world = ()\<rparr>))))"
  by (rule gateway_places_returned) (simp add: new_gateway_def new_gateway_simps bp_holds_New)

text \<open>A request without a session is answered.\<close>

lemma gateway_answers_request_witness:
  "\<exists>resp s'. Process idle_outer (Inr (read_request\<lparr>mr_SessionID := []\<rparr>))
     \<lparr>gs_ig = new_gateway, gs_tg = [], gs_world = ()\<rparr> = (Inr resp, s') \<and> ms_ID resp = ''r1''"
proof -
  let ?p = "Process idle_outer (Inr (read_request\<lparr>mr_SessionID := []\<rparr>))
     \<lparr>gs_ig = new_gateway, gs_tg = [], gs_world = ()\<rparr>"
  have "\<exists>resp s'. ?p = (Inr resp, s')"
    by (auto simp: Process_def read_request_def gw_request_def gw_deny_def gw_response_def Let_def split: prod.split)
  then obtain resp s' where p: "?p = (Inr resp, s')" by blast
  then show ?thesis using gateway_answers_request [OF p] by (simp add: read_request_def)
qed

end
