(* ===== verification/Run_Queue.thy ===== *)
theory Run_Queue
  imports Run_Types
begin

text \<open>
  The queues of the MCP kernel, \<open>runtime/queue\<close>: the bounded request queue on a channel
  (\<open>request_queue.go\<close>) and the round-robin queue over sessions (\<open>fair_queue.go\<close>). The locale
  \<open>bounded_queue\<close> states what a client of either may rely on; both are interpretations of it.
  The clock readings of an operation are arguments, and what the violation callback is called with is
  returned as a list. A panic is a value of \<open>fq_panic\<close>.
\<close>

subsection \<open>The interface of a bounded queue\<close>

datatype ('e, 'a) qop = Enq 'e 'a | Deq 'e

text \<open>A run of operations: the elements accepted, the elements served and the final state.\<close>

fun qrun ::
  "('e \<Rightarrow> 'a \<Rightarrow> 'q \<Rightarrow> 'q option) \<Rightarrow> ('e \<Rightarrow> 'q \<Rightarrow> ('a \<times> 'q) option) \<Rightarrow> ('e, 'a) qop list \<Rightarrow> 'q \<Rightarrow>
   'a list \<times> 'a list \<times> 'q" where
  "qrun enq deq [] q = ([], [], q)"
| "qrun enq deq (Enq e a # ops) q =
     (case enq e a q of
        None \<Rightarrow> qrun enq deq ops q
      | Some q' \<Rightarrow> (case qrun enq deq ops q' of (acc, srv, q'') \<Rightarrow> (a # acc, srv, q'')))"
| "qrun enq deq (Deq e # ops) q =
     (case deq e q of
        None \<Rightarrow> qrun enq deq ops q
      | Some (a, q') \<Rightarrow> (case qrun enq deq ops q' of (acc, srv, q'') \<Rightarrow> (acc, a # srv, q'')))"

locale bounded_queue =
  fixes content :: "'q \<Rightarrow> 'a multiset"
    and cap :: "'q \<Rightarrow> nat"
    and enq :: "'e \<Rightarrow> 'a \<Rightarrow> 'q \<Rightarrow> 'q option"
    and deq :: "'e \<Rightarrow> 'q \<Rightarrow> ('a \<times> 'q) option"
    and invar :: "'q \<Rightarrow> bool"
  assumes enq_None: "invar q \<Longrightarrow> enq e a q = None \<longleftrightarrow> size (content q) \<ge> cap q"
    and enq_Some: "invar q \<Longrightarrow> enq e a q = Some q' \<Longrightarrow>
          invar q' \<and> cap q' = cap q \<and> content q' = add_mset a (content q)"
    and deq_None: "invar q \<Longrightarrow> deq e q = None \<longleftrightarrow> content q = {#}"
    and deq_Some: "invar q \<Longrightarrow> deq e q = Some (a, q') \<Longrightarrow>
          invar q' \<and> cap q' = cap q \<and> content q = add_mset a (content q')"
begin

lemma run_conserves:
  assumes "invar q" and "qrun enq deq ops q = (acc, srv, q')"
  shows "invar q' \<and> cap q' = cap q \<and> content q + mset acc = mset srv + content q'"
  using assms
proof (induction ops arbitrary: q acc srv)
  case Nil
  then show ?case by simp
next
  case (Cons op ops)
  show ?case
  proof (cases op)
    case (Enq e a)
    show ?thesis
    proof (cases "enq e a q")
      case None
      then show ?thesis using Cons Enq by simp
    next
      case (Some q1)
      from enq_Some [OF Cons.prems(1) Some]
      have q1: "invar q1" "cap q1 = cap q" "content q1 = add_mset a (content q)" by auto
      obtain acc1 where "acc = a # acc1" "qrun enq deq ops q1 = (acc1, srv, q')"
        using Cons.prems(2) Enq Some by (auto split: prod.splits)
      then show ?thesis using Cons.IH [OF q1(1)] q1 by fastforce
    qed
  next
    case (Deq e)
    show ?thesis
    proof (cases "deq e q")
      case None
      then show ?thesis using Cons Deq by simp
    next
      case (Some aq)
      obtain a q1 where aq: "aq = (a, q1)" by (cases aq)
      from deq_Some [OF Cons.prems(1) Some [unfolded aq]]
      have q1: "invar q1" "cap q1 = cap q" "content q = add_mset a (content q1)" by auto
      obtain srv1 where "srv = a # srv1" "qrun enq deq ops q1 = (acc, srv1, q')"
        using Cons.prems(2) Deq Some aq by (auto split: prod.splits)
      then show ?thesis using Cons.IH [OF q1(1)] q1 by fastforce
    qed
  qed
qed

lemma run_bounded:
  assumes "invar q" and "size (content q) \<le> cap q" and "qrun enq deq ops q = (acc, srv, q')"
  shows "size (content q') \<le> cap q"
  using assms
proof (induction ops arbitrary: q acc srv)
  case Nil
  then show ?case by simp
next
  case (Cons op ops)
  show ?case
  proof (cases op)
    case (Enq e a)
    show ?thesis
    proof (cases "enq e a q")
      case None
      then show ?thesis using Cons Enq by simp
    next
      case (Some q1)
      from enq_Some [OF Cons.prems(1) Some]
      have q1: "invar q1" "cap q1 = cap q" "content q1 = add_mset a (content q)" by auto
      have "size (content q) < cap q"
        using enq_None [OF Cons.prems(1), of e a] Some by simp
      then have "size (content q1) \<le> cap q1" using q1 by simp
      moreover obtain acc1 where "qrun enq deq ops q1 = (acc1, srv, q')"
        using Cons.prems(3) Enq Some by (auto split: prod.splits)
      ultimately show ?thesis using Cons.IH [OF q1(1)] q1(2) by simp
    qed
  next
    case (Deq e)
    show ?thesis
    proof (cases "deq e q")
      case None
      then show ?thesis using Cons Deq by simp
    next
      case (Some aq)
      obtain a q1 where aq: "aq = (a, q1)" by (cases aq)
      from deq_Some [OF Cons.prems(1) Some [unfolded aq]]
      have q1: "invar q1" "cap q1 = cap q" "content q = add_mset a (content q1)" by auto
      then have "size (content q1) \<le> cap q1" using Cons.prems(2) by simp
      moreover obtain srv1 where "qrun enq deq ops q1 = (acc, srv1, q')"
        using Cons.prems(3) Deq Some aq by (auto split: prod.splits)
      ultimately show ?thesis using Cons.IH [OF q1(1)] q1(2) by simp
    qed
  qed
qed

text \<open>As many removals as there are elements empty the queue.\<close>

lemma drain:
  assumes "invar q" and "size (content q) = n"
  shows "\<exists>srv q'. qrun enq deq (map Deq (replicate n e)) q = ([], srv, q') \<and> mset srv = content q \<and> content q' = {#}"
  using assms
proof (induction n arbitrary: q)
  case 0
  then show ?case by simp
next
  case (Suc n)
  then have "deq e q \<noteq> None" using deq_None [OF Suc.prems(1)] by auto
  then obtain a q1 where d: "deq e q = Some (a, q1)" by auto
  from deq_Some [OF Suc.prems(1) d]
  have q1: "invar q1" "content q = add_mset a (content q1)" by auto
  then have "size (content q1) = n" using Suc.prems(2) by simp
  from Suc.IH [OF q1(1) this] show ?case using d q1(2) by auto
qed

end

subsection \<open>The request queue\<close>

record RequestQueue =
  rq_ch :: "RequestContext list"
  rq_closed :: bool
  rq_maxSize :: int
  rq_Enqueued :: int
  rq_Dequeued :: int
  rq_Rejected :: int
  rq_TimedOut :: int

datatype rq_error = ErrQueueFull | SendOnClosed

definition NewRequestQueue :: "int \<Rightarrow> RequestQueue" where
  "NewRequestQueue maxSize =
     \<lparr>rq_ch = [], rq_closed = False, rq_maxSize = maxSize, rq_Enqueued = 0, rq_Dequeued = 0, rq_Rejected = 0,
      rq_TimedOut = 0\<rparr>"

text \<open>A send on a closed channel panics, also within a \<open>select\<close> with a default.\<close>

definition rq_Enqueue :: "RequestContext \<Rightarrow> RequestQueue \<Rightarrow> rq_error option \<times> RequestQueue" where
  "rq_Enqueue req q =
     (if rq_closed q then (Some SendOnClosed, q)
      else if int (length (rq_ch q)) < rq_maxSize q
      then (None, q\<lparr>rq_ch := rq_ch q @ [req], rq_Enqueued := rq_Enqueued q + 1\<rparr>)
      else (Some ErrQueueFull, q\<lparr>rq_Rejected := rq_Rejected q + 1\<rparr>))"

text \<open>What a worker does with \<open>Chan\<close>: a receive, which blocks (\<open>None\<close>) on an empty channel.\<close>

definition rq_Chan :: "RequestQueue \<Rightarrow> (RequestContext \<times> RequestQueue) option" where
  "rq_Chan q = (case rq_ch q of [] \<Rightarrow> None | r # rs \<Rightarrow> Some (r, q\<lparr>rq_ch := rs\<rparr>))"

definition rq_Size :: "RequestQueue \<Rightarrow> int" where "rq_Size q = int (length (rq_ch q))"
definition rq_MaxSize :: "RequestQueue \<Rightarrow> int" where "rq_MaxSize q = rq_maxSize q"
definition rq_IsFull :: "RequestQueue \<Rightarrow> bool" where "rq_IsFull q \<longleftrightarrow> int (length (rq_ch q)) \<ge> rq_maxSize q"

text \<open>Closing a closed channel panics (\<open>None\<close>).\<close>

definition rq_Close :: "RequestQueue \<Rightarrow> RequestQueue option" where
  "rq_Close q = (if rq_closed q then None else Some (q\<lparr>rq_closed := True\<rparr>))"

definition rq_enq :: "unit \<Rightarrow> RequestContext \<Rightarrow> RequestQueue \<Rightarrow> RequestQueue option" where
  "rq_enq e req q = (case rq_Enqueue req q of (None, q') \<Rightarrow> Some q' | (Some _, _) \<Rightarrow> None)"

interpretation rq: bounded_queue "\<lambda>q. mset (rq_ch q)" "\<lambda>q. nat (rq_maxSize q)" rq_enq "\<lambda>_. rq_Chan" "\<lambda>q. \<not> rq_closed q"
  by unfold_locales
     (auto simp: rq_enq_def rq_Enqueue_def rq_Chan_def split: if_splits list.splits)

subsection \<open>The fair queue\<close>

record FairnessViolation =
  fv_Type :: string
  fv_SessionID :: string
  fv_WaitTimeMs :: rat
  fv_RiskSessions :: "string list"
  fv_Timestamp :: int

record sessionEntry =
  se_requests :: "RequestContext list"
  se_firstEnqueue :: int
  se_totalServed :: int
  se_maxWait :: int

record FairQueue =
  fq_sessions :: "(string, sessionEntry) gomap"
  fq_order :: "string list"
  fq_pos :: nat
  fq_maxSize :: int
  fq_total :: int
  fq_maxStarvation :: int
  fq_lastCheck :: int

definition NewFairQueue :: "int \<Rightarrow> int \<Rightarrow> FairQueue" where
  "NewFairQueue now maxSize =
     \<lparr>fq_sessions = [], fq_order = [], fq_pos = 0, fq_maxSize = maxSize, fq_total = 0, fq_maxStarvation = 30 * second,
      fq_lastCheck = now\<rparr>"

definition sid_of :: "RequestContext \<Rightarrow> string" where
  "sid_of req = (if rc_SessionID req = [] then ''_global'' else rc_SessionID req)"

definition maxPending :: "FairQueue \<Rightarrow> nat" where
  "maxPending q = fold (\<lambda>(_, e) m. if length (se_requests e) > m then length (se_requests e) else m) (fq_sessions q) 0"

definition starvationRiskLocked :: "FairQueue \<Rightarrow> string list" where
  "starvationRiskLocked q = map fst (filter
     (\<lambda>(sid, e). length (se_requests e) > 0 \<and> maxPending q > 3 \<and> length (se_requests e) \<ge> maxPending q div 2)
     (fq_sessions q))"

definition check_entry :: "FairQueue \<Rightarrow> int \<Rightarrow> string \<times> sessionEntry \<Rightarrow> FairnessViolation list" where
  "check_entry q now = (\<lambda>(sid, e).
     let waitTime = now - se_firstEnqueue e
     in (if waitTime > fq_maxStarvation q div 2 \<and> waitTime \<le> fq_maxStarvation q
         then [\<lparr>fv_Type = ''FAIRNESS_WARNING'', fv_SessionID = sid, fv_WaitTimeMs = micros_ms waitTime,
                fv_RiskSessions = [], fv_Timestamp = now\<rparr>] else []) @
        (if waitTime > fq_maxStarvation q
         then [\<lparr>fv_Type = ''FAIRNESS_VIOLATION'', fv_SessionID = sid, fv_WaitTimeMs = micros_ms waitTime,
                fv_RiskSessions = starvationRiskLocked q, fv_Timestamp = now\<rparr>] else []))"

definition checkFairness :: "int \<Rightarrow> FairQueue \<Rightarrow> FairQueue \<times> FairnessViolation list" where
  "checkFairness now q =
     (if now - fq_lastCheck q < second then (q, [])
      else (let q1 = q\<lparr>fq_lastCheck := now\<rparr> in (q1, concat (map (check_entry q1 now) (fq_sessions q1)))))"

text \<open>The instants are those of the entry made for a new session and of the check.\<close>

definition fq_Enqueue ::
  "int \<Rightarrow> int \<Rightarrow> RequestContext \<Rightarrow> FairQueue \<Rightarrow> rq_error + FairQueue \<times> FairnessViolation list" where
  "fq_Enqueue now1 now2 req q =
     (if fq_total q \<ge> fq_maxSize q then Inl ErrQueueFull
      else
        let sid = sid_of req;
            (entry, order) =
              (case gm_get (fq_sessions q) sid of
                 Some e \<Rightarrow> (e, fq_order q)
               | None \<Rightarrow> (\<lparr>se_requests = [], se_firstEnqueue = now1, se_totalServed = 0, se_maxWait = 0\<rparr>, fq_order q @ [sid]))
        in Inr (checkFairness now2 (q
             \<lparr>fq_order := order,
              fq_sessions := gm_put sid (entry\<lparr>se_requests := se_requests entry @ [req]\<rparr>) (fq_sessions q),
              fq_total := fq_total q + 1\<rparr>)))"

datatype fq_panic = IndexOutOfRange | LoopBound

text \<open>Serving the session at the position of the loop.\<close>

definition fq_serve :: "int \<Rightarrow> string \<Rightarrow> sessionEntry \<Rightarrow> RequestContext \<Rightarrow> RequestContext list \<Rightarrow> FairQueue \<Rightarrow> FairQueue" where
  "fq_serve now sid entry req rest q =
     (let waitTime = now - rc_TimestampStart req;
          entry1 = entry\<lparr>se_requests := rest,
                    se_maxWait := (if waitTime > se_maxWait entry then waitTime else se_maxWait entry),
                    se_totalServed := se_totalServed entry + 1\<rparr>;
          q1 = q\<lparr>fq_total := fq_total q - 1\<rparr>
      in if rest = [] then
           (let order = take (fq_pos q) (fq_order q) @ drop (fq_pos q + 1) (fq_order q)
            in q1\<lparr>fq_sessions := gm_del sid (fq_sessions q), fq_order := order,
                  fq_pos := (if fq_pos q \<ge> length order then 0 else fq_pos q)\<rparr>)
         else q1\<lparr>fq_sessions := gm_put sid entry1 (fq_sessions q),
                 fq_pos := (fq_pos q + 1) mod length (fq_order q)\<rparr>)"

text \<open>The loop of \<open>Dequeue\<close>, with a bound on its rounds.\<close>

fun fq_scan :: "int \<Rightarrow> nat \<Rightarrow> nat \<Rightarrow> FairQueue \<Rightarrow> fq_panic + RequestContext option \<times> FairQueue" where
  "fq_scan now startPos 0 q = Inl LoopBound"
| "fq_scan now startPos (Suc n) q =
     (if fq_order q = [] then Inr (None, q)
      else if fq_pos q \<ge> length (fq_order q) then Inl IndexOutOfRange
      else
        let sid = fq_order q ! fq_pos q;
            q' = q\<lparr>fq_pos := (fq_pos q + 1) mod length (fq_order q)\<rparr>;
            next = (if fq_pos q' = startPos then Inr (None, q') else fq_scan now startPos n q')
        in case gm_get (fq_sessions q) sid of
             Some entry \<Rightarrow>
               (case se_requests entry of
                  req # rest \<Rightarrow> Inr (Some req, fq_serve now sid entry req rest q)
                | [] \<Rightarrow> next)
           | None \<Rightarrow> next)"

definition fq_Dequeue :: "int \<Rightarrow> FairQueue \<Rightarrow> fq_panic + RequestContext option \<times> FairQueue" where
  "fq_Dequeue now q = (if fq_total q = 0 then Inr (None, q) else fq_scan now (fq_pos q) (length (fq_order q) + 1) q)"

definition MaxStarvationMs :: "FairQueue \<Rightarrow> rat" where
  "MaxStarvationMs q = fold (\<lambda>(_, e) m. if micros_ms (se_maxWait e) > m then micros_ms (se_maxWait e) else m) (fq_sessions q) 0"

definition SessionCount :: "FairQueue \<Rightarrow> nat" where "SessionCount q = length (fq_sessions q)"

definition SessionSizes :: "FairQueue \<Rightarrow> (string, nat) gomap" where
  "SessionSizes q = map (\<lambda>(sid, e). (sid, length (se_requests e))) (fq_sessions q)"

subsection \<open>Its invariant\<close>

text \<open>The requests of a session, in order of arrival.\<close>

definition fq_waiting :: "FairQueue \<Rightarrow> string \<Rightarrow> RequestContext list" where
  "fq_waiting q s = (case gm_get (fq_sessions q) s of None \<Rightarrow> [] | Some e \<Rightarrow> se_requests e)"

definition fq_content :: "FairQueue \<Rightarrow> RequestContext multiset" where
  "fq_content q = mset (concat (map (fq_waiting q) (fq_order q)))"

definition fq_inv :: "FairQueue \<Rightarrow> bool" where
  "fq_inv q \<longleftrightarrow> distinct (fq_order q) \<and> gm_wf (fq_sessions q) \<and> set (fq_order q) = set (gm_keys (fq_sessions q)) \<and>
     (\<forall>s \<in> set (fq_order q). fq_waiting q s \<noteq> [] \<and> (\<forall>r \<in> set (fq_waiting q s). sid_of r = s)) \<and>
     fq_total q = int (size (fq_content q)) \<and>
     (if fq_order q = [] then fq_pos q = 0 else fq_pos q < length (fq_order q))"

lemma fq_waiting_outside: "fq_inv q \<Longrightarrow> s \<notin> set (fq_order q) \<Longrightarrow> fq_waiting q s = []"
  using gm_get_None_iff [of "fq_sessions q" s] by (simp add: fq_inv_def fq_waiting_def)

lemma fq_waiting_iff: "fq_inv q \<Longrightarrow> fq_waiting q s \<noteq> [] \<longleftrightarrow> s \<in> set (fq_order q)"
  using fq_waiting_outside [of q s] by (auto simp: fq_inv_def)

lemma fq_waiting_session: "fq_inv q \<Longrightarrow> r \<in> set (fq_waiting q s) \<Longrightarrow> sid_of r = s"
  using fq_waiting_outside [of q s] by (cases "s \<in> set (fq_order q)") (auto simp: fq_inv_def)

lemma mset_concat_upd:
  "distinct xs \<Longrightarrow> s \<in> set xs \<Longrightarrow>
   mset (concat (map (f(s := ys)) xs)) + mset (f s) = mset (concat (map f xs)) + mset ys"
proof (induction xs)
  case (Cons x xs)
  show ?case
  proof (cases "s = x")
    case True
    then have "map (f(x := ys)) xs = map f xs" using Cons.prems by (intro map_cong) auto
    then show ?thesis using True by (simp add: ac_simps fun_upd_same del: fun_upd_apply map_eq_conv)
  next
    case False
    then show ?thesis using Cons by (simp add: ac_simps)
  qed
qed simp

lemma concat_remove_empty:
  "k < length xs \<Longrightarrow> f (xs ! k) = [] \<Longrightarrow> concat (map f (take k xs @ drop (k + 1) xs)) = concat (map f xs)"
  by (subst (3) id_take_nth_drop [of k xs]) auto

lemma fq_empty_iff: "fq_inv q \<Longrightarrow> fq_total q = 0 \<longleftrightarrow> fq_order q = []"
proof (cases "fq_order q")
  case (Cons a list)
  assume "fq_inv q"
  then have "length (fq_waiting q a) > 0" "fq_total q = int (length (fq_waiting q a)) + int (length (concat (map (fq_waiting q) list)))"
    using Cons by (simp_all add: fq_inv_def fq_content_def)
  then have "fq_total q \<noteq> 0" by linarith
  then show ?thesis using Cons by simp
qed (simp add: fq_inv_def fq_content_def)

lemma fq_total_pos: "fq_inv q \<Longrightarrow> fq_total q \<ge> 0"
  by (simp add: fq_inv_def)

lemma fq_inv_New: "fq_inv (NewFairQueue now n)"
  by (simp add: fq_inv_def NewFairQueue_def fq_content_def fq_waiting_def gm_keys_def)

lemma checkFairness_keeps:
  "fst (checkFairness now q) = q\<lparr>fq_lastCheck := fq_lastCheck (fst (checkFairness now q))\<rparr>"
  by (simp add: checkFairness_def Let_def)

lemma checkFairness_simps [simp]:
  "fq_order (fst (checkFairness now q)) = fq_order q" "fq_sessions (fst (checkFairness now q)) = fq_sessions q"
  "fq_pos (fst (checkFairness now q)) = fq_pos q" "fq_maxSize (fst (checkFairness now q)) = fq_maxSize q"
  "fq_total (fst (checkFairness now q)) = fq_total q" "fq_waiting (fst (checkFairness now q)) = fq_waiting q"
  by (simp_all add: checkFairness_def fq_waiting_def Let_def fun_eq_iff)

subsection \<open>What the operations do\<close>

lemma fq_waiting_upd:
  "fq_sessions q' = gm_put s e (fq_sessions q) \<Longrightarrow> fq_waiting q' = (fq_waiting q)(s := se_requests e)"
  by (rule ext) (simp add: fq_waiting_def)

lemma fq_waiting_del:
  "fq_sessions q' = gm_del s (fq_sessions q) \<Longrightarrow> fq_waiting q' = (fq_waiting q)(s := [])"
  by (rule ext) (simp add: fq_waiting_def)

text \<open>The order and the requests determine the content.\<close>

lemma fq_content_upd:
  assumes "distinct (fq_order q)" and "s \<in> set (fq_order q)"
    and "fq_waiting q' = (fq_waiting q)(s := ys)" and "fq_order q' = fq_order q"
  shows "fq_content q' + mset (fq_waiting q s) = fq_content q + mset ys"
  using mset_concat_upd [OF assms(1,2), of "fq_waiting q" ys] by (simp only: fq_content_def assms(3,4))

lemma fq_Enqueue_cases:
  assumes "fq_inv q" and "fq_total q < fq_maxSize q"
  obtains q' vs where "fq_Enqueue t1 t2 req q = Inr (q', vs)"
    and "fq_waiting q' = (fq_waiting q)(sid_of req := fq_waiting q (sid_of req) @ [req])"
    and "fq_order q' = (if sid_of req \<in> set (fq_order q) then fq_order q else fq_order q @ [sid_of req])"
    and "fq_pos q' = fq_pos q" and "fq_maxSize q' = fq_maxSize q" and "fq_total q' = fq_total q + 1"
    and "gm_wf (fq_sessions q')" and "set (gm_keys (fq_sessions q')) = insert (sid_of req) (set (gm_keys (fq_sessions q)))"
proof -
  let ?s = "sid_of req"
  define entry where "entry = (case gm_get (fq_sessions q) ?s of Some e \<Rightarrow> e
    | None \<Rightarrow> \<lparr>se_requests = [], se_firstEnqueue = t1, se_totalServed = 0, se_maxWait = 0\<rparr>)"
  define q1 where "q1 = q\<lparr>fq_order := (if ?s \<in> set (fq_order q) then fq_order q else fq_order q @ [?s]),
      fq_sessions := gm_put ?s (entry\<lparr>se_requests := se_requests entry @ [req]\<rparr>) (fq_sessions q),
      fq_total := fq_total q + 1\<rparr>"
  have k: "gm_get (fq_sessions q) ?s = None \<longleftrightarrow> ?s \<notin> set (fq_order q)"
    using assms(1) by (simp add: gm_get_None_iff fq_inv_def)
  have "fq_Enqueue t1 t2 req q = Inr (checkFairness t2 q1)"
    using assms(2) k by (cases "gm_get (fq_sessions q) ?s") (auto simp: fq_Enqueue_def q1_def entry_def Let_def)
  then have e: "fq_Enqueue t1 t2 req q = Inr (fst (checkFairness t2 q1), snd (checkFairness t2 q1))" by simp
  have r: "se_requests entry = fq_waiting q ?s"
    by (simp add: entry_def fq_waiting_def split: option.split)
  have w: "fq_waiting q1 = (fq_waiting q)(?s := fq_waiting q ?s @ [req])"
    using fq_waiting_upd [of q1 ?s "entry\<lparr>se_requests := se_requests entry @ [req]\<rparr>" q] r by (simp add: q1_def)
  show thesis
    by (rule that [OF e]) (use assms(1) w in \<open>auto simp: q1_def fq_inv_def\<close>)
qed

lemma fq_Enqueue_full: "fq_total q \<ge> fq_maxSize q \<Longrightarrow> fq_Enqueue t1 t2 req q = Inl ErrQueueFull"
  by (simp add: fq_Enqueue_def)

lemma fq_Enqueue_Some:
  assumes "fq_inv q" and "fq_Enqueue t1 t2 req q = Inr (q', vs)"
  obtains "fq_waiting q' = (fq_waiting q)(sid_of req := fq_waiting q (sid_of req) @ [req])"
    and "fq_order q' = (if sid_of req \<in> set (fq_order q) then fq_order q else fq_order q @ [sid_of req])"
    and "fq_pos q' = fq_pos q" and "fq_maxSize q' = fq_maxSize q" and "fq_total q' = fq_total q + 1"
    and "gm_wf (fq_sessions q')" and "set (gm_keys (fq_sessions q')) = insert (sid_of req) (set (gm_keys (fq_sessions q)))"
proof -
  have t: "fq_total q < fq_maxSize q" using assms(2) by (auto simp: fq_Enqueue_def split: if_splits)
  show thesis
    by (rule fq_Enqueue_cases [OF assms(1) t, of t1 t2 req], rule that) (use assms(2) in simp_all)
qed

lemma fq_Enqueue_inv:
  assumes "fq_inv q" and "fq_Enqueue t1 t2 req q = Inr (q', vs)"
  shows "fq_inv q' \<and> fq_content q' = add_mset req (fq_content q) \<and> fq_maxSize q' = fq_maxSize q"
proof -
  obtain w: "fq_waiting q' = (fq_waiting q)(sid_of req := fq_waiting q (sid_of req) @ [req])"
    and o: "fq_order q' = (if sid_of req \<in> set (fq_order q) then fq_order q else fq_order q @ [sid_of req])"
    and p: "fq_pos q' = fq_pos q" and m: "fq_maxSize q' = fq_maxSize q" and t: "fq_total q' = fq_total q + 1"
    and k: "gm_wf (fq_sessions q')" "set (gm_keys (fq_sessions q')) = insert (sid_of req) (set (gm_keys (fq_sessions q)))"
    using fq_Enqueue_Some [OF assms] by blast
  have c: "fq_content q' = add_mset req (fq_content q)"
  proof (cases "sid_of req \<in> set (fq_order q)")
    case True
    then show ?thesis
      using fq_content_upd [of q "sid_of req" q' "fq_waiting q (sid_of req) @ [req]"] assms(1) w o
      by (simp add: fq_inv_def)
  next
    case False
    then have "map (fq_waiting q') (fq_order q) = map (fq_waiting q) (fq_order q)" by (intro map_cong) (auto simp: w)
    then show ?thesis using False fq_waiting_outside [OF assms(1) False] by (simp add: fq_content_def o w)
  qed
  moreover have "fq_inv q'"
    using assms(1) c w o p t k fq_waiting_session [OF assms(1)] fq_waiting_iff [OF assms(1)]
    by (auto simp: fq_inv_def split: if_splits)
  ultimately show ?thesis using m by simp
qed

lemma fq_Dequeue_empty: "fq_total q = 0 \<Longrightarrow> fq_Dequeue t q = Inr (None, q)"
  by (simp add: fq_Dequeue_def)

lemma fq_Dequeue_cases:
  assumes "fq_inv q" and "fq_total q \<noteq> 0"
  obtains r rest q' where "fq_Dequeue t q = Inr (Some r, q')" and "fq_pos q < length (fq_order q)"
    and "fq_waiting q (fq_order q ! fq_pos q) = r # rest"
    and "fq_waiting q' = (fq_waiting q)(fq_order q ! fq_pos q := rest)"
    and "fq_order q' = (if rest = [] then take (fq_pos q) (fq_order q) @ drop (fq_pos q + 1) (fq_order q) else fq_order q)"
    and "fq_pos q' = (if rest = [] then (if fq_pos q \<ge> length (fq_order q) - 1 then 0 else fq_pos q)
          else (fq_pos q + 1) mod length (fq_order q))"
    and "fq_maxSize q' = fq_maxSize q" and "fq_total q' = fq_total q - 1" and "gm_wf (fq_sessions q')"
    and "set (gm_keys (fq_sessions q')) =
          (if rest = [] then set (gm_keys (fq_sessions q)) - {fq_order q ! fq_pos q} else set (gm_keys (fq_sessions q)))"
proof -
  let ?s = "fq_order q ! fq_pos q"
  have o: "fq_order q \<noteq> []" using assms fq_empty_iff by blast
  then have p: "fq_pos q < length (fq_order q)" using assms(1) by (simp add: fq_inv_def)
  then have s: "?s \<in> set (fq_order q)" by simp
  then have "fq_waiting q ?s \<noteq> []" using assms(1) by (simp add: fq_inv_def)
  then obtain entry r rest where e: "gm_get (fq_sessions q) ?s = Some entry" "se_requests entry = r # rest"
    by (cases "gm_get (fq_sessions q) ?s") (auto simp: fq_waiting_def neq_Nil_conv)
  define q' where "q' = fq_serve t ?s entry r rest q"
  have d: "fq_Dequeue t q = Inr (Some r, q')"
    using o p e assms(2) by (simp add: fq_Dequeue_def q'_def)
  have w: "fq_waiting q' = (fq_waiting q)(?s := rest)"
  proof (cases "rest = []")
    case True
    then show ?thesis using fq_waiting_del [of q' ?s q] by (simp add: q'_def fq_serve_def Let_def)
  next
    case False
    then show ?thesis by (auto simp: q'_def fq_serve_def Let_def fq_waiting_def fun_eq_iff)
  qed
  have k: "?s \<in> set (gm_keys (fq_sessions q))" "gm_wf (fq_sessions q)"
    using s assms(1) by (auto simp: fq_inv_def)
  show thesis
    by (rule that [OF d p _ w]) (use e k o in \<open>auto simp: fq_waiting_def q'_def fq_serve_def Let_def\<close>)
qed

lemma set_remove_nth: "distinct xs \<Longrightarrow> k < length xs \<Longrightarrow> set (take k xs @ drop (k + 1) xs) = set xs - {xs ! k}"
proof -
  assume d: "distinct xs" and k: "k < length xs"
  have e: "xs = take k xs @ xs ! k # drop (k + 1) xs" using id_take_nth_drop [OF k] by simp
  have "distinct (take k xs @ xs ! k # drop (k + 1) xs)" by (rule iffD1 [OF arg_cong [OF e, of distinct] d])
  then have "xs ! k \<notin> set (take k xs) \<union> set (drop (k + 1) xs)" by auto
  moreover have "set xs = insert (xs ! k) (set (take k xs) \<union> set (drop (k + 1) xs))"
    using arg_cong [OF e, of set] by (simp only: set_append list.set Un_insert_right)
  ultimately show ?thesis by (simp only: set_append) blast
qed

lemma distinct_remove_nth: "distinct xs \<Longrightarrow> distinct (take k xs @ drop (k + 1) xs)"
  using set_take_disj_set_drop_if_distinct [of xs k "k + 1"] by simp

lemma fq_Dequeue_Some:
  assumes "fq_inv q" and "fq_Dequeue t q = Inr (Some r, q')"
  obtains rest where "fq_pos q < length (fq_order q)"
    and "fq_waiting q (fq_order q ! fq_pos q) = r # rest"
    and "fq_waiting q' = (fq_waiting q)(fq_order q ! fq_pos q := rest)"
    and "fq_order q' = (if rest = [] then take (fq_pos q) (fq_order q) @ drop (fq_pos q + 1) (fq_order q) else fq_order q)"
    and "fq_pos q' = (if rest = [] then (if fq_pos q \<ge> length (fq_order q) - 1 then 0 else fq_pos q)
          else (fq_pos q + 1) mod length (fq_order q))"
    and "fq_maxSize q' = fq_maxSize q" and "fq_total q' = fq_total q - 1" and "gm_wf (fq_sessions q')"
    and "set (gm_keys (fq_sessions q')) =
          (if rest = [] then set (gm_keys (fq_sessions q)) - {fq_order q ! fq_pos q} else set (gm_keys (fq_sessions q)))"
proof -
  have t0: "fq_total q \<noteq> 0" using assms(2) by (auto simp: fq_Dequeue_def)
  show thesis
    by (rule fq_Dequeue_cases [OF assms(1) t0, of t], rule that) (use assms(2) in simp_all)
qed

lemma fq_Dequeue_inv:
  assumes "fq_inv q" and "fq_Dequeue t q = Inr (Some r, q')"
  shows "fq_inv q' \<and> fq_content q = add_mset r (fq_content q') \<and> fq_maxSize q' = fq_maxSize q"
proof -
  let ?s = "fq_order q ! fq_pos q"
  obtain rest where p: "fq_pos q < length (fq_order q)" and w0: "fq_waiting q ?s = r # rest"
    and w: "fq_waiting q' = (fq_waiting q)(?s := rest)"
    and o: "fq_order q' = (if rest = [] then take (fq_pos q) (fq_order q) @ drop (fq_pos q + 1) (fq_order q) else fq_order q)"
    and p': "fq_pos q' = (if rest = [] then (if fq_pos q \<ge> length (fq_order q) - 1 then 0 else fq_pos q)
          else (fq_pos q + 1) mod length (fq_order q))"
    and m: "fq_maxSize q' = fq_maxSize q" and t: "fq_total q' = fq_total q - 1" and k: "gm_wf (fq_sessions q')"
    and ks: "set (gm_keys (fq_sessions q')) =
          (if rest = [] then set (gm_keys (fq_sessions q)) - {?s} else set (gm_keys (fq_sessions q)))"
    using fq_Dequeue_Some [OF assms] by blast
  have dist: "distinct (fq_order q)" and sin: "?s \<in> set (fq_order q)" using assms(1) p by (auto simp: fq_inv_def)
  have "fq_content q' = mset (concat (map (fq_waiting q') (fq_order q)))"
    using concat_remove_empty [OF p, of "fq_waiting q'"] by (simp add: fq_content_def o w)
  moreover have "mset (concat (map (fq_waiting q') (fq_order q))) + mset (r # rest) = fq_content q + mset rest"
    using mset_concat_upd [OF dist sin, of "fq_waiting q" rest] by (simp only: fq_content_def w w0)
  ultimately have c: "fq_content q = add_mset r (fq_content q')" by simp
  have so: "set (fq_order q') = (if rest = [] then set (fq_order q) - {?s} else set (fq_order q))"
    using set_remove_nth [OF dist p] by (simp add: o)
  have "fq_inv q'"
    unfolding fq_inv_def
  proof (intro conjI)
    show "distinct (fq_order q')" using dist distinct_remove_nth [OF dist] by (simp add: o)
    show "set (fq_order q') = set (gm_keys (fq_sessions q'))" using so ks assms(1) by (simp add: fq_inv_def)
    show "\<forall>s \<in> set (fq_order q'). fq_waiting q' s \<noteq> [] \<and> (\<forall>r \<in> set (fq_waiting q' s). sid_of r = s)"
      using so w w0 assms(1) sin by (auto simp: fq_inv_def split: if_splits)
    show "fq_total q' = int (size (fq_content q'))" using t c assms(1) by (simp add: fq_inv_def)
    show "if fq_order q' = [] then fq_pos q' = 0 else fq_pos q' < length (fq_order q')"
      using p by (auto simp: o p')
  qed (rule k)
  then show ?thesis using c m by simp
qed

subsection \<open>The queue is a bounded queue\<close>

definition fq_enq :: "int \<times> int \<Rightarrow> RequestContext \<Rightarrow> FairQueue \<Rightarrow> FairQueue option" where
  "fq_enq e req q = (case fq_Enqueue (fst e) (snd e) req q of Inl _ \<Rightarrow> None | Inr (q', _) \<Rightarrow> Some q')"

definition fq_deq :: "int \<times> int \<Rightarrow> FairQueue \<Rightarrow> (RequestContext \<times> FairQueue) option" where
  "fq_deq e q = (case fq_Dequeue (fst e) q of Inr (Some r, q') \<Rightarrow> Some (r, q') | _ \<Rightarrow> None)"

lemma fq_enq_Some: "fq_enq e a q = Some q' \<longleftrightarrow> (\<exists>vs. fq_Enqueue (fst e) (snd e) a q = Inr (q', vs))"
  by (auto simp: fq_enq_def split: sum.splits)

lemma fq_deq_Some: "fq_deq e q = Some (r, q') \<longleftrightarrow> fq_Dequeue (fst e) q = Inr (Some r, q')"
  by (auto simp: fq_deq_def split: sum.splits option.splits)

lemma fq_enq_None: "fq_inv q \<Longrightarrow> fq_enq e a q = None \<longleftrightarrow> fq_total q \<ge> fq_maxSize q"
  by (auto simp: fq_enq_def fq_Enqueue_def Let_def split: prod.splits option.splits)

lemma fq_deq_None: "fq_inv q \<Longrightarrow> fq_deq e q = None \<longleftrightarrow> fq_total q = 0"
proof (cases "fq_total q = 0")
  case True
  then show ?thesis using fq_Dequeue_empty [of q "fst e"] by (simp add: fq_deq_def)
next
  case False
  assume "fq_inv q"
  then show ?thesis
    by (rule fq_Dequeue_cases [OF _ False, of "fst e"]) (use False in \<open>simp add: fq_deq_def\<close>)
qed

interpretation fq: bounded_queue fq_content "\<lambda>q. nat (fq_maxSize q)" fq_enq fq_deq fq_inv
proof
  fix q e a
  assume inv: "fq_inv q"
  show "fq_enq e a q = None \<longleftrightarrow> size (fq_content q) \<ge> nat (fq_maxSize q)"
    using inv by (auto simp: fq_enq_None fq_inv_def)
  show "fq_deq e q = None \<longleftrightarrow> fq_content q = {#}"
    using inv by (simp add: fq_deq_None) (simp add: fq_inv_def)
qed (auto simp: fq_enq_Some fq_deq_Some dest: fq_Enqueue_inv fq_Dequeue_inv)

subsection \<open>Order of service\<close>

text \<open>The sessions in the order in which they are next looked at.\<close>

definition fq_cycle :: "FairQueue \<Rightarrow> string list" where
  "fq_cycle q = drop (fq_pos q) (fq_order q) @ take (fq_pos q) (fq_order q)"

lemma set_fq_cycle: "set (fq_cycle q) = set (fq_order q)"
  using append_take_drop_id [of "fq_pos q" "fq_order q"] set_append [of "take (fq_pos q) (fq_order q)" "drop (fq_pos q) (fq_order q)"]
  by (auto simp: fq_cycle_def)

lemma length_fq_cycle: "length (fq_cycle q) = length (fq_order q)"
  by (simp add: fq_cycle_def min_def)

lemma fq_cycle_Enqueue:
  assumes "fq_inv q" and "fq_enq e a q = Some q'" and "sid_of a \<in> set (fq_order q)"
  shows "fq_cycle q' = fq_cycle q"
proof -
  obtain vs where "fq_Enqueue (fst e) (snd e) a q = Inr (q', vs)" using assms(2) by (auto simp: fq_enq_Some)
  then show ?thesis
    by (rule fq_Enqueue_Some [OF assms(1)]) (use assms(3) in \<open>simp add: fq_cycle_def\<close>)
qed

lemma fq_cycle_Dequeue:
  assumes "fq_inv q" and "fq_deq e q = Some (r, q')"
  shows "\<exists>cs. fq_cycle q = sid_of r # cs \<and> fq_cycle q' = cs @ (if fq_waiting q' (sid_of r) = [] then [] else [sid_of r])"
proof -
  let ?s = "fq_order q ! fq_pos q"
  obtain rest where p: "fq_pos q < length (fq_order q)" and w0: "fq_waiting q ?s = r # rest"
    and w: "fq_waiting q' = (fq_waiting q)(?s := rest)"
    and o: "fq_order q' = (if rest = [] then take (fq_pos q) (fq_order q) @ drop (fq_pos q + 1) (fq_order q) else fq_order q)"
    and p': "fq_pos q' = (if rest = [] then (if fq_pos q \<ge> length (fq_order q) - 1 then 0 else fq_pos q)
          else (fq_pos q + 1) mod length (fq_order q))"
    using fq_Dequeue_Some [OF assms(1) assms(2) [unfolded fq_deq_Some]] by blast
  have s: "sid_of r = ?s" using fq_waiting_session [OF assms(1), of r ?s] w0 by simp
  have c: "fq_cycle q = ?s # drop (fq_pos q + 1) (fq_order q) @ take (fq_pos q) (fq_order q)"
    using p by (simp add: fq_cycle_def Cons_nth_drop_Suc)
  have "fq_cycle q' = (drop (fq_pos q + 1) (fq_order q) @ take (fq_pos q) (fq_order q)) @ (if rest = [] then [] else [?s])"
  proof (cases "fq_pos q + 1 < length (fq_order q)")
    case True
    then show ?thesis using p by (simp add: fq_cycle_def o p' min_def take_Suc_conv_app_nth)
  next
    case False
    then have "length (fq_order q) = fq_pos q + 1" using p by simp
    then show ?thesis using take_Suc_conv_app_nth [OF p] by (simp add: fq_cycle_def o p')
  qed
  then show ?thesis using c s w by simp
qed

text \<open>Every enqueued request belongs to a session that has requests waiting at the time.\<close>

fun known_sessions :: "(int \<times> int, RequestContext) qop list \<Rightarrow> FairQueue \<Rightarrow> bool" where
  "known_sessions [] q \<longleftrightarrow> True"
| "known_sessions (Enq e a # ops) q \<longleftrightarrow> sid_of a \<in> set (fq_order q) \<and>
     (case fq_enq e a q of None \<Rightarrow> known_sessions ops q | Some q' \<Rightarrow> known_sessions ops q')"
| "known_sessions (Deq e # ops) q \<longleftrightarrow>
     (case fq_deq e q of None \<Rightarrow> known_sessions ops q | Some (_, q') \<Rightarrow> known_sessions ops q')"

definition is_Deq :: "('e, 'a) qop \<Rightarrow> bool" where
  "is_Deq op = (case op of Deq _ \<Rightarrow> True | Enq _ _ \<Rightarrow> False)"

lemma is_Deq_simps [simp]: "is_Deq (Deq e)" "\<not> is_Deq (Enq e a)"
  by (simp_all add: is_Deq_def)

lemma served_within:
  assumes "fq_inv q" and "known_sessions ops q" and "fq_cycle q = xs @ s # ys"
    and "length xs < length (filter is_Deq ops)" and "qrun fq_enq fq_deq ops q = (acc, srv, q')"
  shows "s \<in> sid_of ` set srv"
  using assms
proof (induction ops arbitrary: q xs ys acc srv)
  case Nil
  then show ?case by simp
next
  case (Cons op ops)
  show ?case
  proof (cases op)
    case (Enq e a)
    show ?thesis
    proof (cases "fq_enq e a q")
      case None
      then show ?thesis using Cons Enq by simp
    next
      case (Some q1)
      have "fq_cycle q1 = xs @ s # ys"
        using fq_cycle_Enqueue [OF Cons.prems(1) Some] Cons.prems(2,3) Enq by simp
      moreover obtain acc1 where "qrun fq_enq fq_deq ops q1 = (acc1, srv, q')"
        using Cons.prems(5) Enq Some by (auto split: prod.splits)
      ultimately show ?thesis
        using Cons.IH [of q1 xs ys acc1 srv] fq.enq_Some [OF Cons.prems(1) Some] Cons.prems(2,4) Enq Some by simp
    qed
  next
    case (Deq e)
    show ?thesis
    proof (cases "fq_deq e q")
      case None
      then have "fq_order q = []" using fq_deq_None fq_empty_iff Cons.prems(1) by blast
      then show ?thesis using Cons.prems(3) set_fq_cycle [of q] by simp
    next
      case (Some aq)
      obtain r q1 where aq: "aq = (r, q1)" by (cases aq)
      obtain cs where c: "fq_cycle q = sid_of r # cs"
        "fq_cycle q1 = cs @ (if fq_waiting q1 (sid_of r) = [] then [] else [sid_of r])"
        using fq_cycle_Dequeue [OF Cons.prems(1) Some [unfolded aq]] by blast
      obtain srv1 where srv1: "srv = r # srv1" "qrun fq_enq fq_deq ops q1 = (acc, srv1, q')"
        using Cons.prems(5) Deq Some aq by (auto split: prod.splits)
      show ?thesis
      proof (cases xs)
        case Nil
        then show ?thesis using c(1) Cons.prems(3) srv1(1) by simp
      next
        case (Cons x xs1)
        then obtain ys1 where "fq_cycle q1 = xs1 @ s # ys1" using c Cons.prems(3) by auto
        then have "s \<in> sid_of ` set srv1"
          using Cons.IH [of q1 xs1 ys1 acc srv1] fq.deq_Some [OF Cons.prems(1) Some [unfolded aq]]
            Cons.prems(2,4) Deq Some aq Cons srv1(2) by simp
        then show ?thesis using srv1(1) by simp
      qed
    qed
  qed
qed

text \<open>Within a session the requests are served in the order of their arrival.\<close>

lemma run_fifo:
  assumes "fq_inv q" and "qrun fq_enq fq_deq ops q = (acc, srv, q')"
  shows "fq_waiting q s @ filter (\<lambda>r. sid_of r = s) acc = filter (\<lambda>r. sid_of r = s) srv @ fq_waiting q' s"
  using assms
proof (induction ops arbitrary: q acc srv)
  case Nil
  then show ?case by simp
next
  case (Cons op ops)
  show ?case
  proof (cases op)
    case (Enq e a)
    show ?thesis
    proof (cases "fq_enq e a q")
      case None
      then show ?thesis using Cons Enq by simp
    next
      case (Some q1)
      obtain vs where vs: "fq_Enqueue (fst e) (snd e) a q = Inr (q1, vs)" using Some by (auto simp: fq_enq_Some)
      have w: "fq_waiting q1 = (fq_waiting q)(sid_of a := fq_waiting q (sid_of a) @ [a])"
        by (rule fq_Enqueue_Some [OF Cons.prems(1) vs])
      obtain acc1 where a: "acc = a # acc1" "qrun fq_enq fq_deq ops q1 = (acc1, srv, q')"
        using Cons.prems(2) Enq Some by (auto split: prod.splits)
      have "fq_inv q1" using fq.enq_Some [OF Cons.prems(1) Some] by simp
      from Cons.IH [OF this a(2)] show ?thesis using a(1) w by (cases "sid_of a = s") simp_all
    qed
  next
    case (Deq e)
    show ?thesis
    proof (cases "fq_deq e q")
      case None
      then show ?thesis using Cons Deq by simp
    next
      case (Some aq)
      obtain r q1 where aq: "aq = (r, q1)" by (cases aq)
      have d: "fq_Dequeue (fst e) q = Inr (Some r, q1)" using Some aq by (simp add: fq_deq_Some)
      obtain rest where w: "fq_waiting q (fq_order q ! fq_pos q) = r # rest"
        "fq_waiting q1 = (fq_waiting q)(fq_order q ! fq_pos q := rest)"
        by (rule fq_Dequeue_Some [OF Cons.prems(1) d])
      have s: "sid_of r = fq_order q ! fq_pos q" using fq_waiting_session [OF Cons.prems(1), of r] w(1) by simp
      obtain srv1 where a: "srv = r # srv1" "qrun fq_enq fq_deq ops q1 = (acc, srv1, q')"
        using Cons.prems(2) Deq Some aq by (auto split: prod.splits)
      have "fq_inv q1" using fq_Dequeue_inv [OF Cons.prems(1) d] by simp
      from Cons.IH [OF this a(2)] show ?thesis using a(1) w s by (cases "sid_of r = s") simp_all
    qed
  qed
qed

text \<open>After any operations on a new queue, the requests of every session that were accepted are those served,
  in the same order, followed by those waiting; no more than the capacity wait; and \<open>Dequeue\<close> never
  panics or runs on, and finds a request exactly when one is waiting.\<close>

theorem fair_queue_fifo:
  "let (acc, srv, q) = qrun fq_enq fq_deq ops (NewFairQueue now n);
       ofs = (\<lambda>s. filter (\<lambda>r. sid_of r = s))
   in (\<forall>s. ofs s acc = ofs s srv @ fq_waiting q s) \<and>
      mset acc = mset srv + fq_content q \<and> size (fq_content q) \<le> nat n \<and>
      fq_total q = int (size (fq_content q)) \<and>
      (\<exists>r q'. fq_Dequeue t q = Inr (r, q') \<and> (r = None \<longleftrightarrow> fq_content q = {#}))"
proof -
  obtain acc srv q where r: "qrun fq_enq fq_deq ops (NewFairQueue now n) = (acc, srv, q)"
    by (cases "qrun fq_enq fq_deq ops (NewFairQueue now n)")
  have new: "fq_waiting (NewFairQueue now n) s = []" "fq_content (NewFairQueue now n) = {#}" for s
    by (simp_all add: NewFairQueue_def fq_waiting_def fq_content_def)
  from fq.run_conserves [OF fq_inv_New r] new
  have c: "fq_inv q" "mset acc = mset srv + fq_content q" by simp_all
  have b: "size (fq_content q) \<le> nat n"
    using fq.run_bounded [OF fq_inv_New _ r] new by (simp add: NewFairQueue_def)
  have d: "\<exists>r q'. fq_Dequeue t q = Inr (r, q') \<and> (r = None \<longleftrightarrow> fq_content q = {#})"
  proof (cases "fq_total q = 0")
    case True
    then show ?thesis using fq_Dequeue_empty [OF True] c(1) by (simp add: fq_inv_def)
  next
    case False
    then have "fq_content q \<noteq> {#}" using c(1) by (auto simp: fq_inv_def)
    moreover obtain r q' where "fq_Dequeue t q = Inr (Some r, q')" by (rule fq_Dequeue_cases [OF c(1) False, of t])
    ultimately show ?thesis by simp
  qed
  have "fq_total q = int (size (fq_content q))" using c(1) by (simp add: fq_inv_def)
  with b c d run_fifo [OF fq_inv_New r] new show ?thesis by (simp add: r)
qed

text \<open>If all requests that arrive belong to sessions with requests waiting, then as many dequeues as there are
  waiting sessions serve every session that waited at the start.\<close>

theorem fair_queue_serves:
  assumes "qrun fq_enq fq_deq ops0 (NewFairQueue now n) = (acc0, srv0, q)"
    and "fq_waiting q s \<noteq> []" and "known_sessions ops q" and "length (filter is_Deq ops) \<ge> SessionCount q"
    and "qrun fq_enq fq_deq ops q = (acc, srv, q')"
  shows "s \<in> sid_of ` set srv"
proof -
  have inv: "fq_inv q" using fq.run_conserves [OF fq_inv_New assms(1)] by simp
  then have s: "s \<in> set (fq_cycle q)" using assms(2) by (simp add: fq_waiting_iff set_fq_cycle)
  then obtain xs ys where c: "fq_cycle q = xs @ s # ys" by (auto simp: in_set_conv_decomp)
  have "length (fq_order q) = length (fq_sessions q)"
    using inv distinct_card [of "fq_order q"] distinct_card [of "gm_keys (fq_sessions q)"]
    by (simp add: fq_inv_def gm_wf_def)
  then have "length xs < length (filter is_Deq ops)"
    using assms(4) c length_fq_cycle [of q] by (simp add: SessionCount_def)
  then show ?thesis by (rule served_within [OF inv assms(3) c _ assms(5)])
qed

text \<open>A request of a session.\<close>

definition ask :: "string \<Rightarrow> string \<Rightarrow> RequestContext" where
  "ask i s = NewRequestContext 0 i s ''p'' ''echo'' [] StrictMode"

lemma sid_of_ask [simp]: "s \<noteq> [] \<Longrightarrow> sid_of (ask i s) = s"
  by (simp add: sid_of_def ask_def)

lemma fair_queue_serves_witness:
  "let q0 = NewFairQueue 0 3;
       (acc0, srv0, q) = qrun fq_enq fq_deq [Enq (0, 0) (ask ''1'' ''a''), Enq (0, 0) (ask ''2'' ''b'')] q0;
       (acc, srv, q') = qrun fq_enq fq_deq [Deq (1, 1), Enq (1, 1) (ask ''3'' ''b''), Deq (2, 2)] q
   in ''b'' \<in> sid_of ` set srv"
proof -
  let ?r0 = "qrun fq_enq fq_deq [Enq (0, 0) (ask ''1'' ''a''), Enq (0, 0) (ask ''2'' ''b'')] (NewFairQueue 0 3)"
  let ?ops = "[Deq (1, 1), Enq (1, 1) (ask ''3'' ''b''), Deq (2, 2)] :: (int \<times> int, RequestContext) qop list"
  obtain acc0 srv0 q where r: "?r0 = (acc0, srv0, q)" by (cases ?r0)
  obtain acc srv q' where r': "qrun fq_enq fq_deq ?ops q = (acc, srv, q')" by (cases "qrun fq_enq fq_deq ?ops q")
  note defs = fq_enq_def fq_Enqueue_def NewFairQueue_def checkFairness_def second_def gm_get_def gm_put_def Let_def
  have q: "fq_waiting q ''b'' \<noteq> []" "SessionCount q = 2" "known_sessions ?ops q"
    using r by (auto simp: defs fq_deq_def fq_Dequeue_def fq_serve_def gm_del_def fq_waiting_def SessionCount_def)
  have "''b'' \<in> sid_of ` set srv"
    by (rule fair_queue_serves [OF r q(1,3) _ r']) (simp add: q(2))
  then show ?thesis by (simp only: r r' Let_def split_conv)
qed

text \<open>Two sessions take turns, each with a single request that arrives before the other's is served.\<close>

fun taking_turns :: "nat \<Rightarrow> string \<Rightarrow> string \<Rightarrow> (int \<times> int, RequestContext) qop list" where
  "taking_turns 0 x y = []"
| "taking_turns (Suc n) x y = Enq (0, 0) (ask ''r'' y) # Deq (0, 0) # taking_turns n y x"

lemma one_turn:
  assumes "fq_inv q" and "fq_order q = [s, x]" and "fq_pos q = 1" and "length (fq_waiting q x) = 1"
    and "fq_total q < fq_maxSize q" and "y \<noteq> []" and "y \<noteq> s" and "y \<noteq> x"
  obtains q1 r q2 where "fq_enq (0, 0) (ask ''r'' y) q = Some q1" and "fq_deq (0, 0) q1 = Some (r, q2)" and "sid_of r = x"
    and "fq_inv q2" and "fq_order q2 = [s, y]" and "fq_pos q2 = 1" and "length (fq_waiting q2 y) = 1"
    and "fq_total q2 < fq_maxSize q2"
proof -
  let ?a = "ask ''r'' y"
  have y: "sid_of ?a = y" using assms(6) by simp
  have xs: "x \<noteq> s" using assms(1,2) by (auto simp: fq_inv_def)
  have y0: "fq_waiting q y = []" using fq_waiting_outside [OF assms(1)] assms(2,7,8) by simp
  obtain q1 vs where e: "fq_Enqueue 0 0 ?a q = Inr (q1, vs)" and w1: "fq_waiting q1 = (fq_waiting q)(y := [?a])"
    and o1: "fq_order q1 = [s, x, y]" and p1: "fq_pos q1 = 1" and m1: "fq_maxSize q1 = fq_maxSize q"
    and t1: "fq_total q1 = fq_total q + 1"
    by (rule fq_Enqueue_cases [OF assms(1,5), of 0 0 ?a]) (use assms(2,3,7,8) y y0 in simp)
  have inv1: "fq_inv q1" using fq_Enqueue_inv [OF assms(1) e] by simp
  then have "fq_total q1 \<noteq> 0" using o1 fq_empty_iff by simp
  then obtain r rest q2 where d: "fq_Dequeue 0 q1 = Inr (Some r, q2)" and w0: "fq_waiting q1 x = r # rest"
    and w2: "fq_waiting q2 = (fq_waiting q1)(x := rest)"
    and o2: "fq_order q2 = (if rest = [] then [s, y] else [s, x, y])"
    and p2: "fq_pos q2 = (if rest = [] then 1 else 2)" and m2: "fq_maxSize q2 = fq_maxSize q1"
    and t2: "fq_total q2 = fq_total q1 - 1"
    by (rule fq_Dequeue_cases [OF inv1, of 0]) (simp add: o1 p1)
  have "rest = []" using w0 assms(4,8) by (simp add: w1)
  moreover have "sid_of r = x" using fq_waiting_session [OF inv1, of r x] w0 by simp
  moreover have "fq_inv q2" using fq_Dequeue_inv [OF inv1 d] by simp
  ultimately show thesis
    by (intro that [of q1 r q2]) (use e d o2 p2 w2 w1 m1 m2 t1 t2 assms(5,8) in \<open>simp_all add: fq_enq_Some fq_deq_Some\<close>)
qed

lemma turns_starve:
  assumes "fq_inv q" and "fq_order q = [s, x]" and "fq_pos q = 1" and "length (fq_waiting q x) = 1"
    and "fq_total q < fq_maxSize q" and "x \<noteq> []" and "y \<noteq> []" and "y \<noteq> s" and "y \<noteq> x"
    and "qrun fq_enq fq_deq (taking_turns n x y) q = (acc, srv, q')"
  shows "length srv = n \<and> length acc = n \<and> s \<notin> sid_of ` set srv \<and> s \<notin> sid_of ` set acc"
  using assms
proof (induction n arbitrary: q x y acc srv)
  case 0
  then show ?case by simp
next
  case (Suc n)
  have xs: "x \<noteq> s" using Suc.prems(1,2) by (auto simp: fq_inv_def)
  obtain q1 r q2 where t: "fq_enq (0, 0) (ask ''r'' y) q = Some q1" "fq_deq (0, 0) q1 = Some (r, q2)" "sid_of r = x"
    "fq_inv q2" "fq_order q2 = [s, y]" "fq_pos q2 = 1" "length (fq_waiting q2 y) = 1" "fq_total q2 < fq_maxSize q2"
    by (rule one_turn [OF Suc.prems(1-5,7-9)])
  obtain acc1 srv1 where a: "acc = ask ''r'' y # acc1" "srv = r # srv1"
    "qrun fq_enq fq_deq (taking_turns n y x) q2 = (acc1, srv1, q')"
    using Suc.prems(10) t(1,2) by (auto split: prod.splits)
  from Suc.IH [OF t(4-8) Suc.prems(7,6) xs _ a(3)] Suc.prems(7,8,9) show ?case using a(1,2) t(3) xs by auto
qed

text \<open>C19: round robin does not serve everybody: a session with a request waiting is never served while two others
  take turns with one request each, since a session that comes back is inserted before it. This goes on
  for any number \<open>n\<close> of rounds, in a queue of capacity three that is never full when a request arrives.\<close>

theorem fair_queue_starves:
  "let (acc0, srv0, q) = qrun fq_enq fq_deq
         [Enq (0, 0) (ask ''1'' ''s''), Enq (0, 0) (ask ''2'' ''s''), Enq (0, 0) (ask ''3'' ''a''), Deq (0, 0)]
         (NewFairQueue 0 3);
       (acc, srv, q') = qrun fq_enq fq_deq (taking_turns n ''a'' ''b'') q
   in fq_waiting q ''s'' = [ask ''2'' ''s''] \<and> length srv = n \<and> length acc = n \<and> ''s'' \<notin> sid_of ` set srv \<and>
      fq_waiting q' ''s'' = [ask ''2'' ''s'']"
proof -
  let ?ops0 = "[Enq (0, 0) (ask ''1'' ''s''), Enq (0, 0) (ask ''2'' ''s''), Enq (0, 0) (ask ''3'' ''a''), Deq (0, 0)]
    :: (int \<times> int, RequestContext) qop list"
  obtain acc0 srv0 q where r: "qrun fq_enq fq_deq ?ops0 (NewFairQueue 0 3) = (acc0, srv0, q)"
    by (cases "qrun fq_enq fq_deq ?ops0 (NewFairQueue 0 3)")
  obtain acc srv q' where r': "qrun fq_enq fq_deq (taking_turns n ''a'' ''b'') q = (acc, srv, q')"
    by (cases "qrun fq_enq fq_deq (taking_turns n ''a'' ''b'') q")
  have inv: "fq_inv q" using fq.run_conserves [OF fq_inv_New r] by simp
  note defs = fq_enq_def fq_Enqueue_def NewFairQueue_def checkFairness_def second_def gm_get_def gm_put_def gm_del_def
    Let_def fq_deq_def fq_Dequeue_def fq_serve_def fq_waiting_def
  have q: "fq_order q = [''s'', ''a'']" "fq_pos q = 1" "length (fq_waiting q ''a'') = 1" "fq_total q < fq_maxSize q"
    "fq_waiting q ''s'' = [ask ''2'' ''s'']"
    using r by (auto simp: defs)
  have s: "length srv = n \<and> length acc = n \<and> ''s'' \<notin> sid_of ` set srv \<and> ''s'' \<notin> sid_of ` set acc"
    by (rule turns_starve [OF inv q(1-4) _ _ _ _ r']) simp_all
  have f: "fq_waiting q ''s'' @ filter (\<lambda>r. sid_of r = ''s'') acc = filter (\<lambda>r. sid_of r = ''s'') srv @ fq_waiting q' ''s''"
    by (rule run_fifo [OF inv r'])
  have "filter (\<lambda>r. sid_of r = ''s'') rs = []" if "''s'' \<notin> sid_of ` set rs" for rs
    using that by (auto simp: filter_empty_conv image_iff)
  then have "filter (\<lambda>r. sid_of r = ''s'') srv = []" "filter (\<lambda>r. sid_of r = ''s'') acc = []" using s by blast+
  then have "fq_waiting q' ''s'' = [ask ''2'' ''s'']" using f q(5) by simp
  with s q(5) show ?thesis by (simp only: r r' Let_def split_conv simp_thms)
qed

end
