(* ===== verification/Run_Policy.thy ===== *)
theory Run_Policy
  imports Run_Types Go_Strings
begin

text \<open>
  The policy engine of the MCP kernel, \<open>runtime/policy\<close>: the ordering of the rules and the evaluation of a stage
  (\<open>engine.go\<close>), the default rules (\<open>rules.go\<close>) and the decision graph (\<open>decision_graph.go\<close>). The lock of the
  engine is not modelled. A nil tool is \<open>None\<close>. \<open>filepath.Clean\<close> is written out; the working directory is an argument.
\<close>

subsection \<open>Rules and their order\<close>

record PolicyRule =
  pr_ID :: string
  pr_Name :: string
  pr_Stage :: string
  pr_Priority :: int
  pr_Evaluate :: "RequestContext \<Rightarrow> ToolDef option \<Rightarrow> PolicyVerdict"

record PolicyEngine =
  pe_rules :: "PolicyRule list"
  pe_version :: string

text \<open>The inner and the outer loop of the exchange sort.\<close>

definition exchange :: "('a \<Rightarrow> int) \<Rightarrow> nat \<Rightarrow> nat \<Rightarrow> 'a list \<Rightarrow> 'a list" where
  "exchange prio i j xs = (if prio (xs ! i) > prio (xs ! j) then xs[i := xs ! j, j := xs ! i] else xs)"

definition exchange_row :: "('a \<Rightarrow> int) \<Rightarrow> nat \<Rightarrow> 'a list \<Rightarrow> 'a list" where
  "exchange_row prio i xs = fold (exchange prio i) [Suc i..<length xs] xs"

definition exchange_sort :: "('a \<Rightarrow> int) \<Rightarrow> 'a list \<Rightarrow> 'a list" where
  "exchange_sort prio xs = fold (exchange_row prio) [0..<length xs] xs"

definition NewPolicyEngine :: "PolicyRule list \<Rightarrow> string \<Rightarrow> PolicyEngine" where
  "NewPolicyEngine rules version = \<lparr>pe_rules = exchange_sort pr_Priority rules, pe_version = version\<rparr>"

definition RuleCount :: "PolicyEngine \<Rightarrow> int" where "RuleCount pe = int (length (pe_rules pe))"

subsection \<open>Evaluation of a stage\<close>

definition verdict :: "string \<Rightarrow> string \<Rightarrow> PolicyVerdict" where
  "verdict decision reason =
     \<lparr>pv_Decision = decision, pv_Reason = reason, pv_RuleID = [], pv_RuleChain = [], pv_Timestamp = 0\<rparr>"

definition decision_of :: "PolicyRule \<Rightarrow> string \<Rightarrow> PolicyVerdict \<Rightarrow> PolicyDecision" where
  "decision_of rule stage v =
     \<lparr>pd_RuleID = pr_ID rule, pd_Decision = pv_Decision v, pd_Reason = pv_Reason v, pd_Stage = stage,
      pd_Priority = pr_Priority rule\<rparr>"

text \<open>The verdict and the context, to which every decision is appended.\<close>

fun eval_rules ::
  "string \<Rightarrow> ToolDef option \<Rightarrow> PolicyRule list \<Rightarrow> PolicyDecision list \<Rightarrow> RequestContext \<Rightarrow> PolicyVerdict \<times> RequestContext" where
  "eval_rules stage td [] chain rc =
     ((verdict ''ALLOW'' (''no policies deny at stage '' @ stage))\<lparr>pv_RuleID := ''default-allow'', pv_RuleChain := chain\<rparr>, rc)"
| "eval_rules stage td (rule # rules) chain rc =
     (if pr_Stage rule \<noteq> stage then eval_rules stage td rules chain rc
      else
        let v = pr_Evaluate rule rc td;
            d = decision_of rule stage v;
            chain' = chain @ [d];
            rc' = rc\<lparr>rc_PolicyGraph := rc_PolicyGraph rc @ [d]\<rparr>
        in if pv_Decision v = ''DENY''
           then (\<lparr>pv_Decision = ''DENY'', pv_Reason = pv_Reason v, pv_RuleID = pr_ID rule, pv_RuleChain = chain',
                  pv_Timestamp = pv_Timestamp v\<rparr>, rc')
           else eval_rules stage td rules chain' rc')"

definition EvaluateStage :: "PolicyEngine \<Rightarrow> string \<Rightarrow> ToolDef option \<Rightarrow> RequestContext \<Rightarrow> PolicyVerdict \<times> RequestContext" where
  "EvaluateStage pe stage td rc = eval_rules stage td (pe_rules pe) [] rc"

subsection \<open>Paths\<close>

text \<open>\<open>filepath.Clean\<close> on a path with slashes: the segments kept, in reverse order.\<close>

fun clean_segs :: "bool \<Rightarrow> string list \<Rightarrow> string list \<Rightarrow> string list" where
  "clean_segs rooted acc [] = acc"
| "clean_segs rooted acc (s # ss) =
     (if s = [] \<or> s = ''.'' then clean_segs rooted acc ss
      else if s = ''..'' then
        (case acc of
           [] \<Rightarrow> clean_segs rooted (if rooted then [] else [''..'']) ss
         | a # as \<Rightarrow> if a = ''..'' then clean_segs rooted (''..'' # acc) ss else clean_segs rooted as ss)
      else clean_segs rooted (s # acc) ss)"

definition path_clean :: "string \<Rightarrow> string" where
  "path_clean p =
     (let rooted = has_prefix p ''/'';
          out = join_with ''/'' (rev (clean_segs rooted [] (split_on (CHR ''/'') p)))
      in if rooted then ''/'' @ out else if out = [] then ''.'' else out)"

text \<open>\<open>filepath.Abs\<close>; the working directory is \<open>None\<close> when it cannot be found.\<close>

definition path_abs :: "string option \<Rightarrow> string \<Rightarrow> string option" where
  "path_abs cwd p =
     (if has_prefix p ''/'' then Some (path_clean p)
      else case cwd of None \<Rightarrow> None | Some d \<Rightarrow> Some (path_clean (d @ ''/'' @ p)))"

subsection \<open>The default rules\<close>

definition ruleMandatoryFields :: "RequestContext \<Rightarrow> ToolDef option \<Rightarrow> PolicyVerdict" where
  "ruleMandatoryFields rc _ =
     (if rc_RequestID rc = [] \<or> rc_SessionID rc = [] \<or> rc_ProjectID rc = [] then verdict ''DENY'' ''missing mandatory fields''
      else verdict ''ALLOW'' [])"

definition ruleToolExists :: "RequestContext \<Rightarrow> ToolDef option \<Rightarrow> PolicyVerdict" where
  "ruleToolExists rc toolDef =
     (if toolDef = None \<and> rc_ToolID rc \<noteq> [] then verdict ''DENY'' (''tool not in registry: '' @ rc_ToolID rc)
      else verdict ''ALLOW'' [])"

definition ruleSessionGate :: "RequestContext \<Rightarrow> ToolDef option \<Rightarrow> PolicyVerdict" where
  "ruleSessionGate rc toolDef =
     (case toolDef of
        None \<Rightarrow> verdict ''ALLOW'' []
      | Some td \<Rightarrow>
          if tg_RequireSession (td_Governance td) \<and> (rc_SessionID rc = [] \<or> rc_ProjectID rc = [])
          then verdict ''DENY'' ''tool requires valid session'' else verdict ''ALLOW'' [])"

definition denied_prefixes :: "string list" where "denied_prefixes = [''/etc/'', ''/proc/'', ''/sys/'']"

definition path_denied :: "string option \<Rightarrow> string \<Rightarrow> bool" where
  "path_denied cwd path =
     (let expanded = path_clean path;
          expanded = (case path_abs cwd expanded of Some a \<Rightarrow> a | None \<Rightarrow> expanded)
      in list_ex (has_prefix expanded) denied_prefixes \<or> str_contains expanded ''/.ai/config/secrets'')"

definition rulePathDeny :: "string option \<Rightarrow> RequestContext \<Rightarrow> ToolDef option \<Rightarrow> PolicyVerdict" where
  "rulePathDeny cwd rc _ =
     (case any_string (gm_get (rc_Arguments rc) ''path'') of
        None \<Rightarrow> verdict ''ALLOW'' []
      | Some path \<Rightarrow>
          if path = [] then verdict ''ALLOW'' []
          else if path_denied cwd path then verdict ''DENY'' (''access denied: '' @ path)
          else verdict ''ALLOW'' [])"

definition ruleTimeout :: "RequestContext \<Rightarrow> ToolDef option \<Rightarrow> PolicyVerdict" where
  "ruleTimeout _ _ = verdict ''ALLOW'' ''timeout boundary: 30000ms''"

text \<open>The dash of the reason is written in ASCII.\<close>

definition ruleErrorIsolation :: "RequestContext \<Rightarrow> ToolDef option \<Rightarrow> PolicyVerdict" where
  "ruleErrorIsolation rc _ =
     (if rc_Status rc = CtxError then verdict ''DENY'' ''execution error contained - cascade prevented''
      else verdict ''ALLOW'' [])"

definition DefaultRules :: "string option \<Rightarrow> PolicyRule list" where
  "DefaultRules cwd =
     [\<lparr>pr_ID = ''POL-001'', pr_Name = ''mandatory-context-fields'', pr_Stage = ''pre_validation'', pr_Priority = 10,
       pr_Evaluate = ruleMandatoryFields\<rparr>,
      \<lparr>pr_ID = ''POL-002'', pr_Name = ''tool-registry-existence'', pr_Stage = ''capability_routing'', pr_Priority = 20,
       pr_Evaluate = ruleToolExists\<rparr>,
      \<lparr>pr_ID = ''POL-003'', pr_Name = ''session-gate'', pr_Stage = ''session_guard'', pr_Priority = 30,
       pr_Evaluate = ruleSessionGate\<rparr>,
      \<lparr>pr_ID = ''POL-004'', pr_Name = ''path-access-control'', pr_Stage = ''pre_execution'', pr_Priority = 40,
       pr_Evaluate = rulePathDeny cwd\<rparr>,
      \<lparr>pr_ID = ''POL-005'', pr_Name = ''execution-timeout'', pr_Stage = ''execution'', pr_Priority = 50,
       pr_Evaluate = ruleTimeout\<rparr>,
      \<lparr>pr_ID = ''POL-006'', pr_Name = ''error-isolation'', pr_Stage = ''post_validation'', pr_Priority = 60,
       pr_Evaluate = ruleErrorIsolation\<rparr>]"

subsection \<open>The decision graph\<close>

record DecisionGraph =
  dg_Graph :: "PolicyDecision list"
  dg_FinalVerdict :: string

definition NewDecisionGraph :: "PolicyVerdict \<Rightarrow> DecisionGraph" where
  "NewDecisionGraph v = \<lparr>dg_Graph = pv_RuleChain v, dg_FinalVerdict = pv_Decision v\<rparr>"

definition dg_Allowed :: "DecisionGraph \<Rightarrow> bool" where "dg_Allowed dg \<longleftrightarrow> dg_FinalVerdict dg = ''ALLOW''"

definition DeniedBy :: "DecisionGraph \<Rightarrow> string" where
  "DeniedBy dg = (case find (\<lambda>d. pd_Decision d = ''DENY'') (dg_Graph dg) of None \<Rightarrow> [] | Some d \<Rightarrow> pd_RuleID d)"

subsection \<open>The exchange sort\<close>

lemma exchange_simps [simp]:
  "length (exchange prio i j xs) = length xs" "i < length xs \<Longrightarrow> j < length xs \<Longrightarrow> mset (exchange prio i j xs) = mset xs"
  by (simp_all add: exchange_def mset_swap)

lemma exchange_row_steps:
  assumes "k \<le> length xs" and "i < length xs"
  shows "let ys = fold (exchange prio i) [Suc i..<k] xs in
    length ys = length xs \<and> mset ys = mset xs \<and> take i ys = take i xs \<and> (\<forall>j. i \<le> j \<and> j < k \<longrightarrow> prio (ys ! i) \<le> prio (ys ! j))"
  using assms(1)
proof (induction k)
  case (Suc k)
  define ys where "ys = fold (exchange prio i) [Suc i..<k] xs"
  have ys: "length ys = length xs" "mset ys = mset xs" "take i ys = take i xs"
    "\<And>j. i \<le> j \<Longrightarrow> j < k \<Longrightarrow> prio (ys ! i) \<le> prio (ys ! j)"
    using Suc unfolding ys_def Let_def by auto
  show ?case
  proof (cases "Suc i \<le> k")
    case True
    then have f: "fold (exchange prio i) [Suc i..<Suc k] xs = exchange prio i k ys" by (simp add: ys_def)
    have le: "i \<le> j \<Longrightarrow> j < Suc k \<Longrightarrow> prio (exchange prio i k ys ! i) \<le> prio (exchange prio i k ys ! j)" for j
      using ys(1) ys(4) [of j] Suc.prems True by (auto simp: exchange_def nth_list_update less_Suc_eq)
    have "take i (exchange prio i k ys) = take i ys" using True by (simp add: exchange_def)
    then show ?thesis
      unfolding f Let_def using le ys Suc.prems assms(2) by (simp add: exchange_simps)
  next
    case False
    then have "fold (exchange prio i) [Suc i..<Suc k] xs = xs" "j \<noteq> i \<Longrightarrow> i \<le> j \<Longrightarrow> \<not> j < Suc k" for j by simp_all
    then show ?thesis unfolding Let_def by (metis order_refl)
  qed
qed simp

lemma exchange_row_facts:
  assumes "i < length xs"
  shows "length (exchange_row prio i xs) = length xs" "mset (exchange_row prio i xs) = mset xs"
    "take i (exchange_row prio i xs) = take i xs"
    "\<forall>y \<in> set (drop i (exchange_row prio i xs)). prio (exchange_row prio i xs ! i) \<le> prio y"
  using exchange_row_steps [OF order_refl assms, of prio] unfolding exchange_row_def Let_def
  by (auto simp: set_conv_nth)

definition sorted_upto :: "('a \<Rightarrow> int) \<Rightarrow> nat \<Rightarrow> 'a list \<Rightarrow> bool" where
  "sorted_upto prio i xs \<longleftrightarrow> sorted (map prio (take i xs)) \<and> (\<forall>a \<in> set (take i xs). \<forall>b \<in> set (drop i xs). prio a \<le> prio b)"

lemma exchange_row_sorted:
  assumes "sorted_upto prio i xs" and "i < length xs"
  shows "sorted_upto prio (Suc i) (exchange_row prio i xs)"
proof -
  define ys where "ys = exchange_row prio i xs"
  note ys = exchange_row_facts [OF assms(2), of prio, folded ys_def]
  have "mset (take i ys) + mset (drop i ys) = mset (take i xs) + mset (drop i xs)"
    using ys(2) by (metis append_take_drop_id mset_append)
  then have d: "set (drop i ys) = set (drop i xs)" using ys(3) by (metis add_left_cancel set_mset_mset)
  have split: "take (Suc i) ys = take i ys @ [ys ! i]" "drop i ys = ys ! i # drop (Suc i) ys"
    using assms(2) ys(1) by (simp_all add: take_Suc_conv_app_nth Cons_nth_drop_Suc)
  have "ys ! i \<in> set (drop i ys)" by (simp add: split(2))
  then show ?thesis
    using assms(1) ys(3,4) d unfolding sorted_upto_def ys_def [symmetric] split(1)
    by (auto simp: sorted_append split(2))
qed

lemma exchange_sort_steps:
  "n \<le> length xs \<Longrightarrow> length (fold (exchange_row prio) [0..<n] xs) = length xs \<and> mset (fold (exchange_row prio) [0..<n] xs) = mset xs \<and>
     sorted_upto prio n (fold (exchange_row prio) [0..<n] xs)"
  by (induction n) (auto simp: sorted_upto_def [of _ 0] exchange_row_facts exchange_row_sorted)

lemma exchange_sort_spec:
  "mset (exchange_sort prio xs) = mset xs" "sorted (map prio (exchange_sort prio xs))"
  using exchange_sort_steps [OF order_refl, of prio xs] by (auto simp: exchange_sort_def sorted_upto_def)

text \<open>
  A new policy engine has exactly the rules it is given, in the order of their priorities.
\<close>
theorem policy_engine_sorted:
  "mset (pe_rules (NewPolicyEngine rules version)) = mset rules \<and>
   sorted (map pr_Priority (pe_rules (NewPolicyEngine rules version)))"
  by (simp add: NewPolicyEngine_def exchange_sort_spec)

text \<open>The sort is not stable: rules of one priority may change places.\<close>

lemma exchange_sort_unstable: "exchange_sort fst [(2, a), (2, b), (1, c)] = [(1, c), (2, b), (2, a)]"
  by (simp add: exchange_sort_def exchange_row_def exchange_def upt_rec)

subsection \<open>The path guard\<close>

text \<open>What a path means: its segments are walked one by one, \<open>..\<close> goes up and stays at the root.\<close>

definition walk_step :: "string list \<Rightarrow> string \<Rightarrow> string list" where
  "walk_step d s = (if s = [] \<or> s = ''.'' then d else if s = ''..'' then butlast d else d @ [s])"

definition walk_to :: "string list \<Rightarrow> string list \<Rightarrow> string list" where
  "walk_to d ss = foldl walk_step d ss"

lemma walk_to_simps [simp]:
  "walk_to d [] = d" "walk_to d (s # ss) = walk_to (walk_step d s) ss" "walk_to d (as @ bs) = walk_to (walk_to d as) bs"
  by (simp_all add: walk_to_def)

definition normal :: "string \<Rightarrow> bool" where
  "normal s \<longleftrightarrow> s \<noteq> [] \<and> s \<noteq> ''.'' \<and> s \<noteq> ''..''"

lemma clean_rooted:
  "\<forall>a \<in> set acc. a \<noteq> ''..'' \<Longrightarrow> rev (clean_segs True acc ss) = walk_to (rev acc) ss"
proof (induction ss arbitrary: acc)
  case (Cons s ss)
  consider "s = [] \<or> s = ''.''" | "s = ''..''" | "normal s" by (auto simp: normal_def)
  then show ?case
  proof cases
    case 2
    then show ?thesis using Cons.prems by (cases acc) (simp_all add: walk_step_def Cons.IH)
  next
    case 3
    then have "clean_segs True acc (s # ss) = clean_segs True (s # acc) ss" by (simp add: normal_def)
    then show ?thesis using 3 Cons.prems by (simp add: Cons.IH normal_def walk_step_def)
  qed (auto simp: walk_step_def Cons)
qed simp

lemma clean_relative:
  "\<forall>a \<in> set acc. a \<noteq> [] \<and> a \<noteq> ''.'' \<Longrightarrow> walk_to d (rev (clean_segs False acc ss)) = walk_to d (rev acc @ ss)"
proof (induction ss arbitrary: acc)
  case (Cons s ss)
  consider "s = [] \<or> s = ''.''" | "s = ''..''" | "normal s" by (auto simp: normal_def)
  then show ?case
  proof cases
    case 2
    then show ?thesis using Cons.prems by (cases acc) (simp_all add: walk_step_def Cons.IH)
  next
    case 3
    then have "clean_segs False acc (s # ss) = clean_segs False (s # acc) ss" by (simp add: normal_def)
    then show ?thesis using 3 Cons.prems by (simp add: Cons.IH normal_def)
  qed (auto simp: walk_step_def Cons)
qed simp

lemma split_on_ne: "split_on d s \<noteq> []"
  by (induction s) (auto split: list.splits)

lemma split_on_append: "split_on d (a @ d # b) = split_on d a @ split_on d b"
proof (induction a)
  case (Cons c a)
  obtain l ls where "split_on d a = l # ls" using split_on_ne by (metis neq_Nil_conv)
  then show ?case using Cons by simp
qed simp

lemma split_on_single: "d \<notin> set s \<Longrightarrow> split_on d s = [s]"
  by (induction s) auto

lemma split_on_no: "s \<in> set (split_on d p) \<Longrightarrow> d \<notin> set s"
  by (induction d p arbitrary: s rule: split_on.induct) (auto split: if_splits list.splits)

lemma split_on_join:
  assumes "ss \<noteq> []" and "\<forall>s \<in> set ss. CHR ''/'' \<notin> set s"
  shows "split_on (CHR ''/'') (join_with ''/'' ss) = ss"
  using assms
proof (induction "''/''" ss rule: join_with.induct)
  case (3 x y xs)
  have "join_with ''/'' (x # y # xs) = x @ CHR ''/'' # join_with ''/'' (y # xs)" by simp
  then show ?case using 3 split_on_append [of "CHR ''/''" x "join_with ''/'' (y # xs)"] by (simp add: split_on_single)
qed (simp_all add: split_on_single)

lemma clean_segs_mem: "s \<in> set (clean_segs r acc ss) \<Longrightarrow> s \<in> set acc \<or> s \<in> set ss \<and> s \<noteq> [] \<and> s \<noteq> ''.''"
  by (induction r acc ss rule: clean_segs.induct) (auto split: if_splits list.splits)

lemma walk_normal: "\<forall>s \<in> set ss. normal s \<Longrightarrow> walk_to d ss = d @ ss"
  by (induction ss arbitrary: d) (auto simp: walk_step_def normal_def)

lemma walk_to_mem: "s \<in> set (walk_to d ss) \<Longrightarrow> s \<in> set d \<or> s \<in> set ss \<and> normal s"
proof (induction ss arbitrary: d)
  case (Cons a ss)
  have "s \<in> set (walk_step d a) \<or> s \<in> set ss \<and> normal s" using Cons.IH [of "walk_step d a"] Cons.prems by simp
  then show ?case by (auto simp: walk_step_def normal_def dest: in_set_butlastD split: if_splits)
qed simp

definition resolved :: "string \<Rightarrow> string \<Rightarrow> string list" where
  "resolved cwd p = walk_to [] (split_on (CHR ''/'') (if has_prefix p ''/'' then p else cwd @ ''/'' @ p))"

lemma rooted_clean: "has_prefix p ''/'' \<Longrightarrow> path_clean p = CHR ''/'' # join_with ''/'' (walk_to [] (split_on (CHR ''/'') p))"
  using clean_rooted [of "[]" "split_on (CHR ''/'') p"] by (simp add: path_clean_def Let_def)

lemma walk_join:
  assumes "\<forall>s \<in> set ss. CHR ''/'' \<notin> set s \<and> s \<noteq> []"
  shows "walk_to d (split_on (CHR ''/'') (join_with ''/'' ss)) = walk_to d ss"
  using assms by (cases "ss = []") (simp_all add: split_on_join walk_step_def)

lemma resolved_parts: "s \<in> set (walk_to [] (split_on (CHR ''/'') p)) \<Longrightarrow> CHR ''/'' \<notin> set s \<and> normal s"
  using walk_to_mem split_on_no by fastforce

lemma path_clean_rooted: "has_prefix (path_clean p) ''/'' = has_prefix p ''/''"
proof (cases "has_prefix p ''/''")
  case False
  let ?cs = "rev (clean_segs False [] (split_on (CHR ''/'') p))"
  have cs: "\<forall>s \<in> set ?cs. CHR ''/'' \<notin> set s \<and> s \<noteq> []"
    using clean_segs_mem [of _ False "[]"] split_on_no by fastforce
  have c: "path_clean p = (if join_with ''/'' ?cs = [] then ''.'' else join_with ''/'' ?cs)"
    using False by (simp add: path_clean_def Let_def)
  have "\<not> has_prefix (path_clean p) ''/''"
  proof (cases "?cs")
    case (Cons x xs)
    then have "x \<noteq> []" "CHR ''/'' \<notin> set x" using cs by (metis list.set_intros(1))+
    then show ?thesis by (cases x; cases xs) (auto simp: c Cons)
  qed (simp add: c)
  with False show ?thesis by simp
qed (simp add: rooted_clean)

text \<open>Cleaning the path first and then the joined path again is the same as walking it from the working directory.\<close>

lemma path_abs_resolved:
  assumes "has_prefix cwd ''/''"
  shows "path_abs (Some cwd) (path_clean p) = Some (CHR ''/'' # join_with ''/'' (resolved cwd p))"
proof (cases "has_prefix p ''/''")
  case True
  let ?ss = "walk_to [] (split_on (CHR ''/'') p)"
  have c: "path_clean p = CHR ''/'' # join_with ''/'' ?ss" by (rule rooted_clean [OF True])
  have p: "\<forall>s \<in> set ?ss. CHR ''/'' \<notin> set s \<and> s \<noteq> []" using resolved_parts by (auto simp: normal_def)
  have "walk_to [] (split_on (CHR ''/'') (path_clean p)) = walk_to [] ?ss"
    using walk_join [OF p] unfolding c by (simp add: walk_step_def)
  also have "\<dots> = ?ss" using resolved_parts walk_normal by (metis append_Nil)
  finally have "walk_to [] (split_on (CHR ''/'') (path_clean p)) = ?ss" .
  moreover have "has_prefix (path_clean p) ''/''" by (simp add: c)
  ultimately show ?thesis using True by (simp add: path_abs_def resolved_def rooted_clean)
next
  case False
  let ?cs = "rev (clean_segs False [] (split_on (CHR ''/'') p))"
  have cs: "\<forall>s \<in> set ?cs. CHR ''/'' \<notin> set s \<and> s \<noteq> []"
    using clean_segs_mem [of _ False "[]"] split_on_no by fastforce
  have c: "path_clean p = (if join_with ''/'' ?cs = [] then ''.'' else join_with ''/'' ?cs)"
    using False by (simp add: path_clean_def Let_def)
  have w: "walk_to d (split_on (CHR ''/'') (path_clean p)) = walk_to d (split_on (CHR ''/'') p)" for d
  proof -
    have "walk_to d (split_on (CHR ''/'') (path_clean p)) = walk_to d (split_on (CHR ''/'') (join_with ''/'' ?cs))"
      by (simp add: c walk_step_def)
    also have "\<dots> = walk_to d ?cs" by (rule walk_join [OF cs])
    also have "\<dots> = walk_to d (split_on (CHR ''/'') p)" using clean_relative [of "[]"] by simp
    finally show ?thesis .
  qed
  have "\<not> has_prefix (path_clean p) ''/''" using False path_clean_rooted by simp
  then show ?thesis
    using False assms w
    by (cases cwd) (auto simp: path_abs_def resolved_def rooted_clean split_on_append)
qed

lemma join_with_prefix:
  assumes "\<forall>s \<in> set ss. CHR ''/'' \<notin> set s" and "CHR ''/'' \<notin> set d"
  shows "has_prefix (join_with ''/'' ss) (d @ ''/'') \<longleftrightarrow> (\<exists>s xs. ss = d # s # xs)"
proof
  assume p: "has_prefix (join_with ''/'' ss) (d @ ''/'')"
  then obtain t where t: "join_with ''/'' ss = d @ CHR ''/'' # t" by (auto simp: has_prefix_iff)
  then have "ss \<noteq> []" by auto
  then have "ss = split_on (CHR ''/'') (d @ CHR ''/'' # t)" using split_on_join assms(1) t by metis
  also have "\<dots> = d # split_on (CHR ''/'') t" by (simp only: split_on_append split_on_single [OF assms(2)] append_Cons append_Nil)
  finally show "\<exists>s xs. ss = d # s # xs" using split_on_ne by (metis neq_Nil_conv)
qed (auto simp: has_prefix_iff)

text \<open>C26:
  The path rule denies exactly what it is meant to, however the path is written: with the path walked segment by
  segment from the working directory (\<open>.\<close> and empty segments skipped, \<open>..\<close> going up), it denies when the result lies
  strictly below \<open>/etc\<close>, \<open>/proc\<close> or \<open>/sys\<close>, or contains \<open>/.ai/config/secrets\<close>. The three directories themselves pass.
\<close>
theorem path_guard_resolves:
  assumes "has_prefix cwd ''/''"
  shows "path_denied (Some cwd) p =
    ((\<exists>d s ss. resolved cwd p = d # s # ss \<and> (d = ''etc'' \<or> d = ''proc'' \<or> d = ''sys'')) \<or>
     str_contains (CHR ''/'' # join_with ''/'' (resolved cwd p)) ''/.ai/config/secrets'')"
proof -
  have r: "\<forall>s \<in> set (resolved cwd p). CHR ''/'' \<notin> set s" using resolved_parts by (auto simp: resolved_def)
  have e: "has_prefix (CHR ''/'' # join_with ''/'' (resolved cwd p)) (CHR ''/'' # d @ ''/'') \<longleftrightarrow>
      (\<exists>s ss. resolved cwd p = d # s # ss)" if "CHR ''/'' \<notin> set d" for d
    using join_with_prefix [OF r that] by simp
  have "list_ex (has_prefix (CHR ''/'' # join_with ''/'' (resolved cwd p))) denied_prefixes \<longleftrightarrow>
      (\<exists>d s ss. resolved cwd p = d # s # ss \<and> (d = ''etc'' \<or> d = ''proc'' \<or> d = ''sys''))"
    using e [of "''etc''"] e [of "''proc''"] e [of "''sys''"] unfolding denied_prefixes_def by auto
  then show ?thesis by (simp add: path_denied_def path_abs_resolved [OF assms] Let_def)
qed

lemma path_guard_resolves_witness:
  "path_denied (Some ''/home/u'') ''../../tmp/.././etc//passwd'' \<and> \<not> path_denied (Some ''/home/u'') ''/etc''"
  using path_guard_resolves [of "''/home/u''" "''../../tmp/.././etc//passwd''"] path_guard_resolves [of "''/home/u''" "''/etc''"]
  by (simp add: resolved_def walk_step_def)

subsection \<open>What a stage decides\<close>

text \<open>
  The verdict is that of the first rule of the stage that denies, and the decisions up to it are appended to the context.
\<close>

lemma eval_rules_graph:
  "eval_rules stage td rules chain rc = (v, rc') \<Longrightarrow>
     \<exists>ds. pv_RuleChain v = chain @ ds \<and> rc_PolicyGraph rc' = rc_PolicyGraph rc @ ds \<and> rc' = rc\<lparr>rc_PolicyGraph := rc_PolicyGraph rc'\<rparr>"
proof (induction rules arbitrary: chain rc)
  case (Cons rule rules)
  define d where "d = decision_of rule stage (pr_Evaluate rule rc td)"
  show ?case
  proof (cases "pr_Stage rule = stage \<and> pv_Decision (pr_Evaluate rule rc td) \<noteq> ''DENY''")
    case True
    then have "eval_rules stage td rules (chain @ [d]) (rc\<lparr>rc_PolicyGraph := rc_PolicyGraph rc @ [d]\<rparr>) = (v, rc')"
      using Cons.prems by (simp add: d_def Let_def)
    from Cons.IH [OF this] show ?thesis by auto
  next
    case False
    then show ?thesis using Cons by (auto simp: Let_def split: if_splits)
  qed
qed auto

lemma exchange_sort_sorted:
  assumes "sorted (map prio xs)"
  shows "exchange_sort prio xs = xs"
proof -
  have 1: "exchange prio i j xs = xs" if "i < j" "j < length xs" for i j
  proof -
    have "prio (xs ! i) \<le> prio (xs ! j)" using assms that by (simp add: sorted_iff_nth_mono)
    then show ?thesis by (simp add: exchange_def)
  qed
  have "fold (exchange prio i) js xs = xs" if "\<forall>j \<in> set js. i < j \<and> j < length xs" for i js
    using that by (induction js) (simp_all add: 1)
  then have 2: "exchange_row prio i xs = xs" for i by (simp add: exchange_row_def)
  have "fold (exchange_row prio) is xs = xs" for "is" by (induction "is") (simp_all add: 2)
  then show ?thesis by (simp add: exchange_sort_def)
qed

lemma default_rules_order: "pe_rules (NewPolicyEngine (DefaultRules cwd) version) = DefaultRules cwd"
  by (simp add: NewPolicyEngine_def exchange_sort_sorted DefaultRules_def)

text \<open>Whether the default rules deny at a stage.\<close>

definition default_denies :: "string option \<Rightarrow> string \<Rightarrow> ToolDef option \<Rightarrow> RequestContext \<Rightarrow> bool" where
  "default_denies cwd stage td rc =
     (pv_Decision (fst (EvaluateStage (NewPolicyEngine (DefaultRules cwd) ''0.5.0'') stage td rc)) = ''DENY'')"

lemma verdict_simps [simp]: "pv_Decision (verdict d r) = d" "pv_Reason (verdict d r) = r"
  by (simp_all add: verdict_def)

lemma default_denies_simps:
  "default_denies cwd ''pre_validation'' td rc \<longleftrightarrow> rc_RequestID rc = [] \<or> rc_SessionID rc = [] \<or> rc_ProjectID rc = []"
  "default_denies cwd ''session_guard'' td rc \<longleftrightarrow> pv_Decision (ruleSessionGate rc td) = ''DENY''"
  "default_denies cwd ''pre_execution'' td rc \<longleftrightarrow> pv_Decision (rulePathDeny cwd rc td) = ''DENY''"
  "default_denies cwd ''post_validation'' td rc \<longleftrightarrow> rc_Status rc = CtxError"
  unfolding default_denies_def EvaluateStage_def default_rules_order
  by (simp_all add: DefaultRules_def Let_def ruleMandatoryFields_def ruleErrorIsolation_def)

text \<open>An evaluation changes the decision graph of the context and nothing else.\<close>

lemma EvaluateStage_context:
  "\<exists>ds. snd (EvaluateStage pe stage td rc) = rc\<lparr>rc_PolicyGraph := rc_PolicyGraph rc @ ds\<rparr>"
proof (cases "EvaluateStage pe stage td rc")
  case (Pair v rc')
  obtain ds where ds: "rc_PolicyGraph rc' = rc_PolicyGraph rc @ ds" "rc' = rc\<lparr>rc_PolicyGraph := rc_PolicyGraph rc'\<rparr>"
    using eval_rules_graph [OF Pair [unfolded EvaluateStage_def]] by blast
  have "rc' = rc\<lparr>rc_PolicyGraph := rc_PolicyGraph rc @ ds\<rparr>" using ds(2) unfolding ds(1) .
  then show ?thesis using Pair by auto
qed

end
