(* ===== verification/Run_Worker.thy ===== *)
theory Run_Worker
  imports Run_Policy
begin

text \<open>
  The executor and the workers of the MCP kernel: \<open>runtime/executor\<close> (the execution core and the timeout wrapper) and
  \<open>runtime/worker\<close> (the supervisor, the stages of a request and the pool).

  Clocks, deadlines and the log belong to a world \<open>'w\<close>. A panic inside a stage is \<open>Some msg\<close> in the first component of
  a result; the request context, a pointer in the source, is returned as the panic leaves it.
\<close>

subsection \<open>The executor\<close>

record 'w exec_env =
  ee_now :: "'w \<Rightarrow> int \<times> 'w"
  ee_late :: "int \<Rightarrow> 'w \<Rightarrow> bool \<times> 'w"

definition exec_failure :: "string \<Rightarrow> string \<Rightarrow> rat \<Rightarrow> ExecResult" where
  "exec_failure e code ms = \<lparr>xr_Status = ''error'', xr_Result = AnyNil, xr_Error = e, xr_ErrorCode = code, xr_ErrorTrace = [],
     xr_DurationMs = ms\<rparr>"

definition ee_since :: "'w exec_env \<Rightarrow> int \<Rightarrow> 'w \<Rightarrow> rat \<times> 'w" where
  "ee_since env start w = (case ee_now env w of (t, w') \<Rightarrow> (micros_ms (t - start), w'))"

text \<open>The only tool with a handler is \<open>echo\<close>.\<close>

definition dispatch :: "'w exec_env \<Rightarrow> ToolDef \<Rightarrow> (string, any) gomap \<Rightarrow> 'w \<Rightarrow> ExecResult \<times> 'w" where
  "dispatch env td args w =
     (let (start, w) = ee_now env w; (ms, w) = ee_since env start w
      in (if td_ID td = ''echo''
          then \<lparr>xr_Status = ''success'', xr_Result = AnyMap args, xr_Error = [], xr_ErrorCode = [], xr_ErrorTrace = [], xr_DurationMs = ms\<rparr>
          else exec_failure (''tool handler not implemented: '' @ td_ID td) ''HANDLER_NOT_FOUND'' ms, w))"

definition effective_timeout :: "ToolDef \<Rightarrow> int" where
  "effective_timeout td =
     (if tg_TimeoutMs (td_Governance td) > 0 then tg_TimeoutMs (td_Governance td) * 1000000 else 30 * second)"

text \<open>\<open>late\<close> is asked with the timeout: whether the deadline is taken before the result. \<open>dispatch\<close> does not panic.\<close>

definition core_Execute ::
  "'w exec_env \<Rightarrow> (string \<Rightarrow> string + ToolDef) \<Rightarrow> string \<Rightarrow> (string, any) gomap \<Rightarrow> 'w \<Rightarrow> ExecResult \<times> 'w" where
  "core_Execute env GetTool toolID args w =
     (let (start, w) = ee_now env w
      in case GetTool toolID of
           Inl err \<Rightarrow> (let (ms, w) = ee_since env start w in (exec_failure err ''TOOL_NOT_FOUND'' ms, w))
         | Inr td \<Rightarrow>
             (case dispatch env td args w of
                (result, w) \<Rightarrow>
                  (case ee_late env (effective_timeout td) w of
                     (False, w) \<Rightarrow> (result, w)
                   | (True, w) \<Rightarrow>
                       (let (ms, w) = ee_since env start w in (exec_failure ''tool execution timed out'' ''EXECUTION_TIMEOUT'' ms, w)))))"

definition NewTimeoutWrapper :: "int \<Rightarrow> int" where
  "NewTimeoutWrapper timeout = (if timeout \<le> 0 then 30 * second else timeout)"

text \<open>The shorter of the two deadlines comes first: a tool that is late for the wrapper is late for the core.\<close>

definition ExecuteWithTimeout ::
  "'w exec_env \<Rightarrow> (string \<Rightarrow> string + ToolDef) \<Rightarrow> int \<Rightarrow> string \<Rightarrow> (string, any) gomap \<Rightarrow> 'w \<Rightarrow> ExecResult \<times> 'w" where
  "ExecuteWithTimeout env GetTool timeout toolID args w =
     core_Execute (env\<lparr>ee_late := (\<lambda>t. ee_late env (min t timeout))\<rparr>) GetTool toolID args w"

text \<open>The workers call it with the background context, which is never done: the second branch of its \<open>select\<close> and the
  recovery of a panic are not reached.\<close>

definition ExecuteIsolated ::
  "'w exec_env \<Rightarrow> (string \<Rightarrow> string + ToolDef) \<Rightarrow> int \<Rightarrow> string \<Rightarrow> (string, any) gomap \<Rightarrow> 'w \<Rightarrow> ExecResult \<times> 'w" where
  "ExecuteIsolated env GetTool timeout toolID args w =
     (let (_, w) = ee_now env w in ExecuteWithTimeout env GetTool timeout toolID args w)"

subsection \<open>The supervisor\<close>

datatype WorkerState = WorkerInit | WorkerReady | WorkerRunning | WorkerExecuting | WorkerWaiting | WorkerRecovering
  | WorkerFailed | WorkerRestarting

record WorkerHealth =
  wh_WorkerID :: string
  wh_State :: WorkerState
  wh_Failures :: int
  wh_Restarts :: int
  wh_LastHeartbeat :: int
  wh_RequestsDone :: int

fun worker_next :: "WorkerState \<Rightarrow> WorkerState list" where
  "worker_next WorkerInit = [WorkerReady]"
| "worker_next WorkerReady = [WorkerRunning]"
| "worker_next WorkerRunning = [WorkerExecuting, WorkerWaiting, WorkerRecovering, WorkerFailed]"
| "worker_next WorkerExecuting = [WorkerWaiting, WorkerRecovering, WorkerFailed]"
| "worker_next WorkerWaiting = [WorkerReady]"
| "worker_next WorkerRecovering = [WorkerReady, WorkerFailed]"
| "worker_next WorkerFailed = [WorkerRestarting]"
| "worker_next WorkerRestarting = [WorkerInit, WorkerReady]"

definition wh_Transition :: "int \<Rightarrow> WorkerState \<Rightarrow> WorkerHealth \<Rightarrow> bool \<times> WorkerHealth" where
  "wh_Transition now to wh =
     (if to \<in> set (worker_next (wh_State wh)) then (True, wh\<lparr>wh_State := to, wh_LastHeartbeat := now\<rparr>) else (False, wh))"

definition MarkAlive :: "int \<Rightarrow> WorkerHealth \<Rightarrow> WorkerHealth" where
  "MarkAlive now wh = wh\<lparr>wh_LastHeartbeat := now\<rparr>"

definition MarkDegraded :: "int \<Rightarrow> WorkerHealth \<Rightarrow> WorkerHealth" where
  "MarkDegraded now wh = wh
     \<lparr>wh_State := (if wh_State wh = WorkerExecuting \<or> wh_State wh = WorkerRunning then WorkerRecovering else wh_State wh),
      wh_Failures := wh_Failures wh + 1, wh_LastHeartbeat := now\<rparr>"

definition MarkFailed :: "int \<Rightarrow> WorkerHealth \<Rightarrow> WorkerHealth" where
  "MarkFailed now wh = wh\<lparr>wh_State := WorkerFailed, wh_Failures := wh_Failures wh + 1, wh_LastHeartbeat := now\<rparr>"

definition IncrementRequests :: "WorkerHealth \<Rightarrow> WorkerHealth" where
  "IncrementRequests wh = wh\<lparr>wh_RequestsDone := wh_RequestsDone wh + 1\<rparr>"

text \<open>The map of the supervisor; the health a worker holds is the entry of its identifier.\<close>

record WorkerSupervisor =
  ws_health :: "(string, WorkerHealth) gomap"
  ws_maxRestarts :: int

definition NewWorkerSupervisor :: WorkerSupervisor where
  "NewWorkerSupervisor = \<lparr>ws_health = [], ws_maxRestarts = 3\<rparr>"

definition new_health :: "int \<Rightarrow> string \<Rightarrow> WorkerHealth" where
  "new_health now i = \<lparr>wh_WorkerID = i, wh_State = WorkerInit, wh_Failures = 0, wh_Restarts = 0, wh_LastHeartbeat = now,
     wh_RequestsDone = 0\<rparr>"

definition ws_Register :: "int \<Rightarrow> string \<Rightarrow> WorkerSupervisor \<Rightarrow> WorkerSupervisor" where
  "ws_Register now i ws = ws\<lparr>ws_health := gm_put i (new_health now i) (ws_health ws)\<rparr>"

definition ws_Get :: "string \<Rightarrow> WorkerSupervisor \<Rightarrow> WorkerHealth option" where "ws_Get i ws = gm_get (ws_health ws) i"

definition ws_upd :: "string \<Rightarrow> (WorkerHealth \<Rightarrow> WorkerHealth) \<Rightarrow> WorkerSupervisor \<Rightarrow> WorkerSupervisor" where
  "ws_upd i f ws = (case gm_get (ws_health ws) i of None \<Rightarrow> ws | Some wh \<Rightarrow> ws\<lparr>ws_health := gm_put i (f wh) (ws_health ws)\<rparr>)"

definition Restart :: "string \<Rightarrow> WorkerSupervisor \<Rightarrow> bool \<times> WorkerSupervisor" where
  "Restart i ws =
     (case gm_get (ws_health ws) i of
        None \<Rightarrow> (False, ws)
      | Some wh \<Rightarrow>
          if wh_Restarts wh \<ge> ws_maxRestarts ws then (False, ws)
          else (True, ws\<lparr>ws_health := gm_put i (wh\<lparr>wh_Restarts := wh_Restarts wh + 1, wh_State := WorkerRestarting\<rparr>) (ws_health ws)\<rparr>))"

definition Utilization :: "WorkerSupervisor \<Rightarrow> rat" where
  "Utilization ws =
     (if ws_health ws = [] then 0
      else of_nat (length (filter (\<lambda>(_, wh). wh_State wh = WorkerRunning \<or> wh_State wh = WorkerExecuting) (ws_health ws))) /
           of_nat (length (ws_health ws)))"

record failure_summary =
  fs_total_failures :: int
  fs_total_restarts :: int
  fs_degraded_workers :: int
  fs_failed_workers :: int
  fs_alive_workers :: int
  fs_recovering_workers :: int

definition summarize :: "WorkerHealth \<Rightarrow> failure_summary \<Rightarrow> failure_summary" where
  "summarize wh r =
     (let r = r\<lparr>fs_total_failures := fs_total_failures r + wh_Failures wh, fs_total_restarts := fs_total_restarts r + wh_Restarts wh\<rparr>
      in if wh_State wh = WorkerReady \<or> wh_State wh = WorkerRunning \<or> wh_State wh = WorkerExecuting
         then r\<lparr>fs_alive_workers := fs_alive_workers r + 1\<rparr>
         else if wh_State wh = WorkerRecovering then r\<lparr>fs_recovering_workers := fs_recovering_workers r + 1\<rparr>
         else if wh_State wh = WorkerFailed then r\<lparr>fs_failed_workers := fs_failed_workers r + 1\<rparr> else r)"

definition FailureSummary :: "WorkerSupervisor \<Rightarrow> failure_summary" where
  "FailureSummary ws = fold (\<lambda>(_, wh). summarize wh) (ws_health ws)
     \<lparr>fs_total_failures = 0, fs_total_restarts = 0, fs_degraded_workers = 0, fs_failed_workers = 0, fs_alive_workers = 0,
      fs_recovering_workers = 0\<rparr>"

subsection \<open>The stages of a request\<close>

record LogEntry =
  le_RequestID :: string
  le_SessionID :: string
  le_ProjectID :: string
  le_ToolID :: string
  le_Status :: string
  le_DecisionPath :: "string list"
  le_StageTimings :: "(string, rat) gomap"
  le_TotalMs :: rat
  le_QueueWaitTimeMs :: rat
  le_WorkerID :: string
  le_PipelineMode :: string
  le_LatencyBreakdown :: LatencyBreakdown
  le_PolicyGraph :: "PolicyDecision list"
  le_ExecutionTrace :: "StageResult list"
  le_Error :: string
  le_ErrorCode :: string
  le_Timestamp :: int

fun ctx_status_text :: "ContextStatus \<Rightarrow> string" where
  "ctx_status_text CtxPending = ''pending''"
| "ctx_status_text CtxSuccess = ''success''"
| "ctx_status_text CtxError = ''error''"
| "ctx_status_text CtxDenied = ''denied''"

text \<open>
  A worker: its policy, its executor and its logger (which may be nil, and may panic with a message), its registry (which
  may be nil) and the clock.
\<close>

record 'w worker =
  wk_ID :: string
  wk_policy :: PolicyEngine
  wk_registry :: "(string \<Rightarrow> string + ToolDef) option"
  wk_exec :: "string \<Rightarrow> (string, any) gomap \<Rightarrow> 'w \<Rightarrow> ExecResult \<times> 'w"
  wk_logger :: "(LogEntry \<Rightarrow> 'w \<Rightarrow> string option \<times> 'w) option"
  wk_now :: "'w \<Rightarrow> int \<times> 'w"

datatype stage_out = Decided StageDecision string | StagePanic string

type_synonym 'w stage = "ToolDef option \<Rightarrow> RequestContext \<Rightarrow> 'w \<Rightarrow> stage_out \<times> RequestContext \<times> 'w"

definition policy_stage :: "'w worker \<Rightarrow> string \<Rightarrow> ToolDef option \<Rightarrow> RequestContext \<Rightarrow> stage_out \<times> RequestContext" where
  "policy_stage wk stage td rc =
     (case EvaluateStage (wk_policy wk) stage td rc of
        (v, rc) \<Rightarrow> (if pv_Decision v = ''DENY'' then Decided DecisionDeny (pv_Reason v) else Decided DecisionAllow [], rc))"

definition stagePreValidation :: "'w worker \<Rightarrow> 'w stage" where
  "stagePreValidation wk _ rc w = (case policy_stage wk ''pre_validation'' None rc of (d, rc) \<Rightarrow> (d, rc, w))"

definition stageSessionGuard :: "'w worker \<Rightarrow> 'w stage" where
  "stageSessionGuard wk td rc w = (case policy_stage wk ''session_guard'' td rc of (d, rc) \<Rightarrow> (d, rc, w))"

definition stageCapabilityRouting :: "'w worker \<Rightarrow> 'w stage" where
  "stageCapabilityRouting wk td rc w =
     (if td = None \<and> rc_ToolID rc \<noteq> [] then Decided DecisionDeny (''tool not found: '' @ rc_ToolID rc) else Decided DecisionAllow [], rc, w)"

definition stagePreExecution :: "'w worker \<Rightarrow> 'w stage" where
  "stagePreExecution wk _ rc w = (case policy_stage wk ''pre_execution'' None rc of (d, rc) \<Rightarrow> (d, rc, w))"

definition stageExecution :: "'w worker \<Rightarrow> 'w stage" where
  "stageExecution wk _ rc w =
     (case wk_exec wk (rc_ToolID rc) (rc_Arguments rc) w of
        (result, w) \<Rightarrow>
          if xr_Status result = ''error''
          then (Decided DecisionDeny (xr_Error result),
                rc\<lparr>rc_Status := CtxError, rc_Error := xr_Error result, rc_ErrorCode := xr_ErrorCode result\<rparr>, w)
          else (Decided DecisionAllow [], rc\<lparr>rc_Status := CtxSuccess, rc_Result := xr_Result result\<rparr>, w))"

definition stagePostValidation :: "'w worker \<Rightarrow> 'w stage" where
  "stagePostValidation wk _ rc w =
     (if rc_Status rc = CtxError then
        (case EvaluateStage (wk_policy wk) ''post_validation'' None rc of
           (v, rc) \<Rightarrow>
             if pv_Decision v = ''DENY'' then (Decided DecisionDeny ''execution error contained'', rc, w)
             else (Decided DecisionAllow [], rc, w))
      else (Decided DecisionAllow [], rc, w))"

definition audit_entry :: "'w worker \<Rightarrow> int \<Rightarrow> RequestContext \<Rightarrow> LogEntry" where
  "audit_entry wk now rc =
     \<lparr>le_RequestID = rc_RequestID rc, le_SessionID = rc_SessionID rc, le_ProjectID = rc_ProjectID rc, le_ToolID = rc_ToolID rc,
      le_Status = ctx_status_text (rc_Status rc), le_DecisionPath = rc_DecisionPath rc, le_StageTimings = rc_StageTimings rc,
      le_TotalMs = 0, le_QueueWaitTimeMs = rc_QueueWaitTimeMs rc, le_WorkerID = wk_ID wk, le_PipelineMode = rc_PipelineMode rc,
      le_LatencyBreakdown = rc_LatencyBreakdown rc, le_PolicyGraph = rc_PolicyGraph rc,
      le_ExecutionTrace = rc_ExecutionTrace rc, le_Error = rc_Error rc, le_ErrorCode = rc_ErrorCode rc, le_Timestamp = now\<rparr>"

definition stageAuditLog :: "'w worker \<Rightarrow> 'w stage" where
  "stageAuditLog wk _ rc w =
     (case wk_logger wk of
        None \<Rightarrow> (Decided DecisionAllow [], rc, w)
      | Some emit \<Rightarrow>
          (let (now, w) = wk_now wk w
           in case emit (audit_entry wk now rc) w of
                (None, w) \<Rightarrow> (Decided DecisionAllow [], rc, w)
              | (Some p, w) \<Rightarrow> (StagePanic p, rc, w)))"

definition worker_stages :: "'w worker \<Rightarrow> (string \<times> 'w stage) list" where
  "worker_stages wk =
     [(''pre_validation'', stagePreValidation wk), (''session_guard'', stageSessionGuard wk),
      (''capability_routing'', stageCapabilityRouting wk), (''pre_execution'', stagePreExecution wk),
      (''execution'', stageExecution wk), (''post_validation'', stagePostValidation wk), (''audit_log'', stageAuditLog wk)]"

definition computeLatency :: "RequestContext \<Rightarrow> RequestContext" where
  "computeLatency rc =
     (let timing = gm_at 0 (rc_StageTimings rc)
      in rc\<lparr>rc_LatencyBreakdown :=
          \<lparr>lb_TotalMs = sum_list (map snd (rc_StageTimings rc)), lb_QueueWaitMs = rc_QueueWaitTimeMs rc,
           lb_RoutingMs = timing ''capability_routing'', lb_ExecutionMs = timing ''execution'',
           lb_AuditMs = timing ''audit_log'',
           lb_ValidationMs = timing ''pre_validation'' + timing ''post_validation''\<rparr>\<rparr>)"

text \<open>The loop over the stages: the panic, if there is one, and the context.\<close>

primrec run_stage_list ::
  "'w worker \<Rightarrow> ToolDef option \<Rightarrow> (string \<times> 'w stage) list \<Rightarrow> RequestContext \<Rightarrow> 'w \<Rightarrow> string option \<times> RequestContext \<times> 'w" where
  "run_stage_list wk td [] rc w =
     (let (now, w) = wk_now wk w in (None, computeLatency (Finalize now CtxSuccess [] [] rc), w))"
| "run_stage_list wk td (stage # stages) rc w =
     (let (name, handler) = stage;
          (t0, w) = wk_now wk w
      in case handler td rc w of
           (StagePanic p, rc, w) \<Rightarrow> (Some p, rc, w)
         | (Decided d e, rc, w) \<Rightarrow>
             (let (t1, w) = wk_now wk w;
                  (t2, w) = wk_now wk w;
                  rc = AppendTrace \<lparr>sr_Stage = name, sr_Decision = d, sr_DurationMs = micros_ms (t1 - t0), sr_Detail = [],
                                    sr_Error = e, sr_Timestamp = t2\<rparr> rc
              in if d = DecisionDeny
                 then (let (now, w) = wk_now wk w
                       in (None, computeLatency (Finalize now CtxDenied e (''DENIED_AT_'' @ name) rc), w))
                 else run_stage_list wk td stages rc w))"

definition find_tool :: "'w worker \<Rightarrow> string \<Rightarrow> ToolDef option" where
  "find_tool wk toolID =
     (case wk_registry wk of
        None \<Rightarrow> None
      | Some GetTool \<Rightarrow> (case GetTool toolID of Inl _ \<Rightarrow> None | Inr td \<Rightarrow> Some td))"

definition runStages :: "'w worker \<Rightarrow> RequestContext \<Rightarrow> 'w \<Rightarrow> string option \<times> RequestContext \<times> 'w" where
  "runStages wk rc w = run_stage_list wk (find_tool wk (rc_ToolID rc)) (worker_stages wk) rc w"

text \<open>\<open>processOne\<close>: the context that goes to the results, and whether the worker is marked degraded.\<close>

definition processOne :: "'w worker \<Rightarrow> RequestContext \<Rightarrow> 'w \<Rightarrow> bool \<times> RequestContext \<times> 'w" where
  "processOne wk rc w =
     (let (dequeueTime, w) = wk_now wk w;
          rc = rc\<lparr>rc_WorkerID := wk_ID wk, rc_QueueWaitTimeMs := micros_ms (dequeueTime - rc_TimestampStart rc)\<rparr>
      in case runStages wk rc w of
           (None, rc, w) \<Rightarrow> (False, rc, w)
         | (Some p, rc, w) \<Rightarrow>
             (let (now, w) = wk_now wk w
              in (True, Finalize now CtxError (''worker panic: '' @ p) ''WORKER_PANIC'' rc, w)))"

subsection \<open>Guards come before the execution\<close>

text \<open>
  A guard decides on the fields a request came with, and changes nothing but the decision graph. \<open>req_of\<close> are these
  fields.
\<close>

definition req_of :: "RequestContext \<Rightarrow> string \<times> string \<times> string \<times> string \<times> (string, any) gomap" where
  "req_of rc = (rc_RequestID rc, rc_SessionID rc, rc_ProjectID rc, rc_ToolID rc, rc_Arguments rc)"

lemma req_of_simps [simp]:
  "req_of (AppendTrace sr rc) = req_of rc" "req_of (rc\<lparr>rc_PolicyGraph := g\<rparr>) = req_of rc"
  "req_of (rc\<lparr>rc_WorkerID := i, rc_QueueWaitTimeMs := q\<rparr>) = req_of rc"
  by (simp_all add: req_of_def AppendTrace_def)

definition is_guard :: "ToolDef option \<Rightarrow> 'w stage \<Rightarrow> (RequestContext \<Rightarrow> bool) \<Rightarrow> bool" where
  "is_guard td h refuses \<longleftrightarrow>
     (\<forall>rc rc'. req_of rc = req_of rc' \<longrightarrow> refuses rc = refuses rc') \<and>
     (\<forall>rc w. \<exists>e rc'. h td rc w = (Decided (if refuses rc then DecisionDeny else DecisionAllow) e, rc', w) \<and> req_of rc' = req_of rc)"

abbreviation stages_of :: "(string \<times> 'w stage \<times> (RequestContext \<Rightarrow> bool)) list \<Rightarrow> (string \<times> 'w stage) list" where
  "stages_of gs \<equiv> map (\<lambda>(n, h, _). (n, h)) gs"

definition clock_of :: "'w worker \<Rightarrow> 'w \<Rightarrow> 'w" where "clock_of wk w = snd (wk_now wk w)"

lemma guard_decides:
  "is_guard td h p \<Longrightarrow> \<exists>e rc'. h td rc w = (Decided (if p rc then DecisionDeny else DecisionAllow) e, rc', w) \<and> req_of rc' = req_of rc"
  unfolding is_guard_def by blast

lemma guard_request: "is_guard td h p \<Longrightarrow> req_of rc = req_of rc' \<Longrightarrow> p rc = p rc'"
  unfolding is_guard_def by blast

lemma computeLatency_simps [simp]:
  "rc_Status (computeLatency rc) = rc_Status rc" "rc_Error (computeLatency rc) = rc_Error rc"
  "rc_ErrorCode (computeLatency rc) = rc_ErrorCode rc" "rc_Result (computeLatency rc) = rc_Result rc"
  by (simp_all add: computeLatency_def Let_def)

text \<open>One stage of the loop; what it leads to depends on the clock of the worker only.\<close>

lemma stage_denies:
  assumes "wk_now wk w = (t0, w0)" and "h td rc w0 = (Decided DecisionDeny e, rc', w1)"
  shows "\<exists>sr now w2. \<forall>wk' rest. wk_now wk' = wk_now wk \<longrightarrow> run_stage_list wk' td ((n, h) # rest) rc w =
    (None, computeLatency (Finalize now CtxDenied e (''DENIED_AT_'' @ n) (AppendTrace sr rc')), w2)"
proof -
  obtain t1 w2 where 1: "wk_now wk w1 = (t1, w2)" by (cases "wk_now wk w1")
  obtain t2 w3 where 2: "wk_now wk w2 = (t2, w3)" by (cases "wk_now wk w2")
  obtain t3 w4 where 3: "wk_now wk w3 = (t3, w4)" by (cases "wk_now wk w3")
  show ?thesis using assms 1 2 3 by (auto simp: Let_def)
qed

lemma stage_allows:
  assumes "wk_now wk w = (t0, w0)" and "h td rc w0 = (Decided DecisionAllow e, rc', w1)"
  shows "\<exists>sr w2. \<forall>wk' rest. wk_now wk' = wk_now wk \<longrightarrow>
    run_stage_list wk' td ((n, h) # rest) rc w = run_stage_list wk' td rest (AppendTrace sr rc') w2"
proof -
  obtain t1 w2 where 1: "wk_now wk w1 = (t1, w2)" by (cases "wk_now wk w1")
  obtain t2 w3 where 2: "wk_now wk w2 = (t2, w3)" by (cases "wk_now wk w2")
  show ?thesis using assms 1 2 by (auto simp: Let_def)
qed

lemma guard_refuses:
  assumes "is_guard td h p" and "p rc"
  shows "\<exists>r w'. rc_Status r = CtxDenied \<and>
    (\<forall>wk' rest. wk_now wk' = wk_now wk \<longrightarrow> run_stage_list wk' td ((n, h) # rest) rc w = (None, r, w'))"
proof -
  obtain t0 w0 where t0: "wk_now wk w = (t0, w0)" by (cases "wk_now wk w")
  obtain e rc' where h: "h td rc w0 = (Decided DecisionDeny e, rc', w0)"
    using guard_decides [OF assms(1), of rc w0] assms(2) by auto
  obtain sr now w2 where r: "\<forall>wk' rest. wk_now wk' = wk_now wk \<longrightarrow> run_stage_list wk' td ((n, h) # rest) rc w =
      (None, computeLatency (Finalize now CtxDenied e (''DENIED_AT_'' @ n) (AppendTrace sr rc')), w2)"
    using stage_denies [where h = h, OF t0 h] by blast
  show ?thesis by (intro exI conjI) (rule computeLatency_simps(1) [THEN trans, OF Finalize_simps(1)], rule r)
qed

lemma guard_admits:
  assumes "is_guard td h p" and "\<not> p rc"
  shows "\<exists>rc' w'. req_of rc' = req_of rc \<and> (\<forall>wk'. wk_now wk' = wk_now wk \<longrightarrow>
    (\<forall>rest. run_stage_list wk' td ((n, h) # rest) rc w = run_stage_list wk' td rest rc' w'))"
proof -
  obtain t0 w0 where t0: "wk_now wk w = (t0, w0)" by (cases "wk_now wk w")
  obtain e rc' where h: "h td rc w0 = (Decided DecisionAllow e, rc', w0)" "req_of rc' = req_of rc"
    using guard_decides [OF assms(1), of rc w0] assms(2) by auto
  obtain sr w2 where r: "\<forall>wk' rest. wk_now wk' = wk_now wk \<longrightarrow>
      run_stage_list wk' td ((n, h) # rest) rc w = run_stage_list wk' td rest (AppendTrace sr rc') w2"
    using stage_allows [where h = h, OF t0 h(1)] by blast
  have "req_of (AppendTrace sr rc') = req_of rc" using h(2) by simp
  then show ?thesis using r by blast
qed

lemma guards_refuse:
  assumes "\<forall>(n, h, p) \<in> set gs. is_guard td h p" and "\<exists>(n, h, p) \<in> set gs. p rc" and "wk_now wk' = wk_now wk"
  shows "\<exists>r w'. run_stage_list wk td (stages_of gs @ rest) rc w = (None, r, w') \<and> rc_Status r = CtxDenied \<and>
    run_stage_list wk' td (stages_of gs @ rest') rc w = (None, r, w')"
  using assms(1,2)
proof (induction gs arbitrary: rc w)
  case (Cons g gs)
  obtain n h p where g: "g = (n, h, p)" by (cases g)
  have h: "is_guard td h p" using Cons.prems(1) g by simp
  show ?case
  proof (cases "p rc")
    case True
    obtain r w' where "rc_Status r = CtxDenied" "\<And>wk' rest. wk_now wk' = wk_now wk \<Longrightarrow>
        run_stage_list wk' td ((n, h) # rest) rc w = (None, r, w')"
      using guard_refuses [OF h True] by blast
    then show ?thesis using g assms(3) by simp
  next
    case False
    obtain rc' w' where 1: "req_of rc' = req_of rc" "\<And>wk' rest. wk_now wk' = wk_now wk \<Longrightarrow>
        run_stage_list wk' td ((n, h) # rest) rc w = run_stage_list wk' td rest rc' w'"
      using guard_admits [OF h False] by blast
    have "\<exists>(n, h, p) \<in> set gs. p rc'"
    proof -
      obtain n2 h2 p2 where 2: "(n2, h2, p2) \<in> set gs" "p2 rc" using Cons.prems(2) False g by auto
      then have "p2 rc'" using guard_request [of td h2 p2 rc rc'] Cons.prems(1) 1(1) by auto
      then show ?thesis using 2(1) by blast
    qed
    then show ?thesis using Cons.IH [of rc' w'] Cons.prems(1) 1(2) [OF refl] 1(2) [OF assms(3)] g by simp
  qed
qed simp

lemma guards_admit:
  assumes "\<forall>(n, h, p) \<in> set gs. is_guard td h p" and "\<not> (\<exists>(n, h, p) \<in> set gs. p rc)"
  shows "\<exists>rc' w'. req_of rc' = req_of rc \<and>
    run_stage_list wk td (stages_of gs @ rest) rc w = run_stage_list wk td rest rc' w'"
  using assms
proof (induction gs arbitrary: rc w)
  case (Cons g gs)
  obtain n h p where g: "g = (n, h, p)" by (cases g)
  have h: "is_guard td h p" "\<not> p rc" using Cons.prems g by auto
  obtain rc' w' where 1: "req_of rc' = req_of rc"
      "run_stage_list wk td ((n, h) # stages_of gs @ rest) rc w = run_stage_list wk td (stages_of gs @ rest) rc' w'"
    using guard_admits [OF h] by blast
  have "\<not> (\<exists>(n, h, p) \<in> set gs. p rc')"
  proof
    assume "\<exists>(n, h, p) \<in> set gs. p rc'"
    then obtain n2 h2 p2 where 2: "(n2, h2, p2) \<in> set gs" "p2 rc'" by blast
    then have "p2 rc" using guard_request [of td h2 p2 rc' rc] Cons.prems(1) 1(1) by auto
    then show False using Cons.prems(2) 2(1) g by auto
  qed
  from Cons.IH [OF _ this, of w'] show ?case using Cons.prems(1) 1 g by auto
qed auto

text \<open>With the default rules the first four stages are guards.\<close>

definition default_worker :: "string option \<Rightarrow> 'w worker \<Rightarrow> bool" where
  "default_worker cwd wk \<longleftrightarrow> wk_policy wk = NewPolicyEngine (DefaultRules cwd) ''0.5.0''"

definition fields_missing :: "RequestContext \<Rightarrow> bool" where
  "fields_missing rc \<longleftrightarrow> rc_RequestID rc = [] \<or> rc_SessionID rc = [] \<or> rc_ProjectID rc = []"

definition path_refused :: "string option \<Rightarrow> RequestContext \<Rightarrow> bool" where
  "path_refused cwd rc \<longleftrightarrow> (\<exists>path. any_string (gm_get (rc_Arguments rc) ''path'') = Some path \<and> path \<noteq> [] \<and> path_denied cwd path)"

definition default_guards :: "string option \<Rightarrow> 'w worker \<Rightarrow> ToolDef option \<Rightarrow> (string \<times> 'w stage \<times> (RequestContext \<Rightarrow> bool)) list" where
  "default_guards cwd wk td =
     [(''pre_validation'', stagePreValidation wk, fields_missing),
      (''session_guard'', stageSessionGuard wk, \<lambda>rc. pv_Decision (ruleSessionGate rc td) = ''DENY''),
      (''capability_routing'', stageCapabilityRouting wk, \<lambda>rc. td = None \<and> rc_ToolID rc \<noteq> []),
      (''pre_execution'', stagePreExecution wk, path_refused cwd)]"

lemma policy_stage_guard:
  assumes "default_worker cwd wk"
  shows "\<exists>e rc'. policy_stage wk stage td rc = (Decided (if default_denies cwd stage td rc then DecisionDeny else DecisionAllow) e, rc') \<and>
    req_of rc' = req_of rc"
proof -
  obtain v rc' where e: "EvaluateStage (wk_policy wk) stage td rc = (v, rc')" by (cases "EvaluateStage (wk_policy wk) stage td rc")
  have "req_of rc' = req_of rc"
    using EvaluateStage_context [of "wk_policy wk" stage td rc] e by auto
  then show ?thesis using e assms by (simp add: policy_stage_def default_denies_def default_worker_def)
qed

lemma path_refused_rule: "pv_Decision (rulePathDeny cwd rc td) = ''DENY'' \<longleftrightarrow> path_refused cwd rc"
  by (simp add: rulePathDeny_def path_refused_def split: option.split)

lemma policy_guard:
  assumes "default_worker cwd wk" and "\<And>rc. default_denies cwd stage td' rc = p rc"
    and "\<And>rc rc'. req_of rc = req_of rc' \<Longrightarrow> p rc = p rc'"
    and "\<And>rc w. h td rc w = (case policy_stage wk stage td' rc of (d, rc) \<Rightarrow> (d, rc, w))"
  shows "is_guard td h p"
  unfolding is_guard_def
proof (intro conjI allI impI)
  fix rc w
  obtain e rc' where "policy_stage wk stage td' rc = (Decided (if p rc then DecisionDeny else DecisionAllow) e, rc') \<and>
    req_of rc' = req_of rc"
    using policy_stage_guard [OF assms(1), of stage td' rc] unfolding assms(2) by blast
  then show "\<exists>e rc'. h td rc w = (Decided (if p rc then DecisionDeny else DecisionAllow) e, rc', w) \<and> req_of rc' = req_of rc"
    unfolding assms(4) by (metis case_prod_conv)
qed (rule assms(3))

lemma default_guards_guard:
  assumes "default_worker cwd wk"
  shows "\<forall>(n, h, p) \<in> set (default_guards cwd wk td). is_guard td h p"
proof -
  have "is_guard td (stagePreValidation wk) fields_missing"
    by (rule policy_guard [OF assms, of "''pre_validation''" None])
      (simp_all add: default_denies_simps fields_missing_def stagePreValidation_def req_of_def)
  moreover have "is_guard td (stageSessionGuard wk) (\<lambda>rc. pv_Decision (ruleSessionGate rc td) = ''DENY'')"
    by (rule policy_guard [OF assms, of "''session_guard''" td])
      (simp_all add: default_denies_simps stageSessionGuard_def req_of_def ruleSessionGate_def split: option.split)
  moreover have "is_guard td (stageCapabilityRouting wk) (\<lambda>rc. td = None \<and> rc_ToolID rc \<noteq> [])"
    by (auto simp: is_guard_def stageCapabilityRouting_def req_of_def)
  moreover have "is_guard td (stagePreExecution wk) (path_refused cwd)"
    by (rule policy_guard [OF assms, of "''pre_execution''" None])
      (simp_all add: default_denies_simps path_refused_rule stagePreExecution_def req_of_def path_refused_def)
  ultimately show ?thesis by (simp add: default_guards_def)
qed

text \<open>What the guards let through.\<close>

definition admitted :: "string option \<Rightarrow> 'w worker \<Rightarrow> RequestContext \<Rightarrow> bool" where
  "admitted cwd wk rc \<longleftrightarrow> \<not> fields_missing rc \<and> (rc_ToolID rc = [] \<or> find_tool wk (rc_ToolID rc) \<noteq> None) \<and> \<not> path_refused cwd rc"

lemma admitted_guards:
  "(\<exists>(n, h, p) \<in> set (default_guards cwd wk (find_tool wk (rc_ToolID rc))). p rc) \<longleftrightarrow> \<not> admitted cwd wk rc"
  by (auto simp: default_guards_def admitted_def fields_missing_def ruleSessionGate_def split: option.splits)

lemma worker_stages_split:
  "worker_stages wk = stages_of (default_guards cwd wk td) @
     [(''execution'', stageExecution wk), (''post_validation'', stagePostValidation wk), (''audit_log'', stageAuditLog wk)]"
  by (simp add: worker_stages_def default_guards_def)

lemma guards_ignore_exec: "default_guards cwd (wk\<lparr>wk_exec := f\<rparr>) td = default_guards cwd wk td"
  by (simp add: default_guards_def stagePreValidation_def stageSessionGuard_def stageCapabilityRouting_def stagePreExecution_def
        policy_stage_def fun_eq_iff)

text \<open>C27:
  With the default rules nothing is executed for a request that lacks an identifier, a session or a project, names a
  tool that is not registered, or has a path argument the path rule denies: it ends DENIED, and neither its context nor the
  world depends on what the executor would have done.
\<close>
theorem refused_request_not_executed:
  assumes "default_worker cwd wk" and "\<not> admitted cwd wk rc"
  shows "processOne (wk\<lparr>wk_exec := f\<rparr>) rc w = processOne wk rc w \<and> rc_Status (fst (snd (processOne wk rc w))) = CtxDenied"
proof -
  obtain now w1 where now: "wk_now wk w = (now, w1)" by (cases "wk_now wk w")
  define rc1 where "rc1 = rc\<lparr>rc_WorkerID := wk_ID wk, rc_QueueWaitTimeMs := micros_ms (now - rc_TimestampStart rc)\<rparr>"
  let ?td = "find_tool wk (rc_ToolID rc1)" and ?wk = "wk\<lparr>wk_exec := f\<rparr>"
  have "rc_ToolID rc1 = rc_ToolID rc" "admitted cwd wk rc1 = admitted cwd wk rc"
    by (simp_all add: rc1_def admitted_def fields_missing_def path_refused_def)
  then have refused: "\<exists>(n, h, p) \<in> set (default_guards cwd wk ?td). p rc1"
    using assms(2) admitted_guards [of cwd wk rc1] by simp
  have td: "find_tool ?wk (rc_ToolID rc1) = ?td" by (simp add: find_tool_def)
  have "wk_now ?wk = wk_now wk" by simp
  from guards_refuse [OF default_guards_guard [OF assms(1)] refused this]
  obtain r w' where r: "runStages wk rc1 w1 = (None, r, w')" "rc_Status r = CtxDenied" "runStages ?wk rc1 w1 = (None, r, w')"
    unfolding runStages_def td worker_stages_split [of wk cwd ?td] worker_stages_split [of ?wk cwd ?td] guards_ignore_exec
    by blast
  show ?thesis
    using now r by (simp add: processOne_def rc1_def)
qed

text \<open>The three stages after the guards, when the logger does not panic.\<close>

definition quiet_logger :: "'w worker \<Rightarrow> bool" where
  "quiet_logger wk \<longleftrightarrow> (\<forall>emit e w. wk_logger wk = Some emit \<longrightarrow> fst (emit e w) = None)"

lemma stages_end: "\<exists>now w'. run_stage_list wk td [] rc w = (None, computeLatency (Finalize now CtxSuccess [] [] rc), w')"
  by (cases "wk_now wk w") (auto simp: Let_def)

text \<open>What the stages after the guards make of the result of the executor.\<close>

definition outcome_of :: "ExecResult \<Rightarrow> RequestContext \<Rightarrow> bool" where
  "outcome_of result r =
     (if xr_Status result = ''error''
      then rc_Status r = CtxDenied \<and> rc_Error r = xr_Error result \<and> rc_ErrorCode r = ''DENIED_AT_execution''
      else rc_Status r = CtxSuccess \<and> rc_Error r = [] \<and> rc_Result r = xr_Result result)"

lemma execution_stages:
  assumes "quiet_logger wk"
  shows "\<exists>r w' w1. run_stage_list wk td
      [(''execution'', stageExecution wk), (''post_validation'', stagePostValidation wk), (''audit_log'', stageAuditLog wk)] rc w = (None, r, w') \<and>
    outcome_of (fst (wk_exec wk (rc_ToolID rc) (rc_Arguments rc) w1)) r"
proof -
  obtain t0 w0 where t0: "wk_now wk w = (t0, w0)" by (cases "wk_now wk w")
  obtain result w1 where e: "wk_exec wk (rc_ToolID rc) (rc_Arguments rc) w0 = (result, w1)"
    by (cases "wk_exec wk (rc_ToolID rc) (rc_Arguments rc) w0")
  let ?rest = "[(''post_validation'', stagePostValidation wk), (''audit_log'', stageAuditLog wk)]"
  have "\<exists>r w'. run_stage_list wk td ((''execution'', stageExecution wk) # ?rest) rc w = (None, r, w') \<and> outcome_of result r"
  proof (cases "xr_Status result = ''error''")
    case True
    then have "stageExecution wk td rc w0 = (Decided DecisionDeny (xr_Error result),
        rc\<lparr>rc_Status := CtxError, rc_Error := xr_Error result, rc_ErrorCode := xr_ErrorCode result\<rparr>, w1)"
      using e by (simp add: stageExecution_def)
    from stage_denies [where h = "stageExecution wk", OF t0 this] show ?thesis using True by (force simp: outcome_of_def)
  next
    case False
    let ?rc = "rc\<lparr>rc_Status := CtxSuccess, rc_Result := xr_Result result\<rparr>"
    have "stageExecution wk td rc w0 = (Decided DecisionAllow [], ?rc, w1)" using e False by (simp add: stageExecution_def)
    from stage_allows [where h = "stageExecution wk", OF t0 this]
    obtain sr w2 where 1: "run_stage_list wk td ((''execution'', stageExecution wk) # ?rest) rc w = run_stage_list wk td ?rest (AppendTrace sr ?rc) w2"
      by blast
    obtain t1 w3 where t1: "wk_now wk w2 = (t1, w3)" by (cases "wk_now wk w2")
    have "stagePostValidation wk td (AppendTrace sr ?rc) w3 = (Decided DecisionAllow [], AppendTrace sr ?rc, w3)"
      by (simp add: stagePostValidation_def)
    from stage_allows [where h = "stagePostValidation wk", OF t1 this]
    obtain sr2 w4 where 2: "run_stage_list wk td ?rest (AppendTrace sr ?rc) w2 =
        run_stage_list wk td [(''audit_log'', stageAuditLog wk)] (AppendTrace sr2 (AppendTrace sr ?rc)) w4"
      by blast
    obtain t2 w5 where t2: "wk_now wk w4 = (t2, w5)" by (cases "wk_now wk w4")
    have "\<exists>w6. stageAuditLog wk td (AppendTrace sr2 (AppendTrace sr ?rc)) w5 = (Decided DecisionAllow [], AppendTrace sr2 (AppendTrace sr ?rc), w6)"
      using assms by (auto simp: stageAuditLog_def quiet_logger_def Let_def split: option.split prod.split) (metis fst_conv option.distinct(1))?
    then obtain w6 where a: "stageAuditLog wk td (AppendTrace sr2 (AppendTrace sr ?rc)) w5 =
        (Decided DecisionAllow [], AppendTrace sr2 (AppendTrace sr ?rc), w6)" by blast
    from stage_allows [where h = "stageAuditLog wk", OF t2 a]
    obtain sr3 w7 where 3: "run_stage_list wk td [(''audit_log'', stageAuditLog wk)] (AppendTrace sr2 (AppendTrace sr ?rc)) w4 =
        run_stage_list wk td [] (AppendTrace sr3 (AppendTrace sr2 (AppendTrace sr ?rc))) w7"
      by blast
    obtain now w8 where 4: "run_stage_list wk td [] (AppendTrace sr3 (AppendTrace sr2 (AppendTrace sr ?rc))) w7 =
        (None, computeLatency (Finalize now CtxSuccess [] [] (AppendTrace sr3 (AppendTrace sr2 (AppendTrace sr ?rc)))), w8)"
      using stages_end [of wk td "AppendTrace sr3 (AppendTrace sr2 (AppendTrace sr ?rc))" w7] by (elim exE) (rule that)
    show ?thesis unfolding 1 2 3 4 using False by (simp add: outcome_of_def)
  qed
  then show ?thesis using e by (metis fst_conv)
qed

text \<open>
  With the default rules a request the guards admit ends as the executor decides: SUCCESS with its result, or, after an
  execution error, DENIED at the execution stage with the error of the tool; the error code of the tool is lost and no
  request that a worker finishes without a panic ends with the status ERROR.
\<close>
theorem admitted_request_outcome:
  assumes "default_worker cwd wk" and "admitted cwd wk rc" and "quiet_logger wk"
  shows "\<exists>r w' w1. processOne wk rc w = (False, r, w') \<and>
    outcome_of (fst (wk_exec wk (rc_ToolID rc) (rc_Arguments rc) w1)) r"
proof -
  obtain now w1 where now: "wk_now wk w = (now, w1)" by (cases "wk_now wk w")
  define rc1 where "rc1 = rc\<lparr>rc_WorkerID := wk_ID wk, rc_QueueWaitTimeMs := micros_ms (now - rc_TimestampStart rc)\<rparr>"
  let ?td = "find_tool wk (rc_ToolID rc1)"
  have rc1: "req_of rc1 = req_of rc" "admitted cwd wk rc1 = admitted cwd wk rc"
    by (simp_all add: rc1_def req_of_def admitted_def fields_missing_def path_refused_def)
  then have "\<not> (\<exists>(n, h, p) \<in> set (default_guards cwd wk ?td). p rc1)"
    using assms(2) admitted_guards [of cwd wk rc1] by simp
  from guards_admit [OF default_guards_guard [OF assms(1)] this]
  obtain rc2 w2 where 1: "req_of rc2 = req_of rc1" "runStages wk rc1 w1 = run_stage_list wk ?td
      [(''execution'', stageExecution wk), (''post_validation'', stagePostValidation wk), (''audit_log'', stageAuditLog wk)] rc2 w2"
    unfolding runStages_def worker_stages_split [of wk cwd ?td] by blast
  have "rc_ToolID rc2 = rc_ToolID rc" "rc_Arguments rc2 = rc_Arguments rc" using 1(1) rc1(1) by (simp_all add: req_of_def)
  with execution_stages [OF assms(3), of ?td rc2 w2]
  obtain r w' w3 where "runStages wk rc1 w1 = (None, r, w')" "outcome_of (fst (wk_exec wk (rc_ToolID rc) (rc_Arguments rc) w3)) r"
    unfolding 1(2) by auto
  then show ?thesis using now by (auto simp: processOne_def rc1_def)
qed

subsection \<open>The pool\<close>

text \<open>\<open>%03d\<close>.\<close>

definition pad3 :: "nat \<Rightarrow> string" where
  "pad3 i = (let d = int_digits (int i) in replicate (3 - length d) (CHR ''0'') @ d)"

definition worker_id :: "nat \<Rightarrow> string" where "worker_id i = ''wrk_'' @ pad3 i"

record 'w WorkerPool =
  wp_workers :: "'w worker list"
  wp_supervisor :: WorkerSupervisor

text \<open>The workers share the queue, the results and the executor; the clock reading is that of the registrations.\<close>

definition NewWorkerPool ::
  "int \<Rightarrow> nat \<Rightarrow> PolicyEngine \<Rightarrow> (string \<Rightarrow> (string, any) gomap \<Rightarrow> 'w \<Rightarrow> ExecResult \<times> 'w) \<Rightarrow> (LogEntry \<Rightarrow> 'w \<Rightarrow> string option \<times> 'w) option \<Rightarrow>
   (string \<Rightarrow> string + ToolDef) option \<Rightarrow> ('w \<Rightarrow> int \<times> 'w) \<Rightarrow> 'w WorkerPool" where
  "NewWorkerPool now n policy exec logger registry clock =
     \<lparr>wp_workers = map (\<lambda>i. \<lparr>wk_ID = worker_id i, wk_policy = policy, wk_registry = registry, wk_exec = exec, wk_logger = logger,
                            wk_now = clock\<rparr>) [0..<n],
      wp_supervisor = fold (\<lambda>i. ws_Register now (worker_id i)) [0..<n] NewWorkerSupervisor\<rparr>"

definition WorkerCount :: "'w WorkerPool \<Rightarrow> nat" where "WorkerCount wp = length (wp_workers wp)"

text \<open>What \<open>Run\<close> does to the health of a worker: heartbeats, and after each request the mark of a panic and the count.\<close>

datatype health_event = Heartbeat int | RequestDone | RequestPanicked int

definition health_step :: "string \<times> health_event \<Rightarrow> WorkerSupervisor \<Rightarrow> WorkerSupervisor" where
  "health_step = (\<lambda>(i, ev) ws. ws_upd i (case ev of
     Heartbeat now \<Rightarrow> MarkAlive now | RequestDone \<Rightarrow> IncrementRequests | RequestPanicked now \<Rightarrow> MarkDegraded now) ws)"

text \<open>The state of a worker is set by nothing that a worker runs: it stays at its first value.\<close>

definition all_init :: "WorkerSupervisor \<Rightarrow> bool" where
  "all_init ws \<longleftrightarrow> gm_wf (ws_health ws) \<and> (\<forall>i wh. gm_get (ws_health ws) i = Some wh \<longrightarrow> wh_State wh = WorkerInit)"

lemma all_init_health: "all_init ws \<Longrightarrow> (i, wh) \<in> set (ws_health ws) \<Longrightarrow> wh_State wh = WorkerInit"
  using gm_wf_mem_get [of "ws_health ws" i wh] by (simp add: all_init_def)

lemma all_init_register: "all_init ws \<Longrightarrow> all_init (ws_Register now i ws)"
  by (auto simp: all_init_def ws_Register_def new_health_def)

lemma all_init_step: "all_init ws \<Longrightarrow> all_init (health_step ev ws)"
  by (auto simp: all_init_def health_step_def ws_upd_def MarkAlive_def IncrementRequests_def MarkDegraded_def
      split: option.splits health_event.splits prod.splits)

lemma all_init_pool: "all_init (wp_supervisor (NewWorkerPool now n policy exec logger registry clock))"
proof -
  have "all_init (fold (\<lambda>i. ws_Register now (worker_id i)) is ws)" if "all_init ws" for "is" ws
    using that by (induction "is" arbitrary: ws) (simp_all add: all_init_register)
  moreover have "all_init NewWorkerSupervisor" by (simp add: all_init_def NewWorkerSupervisor_def gm_wf_def gm_keys_def)
  ultimately show ?thesis by (simp add: NewWorkerPool_def)
qed

lemma all_init_steps: "all_init ws \<Longrightarrow> all_init (fold health_step evs ws)"
  by (induction evs arbitrary: ws) (simp_all add: all_init_step)

lemma summarize_init: "wh_State wh = WorkerInit \<Longrightarrow> fs_alive_workers (summarize wh r) = fs_alive_workers r"
  by (simp add: summarize_def Let_def)

lemma summary_init: "\<forall>(i, wh) \<in> set hs. wh_State wh = WorkerInit \<Longrightarrow> fs_alive_workers (fold (\<lambda>(_, wh). summarize wh) hs r) = fs_alive_workers r"
  by (induction hs arbitrary: r) (auto simp: summarize_init)

text \<open>
  Whatever the workers of a new pool do, the supervisor reports a utilization of 0 and no worker alive: no code makes a
  transition of a worker's state, which the load shedder and the metrics read.
\<close>
theorem pool_never_utilized:
  "Utilization (fold health_step evs (wp_supervisor (NewWorkerPool now n policy exec logger registry clock))) = 0 \<and>
   fs_alive_workers (FailureSummary (fold health_step evs (wp_supervisor (NewWorkerPool now n policy exec logger registry clock)))) = 0"
proof -
  let ?ws = "fold health_step evs (wp_supervisor (NewWorkerPool now n policy exec logger registry clock))"
  have i: "\<forall>(i, wh) \<in> set (ws_health ?ws). wh_State wh = WorkerInit"
    using all_init_health [OF all_init_steps [OF all_init_pool]] by blast
  then have "filter (\<lambda>(_, wh). wh_State wh = WorkerRunning \<or> wh_State wh = WorkerExecuting) (ws_health ?ws) = []"
    by (auto simp: filter_empty_conv)
  then show ?thesis using summary_init [OF i] by (simp add: Utilization_def FailureSummary_def)
qed

text \<open>A worker is restarted at most three times, whatever else happens to its health.\<close>

datatype super_op = DoRestart string | DoTransition string int WorkerState | DoFail string int | DoHealth string health_event

definition super_step :: "super_op \<Rightarrow> WorkerSupervisor \<Rightarrow> WorkerSupervisor" where
  "super_step op ws = (case op of
     DoRestart i \<Rightarrow> snd (Restart i ws)
   | DoTransition i now to \<Rightarrow> ws_upd i (\<lambda>wh. snd (wh_Transition now to wh)) ws
   | DoFail i now \<Rightarrow> ws_upd i (MarkFailed now) ws
   | DoHealth i ev \<Rightarrow> health_step (i, ev) ws)"

definition restarts_within :: "WorkerSupervisor \<Rightarrow> bool" where
  "restarts_within ws \<longleftrightarrow> (\<forall>i wh. gm_get (ws_health ws) i = Some wh \<longrightarrow> wh_Restarts wh \<le> ws_maxRestarts ws)"

lemma restarts_step: "restarts_within ws \<Longrightarrow> restarts_within (super_step op ws) \<and> ws_maxRestarts (super_step op ws) = ws_maxRestarts ws"
  by (auto simp: restarts_within_def super_step_def Restart_def ws_upd_def health_step_def wh_Transition_def MarkFailed_def
      MarkAlive_def IncrementRequests_def MarkDegraded_def split: super_op.splits option.splits health_event.splits if_splits)

subsection \<open>Witnesses\<close>

definition echo_env :: "unit exec_env" where "echo_env = \<lparr>ee_now = (\<lambda>w. (7, w)), ee_late = (\<lambda>_ w. (False, w))\<rparr>"

definition echo_tool :: ToolDef where
  "echo_tool = \<lparr>td_ID = ''echo'', td_Name = ''Echo'', td_Type = ''built-in'', td_Version = ''1.0'', td_Description = [],
     td_Capabilities = [''echo''], td_Governance = \<lparr>tg_RequireSession = False, tg_AuditLevel = [], tg_TimeoutMs = 0\<rparr>, td_Protocol = []\<rparr>"

definition echo_registry :: "string \<Rightarrow> string + ToolDef" where
  "echo_registry i = (if i = ''echo'' then Inr echo_tool else Inl (''tool not found: '' @ i))"

definition echo_worker :: "unit worker" where
  "echo_worker = \<lparr>wk_ID = ''wrk_000'', wk_policy = NewPolicyEngine (DefaultRules (Some ''/srv'')) ''0.5.0'',
     wk_registry = Some echo_registry, wk_exec = ExecuteIsolated echo_env echo_registry (30 * second), wk_logger = None,
     wk_now = (\<lambda>w. (7, w))\<rparr>"

definition echo_request :: "string \<Rightarrow> RequestContext" where
  "echo_request path = NewRequestContext 1 ''r'' ''s'' ''p'' ''echo'' [(''path'', AnyString path)] ''strict''"

lemma echo_admitted: "admitted (Some ''/srv'') echo_worker (echo_request ''../tmp/x'')"
  by (simp add: admitted_def fields_missing_def echo_request_def find_tool_def echo_worker_def echo_registry_def path_refused_def
        gm_get_def any_string_def path_denied_def path_abs_resolved [of "''/srv''"] denied_prefixes_def resolved_def walk_step_def)

lemma refused_request_not_executed_witness:
  "rc_Status (fst (snd (processOne echo_worker (echo_request ''../etc/passwd'') ()))) = CtxDenied"
proof -
  have "\<not> admitted (Some ''/srv'') echo_worker (echo_request ''../etc/passwd'')"
    by (simp add: admitted_def echo_request_def path_refused_def gm_get_def any_string_def path_denied_def
          path_abs_resolved [of "''/srv''"] denied_prefixes_def resolved_def walk_step_def)
  moreover have "default_worker (Some ''/srv'') echo_worker" by (simp add: default_worker_def echo_worker_def)
  ultimately show ?thesis using refused_request_not_executed [of "Some ''/srv''" echo_worker "echo_request ''../etc/passwd''"] by simp
qed

lemma admitted_request_outcome_witness:
  "\<exists>r w'. processOne echo_worker (echo_request ''../tmp/x'') () = (False, r, w') \<and> rc_Status r = CtxSuccess \<and>
     rc_Result r = AnyMap [(''path'', AnyString ''../tmp/x'')]"
proof -
  have "default_worker (Some ''/srv'') echo_worker" "quiet_logger echo_worker"
    by (simp_all add: default_worker_def quiet_logger_def echo_worker_def)
  from admitted_request_outcome [OF this(1) echo_admitted this(2)]
  obtain r w' w1 where "processOne echo_worker (echo_request ''../tmp/x'') () = (False, r, w')"
    "outcome_of (fst (wk_exec echo_worker ''echo'' [(''path'', AnyString ''../tmp/x'')] w1)) r"
    by (auto simp: echo_request_def)
  moreover have "fst (wk_exec echo_worker ''echo'' [(''path'', AnyString ''../tmp/x'')] w1) =
      \<lparr>xr_Status = ''success'', xr_Result = AnyMap [(''path'', AnyString ''../tmp/x'')], xr_Error = [], xr_ErrorCode = [],
       xr_ErrorTrace = [], xr_DurationMs = micros_ms 0\<rparr>"
    by (simp add: echo_worker_def ExecuteIsolated_def ExecuteWithTimeout_def core_Execute_def echo_registry_def echo_tool_def
          dispatch_def ee_since_def echo_env_def Let_def)
  ultimately show ?thesis by (simp add: outcome_of_def)
qed

end
