(* ===== verification/Run_Kernel.thy ===== *)
theory Run_Kernel
  imports Run_Queue Run_Worker
begin

text \<open>
  The kernel of the MCP runtime: \<open>runtime/kernel\<close> with the metrics, the latency tracker and the tracer it owns
  (\<open>runtime/observability\<close>).

  The operations are functions; the goroutines are the rules of \<open>kernel_step\<close>: the callers of \<open>Ingest\<close>, the workers,
  the collector of results and the phases of \<open>GracefulShutdown\<close> take their steps in any order. \<open>Ingest\<close> and the collector
  hold no lock, so each of their accesses to what is shared is a step of its own and a position says how far they are; a
  worker works on its own context between taking a request and sending the result. A panic is \<open>None\<close> or a constructor of
  \<open>ingest_out\<close>. The goroutines that write files are in \<open>Run_Persist\<close>.
\<close>

subsection \<open>Load shedder\<close>

datatype LoadState = LoadNormal | LoadDegraded | LoadProtected | LoadEmergencyShed

fun load_text :: "LoadState \<Rightarrow> string" where
  "load_text LoadNormal = ''NORMAL''"
| "load_text LoadDegraded = ''DEGRADED''"
| "load_text LoadProtected = ''PROTECTED''"
| "load_text LoadEmergencyShed = ''EMERGENCY_SHED''"

record LoadShedder =
  ls_state :: LoadState
  ls_slaViolations :: int
  ls_threshold :: int

definition NewLoadShedder :: LoadShedder where
  "NewLoadShedder = \<lparr>ls_state = LoadNormal, ls_slaViolations = 0, ls_threshold = 5\<rparr>"

definition RecordSLAViolation :: "LoadShedder \<Rightarrow> LoadShedder" where
  "RecordSLAViolation ls =
     (let v = ls_slaViolations ls + 1; ls = ls\<lparr>ls_slaViolations := v\<rparr>
      in if v \<ge> 20 then ls\<lparr>ls_state := LoadEmergencyShed\<rparr>
         else if v \<ge> 10 then ls\<lparr>ls_state := LoadProtected\<rparr>
         else if v \<ge> ls_threshold ls then ls\<lparr>ls_state := LoadDegraded\<rparr> else ls)"

definition ShouldAccept :: "bool \<Rightarrow> LoadShedder \<Rightarrow> bool" where
  "ShouldAccept isCritical ls =
     (if ls_state ls = LoadNormal \<or> ls_state ls = LoadDegraded then True else isCritical)"

definition Saturation :: "int \<Rightarrow> int \<Rightarrow> rat" where
  "Saturation used mx = (if mx = 0 then 0 else of_int used / of_int mx)"

definition ls_Evaluate :: "int \<Rightarrow> int \<Rightarrow> rat \<Rightarrow> LoadShedder \<Rightarrow> LoadState \<times> LoadShedder" where
  "ls_Evaluate queueSize queueMax workerUtil ls =
     (let s = Saturation queueSize queueMax;
          ls = (if s > 9 / 10 \<or> workerUtil > 95 / 100 then ls\<lparr>ls_state := LoadEmergencyShed\<rparr>
                else if s > 7 / 10 \<or> workerUtil > 85 / 100 then ls\<lparr>ls_state := LoadProtected\<rparr>
                else if s > 5 / 10 \<or> workerUtil > 7 / 10 then ls\<lparr>ls_state := LoadDegraded\<rparr>
                else ls\<lparr>ls_state := LoadNormal\<rparr>)
      in (ls_state ls, ls))"

subsection \<open>Latency tracker\<close>

record LatencyTracker =
  lt_samples :: "rat list"
  lt_maxSamples :: int
  lt_count :: int
  lt_totalMs :: rat
  lt_maxMs :: rat

definition NewLatencyTracker :: "int \<Rightarrow> LatencyTracker" where
  "NewLatencyTracker maxSamples =
     \<lparr>lt_samples = [], lt_maxSamples = (if maxSamples \<le> 0 then 1000 else maxSamples), lt_count = 0, lt_totalMs = 0, lt_maxMs = 0\<rparr>"

definition lt_Record :: "rat \<Rightarrow> LatencyTracker \<Rightarrow> LatencyTracker" where
  "lt_Record ms lt = lt
     \<lparr>lt_count := lt_count lt + 1, lt_totalMs := lt_totalMs lt + ms,
      lt_maxMs := (if ms > lt_maxMs lt then ms else lt_maxMs lt),
      lt_samples := (if int (length (lt_samples lt)) \<ge> lt_maxSamples lt then tl (lt_samples lt) else lt_samples lt) @ [ms]\<rparr>"

record LatencySLA =
  sla_P50 :: rat
  sla_P95 :: rat
  sla_P99 :: rat
  sla_Max :: rat
  sla_Avg :: rat
  sla_Count :: int
  sla_Violation :: bool

text \<open>\<open>math.Round(x * 100) / 100\<close>: halves are rounded away from zero.\<close>

definition round2 :: "rat \<Rightarrow> rat" where
  "round2 x = (if x < 0 then - of_int \<lfloor>- x * 100 + 1 / 2\<rfloor> else of_int \<lfloor>x * 100 + 1 / 2\<rfloor>) / 100"

definition percentile :: "rat list \<Rightarrow> rat \<Rightarrow> rat" where
  "percentile xs p =
     (if xs = [] then 0
      else
        let idx = \<lceil>of_nat (length xs) * p / 100\<rceil> - 1;
            idx = (if idx < 0 then 0 else idx);
            idx = (if idx \<ge> int (length xs) then int (length xs) - 1 else idx)
        in round2 (xs ! nat idx))"

definition lt_Snapshot :: "LatencyTracker \<Rightarrow> LatencySLA" where
  "lt_Snapshot lt =
     (if lt_count lt = 0 then
        \<lparr>sla_P50 = 0, sla_P95 = 0, sla_P99 = 0, sla_Max = 0, sla_Avg = 0, sla_Count = 0, sla_Violation = False\<rparr>
      else
        let xs = sort (lt_samples lt); p95 = percentile xs 95; p99 = percentile xs 99
        in \<lparr>sla_P50 = percentile xs 50, sla_P95 = p95, sla_P99 = p99, sla_Max = lt_maxMs lt,
            sla_Avg = round2 (lt_totalMs lt / of_int (lt_count lt)), sla_Count = lt_count lt,
            sla_Violation = (p95 > 50 \<or> p99 > 120)\<rparr>)"

subsection \<open>Metrics and tracer\<close>

record KernelMetrics =
  km_Ingressed :: int
  km_Enqueued :: int
  km_Rejected :: int
  km_Completed :: int
  km_Denied :: int
  km_Failed :: int
  km_Cycles :: int
  km_QueueDepth :: int
  km_QueueMax :: int
  km_StartTime :: int

definition NewKernelMetrics :: "int \<Rightarrow> KernelMetrics" where
  "NewKernelMetrics now = \<lparr>km_Ingressed = 0, km_Enqueued = 0, km_Rejected = 0, km_Completed = 0, km_Denied = 0, km_Failed = 0,
     km_Cycles = 0, km_QueueDepth = 0, km_QueueMax = 0, km_StartTime = now\<rparr>"

definition ThroughputRPS :: "int \<Rightarrow> KernelMetrics \<Rightarrow> rat" where
  "ThroughputRPS now m =
     (let elapsed = of_int (now - km_StartTime m) / of_int second in if elapsed = 0 then 0 else of_int (km_Cycles m) / elapsed)"

definition PolicyDenialRate :: "KernelMetrics \<Rightarrow> rat" where
  "PolicyDenialRate m =
     (let total = of_int (km_Completed m + km_Denied m) in if total = 0 then 0 else of_int (km_Denied m) / total)"

definition km_Snapshot :: "int \<Rightarrow> KernelMetrics \<Rightarrow> (string \<times> any) list" where
  "km_Snapshot now m =
     (let n = (\<lambda>i. AnyNumber (of_int i))
      in [(''throughput_rps'', AnyNumber (ThroughputRPS now m)), (''queue_depth'', n (km_QueueDepth m)),
          (''queue_max'', n (km_QueueMax m)), (''policy_denial_rate'', AnyNumber (PolicyDenialRate m)),
          (''requests_ingressed'', n (km_Ingressed m)), (''requests_enqueued'', n (km_Enqueued m)),
          (''requests_rejected'', n (km_Rejected m)), (''requests_completed'', n (km_Completed m)),
          (''requests_denied'', n (km_Denied m)), (''requests_failed'', n (km_Failed m)),
          (''total_processed'', n (km_Completed m + km_Denied m)),
          (''uptime_seconds'', n ((now - km_StartTime m) div second)), (''cycles'', n (km_Cycles m))])"

type_synonym Tracer = "KernelEvent list"

definition NewTracer :: Tracer where "NewTracer = []"

definition tr_TraceEvent :: "int \<Rightarrow> KernelEvent \<Rightarrow> Tracer \<Rightarrow> Tracer" where
  "tr_TraceEvent now ev t = t @ [ev\<lparr>ke_Timestamp := now\<rparr>]"

definition TraceRequestIngress :: "int \<Rightarrow> string \<Rightarrow> Tracer \<Rightarrow> Tracer" where
  "TraceRequestIngress now i = tr_TraceEvent now (NewKernelEvent now EventRequestIngress i [] AnyNil)"

definition TraceQueueEnqueue :: "int \<Rightarrow> string \<Rightarrow> Tracer \<Rightarrow> Tracer" where
  "TraceQueueEnqueue now i = tr_TraceEvent now (NewKernelEvent now EventQueueEnqueue i [] AnyNil)"

definition TraceQueueReject :: "int \<Rightarrow> string \<Rightarrow> Tracer \<Rightarrow> Tracer" where
  "TraceQueueReject now i = tr_TraceEvent now
     (NewKernelEvent now EventQueueReject i [] (AnyMap [(''reason'', AnyString ''BACKPRESSURE_LIMIT'')]))"

definition TraceToolExecution :: "int \<Rightarrow> string \<Rightarrow> string \<Rightarrow> Tracer \<Rightarrow> Tracer" where
  "TraceToolExecution now i w = tr_TraceEvent now (NewKernelEvent now EventToolExecution i w AnyNil)"

definition TraceToolTimeout :: "int \<Rightarrow> string \<Rightarrow> string \<Rightarrow> Tracer \<Rightarrow> Tracer" where
  "TraceToolTimeout now i w = tr_TraceEvent now (NewKernelEvent now EventToolTimeout i w AnyNil)"

definition TraceWorkerPanic :: "int \<Rightarrow> string \<Rightarrow> string \<Rightarrow> any \<Rightarrow> Tracer \<Rightarrow> Tracer" where
  "TraceWorkerPanic now i w p = tr_TraceEvent now
     ((NewKernelEvent now EventWorkerPanic i w AnyNil)\<lparr>ke_Payload := AnyMap [(''panic'', p)]\<rparr>)"

subsection \<open>Registry and lifecycle\<close>

definition simple_tool :: "string \<Rightarrow> string \<Rightarrow> string \<Rightarrow> bool \<Rightarrow> int \<Rightarrow> ToolDef" where
  "simple_tool i name capability require timeoutMs =
     \<lparr>td_ID = i, td_Name = name, td_Type = ''built-in'', td_Version = ''1.0'', td_Description = [], td_Capabilities = [capability],
      td_Governance = \<lparr>tg_RequireSession = require, tg_AuditLevel = [], tg_TimeoutMs = timeoutMs\<rparr>, td_Protocol = []\<rparr>"

definition SimpleRegistry_GetTool :: "string \<Rightarrow> string + ToolDef" where
  "SimpleRegistry_GetTool toolID =
     (if toolID = ''echo'' then Inr (simple_tool ''echo'' ''Echo'' ''echo'' False 0)
      else if toolID = ''filesystem_read'' then Inr (simple_tool ''filesystem_read'' ''Filesystem Reader'' ''file-read'' True 5000)
      else Inl (''tool not found: '' @ toolID))"

record Lifecycle =
  lc_done :: bool
  lc_shutdown_closed :: bool

definition NewLifecycle :: Lifecycle where "NewLifecycle = \<lparr>lc_done = False, lc_shutdown_closed = False\<rparr>"

text \<open>Closing the channel a second time panics (\<open>None\<close>); a signal and the end of the input both get here.\<close>

definition lc_GracefulShutdown :: "Lifecycle \<Rightarrow> Lifecycle option" where
  "lc_GracefulShutdown lc =
     (if lc_shutdown_closed lc then None else Some \<lparr>lc_done = True, lc_shutdown_closed = True\<rparr>)"

definition IsShuttingDown :: "Lifecycle \<Rightarrow> bool" where "IsShuttingDown lc \<longleftrightarrow> lc_done lc"

lemma double_shutdown_panics: "lc_GracefulShutdown lc = Some lc' \<Longrightarrow> lc_GracefulShutdown lc' = None"
  by (auto simp: lc_GracefulShutdown_def split: if_splits)

subsection \<open>The kernel\<close>

text \<open>How far a call of \<open>GracefulShutdown\<close>, a call of \<open>Ingest\<close> and the collector are.\<close>

datatype shutdown_phase = Up | Stopping | Draining | Waiting | Closing | Down

datatype ingest_out = Accepted | IngestError string | IngestPanic

datatype ingest_call =
    CallCheck "string + RawRequest" | CallCount "string + RawRequest" | CallDecode "string + RawRequest"
  | CallDepth RequestContext | CallTrace RequestContext | CallEnqueue RequestContext | CallAccept RequestContext
  | CallReject RequestContext | CallUndepth RequestContext | CallTraceReject RequestContext
  | CallDone ingest_out "RequestContext option"

datatype collector =
    CollectReady | CollectDepth RequestContext | CollectLatency RequestContext | CollectSLA RequestContext
  | CollectCount RequestContext | CollectPrint RequestContext | CollectCycle RequestContext | CollectSend RequestContext
  | CollectEnded

text \<open>
  What the workers hold, whether a worker still runs, the channels of results and of contexts to be written with their
  capacity, the calls of \<open>Ingest\<close> so far, the collector, and the lines printed.
\<close>

record 'w KernelEngine =
  kn_queue :: RequestQueue
  kn_busy :: "RequestContext option list"
  kn_running :: "bool list"
  kn_pool :: "'w WorkerPool"
  kn_results :: "RequestContext list"
  kn_stateWrites :: "RequestContext list"
  kn_resultsClosed :: bool
  kn_writesClosed :: bool
  kn_capacity :: int
  kn_metrics :: KernelMetrics
  kn_latency :: LatencyTracker
  kn_shedder :: LoadShedder
  kn_tracer :: Tracer
  kn_lifecycle :: Lifecycle
  kn_ingestStopped :: bool
  kn_phase :: shutdown_phase
  kn_calls :: "ingest_call list"
  kn_collector :: collector
  kn_printed :: "RequestContext list"

record KernelConfig =
  kc_WorkspaceRoot :: string
  kc_WorkerCount :: int
  kc_QueueSize :: int
  kc_LogPath :: string
  kc_StatePath :: string
  kc_RegistryPath :: string
  kc_PolicyPath :: string

definition kc_DefaultConfig :: KernelConfig where
  "kc_DefaultConfig = \<lparr>kc_WorkspaceRoot = [], kc_WorkerCount = 4, kc_QueueSize = 128, kc_LogPath = ''.ai/governance/audit/gateway.log'',
     kc_StatePath = ''.ai/state'', kc_RegistryPath = ''runtime/tools/definitions.yaml'',
     kc_PolicyPath = ''runtime/governance/policies/runtime.yaml''\<rparr>"

record HardeningConfig =
  hc_HeartbeatInterval :: int
  hc_SnapshotInterval :: int
  hc_MaxRestartCount :: int
  hc_FairQueueEnabled :: bool
  hc_CompactionMaxAge :: int

definition DefaultHardeningConfig :: HardeningConfig where
  "DefaultHardeningConfig = \<lparr>hc_HeartbeatInterval = 5 * second, hc_SnapshotInterval = 60 * second, hc_MaxRestartCount = 3,
     hc_FairQueueEnabled = False, hc_CompactionMaxAge = 24 * hour\<rparr>"

text \<open>The default rules, the built-in tools and the executor; the working directory, the logger and the clocks are given.\<close>

definition NewKernelEngine ::
  "KernelConfig \<Rightarrow> string option \<Rightarrow> (LogEntry \<Rightarrow> 'w \<Rightarrow> string option \<times> 'w) option \<Rightarrow> 'w exec_env \<Rightarrow> int \<Rightarrow> 'w KernelEngine" where
  "NewKernelEngine cfg cwd logger env now =
     (let n = (if kc_WorkerCount cfg \<le> 0 then 4 else kc_WorkerCount cfg);
          size = (if kc_QueueSize cfg \<le> 0 then 128 else kc_QueueSize cfg);
          exec = ExecuteIsolated env SimpleRegistry_GetTool (NewTimeoutWrapper (30 * second));
          pool = NewWorkerPool now (nat n) (NewPolicyEngine (DefaultRules cwd) ''0.5.0'') exec logger (Some SimpleRegistry_GetTool) (ee_now env)
      in \<lparr>kn_queue = NewRequestQueue size, kn_busy = replicate (nat n) None, kn_running = replicate (nat n) True, kn_pool = pool,
          kn_results = [], kn_stateWrites = [], kn_resultsClosed = False, kn_writesClosed = False, kn_capacity = size, kn_metrics = NewKernelMetrics now,
          kn_latency = NewLatencyTracker 2000, kn_shedder = NewLoadShedder, kn_tracer = NewTracer, kn_lifecycle = NewLifecycle,
          kn_ingestStopped = False, kn_phase = Up, kn_calls = [],
          kn_collector = CollectReady, kn_printed = []\<rparr>)"

subsection \<open>Ingest\<close>

abbreviation km_upd :: "(KernelMetrics \<Rightarrow> KernelMetrics) \<Rightarrow> 'w KernelEngine \<Rightarrow> 'w KernelEngine" where
  "km_upd f ke \<equiv> ke\<lparr>kn_metrics := f (kn_metrics ke)\<rparr>"

definition ingest_context :: "int \<Rightarrow> RawRequest \<Rightarrow> RequestContext" where
  "ingest_context now req =
     (NewRequestContext now (if raw_ID req = [] then ''auto_'' @ int_digits (now - unix_epoch) else raw_ID req)
        (sd_SessionID (raw_Session req)) (sd_ProjectID (raw_Session req)) (rp_Tool (raw_Params req)) (rp_Arguments (raw_Params req))
        (if raw_PipelineMode req = ''optimized'' then OptimizedMode else StrictMode))\<lparr>rc_TimestampStart := now\<rparr>"

text \<open>A call on its own. The decoder gives an error or the request; one clock reading serves the whole call.\<close>

definition Ingest :: "int \<Rightarrow> string + RawRequest \<Rightarrow> 'w KernelEngine \<Rightarrow> ingest_out \<times> 'w KernelEngine" where
  "Ingest now parsed ke =
     (if kn_ingestStopped ke then (IngestError ''INGEST_STOPPED: shutdown in progress'', ke)
      else
        let ke = km_upd (\<lambda>m. m\<lparr>km_Ingressed := km_Ingressed m + 1\<rparr>) ke
        in case parsed of
             Inl err \<Rightarrow> (IngestError (''PARSE_ERROR: '' @ err), ke)
           | Inr req \<Rightarrow>
               (let rc = ingest_context now req;
                    ke = km_upd (\<lambda>m. m\<lparr>km_QueueDepth := km_QueueDepth m + 1\<rparr>) ke;
                    ke = ke\<lparr>kn_tracer := TraceQueueEnqueue now (rc_RequestID rc) (kn_tracer ke)\<rparr>
                in case rq_Enqueue rc (kn_queue ke) of
                     (Some SendOnClosed, _) \<Rightarrow> (IngestPanic, ke)
                   | (Some ErrQueueFull, q) \<Rightarrow>
                       (IngestError ''QUEUE_FULL: backpressure limit reached'',
                        (km_upd (\<lambda>m. m\<lparr>km_Rejected := km_Rejected m + 1, km_QueueDepth := km_QueueDepth m - 1\<rparr>) ke)
                          \<lparr>kn_queue := q, kn_tracer := TraceQueueReject now (rc_RequestID rc) (kn_tracer ke)\<rparr>)
                   | (None, q) \<Rightarrow> (Accepted, (km_upd (\<lambda>m. m\<lparr>km_Enqueued := km_Enqueued m + 1\<rparr>) ke)\<lparr>kn_queue := q\<rparr>)))"

text \<open>The same call access by access.\<close>

fun ingest_act :: "int \<Rightarrow> ingest_call \<Rightarrow> 'w KernelEngine \<Rightarrow> ingest_call \<times> 'w KernelEngine" where
  "ingest_act now (CallCheck parsed) ke =
     (if kn_ingestStopped ke then (CallDone (IngestError ''INGEST_STOPPED: shutdown in progress'') None, ke) else (CallCount parsed, ke))"
| "ingest_act now (CallCount parsed) ke = (CallDecode parsed, km_upd (\<lambda>m. m\<lparr>km_Ingressed := km_Ingressed m + 1\<rparr>) ke)"
| "ingest_act now (CallDecode (Inl err)) ke = (CallDone (IngestError (''PARSE_ERROR: '' @ err)) None, ke)"
| "ingest_act now (CallDecode (Inr req)) ke = (CallDepth (ingest_context now req), ke)"
| "ingest_act now (CallDepth rc) ke = (CallTrace rc, km_upd (\<lambda>m. m\<lparr>km_QueueDepth := km_QueueDepth m + 1\<rparr>) ke)"
| "ingest_act now (CallTrace rc) ke = (CallEnqueue rc, ke\<lparr>kn_tracer := TraceQueueEnqueue now (rc_RequestID rc) (kn_tracer ke)\<rparr>)"
| "ingest_act now (CallEnqueue rc) ke =
     (case rq_Enqueue rc (kn_queue ke) of
        (Some SendOnClosed, _) \<Rightarrow> (CallDone IngestPanic (Some rc), ke)
      | (Some ErrQueueFull, q) \<Rightarrow> (CallReject rc, ke\<lparr>kn_queue := q\<rparr>)
      | (None, q) \<Rightarrow> (CallAccept rc, ke\<lparr>kn_queue := q\<rparr>))"
| "ingest_act now (CallAccept rc) ke = (CallDone Accepted (Some rc), km_upd (\<lambda>m. m\<lparr>km_Enqueued := km_Enqueued m + 1\<rparr>) ke)"
| "ingest_act now (CallReject rc) ke = (CallUndepth rc, km_upd (\<lambda>m. m\<lparr>km_Rejected := km_Rejected m + 1\<rparr>) ke)"
| "ingest_act now (CallUndepth rc) ke = (CallTraceReject rc, km_upd (\<lambda>m. m\<lparr>km_QueueDepth := km_QueueDepth m - 1\<rparr>) ke)"
| "ingest_act now (CallTraceReject rc) ke =
     (CallDone (IngestError ''QUEUE_FULL: backpressure limit reached'') (Some rc),
      ke\<lparr>kn_tracer := TraceQueueReject now (rc_RequestID rc) (kn_tracer ke)\<rparr>)"
| "ingest_act now (CallDone out ctx) ke = (CallDone out ctx, ke)"

subsection \<open>The collector\<close>

definition count_status :: "ContextStatus \<Rightarrow> KernelMetrics \<Rightarrow> KernelMetrics" where
  "count_status st m = (case st of
     CtxSuccess \<Rightarrow> m\<lparr>km_Completed := km_Completed m + 1\<rparr> | CtxDenied \<Rightarrow> m\<lparr>km_Denied := km_Denied m + 1\<rparr>
   | CtxError \<Rightarrow> m\<lparr>km_Failed := km_Failed m + 1\<rparr> | CtxPending \<Rightarrow> m)"

text \<open>
  The accesses of one round of \<open>collectResults\<close>, from the result received to the offer of the context to the writer. A send
  on the closed channel of contexts to be written panics; the panic is recovered and ends the collector.
\<close>

definition collect_act :: "'w KernelEngine \<Rightarrow> 'w KernelEngine" where
  "collect_act ke = (case kn_collector ke of
     CollectDepth rc \<Rightarrow> (km_upd (\<lambda>m. m\<lparr>km_QueueDepth := km_QueueDepth m - 1\<rparr>) ke)\<lparr>kn_collector := CollectLatency rc\<rparr>
   | CollectLatency rc \<Rightarrow> ke\<lparr>kn_latency := lt_Record (sum_list (map snd (rc_StageTimings rc))) (kn_latency ke), kn_collector := CollectSLA rc\<rparr>
   | CollectSLA rc \<Rightarrow>
       ke\<lparr>kn_shedder := (if sla_Violation (lt_Snapshot (kn_latency ke)) then RecordSLAViolation (kn_shedder ke) else kn_shedder ke),
          kn_collector := CollectCount rc\<rparr>
   | CollectCount rc \<Rightarrow> (km_upd (count_status (rc_Status rc)) ke)\<lparr>kn_collector := CollectPrint rc\<rparr>
   | CollectPrint rc \<Rightarrow> ke\<lparr>kn_printed := kn_printed ke @ [rc], kn_collector := CollectCycle rc\<rparr>
   | CollectCycle rc \<Rightarrow> (km_upd (\<lambda>m. m\<lparr>km_Cycles := km_Cycles m + 1\<rparr>) ke)\<lparr>kn_collector := CollectSend rc\<rparr>
   | CollectSend rc \<Rightarrow>
       (if kn_writesClosed ke then ke\<lparr>kn_collector := CollectEnded\<rparr>
        else if int (length (kn_stateWrites ke)) < kn_capacity ke
        then ke\<lparr>kn_stateWrites := kn_stateWrites ke @ [rc], kn_collector := CollectReady\<rparr>
        else ke\<lparr>kn_collector := CollectReady\<rparr>)
   | _ \<Rightarrow> ke)"

subsection \<open>The goroutines\<close>

text \<open>The health events of a worker after one request.\<close>

definition after_request :: "nat \<Rightarrow> bool \<Rightarrow> int \<Rightarrow> 'w WorkerPool \<Rightarrow> 'w WorkerPool" where
  "after_request i degraded now wp =
     wp\<lparr>wp_supervisor := fold health_step
       ((if degraded then [(worker_id i, RequestPanicked now)] else []) @ [(worker_id i, RequestDone)]) (wp_supervisor wp)\<rparr>"

text \<open>
  The steps. A worker takes a request, finishes it (the send waits for room), or returns, which it may do whenever the
  context is cancelled, also while requests wait. The drain of \<open>GracefulShutdown\<close> may end at its deadline with requests
  left. \<open>signal\<close> is the goroutine of \<open>WaitForSignal\<close>. Where \<open>lc_GracefulShutdown\<close> panics, there is no further step of the
  goroutine that called it.
\<close>

inductive kernel_step :: "'w KernelEngine \<times> 'w \<Rightarrow> 'w KernelEngine \<times> 'w \<Rightarrow> bool" where
  call: "kernel_step (ke, w) (ke\<lparr>kn_calls := kn_calls ke @ [CallCheck parsed]\<rparr>, w)"
| ingest: "c < length (kn_calls ke) \<Longrightarrow> ingest_act now (kn_calls ke ! c) ke = (p, ke') \<Longrightarrow>
    kernel_step (ke, w) (ke'\<lparr>kn_calls := (kn_calls ke)[c := p]\<rparr>, w)"
| take_request: "i < length (kn_busy ke) \<Longrightarrow> kn_running ke ! i \<Longrightarrow> kn_busy ke ! i = None \<Longrightarrow> rq_Chan (kn_queue ke) = Some (rc, q) \<Longrightarrow>
    kernel_step (ke, w) (ke\<lparr>kn_queue := q, kn_busy := (kn_busy ke)[i := Some rc]\<rparr>, w)"
| finish: "i < length (kn_busy ke) \<Longrightarrow> kn_busy ke ! i = Some rc \<Longrightarrow> processOne (wp_workers (kn_pool ke) ! i) rc w = (degraded, rc', w') \<Longrightarrow>
    int (length (kn_results ke)) < kn_capacity ke \<Longrightarrow>
    kernel_step (ke, w) (ke\<lparr>kn_busy := (kn_busy ke)[i := None], kn_results := kn_results ke @ [rc'],
      kn_pool := after_request i degraded now (kn_pool ke)\<rparr>, w')"
| return: "i < length (kn_busy ke) \<Longrightarrow> kn_running ke ! i \<Longrightarrow> kn_busy ke ! i = None \<Longrightarrow>
    lc_done (kn_lifecycle ke) \<or> rq_closed (kn_queue ke) \<and> rq_ch (kn_queue ke) = [] \<Longrightarrow>
    kernel_step (ke, w) (ke\<lparr>kn_running := (kn_running ke)[i := False]\<rparr>, w)"
| receive: "kn_collector ke = CollectReady \<Longrightarrow> kn_results ke = rc # rs \<Longrightarrow>
    kernel_step (ke, w) (ke\<lparr>kn_results := rs, kn_collector := CollectDepth rc\<rparr>, w)"
| collect: "kernel_step (ke, w) (collect_act ke, w)"
| collected: "kn_collector ke = CollectReady \<Longrightarrow> kn_results ke = [] \<Longrightarrow> kn_resultsClosed ke \<Longrightarrow>
    kernel_step (ke, w) (ke\<lparr>kn_collector := CollectEnded\<rparr>, w)"
| write_state: "kn_stateWrites ke = rc # rs \<Longrightarrow> kernel_step (ke, w) (ke\<lparr>kn_stateWrites := rs\<rparr>, w)"
| signal: "lc_GracefulShutdown (kn_lifecycle ke) = Some lc \<Longrightarrow> kernel_step (ke, w) (ke\<lparr>kn_lifecycle := lc\<rparr>, w)"
| stop_ingestion: "kn_phase ke = Up \<Longrightarrow> kernel_step (ke, w) (ke\<lparr>kn_ingestStopped := True, kn_phase := Stopping\<rparr>, w)"
| cancel_context: "kn_phase ke = Stopping \<Longrightarrow> lc_GracefulShutdown (kn_lifecycle ke) = Some lc \<Longrightarrow>
    kernel_step (ke, w) (ke\<lparr>kn_lifecycle := lc, kn_phase := Draining\<rparr>, w)"
| close_queue: "kn_phase ke = Draining \<Longrightarrow> rq_Close (kn_queue ke) = Some q \<Longrightarrow>
    kernel_step (ke, w) (ke\<lparr>kn_queue := q, kn_phase := Waiting\<rparr>, w)"
| close_results: "kn_phase ke = Waiting \<Longrightarrow> True \<notin> set (kn_running ke) \<Longrightarrow>
    kernel_step (ke, w) (ke\<lparr>kn_resultsClosed := True, kn_phase := Closing\<rparr>, w)"
| close_writes: "kn_phase ke = Closing \<Longrightarrow> kernel_step (ke, w) (ke\<lparr>kn_writesClosed := True, kn_phase := Down\<rparr>, w)"

inductive_cases kernel_stepE: "kernel_step s t"

text \<open>A call that nobody interrupts does what \<open>Ingest\<close> does.\<close>

abbreviation call_run :: "int \<Rightarrow> nat \<Rightarrow> ingest_call \<times> 'w KernelEngine \<Rightarrow> ingest_call \<times> 'w KernelEngine" where
  "call_run now n \<equiv> (\<lambda>(p, ke). ingest_act now p ke) ^^ n"

lemma Ingest_acts:
  "\<exists>ctx. call_run now 9 (CallCheck parsed, ke) = (CallDone (fst (Ingest now parsed ke)) ctx, snd (Ingest now parsed ke))"
  by (auto simp: Ingest_def numeral_nat funpow_swap1 Let_def split: sum.split option.split rq_error.split prod.split)

lemma ingest_act_calls: "ingest_act now p (ke\<lparr>kn_calls := cs\<rparr>) = (fst (ingest_act now p ke), (snd (ingest_act now p ke))\<lparr>kn_calls := cs\<rparr>)"
  by (induction now p ke rule: ingest_act.induct) (auto split: option.split rq_error.split prod.split)

text \<open>The steps that leave the contexts to be written alone.\<close>

abbreviation quiet_step :: "'w KernelEngine \<times> 'w \<Rightarrow> 'w KernelEngine \<times> 'w \<Rightarrow> bool" where
  "quiet_step s t \<equiv> kernel_step s t \<and> kn_stateWrites (fst t) = kn_stateWrites (fst s)"

lemma ingest_act_writes [simp]: "kn_stateWrites (snd (ingest_act now p ke)) = kn_stateWrites ke"
  by (induction now p ke rule: ingest_act.induct) (auto split: option.split rq_error.split prod.split)

lemma call_run_quiet:
  "quiet_step\<^sup>*\<^sup>* (ke\<lparr>kn_calls := cs @ [p]\<rparr>, w)
    ((snd (call_run now n (p, ke)))\<lparr>kn_calls := cs @ [fst (call_run now n (p, ke))]\<rparr>, w)"
proof (induction n)
  case (Suc n)
  obtain q ke1 where q: "call_run now n (p, ke) = (q, ke1)" by fastforce
  have "quiet_step (ke1\<lparr>kn_calls := cs @ [q]\<rparr>, w) ((snd (ingest_act now q ke1))\<lparr>kn_calls := cs @ [fst (ingest_act now q ke1)]\<rparr>, w)"
    using kernel_step.ingest [where c = "length cs" and ke = "ke1\<lparr>kn_calls := cs @ [q]\<rparr>" and now = now and w = w]
    by (simp add: ingest_act_calls)
  moreover have "quiet_step\<^sup>*\<^sup>* (ke\<lparr>kn_calls := cs @ [p]\<rparr>, w) (ke1\<lparr>kn_calls := cs @ [q]\<rparr>, w)" using Suc q by simp
  ultimately show ?case using q by (auto intro: rtranclp.rtrancl_into_rtrancl)
qed simp

lemma call_run_steps:
  "kernel_step\<^sup>*\<^sup>* (ke\<lparr>kn_calls := cs @ [p]\<rparr>, w)
    ((snd (call_run now n (p, ke)))\<lparr>kn_calls := cs @ [fst (call_run now n (p, ke))]\<rparr>, w)"
  using call_run_quiet by (rule rtranclp_mono [THEN predicate2D, rotated]) auto

lemma Ingest_steps:
  "\<exists>ctx. kernel_step\<^sup>*\<^sup>* (ke, w)
    ((snd (Ingest now parsed ke))\<lparr>kn_calls := kn_calls ke @ [CallDone (fst (Ingest now parsed ke)) ctx]\<rparr>, w)"
proof -
  obtain ctx where r: "call_run now 9 (CallCheck parsed, ke) = (CallDone (fst (Ingest now parsed ke)) ctx, snd (Ingest now parsed ke))"
    using Ingest_acts by blast
  have "kernel_step (ke, w) (ke\<lparr>kn_calls := kn_calls ke @ [CallCheck parsed]\<rparr>, w)" by (rule kernel_step.call)
  moreover have "kernel_step\<^sup>*\<^sup>* (ke\<lparr>kn_calls := kn_calls ke @ [CallCheck parsed]\<rparr>, w)
      ((snd (Ingest now parsed ke))\<lparr>kn_calls := kn_calls ke @ [CallDone (fst (Ingest now parsed ke)) ctx]\<rparr>, w)"
    using call_run_steps [where ke = ke and cs = "kn_calls ke" and p = "CallCheck parsed" and w = w and now = now and n = 9] r by simp
  ultimately show ?thesis by (auto intro: converse_rtranclp_into_rtranclp)
qed

text \<open>A request keeps its identifier on its way through a worker.\<close>

lemma EvaluateStage_request: "EvaluateStage pe stage td rc = (v, rc') \<Longrightarrow> rc_RequestID rc' = rc_RequestID rc"
  using EvaluateStage_context [of pe stage td rc] by auto

lemma policy_stage_request: "policy_stage wk stage td rc = (d, rc') \<Longrightarrow> rc_RequestID rc' = rc_RequestID rc"
  by (auto simp: policy_stage_def dest!: EvaluateStage_request split: prod.splits)

lemma stage_request:
  assumes "(n, h) \<in> set (worker_stages wk)" "h td rc w = (x, rc', w')"
  shows "rc_RequestID rc' = rc_RequestID rc"
proof -
  have "h \<in> {stagePreValidation wk, stageSessionGuard wk, stageCapabilityRouting wk, stagePreExecution wk, stageExecution wk,
      stagePostValidation wk, stageAuditLog wk}"
    using assms(1) by (auto simp: worker_stages_def)
  then show ?thesis using assms(2)
    by (auto simp: stagePreValidation_def stageSessionGuard_def stageCapabilityRouting_def stagePreExecution_def stageExecution_def
        stagePostValidation_def stageAuditLog_def dest: policy_stage_request EvaluateStage_request split: prod.splits if_splits option.splits)
qed

lemma run_stage_list_request:
  "run_stage_list wk td stages rc w = (p, r, w') \<Longrightarrow> set stages \<subseteq> set (worker_stages wk) \<Longrightarrow> rc_RequestID r = rc_RequestID rc"
proof (induction stages arbitrary: rc w)
  case (Cons s stages)
  obtain n h where s: "s = (n, h)" by (cases s)
  obtain t0 w0 where t: "wk_now wk w = (t0, w0)" by fastforce
  obtain x rc1 w1 where h: "h td rc w0 = (x, rc1, w1)" by (metis prod_cases3)
  have id: "rc_RequestID rc1 = rc_RequestID rc" using stage_request [of n h wk td rc] Cons.prems(2) s h by auto
  show ?case
  proof (cases x)
    case (Decided d e)
    obtain t1 w2 where t1: "wk_now wk w1 = (t1, w2)" by fastforce
    obtain t2 w3 where t2: "wk_now wk w2 = (t2, w3)" by fastforce
    define rc2 where "rc2 = AppendTrace \<lparr>sr_Stage = n, sr_Decision = d, sr_DurationMs = micros_ms (t1 - t0), sr_Detail = [], sr_Error = e, sr_Timestamp = t2\<rparr> rc1"
    have rc2: "rc_RequestID rc2 = rc_RequestID rc" using id by (simp add: rc2_def AppendTrace_def)
    show ?thesis
    proof (cases "d = DecisionDeny")
      case True
      then show ?thesis using Cons.prems(1) id
        by (auto simp: s t h Decided t1 t2 AppendTrace_def computeLatency_def Finalize_def Let_def split: prod.splits)
    next
      case False
      then have "run_stage_list wk td stages rc2 w3 = (p, r, w')"
        using Cons.prems(1) by (simp add: s t h Decided t1 t2 rc2_def [symmetric])
      then show ?thesis using Cons.IH Cons.prems(2) rc2 by auto
    qed
  next
    case (StagePanic e)
    then show ?thesis using Cons.prems(1) id by (simp add: s t h)
  qed
qed (auto simp: Let_def computeLatency_def Finalize_def split: prod.splits)

lemma processOne_request: "processOne wk rc w = (d, r, w') \<Longrightarrow> rc_RequestID r = rc_RequestID rc"
  using run_stage_list_request [OF _ subset_refl]
  by (fastforce simp: processOne_def runStages_def Finalize_def Let_def split: prod.splits option.splits)

lemma run_stage_list_status:
  "run_stage_list wk td stages rc w = (None, r, w') \<Longrightarrow> rc_Status r \<noteq> CtxPending"
proof (induction stages arbitrary: rc w)
  case (Cons s stages)
  obtain n h where s: "s = (n, h)" by (cases s)
  then show ?case using Cons by (auto simp: Let_def split: prod.splits stage_out.splits if_splits)
qed (auto simp: Let_def split: prod.splits)

lemma processOne_status: "processOne wk rc w = (d, r, w') \<Longrightarrow> rc_Status r \<noteq> CtxPending"
  by (auto simp: processOne_def runStages_def Let_def split: prod.splits option.splits dest: run_stage_list_status)

subsection \<open>Accounting\<close>

text \<open>Where the requests are: accepted by a call, in the hands of a worker, received by the collector and not yet printed.\<close>

fun accepted_of :: "ingest_call \<Rightarrow> RequestContext multiset" where
  "accepted_of (CallAccept rc) = {#rc#}"
| "accepted_of (CallDone Accepted (Some rc)) = {#rc#}"
| "accepted_of _ = {#}"

definition accepted :: "'w KernelEngine \<Rightarrow> RequestContext multiset" where
  "accepted ke = sum_list (map accepted_of (kn_calls ke))"

fun held :: "RequestContext option \<Rightarrow> RequestContext multiset" where
  "held None = {#}"
| "held (Some rc) = {#rc#}"

definition in_hands :: "'w KernelEngine \<Rightarrow> RequestContext multiset" where
  "in_hands ke = sum_list (map held (kn_busy ke))"

fun received :: "collector \<Rightarrow> RequestContext list" where
  "received (CollectDepth rc) = [rc]"
| "received (CollectLatency rc) = [rc]"
| "received (CollectSLA rc) = [rc]"
| "received (CollectCount rc) = [rc]"
| "received (CollectPrint rc) = [rc]"
| "received _ = []"

text \<open>The results in the order in which the workers sent them, and those that the collector has counted.\<close>

definition answered :: "'w KernelEngine \<Rightarrow> RequestContext list" where
  "answered ke = kn_printed ke @ received (kn_collector ke) @ kn_results ke"

fun counted_last :: "collector \<Rightarrow> RequestContext list" where
  "counted_last (CollectPrint rc) = [rc]"
| "counted_last _ = []"

definition counted :: "'w KernelEngine \<Rightarrow> RequestContext list" where
  "counted ke = kn_printed ke @ counted_last (kn_collector ke)"

definition answers :: "'w worker list \<Rightarrow> RequestContext \<Rightarrow> RequestContext \<Rightarrow> bool" where
  "answers wks rc r \<longleftrightarrow> (\<exists>wk \<in> set wks. \<exists>w d w'. processOne wk rc w = (d, r, w'))"

text \<open>The calls that have raised the depth of the queue for a request that is not in it; a call that panics stays one.\<close>

fun raised :: "ingest_call \<Rightarrow> int" where
  "raised (CallTrace rc) = 1"
| "raised (CallEnqueue rc) = 1"
| "raised (CallReject rc) = 1"
| "raised (CallUndepth rc) = 1"
| "raised (CallDone IngestPanic ctx) = 1"
| "raised _ = 0"

fun lowering :: "collector \<Rightarrow> int" where
  "lowering (CollectDepth rc) = 1"
| "lowering _ = 0"

fun returned_accepted :: "ingest_call \<Rightarrow> int" where
  "returned_accepted (CallDone Accepted ctx) = 1"
| "returned_accepted _ = 0"

definition status_count :: "ContextStatus \<Rightarrow> RequestContext list \<Rightarrow> int" where
  "status_count st rcs = int (length (filter (\<lambda>rc. rc_Status rc = st) rcs))"

definition depth_inv :: "'w KernelEngine \<Rightarrow> bool" where
  "depth_inv ke \<longleftrightarrow> km_QueueDepth (kn_metrics ke) =
     int (length (rq_ch (kn_queue ke)) + size (in_hands ke) + length (kn_results ke)) + lowering (kn_collector ke) +
     sum_list (map raised (kn_calls ke))"

definition counters_inv :: "'w KernelEngine \<Rightarrow> bool" where
  "counters_inv ke \<longleftrightarrow> km_Enqueued (kn_metrics ke) = sum_list (map returned_accepted (kn_calls ke)) \<and>
     km_Completed (kn_metrics ke) = status_count CtxSuccess (counted ke) \<and>
     km_Denied (kn_metrics ke) = status_count CtxDenied (counted ke) \<and>
     km_Failed (kn_metrics ke) = status_count CtxError (counted ke)"

definition requests_inv :: "'w KernelEngine \<Rightarrow> bool" where
  "requests_inv ke \<longleftrightarrow>
     (\<exists>rcs. list_all2 (answers (wp_workers (kn_pool ke))) rcs (answered ke) \<and>
        accepted ke = mset rcs + in_hands ke + mset (rq_ch (kn_queue ke))) \<and>
     length (kn_busy ke) = length (wp_workers (kn_pool ke))"

lemma sum_list_map_update:
  fixes f :: "'a \<Rightarrow> 'b :: comm_monoid_add"
  shows "i < length xs \<Longrightarrow> sum_list (map f (xs[i := y])) + f (xs ! i) = sum_list (map f xs) + f y"
proof (induction xs arbitrary: i)
  case (Cons x xs)
  show ?case
  proof (cases i)
    case (Suc j)
    then have "sum_list (map f (xs[j := y])) + f (xs ! j) = sum_list (map f xs) + f y" using Cons by simp
    then show ?thesis using Suc by (simp add: add.assoc)
  qed (simp add: ac_simps)
qed simp

text \<open>What an access of a call changes.\<close>

lemma ingest_act_frame:
  assumes "ingest_act now p ke = (p', ke')"
  shows "kn_busy ke' = kn_busy ke" "kn_running ke' = kn_running ke" "kn_pool ke' = kn_pool ke" "kn_results ke' = kn_results ke"
    "kn_collector ke' = kn_collector ke" "kn_printed ke' = kn_printed ke" "kn_stateWrites ke' = kn_stateWrites ke"
    "kn_ingestStopped ke' = kn_ingestStopped ke" "rq_closed (kn_queue ke') = rq_closed (kn_queue ke)"
  using assms
  by (induction now p ke rule: ingest_act.induct;
      auto simp: rq_Enqueue_def split: if_splits option.splits rq_error.splits prod.splits)+

lemma ingest_act_requests:
  "ingest_act now p ke = (p', ke') \<Longrightarrow> accepted_of p' + mset (rq_ch (kn_queue ke)) = accepted_of p + mset (rq_ch (kn_queue ke'))"
  by (induction now p ke rule: ingest_act.induct) (auto simp: rq_Enqueue_def split: if_splits option.splits rq_error.splits prod.splits)

lemma ingest_act_metrics:
  assumes "ingest_act now p ke = (p', ke')"
  shows "km_QueueDepth (kn_metrics ke') + int (length (rq_ch (kn_queue ke))) + raised p =
      km_QueueDepth (kn_metrics ke) + int (length (rq_ch (kn_queue ke'))) + raised p'"
    "km_Enqueued (kn_metrics ke') + returned_accepted p = km_Enqueued (kn_metrics ke) + returned_accepted p'"
    "km_Completed (kn_metrics ke') = km_Completed (kn_metrics ke)" "km_Denied (kn_metrics ke') = km_Denied (kn_metrics ke)"
    "km_Failed (kn_metrics ke') = km_Failed (kn_metrics ke)"
  using assms
  by (induction now p ke rule: ingest_act.induct;
      auto simp: rq_Enqueue_def split: if_splits option.splits rq_error.splits prod.splits)+

text \<open>What an access of the collector changes.\<close>

lemma collect_act_frame [simp]:
  "kn_busy (collect_act ke) = kn_busy ke" "kn_running (collect_act ke) = kn_running ke" "kn_pool (collect_act ke) = kn_pool ke"
  "kn_results (collect_act ke) = kn_results ke" "kn_calls (collect_act ke) = kn_calls ke" "kn_queue (collect_act ke) = kn_queue ke"
  "kn_ingestStopped (collect_act ke) = kn_ingestStopped ke"
  by (simp_all add: collect_act_def split: collector.split)

lemma collect_act_answered: "answered (collect_act ke) = answered ke"
  by (simp add: collect_act_def answered_def split: collector.split)

lemma collect_act_depth: "depth_inv ke \<Longrightarrow> depth_inv (collect_act ke)"
  by (cases "kn_collector ke") (auto simp: collect_act_def depth_inv_def in_hands_def count_status_def split: ContextStatus.split)

lemma status_count_snoc: "status_count st (rcs @ [rc]) = status_count st rcs + (if rc_Status rc = st then 1 else 0)"
  by (simp add: status_count_def)

lemma collect_act_counters: "counters_inv ke \<Longrightarrow> counters_inv (collect_act ke)"
  by (cases "kn_collector ke")
     (auto simp: collect_act_def counters_inv_def counted_def count_status_def status_count_snoc split: ContextStatus.split)

lemma depth_inv_step: "kernel_step s t \<Longrightarrow> depth_inv (fst s) \<Longrightarrow> depth_inv (fst t)"
proof (induction rule: kernel_step.induct)
  case (ingest c ke now p ke' w)
  then show ?case
    using ingest_act_metrics(1) [OF ingest(2)] ingest_act_frame [OF ingest(2)] sum_list_map_update [OF ingest(1), of raised p]
    by (simp add: depth_inv_def in_hands_def)
next
  case (take_request i ke rc q w)
  then show ?case using sum_list_map_update [OF take_request(1), of held "Some rc"]
    by (auto simp: depth_inv_def in_hands_def rq_Chan_def split: list.splits)
next
  case (finish i ke rc w degraded rc' w' now)
  have "sum_list (map held (kn_busy ke)) = add_mset rc (sum_list (map held ((kn_busy ke)[i := None])))"
    using sum_list_map_update [OF finish(1), of held None] finish(2) by simp
  then show ?case using finish.prems by (simp add: depth_inv_def in_hands_def)
next
  case (collect ke w)
  then show ?case using collect_act_depth by simp
qed (auto simp: depth_inv_def in_hands_def rq_Close_def split: if_splits)

lemma counters_inv_step: "kernel_step s t \<Longrightarrow> counters_inv (fst s) \<Longrightarrow> counters_inv (fst t)"
proof (induction rule: kernel_step.induct)
  case (ingest c ke now p ke' w)
  then show ?case
    using ingest_act_metrics(2-) [OF ingest(2)] ingest_act_frame [OF ingest(2)] sum_list_map_update [OF ingest(1), of returned_accepted p]
    by (simp add: counters_inv_def counted_def)
next
  case (collect ke w)
  then show ?case using collect_act_counters by simp
qed (auto simp: counters_inv_def counted_def)

lemma requests_inv_step: "kernel_step s t \<Longrightarrow> requests_inv (fst s) \<Longrightarrow> requests_inv (fst t)"
proof (induction rule: kernel_step.induct)
  case (ingest c ke now p ke' w)
  have "sum_list (map accepted_of ((kn_calls ke)[c := p])) + mset (rq_ch (kn_queue ke)) + accepted_of (kn_calls ke ! c) =
      sum_list (map accepted_of (kn_calls ke)) + mset (rq_ch (kn_queue ke')) + accepted_of (kn_calls ke ! c)"
    using ingest_act_requests [OF ingest(2)] sum_list_map_update [OF ingest(1), of accepted_of p] by (simp add: ac_simps)
  then show ?case using ingest.prems ingest_act_frame [OF ingest(2)]
    by (auto simp: requests_inv_def accepted_def answered_def in_hands_def ac_simps)
next
  case (take_request i ke rc q w)
  have "sum_list (map held ((kn_busy ke)[i := Some rc])) + mset (rq_ch q) = sum_list (map held (kn_busy ke)) + mset (rq_ch (kn_queue ke))"
    using sum_list_map_update [OF take_request(1), of held "Some rc"] take_request(3,4) by (auto simp: rq_Chan_def split: list.splits)
  then show ?case using take_request.prems by (auto simp: requests_inv_def accepted_def answered_def in_hands_def add.assoc)
next
  case (finish i ke rc w degraded rc' w' now)
  obtain rcs where rcs: "list_all2 (answers (wp_workers (kn_pool ke))) rcs (answered ke)"
      "accepted ke = mset rcs + in_hands ke + mset (rq_ch (kn_queue ke))" "length (kn_busy ke) = length (wp_workers (kn_pool ke))"
    using finish.prems by (auto simp: requests_inv_def)
  have h: "sum_list (map held (kn_busy ke)) = add_mset rc (sum_list (map held ((kn_busy ke)[i := None])))"
    using sum_list_map_update [OF finish(1), of held None] finish(2) by simp
  have "answers (wp_workers (kn_pool ke)) rc rc'" unfolding answers_def using finish(1,3) rcs(3) by (metis nth_mem)
  then have "list_all2 (answers (wp_workers (kn_pool ke))) (rcs @ [rc]) (answered ke @ [rc'])" using rcs(1) by (simp add: list_all2_appendI)
  then show ?case using rcs h
    by (auto simp: requests_inv_def accepted_def answered_def in_hands_def after_request_def intro!: exI [of _ "rcs @ [rc]"])
next
  case (collect ke w)
  then show ?case by (simp add: requests_inv_def collect_act_answered accepted_def in_hands_def)
qed (auto simp: requests_inv_def accepted_def answered_def in_hands_def rq_Close_def split: if_splits)

lemma kernel_invs_step: "kernel_step s t \<Longrightarrow> depth_inv (fst s) \<and> counters_inv (fst s) \<and> requests_inv (fst s) \<Longrightarrow>
    depth_inv (fst t) \<and> counters_inv (fst t) \<and> requests_inv (fst t)"
  by (simp add: depth_inv_step counters_inv_step requests_inv_step)

lemma kernel_invs:
  assumes "kernel_step\<^sup>*\<^sup>* (NewKernelEngine cfg cwd logger env now, w0) (ke, w)"
  shows "depth_inv ke" "counters_inv ke" "requests_inv ke"
proof -
  have h: "sum_list (replicate n {#}) = {#}" for n by (induction n) simp_all
  have "depth_inv (fst t) \<and> counters_inv (fst t) \<and> requests_inv (fst t)" if "kernel_step\<^sup>*\<^sup>* (NewKernelEngine cfg cwd logger env now, w0) t" for t
    using that
  proof (induction rule: rtranclp_induct)
    case base
    show ?case
      by (simp add: depth_inv_def counters_inv_def requests_inv_def counted_def status_count_def accepted_def answered_def in_hands_def
          NewKernelEngine_def NewKernelMetrics_def NewRequestQueue_def NewWorkerPool_def h Let_def)
  next
    case (step s t)
    then show ?case using kernel_invs_step by blast
  qed
  from this [OF assms] show "depth_inv ke" "counters_inv ke" "requests_inv ke" by simp_all
qed

lemma answers_all:
  "list_all2 (answers wks) rcs rs \<Longrightarrow> map rc_RequestID rs = map rc_RequestID rcs \<and> (\<forall>r \<in> set rs. rc_Status r \<noteq> CtxPending)"
  by (induction rule: list_all2_induct) (auto simp: answers_def dest: processOne_request processOne_status)


subsection \<open>A call that is late\<close>

text \<open>A call that has returned stays what it was.\<close>

lemma call_done_stays:
  "kernel_step\<^sup>*\<^sup>* s t \<Longrightarrow> CallDone out ctx \<in> set (kn_calls (fst s)) \<Longrightarrow> CallDone out ctx \<in> set (kn_calls (fst t))"
proof (induction rule: rtranclp_induct)
  case (step t u)
  from step(2) step(3) [OF step(4)] show ?case
  proof (induction rule: kernel_step.induct)
    case (ingest c ke now p ke' w)
    obtain j where j: "j < length (kn_calls ke)" "kn_calls ke ! j = CallDone out ctx" using ingest(3) by (auto simp: in_set_conv_nth)
    then have "(kn_calls ke)[c := p] ! j = CallDone out ctx" using ingest(1,2) by (cases "j = c") auto
    then show ?case using j(1) by (auto simp: in_set_conv_nth intro!: exI [of _ j])
  qed auto
qed

text \<open>
  A call that has passed the check may meet the queue closed: its send panics, nothing lowers the depth again, and no answer
  is ever given.
\<close>

lemma late_call_panics:
  "\<exists>ke. kernel_step\<^sup>*\<^sup>* (NewKernelEngine cfg cwd logger env now, w) (ke, w) \<and>
     CallDone IngestPanic (Some (ingest_context t req)) \<in> set (kn_calls ke)"
proof -
  define K where "K = NewKernelEngine cfg cwd logger env now"
  define L where "L = \<lparr>lc_done = True, lc_shutdown_closed = True\<rparr>"
  have K: "kn_phase K = Up" "kn_ingestStopped K = False" "kn_lifecycle K = NewLifecycle" "\<not> rq_closed (kn_queue K)" "kn_calls K = []"
    by (simp_all add: K_def NewKernelEngine_def NewRequestQueue_def Let_def)
  define K1 where "K1 = K\<lparr>kn_calls := [CallCheck (Inr req)]\<rparr>"
  define K2 where "K2 = K\<lparr>kn_calls := [CallCount (Inr req)]\<rparr>"
  define K3 where "K3 = K2\<lparr>kn_ingestStopped := True, kn_phase := Stopping\<rparr>"
  define K4 where "K4 = K3\<lparr>kn_lifecycle := L, kn_phase := Draining\<rparr>"
  define K5 where "K5 = K4\<lparr>kn_queue := (kn_queue K)\<lparr>rq_closed := True\<rparr>, kn_phase := Waiting\<rparr>"
  have s: "kernel_step\<^sup>*\<^sup>* (K, w) (K1, w)" using kernel_step.call [of K w "Inr req"] K by (simp add: K1_def r_into_rtranclp)
  have "kernel_step (K1, w) (K2, w)"
    using kernel_step.ingest [where c = 0 and ke = K1 and now = t and w = w] K by (simp add: K1_def K2_def)
  then have s: "kernel_step\<^sup>*\<^sup>* (K, w) (K2, w)" using s by (rule rtranclp.rtrancl_into_rtrancl [rotated])
  have "kernel_step (K2, w) (K3, w)" unfolding K3_def by (rule kernel_step.stop_ingestion) (simp add: K2_def K)
  then have s: "kernel_step\<^sup>*\<^sup>* (K, w) (K3, w)" using s by (rule rtranclp.rtrancl_into_rtrancl [rotated])
  have "kernel_step (K3, w) (K4, w)"
    unfolding K4_def by (rule kernel_step.cancel_context) (simp_all add: K3_def K2_def K L_def lc_GracefulShutdown_def NewLifecycle_def)
  then have s: "kernel_step\<^sup>*\<^sup>* (K, w) (K4, w)" using s by (rule rtranclp.rtrancl_into_rtrancl [rotated])
  have "kernel_step (K4, w) (K5, w)"
    unfolding K5_def by (rule kernel_step.close_queue) (simp_all add: K4_def K3_def K2_def rq_Close_def K)
  then have s: "kernel_step\<^sup>*\<^sup>* (K, w) (K5, w)" using s by (rule rtranclp.rtrancl_into_rtrancl [rotated])
  define K6 where "K6 = (snd (call_run t 5 (CallCount (Inr req), K5)))\<lparr>kn_calls := [fst (call_run t 5 (CallCount (Inr req), K5))]\<rparr>"
  have "K5\<lparr>kn_calls := [CallCount (Inr req)]\<rparr> = K5" by (simp add: K5_def K4_def K3_def K2_def)
  then have "kernel_step\<^sup>*\<^sup>* (K5, w) (K6, w)"
    using call_run_steps [where ke = K5 and cs = "[]" and p = "CallCount (Inr req)" and w = w and now = t and n = 5]
    by (simp add: K6_def)
  then have "kernel_step\<^sup>*\<^sup>* (K, w) (K6, w)" using s by (rule rtranclp_trans [rotated])
  moreover have "fst (call_run t 5 (CallCount (Inr req), K5)) = CallDone IngestPanic (Some (ingest_context t req))"
    by (simp add: numeral_nat funpow_swap1 K5_def rq_Enqueue_def)
  ultimately show ?thesis unfolding K_def [symmetric] by (intro exI [of _ K6]) (simp add: K6_def)
qed

lemma raised_pos: "0 \<le> raised p" by (cases p rule: raised.cases) simp_all

lemma late_call_leaks:
  assumes run: "kernel_step\<^sup>*\<^sup>* (NewKernelEngine cfg cwd logger env now, w0) (ke, w)" and p: "CallDone IngestPanic ctx \<in> set (kn_calls ke)"
    and later: "kernel_step\<^sup>*\<^sup>* (ke, w) (ke', w')"
  shows "1 \<le> km_QueueDepth (kn_metrics ke')"
proof -
  have "kernel_step\<^sup>*\<^sup>* (NewKernelEngine cfg cwd logger env now, w0) (ke', w')" using run later by (rule rtranclp_trans)
  from kernel_invs(1) [OF this] have d: "sum_list (map raised (kn_calls ke')) \<le> km_QueueDepth (kn_metrics ke')"
    unfolding depth_inv_def by (cases "kn_collector ke'") auto
  have "CallDone IngestPanic ctx \<in> set (kn_calls ke')" using call_done_stays [OF later] p by simp
  then have "raised (CallDone IngestPanic ctx) \<in> set (map raised (kn_calls ke'))" unfolding set_map by (rule imageI)
  then have "raised (CallDone IngestPanic ctx) \<le> sum_list (map raised (kn_calls ke'))"
    by (rule member_le_sum_list) (use raised_pos in auto)
  then show ?thesis using d by simp
qed

subsection \<open>Requests lost at shutdown\<close>

text \<open>When no worker runs and the queue is closed, the queue stays as it is.\<close>

definition dead :: "RequestContext list \<Rightarrow> 'w KernelEngine \<Rightarrow> bool" where
  "dead rs ke \<longleftrightarrow> True \<notin> set (kn_running ke) \<and> length (kn_running ke) = length (kn_busy ke) \<and> rq_closed (kn_queue ke) \<and>
     rq_ch (kn_queue ke) = rs"

lemma ingest_act_closed: "ingest_act now p ke = (p', ke') \<Longrightarrow> rq_closed (kn_queue ke) \<Longrightarrow> rq_ch (kn_queue ke') = rq_ch (kn_queue ke)"
  by (induction now p ke rule: ingest_act.induct) (auto simp: rq_Enqueue_def split: if_splits)

lemma dead_step: "kernel_step s t \<Longrightarrow> dead rs (fst s) \<Longrightarrow> dead rs (fst t)"
proof (induction rule: kernel_step.induct)
  case (ingest c ke now p ke' w)
  then show ?case using ingest_act_frame [OF ingest(2)] ingest_act_closed [OF ingest(2)] by (simp add: dead_def)
next
  case (take_request i ke rc q w)
  then have "True \<in> set (kn_running ke)" by (simp add: dead_def) (metis nth_mem)
  then show ?case using take_request.prems by (simp add: dead_def)
next
  case (return i ke w)
  then have "True \<in> set (kn_running ke)" by (simp add: dead_def) (metis nth_mem)
  then show ?case using return.prems by (simp add: dead_def)
qed (auto simp: dead_def rq_Close_def split: if_splits)

lemma dead_steps: "kernel_step\<^sup>*\<^sup>* s t \<Longrightarrow> dead rs (fst s) \<Longrightarrow> dead rs (fst t)"
  by (induction rule: rtranclp_induct) (simp_all add: dead_step)

text \<open>All idle workers return one after the other.\<close>

lemma workers_return:
  assumes "lc_done (kn_lifecycle ke)" and "kn_busy ke = replicate n None" and "length (kn_running ke) = n"
  shows "k \<le> n \<Longrightarrow> \<exists>rs. kernel_step\<^sup>*\<^sup>* (ke, w) (ke\<lparr>kn_running := rs\<rparr>, w) \<and> length rs = n \<and> (\<forall>i < k. \<not> rs ! i)"
proof (induction k)
  case 0
  have "kernel_step\<^sup>*\<^sup>* (ke, w) (ke\<lparr>kn_running := kn_running ke\<rparr>, w)" by simp
  then show ?case using assms(3) by blast
next
  case (Suc k)
  then obtain rs where rs: "kernel_step\<^sup>*\<^sup>* (ke, w) (ke\<lparr>kn_running := rs\<rparr>, w)" "length rs = n" "\<forall>i < k. \<not> rs ! i" by auto
  show ?case
  proof (cases "rs ! k")
    case True
    have "kernel_step (ke\<lparr>kn_running := rs\<rparr>, w) ((ke\<lparr>kn_running := rs\<rparr>)\<lparr>kn_running := (kn_running (ke\<lparr>kn_running := rs\<rparr>))[k := False]\<rparr>, w)"
      by (rule kernel_step.return) (use True Suc.prems assms in simp_all)
    then have "kernel_step\<^sup>*\<^sup>* (ke, w) (ke\<lparr>kn_running := rs[k := False]\<rparr>, w)" using rs(1) by simp
    moreover have "\<forall>i < Suc k. \<not> rs[k := False] ! i" using rs(2,3) Suc.prems by (auto simp: less_Suc_eq nth_list_update)
    ultimately show ?thesis using rs(2) by (intro exI [of _ "rs[k := False]"]) simp
  next
    case False
    then show ?thesis using rs by (auto simp: less_Suc_eq)
  qed
qed

text \<open>The shutdown of a kernel whose workers are idle, with all of them returning before they look at the queue.\<close>

lemma idle_shutdown:
  assumes "kn_phase K = Up" and "\<not> rq_closed (kn_queue K)" and "kn_lifecycle K = NewLifecycle"
    and "kn_busy K = replicate n None" and "length (kn_running K) = n"
  shows "\<exists>ke. kernel_step\<^sup>*\<^sup>* (K, w) (ke, w) \<and> kn_phase ke = Down \<and> kn_printed ke = kn_printed K \<and> dead (rq_ch (kn_queue K)) ke"
proof -
  define L where "L = \<lparr>lc_done = True, lc_shutdown_closed = True\<rparr>"
  define K0 where "K0 = K\<lparr>kn_ingestStopped := True, kn_phase := Stopping\<rparr>"
  define K1 where "K1 = K0\<lparr>kn_lifecycle := L, kn_phase := Draining\<rparr>"
  have 0: "kernel_step (K, w) (K0, w)" unfolding K0_def by (rule kernel_step.stop_ingestion) (rule assms)
  have 1: "kernel_step (K0, w) (K1, w)"
    unfolding K1_def by (rule kernel_step.cancel_context) (simp_all add: K0_def assms L_def lc_GracefulShutdown_def NewLifecycle_def)
  obtain rs where 2: "kernel_step\<^sup>*\<^sup>* (K1, w) (K1\<lparr>kn_running := rs\<rparr>, w)" "length rs = n" "\<forall>i < n. \<not> rs ! i"
    using workers_return [of K1 n n w] assms by (auto simp: K1_def K0_def L_def)
  define K2 where "K2 = K1\<lparr>kn_running := rs, kn_queue := (kn_queue K)\<lparr>rq_closed := True\<rparr>, kn_phase := Waiting\<rparr>"
  have "kernel_step (K1\<lparr>kn_running := rs\<rparr>, w) ((K1\<lparr>kn_running := rs\<rparr>)\<lparr>kn_queue := (kn_queue K)\<lparr>rq_closed := True\<rparr>, kn_phase := Waiting\<rparr>, w)"
    by (rule kernel_step.close_queue) (simp_all add: K1_def K0_def rq_Close_def assms)
  then have 3: "kernel_step (K1\<lparr>kn_running := rs\<rparr>, w) (K2, w)" by (simp add: K2_def)
  define K3 where "K3 = K2\<lparr>kn_resultsClosed := True, kn_phase := Closing\<rparr>"
  define K4 where "K4 = K3\<lparr>kn_writesClosed := True, kn_phase := Down\<rparr>"
  have r: "True \<notin> set (kn_running K2)" using 2(2,3) by (auto simp: K2_def in_set_conv_nth)
  then have 4: "kernel_step (K2, w) (K3, w)"
    unfolding K3_def by (intro kernel_step.close_results) (simp_all add: K2_def)
  have 5: "kernel_step (K3, w) (K4, w)" unfolding K4_def by (rule kernel_step.close_writes) (simp add: K3_def)
  have "kernel_step\<^sup>*\<^sup>* (K, w) (K4, w)" using 0 1 2(1) 3 4 5 by simp
  moreover have "dead (rq_ch (kn_queue K)) K4"
    using 2(2) assms r by (simp add: dead_def K4_def K3_def K2_def K1_def K0_def)
  moreover have "kn_printed K4 = kn_printed K" "kn_phase K4 = Down" by (simp_all add: K4_def K3_def K2_def K1_def K0_def)
  ultimately show ?thesis by blast
qed

lemma dead_queue:
  assumes "dead rs ke"
  shows "{rq_ch (kn_queue (fst s)) | s. kernel_step\<^sup>*\<^sup>* (ke, w) s} = {rs}"
proof
  show "{rq_ch (kn_queue (fst s)) | s. kernel_step\<^sup>*\<^sup>* (ke, w) s} \<subseteq> {rs}"
    using dead_steps [of "(ke, w)"] assms by (auto simp: dead_def)
  have "kernel_step\<^sup>*\<^sup>* (ke, w) (ke, w) \<and> rs = rq_ch (kn_queue (fst (ke, w)))" using assms by (simp add: dead_def)
  then show "{rs} \<subseteq> {rq_ch (kn_queue (fst s)) | s. kernel_step\<^sup>*\<^sup>* (ke, w) s}" by blast
qed

text \<open>C29:
  A request that \<open>Ingest\<close> has accepted can be lost: from any new kernel there is a run in which a request is accepted, the
  shutdown goes through all its phases to the end, and the request still waits in the queue, where no further step changes
  anything; nothing was printed for it. The context of the workers is cancelled before the queue is drained.
\<close>
theorem shutdown_loses_requests:
  "fst (Ingest t (Inr req) (NewKernelEngine cfg cwd logger env now)) = Accepted \<and>
   (\<exists>ke. kernel_step\<^sup>*\<^sup>* (snd (Ingest t (Inr req) (NewKernelEngine cfg cwd logger env now)), w) (ke, w) \<and>
      kn_phase ke = Down \<and> kn_printed ke = [] \<and>
      {rq_ch (kn_queue (fst s)) | s. kernel_step\<^sup>*\<^sup>* (ke, w) s} = {[ingest_context t req]})"
proof
  define K where "K = snd (Ingest t (Inr req) (NewKernelEngine cfg cwd logger env now))"
  define n where "n = nat (if kc_WorkerCount cfg \<le> 0 then 4 else kc_WorkerCount cfg)"
  have q: "rq_Enqueue (ingest_context t req) (kn_queue (NewKernelEngine cfg cwd logger env now)) =
      (None, (kn_queue (NewKernelEngine cfg cwd logger env now))\<lparr>rq_ch := [ingest_context t req], rq_Enqueued := 1\<rparr>)"
    by (simp add: NewKernelEngine_def NewRequestQueue_def rq_Enqueue_def Let_def)
  then show "fst (Ingest t (Inr req) (NewKernelEngine cfg cwd logger env now)) = Accepted"
    by (simp add: Ingest_def NewKernelEngine_def Let_def)
  have K: "kn_phase K = Up" "kn_printed K = []" "rq_ch (kn_queue K) = [ingest_context t req]" "\<not> rq_closed (kn_queue K)"
    "kn_lifecycle K = NewLifecycle" "kn_busy K = replicate n None" "length (kn_running K) = n"
    using q by (simp_all add: K_def Ingest_def NewKernelEngine_def NewRequestQueue_def n_def Let_def)
  obtain ke where "kernel_step\<^sup>*\<^sup>* (K, w) (ke, w)" "kn_phase ke = Down" "kn_printed ke = []" "dead [ingest_context t req] ke"
    using idle_shutdown [OF K(1,4,5,6,7), of w] K(2,3) by auto
  then show "\<exists>ke. kernel_step\<^sup>*\<^sup>* (snd (Ingest t (Inr req) (NewKernelEngine cfg cwd logger env now)), w) (ke, w) \<and>
      kn_phase ke = Down \<and> kn_printed ke = [] \<and>
      {rq_ch (kn_queue (fst s)) | s. kernel_step\<^sup>*\<^sup>* (ke, w) s} = {[ingest_context t req]}"
    unfolding K_def [symmetric] using dead_queue [of "[ingest_context t req]" ke w] by (intro exI [of _ ke]) simp
qed

text \<open>A run of one worker: a request is taken, processed and collected.\<close>

definition one_config :: KernelConfig where "one_config = kc_DefaultConfig\<lparr>kc_WorkerCount := 1\<rparr>"

definition raw_echo :: RawRequest where
  "raw_echo = \<lparr>raw_ID = ''r'', raw_Method = ''tool.call'', raw_PipelineMode = [],
     raw_Params = \<lparr>rp_Tool = ''echo'', rp_Capability = [], rp_Arguments = []\<rparr>,
     raw_Session = \<lparr>sd_SessionID = ''s'', sd_ProjectID = ''p'', sd_UserID = []\<rparr>\<rparr>"

text \<open>The request is accepted, by nine steps of a call, and taken.\<close>

lemma one_request_taken:
  defines "rc \<equiv> ingest_context 5 raw_echo"
  shows "\<exists>ke. quiet_step\<^sup>*\<^sup>* (NewKernelEngine one_config None None echo_env 1, ()) (ke, ()) \<and> kn_busy ke = [Some rc] \<and>
    kn_calls ke = [CallDone Accepted (Some rc)] \<and> rq_ch (kn_queue ke) = [] \<and> kn_results ke = [] \<and> kn_collector ke = CollectReady \<and>
    kn_printed ke = [] \<and> kn_stateWrites ke = [] \<and> kn_capacity ke = 128 \<and> \<not> kn_writesClosed ke"
proof -
  define K where "K = (NewKernelEngine one_config None None echo_env 1 :: unit KernelEngine)"
  define K1 where "K1 = (snd (Ingest 5 (Inr raw_echo) K))\<lparr>kn_calls := [CallDone Accepted (Some rc)]\<rparr>"
  define K2 where "K2 = K1\<lparr>kn_queue := (kn_queue K1)\<lparr>rq_ch := []\<rparr>, kn_busy := [Some rc]\<rparr>"
  note defs = K_def Ingest_def NewKernelEngine_def NewRequestQueue_def rq_Enqueue_def one_config_def kc_DefaultConfig_def rc_def
  have K1: "rq_ch (kn_queue K1) = [rc]" "kn_busy K1 = [None]" "kn_running K1 = [True]" "kn_results K1 = []" "kn_collector K1 = CollectReady"
      "kn_calls K1 = [CallDone Accepted (Some rc)]" "kn_printed K1 = []" "kn_stateWrites K1 = []" "kn_capacity K1 = 128" "\<not> kn_writesClosed K1"
    by (simp_all add: K1_def defs Let_def)
  have "call_run 5 9 (CallCheck (Inr raw_echo), K) = (CallDone Accepted (Some rc), snd (Ingest 5 (Inr raw_echo) K))"
    by (simp add: numeral_nat funpow_swap1 defs Let_def)
  then have "quiet_step\<^sup>*\<^sup>* (K\<lparr>kn_calls := [CallCheck (Inr raw_echo)]\<rparr>, ()) (K1, ())"
    using call_run_quiet [where ke = K and cs = "[]" and p = "CallCheck (Inr raw_echo)" and w = "()" and now = 5 and n = 9] by (simp add: K1_def)
  moreover have "quiet_step (K, ()) (K\<lparr>kn_calls := [CallCheck (Inr raw_echo)]\<rparr>, ())"
    using kernel_step.call [of K "()" "Inr raw_echo"] by (simp add: K_def NewKernelEngine_def Let_def)
  moreover have "quiet_step (K1, ()) (K2, ())"
    using kernel_step.take_request [of 0 K1 rc "(kn_queue K1)\<lparr>rq_ch := []\<rparr>" "()"] K1 by (simp add: K2_def rq_Chan_def)
  ultimately have r: "quiet_step\<^sup>*\<^sup>* (K, ()) (K2, ())" by (rule converse_rtranclp_into_rtranclp [rotated, THEN rtranclp.rtrancl_into_rtrancl])
  then show ?thesis using K1 unfolding K_def [symmetric] by (intro exI [of _ K2]) (simp add: K2_def)
qed


subsection \<open>The load shedder and the latencies\<close>

text \<open>An evaluation with an idle queue returns to NORMAL whatever number of SLA violations there is.\<close>

lemma Evaluate_forgets_violations: "fst (ls_Evaluate 0 queueMax 0 (fold (\<lambda>_. RecordSLAViolation) [0..<n] NewLoadShedder)) = LoadNormal"
  by (simp add: ls_Evaluate_def Saturation_def)

lemma round2_mono: "0 \<le> x \<Longrightarrow> x \<le> y \<Longrightarrow> round2 x \<le> round2 y"
  by (auto simp: round2_def intro!: divide_right_mono floor_mono)

text \<open>Percentiles are ordered.\<close>

lemma percentile_mono:
  assumes "sorted xs" and "\<forall>x \<in> set xs. 0 \<le> x" and "0 \<le> p" and "p \<le> q"
  shows "percentile xs p \<le> percentile xs q"
proof (cases "xs = []")
  case False
  define f where "f p = nat (let idx = \<lceil>of_nat (length xs) * p / 100\<rceil> - 1; idx = (if idx < 0 then 0 else idx)
    in if idx \<ge> int (length xs) then int (length xs) - 1 else idx)" for p :: rat
  have c: "\<lceil>of_nat (length xs) * p / 100\<rceil> \<le> \<lceil>of_nat (length xs) * q / 100\<rceil>"
    using assms(4) by (intro ceiling_mono divide_right_mono mult_left_mono) simp_all
  have n: "1 \<le> int (length xs)" using False by (cases xs) simp_all
  define a b where "a = \<lceil>of_nat (length xs) * p / 100\<rceil>" and "b = \<lceil>of_nat (length xs) * q / 100\<rceil>"
  have "f p = nat (if a - 1 < 0 then 0 else if a - 1 \<ge> int (length xs) then int (length xs) - 1 else a - 1)"
    "f q = nat (if b - 1 < 0 then 0 else if b - 1 \<ge> int (length xs) then int (length xs) - 1 else b - 1)"
    using n unfolding f_def a_def b_def Let_def by (simp_all only: if_distrib [of nat] split: if_split) auto
  moreover have "a \<le> b" using c by (simp add: a_def b_def)
  ultimately have "f p \<le> f q" "f q < length xs" using n by auto
  then have "xs ! f p \<le> xs ! f q" "0 \<le> xs ! f p" using assms(1,2) by (simp_all add: sorted_nth_mono)
  then show ?thesis using round2_mono False by (simp add: percentile_def f_def Let_def)
qed (simp add: percentile_def)

end
