(* ===== verification/Run_State.thy ===== *)
theory Run_State
  imports Run_Policy Run_Worker
begin

text \<open>
  The state of the kernel on disk, \<open>runtime/state\<close>: the atomic writer, the store of traces, the snapshots with their
  consistency guard, replay and compaction. The disk is a map from clean paths to contents with their modification time,
  and a list of directories; which operations fail on which path is a parameter, and so are the encoding of a record as
  JSON and the formatting of times. Temporary files, which never keep their name, are not on the disk. The root of the
  store is a path with a slash in front, to which names are joined as \<open>filepath.Join\<close> does.
\<close>

subsection \<open>Disk and atomic writer\<close>

record Disk =
  d_files :: "(string, string \<times> int) gomap"
  d_dirs :: "string list"

type_synonym faults = "string \<Rightarrow> string \<Rightarrow> string option"

record 'a codec =
  co_Encode :: "'a \<Rightarrow> string + string"
  co_Decode :: "string \<Rightarrow> string + 'a"

definition mkdir_all :: "string \<Rightarrow> Disk \<Rightarrow> Disk" where
  "mkdir_all p d = (if p \<in> set (d_dirs d) then d else d\<lparr>d_dirs := d_dirs d @ [p]\<rparr>)"

definition file_dir :: "string \<Rightarrow> string" where
  "file_dir p = path_clean (rev (dropWhile (\<lambda>c. c \<noteq> CHR ''/'') (rev p)))"

text \<open>A temporary file is created and written, the directory is made, and the file renamed into place.\<close>

definition WriteJSON :: "faults \<Rightarrow> 'a codec \<Rightarrow> int \<Rightarrow> string \<Rightarrow> 'a \<Rightarrow> Disk \<Rightarrow> string option \<times> Disk" where
  "WriteJSON flt co now path x d =
     (case flt ''createtemp'' (path_base path) of
        Some err \<Rightarrow> (Some err, d)
      | None \<Rightarrow>
          (case co_Encode co x of
             Inl err \<Rightarrow> (Some err, d)
           | Inr text \<Rightarrow>
               (case flt ''mkdirall'' (file_dir path) of
                  Some err \<Rightarrow> (Some err, d)
                | None \<Rightarrow>
                    let d = mkdir_all (file_dir path) d in
                    case flt ''rename'' path of
                      Some err \<Rightarrow> (Some err, d)
                    | None \<Rightarrow> (None, d\<lparr>d_files := gm_put path (text, now) (d_files d)\<rparr>))))"

definition ReadJSON :: "faults \<Rightarrow> 'a codec \<Rightarrow> string \<Rightarrow> Disk \<Rightarrow> string + 'a" where
  "ReadJSON flt co path d =
     (case flt ''open'' path of
        Some err \<Rightarrow> Inl err
      | None \<Rightarrow>
          (case gm_get (d_files d) path of
             None \<Rightarrow> Inl ''no such file or directory''
           | Some (text, t) \<Rightarrow> co_Decode co text))"

subsection \<open>Traces\<close>

record TraceRecord =
  tr_RequestID :: string
  tr_Status :: string
  tr_ExecutionTrace :: "StageResult list"
  tr_DecisionPath :: "string list"
  tr_StageTimings :: "(string, rat) gomap"
  tr_WorkerID :: string
  tr_PipelineMode :: string
  tr_PolicyGraph :: "PolicyDecision list"
  tr_LatencyBreakdown :: LatencyBreakdown
  tr_Timestamp :: int

record MetaRecord =
  mt_Version :: string
  mt_RegistryVersion :: string
  mt_PolicyVersion :: string
  mt_Workers :: int
  mt_QueueSize :: int
  mt_UpdatedAt :: string

record SessionRecord =
  sn_SessionID :: string
  sn_ProjectID :: string
  sn_UserID :: string
  sn_CreatedAt :: string

definition store_path :: "string \<Rightarrow> string \<Rightarrow> string \<Rightarrow> string" where
  "store_path rt dir name = path_clean (rt @ ''/'' @ dir @ ''/'' @ name)"

definition NewStateStore :: "faults \<Rightarrow> string \<Rightarrow> Disk \<Rightarrow> Disk" where
  "NewStateStore flt rt d =
     (let p = path_clean (rt @ ''/'' @ ''snapshots'') in if flt ''mkdirall'' p = None then mkdir_all p d else d)"

definition trace_record :: "RequestContext \<Rightarrow> TraceRecord" where
  "trace_record ctx =
     \<lparr>tr_RequestID = rc_RequestID ctx, tr_Status = ctx_status_text (rc_Status ctx), tr_ExecutionTrace = rc_ExecutionTrace ctx,
      tr_DecisionPath = rc_DecisionPath ctx, tr_StageTimings = rc_StageTimings ctx, tr_WorkerID = rc_WorkerID ctx,
      tr_PipelineMode = rc_PipelineMode ctx, tr_PolicyGraph = rc_PolicyGraph ctx, tr_LatencyBreakdown = rc_LatencyBreakdown ctx,
      tr_Timestamp = rc_TimestampEnd ctx\<rparr>"

definition saveTraceInternal :: "faults \<Rightarrow> TraceRecord codec \<Rightarrow> string \<Rightarrow> int \<Rightarrow> RequestContext \<Rightarrow> Disk \<Rightarrow> string option \<times> Disk" where
  "saveTraceInternal flt co rt now ctx d =
     WriteJSON flt co now (store_path rt ''traces'' (rc_RequestID ctx @ ''.json'')) (trace_record ctx) d"

definition SaveTrace :: "faults \<Rightarrow> TraceRecord codec \<Rightarrow> string \<Rightarrow> int \<Rightarrow> RequestContext \<Rightarrow> Disk \<Rightarrow> string option \<times> Disk" where
  "SaveTrace flt co rt now ctx d = saveTraceInternal flt co rt now ctx d"

text \<open>The second attempt may meet other faults; the error of the first is returned all the same.\<close>

definition SaveTraceWithRetry ::
    "faults \<Rightarrow> faults \<Rightarrow> TraceRecord codec \<Rightarrow> string \<Rightarrow> int \<Rightarrow> RequestContext \<Rightarrow> Disk \<Rightarrow> string option \<times> Disk" where
  "SaveTraceWithRetry flt flt' co rt now ctx d =
     (case saveTraceInternal flt co rt now ctx d of
        (Some err, d1) \<Rightarrow> (Some err, snd (saveTraceInternal flt' co rt now ctx d1))
      | (None, d1) \<Rightarrow> (None, d1))"

definition SaveSession ::
    "faults \<Rightarrow> SessionRecord codec \<Rightarrow> (int \<Rightarrow> string) \<Rightarrow> string \<Rightarrow> int \<Rightarrow> string \<Rightarrow> string \<Rightarrow> string \<Rightarrow> Disk \<Rightarrow> string option \<times> Disk" where
  "SaveSession flt co rfc rt now sessionID projectID userID d =
     WriteJSON flt co now (store_path rt ''sessions'' (sessionID @ ''.json''))
       \<lparr>sn_SessionID = sessionID, sn_ProjectID = projectID, sn_UserID = userID, sn_CreatedAt = rfc now\<rparr> d"

definition SaveMeta :: "faults \<Rightarrow> MetaRecord codec \<Rightarrow> (int \<Rightarrow> string) \<Rightarrow> string \<Rightarrow> int \<Rightarrow> MetaRecord \<Rightarrow> Disk \<Rightarrow> string option \<times> Disk" where
  "SaveMeta flt co rfc rt now meta d =
     WriteJSON flt co now (path_clean (rt @ ''/meta.json'')) (meta\<lparr>mt_UpdatedAt := rfc now\<rparr>) d"

definition LoadTrace :: "faults \<Rightarrow> TraceRecord codec \<Rightarrow> string \<Rightarrow> string \<Rightarrow> Disk \<Rightarrow> string + TraceRecord" where
  "LoadTrace flt co rt requestID d = ReadJSON flt co (store_path rt ''traces'' (requestID @ ''.json'')) d"

subsection \<open>Directories\<close>

definition has_suffix :: "string \<Rightarrow> string \<Rightarrow> bool" where "has_suffix s t = has_prefix (rev s) (rev t)"

text \<open>The entry of a directory that a path below it stands in.\<close>

definition entry_of :: "string \<Rightarrow> string \<Rightarrow> string option" where
  "entry_of dir p = (if has_prefix p (dir @ ''/'') then Some (takeWhile (\<lambda>c. c \<noteq> CHR ''/'') (drop (length dir + 1) p)) else None)"

text \<open>A directory also exists when one below it does.\<close>

definition dir_exists :: "string \<Rightarrow> Disk \<Rightarrow> bool" where
  "dir_exists dir d \<longleftrightarrow> dir \<in> set (d_dirs d) \<or> (\<exists>p \<in> set (d_dirs d). has_prefix p (dir @ ''/''))"

text \<open>\<open>os.ReadDir\<close>: the entries by name; \<open>None\<close> stands for a directory that does not exist.\<close>

definition read_dir :: "faults \<Rightarrow> string \<Rightarrow> Disk \<Rightarrow> string option + string list" where
  "read_dir flt dir d =
     (case flt ''readdir'' dir of
        Some err \<Rightarrow> Inl (Some err)
      | None \<Rightarrow>
          if dir_exists dir d
          then Inr (sort (remdups (List.map_filter (entry_of dir) (gm_keys (d_files d) @ d_dirs d)))) else Inl None)"

definition json_names :: "string list \<Rightarrow> string list" where
  "json_names entries = sort (filter (\<lambda>n. has_suffix n ''.json'') entries)"

text \<open>The records that can be read, in the order of their names.\<close>

definition read_traces :: "faults \<Rightarrow> TraceRecord codec \<Rightarrow> string \<Rightarrow> string list \<Rightarrow> Disk \<Rightarrow> TraceRecord list" where
  "read_traces flt co dir files d =
     List.map_filter (\<lambda>n. case ReadJSON flt co (path_clean (dir @ ''/'' @ n)) d of Inl err \<Rightarrow> None | Inr tr \<Rightarrow> Some tr) files"

subsection \<open>Snapshots\<close>

datatype ConsistencyMode = Strong | Weak

definition mode_text :: "ConsistencyMode \<Rightarrow> string" where
  "mode_text m = (case m of Strong \<Rightarrow> ''strong'' | Weak \<Rightarrow> ''weak'')"

record SnapshotRecord =
  ss_SnapshotID :: string
  ss_GeneratedAt :: int
  ss_Consistency :: string
  ss_TraceCount :: nat
  ss_Traces :: "TraceRecord list"
  ss_WorkerHealth :: any
  ss_MetricsData :: any

record state_env =
  se_Faults :: faults
  se_Traces :: "TraceRecord codec"
  se_Snapshots :: "SnapshotRecord codec"
  se_Stamp :: "int \<Rightarrow> string"

definition traces_dir :: "string \<Rightarrow> string" where "traces_dir rt = path_clean (rt @ ''/traces'')"

definition generateSnapshotInternal ::
    "state_env \<Rightarrow> string \<Rightarrow> int \<Rightarrow> any \<Rightarrow> any \<Rightarrow> ConsistencyMode \<Rightarrow> Disk \<Rightarrow> (SnapshotRecord option \<times> string option) \<times> Disk" where
  "generateSnapshotInternal se rt now workerHealth metricsData mode d =
     (case read_dir (se_Faults se) (traces_dir rt) d of
        Inl None \<Rightarrow>
          ((Some \<lparr>ss_SnapshotID = ''snap_empty'', ss_GeneratedAt = now, ss_Consistency = [], ss_TraceCount = 0, ss_Traces = [],
                  ss_WorkerHealth = AnyNil, ss_MetricsData = AnyNil\<rparr>, None), d)
      | Inl (Some err) \<Rightarrow> ((None, Some err), d)
      | Inr entries \<Rightarrow>
          let traces = read_traces (se_Faults se) (se_Traces se) (traces_dir rt) (json_names entries) d;
              snap = \<lparr>ss_SnapshotID = (if mode = Strong then ''snap_s_'' else ''snap_w_'') @ se_Stamp se now, ss_GeneratedAt = now,
                      ss_Consistency = mode_text mode, ss_TraceCount = length traces, ss_Traces = traces,
                      ss_WorkerHealth = workerHealth, ss_MetricsData = metricsData\<rparr>;
              (err, d') = WriteJSON (se_Faults se) (se_Snapshots se) now (store_path rt ''snapshots'' (ss_SnapshotID snap @ ''.json'')) snap d
          in ((Some snap, err), d'))"

definition GenerateSnapshot :: "state_env \<Rightarrow> string \<Rightarrow> int \<Rightarrow> any \<Rightarrow> any \<Rightarrow> Disk \<Rightarrow> (SnapshotRecord option \<times> string option) \<times> Disk" where
  "GenerateSnapshot se rt now workerHealth metricsData d = generateSnapshotInternal se rt now workerHealth metricsData Weak d"

text \<open>\<open>SnapshotToJSON\<close> encodes a snapshot as the writer does.\<close>

definition SnapshotToJSON :: "state_env \<Rightarrow> SnapshotRecord \<Rightarrow> string + string" where
  "SnapshotToJSON se snap = co_Encode (se_Snapshots se) snap"

record ReplayResult =
  rr_Traces :: "TraceRecord list"
  rr_TotalCount :: nat
  rr_SuccessCount :: nat
  rr_DeniedCount :: nat
  rr_ErrorCount :: nat

definition no_replay :: ReplayResult where
  "no_replay = \<lparr>rr_Traces = [], rr_TotalCount = 0, rr_SuccessCount = 0, rr_DeniedCount = 0, rr_ErrorCount = 0\<rparr>"

definition replay_add :: "TraceRecord \<Rightarrow> ReplayResult \<Rightarrow> ReplayResult" where
  "replay_add tr r =
     (let r = r\<lparr>rr_Traces := rr_Traces r @ [tr], rr_TotalCount := rr_TotalCount r + 1\<rparr> in
      if tr_Status tr = ctx_status_text CtxSuccess then r\<lparr>rr_SuccessCount := rr_SuccessCount r + 1\<rparr>
      else if tr_Status tr = ctx_status_text CtxDenied then r\<lparr>rr_DeniedCount := rr_DeniedCount r + 1\<rparr>
      else if tr_Status tr = ctx_status_text CtxError then r\<lparr>rr_ErrorCount := rr_ErrorCount r + 1\<rparr>
      else r)"

definition ReplayHistory :: "state_env \<Rightarrow> string \<Rightarrow> Disk \<Rightarrow> string + ReplayResult" where
  "ReplayHistory se rt d =
     (case read_dir (se_Faults se) (traces_dir rt) d of
        Inl None \<Rightarrow> Inr no_replay
      | Inl (Some err) \<Rightarrow> Inl err
      | Inr entries \<Rightarrow> Inr (fold replay_add (read_traces (se_Faults se) (se_Traces se) (traces_dir rt) (json_names entries) d) no_replay))"

text \<open>A file that is older than the cutoff is removed and counted, counted also when the removal fails; a directory has no time here.\<close>

definition compact_file :: "faults \<Rightarrow> string \<Rightarrow> int \<Rightarrow> string \<Rightarrow> nat \<times> Disk \<Rightarrow> nat \<times> Disk" where
  "compact_file flt dir cutoff name = (\<lambda>(n, d).
     let path = path_clean (dir @ ''/'' @ name) in
     case gm_get (d_files d) path of
       Some (text, t) \<Rightarrow>
         if has_suffix name ''.json'' \<and> flt ''info'' path = None \<and> t < cutoff
         then (n + 1, if flt ''remove'' path = None then d\<lparr>d_files := gm_del path (d_files d)\<rparr> else d) else (n, d)
     | None \<Rightarrow> (n, d))"

definition CompactTraces :: "faults \<Rightarrow> string \<Rightarrow> int \<Rightarrow> int \<Rightarrow> Disk \<Rightarrow> (nat \<times> string option) \<times> Disk" where
  "CompactTraces flt rt now olderThan d =
     (case read_dir flt (traces_dir rt) d of
        Inl err \<Rightarrow> ((0, Some (case err of None \<Rightarrow> ''no such file or directory'' | Some e \<Rightarrow> e)), d)
      | Inr entries \<Rightarrow>
          let (n, d') = fold (compact_file flt (traces_dir rt) (now - olderThan)) entries (0, d) in ((n, None), d'))"

definition LoadSnapshot :: "state_env \<Rightarrow> string \<Rightarrow> string \<Rightarrow> Disk \<Rightarrow> string + SnapshotRecord" where
  "LoadSnapshot se rt snapshotID d = ReadJSON (se_Faults se) (se_Snapshots se) (store_path rt ''snapshots'' (snapshotID @ ''.json'')) d"

definition ListSnapshots :: "faults \<Rightarrow> string \<Rightarrow> Disk \<Rightarrow> string + string list" where
  "ListSnapshots flt rt d =
     (case read_dir flt (path_clean (rt @ ''/snapshots'')) d of
        Inl None \<Rightarrow> Inr []
      | Inl (Some err) \<Rightarrow> Inl err
      | Inr entries \<Rightarrow> Inr (sort (map (\<lambda>n. take (length n - 5) n) (filter (\<lambda>n. has_suffix n ''.json'') entries))))"

subsection \<open>The consistency guard\<close>

record ConsistencyGuard =
  cg_mode :: ConsistencyMode
  cg_writing :: bool

definition NewConsistencyGuard :: ConsistencyGuard where "NewConsistencyGuard = \<lparr>cg_mode = Weak, cg_writing = False\<rparr>"

definition SetMode :: "ConsistencyMode \<Rightarrow> ConsistencyGuard \<Rightarrow> ConsistencyGuard" where "SetMode m cg = cg\<lparr>cg_mode := m\<rparr>"

definition BeginStrongWrite :: "ConsistencyGuard \<Rightarrow> bool \<times> ConsistencyGuard" where
  "BeginStrongWrite cg = (if cg_writing cg then (False, cg) else (True, cg\<lparr>cg_writing := True\<rparr>))"

definition EndStrongWrite :: "ConsistencyGuard \<Rightarrow> ConsistencyGuard" where "EndStrongWrite cg = cg\<lparr>cg_writing := False\<rparr>"

text \<open>A strong snapshot while another is written is neither a snapshot nor an error.\<close>

definition TakeStrongSnapshot ::
    "state_env \<Rightarrow> string \<Rightarrow> int \<Rightarrow> any \<Rightarrow> any \<Rightarrow> ConsistencyGuard \<Rightarrow> Disk \<Rightarrow> (SnapshotRecord option \<times> string option) \<times> ConsistencyGuard \<times> Disk" where
  "TakeStrongSnapshot se rt now workerHealth metricsData cg d =
     (case BeginStrongWrite cg of
        (False, cg) \<Rightarrow> ((None, None), cg, d)
      | (True, cg) \<Rightarrow> (let (r, d') = generateSnapshotInternal se rt now workerHealth metricsData Strong d in (r, EndStrongWrite cg, d')))"

definition TakeWeakSnapshot :: "state_env \<Rightarrow> string \<Rightarrow> int \<Rightarrow> any \<Rightarrow> Disk \<Rightarrow> (SnapshotRecord option \<times> string option) \<times> Disk" where
  "TakeWeakSnapshot se rt now metricsData d = generateSnapshotInternal se rt now AnyNil metricsData Weak d"

subsection \<open>What a write does\<close>

lemma WriteJSON_result:
  assumes "WriteJSON flt co now path x d = (e, d')"
  shows "(e = None \<and> (\<exists>text. co_Encode co x = Inr text \<and> d' = (mkdir_all (file_dir path) d)\<lparr>d_files := gm_put path (text, now) (d_files d)\<rparr>)) \<or>
    (e \<noteq> None \<and> d_files d' = d_files d)"
  using assms by (auto simp: WriteJSON_def mkdir_all_def Let_def split: option.splits sum.splits)

text \<open>A write without an error is read back; one with an error leaves every file as it was.\<close>

lemma write_read:
  assumes "WriteJSON flt co now path x d = (None, d')" "flt ''open'' path = None" "\<And>text. co_Encode co x = Inr text \<Longrightarrow> co_Decode co text = Inr x"
  shows "ReadJSON flt co path d' = Inr x"
  using WriteJSON_result [OF assms(1)] assms(2,3) by (auto simp: ReadJSON_def mkdir_all_def split: if_splits)

lemma save_load:
  assumes "SaveTrace flt co rt now ctx d = (None, d')" "\<And>op p. flt op p = None" "\<And>x text. co_Encode co x = Inr text \<Longrightarrow> co_Decode co text = Inr x"
  shows "LoadTrace flt co rt (rc_RequestID ctx) d' = Inr (trace_record ctx)"
  using write_read [OF assms(1) [unfolded SaveTrace_def saveTraceInternal_def] assms(2,3)] by (simp add: LoadTrace_def)

text \<open>The retry may write the trace and the error of the first attempt is returned.\<close>

lemma retry_reports_first:
  assumes "flt ''createtemp'' (path_base (store_path rt ''traces'' (rc_RequestID ctx @ ''.json''))) = Some err"
  shows "fst (SaveTraceWithRetry flt flt' co rt now ctx d) = Some err"
  using assms by (simp add: SaveTraceWithRetry_def saveTraceInternal_def WriteJSON_def)

subsection \<open>Paths of the store\<close>

lemma join_snoc: "join_with ''/'' (xs @ [a, b]) = join_with ''/'' (xs @ [a]) @ CHR ''/'' # b"
proof (induction xs)
  case (Cons x xs)
  then show ?case by (cases xs) simp_all
qed simp

lemma clean_below:
  assumes "has_prefix rt ''/''" "CHR ''/'' \<notin> set a" "normal a"
  shows "path_clean (rt @ ''/'' @ a) = CHR ''/'' # join_with ''/'' (walk_to [] (split_on (CHR ''/'') rt) @ [a])"
proof -
  have "has_prefix (rt @ ''/'' @ a) ''/''" using assms(1) by (cases rt) auto
  then have "path_clean (rt @ ''/'' @ a) = CHR ''/'' # join_with ''/'' (walk_to [] (split_on (CHR ''/'') (rt @ CHR ''/'' # a)))"
    by (simp add: rooted_clean)
  also have "walk_to [] (split_on (CHR ''/'') (rt @ CHR ''/'' # a)) = walk_to [] (split_on (CHR ''/'') rt) @ [a]"
    using assms(3) by (simp add: split_on_append split_on_single [OF assms(2)] walk_step_def normal_def)
  finally show ?thesis .
qed

definition trace_name :: "string \<Rightarrow> bool" where "trace_name k \<longleftrightarrow> CHR ''/'' \<notin> set k"

lemma json_normal: "normal (k @ ''.json'')"
  by (cases k; cases "tl k") (auto simp: normal_def)

text \<open>A file of a directory below the root.\<close>

lemma store_path_dir:
  assumes "has_prefix rt ''/''" "trace_name k" "CHR ''/'' \<notin> set a" "normal a"
  shows "store_path rt a (k @ ''.json'') = path_clean (rt @ ''/'' @ a) @ CHR ''/'' # k @ ''.json''"
    and "path_clean (path_clean (rt @ ''/'' @ a) @ ''/'' @ k @ ''.json'') = path_clean (rt @ ''/'' @ a) @ CHR ''/'' # k @ ''.json''"
proof -
  let ?bs = "walk_to [] (split_on (CHR ''/'') rt)" and ?dir = "path_clean (rt @ ''/'' @ a)"
  have n: "CHR ''/'' \<notin> set (k @ ''.json'')" using assms(2) by (simp add: trace_name_def)
  have t: "?dir = CHR ''/'' # join_with ''/'' (?bs @ [a])" by (rule clean_below [OF assms(1,3,4)])
  have w: "walk_to [] (split_on (CHR ''/'') (rt @ ''/'' @ a)) = ?bs @ [a]"
    using split_on_append [of "CHR ''/''" rt a] split_on_single [OF assms(3)] assms(4) by (simp add: walk_step_def normal_def)
  have "has_prefix (rt @ ''/'' @ a) ''/''" using assms(1) by (cases rt) auto
  from clean_below [OF this n json_normal] w
  have s: "path_clean ((rt @ ''/'' @ a) @ ''/'' @ k @ ''.json'') = ?dir @ CHR ''/'' # k @ ''.json''"
    using join_snoc [of ?bs a "k @ ''.json''"] t by simp
  then show "store_path rt a (k @ ''.json'') = ?dir @ CHR ''/'' # k @ ''.json''" by (simp add: store_path_def)
  have p: "\<forall>s \<in> set (?bs @ [a]). CHR ''/'' \<notin> set s \<and> s \<noteq> []" using resolved_parts assms(3,4) by (auto simp: normal_def)
  have "walk_to [] (split_on (CHR ''/'') ?dir) = ?bs @ [a]"
    using walk_join [OF p, of "[]"] walk_normal [of "?bs @ [a]" "[]"] resolved_parts assms(4)
    unfolding t by (auto simp: walk_step_def normal_def)
  with clean_below [of ?dir, OF _ n json_normal]
  show "path_clean (?dir @ ''/'' @ k @ ''.json'') = ?dir @ CHR ''/'' # k @ ''.json''"
    using join_snoc [of ?bs a "k @ ''.json''"] t by simp
qed

lemma store_path_traces:
  assumes "has_prefix rt ''/''" "trace_name k"
  shows "store_path rt ''traces'' (k @ ''.json'') = traces_dir rt @ CHR ''/'' # k @ ''.json''"
    and "path_clean (traces_dir rt @ ''/'' @ k @ ''.json'') = traces_dir rt @ CHR ''/'' # k @ ''.json''"
  using store_path_dir [OF assms, of "''traces''"] by (simp_all add: traces_dir_def normal_def)

text \<open>An identifier with a slash leaves the directory of the traces.\<close>

lemma trace_overwrites_meta:
  assumes "has_prefix rt ''/''"
  shows "store_path rt ''traces'' (''../meta'' @ ''.json'') = path_clean (rt @ ''/meta.json'')"
proof -
  have "has_prefix (rt @ ''/traces/../meta.json'') ''/''" "has_prefix (rt @ ''/meta.json'') ''/''" using assms by (cases rt; auto)+
  moreover have "walk_to [] (split_on (CHR ''/'') (rt @ ''/traces/../meta.json'')) = walk_to [] (split_on (CHR ''/'') (rt @ ''/meta.json''))"
    using split_on_append [of "CHR ''/''" rt "''traces/../meta.json''"] split_on_append [of "CHR ''/''" rt "''meta.json''"]
    by (simp add: walk_step_def)
  ultimately show ?thesis by (simp add: store_path_def rooted_clean)
qed

subsection \<open>Replay\<close>

lemma replay_fold:
  "fold replay_add ts r =
     \<lparr>rr_Traces = rr_Traces r @ ts, rr_TotalCount = rr_TotalCount r + length ts,
      rr_SuccessCount = rr_SuccessCount r + length (filter (\<lambda>t. tr_Status t = ''success'') ts),
      rr_DeniedCount = rr_DeniedCount r + length (filter (\<lambda>t. tr_Status t = ''denied'') ts),
      rr_ErrorCount = rr_ErrorCount r + length (filter (\<lambda>t. tr_Status t = ''error'') ts)\<rparr>"
  by (induction ts arbitrary: r) (auto simp: replay_add_def Let_def)

text \<open>
  What the store is for: a history of the traces, by identifier the context and the instant of the last save that
  succeeded, without those that were removed since.
\<close>

type_synonym history = "(string, RequestContext \<times> int) gomap"

datatype disk_event = TraceSaved RequestContext int | TraceRemoved string

fun history_event :: "disk_event \<Rightarrow> history \<Rightarrow> history" where
  "history_event (TraceSaved c t) m = gm_put (rc_RequestID c) (c, t) m"
| "history_event (TraceRemoved k) m = gm_del k m"

definition history :: "disk_event list \<Rightarrow> history \<Rightarrow> history" where "history evs m = fold history_event evs m"

definition history_traces :: "history \<Rightarrow> TraceRecord list" where
  "history_traces m = map (\<lambda>k. trace_record (fst (the (gm_get m k)))) (sort_key (\<lambda>k. k @ ''.json'') (gm_keys m))"

definition good_env :: "state_env \<Rightarrow> bool" where
  "good_env se \<longleftrightarrow> (\<forall>op p. se_Faults se op p = None)"

text \<open>A context whose identifier is a file name and whose trace survives encoding and decoding.\<close>

definition savable :: "state_env \<Rightarrow> RequestContext \<Rightarrow> bool" where
  "savable se c \<longleftrightarrow> trace_name (rc_RequestID c) \<and>
     (\<forall>s. co_Encode (se_Traces se) (trace_record c) = Inr s \<longrightarrow> co_Decode (se_Traces se) s = Inr (trace_record c))"

definition trace_path :: "string \<Rightarrow> string \<Rightarrow> string" where "trace_path rt k = traces_dir rt @ CHR ''/'' # k @ ''.json''"

text \<open>The disk holds a history: its files are the files of the traces, and no directory stands among them.\<close>

definition trace_file :: "state_env \<Rightarrow> string \<Rightarrow> string \<times> RequestContext \<times> int \<Rightarrow> string \<times> string \<times> int \<Rightarrow> bool" where
  "trace_file se rt = (\<lambda>(k, c, t) (p, text, t'). p = trace_path rt k \<and> t' = t \<and> trace_name k \<and> co_Decode (se_Traces se) text = Inr (trace_record c))"

definition holds :: "state_env \<Rightarrow> string \<Rightarrow> history \<Rightarrow> Disk \<Rightarrow> bool" where
  "holds se rt m d \<longleftrightarrow> gm_wf m \<and> list_all2 (trace_file se rt) m (d_files d) \<and>
     (\<forall>p \<in> set (d_dirs d). entry_of (traces_dir rt) p = None) \<and> (m \<noteq> [] \<longrightarrow> traces_dir rt \<in> set (d_dirs d))"

lemma trace_path_inj: "trace_path rt k = trace_path rt k' \<longleftrightarrow> k = k'"
  by (simp add: trace_path_def)

lemma file_dir_below:
  assumes "has_prefix rt ''/''" "trace_name k"
  shows "file_dir (path_clean (rt @ ''/'' @ a) @ CHR ''/'' # k @ ''.json'') = path_clean (rt @ ''/'' @ a)"
proof -
  let ?dir = "path_clean (rt @ ''/'' @ a)"
  have n: "CHR ''/'' \<notin> set (rev (k @ ''.json''))" using assms(2) by (simp add: trace_name_def)
  have "rev (?dir @ CHR ''/'' # k @ ''.json'') = rev (k @ ''.json'') @ CHR ''/'' # rev ?dir" by simp
  then have "dropWhile (\<lambda>c. c \<noteq> CHR ''/'') (rev (?dir @ CHR ''/'' # k @ ''.json'')) = CHR ''/'' # rev ?dir"
    using n by (simp only: dropWhile_append2 [of "rev (k @ ''.json'')" "\<lambda>c. c \<noteq> CHR ''/''"]) (simp add: dropWhile_append3 dropWhile_append split: if_splits)
  then have "file_dir (?dir @ CHR ''/'' # k @ ''.json'') = path_clean (?dir @ ''/'')" by (simp add: file_dir_def)
  moreover have r: "has_prefix (rt @ ''/'' @ a) ''/''" using assms(1) by (cases rt) auto
  then have p: "has_prefix ?dir ''/''" using path_clean_rooted by blast
  moreover have "path_clean (q @ ''/'') = path_clean q" if "has_prefix q ''/''" for q
  proof -
    have "has_prefix (q @ ''/'') ''/''" using that by (cases q) auto
    then show ?thesis using split_on_append [of "CHR ''/''" q "[]"] by (simp add: rooted_clean that walk_step_def)
  qed
  ultimately have "file_dir (?dir @ CHR ''/'' # k @ ''.json'') = path_clean ?dir" by simp
  moreover have "path_clean (path_clean q) = path_clean q" if "has_prefix q ''/''" for q
    using path_abs_resolved [of "''/''" q] path_clean_rooted [of q] rooted_clean [of q] that by (simp add: path_abs_def resolved_def)
  ultimately show ?thesis using r by simp
qed

lemma file_dir_trace: "has_prefix rt ''/'' \<Longrightarrow> trace_name k \<Longrightarrow> file_dir (trace_path rt k) = traces_dir rt"
  using file_dir_below [of rt k "''traces''"] by (simp add: trace_path_def traces_dir_def)

lemma join_last: "\<exists>pre. \<forall>x. join_with ''/'' (bs @ [x]) = pre @ x"
proof (induction bs)
  case (Cons b bs)
  then obtain pre where "\<forall>x. join_with ''/'' (bs @ [x]) = pre @ x" by blast
  then have "\<forall>x. join_with ''/'' ((b # bs) @ [x]) = (b @ ''/'' @ pre) @ x" by (cases bs) auto
  then show ?case by blast
qed (auto intro: exI [of _ "[]"])

lemma entry_of_trace:
  assumes "trace_name k"
  shows "entry_of (traces_dir rt) (trace_path rt k) = Some (k @ ''.json'')"
proof -
  have "has_prefix (traces_dir rt @ CHR ''/'' # k @ ''.json'') (traces_dir rt @ ''/'')"
    by (auto simp: has_prefix_iff)
  moreover have "takeWhile (\<lambda>c. c \<noteq> CHR ''/'') (k @ ''.json'') = k @ ''.json''"
    using assms by (auto simp: trace_name_def takeWhile_eq_all_conv)
  ultimately show ?thesis by (simp add: entry_of_def trace_path_def)
qed

lemma entry_of_dirs:
  assumes "has_prefix rt ''/''"
  shows "entry_of (traces_dir rt) (traces_dir rt) = None" "entry_of (traces_dir rt) (path_clean (rt @ ''/snapshots'')) = None"
proof -
  have "length (traces_dir rt @ ''/'' @ t) > length (traces_dir rt)" for t by simp
  then show "entry_of (traces_dir rt) (traces_dir rt) = None" by (auto simp: entry_of_def has_prefix_iff)
  obtain pre where pre: "\<forall>x. join_with ''/'' (walk_to [] (split_on (CHR ''/'') rt) @ [x]) = pre @ x" using join_last by blast
  have "traces_dir rt = CHR ''/'' # pre @ ''traces''" "path_clean (rt @ ''/snapshots'') = CHR ''/'' # pre @ ''snapshots''"
    using clean_below [OF assms, of "''traces''"] clean_below [OF assms, of "''snapshots''"] pre by (simp_all add: traces_dir_def normal_def)
  then show "entry_of (traces_dir rt) (path_clean (rt @ ''/snapshots'')) = None" by (auto simp: entry_of_def has_prefix_iff)
qed

lemma sort_map_key: "sort (map f xs) = map f (sort_key f xs)"
  by (rule properties_for_sort) simp_all

lemma map_filter_all: "(\<And>x. x \<in> set xs \<Longrightarrow> f x = Some (g x)) \<Longrightarrow> List.map_filter f xs = map g xs"
  by (induction xs) (simp_all add: List.map_filter_simps)

lemma map_filter_none: "(\<And>x. x \<in> set xs \<Longrightarrow> f x = None) \<Longrightarrow> List.map_filter f xs = []"
  by (induction xs) (simp_all add: List.map_filter_simps)

lemma trace_files_keys: "list_all2 (trace_file se rt) m fs \<Longrightarrow> gm_keys fs = map (trace_path rt) (gm_keys m)"
  by (induction rule: list_all2_induct) (auto simp: trace_file_def gm_keys_def)

lemma trace_files_get:
  "list_all2 (trace_file se rt) m fs \<Longrightarrow> gm_get m k = Some (c, t) \<Longrightarrow>
    \<exists>text. gm_get fs (trace_path rt k) = Some (text, t) \<and> co_Decode (se_Traces se) text = Inr (trace_record c)"
  by (induction rule: list_all2_induct) (auto simp: trace_file_def gm_get_def trace_path_inj split: if_splits)

lemma trace_files_names: "list_all2 (trace_file se rt) m fs \<Longrightarrow> k \<in> set (gm_keys m) \<Longrightarrow> trace_name k"
  by (induction rule: list_all2_induct) (auto simp: trace_file_def gm_keys_def)

lemma trace_files_put:
  "list_all2 (trace_file se rt) m fs \<Longrightarrow> trace_name k \<Longrightarrow> co_Decode (se_Traces se) text = Inr (trace_record c) \<Longrightarrow>
    list_all2 (trace_file se rt) (gm_put k (c, t) m) (gm_put (trace_path rt k) (text, t) fs)"
  by (induction rule: list_all2_induct) (auto simp: trace_file_def gm_put_def trace_path_inj)

lemma holds_keys: "holds se rt m d \<Longrightarrow> gm_keys (d_files d) = map (trace_path rt) (gm_keys m)"
  unfolding holds_def using trace_files_keys by blast

lemma holds_trace_name: "holds se rt m d \<Longrightarrow> k \<in> set (gm_keys m) \<Longrightarrow> trace_name k"
  unfolding holds_def using trace_files_names by blast

text \<open>A save that succeeds puts its trace; one that fails leaves the history as it was.\<close>

lemma holds_save:
  assumes rt: "has_prefix rt ''/''" and sv: "savable se c" and h: "holds se rt m d"
    and s: "saveTraceInternal flt (se_Traces se) rt now c d = (e, d')"
  shows "holds se rt (if e = None then gm_put (rc_RequestID c) (c, now) m else m) d'"
proof -
  let ?k = "rc_RequestID c"
  have k: "trace_name ?k" using sv by (simp add: savable_def)
  have p: "store_path rt ''traces'' (?k @ ''.json'') = trace_path rt ?k" using store_path_traces(1) [OF rt k] by (simp add: trace_path_def)
  note w = s [unfolded saveTraceInternal_def WriteJSON_def p file_dir_trace [OF rt k]]
  have dirs: "set (d_dirs d') \<subseteq> insert (traces_dir rt) (set (d_dirs d))" "set (d_dirs d) \<subseteq> set (d_dirs d')"
    using w by (auto simp: mkdir_all_def Let_def split: option.splits sum.splits if_splits)
  have entries: "\<forall>q \<in> set (d_dirs d'). entry_of (traces_dir rt) q = None"
    using h dirs(1) entry_of_dirs(1) [OF rt] by (auto simp: holds_def)
  show ?thesis
  proof (cases e)
    case None
    then obtain tx where t: "co_Encode (se_Traces se) (trace_record c) = Inr tx" "traces_dir rt \<in> set (d_dirs d')"
      "d_files d' = gm_put (trace_path rt ?k) (tx, now) (d_files d)"
      using w by (auto simp: mkdir_all_def Let_def split: option.splits sum.splits if_splits)
    then have "co_Decode (se_Traces se) tx = Inr (trace_record c)" using sv by (simp add: savable_def)
    then show ?thesis using h t entries k None by (simp add: holds_def trace_files_put)
  next
    case (Some err)
    then have "d_files d' = d_files d" using w by (auto simp: mkdir_all_def Let_def split: option.splits sum.splits if_splits)
    then show ?thesis using h entries dirs(2) Some by (auto simp: holds_def)
  qed
qed

lemma holds_entries:
  assumes h: "holds se rt m d"
  shows "List.map_filter (entry_of (traces_dir rt)) (gm_keys (d_files d) @ d_dirs d) = map (\<lambda>k. k @ ''.json'') (gm_keys m)"
proof -
  have "List.map_filter (entry_of (traces_dir rt)) (map (trace_path rt) ks) = map (\<lambda>k. k @ ''.json'') ks" if "\<forall>k \<in> set ks. trace_name k" for ks
    using that map_filter_all [of ks "entry_of (traces_dir rt) \<circ> trace_path rt" "\<lambda>k. k @ ''.json''"] entry_of_trace
    by (simp add: List.map_filter_def comp_def)
  moreover have "List.map_filter (entry_of (traces_dir rt)) (d_dirs d) = []" using h by (intro map_filter_none) (auto simp: holds_def)
  ultimately show ?thesis using holds_trace_name [OF h] by (simp add: holds_keys [OF h] List.map_filter_def)
qed

lemma holds_dir_entries:
  assumes h: "holds se rt m d"
  shows "sort (remdups (List.map_filter (entry_of (traces_dir rt)) (gm_keys (d_files d) @ d_dirs d))) =
    map (\<lambda>k. k @ ''.json'') (sort_key (\<lambda>k. k @ ''.json'') (gm_keys m))"
proof -
  have "distinct (gm_keys m)" using h by (simp add: holds_def gm_wf_def)
  then have "remdups (map (\<lambda>k. k @ ''.json'') (gm_keys m)) = map (\<lambda>k. k @ ''.json'') (gm_keys m)"
    by (simp add: distinct_map inj_on_def distinct_remdups_id)
  then show ?thesis unfolding holds_entries [OF h] by (simp only: sort_map_key [of "\<lambda>k. k @ ''.json''"])
qed

lemma holds_names:
  assumes h: "holds se rt m d"
  shows "json_names (sort (remdups (List.map_filter (entry_of (traces_dir rt)) (gm_keys (d_files d) @ d_dirs d)))) =
    map (\<lambda>k. k @ ''.json'') (sort_key (\<lambda>k. k @ ''.json'') (gm_keys m))"
proof -
  let ?ns = "map (\<lambda>k. k @ ''.json'') (sort_key (\<lambda>k. k @ ''.json'') (gm_keys m))"
  have "filter (\<lambda>n. has_suffix n ''.json'') ?ns = ?ns" by (rule filter_True) (auto simp: has_suffix_def)
  moreover have "sorted ?ns" by simp
  ultimately show ?thesis unfolding holds_dir_entries [OF h] by (simp add: json_names_def sort_key_id_if_sorted)
qed

lemma holds_traces:
  assumes h: "holds se rt m d" and g: "good_env se" and rt: "has_prefix rt ''/''" and n: "\<forall>k \<in> set ks. k \<in> set (gm_keys m)"
  shows "read_traces (se_Faults se) (se_Traces se) (traces_dir rt) (map (\<lambda>k. k @ ''.json'') ks) d = map (\<lambda>k. trace_record (fst (the (gm_get m k)))) ks"
proof -
  have "ReadJSON (se_Faults se) (se_Traces se) (path_clean (traces_dir rt @ ''/'' @ k @ ''.json'')) d = Inr (trace_record (fst (the (gm_get m k))))"
    if k: "k \<in> set ks" for k
  proof -
    obtain c t where c: "gm_get m k = Some (c, t)" using n k gm_get_None_iff [of m k] by fastforce
    then obtain tx where "gm_get (d_files d) (trace_path rt k) = Some (tx, t)" "co_Decode (se_Traces se) tx = Inr (trace_record c)"
      using h trace_files_get unfolding holds_def by blast
    moreover have "trace_name k" using holds_trace_name [OF h] n k by blast
    ultimately show ?thesis using g c store_path_traces(2) [OF rt, of k] by (simp add: ReadJSON_def good_env_def trace_path_def)
  qed
  then show ?thesis unfolding read_traces_def List.map_filter_def by (induction ks) auto
qed

text \<open>A replay gives the history.\<close>

lemma holds_replay:
  assumes g: "good_env se" and rt: "has_prefix rt ''/''" and h: "holds se rt m d"
  shows "ReplayHistory se rt d = Inr (fold replay_add (history_traces m) no_replay)"
proof (cases "m = []")
  case True
  have "json_names (sort (remdups (List.map_filter (entry_of (traces_dir rt)) (gm_keys (d_files d) @ d_dirs d)))) = []"
    using holds_names [OF h] True by (simp add: gm_keys_def)
  then show ?thesis using g True by (simp add: ReplayHistory_def read_dir_def good_env_def read_traces_def gm_keys_def history_traces_def List.map_filter_simps)
next
  case False
  have "read_dir (se_Faults se) (traces_dir rt) d =
      Inr (sort (remdups (List.map_filter (entry_of (traces_dir rt)) (gm_keys (d_files d) @ d_dirs d))))"
    using h g False by (simp add: read_dir_def dir_exists_def good_env_def holds_def)
  then show ?thesis
    using holds_names [OF h] holds_traces [OF h g rt, of "sort_key (\<lambda>k. k @ ''.json'') (gm_keys m)"] by (simp add: ReplayHistory_def history_traces_def)
qed

lemma history_traces_count: "gm_wf m \<Longrightarrow> length (history_traces m) = card (set (gm_keys m))"
  by (simp add: history_traces_def gm_wf_def distinct_card)

text \<open>A compaction removes what the specification says.\<close>

definition compacts :: "faults \<Rightarrow> string \<Rightarrow> int \<Rightarrow> (string, string \<times> int) gomap \<Rightarrow> string \<Rightarrow> bool" where
  "compacts flt dir cutoff fs n \<longleftrightarrow> has_suffix n ''.json'' \<and> flt ''info'' (path_clean (dir @ ''/'' @ n)) = None \<and>
     flt ''remove'' (path_clean (dir @ ''/'' @ n)) = None \<and> (\<exists>text t. gm_get fs (path_clean (dir @ ''/'' @ n)) = Some (text, t) \<and> t < cutoff)"

lemma gm_get_filter_keys: "gm_get (filter (\<lambda>(p, x). P p) m) k = (if P k then gm_get m k else None)"
  by (induction m) (auto simp: gm_get_def)

lemma compact_fold:
  "\<exists>j. fold (compact_file flt dir cutoff) ns (i, d) =
    (j, d\<lparr>d_files := filter (\<lambda>(p, x). p \<notin> (\<lambda>n. path_clean (dir @ ''/'' @ n)) ` {n \<in> set ns. compacts flt dir cutoff (d_files d) n}) (d_files d)\<rparr>)"
proof (induction ns rule: rev_induct)
  case Nil
  have "filter (\<lambda>(p, x). True) (d_files d) = d_files d" by (simp add: case_prod_beta)
  then show ?case by simp
next
  case (snoc n ns)
  let ?path = "\<lambda>n. path_clean (dir @ ''/'' @ n)"
  let ?N = "\<lambda>ns. ?path ` {n \<in> set ns. compacts flt dir cutoff (d_files d) n}"
  let ?fs = "filter (\<lambda>(p, x). p \<notin> ?N ns) (d_files d)"
  obtain j where j: "fold (compact_file flt dir cutoff) ns (i, d) = (j, d\<lparr>d_files := ?fs\<rparr>)" using snoc by blast
  have get: "gm_get ?fs p = (if p \<in> ?N ns then None else gm_get (d_files d) p)" for p
    using gm_get_filter_keys [of "\<lambda>p. p \<notin> ?N ns" "d_files d" p] by auto
  show ?case
  proof (cases "compacts flt dir cutoff (d_files d) n \<and> ?path n \<notin> ?N ns")
    case True
    then obtain tx t where "gm_get ?fs (?path n) = Some (tx, t)" "t < cutoff" using get [of "?path n"] by (auto simp: compacts_def)
    then have "compact_file flt dir cutoff n (j, d\<lparr>d_files := ?fs\<rparr>) = (j + 1, d\<lparr>d_files := gm_del (?path n) ?fs\<rparr>)"
      using True by (simp add: compact_file_def compacts_def Let_def)
    moreover have "gm_del (?path n) ?fs = filter (\<lambda>(p, x). p \<notin> ?N (ns @ [n])) (d_files d)"
      using True by (auto simp: gm_del_def AList.delete_eq intro!: filter_cong)
    ultimately show ?thesis using j by simp
  next
    case False
    then have "?N (ns @ [n]) = ?N ns" by auto
    moreover have "\<exists>j'. compact_file flt dir cutoff n (j, d\<lparr>d_files := ?fs\<rparr>) = (j', d\<lparr>d_files := ?fs\<rparr>)"
      using False get [of "?path n"] by (auto simp: compact_file_def compacts_def Let_def split: option.split)
    ultimately show ?thesis using j by auto
  qed
qed

lemma trace_files_filter:
  "list_all2 (trace_file se rt) m fs \<Longrightarrow> (\<And>k c t x. (k, c, t) \<in> set m \<Longrightarrow> P (k, c, t) \<longleftrightarrow> Q (trace_path rt k, x)) \<Longrightarrow>
    list_all2 (trace_file se rt) (filter P m) (filter Q fs)"
  by (induction rule: list_all2_induct) (force simp: trace_file_def)+

lemma gm_wf_filter: "gm_wf m \<Longrightarrow> gm_wf (filter P m)"
  by (auto simp: gm_wf_def gm_keys_def distinct_map_filter)

text \<open>A file that is removed leaves the history.\<close>

lemma trace_files_del:
  "list_all2 (trace_file se rt) m fs \<Longrightarrow> list_all2 (trace_file se rt) (gm_del k m) (gm_del (trace_path rt k) fs)"
  unfolding gm_del_def AList.delete_eq by (rule trace_files_filter) (auto simp: trace_path_inj)

lemma holds_remove: "holds se rt m d \<Longrightarrow> holds se rt (gm_del k m) (d\<lparr>d_files := gm_del (trace_path rt k) (d_files d)\<rparr>)"
  by (auto simp: holds_def trace_files_del) (simp add: gm_del_def AList.delete_eq gm_wf_filter)

text \<open>A compaction that nobody interrupts leaves the traces that are not older than the cutoff and those it may not remove.\<close>

lemma holds_compact:
  assumes rt: "has_prefix rt ''/''" and h: "holds se rt m d" and s: "CompactTraces flt rt now olderThan d = ((n, None), d')"
  defines "cutoff \<equiv> now - olderThan"
  shows "holds se rt (filter (\<lambda>(k, c, t). cutoff \<le> t \<or> flt ''info'' (trace_path rt k) \<noteq> None \<or> flt ''remove'' (trace_path rt k) \<noteq> None) m) d'"
proof -
  let ?path = "\<lambda>n. path_clean (traces_dir rt @ ''/'' @ n)"
  let ?N = "?path ` {n \<in> (\<lambda>k. k @ ''.json'') ` set (gm_keys m). compacts flt (traces_dir rt) cutoff (d_files d) n}"
  have path: "?path (k @ ''.json'') = trace_path rt k" if "k \<in> set (gm_keys m)" for k
    using store_path_traces(2) [OF rt holds_trace_name [OF h that]] by (simp add: trace_path_def)
  have "(cutoff \<le> t \<or> flt ''info'' (trace_path rt k) \<noteq> None \<or> flt ''remove'' (trace_path rt k) \<noteq> None) \<longleftrightarrow> trace_path rt k \<notin> ?N"
    if k: "(k, c, t) \<in> set m" for k c t
  proof -
    have in_keys: "k \<in> set (gm_keys m)" using k by (force simp: gm_keys_def)
    have "gm_get m k = Some (c, t)" using h k by (simp add: holds_def gm_wf_mem_get)
    then obtain tx where "gm_get (d_files d) (trace_path rt k) = Some (tx, t)" using h trace_files_get unfolding holds_def by blast
    then have "compacts flt (traces_dir rt) cutoff (d_files d) (k @ ''.json'') \<longleftrightarrow>
        t < cutoff \<and> flt ''info'' (trace_path rt k) = None \<and> flt ''remove'' (trace_path rt k) = None"
      using path [OF in_keys] by (auto simp: compacts_def has_suffix_def)
    moreover have "trace_path rt k \<in> ?N \<longleftrightarrow> compacts flt (traces_dir rt) cutoff (d_files d) (k @ ''.json'')"
      using in_keys path by (auto simp: trace_path_inj image_iff)
    ultimately show ?thesis by auto
  qed
  then have "list_all2 (trace_file se rt)
      (filter (\<lambda>(k, c, t). cutoff \<le> t \<or> flt ''info'' (trace_path rt k) \<noteq> None \<or> flt ''remove'' (trace_path rt k) \<noteq> None) m)
      (filter (\<lambda>(p, x). p \<notin> ?N) (d_files d))"
    using h by (intro trace_files_filter) (auto simp: holds_def)
  moreover have "d' = d\<lparr>d_files := filter (\<lambda>(p, x). p \<notin> ?N) (d_files d)\<rparr>"
  proof -
    obtain entries where e: "read_dir flt (traces_dir rt) d = Inr entries"
      using s by (cases "read_dir flt (traces_dir rt) d") (auto simp: CompactTraces_def)
    then have "entries = map (\<lambda>k. k @ ''.json'') (sort_key (\<lambda>k. k @ ''.json'') (gm_keys m))"
      using holds_dir_entries [OF h] by (auto simp: read_dir_def split: option.splits if_splits)
    then have "set entries = (\<lambda>k. k @ ''.json'') ` set (gm_keys m)" by simp
    then show ?thesis using compact_fold [of flt "traces_dir rt" cutoff entries 0 d] s e
      by (auto simp: CompactTraces_def cutoff_def split: prod.splits)
  qed
  ultimately show ?thesis using h by (auto simp: holds_def gm_wf_filter)
qed

text \<open>Saves, each at an instant and with the faults it meets: the contexts of those that succeed, and the disk.\<close>

fun save_all :: "state_env \<Rightarrow> string \<Rightarrow> (RequestContext \<times> int \<times> faults) list \<Rightarrow> Disk \<Rightarrow> disk_event list \<times> Disk" where
  "save_all se rt [] d = ([], d)"
| "save_all se rt ((c, now, flt) # saves) d =
     (let (e, d1) = SaveTrace flt (se_Traces se) rt now c d; (evs, d2) = save_all se rt saves d1
      in (if e = None then TraceSaved c now # evs else evs, d2))"

lemma save_all_holds:
  "has_prefix rt ''/'' \<Longrightarrow> \<forall>(c, now, flt) \<in> set saves. savable se c \<Longrightarrow> holds se rt m d \<Longrightarrow>
    holds se rt (history (fst (save_all se rt saves d)) m) (snd (save_all se rt saves d))"
proof (induction se rt saves d arbitrary: m rule: save_all.induct)
  case (2 se rt c now flt saves d)
  obtain e d1 where s: "SaveTrace flt (se_Traces se) rt now c d = (e, d1)" by fastforce
  have "holds se rt (if e = None then gm_put (rc_RequestID c) (c, now) m else m) d1"
    using holds_save [OF "2.prems"(1) _ "2.prems"(3) s [unfolded SaveTrace_def]] "2.prems"(2) by simp
  from "2.IH" [OF s [symmetric] refl "2.prems"(1) _ this] "2.prems"(2) show ?case
    by (auto simp: s history_def split_beta Let_def)
qed (simp add: history_def)

lemma holds_new:
  assumes "has_prefix rt ''/''"
  shows "holds se rt [] (NewStateStore flt rt \<lparr>d_files = [], d_dirs = []\<rparr>)"
  using entry_of_dirs(2) [OF assms] by (auto simp: holds_def NewStateStore_def mkdir_all_def Let_def gm_wf_def gm_keys_def)

text \<open>C36:
  The traces of a store, under a root that is an absolute path, for identifiers without a slash and an encoding of their
  records that decodes: after any saves, each with its own faults of the disk, a replay that meets no fault
  gives for every identifier the trace of the last save that succeeded, in the order of the file names, and counts them
  by their status. A save that fails leaves the trace before it.
\<close>
theorem replay_saved:
  fixes flt0 :: faults
  assumes "good_env se" "has_prefix rt ''/''" "\<forall>(c, now, flt) \<in> set saves. savable se c"
  defines "store \<equiv> NewStateStore flt0 rt \<lparr>d_files = [], d_dirs = []\<rparr>"
  defines "m \<equiv> history (fst (save_all se rt saves store)) []"
  shows "ReplayHistory se rt (snd (save_all se rt saves store)) =
    Inr \<lparr>rr_Traces = history_traces m, rr_TotalCount = card (set (gm_keys m)),
      rr_SuccessCount = length (filter (\<lambda>t. tr_Status t = ''success'') (history_traces m)),
      rr_DeniedCount = length (filter (\<lambda>t. tr_Status t = ''denied'') (history_traces m)),
      rr_ErrorCount = length (filter (\<lambda>t. tr_Status t = ''error'') (history_traces m))\<rparr>"
proof -
  have h: "holds se rt m (snd (save_all se rt saves store))"
    unfolding m_def store_def by (rule save_all_holds [OF assms(2,3) holds_new [OF assms(2)]])
  then have "length (history_traces m) = card (set (gm_keys m))" by (simp add: holds_def history_traces_count)
  then show ?thesis using holds_replay [OF assms(1,2) h] by (simp add: replay_fold no_replay_def)
qed

text \<open>An example: contexts are encoded by their identifier, and the last save meets a full disk.\<close>

definition plain_context :: "string \<Rightarrow> RequestContext" where "plain_context k = NewRequestContext 0 k [] [] [] [] []"

definition plain_env :: state_env where
  "plain_env = \<lparr>se_Faults = (\<lambda>_ _. None), se_Traces = \<lparr>co_Encode = (\<lambda>t. Inr (tr_RequestID t)), co_Decode = (\<lambda>s. Inr (trace_record (plain_context s)))\<rparr>,
     se_Snapshots = \<lparr>co_Encode = (\<lambda>_. Inl ''none''), co_Decode = (\<lambda>_. Inl ''none'')\<rparr>, se_Stamp = (\<lambda>_. [])\<rparr>"

lemma plain_savable: "CHR ''/'' \<notin> set k \<Longrightarrow> savable plain_env (plain_context k)"
  by (simp add: savable_def plain_env_def plain_context_def trace_name_def trace_record_def NewRequestContext_def)

lemma replay_saved_witness:
  "\<exists>ts. ReplayHistory plain_env ''/s'' (snd (save_all plain_env ''/s''
      [(plain_context ''b'', 1, \<lambda>_ _. None), (plain_context ''a'', 2, \<lambda>_ _. None), (plain_context ''c'', 3, \<lambda>_ _. Some ''disk full'')]
      (NewStateStore (\<lambda>_ _. None) ''/s'' \<lparr>d_files = [], d_dirs = []\<rparr>))) =
    Inr \<lparr>rr_Traces = ts, rr_TotalCount = 2, rr_SuccessCount = 0, rr_DeniedCount = 0, rr_ErrorCount = 0\<rparr> \<and> map tr_RequestID ts = [''a'', ''b'']"
proof -
  let ?saves = "[(plain_context ''b'', 1, \<lambda>_ _. None), (plain_context ''a'', 2, \<lambda>_ _. None), (plain_context ''c'', 3, \<lambda>_ _. Some ''disk full'')]"
  let ?d = "NewStateStore (\<lambda>_ _. None) ''/s'' \<lparr>d_files = [], d_dirs = []\<rparr>"
  have r: "rc_RequestID (plain_context k) = k" "tr_Status (trace_record (plain_context k)) = ''pending''"
      "tr_RequestID (trace_record (plain_context k)) = k" for k
    by (simp_all add: plain_context_def NewRequestContext_def trace_record_def)
  have "fst (save_all plain_env ''/s'' ?saves ?d) = [TraceSaved (plain_context ''b'') 1, TraceSaved (plain_context ''a'') 2]"
    by (simp add: SaveTrace_def saveTraceInternal_def WriteJSON_def plain_env_def Let_def)
  then have m: "history (fst (save_all plain_env ''/s'' ?saves ?d)) [] = [(''b'', plain_context ''b'', 1), (''a'', plain_context ''a'', 2)]"
    by (simp add: history_def r gm_put_def)
  have g: "good_env plain_env" by (simp add: good_env_def plain_env_def)
  have "\<forall>(c, now, flt) \<in> set ?saves. savable plain_env c" by (simp add: plain_savable)
  from replay_saved [OF g _ this, of "''/s''" "\<lambda>_ _. None"] show ?thesis
    unfolding m by (simp add: history_traces_def gm_keys_def gm_get_def r)
qed

end
