(* ===== verification/Run_Certify.thy ===== *)
theory Run_Certify
  imports Run_Kernel Run_State
begin

text \<open>
  The certification of the kernel: the compliance suite (\<open>runtime/compliance\<close>) and the validation of a release
  (\<open>runtime/validation\<close>). A verifier drives an engine and waits; what it concludes is a function of what it saw: the
  engine that each call finds, the errors of its calls, the replay of the history, the clock. These are arguments; the
  conclusions, the scores and the levels are as written. Failures to make an engine, which end the test, are left out.
\<close>

subsection \<open>Compliance reports\<close>

record FairnessReport =
  cf_MaxStarvationMs :: rat
  cf_AverageWaitMs :: rat
  cf_FairnessEvents :: nat
  cf_Violations :: nat
  cf_SessionStats :: "(string, nat) gomap"
  cf_CompliancePass :: bool
  cf_Timestamp :: int

record ReplayComplianceReport =
  cr_OriginalHash :: string
  cr_ReplayHash :: string
  cr_OrderingMatch :: bool
  cr_PolicyMatch :: bool
  cr_StateMatch :: bool
  cr_CompliancePass :: bool
  cr_Timestamp :: int

record SLAComplianceReport =
  cs_P50 :: rat
  cs_P95 :: rat
  cs_P99 :: rat
  cs_Max :: rat
  cs_SampleCount :: nat
  cs_Violations :: nat
  cs_SLAViolation :: bool
  cs_CompliancePass :: bool
  cs_Timestamp :: int

record PolicyTestResult =
  ct_TestName :: string
  ct_ExpectedDeny :: bool
  ct_WasDenied :: bool
  ct_Bypassed :: bool
  ct_Error :: string

record PolicyComplianceReport =
  cp_TestsExecuted :: nat
  cp_DenyEvents :: nat
  cp_BypassDetected :: nat
  cp_Details :: "PolicyTestResult list"
  cp_CompliancePass :: bool
  cp_Timestamp :: int

record ShutdownComplianceReport =
  ch_RequestsInflight :: nat
  ch_RequestsCompleted :: nat
  ch_RequestsLost :: nat
  ch_StateFlushSuccess :: bool
  ch_CompliancePass :: bool
  ch_Timestamp :: int

record KernelComplianceScore =
  ck_Version :: string
  ck_TotalScore :: nat
  ck_Level :: string
  ck_FairnessScore :: nat
  ck_ReplayScore :: nat
  ck_SLAScore :: nat
  ck_PolicyScore :: nat
  ck_ShutdownScore :: nat
  ck_DomainResults :: "(string, string) gomap"
  ck_Timestamp :: int

record ComplianceReport =
  cx_Score :: KernelComplianceScore
  cx_Fairness :: FairnessReport
  cx_Replay :: ReplayComplianceReport
  cx_SLA :: SLAComplianceReport
  cx_Policy :: PolicyComplianceReport
  cx_Shutdown :: ShutdownComplianceReport

definition PassBool :: "bool \<Rightarrow> string" where "PassBool pass = (if pass then ''PASS'' else ''FAIL'')"

definition CertificationLevel :: "nat \<Rightarrow> string" where
  "CertificationLevel score =
     (if score \<ge> 95 then ''Production Certified'' else if score \<ge> 85 then ''Production Ready''
      else if score \<ge> 70 then ''Limited Production'' else ''Non-Compliant'')"

definition weight :: "bool \<Rightarrow> nat \<Rightarrow> nat" where "weight pass n = (if pass then n else 0)"

definition score_Compute ::
    "int \<Rightarrow> FairnessReport \<Rightarrow> ReplayComplianceReport \<Rightarrow> SLAComplianceReport \<Rightarrow> PolicyComplianceReport \<Rightarrow> ShutdownComplianceReport \<Rightarrow> KernelComplianceScore" where
  "score_Compute now f r s p sh =
     (let fScore = weight (cf_CompliancePass f) 20; rScore = weight (cr_CompliancePass r) 25; sScore = weight (cs_CompliancePass s) 20;
          pScore = weight (cp_CompliancePass p) 20; shScore = weight (ch_CompliancePass sh) 15;
          total = fScore + rScore + sScore + pScore + shScore
      in \<lparr>ck_Version = ''0.6.1'', ck_TotalScore = total, ck_Level = CertificationLevel total, ck_FairnessScore = fScore,
          ck_ReplayScore = rScore, ck_SLAScore = sScore, ck_PolicyScore = pScore, ck_ShutdownScore = shScore,
          ck_DomainResults =
            [(''fairness'', PassBool (cf_CompliancePass f)), (''replay'', PassBool (cr_CompliancePass r)), (''sla'', PassBool (cs_CompliancePass s)),
             (''policy'', PassBool (cp_CompliancePass p)), (''shutdown'', PassBool (ch_CompliancePass sh))],
          ck_Timestamp = now\<rparr>)"

definition FullReport ::
    "int \<Rightarrow> FairnessReport \<Rightarrow> ReplayComplianceReport \<Rightarrow> SLAComplianceReport \<Rightarrow> PolicyComplianceReport \<Rightarrow> ShutdownComplianceReport \<Rightarrow> ComplianceReport" where
  "FullReport now f r s p sh =
     \<lparr>cx_Score = score_Compute now f r s p sh, cx_Fairness = f, cx_Replay = r, cx_SLA = s, cx_Policy = p, cx_Shutdown = sh\<rparr>"

definition domain_result :: "ComplianceReport \<Rightarrow> string \<Rightarrow> string" where
  "domain_result cr d = (case gm_get (ck_DomainResults (cx_Score cr)) d of None \<Rightarrow> [] | Some s \<Rightarrow> s)"

definition report_Summary :: "ComplianceReport \<Rightarrow> string" where
  "report_Summary cr =
     ''Kernel Score: '' @ int_digits (int (ck_TotalScore (cx_Score cr))) @ ''/100 ['' @ ck_Level (cx_Score cr) @ '']'' @ [CHR 0x0A] @
     ''Fairness: '' @ domain_result cr ''fairness'' @ '' | Replay: '' @ domain_result cr ''replay'' @ '' | SLA: '' @ domain_result cr ''sla'' @
     '' | Policy: '' @ domain_result cr ''policy'' @ '' | Shutdown: '' @ domain_result cr ''shutdown''"

subsection \<open>The verifiers\<close>

text \<open>Fairness: requests are put into a queue at the times given, and one is taken; events are those of the callback.\<close>

record fairness_tally =
  ft_Events :: nat
  ft_Violations :: nat
  ft_MaxStarvation :: rat
  ft_TotalWait :: rat

definition tally_violation :: "FairnessViolation \<Rightarrow> fairness_tally \<Rightarrow> fairness_tally" where
  "tally_violation fv t =
     \<lparr>ft_Events = ft_Events t + 1, ft_Violations = ft_Violations t + (if fv_Type fv = ''FAIRNESS_VIOLATION'' then 1 else 0),
      ft_MaxStarvation = (if fv_WaitTimeMs fv > ft_MaxStarvation t then fv_WaitTimeMs fv else ft_MaxStarvation t),
      ft_TotalWait = ft_TotalWait t + fv_WaitTimeMs fv\<rparr>"

definition fairness_enqueue :: "int \<times> int \<times> RequestContext \<Rightarrow> FairQueue \<times> fairness_tally \<Rightarrow> FairQueue \<times> fairness_tally" where
  "fairness_enqueue = (\<lambda>(now1, now2, req) (q, t).
     case fq_Enqueue now1 now2 req q of Inl err \<Rightarrow> (q, t) | Inr (q', fvs) \<Rightarrow> (q', fold tally_violation fvs t))"

definition session_stats :: "(int \<times> int \<times> RequestContext) list \<Rightarrow> (string, nat) gomap" where
  "session_stats es =
     fold (\<lambda>(_, _, req) m. gm_put (rc_SessionID req) ((case gm_get m (rc_SessionID req) of None \<Rightarrow> 0 | Some n \<Rightarrow> n) + 1) m) es []"

definition no_tally :: fairness_tally where "no_tally = \<lparr>ft_Events = 0, ft_Violations = 0, ft_MaxStarvation = 0, ft_TotalWait = 0\<rparr>"

definition VerifyFairness :: "int \<Rightarrow> (int \<times> int \<times> RequestContext) list \<Rightarrow> FairnessReport" where
  "VerifyFairness now es =
     (let t = snd (fold fairness_enqueue es (NewFairQueue now 256, no_tally))
      in \<lparr>cf_MaxStarvationMs = ft_MaxStarvation t,
          cf_AverageWaitMs = (if ft_Events t > 0 then ft_TotalWait t / of_nat (ft_Events t) else 0),
          cf_FairnessEvents = ft_Events t, cf_Violations = ft_Violations t, cf_SessionStats = session_stats es,
          cf_CompliancePass = (\<not> (ft_Violations t > 3 \<or> ft_MaxStarvation t > 30000)), cf_Timestamp = now\<rparr>)"

text \<open>Replay: the hash of a line is a function of the line.\<close>

definition trace_line :: "TraceRecord \<Rightarrow> string" where
  "trace_line tr = tr_RequestID tr @ ''|'' @ tr_Status tr @ ''|'' @ int_digits (int (length (tr_ExecutionTrace tr)))"

definition VerifyReplay :: "(string \<Rightarrow> string) \<Rightarrow> int \<Rightarrow> string + ReplayResult \<Rightarrow> ReplayComplianceReport" where
  "VerifyReplay hash now replay =
     (let report = \<lparr>cr_OriginalHash = [], cr_ReplayHash = [], cr_OrderingMatch = True, cr_PolicyMatch = True, cr_StateMatch = True,
                    cr_CompliancePass = True, cr_Timestamp = now\<rparr>
      in case replay of
           Inl err \<Rightarrow> report\<lparr>cr_OrderingMatch := False, cr_CompliancePass := False\<rparr>
         | Inr result \<Rightarrow>
             let hashes = map (hash \<circ> trace_line) (rr_Traces result);
                 report = (if length hashes > 0 then report\<lparr>cr_OriginalHash := hd hashes, cr_ReplayHash := last hashes\<rparr> else report)
             in if rr_TotalCount result < 5 then report\<lparr>cr_StateMatch := False, cr_CompliancePass := False\<rparr> else report)"

text \<open>SLA: the tracker that is read is its own, not that of the engine.\<close>

definition VerifySLA :: "int \<Rightarrow> SLAComplianceReport" where
  "VerifySLA now =
     (let sla = lt_Snapshot (NewLatencyTracker 2000);
          v50 = sla_P50 sla > 10; v95 = sla_P95 sla > 50; v99 = sla_P99 sla > 120
      in \<lparr>cs_P50 = sla_P50 sla, cs_P95 = sla_P95 sla, cs_P99 = sla_P99 sla, cs_Max = sla_Max sla, cs_SampleCount = 0,
          cs_Violations = weight v50 1 + weight v95 1 + weight v99 1, cs_SLAViolation = (v50 \<or> v95 \<or> v99),
          cs_CompliancePass = (\<not> (v50 \<or> v95 \<or> v99)), cs_Timestamp = now\<rparr>)"

text \<open>Policy: the requests and whether a denial is expected; denied is a request whose ingestion fails.\<close>

record policy_test =
  pt_Name :: string
  pt_SessionID :: string
  pt_ProjectID :: string
  pt_Tool :: string
  pt_Path :: string
  pt_ExpectDeny :: bool

definition policy_tests :: "policy_test list" where
  "policy_tests =
     [\<lparr>pt_Name = ''invalid_session'', pt_SessionID = [], pt_ProjectID = [], pt_Tool = ''echo'', pt_Path = [], pt_ExpectDeny = True\<rparr>,
      \<lparr>pt_Name = ''missing_project'', pt_SessionID = ''s1'', pt_ProjectID = [], pt_Tool = ''echo'', pt_Path = [], pt_ExpectDeny = True\<rparr>,
      \<lparr>pt_Name = ''denied_path'', pt_SessionID = ''s1'', pt_ProjectID = ''p1'', pt_Tool = ''filesystem_read'', pt_Path = ''/etc/passwd'', pt_ExpectDeny = True\<rparr>,
      \<lparr>pt_Name = ''unknown_tool'', pt_SessionID = ''s1'', pt_ProjectID = ''p1'', pt_Tool = ''no_such_tool'', pt_Path = [], pt_ExpectDeny = True\<rparr>,
      \<lparr>pt_Name = ''invalid_request'', pt_SessionID = ''s1'', pt_ProjectID = ''p1'', pt_Tool = ''echo'', pt_Path = [], pt_ExpectDeny = False\<rparr>]"

definition policy_input :: "policy_test \<Rightarrow> RawRequest" where
  "policy_input tc =
     \<lparr>raw_ID = ''policy_'' @ pt_Name tc, raw_Method = ''tool.call'', raw_PipelineMode = [],
      raw_Params = \<lparr>rp_Tool = pt_Tool tc, rp_Capability = [], rp_Arguments = (if pt_Path tc \<noteq> [] then [(''path'', AnyString (pt_Path tc))] else [])\<rparr>,
      raw_Session = \<lparr>sd_SessionID = pt_SessionID tc, sd_ProjectID = pt_ProjectID tc, sd_UserID = []\<rparr>\<rparr>"

definition policy_result :: "policy_test \<Rightarrow> bool \<Rightarrow> PolicyTestResult" where
  "policy_result tc wasDenied =
     \<lparr>ct_TestName = pt_Name tc, ct_ExpectedDeny = pt_ExpectDeny tc, ct_WasDenied = wasDenied,
      ct_Bypassed = ((pt_ExpectDeny tc \<and> \<not> wasDenied) \<or> (\<not> pt_ExpectDeny tc \<and> wasDenied)), ct_Error = []\<rparr>"

definition policy_add :: "policy_test \<Rightarrow> bool \<Rightarrow> PolicyComplianceReport \<Rightarrow> PolicyComplianceReport" where
  "policy_add tc wasDenied r =
     (let bypass = pt_ExpectDeny tc \<and> \<not> wasDenied in
      r\<lparr>cp_BypassDetected := cp_BypassDetected r + weight bypass 1, cp_CompliancePass := (cp_CompliancePass r \<and> \<not> bypass),
        cp_Details := cp_Details r @ [policy_result tc wasDenied], cp_TestsExecuted := cp_TestsExecuted r + 1,
        cp_DenyEvents := cp_DenyEvents r + weight wasDenied 1\<rparr>)"

text \<open>\<open>engine i\<close> is what the call number \<open>i\<close> finds at its time. A panic ends the test, as \<open>None\<close>.\<close>

fun policy_loop :: "(nat \<Rightarrow> int \<times> 'w KernelEngine) \<Rightarrow> nat \<Rightarrow> policy_test list \<Rightarrow> PolicyComplianceReport \<Rightarrow> PolicyComplianceReport option" where
  "policy_loop engine i [] r = Some r"
| "policy_loop engine i (tc # tcs) r =
     (case fst (Ingest (fst (engine i)) (Inr (policy_input tc)) (snd (engine i))) of
        Accepted \<Rightarrow> policy_loop engine (i + 1) tcs (policy_add tc False r)
      | IngestError err \<Rightarrow> policy_loop engine (i + 1) tcs (policy_add tc True r)
      | IngestPanic \<Rightarrow> None)"

definition VerifyPolicy :: "int \<Rightarrow> (nat \<Rightarrow> int \<times> 'w KernelEngine) \<Rightarrow> PolicyComplianceReport option" where
  "VerifyPolicy now engine =
     policy_loop engine 0 policy_tests
       \<lparr>cp_TestsExecuted = 0, cp_DenyEvents = 0, cp_BypassDetected = 0, cp_Details = [], cp_CompliancePass = True, cp_Timestamp = now\<rparr>"

text \<open>Shutdown: the number of requests is the bound of the loop that lowers it.\<close>

function shutdown_loop :: "(nat \<Rightarrow> bool) \<Rightarrow> nat \<Rightarrow> nat \<Rightarrow> nat \<times> nat" where
  "shutdown_loop refused i inflight =
     (if i < inflight then shutdown_loop refused (i + 1) (if refused i then inflight - 1 else inflight) else (i, inflight))"
  by pat_completeness auto
termination by (relation "measure (\<lambda>(_, i, n). n - i)") auto

declare shutdown_loop.simps [simp del]

definition VerifyShutdown :: "int \<Rightarrow> (nat \<Rightarrow> bool) \<Rightarrow> string + ReplayResult \<Rightarrow> ShutdownComplianceReport" where
  "VerifyShutdown now refused replay =
     (let n = snd (shutdown_loop refused 0 10);
          report = \<lparr>ch_RequestsInflight = n, ch_RequestsCompleted = 0, ch_RequestsLost = 0, ch_StateFlushSuccess = False,
                    ch_CompliancePass = True, ch_Timestamp = now\<rparr>
      in case replay of
           Inl err \<Rightarrow> report\<lparr>ch_CompliancePass := False\<rparr>
         | Inr result \<Rightarrow>
             let lost = n - rr_TotalCount result
             in report\<lparr>ch_RequestsCompleted := rr_TotalCount result, ch_RequestsLost := lost, ch_StateFlushSuccess := True,
                       ch_CompliancePass := (lost = 0)\<rparr>)"

subsection \<open>Validation of a release\<close>

record StressValidationReport =
  sv_Scenario :: string
  sv_Requests :: nat
  sv_Sessions :: nat
  sv_P50 :: rat
  sv_Failures :: nat
  sv_ValidationPass :: bool
  sv_Timestamp :: int

record FailureScenario =
  sc_Name :: string
  sc_ExpectedBehavior :: string
  sc_ObservedBehavior :: string
  sc_Pass :: bool

record FailureInjectionReport =
  fi_Scenarios :: "FailureScenario list"
  fi_TotalPass :: nat
  fi_TotalFail :: nat
  fi_ValidationPass :: bool
  fi_Timestamp :: int

record ReleaseReadinessReport =
  rl_Version :: string
  rl_ReadinessScore :: nat
  rl_Status :: string
  rl_CI :: string
  rl_Race :: string
  rl_Stress :: string
  rl_FailureInjection :: string
  rl_StressResults :: "StressValidationReport list"
  rl_FailureResults :: "FailureScenario list"

definition ReadinessLevel :: "nat \<Rightarrow> string" where
  "ReadinessLevel score =
     (if score \<ge> 95 then ''RELEASE_READY'' else if score \<ge> 85 then ''CONDITIONALLY_READY''
      else if score \<ge> 70 then ''PRE_RELEASE'' else ''NOT_READY'')"

definition ComputeReadiness :: "bool \<Rightarrow> bool \<Rightarrow> StressValidationReport list \<Rightarrow> FailureInjectionReport \<Rightarrow> ReleaseReadinessReport" where
  "ComputeReadiness ci race stressResults failureResults =
     (let stress = (length stressResults > 0 \<and> (\<forall>r \<in> set stressResults. sv_ValidationPass r));
          failure = fi_ValidationPass failureResults;
          total = weight ci 25 + weight race 25 + weight stress 25 + weight failure 25
      in \<lparr>rl_Version = ''0.6.2'', rl_ReadinessScore = total, rl_Status = ReadinessLevel total, rl_CI = PassBool ci, rl_Race = PassBool race,
          rl_Stress = PassBool stress, rl_FailureInjection = PassBool failure, rl_StressResults = stressResults,
          rl_FailureResults = fi_Scenarios failureResults\<rparr>)"

definition StressScenarios :: "(string \<times> nat \<times> nat) list" where
  "StressScenarios = [(''A_Light'', 10, 100), (''B_Medium'', 100, 1000), (''C_Heavy'', 100, 5000), (''D_Saturation'', 200, 10000)]"

text \<open>A run of a scenario by the milliseconds it took and the history at its end; \<open>None\<close> is a history that cannot be read.\<close>

definition stress_failures :: "ReplayResult option \<Rightarrow> nat" where
  "stress_failures replay =
     (case replay of None \<Rightarrow> 0
      | Some r \<Rightarrow> length (filter (\<lambda>tr. tr_Status tr = ''error'' \<or> tr_Status tr = ''denied'') (rr_Traces r)))"

definition stress_report :: "int \<Rightarrow> string \<times> nat \<times> nat \<Rightarrow> int \<Rightarrow> ReplayResult option \<Rightarrow> StressValidationReport" where
  "stress_report now = (\<lambda>(name, sessions, total) elapsed replay.
     \<lparr>sv_Scenario = name, sv_Requests = total, sv_Sessions = sessions, sv_P50 = of_int elapsed / of_nat total * 1000,
      sv_Failures = stress_failures replay, sv_ValidationPass = (stress_failures replay < total div 10), sv_Timestamp = now\<rparr>)"

definition RunStressTests :: "int \<Rightarrow> (string \<Rightarrow> int \<times> ReplayResult option) \<Rightarrow> StressValidationReport list" where
  "RunStressTests now seen = map (\<lambda>s. stress_report now s (fst (seen (fst s))) (snd (seen (fst s)))) StressScenarios"

definition to_arrow :: string where "to_arrow = '' '' @ [CHR 0xE2, CHR 0x86, CHR 0x92] @ '' ''"

definition scenario :: "string \<Rightarrow> string \<Rightarrow> string \<Rightarrow> bool \<Rightarrow> FailureScenario" where
  "scenario name expected observed pass = \<lparr>sc_Name = name, sc_ExpectedBehavior = expected, sc_ObservedBehavior = observed, sc_Pass = pass\<rparr>"

text \<open>The queue is filled with nil requests, \<open>rc\<close> here; they are only stored.\<close>

definition injectQueueOverflow :: "RequestContext \<Rightarrow> FailureScenario" where
  "injectQueueOverflow rc =
     (let q1 = snd (rq_Enqueue rc (NewRequestQueue 2)); q2 = snd (rq_Enqueue rc q1); err = fst (rq_Enqueue rc q2)
      in if err \<noteq> None then scenario ''QueueOverflow'' ''QUEUE_FULL rejection'' ''QUEUE_FULL rejected correctly'' True
         else scenario ''QueueOverflow'' ''QUEUE_FULL rejection'' ''QUEUE_FULL bypassed'' False)"

text \<open>The other scenarios by the error of their ingestion and what they find in the history.\<close>

definition injectExecutionTimeout :: "string option \<Rightarrow> string + ReplayResult \<Rightarrow> FailureScenario" where
  "injectExecutionTimeout ingest_err replay =
     (let sc = scenario ''ExecutionTimeout'' (''timeout'' @ to_arrow @ ''EXECUTION_TIMEOUT envelope'')
      in case ingest_err of
           Some err \<Rightarrow> sc (''ingest failed: '' @ err) False
         | None \<Rightarrow>
             (case replay of
                Inl err \<Rightarrow> sc ''replay failed'' False
              | Inr r \<Rightarrow> if rr_TotalCount r \<ge> 1 then sc ''request completed within timeout'' True else sc ''no traces found'' False))"

definition injectPolicyDenial :: "string + ReplayResult \<Rightarrow> FailureScenario" where
  "injectPolicyDenial replay =
     (let sc = scenario ''PolicyDenial'' (''DENY'' @ to_arrow @ ''skip execution, audit log only'')
      in case replay of
           Inl err \<Rightarrow> sc ''replay failed'' False
         | Inr r \<Rightarrow> if \<exists>tr \<in> set (rr_Traces r). tr_Status tr = ''denied'' then sc ''policy denied, execution skipped, audit emitted'' True
                   else sc ''policy bypassed'' False)"

definition injectReplayCorruption :: "string + ReplayResult \<Rightarrow> string + ReplayResult \<Rightarrow> FailureScenario" where
  "injectReplayCorruption replay1 replay2 =
     (let sc = scenario ''ReplayCorruption'' (''altered trace'' @ to_arrow @ ''hash mismatch detected'')
      in case (replay1, replay2) of
           (Inr r1, Inr r2) \<Rightarrow>
             if rr_TotalCount r1 = rr_TotalCount r2 then sc ''replay consistency verified'' True
             else sc (''replay mismatch: '' @ int_digits (int (rr_TotalCount r1)) @ '' vs '' @ int_digits (int (rr_TotalCount r2))) False
         | _ \<Rightarrow> sc ''replay returned nil'' False)"

definition injectBypassAttempt :: "string + ReplayResult \<Rightarrow> FailureScenario" where
  "injectBypassAttempt replay =
     (let sc = scenario ''BypassAttempt'' (''invalid_session'' @ to_arrow @ ''immediate DENY, no execution'');
          wrong = (case replay of
                     Inl err \<Rightarrow> False
                   | Inr r \<Rightarrow> \<exists>tr \<in> set (rr_Traces r). tr_RequestID tr = ''bypass_1'' \<and> tr_Status tr = ''denied'' \<and>
                       (\<exists>st \<in> set (tr_ExecutionTrace tr). sr_Stage st = ''execution''))
      in if wrong then sc ''BYPASS: execution occurred after DENY'' False
         else sc ''DENY at pre_validation, execution never reached'' True)"

definition RunFailureInjection :: "int \<Rightarrow> FailureScenario list \<Rightarrow> FailureInjectionReport" where
  "RunFailureInjection now scenarios =
     (let fail = length (filter (\<lambda>s. \<not> sc_Pass s) scenarios)
      in \<lparr>fi_Scenarios = scenarios, fi_TotalPass = length (filter sc_Pass scenarios), fi_TotalFail = fail, fi_ValidationPass = (fail = 0),
          fi_Timestamp = now\<rparr>)"

subsection \<open>What the scores mean\<close>

text \<open>The readiness of a release by the number of its checks that pass; \<open>CONDITIONALLY_READY\<close> is no case.\<close>

lemma readiness_levels:
  fixes rs :: "StressValidationReport list"
  defines "stress \<equiv> rs \<noteq> [] \<and> (\<forall>r \<in> set rs. sv_ValidationPass r)"
  shows "rl_Status (ComputeReadiness ci race rs fr) =
    (let n = length (filter id [ci, race, stress, fi_ValidationPass fr])
     in if n = 4 then ''RELEASE_READY'' else if n = 3 then ''PRE_RELEASE'' else ''NOT_READY'')"
  unfolding ComputeReadiness_def stress_def
  by (cases ci; cases race; cases "rs \<noteq> [] \<and> (\<forall>r \<in> set rs. sv_ValidationPass r)"; cases "fi_ValidationPass fr")
     (simp_all add: weight_def ReadinessLevel_def Let_def)

lemma overflow_rejected: "sc_Pass (injectQueueOverflow rc)"
  by (simp add: injectQueueOverflow_def rq_Enqueue_def NewRequestQueue_def scenario_def)

text \<open>The SLA is met by every engine: nobody records into the tracker that is read.\<close>

lemma sla_never_violated: "cs_CompliancePass (VerifySLA now) \<and> cs_Violations (VerifySLA now) = 0"
  by (simp add: VerifySLA_def lt_Snapshot_def NewLatencyTracker_def weight_def Let_def)

text \<open>The requests a kernel refuses lower the bound of the loop: five refusals are reported as five requests lost.\<close>

lemma refused_counted_lost:
  "shutdown_loop (\<lambda>_. True) 0 10 = (5, 5)" "ch_RequestsLost (VerifyShutdown now (\<lambda>_. True) (Inr no_replay)) = 5"
  by (simp_all add: VerifyShutdown_def shutdown_loop.simps no_replay_def Let_def)

text \<open>
  The certification by the domains that pass: certified when all do, ready when only the shutdown fails, limited when
  exactly one other domain fails, and non-compliant otherwise.
\<close>
theorem certification_levels:
  "ck_Level (score_Compute now f r s p sh) =
    (let failing = length (filter Not [cf_CompliancePass f, cr_CompliancePass r, cs_CompliancePass s, cp_CompliancePass p])
     in if ch_CompliancePass sh \<and> failing = 0 then ''Production Certified''
        else if failing = 0 then ''Production Ready''
        else if ch_CompliancePass sh \<and> failing = 1 then ''Limited Production''
        else ''Non-Compliant'')"
  unfolding score_Compute_def
  by (cases "cf_CompliancePass f"; cases "cr_CompliancePass r"; cases "cs_CompliancePass s"; cases "cp_CompliancePass p"; cases "ch_CompliancePass sh")
     (simp_all add: weight_def CertificationLevel_def Let_def)

text \<open>An engine takes a request: it is up, and its queue is open and has room.\<close>

definition takes_requests :: "'w KernelEngine \<Rightarrow> bool" where
  "takes_requests ke \<longleftrightarrow> \<not> kn_ingestStopped ke \<and> \<not> rq_closed (kn_queue ke) \<and> int (length (rq_ch (kn_queue ke))) < rq_maxSize (kn_queue ke)"

lemma takes_requests_accepts: "takes_requests ke \<Longrightarrow> fst (Ingest now (Inr req) ke) = Accepted"
  by (simp add: takes_requests_def Ingest_def rq_Enqueue_def Let_def)

text \<open>
  The policy verifier takes a refused ingestion for a denial, but the engine decides later: every engine that takes
  requests is reported to have let four forbidden requests pass, none denied, and no report made with it is better than
  limited production.
\<close>
theorem policy_verifier_fails:
  assumes "\<And>i. i < 5 \<Longrightarrow> takes_requests (snd (engine i))"
  shows "\<exists>p. VerifyPolicy now engine = Some p \<and> cp_TestsExecuted p = 5 \<and> cp_BypassDetected p = 4 \<and> cp_DenyEvents p = 0 \<and>
    \<not> cp_CompliancePass p \<and>
    ck_Level (cx_Score (FullReport now' f r s p sh)) \<in> {''Limited Production'', ''Non-Compliant''}"
proof -
  have a: "fst (Ingest (fst (engine i)) (Inr req) (snd (engine i))) = Accepted" if "i < 5" for i req
    by (rule takes_requests_accepts [OF assms [OF that]])
  obtain p where p: "VerifyPolicy now engine = Some p" "cp_TestsExecuted p = 5" "cp_BypassDetected p = 4" "cp_DenyEvents p = 0"
      "\<not> cp_CompliancePass p"
    by (simp add: VerifyPolicy_def policy_tests_def a policy_add_def weight_def Let_def)
  have "ck_Level (cx_Score (FullReport now' f r s p sh)) \<in> {''Limited Production'', ''Non-Compliant''}"
    using p(5) by (cases "cf_CompliancePass f"; cases "cr_CompliancePass r"; cases "cs_CompliancePass s"; cases "ch_CompliancePass sh")
      (simp_all add: FullReport_def score_Compute_def weight_def CertificationLevel_def Let_def)
  then show ?thesis using p by blast
qed

lemma policy_verifier_fails_witness:
  "\<exists>p. VerifyPolicy 1 (\<lambda>_. (2, NewKernelEngine one_config None None echo_env 1)) = Some p \<and> cp_BypassDetected p = 4"
proof -
  have "takes_requests (NewKernelEngine one_config None None echo_env 1)"
    by (simp add: takes_requests_def NewKernelEngine_def NewRequestQueue_def one_config_def kc_DefaultConfig_def Let_def)
  then show ?thesis
    using policy_verifier_fails [of "\<lambda>_. (2, NewKernelEngine one_config None None echo_env 1)" 1] by fastforce
qed

subsection \<open>Fairness\<close>

text \<open>Within fifteen seconds there is nothing the verifier could see, whatever the queue does.\<close>

definition young :: "int \<Rightarrow> FairQueue \<Rightarrow> bool" where
  "young now q \<longleftrightarrow> fq_maxStarvation q = 30 * second \<and> (\<forall>e \<in> set (fq_sessions q). now \<le> se_firstEnqueue (snd e))"

lemma young_check:
  assumes "young now q" "n2 \<le> now + 15 * second" "checkFairness n2 q = (q', fvs)"
  shows "young now q' \<and> fvs = []"
proof -
  have "check_entry q1 n2 e = []" if "e \<in> set (fq_sessions q1)" "young now q1" for e q1
  proof -
    have "n2 - se_firstEnqueue (snd e) \<le> 15 * second" using assms(2) that by (auto simp: young_def)
    moreover have "fq_maxStarvation q1 = 30 * second" using that(2) by (simp add: young_def)
    ultimately show ?thesis by (cases e) (simp add: check_entry_def Let_def second_def)
  qed
  then show ?thesis using assms(1,3) by (auto simp: checkFairness_def Let_def young_def split: if_splits)
qed

lemma set_gm_put: "set (gm_put k v m) \<subseteq> insert (k, v) (set m)"
  by (induction m) (auto simp: gm_put_def split: if_splits)

lemma young_enqueue:
  assumes "young now q" "now \<le> n1" "n2 \<le> now + 15 * second" "fq_Enqueue n1 n2 req q = Inr (q', fvs)"
  shows "young now q' \<and> fvs = []"
proof -
  define e where "e = (case gm_get (fq_sessions q) (sid_of req) of Some e \<Rightarrow> e
    | None \<Rightarrow> \<lparr>se_requests = [], se_firstEnqueue = n1, se_totalServed = 0, se_maxWait = 0\<rparr>)"
  define q1 where "q1 = q\<lparr>fq_order := (case gm_get (fq_sessions q) (sid_of req) of Some e \<Rightarrow> fq_order q | None \<Rightarrow> fq_order q @ [sid_of req]),
    fq_sessions := gm_put (sid_of req) (e\<lparr>se_requests := se_requests e @ [req]\<rparr>) (fq_sessions q), fq_total := fq_total q + 1\<rparr>"
  have "checkFairness n2 q1 = (q', fvs)"
    using assms(4) by (simp add: fq_Enqueue_def q1_def e_def Let_def split: if_splits option.splits)
  moreover have "now \<le> se_firstEnqueue e"
    using assms(1,2) by (auto simp: e_def young_def gm_get_def dest!: map_of_SomeD split: option.split)
  then have "young now q1"
    using assms(1) set_gm_put [of "sid_of req" "e\<lparr>se_requests := se_requests e @ [req]\<rparr>" "fq_sessions q"] by (auto simp: young_def q1_def)
  ultimately show ?thesis using young_check assms(3) by blast
qed

lemma fairness_quiet:
  assumes "\<forall>(n1, n2, req) \<in> set es. now \<le> n1 \<and> n2 \<le> now + 15 * second"
  shows "cf_FairnessEvents (VerifyFairness now es) = 0 \<and> cf_CompliancePass (VerifyFairness now es)"
proof -
  have "snd (fold fairness_enqueue es (q, t)) = t" if "young now q" for q t
    using that assms
  proof (induction es arbitrary: q)
    case (Cons x es)
    obtain n1 n2 req where x: "x = (n1, n2, req)" by (cases x)
    show ?case
    proof (cases "fq_Enqueue n1 n2 req q")
      case (Inl err)
      then show ?thesis using Cons by (simp add: x fairness_enqueue_def)
    next
      case (Inr r)
      then obtain q' fvs where r: "r = (q', fvs)" by (cases r)
      have "young now q' \<and> fvs = []" using young_enqueue [OF Cons.prems(1)] Cons.prems(2) Inr r by (auto simp: x)
      then show ?thesis using Cons.IH [of q'] Cons.prems(2) Inr r by (simp add: x fairness_enqueue_def)
    qed
  qed simp
  moreover have "young now (NewFairQueue now 256)" by (simp add: young_def NewFairQueue_def)
  ultimately show ?thesis by (simp add: VerifyFairness_def no_tally_def Let_def)
qed

end
