(* ===== verification/Run_Persist.thy ===== *)
theory Run_Persist
  imports Run_Kernel Run_State "HOL-Library.Sublist"
begin

text \<open>
  The background goroutines of the kernel, the rest of \<open>runtime/kernel/engine.go\<close>: the writer of traces, the metrics and the
  snapshots, with the compactions that are called from outside, on the disk of \<open>Run_State\<close>, and the machine they form with the
  steps of \<open>Run_Kernel\<close>. Lines of the log are kept as entries; a tick is a step that may happen at any time. Every access to
  the disk may meet its own faults. The JSON of a payload and the format of times are parameters.
\<close>

subsection \<open>What the goroutines do\<close>

definition status_entry :: "int \<Rightarrow> string \<Rightarrow> string \<Rightarrow> string \<Rightarrow> LogEntry" where
  "status_entry now request status err =
     \<lparr>le_RequestID = request, le_SessionID = [], le_ProjectID = [], le_ToolID = [], le_Status = status, le_DecisionPath = [],
      le_StageTimings = [], le_TotalMs = 0, le_QueueWaitTimeMs = 0, le_WorkerID = [], le_PipelineMode = [],
      le_LatencyBreakdown = no_latency, le_PolicyGraph = [], le_ExecutionTrace = [], le_Error = err, le_ErrorCode = [], le_Timestamp = now\<rparr>"

text \<open>The environment: the encodings, the faults that a replay meets, the root of the state, and the formats.\<close>

record node_env =
  ne_State :: state_env
  ne_Root :: string
  ne_Marshal :: "any \<Rightarrow> string"
  ne_RFC :: "int \<Rightarrow> string"

text \<open>
  How far a call of \<open>CompactTraces\<close> is: the names left to look at, with the cutoff and the count, or the file that it has
  looked at and removes next.
\<close>

datatype compactor = CompactLook int "string list" nat | CompactRemove int string "string list" nat | CompactEnd nat "string option"

text \<open>A node: the engine with the world of its executor, the disk, the log, the fair queue, which nobody fills, and the
  compactions; to speak about them, the contexts that the writer has taken and what has happened to the traces.\<close>

record 'w node =
  nd_Engine :: "'w KernelEngine"
  nd_World :: 'w
  nd_Disk :: Disk
  nd_Log :: "LogEntry list"
  nd_Fair :: FairQueue
  nd_Compactors :: "compactor list"
  nd_Written :: "RequestContext list"
  nd_Events :: "disk_event list"

text \<open>What the writer does with a context: an attempt and, when it fails, a second one, each with its faults.\<close>

definition stateWriter :: "node_env \<Rightarrow> faults \<Rightarrow> faults \<Rightarrow> int \<Rightarrow> RequestContext \<Rightarrow> 'w node \<Rightarrow> 'w node" where
  "stateWriter ne flt flt' now rc nd =
     (let (err, d) = SaveTraceWithRetry flt flt' (se_Traces (ne_State ne)) (ne_Root ne) now rc (nd_Disk nd);
          nd = nd\<lparr>nd_Disk := d\<rparr>
      in case err of
           None \<Rightarrow> nd
         | Some e \<Rightarrow> nd\<lparr>nd_Log := nd_Log nd @ [status_entry now (rc_RequestID rc) ''STATE_WRITE_FAILED'' e]\<rparr>)"

definition worker_state_text :: "WorkerState \<Rightarrow> string" where
  "worker_state_text s = (case s of
     WorkerInit \<Rightarrow> ''init'' | WorkerReady \<Rightarrow> ''ready'' | WorkerRunning \<Rightarrow> ''running'' | WorkerExecuting \<Rightarrow> ''executing''
   | WorkerWaiting \<Rightarrow> ''waiting'' | WorkerRecovering \<Rightarrow> ''recovering'' | WorkerFailed \<Rightarrow> ''failed'' | WorkerRestarting \<Rightarrow> ''restarting'')"

abbreviation any_count :: "int \<Rightarrow> any" where "any_count n \<equiv> AnyNumber (of_int n)"

definition wh_Snapshot :: "(int \<Rightarrow> string) \<Rightarrow> WorkerHealth \<Rightarrow> any" where
  "wh_Snapshot rfc wh =
     AnyMap [(''worker_id'', AnyString (wh_WorkerID wh)), (''state'', AnyString (worker_state_text (wh_State wh))),
       (''failures'', any_count (wh_Failures wh)), (''restarts'', any_count (wh_Restarts wh)),
       (''last_heartbeat'', AnyString (rfc (wh_LastHeartbeat wh))), (''requests_done'', any_count (wh_RequestsDone wh))]"

definition AllHealth :: "(int \<Rightarrow> string) \<Rightarrow> WorkerSupervisor \<Rightarrow> any" where
  "AllHealth rfc ws = AnyMap (map (\<lambda>(i, wh). (i, wh_Snapshot rfc wh)) (ws_health ws))"

definition summary_any :: "failure_summary \<Rightarrow> any" where
  "summary_any s =
     AnyMap [(''total_failures'', any_count (fs_total_failures s)), (''total_restarts'', any_count (fs_total_restarts s)),
       (''degraded_workers'', any_count (fs_degraded_workers s)), (''failed_workers'', any_count (fs_failed_workers s)),
       (''alive_workers'', any_count (fs_alive_workers s)), (''recovering_workers'', any_count (fs_recovering_workers s))]"

definition sla_any :: "LatencySLA \<Rightarrow> any" where
  "sla_any s =
     AnyMap [(''p50_ms'', AnyNumber (sla_P50 s)), (''p95_ms'', AnyNumber (sla_P95 s)), (''p99_ms'', AnyNumber (sla_P99 s)),
       (''max_ms'', AnyNumber (sla_Max s)), (''avg_ms'', AnyNumber (sla_Avg s)), (''count'', any_count (sla_Count s)),
       (''sla_violation'', AnyBool (sla_Violation s))]"

definition rq_Size :: "RequestQueue \<Rightarrow> int" where "rq_Size q = int (length (rq_ch q))"

definition emitMetricsCycle :: "node_env \<Rightarrow> int \<Rightarrow> 'w node \<Rightarrow> 'w node" where
  "emitMetricsCycle ne now nd =
     (let ke = nd_Engine nd; q = kn_queue ke; ws = wp_supervisor (kn_pool ke); util = Utilization ws;
          shedder = snd (ls_Evaluate (rq_Size q) (rq_maxSize q) util (kn_shedder ke));
          payload = AnyMap
            [(''metrics'', AnyMap (km_Snapshot now (kn_metrics ke))), (''sla'', sla_any (lt_Snapshot (kn_latency ke))),
             (''worker_health'', summary_any (FailureSummary ws)), (''worker_utilization'', AnyNumber util),
             (''load_state'', AnyString (load_text (ls_state (kn_shedder ke)))), (''queue_depth'', any_count (rq_Size q)),
             (''queue_max'', any_count (rq_maxSize q)), (''queue_saturation'', AnyNumber (of_int (rq_Size q) / of_int (rq_maxSize q))),
             (''max_starvation_ms'', AnyNumber (MaxStarvationMs (nd_Fair nd))), (''sla_violations'', any_count (ls_slaViolations shedder))]
      in nd\<lparr>nd_Engine := ke\<lparr>kn_shedder := shedder\<rparr>, nd_Log := nd_Log nd @ [status_entry now [] ''metrics_cycle'' (ne_Marshal ne payload)]\<rparr>)"

text \<open>A snapshot of the generator, at a tick or when the context is cancelled; its result is dropped.\<close>

definition take_snapshot :: "node_env \<Rightarrow> faults \<Rightarrow> int \<Rightarrow> 'w node \<Rightarrow> 'w node" where
  "take_snapshot ne flt now nd =
     (let ke = nd_Engine nd
      in nd\<lparr>nd_Disk := snd (GenerateSnapshot ((ne_State ne)\<lparr>se_Faults := flt\<rparr>) (ne_Root ne) now
              (AllHealth (ne_RFC ne) (wp_supervisor (kn_pool ke))) (AnyMap (km_Snapshot now (kn_metrics ke))) (nd_Disk nd))\<rparr>)"

definition collect_error :: "int \<Rightarrow> KernelEvent \<Rightarrow> 'w node \<Rightarrow> 'w node" where
  "collect_error now ev nd = nd\<lparr>nd_Engine := (nd_Engine nd)\<lparr>kn_tracer := tr_TraceEvent now ev (kn_tracer (nd_Engine nd))\<rparr>\<rparr>"

definition node_ReplayHistory :: "node_env \<Rightarrow> 'w node \<Rightarrow> string + ReplayResult" where
  "node_ReplayHistory ne nd = ReplayHistory (ne_State ne) (ne_Root ne) (nd_Disk nd)"

text \<open>\<open>CompactTraces\<close> access by access: the directory is read, and then each file is looked at and, when it is old, removed.\<close>

definition compact_open :: "string \<Rightarrow> faults \<Rightarrow> int \<Rightarrow> int \<Rightarrow> Disk \<Rightarrow> compactor" where
  "compact_open rt flt now olderThan d =
     (case read_dir flt (traces_dir rt) d of
        Inl err \<Rightarrow> CompactEnd 0 (Some (case err of None \<Rightarrow> ''no such file or directory'' | Some e \<Rightarrow> e))
      | Inr entries \<Rightarrow> CompactLook (now - olderThan) entries 0)"

fun compact_act :: "string \<Rightarrow> faults \<Rightarrow> compactor \<Rightarrow> Disk \<Rightarrow> compactor \<times> Disk" where
  "compact_act rt flt (CompactLook cutoff [] n) d = (CompactEnd n None, d)"
| "compact_act rt flt (CompactLook cutoff (name # names) n) d =
     (let path = path_clean (traces_dir rt @ ''/'' @ name) in
      case gm_get (d_files d) path of
        Some (text, t) \<Rightarrow>
          if has_suffix name ''.json'' \<and> flt ''info'' path = None \<and> t < cutoff then (CompactRemove cutoff name names n, d)
          else (CompactLook cutoff names n, d)
      | None \<Rightarrow> (CompactLook cutoff names n, d))"
| "compact_act rt flt (CompactRemove cutoff name names n) d =
     (let path = path_clean (traces_dir rt @ ''/'' @ name)
      in (CompactLook cutoff names (n + 1), if flt ''remove'' path = None then d\<lparr>d_files := gm_del path (d_files d)\<rparr> else d))"
| "compact_act rt flt (CompactEnd n e) d = (CompactEnd n e, d)"

text \<open>A kernel starts on the disk as it is.\<close>

definition new_node :: "node_env \<Rightarrow> faults \<Rightarrow> int \<Rightarrow> 'w KernelEngine \<Rightarrow> 'w \<Rightarrow> Disk \<Rightarrow> 'w node" where
  "new_node ne flt now ke w d =
     \<lparr>nd_Engine = ke, nd_World = w, nd_Disk = NewStateStore flt (ne_Root ne) d,
      nd_Log = [status_entry now [] ''kernel_started'' []], nd_Fair = NewFairQueue now (rq_maxSize (kn_queue ke)),
      nd_Compactors = [], nd_Written = [], nd_Events = []\<rparr>"

subsection \<open>The steps of a node\<close>

text \<open>What a step does to the traces: a save that succeeds, at the first or the second attempt, and a file removed.\<close>

definition write_events :: "node_env \<Rightarrow> faults \<Rightarrow> faults \<Rightarrow> int \<Rightarrow> RequestContext \<Rightarrow> Disk \<Rightarrow> disk_event list" where
  "write_events ne flt flt' now rc d =
     (let save = (\<lambda>flt. saveTraceInternal flt (se_Traces (ne_State ne)) (ne_Root ne) now rc)
      in if fst (save flt d) = None \<or> fst (save flt' (snd (save flt d))) = None then [TraceSaved rc now] else [])"

fun compact_events :: "string \<Rightarrow> faults \<Rightarrow> compactor \<Rightarrow> disk_event list" where
  "compact_events rt flt (CompactRemove cutoff name names n) =
     (if flt ''remove'' (path_clean (traces_dir rt @ ''/'' @ name)) = None then [TraceRemoved (take (length name - 5) name)] else [])"
| "compact_events rt flt c = []"

text \<open>
  Those of the engine are the ones of \<open>kernel_step\<close> but the one that stands for the writer: they take nothing from the
  channel of contexts to be written. Every step has its own instant and faults.
\<close>

inductive node_step :: "node_env \<Rightarrow> 'w node \<Rightarrow> 'w node \<Rightarrow> bool" for ne where
  engine: "kernel_step (nd_Engine nd, nd_World nd) (ke, w) \<Longrightarrow> prefix (kn_stateWrites (nd_Engine nd)) (kn_stateWrites ke) \<Longrightarrow>
    node_step ne nd (nd\<lparr>nd_Engine := ke, nd_World := w\<rparr>)"
| persisted: "kn_stateWrites (nd_Engine nd) = rc # rs \<Longrightarrow>
    node_step ne nd ((stateWriter ne flt flt' now rc (nd\<lparr>nd_Engine := (nd_Engine nd)\<lparr>kn_stateWrites := rs\<rparr>\<rparr>))
      \<lparr>nd_Written := nd_Written nd @ [rc], nd_Events := nd_Events nd @ write_events ne flt flt' now rc (nd_Disk nd)\<rparr>)"
| metrics: "node_step ne nd (emitMetricsCycle ne now nd)"
| snapshot: "node_step ne nd (take_snapshot ne flt now nd)"
| error_event: "node_step ne nd (collect_error now ev nd)"
| compaction: "node_step ne nd (nd\<lparr>nd_Compactors := nd_Compactors nd @ [compact_open (ne_Root ne) flt now olderThan (nd_Disk nd)]\<rparr>)"
| compact: "i < length (nd_Compactors nd) \<Longrightarrow> compact_act (ne_Root ne) flt (nd_Compactors nd ! i) (nd_Disk nd) = (c, d) \<Longrightarrow>
    node_step ne nd (nd\<lparr>nd_Disk := d, nd_Compactors := (nd_Compactors nd)[i := c],
      nd_Events := nd_Events nd @ compact_events (ne_Root ne) flt (nd_Compactors nd ! i)\<rparr>)"

inductive_cases node_stepE: "node_step ne nd nd'"

text \<open>A compaction that nobody interrupts is \<open>CompactTraces\<close>.\<close>

abbreviation compact_run :: "string \<Rightarrow> faults \<Rightarrow> nat \<Rightarrow> compactor \<times> Disk \<Rightarrow> compactor \<times> Disk" where
  "compact_run rt flt n \<equiv> (\<lambda>(c, d). compact_act rt flt c d) ^^ n"

lemma compact_run_names:
  "\<exists>k. compact_run rt flt k (CompactLook cutoff names n, d) =
    (let (n', d') = fold (compact_file flt (traces_dir rt) cutoff) names (n, d) in (CompactEnd n' None, d'))"
proof (induction names arbitrary: n d)
  case Nil
  show ?case by (rule exI [of _ 1]) simp
next
  case (Cons name names)
  obtain n' d' where f: "compact_file flt (traces_dir rt) cutoff name (n, d) = (n', d')" by fastforce
  obtain j where j: "compact_run rt flt j (CompactLook cutoff (name # names) n, d) = (CompactLook cutoff names n', d')"
  proof (cases "fst (compact_act rt flt (CompactLook cutoff (name # names) n) d) = CompactLook cutoff names n")
    case True
    then show ?thesis using f that [of 1] by (auto simp: compact_file_def Let_def split: option.splits if_splits)
  next
    case False
    then show ?thesis using f that [of 2] by (auto simp: compact_file_def numeral_2_eq_2 Let_def split: option.splits if_splits)
  qed
  obtain k where "compact_run rt flt k (CompactLook cutoff names n', d') =
      (let (n', d') = fold (compact_file flt (traces_dir rt) cutoff) names (n', d') in (CompactEnd n' None, d'))"
    using Cons.IH by blast
  then show ?case using j f by (intro exI [of _ "k + j"]) (simp add: funpow_add)
qed

lemma CompactTraces_run:
  "\<exists>k. compact_run rt flt k (compact_open rt flt now olderThan d, d) =
    (let ((n, e), d') = CompactTraces flt rt now olderThan d in (CompactEnd n e, d'))"
proof (cases "read_dir flt (traces_dir rt) d")
  case (Inl err)
  then show ?thesis by (intro exI [of _ 0]) (simp add: compact_open_def CompactTraces_def)
next
  case (Inr entries)
  then show ?thesis using compact_run_names [of rt flt "now - olderThan" entries 0 d]
    by (simp add: compact_open_def CompactTraces_def split_beta Let_def)
qed

text \<open>
  One that is interrupted between the look and the removal removes the trace of a request that was saved in between, however
  new it is.
\<close>

lemma compaction_removes_new_trace:
  assumes rt: "has_prefix rt ''/''" and k: "trace_name (rc_RequestID c)"
    and look: "compact_act rt flt (CompactLook cutoff ((rc_RequestID c @ ''.json'') # names) n) d = (CompactRemove cutoff (rc_RequestID c @ ''.json'') names n, d)"
    and save: "SaveTrace flt1 (se_Traces se) rt now c d = (None, d1)"
    and remove: "flt2 ''remove'' (trace_path rt (rc_RequestID c)) = None"
  shows "\<exists>text. gm_get (d_files d1) (trace_path rt (rc_RequestID c)) = Some (text, now)"
    and "gm_get (d_files (snd (compact_act rt flt2 (CompactRemove cutoff (rc_RequestID c @ ''.json'') names n) d1))) (trace_path rt (rc_RequestID c)) = None"
proof -
  have p: "store_path rt ''traces'' (rc_RequestID c @ ''.json'') = trace_path rt (rc_RequestID c)"
      "path_clean (traces_dir rt @ ''/'' @ rc_RequestID c @ ''.json'') = trace_path rt (rc_RequestID c)"
    using store_path_traces [OF rt k] by (simp_all add: trace_path_def)
  show "\<exists>text. gm_get (d_files d1) (trace_path rt (rc_RequestID c)) = Some (text, now)"
    using WriteJSON_result [OF save [unfolded SaveTrace_def saveTraceInternal_def p]] by auto
  show "gm_get (d_files (snd (compact_act rt flt2 (CompactRemove cutoff (rc_RequestID c @ ''.json'') names n) d1))) (trace_path rt (rc_RequestID c)) = None"
    using remove by (simp add: p(2) [simplified] Let_def)
qed

subsection \<open>The traces on disk\<close>

text \<open>What lies in the directory of the traces; the rest of the disk does not matter to a replay.\<close>

definition traces_only :: "string \<Rightarrow> Disk \<Rightarrow> Disk" where
  "traces_only rt d = d\<lparr>d_files := filter ((\<lambda>p. entry_of (traces_dir rt) p \<noteq> None) \<circ> fst) (d_files d)\<rparr>"

lemma gm_get_filter: "gm_get (filter (P \<circ> fst) m) k = (if P k then gm_get m k else None)"
  by (induction m) (auto simp: gm_get_def)

lemma gm_keys_filter: "gm_keys (filter (P \<circ> fst) m) = filter P (gm_keys m)"
  by (induction m) (auto simp: gm_keys_def)

lemma gm_put_filter: "filter (P \<circ> fst) (gm_put k v m) = (if P k then gm_put k v (filter (P \<circ> fst) m) else filter (P \<circ> fst) m)"
  by (induction m) (auto simp: gm_put_def comp_def)

lemma map_filter_filter: "List.map_filter f (filter (\<lambda>x. f x \<noteq> None) xs) = List.map_filter f xs"
  by (induction xs) (auto simp: List.map_filter_simps split: option.split)

lemma map_filter_cong: "(\<And>x. x \<in> set xs \<Longrightarrow> f x = g x) \<Longrightarrow> List.map_filter f xs = List.map_filter g xs"
  by (induction xs) (simp_all add: List.map_filter_simps split: option.split)

lemma subseq_subset: "subseq xs ys \<Longrightarrow> set xs \<subseteq> set ys"
  by (induction rule: list_emb.induct) auto

lemma map_filter_append: "List.map_filter f (xs @ ys) = List.map_filter f xs @ List.map_filter f ys"
  by (simp add: List.map_filter_def)

lemma has_suffix_iff: "has_suffix n s \<longleftrightarrow> (\<exists>k. n = k @ s)"
proof
  assume "has_suffix n s"
  then obtain t where "rev n = rev s @ t" by (auto simp: has_suffix_def has_prefix_iff)
  then have "rev (rev n) = rev t @ s" by simp
  then show "\<exists>k. n = k @ s" by auto
qed (auto simp: has_suffix_def has_prefix_iff)

text \<open>The names of trace files have no slash, and a file with such a name is an entry of the directory.\<close>

lemma json_names_entry:
  assumes "n \<in> set (json_names (sort (remdups (List.map_filter (entry_of dir) ps))))"
  shows "\<exists>k. trace_name k \<and> n = k @ ''.json''"
proof -
  have "has_suffix n ''.json''" and "n \<in> set (List.map_filter (entry_of dir) ps)" using assms by (auto simp: json_names_def)
  then obtain k p where k: "n = k @ ''.json''" "entry_of dir p = Some n" by (auto simp: has_suffix_iff List.map_filter_def)
  then have "n = takeWhile (\<lambda>c. c \<noteq> CHR ''/'') (drop (length dir + 1) p)" by (auto simp: entry_of_def split: if_splits)
  then have "CHR ''/'' \<notin> set n" using set_takeWhileD by fastforce
  then show ?thesis using k(1) by (auto simp: trace_name_def)
qed

lemma read_dir_traces_only: "read_dir flt (traces_dir rt) (traces_only rt d) = read_dir flt (traces_dir rt) d"
proof -
  have dd: "d_dirs (traces_only rt d) = d_dirs d" by (simp add: traces_only_def)
  have "List.map_filter (entry_of (traces_dir rt)) (gm_keys (d_files (traces_only rt d)) @ d_dirs (traces_only rt d)) =
      List.map_filter (entry_of (traces_dir rt)) (gm_keys (d_files d) @ d_dirs d)"
    using map_filter_filter [of "entry_of (traces_dir rt)" "gm_keys (d_files d)"]
    unfolding map_filter_append by (simp add: traces_only_def gm_keys_filter)
  then show ?thesis by (simp only: read_dir_def dir_exists_def dd)
qed

lemma replay_traces_only:
  assumes rt: "has_prefix rt ''/''"
  shows "ReplayHistory se rt (traces_only rt d) = ReplayHistory se rt d"
proof -
  let ?P = "\<lambda>p. entry_of (traces_dir rt) p \<noteq> None"
  note dirs = read_dir_traces_only [of _ rt d]
  have read: "ReadJSON flt co (path_clean (traces_dir rt @ ''/'' @ n)) (traces_only rt d) = ReadJSON flt co (path_clean (traces_dir rt @ ''/'' @ n)) d"
    if "trace_name k" "n = k @ ''.json''" for flt n k and co :: "TraceRecord codec"
  proof -
    have path: "path_clean (traces_dir rt @ ''/'' @ n) = trace_path rt k"
      using store_path_traces(2) [OF rt that(1)] that(2) by (simp add: trace_path_def)
    have "?P (trace_path rt k)" using entry_of_trace [OF that(1)] by simp
    then have same: "gm_get (d_files (traces_only rt d)) (trace_path rt k) = gm_get (d_files d) (trace_path rt k)"
      using gm_get_filter [of ?P "d_files d" "trace_path rt k"] by (simp add: traces_only_def)
    show ?thesis unfolding path ReadJSON_def same ..
  qed
  have "read_traces flt co (traces_dir rt) ns (traces_only rt d) = read_traces flt co (traces_dir rt) ns d"
    if names: "\<forall>n \<in> set ns. \<exists>k. trace_name k \<and> n = k @ ''.json''" for flt co ns
    unfolding read_traces_def
  proof (rule map_filter_cong)
    fix n assume "n \<in> set ns"
    then obtain k where "trace_name k" "n = k @ ''.json''" using names by blast
    from read [OF this] show "(case ReadJSON flt co (path_clean (traces_dir rt @ ''/'' @ n)) (traces_only rt d) of Inl err \<Rightarrow> None | Inr tr \<Rightarrow> Some tr) =
        (case ReadJSON flt co (path_clean (traces_dir rt @ ''/'' @ n)) d of Inl err \<Rightarrow> None | Inr tr \<Rightarrow> Some tr)" by (simp only:)
  qed
  note traces = this
  show ?thesis
  proof (cases "read_dir (se_Faults se) (traces_dir rt) d")
    case (Inl err)
    then show ?thesis by (simp add: ReplayHistory_def dirs)
  next
    case (Inr entries)
    then have "entries = sort (remdups (List.map_filter (entry_of (traces_dir rt)) (gm_keys (d_files d) @ d_dirs d)))"
      by (simp add: read_dir_def split: option.splits if_splits)
    then have "\<forall>n \<in> set (json_names entries). \<exists>k. trace_name k \<and> n = k @ ''.json''" using json_names_entry by blast
    from traces [OF this] show ?thesis unfolding ReplayHistory_def dirs Inr by simp
  qed
qed

lemma traces_only_mkdir: "traces_only rt (mkdir_all p d) = mkdir_all p (traces_only rt d)"
  by (simp add: traces_only_def mkdir_all_def)

lemma traces_only_dirs [simp]: "d_dirs (traces_only rt d) = d_dirs d"
  by (simp add: traces_only_def)

text \<open>A save does to the traces what it does to a disk with the traces only; a removal too.\<close>

lemma save_traces_only:
  assumes rt: "has_prefix rt ''/''" and k: "trace_name (rc_RequestID c)"
  shows "fst (saveTraceInternal flt co rt now c (traces_only rt d)) = fst (saveTraceInternal flt co rt now c d)"
    and "traces_only rt (snd (saveTraceInternal flt co rt now c d)) = snd (saveTraceInternal flt co rt now c (traces_only rt d))"
proof -
  have p: "store_path rt ''traces'' (rc_RequestID c @ ''.json'') = trace_path rt (rc_RequestID c)"
    using store_path_traces(1) [OF rt k] by (simp add: trace_path_def)
  show "fst (saveTraceInternal flt co rt now c (traces_only rt d)) = fst (saveTraceInternal flt co rt now c d)"
    by (simp add: saveTraceInternal_def WriteJSON_def Let_def split: option.split sum.split)
  have "entry_of (traces_dir rt) (trace_path rt (rc_RequestID c)) \<noteq> None" using entry_of_trace [OF k] by simp
  then have "traces_only rt (d\<lparr>d_files := gm_put (trace_path rt (rc_RequestID c)) v (d_files d)\<rparr>) =
      (traces_only rt d)\<lparr>d_files := gm_put (trace_path rt (rc_RequestID c)) v (d_files (traces_only rt d))\<rparr>" for d v
    by (simp add: traces_only_def gm_put_filter)
  then show "traces_only rt (snd (saveTraceInternal flt co rt now c d)) = snd (saveTraceInternal flt co rt now c (traces_only rt d))"
    by (simp add: saveTraceInternal_def WriteJSON_def p Let_def traces_only_mkdir split: option.split sum.split)
qed

lemma remove_traces_only:
  "traces_only rt (d\<lparr>d_files := gm_del p (d_files d)\<rparr>) = (traces_only rt d)\<lparr>d_files := gm_del p (d_files (traces_only rt d))\<rparr>"
  by (simp add: traces_only_def gm_del_def AList.delete_eq conj_commute)

text \<open>A snapshot is no trace.\<close>

definition stamp_ok :: "state_env \<Rightarrow> bool" where "stamp_ok se \<longleftrightarrow> (\<forall>t. CHR ''/'' \<notin> set (se_Stamp se t))"

lemma snapshot_traces_only:
  assumes rt: "has_prefix rt ''/''" and st: "stamp_ok se"
  shows "\<exists>ds. set ds \<subseteq> {path_clean (rt @ ''/snapshots'')} \<and> traces_only rt (snd (GenerateSnapshot se rt now wh m d)) = (traces_only rt d)\<lparr>d_dirs := d_dirs d @ ds\<rparr>"
proof -
  let ?id = "''snap_w_'' @ se_Stamp se now" and ?dir = "path_clean (rt @ ''/snapshots'')"
  have k: "trace_name ?id" using st by (simp add: trace_name_def stamp_ok_def)
  have p: "store_path rt ''snapshots'' (?id @ ''.json'') = ?dir @ CHR ''/'' # ?id @ ''.json''" "file_dir (?dir @ CHR ''/'' # ?id @ ''.json'') = ?dir"
    using store_path_dir(1) [OF rt k, of "''snapshots''"] file_dir_below [OF rt k, of "''snapshots''"] by (simp_all add: normal_def)
  have e: "entry_of (traces_dir rt) (?dir @ CHR ''/'' # x) = None" for x
  proof -
    obtain pre where pre: "\<forall>x. join_with ''/'' (walk_to [] (split_on (CHR ''/'') rt) @ [x]) = pre @ x" using join_last by blast
    have "traces_dir rt = CHR ''/'' # pre @ ''traces''" "?dir = CHR ''/'' # pre @ ''snapshots''"
      using clean_below [OF rt, of "''traces''"] clean_below [OF rt, of "''snapshots''"] pre by (simp_all add: traces_dir_def normal_def)
    then show ?thesis by (auto simp: entry_of_def has_prefix_iff)
  qed
  have m: "\<exists>ds. set ds \<subseteq> {?dir} \<and> traces_only rt (mkdir_all ?dir d) = (traces_only rt d)\<lparr>d_dirs := d_dirs d @ ds\<rparr>"
    by (intro exI [of _ "if ?dir \<in> set (d_dirs d) then [] else [?dir]"]) (simp add: traces_only_def mkdir_all_def)
  have u: "\<exists>ds. set ds \<subseteq> {?dir} \<and> traces_only rt d = (traces_only rt d)\<lparr>d_dirs := d_dirs d @ ds\<rparr>"
    by (intro exI [of _ "[]"]) (simp add: traces_only_def)
  have w: "\<exists>ds. set ds \<subseteq> {?dir} \<and> traces_only rt (snd (WriteJSON flt co now (?dir @ CHR ''/'' # ?id @ ''.json'') x d)) = (traces_only rt d)\<lparr>d_dirs := d_dirs d @ ds\<rparr>"
    for flt and co :: "SnapshotRecord codec" and x
  proof -
    let ?path = "?dir @ CHR ''/'' # ?id @ ''.json''"
    have put: "traces_only rt (d'\<lparr>d_files := gm_put ?path v (d_files d)\<rparr>) = traces_only rt d'" if "d_files d' = d_files d" for d' v
      using that e [of "?id @ ''.json''"] by (simp add: traces_only_def gm_put_filter)
    have "snd (WriteJSON flt co now ?path x d) \<in>
        {d, mkdir_all ?dir d} \<union> range (\<lambda>v. (mkdir_all ?dir d)\<lparr>d_files := gm_put ?path v (d_files d)\<rparr>)"
      unfolding WriteJSON_def p(2) by (auto simp: mkdir_all_def Let_def split: option.split sum.split)
    moreover have "traces_only rt ((mkdir_all ?dir d)\<lparr>d_files := gm_put ?path v (d_files d)\<rparr>) = traces_only rt (mkdir_all ?dir d)" for v
      by (rule put) (simp add: mkdir_all_def)
    ultimately show ?thesis using m u by auto
  qed
  show ?thesis
  proof (cases "read_dir (se_Faults se) (traces_dir rt) d")
    case (Inl err)
    then show ?thesis using u by (cases err) (simp_all add: GenerateSnapshot_def generateSnapshotInternal_def)
  next
    case (Inr entries)
    then show ?thesis using w p(1) by (simp add: GenerateSnapshot_def generateSnapshotInternal_def Let_def split_beta)
  qed
qed

subsection \<open>The history of a node\<close>

text \<open>The names that a compaction holds are entries of the directory.\<close>

definition no_slash :: "string list \<Rightarrow> bool" where "no_slash ns \<longleftrightarrow> (\<forall>n \<in> set ns. CHR ''/'' \<notin> set n)"

fun compactor_ok :: "compactor \<Rightarrow> bool" where
  "compactor_ok (CompactLook cutoff names n) = no_slash names"
| "compactor_ok (CompactRemove cutoff name names n) = ((\<exists>k. trace_name k \<and> name = k @ ''.json'') \<and> no_slash names)"
| "compactor_ok (CompactEnd n e) = True"

lemma compact_open_ok: "compactor_ok (compact_open rt flt now olderThan d)"
proof (cases "read_dir flt (traces_dir rt) d")
  case (Inr entries)
  then have "set entries = set (List.map_filter (entry_of (traces_dir rt)) (gm_keys (d_files d) @ d_dirs d))"
    by (auto simp: read_dir_def split: option.splits if_splits)
  moreover have "CHR ''/'' \<notin> set n" if "entry_of (traces_dir rt) p = Some n" for n p
    using that by (auto simp: entry_of_def split: if_splits dest: set_takeWhileD)
  ultimately have "no_slash entries" by (auto simp: no_slash_def List.map_filter_def)
  then show ?thesis by (simp add: compact_open_def Inr)
qed (simp add: compact_open_def)

lemma compact_act_ok: "compactor_ok c \<Longrightarrow> compactor_ok (fst (compact_act rt flt c d))"
proof (induction rt flt c d rule: compact_act.induct)
  case (2 rt flt cutoff name names n d)
  then show ?case
    by (auto simp: Let_def no_slash_def has_suffix_iff trace_name_def split: option.splits)
qed (auto simp: no_slash_def Let_def)

lemma compact_act_holds:
  assumes rt: "has_prefix rt ''/''" and ok: "compactor_ok c" and h: "holds se rt m (traces_only rt d)"
  shows "holds se rt (history (compact_events rt flt c) m) (traces_only rt (snd (compact_act rt flt c d)))"
proof (cases c)
  case (CompactRemove cutoff name names n)
  then obtain k where k: "trace_name k" "name = k @ ''.json''" using ok by auto
  have "path_clean (traces_dir rt @ ''/'' @ name) = trace_path rt k" using store_path_traces(2) [OF rt k(1)] k(2) by (simp add: trace_path_def)
  then show ?thesis using holds_remove [OF h, of k] h k(2) by (simp add: CompactRemove history_def remove_traces_only Let_def)
next
  case (CompactLook cutoff names n)
  then have "snd (compact_act rt flt c d) = d" by (cases names) (auto simp: Let_def split: option.split)
  then show ?thesis using h CompactLook by (simp add: history_def)
qed (use h in \<open>simp add: history_def\<close>)

text \<open>What the writer does to the disk and the log.\<close>

lemma write_holds:
  assumes rt: "has_prefix (ne_Root ne) ''/''" and sv: "savable (ne_State ne) rc"
    and h: "holds (ne_State ne) (ne_Root ne) m (traces_only (ne_Root ne) d)"
  shows "holds (ne_State ne) (ne_Root ne) (history (write_events ne flt flt' now rc d) m)
    (traces_only (ne_Root ne) (snd (SaveTraceWithRetry flt flt' (se_Traces (ne_State ne)) (ne_Root ne) now rc d)))"
proof -
  let ?rt = "ne_Root ne" and ?se = "ne_State ne" and ?k = "rc_RequestID rc"
  let ?save = "\<lambda>flt. saveTraceInternal flt (se_Traces ?se) ?rt now rc"
  have k: "trace_name ?k" using sv by (simp add: savable_def)
  have s: "holds ?se ?rt (if fst (?save f d) = None then gm_put ?k (rc, now) m else m) (traces_only ?rt (snd (?save f d)))"
    if "holds ?se ?rt m (traces_only ?rt d)" for m d f
  proof -
    obtain e d' where e: "?save f (traces_only ?rt d) = (e, d')" by fastforce
    then show ?thesis using holds_save [OF rt sv that e] save_traces_only [OF rt k, of f "se_Traces ?se" now d] by simp
  qed
  obtain e1 d1 where e1: "?save flt d = (e1, d1)" by fastforce
  obtain e2 d2 where e2: "?save flt' d1 = (e2, d2)" by fastforce
  note s1 = s [OF h, of flt, unfolded e1, simplified]
  show ?thesis
  proof (cases e1)
    case None
    then show ?thesis using s1 e1 by (simp add: write_events_def SaveTraceWithRetry_def history_def)
  next
    case (Some err)
    then have "holds ?se ?rt m (traces_only ?rt d1)" using s1 by simp
    from s [OF this, of flt'] e2 Some e1 show ?thesis by (cases e2) (simp_all add: write_events_def SaveTraceWithRetry_def history_def)
  qed
qed

lemma write_outcome:
  shows "SaveTraceWithRetry flt flt' (se_Traces (ne_State ne)) (ne_Root ne) now rc d = (None, d') \<Longrightarrow>
      write_events ne flt flt' now rc d = [TraceSaved rc now]"
    and "set (write_events ne flt flt' now rc d) \<subseteq> {TraceSaved rc now}"
  by (auto simp: write_events_def SaveTraceWithRetry_def Let_def split: prod.splits option.splits)

text \<open>The contexts that are printed, and those the collector has printed and not offered to the writer yet.\<close>

fun offered :: "collector \<Rightarrow> RequestContext list" where
  "offered (CollectCycle rc) = [rc]"
| "offered (CollectSend rc) = [rc]"
| "offered _ = []"

definition writes_inv :: "'w node \<Rightarrow> bool" where
  "writes_inv nd \<longleftrightarrow> subseq (nd_Written nd @ kn_stateWrites (nd_Engine nd) @ offered (kn_collector (nd_Engine nd))) (kn_printed (nd_Engine nd))"

definition events_inv :: "'w node \<Rightarrow> bool" where
  "events_inv nd \<longleftrightarrow> (\<forall>c t. TraceSaved c t \<in> set (nd_Events nd) \<longrightarrow> c \<in> set (nd_Written nd)) \<and>
     (\<forall>c \<in> set (nd_Written nd). (\<exists>t. TraceSaved c t \<in> set (nd_Events nd)) \<or>
        (\<exists>t e. status_entry t (rc_RequestID c) ''STATE_WRITE_FAILED'' e \<in> set (nd_Log nd)))"

definition disk_inv :: "node_env \<Rightarrow> history \<Rightarrow> 'w node \<Rightarrow> bool" where
  "disk_inv ne m0 nd \<longleftrightarrow> (\<forall>c \<in> set (nd_Compactors nd). compactor_ok c) \<and>
     ((\<forall>c \<in> set (nd_Written nd). savable (ne_State ne) c) \<longrightarrow>
        holds (ne_State ne) (ne_Root ne) (history (nd_Events nd) m0) (traces_only (ne_Root ne) (nd_Disk nd)))"

text \<open>The steps of the engine.\<close>

lemma collect_act_writes:
  "subseq (xs @ kn_stateWrites ke @ offered (kn_collector ke)) (kn_printed ke) \<Longrightarrow>
   subseq (xs @ kn_stateWrites (collect_act ke) @ offered (kn_collector (collect_act ke))) (kn_printed (collect_act ke))"
proof (cases "kn_collector ke")
  case (CollectPrint rc)
  assume "subseq (xs @ kn_stateWrites ke @ offered (kn_collector ke)) (kn_printed ke)"
  then have "subseq ((xs @ kn_stateWrites ke) @ [rc]) (kn_printed ke @ [rc])" using CollectPrint by (intro list_emb_append_mono) auto
  then show ?thesis using CollectPrint by (simp add: collect_act_def)
next
  case (CollectSend rc)
  assume s: "subseq (xs @ kn_stateWrites ke @ offered (kn_collector ke)) (kn_printed ke)"
  have "subseq (xs @ kn_stateWrites ke) ((xs @ kn_stateWrites ke) @ [rc])" by (simp only: subseq_rev_drop_many subseq_order.order_refl)
  with s CollectSend have "subseq (xs @ kn_stateWrites ke) (kn_printed ke)" by (auto intro: subseq_order.order_trans)
  then show ?thesis using s CollectSend by (simp add: collect_act_def)
qed (auto simp: collect_act_def)

lemma kernel_step_writes:
  assumes "kernel_step (ke, w) (ke', w')" "prefix (kn_stateWrites ke) (kn_stateWrites ke')"
    and "subseq (xs @ kn_stateWrites ke @ offered (kn_collector ke)) (kn_printed ke)"
  shows "subseq (xs @ kn_stateWrites ke' @ offered (kn_collector ke')) (kn_printed ke')"
  using assms(1)
proof (cases rule: kernel_step.cases)
  case (ingest c now p ke1)
  then show ?thesis using assms(3) ingest_act_frame [OF ingest(4)] by simp
next
  case collect
  then show ?thesis using collect_act_writes [OF assms(3)] by simp
next
  case (write_state rc rs)
  then show ?thesis using prefix_length_le [OF assms(2)] by simp
qed (use assms(3) in auto)

lemma writes_inv_step:
  assumes "node_step ne nd nd'" and "writes_inv nd"
  shows "writes_inv nd'"
  using assms(1)
proof (cases rule: node_step.cases)
  case (engine ke w)
  then show ?thesis using kernel_step_writes [OF engine(2,3)] assms(2) by (simp add: writes_inv_def)
next
  case (persisted rc rs flt flt' now)
  then show ?thesis using assms(2) by (simp add: writes_inv_def stateWriter_def Let_def split: prod.split option.split)
qed (use assms(2) in \<open>auto simp: writes_inv_def emitMetricsCycle_def take_snapshot_def collect_error_def Let_def\<close>)

lemma events_inv_step:
  assumes "node_step ne nd nd'" and "events_inv nd"
  shows "events_inv nd'"
  using assms(1)
proof (cases rule: node_step.cases)
  case (persisted rc rs flt flt' now)
  obtain e d where r: "SaveTraceWithRetry flt flt' (se_Traces (ne_State ne)) (ne_Root ne) now rc (nd_Disk nd) = (e, d)" by fastforce
  show ?thesis
  proof (cases e)
    case None
    then have "write_events ne flt flt' now rc (nd_Disk nd) = [TraceSaved rc now]" using write_outcome(1) r by simp
    then show ?thesis using assms(2) r None unfolding persisted(1) by (auto simp: events_inv_def stateWriter_def)
  next
    case (Some err)
    then show ?thesis using assms(2) r write_outcome(2) unfolding persisted(1) by (fastforce simp: events_inv_def stateWriter_def)
  qed
next
  case (compact i flt c d)
  have "TraceSaved c t \<notin> set (compact_events rt flt p)" for c t rt p by (cases p) auto
  then show ?thesis using assms(2) by (auto simp: events_inv_def compact(1))
qed (use assms(2) in \<open>auto simp: events_inv_def emitMetricsCycle_def take_snapshot_def collect_error_def Let_def\<close>)

lemma holds_dirs:
  "holds se rt m d \<Longrightarrow> \<forall>p \<in> set ds. entry_of (traces_dir rt) p = None \<Longrightarrow> holds se rt m (d\<lparr>d_dirs := d_dirs d @ ds\<rparr>)"
  by (auto simp: holds_def)

lemma history_append: "history (evs @ evs') m = history evs' (history evs m)"
  by (simp add: history_def)

lemma disk_inv_step:
  assumes step: "node_step ne nd nd'" and inv: "disk_inv ne m0 nd" and st: "stamp_ok (ne_State ne)" and rt: "has_prefix (ne_Root ne) ''/''"
  shows "disk_inv ne m0 nd'"
  using step
proof (cases rule: node_step.cases)
  case (persisted rc rs flt flt' now)
  let ?m = "history (nd_Events nd) m0" and ?r = "SaveTraceWithRetry flt flt' (se_Traces (ne_State ne)) (ne_Root ne) now rc (nd_Disk nd)"
  have d: "nd_Disk nd' = snd ?r" "nd_Written nd' = nd_Written nd @ [rc]" "nd_Compactors nd' = nd_Compactors nd"
      "nd_Events nd' = nd_Events nd @ write_events ne flt flt' now rc (nd_Disk nd)"
    by (simp_all add: persisted(1) stateWriter_def Let_def split: prod.split option.split)
  show ?thesis using inv write_holds [OF rt, of rc ?m "nd_Disk nd" flt flt' now] by (simp add: disk_inv_def d history_append)
next
  case (snapshot flt now)
  have st': "stamp_ok ((ne_State ne)\<lparr>se_Faults := flt\<rparr>)" using st by (simp add: stamp_ok_def)
  have f: "nd_Written nd' = nd_Written nd" "nd_Events nd' = nd_Events nd" "nd_Compactors nd' = nd_Compactors nd"
    by (simp_all add: snapshot take_snapshot_def Let_def)
  have "\<exists>ds. set ds \<subseteq> {path_clean (ne_Root ne @ ''/snapshots'')} \<and>
      traces_only (ne_Root ne) (nd_Disk nd') = (traces_only (ne_Root ne) (nd_Disk nd))\<lparr>d_dirs := d_dirs (nd_Disk nd) @ ds\<rparr>"
    unfolding snapshot take_snapshot_def Let_def using snapshot_traces_only [OF rt st'] by simp
  then obtain ds where ds: "set ds \<subseteq> {path_clean (ne_Root ne @ ''/snapshots'')}"
      "traces_only (ne_Root ne) (nd_Disk nd') = (traces_only (ne_Root ne) (nd_Disk nd))\<lparr>d_dirs := d_dirs (nd_Disk nd) @ ds\<rparr>" by blast
  then have "\<forall>p \<in> set ds. entry_of (traces_dir (ne_Root ne)) p = None" using entry_of_dirs(2) [OF rt] by auto
  then show ?thesis using inv holds_dirs [of "ne_State ne" "ne_Root ne" _ "traces_only (ne_Root ne) (nd_Disk nd)" ds] f ds(2)
    by (simp add: disk_inv_def)
next
  case (compaction flt now olderThan)
  then show ?thesis using inv compact_open_ok by (simp add: disk_inv_def)
next
  case (compact i flt c d)
  have p: "compactor_ok (nd_Compactors nd ! i)" using inv compact(2) by (simp add: disk_inv_def)
  then have "\<forall>c \<in> set ((nd_Compactors nd)[i := c]). compactor_ok c"
    using inv compact_act_ok [OF p, of "ne_Root ne" flt "nd_Disk nd"] compact(3) set_update_subset_insert [of "nd_Compactors nd" i c]
    by (auto simp: disk_inv_def)
  then show ?thesis using inv compact_act_holds [OF rt p, where d = "nd_Disk nd" and flt = flt] compact(3)
    by (auto simp: disk_inv_def compact(1) history_append)
qed (use inv in \<open>auto simp: disk_inv_def emitMetricsCycle_def collect_error_def Let_def\<close>)

lemma node_invs:
  assumes run: "(node_step ne)\<^sup>*\<^sup>* (new_node ne flt now (NewKernelEngine cfg cwd logger env t) w d0) nd"
    and h: "holds (ne_State ne) (ne_Root ne) m0 (traces_only (ne_Root ne) d0)" and rt: "has_prefix (ne_Root ne) ''/''" and st: "stamp_ok (ne_State ne)"
  shows "writes_inv nd" "events_inv nd" "disk_inv ne m0 nd"
proof -
  have "writes_inv nd \<and> events_inv nd \<and> disk_inv ne m0 nd" using run
  proof (induction rule: rtranclp_induct)
    case base
    have "holds (ne_State ne) (ne_Root ne) m0 (traces_only (ne_Root ne) (NewStateStore flt (ne_Root ne) d0))"
      using h entry_of_dirs(2) [OF rt] by (auto simp: NewStateStore_def holds_def mkdir_all_def traces_only_def Let_def)
    then show ?case by (simp add: writes_inv_def events_inv_def disk_inv_def new_node_def NewKernelEngine_def history_def Let_def)
  next
    case (step nd1 nd2)
    then show ?case using writes_inv_step events_inv_step disk_inv_step [OF _ _ st rt] by blast
  qed
  then show "writes_inv nd" "events_inv nd" "disk_inv ne m0 nd" by simp_all
qed

text \<open>C40:
  The history of a kernel is true. It starts, with a state under an absolute path, on a disk whose directory of traces holds
  the history \<open>m0\<close> of earlier runs (\<open>[]\<close> for a new one), and goes through any steps of the engine, the writer, the metrics, the
  snapshots and the compactions, each access to the disk with its own faults. Let the identifiers of the contexts that the
  writer took be without a slash, the encoding of their records decodable, and the formatted times without a slash. Then a
  replay that meets no fault gives the traces of that history, changed by the saves that succeeded and the files that were
  removed since, in their order. The contexts the writer took and those that wait for it are part of those printed, in
  that order; each it took was saved or has a STATE_WRITE_FAILED in the log; and only those were saved.
\<close>
theorem node_history_true:
  assumes "(node_step ne)\<^sup>*\<^sup>* (new_node ne flt now (NewKernelEngine cfg cwd logger env t) w d0) nd"
    and "holds (ne_State ne) (ne_Root ne) m0 (traces_only (ne_Root ne) d0)" and "has_prefix (ne_Root ne) ''/''"
    and "stamp_ok (ne_State ne)" and "good_env (ne_State ne)" and "\<forall>c \<in> set (nd_Written nd). savable (ne_State ne) c"
  shows "(\<exists>r. node_ReplayHistory ne nd = Inr r \<and> rr_Traces r = history_traces (history (nd_Events nd) m0) \<and>
      rr_TotalCount r = card (set (gm_keys (history (nd_Events nd) m0)))) \<and>
    subseq (nd_Written nd @ kn_stateWrites (nd_Engine nd)) (kn_printed (nd_Engine nd)) \<and>
    (\<forall>c \<in> set (nd_Written nd). (\<exists>t. TraceSaved c t \<in> set (nd_Events nd)) \<or>
      (\<exists>t e. status_entry t (rc_RequestID c) ''STATE_WRITE_FAILED'' e \<in> set (nd_Log nd))) \<and>
    (\<forall>c t. TraceSaved c t \<in> set (nd_Events nd) \<longrightarrow> c \<in> set (nd_Written nd))"
proof -
  let ?m = "history (nd_Events nd) m0"
  have inv: "writes_inv nd" "events_inv nd" "disk_inv ne m0 nd" by (rule node_invs [OF assms(1-4)])+
  have h: "holds (ne_State ne) (ne_Root ne) ?m (traces_only (ne_Root ne) (nd_Disk nd))" using inv(3) assms(6) by (simp add: disk_inv_def)
  have r: "node_ReplayHistory ne nd = Inr (fold replay_add (history_traces ?m) no_replay)"
    using holds_replay [OF assms(5,3) h] replay_traces_only [OF assms(3)] by (simp add: node_ReplayHistory_def)
  have c: "length (history_traces ?m) = card (set (gm_keys ?m))" using h by (simp add: holds_def history_traces_count)
  have s: "subseq (nd_Written nd @ kn_stateWrites (nd_Engine nd)) (kn_printed (nd_Engine nd))"
  proof (rule subseq_order.order_trans)
    show "subseq (nd_Written nd @ kn_stateWrites (nd_Engine nd))
        ((nd_Written nd @ kn_stateWrites (nd_Engine nd)) @ offered (kn_collector (nd_Engine nd)))"
      by (rule subseq_rev_drop_many) simp
  qed (use inv(1) in \<open>simp add: writes_inv_def\<close>)
  show ?thesis using r c s inv(2) unfolding events_inv_def by (simp add: replay_fold no_replay_def)
qed

text \<open>An example: one request is taken, executed, answered and written; its trace is the one that the encoding knows.\<close>

definition trace_env :: "TraceRecord \<Rightarrow> node_env" where
  "trace_env tr =
     \<lparr>ne_State = \<lparr>se_Faults = (\<lambda>_ _. None), se_Traces = \<lparr>co_Encode = (\<lambda>_. Inr []), co_Decode = (\<lambda>_. Inr tr)\<rparr>,
        se_Snapshots = \<lparr>co_Encode = (\<lambda>_. Inl ''none''), co_Decode = (\<lambda>_. Inl ''none'')\<rparr>, se_Stamp = (\<lambda>_. [])\<rparr>,
      ne_Root = ''/s'', ne_Marshal = (\<lambda>_. []), ne_RFC = (\<lambda>_. [])\<rparr>"

abbreviation engine_step :: "'w KernelEngine \<times> 'w \<Rightarrow> 'w KernelEngine \<times> 'w \<Rightarrow> bool" where
  "engine_step s t \<equiv> kernel_step s t \<and> prefix (kn_stateWrites (fst s)) (kn_stateWrites (fst t))"

lemma engine_steps:
  "engine_step\<^sup>*\<^sup>* s t \<Longrightarrow>
    (node_step ne)\<^sup>*\<^sup>* (nd\<lparr>nd_Engine := fst s, nd_World := snd s\<rparr>) (nd\<lparr>nd_Engine := fst t, nd_World := snd t\<rparr>)"
proof (induction rule: rtranclp_induct)
  case (step t u)
  have "node_step ne (nd\<lparr>nd_Engine := fst t, nd_World := snd t\<rparr>) (nd\<lparr>nd_Engine := fst u, nd_World := snd u\<rparr>)"
    using node_step.engine [of "nd\<lparr>nd_Engine := fst t, nd_World := snd t\<rparr>" "fst u" "snd u" ne] step(2) by simp
  then show ?case using step(3) by (rule rtranclp.rtrancl_into_rtrancl [rotated])
qed simp

lemma collect_steps: "engine_step\<^sup>*\<^sup>* (ke, w) ((collect_act ^^ n) ke, w)"
proof (induction n)
  case (Suc n)
  have "engine_step (ke, w) (collect_act ke, w)" for ke :: "'a KernelEngine"
    using kernel_step.collect [of ke w] by (auto simp: collect_act_def split: collector.split)
  from this [of "(collect_act ^^ n) ke"] Suc show ?case by (auto intro: rtranclp.rtrancl_into_rtrancl)
qed simp

lemma one_request_answered:
  "\<exists>ke rc. engine_step\<^sup>*\<^sup>* (NewKernelEngine one_config None None echo_env 1, ()) (ke, ()) \<and> kn_stateWrites ke = [rc] \<and> kn_printed ke = [rc] \<and>
     rc_RequestID rc = ''r''"
proof -
  obtain ke where ke: "quiet_step\<^sup>*\<^sup>* (NewKernelEngine one_config None None echo_env 1, ()) (ke, ())" "kn_busy ke = [Some (ingest_context 5 raw_echo)]"
      "kn_results ke = []" "kn_collector ke = CollectReady" "kn_printed ke = []" "kn_stateWrites ke = []" "kn_capacity ke = 128"
      "\<not> kn_writesClosed ke"
    using one_request_taken by blast
  obtain dg rc u where p: "processOne (wp_workers (kn_pool ke) ! 0) (ingest_context 5 raw_echo) () = (dg, rc, u)" by (metis prod_cases3)
  define k1 where "k1 = ke\<lparr>kn_busy := [None], kn_results := [rc], kn_pool := after_request 0 dg 9 (kn_pool ke)\<rparr>"
  define k2 where "k2 = k1\<lparr>kn_results := [], kn_collector := CollectDepth rc\<rparr>"
  have 0: "engine_step\<^sup>*\<^sup>* (NewKernelEngine one_config None None echo_env 1, ()) (ke, ())"
    using ke(1) by (rule rtranclp_mono [THEN predicate2D, rotated]) auto
  have 1: "engine_step (ke, ()) (k1, ())"
    using kernel_step.finish [of 0 ke "ingest_context 5 raw_echo" "()" dg rc "()" 9] ke p by (simp add: k1_def)
  have 2: "engine_step (k1, ()) (k2, ())"
    using kernel_step.receive [of k1 rc "[]" "()"] ke by (simp add: k2_def k1_def)
  have "engine_step\<^sup>*\<^sup>* (NewKernelEngine one_config None None echo_env 1, ()) ((collect_act ^^ 7) k2, ())"
    by (rule rtranclp_trans [OF rtranclp.rtrancl_into_rtrancl [OF rtranclp.rtrancl_into_rtrancl [OF 0 1] 2] collect_steps])
  moreover have "kn_stateWrites ((collect_act ^^ 7) k2) = [rc]" "kn_printed ((collect_act ^^ 7) k2) = [rc]"
    using ke by (simp_all add: numeral_nat funpow_swap1 collect_act_def k2_def k1_def)
  moreover have "rc_RequestID rc = ''r''"
    using processOne_request [OF p] by (simp add: ingest_context_def raw_echo_def NewRequestContext_def)
  ultimately show ?thesis by blast
qed

lemma node_history_true_witness:
  "\<exists>ne nd r rc. (node_step ne)\<^sup>*\<^sup>*
       (new_node ne (\<lambda>_ _. None) 0 (NewKernelEngine one_config None None echo_env 1) () \<lparr>d_files = [], d_dirs = []\<rparr>) nd \<and>
     kn_printed (nd_Engine nd) = [rc] \<and> node_ReplayHistory ne nd = Inr r \<and> rr_Traces r = [trace_record rc] \<and> rr_TotalCount r = 1"
proof -
  obtain ke rc where ke: "engine_step\<^sup>*\<^sup>* (NewKernelEngine one_config None None echo_env 1, ()) (ke, ())" "kn_stateWrites ke = [rc]"
      "kn_printed ke = [rc]" "rc_RequestID rc = ''r''"
    using one_request_answered by blast
  define ne where "ne = trace_env (trace_record rc)"
  define nd0 where "nd0 = new_node ne (\<lambda>_ _. None) 0 (NewKernelEngine one_config None None echo_env 1) () \<lparr>d_files = [], d_dirs = []\<rparr>"
  have n0: "nd0\<lparr>nd_Engine := NewKernelEngine one_config None None echo_env 1, nd_World := ()\<rparr> = nd0"
      "nd_Written nd0 = []" "nd_Events nd0 = []"
    by (simp_all add: nd0_def new_node_def)
  define nd1 where "nd1 = nd0\<lparr>nd_Engine := ke, nd_World := ()\<rparr>"
  define nd where "nd = (stateWriter ne (\<lambda>_ _. None) (\<lambda>_ _. None) 10 rc (nd1\<lparr>nd_Engine := ke\<lparr>kn_stateWrites := []\<rparr>\<rparr>))
      \<lparr>nd_Written := [rc], nd_Events := write_events ne (\<lambda>_ _. None) (\<lambda>_ _. None) 10 rc (nd_Disk nd1)\<rparr>"
  have "(node_step ne)\<^sup>*\<^sup>* nd0 nd1" using engine_steps [OF ke(1), of ne nd0] n0 by (simp add: nd1_def)
  moreover have "node_step ne nd1 nd"
    using node_step.persisted [of nd1 rc "[]" ne "\<lambda>_ _. None" "\<lambda>_ _. None" 10] ke(2) n0(2,3) by (simp add: nd_def nd1_def)
  ultimately have steps: "(node_step ne)\<^sup>*\<^sup>* nd0 nd" by (rule rtranclp.rtrancl_into_rtrancl)
  have w: "nd_Written nd = [rc]" "kn_printed (nd_Engine nd) = [rc]" "nd_Events nd = [TraceSaved rc 10]"
    using ke(3) by (simp_all add: nd_def stateWriter_def write_events_def saveTraceInternal_def WriteJSON_def ne_def trace_env_def Let_def split: prod.split option.split)
  have m: "history (nd_Events nd) [] = [(''r'', rc, 10)]" by (simp add: w history_def ke(4) gm_put_def)
  have "holds (ne_State ne) (ne_Root ne) [] (traces_only (ne_Root ne) \<lparr>d_files = [], d_dirs = []\<rparr>)"
    by (simp add: holds_def traces_only_def gm_wf_def gm_keys_def)
  moreover have "has_prefix (ne_Root ne) ''/''" "stamp_ok (ne_State ne)" "good_env (ne_State ne)"
    by (simp_all add: ne_def trace_env_def good_env_def stamp_ok_def)
  moreover have "\<forall>c \<in> set (nd_Written nd). savable (ne_State ne) c"
    using w ke(4) by (simp add: savable_def trace_name_def ne_def trace_env_def)
  ultimately have "\<exists>r. node_ReplayHistory ne nd = Inr r \<and> rr_Traces r = history_traces (history (nd_Events nd) []) \<and>
      rr_TotalCount r = card (set (gm_keys (history (nd_Events nd) [])))"
    using node_history_true [OF steps [unfolded nd0_def]] by blast
  then show ?thesis using steps w unfolding m nd0_def by (auto simp: history_traces_def gm_keys_def gm_get_def)
qed

end
