(* ===== verification/V2_Policy.thy ===== *)
theory V2_Policy
  imports Complex_Main Go_Base Go_Strings "HOL-Library.Word"
begin

text \<open>
  The second MCP gateway, \<open>runtime/mcp/v2\<close>, up to the decision: the schema (\<open>schema.go\<close>), the validation of requests
  (\<open>validate.go\<close>), the policy a request carries (\<open>policy.go\<close>), the capability table (\<open>router.go\<close>), the enforcement rules
  (\<open>enforcement.go\<close>) and the policy intelligence (\<open>policy_intelligence.go\<close>). JSON tags, locks and log lines are not
  modelled; \<open>float64\<close> is \<open>real\<close>, without rounding.
\<close>

subsection \<open>Schema\<close>

record V2Action =
  va_Type :: string
  va_Operation :: string
  va_Version :: string

record KnowledgeDoc =
  kd_Collection :: string
  kd_Query :: string
  kd_Results :: any
  kd_DurationMs :: int

record V2Context =
  vc_TenantID :: string
  vc_SessionID :: string
  vc_TraceID :: string
  vc_TimeoutMs :: int
  vc_Knowledge :: "KnowledgeDoc list"
  vc_Path :: string
  vc_Repo :: string

record V2Auth =
  vu_Type :: string
  vu_Scope :: "string list"

record V2PolicySpec =
  vp_Allow :: "string list"
  vp_Deny :: "string list"

record V2Meta =
  vm_Priority :: string
  vm_Timeout :: int
  vm_Retry :: int
  vm_TraceID :: string
  vm_SpanID :: string

record V2Request =
  vr_ID :: string
  vr_Timestamp :: string
  vr_Source :: string
  vr_Type :: string
  vr_Action :: V2Action
  vr_Context :: V2Context
  vr_Resource :: string
  vr_Parameters :: "(string, any) gomap"
  vr_Auth :: V2Auth
  vr_Policy :: V2PolicySpec
  vr_Meta :: V2Meta

text \<open>The metadata of a step; scores keep their own kind.\<close>

datatype step_value = StepAny any | StepScore real

record TraceStep =
  ts_Stage :: string
  ts_Input :: string
  ts_Output :: string
  ts_Meta :: "(string, step_value) gomap"

record DecisionTrace =
  dt_TraceID :: string
  dt_RequestID :: string
  dt_ServerScores :: "(string, real) gomap"
  dt_SelectedServer :: string
  dt_SecondBest :: string
  dt_ScoreDelta :: real
  dt_KnowledgeUsed :: "string list"
  dt_Steps :: "TraceStep list"

record ErrorInfo =
  ei_Code :: string
  ei_Message :: string
  ei_Recoverable :: bool

record V2Response =
  vs_ID :: string
  vs_RequestID :: string
  vs_Status :: string
  vs_Server :: string
  vs_Operation :: string
  vs_Duration :: int
  vs_Data :: any
  vs_Format :: string
  vs_Error :: ErrorInfo
  vs_Cached :: bool
  vs_Retried :: int
  vs_TraceID :: string
  vs_SpanID :: string
  vs_DecisionTrace :: "DecisionTrace option"

subsection \<open>Validation\<close>

definition validActionTypes :: "string list" where
  "validActionTypes = [''git'', ''filesystem'', ''memory'', ''github'', ''fetch'', ''context7'', ''postgres'', ''chroma'']"

definition validPriorities :: "string list" where "validPriorities = [''low'', ''medium'', ''high'', ''critical'']"
definition validAuthTypes :: "string list" where "validAuthTypes = [''bearer'', ''api_key'', ''mcp_signed'']"
definition maxTimeout :: int where "maxTimeout = 120000"
definition maxRetry :: int where "maxRetry = 3"

text \<open>The checks in their order, each with its message.\<close>

definition request_checks :: "V2Request \<Rightarrow> (bool \<times> string) list" where
  "request_checks r =
     [(vr_ID r = [], ''id is required''),
      (vr_Timestamp r = [], ''timestamp is required''),
      (vr_Source r \<noteq> ''opencode'', ''source must be '' @ [CHR 0x27] @ ''opencode'' @ [CHR 0x27]),
      (vr_Type r \<noteq> ''mcp.request'', ''type must be '' @ [CHR 0x27] @ ''mcp.request'' @ [CHR 0x27]),
      (va_Type (vr_Action r) \<notin> set validActionTypes, ''invalid action type: '' @ va_Type (vr_Action r)),
      (va_Operation (vr_Action r) = [], ''action operation is required''),
      (vc_SessionID (vr_Context r) = [], ''context.session_id is required''),
      (vc_TraceID (vr_Context r) = [], ''context.trace_id is required''),
      (vc_Path (vr_Context r) = [], ''context.workspace.path is required''),
      (vu_Type (vr_Auth r) \<notin> set validAuthTypes, ''invalid auth type: '' @ vu_Type (vr_Auth r)),
      (vm_Priority (vr_Meta r) \<notin> set validPriorities, ''invalid priority: '' @ vm_Priority (vr_Meta r)),
      (vm_Timeout (vr_Meta r) > maxTimeout, ''timeout_ms exceeds max '' @ int_digits maxTimeout),
      (vm_Retry (vr_Meta r) > maxRetry, ''retry exceeds max '' @ int_digits maxRetry)]"

definition ValidateRequest :: "V2Request \<Rightarrow> string option" where
  "ValidateRequest r =
     (let errs = map snd (filter fst (request_checks r))
      in if length errs > 0 then Some (''validation failed: '' @ join_with ''; '' errs) else None)"

subsection \<open>The policy of a request\<close>

definition matchPolicy :: "string \<Rightarrow> string \<Rightarrow> bool" where
  "matchPolicy pattern action =
     (if pattern = ''*'' \<or> pattern = ''*.*'' then True
      else
        let parts = split2 (CHR ''.'') pattern; actionParts = split2 (CHR ''.'') action
        in if length parts = 0 \<or> length actionParts = 0 then False
           else if parts ! 0 \<noteq> ''*'' \<and> parts ! 0 \<noteq> actionParts ! 0 then False
           else if length parts = 1 then length actionParts \<ge> 1
           else if parts ! 1 = ''*'' then length actionParts \<ge> 2
           else length actionParts \<ge> 2 \<and> parts ! 1 = actionParts ! 1)"

definition Enforce :: "string \<Rightarrow> string \<Rightarrow> V2PolicySpec \<Rightarrow> string option" where
  "Enforce actionType operation policy =
     (let actionStr = actionType @ ''.'' @ operation
      in case find (\<lambda>d. matchPolicy d actionStr) (vp_Deny policy) of
           Some d \<Rightarrow> Some (''policy deny: '' @ actionStr @ '' matches '' @ d)
         | None \<Rightarrow>
             if length (vp_Allow policy) > 0 \<and> \<not> list_ex (\<lambda>a. matchPolicy a actionStr) (vp_Allow policy)
             then Some (''policy deny (default): '' @ actionStr @ '' not in allow list'')
             else None)"

subsection \<open>Capabilities\<close>

record Capability =
  cap_Server :: string
  cap_Capabilities :: "string list"
  cap_Version :: string

type_synonym V2Router = "(string, Capability) gomap"

definition capability :: "string \<Rightarrow> string list \<Rightarrow> Capability" where
  "capability server ops = \<lparr>cap_Server = server, cap_Capabilities = ops, cap_Version = ''1.0''\<rparr>"

definition NewRouter :: V2Router where
  "NewRouter =
     [(''git'', capability ''git'' [''status'', ''diff'', ''commit'', ''push'', ''branch'', ''log'', ''tag'']),
      (''filesystem'', capability ''filesystem'' [''read'', ''write'', ''list'', ''search'', ''delete'']),
      (''memory'', capability ''memory'' [''store'', ''retrieve'', ''delete'', ''list'']),
      (''github'', capability ''github'' [''read'', ''repo'', ''list_issues'', ''create_issue'', ''create_pr'', ''create_release'', ''push'', ''tag'']),
      (''fetch'', capability ''fetch'' [''url'', ''get'', ''status'', ''download'']),
      (''context7'', capability ''context7'' [''query'', ''store'', ''resolve'']),
      (''postgres'', capability ''postgres'' [''query'', ''execute'', ''list_tables'']),
      (''chroma'', capability ''chroma'' [''store'', ''query'', ''delete'', ''list_collections''])]"

text \<open>\<open>ListAll\<close> ranges over the map: the order of the result is arbitrary, any permutation of this one.\<close>

definition ListAll :: "V2Router \<Rightarrow> Capability list" where "ListAll r = map snd r"

definition Resolve :: "V2Router \<Rightarrow> string \<Rightarrow> string \<Rightarrow> string + Capability" where
  "Resolve r actionType operation =
     (case gm_get r actionType of
        None \<Rightarrow> Inl (''no server registered for action: '' @ actionType)
      | Some c \<Rightarrow>
          if operation \<in> set (cap_Capabilities c) then Inr c
          else Inl (''operation '' @ operation @ '' not supported by server '' @ cap_Server c))"

subsection \<open>Enforcement rules\<close>

type_synonym EnforcementEngine = "(string, bool \<times> string) gomap"

record EnforcementResult =
  er_Allowed :: bool
  er_BlockReason :: string
  er_Server :: string
  er_Operation :: string

definition policyKey :: "string \<Rightarrow> string \<Rightarrow> string" where "policyKey server operation = server @ '':'' @ operation"

definition NewEnforcementEngine :: EnforcementEngine where "NewEnforcementEngine = []"

definition SetRule :: "string \<Rightarrow> string \<Rightarrow> bool \<Rightarrow> string \<Rightarrow> EnforcementEngine \<Rightarrow> EnforcementEngine" where
  "SetRule server operation allowed reason ee = gm_put (policyKey server operation) (allowed, reason) ee"

definition enf_Check :: "EnforcementEngine \<Rightarrow> string \<Rightarrow> string \<Rightarrow> EnforcementResult" where
  "enf_Check ee server operation =
     (case gm_get ee (policyKey server operation) of
        Some (False, reason) \<Rightarrow> \<lparr>er_Allowed = False, er_BlockReason = reason, er_Server = server, er_Operation = operation\<rparr>
      | _ \<Rightarrow> \<lparr>er_Allowed = True, er_BlockReason = [], er_Server = server, er_Operation = operation\<rparr>)"

subsection \<open>Policy intelligence\<close>

record PolicyEvent =
  pe_TraceID :: string
  pe_RequestID :: string
  pe_Server :: string
  pe_Operation :: string
  pe_Allowed :: bool
  pe_Blocked :: bool
  pe_Reason :: string

record PolicySuggestion =
  ps_Server :: string
  ps_Operation :: string
  ps_SuggestedAction :: string
  ps_Confidence :: real

record PolicyIntelligenceEngine =
  pi_History :: "PolicyEvent list"
  pi_Weights :: "(string, real) gomap"
  pi_Drifts :: "(string, nat) gomap"

definition NewPolicyIntelligenceEngine :: PolicyIntelligenceEngine where
  "NewPolicyIntelligenceEngine = \<lparr>pi_History = [], pi_Weights = [], pi_Drifts = []\<rparr>"

definition same_event :: "string \<Rightarrow> string \<Rightarrow> PolicyEvent \<Rightarrow> bool" where
  "same_event server operation e \<longleftrightarrow> pe_Server e = server \<and> pe_Operation e = operation"

text \<open>The last ten events, the new one among them.\<close>

definition recent_blocks :: "PolicyEvent list \<Rightarrow> PolicyEvent \<Rightarrow> nat" where
  "recent_blocks h e =
     length (filter (\<lambda>x. same_event (pe_Server e) (pe_Operation e) x \<and> pe_Blocked x) (drop (length h - 10) h))"

definition pi_Record :: "PolicyEvent \<Rightarrow> PolicyIntelligenceEngine \<Rightarrow> PolicyIntelligenceEngine" where
  "pi_Record event pie =
     (let h = pi_History pie @ [event]; key = policyKey (pe_Server event) (pe_Operation event);
          weights =
            (if pe_Allowed event then gm_put key (gm_at 0 (pi_Weights pie) key + 1 / 100) (pi_Weights pie)
             else if pe_Blocked event then gm_put key (gm_at 0 (pi_Weights pie) key - 2 / 100) (pi_Weights pie)
             else pi_Weights pie);
          blockCount = recent_blocks h event
      in \<lparr>pi_History = h, pi_Weights = weights,
          pi_Drifts = (if blockCount \<ge> 3 then gm_put key blockCount (pi_Drifts pie) else pi_Drifts pie)\<rparr>)"

definition DetectDrift :: "PolicyIntelligenceEngine \<Rightarrow> string \<Rightarrow> string \<Rightarrow> bool \<times> nat" where
  "DetectDrift pie server operation =
     (case gm_get (pi_Drifts pie) (policyKey server operation) of None \<Rightarrow> (False, 0) | Some n \<Rightarrow> (n \<ge> 3, n))"

definition splitKey :: "string \<Rightarrow> string \<times> string" where
  "splitKey key =
     (let h = takeWhile (\<lambda>c. c \<noteq> CHR '':'') key
      in if length h = length key then ([], []) else (h, drop (length h + 1) key))"

text \<open>The map of drifts is ranged over in its own order.\<close>

definition GenerateSuggestions :: "PolicyIntelligenceEngine \<Rightarrow> PolicySuggestion list" where
  "GenerateSuggestions pie =
     concat (map (\<lambda>(key, driftCount).
       case splitKey key of (server, operation) \<Rightarrow>
         if server = [] \<or> operation = [] then []
         else
           let weight = gm_at 0 (pi_Weights pie) key;
               totalEvents = length (filter (same_event server operation) (pi_History pie))
           in if driftCount \<ge> 3 \<and> weight < - (5 / 100) \<and> totalEvents \<ge> 5
              then [\<lparr>ps_Server = server, ps_Operation = operation, ps_SuggestedAction = ''review_policy'',
                     ps_Confidence = min (1 / 2 + real driftCount / 10) (95 / 100)\<rparr>]
              else []) (pi_Drifts pie))"

definition EventCount :: "PolicyIntelligenceEngine \<Rightarrow> nat" where "EventCount pie = length (pi_History pie)"

definition pi_Weight :: "PolicyIntelligenceEngine \<Rightarrow> string \<Rightarrow> string \<Rightarrow> real" where
  "pi_Weight pie server operation = gm_at 0 (pi_Weights pie) (policyKey server operation)"

definition DriftCount :: "PolicyIntelligenceEngine \<Rightarrow> string \<Rightarrow> string \<Rightarrow> nat" where
  "DriftCount pie server operation = gm_at 0 (pi_Drifts pie) (policyKey server operation)"

subsection \<open>Trace identifiers\<close>

unbundle bit_operations_syntax

definition hex_digits :: string where "hex_digits = ''0123456789abcdef''"

definition hexEncode :: "8 word list \<Rightarrow> string" where
  "hexEncode bs = concat (map (\<lambda>v. [hex_digits ! unat (drop_bit 4 v), hex_digits ! unat (v AND 0x0f)]) bs)"

subsection \<open>What they promise\<close>

lemma ValidateRequest_iff:
  "ValidateRequest r = None \<longleftrightarrow>
     vr_ID r \<noteq> [] \<and> vr_Timestamp r \<noteq> [] \<and> vr_Source r = ''opencode'' \<and> vr_Type r = ''mcp.request'' \<and>
     va_Type (vr_Action r) \<in> set validActionTypes \<and> va_Operation (vr_Action r) \<noteq> [] \<and>
     vc_SessionID (vr_Context r) \<noteq> [] \<and> vc_TraceID (vr_Context r) \<noteq> [] \<and> vc_Path (vr_Context r) \<noteq> [] \<and>
     vu_Type (vr_Auth r) \<in> set validAuthTypes \<and> vm_Priority (vr_Meta r) \<in> set validPriorities \<and>
     vm_Timeout (vr_Meta r) \<le> maxTimeout \<and> vm_Retry (vr_Meta r) \<le> maxRetry"
proof -
  have "ValidateRequest r = None \<longleftrightarrow> (\<forall>c\<in>set (request_checks r). \<not> fst c)"
    by (auto simp: ValidateRequest_def Let_def filter_empty_conv)
  then show ?thesis by (simp add: request_checks_def not_less)
qed

text \<open>The patterns that match an action, for a type without a dot.\<close>

definition policy_patterns :: "string \<Rightarrow> string \<Rightarrow> string set" where
  "policy_patterns t operation = {''*'', ''*.*'', t, t @ ''.*'', ''*.'' @ operation, t @ ''.'' @ operation}"

lemma split2_cases: "(d \<notin> set s \<and> split2 d s = [s]) \<or> (\<exists>h t. d \<notin> set h \<and> s = h @ d # t \<and> split2 d s = [h, t])"
proof (cases "d \<in> set s")
  case True
  then obtain h t where "s = h @ d # t" "d \<notin> set h" using split_list_first by metis
  then show ?thesis using split2_append by blast
qed (simp add: split2_single)

lemma dot_split_inj: "d \<notin> set h \<Longrightarrow> d \<notin> set h' \<Longrightarrow> h @ d # t = h' @ d # t' \<longleftrightarrow> h = h' \<and> t = t'"
  by (induction h arbitrary: h') (case_tac h'; auto)+

lemma matchPolicy_iff:
  assumes t: "CHR ''.'' \<notin> set t"
  shows "matchPolicy p (t @ ''.'' @ operation) \<longleftrightarrow> p \<in> policy_patterns t operation"
proof -
  have a: "split2 (CHR ''.'') (t @ CHR ''.'' # operation) = [t, operation]" by (rule split2_append [OF t])
  show ?thesis
    using split2_cases [of "CHR ''.''" p]
  proof (elim disjE exE conjE)
    assume "CHR ''.'' \<notin> set p" "split2 (CHR ''.'') p = [p]"
    then show ?thesis using t by (auto simp: matchPolicy_def a policy_patterns_def Let_def)
  next
    fix h u assume *: "CHR ''.'' \<notin> set h" "p = h @ CHR ''.'' # u" "split2 (CHR ''.'') p = [h, u]"
    have star: "p = ''*.*'' \<longleftrightarrow> h = ''*'' \<and> u = ''*''" "p \<noteq> ''*''" "p \<noteq> t"
      "p = t @ ''.*'' \<longleftrightarrow> h = t \<and> u = ''*''" "p = ''*.'' @ operation \<longleftrightarrow> h = ''*'' \<and> u = operation"
      "p = t @ ''.'' @ operation \<longleftrightarrow> h = t \<and> u = operation"
      using dot_split_inj [OF *(1), of "''*''" u "''*''"] dot_split_inj [OF *(1) t, of u "''*''"]
        dot_split_inj [OF *(1), of "''*''" u operation] dot_split_inj [OF *(1) t, of u operation] *(2) t
      by (auto simp: append_eq_Cons_conv)
    then show ?thesis by (auto simp: matchPolicy_def a policy_patterns_def Let_def *(3))
  qed
qed

lemma Enforce_iff:
  assumes "CHR ''.'' \<notin> set t"
  shows "Enforce t operation pol = None \<longleftrightarrow>
    set (vp_Deny pol) \<inter> policy_patterns t operation = {} \<and>
    (vp_Allow pol = [] \<or> set (vp_Allow pol) \<inter> policy_patterns t operation \<noteq> {})"
proof (cases "find (\<lambda>d. matchPolicy d (t @ ''.'' @ operation)) (vp_Deny pol)")
  case None
  then have "set (vp_Deny pol) \<inter> policy_patterns t operation = {}" by (auto simp: find_None_iff matchPolicy_iff [OF assms, simplified])
  with None show ?thesis
    by (auto simp: Enforce_def Let_def list_ex_iff matchPolicy_iff [OF assms, simplified])
next
  case (Some d)
  then have "d \<in> set (vp_Deny pol) \<inter> policy_patterns t operation"
    by (auto simp: find_Some_iff matchPolicy_iff [OF assms, simplified])
  with Some show ?thesis by (auto simp: Enforce_def Let_def)
qed

text \<open>No action type has a dot, so a request that passed the validation has one of these six patterns.\<close>

lemma action_type_no_dot: "t \<in> set validActionTypes \<Longrightarrow> CHR ''.'' \<notin> set t"
  by (auto simp: validActionTypes_def)

text \<open>The hexadecimal text determines the random bytes, so identifiers are as distinct as what they are drawn from.\<close>

lemma low_nibble: "v AND 0x0f = take_bit 4 (v :: 8 word)"
proof -
  have "(0x0f :: 8 word) = mask 4" by (simp add: mask_numeral)
  then show ?thesis by (simp only: take_bit_eq_mask)
qed

lemma nibbles_inj:
  fixes v u :: "8 word"
  assumes "drop_bit 4 v = drop_bit 4 u" "v AND 0x0f = u AND 0x0f"
  shows "v = u"
proof -
  have "take_bit 4 v = take_bit 4 u" using assms(2) by (simp only: low_nibble)
  with assms(1) show ?thesis using bits_ident [of 4 v] bits_ident [of 4 u] by (metis (no_types))
qed

lemma hex_digit_inj:
  fixes a b :: "8 word"
  assumes "unat a < 16" "unat b < 16" "hex_digits ! unat a = hex_digits ! unat b"
  shows "a = b"
proof -
  have "distinct hex_digits" "length hex_digits = 16" by (simp_all add: hex_digits_def)
  then have "unat a = unat b" using assms nth_eq_iff_index_eq by metis
  then show ?thesis by (simp only: word_unat_eq_iff)
qed

lemma nibble_bounds:
  fixes v :: "8 word"
  shows "unat (drop_bit 4 v) < 16" "unat (v AND 0x0f) < 16"
proof -
  have "unat v < 256" using unsigned_less [of v] by simp
  then have "unat v div 2 ^ 4 < 16" by (intro less_mult_imp_div_less) simp
  then have "drop_bit 4 (unat v) < 16" by (simp only: drop_bit_eq_div)
  then show "unat (drop_bit 4 v) < 16" by (simp only: unat_drop_bit_eq)
  have "take_bit 4 (unat v) < 2 ^ 4" by (rule take_bit_nat_less_exp)
  then show "unat (v AND 0x0f) < 16" by (simp only: low_nibble unsigned_take_bit_eq) simp
qed

lemma hexEncode_inj: "hexEncode bs = hexEncode cs \<Longrightarrow> bs = cs"
proof (induction bs arbitrary: cs)
  case Nil
  then show ?case by (cases cs) (auto simp: hexEncode_def)
next
  case (Cons b bs)
  then obtain c cs' where c: "cs = c # cs'" by (cases cs) (auto simp: hexEncode_def)
  with Cons.prems have "hex_digits ! unat (drop_bit 4 b) = hex_digits ! unat (drop_bit 4 c)"
    "hex_digits ! unat (b AND 0x0f) = hex_digits ! unat (c AND 0x0f)" "hexEncode bs = hexEncode cs'"
    by (auto simp: hexEncode_def)
  with Cons.IH c show ?case
    using hex_digit_inj nibble_bounds nibbles_inj by metis
qed

lemma hexEncode_length: "length (hexEncode bs) = 2 * length bs"
  by (induction bs) (auto simp: hexEncode_def)

end
