(* ===== verification/V2_Learning.thy ===== *)
theory V2_Learning
  imports V2_Policy
begin

text \<open>
  What the second gateway learns, \<open>feedback.go\<close>: weights of the servers, exploration, stability; and the token bucket
  of \<open>gateway.go\<close>. \<open>float64\<close> is \<open>real\<close>, times are nanoseconds; locks and log lines are not modelled.
\<close>

subsection \<open>Weights\<close>

record ServerWeights =
  sw_CapabilityFit :: real
  sw_KeywordMatch :: real
  sw_History :: real

record RoutingOutcome =
  ro_RequestID :: string
  ro_SelectedServer :: string
  ro_Success :: bool
  ro_LatencyMs :: int
  ro_Timestamp :: int

type_synonym LearningEngine = "(string, ServerWeights) gomap"

definition default_weights :: ServerWeights where
  "default_weights = \<lparr>sw_CapabilityFit = 30 / 100, sw_KeywordMatch = 40 / 100, sw_History = 30 / 100\<rparr>"

definition NewLearningEngine :: LearningEngine where "NewLearningEngine = []"

definition WeightsFor :: "LearningEngine \<Rightarrow> string \<Rightarrow> ServerWeights" where
  "WeightsFor le server = gm_at default_weights le server"

definition le_Update :: "RoutingOutcome \<Rightarrow> LearningEngine \<Rightarrow> LearningEngine" where
  "le_Update outcome le =
     (let w = gm_at default_weights le (ro_SelectedServer outcome); rate = 5 / 100;
          h = (if ro_Success outcome then sw_History w + rate
               else let h = sw_History w - rate in if h < 1 / 100 then 1 / 100 else h)
      in gm_put (ro_SelectedServer outcome) (w\<lparr>sw_History := h\<rparr>) le)"

subsection \<open>Exploration\<close>

record ExplorationState =
  es_selectionCount :: "(string, nat) gomap"
  es_totalSelections :: nat
  es_ExplorationRate :: real

definition NewExplorationState :: "real \<Rightarrow> ExplorationState" where
  "NewExplorationState rate = \<lparr>es_selectionCount = [], es_totalSelections = 0, es_ExplorationRate = rate\<rparr>"

definition es_RecordSelection :: "string \<Rightarrow> ExplorationState \<Rightarrow> ExplorationState" where
  "es_RecordSelection server es =
     es\<lparr>es_selectionCount := gm_put server (gm_at 0 (es_selectionCount es) server + 1) (es_selectionCount es),
        es_totalSelections := es_totalSelections es + 1\<rparr>"

definition AdjustScoreWithRate :: "ExplorationState \<Rightarrow> string \<Rightarrow> real \<Rightarrow> real \<Rightarrow> real" where
  "AdjustScoreWithRate es server baseScore rate =
     (if rate \<le> 0 then baseScore
      else if es_totalSelections es = 0 then baseScore + rate
      else
        let freq = real (gm_at 0 (es_selectionCount es) server) / real (es_totalSelections es)
        in baseScore + rate * (1 - freq) - rate * freq)"

definition es_AdjustScore :: "ExplorationState \<Rightarrow> string \<Rightarrow> real \<Rightarrow> real" where
  "es_AdjustScore es server baseScore = AdjustScoreWithRate es server baseScore (es_ExplorationRate es)"

subsection \<open>Stability\<close>

record StabilityEngine =
  se_decayRate :: real
  se_windowSize :: nat
  se_usageCount :: "(string, nat) gomap"
  se_operationHistory :: "(string, string list) gomap"
  se_convergenceScore :: "(string, real) gomap"
  se_oscillationCount :: "(string, nat) gomap"
  se_stabilityBias :: "(string, real) gomap"

record StabilityMetrics =
  sm_OscillationCount :: "(string, nat) gomap"
  sm_ConvergenceScore :: "(string, real) gomap"
  sm_StabilityIndex :: real

definition NewStabilityEngine :: "real \<Rightarrow> nat \<Rightarrow> StabilityEngine" where
  "NewStabilityEngine decayRate windowSize =
     \<lparr>se_decayRate = decayRate, se_windowSize = windowSize, se_usageCount = [], se_operationHistory = [],
      se_convergenceScore = [], se_oscillationCount = [], se_stabilityBias = []\<rparr>"

definition EffectiveRate :: "StabilityEngine \<Rightarrow> string \<Rightarrow> real \<Rightarrow> real" where
  "EffectiveRate se server baseRate =
     (let rate = baseRate * exp (- (se_decayRate se) * real (gm_at 0 (se_usageCount se) server));
          minRate = baseRate * (1 / 100)
      in if rate < minRate then minRate else rate)"

definition se_AdjustScore :: "StabilityEngine \<Rightarrow> string \<Rightarrow> string \<Rightarrow> real \<Rightarrow> real" where
  "se_AdjustScore se server operation score =
     score - real (gm_at 0 (se_oscillationCount se) operation) * (2 / 100) + gm_at 0 (se_stabilityBias se) server"

definition detectOscillation :: "string list \<Rightarrow> nat" where
  "detectOscillation h =
     (if length h < 4 then 0
      else length (filter (\<lambda>i. h ! i = h ! (i - 2) \<and> h ! i \<noteq> h ! (i - 1)) [2..<length h]))"

text \<open>The counts are collected in a map, whose largest value does not depend on the order of the range.\<close>

definition name_counts :: "string list \<Rightarrow> (string, nat) gomap" where
  "name_counts h = fold (\<lambda>s m. gm_put s (gm_at 0 m s + 1) m) h []"

definition computeConvergence :: "string list \<Rightarrow> real" where
  "computeConvergence h =
     (if length h = 0 then 0
      else real (fold (\<lambda>c m. if c > m then c else m) (map snd (name_counts h)) 0) / real (length h))"

text \<open>A window of size zero is not guarded: slicing the empty history panics (\<open>None\<close>).\<close>

definition window_push :: "nat \<Rightarrow> string list \<Rightarrow> string \<Rightarrow> string list option" where
  "window_push n h s = (if length h \<ge> n then (case h of [] \<Rightarrow> None | _ # t \<Rightarrow> Some (t @ [s])) else Some (h @ [s]))"

definition se_RecordSelection :: "string \<Rightarrow> string \<Rightarrow> StabilityEngine \<Rightarrow> StabilityEngine option" where
  "se_RecordSelection operation server se =
     (case window_push (se_windowSize se) (gm_at [] (se_operationHistory se) operation) server of
        None \<Rightarrow> None
      | Some hist \<Rightarrow>
          let cvg = computeConvergence hist; bias = se_stabilityBias se
          in Some (se\<lparr>se_usageCount := gm_put server (gm_at 0 (se_usageCount se) server + 1) (se_usageCount se),
                se_operationHistory := gm_put operation hist (se_operationHistory se),
                se_oscillationCount := gm_put operation (detectOscillation hist) (se_oscillationCount se),
                se_convergenceScore := gm_put operation cvg (se_convergenceScore se),
                se_stabilityBias := (if cvg > 1 / 2 then gm_put server (gm_at 0 bias server + 1 / 100) bias else bias)\<rparr>))"

definition ConvergenceScore :: "StabilityEngine \<Rightarrow> string \<Rightarrow> real" where
  "ConvergenceScore se operation = gm_at 0 (se_convergenceScore se) operation"

definition OscillationCount :: "StabilityEngine \<Rightarrow> string \<Rightarrow> nat" where
  "OscillationCount se operation = gm_at 0 (se_oscillationCount se) operation"

definition se_Metrics :: "StabilityEngine \<Rightarrow> StabilityMetrics" where
  "se_Metrics se =
     (let totalOps = length (se_convergenceScore se); s = sum_list (map snd (se_convergenceScore se))
      in \<lparr>sm_OscillationCount = se_oscillationCount se, sm_ConvergenceScore = se_convergenceScore se,
          sm_StabilityIndex = (if totalOps > 0 then s / real totalOps else 0)\<rparr>)"

definition UsageCount :: "StabilityEngine \<Rightarrow> string \<Rightarrow> nat" where "UsageCount se server = gm_at 0 (se_usageCount se) server"

definition StabilityBias :: "StabilityEngine \<Rightarrow> string \<Rightarrow> real" where
  "StabilityBias se server = gm_at 0 (se_stabilityBias se) server"

subsection \<open>The token bucket\<close>

record TokenBucket =
  tb_tokens :: real
  tb_maxTokens :: real
  tb_refillRate :: real
  tb_lastRefill :: int

definition NewTokenBucket :: "real \<Rightarrow> real \<Rightarrow> int \<Rightarrow> TokenBucket" where
  "NewTokenBucket maxTokens refillRate now =
     \<lparr>tb_tokens = maxTokens, tb_maxTokens = maxTokens, tb_refillRate = refillRate, tb_lastRefill = now\<rparr>"

definition seconds :: "int \<Rightarrow> real" where "seconds d = real_of_int d / 1000000000"

definition TryTake :: "int \<Rightarrow> TokenBucket \<Rightarrow> bool \<times> TokenBucket" where
  "TryTake now tb =
     (let elapsed = seconds (now - tb_lastRefill tb);
          t = tb_tokens tb + elapsed * tb_refillRate tb;
          t = (if t > tb_maxTokens tb then tb_maxTokens tb else t);
          tb = tb\<lparr>tb_tokens := t, tb_lastRefill := now\<rparr>
      in if t \<ge> 1 then (True, tb\<lparr>tb_tokens := t - 1\<rparr>) else (False, tb))"

subsection \<open>What they promise\<close>

text \<open>The accepted calls of a sequence of calls at the given times.\<close>

fun accepted :: "int list \<Rightarrow> TokenBucket \<Rightarrow> nat" where
  "accepted [] tb = 0"
| "accepted (t # ts) tb = (case TryTake t tb of (b, tb') \<Rightarrow> (if b then 1 else 0) + accepted ts tb')"

lemma TryTake_fields:
  assumes "TryTake now tb = (b, tb')"
  shows "tb_maxTokens tb' = tb_maxTokens tb" "tb_refillRate tb' = tb_refillRate tb" "tb_lastRefill tb' = now"
    "tb_tokens tb' + (if b then 1 else 0) = min (tb_maxTokens tb) (tb_tokens tb + seconds (now - tb_lastRefill tb) * tb_refillRate tb)"
  using assms by (auto simp: TryTake_def Let_def split: if_splits)

lemma TryTake_nonneg:
  assumes "TryTake now tb = (b, tb')" "0 \<le> tb_tokens tb" "0 \<le> tb_maxTokens tb" "0 \<le> tb_refillRate tb" "tb_lastRefill tb \<le> now"
  shows "0 \<le> tb_tokens tb'"
proof -
  have "0 \<le> seconds (now - tb_lastRefill tb) * tb_refillRate tb" using assms(4,5) by (simp add: seconds_def)
  then show ?thesis using assms(1,2,3) by (auto simp: TryTake_def Let_def split: if_splits)
qed

text \<open>C35:
  A token bucket accepts, over any calls at times that do not go back, at most its tokens plus what is refilled in
  the time from its last refill to the last call.
\<close>
theorem accepted_bound:
  assumes "sorted (tb_lastRefill tb # ts)" "0 \<le> tb_tokens tb" "0 \<le> tb_maxTokens tb" "0 \<le> tb_refillRate tb"
  shows "real (accepted ts tb) \<le> tb_tokens tb + seconds (last (tb_lastRefill tb # ts) - tb_lastRefill tb) * tb_refillRate tb"
  using assms
proof (induction ts arbitrary: tb)
  case Nil
  then show ?case by (simp add: seconds_def)
next
  case (Cons t ts)
  obtain b tb' where T: "TryTake t tb = (b, tb')" by (cases "TryTake t tb")
  note f = TryTake_fields [OF T]
  have "0 \<le> tb_tokens tb'" using TryTake_nonneg [OF T] Cons.prems by simp
  then have "real (accepted ts tb') \<le> tb_tokens tb' + seconds (last (t # ts) - t) * tb_refillRate tb"
    using Cons.IH [of tb'] Cons.prems f by simp
  moreover have "seconds (last (t # ts) - t) * tb_refillRate tb + seconds (t - tb_lastRefill tb) * tb_refillRate tb
      = seconds (last (t # ts) - tb_lastRefill tb) * tb_refillRate tb"
    by (simp add: seconds_def field_simps)
  moreover have "tb_tokens tb' + (if b then 1 else 0) \<le> tb_tokens tb + seconds (t - tb_lastRefill tb) * tb_refillRate tb"
    unfolding f(4) by (rule min.cobounded2)
  moreover have "real (accepted (t # ts) tb) = (if b then 1 else 0) + real (accepted ts tb')" by (simp add: T)
  moreover have "last (tb_lastRefill tb # t # ts) = last (t # ts)" by simp
  ultimately show ?case by (simp only:)
qed

lemma accepted_bound_witness:
  "accepted [0, 0, 1000000000] (NewTokenBucket 1 1 0) = 2 \<and> real (accepted [0, 0, 1000000000] (NewTokenBucket 1 1 0)) \<le> 1 + 1"
  using accepted_bound [of "NewTokenBucket 1 1 0" "[0, 0, 1000000000]"]
  by (simp add: NewTokenBucket_def seconds_def TryTake_def)

text \<open>
  The learned history never falls below its floor, and a server that keeps succeeding gains without a bound; the two
  other weights never change.
\<close>

lemma le_Update_get:
  "gm_get (le_Update oc le) = (gm_get le)(ro_SelectedServer oc \<mapsto>
     (WeightsFor le (ro_SelectedServer oc))\<lparr>sw_History :=
        (if ro_Success oc then sw_History (WeightsFor le (ro_SelectedServer oc)) + 5 / 100
         else max (1 / 100) (sw_History (WeightsFor le (ro_SelectedServer oc)) - 5 / 100))\<rparr>)"
  by (auto simp: le_Update_def WeightsFor_def Let_def max_def)

lemma WeightsFor_Update:
  "WeightsFor (le_Update oc le) server =
     (if server = ro_SelectedServer oc
      then (WeightsFor le server)\<lparr>sw_History := (if ro_Success oc then sw_History (WeightsFor le server) + 5 / 100
              else max (1 / 100) (sw_History (WeightsFor le server) - 5 / 100))\<rparr>
      else WeightsFor le server)"
  using le_Update_get [of oc le] by (simp add: WeightsFor_def gm_at_def)

lemma learning_bounds:
  "1 / 100 \<le> sw_History (WeightsFor (fold le_Update os NewLearningEngine) server) \<and>
   sw_History (WeightsFor (fold le_Update os NewLearningEngine) server) \<le> 30 / 100 + real (length os) * 5 / 100 \<and>
   sw_CapabilityFit (WeightsFor (fold le_Update os NewLearningEngine) server) = 30 / 100 \<and>
   sw_KeywordMatch (WeightsFor (fold le_Update os NewLearningEngine) server) = 40 / 100"
proof (induction os rule: rev_induct)
  case Nil
  then show ?case by (simp add: NewLearningEngine_def WeightsFor_def default_weights_def)
next
  case (snoc oc os)
  then show ?case by (auto simp: WeightsFor_Update max_def field_simps)
qed

text \<open>The bound is reached: no cap stops the history of a server that succeeds.\<close>

lemma learning_unbounded:
  assumes "ro_Success oc" "ro_SelectedServer oc = server"
  shows "sw_History (WeightsFor ((le_Update oc ^^ n) NewLearningEngine) server) = 30 / 100 + real n * 5 / 100"
proof (induction n)
  case 0
  show ?case by (simp add: NewLearningEngine_def WeightsFor_def default_weights_def)
next
  case (Suc n)
  then show ?case using assms by (simp add: WeightsFor_Update field_simps)
qed

text \<open>The oscillation penalty is the same for every server, so it never changes which of two servers is ahead.\<close>

lemma oscillation_without_effect:
  "se_AdjustScore (se\<lparr>se_oscillationCount := c\<rparr>) s1 operation x < se_AdjustScore (se\<lparr>se_oscillationCount := c\<rparr>) s2 operation y \<longleftrightarrow>
   se_AdjustScore se s1 operation x < se_AdjustScore se s2 operation y"
  by (simp add: se_AdjustScore_def)

lemma EffectiveRate_bounds:
  "0 \<le> r \<Longrightarrow> 0 \<le> se_decayRate se \<Longrightarrow> r / 100 \<le> EffectiveRate se server r \<and> EffectiveRate se server r \<le> r"
  by (auto simp: EffectiveRate_def Let_def intro: mult_left_le)

end
