(* ===== verification/V2_Servers.thy ===== *)
theory V2_Servers
  imports V2_Learning Run_Tools Run_Policy
begin

text \<open>
  The servers of the second gateway, \<open>servers.go\<close>. The operating system, git, HTTP, the environment and the clock are the
  functions of a record \<open>v2sys\<close> over a world \<open>'w\<close>. Paths, the JSON that is sent and the text of values are written out;
  a received body comes with its decoded value. Byte strings that are not UTF-8 are not modelled; numbers that are not
  integers are formatted by a function of the record.
\<close>

subsection \<open>The world\<close>

record http_call =
  hc_Method :: string
  hc_URL :: string
  hc_Headers :: "(string \<times> string) list"
  hc_Body :: string
  hc_TimeoutMs :: int

record v2_answer =
  wa_StatusCode :: int
  wa_ContentType :: string
  wa_Body :: "string + string"
  wa_JSON :: any

record 'w v2sys =
  v2_Getwd :: "string option"
  v2_Getenv :: "string \<Rightarrow> string"
  v2_ReadFile :: "string \<Rightarrow> 'w \<Rightarrow> (string + string) \<times> 'w"
  v2_Stat :: "string \<Rightarrow> 'w \<Rightarrow> (int \<times> string) option \<times> 'w"
  v2_MkdirAll :: "string \<Rightarrow> 'w \<Rightarrow> string option \<times> 'w"
  v2_WriteFile :: "string \<Rightarrow> string \<Rightarrow> 'w \<Rightarrow> string option \<times> 'w"
  v2_RemoveAll :: "string \<Rightarrow> 'w \<Rightarrow> string option \<times> 'w"
  v2_ReadDir :: "string \<Rightarrow> 'w \<Rightarrow> (string + (string \<times> bool \<times> (int \<times> string) option) list) \<times> 'w"
  v2_Glob :: "string \<Rightarrow> 'w \<Rightarrow> (string + string list) \<times> 'w"
  v2_Command :: "string \<Rightarrow> string list \<Rightarrow> 'w \<Rightarrow> ((string \<times> string) + string) \<times> 'w"
  v2_URLError :: "string \<Rightarrow> string option"
  v2_HTTP :: "http_call \<Rightarrow> 'w \<Rightarrow> (string + v2_answer) \<times> 'w"
  v2_Number :: "rat \<Rightarrow> string"
  v2_ParseStore :: "string \<Rightarrow> (string, string) gomap"
  v2_Now :: "'w \<Rightarrow> int \<times> 'w"
  v2_Rand :: "nat \<Rightarrow> 'w \<Rightarrow> 8 word list \<times> 'w"
  v2_Range :: "Capability list \<Rightarrow> 'w \<Rightarrow> Capability list \<times> 'w"

datatype v2_result = V2Panics string | V2Fails string | V2Returns any

type_synonym payload = "(string, any) gomap"

definition p_str :: "payload \<Rightarrow> string \<Rightarrow> string" where
  "p_str p k = (case any_string (gm_get p k) of None \<Rightarrow> [] | Some s \<Rightarrow> s)"

abbreviation v2_map :: "(string \<times> any) list \<Rightarrow> 'w \<Rightarrow> v2_result \<times> 'w" where
  "v2_map d w \<equiv> (V2Returns (AnyMap d), w)"

abbreviation v2_fail :: "string \<Rightarrow> 'w \<Rightarrow> v2_result \<times> 'w" where
  "v2_fail e w \<equiv> (V2Fails e, w)"

subsection \<open>The text of values\<close>

definition number_text :: "(rat \<Rightarrow> string) \<Rightarrow> rat \<Rightarrow> string" where
  "number_text fmt q = (if of_int \<lfloor>q\<rfloor> = q then int_digits \<lfloor>q\<rfloor> else fmt q)"

definition json_escape :: "char \<Rightarrow> string" where
  "json_escape c =
     (let n = of_char c :: nat in
      if n = 0x22 \<or> n = 0x5C then [CHR 0x5C, c]
      else if n = 0x0A then [CHR 0x5C] @ ''n'' else if n = 0x0D then [CHR 0x5C] @ ''r'' else if n = 0x09 then [CHR 0x5C] @ ''t''
      else if n = 0x08 then [CHR 0x5C] @ ''b'' else if n = 0x0C then [CHR 0x5C] @ ''f''
      else if n < 0x20 \<or> n \<in> {0x26, 0x3C, 0x3E} then [CHR 0x5C] @ ''u00'' @ [hex_digits ! (n div 16), hex_digits ! (n mod 16)]
      else [c])"

definition json_string :: "string \<Rightarrow> string" where
  "json_string s = [CHR 0x22] @ concat (map json_escape s) @ [CHR 0x22]"

text \<open>\<open>json.Marshal\<close> and the verb \<open>%v\<close>; both write the keys of a map in order.\<close>

fun any_json :: "(rat \<Rightarrow> string) \<Rightarrow> any \<Rightarrow> string" where
  "any_json fmt AnyNil = ''null''"
| "any_json fmt (AnyBool b) = (if b then ''true'' else ''false'')"
| "any_json fmt (AnyNumber q) = number_text fmt q"
| "any_json fmt (AnyString s) = json_string s"
| "any_json fmt (AnyList xs) = ''['' @ join_with '','' (map (any_json fmt) xs) @ '']''"
| "any_json fmt (AnyMap kvs) =
     ''{'' @ join_with '','' (map (\<lambda>(k, t). json_string k @ '':'' @ t) (sort_key fst (map (\<lambda>(k, v). (k, any_json fmt v)) kvs))) @ ''}''"

fun any_text :: "(rat \<Rightarrow> string) \<Rightarrow> any \<Rightarrow> string" where
  "any_text fmt AnyNil = ''<nil>''"
| "any_text fmt (AnyBool b) = (if b then ''true'' else ''false'')"
| "any_text fmt (AnyNumber q) = number_text fmt q"
| "any_text fmt (AnyString s) = s"
| "any_text fmt (AnyList xs) = ''['' @ join_with '' '' (map (any_text fmt) xs) @ '']''"
| "any_text fmt (AnyMap kvs) =
     ''map['' @ join_with '' '' (map (\<lambda>(k, t). k @ '':'' @ t) (sort_key fst (map (\<lambda>(k, v). (k, any_text fmt v)) kvs))) @ '']''"

subsection \<open>Operations\<close>

definition parseOp :: "string \<Rightarrow> string \<times> string" where
  "parseOp action = (let parts = split2 (CHR ''.'') action in if length parts = 1 then (parts ! 0, []) else (parts ! 0, parts ! 1))"

definition httpClient :: "int \<Rightarrow> int" where "httpClient timeoutMs = (if timeoutMs \<le> 0 then 30000 else timeoutMs)"

subsection \<open>Git\<close>

definition gitRunRaw :: "'w v2sys \<Rightarrow> string \<Rightarrow> string list \<Rightarrow> 'w \<Rightarrow> (string + string) \<times> 'w" where
  "gitRunRaw os workDir args w =
     (case v2_Command os workDir args w of
        (Inl (err, stderr), w') \<Rightarrow>
          (Inl (''git '' @ join_with '' '' args @ '' failed: '' @ err @ [CHR 0x0A] @ ''stderr: '' @ stderr), w')
      | (Inr out, w') \<Rightarrow> (Inr out, w'))"

definition gitRun :: "'w v2sys \<Rightarrow> string \<Rightarrow> string list \<Rightarrow> 'w \<Rightarrow> v2_result \<times> 'w" where
  "gitRun os workDir args w =
     (case gitRunRaw os workDir args w of
        (Inl err, w') \<Rightarrow> v2_fail err w'
      | (Inr out, w') \<Rightarrow> v2_map [(''output'', AnyString (trim_space out))] w')"

definition git2_Execute :: "'w v2sys \<Rightarrow> string \<Rightarrow> payload \<Rightarrow> V2Context \<Rightarrow> 'w \<Rightarrow> v2_result \<times> 'w" where
  "git2_Execute os action p ctx w =
     (let op = snd (parseOp action); workDir = vc_Path ctx in
      if workDir = [] then v2_fail ''workspace path required for git operations'' w
      else if op = ''status'' then gitRun os workDir [''status'', ''--porcelain''] w
      else if op = ''diff'' then gitRun os workDir [''diff''] w
      else if op = ''log'' then gitRun os workDir [''log'', ''--oneline'', ''-10''] w
      else if op = ''branch'' then gitRun os workDir [''branch''] w
      else if op = ''commit'' then
        (let msg = p_str p ''message'' in
         if msg = [] then v2_fail ''commit message is required'' w
         else case gitRunRaw os workDir [''add'', ''-A''] w of
                (Inl err, w1) \<Rightarrow> v2_fail (''git add failed: '' @ err) w1
              | (Inr _, w1) \<Rightarrow> gitRun os workDir [''commit'', ''-m'', msg] w1)
      else if op = ''push'' then gitRun os workDir [''push''] w
      else if op = ''tag'' then
        (let tag = p_str p ''tag'' in
         if tag = [] then v2_fail ''tag name is required'' w
         else case gitRunRaw os workDir [''tag'', tag] w of
                (Inl err, w1) \<Rightarrow> v2_fail err w1
              | (Inr _, w1) \<Rightarrow> v2_map [(''tag'', AnyString tag)] w1)
      else v2_fail (''unknown git operation: '' @ op) w)"

subsection \<open>Files\<close>

definition path_join :: "string \<Rightarrow> string \<Rightarrow> string" where "path_join a b = path_clean (a @ ''/'' @ b)"

text \<open>The base is absolute and clean, so the absolute path of a joined path is itself.\<close>

definition safeJoin :: "string option \<Rightarrow> string \<Rightarrow> string \<Rightarrow> string + string" where
  "safeJoin cwd base target =
     (let cleanTarget = path_clean target in
      if has_prefix cleanTarget ''/'' then
        (if \<not> has_prefix cleanTarget base then Inl (''path traversal denied: '' @ target @ '' is outside workspace'')
         else Inr cleanTarget)
      else
        case path_abs cwd (path_join base cleanTarget) of
          None \<Rightarrow> Inl ''path resolution failed: getwd''
        | Some absPath \<Rightarrow>
            if \<not> has_prefix absPath base then Inl (''path traversal denied: '' @ target @ '' resolves outside workspace'')
            else Inr absPath)"

fun rel_segs :: "string list \<Rightarrow> string list \<Rightarrow> string list" where
  "rel_segs (b # bs) (t # ts) = (if b = t then rel_segs bs ts else replicate (length (b # bs)) ''..'' @ t # ts)"
| "rel_segs bs ts = replicate (length bs) ''..'' @ ts"

text \<open>\<open>filepath.Rel\<close> of two absolute paths, which never fails.\<close>

definition path_rel :: "string \<Rightarrow> string \<Rightarrow> string" where
  "path_rel base target =
     (let segs = (\<lambda>p. filter (\<lambda>s. s \<noteq> []) (split_on (CHR ''/'') (path_clean p))); r = rel_segs (segs base) (segs target)
      in if r = [] then ''.'' else join_with ''/'' r)"

definition fs2_read :: "'w v2sys \<Rightarrow> string \<Rightarrow> payload \<Rightarrow> 'w \<Rightarrow> v2_result \<times> 'w" where
  "fs2_read os absBase p w =
     (let path = p_str p ''path'' in
      if path = [] then v2_fail ''path is required'' w
      else case safeJoin (v2_Getwd os) absBase path of
             Inl err \<Rightarrow> v2_fail err w
           | Inr fullPath \<Rightarrow>
               (case v2_ReadFile os fullPath w of
                  (Inl err, w1) \<Rightarrow> v2_fail (''read failed: '' @ err) w1
                | (Inr data, w1) \<Rightarrow>
                    (case v2_Stat os fullPath w1 of
                       (None, w2) \<Rightarrow> (V2Panics nil_error, w2)
                     | (Some (_, mode), w2) \<Rightarrow>
                         v2_map [(''path'', AnyString path), (''content'', AnyString data),
                                 (''size'', any_int (int (length data))), (''mode'', AnyString mode)] w2)))"

definition fs2_write :: "'w v2sys \<Rightarrow> string \<Rightarrow> payload \<Rightarrow> 'w \<Rightarrow> v2_result \<times> 'w" where
  "fs2_write os absBase p w =
     (let path = p_str p ''path''; content = p_str p ''content'' in
      if path = [] then v2_fail ''path is required'' w
      else case safeJoin (v2_Getwd os) absBase path of
             Inl err \<Rightarrow> v2_fail err w
           | Inr fullPath \<Rightarrow>
               (case v2_MkdirAll os (path_dir fullPath) w of
                  (Some err, w1) \<Rightarrow> v2_fail (''mkdir failed: '' @ err) w1
                | (None, w1) \<Rightarrow>
                    (case v2_WriteFile os fullPath content w1 of
                       (Some err, w2) \<Rightarrow> v2_fail (''write failed: '' @ err) w2
                     | (None, w2) \<Rightarrow>
                         v2_map [(''path'', AnyString path), (''written'', AnyBool True), (''size'', any_int (int (length content)))] w2)))"

definition fs2_delete :: "'w v2sys \<Rightarrow> string \<Rightarrow> payload \<Rightarrow> 'w \<Rightarrow> v2_result \<times> 'w" where
  "fs2_delete os absBase p w =
     (let path = p_str p ''path'' in
      if path = [] then v2_fail ''path is required'' w
      else case safeJoin (v2_Getwd os) absBase path of
             Inl err \<Rightarrow> v2_fail err w
           | Inr fullPath \<Rightarrow>
               (case v2_RemoveAll os fullPath w of
                  (Some err, w1) \<Rightarrow> v2_fail (''delete failed: '' @ err) w1
                | (None, w1) \<Rightarrow> v2_map [(''path'', AnyString path), (''deleted'', AnyBool True)] w1))"

definition dir_entry :: "string \<times> bool \<times> (int \<times> string) option \<Rightarrow> any option" where
  "dir_entry e =
     (case e of
        (n, d, None) \<Rightarrow> None
      | (n, d, Some (sz, mode)) \<Rightarrow>
          Some (AnyMap [(''name'', AnyString n), (''dir'', AnyBool d), (''size'', any_int sz), (''mode'', AnyString mode)]))"

definition fs2_list :: "'w v2sys \<Rightarrow> string \<Rightarrow> payload \<Rightarrow> 'w \<Rightarrow> v2_result \<times> 'w" where
  "fs2_list os absBase p w =
     (let path = p_str p ''path'' in
      case (if path = [] then Inr absBase else safeJoin (v2_Getwd os) absBase path) of
        Inl err \<Rightarrow> v2_fail err w
      | Inr dirPath \<Rightarrow>
          (case v2_ReadDir os dirPath w of
             (Inl err, w1) \<Rightarrow> v2_fail (''list failed: '' @ err) w1
           | (Inr entries, w1) \<Rightarrow>
               (case those (map dir_entry entries) of
                  None \<Rightarrow> (V2Panics nil_error, w1)
                | Some files \<Rightarrow>
                    v2_map [(''path'', AnyString path), (''files'', AnyList files), (''count'', any_int (int (length files)))] w1)))"

definition fs2_search :: "'w v2sys \<Rightarrow> string \<Rightarrow> payload \<Rightarrow> 'w \<Rightarrow> v2_result \<times> 'w" where
  "fs2_search os absBase p w =
     (let pattern = p_str p ''pattern'' in
      if pattern = [] then v2_fail ''search pattern is required'' w
      else case v2_Glob os (path_join absBase pattern) w of
             (Inl err, w1) \<Rightarrow> v2_fail (''search failed: '' @ err) w1
           | (Inr matches, w1) \<Rightarrow>
               v2_map [(''matches'', any_strings (map (path_rel absBase) matches)), (''count'', any_int (int (length matches)))] w1)"

definition fs2_Execute :: "'w v2sys \<Rightarrow> string \<Rightarrow> payload \<Rightarrow> V2Context \<Rightarrow> 'w \<Rightarrow> v2_result \<times> 'w" where
  "fs2_Execute os action p ctx w =
     (let op = snd (parseOp action) in
      if vc_Path ctx = [] then v2_fail ''workspace path required for filesystem operations'' w
      else case path_abs (v2_Getwd os) (vc_Path ctx) of
             None \<Rightarrow> v2_fail ''invalid workspace path: getwd'' w
           | Some absBase \<Rightarrow>
               if op = ''read'' then fs2_read os absBase p w
               else if op = ''write'' then fs2_write os absBase p w
               else if op = ''delete'' then fs2_delete os absBase p w
               else if op = ''list'' then fs2_list os absBase p w
               else if op = ''search'' then fs2_search os absBase p w
               else v2_fail (''unknown filesystem operation: '' @ op) w)"

subsection \<open>Fetch\<close>

definition plain_get :: "string \<Rightarrow> string \<Rightarrow> int \<Rightarrow> http_call" where
  "plain_get http_method url timeout =
     \<lparr>hc_Method = http_method, hc_URL = url, hc_Headers = [], hc_Body = [], hc_TimeoutMs = timeout\<rparr>"

text \<open>The operations \<open>url\<close>, \<open>get\<close> and \<open>download\<close> read the body, which may fail. The bytes of a download are a string here.\<close>

definition fetch_body :: "'w v2sys \<Rightarrow> string \<Rightarrow> V2Context \<Rightarrow> (v2_answer \<Rightarrow> string \<Rightarrow> (string \<times> any) list) \<Rightarrow> 'w \<Rightarrow> v2_result \<times> 'w" where
  "fetch_body os url ctx f w =
     (if url = [] then v2_fail ''url is required'' w
      else case v2_HTTP os (plain_get ''GET'' url (httpClient (vc_TimeoutMs ctx))) w of
             (Inl err, w1) \<Rightarrow> v2_fail (''http get failed: '' @ err) w1
           | (Inr resp, w1) \<Rightarrow>
               (case wa_Body resp of
                  Inl err \<Rightarrow> v2_fail (''read response failed: '' @ err) w1
                | Inr body \<Rightarrow> v2_map (f resp body) w1))"

definition fetch_Execute :: "'w v2sys \<Rightarrow> string \<Rightarrow> payload \<Rightarrow> V2Context \<Rightarrow> 'w \<Rightarrow> v2_result \<times> 'w" where
  "fetch_Execute os action p ctx w =
     (let op = snd (parseOp action); url = p_str p ''url'' in
      if op = ''url'' \<or> op = ''get'' then
        fetch_body os url ctx (\<lambda>resp body. [(''url'', AnyString url), (''status'', any_int (wa_StatusCode resp)),
          (''content_type'', AnyString (wa_ContentType resp)), (''body'', AnyString body), (''size'', any_int (int (length body)))]) w
      else if op = ''status'' then
        (if url = [] then v2_fail ''url is required'' w
         else case v2_HTTP os (plain_get ''HEAD'' url (httpClient (vc_TimeoutMs ctx))) w of
                (Inl err, w1) \<Rightarrow> v2_fail (''http head failed: '' @ err) w1
              | (Inr resp, w1) \<Rightarrow>
                  v2_map [(''url'', AnyString url), (''status'', any_int (wa_StatusCode resp)), (''alive'', AnyBool (wa_StatusCode resp < 500))] w1)
      else if op = ''download'' then
        fetch_body os url ctx (\<lambda>resp body. [(''url'', AnyString url), (''size'', any_int (int (length body))), (''data'', AnyString body)]) w
      else v2_fail (''unknown fetch operation: '' @ op) w)"

subsection \<open>Memory\<close>

record MemoryServer =
  mem_store :: "(string, string) gomap"
  mem_file :: string

definition mem_persist :: "'w v2sys \<Rightarrow> MemoryServer \<Rightarrow> 'w \<Rightarrow> 'w" where
  "mem_persist os s w =
     (if mem_file s = [] then w
      else
        let data = any_json (v2_Number os) (AnyMap (map (\<lambda>(k, v). (k, AnyString v)) (mem_store s)));
            w1 = snd (v2_MkdirAll os (path_dir (mem_file s)) w)
        in snd (v2_WriteFile os (mem_file s) data w1))"

definition mem_load :: "'w v2sys \<Rightarrow> MemoryServer \<Rightarrow> 'w \<Rightarrow> MemoryServer \<times> 'w" where
  "mem_load os s w =
     (case v2_ReadFile os (mem_file s) w of
        (Inl err, w') \<Rightarrow> (s, w')
      | (Inr data, w') \<Rightarrow> (s\<lparr>mem_store := v2_ParseStore os data\<rparr>, w'))"

definition NewMemoryServer :: "'w v2sys \<Rightarrow> string \<Rightarrow> 'w \<Rightarrow> MemoryServer \<times> 'w" where
  "NewMemoryServer os persistencePath w =
     (let s = \<lparr>mem_store = [], mem_file = persistencePath\<rparr> in if mem_file s \<noteq> [] then mem_load os s w else (s, w))"

definition mem_Execute :: "'w v2sys \<Rightarrow> string \<Rightarrow> payload \<Rightarrow> MemoryServer \<Rightarrow> 'w \<Rightarrow> v2_result \<times> MemoryServer \<times> 'w" where
  "mem_Execute os action p s w =
     (let op = snd (parseOp action); key = p_str p ''key'' in
      if op = ''store'' then
        (if key = [] then (V2Fails ''key is required'', s, w)
         else let s' = s\<lparr>mem_store := gm_put key (p_str p ''value'') (mem_store s)\<rparr>
              in (V2Returns (AnyMap [(''key'', AnyString key), (''stored'', AnyBool True)]), s', mem_persist os s' w))
      else if op = ''retrieve'' then
        (if key = [] then (V2Fails ''key is required'', s, w)
         else case gm_get (mem_store s) key of
                None \<Rightarrow> (V2Fails (''key not found: '' @ key), s, w)
              | Some v \<Rightarrow> (V2Returns (AnyMap [(''key'', AnyString key), (''value'', AnyString v)]), s, w))
      else if op = ''delete'' then
        (if key = [] then (V2Fails ''key is required'', s, w)
         else let s' = s\<lparr>mem_store := gm_del key (mem_store s)\<rparr>
              in (V2Returns (AnyMap [(''key'', AnyString key), (''deleted'', AnyBool True)]), s', mem_persist os s' w))
      else if op = ''list'' then
        (V2Returns (AnyMap [(''keys'', any_strings (gm_keys (mem_store s))), (''count'', any_int (int (length (mem_store s))))]), s, w)
      else (V2Fails (''unknown memory operation: '' @ op), s, w))"

subsection \<open>GitHub\<close>

text \<open>The error of \<open>http.NewRequest\<close> is ignored: setting a header of the nil request panics.\<close>

definition gh2_call :: "'w v2sys \<Rightarrow> http_call \<Rightarrow> 'w \<Rightarrow> v2_result \<times> 'w" where
  "gh2_call os call w =
     (if v2_URLError os (hc_URL call) \<noteq> None then (V2Panics nil_error, w)
      else case v2_HTTP os call w of
             (Inl err, w1) \<Rightarrow> v2_fail (''github api error: '' @ err) w1
           | (Inr resp, w1) \<Rightarrow> v2_map [(''status'', any_int (wa_StatusCode resp)), (''data'', wa_JSON resp)] w1)"

definition ghGet :: "'w v2sys \<Rightarrow> string \<Rightarrow> string \<Rightarrow> 'w \<Rightarrow> v2_result \<times> 'w" where
  "ghGet os token url w =
     gh2_call os \<lparr>hc_Method = ''GET'', hc_URL = url,
       hc_Headers = [(''Authorization'', ''Bearer '' @ token), (''Accept'', ''application/vnd.github.v3+json'')],
       hc_Body = [], hc_TimeoutMs = 30000\<rparr> w"

definition ghPost :: "'w v2sys \<Rightarrow> string \<Rightarrow> string \<Rightarrow> (string \<times> any) list \<Rightarrow> 'w \<Rightarrow> v2_result \<times> 'w" where
  "ghPost os token url body w =
     gh2_call os \<lparr>hc_Method = ''POST'', hc_URL = url,
       hc_Headers = [(''Authorization'', ''Bearer '' @ token), (''Content-Type'', ''application/json''),
                     (''Accept'', ''application/vnd.github.v3+json'')],
       hc_Body = any_json (v2_Number os) (AnyMap body), hc_TimeoutMs = 30000\<rparr> w"

definition repo_url :: "string \<Rightarrow> string \<Rightarrow> string \<Rightarrow> string" where
  "repo_url owner repo rest = ''https://api.github.com/repos/'' @ owner @ ''/'' @ repo @ ''/'' @ rest"

definition gh2_Execute :: "'w v2sys \<Rightarrow> string \<Rightarrow> payload \<Rightarrow> V2Context \<Rightarrow> 'w \<Rightarrow> v2_result \<times> 'w" where
  "gh2_Execute os action p ctx w =
     (let op = snd (parseOp action); owner = p_str p ''owner''; repo = p_str p ''repo''; token = vc_TenantID ctx;
          checked = (\<lambda>k. if owner = [] \<or> repo = [] then v2_fail ''owner and repo are required'' w
                        else if token = [] then v2_fail ''GitHub token required'' w else k) in
      if op = ''read'' \<or> op = ''repo'' then
        (let path = p_str p ''path'' in
         if owner = [] \<or> repo = [] \<or> path = [] then v2_fail ''owner, repo, and path are required'' w
         else if token = [] then v2_fail ''GitHub token required (set via auth)'' w
         else ghGet os token (repo_url owner repo (''contents/'' @ path)) w)
      else if op = ''list_issues'' then
        checked (let state = p_str p ''state''; url = repo_url owner repo ''issues''
                 in ghGet os token (if state \<noteq> [] then url @ ''?state='' @ state else url) w)
      else if op = ''create_issue'' then
        checked (let title = p_str p ''title''; body = p_str p ''body'' in
                 if title = [] then v2_fail ''title is required'' w
                 else ghPost os token (repo_url owner repo ''issues'') [(''title'', AnyString title), (''body'', AnyString body)] w)
      else if op = ''create_pr'' then
        checked (let title = p_str p ''title''; hd_ref = p_str p ''head''; base = p_str p ''base'' in
                 if title = [] \<or> hd_ref = [] \<or> base = [] then v2_fail ''title, head, and base are required'' w
                 else ghPost os token (repo_url owner repo ''pulls'')
                   [(''title'', AnyString title), (''head'', AnyString hd_ref), (''base'', AnyString base)] w)
      else if op = ''create_release'' then
        checked (let tag = p_str p ''tag''; name = p_str p ''name'' in
                 if tag = [] then v2_fail ''tag is required'' w
                 else ghPost os token (repo_url owner repo ''releases'') [(''tag_name'', AnyString tag), (''name'', AnyString name)] w)
      else v2_fail (''unknown github operation: '' @ op) w)"

subsection \<open>Context7\<close>

record Context7Server =
  c7_store :: "(string, any) gomap"
  c7_apiKey :: string
  c7_supabaseURL :: string
  c7_supabaseKey :: string

definition first_api_key :: "any \<Rightarrow> string + string" where
  "first_api_key x =
     (case x of
        AnyNil \<Rightarrow> Inl ''no key found in supabase''
      | AnyList [] \<Rightarrow> Inl ''no key found in supabase''
      | AnyList (AnyMap row # _) \<Rightarrow>
          (case gm_get row ''api_key'' of
             None \<Rightarrow> Inr [] | Some AnyNil \<Rightarrow> Inr [] | Some (AnyString k) \<Rightarrow> Inr k | _ \<Rightarrow> Inl ''parse response: type'')
      | AnyList (AnyNil # _) \<Rightarrow> Inr []
      | _ \<Rightarrow> Inl ''parse response: type'')"

definition fetchKeyFromSupabase :: "'w v2sys \<Rightarrow> Context7Server \<Rightarrow> 'w \<Rightarrow> (string + string) \<times> 'w" where
  "fetchKeyFromSupabase os s w =
     (let url = c7_supabaseURL s @ ''/rest/v1/mcp_secrets?service=eq.context7&select=api_key'' in
      case v2_URLError os url of
        Some err \<Rightarrow> (Inl (''create request: '' @ err), w)
      | None \<Rightarrow>
          (case v2_HTTP os \<lparr>hc_Method = ''GET'', hc_URL = url,
                 hc_Headers = [(''apikey'', c7_supabaseKey s), (''Authorization'', ''Bearer '' @ c7_supabaseKey s), (''Accept'', ''application/json'')],
                 hc_Body = [], hc_TimeoutMs = 10000\<rparr> w of
             (Inl err, w1) \<Rightarrow> (Inl (''supabase request: '' @ err), w1)
           | (Inr resp, w1) \<Rightarrow>
               if wa_StatusCode resp \<noteq> 200 then (Inl (''supabase returned status '' @ int_digits (wa_StatusCode resp)), w1)
               else case wa_Body resp of
                      Inl err \<Rightarrow> (Inl (''read response: '' @ err), w1)
                    | Inr body \<Rightarrow> (first_api_key (wa_JSON resp), w1)))"

definition NewContext7Server :: "'w v2sys \<Rightarrow> 'w \<Rightarrow> Context7Server \<times> 'w" where
  "NewContext7Server os w =
     (let s = \<lparr>c7_store = [], c7_apiKey = v2_Getenv os ''CONTEXT7_API_KEY'', c7_supabaseURL = v2_Getenv os ''SUPABASE_URL'',
               c7_supabaseKey = v2_Getenv os ''SUPABASE_ANON_KEY''\<rparr> in
      if c7_apiKey s = [] \<and> c7_supabaseURL s \<noteq> [] \<and> c7_supabaseKey s \<noteq> [] then
        (case fetchKeyFromSupabase os s w of
           (Inr key, w1) \<Rightarrow> (if key \<noteq> [] then s\<lparr>c7_apiKey := key\<rparr> else s, w1)
         | (Inl err, w1) \<Rightarrow> (s, w1))
      else (s, w))"

definition trim_right :: "char \<Rightarrow> string \<Rightarrow> string" where "trim_right c s = rev (dropWhile (\<lambda>d. d = c) (rev s))"

definition remoteQuery :: "'w v2sys \<Rightarrow> string \<Rightarrow> string \<Rightarrow> V2Context \<Rightarrow> Context7Server \<Rightarrow> 'w \<Rightarrow> v2_result \<times> 'w" where
  "remoteQuery os serviceURL key ctx s w =
     (let url = trim_right (CHR ''/'') serviceURL @ ''/context?key='' @ key @ ''&session='' @ vc_SessionID ctx in
      case v2_URLError os url of
        Some err \<Rightarrow> v2_fail (''create request: '' @ err) w
      | None \<Rightarrow>
          (case v2_HTTP os \<lparr>hc_Method = ''GET'', hc_URL = url,
                 hc_Headers = (if c7_apiKey s \<noteq> [] then [(''Authorization'', ''Bearer '' @ c7_apiKey s), (''X-Api-Key'', c7_apiKey s)] else []),
                 hc_Body = [], hc_TimeoutMs = 10000\<rparr> w of
             (Inl err, w1) \<Rightarrow> v2_fail (''context7 service unreachable: '' @ err) w1
           | (Inr resp, w1) \<Rightarrow>
               (case wa_Body resp of
                  Inl err \<Rightarrow> v2_fail (''read context7 response failed: '' @ err) w1
                | Inr body \<Rightarrow>
                    v2_map [(''key'', AnyString key), (''data'', wa_JSON resp),
                            (''source'', AnyString (if c7_apiKey s \<noteq> [] then ''cloud'' else ''remote''))] w1)))"

text \<open>The value at a key, stored when it is not there yet: \<open>localQuery\<close> and \<open>resolve\<close> differ in the default.\<close>

definition c7_lookup :: "string \<Rightarrow> any \<Rightarrow> Context7Server \<Rightarrow> any \<times> Context7Server" where
  "c7_lookup key initial s =
     (case gm_get (c7_store s) key of
        Some v \<Rightarrow> (v, s)
      | None \<Rightarrow> (initial, s\<lparr>c7_store := gm_put key initial (c7_store s)\<rparr>))"

definition localQuery :: "string \<Rightarrow> Context7Server \<Rightarrow> v2_result \<times> Context7Server" where
  "localQuery key s =
     (let (v, s') = c7_lookup key (AnyMap [(''key'', AnyString key),
            (''description'', AnyString (''deterministic context response for '' @ key)), (''type'', AnyString ''local''),
            (''resolved'', AnyBool True)]) s
      in (V2Returns (AnyMap [(''key'', AnyString key), (''data'', v)]), s'))"

definition c7_Execute :: "'w v2sys \<Rightarrow> string \<Rightarrow> payload \<Rightarrow> V2Context \<Rightarrow> Context7Server \<Rightarrow> 'w \<Rightarrow> v2_result \<times> Context7Server \<times> 'w" where
  "c7_Execute os action p ctx s w =
     (let op = snd (parseOp action); key = p_str p ''key'' in
      if op = ''query'' then
        (let key = (if key = [] then ''default'' else key); serviceURL = p_str p ''service_url'' in
         if serviceURL \<noteq> [] then (let (r, w1) = remoteQuery os serviceURL key ctx s w in (r, s, w1))
         else if c7_apiKey s \<noteq> [] then (let (r, w1) = remoteQuery os ''https://api.context7.com/v1'' key ctx s w in (r, s, w1))
         else (let (r, s1) = localQuery key s in (r, s1, w)))
      else if op = ''store'' then
        (if key = [] then (V2Fails ''key is required'', s, w)
         else (V2Returns (AnyMap [(''key'', AnyString key), (''stored'', AnyBool True)]),
               s\<lparr>c7_store := gm_put key (gm_at AnyNil p ''value'') (c7_store s)\<rparr>, w))
      else if op = ''resolve'' then
        (let key = (if key = [] then ''session'' else key);
             (v, s1) = c7_lookup key (AnyMap [(''session_id'', AnyString (vc_SessionID ctx)), (''trace_id'', AnyString (vc_TraceID ctx)),
               (''workspace'', AnyString (vc_Path ctx)), (''resolved'', AnyBool True)]) s
         in (V2Returns (AnyMap [(''key'', AnyString key), (''context'', v)]), s1, w))
      else (V2Fails (''unknown context7 operation: '' @ op), s, w))"

subsection \<open>Postgres\<close>

definition execRemote :: "'w v2sys \<Rightarrow> string \<Rightarrow> string \<Rightarrow> bool \<Rightarrow> 'w \<Rightarrow> v2_result \<times> 'w" where
  "execRemote os connString sql returnRows w =
     (let body = [(''query'', AnyString sql)] @ (if \<not> returnRows then [(''execute'', AnyBool True)] else []) in
      case v2_HTTP os \<lparr>hc_Method = ''POST'', hc_URL = connString @ ''/query'', hc_Headers = [(''Content-Type'', ''application/json'')],
             hc_Body = any_json (v2_Number os) (AnyMap body), hc_TimeoutMs = 0\<rparr> w of
        (Inl err, w1) \<Rightarrow> v2_fail (''postgres query failed: '' @ err) w1
      | (Inr resp, w1) \<Rightarrow> v2_map [(''status'', any_int (wa_StatusCode resp)), (''result'', wa_JSON resp)] w1)"

definition no_connection :: string where
  "no_connection = ''no database connection configured '' @ [CHR 0xE2, CHR 0x80, CHR 0x94] @ '' query was logged, not executed''"

definition execSQL :: "'w v2sys \<Rightarrow> string \<Rightarrow> string \<Rightarrow> bool \<Rightarrow> 'w \<Rightarrow> v2_result \<times> 'w" where
  "execSQL os connString sql returnRows w =
     (if connString = [] then
        v2_map [(''status'', AnyString ''logged''), (''sql'', AnyString sql), (''notice'', AnyString no_connection)] w
      else execRemote os connString sql returnRows w)"

definition list_tables_sql :: string where
  "list_tables_sql = ''SELECT table_name FROM information_schema.tables WHERE table_schema = '' @ [CHR 0x27] @ ''public'' @ [CHR 0x27] @
     '' ORDER BY table_name''"

definition pg_Execute :: "'w v2sys \<Rightarrow> string \<Rightarrow> string \<Rightarrow> payload \<Rightarrow> 'w \<Rightarrow> v2_result \<times> 'w" where
  "pg_Execute os connString action p w =
     (let op = snd (parseOp action); sql = p_str p ''sql'' in
      if op = ''query'' then (if sql = [] then v2_fail ''sql is required'' w else execSQL os connString sql True w)
      else if op = ''execute'' then (if sql = [] then v2_fail ''sql is required'' w else execSQL os connString sql False w)
      else if op = ''list_tables'' then execSQL os connString list_tables_sql True w
      else v2_fail (''unknown postgres operation: '' @ op) w)"

subsection \<open>Chroma\<close>

record ChromaAdapter =
  ca_baseURL :: string
  ca_apiKey :: string
  ca_tenant :: string
  ca_database :: string
  ca_cloudHost :: string
  ca_cloudPort :: int

text \<open>\<open>strconv.Atoi\<close>; a number too large for an \<open>int\<close> is an error there and is out of the range of ports here.\<close>

definition go_atoi :: "string \<Rightarrow> int option" where
  "go_atoi s =
     (let neg = has_prefix s ''-''; ds = (if neg \<or> has_prefix s ''+'' then drop 1 s else s) in
      if ds = [] \<or> \<not> list_all (\<lambda>c. c \<in> set ''0123456789'') ds then None
      else let n = foldl (\<lambda>a c. 10 * a + (of_char c - 48)) 0 ds in Some (if neg then - n else n))"

definition NewChromaAdapter :: "'w v2sys \<Rightarrow> ChromaAdapter" where
  "NewChromaAdapter os =
     (let h = v2_Getenv os ''CHROMA_HOST''; host = (if h \<noteq> [] then h else ''api.trychroma.com'');
          p = v2_Getenv os ''CHROMA_PORT'';
          port = (if p \<noteq> [] then (case go_atoi p of None \<Rightarrow> 443 | Some n \<Rightarrow> if n < 1 \<or> n > 65535 then 443 else n) else 443);
          url = v2_Getenv os ''CHROMA_URL''
      in \<lparr>ca_baseURL = (if url \<noteq> [] then url else ''https://'' @ host @ '':'' @ int_digits port),
          ca_apiKey = v2_Getenv os ''CHROMA_API_KEY'', ca_tenant = v2_Getenv os ''CHROMA_TENANT'',
          ca_database = v2_Getenv os ''CHROMA_DATABASE'', ca_cloudHost = host, ca_cloudPort = port\<rparr>)"

definition v2path :: "ChromaAdapter \<Rightarrow> string \<Rightarrow> string" where
  "v2path c path = ca_baseURL c @ ''/api/v2/tenants/'' @ ca_tenant c @ ''/databases/'' @ ca_database c @ ''/'' @ path"

definition authHeader :: "ChromaAdapter \<Rightarrow> (string \<times> string) list" where
  "authHeader c = (if ca_apiKey c \<noteq> [] then [(''X-Chroma-Token'', ca_apiKey c)] else [])"

definition doReq :: "'w v2sys \<Rightarrow> ChromaAdapter \<Rightarrow> string \<Rightarrow> string \<Rightarrow> string option \<Rightarrow> 'w \<Rightarrow> (string + v2_answer) \<times> 'w" where
  "doReq os c http_method url body w =
     (case v2_URLError os url of
        Some err \<Rightarrow> (Inl err, w)
      | None \<Rightarrow>
          v2_HTTP os \<lparr>hc_Method = http_method, hc_URL = url,
             hc_Headers = authHeader c @ (if body \<noteq> None then [(''Content-Type'', ''application/json'')] else []),
             hc_Body = (case body of None \<Rightarrow> [] | Some b \<Rightarrow> b), hc_TimeoutMs = 10000\<rparr> w)"

definition unconfigured :: "ChromaAdapter \<Rightarrow> bool" where
  "unconfigured c \<longleftrightarrow> ca_apiKey c = [] \<or> ca_tenant c = [] \<or> ca_database c = []"

definition collection_name :: "string \<Rightarrow> string" where
  "collection_name collection = (if collection = [] then ''mcp_execution_memory'' else collection)"

definition chroma_post ::
    "'w v2sys \<Rightarrow> ChromaAdapter \<Rightarrow> string \<Rightarrow> string \<Rightarrow> (string \<times> any) list \<Rightarrow> (v2_answer \<Rightarrow> (string \<times> any) list) \<Rightarrow> 'w \<Rightarrow> v2_result \<times> 'w" where
  "chroma_post os c what path body f w =
     (case doReq os c ''POST'' (v2path c path) (Some (any_json (v2_Number os) (AnyMap body))) w of
        (Inl err, w1) \<Rightarrow> v2_fail (''chroma '' @ what @ '' failed: '' @ err) w1
      | (Inr resp, w1) \<Rightarrow> v2_map (f resp) w1)"

definition chroma_notice :: string where
  "chroma_notice = ''no chroma cloud connection configured '' @ [CHR 0xE2, CHR 0x80, CHR 0x94] @ '' document was logged, not stored''"

definition storeDoc :: "'w v2sys \<Rightarrow> ChromaAdapter \<Rightarrow> string \<Rightarrow> string \<Rightarrow> string \<Rightarrow> V2Context \<Rightarrow> 'w \<Rightarrow> v2_result \<times> 'w" where
  "storeDoc os c collection docID docText ctx w =
     (if unconfigured c then
        v2_map [(''id'', AnyString docID), (''status'', AnyString ''logged''), (''notice'', AnyString chroma_notice)] w
      else
        let col = collection_name collection;
            doc = AnyMap [(''id'', AnyString docID), (''document'', AnyString docText),
              (''metadata'', AnyMap [(''session_id'', AnyString (vc_SessionID ctx)), (''trace_id'', AnyString (vc_TraceID ctx)),
                                     (''collection'', AnyString col)])]
        in chroma_post os c ''store'' (''collections/'' @ col @ ''/add'') [(''documents'', AnyList [doc])]
             (\<lambda>resp. [(''id'', AnyString docID), (''status'', any_int (wa_StatusCode resp)), (''collection'', AnyString col)]) w)"

definition queryDocs :: "'w v2sys \<Rightarrow> ChromaAdapter \<Rightarrow> string \<Rightarrow> string \<Rightarrow> 'w \<Rightarrow> v2_result \<times> 'w" where
  "queryDocs os c collection query w =
     (if unconfigured c then v2_map [] w
      else
        chroma_post os c ''query'' (''collections/'' @ collection_name collection @ ''/query'')
          [(''query'', any_strings [query]), (''n_results'', any_int 10)]
          (\<lambda>resp. [(''query'', AnyString query), (''results'', wa_JSON resp)]) w)"

definition QueryKnowledge :: "'w v2sys \<Rightarrow> ChromaAdapter \<Rightarrow> string \<Rightarrow> string \<Rightarrow> 'w \<Rightarrow> v2_result \<times> 'w" where
  "QueryKnowledge os c collection query w = queryDocs os c collection query w"

definition deleteDoc :: "'w v2sys \<Rightarrow> ChromaAdapter \<Rightarrow> string \<Rightarrow> string \<Rightarrow> 'w \<Rightarrow> v2_result \<times> 'w" where
  "deleteDoc os c collection docID w =
     (if unconfigured c then v2_map [(''id'', AnyString docID), (''status'', AnyString ''logged'')] w
      else
        chroma_post os c ''delete'' (''collections/'' @ collection_name collection @ ''/delete'') [(''ids'', any_strings [docID])]
          (\<lambda>resp. [(''id'', AnyString docID), (''status'', any_int (wa_StatusCode resp))]) w)"

definition listCollections :: "'w v2sys \<Rightarrow> ChromaAdapter \<Rightarrow> 'w \<Rightarrow> v2_result \<times> 'w" where
  "listCollections os c w =
     (if unconfigured c then v2_map [(''collections'', any_strings [''mcp_execution_memory'']), (''status'', AnyString ''simulated'')] w
      else
        case doReq os c ''GET'' (v2path c ''collections'') None w of
          (Inl err, w1) \<Rightarrow> v2_fail (''chroma list collections failed: '' @ err) w1
        | (Inr resp, w1) \<Rightarrow> v2_map [(''collections'', wa_JSON resp)] w1)"

definition chroma_Execute :: "'w v2sys \<Rightarrow> string \<Rightarrow> payload \<Rightarrow> V2Context \<Rightarrow> ChromaAdapter \<Rightarrow> 'w \<Rightarrow> v2_result \<times> 'w" where
  "chroma_Execute os action p ctx c w =
     (let op = snd (parseOp action); docID = p_str p ''id''; collection = p_str p ''collection'' in
      if op = ''store'' then
        (let docText = p_str p ''document'' in
         if docID = [] \<or> docText = [] then v2_fail ''id and document are required'' w
         else storeDoc os c collection docID docText ctx w)
      else if op = ''query'' then
        (let query = p_str p ''query'' in
         if query = [] then v2_fail ''query is required'' w else QueryKnowledge os c collection query w)
      else if op = ''delete'' then
        (if docID = [] then v2_fail ''id is required'' w else deleteDoc os c collection docID w)
      else if op = ''list_collections'' then listCollections os c w
      else v2_fail (''unknown chroma operation: '' @ op) w)"

subsection \<open>The servers\<close>

text \<open>The implementations of the interface \<open>MCPServer\<close>; \<open>OtherServer\<close> is one that a client registers.\<close>

datatype 'w V2Server =
    GitServer
  | FilesystemServer
  | FetchServer
  | MemoryServer MemoryServer
  | GitHubServer
  | Context7Server Context7Server
  | PostgresAdapter string
  | ChromaServer ChromaAdapter
  | OtherServer string "string \<Rightarrow> payload \<Rightarrow> V2Context \<Rightarrow> 'w \<Rightarrow> v2_result \<times> 'w"

fun v2_Name :: "'w V2Server \<Rightarrow> string" where
  "v2_Name GitServer = ''git''"
| "v2_Name FilesystemServer = ''filesystem''"
| "v2_Name FetchServer = ''fetch''"
| "v2_Name (MemoryServer _) = ''memory''"
| "v2_Name GitHubServer = ''github''"
| "v2_Name (Context7Server _) = ''context7''"
| "v2_Name (PostgresAdapter _) = ''postgres''"
| "v2_Name (ChromaServer _) = ''chroma''"
| "v2_Name (OtherServer n _) = n"

fun v2_Execute ::
    "'w v2sys \<Rightarrow> 'w V2Server \<Rightarrow> string \<Rightarrow> payload \<Rightarrow> V2Context \<Rightarrow> 'w \<Rightarrow> v2_result \<times> 'w V2Server \<times> 'w" where
  "v2_Execute os GitServer a p ctx w = (let (r, w1) = git2_Execute os a p ctx w in (r, GitServer, w1))"
| "v2_Execute os FilesystemServer a p ctx w = (let (r, w1) = fs2_Execute os a p ctx w in (r, FilesystemServer, w1))"
| "v2_Execute os FetchServer a p ctx w = (let (r, w1) = fetch_Execute os a p ctx w in (r, FetchServer, w1))"
| "v2_Execute os (MemoryServer s) a p ctx w = (let (r, s1, w1) = mem_Execute os a p s w in (r, MemoryServer s1, w1))"
| "v2_Execute os GitHubServer a p ctx w = (let (r, w1) = gh2_Execute os a p ctx w in (r, GitHubServer, w1))"
| "v2_Execute os (Context7Server s) a p ctx w = (let (r, s1, w1) = c7_Execute os a p ctx s w in (r, Context7Server s1, w1))"
| "v2_Execute os (PostgresAdapter c) a p ctx w = (let (r, w1) = pg_Execute os c a p w in (r, PostgresAdapter c, w1))"
| "v2_Execute os (ChromaServer c) a p ctx w = (let (r, w1) = chroma_Execute os a p ctx c w in (r, ChromaServer c, w1))"
| "v2_Execute os (OtherServer n f) a p ctx w = (let (r, w1) = f a p ctx w in (r, OtherServer n f, w1))"

subsection \<open>What \<open>safeJoin\<close> lets through\<close>

lemma clean_idem: "has_prefix p ''/'' \<Longrightarrow> path_clean (path_clean p) = path_clean p"
  using path_abs_resolved [of "''/''" p] path_clean_rooted [of p] rooted_clean [of p] by (simp add: path_abs_def resolved_def)

lemma safeJoin_resolved:
  fixes base target :: string
  defines "q \<equiv> CHR ''/'' # join_with ''/'' (resolved base target)"
  assumes b: "has_prefix base ''/''"
  shows "safeJoin cwd base target =
    (if has_prefix q base then Inr q
     else Inl (''path traversal denied: '' @ target @ (if has_prefix target ''/'' then '' is outside workspace'' else '' resolves outside workspace'')))"
proof -
  have r: "path_abs (Some base) (path_clean target) = Some q" unfolding q_def by (rule path_abs_resolved [OF b])
  show ?thesis
  proof (cases "has_prefix target ''/''")
    case True
    then have "path_clean target = q" using r clean_idem [OF True] by (simp add: path_abs_def path_clean_rooted)
    moreover have "has_prefix q ''/''" by (simp add: q_def)
    ultimately show ?thesis using True by (simp add: safeJoin_def Let_def)
  next
    case False
    then have j: "path_join base (path_clean target) = q" using r by (simp add: path_abs_def path_clean_rooted path_join_def)
    have "has_prefix (base @ ''/'' @ path_clean target) ''/''" using b by (cases base) auto
    then have "path_abs cwd (path_join base (path_clean target)) = Some q"
      using clean_idem [of "base @ ''/'' @ path_clean target"] j by (simp add: path_abs_def path_join_def q_def)
    then show ?thesis using False by (simp add: safeJoin_def path_clean_rooted Let_def)
  qed
qed

text \<open>A text prefix of a path is a prefix of its segments, except that its last segment may be cut short.\<close>

lemma prefix_within:
  assumes "has_prefix (s @ CHR ''/'' # t) b" "CHR ''/'' \<notin> set b"
  shows "has_prefix s b"
  using assms by (induction s b rule: has_prefix.induct) auto

lemma join_prefix_one:
  assumes "CHR ''/'' \<notin> set b"
  shows "has_prefix (join_with ''/'' (s # ss)) b \<longleftrightarrow> has_prefix s b"
proof (cases ss)
  case (Cons u us)
  then have "join_with ''/'' (s # ss) = s @ CHR ''/'' # join_with ''/'' ss" by simp
  moreover have "has_prefix (s @ x) b" if "has_prefix s b" for x using that by (auto simp: has_prefix_iff)
  ultimately show ?thesis using prefix_within [OF _ assms] by metis
qed simp

lemma join_prefix_segs:
  assumes "CHR ''/'' \<notin> set b" "\<forall>s \<in> set bs. CHR ''/'' \<notin> set s" "\<forall>s \<in> set ss. CHR ''/'' \<notin> set s"
  shows "has_prefix (join_with ''/'' ss) (join_with ''/'' (bs @ [b])) \<longleftrightarrow>
    (ss = [] \<and> bs = [] \<and> b = []) \<or> (\<exists>x rest. ss = bs @ (b @ x) # rest)"
  using assms(2,3)
proof (induction bs arbitrary: ss)
  case Nil
  show ?case
  proof (cases ss)
    case (Cons s ss')
    show ?thesis unfolding Cons by (simp add: join_prefix_one [OF assms(1)] has_prefix_iff [of s b])
  qed (cases b; simp)
next
  case (Cons a bs)
  obtain c cs where c: "bs @ [b] = c # cs" by (cases "bs @ [b]") auto
  have j: "join_with ''/'' ((a # bs) @ [b]) = a @ CHR ''/'' # join_with ''/'' (bs @ [b])" by (simp add: c)
  have a: "CHR ''/'' \<notin> set a" using Cons.prems by simp
  show ?case
  proof (cases ss)
    case Nil
    then show ?thesis by (cases a) (simp_all add: c)
  next
    case (Cons s ss')
    have s: "CHR ''/'' \<notin> set s" using Cons.prems Cons by simp
    show ?thesis
    proof (cases ss')
      case Nil
      then have "\<not> has_prefix (join_with ''/'' ss) (join_with ''/'' ((a # bs) @ [b]))"
        using s unfolding j Cons by (auto simp: has_prefix_iff)
      then show ?thesis using Nil Cons by simp
    next
      case (Cons u us)
      have "has_prefix (join_with ''/'' ss) (join_with ''/'' ((a # bs) @ [b])) \<longleftrightarrow>
          s = a \<and> has_prefix (join_with ''/'' ss') (join_with ''/'' (bs @ [b]))"
        unfolding j \<open>ss = s # ss'\<close> Cons using dot_split_inj [OF s a]
        by (auto simp: has_prefix_iff)
      then show ?thesis using Cons.prems Cons.IH [of ss'] \<open>ss = s # ss'\<close> Cons by auto
    qed
  qed
qed

text \<open>C34:
  What safeJoin lets through: the path is walked segment by segment from the workspace, and accepted exactly when
  the result follows the segments of the workspace, the last of which may be continued by any text. So a sibling of the
  workspace whose name starts with its name is accepted, and nothing else outside it.
\<close>
theorem safeJoin_admits:
  assumes "\<forall>s \<in> set bs. CHR ''/'' \<notin> set s" "CHR ''/'' \<notin> set b" "b \<noteq> []"
  shows "safeJoin cwd (CHR ''/'' # join_with ''/'' (bs @ [b])) target = Inr q \<longleftrightarrow>
    q = CHR ''/'' # join_with ''/'' (resolved (CHR ''/'' # join_with ''/'' (bs @ [b])) target) \<and>
    (\<exists>x rest. resolved (CHR ''/'' # join_with ''/'' (bs @ [b])) target = bs @ (b @ x) # rest)"
proof -
  let ?base = "CHR ''/'' # join_with ''/'' (bs @ [b])"
  have r: "\<forall>s \<in> set (resolved ?base target). CHR ''/'' \<notin> set s"
    using resolved_parts by (auto simp: resolved_def)
  have "has_prefix (CHR ''/'' # join_with ''/'' (resolved ?base target)) ?base \<longleftrightarrow>
      (\<exists>x rest. resolved ?base target = bs @ (b @ x) # rest)"
    using join_prefix_segs [OF assms(2,1) r] assms(3) by simp
  then show ?thesis using safeJoin_resolved [of ?base cwd target] by (auto split: if_splits)
qed

lemma safeJoin_admits_witness:
  "safeJoin None ''/srv/ws'' ''../ws-evil/keys'' = Inr ''/srv/ws-evil/keys'' \<and> safeJoin None ''/srv/ws'' ''../../etc/passwd'' \<noteq> Inr ''/etc/passwd''"
  using safeJoin_admits [of "[''srv'']" "''ws''" None "''../ws-evil/keys''" "''/srv/ws-evil/keys''"]
    safeJoin_admits [of "[''srv'']" "''ws''" None "''../../etc/passwd''" "''/etc/passwd''"]
  by (simp add: resolved_def walk_step_def)

text \<open>The pattern of a search is joined without the check.\<close>

lemma search_pattern_unchecked:
  assumes "has_prefix absBase ''/''"
  shows "path_join absBase pattern = CHR ''/'' # join_with ''/'' (walk_to [] (split_on (CHR ''/'') (absBase @ ''/'' @ pattern)))"
  using assms by (cases absBase) (auto simp: path_join_def rooted_clean)

lemma search_outside:
  "fs2_search os ''/srv/ws'' [(''pattern'', AnyString ''../../etc/*'')] w =
     (case v2_Glob os ''/etc/*'' w of
        (Inl err, w1) \<Rightarrow> v2_fail (''search failed: '' @ err) w1
      | (Inr matches, w1) \<Rightarrow>
          v2_map [(''matches'', any_strings (map (path_rel ''/srv/ws'') matches)), (''count'', any_int (int (length matches)))] w1)"
proof -
  have "path_join ''/srv/ws'' ''../../etc/*'' = ''/etc/*''"
    by (subst search_pattern_unchecked) (simp_all add: walk_step_def)
  moreover have "p_str [(''pattern'', AnyString ''../../etc/*'')] ''pattern'' = ''../../etc/*''"
    by (simp add: p_str_def gm_get_def any_string_def)
  ultimately show ?thesis by (simp add: fs2_search_def)
qed

subsection \<open>What a memory server keeps\<close>

lemma parseOp_full: "CHR ''.'' \<notin> set t \<Longrightarrow> parseOp (t @ ''.'' @ op) = (t, op)"
  using split2_append [of "CHR ''.''" t op] by (simp add: parseOp_def Let_def)

text \<open>A stored value is what is retrieved, until the key is stored again or deleted.\<close>

lemma memory_store_retrieve:
  assumes "key \<noteq> []" and "p_str p ''key'' = key" "p_str p' ''key'' = key"
    and "mem_Execute os ''memory.store'' p s w = (r, s1, w1)"
  shows "r = V2Returns (AnyMap [(''key'', AnyString key), (''stored'', AnyBool True)])"
    and "mem_Execute os ''memory.retrieve'' p' s1 w2 = (V2Returns (AnyMap [(''key'', AnyString key), (''value'', AnyString (p_str p ''value''))]), s1, w2)"
  using assms parseOp_full [of "''memory''" "''store''"] parseOp_full [of "''memory''" "''retrieve''"]
  by (auto simp: mem_Execute_def Let_def)

text \<open>The table of routes promises operations of GitHub that its server does not know.\<close>

lemma github_push_unknown:
  "(\<exists>cap. Resolve NewRouter ''github'' ''push'' = Inr cap) \<and>
   gh2_Execute os ''github.push'' p ctx w = (V2Fails ''unknown github operation: push'', w)"
  using parseOp_full [of "''github''" "''push''"]
  by (simp add: Resolve_def NewRouter_def gm_get_def capability_def gh2_Execute_def Let_def)

end
