(* ===== verification/Run_Metrics.thy ===== *)
theory Run_Metrics
  imports V2_Servers Run_Observability
begin

text \<open>
  The metrics of the second gateway, \<open>runtime/metrics\<close>: the counters (\<open>metrics.go\<close>), the registry with its snapshot
  (\<open>registry.go\<close>), the aggregation of traces (\<open>aggregation.go\<close>) and the pages that show them (\<open>handler.go\<close>,
  \<open>dashboard.go\<close>). Counters are integers that do not overflow, rates are \<open>real\<close>; the clock is an argument. The global variable of the registry is its state, and locks are not modelled.
\<close>

subsection \<open>Counters\<close>

record GatewayMetrics =
  gw_RequestsTotal :: int
  gw_RequestsAllowed :: int
  gw_RequestsBlocked :: int
  gw_RequestsFailed :: int
  gw_RateLimited :: int
  gw_Failures :: int
  gw_Panics :: int
  gw_StartTime :: int

record StageMetrics =
  sg_Label :: string
  sg_Invocations :: int
  sg_TotalLatency :: int
  sg_MaxLatency :: int
  sg_Failures :: int

record EnforcementMetrics =
  em_Evaluations :: int
  em_Allowed :: int
  em_Blocked :: int
  em_Violations :: int
  em_ErrorCount :: int

record PolicyIntelMetrics =
  pm_EventsRecorded :: int
  pm_DriftDetections :: int
  pm_Suggestions :: int
  pm_WeightUpdates :: int

record LearningMetrics =
  lm_Updates :: int
  lm_SuccessCount :: int
  lm_FailureCount :: int
  lm_TotalLatencyMs :: int

record RuntimeMetrics =
  rm_Gateway :: GatewayMetrics
  rm_Enforcement :: EnforcementMetrics
  rm_PolicyIntel :: PolicyIntelMetrics
  rm_Learning :: LearningMetrics
  rm_Stages :: "(string, StageMetrics) gomap"

definition NewRuntimeMetrics :: "int \<Rightarrow> RuntimeMetrics" where
  "NewRuntimeMetrics now =
     \<lparr>rm_Gateway = \<lparr>gw_RequestsTotal = 0, gw_RequestsAllowed = 0, gw_RequestsBlocked = 0, gw_RequestsFailed = 0, gw_RateLimited = 0,
                    gw_Failures = 0, gw_Panics = 0, gw_StartTime = now\<rparr>,
      rm_Enforcement = \<lparr>em_Evaluations = 0, em_Allowed = 0, em_Blocked = 0, em_Violations = 0, em_ErrorCount = 0\<rparr>,
      rm_PolicyIntel = \<lparr>pm_EventsRecorded = 0, pm_DriftDetections = 0, pm_Suggestions = 0, pm_WeightUpdates = 0\<rparr>,
      rm_Learning = \<lparr>lm_Updates = 0, lm_SuccessCount = 0, lm_FailureCount = 0, lm_TotalLatencyMs = 0\<rparr>, rm_Stages = []\<rparr>"

definition rm_Stage :: "string \<Rightarrow> RuntimeMetrics \<Rightarrow> StageMetrics \<times> RuntimeMetrics" where
  "rm_Stage name rm =
     (case gm_get (rm_Stages rm) name of
        Some s \<Rightarrow> (s, rm)
      | None \<Rightarrow>
          let s = \<lparr>sg_Label = name, sg_Invocations = 0, sg_TotalLatency = 0, sg_MaxLatency = 0, sg_Failures = 0\<rparr>
          in (s, rm\<lparr>rm_Stages := gm_put name s (rm_Stages rm)\<rparr>))"

definition rm_Uptime :: "int \<Rightarrow> RuntimeMetrics \<Rightarrow> int" where "rm_Uptime now rm = now - gw_StartTime (rm_Gateway rm)"

definition rm_ThroughputRPS :: "int \<Rightarrow> RuntimeMetrics \<Rightarrow> real" where
  "rm_ThroughputRPS now rm =
     (let elapsed = seconds (now - gw_StartTime (rm_Gateway rm)) in
      if elapsed = 0 then 0 else real_of_int (gw_RequestsTotal (rm_Gateway rm)) / elapsed)"

definition BlockRate :: "RuntimeMetrics \<Rightarrow> real" where
  "BlockRate rm =
     (let n = gw_RequestsTotal (rm_Gateway rm) in if n = 0 then 0 else real_of_int (gw_RequestsBlocked (rm_Gateway rm)) / real_of_int n)"

definition ErrorRate :: "RuntimeMetrics \<Rightarrow> real" where
  "ErrorRate rm =
     (let n = gw_RequestsTotal (rm_Gateway rm) in if n = 0 then 0 else real_of_int (gw_RequestsFailed (rm_Gateway rm)) / real_of_int n)"

subsection \<open>Registry\<close>

abbreviation upd_gateway :: "(GatewayMetrics \<Rightarrow> GatewayMetrics) \<Rightarrow> RuntimeMetrics \<Rightarrow> RuntimeMetrics" where
  "upd_gateway f rm \<equiv> rm\<lparr>rm_Gateway := f (rm_Gateway rm)\<rparr>"

abbreviation upd_enforcement :: "(EnforcementMetrics \<Rightarrow> EnforcementMetrics) \<Rightarrow> RuntimeMetrics \<Rightarrow> RuntimeMetrics" where
  "upd_enforcement f rm \<equiv> rm\<lparr>rm_Enforcement := f (rm_Enforcement rm)\<rparr>"

abbreviation upd_intel :: "(PolicyIntelMetrics \<Rightarrow> PolicyIntelMetrics) \<Rightarrow> RuntimeMetrics \<Rightarrow> RuntimeMetrics" where
  "upd_intel f rm \<equiv> rm\<lparr>rm_PolicyIntel := f (rm_PolicyIntel rm)\<rparr>"

definition Global :: "int \<Rightarrow> RuntimeMetrics option \<Rightarrow> RuntimeMetrics" where
  "Global now g = (case g of None \<Rightarrow> NewRuntimeMetrics now | Some rm \<Rightarrow> rm)"

definition ResetGlobal :: "int \<Rightarrow> RuntimeMetrics option" where "ResetGlobal now = Some (NewRuntimeMetrics now)"

definition mr_RecordRequest :: "bool \<Rightarrow> RuntimeMetrics \<Rightarrow> RuntimeMetrics" where
  "mr_RecordRequest allowed rm =
     (let rm = upd_gateway (\<lambda>g. g\<lparr>gw_RequestsTotal := gw_RequestsTotal g + 1\<rparr>) rm in
      if allowed then upd_gateway (\<lambda>g. g\<lparr>gw_RequestsAllowed := gw_RequestsAllowed g + 1\<rparr>) rm
      else upd_gateway (\<lambda>g. g\<lparr>gw_RequestsBlocked := gw_RequestsBlocked g + 1\<rparr>) rm)"

definition RecordFailure :: "RuntimeMetrics \<Rightarrow> RuntimeMetrics" where
  "RecordFailure rm = upd_gateway (\<lambda>g. g\<lparr>gw_RequestsFailed := gw_RequestsFailed g + 1\<rparr>) rm"

definition RecordRateLimit :: "RuntimeMetrics \<Rightarrow> RuntimeMetrics" where
  "RecordRateLimit rm = upd_gateway (\<lambda>g. g\<lparr>gw_RateLimited := gw_RateLimited g + 1\<rparr>) rm"

definition RecordPanic :: "RuntimeMetrics \<Rightarrow> RuntimeMetrics" where
  "RecordPanic rm = upd_gateway (\<lambda>g. g\<lparr>gw_Panics := gw_Panics g + 1\<rparr>) rm"

definition RecordEnforcement :: "bool \<Rightarrow> RuntimeMetrics \<Rightarrow> RuntimeMetrics" where
  "RecordEnforcement allowed rm =
     (let rm = upd_enforcement (\<lambda>e. e\<lparr>em_Evaluations := em_Evaluations e + 1\<rparr>) rm in
      if allowed then upd_enforcement (\<lambda>e. e\<lparr>em_Allowed := em_Allowed e + 1\<rparr>) rm
      else upd_enforcement (\<lambda>e. e\<lparr>em_Blocked := em_Blocked e + 1\<rparr>) rm)"

definition RecordViolation :: "RuntimeMetrics \<Rightarrow> RuntimeMetrics" where
  "RecordViolation rm = upd_enforcement (\<lambda>e. e\<lparr>em_Violations := em_Violations e + 1\<rparr>) rm"

definition RecordPolicyEvent :: "RuntimeMetrics \<Rightarrow> RuntimeMetrics" where
  "RecordPolicyEvent rm = upd_intel (\<lambda>p. p\<lparr>pm_EventsRecorded := pm_EventsRecorded p + 1\<rparr>) rm"

definition RecordDriftDetection :: "RuntimeMetrics \<Rightarrow> RuntimeMetrics" where
  "RecordDriftDetection rm = upd_intel (\<lambda>p. p\<lparr>pm_DriftDetections := pm_DriftDetections p + 1\<rparr>) rm"

definition RecordSuggestion :: "RuntimeMetrics \<Rightarrow> RuntimeMetrics" where
  "RecordSuggestion rm = upd_intel (\<lambda>p. p\<lparr>pm_Suggestions := pm_Suggestions p + 1\<rparr>) rm"

definition RecordWeightUpdate :: "RuntimeMetrics \<Rightarrow> RuntimeMetrics" where
  "RecordWeightUpdate rm = upd_intel (\<lambda>p. p\<lparr>pm_WeightUpdates := pm_WeightUpdates p + 1\<rparr>) rm"

definition RecordLearningUpdate :: "bool \<Rightarrow> int \<Rightarrow> RuntimeMetrics \<Rightarrow> RuntimeMetrics" where
  "RecordLearningUpdate good latencyMs rm =
     (let l = rm_Learning rm; l = l\<lparr>lm_Updates := lm_Updates l + 1, lm_TotalLatencyMs := lm_TotalLatencyMs l + latencyMs\<rparr>
      in rm\<lparr>rm_Learning := (if good then l\<lparr>lm_SuccessCount := lm_SuccessCount l + 1\<rparr> else l\<lparr>lm_FailureCount := lm_FailureCount l + 1\<rparr>)\<rparr>)"

record RuntimeSnapshot =
  rs_UptimeSeconds :: int
  rs_ThroughputRPS :: real
  rs_BlockRate :: real
  rs_ErrorRate :: real

record LearningSnapshot =
  lsn_Updates :: int
  lsn_SuccessCount :: int
  lsn_FailureCount :: int
  lsn_AvgLatencyMs :: int

record StageSnapshot =
  sgn_Label :: string
  sgn_Invocations :: int
  sgn_AvgLatencyNs :: int
  sgn_MaxLatencyNs :: int
  sgn_Failures :: int

text \<open>The gateway, enforcement and intelligence snapshots have the counters as they are.\<close>

record MetricsSnapshot =
  msn_Runtime :: RuntimeSnapshot
  msn_Gateway :: GatewayMetrics
  msn_Enforcement :: EnforcementMetrics
  msn_PolicyIntel :: PolicyIntelMetrics
  msn_Learning :: LearningSnapshot
  msn_Stages :: "StageSnapshot list"

definition stage_snapshot :: "StageMetrics \<Rightarrow> StageSnapshot" where
  "stage_snapshot s =
     \<lparr>sgn_Label = sg_Label s, sgn_Invocations = sg_Invocations s,
      sgn_AvgLatencyNs = (if sg_Invocations s > 0 then quot (sg_TotalLatency s) (sg_Invocations s) else 0),
      sgn_MaxLatencyNs = sg_MaxLatency s, sgn_Failures = sg_Failures s\<rparr>"

definition metrics_Snapshot :: "int \<Rightarrow> RuntimeMetrics \<Rightarrow> MetricsSnapshot" where
  "metrics_Snapshot now rm =
     (let l = rm_Learning rm in
      \<lparr>msn_Runtime = \<lparr>rs_UptimeSeconds = quot (rm_Uptime now rm) 1000000000, rs_ThroughputRPS = rm_ThroughputRPS now rm,
                      rs_BlockRate = BlockRate rm, rs_ErrorRate = ErrorRate rm\<rparr>,
       msn_Gateway = rm_Gateway rm, msn_Enforcement = rm_Enforcement rm, msn_PolicyIntel = rm_PolicyIntel rm,
       msn_Learning = \<lparr>lsn_Updates = lm_Updates l, lsn_SuccessCount = lm_SuccessCount l, lsn_FailureCount = lm_FailureCount l,
                       lsn_AvgLatencyMs = (if lm_Updates l > 0 then quot (lm_TotalLatencyMs l) (lm_Updates l) else 0)\<rparr>,
       msn_Stages = map (stage_snapshot \<circ> snd) (rm_Stages rm)\<rparr>)"

subsection \<open>Aggregation of traces\<close>

definition MaxTraceFieldSize :: nat where "MaxTraceFieldSize = 512"
definition MaxTraceTotalSize :: nat where "MaxTraceTotalSize = 64 * 1024"
definition MaxAggregatedTraces :: nat where "MaxAggregatedTraces = 1000"

record AggregatedTrace =
  at_TraceID :: string
  at_RequestID :: string
  at_SelectedServer :: string
  at_StageCount :: nat
  at_Stages :: "string list option"
  at_TotalLatencyNs :: int

record StageLatencyRecord =
  sl_Stage :: string
  sl_Count :: int
  sl_TotalNs :: int
  sl_MinNs :: int
  sl_MaxNs :: int

record TraceAggregator =
  ta_traces :: "AggregatedTrace list"
  ta_stageLat :: "(string, StageLatencyRecord) gomap"
  ta_totalBytes :: nat

definition NewTraceAggregator :: TraceAggregator where
  "NewTraceAggregator = \<lparr>ta_traces = [], ta_stageLat = [], ta_totalBytes = 0\<rparr>"

definition truncate_to :: "string \<Rightarrow> nat \<Rightarrow> string" where "truncate_to s n = (if length s \<le> n then s else take n s)"

definition json_member :: "string \<Rightarrow> string \<Rightarrow> string" where
  "json_member k v = json_string k @ '':'' @ v"

text \<open>The fields of a struct in their order; a nil slice, the value None, is written as \<open>null\<close>.\<close>

definition trace_json :: "AggregatedTrace \<Rightarrow> string" where
  "trace_json t =
     ''{'' @ join_with '',''
        [json_member ''trace_id'' (json_string (at_TraceID t)), json_member ''request_id'' (json_string (at_RequestID t)),
         json_member ''selected_server'' (json_string (at_SelectedServer t)), json_member ''stage_count'' (int_digits (int (at_StageCount t))),
         json_member ''stages'' (case at_Stages t of None \<Rightarrow> ''null'' | Some ss \<Rightarrow> ''['' @ join_with '','' (map json_string ss) @ '']''),
         json_member ''total_latency_ns'' (int_digits (at_TotalLatencyNs t))] @ ''}''"

definition RecordTrace :: "string \<Rightarrow> string \<Rightarrow> string \<Rightarrow> string list option \<Rightarrow> int \<Rightarrow> TraceAggregator \<Rightarrow> TraceAggregator" where
  "RecordTrace traceID requestID selectedServer stages latencyNs ta =
     (let t = \<lparr>at_TraceID = truncate_to traceID MaxTraceFieldSize, at_RequestID = truncate_to requestID MaxTraceFieldSize,
               at_SelectedServer = truncate_to selectedServer MaxTraceFieldSize, at_StageCount = (case stages of None \<Rightarrow> 0 | Some ss \<Rightarrow> length ss), at_Stages = stages,
               at_TotalLatencyNs = latencyNs\<rparr>;
          data = trace_json t
      in if ta_totalBytes ta + length data > MaxTraceTotalSize then ta
         else
           let traces = (if length (ta_traces ta) \<ge> MaxAggregatedTraces then tl (ta_traces ta) else ta_traces ta)
           in ta\<lparr>ta_traces := traces @ [t], ta_totalBytes := ta_totalBytes ta + length data\<rparr>)"

definition RecordStageLatency :: "string \<Rightarrow> int \<Rightarrow> TraceAggregator \<Rightarrow> TraceAggregator" where
  "RecordStageLatency stage latencyNs ta =
     (let r = (case gm_get (ta_stageLat ta) stage of
                 Some r \<Rightarrow> r | None \<Rightarrow> \<lparr>sl_Stage = stage, sl_Count = 0, sl_TotalNs = 0, sl_MinNs = latencyNs, sl_MaxNs = 0\<rparr>);
          r = r\<lparr>sl_Count := sl_Count r + 1, sl_TotalNs := sl_TotalNs r + latencyNs\<rparr>;
          r = (if latencyNs < sl_MinNs r then r\<lparr>sl_MinNs := latencyNs\<rparr> else r);
          r = (if latencyNs > sl_MaxNs r then r\<lparr>sl_MaxNs := latencyNs\<rparr> else r)
      in ta\<lparr>ta_stageLat := gm_put stage r (ta_stageLat ta)\<rparr>)"

definition StageLatencyStats :: "TraceAggregator \<Rightarrow> StageLatencyRecord list" where "StageLatencyStats ta = map snd (ta_stageLat ta)"

definition TraceCount :: "TraceAggregator \<Rightarrow> nat" where "TraceCount ta = length (ta_traces ta)"

definition ByteUsage :: "TraceAggregator \<Rightarrow> nat" where "ByteUsage ta = ta_totalBytes ta"

subsection \<open>Pages\<close>

text \<open>What a page shows, encoded by the handler; the handlers only read.\<close>

datatype metrics_page =
  RootPage MetricsSnapshot | RuntimePage RuntimeSnapshot | GatewayPage GatewayMetrics
| StagesPage "StageSnapshot list" "StageLatencyRecord list" | EnforcementPage EnforcementMetrics | LearningPage LearningSnapshot
| PolicyIntelPage PolicyIntelMetrics | TracesPage nat nat "AggregatedTrace list" | NotFoundPage

definition ServeHTTP :: "int \<Rightarrow> RuntimeMetrics \<Rightarrow> TraceAggregator \<Rightarrow> string \<Rightarrow> metrics_page" where
  "ServeHTTP now rm ta url_path =
     (let path = (if has_prefix url_path ''/'' then tl url_path else url_path); snap = metrics_Snapshot now rm in
      if path = ''metrics'' \<or> path = ''metrics/'' then RootPage snap
      else if path = ''metrics/runtime'' then RuntimePage (msn_Runtime snap)
      else if path = ''metrics/gateway'' then GatewayPage (msn_Gateway snap)
      else if path = ''metrics/stages'' then StagesPage (msn_Stages snap) (StageLatencyStats ta)
      else if path = ''metrics/enforcement'' then EnforcementPage (msn_Enforcement snap)
      else if path = ''metrics/learning'' then LearningPage (msn_Learning snap)
      else if path = ''metrics/policy-intel'' then PolicyIntelPage (msn_PolicyIntel snap)
      else if path = ''metrics/traces'' then TracesPage (TraceCount ta) (ByteUsage ta) (ta_traces ta)
      else NotFoundPage)"

text \<open>The console page; a number with one decimal is formatted by an argument, a label is padded by its characters.\<close>

definition dash_line :: "nat \<Rightarrow> string" where "dash_line n = concat (replicate n [CHR 0xE2, CHR 0x94, CHR 0x80])"

definition dash_nl :: string where "dash_nl = [CHR 0x0A]"

definition dash_header :: "string \<Rightarrow> string" where
  "dash_header title =
     dash_nl @ dash_line 60 @ dash_nl @ '' '' @ replicate ((60 - length title - 2) div 2) (CHR '' '') @ title @ dash_nl @ dash_line 60 @ dash_nl"

definition dash_divider :: string where "dash_divider = dash_line 66 @ dash_nl"

definition pad_left :: "nat \<Rightarrow> string \<Rightarrow> string" where "pad_left n s = replicate (n - length s) (CHR '' '') @ s"

definition pad_right :: "nat \<Rightarrow> string \<Rightarrow> string" where
  "pad_right n s = s @ replicate (n - length (filter (\<lambda>c. \<not> (0x80 \<le> (of_char c :: nat) \<and> (of_char c :: nat) < 0xC0)) s)) (CHR '' '')"

definition dash_counts :: "(string \<times> int) list \<Rightarrow> string" where
  "dash_counts kvs = join_with '' | '' (map (\<lambda>(k, n). k @ '': '' @ int_digits n) kvs)"

definition stage_line :: "StageSnapshot \<Rightarrow> string" where
  "stage_line s =
     join_with '' '' [pad_right 20 (sgn_Label s), pad_left 12 (int_digits (sgn_Invocations s)), pad_left 12 (int_digits (sgn_AvgLatencyNs s)),
       pad_left 12 (int_digits (sgn_MaxLatencyNs s)), pad_left 10 (int_digits (sgn_Failures s))] @ dash_nl"

definition Render :: "(real \<Rightarrow> string) \<Rightarrow> int \<Rightarrow> RuntimeMetrics \<Rightarrow> string" where
  "Render f1 now rm =
     (let snap = metrics_Snapshot now rm; r = msn_Runtime snap; g = msn_Gateway snap; e = msn_Enforcement snap; pi = msn_PolicyIntel snap; l = msn_Learning snap in
      dash_header ''Gateway Metrics Dashboard'' @
      join_with '' | '' [''Uptime: '' @ int_digits (rs_UptimeSeconds r) @ ''s'', ''Throughput: '' @ f1 (rs_ThroughputRPS r) @ '' req/s'',
        ''Block Rate: '' @ f1 (rs_BlockRate r * 100) @ ''%'', ''Error Rate: '' @ f1 (rs_ErrorRate r * 100) @ ''%''] @ dash_nl @
      dash_header ''Gateway Counters'' @
      dash_counts [(''Total'', gw_RequestsTotal g), (''Allowed'', gw_RequestsAllowed g), (''Blocked'', gw_RequestsBlocked g),
        (''Failed'', gw_RequestsFailed g), (''Rate Limited'', gw_RateLimited g), (''Panics'', gw_Panics g)] @ dash_nl @
      dash_header ''Enforcement'' @
      dash_counts [(''Evaluations'', em_Evaluations e), (''Allowed'', em_Allowed e), (''Blocked'', em_Blocked e), (''Violations'', em_Violations e)] @ dash_nl @
      dash_header ''Policy Intelligence'' @
      dash_counts [(''Events'', pm_EventsRecorded pi), (''Drifts'', pm_DriftDetections pi), (''Suggestions'', pm_Suggestions pi),
        (''Weight Updates'', pm_WeightUpdates pi)] @ dash_nl @
      dash_header ''Learning Engine'' @
      dash_counts [(''Updates'', lsn_Updates l), (''Success'', lsn_SuccessCount l), (''Failure'', lsn_FailureCount l), (''Avg Latency'', lsn_AvgLatencyMs l)] @
        ''ms'' @ dash_nl @
      (if length (msn_Stages snap) > 0
       then dash_header ''Per-Stage'' @
         join_with '' '' [pad_right 20 ''Stage'', pad_left 12 ''Invocations'', pad_left 12 ''Avg (ns)'', pad_left 12 ''Max (ns)'', pad_left 10 ''Failures''] @ dash_nl @
         dash_divider @ concat (map stage_line (msn_Stages snap))
       else []))"

definition compact_counts :: "(string \<times> int) list \<Rightarrow> string" where
  "compact_counts kvs = join_with '' '' (map (\<lambda>(k, n). k @ ''='' @ int_digits n) kvs)"

definition RenderCompact :: "(real \<Rightarrow> string) \<Rightarrow> int \<Rightarrow> RuntimeMetrics \<Rightarrow> string" where
  "RenderCompact f1 now rm =
     (let snap = metrics_Snapshot now rm; r = msn_Runtime snap; g = msn_Gateway snap; e = msn_Enforcement snap; pi = msn_PolicyIntel snap; l = msn_Learning snap in
      ''['' @ int_digits (rs_UptimeSeconds r) @ ''s] '' @ f1 (rs_ThroughputRPS r) @ '' rps | '' @
      compact_counts [(''req'', gw_RequestsTotal g), (''ok'', gw_RequestsAllowed g), (''blk'', gw_RequestsBlocked g), (''fail'', gw_RequestsFailed g),
        (''rate'', gw_RateLimited g), (''enfc'', em_Evaluations e), (''blk'', em_Blocked e)] @ '' | '' @
      compact_counts [(''pi'', pm_EventsRecorded pi), (''drf'', pm_DriftDetections pi), (''sug'', pm_Suggestions pi)] @ '' | '' @
      compact_counts [(''learn'', lsn_Updates l), (''ok'', lsn_SuccessCount l), (''fail'', lsn_FailureCount l)] @ dash_nl)"

subsection \<open>What they promise\<close>

text \<open>Requests and enforcement decisions are counted once in total and once by outcome.\<close>

datatype metric_op = MRequest bool | MFailure | MRateLimit | MPanic | MEnforcement bool | MLearning bool int

fun metric_step :: "metric_op \<Rightarrow> RuntimeMetrics \<Rightarrow> RuntimeMetrics" where
  "metric_step (MRequest b) = mr_RecordRequest b"
| "metric_step MFailure = RecordFailure"
| "metric_step MRateLimit = RecordRateLimit"
| "metric_step MPanic = RecordPanic"
| "metric_step (MEnforcement b) = RecordEnforcement b"
| "metric_step (MLearning b l) = RecordLearningUpdate b l"

lemma metrics_balance:
  fixes ops now
  defines "rm \<equiv> fold metric_step ops (NewRuntimeMetrics now)"
  shows "gw_RequestsTotal (rm_Gateway rm) = gw_RequestsAllowed (rm_Gateway rm) + gw_RequestsBlocked (rm_Gateway rm)"
    and "em_Evaluations (rm_Enforcement rm) = em_Allowed (rm_Enforcement rm) + em_Blocked (rm_Enforcement rm)"
    and "lm_Updates (rm_Learning rm) = lm_SuccessCount (rm_Learning rm) + lm_FailureCount (rm_Learning rm)"
    and "0 \<le> gw_RequestsBlocked (rm_Gateway rm) \<and> 0 \<le> gw_RequestsAllowed (rm_Gateway rm)"
proof -
  define sane where "sane rm \<longleftrightarrow> gw_RequestsTotal (rm_Gateway rm) = gw_RequestsAllowed (rm_Gateway rm) + gw_RequestsBlocked (rm_Gateway rm) \<and>
    em_Evaluations (rm_Enforcement rm) = em_Allowed (rm_Enforcement rm) + em_Blocked (rm_Enforcement rm) \<and>
    lm_Updates (rm_Learning rm) = lm_SuccessCount (rm_Learning rm) + lm_FailureCount (rm_Learning rm) \<and>
    0 \<le> gw_RequestsBlocked (rm_Gateway rm) \<and> 0 \<le> gw_RequestsAllowed (rm_Gateway rm)" for rm :: RuntimeMetrics
  have step: "sane (metric_step op rm)" if "sane rm" for op rm
    using that by (cases op) (auto simp: sane_def mr_RecordRequest_def RecordFailure_def RecordRateLimit_def RecordPanic_def
        RecordEnforcement_def RecordLearningUpdate_def Let_def)
  have "sane (fold metric_step ops m)" if "sane m" for m using that by (induction ops arbitrary: m) (simp_all add: step)
  then have "sane rm" unfolding rm_def by (simp add: sane_def NewRuntimeMetrics_def)
  then show "gw_RequestsTotal (rm_Gateway rm) = gw_RequestsAllowed (rm_Gateway rm) + gw_RequestsBlocked (rm_Gateway rm)"
    "em_Evaluations (rm_Enforcement rm) = em_Allowed (rm_Enforcement rm) + em_Blocked (rm_Enforcement rm)"
    "lm_Updates (rm_Learning rm) = lm_SuccessCount (rm_Learning rm) + lm_FailureCount (rm_Learning rm)"
    "0 \<le> gw_RequestsBlocked (rm_Gateway rm) \<and> 0 \<le> gw_RequestsAllowed (rm_Gateway rm)"
    by (simp_all add: sane_def)
qed

lemma trace_json_length: "100 \<le> length (trace_json t)"
proof -
  have "1 \<le> length (int_digits n)" for n
  proof -
    have "digits m \<noteq> []" for m by (induction m rule: digits.induct) (subst digits.simps, simp)
    then show ?thesis by (cases "int_digits n") (auto simp: int_digits_def split: if_splits)
  qed
  note d = this
  have "2 \<le> length (case at_Stages t of None \<Rightarrow> ''null'' | Some ss \<Rightarrow> ''['' @ join_with '','' (map json_string ss) @ '']'')"
    by (simp split: option.split)
  with d [of "int (at_StageCount t)"] d [of "at_TotalLatencyNs t"] show ?thesis
    by (simp add: trace_json_def json_member_def json_string_def json_escape_def)
qed

text \<open>
  The aggregator keeps the first traces that fit into 64 KiB and nothing after them: in any sequence of calls the
  traces it has are only added to, their encoded sizes sum up to its byte count, at most 655 of them are kept, so the
  oldest is never dropped, and what is full stays full.
\<close>
theorem aggregator_keeps_first:
  fixes ops :: "(string \<times> string \<times> string \<times> string list option \<times> int) list"
  defines "run \<equiv> \<lambda>os. fold (\<lambda>(t, r, s, st, l). RecordTrace t r s st l) os NewTraceAggregator"
  shows "ta_totalBytes (run ops) = sum_list (map (length \<circ> trace_json) (ta_traces (run ops))) \<and>
    ta_totalBytes (run ops) \<le> 65536 \<and> length (ta_traces (run ops)) \<le> 655 \<and>
    (\<exists>more. ta_traces (run (ops @ later)) = ta_traces (run ops) @ more) \<and> ta_totalBytes (run ops) \<le> ta_totalBytes (run (ops @ later))"
proof -
  define sane where "sane ta \<longleftrightarrow> ta_totalBytes ta = sum_list (map (length \<circ> trace_json) (ta_traces ta)) \<and> ta_totalBytes ta \<le> 65536" for ta :: TraceAggregator
  have len: "100 * length (ta_traces ta) \<le> ta_totalBytes ta" if "sane ta" for ta
  proof -
    have "sum_list (map (\<lambda>_. 100) ts) \<le> sum_list (map (length \<circ> trace_json) ts)" for ts
      using trace_json_length by (intro sum_list_mono) auto
    then show ?thesis using that by (simp add: sane_def sum_list_triv mult.commute)
  qed
  have step: "sane (RecordTrace t r s st l ta) \<and> (\<exists>more. ta_traces (RecordTrace t r s st l ta) = ta_traces ta @ more) \<and>
      ta_totalBytes ta \<le> ta_totalBytes (RecordTrace t r s st l ta)" if "sane ta" for t r s st l ta
  proof -
    have "length (ta_traces ta) < 1000" using len [OF that] that by (simp add: sane_def)
    then show ?thesis using that by (auto simp: sane_def RecordTrace_def MaxTraceTotalSize_def MaxAggregatedTraces_def Let_def)
  qed
  have runs: "sane (fold (\<lambda>(t, r, s, st, l). RecordTrace t r s st l) os ta) \<and>
      (\<exists>more. ta_traces (fold (\<lambda>(t, r, s, st, l). RecordTrace t r s st l) os ta) = ta_traces ta @ more) \<and>
      ta_totalBytes ta \<le> ta_totalBytes (fold (\<lambda>(t, r, s, st, l). RecordTrace t r s st l) os ta)" if "sane ta" for os ta
    using that
  proof (induction os arbitrary: ta)
    case (Cons x os)
    obtain t r s st l where x: "x = (t, r, s, st, l)" by (rule prod_cases5)
    from step [OF Cons.prems, of t r s st l] Cons.IH [of "RecordTrace t r s st l ta"] show ?case
      by (fastforce simp: x)
  qed simp
  have o: "sane (run ops)" unfolding run_def by (rule runs [THEN conjunct1]) (simp add: sane_def NewTraceAggregator_def)
  moreover have "run (ops @ later) = fold (\<lambda>(t, r, s, st, l). RecordTrace t r s st l) later (run ops)" by (simp add: run_def)
  ultimately show ?thesis using runs [OF o, of later] len [OF o] by (auto simp: sane_def)
qed

end
