(* ===== verification/Run_Orchestrator.thy ===== *)
theory Run_Orchestrator
  imports V2_Servers
begin

text \<open>
  The orchestrator of execution events, \<open>runtime/orchestrator/v1\<close>: the decision which systems an event goes to, the four
  adapters and \<open>Process\<close>, which calls the systems in goroutines and waits for them. JSON encoding, HTTP and Python are
  functions of a record over a world \<open>'w\<close>; a script is run without a time limit and may never end, while HTTP has a limit
  of five seconds, after which it fails. What the goroutines do is a schedule: a list of systems, each entry letting the
  goroutine of that system take its next step. Log lines are not modelled.
\<close>

subsection \<open>Events and decision\<close>

record EventExecution =
  ee_Server :: string
  ee_Operation :: string
  ee_Result :: any

record EventContext =
  ec_SessionID :: string
  ec_TenantID :: string

record OrchestratorEvent =
  ov_TraceID :: string
  ov_Source :: string
  ov_EventType :: string
  ov_Execution :: EventExecution
  ov_Context :: EventContext

record OrchestratorResponse =
  or_TraceID :: string
  or_Status :: string
  or_SystemsTriggered :: "string list"
  or_Result :: any

record RoutingDecision =
  rd_Postgres :: bool
  rd_ChromaDB :: bool
  rd_LangGraph :: bool
  rd_CrewAI :: bool

definition multiStepOps :: "string list" where
  "multiStepOps = [''commit'', ''push'', ''create_release'', ''create_pr'', ''write'']"

definition agentOps :: "string list" where "agentOps = [''resolve'', ''query'', ''create_issue'']"

definition Decide :: "OrchestratorEvent \<Rightarrow> RoutingDecision" where
  "Decide event =
     (let op = ee_Operation (ov_Execution event); server = ee_Server (ov_Execution event) in
      \<lparr>rd_Postgres = True, rd_ChromaDB = True,
       rd_LangGraph = (op \<in> set multiStepOps \<or> server = ''langgraph''),
       rd_CrewAI = (op \<in> set agentOps \<or> server = ''crewai'')\<rparr>)"

subsection \<open>Adapters\<close>

text \<open>What a call of a system comes to; \<open>OrcHangs\<close> is one that never returns.\<close>

datatype orc_result = OrcReturns any | OrcFails string | OrcPanics | OrcHangs

record 'w orc_env =
  oe_Marshal :: "any \<Rightarrow> string + string"
  oe_Unmarshal :: "string \<Rightarrow> string + any"
  oe_Post :: "string \<Rightarrow> string \<Rightarrow> string \<Rightarrow> 'w \<Rightarrow> (string + int) \<times> 'w"
  oe_Python :: "string \<Rightarrow> string \<Rightarrow> 'w \<Rightarrow> (string + string) option \<times> 'w"

type_synonym 'w backend = "OrchestratorEvent \<Rightarrow> 'w \<Rightarrow> orc_result \<times> 'w"

text \<open>A failed encoding whose error is dropped leaves no bytes.\<close>

definition marshal_or_empty :: "'w orc_env \<Rightarrow> any \<Rightarrow> string" where
  "marshal_or_empty env v = (case oe_Marshal env v of Inl err \<Rightarrow> [] | Inr s \<Rightarrow> s)"

definition object_json :: "(string \<times> string) list \<Rightarrow> string" where
  "object_json kvs = ''{'' @ join_with '','' (map (\<lambda>(k, v). json_string k @ '':'' @ v) kvs) @ ''}''"

record PostgresConfig =
  oc_ConnString :: string
  oc_TableName :: string

definition pg_store :: "'w orc_env \<Rightarrow> 'w backend" where
  "pg_store env event w =
     (case oe_Marshal env (ee_Result (ov_Execution event)) of
        Inl err \<Rightarrow> (OrcFails (''marshal result: '' @ err), w)
      | Inr s \<Rightarrow> (OrcReturns AnyNil, w))"

definition StoreExecution :: "'w orc_env \<Rightarrow> PostgresConfig \<Rightarrow> 'w backend" where
  "StoreExecution env cfg event w = (if oc_ConnString cfg = [] then (OrcReturns AnyNil, w) else pg_store env event w)"

record ChromaConfig =
  oc_BaseURL :: string
  oc_Collection :: string

text \<open>The document of an event, a struct with its fields in order and a map with its keys sorted.\<close>

definition chroma_doc :: "'w orc_env \<Rightarrow> OrchestratorEvent \<Rightarrow> string" where
  "chroma_doc env event =
     object_json
       [(''id'', json_string (ov_TraceID event)),
        (''metadata'', object_json
           [(''operation'', json_string (ee_Operation (ov_Execution event))), (''server'', json_string (ee_Server (ov_Execution event))),
            (''session_id'', json_string (ec_SessionID (ov_Context event))), (''tenant_id'', json_string (ec_TenantID (ov_Context event)))]),
        (''document'', json_string (marshal_or_empty env (ee_Result (ov_Execution event))))]"

definition orc_chroma_store :: "'w orc_env \<Rightarrow> ChromaConfig \<Rightarrow> 'w backend" where
  "orc_chroma_store env cfg event w =
     (let collection = (if oc_Collection cfg = [] then ''mcp_execution_memory'' else oc_Collection cfg);
          payload = object_json [(''documents'', ''['' @ chroma_doc env event @ '']'')];
          url = oc_BaseURL cfg @ ''/api/v1/collections/'' @ collection @ ''/add'';
          (resp, w1) = oe_Post env url ''application/json'' payload w
      in case resp of
           Inl err \<Rightarrow> (OrcFails (''chroma api error: '' @ err), w1)
         | Inr st \<Rightarrow> (if st \<ge> 300 then OrcFails (''chroma api returned '' @ int_digits st) else OrcReturns AnyNil, w1))"

definition StoreMemory :: "'w orc_env \<Rightarrow> ChromaConfig \<Rightarrow> 'w backend" where
  "StoreMemory env cfg event w = (if oc_BaseURL cfg = [] then (OrcReturns AnyNil, w) else orc_chroma_store env cfg event w)"

text \<open>The input of a script is the event; an error of its encoding leaves it empty.\<close>

definition event_json :: "'w orc_env \<Rightarrow> OrchestratorEvent \<Rightarrow> string" where
  "event_json env event =
     (case oe_Marshal env (ee_Result (ov_Execution event)) of
        Inl err \<Rightarrow> []
      | Inr r \<Rightarrow>
          object_json
            [(''trace_id'', json_string (ov_TraceID event)), (''source'', json_string (ov_Source event)),
             (''event_type'', json_string (ov_EventType event)),
             (''execution'', object_json
                [(''server'', json_string (ee_Server (ov_Execution event))), (''operation'', json_string (ee_Operation (ov_Execution event))),
                 (''result'', r)]),
             (''context'', object_json
                [(''session_id'', json_string (ec_SessionID (ov_Context event))), (''tenant_id'', json_string (ec_TenantID (ov_Context event)))])])"

definition callScript :: "string \<Rightarrow> 'w orc_env \<Rightarrow> string \<Rightarrow> 'w backend" where
  "callScript who env script event w =
     (case oe_Python env script (event_json env event) w of
        (None, w1) \<Rightarrow> (OrcHangs, w1)
      | (Some (Inl err), w1) \<Rightarrow> (OrcFails (who @ '' script failed: '' @ err), w1)
      | (Some (Inr outp), w1) \<Rightarrow>
          (case oe_Unmarshal env outp of
             Inl err \<Rightarrow> (OrcFails (who @ '' script output parse failed: '' @ err), w1)
           | Inr v \<Rightarrow> (OrcReturns v, w1)))"

definition em_dash :: string where "em_dash = [CHR 0xE2, CHR 0x80, CHR 0x94]"

record LangGraphConfig =
  lg_ScriptPath :: string
  lg_APIURL :: string

definition lg_simulate :: "'w backend" where
  "lg_simulate event w =
     (OrcReturns (AnyMap [(''trace_id'', AnyString (ov_TraceID event)),
        (''workflow'', AnyString (ee_Server (ov_Execution event) @ ''.'' @ ee_Operation (ov_Execution event))),
        (''steps'', AnyNumber 2), (''status'', AnyString ''simulated''),
        (''message'', AnyString (''LangGraph workflow completed (simulated '' @ em_dash @ '' no script configured)''))]), w)"

definition lg_callAPI :: "'w backend" where
  "lg_callAPI event w =
     (OrcReturns (AnyMap [(''trace_id'', AnyString (ov_TraceID event)), (''status'', AnyString ''accepted''), (''via'', AnyString ''api'')]), w)"

definition LangGraph_Execute :: "'w orc_env \<Rightarrow> LangGraphConfig \<Rightarrow> 'w backend" where
  "LangGraph_Execute env cfg event w =
     (if lg_ScriptPath cfg = [] \<and> lg_APIURL cfg = [] then lg_simulate event w
      else if lg_APIURL cfg \<noteq> [] then lg_callAPI event w
      else callScript ''langgraph'' env (lg_ScriptPath cfg) event w)"

record CrewAIConfig =
  ca_ScriptPath :: string
  ca_APIURL :: string

definition crew_simulate :: "'w backend" where
  "crew_simulate event w =
     (let agents = (if ee_Server (ov_Execution event) = ''context7'' then [''context_loader'', ''resolver''] else [''researcher'', ''writer'', ''reviewer''])
      in (OrcReturns (AnyMap [(''trace_id'', AnyString (ov_TraceID event)),
            (''task'', AnyString (ee_Server (ov_Execution event) @ ''.'' @ ee_Operation (ov_Execution event))),
            (''agents'', AnyList (map AnyString agents)), (''status'', AnyString ''simulated''),
            (''message'', AnyString (''CrewAI execution completed (simulated '' @ em_dash @ '' no script configured)''))]), w))"

definition crew_callAPI :: "'w backend" where
  "crew_callAPI event w =
     (OrcReturns (AnyMap [(''trace_id'', AnyString (ov_TraceID event)), (''status'', AnyString ''dispatched''), (''via'', AnyString ''api'')]), w)"

definition CrewAI_Execute :: "'w orc_env \<Rightarrow> CrewAIConfig \<Rightarrow> 'w backend" where
  "CrewAI_Execute env cfg event w =
     (if ca_ScriptPath cfg = [] \<and> ca_APIURL cfg = [] then crew_simulate event w
      else if ca_APIURL cfg \<noteq> [] then crew_callAPI event w
      else callScript ''crewai'' env (ca_ScriptPath cfg) event w)"

subsection \<open>The orchestrator\<close>

text \<open>Its parts are interfaces: \<open>None\<close> is a nil one.\<close>

record 'w Orchestrator =
  og_decider :: "(OrchestratorEvent \<Rightarrow> RoutingDecision) option"
  og_postgres :: "'w backend option"
  og_chroma :: "'w backend option"
  og_langGraph :: "'w backend option"
  og_crewAI :: "'w backend option"

datatype 'w OrchestratorOption =
  WithDecider "(OrchestratorEvent \<Rightarrow> RoutingDecision) option" | WithPostgres "'w backend option" | WithChroma "'w backend option"
| WithLangGraph "'w backend option" | WithCrewAI "'w backend option"

fun apply_option :: "'w OrchestratorOption \<Rightarrow> 'w Orchestrator \<Rightarrow> 'w Orchestrator" where
  "apply_option (WithDecider d) og = og\<lparr>og_decider := d\<rparr>"
| "apply_option (WithPostgres b) og = og\<lparr>og_postgres := b\<rparr>"
| "apply_option (WithChroma b) og = og\<lparr>og_chroma := b\<rparr>"
| "apply_option (WithLangGraph b) og = og\<lparr>og_langGraph := b\<rparr>"
| "apply_option (WithCrewAI b) og = og\<lparr>og_crewAI := b\<rparr>"

definition NewOrchestrator :: "'w orc_env \<Rightarrow> 'w OrchestratorOption list \<Rightarrow> 'w Orchestrator" where
  "NewOrchestrator env opts =
     fold apply_option opts
       \<lparr>og_decider = Some Decide,
        og_postgres = Some (StoreExecution env \<lparr>oc_ConnString = [], oc_TableName = []\<rparr>),
        og_chroma = Some (StoreMemory env \<lparr>oc_BaseURL = [], oc_Collection = []\<rparr>),
        og_langGraph = Some (LangGraph_Execute env \<lparr>lg_ScriptPath = [], lg_APIURL = []\<rparr>),
        og_crewAI = Some (CrewAI_Execute env \<lparr>ca_ScriptPath = [], ca_APIURL = []\<rparr>)\<rparr>"

datatype orc_system = SysPostgres | SysChroma | SysLangGraph | SysCrewAI

definition system_name :: "orc_system \<Rightarrow> string" where
  "system_name s =
     (case s of SysPostgres \<Rightarrow> ''postgres'' | SysChroma \<Rightarrow> ''chroma'' | SysLangGraph \<Rightarrow> ''langgraph'' | SysCrewAI \<Rightarrow> ''crewai'')"

definition system_backend :: "'w Orchestrator \<Rightarrow> orc_system \<Rightarrow> 'w backend option" where
  "system_backend og s =
     (case s of SysPostgres \<Rightarrow> og_postgres og | SysChroma \<Rightarrow> og_chroma og | SysLangGraph \<Rightarrow> og_langGraph og | SysCrewAI \<Rightarrow> og_crewAI og)"

definition system_call :: "'w Orchestrator \<Rightarrow> orc_system \<Rightarrow> 'w backend" where
  "system_call og s event w = (case system_backend og s of None \<Rightarrow> (OrcPanics, w) | Some b \<Rightarrow> b event w)"

definition decided :: "RoutingDecision \<Rightarrow> orc_system list" where
  "decided d =
     (if rd_Postgres d then [SysPostgres] else []) @ (if rd_ChromaDB d then [SysChroma] else []) @
     (if rd_LangGraph d then [SysLangGraph] else []) @ (if rd_CrewAI d then [SysCrewAI] else [])"

text \<open>A goroutine calls its system, recovering from a panic, and then records a call that returned. It stays at a call that
  hangs.\<close>

datatype orc_phase = OrcSpawned | OrcCalled orc_result | OrcDone orc_result

record 'w orc_state =
  os_World :: 'w
  os_Phase :: "(orc_system, orc_phase) gomap"
  os_Triggered :: "string list"

definition orc_init :: "RoutingDecision \<Rightarrow> 'w \<Rightarrow> 'w orc_state" where
  "orc_init d w = \<lparr>os_World = w, os_Phase = map (\<lambda>s. (s, OrcSpawned)) (decided d), os_Triggered = []\<rparr>"

definition orc_act :: "'w Orchestrator \<Rightarrow> OrchestratorEvent \<Rightarrow> orc_system \<Rightarrow> 'w orc_state \<Rightarrow> 'w orc_state option" where
  "orc_act og event s st =
     (case gm_get (os_Phase st) s of
        Some OrcSpawned \<Rightarrow>
          let (r, w) = system_call og s event (os_World st)
          in Some (st\<lparr>os_World := w, os_Phase := gm_put s (OrcCalled r) (os_Phase st)\<rparr>)
      | Some (OrcCalled OrcHangs) \<Rightarrow> None
      | Some (OrcCalled r) \<Rightarrow>
          Some (st\<lparr>os_Phase := gm_put s (OrcDone r) (os_Phase st),
                   os_Triggered := (case r of OrcReturns v \<Rightarrow> List.insert (system_name s) (os_Triggered st) | _ \<Rightarrow> os_Triggered st)\<rparr>)
      | _ \<Rightarrow> None)"

fun orc_run :: "'w Orchestrator \<Rightarrow> OrchestratorEvent \<Rightarrow> orc_system list \<Rightarrow> 'w orc_state \<Rightarrow> 'w orc_state option" where
  "orc_run og event [] st = Some st"
| "orc_run og event (s # ss) st = (case orc_act og event s st of None \<Rightarrow> None | Some st' \<Rightarrow> orc_run og event ss st')"

text \<open>The calls of a run, in their order, with what they came to.\<close>

fun orc_calls :: "'w Orchestrator \<Rightarrow> OrchestratorEvent \<Rightarrow> orc_system list \<Rightarrow> 'w orc_state \<Rightarrow> (orc_system \<times> orc_result) list" where
  "orc_calls og event [] st = []"
| "orc_calls og event (s # ss) st =
     (case orc_act og event s st of
        None \<Rightarrow> []
      | Some st' \<Rightarrow>
          (if gm_get (os_Phase st) s = Some OrcSpawned then [(s, fst (system_call og s event (os_World st)))] else []) @
          orc_calls og event ss st')"

fun orc_done :: "orc_phase \<Rightarrow> bool" where
  "orc_done (OrcDone r) = True"
| "orc_done _ = False"

definition orc_waited :: "'w orc_state \<Rightarrow> bool" where "orc_waited st = list_all (orc_done \<circ> snd) (os_Phase st)"

text \<open>
  \<open>Process\<close> under a schedule. \<open>None\<close> is a schedule that is not one, or that stops before the wait for the goroutines ends;
  a nil decider is the panic \<open>Inl\<close>. The response lists the triggered systems in the order of a range over a map, an argument.
\<close>

definition orc_Process ::
    "'w Orchestrator \<Rightarrow> OrchestratorEvent \<Rightarrow> orc_system list \<Rightarrow> (string list \<Rightarrow> string list) \<Rightarrow> 'w \<Rightarrow> (unit + OrchestratorResponse \<times> 'w) option" where
  "orc_Process og event sched rg w =
     (case og_decider og of
        None \<Rightarrow> Some (Inl ())
      | Some dec \<Rightarrow>
          (case orc_run og event sched (orc_init (dec event) w) of
             None \<Rightarrow> None
           | Some st \<Rightarrow>
               if orc_waited st
               then Some (Inr (\<lparr>or_TraceID = ov_TraceID event, or_Status = ''completed'', or_SystemsTriggered = rg (os_Triggered st),
                                or_Result = ee_Result (ov_Execution event)\<rparr>, os_World st))
               else None))"

subsection \<open>What it promises\<close>

text \<open>What needs a service is only logged: executions are never stored, and no API is called.\<close>

lemma postgres_stores_nothing: "snd (StoreExecution env cfg event w) = w"
  by (simp add: StoreExecution_def pg_store_def split: sum.split)

lemma api_calls_nothing: "lg_APIURL cfg \<noteq> [] \<Longrightarrow> snd (LangGraph_Execute env cfg event w) = w"
  by (simp add: LangGraph_Execute_def lg_callAPI_def)

lemma inj_system_name: "system_name s = system_name t \<longleftrightarrow> s = t"
  by (cases s; cases t) (simp_all add: system_name_def)

lemma distinct_decided: "distinct (decided d)"
  by (simp add: decided_def)

fun orc_left :: "orc_phase \<Rightarrow> nat" where
  "orc_left OrcSpawned = 2"
| "orc_left (OrcCalled r) = 1"
| "orc_left (OrcDone r) = 0"

definition orc_pending :: "'w orc_state \<Rightarrow> nat" where "orc_pending st = sum_list (map (orc_left \<circ> snd) (os_Phase st))"

lemma orc_waited_iff: "orc_waited st \<longleftrightarrow> orc_pending st = 0"
proof -
  have "orc_done p \<longleftrightarrow> orc_left p = 0" for p by (cases p) simp_all
  then show ?thesis by (auto simp: orc_waited_def orc_pending_def list_all_iff)
qed

lemma sum_left_put:
  "gm_get m k = Some p \<Longrightarrow> sum_list (map (orc_left \<circ> snd) (gm_put k q m)) + orc_left p = sum_list (map (orc_left \<circ> snd) m) + orc_left q"
  by (induction m) (auto simp: gm_get_def gm_put_def split: if_splits)

lemma orc_actE:
  assumes "orc_act og event s st = Some st'"
  obtains (call) r w where "gm_get (os_Phase st) s = Some OrcSpawned" "system_call og s event (os_World st) = (r, w)"
      "st' = st\<lparr>os_World := w, os_Phase := gm_put s (OrcCalled r) (os_Phase st)\<rparr>"
  | (noted) r where "gm_get (os_Phase st) s = Some (OrcCalled r)" "r \<noteq> OrcHangs"
      "st' = st\<lparr>os_Phase := gm_put s (OrcDone r) (os_Phase st),
        os_Triggered := (case r of OrcReturns v \<Rightarrow> List.insert (system_name s) (os_Triggered st) | _ \<Rightarrow> os_Triggered st)\<rparr>"
  using assms by (auto simp: orc_act_def Let_def split: option.splits orc_phase.splits orc_result.splits prod.splits)

lemma orc_act_pending:
  assumes "orc_act og event s st = Some st'"
  shows "orc_pending st = orc_pending st' + 1"
  using assms
proof (cases rule: orc_actE)
  case (call r w)
  then show ?thesis using sum_left_put [OF call(1), of "OrcCalled r"] by (simp add: orc_pending_def)
next
  case (noted r)
  then show ?thesis using sum_left_put [OF noted(1), of "OrcDone r"] by (simp add: orc_pending_def)
qed

lemma orc_act_wf: "orc_act og event s st = Some st' \<Longrightarrow> gm_wf (os_Phase st) \<Longrightarrow> gm_wf (os_Phase st')"
  by (erule orc_actE) auto

lemma orc_run_pending: "orc_run og event sched st = Some st' \<Longrightarrow> orc_pending st = orc_pending st' + length sched"
  by (induction sched arbitrary: st) (auto dest: orc_act_pending split: option.splits)

text \<open>A goroutine that is neither done nor hangs can go on, whatever the others did.\<close>

fun settled :: "orc_phase \<Rightarrow> bool" where
  "settled (OrcDone r) = True"
| "settled (OrcCalled OrcHangs) = True"
| "settled _ = False"

lemma orc_act_possible:
  assumes "gm_get (os_Phase st) s = Some p" "\<not> settled p"
  shows "\<exists>st'. orc_act og event s st = Some st'"
proof (cases p)
  case (OrcCalled r)
  then show ?thesis using assms by (cases r) (simp_all add: orc_act_def)
qed (use assms in \<open>simp_all add: orc_act_def split: prod.split\<close>)

lemma orc_run_append: "orc_run og event (a @ b) st = (case orc_run og event a st of None \<Rightarrow> None | Some st' \<Rightarrow> orc_run og event b st')"
  by (induction a arbitrary: st) (simp_all split: option.split)

lemma orc_run_wf: "orc_run og event sched st = Some st' \<Longrightarrow> gm_wf (os_Phase st) \<Longrightarrow> gm_wf (os_Phase st')"
  by (induction sched arbitrary: st) (auto dest: orc_act_wf split: option.splits)

lemma orc_run_settles:
  "gm_wf (os_Phase st) \<Longrightarrow> \<exists>more st'. orc_run og event more st = Some st' \<and> list_all (settled \<circ> snd) (os_Phase st')"
proof (induction "orc_pending st" arbitrary: st rule: less_induct)
  case less
  show ?case
  proof (cases "list_all (settled \<circ> snd) (os_Phase st)")
    case True
    then have "orc_run og event [] st = Some st \<and> list_all (settled \<circ> snd) (os_Phase st)" by simp
    then show ?thesis by blast
  next
    case False
    then obtain s p where "(s, p) \<in> set (os_Phase st)" "\<not> settled p" by (auto simp: list_all_iff)
    then obtain st1 where s: "orc_act og event s st = Some st1"
      using orc_act_possible [of st s p og event] less.prems by (auto simp: gm_wf_mem_get)
    have wf: "gm_wf (os_Phase st1)" using orc_act_wf [OF s] less.prems by simp
    then obtain more st' where "orc_run og event more st1 = Some st'" "list_all (settled \<circ> snd) (os_Phase st')"
      using less.hyps [of st1] orc_act_pending [OF s] by auto
    moreover from this have "orc_run og event (s # more) st = Some st'" using s by simp
    ultimately show ?thesis by blast
  qed
qed

text \<open>Every system has been called once or waits for it, and who is recorded is who returned.\<close>

definition orc_inv :: "(orc_system \<times> orc_result) list \<Rightarrow> orc_system list \<Rightarrow> 'w orc_state \<Rightarrow> bool" where
  "orc_inv calls ss st \<longleftrightarrow> gm_keys (os_Phase st) = ss \<and> distinct (os_Triggered st) \<and> distinct (map fst calls) \<and>
     set (os_Triggered st) \<subseteq> range system_name \<and>
     (\<forall>s. system_name s \<in> set (os_Triggered st) \<longleftrightarrow> (\<exists>v. gm_get (os_Phase st) s = Some (OrcDone (OrcReturns v)))) \<and>
     (\<forall>s r. (s, r) \<in> set calls \<longleftrightarrow> gm_get (os_Phase st) s = Some (OrcCalled r) \<or> gm_get (os_Phase st) s = Some (OrcDone r)) \<and>
     (\<forall>s. gm_get (os_Phase st) s \<noteq> Some (OrcDone OrcHangs))"

lemma orc_act_inv:
  assumes i: "orc_inv calls ss st" and a: "orc_act og event s st = Some st'"
  shows "orc_inv (calls @ (if gm_get (os_Phase st) s = Some OrcSpawned then [(s, fst (system_call og s event (os_World st)))] else [])) ss st'"
  using a
proof (cases rule: orc_actE)
  case (call r w)
  have k: "s \<in> set (gm_keys (os_Phase st))" using call(1) gm_get_None_iff [of "os_Phase st" s] by auto
  have n: "system_name s \<notin> set (os_Triggered st)" using i call(1) by (simp add: orc_inv_def)
  have "s \<notin> fst ` set calls" using i call(1) by (auto simp: orc_inv_def)
  then show ?thesis using i k n call by (auto simp: orc_inv_def)
next
  case (noted r)
  have k: "s \<in> set (gm_keys (os_Phase st))" using noted(1) gm_get_None_iff [of "os_Phase st" s] by auto
  have n: "system_name s \<notin> set (os_Triggered st)" using i noted(1) by (simp add: orc_inv_def)
  show ?thesis using i k n noted by (cases r) (auto simp: orc_inv_def inj_system_name)
qed

lemma orc_run_inv:
  "orc_inv calls ss st \<Longrightarrow> orc_run og event sched st = Some st' \<Longrightarrow> orc_inv (calls @ orc_calls og event sched st) ss st'"
proof (induction sched arbitrary: calls st)
  case (Cons s sched)
  then obtain st1 where s: "orc_act og event s st = Some st1" by (auto split: option.splits)
  from Cons.IH [OF orc_act_inv [OF Cons.prems(1) s]] Cons.prems(2) show ?case by (simp add: s)
qed simp

lemma orc_calls_from: "(s, r) \<in> set (orc_calls og event sched st) \<Longrightarrow> \<exists>w. r = fst (system_call og s event w)"
  by (induction sched arbitrary: st) (auto split: option.splits if_splits)

lemma orc_init_start:
  "orc_inv [] (decided d) (orc_init d w)" "orc_pending (orc_init d w) = 2 * length (decided d)" "gm_wf (os_Phase (orc_init d w))"
proof -
  have k: "gm_keys (map (\<lambda>s. (s, OrcSpawned)) ss) = ss" for ss :: "orc_system list" by (simp add: gm_keys_def comp_def)
  have g: "gm_get (map (\<lambda>s. (s, OrcSpawned)) ss) s = (if s \<in> set ss then Some OrcSpawned else None)" for ss s
    by (induction ss) (auto simp: gm_get_def)
  show "orc_inv [] (decided d) (orc_init d w)" by (simp add: orc_inv_def orc_init_def k g)
  show "gm_wf (os_Phase (orc_init d w))" using k distinct_decided by (simp add: orc_init_def gm_wf_def)
  show "orc_pending (orc_init d w) = 2 * length (decided d)"
    by (simp add: orc_pending_def orc_init_def comp_def sum_list_triv)
qed

text \<open>At the end each decided system has been called, and those that returned are recorded.\<close>

lemma orc_inv_end:
  assumes i: "orc_inv calls ss st" and p: "list_all (settled \<circ> snd) (os_Phase st)" and wf: "gm_wf (os_Phase st)"
  shows "set (map fst calls) = set ss" and "set (os_Triggered st) = system_name ` {s. \<exists>v. (s, OrcReturns v) \<in> set calls}"
    and "(\<forall>s. (s, OrcHangs) \<notin> set calls) \<Longrightarrow> orc_waited st"
proof -
  have set: "settled q" if "gm_get (os_Phase st) s = Some q" for s q
    using p that by (force simp: list_all_iff gm_get_def dest: map_of_SomeD)
  have keys: "s \<in> set ss \<longleftrightarrow> gm_get (os_Phase st) s \<noteq> None" for s using i gm_get_None_iff [of "os_Phase st" s] by (simp add: orc_inv_def)
  have calls: "(s, r) \<in> set calls \<longleftrightarrow> gm_get (os_Phase st) s = Some (OrcCalled r) \<or> gm_get (os_Phase st) s = Some (OrcDone r)" for s r
    using i by (simp add: orc_inv_def)
  have "s \<in> set (map fst calls) \<longleftrightarrow> s \<in> set ss" for s
  proof (cases "gm_get (os_Phase st) s")
    case (Some q)
    then show ?thesis using set [OF Some] keys [of s] calls [of s] by (cases q) (force simp: image_iff)+
  qed (use keys [of s] calls [of s] in force)
  then show "set (map fst calls) = set ss" by blast
  have "(s, OrcReturns v) \<in> set calls \<longleftrightarrow> gm_get (os_Phase st) s = Some (OrcDone (OrcReturns v))" for s v
    using calls [of s "OrcReturns v"] set [of s "OrcCalled (OrcReturns v)"] by auto
  then have "system_name s \<in> set (os_Triggered st) \<longleftrightarrow> (\<exists>v. (s, OrcReturns v) \<in> set calls)" for s using i by (simp add: orc_inv_def)
  moreover have "set (os_Triggered st) \<subseteq> range system_name" using i by (simp add: orc_inv_def)
  ultimately show "set (os_Triggered st) = system_name ` {s. \<exists>v. (s, OrcReturns v) \<in> set calls}" by (auto simp: inj_system_name)
  assume h: "\<forall>s. (s, OrcHangs) \<notin> set calls"
  have "orc_done q" if "(s, q) \<in> set (os_Phase st)" for s q
  proof (cases q)
    case (OrcCalled r)
    then have "gm_get (os_Phase st) s = Some (OrcCalled r)" using that wf by (simp add: gm_wf_mem_get)
    then show ?thesis using set [of s q] OrcCalled calls [of s r] h by (cases r) auto
  qed (use that p in \<open>auto simp: list_all_iff\<close>)
  then show "orc_waited st" by (auto simp: orc_waited_def list_all_iff)
qed

text \<open>A call that hangs stays at it.\<close>

lemma hung_stays:
  "orc_run og event sched st = Some st' \<Longrightarrow> gm_get (os_Phase st) s = Some (OrcCalled OrcHangs) \<Longrightarrow> gm_get (os_Phase st') s = Some (OrcCalled OrcHangs)"
proof (induction sched arbitrary: st)
  case (Cons t sched)
  then obtain st1 where t: "orc_act og event t st = Some st1" by (auto split: option.splits)
  then have "gm_get (os_Phase st1) s = Some (OrcCalled OrcHangs)"
    by (rule orc_actE) (use Cons.prems(2) in auto)
  then show ?case using Cons t by simp
qed simp

lemma hung_not_waited: "gm_get (os_Phase st) s = Some (OrcCalled OrcHangs) \<Longrightarrow> \<not> orc_waited st"
  by (force simp: orc_waited_def list_all_iff gm_get_def dest: map_of_SomeD)

text \<open>C37:
  One system cannot disturb another. From whatever point the goroutines have reached, in any order of their steps, there is
  a continuation in which each decided system has been called exactly once, with the world as the others left it, and the
  names recorded are those of the systems whose calls returned, whatever the calls of the others came to: an error, a
  panic, or no return at all. If every call returned, failed or panicked, \<open>Process\<close> then answers, after two steps for each
  system: completed, with the trace identifier and the result of the event and with the recorded names. If a call hangs,
  as a script may that runs without a time limit, \<open>Process\<close> never answers.
\<close>
theorem orchestrator_isolates:
  assumes "og_decider og = Some dec" "\<And>xs. mset (rg xs) = mset xs"
    and "orc_run og event sched (orc_init (dec event) w) = Some st"
  shows "\<exists>more st' calls. orc_run og event (sched @ more) (orc_init (dec event) w) = Some st' \<and>
    calls = orc_calls og event (sched @ more) (orc_init (dec event) w) \<and>
    mset (map fst calls) = mset (decided (dec event)) \<and> (\<forall>(s, r) \<in> set calls. \<exists>v. r = fst (system_call og s event v)) \<and>
    set (os_Triggered st') = system_name ` {s. \<exists>v. (s, OrcReturns v) \<in> set calls} \<and>
    (if \<exists>s. (s, OrcHangs) \<in> set calls then \<forall>later. orc_Process og event ((sched @ more) @ later) rg w = None
     else \<exists>resp. orc_Process og event (sched @ more) rg w = Some (Inr (resp, os_World st')) \<and>
       length (sched @ more) = 2 * length (decided (dec event)) \<and> or_TraceID resp = ov_TraceID event \<and> or_Status resp = ''completed'' \<and>
       or_Result resp = ee_Result (ov_Execution event) \<and> mset (or_SystemsTriggered resp) = mset (os_Triggered st') \<and>
       distinct (or_SystemsTriggered resp))"
proof -
  let ?d = "dec event" and ?init = "orc_init (dec event) w"
  note start = orc_init_start [where d = ?d and w = w]
  have wf: "gm_wf (os_Phase st)" by (rule orc_run_wf [OF assms(3) start(3)])
  obtain more st' where m: "orc_run og event more st = Some st'" "list_all (settled \<circ> snd) (os_Phase st')"
    using orc_run_settles [OF wf] by blast
  have r: "orc_run og event (sched @ more) ?init = Some st'" using assms(3) m(1) by (simp add: orc_run_append)
  define calls where "calls = orc_calls og event (sched @ more) ?init"
  have i: "orc_inv calls (decided ?d) st'" using orc_run_inv [OF start(1) r] by (simp add: calls_def)
  note e = orc_inv_end [OF i m(2) orc_run_wf [OF r start(3)]]
  have once: "mset (map fst calls) = mset (decided ?d)"
    using set_eq_iff_mset_eq_distinct e(1) i distinct_decided unfolding orc_inv_def by blast
  have hang: "orc_Process og event ((sched @ more) @ later) rg w = None" if "(s, OrcHangs) \<in> set calls" for s later
  proof (cases "orc_run og event later st'")
    case None
    then show ?thesis using assms(1) r by (simp add: orc_Process_def orc_run_append [of og event "sched @ more"] del: append_assoc)
  next
    case (Some st2)
    have "gm_get (os_Phase st') s = Some (OrcCalled OrcHangs)" using i that by (auto simp: orc_inv_def)
    then have "\<not> orc_waited st2" using hung_stays [OF Some] hung_not_waited by blast
    then show ?thesis using assms(1) r Some by (simp add: orc_Process_def orc_run_append [of og event "sched @ more"] del: append_assoc)
  qed
  have answer: "\<exists>resp. orc_Process og event (sched @ more) rg w = Some (Inr (resp, os_World st')) \<and>
       length (sched @ more) = 2 * length (decided ?d) \<and> or_TraceID resp = ov_TraceID event \<and> or_Status resp = ''completed'' \<and>
       or_Result resp = ee_Result (ov_Execution event) \<and> mset (or_SystemsTriggered resp) = mset (os_Triggered st') \<and>
       distinct (or_SystemsTriggered resp)" if no: "\<forall>s. (s, OrcHangs) \<notin> set calls"
  proof -
    have wt: "orc_waited st'" by (rule e(3) [OF no])
    then have "length (sched @ more) = 2 * length (decided ?d)" using orc_run_pending [OF r] start(2) by (simp add: orc_waited_iff)
    moreover have "distinct (rg (os_Triggered st'))" using i mset_eq_imp_distinct_iff [OF assms(2)] by (simp add: orc_inv_def)
    ultimately show ?thesis using assms(1,2) r wt by (simp add: orc_Process_def)
  qed
  show ?thesis
    using r once e(2) hang answer orc_calls_from [of _ _ og event "sched @ more" ?init]
    by (intro exI [of _ more] exI [of _ st'] exI [of _ calls]) (auto simp: calls_def)
qed

text \<open>An example: a commit, with a nil store of memories, which panics, and a Python that never ends.\<close>

definition quiet_env :: "unit orc_env" where
  "quiet_env = \<lparr>oe_Marshal = (\<lambda>_. Inr ''null''), oe_Unmarshal = (\<lambda>_. Inr AnyNil), oe_Post = (\<lambda>_ _ _ w. (Inr 200, w)),
     oe_Python = (\<lambda>_ _ w. (None, w))\<rparr>"

definition a_commit :: OrchestratorEvent where
  "a_commit = \<lparr>ov_TraceID = ''t1'', ov_Source = ''mcp'', ov_EventType = ''execution'',
     ov_Execution = \<lparr>ee_Server = ''git'', ee_Operation = ''commit'', ee_Result = AnyNil\<rparr>, ov_Context = \<lparr>ec_SessionID = ''s'', ec_TenantID = ''t''\<rparr>\<rparr>"

lemma orchestrator_isolates_witness:
  "\<exists>more resp w'. orc_Process (NewOrchestrator quiet_env [WithChroma None]) a_commit ([SysChroma, SysLangGraph] @ more) rev () = Some (Inr (resp, w')) \<and>
    length more = 4 \<and> set (or_SystemsTriggered resp) = {''postgres'', ''langgraph''}"
proof -
  let ?og = "NewOrchestrator quiet_env [WithChroma None]"
  let ?outs = "\<lambda>s. fst (system_call ?og s a_commit ())"
  have d: "og_decider ?og = Some Decide" by (simp add: NewOrchestrator_def)
  have ds: "decided (Decide a_commit) = [SysPostgres, SysChroma, SysLangGraph]"
    by (simp add: decided_def Decide_def a_commit_def multiStepOps_def agentOps_def)
  have o: "?outs SysPostgres = OrcReturns AnyNil" "?outs SysChroma = OrcPanics" "\<exists>v. ?outs SysLangGraph = OrcReturns v"
    by (simp_all add: system_call_def system_backend_def NewOrchestrator_def StoreExecution_def LangGraph_Execute_def lg_simulate_def)
  have "orc_run ?og a_commit [SysChroma, SysLangGraph] (orc_init (Decide a_commit) ()) \<noteq> None"
    by (simp add: orc_act_def orc_init_def ds gm_get_def gm_put_def split: prod.split)
  then obtain st where "orc_run ?og a_commit [SysChroma, SysLangGraph] (orc_init (Decide a_commit) ()) = Some st" by blast
  from orchestrator_isolates [OF d mset_rev this] show ?thesis
  proof (elim exE conjE)
    fix more st' calls
    assume r: "mset (map fst calls) = mset (decided (Decide a_commit))" "\<forall>(s, r) \<in> set calls. \<exists>v. r = fst (system_call ?og s a_commit v)"
        "set (os_Triggered st') = system_name ` {s. \<exists>v. (s, OrcReturns v) \<in> set calls}"
      and answer: "if \<exists>s. (s, OrcHangs) \<in> set calls then \<forall>later. orc_Process ?og a_commit (([SysChroma, SysLangGraph] @ more) @ later) rev () = None
       else \<exists>resp. orc_Process ?og a_commit ([SysChroma, SysLangGraph] @ more) rev () = Some (Inr (resp, os_World st')) \<and>
         length ([SysChroma, SysLangGraph] @ more) = 2 * length (decided (Decide a_commit)) \<and> or_TraceID resp = ov_TraceID a_commit \<and>
         or_Status resp = ''completed'' \<and> or_Result resp = ee_Result (ov_Execution a_commit) \<and>
         mset (or_SystemsTriggered resp) = mset (os_Triggered st') \<and> distinct (or_SystemsTriggered resp)"
    have f: "fst ` set calls = {SysPostgres, SysChroma, SysLangGraph}" using mset_eq_setD [OF r(1)] unfolding ds by simp
    have s: "s \<in> {SysPostgres, SysChroma, SysLangGraph} \<longleftrightarrow> (\<exists>r. (s, r) \<in> set calls)" for s
      unfolding f [symmetric] by force
    have outs: "(s, r) \<in> set calls \<longleftrightarrow> s \<in> {SysPostgres, SysChroma, SysLangGraph} \<and> r = ?outs s" for s r
      using s [of s] r(2) by fastforce
    have "\<not> (\<exists>s. (s, OrcHangs) \<in> set calls)" using o unfolding outs by auto
    then obtain resp where resp: "orc_Process ?og a_commit ([SysChroma, SysLangGraph] @ more) rev () = Some (Inr (resp, os_World st'))"
        "length more = 4" "mset (or_SystemsTriggered resp) = mset (os_Triggered st')"
      using answer ds by auto
    have "{s. \<exists>v. (s, OrcReturns v) \<in> set calls} = {SysPostgres, SysLangGraph}" using o unfolding outs by auto
    then have "set (os_Triggered st') = {''postgres'', ''langgraph''}" using r(3) by (simp add: system_name_def)
    then show ?thesis using resp mset_eq_setD [OF resp(3)] by blast
  qed
qed

text \<open>A script that never ends blocks \<open>Process\<close>, though the other systems are done.\<close>

lemma script_blocks:
  "orc_Process (NewOrchestrator quiet_env [WithLangGraph (Some (LangGraph_Execute quiet_env \<lparr>lg_ScriptPath = ''flow.py'', lg_APIURL = []\<rparr>))]) a_commit
     ([SysLangGraph, SysPostgres, SysChroma, SysPostgres, SysChroma] @ later) rev () = None"
proof -
  let ?og = "NewOrchestrator quiet_env [WithLangGraph (Some (LangGraph_Execute quiet_env \<lparr>lg_ScriptPath = ''flow.py'', lg_APIURL = []\<rparr>))]"
  let ?sched = "[SysLangGraph, SysPostgres, SysChroma, SysPostgres, SysChroma]"
  have ds: "decided (Decide a_commit) = [SysPostgres, SysChroma, SysLangGraph]"
    by (simp add: decided_def Decide_def a_commit_def multiStepOps_def agentOps_def)
  have c: "system_call ?og SysPostgres a_commit () = (OrcReturns AnyNil, ())" "system_call ?og SysChroma a_commit () = (OrcReturns AnyNil, ())"
      "system_call ?og SysLangGraph a_commit () = (OrcHangs, ())"
    by (simp_all add: system_call_def system_backend_def NewOrchestrator_def StoreExecution_def StoreMemory_def LangGraph_Execute_def callScript_def
        quiet_env_def)
  have "\<exists>st. orc_run ?og a_commit ?sched (orc_init (Decide a_commit) ()) = Some st \<and> gm_get (os_Phase st) SysLangGraph = Some (OrcCalled OrcHangs)"
    by (simp add: orc_act_def orc_init_def ds c gm_get_def gm_put_def)
  then obtain st where st: "orc_run ?og a_commit ?sched (orc_init (Decide a_commit) ()) = Some st"
      "gm_get (os_Phase st) SysLangGraph = Some (OrcCalled OrcHangs)" by blast
  have "og_decider ?og = Some Decide" by (simp add: NewOrchestrator_def)
  moreover have "\<not> orc_waited st2" if "orc_run ?og a_commit later st = Some st2" for st2
    using hung_stays [OF that st(2)] by (rule hung_not_waited)
  ultimately show ?thesis using st(1)
    by (cases "orc_run ?og a_commit later st")
       (simp_all add: orc_Process_def orc_run_append [of ?og a_commit ?sched] del: append.simps orc_run.simps)
qed

end
