(* ===== verification/V2_Gateway.thy ===== *)
theory V2_Gateway
  imports V2_Servers Run_Observability
begin

text \<open>
  The second gateway, \<open>gateway.go\<close> with \<open>governance.go\<close>: the scores, the choice of a server and \<open>Process\<close> with its
  deferred part. The engines of a gateway are never nil. The audit lines and the two global counters that \<open>Process\<close> writes
  are fields of the gateway; \<open>Listen\<close>, which decodes standard input, and the other log lines are left out.
\<close>

subsection \<open>State\<close>

record AuditRecord =
  au_Timestamp :: int
  au_RequestID :: string
  au_TraceID :: string
  au_Action :: string
  au_Server :: string
  au_Status :: string
  au_DurationMs :: int
  au_KnowledgeCount :: nat
  au_ExecutionAllowed :: bool
  au_BlockReason :: string

record 'w Gateway2 =
  g2_router :: V2Router
  g2_servers :: "(string, 'w V2Server) gomap"
  g2_learning :: LearningEngine
  g2_exploration :: ExplorationState
  g2_stability :: StabilityEngine
  g2_enforcement :: EnforcementEngine
  g2_policyIntel :: PolicyIntelligenceEngine
  g2_rateLimiter :: TokenBucket
  g2_audit :: "AuditRecord list"
  g2_panics :: nat
  g2_rateLimited :: nat

definition registerDefaults :: "'w v2sys \<Rightarrow> 'w Gateway2 \<Rightarrow> 'w \<Rightarrow> 'w Gateway2 \<times> 'w" where
  "registerDefaults os g w =
     (let (mem, w1) = NewMemoryServer os [] w; (c7, w2) = NewContext7Server os w1; chroma = ChromaServer (NewChromaAdapter os)
      in (g\<lparr>g2_servers := fold (\<lambda>(n, s) m. gm_put n s m)
            [(''git'', GitServer), (''filesystem'', FilesystemServer), (''memory'', MemoryServer mem), (''github'', GitHubServer),
             (''fetch'', FetchServer), (''context7'', Context7Server c7), (''postgres'', PostgresAdapter []),
             (''chroma'', chroma), (''chromadb'', chroma)] (g2_servers g)\<rparr>, w2))"

definition NewGateway :: "'w v2sys \<Rightarrow> 'w \<Rightarrow> 'w Gateway2 \<times> 'w" where
  "NewGateway os w =
     (let (now, w1) = v2_Now os w
      in registerDefaults os
           \<lparr>g2_router = NewRouter, g2_servers = [], g2_learning = NewLearningEngine,
            g2_exploration = NewExplorationState (10 / 100), g2_stability = NewStabilityEngine (2 / 100) 20,
            g2_enforcement = NewEnforcementEngine, g2_policyIntel = NewPolicyIntelligenceEngine,
            g2_rateLimiter = NewTokenBucket 10000 5000 now, g2_audit = [], g2_panics = 0, g2_rateLimited = 0\<rparr> w1)"

definition RegisterServer :: "'w V2Server \<Rightarrow> 'w Gateway2 \<Rightarrow> 'w Gateway2" where
  "RegisterServer s g = g\<lparr>g2_servers := gm_put (v2_Name s) s (g2_servers g)\<rparr>"

subsection \<open>Scores\<close>

definition flattenKnowledge :: "(rat \<Rightarrow> string) \<Rightarrow> KnowledgeDoc list \<Rightarrow> string" where
  "flattenKnowledge fmt knowledge = join_with '' '' (map (\<lambda>d. any_json fmt (kd_Results d)) knowledge)"

definition server_words :: "Capability \<Rightarrow> string list" where
  "server_words cap = str_fields (to_lower (cap_Server cap @ '' '' @ join_with '' '' (cap_Capabilities cap)))"

definition scoreCapability :: "(rat \<Rightarrow> string) \<Rightarrow> string \<Rightarrow> Capability \<Rightarrow> KnowledgeDoc list \<Rightarrow> ServerWeights \<Rightarrow> real" where
  "scoreCapability fmt operation cap knowledge wt =
     (let fit = (if operation \<in> set (cap_Capabilities cap) then sw_CapabilityFit wt else 0) in
      if length knowledge > 0 then
        let kText = to_lower (flattenKnowledge fmt knowledge);
            serverWords = server_words cap;
            matches = length (filter (\<lambda>v. length v > 2 \<and> str_contains kText v) serverWords);
            s1 = (if length serverWords > 0 then fit + real matches / real (length serverWords) * sw_KeywordMatch wt else fit);
            mentionCount = length (filter (\<lambda>d. str_contains (to_lower (any_text fmt (kd_Results d))) (to_lower (cap_Server cap))) knowledge)
        in s1 + real mentionCount / real (length knowledge) * sw_History wt
      else fit)"

definition routing_score :: "(rat \<Rightarrow> string) \<Rightarrow> 'w Gateway2 \<Rightarrow> string \<Rightarrow> KnowledgeDoc list \<Rightarrow> Capability \<Rightarrow> real" where
  "routing_score fmt g operation knowledge cap =
     (let server = cap_Server cap;
          s = scoreCapability fmt operation cap knowledge (WeightsFor (g2_learning g) server);
          effRate = EffectiveRate (g2_stability g) server (es_ExplorationRate (g2_exploration g));
          s = AdjustScoreWithRate (g2_exploration g) server s effRate
      in se_AdjustScore (g2_stability g) server operation s)"

text \<open>By falling score, then by position; on no candidates \<open>scored[0]\<close> panics (\<open>None\<close>).\<close>

definition selectBestServer ::
    "(rat \<Rightarrow> string) \<Rightarrow> 'w Gateway2 \<Rightarrow> string \<Rightarrow> KnowledgeDoc list \<Rightarrow> Capability list \<Rightarrow> DecisionTrace \<Rightarrow> (Capability \<times> DecisionTrace) option" where
  "selectBestServer fmt g operation knowledge candidates tr =
     (let scored = sort_key (\<lambda>(c, s). - s) (map (\<lambda>c. (c, routing_score fmt g operation knowledge c)) candidates);
          scores = fold (\<lambda>(c, s) m. gm_put (cap_Server c) s m) scored []
      in case scored of
           [] \<Rightarrow> None
         | [(c, s)] \<Rightarrow> Some (c, tr\<lparr>dt_ServerScores := scores\<rparr>)
         | (c, s) # (c', s') # _ \<Rightarrow>
             Some (c, tr\<lparr>dt_ServerScores := scores, dt_SecondBest := cap_Server c', dt_ScoreDelta := s - s'\<rparr>))"

subsection \<open>A run of Process\<close>

text \<open>The local variables of \<open>Process\<close>.\<close>

record V2Run =
  run_req :: V2Request
  run_resp :: V2Response
  run_trace :: DecisionTrace
  run_server :: string
  run_op :: string
  run_allowed :: bool
  run_reason :: string

definition trace_step :: "string \<Rightarrow> string \<Rightarrow> (string \<times> step_value) list \<Rightarrow> V2Run \<Rightarrow> V2Run" where
  "trace_step stage output meta r =
     r\<lparr>run_trace := (run_trace r)\<lparr>dt_Steps := dt_Steps (run_trace r) @
        [\<lparr>ts_Stage = stage, ts_Input = [], ts_Output = output, ts_Meta = meta\<rparr>]\<rparr>\<rparr>"

abbreviation say :: "string \<Rightarrow> step_value" where "say s \<equiv> StepAny (AnyString s)"

definition errorResponse :: "string \<Rightarrow> string \<Rightarrow> bool \<Rightarrow> V2Run \<Rightarrow> V2Run" where
  "errorResponse code message recoverable r =
     r\<lparr>run_resp := (run_resp r)\<lparr>vs_Status := ''error'',
        vs_Error := \<lparr>ei_Code = code, ei_Message = message, ei_Recoverable = recoverable\<rparr>\<rparr>\<rparr>"

definition full_op :: "V2Request \<Rightarrow> string" where
  "full_op req = va_Type (vr_Action req) @ ''.'' @ va_Operation (vr_Action req)"

text \<open>Missing trace identifiers are drawn first.\<close>

definition trace_ids :: "'w v2sys \<Rightarrow> V2Request \<Rightarrow> 'w \<Rightarrow> V2Request \<times> 'w" where
  "trace_ids os req w =
     (let (t, w1) = (if vm_TraceID (vr_Meta req) = [] then (let (b, w') = v2_Rand os 16 w in (hexEncode b, w')) else (vm_TraceID (vr_Meta req), w));
          (s, w2) = (if vm_SpanID (vr_Meta req) = [] then (let (b, w') = v2_Rand os 8 w1 in (hexEncode b, w')) else (vm_SpanID (vr_Meta req), w1))
      in (req\<lparr>vr_Meta := (vr_Meta req)\<lparr>vm_TraceID := t, vm_SpanID := s\<rparr>\<rparr>, w2))"

definition init_run :: "V2Request \<Rightarrow> V2Run" where
  "init_run req =
     \<lparr>run_req = req,
      run_resp =
        \<lparr>vs_ID = vr_ID req, vs_RequestID = vr_ID req, vs_Status = ''success'', vs_Server = [], vs_Operation = full_op req,
         vs_Duration = 0, vs_Data = AnyNil, vs_Format = ''json'', vs_Error = \<lparr>ei_Code = [], ei_Message = [], ei_Recoverable = False\<rparr>,
         vs_Cached = False, vs_Retried = 0, vs_TraceID = vm_TraceID (vr_Meta req), vs_SpanID = vm_SpanID (vr_Meta req),
         vs_DecisionTrace = None\<rparr>,
      run_trace =
        \<lparr>dt_TraceID = vm_TraceID (vr_Meta req), dt_RequestID = vr_ID req, dt_ServerScores = [], dt_SelectedServer = [],
         dt_SecondBest = [], dt_ScoreDelta = 0, dt_KnowledgeUsed = [], dt_Steps = []\<rparr>,
      run_server = [], run_op = [], run_allowed = True, run_reason = []\<rparr>"

text \<open>Stages 1 to 3: validation, policy, capability.\<close>

definition v2_admit :: "V2Router \<Rightarrow> V2Run \<Rightarrow> V2Run + Capability \<times> V2Run" where
  "v2_admit router r =
     (let req = run_req r; t = va_Type (vr_Action req); operation = va_Operation (vr_Action req) in
      case ValidateRequest req of
        Some err \<Rightarrow> Inl (errorResponse ''VALIDATION_ERROR'' err False (trace_step ''validate'' ''denied'' [(''error'', say err)] r))
      | None \<Rightarrow>
          let r = trace_step ''validate'' ''ok'' [] r in
          case Enforce t operation (vr_Policy req) of
            Some err \<Rightarrow> Inl (errorResponse ''POLICY_DENIED'' err False (trace_step ''policy'' ''denied'' [(''reason'', say err)] r))
          | None \<Rightarrow>
              let r = trace_step ''policy'' ''allow'' [] r in
              case Resolve router t operation of
                Inl err \<Rightarrow> Inl (errorResponse ''ROUTE_NOT_FOUND'' err False (trace_step ''resolve'' ''not_found'' [(''error'', say err)] r))
              | Inr cap \<Rightarrow> Inr (cap, trace_step ''resolve'' (cap_Server cap) [(''capabilities'', StepAny (any_strings (cap_Capabilities cap)))] r))"

text \<open>Stage 4: knowledge, best effort. The first component is a panic of the query.\<close>

definition since_ms :: "int \<Rightarrow> int \<Rightarrow> int" where "since_ms start now = quot (now - start) 1000000"

definition doc_count :: "any \<Rightarrow> nat" where
  "doc_count results =
     (case results of
        AnyMap m \<Rightarrow> (case gm_get m ''documents'' of Some (AnyList xs) \<Rightarrow> length xs | _ \<Rightarrow> 0)
      | _ \<Rightarrow> 0)"

definition v2_knowledge :: "'w v2sys \<Rightarrow> 'w Gateway2 \<Rightarrow> V2Run \<Rightarrow> 'w \<Rightarrow> string option \<times> V2Run \<times> 'w" where
  "v2_knowledge os g r w =
     (case gm_get (g2_servers g) ''chroma'' of
        Some (ChromaServer c) \<Rightarrow>
          (let (kStart, w1) = v2_Now os w; kQuery = full_op (run_req r) in
           case QueryKnowledge os c [] kQuery w1 of
             (V2Returns kResults, w2) \<Rightarrow>
               (let (now, w3) = v2_Now os w2; req = run_req r; ctx = vr_Context req;
                    kn = vc_Knowledge ctx @ [\<lparr>kd_Collection = ''mcp_execution_memory'', kd_Query = kQuery, kd_Results = kResults,
                                              kd_DurationMs = since_ms kStart now\<rparr>];
                    docs = doc_count kResults;
                    r = r\<lparr>run_req := req\<lparr>vr_Context := ctx\<lparr>vc_Knowledge := kn\<rparr>\<rparr>,
                          run_trace := (run_trace r)\<lparr>dt_KnowledgeUsed := map (\<lambda>d. kd_Collection d @ '':'' @ kd_Query d) kn\<rparr>\<rparr>
                in (None, trace_step ''knowledge'' (int_digits (int docs) @ ''_docs'')
                      [(''query'', say kQuery), (''docs'', StepAny (any_int (int docs)))] r, w3))
           | (V2Fails err, w2) \<Rightarrow> (None, trace_step ''knowledge'' ''failed'' [(''error'', say err), (''query'', say kQuery)] r, w2)
           | (V2Panics err, w2) \<Rightarrow> (Some err, r, w2))
      | _ \<Rightarrow> (None, r, w))"

text \<open>Stage 4.5: another server may take over.\<close>

definition arrow :: string where "arrow = [CHR 0xE2, CHR 0x86, CHR 0x92]"

definition v2_override :: "'w v2sys \<Rightarrow> 'w Gateway2 \<Rightarrow> Capability \<Rightarrow> V2Run \<Rightarrow> 'w \<Rightarrow> (Capability \<times> V2Run) option \<times> 'w" where
  "v2_override os g cap r w =
     (let kn = vc_Knowledge (vr_Context (run_req r)); operation = va_Operation (vr_Action (run_req r)) in
      if length kn > 0 then
        let (candidates, w1) = v2_Range os (ListAll (g2_router g)) w in
        case selectBestServer (v2_Number os) g operation kn candidates (run_trace r) of
          None \<Rightarrow> (None, w1)
        | Some (scored, tr) \<Rightarrow>
            let r = r\<lparr>run_trace := tr\<rparr> in
            if cap_Server scored \<noteq> cap_Server cap then
              let defaultScore = routing_score (v2_Number os) g operation kn cap;
                  scoredScore = routing_score (v2_Number os) g operation kn scored
              in if scoredScore > defaultScore then
                   (Some (scored, trace_step ''override'' (cap_Server cap @ arrow @ cap_Server scored)
                       [(''from_score'', StepScore defaultScore), (''to_score'', StepScore scoredScore)] r), w1)
                 else (Some (cap, r), w1)
            else (Some (cap, r), w1)
      else (Some (cap, r), w))"

text \<open>Stages 5 to 8: the server, enforcement, execution. The first component is the panic of the server.\<close>

definition v2_call ::
    "'w v2sys \<Rightarrow> int \<Rightarrow> string \<Rightarrow> 'w V2Server \<Rightarrow> V2Run \<Rightarrow> 'w Gateway2 \<Rightarrow> 'w \<Rightarrow> string option \<times> V2Run \<times> 'w Gateway2 \<times> 'w" where
  "v2_call os start name server r g w =
     (let req = run_req r; ctx = (vr_Context req)\<lparr>vc_TimeoutMs := vm_Timeout (vr_Meta req)\<rparr>; req = req\<lparr>vr_Context := ctx\<rparr>;
          r = r\<lparr>run_req := req\<rparr>;
          (res, server', w1) = v2_Execute os server (full_op req) (vr_Parameters req) ctx w;
          g = g\<lparr>g2_servers := gm_put name server' (g2_servers g)\<rparr>
      in case res of
           V2Panics err \<Rightarrow> (Some err, r, g, w1)
         | V2Fails err \<Rightarrow>
             (let (now, w2) = v2_Now os w1; r = r\<lparr>run_resp := (run_resp r)\<lparr>vs_Duration := since_ms start now\<rparr>\<rparr>
              in (None, errorResponse ''EXECUTION_FAILED'' err True (trace_step ''execute'' ''failed'' [(''error'', say err)] r), g, w2))
         | V2Returns d \<Rightarrow>
             (let (now, w2) = v2_Now os w1; r = trace_step ''execute'' ''ok'' [] r
              in (None, r\<lparr>run_resp := (run_resp r)\<lparr>vs_Duration := since_ms start now, vs_Data := d, vs_Format := ''json''\<rparr>\<rparr>, g, w2)))"

text \<open>The variables once the server is found, and the selection and the policy event that are recorded.\<close>

definition v2_routed :: "string \<Rightarrow> V2Run \<Rightarrow> V2Run" where
  "v2_routed name r =
     (let r = trace_step ''route'' name [] (r\<lparr>run_trace := (run_trace r)\<lparr>dt_SelectedServer := name\<rparr>\<rparr>)
      in r\<lparr>run_resp := (run_resp r)\<lparr>vs_Server := name\<rparr>, run_server := name, run_op := va_Operation (vr_Action (run_req r))\<rparr>)"

definition v2_observed :: "string \<Rightarrow> V2Request \<Rightarrow> EnforcementResult \<Rightarrow> 'w Gateway2 \<Rightarrow> 'w Gateway2" where
  "v2_observed name req res g =
     (let event = \<lparr>pe_TraceID = vm_TraceID (vr_Meta req), pe_RequestID = vr_ID req, pe_Server = name, pe_Operation = full_op req,
                   pe_Allowed = er_Allowed res, pe_Blocked = \<not> er_Allowed res, pe_Reason = er_BlockReason res\<rparr>
      in g\<lparr>g2_exploration := es_RecordSelection name (g2_exploration g), g2_policyIntel := pi_Record event (g2_policyIntel g)\<rparr>)"

definition v2_serve ::
    "'w v2sys \<Rightarrow> int \<Rightarrow> Capability \<Rightarrow> V2Run \<Rightarrow> 'w Gateway2 \<Rightarrow> 'w \<Rightarrow> string option \<times> V2Run \<times> 'w Gateway2 \<times> 'w" where
  "v2_serve os start cap r g w =
     (let name = cap_Server cap in
      case gm_get (g2_servers g) name of
        None \<Rightarrow>
          (None, errorResponse ''SERVER_NOT_FOUND'' (''no server registered: '' @ name) False
             (trace_step ''route'' ''not_found'' [(''server'', say name)] r), g, w)
      | Some server \<Rightarrow>
          let r = v2_routed name r; res = enf_Check (g2_enforcement g) name (full_op (run_req r)); g = v2_observed name (run_req r) res g
          in if \<not> er_Allowed res then
               (None, errorResponse ''ENFORCEMENT_BLOCKED'' (er_BlockReason res) False
                  (trace_step ''enforcement'' ''blocked'' [(''reason'', say (er_BlockReason res)), (''server'', say name)]
                     (r\<lparr>run_allowed := False, run_reason := er_BlockReason res\<rparr>)), g, w)
             else v2_call os start name server (trace_step ''enforcement'' ''allowed'' [] r) g w)"

definition no_candidates :: string where
  "no_candidates = ''runtime error: index out of range [0] with length 0''"

definition v2_body ::
    "'w v2sys \<Rightarrow> int \<Rightarrow> V2Run \<Rightarrow> 'w Gateway2 \<Rightarrow> 'w \<Rightarrow> string option \<times> V2Run \<times> 'w Gateway2 \<times> 'w" where
  "v2_body os start r g w =
     (let (now, w1) = v2_Now os w; (taken, tb) = TryTake now (g2_rateLimiter g); g = g\<lparr>g2_rateLimiter := tb\<rparr> in
      if \<not> taken then
        (None, errorResponse ''RATE_LIMITED'' ''rate limit exceeded'' False (trace_step ''rate_limit'' ''blocked'' [] r),
         g\<lparr>g2_rateLimited := g2_rateLimited g + 1\<rparr>, w1)
      else
        case v2_admit (g2_router g) (trace_step ''rate_limit'' ''allowed'' [] r) of
          Inl r \<Rightarrow> (None, r, g, w1)
        | Inr (cap, r) \<Rightarrow>
            case v2_knowledge os g r w1 of
              (Some err, r, w2) \<Rightarrow> (Some err, r, g, w2)
            | (None, r, w2) \<Rightarrow>
                (case v2_override os g cap r w2 of
                   (None, w3) \<Rightarrow> (Some no_candidates, r, g, w3)
                 | (Some (cap, r), w3) \<Rightarrow> v2_serve os start cap r g w3))"

text \<open>
  The deferred part: a panic is turned into an error, then come learning, stability and the audit line. A panic of its
  own, which only a stability window of zero gives, would leave \<open>Process\<close> (\<open>None\<close>).
\<close>

definition v2_recover :: "string option \<Rightarrow> V2Run \<Rightarrow> 'w Gateway2 \<Rightarrow> V2Run \<times> 'w Gateway2" where
  "v2_recover p r g =
     (case p of
        None \<Rightarrow> (r, g)
      | Some err \<Rightarrow>
          (trace_step ''panic'' ''recovered'' [(''panic'', say err)] (errorResponse ''INTERNAL_PANIC'' (''panic: '' @ err) False r),
           g\<lparr>g2_panics := g2_panics g + 1\<rparr>))"

definition v2_learn :: "'w v2sys \<Rightarrow> int \<Rightarrow> V2Run \<Rightarrow> 'w Gateway2 \<Rightarrow> 'w \<Rightarrow> 'w Gateway2 option \<times> 'w" where
  "v2_learn os start r g w =
     (if run_server r \<noteq> [] then
        let (now, w1) = v2_Now os w; (stamp, w2) = v2_Now os w1;
            oc = \<lparr>ro_RequestID = vr_ID (run_req r), ro_SelectedServer = run_server r, ro_Success = (vs_Status (run_resp r) = ''success''),
                  ro_LatencyMs = since_ms start now, ro_Timestamp = stamp\<rparr>
        in case se_RecordSelection (run_op r) (run_server r) (g2_stability g) of
             None \<Rightarrow> (None, w2)
           | Some se \<Rightarrow> (Some (g\<lparr>g2_learning := le_Update oc (g2_learning g), g2_stability := se\<rparr>), w2)
      else (Some g, w))"

definition LogAudit :: "AuditRecord \<Rightarrow> 'w Gateway2 \<Rightarrow> 'w Gateway2" where
  "LogAudit a g = g\<lparr>g2_audit := g2_audit g @ [a]\<rparr>"

definition v2_audit :: "int \<Rightarrow> int \<Rightarrow> V2Run \<Rightarrow> AuditRecord" where
  "v2_audit stamp ms r =
     \<lparr>au_Timestamp = stamp, au_RequestID = vr_ID (run_req r), au_TraceID = vm_TraceID (vr_Meta (run_req r)), au_Action = full_op (run_req r),
      au_Server = run_server r, au_Status = vs_Status (run_resp r), au_DurationMs = ms,
      au_KnowledgeCount = length (vc_Knowledge (vr_Context (run_req r))), au_ExecutionAllowed = run_allowed r, au_BlockReason = run_reason r\<rparr>"

definition v2_deferred ::
    "'w v2sys \<Rightarrow> int \<Rightarrow> string option \<Rightarrow> V2Run \<Rightarrow> 'w Gateway2 \<Rightarrow> 'w \<Rightarrow> (V2Response \<times> 'w Gateway2) option \<times> 'w" where
  "v2_deferred os start p r g w =
     (let (r, g) = v2_recover p r g in
      case v2_learn os start r g w of
        (None, w1) \<Rightarrow> (None, w1)
      | (Some g, w1) \<Rightarrow>
          let (stamp, w2) = v2_Now os w1; (now, w3) = v2_Now os w2
          in (Some ((run_resp r)\<lparr>vs_DecisionTrace := Some (run_trace r)\<rparr>, LogAudit (v2_audit stamp (since_ms start now) r) g), w3))"

definition v2_Process :: "'w v2sys \<Rightarrow> V2Request \<Rightarrow> 'w Gateway2 \<Rightarrow> 'w \<Rightarrow> (V2Response \<times> 'w Gateway2) option \<times> 'w" where
  "v2_Process os req g w =
     (let (start, w1) = v2_Now os w; (req, w2) = trace_ids os req w1; (p, r, g, w3) = v2_body os start (init_run req) g w2
      in v2_deferred os start p r g w3)"

subsection \<open>Fields\<close>

lemma trace_step_fields [simp]:
  "run_req (trace_step s x m r) = run_req r" "run_resp (trace_step s x m r) = run_resp r" "run_server (trace_step s x m r) = run_server r"
  "run_op (trace_step s x m r) = run_op r" "run_allowed (trace_step s x m r) = run_allowed r" "run_reason (trace_step s x m r) = run_reason r"
  "dt_TraceID (run_trace (trace_step s x m r)) = dt_TraceID (run_trace r)"
  by (simp_all add: trace_step_def)

lemma errorResponse_fields [simp]:
  "run_req (errorResponse c m b r) = run_req r" "run_trace (errorResponse c m b r) = run_trace r"
  "run_server (errorResponse c m b r) = run_server r" "run_op (errorResponse c m b r) = run_op r"
  "run_allowed (errorResponse c m b r) = run_allowed r" "run_reason (errorResponse c m b r) = run_reason r"
  "vs_Status (run_resp (errorResponse c m b r)) = ''error''"
  "vs_RequestID (run_resp (errorResponse c m b r)) = vs_RequestID (run_resp r)" "vs_ID (run_resp (errorResponse c m b r)) = vs_ID (run_resp r)"
  "vs_TraceID (run_resp (errorResponse c m b r)) = vs_TraceID (run_resp r)" "vs_Server (run_resp (errorResponse c m b r)) = vs_Server (run_resp r)"
  by (simp_all add: errorResponse_def)

text \<open>Drawing trace identifiers changes nothing the admission looks at.\<close>

lemma trace_ids_meta:
  assumes "trace_ids os req w = (req', w')"
  obtains t s where "req' = req\<lparr>vr_Meta := (vr_Meta req)\<lparr>vm_TraceID := t, vm_SpanID := s\<rparr>\<rparr>"
    and "vm_TraceID (vr_Meta req) \<noteq> [] \<longrightarrow> t = vm_TraceID (vr_Meta req)"
proof -
  obtain t w1 where t: "(if vm_TraceID (vr_Meta req) = [] then (let (b, w') = v2_Rand os 16 w in (hexEncode b, w'))
      else (vm_TraceID (vr_Meta req), w)) = (t, w1)" by (rule prod.exhaust)
  obtain s w2 where s: "(if vm_SpanID (vr_Meta req) = [] then (let (b, w') = v2_Rand os 8 w1 in (hexEncode b, w'))
      else (vm_SpanID (vr_Meta req), w1)) = (s, w2)" by (rule prod.exhaust)
  have "req' = req\<lparr>vr_Meta := (vr_Meta req)\<lparr>vm_TraceID := t, vm_SpanID := s\<rparr>\<rparr>"
    using assms t s by (auto simp: trace_ids_def Let_def)
  moreover have "vm_TraceID (vr_Meta req) \<noteq> [] \<longrightarrow> t = vm_TraceID (vr_Meta req)" using t by (auto split: if_splits)
  ultimately show thesis by (rule that)
qed

lemma ValidateRequest_meta:
  "ValidateRequest (req\<lparr>vr_Meta := (vr_Meta req)\<lparr>vm_TraceID := t, vm_SpanID := s\<rparr>\<rparr>) = ValidateRequest req"
  by (simp add: ValidateRequest_def request_checks_def)

definition refused :: "V2Router \<Rightarrow> V2Request \<Rightarrow> bool" where
  "refused router req \<longleftrightarrow>
     ValidateRequest req \<noteq> None \<or> Enforce (va_Type (vr_Action req)) (va_Operation (vr_Action req)) (vr_Policy req) \<noteq> None \<or>
     (\<exists>err. Resolve router (va_Type (vr_Action req)) (va_Operation (vr_Action req)) = Inl err)"

lemma admit_refused: "refused router (run_req r) \<longleftrightarrow> (\<exists>r'. v2_admit router r = Inl r')"
  by (auto simp: refused_def v2_admit_def Let_def split: option.splits sum.splits)

lemma admit_Inl:
  "v2_admit router r = Inl r' \<Longrightarrow> run_req r' = run_req r \<and> run_server r' = run_server r \<and> vs_Status (run_resp r') = ''error'' \<and>
     vs_RequestID (run_resp r') = vs_RequestID (run_resp r) \<and> vs_ID (run_resp r') = vs_ID (run_resp r) \<and>
     vs_TraceID (run_resp r') = vs_TraceID (run_resp r) \<and> dt_TraceID (run_trace r') = dt_TraceID (run_trace r)"
  by (auto simp: v2_admit_def Let_def split: option.splits sum.splits)

lemma admit_Inr:
  "v2_admit router r = Inr (cap, r') \<Longrightarrow> run_req r' = run_req r \<and> run_resp r' = run_resp r \<and> run_server r' = run_server r \<and>
     dt_TraceID (run_trace r') = dt_TraceID (run_trace r) \<and> run_op r' = run_op r \<and>
     Resolve router (va_Type (vr_Action (run_req r))) (va_Operation (vr_Action (run_req r))) = Inr cap"
  by (auto simp: v2_admit_def Let_def split: option.splits sum.splits)

subsection \<open>Refused requests\<close>

text \<open>C30:
  The gateway fails closed: a request that is not valid, not allowed by its policy or has no route is answered with
  an error that does not depend on the servers, none of which is called or changed; all that changes is the token bucket,
  one audit line without a server and, when the bucket is empty, the count of limited requests.
\<close>
theorem v2_fails_closed:
  assumes "refused (g2_router g) req"
  shows "\<exists>resp tb line n w'. \<forall>servers.
    v2_Process os req (g\<lparr>g2_servers := servers\<rparr>) w =
      (Some (resp, g\<lparr>g2_servers := servers, g2_rateLimiter := tb, g2_audit := g2_audit g @ [line], g2_rateLimited := n\<rparr>), w') \<and>
    vs_Status resp = ''error'' \<and> vs_RequestID resp = vr_ID req \<and> au_Server line = []"
proof -
  obtain start w1 where 1: "v2_Now os w = (start, w1)" by (cases "v2_Now os w")
  obtain req' w2 where 2: "trace_ids os req w1 = (req', w2)" by (cases "trace_ids os req w1")
  obtain now w3 where 3: "v2_Now os w2 = (now, w3)" by (cases "v2_Now os w2")
  obtain b tb where 4: "TryTake now (g2_rateLimiter g) = (b, tb)" by (cases "TryTake now (g2_rateLimiter g)")
  obtain t s where req': "req' = req\<lparr>vr_Meta := (vr_Meta req)\<lparr>vm_TraceID := t, vm_SpanID := s\<rparr>\<rparr>"
    using trace_ids_meta [OF 2] by metis
  then have "refused (g2_router g) req'" using assms by (simp add: refused_def ValidateRequest_meta)
  then obtain r where 5: "v2_admit (g2_router g) (trace_step ''rate_limit'' ''allowed'' [] (init_run req')) = Inl r"
    using admit_refused [of "g2_router g" "trace_step ''rate_limit'' ''allowed'' [] (init_run req')"] by (auto simp: init_run_def)
  define r' where "r' = (if b then r else errorResponse ''RATE_LIMITED'' ''rate limit exceeded'' False (trace_step ''rate_limit'' ''blocked'' [] (init_run req')))"
  define n where "n = (if b then g2_rateLimited g else g2_rateLimited g + 1)"
  have body: "v2_body os start (init_run req') (g\<lparr>g2_servers := servers\<rparr>) w2 =
      (None, r', g\<lparr>g2_servers := servers, g2_rateLimiter := tb, g2_rateLimited := n\<rparr>, w3)" for servers
    by (simp add: v2_body_def 3 4 5 Let_def r'_def n_def)
  have r': "run_server r' = []" "vs_Status (run_resp r') = ''error''" "vs_RequestID (run_resp r') = vr_ID req"
    using admit_Inl [OF 5] by (auto simp: r'_def init_run_def req')
  obtain stamp w4 where 6: "v2_Now os w3 = (stamp, w4)" by (cases "v2_Now os w3")
  obtain fin w5 where 7: "v2_Now os w4 = (fin, w5)" by (cases "v2_Now os w4")
  have "v2_Process os req (g\<lparr>g2_servers := servers\<rparr>) w =
      (Some ((run_resp r')\<lparr>vs_DecisionTrace := Some (run_trace r')\<rparr>,
        g\<lparr>g2_servers := servers, g2_rateLimiter := tb, g2_audit := g2_audit g @ [v2_audit stamp (since_ms start fin) r'], g2_rateLimited := n\<rparr>), w5)" for servers
    by (simp add: v2_Process_def 1 2 body v2_deferred_def v2_recover_def v2_learn_def r' 6 7 LogAudit_def)
  moreover have "au_Server (v2_audit stamp (since_ms start fin) r') = []" by (simp add: v2_audit_def r')
  ultimately show ?thesis using r'
    by (intro exI [of _ "(run_resp r')\<lparr>vs_DecisionTrace := Some (run_trace r')\<rparr>"] exI [of _ tb] exI [of _ "v2_audit stamp (since_ms start fin) r'"]
        exI [of _ n] exI [of _ w5]) simp
qed

subsection \<open>What a run keeps\<close>

text \<open>The identity of the request and of the trace; the status can only become an error.\<close>

definition kept :: "V2Run \<Rightarrow> V2Run \<Rightarrow> bool" where
  "kept r r' \<longleftrightarrow> vr_ID (run_req r') = vr_ID (run_req r) \<and> vr_Meta (run_req r') = vr_Meta (run_req r) \<and>
     vr_Action (run_req r') = vr_Action (run_req r) \<and> vs_ID (run_resp r') = vs_ID (run_resp r) \<and>
     vs_RequestID (run_resp r') = vs_RequestID (run_resp r) \<and> vs_TraceID (run_resp r') = vs_TraceID (run_resp r) \<and>
     dt_TraceID (run_trace r') = dt_TraceID (run_trace r) \<and> vs_Status (run_resp r') \<in> {vs_Status (run_resp r), ''error''}"

lemma kept_refl [simp]: "kept r r"
  by (simp add: kept_def)

lemma kept_trans: "kept r r' \<Longrightarrow> kept r' r'' \<Longrightarrow> kept r r''"
  by (auto simp: kept_def)

lemma kept_step [simp]: "kept r (trace_step s x m r') = kept r r'" "kept r r' \<Longrightarrow> kept r (errorResponse c e b r')"
  by (auto simp: kept_def)

lemma kept_admit: "v2_admit router r = Inl r' \<Longrightarrow> kept r r'" "v2_admit router r = Inr (cap, r') \<Longrightarrow> kept r r'"
  by (auto simp: kept_def dest!: admit_Inl admit_Inr)

lemma same_knowledge [simp]: "\<exists>kn. q = q\<lparr>vr_Context := (vr_Context q)\<lparr>vc_Knowledge := kn\<rparr>\<rparr>"
  by (rule exI [of _ "vc_Knowledge (vr_Context q)"]) simp

lemma knowledge_run:
  assumes "v2_knowledge os g r w = (p, r', w')"
  shows "run_resp r' = run_resp r \<and> run_server r' = run_server r \<and> run_op r' = run_op r \<and> kept r r' \<and>
    full_op (run_req r') = full_op (run_req r) \<and>
    (\<exists>kn. run_req r' = (run_req r)\<lparr>vr_Context := (vr_Context (run_req r))\<lparr>vc_Knowledge := kn\<rparr>\<rparr>)"
proof (cases "gm_get (g2_servers g) ''chroma''")
  case (Some s)
  show ?thesis
  proof (cases s)
    case (ChromaServer c)
    obtain k w1 where 1: "v2_Now os w = (k, w1)" by (cases "v2_Now os w")
    obtain res w2 where 2: "QueryKnowledge os c [] (full_op (run_req r)) w1 = (res, w2)" by (rule prod.exhaust)
    obtain n w3 where 3: "v2_Now os w2 = (n, w3)" by (cases "v2_Now os w2")
    show ?thesis using assms Some ChromaServer 1 2 3
      by (cases res) (auto simp: v2_knowledge_def Let_def kept_def full_op_def)
  qed (use assms Some in \<open>auto simp: v2_knowledge_def\<close>)
qed (use assms in \<open>auto simp: v2_knowledge_def\<close>)

lemma select_trace: "selectBestServer fmt g op kn cs tr = Some (c, tr') \<Longrightarrow> dt_TraceID tr' = dt_TraceID tr"
  by (auto simp: selectBestServer_def Let_def split: list.splits prod.splits)

lemma select_member: "selectBestServer fmt g op kn cs tr = Some (c, tr') \<Longrightarrow> c \<in> set cs"
proof -
  assume s: "selectBestServer fmt g op kn cs tr = Some (c, tr')"
  let ?scored = "sort_key (\<lambda>(c, s). - s) (map (\<lambda>c. (c, routing_score fmt g op kn c)) cs)"
  have "c \<in> fst ` set ?scored"
    using s by (cases ?scored; cases "tl ?scored") (auto simp: selectBestServer_def Let_def split: prod.splits list.splits)
  then show ?thesis by auto
qed

lemma override_run:
  assumes "v2_override os g cap r w = (Some (cap', r'), w')"
  shows "run_req r' = run_req r \<and> run_resp r' = run_resp r \<and> run_server r' = run_server r \<and> kept r r' \<and>
    (cap' = cap \<or> (\<exists>cs w0 w1. v2_Range os (ListAll (g2_router g)) w0 = (cs, w1) \<and> cap' \<in> set cs))"
proof (cases "vc_Knowledge (vr_Context (run_req r)) = []")
  case False
  obtain cs w1 where 1: "v2_Range os (ListAll (g2_router g)) w = (cs, w1)" by (cases "v2_Range os (ListAll (g2_router g)) w")
  obtain c tr where 2: "selectBestServer (v2_Number os) g (va_Operation (vr_Action (run_req r)))
      (vc_Knowledge (vr_Context (run_req r))) cs (run_trace r) = Some (c, tr)"
    using assms False 1 by (auto simp: v2_override_def Let_def split: option.splits)
  then have "dt_TraceID tr = dt_TraceID (run_trace r)" by (rule select_trace)
  moreover have "c \<in> set cs" by (rule select_member [OF 2])
  ultimately show ?thesis using assms False 1 2
    by (auto simp: v2_override_def Let_def kept_def split: if_splits)
qed (use assms in \<open>simp add: v2_override_def\<close>)

text \<open>What a run leaves of the gateway until the deferred part.\<close>

definition gkept :: "'w Gateway2 \<Rightarrow> 'w Gateway2 \<Rightarrow> bool" where
  "gkept g g' \<longleftrightarrow> g2_router g' = g2_router g \<and> g2_learning g' = g2_learning g \<and> g2_stability g' = g2_stability g \<and>
     g2_enforcement g' = g2_enforcement g \<and> g2_audit g' = g2_audit g \<and> g2_panics g' = g2_panics g"

lemma call_run:
  assumes "v2_call os start name server r g w = (p, r', g', w')"
  shows "kept r r' \<and> gkept g g' \<and> run_server r' = run_server r \<and> run_op r' = run_op r \<and>
    g2_exploration g' = g2_exploration g \<and> vs_Server (run_resp r') = vs_Server (run_resp r)"
proof -
  define ctx where "ctx = (vr_Context (run_req r))\<lparr>vc_TimeoutMs := vm_Timeout (vr_Meta (run_req r))\<rparr>"
  obtain res server' w1 where 1: "v2_Execute os server (full_op ((run_req r)\<lparr>vr_Context := ctx\<rparr>)) (vr_Parameters (run_req r)) ctx w = (res, server', w1)"
    by (rule prod_cases3)
  obtain n w2 where 2: "v2_Now os w1 = (n, w2)" by (cases "v2_Now os w1")
  show ?thesis using assms 1 2
    by (cases res) (auto simp: v2_call_def Let_def kept_def gkept_def ctx_def)
qed

lemma routed_fields:
  "run_req (v2_routed name r) = run_req r \<and> run_server (v2_routed name r) = name \<and> vs_Server (run_resp (v2_routed name r)) = name \<and>
   run_op (v2_routed name r) = va_Operation (vr_Action (run_req r)) \<and> kept r (v2_routed name r)"
  by (simp add: v2_routed_def kept_def trace_step_def Let_def)

lemma serve_run:
  assumes "v2_serve os start cap r g w = (p, r', g', w')"
  shows "kept r r' \<and> gkept g g' \<and> (run_server r' = cap_Server cap \<or> run_server r' = run_server r \<and> vs_Status (run_resp r') = ''error'') \<and>
    (vs_Status (run_resp r') = ''success'' \<and> p = None \<longrightarrow>
      er_Allowed (enf_Check (g2_enforcement g) (cap_Server cap) (full_op (run_req r))) \<and> vs_Server (run_resp r') = cap_Server cap)"
proof (cases "gm_get (g2_servers g) (cap_Server cap)")
  case (Some server)
  let ?r = "v2_routed (cap_Server cap) r"
  let ?res = "enf_Check (g2_enforcement g) (cap_Server cap) (full_op (run_req r))"
  let ?g = "v2_observed (cap_Server cap) (run_req r) ?res g"
  note rf = routed_fields [of "cap_Server cap" r]
  have g: "gkept g ?g" by (simp add: v2_observed_def gkept_def Let_def)
  show ?thesis
  proof (cases "er_Allowed ?res")
    case True
    then have "v2_call os start (cap_Server cap) server (trace_step ''enforcement'' ''allowed'' [] ?r) ?g w = (p, r', g', w')"
      using assms Some rf by (simp add: v2_serve_def Let_def)
    from call_run [OF this] show ?thesis using rf True g kept_trans [of r ?r r'] by (auto simp: gkept_def kept_def)
  next
    case False
    then show ?thesis using assms Some rf g by (auto simp: v2_serve_def Let_def kept_def)
  qed
qed (use assms in \<open>auto simp: v2_serve_def gkept_def kept_def Let_def\<close>)

text \<open>The ways through the body: limited, refused, no candidates, or served.\<close>

lemma body_cases:
  assumes "v2_body os start r g w = (p, r', g', w')"
  obtains (limited) tb where "p = None" "g' = g\<lparr>g2_rateLimiter := tb, g2_rateLimited := g2_rateLimited g + 1\<rparr>"
      "r' = errorResponse ''RATE_LIMITED'' ''rate limit exceeded'' False (trace_step ''rate_limit'' ''blocked'' [] r)"
  | (refusal) tb where "p = None" "g' = g\<lparr>g2_rateLimiter := tb\<rparr>"
      "v2_admit (g2_router g) (trace_step ''rate_limit'' ''allowed'' [] r) = Inl r'"
  | (panicked) tb cap r1 err where "p = Some err" "g' = g\<lparr>g2_rateLimiter := tb\<rparr>" "kept r r'" "run_server r' = run_server r"
      "v2_admit (g2_router g) (trace_step ''rate_limit'' ''allowed'' [] r) = Inr (cap, r1)"
  | (served) tb cap0 r1 cap r2 w2 where "v2_admit (g2_router g) (trace_step ''rate_limit'' ''allowed'' [] r) = Inr (cap0, r1)"
      "kept r r2" "run_server r2 = run_server r" "full_op (run_req r2) = full_op (run_req r)"
      "\<exists>kn. run_req r2 = (run_req r)\<lparr>vr_Context := (vr_Context (run_req r))\<lparr>vc_Knowledge := kn\<rparr>\<rparr>"
      "cap = cap0 \<or> (\<exists>cs w0 w1. v2_Range os (ListAll (g2_router g)) w0 = (cs, w1) \<and> cap \<in> set cs)"
      "v2_serve os start cap r2 (g\<lparr>g2_rateLimiter := tb\<rparr>) w2 = (p, r', g', w')"
proof -
  obtain now w1 where 1: "v2_Now os w = (now, w1)" by (cases "v2_Now os w")
  obtain b tb where 2: "TryTake now (g2_rateLimiter g) = (b, tb)" by (cases "TryTake now (g2_rateLimiter g)")
  let ?g = "g\<lparr>g2_rateLimiter := tb\<rparr>"
  show thesis
  proof (cases b)
    case False
    then show thesis using assms 1 2 by (intro limited) (auto simp: v2_body_def Let_def)
  next
    case b: True
    show thesis
    proof (cases "v2_admit (g2_router g) (trace_step ''rate_limit'' ''allowed'' [] r)")
      case (Inl a)
      then show thesis using assms 1 2 b by (intro refusal) (auto simp: v2_body_def Let_def)
    next
      case (Inr a)
      then obtain cap r1 where 3: "v2_admit (g2_router g) (trace_step ''rate_limit'' ''allowed'' [] r) = Inr (cap, r1)" by (cases a) auto
      obtain p2 r2 w2 where 4: "v2_knowledge os ?g r1 w1 = (p2, r2, w2)" by (rule prod_cases3)
      have k: "kept r r2" "run_server r2 = run_server r" "full_op (run_req r2) = full_op (run_req r)"
          "\<exists>kn. run_req r2 = (run_req r)\<lparr>vr_Context := (vr_Context (run_req r))\<lparr>vc_Knowledge := kn\<rparr>\<rparr>"
        using admit_Inr [OF 3] knowledge_run [OF 4] kept_admit(2) [OF 3] kept_trans [of r r1 r2] by (auto simp: kept_def)
      obtain o3 w3 where 5: "v2_override os ?g cap r2 w2 = (o3, w3)" by (cases "v2_override os ?g cap r2 w2")
      show thesis
      proof (cases p2)
        case (Some err)
        then show thesis using assms 1 2 b 3 4 k by (intro panicked) (auto simp: v2_body_def Let_def)
      next
        case p2: None
        show thesis
        proof (cases o3)
          case None
          then show thesis using assms 1 2 b 3 4 p2 5 k by (intro panicked) (auto simp: v2_body_def Let_def)
        next
          case (Some a)
          then obtain cap' r3 where 6: "v2_override os ?g cap r2 w2 = (Some (cap', r3), w3)" using 5 by (cases a) auto
          have "v2_serve os start cap' r3 ?g w3 = (p, r', g', w')"
            using assms 1 2 b 3 4 p2 6 by (simp add: v2_body_def Let_def)
          then show thesis using override_run [OF 6] k kept_trans [of r r2 r3] by (intro served [OF 3, of r3]) auto
        qed
      qed
    qed
  qed
qed

lemma body_run:
  assumes "v2_body os start r g w = (p, r', g', w')"
  shows "kept r r' \<and> gkept g g'"
  using assms
proof (cases rule: body_cases)
  case limited
  then show ?thesis by (simp add: gkept_def)
next
  case refusal
  then show ?thesis using kept_admit(1) [OF refusal(3)] by (simp add: gkept_def kept_def)
next
  case panicked
  then show ?thesis by (simp add: gkept_def)
next
  case served
  then show ?thesis using serve_run [OF served(7)] kept_trans by (auto simp: gkept_def)
qed

text \<open>What a success was made of: the execution of the server that is registered under the name.\<close>

definition executed :: "'w v2sys \<Rightarrow> (string, 'w V2Server) gomap \<Rightarrow> string \<Rightarrow> V2Request \<Rightarrow> any \<Rightarrow> (string, 'w V2Server) gomap \<Rightarrow> bool" where
  "executed os servers name req data servers' \<longleftrightarrow>
     (\<exists>server kn w1 server' w2. gm_get servers name = Some server \<and>
        v2_Execute os server (full_op req) (vr_Parameters req)
          ((vr_Context req)\<lparr>vc_Knowledge := kn, vc_TimeoutMs := vm_Timeout (vr_Meta req)\<rparr>) w1 = (V2Returns data, server', w2) \<and>
        servers' = gm_put name server' servers)"

lemma executed_knowledge:
  "executed os servers name (req\<lparr>vr_Context := (vr_Context req)\<lparr>vc_Knowledge := kn\<rparr>\<rparr>) data servers' \<Longrightarrow> executed os servers name req data servers'"
  by (simp add: executed_def full_op_def)

lemma call_success:
  assumes "v2_call os start name server r g w = (None, r', g', w')" "vs_Status (run_resp r') = ''success''"
    "gm_get (g2_servers g) name = Some server"
  shows "executed os (g2_servers g) name (run_req r) (vs_Data (run_resp r')) (g2_servers g')"
proof -
  define ctx where "ctx = (vr_Context (run_req r))\<lparr>vc_TimeoutMs := vm_Timeout (vr_Meta (run_req r))\<rparr>"
  obtain res server' w1 where 1: "v2_Execute os server (full_op (run_req r)) (vr_Parameters (run_req r)) ctx w = (res, server', w1)"
    by (rule prod_cases3)
  obtain n w2 where 2: "v2_Now os w1 = (n, w2)" by (cases "v2_Now os w1")
  have c: "ctx = (vr_Context (run_req r))\<lparr>vc_Knowledge := vc_Knowledge (vr_Context (run_req r)), vc_TimeoutMs := vm_Timeout (vr_Meta (run_req r))\<rparr>"
    by (simp add: ctx_def)
  have f: "full_op ((run_req r)\<lparr>vr_Context := ctx\<rparr>) = full_op (run_req r)" by (simp add: full_op_def)
  show ?thesis
  proof (cases res)
    case (V2Returns d)
    have "vs_Data (run_resp r') = d" "g2_servers g' = gm_put name server' (g2_servers g)"
      using assms(1) 1 2 f V2Returns by (auto simp: v2_call_def Let_def simp flip: ctx_def)
    then show ?thesis using 1 assms(3) unfolding V2Returns executed_def c by blast
  qed (use assms 1 2 f in \<open>auto simp: v2_call_def Let_def simp flip: ctx_def\<close>)
qed

lemma serve_success:
  assumes "v2_serve os start cap r g w = (None, r', g', w')" "vs_Status (run_resp r') = ''success''"
  shows "executed os (g2_servers g) (cap_Server cap) (run_req r) (vs_Data (run_resp r')) (g2_servers g')"
proof (cases "gm_get (g2_servers g) (cap_Server cap)")
  case (Some server)
  let ?res = "enf_Check (g2_enforcement g) (cap_Server cap) (full_op (run_req r))"
  let ?g = "v2_observed (cap_Server cap) (run_req r) ?res g"
  note rf = routed_fields [of "cap_Server cap" r]
  have g: "g2_servers ?g = g2_servers g" by (simp add: v2_observed_def Let_def)
  have "er_Allowed ?res" using assms Some rf by (auto simp: v2_serve_def Let_def split: if_splits)
  then have "v2_call os start (cap_Server cap) server (trace_step ''enforcement'' ''allowed'' [] (v2_routed (cap_Server cap) r)) ?g w = (None, r', g', w')"
    using assms(1) Some rf by (simp add: v2_serve_def Let_def)
  from call_success [OF this assms(2)] Some g rf show ?thesis by simp
qed (use assms in \<open>auto simp: v2_serve_def Let_def\<close>)

text \<open>Only an admitted, allowed request whose server did not fail ends without an error.\<close>

lemma body_success:
  assumes "v2_body os start r g w = (None, r', g', w')" "vs_Status (run_resp r') = ''success''" "run_server r = []"
  shows "\<not> refused (g2_router g) (run_req r) \<and> vs_Server (run_resp r') = run_server r' \<and>
    er_Allowed (enf_Check (g2_enforcement g) (run_server r') (full_op (run_req r))) \<and>
    (\<exists>cap. Resolve (g2_router g) (va_Type (vr_Action (run_req r))) (va_Operation (vr_Action (run_req r))) = Inr cap \<and>
      (run_server r' = cap_Server cap \<or>
       (\<exists>cs w0 w1. v2_Range os (ListAll (g2_router g)) w0 = (cs, w1) \<and> run_server r' \<in> cap_Server ` set cs))) \<and>
    executed os (g2_servers g) (run_server r') (run_req r) (vs_Data (run_resp r')) (g2_servers g')"
  using assms(1)
proof (cases rule: body_cases)
  case limited
  then show ?thesis using assms(2) by simp
next
  case refusal
  then show ?thesis using assms(2) admit_Inl by force
next
  case (served tb cap0 r1 cap r2 w2)
  then have "\<not> refused (g2_router g) (run_req r)"
    using admit_refused [of "g2_router g" "trace_step ''rate_limit'' ''allowed'' [] r"] by auto
  moreover have c: "run_server r' = cap_Server cap" "vs_Server (run_resp r') = cap_Server cap"
    "er_Allowed (enf_Check (g2_enforcement g) (cap_Server cap) (full_op (run_req r)))"
    using serve_run [OF served(7)] served(4) assms(2) by auto
  moreover have "executed os (g2_servers g) (cap_Server cap) (run_req r) (vs_Data (run_resp r')) (g2_servers g')"
    using serve_success [OF served(7) assms(2)] served(5) executed_knowledge by fastforce
  moreover have "Resolve (g2_router g) (va_Type (vr_Action (run_req r))) (va_Operation (vr_Action (run_req r))) = Inr cap0"
    using admit_Inr [OF served(1)] by simp
  ultimately show ?thesis using served(6) by auto
qed simp

subsection \<open>Every request is answered\<close>

lemma window_push_Some: "0 < n \<Longrightarrow> \<exists>h'. window_push n h s = Some h'"
  by (cases h) (auto simp: window_push_def)

lemma record_selection_Some:
  "0 < se_windowSize se \<Longrightarrow> \<exists>se'. se_RecordSelection operation server se = Some se' \<and> se_windowSize se' = se_windowSize se"
  using window_push_Some [of "se_windowSize se" "gm_at [] (se_operationHistory se) operation" server]
  by (auto simp: se_RecordSelection_def Let_def)

lemma learn_Some:
  assumes "0 < se_windowSize (g2_stability g)"
  obtains g' w' where "v2_learn os start r g w = (Some g', w')" "g2_audit g' = g2_audit g"
    "se_windowSize (g2_stability g') = se_windowSize (g2_stability g)"
proof -
  obtain n w1 where 1: "v2_Now os w = (n, w1)" by (cases "v2_Now os w")
  obtain m w2 where 2: "v2_Now os w1 = (m, w2)" by (cases "v2_Now os w1")
  obtain se where "se_RecordSelection (run_op r) (run_server r) (g2_stability g) = Some se" "se_windowSize se = se_windowSize (g2_stability g)"
    using record_selection_Some [OF assms] by blast
  then show thesis using that 1 2 by (cases "run_server r = []") (auto simp: v2_learn_def Let_def)
qed

lemma recover_run: "v2_recover p r g = (r', g') \<Longrightarrow>
    kept r r' \<and> g2_audit g' = g2_audit g \<and> g2_stability g' = g2_stability g \<and> g2_learning g' = g2_learning g \<and> run_server r' = run_server r \<and>
    (vs_Status (run_resp r') = ''success'' \<longrightarrow> p = None \<and> r' = r)"
  by (cases p) (auto simp: v2_recover_def)


text \<open>C32:
  A request that ends with success was valid, allowed by its policy and routable. The response names the server of its
  route or one of the servers the router lists; no enforcement rule forbids the operation there; and the data are what
  the server registered under that name returned when it executed the operation on the parameters of the request, with
  its context but for the knowledge that was added and the timeout. That server, as it is after the call, is the only
  one that has changed.
\<close>
theorem v2_success_admitted:
  assumes "v2_Process os req g w = (Some (resp, g'), w')" "vs_Status resp = ''success''"
  shows "ValidateRequest req = None \<and> Enforce (va_Type (vr_Action req)) (va_Operation (vr_Action req)) (vr_Policy req) = None \<and>
    (\<exists>cap. Resolve (g2_router g) (va_Type (vr_Action req)) (va_Operation (vr_Action req)) = Inr cap \<and>
      (vs_Server resp = cap_Server cap \<or>
       (\<exists>cs w0 w1. v2_Range os (ListAll (g2_router g)) w0 = (cs, w1) \<and> vs_Server resp \<in> cap_Server ` set cs))) \<and>
    er_Allowed (enf_Check (g2_enforcement g) (vs_Server resp) (full_op req)) \<and>
    (\<exists>server kn w1 server' w2. gm_get (g2_servers g) (vs_Server resp) = Some server \<and>
      v2_Execute os server (full_op req) (vr_Parameters req)
        ((vr_Context req)\<lparr>vc_Knowledge := kn, vc_TimeoutMs := vm_Timeout (vr_Meta req)\<rparr>) w1 = (V2Returns (vs_Data resp), server', w2) \<and>
      g2_servers g' = gm_put (vs_Server resp) server' (g2_servers g))"
proof -
  obtain start w1 where 1: "v2_Now os w = (start, w1)" by (cases "v2_Now os w")
  obtain req' w2 where 2: "trace_ids os req w1 = (req', w2)" by (cases "trace_ids os req w1")
  obtain p r g1 w3 where 3: "v2_body os start (init_run req') g w2 = (p, r, g1, w3)" by (rule prod_cases4)
  obtain r2 g2 where 4: "v2_recover p r g1 = (r2, g2)" by (cases "v2_recover p r g1")
  have resp: "resp = (run_resp r2)\<lparr>vs_DecisionTrace := Some (run_trace r2)\<rparr>" and g': "g2_servers g' = g2_servers g2"
    using assms(1) by (auto simp: v2_Process_def 1 2 3 v2_deferred_def 4 v2_learn_def LogAudit_def Let_def split: prod.splits option.splits if_splits)
  then have p: "p = None" "r2 = r" using recover_run [OF 4] assms(2) by auto
  then have "g2 = g1" using 4 by (simp add: v2_recover_def)
  obtain t s where req': "req' = req\<lparr>vr_Meta := (vr_Meta req)\<lparr>vm_TraceID := t, vm_SpanID := s\<rparr>\<rparr>" using trace_ids_meta [OF 2] by metis
  have i: "run_req (init_run req') = req'" "run_server (init_run req') = []" by (simp_all add: init_run_def)
  have s: "vs_Status (run_resp r) = ''success''" using assms(2) resp p(2) by simp
  note b = body_success [OF 3 [unfolded p(1)] s i(2), unfolded i(1)]
  have "full_op req' = full_op req" "vr_Action req' = vr_Action req" "vr_Context req' = vr_Context req" "vr_Parameters req' = vr_Parameters req"
    "vm_Timeout (vr_Meta req') = vm_Timeout (vr_Meta req)" "vs_Data resp = vs_Data (run_resp r)" "vs_Server resp = run_server r"
    using b resp p(2) by (simp_all add: req' full_op_def)
  with b show ?thesis unfolding g' \<open>g2 = g1\<close> executed_def
    by (simp add: refused_def req' ValidateRequest_meta)
qed

text \<open>What Chroma answers has no key \<open>documents\<close>, so the trace always counts no documents.\<close>

lemma knowledge_counts_nothing:
  assumes "QueryKnowledge os c col query w = (V2Returns d, w')"
  shows "doc_count d = 0"
  using assms by (auto simp: QueryKnowledge_def queryDocs_def chroma_post_def doc_count_def gm_get_def Let_def split: if_splits prod.splits sum.splits)

end
