(* ===== verification/V2_Routing.thy ===== *)
theory V2_Routing
  imports V2_Gateway
begin

text \<open>
  How what the second gateway learns acts on its later decisions: the policy intelligence not at all, the scores on the
  server that is called.
\<close>

subsection \<open>The policy intelligence is an observer\<close>

text \<open>Two gateways that differ in it only.\<close>

abbreviation with_intel :: "PolicyIntelligenceEngine \<Rightarrow> 'w Gateway2 \<Rightarrow> 'w Gateway2" where
  "with_intel q g \<equiv> g\<lparr>g2_policyIntel := q\<rparr>"

lemma score_passive [simp]: "routing_score fmt (with_intel q g) op kn = routing_score fmt g op kn"
  by (rule ext) (simp add: routing_score_def)

lemma knowledge_passive: "v2_knowledge os (with_intel q g) r w = v2_knowledge os g r w"
  by (simp add: v2_knowledge_def)

lemma override_passive: "v2_override os (with_intel q g) cap r w = v2_override os g cap r w"
proof -
  have "g2_router (with_intel q g) = g2_router g" by simp
  then show ?thesis unfolding v2_override_def selectBestServer_def score_passive by (simp only:)
qed

lemma call_passive:
  assumes "v2_call os start name server r g w = (p, r', g', w')"
  shows "v2_call os start name server r (with_intel q g) w = (p, r', with_intel q g', w')"
proof -
  define ctx where "ctx = (vr_Context (run_req r))\<lparr>vc_TimeoutMs := vm_Timeout (vr_Meta (run_req r))\<rparr>"
  obtain res server' w1 where 1: "v2_Execute os server (full_op ((run_req r)\<lparr>vr_Context := ctx\<rparr>)) (vr_Parameters (run_req r)) ctx w = (res, server', w1)"
    by (rule prod_cases3)
  obtain n w2 where 2: "v2_Now os w1 = (n, w2)" by (cases "v2_Now os w1")
  show ?thesis using assms 1 2 by (cases res) (auto simp: v2_call_def Let_def ctx_def)
qed

lemma serve_passive:
  assumes "v2_serve os start cap r g w = (p, r', g', w')"
  shows "\<exists>q'. v2_serve os start cap r (with_intel q g) w = (p, r', with_intel q' g', w')"
proof (cases "gm_get (g2_servers g) (cap_Server cap)")
  case None
  then show ?thesis using assms by (auto simp: v2_serve_def Let_def)
next
  case (Some server)
  define res where "res = enf_Check (g2_enforcement g) (cap_Server cap) (full_op (run_req (v2_routed (cap_Server cap) r)))"
  let ?obs = "v2_observed (cap_Server cap) (run_req (v2_routed (cap_Server cap) r)) res"
  obtain q' where q: "?obs (with_intel q g) = with_intel q' (?obs g)" by (simp add: v2_observed_def Let_def)
  show ?thesis
  proof (cases "er_Allowed res")
    case True
    then have "v2_call os start (cap_Server cap) server (trace_step ''enforcement'' ''allowed'' [] (v2_routed (cap_Server cap) r)) (?obs g) w = (p, r', g', w')"
      using assms Some by (simp add: v2_serve_def Let_def res_def)
    from call_passive [OF this, of q'] show ?thesis
      using True Some q by (auto simp: v2_serve_def Let_def res_def intro!: exI [of _ q'])
  next
    case False
    then show ?thesis using assms Some q by (auto simp: v2_serve_def Let_def res_def intro!: exI [of _ q'])
  qed
qed

lemma body_passive:
  assumes "v2_body os start r g w = (p, r', g', w')"
  shows "\<exists>q'. v2_body os start r (with_intel q g) w = (p, r', with_intel q' g', w')"
proof -
  obtain now w1 where 1: "v2_Now os w = (now, w1)" by (cases "v2_Now os w")
  obtain b tb where 2: "TryTake now (g2_rateLimiter g) = (b, tb)" by (cases "TryTake now (g2_rateLimiter g)")
  let ?g = "g\<lparr>g2_rateLimiter := tb\<rparr>"
  have c: "with_intel q g\<lparr>g2_rateLimiter := tb\<rparr> = with_intel q ?g" by simp
  show ?thesis
  proof (cases "b \<and> (\<exists>x. v2_admit (g2_router g) (trace_step ''rate_limit'' ''allowed'' [] r) = Inr x)")
    case False
    then show ?thesis using assms 1 2
      by (cases b; cases "v2_admit (g2_router g) (trace_step ''rate_limit'' ''allowed'' [] r)")
        (auto simp: v2_body_def Let_def intro!: exI [of _ q])
  next
    case True
    then obtain cap r1 where 3: "v2_admit (g2_router g) (trace_step ''rate_limit'' ''allowed'' [] r) = Inr (cap, r1)" by auto
    obtain p2 r2 w2 where 4: "v2_knowledge os ?g r1 w1 = (p2, r2, w2)" by (rule prod_cases3)
    obtain x w3 where 5: "v2_override os ?g cap r2 w2 = (x, w3)" by (cases "v2_override os ?g cap r2 w2")
    have k4: "v2_knowledge os (with_intel q g\<lparr>g2_rateLimiter := tb\<rparr>) r1 w1 = (p2, r2, w2)" using 4 by (simp only: c knowledge_passive)
    have k5: "v2_override os (with_intel q g\<lparr>g2_rateLimiter := tb\<rparr>) cap r2 w2 = (x, w3)" using 5 by (simp only: c override_passive)
    show ?thesis
    proof (cases "p2 = None \<and> x \<noteq> None")
      case False
      then show ?thesis using assms 1 2 3 4 5 k4 k5 True by (cases p2; cases x) (auto simp: v2_body_def Let_def intro!: exI [of _ q])
    next
      case xs: True
      then obtain cap' r3 where x: "x = Some (cap', r3)" "p2 = None" by (cases x) auto
      have "v2_serve os start cap' r3 ?g w3 = (p, r', g', w')"
        using assms 1 2 3 4 5 True x by (simp add: v2_body_def Let_def)
      from serve_passive [OF this, of q] obtain q' where "v2_serve os start cap' r3 (with_intel q ?g) w3 = (p, r', with_intel q' g', w')" by (elim exE)
      then have "v2_serve os start cap' r3 (with_intel q g\<lparr>g2_rateLimiter := tb\<rparr>) w3 = (p, r', with_intel q' g', w')" by (simp only: c)
      then show ?thesis using 1 2 3 k4 k5 True x by (auto simp: v2_body_def Let_def intro!: exI [of _ q'])
    qed
  qed
qed

lemma deferred_passive:
  "v2_deferred os start p r (with_intel q g) w =
     (case v2_deferred os start p r g w of (None, w') \<Rightarrow> (None, w') | (Some (resp, g'), w') \<Rightarrow> (Some (resp, with_intel q g'), w'))"
proof -
  obtain r2 g2 where 1: "v2_recover p r g = (r2, g2)" by (cases "v2_recover p r g")
  then have 2: "v2_recover p r (with_intel q g) = (r2, with_intel q g2)" by (cases p) (auto simp: v2_recover_def)
  obtain x w1 where 3: "v2_learn os start r2 g2 w = (x, w1)" by (cases "v2_learn os start r2 g2 w")
  obtain n w' where n: "v2_Now os w = (n, w')" by (cases "v2_Now os w")
  obtain m w'' where m: "v2_Now os w' = (m, w'')" by (cases "v2_Now os w'")
  have 4: "v2_learn os start r2 (with_intel q g2) w = (map_option (with_intel q) x, w1)"
    using 3 n m by (cases "se_RecordSelection (run_op r2) (run_server r2) (g2_stability g2)")
      (auto simp: v2_learn_def Let_def split: if_splits)
  show ?thesis
    by (cases x) (simp_all add: v2_deferred_def 1 2 3 4 LogAudit_def Let_def split: prod.split)
qed

lemma process_passive:
  "\<exists>q'. v2_Process os req (with_intel q g) w =
     (case v2_Process os req g w of (None, w') \<Rightarrow> (None, w') | (Some (resp, g'), w') \<Rightarrow> (Some (resp, with_intel q' g'), w'))"
proof -
  obtain start w1 where 1: "v2_Now os w = (start, w1)" by (cases "v2_Now os w")
  obtain req' w2 where 2: "trace_ids os req w1 = (req', w2)" by (cases "trace_ids os req w1")
  obtain p r g1 w3 where 3: "v2_body os start (init_run req') g w2 = (p, r, g1, w3)" by (rule prod_cases4)
  from body_passive [OF this, of q] obtain q' where "v2_body os start (init_run req') (with_intel q g) w2 = (p, r, with_intel q' g1, w3)" by blast
  then show ?thesis by (auto simp: v2_Process_def 1 2 3 deferred_passive intro!: exI [of _ q'])
qed

text \<open>The responses to a sequence of requests, up to the first that is not answered.\<close>

fun v2_responses :: "'w v2sys \<Rightarrow> V2Request list \<Rightarrow> 'w Gateway2 \<Rightarrow> 'w \<Rightarrow> V2Response list" where
  "v2_responses os [] g w = []"
| "v2_responses os (req # reqs) g w =
     (case v2_Process os req g w of
        (None, w') \<Rightarrow> []
      | (Some (resp, g'), w') \<Rightarrow> resp # v2_responses os reqs g' w')"

text \<open>
  The policy intelligence is passive: whatever it has recorded, the responses to every sequence of requests are the
  same, traces and chosen servers included.
\<close>
theorem policy_intelligence_passive:
  "v2_responses os reqs (g\<lparr>g2_policyIntel := q\<rparr>) w = v2_responses os reqs g w"
proof (induction reqs arbitrary: g q w)
  case (Cons req reqs)
  obtain q' where "v2_Process os req (with_intel q g) w =
     (case v2_Process os req g w of (None, w') \<Rightarrow> (None, w') | (Some (resp, g'), w') \<Rightarrow> (Some (resp, with_intel q' g'), w'))"
    using process_passive [of os req q g w] by (elim exE)
  then show ?case by (auto simp: Cons.IH split: option.split prod.split)
qed simp

subsection \<open>The server with the best score\<close>

lemma sort_key_Cons:
  assumes "sort_key f xs = y # ys"
  shows "y \<in> set xs \<and> (\<forall>x \<in> set xs. f y \<le> f x)"
proof -
  have "sorted (map f (y # ys))" "set xs = set (y # ys)"
    using assms sorted_sort_key [of f xs] set_sort [of f xs] by metis+
  then show ?thesis by auto
qed

lemma sort_key_Nil: "sort_key f xs = [] \<longleftrightarrow> xs = []"
  using length_sort [of f xs] by (metis length_0_conv)

lemma select_best:
  assumes "selectBestServer fmt g op kn cs tr = Some (c, tr')"
  shows "c \<in> set cs \<and> (\<forall>d \<in> set cs. routing_score fmt g op kn d \<le> routing_score fmt g op kn c)"
proof -
  let ?ps = "map (\<lambda>c. (c, routing_score fmt g op kn c)) cs"
  obtain s rest where "sort_key (\<lambda>(c, s). - s) ?ps = (c, s) # rest"
    using assms by (auto simp: selectBestServer_def Let_def split: list.splits prod.splits)
  from sort_key_Cons [OF this] show ?thesis by auto
qed

lemma select_None: "selectBestServer fmt g op kn cs tr = None \<longleftrightarrow> cs = []"
  by (auto simp: selectBestServer_def Let_def sort_key_Nil split: list.split prod.split)

lemma override_result:
  fixes os :: "'w v2sys" and g :: "'w Gateway2" and r :: V2Run
  defines "score \<equiv> routing_score (v2_Number os) g (va_Operation (vr_Action (run_req r))) (vc_Knowledge (vr_Context (run_req r)))"
  assumes kn: "vc_Knowledge (vr_Context (run_req r)) \<noteq> []"
    and range: "set (fst (v2_Range os (ListAll (g2_router g)) w)) = set (ListAll (g2_router g))"
    and cap: "cap \<in> set (ListAll (g2_router g))" and inj: "inj_on cap_Server (set (ListAll (g2_router g)))"
  obtains cap' r' w' where "v2_override os g cap r w = (Some (cap', r'), w')" "cap' \<in> set (ListAll (g2_router g))"
    "\<forall>d \<in> set (ListAll (g2_router g)). score d \<le> score cap'" "cap' = cap \<or> score cap < score cap'"
proof -
  let ?L = "set (ListAll (g2_router g))"
  obtain cs w1 where 1: "v2_Range os (ListAll (g2_router g)) w = (cs, w1)" by (cases "v2_Range os (ListAll (g2_router g)) w")
  with range have cs: "set cs = ?L" by simp
  with cap have "cs \<noteq> []" by auto
  then obtain x where "selectBestServer (v2_Number os) g (va_Operation (vr_Action (run_req r))) (vc_Knowledge (vr_Context (run_req r))) cs (run_trace r) = Some x"
    using select_None by blast
  then obtain c tr where 2: "selectBestServer (v2_Number os) g (va_Operation (vr_Action (run_req r))) (vc_Knowledge (vr_Context (run_req r))) cs (run_trace r)
      = Some (c, tr)" by (cases x) auto
  have c: "c \<in> ?L" "\<forall>d \<in> ?L. score d \<le> score c" using select_best [OF 2] by (auto simp: score_def cs)
  have same: "c = cap" if "cap_Server c = cap_Server cap" using that c(1) cap inj by (auto dest: inj_onD)
  show thesis
  proof (cases "cap_Server c \<noteq> cap_Server cap \<and> score cap < score c")
    case True
    then have "\<exists>r'. v2_override os g cap r w = (Some (c, r'), w1)" using kn 1 2 by (simp add: v2_override_def Let_def score_def)
    then show thesis using that c True by blast
  next
    case False
    then have "\<exists>r'. v2_override os g cap r w = (Some (cap, r'), w1)" using kn 1 2 by (auto simp: v2_override_def Let_def score_def)
    moreover have "score c \<le> score cap" using False same by (cases "cap_Server c = cap_Server cap") auto
    then have "\<forall>d \<in> ?L. score d \<le> score cap" using c(2) order_trans by blast
    ultimately show thesis using that [of cap] cap by blast
  qed
qed

text \<open>C33:
  With knowledge to go by, the server that is called is one of the best by score, whatever type of action was asked
  for: the table of routes only decides between it and a server that is no better.
\<close>
theorem override_takes_best:
  assumes "v2_override os g cap r w = (Some (cap', r'), w')" and "vc_Knowledge (vr_Context (run_req r)) \<noteq> []"
    and "set (fst (v2_Range os (ListAll (g2_router g)) w)) = set (ListAll (g2_router g))"
    and "cap \<in> set (ListAll (g2_router g))" and "inj_on cap_Server (set (ListAll (g2_router g)))"
  defines "score \<equiv> routing_score (v2_Number os) g (va_Operation (vr_Action (run_req r))) (vc_Knowledge (vr_Context (run_req r)))"
  shows "cap' \<in> set (ListAll (g2_router g)) \<and> score cap' = Max (score ` set (ListAll (g2_router g))) \<and>
    (cap' = cap \<or> score cap < score cap')"
proof -
  have "cap' \<in> set (ListAll (g2_router g)) \<and> (\<forall>d \<in> set (ListAll (g2_router g)). score d \<le> score cap') \<and> (cap' = cap \<or> score cap < score cap')"
    by (rule override_result [OF assms(2-5)]) (use assms(1) in \<open>simp add: score_def\<close>)
  moreover from this have "Max (score ` set (ListAll (g2_router g))) = score cap'" by (intro Max_eqI) auto
  ultimately show ?thesis by simp
qed

subsection \<open>Scores without documents\<close>

lemma prefix_length: "has_prefix s p \<Longrightarrow> length p \<le> length s"
  by (auto simp: has_prefix_iff)

lemma str_contains_length: "str_contains s v \<Longrightarrow> length v \<le> length s"
proof (induction s)
  case (Cons c s)
  then show ?case using prefix_length [of "c # s" v] by auto
qed simp

lemma no_documents:
  assumes "kd_Results d = AnyMap []" and "cap \<in> set (ListAll NewRouter)"
  shows "scoreCapability fmt op cap [d] wt = (if op \<in> set (cap_Capabilities cap) then sw_CapabilityFit wt else 0)"
proof -
  have k: "to_lower (flattenKnowledge fmt [d]) = ''{}''" "to_lower (any_text fmt (kd_Results d)) = ''map[]''"
    by (simp_all add: flattenKnowledge_def assms(1) to_lower_def lower_char_def)
  have m: "\<not> str_contains ''map[]'' (to_lower (cap_Server cap))"
    using assms(2) by (auto simp: ListAll_def NewRouter_def capability_def to_lower_def lower_char_def)
  have "filter (\<lambda>v. length v > 2 \<and> str_contains ''{}'' v) (server_words cap) = []"
    using str_contains_length [of "''{}''"] by (fastforce simp: filter_empty_conv simp del: str_contains.simps)
  then have "length (filter (\<lambda>v. length v > 2 \<and> str_contains (to_lower (flattenKnowledge fmt [d])) v) (server_words cap)) = 0"
    by (simp only: k list.size)
  then show ?thesis using m by (simp add: scoreCapability_def k(2) Let_def del: str_contains.simps)
qed

text \<open>What the scores look like in a gateway whose stability engine has no oscillation: the fit and the bonus of the server.\<close>

definition bonus :: "'w Gateway2 \<Rightarrow> string \<Rightarrow> real" where
  "bonus g server =
     AdjustScoreWithRate (g2_exploration g) server 0 (EffectiveRate (g2_stability g) server (es_ExplorationRate (g2_exploration g))) +
     gm_at 0 (se_stabilityBias (g2_stability g)) server"

lemma AdjustScore_base: "AdjustScoreWithRate es server x rate = x + AdjustScoreWithRate es server 0 rate"
  by (simp add: AdjustScoreWithRate_def Let_def)

lemma score_no_documents:
  assumes "kd_Results d = AnyMap []" and "cap \<in> set (ListAll NewRouter)" and "OscillationCount (g2_stability g) op = 0"
    and "sw_CapabilityFit (WeightsFor (g2_learning g) (cap_Server cap)) = 30 / 100"
  shows "routing_score fmt g op [d] cap = (if op \<in> set (cap_Capabilities cap) then 30 / 100 else 0) + bonus g (cap_Server cap)"
proof -
  let ?fit = "if op \<in> set (cap_Capabilities cap) then 30 / 100 else 0 :: real"
  have "scoreCapability fmt op cap [d] (WeightsFor (g2_learning g) (cap_Server cap)) = ?fit"
    by (simp only: no_documents [OF assms(1,2)] assms(4))
  then show ?thesis using assms(3) AdjustScore_base [of "g2_exploration g" "cap_Server cap" ?fit]
    by (simp add: routing_score_def se_AdjustScore_def OscillationCount_def bonus_def Let_def)
qed

lemma bonus_new:
  assumes "g2_exploration g = NewExplorationState (10 / 100)" "g2_stability g = NewStabilityEngine (2 / 100) 20"
  shows "bonus g server = 10 / 100"
  by (simp add: assms bonus_def NewExplorationState_def NewStabilityEngine_def AdjustScoreWithRate_def EffectiveRate_def Let_def)

lemma stability_first:
  "se_RecordSelection op s (NewStabilityEngine (2 / 100) 20) =
     Some \<lparr>se_decayRate = 2 / 100, se_windowSize = 20, se_usageCount = [(s, 1)], se_operationHistory = [(op, [s])],
       se_convergenceScore = [(op, 1)], se_oscillationCount = [(op, 0)], se_stabilityBias = [(s, 1 / 100)]\<rparr>"
  by (simp add: se_RecordSelection_def NewStabilityEngine_def window_push_def computeConvergence_def name_counts_def
      detectOscillation_def Let_def gm_put_def)

lemma bonus_after_one:
  assumes "g2_exploration g = es_RecordSelection s (NewExplorationState (10 / 100))"
    and "Some (g2_stability g) = se_RecordSelection op s (NewStabilityEngine (2 / 100) 20)"
  shows "server \<noteq> s \<Longrightarrow> bonus g server = 10 / 100" "bonus g s < 1 / 100" "OscillationCount (g2_stability g) op = 0"
proof -
  have g: "es_selectionCount (g2_exploration g) = [(s, 1)]" "es_totalSelections (g2_exploration g) = 1"
    "es_ExplorationRate (g2_exploration g) = 10 / 100" "se_usageCount (g2_stability g) = [(s, 1)]" "se_stabilityBias (g2_stability g) = [(s, 1 / 100)]"
    "se_oscillationCount (g2_stability g) = [(op, 0)]" "se_decayRate (g2_stability g) = 2 / 100"
    using assms(1) assms(2) [unfolded stability_first] by (simp_all add: es_RecordSelection_def NewExplorationState_def gm_put_def)
  show "OscillationCount (g2_stability g) op = 0" by (simp add: OscillationCount_def g gm_at_def gm_get_def)
  show "bonus g server = 10 / 100" if "server \<noteq> s"
    using that by (simp add: bonus_def g AdjustScoreWithRate_def EffectiveRate_def Let_def gm_at_def gm_get_def)
  have "0 < EffectiveRate (g2_stability g) s (10 / 100)" by (simp add: EffectiveRate_def Let_def)
  then show "bonus g s < 1 / 100" by (simp add: bonus_def g AdjustScoreWithRate_def gm_at_def gm_get_def)
qed

subsection \<open>A served request\<close>

lemma knowledge_unconfigured:
  assumes "gm_get (g2_servers g) ''chroma'' = Some (ChromaServer c)" "unconfigured c"
    and "vc_Knowledge (vr_Context (run_req r)) = []" "v2_knowledge os g r w = (p, r', w')"
  obtains d where "vc_Knowledge (vr_Context (run_req r')) = [d]" "kd_Results d = AnyMap []" "p = None"
proof -
  obtain k w1 where 1: "v2_Now os w = (k, w1)" by (cases "v2_Now os w")
  obtain n w3 where 2: "v2_Now os w1 = (n, w3)" by (cases "v2_Now os w1")
  show thesis using assms 1 2 that by (auto simp: v2_knowledge_def QueryKnowledge_def queryDocs_def Let_def)
qed

lemma serve_served:
  assumes "v2_serve os start cap r g w = (p, r', g', w')" and "gm_get (g2_servers g) (cap_Server cap) \<noteq> None"
    and "er_Allowed (enf_Check (g2_enforcement g) (cap_Server cap) (full_op (run_req r)))"
  shows "run_server r' = cap_Server cap \<and> run_op r' = va_Operation (vr_Action (run_req r)) \<and> vs_Server (run_resp r') = cap_Server cap \<and>
    g2_exploration g' = es_RecordSelection (cap_Server cap) (g2_exploration g) \<and> g2_rateLimiter g' = g2_rateLimiter g \<and>
    (\<exists>s. gm_get (g2_servers g') = (gm_get (g2_servers g))(cap_Server cap \<mapsto> s))"
proof -
  obtain server where s: "gm_get (g2_servers g) (cap_Server cap) = Some server" using assms(2) by blast
  let ?r = "trace_step ''enforcement'' ''allowed'' [] (v2_routed (cap_Server cap) r)"
  let ?g = "v2_observed (cap_Server cap) (run_req r) (enf_Check (g2_enforcement g) (cap_Server cap) (full_op (run_req r))) g"
  note rf = routed_fields [of "cap_Server cap" r]
  have c: "v2_call os start (cap_Server cap) server ?r ?g w = (p, r', g', w')"
    using assms s rf by (simp add: v2_serve_def Let_def)
  define ctx where "ctx = (vr_Context (run_req ?r))\<lparr>vc_TimeoutMs := vm_Timeout (vr_Meta (run_req ?r))\<rparr>"
  obtain res server' w1 where 1: "v2_Execute os server (full_op ((run_req ?r)\<lparr>vr_Context := ctx\<rparr>)) (vr_Parameters (run_req ?r)) ctx w = (res, server', w1)"
    by (rule prod_cases3)
  obtain n w2 where 2: "v2_Now os w1 = (n, w2)" by (cases "v2_Now os w1")
  have "g' = ?g\<lparr>g2_servers := gm_put (cap_Server cap) server' (g2_servers ?g)\<rparr>"
    using c 1 2 by (cases res) (auto simp: v2_call_def Let_def ctx_def)
  then show ?thesis using call_run [OF c] rf by (auto simp: v2_observed_def Let_def)
qed

lemma admitted_run:
  assumes "\<not> refused router (run_req r)"
    and "Resolve router (va_Type (vr_Action (run_req r))) (va_Operation (vr_Action (run_req r))) = Inr cap"
  obtains r1 where "v2_admit router r = Inr (cap, r1)" "run_req r1 = run_req r"
  using assms by (auto simp: refused_def v2_admit_def Let_def)

lemma override_limiter: "v2_override os (g\<lparr>g2_rateLimiter := tb\<rparr>) cap r w = v2_override os g cap r w"
proof -
  have "routing_score fmt (g\<lparr>g2_rateLimiter := tb\<rparr>) = routing_score fmt g" for fmt by (intro ext) (simp add: routing_score_def)
  moreover have "g2_router (g\<lparr>g2_rateLimiter := tb\<rparr>) = g2_router g" by simp
  ultimately show ?thesis unfolding v2_override_def selectBestServer_def by (simp only:)
qed

text \<open>
  A gateway without enforcement rules and without a configured Chroma, whose limiter has tokens, and a request with
  no knowledge of its own that it admits; the servers its selection may end with.
\<close>

definition plain :: "'w v2sys \<Rightarrow> 'w Gateway2 \<Rightarrow> V2Request \<Rightarrow> Capability \<Rightarrow> bool" where
  "plain os g req cap \<longleftrightarrow>
     (\<forall>w. fst (TryTake (fst (v2_Now os w)) (g2_rateLimiter g))) \<and> \<not> refused (g2_router g) req \<and>
     Resolve (g2_router g) (va_Type (vr_Action req)) (va_Operation (vr_Action req)) = Inr cap \<and>
     (\<exists>c. gm_get (g2_servers g) ''chroma'' = Some (ChromaServer c) \<and> unconfigured c) \<and> vc_Knowledge (vr_Context req) = [] \<and>
     g2_enforcement g = [] \<and> 0 < se_windowSize (g2_stability g)"

definition selects :: "'w v2sys \<Rightarrow> 'w Gateway2 \<Rightarrow> V2Request \<Rightarrow> Capability \<Rightarrow> (Capability \<Rightarrow> bool) \<Rightarrow> bool" where
  "selects os g req cap P \<longleftrightarrow>
     (\<forall>d r w. kd_Results d = AnyMap [] \<and> vc_Knowledge (vr_Context (run_req r)) = [d] \<and> vr_Action (run_req r) = vr_Action req \<longrightarrow>
       (\<exists>cap' r' w'. v2_override os g cap r w = (Some (cap', r'), w') \<and> P cap' \<and> gm_get (g2_servers g) (cap_Server cap') \<noteq> None \<and>
          cap_Server cap' \<noteq> []))"

lemma body_served:
  assumes pl: "plain os g req cap" and sel: "selects os g req cap P"
    and req': "req' = req\<lparr>vr_Meta := (vr_Meta req)\<lparr>vm_TraceID := t, vm_SpanID := s\<rparr>\<rparr>"
  obtains p r4 g4 w6 cap' srv where "v2_body os start (init_run req') g w = (p, r4, g4, w6)" "P cap'" "cap_Server cap' \<noteq> []"
    "run_server r4 = cap_Server cap'" "run_op r4 = va_Operation (vr_Action req)" "vs_Server (run_resp r4) = cap_Server cap'"
    "g2_exploration g4 = es_RecordSelection (cap_Server cap') (g2_exploration g)"
    "g2_rateLimiter g4 = snd (TryTake (fst (v2_Now os w)) (g2_rateLimiter g))"
    "gm_get (g2_servers g4) = (gm_get (g2_servers g))(cap_Server cap' \<mapsto> srv)"
proof -
  obtain now w3 where 3: "v2_Now os w = (now, w3)" by (cases "v2_Now os w")
  have "fst (TryTake now (g2_rateLimiter g))" using pl 3 unfolding plain_def by (metis fst_conv)
  then obtain tb where 4: "TryTake now (g2_rateLimiter g) = (True, tb)" by (cases "TryTake now (g2_rateLimiter g)") auto
  let ?g = "g\<lparr>g2_rateLimiter := tb\<rparr>" and ?r = "trace_step ''rate_limit'' ''allowed'' [] (init_run req')"
  have r: "run_req ?r = req'" by (simp add: init_run_def)
  obtain r1 where 5: "v2_admit (g2_router g) ?r = Inr (cap, r1)" and r1: "run_req r1 = req'"
    using admitted_run [of "g2_router g" ?r cap] pl unfolding r by (auto simp: plain_def refused_def ValidateRequest_meta req')
  obtain p2 r2 w4 where 6: "v2_knowledge os ?g r1 w3 = (p2, r2, w4)" by (rule prod_cases3)
  obtain c where "gm_get (g2_servers ?g) ''chroma'' = Some (ChromaServer c)" "unconfigured c" using pl by (auto simp: plain_def)
  moreover have "vc_Knowledge (vr_Context (run_req r1)) = []" using pl by (simp add: r1 req' plain_def)
  ultimately obtain d where d: "vc_Knowledge (vr_Context (run_req r2)) = [d]" "kd_Results d = AnyMap []" "p2 = None"
    using knowledge_unconfigured [OF _ _ _ 6] by metis
  have r2: "vr_Action (run_req r2) = vr_Action req" using knowledge_run [OF 6] r1 by (simp add: kept_def req')
  obtain cap' r3 w5 where 7: "v2_override os ?g cap r2 w4 = (Some (cap', r3), w5)" "P cap'"
      "gm_get (g2_servers g) (cap_Server cap') \<noteq> None" "cap_Server cap' \<noteq> []"
    using sel d(1,2) r2 unfolding selects_def override_limiter by metis
  obtain p r4 g4 w6 where 8: "v2_serve os start cap' r3 ?g w5 = (p, r4, g4, w6)" by (rule prod_cases4)
  have a: "er_Allowed (enf_Check (g2_enforcement ?g) (cap_Server cap') (full_op (run_req r3)))"
    using pl by (simp add: plain_def enf_Check_def gm_get_def)
  have "v2_body os start (init_run req') g w = (p, r4, g4, w6)" using 3 4 5 6 d(3) 7(1) 8 by (simp add: v2_body_def Let_def)
  then show thesis using serve_served [OF 8 _ a] 7 override_run [OF 7(1)] r2 3 4 by (auto intro: that)
qed

lemma process_served:
  assumes pl: "plain os g req cap" and sel: "selects os g req cap P"
  obtains resp g' w' cap' w0 s oc where "v2_Process os req g w = (Some (resp, g'), w')" "P cap'" "vs_Server resp = cap_Server cap'"
    "g2_rateLimiter g' = snd (TryTake (fst (v2_Now os w0)) (g2_rateLimiter g))" "g2_router g' = g2_router g" "g2_enforcement g' = []"
    "g2_exploration g' = es_RecordSelection (cap_Server cap') (g2_exploration g)"
    "Some (g2_stability g') = se_RecordSelection (va_Operation (vr_Action req)) (cap_Server cap') (g2_stability g)"
    "g2_learning g' = le_Update oc (g2_learning g)" "gm_get (g2_servers g') = (gm_get (g2_servers g))(cap_Server cap' \<mapsto> s)"
proof -
  obtain start w1 where 1: "v2_Now os w = (start, w1)" by (cases "v2_Now os w")
  obtain req' w2 where 2: "trace_ids os req w1 = (req', w2)" by (cases "trace_ids os req w1")
  obtain t u where req': "req' = req\<lparr>vr_Meta := (vr_Meta req)\<lparr>vm_TraceID := t, vm_SpanID := u\<rparr>\<rparr>" using trace_ids_meta [OF 2] by metis
  obtain p r4 g4 w6 cap' s where body: "v2_body os start (init_run req') g w2 = (p, r4, g4, w6)" "P cap'" "cap_Server cap' \<noteq> []"
      and r4: "run_server r4 = cap_Server cap'" "run_op r4 = va_Operation (vr_Action req)" "vs_Server (run_resp r4) = cap_Server cap'"
      and g4: "g2_exploration g4 = es_RecordSelection (cap_Server cap') (g2_exploration g)"
        "g2_rateLimiter g4 = snd (TryTake (fst (v2_Now os w2)) (g2_rateLimiter g))"
        "gm_get (g2_servers g4) = (gm_get (g2_servers g))(cap_Server cap' \<mapsto> s)"
    by (rule body_served [OF pl sel req', of start w2]) blast
  obtain r5 g5 where 9: "v2_recover p r4 g4 = (r5, g5)" by (cases "v2_recover p r4 g4")
  have r5: "run_server r5 = cap_Server cap'" "run_op r5 = va_Operation (vr_Action req)" "vs_Server (run_resp r5) = cap_Server cap'"
    using 9 r4 by (cases p; auto simp: v2_recover_def)+
  obtain n where g5: "g5 = g4\<lparr>g2_panics := n\<rparr>" using 9 by (cases p) (auto simp: v2_recover_def intro: that [of "g2_panics g4"] that)
  obtain se where se: "se_RecordSelection (va_Operation (vr_Action req)) (cap_Server cap') (g2_stability g) = Some se"
    using record_selection_Some pl unfolding plain_def by metis
  obtain n1 w7 where 11: "v2_Now os w6 = (n1, w7)" by (cases "v2_Now os w6")
  obtain n2 w8 where 12: "v2_Now os w7 = (n2, w8)" by (cases "v2_Now os w7")
  obtain n3 w9 where 13: "v2_Now os w8 = (n3, w9)" by (cases "v2_Now os w8")
  obtain n4 w10 where 14: "v2_Now os w9 = (n4, w10)" by (cases "v2_Now os w9")
  note gk = body_run [OF body(1)]
  obtain oc where learn: "v2_learn os start r5 g5 w6 = (Some (g5\<lparr>g2_learning := le_Update oc (g2_learning g), g2_stability := se\<rparr>), w8)"
    using body(3) r5 g5 11 12 se gk by (simp add: v2_learn_def gkept_def Let_def)
  have "v2_Process os req g w = (Some ((run_resp r5)\<lparr>vs_DecisionTrace := Some (run_trace r5)\<rparr>,
      LogAudit (v2_audit n3 (since_ms start n4) r5) (g5\<lparr>g2_learning := le_Update oc (g2_learning g), g2_stability := se\<rparr>)), w10)"
    by (simp add: v2_Process_def 1 2 body(1) v2_deferred_def 9 learn 13 14)
  then show thesis
    by (rule that [where cap' = cap' and ?w0.0 = w2 and oc = oc and s = s])
      (use body(2) r5 g4 g5 se gk pl in \<open>auto simp: LogAudit_def gkept_def plain_def\<close>)
qed

subsection \<open>A repeated delete leaves the memory server\<close>

definition memory_cap :: Capability where
  "memory_cap = capability ''memory'' [''store'', ''retrieve'', ''delete'', ''list'']"

lemma NewRouter_caps:
  "memory_cap \<in> set (ListAll NewRouter)" "inj_on cap_Server (set (ListAll NewRouter))"
  "c \<in> set (ListAll NewRouter) \<Longrightarrow> ''delete'' \<in> set (cap_Capabilities c) \<Longrightarrow> cap_Server c \<in> {''filesystem'', ''memory'', ''chroma''}"
  "\<exists>c \<in> set (ListAll NewRouter). cap_Server c = ''filesystem'' \<and> ''delete'' \<in> set (cap_Capabilities c)"
  "c \<in> set (ListAll NewRouter) \<Longrightarrow> cap_Server c \<in> {''git'', ''filesystem'', ''memory'', ''github'', ''fetch'', ''context7'', ''postgres'', ''chroma''}"
  by (auto simp: ListAll_def NewRouter_def capability_def memory_cap_def inj_on_def)

text \<open>A gateway with the default routes and fits; its servers stand under their names.\<close>

definition default_routes :: "'w v2sys \<Rightarrow> 'w Gateway2 \<Rightarrow> bool" where
  "default_routes os g \<longleftrightarrow> g2_router g = NewRouter \<and> (\<forall>s. sw_CapabilityFit (WeightsFor (g2_learning g) s) = 30 / 100) \<and>
     (\<forall>l w. set (fst (v2_Range os l w)) = set l) \<and>
     (\<forall>c \<in> set (ListAll NewRouter). gm_get (g2_servers g) (cap_Server c) \<noteq> None)"

lemma selects_best:
  assumes g: "default_routes os g" and del: "va_Operation (vr_Action req) = ''delete''"
    and osc: "OscillationCount (g2_stability g) ''delete'' = 0"
    and P: "\<And>cap'. cap' \<in> set (ListAll NewRouter) \<Longrightarrow>
      \<forall>d \<in> set (ListAll NewRouter). fit d + bonus g (cap_Server d) \<le> fit cap' + bonus g (cap_Server cap') \<Longrightarrow>
      cap' = memory_cap \<or> fit memory_cap + bonus g ''memory'' < fit cap' + bonus g (cap_Server cap') \<Longrightarrow> P cap'"
    and fit: "\<And>c. fit c = (if ''delete'' \<in> set (cap_Capabilities c) then 30 / 100 else 0 :: real)"
  shows "selects os g req memory_cap P"
  unfolding selects_def
proof (intro allI impI, elim conjE)
  fix d and r :: V2Run and w
  assume d: "kd_Results d = AnyMap []" "vc_Knowledge (vr_Context (run_req r)) = [d]" "vr_Action (run_req r) = vr_Action req"
  have r: "g2_router g = NewRouter" using g by (simp add: default_routes_def)
  have s: "routing_score (v2_Number os) g ''delete'' [d] c = fit c + bonus g (cap_Server c)" if "c \<in> set (ListAll NewRouter)" for c
    using score_no_documents [OF d(1) that osc] g unfolding default_routes_def fit by blast
  obtain cap' r' w' where o: "v2_override os g memory_cap r w = (Some (cap', r'), w')" "cap' \<in> set (ListAll NewRouter)"
      and best: "\<forall>x \<in> set (ListAll NewRouter). routing_score (v2_Number os) g ''delete'' [d] x \<le> routing_score (v2_Number os) g ''delete'' [d] cap'"
        "cap' = memory_cap \<or> routing_score (v2_Number os) g ''delete'' [d] memory_cap < routing_score (v2_Number os) g ''delete'' [d] cap'"
    by (rule override_result [of r os g w memory_cap]) (use g d del NewRouter_caps(1,2) in \<open>auto simp: default_routes_def r\<close>)
  have "cap_Server memory_cap = ''memory''" by (simp add: memory_cap_def capability_def)
  then have "P cap'" using P [OF o(2)] best s [OF o(2)] s [OF NewRouter_caps(1)] by (simp add: s cong: ball_cong)
  moreover have "gm_get (g2_servers g) (cap_Server cap') \<noteq> None" using g o(2) by (simp add: default_routes_def)
  moreover have "cap_Server cap' \<noteq> []" using NewRouter_caps(5) [OF o(2)] by auto
  ultimately show "\<exists>cap' r' w'. v2_override os g memory_cap r w = (Some (cap', r'), w') \<and> P cap' \<and> gm_get (g2_servers g) (cap_Server cap') \<noteq> None \<and>
      cap_Server cap' \<noteq> []" using o(1) by blast
qed

lemma selects_first:
  assumes g: "default_routes os g" "va_Operation (vr_Action req) = ''delete''"
    and new: "g2_exploration g = NewExplorationState (10 / 100)" "g2_stability g = NewStabilityEngine (2 / 100) 20"
  shows "selects os g req memory_cap (\<lambda>c. c = memory_cap)"
proof (rule selects_best [OF g])
  show "OscillationCount (g2_stability g) ''delete'' = 0" by (simp add: new OscillationCount_def NewStabilityEngine_def)
  have "''delete'' \<in> set (cap_Capabilities memory_cap)" by (simp add: memory_cap_def capability_def)
  then show "cap' = memory_cap \<or> (if ''delete'' \<in> set (cap_Capabilities memory_cap) then 30 / 100 else 0) + bonus g ''memory''
      < (if ''delete'' \<in> set (cap_Capabilities cap') then 30 / 100 else 0) + bonus g (cap_Server cap') \<Longrightarrow> cap' = memory_cap" for cap'
    by (simp add: bonus_new [OF new] split: if_splits)
qed simp

lemma selects_second:
  assumes g: "default_routes os g" "va_Operation (vr_Action req) = ''delete''"
    and one: "g2_exploration g = es_RecordSelection ''memory'' (NewExplorationState (10 / 100))"
      "Some (g2_stability g) = se_RecordSelection ''delete'' ''memory'' (NewStabilityEngine (2 / 100) 20)"
  shows "selects os g req memory_cap (\<lambda>c. cap_Server c \<in> {''filesystem'', ''chroma''})"
proof (rule selects_best [OF g])
  show "OscillationCount (g2_stability g) ''delete'' = 0" using bonus_after_one(3) [OF one] .
  define fit where "fit = (\<lambda>c :: Capability. if ''delete'' \<in> set (cap_Capabilities c) then 30 / 100 else 0 :: real)"
  fix cap' assume c: "cap' \<in> set (ListAll NewRouter)"
    and "\<forall>d \<in> set (ListAll NewRouter). (if ''delete'' \<in> set (cap_Capabilities d) then 30 / 100 else 0) + bonus g (cap_Server d)
      \<le> (if ''delete'' \<in> set (cap_Capabilities cap') then 30 / 100 else 0) + bonus g (cap_Server cap')"
  then have best: "\<forall>d \<in> set (ListAll NewRouter). fit d + bonus g (cap_Server d) \<le> fit cap' + bonus g (cap_Server cap')"
    by (simp add: fit_def)
  obtain f where f: "f \<in> set (ListAll NewRouter)" "cap_Server f = ''filesystem''" "''delete'' \<in> set (cap_Capabilities f)"
    using NewRouter_caps(4) by blast
  have "fit f + bonus g (cap_Server f) = 40 / 100" using f bonus_after_one(1) [OF one, of "''filesystem''"] by (simp add: fit_def)
  then have b: "40 / 100 \<le> fit cap' + bonus g (cap_Server cap')" using best f(1) by fastforce
  have m: "cap_Server cap' \<noteq> ''memory''" using b bonus_after_one(2) [OF one] by (auto simp: fit_def split: if_splits)
  then have "bonus g (cap_Server cap') = 10 / 100" using bonus_after_one(1) [OF one] by blast
  then have "''delete'' \<in> set (cap_Capabilities cap')" using b by (simp add: fit_def split: if_splits)
  then show "cap_Server cap' \<in> {''filesystem'', ''chroma''}" using NewRouter_caps(3) [OF c] m by auto
qed simp

lemma limiter_lets:
  assumes "\<bar>now - tb_lastRefill tb\<bar> \<le> 100000000" "tb_refillRate tb = 5000" "tb_maxTokens tb = 10000" "501 \<le> tb_tokens tb"
  shows "fst (TryTake now tb)" "tb_tokens (snd (TryTake now tb)) \<ge> min 9999 (tb_tokens tb - 501)"
proof -
  have "- 1 / 10 \<le> seconds (now - tb_lastRefill tb)" using assms(1) by (simp add: seconds_def field_simps abs_le_iff)
  then have "- 500 \<le> seconds (now - tb_lastRefill tb) * tb_refillRate tb" using assms(2) by simp
  then show "fst (TryTake now tb)" "tb_tokens (snd (TryTake now tb)) \<ge> min 9999 (tb_tokens tb - 501)"
    using assms(3,4) by (auto simp: TryTake_def Let_def)
qed

lemma NewGateway_fields:
  assumes "NewGateway os w = (g, w')"
  shows "g2_router g = NewRouter" "g2_exploration g = NewExplorationState (10 / 100)" "g2_stability g = NewStabilityEngine (2 / 100) 20"
    "g2_enforcement g = []" "g2_learning g = []" "g2_rateLimiter g = NewTokenBucket 10000 5000 (fst (v2_Now os w))"
    "gm_get (g2_servers g) ''chroma'' = Some (ChromaServer (NewChromaAdapter os))"
    "c \<in> set (ListAll NewRouter) \<Longrightarrow> gm_get (g2_servers g) (cap_Server c) \<noteq> None"
proof -
  obtain now w1 where 1: "v2_Now os w = (now, w1)" by (cases "v2_Now os w")
  obtain mem w2 where 2: "NewMemoryServer os [] w1 = (mem, w2)" by (cases "NewMemoryServer os [] w1")
  obtain c7 w3 where 3: "NewContext7Server os w2 = (c7, w3)" by (cases "NewContext7Server os w2")
  note d = assms [unfolded NewGateway_def registerDefaults_def 1 Let_def split 2 3]
  show "g2_router g = NewRouter" "g2_exploration g = NewExplorationState (10 / 100)" "g2_stability g = NewStabilityEngine (2 / 100) 20"
    "g2_enforcement g = []" "g2_learning g = []" "g2_rateLimiter g = NewTokenBucket 10000 5000 (fst (v2_Now os w))"
    "gm_get (g2_servers g) ''chroma'' = Some (ChromaServer (NewChromaAdapter os))"
    using d by (auto simp: NewEnforcementEngine_def NewLearningEngine_def 1)
  show "gm_get (g2_servers g) (cap_Server c) \<noteq> None" if "c \<in> set (ListAll NewRouter)"
    using d NewRouter_caps(5) [OF that] by auto
qed

lemma fits_stay:
  "(\<forall>s. sw_CapabilityFit (WeightsFor le s) = 30 / 100) \<Longrightarrow> sw_CapabilityFit (WeightsFor (le_Update oc le) s) = 30 / 100"
  by (simp add: WeightsFor_Update)

text \<open>  On a new gateway without Chroma, the first valid and allowed \<open>memory.delete\<close> goes to the memory server, and the
  second, the same request, to the file system or to Chroma: the exploration bonus prefers the servers not yet used that
  support an operation of that name. Neither the policy of the request nor an enforcement rule is asked about them.
\<close>
theorem repeated_delete_leaves_memory:
  assumes new: "NewGateway os w0 = (g, w)" and key: "v2_Getenv os ''CHROMA_API_KEY'' = []"
    and range: "\<forall>l w. set (fst (v2_Range os l w)) = set l"
    and clock: "\<forall>w. t \<le> fst (v2_Now os w) \<and> fst (v2_Now os w) \<le> t + 100000000"
    and req: "\<not> refused NewRouter req" "va_Type (vr_Action req) = ''memory''" "va_Operation (vr_Action req) = ''delete''"
      "vc_Knowledge (vr_Context req) = []"
  shows "\<exists>resp1 g1 w1 resp2 g2 w2.
    v2_Process os req g w = (Some (resp1, g1), w1) \<and> vs_Server resp1 = ''memory'' \<and>
    v2_Process os req g1 w1 = (Some (resp2, g2), w2) \<and> vs_Server resp2 \<in> {''filesystem'', ''chroma''}"
proof -
  note f = NewGateway_fields [OF new]
  have route: "Resolve NewRouter ''memory'' ''delete'' = Inr memory_cap"
    by (simp add: Resolve_def NewRouter_def gm_get_def memory_cap_def capability_def)
  have c: "unconfigured (NewChromaAdapter os)" by (simp add: unconfigured_def NewChromaAdapter_def key Let_def)
  have mem: "cap_Server memory_cap = ''memory''" by (simp add: memory_cap_def capability_def)
  have near: "\<bar>fst (v2_Now os x) - fst (v2_Now os y)\<bar> \<le> 100000000" for x y using clock [rule_format, of x] clock [rule_format, of y] by arith
  have d1: "default_routes os g" using f range by (simp add: default_routes_def WeightsFor_def default_weights_def)
  have p1: "plain os g req memory_cap"
    using limiter_lets(1) [of _ "g2_rateLimiter g"] near f req c route
    by (simp add: plain_def NewTokenBucket_def NewStabilityEngine_def)
  obtain resp1 g1 w1 cap1 x s oc where 1: "v2_Process os req g w = (Some (resp1, g1), w1)" "cap1 = memory_cap" "vs_Server resp1 = cap_Server cap1"
      and tb: "g2_rateLimiter g1 = snd (TryTake (fst (v2_Now os x)) (g2_rateLimiter g))"
      and g1: "g2_router g1 = g2_router g" "g2_enforcement g1 = []" "g2_exploration g1 = es_RecordSelection (cap_Server cap1) (g2_exploration g)"
        "Some (g2_stability g1) = se_RecordSelection (va_Operation (vr_Action req)) (cap_Server cap1) (g2_stability g)"
        "g2_learning g1 = le_Update oc (g2_learning g)" "gm_get (g2_servers g1) = (gm_get (g2_servers g))(cap_Server cap1 \<mapsto> s)"
    by (rule process_served [OF p1 selects_first [OF d1 req(3) f(2,3)], of w])
  have tb1: "tb_lastRefill (g2_rateLimiter g1) = fst (v2_Now os x)" "tb_refillRate (g2_rateLimiter g1) = 5000"
      "tb_maxTokens (g2_rateLimiter g1) = 10000"
    using TryTake_fields [of "fst (v2_Now os x)" "g2_rateLimiter g" _ "g2_rateLimiter g1"] tb f(6)
    by (metis NewTokenBucket_def TokenBucket.select_convs(2,3) prod.collapse)+
  have "501 \<le> tb_tokens (g2_rateLimiter g1)"
    using limiter_lets(2) [of "fst (v2_Now os x)" "g2_rateLimiter g"] near [of x w0] tb f(6) by (simp add: NewTokenBucket_def)
  then have lim: "fst (TryTake (fst (v2_Now os y)) (g2_rateLimiter g1))" for y
    using limiter_lets(1) [of "fst (v2_Now os y)" "g2_rateLimiter g1"] near [of y x] tb1 by simp
  have d2: "default_routes os g1" using d1 g1 fits_stay by (auto simp: default_routes_def f(1))
  have "se_windowSize (g2_stability g1) = 20" using g1(4) [unfolded f(3) stability_first] by simp
  then have p2: "plain os g1 req memory_cap" using p1 lim g1 1(2) mem by (auto simp: plain_def)
  have one: "g2_exploration g1 = es_RecordSelection ''memory'' (NewExplorationState (10 / 100))"
      "Some (g2_stability g1) = se_RecordSelection ''delete'' ''memory'' (NewStabilityEngine (2 / 100) 20)"
    using g1(3,4) 1(2) mem f(2,3) req(3) by simp_all
  obtain resp2 g2 w2 and cap2 :: Capability where "v2_Process os req g1 w1 = (Some (resp2, g2), w2)" "cap_Server cap2 \<in> {''filesystem'', ''chroma''}"
      "vs_Server resp2 = cap_Server cap2"
    by (rule process_served [OF p2 selects_second [OF d2 req(3) one], of w1]) blast
  then show ?thesis using 1 mem by auto
qed

text \<open>The file system server does not look at the type of the action: a delete of the memory is one of a path of the workspace.\<close>

lemma rerouted_delete:
  assumes "vc_Path ctx \<noteq> []" "path_abs (v2_Getwd os) (vc_Path ctx) = Some base"
  shows "fs2_Execute os ''memory.delete'' p ctx w = fs2_delete os base p w"
  using assms parseOp_full [of "''memory''" "''delete''"] by (simp add: fs2_Execute_def)

subsection \<open>An example\<close>

text \<open>A world in which nothing happens, a new gateway in it and a request whose policy denies the file system.\<close>

definition demo_os :: "unit v2sys" where
  "demo_os =
     \<lparr>v2_Getwd = None, v2_Getenv = (\<lambda>_. []), v2_ReadFile = (\<lambda>_ w. (Inl ''not found'', w)), v2_Stat = (\<lambda>_ w. (None, w)),
      v2_MkdirAll = (\<lambda>_ w. (None, w)), v2_WriteFile = (\<lambda>_ _ w. (None, w)), v2_RemoveAll = (\<lambda>_ w. (None, w)),
      v2_ReadDir = (\<lambda>_ w. (Inr [], w)), v2_Glob = (\<lambda>_ w. (Inr [], w)), v2_Command = (\<lambda>_ _ w. (Inr [], w)),
      v2_URLError = (\<lambda>_. None), v2_HTTP = (\<lambda>_ w. (Inl ''unreachable'', w)), v2_Number = (\<lambda>_. []), v2_ParseStore = (\<lambda>_. []),
      v2_Now = (\<lambda>w. (0, w)), v2_Rand = (\<lambda>n w. (replicate n 0, w)), v2_Range = (\<lambda>l w. (l, w))\<rparr>"

definition demo_gateway :: "unit Gateway2" where "demo_gateway = fst (NewGateway demo_os ())"

definition demo_req :: V2Request where
  "demo_req =
     \<lparr>vr_ID = ''r'', vr_Timestamp = ''t'', vr_Source = ''opencode'', vr_Type = ''mcp.request'',
      vr_Action = \<lparr>va_Type = ''memory'', va_Operation = ''delete'', va_Version = ''1''\<rparr>,
      vr_Context = \<lparr>vc_TenantID = [], vc_SessionID = ''s'', vc_TraceID = ''t'', vc_TimeoutMs = 0, vc_Knowledge = [], vc_Path = ''/ws'', vc_Repo = []\<rparr>,
      vr_Resource = [], vr_Parameters = [(''key'', AnyString ''k''), (''path'', AnyString ''notes'')],
      vr_Auth = \<lparr>vu_Type = ''bearer'', vu_Scope = []\<rparr>,
      vr_Policy = \<lparr>vp_Allow = [''memory.*''], vp_Deny = [''filesystem.*'', ''chroma.*'']\<rparr>,
      vr_Meta = \<lparr>vm_Priority = ''low'', vm_Timeout = 1000, vm_Retry = 0, vm_TraceID = ''t'', vm_SpanID = ''s''\<rparr>\<rparr>"

lemma demo_new: "NewGateway demo_os () = (demo_gateway, ())"
  by (cases "NewGateway demo_os ()") (simp add: demo_gateway_def)

lemma demo_valid: "ValidateRequest demo_req = None"
  by (simp add: ValidateRequest_iff demo_req_def validActionTypes_def validAuthTypes_def validPriorities_def maxTimeout_def maxRetry_def)

lemma demo_allowed: "Enforce ''memory'' ''delete'' (vr_Policy demo_req) = None"
  by (simp add: Enforce_iff policy_patterns_def demo_req_def)

lemma demo_admitted: "\<not> refused NewRouter demo_req"
  using demo_valid demo_allowed by (auto simp: refused_def demo_req_def Resolve_def NewRouter_def gm_get_def capability_def)

lemma repeated_delete_leaves_memory_witness:
  "\<exists>resp1 g1 w1 resp2 g2 w2.
    v2_Process demo_os demo_req demo_gateway () = (Some (resp1, g1), w1) \<and> vs_Server resp1 = ''memory'' \<and>
    v2_Process demo_os demo_req g1 w1 = (Some (resp2, g2), w2) \<and> vs_Server resp2 \<in> {''filesystem'', ''chroma''}"
  by (rule repeated_delete_leaves_memory [OF demo_new, of 0]) (use demo_admitted in \<open>simp_all add: demo_os_def demo_req_def\<close>)

lemma v2_fails_closed_witness:
  "\<exists>resp tb line n w'. \<forall>servers.
    v2_Process demo_os (demo_req\<lparr>vr_ID := []\<rparr>) (demo_gateway\<lparr>g2_servers := servers\<rparr>) () =
      (Some (resp, demo_gateway\<lparr>g2_servers := servers, g2_rateLimiter := tb, g2_audit := g2_audit demo_gateway @ [line], g2_rateLimited := n\<rparr>), w') \<and>
    vs_Status resp = ''error'' \<and> vs_RequestID resp = [] \<and> au_Server line = []"
  using v2_fails_closed [of demo_gateway "demo_req\<lparr>vr_ID := []\<rparr>" demo_os "()"]
  by (simp add: refused_def ValidateRequest_iff)


text \<open>Without Chroma among the servers there is no knowledge, and the delete ends with success.\<close>

definition memory_only :: "unit Gateway2" where
  "memory_only = demo_gateway\<lparr>g2_servers := [(''memory'', MemoryServer \<lparr>mem_store = [], mem_file = []\<rparr>)]\<rparr>"

lemma memory_only_fields:
  "g2_servers memory_only = [(''memory'', MemoryServer \<lparr>mem_store = [], mem_file = []\<rparr>)]" "g2_router memory_only = NewRouter"
  "g2_stability memory_only = NewStabilityEngine (2 / 100) 20" "g2_enforcement memory_only = []"
  "TryTake 0 (g2_rateLimiter memory_only) = (True, (NewTokenBucket 10000 5000 0)\<lparr>tb_tokens := 9999\<rparr>)"
  using NewGateway_fields [OF demo_new]
  by (simp_all add: memory_only_def demo_os_def TryTake_def NewTokenBucket_def seconds_def)

lemma demo_now: "v2_Now demo_os w = (0, w)"
  by (simp add: demo_os_def)

lemma demo_delete:
  "mem_Execute demo_os ''memory.delete'' (vr_Parameters demo_req) \<lparr>mem_store = [], mem_file = []\<rparr> () =
     (V2Returns (AnyMap [(''key'', AnyString ''k''), (''deleted'', AnyBool True)]), \<lparr>mem_store = [], mem_file = []\<rparr>, ())"
  using parseOp_full [of "''memory''" "''delete''"]
  by (simp add: mem_Execute_def p_str_def demo_req_def gm_get_def any_string_def gm_del_def mem_persist_def)

lemma demo_serve:
  assumes "run_req r = demo_req" "vs_Status (run_resp r) = ''success''" "g2_servers g = g2_servers memory_only" "g2_enforcement g = []"
    "g2_stability g = g2_stability memory_only"
  shows "\<exists>r' g'. v2_serve demo_os 0 memory_cap r g () = (None, r', g', ()) \<and> vs_Status (run_resp r') = ''success'' \<and>
    vs_Server (run_resp r') = ''memory'' \<and> g2_stability g' = g2_stability memory_only"
proof -
  have "full_op (demo_req\<lparr>vr_Context := ctx\<rparr>) = ''memory.delete''" "full_op demo_req = ''memory.delete''" for ctx
    by (simp_all add: full_op_def demo_req_def)
  moreover have "cap_Server memory_cap = ''memory''" by (simp add: memory_cap_def capability_def)
  moreover have "run_req (v2_routed ''memory'' r) = demo_req" "vs_Server (run_resp (v2_routed ''memory'' r)) = ''memory''"
    "vs_Status (run_resp (v2_routed ''memory'' r)) = ''success''"
    using assms(1,2) by (simp_all add: v2_routed_def Let_def)
  ultimately show ?thesis using assms(3-)
    by (simp add: v2_serve_def memory_only_fields gm_get_def enf_Check_def v2_call_def demo_delete demo_now v2_observed_def Let_def)
qed

lemma demo_success:
  "\<exists>resp g'. v2_Process demo_os demo_req memory_only () = (Some (resp, g'), ()) \<and> vs_Status resp = ''success'' \<and> vs_Server resp = ''memory''"
proof -
  let ?r0 = "trace_step ''rate_limit'' ''allowed'' [] (init_run demo_req)"
  let ?g = "memory_only\<lparr>g2_rateLimiter := (NewTokenBucket 10000 5000 0)\<lparr>tb_tokens := 9999\<rparr>\<rparr>"
  have r0: "run_req ?r0 = demo_req" by (simp add: init_run_def)
  have "Resolve NewRouter (va_Type (vr_Action demo_req)) (va_Operation (vr_Action demo_req)) = Inr memory_cap"
    by (simp add: demo_req_def Resolve_def NewRouter_def gm_get_def memory_cap_def capability_def)
  then obtain r1 where r1: "v2_admit NewRouter ?r0 = Inr (memory_cap, r1)" "run_req r1 = demo_req"
    using admitted_run [of NewRouter ?r0 memory_cap] demo_admitted r0 by metis
  then have "vs_Status (run_resp r1) = ''success''" using admit_Inr [OF r1(1)] by (simp add: init_run_def)
  then obtain r' g' where sv: "v2_serve demo_os 0 memory_cap r1 ?g () = (None, r', g', ())" "vs_Status (run_resp r') = ''success''"
      "vs_Server (run_resp r') = ''memory''" "g2_stability g' = g2_stability memory_only"
    using demo_serve [of r1 ?g] r1(2) by (auto simp: memory_only_fields)
  have "v2_knowledge demo_os ?g r1 () = (None, r1, ())" by (simp add: v2_knowledge_def memory_only_fields gm_get_def)
  moreover have "v2_override demo_os ?g memory_cap r1 () = (Some (memory_cap, r1), ())"
    by (simp add: v2_override_def r1(2)) (simp add: demo_req_def)
  ultimately have b: "v2_body demo_os 0 (init_run demo_req) memory_only () = (None, r', g', ())"
    using r1(1) sv(1) by (simp add: v2_body_def demo_now memory_only_fields)
  obtain g2 where "v2_learn demo_os 0 r' g' () = (Some g2, ())"
    using learn_Some [of g' demo_os 0 r' "()"] sv(4) by (auto simp: memory_only_fields NewStabilityEngine_def)
  moreover have "trace_ids demo_os demo_req () = (demo_req, ())" by (simp add: trace_ids_def demo_req_def)
  ultimately show ?thesis using sv(2,3) b by (simp add: v2_Process_def demo_now v2_deferred_def v2_recover_def)
qed

lemma v2_success_admitted_witness:
  "\<exists>resp g'. v2_Process demo_os demo_req memory_only () = (Some (resp, g'), ()) \<and> vs_Status resp = ''success'' \<and>
    er_Allowed (enf_Check (g2_enforcement memory_only) (vs_Server resp) (full_op demo_req)) \<and> ValidateRequest demo_req = None \<and>
    (\<exists>server kn w1 server' w2. gm_get (g2_servers memory_only) (vs_Server resp) = Some server \<and>
      v2_Execute demo_os server (full_op demo_req) (vr_Parameters demo_req)
        ((vr_Context demo_req)\<lparr>vc_Knowledge := kn, vc_TimeoutMs := vm_Timeout (vr_Meta demo_req)\<rparr>) w1 = (V2Returns (vs_Data resp), server', w2))"
proof -
  obtain resp g' where p: "v2_Process demo_os demo_req memory_only () = (Some (resp, g'), ())" "vs_Status resp = ''success''"
    using demo_success by blast
  from v2_success_admitted [OF p] show ?thesis using p by blast
qed

lemma override_takes_best_witness:
  "\<exists>cap' r' w'. v2_override demo_os demo_gateway memory_cap
      ((init_run demo_req)\<lparr>run_req := demo_req\<lparr>vr_Context := (vr_Context demo_req)\<lparr>vc_Knowledge := [\<lparr>kd_Collection = [], kd_Query = [],
        kd_Results = AnyMap [], kd_DurationMs = 0\<rparr>]\<rparr>\<rparr>\<rparr>) () = (Some (cap', r'), w') \<and> cap' \<in> set (ListAll (g2_router demo_gateway))"
proof -
  let ?r = "(init_run demo_req)\<lparr>run_req := demo_req\<lparr>vr_Context := (vr_Context demo_req)\<lparr>vc_Knowledge := [\<lparr>kd_Collection = [], kd_Query = [],
        kd_Results = AnyMap [], kd_DurationMs = 0\<rparr>]\<rparr>\<rparr>\<rparr>"
  note c = NewGateway_fields(1) [OF demo_new] NewRouter_caps(1,2)
  have h: "vc_Knowledge (vr_Context (run_req ?r)) \<noteq> []" "set (fst (v2_Range demo_os (ListAll (g2_router demo_gateway)) ())) = set (ListAll (g2_router demo_gateway))"
    "memory_cap \<in> set (ListAll (g2_router demo_gateway))" "inj_on cap_Server (set (ListAll (g2_router demo_gateway)))"
    using c by (simp_all add: demo_os_def)
  obtain cap' r' w' where o: "v2_override demo_os demo_gateway memory_cap ?r () = (Some (cap', r'), w')"
    by (rule override_result [OF h])
  then show ?thesis using override_takes_best [OF o h] by blast
qed

end
