(* ===== verification/V2_Stdio.thy ===== *)
theory V2_Stdio
  imports V2_Gateway Mek_Verify
begin

text \<open>
  The command of the second gateway, \<open>runtime/mcp/v2/cmd/main.go\<close>: one request from a file, the built-in test request, and
  a single server behind JSON-RPC on standard input, which no policy of the gateway guards. Lines come with what the JSON
  decoder makes of them, an argument; a reply is the value that is encoded and printed. The reading of lines stops
  at one that does not fit the buffer of the scanner, as in \<open>Mek_Verify\<close>.
\<close>

subsection \<open>Messages\<close>

record jsonrpcError =
  jx_Code :: int
  jx_Message :: string

record toolInput =
  ti_Name :: string
  ti_Arguments :: payload

text \<open>A message that came in, its parameters as decoded for a tool call, and a reply.\<close>

record jsonrpcIn =
  jm_ID :: "string option"
  jm_Method :: string
  jm_Params :: "string + toolInput"

record jsonrpcMsg =
  jr_ID :: "string option"
  jr_Result :: "any option"
  jr_Error :: "jsonrpcError option"

definition reply_result :: "jsonrpcIn \<Rightarrow> any \<Rightarrow> jsonrpcMsg" where
  "reply_result msg v = \<lparr>jr_ID = jm_ID msg, jr_Result = Some v, jr_Error = None\<rparr>"

definition reply_error :: "jsonrpcIn \<Rightarrow> int \<Rightarrow> string \<Rightarrow> jsonrpcMsg" where
  "reply_error msg code m = \<lparr>jr_ID = jm_ID msg, jr_Result = None, jr_Error = Some \<lparr>jx_Code = code, jx_Message = m\<rparr>\<rparr>"

definition server_info :: "string \<Rightarrow> any" where
  "server_info name =
     AnyMap [(''protocolVersion'', AnyString ''2024-11-05''), (''capabilities'', AnyMap [(''tools'', AnyMap [])]),
             (''serverInfo'', AnyMap [(''name'', AnyString name), (''version'', AnyString ''1.0.0'')])]"

definition tool_schema :: any where
  "tool_schema =
     AnyMap [(''type'', AnyString ''object''), (''properties'', AnyMap [(''payload'', AnyMap [(''type'', AnyString ''object'')])]),
             (''required'', AnyList [AnyString ''payload''])]"

definition tool_list :: "string \<Rightarrow> any" where
  "tool_list name =
     AnyMap [(''tools'', AnyList [AnyMap [(''name'', AnyString name), (''description'', AnyString (name @ '' MCP adapter'')), (''inputSchema'', tool_schema)]])]"

subsection \<open>Tool calls\<close>

definition no_context :: V2Context where
  "no_context = \<lparr>vc_TenantID = [], vc_SessionID = [], vc_TraceID = [], vc_TimeoutMs = 0, vc_Knowledge = [], vc_Path = [], vc_Repo = []\<rparr>"

definition call_action :: "toolInput \<Rightarrow> string" where
  "call_action input = (let action = p_str (ti_Arguments input) ''action'' in if action = [] then ti_Name input else action)"

definition call_payload :: "toolInput \<Rightarrow> payload" where
  "call_payload input = (case gm_get (ti_Arguments input) ''payload'' of Some (AnyMap pm) \<Rightarrow> pm | _ \<Rightarrow> ti_Arguments input)"

text \<open>Nothing recovers from a panic of the server: the process ends.\<close>

datatype stdio_out = StdioWrites jsonrpcMsg | StdioSilent | StdioCrashes string

definition stdio_call :: "'w v2sys \<Rightarrow> string \<Rightarrow> 'w V2Server \<Rightarrow> jsonrpcIn \<Rightarrow> toolInput \<Rightarrow> 'w \<Rightarrow> stdio_out \<times> 'w V2Server \<times> 'w" where
  "stdio_call os name srv msg input w =
     (case v2_Execute os srv (name @ ''.'' @ call_action input) (call_payload input) no_context w of
        (V2Panics e, s) \<Rightarrow> (StdioCrashes e, s)
      | (V2Fails e, s) \<Rightarrow> (StdioWrites (reply_error msg (- 32000) e), s)
      | (V2Returns v, s) \<Rightarrow>
          (StdioWrites (reply_result msg (AnyMap [(''content'', AnyList [AnyMap [(''type'', AnyString ''json''), (''json'', v)]])])), s))"

definition stdio_handle :: "'w v2sys \<Rightarrow> string \<Rightarrow> 'w V2Server \<Rightarrow> jsonrpcIn \<Rightarrow> 'w \<Rightarrow> stdio_out \<times> 'w V2Server \<times> 'w" where
  "stdio_handle os name srv msg w =
     (if jm_Method msg = ''initialize'' then (StdioWrites (reply_result msg (server_info name)), srv, w)
      else if jm_Method msg = ''tools/list'' then (StdioWrites (reply_result msg (tool_list name)), srv, w)
      else if jm_Method msg = ''tools/call'' then
        (case jm_Params msg of
           Inl err \<Rightarrow> (StdioWrites (reply_error msg (- 32602) ''invalid params''), srv, w)
         | Inr input \<Rightarrow> stdio_call os name srv msg input w)
      else if jm_ID msg \<noteq> None then (StdioWrites (reply_error msg (- 32601) (''method not found: '' @ jm_Method msg)), srv, w)
      else (StdioSilent, srv, w))"

subsection \<open>The loop\<close>

record 'w stdio_end =
  so_Replies :: "jsonrpcMsg list"
  so_Crash :: "string option"
  so_World :: 'w

definition so_add :: "jsonrpcMsg \<Rightarrow> 'w stdio_end \<Rightarrow> 'w stdio_end" where "so_add m e = e\<lparr>so_Replies := m # so_Replies e\<rparr>"

fun stdio_loop :: "'w v2sys \<Rightarrow> string \<Rightarrow> (string \<Rightarrow> jsonrpcIn option) \<Rightarrow> string list \<Rightarrow> 'w V2Server \<Rightarrow> 'w \<Rightarrow> 'w stdio_end" where
  "stdio_loop os name parse [] srv w = \<lparr>so_Replies = [], so_Crash = None, so_World = w\<rparr>"
| "stdio_loop os name parse (l # ls) srv w =
     (if length l \<ge> max_token then \<lparr>so_Replies = [], so_Crash = None, so_World = w\<rparr>
      else if trim_space l = [] then stdio_loop os name parse ls srv w
      else case parse (trim_space l) of
             None \<Rightarrow> stdio_loop os name parse ls srv w
           | Some msg \<Rightarrow>
               (case stdio_handle os name srv msg w of
                  (StdioWrites m, srv1, w1) \<Rightarrow> so_add m (stdio_loop os name parse ls srv1 w1)
                | (StdioSilent, srv1, w1) \<Rightarrow> stdio_loop os name parse ls srv1 w1
                | (StdioCrashes e, srv1, w1) \<Rightarrow> \<lparr>so_Replies = [], so_Crash = Some e, so_World = w1\<rparr>))"

fun adapter_name :: "string list \<Rightarrow> string" where
  "adapter_name (a # b # rest) = (if a = ''--adapter'' then b else adapter_name (b # rest))"
| "adapter_name _ = []"

datatype 'w main_out =
  MainUsage | MainNoName | MainUnknownAdapter string | MainServed "'w stdio_end" | MainReadError string | MainParseError string
| MainProcessed "(V2Response \<times> 'w Gateway2) option \<times> 'w"

definition runStdio :: "'w v2sys \<Rightarrow> (string \<Rightarrow> jsonrpcIn option) \<Rightarrow> string list \<Rightarrow> string list \<Rightarrow> 'w \<Rightarrow> 'w main_out" where
  "runStdio os parse argv lines w =
     (let name = adapter_name argv in
      if name = [] then MainNoName
      else let (gw, w1) = NewGateway os w in
           case gm_get (g2_servers gw) name of
             None \<Rightarrow> MainUnknownAdapter name
           | Some srv \<Rightarrow> MainServed (stdio_loop os name parse lines srv w1))"

definition test_request :: V2Request where
  "test_request =
     \<lparr>vr_ID = ''test-001'', vr_Timestamp = ''2026-06-10T20:00:00Z'', vr_Source = ''opencode'', vr_Type = ''mcp.request'',
      vr_Action = \<lparr>va_Type = ''git'', va_Operation = ''status'', va_Version = ''1.0''\<rparr>,
      vr_Context = no_context\<lparr>vc_TenantID := ''t1'', vc_SessionID := ''s1'', vc_TraceID := ''tr1'', vc_Path := ''/demo''\<rparr>,
      vr_Resource = [], vr_Parameters = [], vr_Auth = \<lparr>vu_Type = ''bearer'', vu_Scope = [''read'']\<rparr>,
      vr_Policy = \<lparr>vp_Allow = [''git.*''], vp_Deny = []\<rparr>,
      vr_Meta = \<lparr>vm_Priority = ''high'', vm_Timeout = 30000, vm_Retry = 2, vm_TraceID = ''demo-trace'', vm_SpanID = ''demo-span''\<rparr>\<rparr>"

definition run_new :: "'w v2sys \<Rightarrow> V2Request \<Rightarrow> 'w \<Rightarrow> (V2Response \<times> 'w Gateway2) option \<times> 'w" where
  "run_new os req w = (let (gw, w1) = NewGateway os w in v2_Process os req gw w1)"

definition main :: "'w v2sys \<Rightarrow> (string \<Rightarrow> jsonrpcIn option) \<Rightarrow> (string \<Rightarrow> string + V2Request) \<Rightarrow> string list \<Rightarrow> string list \<Rightarrow> 'w \<Rightarrow> 'w main_out" where
  "main os parse parse_request argv lines w =
     (if length argv \<ge> 2 \<and> argv ! 1 = ''--adapter'' then runStdio os parse argv lines w
      else if length argv < 2 then MainUsage
      else if argv ! 1 = ''--test'' then MainProcessed (run_new os test_request w)
      else case v2_ReadFile os (argv ! 1) w of
             (Inl err, w1) \<Rightarrow> MainReadError err
           | (Inr raw, w1) \<Rightarrow>
               (case parse_request raw of Inl err \<Rightarrow> MainParseError err | Inr req \<Rightarrow> MainProcessed (run_new os req w1)))"

subsection \<open>What it promises\<close>

text \<open>The test request is valid and allowed by its own policy.\<close>

lemma test_request_valid: "ValidateRequest test_request = None"
  by (simp add: ValidateRequest_iff test_request_def no_context_def validActionTypes_def validAuthTypes_def validPriorities_def maxTimeout_def maxRetry_def)

lemma test_request_allowed: "Enforce ''git'' ''status'' (vr_Policy test_request) = None"
  by (simp add: Enforce_iff policy_patterns_def test_request_def)

text \<open>The messages of the input, and those that are answered.\<close>

definition stdio_messages :: "(string \<Rightarrow> jsonrpcIn option) \<Rightarrow> string list \<Rightarrow> jsonrpcIn list" where
  "stdio_messages parse lines =
     List.map_filter (\<lambda>l. if trim_space l = [] then None else parse (trim_space l)) (takeWhile (\<lambda>l. length l < max_token) lines)"

definition stdio_answered :: "jsonrpcIn \<Rightarrow> bool" where
  "stdio_answered msg \<longleftrightarrow> jm_Method msg \<in> {''initialize'', ''tools/list'', ''tools/call''} \<or> jm_ID msg \<noteq> None"

lemma stdio_handle_answers:
  "case stdio_handle os name srv msg w of
     (StdioWrites m, s) \<Rightarrow> stdio_answered msg \<and> jr_ID m = jm_ID msg
   | (StdioSilent, s) \<Rightarrow> \<not> stdio_answered msg
   | (StdioCrashes e, s) \<Rightarrow> stdio_answered msg"
  by (auto simp: stdio_handle_def stdio_call_def stdio_answered_def reply_result_def reply_error_def
      split: sum.split prod.split v2_result.split stdio_out.split)

text \<open>C38:
  The replies of an adapter carry the identifiers of the messages that have an answer, in their order and each once:
  of all of them, or, when the server panics, of those before the call that made it.
\<close>
theorem stdio_answers_in_order:
  fixes os :: "'w v2sys" and name :: string and parse :: "string \<Rightarrow> jsonrpcIn option" and srv :: "'w V2Server" and w :: 'w
  defines "out \<equiv> \<lambda>lines. stdio_loop os name parse lines srv w"
    and "ids \<equiv> \<lambda>lines. map jm_ID (filter stdio_answered (stdio_messages parse lines))"
  shows "map jr_ID (so_Replies (out lines)) = take (length (so_Replies (out lines))) (ids lines) \<and>
    (if so_Crash (out lines) = None then length (so_Replies (out lines)) = length (ids lines)
     else length (so_Replies (out lines)) < length (ids lines))"
proof -
  have "map jr_ID (so_Replies (stdio_loop os name parse lines srv w)) =
      take (length (so_Replies (stdio_loop os name parse lines srv w))) (ids lines) \<and>
    (if so_Crash (stdio_loop os name parse lines srv w) = None then length (so_Replies (stdio_loop os name parse lines srv w)) = length (ids lines)
     else length (so_Replies (stdio_loop os name parse lines srv w)) < length (ids lines))" for srv :: "'w V2Server" and w
  proof (induction lines arbitrary: srv w)
    case (Cons l ls)
    show ?case
    proof (cases "length l < max_token \<and> trim_space l \<noteq> []")
      case True
      then have l: "\<not> max_token \<le> length l" "trim_space l \<noteq> []" by auto
      show ?thesis
      proof (cases "parse (trim_space l)")
        case (Some msg)
        obtain o1 srv1 w1 where h: "stdio_handle os name srv msg w = (o1, srv1, w1)" by (metis prod_cases3)
        have ids: "ids (l # ls) = (if stdio_answered msg then jm_ID msg # ids ls else ids ls)"
          using True Some by (simp add: ids_def stdio_messages_def List.map_filter_simps)
        from Cons.IH [of srv1 w1] stdio_handle_answers [where os = os and name = name and srv = srv and msg = msg and w = w] show ?thesis
          by (cases o1) (simp_all add: l Some h ids so_add_def split: if_splits)
      next
        case None
        have "ids (l # ls) = ids ls" using True None by (simp add: ids_def stdio_messages_def List.map_filter_simps)
        then show ?thesis using Cons.IH [of srv w] l None by simp
      qed
    next
      case False
      show ?thesis
      proof (cases "length l < max_token")
        case True
        then have "ids (l # ls) = ids ls" using False by (simp add: ids_def stdio_messages_def List.map_filter_simps)
        then show ?thesis using Cons.IH [of srv w] True False by simp
      next
        case long: False
        then have "ids (l # ls) = []" by (simp add: ids_def stdio_messages_def List.map_filter_simps)
        then show ?thesis using long by simp
      qed
    qed
  qed (simp add: ids_def stdio_messages_def List.map_filter_simps)
  then show ?thesis by (simp add: out_def)
qed

lemma new_servers:
  "\<exists>mem c7 c. g2_servers (fst (NewGateway os w)) =
     [(''git'', GitServer), (''filesystem'', FilesystemServer), (''memory'', MemoryServer mem), (''github'', GitHubServer),
      (''fetch'', FetchServer), (''context7'', Context7Server c7), (''postgres'', PostgresAdapter []),
      (''chroma'', ChromaServer c), (''chromadb'', ChromaServer c)]"
proof -
  obtain now w1 where n: "v2_Now os w = (now, w1)" by fastforce
  obtain mem w2 where m: "NewMemoryServer os [] w1 = (mem, w2)" by fastforce
  obtain c7 w3 where c: "NewContext7Server os w2 = (c7, w3)" by fastforce
  show ?thesis unfolding NewGateway_def registerDefaults_def n m c Let_def prod.case fst_conv by (simp add: gm_put_def m c Let_def)
qed

text \<open>C39:
  A tool call as the listed schema describes it, with a payload and no action, fails for every server of a new gateway
  with an error and without an effect, and so does every call of the git, file and GitHub servers, which need a workspace
  or a token that no context gives them.
\<close>
theorem stdio_schema_call_fails:
  assumes "(name, srv) \<in> set (g2_servers (fst (NewGateway os w0)))" "jm_Method msg = ''tools/call''" "jm_Params msg = Inr input"
    and "name \<in> {''git'', ''filesystem'', ''github''} \<or> ti_Name input = name \<and> gm_get (ti_Arguments input) ''action'' = None"
  shows "\<exists>e. stdio_handle os name srv msg w = (StdioWrites (reply_error msg (- 32000) e), srv, w)"
proof -
  have call: "stdio_handle os name srv msg w = stdio_call os name srv msg input w"
    using assms(2,3) by (simp add: stdio_handle_def)
  have fails: "\<exists>e. stdio_call os name srv msg input w = (StdioWrites (reply_error msg (- 32000) e), srv, w)"
    if "\<exists>e. v2_Execute os srv (name @ ''.'' @ call_action input) (call_payload input) no_context w = (V2Fails e, srv, w)"
    using that by (auto simp: stdio_call_def)
  have own: "call_action input = name" if "ti_Name input = name \<and> gm_get (ti_Arguments input) ''action'' = None"
    using that by (simp add: call_action_def p_str_def any_string_def)
  consider "name = ''git''" "srv = GitServer" | "name = ''filesystem''" "srv = FilesystemServer" | "name = ''github''" "srv = GitHubServer"
    | "name = ''fetch''" "srv = FetchServer" "call_action input = name" | s where "name = ''memory''" "srv = MemoryServer s" "call_action input = name"
    | s where "name = ''context7''" "srv = Context7Server s" "call_action input = name"
    | s where "name = ''postgres''" "srv = PostgresAdapter s" "call_action input = name"
    | s where "name \<in> {''chroma'', ''chromadb''}" "srv = ChromaServer s" "call_action input = name"
    using new_servers [of os w0] assms(1,4) own by auto
  then have "\<exists>e. v2_Execute os srv (name @ ''.'' @ call_action input) (call_payload input) no_context w = (V2Fails e, srv, w)"
  proof cases
    case 3
    then show ?thesis by (simp add: gh2_Execute_def no_context_def Let_def)
  next
    case (8 s)
    then show ?thesis by (auto simp: chroma_Execute_def parseOp_def split2_def Let_def)
  qed (simp_all add: git2_Execute_def fs2_Execute_def no_context_def fetch_Execute_def mem_Execute_def c7_Execute_def pg_Execute_def
      parseOp_def split2_def Let_def)
  then show ?thesis using fails call by simp
qed

text \<open>An example: fetching a page as the schema says.\<close>

definition schema_fetch :: jsonrpcIn where
  "schema_fetch = \<lparr>jm_ID = Some ''1'', jm_Method = ''tools/call'',
     jm_Params = Inr \<lparr>ti_Name = ''fetch'', ti_Arguments = [(''payload'', AnyMap [(''url'', AnyString ''http://h'')])]\<rparr>\<rparr>"

lemma stdio_schema_call_fails_witness:
  "\<forall>(os :: unit v2sys) w. \<exists>e. stdio_handle os ''fetch'' FetchServer schema_fetch w =
     (StdioWrites (reply_error schema_fetch (- 32000) e), FetchServer, w)"
proof (intro allI)
  fix os :: "unit v2sys" and w
  have "(''fetch'', FetchServer) \<in> set (g2_servers (fst (NewGateway os ())))" using new_servers [of os "()"] by auto
  from stdio_schema_call_fails [OF this, of schema_fetch]
  show "\<exists>e. stdio_handle os ''fetch'' FetchServer schema_fetch w = (StdioWrites (reply_error schema_fetch (- 32000) e), FetchServer, w)"
    by (simp add: schema_fetch_def gm_get_def)
qed

end
