(* ===== verification/Spec2Isabelle.thy ===== *)
theory Spec2Isabelle
  imports Adapt_Bus Adapt_Predict Run_Gateway Run_Kernel Run_Certify Run_Persist Run_Metrics Run_Orchestrator V2_Routing V2_Stdio
begin

text \<open>
  A verification library of the Go programs of this repository: the execution kernel MEK (\<open>mek\<close>), which runs documents of
  units with declared dependencies, and the MCP runtime (\<open>runtime\<close>), which takes tool calls of agents, decides on them and
  executes them. This theory collects the library and says how it is put together.

  \<^bold>\<open>The execution kernel.\<close> A document (RIR) names units and edges; \<open>ceg.Build\<close> turns it into a layered graph (CEG); the
  scheduler runs the graph layer by layer, in waves of units that do not conflict, and changes the status of a unit through
  the commit engine only; journal and trace collector are told of every commit; replay and verification compare what was
  told with the final state; the adaptive controller turns what verification found into signals, actions and a forecast.

  \<^item> \<open>Mek_Prelude\<close>: Go maps as association lists with distinct keys (the locale \<open>go_map\<close>, interpreted on \<open>gm_get\<close>,
    \<open>gm_put\<close>), sorting, lists. \<open>Mek_Types\<close>: \<open>mek/pkg/types/types.go\<close>.
  \<^item> \<open>Mek_Commit\<close>: \<open>commit/engine.go\<close>. The life cycle is the step relation \<open>status_step\<close>; the engine refines a log of the
    requests it accepted, from which its answers, states and events are computed, and a final state stays.
  \<^item> \<open>Mek_Graph\<close>, \<open>Mek_Kahn\<close>, \<open>Mek_Ceg\<close>: \<open>ceg/builder.go\<close>. The two depth-first searches are \<open>function\<close>s whose measure is
    the number of nodes not visited yet; the loop of \<open>topoSort\<close> ends because every round takes a node. A built graph is
    acyclic, within bounds and layered, and building succeeds on all graphs that are.
  \<^item> \<open>Mek_Rir\<close>: \<open>rir/*.go\<close>, the loader, the validation, the compiler and the scanner of a project.
  \<^item> \<open>Mek_Waves\<close>, \<open>Mek_Scheduler\<close>, \<open>Mek_Run\<close>, \<open>Mek_Determinism\<close>: \<open>scheduler/scheduler.go\<close>. What goroutines and clocks
    decide is an argument (\<open>wave_env\<close>, \<open>run_env\<close>): the order in which results arrive, the readings of the clock, a
    cancelled context. The lemmas on statuses are proved in the locale \<open>status_engine\<close>, interpreted on the commit engine. A
    run executes only units whose condition holds, ends with all of them terminal, and its result does not depend on the
    order of arrival when nothing escalates.
  \<^item> \<open>Mek_Dispatcher\<close>: \<open>dispatcher/dispatcher.go\<close> and \<open>runtime/kernel.go\<close>, with the locale \<open>executor\<close> for what the scheduler
    asks of a dispatcher. \<open>Mek_Observe\<close>: \<open>journal\<close>, \<open>trace\<close> and \<open>contextstore\<close>; the journal can be read back.
    \<open>Mek_Verify\<close>: \<open>replay\<close> and \<open>verify\<close>; what one execution wrote is confirmed by another.
  \<^item> \<open>Adapt_Signal\<close>, \<open>Adapt_Feedback\<close>, \<open>Adapt_Bus\<close>, \<open>Adapt_Predict\<close>: \<open>adaptctl\<close>. Endpoints of the action bus are the locale
    \<open>endpoint\<close>; a rule keeps its cooldown, a forecast stays in its bounds. Calls of \<open>Publish\<close> go on at the same time by the
    relation \<open>bus_step\<close>, the mutex held only where the code holds it: one call delivers an identifier at most once, calls that
    do not overlap together too, and calls that overlap may deliver it twice.

  \<^bold>\<open>The MCP runtime.\<close> It has three entrances that share little code: the kernel (\<open>runtime/kernel\<close>) with its queue,
  policies and workers, the first gateway (\<open>runtime/mcp\<close>) with contracts around tools and a release queue, and the second
  gateway (\<open>runtime/mcp/v2\<close>), which scores servers and learns.

  \<^item> \<open>Go_Strings\<close>, \<open>Go_Base\<close>: the functions of the Go library the services use, decimal numbers, values of type
    \<open>interface{}\<close>. \<open>Run_Types\<close>: \<open>runtime/types\<close>.
  \<^item> \<open>Run_Queue\<close>: \<open>runtime/queue\<close>. Both queues interpret the locale \<open>bounded_queue\<close>. \<open>Run_Policy\<close>: \<open>runtime/policy\<close>, the path
    rule against a walk of the path. \<open>Run_Worker\<close>: \<open>runtime/executor\<close> and \<open>runtime/worker\<close>. \<open>Run_Kernel\<close>: \<open>runtime/kernel\<close>
    and \<open>runtime/observability\<close>; its goroutines interleave by the relation \<open>kernel_step\<close>, invariants are proved by rule
    induction. \<open>Ingest\<close> and the collector hold no lock and take one step per access to what is shared (\<open>ingest_act\<close>,
    \<open>collect_act\<close>); every accepted request is accounted for with its answer, and a call that meets the queue closed panics.
    \<open>Run_State\<close>: \<open>runtime/state\<close>, the traces on disk, a history of saves and removals that a replay gives back, whatever
    faults the saves meet. \<open>Run_Persist\<close>: the goroutines of \<open>kernel/engine.go\<close> that write the traces and take snapshots, and
    compactions, composed with the engine on a disk with faults of its own for every access: the history that can be
    replayed is true, also across restarts. \<open>Run_Certify\<close>: \<open>runtime/compliance\<close> and \<open>runtime/validation\<close>, what the verifiers
    conclude from an engine.
  \<^item> \<open>Run_Contracts\<close>: \<open>mcp/types\<close>, \<open>mcp/contracts\<close>, \<open>mcp/hardening\<close>. The locale \<open>answering\<close> (every answer carries the identifier
    of its request) is interpreted on every tool and every adapter around it, the locale \<open>quota\<close> on the retry budget and
    the backpressure; the circuit breaker is the relation \<open>cb_step\<close> and refines a machine of two states.
    \<open>Run_Observability\<close>: \<open>mcp/observability\<close>. \<open>Run_Release\<close>: \<open>mcp/release\<close>. \<open>Run_Tools\<close>: \<open>mcp/tools\<close>. \<open>Run_Gateway\<close>: \<open>mcp/router\<close>,
    \<open>mcp/gateway.go\<close>.
  \<^item> \<open>V2_Policy\<close>: \<open>schema.go\<close>, \<open>validate.go\<close>, \<open>policy.go\<close>, \<open>router.go\<close>, \<open>enforcement.go\<close>, \<open>policy_intelligence.go\<close>, \<open>trace.go\<close>.
    \<open>V2_Learning\<close>: \<open>feedback.go\<close> and the token bucket. \<open>V2_Servers\<close>: \<open>servers.go\<close>, with what lies below the workspace.
    \<open>V2_Gateway\<close>: \<open>gateway.go\<close>, \<open>governance.go\<close>: it fails closed, it always answers, a success was admitted and is the result
    of the server it names. \<open>V2_Routing\<close>: how
    what is learned acts on later requests. \<open>V2_Stdio\<close>: \<open>cmd/main.go\<close>, a single server on standard input, past the gateway.
    \<open>Run_Metrics\<close>: \<open>runtime/metrics\<close>.
  \<^item> \<open>Run_Orchestrator\<close>: \<open>runtime/orchestrator/v1\<close>. The goroutines of \<open>Process\<close> run under a schedule; whatever it is, a failing,
    panicking or hanging system does not keep another from being recorded. A script that never ends is a result of its own
    (\<open>OrcHangs\<close>), with which \<open>Process\<close> never answers.

  \<^bold>\<open>Conventions.\<close> A struct is a record, an enumeration a datatype, a map a \<open>gomap\<close> (the order of its keys is the order of
  insertion; theorems on ranges over maps hold for every order or say which order they take), an error a value of a sum or
  option type, a panic a value of its own. State is passed explicitly; a shared pointer is the record that owns it. Integers
  that cannot reach their bounds are \<open>int\<close> or \<open>nat\<close>; hashes and counters whose width matters are words. \<open>float64\<close> is \<open>rat\<close> or
  \<open>real\<close>, without rounding. Clocks, files, git, HTTP and processes are arguments: functions of a world that they may
  change. They return, but for the scripts of the orchestrator; the code gives no timeout to git and to the HTTP calls of the
  release bridge, so where these do not answer it blocks. Loops are structural recursion where the code ranges over data; a
  loop that can wait for ever has the value None for not returning (\<open>WaitWave\<close>, under its environment). The only fuel is
  that of \<open>pq_loop\<close> in \<open>Run_Release\<close>: \<open>queue_work\<close> of the queue and one more, which is at most eleven rounds for each entry
  (with a count of attempts that is not negative); that is proved to be enough and further fuel to change nothing.

  \<^bold>\<open>Where the laws stand.\<close> The numbered properties are the last lemmas of their theories; examples that show their
  hypotheses can hold follow each. Lemmas with names such as \<open>breaker_stuck\<close>, \<open>fair_queue_starves\<close>,
  \<open>shutdown_loses_requests\<close>, \<open>late_call_panics\<close>, \<open>overlapping_deliver_twice\<close>, \<open>compaction_removes_new_trace\<close>,
  \<open>failing_tool_panics\<close> or \<open>trace_overwrites_meta\<close> prove behaviour of the code that its comments or documents do not intend.

  \<^bold>\<open>Not modelled.\<close> The commands \<open>mek/cmd\<close> and \<open>runtime/main.go\<close> read arguments and print. Of the compliance and validation
  suites the temporary directories, the sleeps and the printed reports are left out. An operation under a lock is one step;
  what the code does between locks, or without one, is separate steps where several goroutines meet: the action bus, the
  kernel with its files, and the orchestrator. Elsewhere operations follow one another. Log lines that no operation reads are left out. The Python services of the repository are not part of
  the Go programs.
\<close>

end
